(* ===== verification/Prelude.thy ===== *)
theory Prelude
  imports
    Complex_Main
    "HOL-Library.AList"
    "HOL-Library.Char_ord"
    "HOL-Library.List_Lexorder"
    "HOL-Library.Multiset"
    "HOL-Library.Product_Lexorder"
begin

text \<open>
  Shared vocabulary of the development: Python's exceptions as values, its insertion-ordered
  dictionaries as association lists with distinct keys, its stable sorts, and the generic lemmas
  on them that the component theories use.

  Dictionaries.  Since Python 3.7 a \<open>dict\<close> iterates in insertion order, and assigning to a key that
  is already present keeps its place.  \<^const>\<open>AList.update\<close> does exactly that, so a dictionary is an
  association list, read with \<^const>\<open>map_of\<close>, whose keys are distinct (\<open>dict_ok\<close>).

  Floats.  Python floats and numpy doubles are modelled by \<^typ>\<open>real\<close>: arithmetic is exact, and
  rounding is modelled only where the code itself rounds (decimal printing, \<open>round\<close>).
  Tuples and strings compare lexicographically, as the orders of \<open>Product_Lexorder\<close> and
  \<open>List_Lexorder\<close> do; characters compare by code point.
\<close>

named_theorems dict_simps \<open>reading and writing dictionaries\<close>
named_theorems sort_simps \<open>what sorting keeps\<close>

section \<open>Exceptions as values\<close>

datatype py_error =
    ValueError
  | KeyError
  | IndexError
  | TypeError
  | AttributeError
  | OverflowError
  | ZeroDivisionError
  | AssertionError
  | FloatingPointError
  | RuntimeError
  | RecursionError
  | StopIteration
  | FileNotFoundError
  | SystemExit

type_synonym 'a res = "py_error + 'a"

fun res_bind :: "'a res \<Rightarrow> ('a \<Rightarrow> 'b res) \<Rightarrow> 'b res" where
  "res_bind (Inl e) f = Inl e"
| "res_bind (Inr x) f = f x"

fun res_map :: "('a \<Rightarrow> 'b res) \<Rightarrow> 'a list \<Rightarrow> 'b list res" where
  "res_map f [] = Inr []"
| "res_map f (x # xs) = res_bind (f x) (\<lambda>y. res_bind (res_map f xs) (\<lambda>ys. Inr (y # ys)))"

fun res_fold :: "('s \<Rightarrow> 'a \<Rightarrow> 's res) \<Rightarrow> 's \<Rightarrow> 'a list \<Rightarrow> 's res" where
  "res_fold f s [] = Inr s"
| "res_fold f s (x # xs) = res_bind (f s x) (\<lambda>s'. res_fold f s' xs)"

lemma res_bind_Inr_iff [simp]:
  "res_bind r f = Inr y \<longleftrightarrow> (\<exists>x. r = Inr x \<and> f x = Inr y)"
  by (cases r) auto

lemma res_map_Inr_length: "res_map f xs = Inr ys \<Longrightarrow> length ys = length xs"
  by (induction xs arbitrary: ys) auto

lemma res_map_all_Inr:
  "(\<And>x. x \<in> set xs \<Longrightarrow> f x = Inr (g x)) \<Longrightarrow> res_map f xs = Inr (map g xs)"
  by (induction xs) auto

lemma res_map_Inr_nth:
  "res_map f xs = Inr ys \<Longrightarrow> i < length xs \<Longrightarrow> f (xs ! i) = Inr (ys ! i)"
proof (induction xs arbitrary: ys i)
  case (Cons x xs)
  then show ?case by (cases i) auto
qed simp

lemma res_map_Inr_set:
  "res_map f xs = Inr ys \<Longrightarrow> y \<in> set ys \<Longrightarrow> \<exists>x \<in> set xs. f x = Inr y"
  by (induction xs arbitrary: ys) auto

lemma res_fold_append [simp]:
  "res_fold f s (xs @ ys) = res_bind (res_fold f s xs) (\<lambda>s'. res_fold f s' ys)"
proof (induction xs arbitrary: s)
  case (Cons x xs)
  then show ?case by (cases "f s x") auto
qed simp

text \<open>An invariant every successful step keeps holds at the end of a successful loop.\<close>

lemma res_fold_invariant:
  assumes "res_fold f s xs = Inr t" and "P s"
    and "\<And>s x s'. x \<in> set xs \<Longrightarrow> P s \<Longrightarrow> f s x = Inr s' \<Longrightarrow> P s'"
  shows "P t"
  using assms
proof (induction xs arbitrary: s)
  case (Cons x xs)
  then obtain s' where "f s x = Inr s'" and "res_fold f s' xs = Inr t" by auto
  with Cons show ?case by (metis list.set_intros(1,2))
qed simp

lemma res_fold_all_Inr:
  "(\<And>s x. x \<in> set xs \<Longrightarrow> f s x = Inr (g s x)) \<Longrightarrow> res_fold f s xs = Inr (foldl g s xs)"
  by (induction xs arbitrary: s) auto

lemma res_fold_map_Inr:
  "(\<And>s x. x \<in> set xs \<Longrightarrow> f s (h x) = Inr (g s x)) \<Longrightarrow> res_fold f s (map h xs) = Inr (foldl g s xs)"
  by (induction xs arbitrary: s) auto

text \<open>A computation that may also not return: None is a loop that does not end.\<close>

type_synonym 'a diverging = "'a res option"

fun div_bind :: "'a diverging \<Rightarrow> ('a \<Rightarrow> 'b diverging) \<Rightarrow> 'b diverging" where
  "div_bind None f = None"
| "div_bind (Some (Inl e)) f = Some (Inl e)"
| "div_bind (Some (Inr x)) f = f x"

fun div_map :: "('a \<Rightarrow> 'b diverging) \<Rightarrow> 'a list \<Rightarrow> 'b list diverging" where
  "div_map f [] = Some (Inr [])"
| "div_map f (x # xs) = div_bind (f x) (\<lambda>y. div_bind (div_map f xs) (\<lambda>ys. Some (Inr (y # ys))))"

section \<open>Dictionaries\<close>

type_synonym ('k, 'v) dict = "('k \<times> 'v) list"

abbreviation dict_ok :: "('k, 'v) dict \<Rightarrow> bool" where
  "dict_ok d \<equiv> distinct (map fst d)"

abbreviation keys :: "('k, 'v) dict \<Rightarrow> 'k list" where
  "keys d \<equiv> map fst d"

definition dget :: "('k, 'v) dict \<Rightarrow> 'k \<Rightarrow> 'v \<Rightarrow> 'v" where
  \<comment> \<open>\<open>d.get(k, default)\<close>\<close>
  "dget d k v = (case map_of d k of Some x \<Rightarrow> x | None \<Rightarrow> v)"

definition dhas :: "('k, 'v) dict \<Rightarrow> 'k \<Rightarrow> bool" where
  \<comment> \<open>\<open>k in d\<close>\<close>
  "dhas d k = (map_of d k \<noteq> None)"

definition dlookup :: "('k, 'v) dict \<Rightarrow> 'k \<Rightarrow> 'v res" where
  \<comment> \<open>\<open>d[k]\<close>\<close>
  "dlookup d k = (case map_of d k of Some x \<Rightarrow> Inr x | None \<Rightarrow> Inl KeyError)"

definition dset :: "('k, 'v) dict \<Rightarrow> 'k \<Rightarrow> 'v \<Rightarrow> ('k, 'v) dict" where
  \<comment> \<open>\<open>d[k] = v\<close>\<close>
  "dset d k v = AList.update k v d"

definition dict_of :: "('k \<times> 'v) list \<Rightarrow> ('k, 'v) dict" where
  \<comment> \<open>\<open>dict(pairs)\<close>, a dict comprehension: later pairs win, first occurrence keeps its place\<close>
  "dict_of ps = foldl (\<lambda>d (k, v). dset d k v) [] ps"

lemma map_of_dset [dict_simps, simp]: "map_of (dset d k v) = (map_of d)(k \<mapsto> v)"
  by (simp add: dset_def update_conv')

lemma dict_ok_dset [dict_simps, simp]: "dict_ok d \<Longrightarrow> dict_ok (dset d k v)"
  by (simp add: dset_def distinct_update)

lemma keys_dset: "set (keys (dset d k v)) = insert k (set (keys d))"
  unfolding dset_def by (induction d) auto

lemma dset_new: "k \<notin> set (keys d) \<Longrightarrow> dset d k v = d @ [(k, v)]"
  unfolding dset_def by (induction d) auto

lemma keys_dset_list:
  "keys (dset d k v) = (if k \<in> set (keys d) then keys d else keys d @ [k])"
  unfolding dset_def by (induction d) auto

lemma keys_dset_old: "k \<in> set (keys d) \<Longrightarrow> keys (dset d k v) = keys d"
  by (simp add: keys_dset_list)

lemma dget_dset [dict_simps, simp]:
  "dget (dset d k v) k' w = (if k = k' then v else dget d k' w)"
  by (auto simp: dget_def)

lemma dhas_iff [dict_simps]: "dhas d k \<longleftrightarrow> k \<in> set (keys d)"
  by (auto simp: dhas_def map_of_eq_None_iff)

lemma dhas_dset [dict_simps, simp]: "dhas (dset d k v) k' \<longleftrightarrow> k = k' \<or> dhas d k'"
  by (auto simp: dhas_def)

lemma dget_absent [dict_simps]: "k \<notin> set (keys d) \<Longrightarrow> dget d k v = v"
proof -
  assume "k \<notin> set (keys d)"
  then have "map_of d k = None" by (simp add: map_of_eq_None_iff)
  then show ?thesis by (simp add: dget_def)
qed

lemma dget_present:
  "dict_ok d \<Longrightarrow> (k, v) \<in> set d \<Longrightarrow> dget d k w = v"
  by (simp add: dget_def map_of_eq_Some_iff)

lemma dget_in: "k \<in> set (keys d) \<Longrightarrow> (k, dget d k w) \<in> set d"
  by (auto simp: dget_def map_of_eq_None_iff dest: map_of_SomeD split: option.splits)

lemma dget_Nil [simp]: "dget [] k v = v"
  by (simp add: dget_def)

lemma dget_Cons [simp]: "dget ((k, x) # d) k' v = (if k = k' then x else dget d k' v)"
  by (auto simp: dget_def)

lemma foldl_dset_map_of:
  "map_of (foldl (\<lambda>d (k, v). dset d k v) d ps) = map_of d ++ map_of (rev ps)"
proof (induction ps arbitrary: d)
  case (Cons p ps)
  then show ?case by (cases p) (auto simp: fun_eq_iff map_add_def split: option.splits)
qed simp

lemma map_of_dict_of: "map_of (dict_of ps) = map_of (rev ps)"
  by (simp add: dict_of_def foldl_dset_map_of)

lemma foldl_dset_ok: "dict_ok d \<Longrightarrow> dict_ok (foldl (\<lambda>d (k, v). dset d k v) d ps)"
  by (induction ps arbitrary: d) auto

lemma dict_ok_dict_of [simp]: "dict_ok (dict_of ps)"
  by (simp add: dict_of_def foldl_dset_ok)

lemma foldl_dset_distinct:
  "distinct (map fst ps) \<Longrightarrow> set (map fst ps) \<inter> set (keys d) = {} \<Longrightarrow>
   foldl (\<lambda>d (k, v). dset d k v) d ps = d @ ps"
proof (induction ps arbitrary: d)
  case (Cons p ps)
  obtain k v where p: "p = (k, v)" by (cases p)
  have "dset d k v = d @ [(k, v)]" using Cons.prems p by (intro dset_new) auto
  moreover have "foldl (\<lambda>d (k, v). dset d k v) (d @ [(k, v)]) ps = (d @ [(k, v)]) @ ps"
    using Cons.prems p by (intro Cons.IH) auto
  ultimately show ?case by (simp add: p)
qed simp

lemma dict_of_distinct: "distinct (map fst ps) \<Longrightarrow> dict_of ps = ps"
  by (simp add: dict_of_def foldl_dset_distinct)

lemma keys_dict_of: "set (keys (dict_of ps)) = set (map fst ps)"
  by (metis dom_map_of_conv_image_fst list.set_map map_of_dict_of set_rev)

lemma dset_idem [simp]: "dset (dset d k v) k w = dset d k w"
  unfolding dset_def by (induction d) auto

lemma dict_values_back: "dict_ok d \<Longrightarrow> map (\<lambda>k. (k, dget d k w)) (keys d) = d"
  by (auto simp: dget_present intro: nth_equalityI map_idI)

lemma mset_dict_keys:
  assumes "dict_ok d" and "distinct ds" and "set ds = set (keys d)"
  shows "mset (map (\<lambda>k. (k, dget d k w)) ds) = mset d"
proof -
  have "mset ds = mset (keys d)"
    using set_eq_iff_mset_eq_distinct [OF assms(2,1)] assms(3) by (rule iffD1)
  then have "mset (map (\<lambda>k. (k, dget d k w)) ds) = mset (map (\<lambda>k. (k, dget d k w)) (keys d))"
    by (simp only: mset_map)
  then show ?thesis by (simp only: dict_values_back [OF assms(1)])
qed

lemma dset_last: "k \<notin> set (keys pre) \<Longrightarrow> dset (pre @ [(k, x)]) k y = pre @ [(k, y)]"
  unfolding dset_def by (induction pre) auto

lemma dget_last: "k \<notin> set (keys pre) \<Longrightarrow> dget (pre @ [(k, x)]) k z = x"
  by (induction pre) auto

lemma dget_map_values: "f [] = [] \<Longrightarrow> dget (map (\<lambda>(q, v). (q, f v)) d) q [] = f (dget d q [])"
  by (induction d) (auto simp: dget_def)

definition group_by :: "('a \<Rightarrow> 'k) \<Rightarrow> 'a list \<Rightarrow> ('k, 'a list) dict" where
  \<comment> \<open>a \<open>defaultdict(list)\<close> filled by \<open>d[key(x)].append(x)\<close>\<close>
  "group_by key xs = foldl (\<lambda>d x. dset d (key x) (dget d (key x) [] @ [x])) [] xs"

lemma group_by_snoc: "group_by key (xs @ [x]) = dset (group_by key xs) (key x) (dget (group_by key xs) (key x) [] @ [x])"
  by (simp add: group_by_def)

lemma group_by_Nil [simp]: "group_by key [] = []"
  by (simp add: group_by_def)

lemma group_by_ok [simp]: "dict_ok (group_by key xs)"
  by (induction xs rule: rev_induct) (simp_all add: group_by_snoc)

lemma dget_group_by: "dget (group_by key xs) k [] = filter (\<lambda>x. key x = k) xs"
  by (induction xs rule: rev_induct) (auto simp: group_by_snoc)

lemma keys_group_by: "set (keys (group_by key xs)) = key ` set xs"
proof (induction xs rule: rev_induct)
  case (snoc x xs)
  then show ?case by (simp only: group_by_snoc keys_dset) simp
qed simp

lemma group_by_member: "(k, g) \<in> set (group_by key xs) \<Longrightarrow> g = filter (\<lambda>x. key x = k) xs \<and> k \<in> key ` set xs"
  by (metis dget_group_by dget_present group_by_ok keys_group_by fst_conv image_eqI list.set_map)

lemma group_by_total: "sum_list (map (\<lambda>(k, g). length g) (group_by key xs)) = length xs"
proof -
  have "sum_list (map (\<lambda>(k, g). length g) (group_by key xs))
      = sum_list (map (\<lambda>k. length (filter (\<lambda>x. key x = k) xs)) (keys (group_by key xs)))"
    by (intro arg_cong [of _ _ sum_list]) (auto dest!: group_by_member)
  also have "\<dots> = (\<Sum>k \<in> key ` set xs. length (filter (\<lambda>x. key x = k) xs))"
    by (subst sum_list_distinct_conv_sum_set) (simp_all only: group_by_ok keys_group_by)
  also have "\<dots> = length xs"
  proof (induction xs)
    case (Cons x xs)
    show ?case
    proof (cases "key x \<in> key ` set xs")
      case True
      then have "(\<Sum>k \<in> key ` set (x # xs). length (filter (\<lambda>y. key y = k) (x # xs)))
          = (\<Sum>k \<in> key ` set xs. length (filter (\<lambda>y. key y = k) xs) + (if k = key x then 1 else 0))"
        by (simp add: insert_absorb) (intro sum.cong, auto)
      then show ?thesis using Cons.IH True by (simp add: sum.distrib)
    next
      case False
      have "(\<Sum>k \<in> key ` set xs. length (filter (\<lambda>y. key y = k) (x # xs))) = (\<Sum>k \<in> key ` set xs. length (filter (\<lambda>y. key y = k) xs))"
        using False by (intro sum.cong) auto
      moreover have "filter (\<lambda>y. key y = key x) xs = []" using False by (auto simp: filter_empty_conv image_iff)
      ultimately show ?thesis using Cons.IH False by simp
    qed
  qed simp
  finally show ?thesis .
qed

section \<open>Slices of a list\<close>

function slices :: "nat \<Rightarrow> 'a list \<Rightarrow> 'a list list" where
  \<comment> \<open>\<open>[xs[i:i + b] for i in range(0, len(xs), b)]\<close> for \<open>0 < b\<close>\<close>
  "slices b xs = (if xs = [] \<or> b = 0 then [] else take b xs # slices b (drop b xs))"
  by pat_completeness auto
termination by (relation "measure (length \<circ> snd)") auto

declare slices.simps [simp del]

lemma slices_Nil [simp]: "slices b [] = []"
  by (simp add: slices.simps)

lemma slices_step: "xs \<noteq> [] \<Longrightarrow> 0 < b \<Longrightarrow> slices b xs = take b xs # slices b (drop b xs)"
  by (simp add: slices.simps [of b xs])

lemma concat_slices: "0 < b \<Longrightarrow> concat (slices b xs) = xs"
proof (induction b xs rule: slices.induct)
  case (1 b xs)
  then show ?case by (cases "xs = []") (simp_all add: slices_step)
qed

lemma slices_bounds: "0 < b \<Longrightarrow> ys \<in> set (slices b xs) \<Longrightarrow> ys \<noteq> [] \<and> length ys \<le> b"
proof (induction b xs rule: slices.induct)
  case (1 b xs)
  then show ?case by (cases "xs = []") (auto simp: slices_step)
qed

section \<open>First occurrences\<close>

definition first_seen :: "'a list \<Rightarrow> 'a list" where
  \<comment> \<open>\<open>list(dict.fromkeys(xs))\<close>\<close>
  "first_seen xs = rev (remdups (rev xs))"

definition positions_of :: "'a list \<Rightarrow> ('a, nat) dict" where
  \<comment> \<open>\<open>{d: j for j, d in enumerate(docs)}\<close>\<close>
  "positions_of docs = dict_of (map (\<lambda>(j, d). (d, j)) (enumerate 0 docs))"

section \<open>Averages\<close>

definition mean :: "real list \<Rightarrow> real" where
  \<comment> \<open>\<open>x.mean()\<close> of a non-empty array\<close>
  "mean xs = sum_list xs / real (length xs)"

section \<open>Stable sorting\<close>

definition py_sorted :: "('a \<Rightarrow> 'k::linorder) \<Rightarrow> 'a list \<Rightarrow> 'a list" where
  \<comment> \<open>\<open>sorted(xs, key=key)\<close>\<close>
  "py_sorted key xs = sort_key key xs"

definition py_sorted_rev :: "('a \<Rightarrow> 'k::linorder) \<Rightarrow> 'a list \<Rightarrow> 'a list" where
  \<comment> \<open>\<open>sorted(xs, key=key, reverse=True)\<close>: equal keys keep their input order\<close>
  "py_sorted_rev key xs = rev (sort_key key (rev xs))"

text \<open>
  What a ranker promises: a permutation of its input, in the order of a key.  The consequences every
  client needs are proved once here: with an injective key the result is determined by the set of
  items, and a cut at depth \<open>k\<close> keeps the best.
\<close>

locale ranking =
  fixes key :: "'a \<Rightarrow> 'k::linorder" and rank :: "'a list \<Rightarrow> 'a list"
  assumes rank_mset: "mset (rank xs) = mset xs"
    and rank_sorted: "sorted (map key (rank xs))"
begin

lemma rank_set: "set (rank xs) = set xs"
  by (metis rank_mset set_mset_mset)

lemma rank_length: "length (rank xs) = length xs"
  by (metis rank_mset size_mset)

lemma rank_distinct: "distinct (map f (rank xs)) = distinct (map f xs)"
  by (rule mset_eq_imp_distinct_iff) (simp add: rank_mset)

lemma rank_unique:
  assumes "mset ys = mset xs" and "sorted (map key ys)" and "inj_on key (set xs)"
  shows "ys = rank xs"
proof -
  have "sort_key key xs = ys"
    using assms by (intro sort_key_inj_key_eq) auto
  moreover have "sort_key key xs = rank xs"
    using assms(3) by (intro sort_key_inj_key_eq) (auto simp: rank_mset rank_sorted)
  ultimately show ?thesis by simp
qed

lemma rank_cong: "mset xs = mset ys \<Longrightarrow> inj_on key (set xs) \<Longrightarrow> rank xs = rank ys"
  by (metis rank_mset rank_sorted rank_unique mset_eq_setD)

lemma rank_take_best:
  assumes "x \<in> set (take k (rank xs))" and "y \<in> set (drop k (rank xs))"
  shows "key x \<le> key y"
proof -
  have "sorted (map key (take k (rank xs) @ drop k (rank xs)))"
    by (simp only: append_take_drop_id rank_sorted)
  then have "\<forall>a \<in> set (map key (take k (rank xs))). \<forall>b \<in> set (map key (drop k (rank xs))). a \<le> b"
    by (simp only: map_append sorted_append) blast
  then show ?thesis using assms by simp
qed

end

locale ranking_desc =
  fixes key :: "'a \<Rightarrow> 'k::linorder" and rank :: "'a list \<Rightarrow> 'a list"
  assumes rank_mset: "mset (rank xs) = mset xs"
    and rank_desc: "sorted (rev (map key (rank xs)))"

sublocale ranking_desc \<subseteq> asc: ranking key "\<lambda>xs. rev (rank xs)"
  by unfold_locales (use rank_mset rank_desc in \<open>simp_all add: rev_map\<close>)

context ranking_desc
begin

lemma desc_unique:
  "mset ys = mset xs \<Longrightarrow> sorted (rev (map key ys)) \<Longrightarrow> inj_on key (set xs) \<Longrightarrow> ys = rank xs"
  using asc.rank_unique [of "rev ys" xs] by (simp add: rev_map)

lemma desc_set: "set (rank xs) = set xs"
  using asc.rank_set by simp

lemma desc_length: "length (rank xs) = length xs"
  using asc.rank_length by simp

lemma desc_distinct: "distinct (map f (rank xs)) = distinct (map f xs)"
  by (rule mset_eq_imp_distinct_iff) (simp add: rank_mset)

end

interpretation sorted_asc: ranking key "py_sorted key" for key :: "'a \<Rightarrow> 'k::linorder"
  by unfold_locales (simp_all add: py_sorted_def)

interpretation sorted_desc: ranking_desc key "py_sorted_rev key" for key :: "'a \<Rightarrow> 'k::linorder"
  by unfold_locales (simp_all add: py_sorted_rev_def rev_map)

declare sorted_asc.rank_set [sort_simps] sorted_asc.rank_length [sort_simps]
  sorted_asc.rank_mset [sort_simps] sorted_asc.rank_distinct [sort_simps]
  sorted_desc.desc_set [sort_simps] sorted_desc.desc_length [sort_simps]
  sorted_desc.rank_mset [sort_simps] sorted_desc.desc_distinct [sort_simps]

lemma py_sorted_distinct [sort_simps]: "distinct (py_sorted key xs) = distinct xs"
  using sorted_asc.rank_distinct [of "\<lambda>x. x"] by simp

lemma py_sorted_rev_distinct [sort_simps]: "distinct (py_sorted_rev key xs) = distinct xs"
  using sorted_desc.desc_distinct [of "\<lambda>x. x"] by simp

lemma py_sorted_Nil_iff [sort_simps]: "py_sorted key xs = [] \<longleftrightarrow> xs = []"
  by (metis length_0_conv sorted_asc.rank_length)

text \<open>A stable sort refines the order its input already has.\<close>

lemma insort_key_lex:
  "sorted (map (\<lambda>x. (f x, g x)) xs) \<Longrightarrow> (\<And>y. y \<in> set xs \<Longrightarrow> g a \<le> g y) \<Longrightarrow>
   sorted (map (\<lambda>x. (f x, g x)) (insort_key f a xs))"
proof (induction xs)
  case (Cons x xs)
  then show ?case by (auto simp: set_insort_key less_eq_prod_simp)
qed simp

lemma stable_sort_lex:
  fixes f :: "'a \<Rightarrow> 'k::linorder" and g :: "'a \<Rightarrow> 'l::linorder"
  assumes "sorted (map g xs)"
  shows "sorted (map (\<lambda>x. (f x, g x)) (py_sorted f xs))"
  using assms unfolding py_sorted_def
proof (induction xs)
  case (Cons x xs)
  then show ?case by (auto intro!: insort_key_lex)
qed simp

lemma map_insort_key: "map h (insort_key (\<lambda>x. f (h x)) a xs) = insort_key f (h a) (map h xs)"
  by (induction xs) auto

lemma map_py_sorted: "map h (py_sorted (\<lambda>x. f (h x)) xs) = py_sorted f (map h xs)"
  unfolding py_sorted_def by (induction xs) (simp_all add: map_insort_key)

section \<open>Generic list lemmas\<close>

lemma All_le_Suc2: "(\<forall>i \<le> Suc n. P i) \<longleftrightarrow> P 0 \<and> (\<forall>i \<le> n. P (Suc i))"
  using All_less_Suc2 [of "Suc n" P] by (simp add: less_Suc_eq_le)

lemma enumerate_map_snd: "map snd (enumerate n xs) = xs"
  by (simp add: list_eq_iff_nth_eq)

lemma sum_list_filter_le:
  "(\<And>x. x \<in> set xs \<Longrightarrow> (0::real) \<le> f x) \<Longrightarrow> sum_list (map f (filter P xs)) \<le> sum_list (map f xs)"
proof (induction xs)
  case (Cons x xs)
  then show ?case using Cons.IH by (auto simp: add_increasing)
qed simp

lemma sum_list_nonneg_map:
  "(\<And>x. x \<in> set xs \<Longrightarrow> (0::real) \<le> f x) \<Longrightarrow> 0 \<le> sum_list (map f xs)"
  by (induction xs) auto

lemma sum_list_bounded:
  "(\<And>x. x \<in> set xs \<Longrightarrow> f x \<le> (c::real)) \<Longrightarrow> sum_list (map f xs) \<le> c * length xs"
proof (induction xs)
  case (Cons x xs)
  have "f x \<le> c" and "sum_list (map f xs) \<le> c * length xs" using Cons by auto
  then show ?case by (simp add: algebra_simps)
qed simp

lemma mset_map_distinct_sub:
  "distinct ds \<Longrightarrow> set ds \<subseteq> set (map fst d) \<Longrightarrow> dict_ok d \<Longrightarrow>
   mset (map (\<lambda>k. dget d k w) ds) \<subseteq># mset (map snd d)"
proof -
  assume a: "distinct ds" "set ds \<subseteq> set (map fst d)" "dict_ok d"
  have "mset ds \<subseteq># mset (map fst d)"
  proof (rule mset_subset_eqI)
    fix x
    have "count (mset (map fst d)) x = (if x \<in> set (map fst d) then 1 else 0)"
      using a(3) distinct_count_atmost_1 by (metis set_mset_mset)
    moreover have "count (mset ds) x = (if x \<in> set ds then 1 else 0)"
      using a(1) distinct_count_atmost_1 by (metis set_mset_mset)
    ultimately show "count (mset ds) x \<le> count (mset (map fst d)) x" using a(2) by auto
  qed
  then have "image_mset (\<lambda>k. dget d k w) (mset ds) \<subseteq># image_mset (\<lambda>k. dget d k w) (mset (map fst d))"
    by (rule image_mset_subseteq_mono)
  moreover have "map (\<lambda>k. dget d k w) (map fst d) = map snd d"
    using a(3) by (auto simp: dget_present)
  ultimately show ?thesis by (metis mset_map)
qed

end
