(* ===== verification/Py_Text.thy ===== *)
theory Py_Text
  imports Prelude
begin

text \<open>
  The parts of Python's \<open>str\<close> and \<open>int\<close> the code uses: \<open>isdigit\<close>, \<open>int\<close> on digit strings, \<open>str\<close> of a
  natural number, \<open>strip\<close>, \<open>split()\<close> on whitespace, \<open>split(sep, 1)\<close> and splitting a text file into
  lines.  A string is a \<^typ>\<open>string\<close>, one character per code point below 256; the files of the
  repository (qrels, runs, document ids) hold ASCII.
\<close>

section \<open>Character classes\<close>

definition code :: "char \<Rightarrow> nat" where
  "code c = of_char c"

definition is_digit_char :: "char \<Rightarrow> bool" where
  "is_digit_char c = (48 \<le> code c \<and> code c \<le> 57)"

definition is_space_char :: "char \<Rightarrow> bool" where
  "is_space_char c = (code c \<in> {9, 10, 11, 12, 13, 28, 29, 30, 31, 32, 133, 160})"

definition isdigit :: "string \<Rightarrow> bool" where
  \<comment> \<open>\<open>s.isdigit()\<close>\<close>
  "isdigit s = (s \<noteq> [] \<and> list_all is_digit_char s)"

section \<open>Decimal numbers\<close>

definition digit_char :: "nat \<Rightarrow> char" where
  "digit_char d = char_of (48 + d)"

fun str_nat :: "nat \<Rightarrow> string" where
  \<comment> \<open>\<open>str(n)\<close> for \<open>n >= 0\<close>\<close>
  "str_nat n = (if n < 10 then [digit_char n] else str_nat (n div 10) @ [digit_char (n mod 10)])"

declare str_nat.simps [simp del]

definition nat_of_digits :: "string \<Rightarrow> nat" where
  \<comment> \<open>\<open>int(s)\<close> on a string of digits\<close>
  "nat_of_digits s = foldl (\<lambda>a c. 10 * a + (code c - 48)) 0 s"

definition int_of :: "string \<Rightarrow> int res" where
  \<comment> \<open>\<open>int(s)\<close> on an optional sign and digits; every other string raises\<close>
  "int_of s =
     (case s of
        [] \<Rightarrow> Inl ValueError
      | c # r \<Rightarrow>
          if c = CHR ''-'' then (if isdigit r then Inr (- int (nat_of_digits r)) else Inl ValueError)
          else if c = CHR ''+'' then (if isdigit r then Inr (int (nat_of_digits r)) else Inl ValueError)
          else if isdigit s then Inr (int (nat_of_digits s)) else Inl ValueError)"

definition str_int :: "int \<Rightarrow> string" where
  "str_int n = (if n < 0 then CHR ''-'' # str_nat (nat (- n)) else str_nat (nat n))"

lemma code_digit_char: "d < 10 \<Longrightarrow> code (digit_char d) = 48 + d"
  by (simp add: code_def digit_char_def)

lemma is_digit_digit_char [simp]: "d < 10 \<Longrightarrow> is_digit_char (digit_char d)"
  by (simp add: is_digit_char_def code_digit_char)

lemma str_nat_nonempty [simp]: "str_nat n \<noteq> []"
  by (subst str_nat.simps) simp

lemma str_nat_digits: "list_all is_digit_char (str_nat n)"
proof (induction n rule: str_nat.induct)
  case (1 n)
  then show ?case by (cases "n < 10") (simp_all add: str_nat.simps [of n])
qed

lemma isdigit_str_nat [simp]: "isdigit (str_nat n)"
  by (simp add: isdigit_def str_nat_digits)

lemma nat_of_digits_snoc: "nat_of_digits (s @ [c]) = 10 * nat_of_digits s + (code c - 48)"
  by (simp add: nat_of_digits_def)

lemma nat_of_digits_str_nat [simp]: "nat_of_digits (str_nat n) = n"
proof (induction n rule: str_nat.induct)
  case (1 n)
  show ?case
  proof (cases "n < 10")
    case True
    then show ?thesis by (simp add: str_nat.simps [of n] nat_of_digits_def code_digit_char)
  next
    case False
    with "1" have "nat_of_digits (str_nat (n div 10)) = n div 10" by simp
    with False show ?thesis
      by (simp add: str_nat.simps [of n] nat_of_digits_snoc code_digit_char)
  qed
qed

lemma str_nat_inject [simp]: "str_nat m = str_nat n \<longleftrightarrow> m = n"
  by (metis nat_of_digits_str_nat)

lemma not_digit_minus: "\<not> is_digit_char (CHR ''-'')" and not_digit_plus: "\<not> is_digit_char (CHR ''+'')"
  by (simp_all add: is_digit_char_def code_def)

lemma int_of_str_int [simp]: "int_of (str_int n) = Inr n"
proof (cases "n < 0")
  case True
  then show ?thesis by (simp add: int_of_def str_int_def)
next
  case False
  have d: "list_all is_digit_char (str_nat (nat n))" by (rule str_nat_digits)
  obtain c r where s: "str_nat (nat n) = c # r" by (cases "str_nat (nat n)") auto
  with d have "c \<noteq> CHR ''-''" "c \<noteq> CHR ''+''" using not_digit_minus not_digit_plus by auto
  moreover have "isdigit (c # r)" "nat_of_digits (c # r) = nat n"
    using isdigit_str_nat [of "nat n"] nat_of_digits_str_nat [of "nat n"] s by simp_all
  ultimately show ?thesis using False by (simp add: int_of_def str_int_def s)
qed

section \<open>Whitespace and separators\<close>

definition lstrip :: "string \<Rightarrow> string" where
  "lstrip s = dropWhile is_space_char s"

definition rstrip :: "string \<Rightarrow> string" where
  "rstrip s = rev (dropWhile is_space_char (rev s))"

definition strip :: "string \<Rightarrow> string" where
  "strip s = rstrip (lstrip s)"

definition rstrip_nl :: "string \<Rightarrow> string" where
  \<comment> \<open>\<open>line.rstrip("\n")\<close>: every trailing newline\<close>
  "rstrip_nl s = rev (dropWhile (\<lambda>c. code c = 10) (rev s))"

lemma dropWhile_Cons_props:
  assumes "dropWhile P s = c # r"
  shows "\<not> P c" and "length r < length s"
proof -
  show "\<not> P c" using assms by (metis hd_dropWhile list.discI list.sel(1))
  have "length (dropWhile P s) \<le> length s" by (rule length_dropWhile_le)
  then show "length r < length s" using assms by simp
qed

function split_ws :: "string \<Rightarrow> string list" where
  \<comment> \<open>\<open>s.split()\<close>: the maximal runs of non-space characters\<close>
  "split_ws s =
     (case dropWhile is_space_char s of
        [] \<Rightarrow> []
      | c # r \<Rightarrow> takeWhile (\<lambda>c. \<not> is_space_char c) (c # r)
                # split_ws (dropWhile (\<lambda>c. \<not> is_space_char c) (c # r)))"
  by pat_completeness auto
termination
proof (relation "measure length")
  fix s c r
  assume a: "dropWhile is_space_char s = c # r"
  have "length (dropWhile (\<lambda>c. \<not> is_space_char c) r) \<le> length r" by (rule length_dropWhile_le)
  then show "(dropWhile (\<lambda>c. \<not> is_space_char c) (c # r), s) \<in> measure length"
    using dropWhile_Cons_props [OF a] by simp
qed simp

declare split_ws.simps [simp del]

definition str_contains :: "string \<Rightarrow> string \<Rightarrow> bool" where
  \<comment> \<open>\<open>pat in s\<close>\<close>
  "str_contains pat s \<longleftrightarrow> (\<exists>i \<in> set [0..<length s + 1]. take (length pat) (drop i s) = pat)"

definition join_with :: "string \<Rightarrow> string list \<Rightarrow> string" where
  \<comment> \<open>\<open>sep.join(xs)\<close>\<close>
  "join_with sep xs = (case xs of [] \<Rightarrow> [] | x # r \<Rightarrow> x @ concat (map ((@) sep) r))"

lemma join_with_simps [simp]:
  "join_with sep [] = []" "join_with sep [x] = x" "join_with sep (x # y # r) = x @ sep @ join_with sep (y # r)"
  by (simp_all add: join_with_def)

definition ends_with :: "string \<Rightarrow> string \<Rightarrow> bool" where
  \<comment> \<open>\<open>s.endswith(suf)\<close>\<close>
  "ends_with s suf \<longleftrightarrow> length suf \<le> length s \<and> drop (length s - length suf) s = suf"

definition next_or :: "('a \<Rightarrow> bool) \<Rightarrow> 'a list \<Rightarrow> 'a option" where
  \<comment> \<open>\<open>next((x for x in xs if p(x)), None)\<close>\<close>
  "next_or p xs = (case filter p xs of [] \<Rightarrow> None | x # _ \<Rightarrow> Some x)"

definition split_at :: "nat \<Rightarrow> string \<Rightarrow> string list" where
  \<comment> \<open>\<open>s.split(sep)\<close> for one character\<close>
  "split_at sep s = foldr (\<lambda>c acc. if code c = sep then [] # acc else (c # hd acc) # tl acc) s [[]]"

definition split1 :: "nat \<Rightarrow> string \<Rightarrow> (string \<times> string) option" where
  \<comment> \<open>\<open>s.split(sep, 1)\<close> for a one-character separator, when the separator occurs\<close>
  "split1 sep s =
     (case dropWhile (\<lambda>c. code c \<noteq> sep) s of
        [] \<Rightarrow> None
      | _ # r \<Rightarrow> Some (takeWhile (\<lambda>c. code c \<noteq> sep) s, r))"

abbreviation (input) TAB :: nat where "TAB \<equiv> 9"
abbreviation (input) NL :: nat where "NL \<equiv> 10"

definition nl :: string where "nl = [char_of NL]"
definition tab :: string where "tab = [char_of TAB]"

function file_lines :: "string \<Rightarrow> string list" where
  \<comment> \<open>iterating over an open text file: each line keeps its newline\<close>
  "file_lines s =
     (case s of
        [] \<Rightarrow> []
      | c # r \<Rightarrow>
          (case dropWhile (\<lambda>c. code c \<noteq> NL) s of
             [] \<Rightarrow> [s]
           | n # rest \<Rightarrow> (takeWhile (\<lambda>c. code c \<noteq> NL) s @ [n]) # file_lines rest))"
  by pat_completeness auto
termination
proof (relation "measure length")
  fix s c r n rest
  assume "s = c # r" and "dropWhile (\<lambda>c. code c \<noteq> NL) s = n # rest"
  then show "(rest, s) \<in> measure length" by (simp only: in_measure dropWhile_Cons_props(2))
qed simp

declare file_lines.simps [simp del]

definition plain :: "string \<Rightarrow> bool" where
  \<comment> \<open>a field of a whitespace-separated file: not empty, no white space\<close>
  "plain s = (s \<noteq> [] \<and> list_all (\<lambda>c. \<not> is_space_char c) s)"

lemma digit_not_space: "is_digit_char c \<Longrightarrow> \<not> is_space_char c"
  by (auto simp: is_digit_char_def is_space_char_def)

lemma plain_str_nat [simp]: "plain (str_nat n)"
proof -
  have "list_all is_digit_char (str_nat n)" by (rule str_nat_digits)
  then show ?thesis by (simp add: plain_def list_all_iff digit_not_space)
qed

lemma plain_str_int [simp]: "plain (str_int n)"
  using plain_str_nat [of "nat n"] plain_str_nat [of "nat (- n)"]
  by (auto simp: plain_def str_int_def is_space_char_def code_def)

lemma takeWhile_plain:
  "plain a \<Longrightarrow> is_space_char b \<Longrightarrow> takeWhile (\<lambda>c. \<not> is_space_char c) (a @ b # r) = a"
  by (simp add: plain_def list_all_iff takeWhile_append2)

lemma dropWhile_plain:
  "plain a \<Longrightarrow> is_space_char b \<Longrightarrow> dropWhile (\<lambda>c. \<not> is_space_char c) (a @ b # r) = b # r"
  by (simp add: plain_def list_all_iff dropWhile_append2)

lemma split_ws_Nil [simp]: "split_ws [] = []"
  by (simp add: split_ws.simps)

lemma split_ws_space: "is_space_char b \<Longrightarrow> split_ws (b # r) = split_ws r"
  by (subst split_ws.simps, subst (2) split_ws.simps) simp

text \<open>A field followed by white space is the first word, and the rest is split on.\<close>

lemma split_ws_field:
  assumes "plain a" and "is_space_char b"
  shows "split_ws (a @ b # r) = a # split_ws r"
proof -
  obtain c s where a: "a = c # s" "\<not> is_space_char c"
    using assms(1) by (cases a) (auto simp: plain_def)
  have "split_ws (a @ b # r) = takeWhile (\<lambda>c. \<not> is_space_char c) (a @ b # r)
      # split_ws (dropWhile (\<lambda>c. \<not> is_space_char c) (a @ b # r))"
    by (subst split_ws.simps) (simp add: a)
  then show ?thesis
    by (simp add: takeWhile_plain dropWhile_plain assms split_ws_space)
qed

lemma split_ws_last: "plain a \<Longrightarrow> split_ws a = [a]"
proof -
  assume a: "plain a"
  then obtain c s where c: "a = c # s" "\<not> is_space_char c" by (cases a) (auto simp: plain_def)
  have t: "takeWhile (\<lambda>c. \<not> is_space_char c) a = a" "dropWhile (\<lambda>c. \<not> is_space_char c) a = []"
    using a by (simp_all add: plain_def list_all_iff)
  have "split_ws a = takeWhile (\<lambda>c. \<not> is_space_char c) a
      # split_ws (dropWhile (\<lambda>c. \<not> is_space_char c) a)"
    by (subst split_ws.simps) (simp add: c)
  then show ?thesis by (simp add: t)
qed

lemma space_32 [simp]: "is_space_char (CHR '' '')"
  by (simp add: is_space_char_def code_def)

lemma code_nl [simp]: "code (char_of (10::nat)) = 10"
  by (simp add: code_def)

lemma space_nl [simp]: "is_space_char (char_of (10::nat))"
  by (simp add: is_space_char_def)

text \<open>A file written line by line is read back line by line.\<close>

lemma file_lines_Cons:
  assumes "list_all (\<lambda>c. code c \<noteq> NL) l"
  shows "file_lines (l @ nl @ rest) = (l @ nl) # file_lines rest"
proof -
  have t: "takeWhile (\<lambda>c. code c \<noteq> NL) (l @ nl @ rest) = l"
    using assms by (simp add: nl_def list_all_iff takeWhile_append2)
  have d: "dropWhile (\<lambda>c. code c \<noteq> NL) (l @ nl @ rest) = char_of NL # rest"
    using assms by (simp add: nl_def list_all_iff dropWhile_append2)
  show ?thesis
  proof (cases "l @ nl @ rest")
    case Nil
    then show ?thesis by (simp add: nl_def)
  next
    case (Cons c r)
    then have "file_lines (l @ nl @ rest) =
        (case dropWhile (\<lambda>c. code c \<noteq> NL) (l @ nl @ rest) of [] \<Rightarrow> [l @ nl @ rest]
         | n # rest' \<Rightarrow> (takeWhile (\<lambda>c. code c \<noteq> NL) (l @ nl @ rest) @ [n]) # file_lines rest')"
      by (subst file_lines.simps) simp
    then show ?thesis by (simp only: t d) (simp add: nl_def)
  qed
qed

lemma file_lines_concat:
  "\<forall>l \<in> set ls. list_all (\<lambda>c. code c \<noteq> NL) l \<Longrightarrow>
   file_lines (concat (map (\<lambda>l. l @ nl) ls)) = map (\<lambda>l. l @ nl) ls"
proof (induction ls)
  case Nil
  then show ?case by (simp add: file_lines.simps)
next
  case (Cons l ls)
  then show ?case by (simp add: file_lines_Cons)
qed

lemma plain_no_nl: "plain a \<Longrightarrow> list_all (\<lambda>c. code c \<noteq> NL) a"
  by (auto simp: plain_def list_all_iff is_space_char_def)

lemma plain_no_tab: "plain a \<Longrightarrow> list_all (\<lambda>c. code c \<noteq> TAB) a"
  by (auto simp: plain_def list_all_iff is_space_char_def)

lemma split1_at:
  "list_all (\<lambda>c. code c \<noteq> sep) a \<Longrightarrow> code b = sep \<Longrightarrow> split1 sep (a @ b # r) = Some (a, r)"
  by (simp add: split1_def list_all_iff takeWhile_append2 dropWhile_append2)

lemma split1_none: "list_all (\<lambda>c. code c \<noteq> sep) a \<Longrightarrow> split1 sep a = None"
  by (simp add: split1_def list_all_iff dropWhile_eq_Nil_conv [THEN iffD2])

section \<open>Text files\<close>

text \<open>Opening a file in text mode translates \<open>\r\n\<close> and \<open>\r\<close> to newlines while reading.\<close>

fun universal_nl :: "string \<Rightarrow> string" where
  "universal_nl [] = []"
| "universal_nl (c # r) =
     (if code c = 13 then
        char_of NL # (case r of [] \<Rightarrow> [] | d # r' \<Rightarrow> if code d = NL then universal_nl r' else universal_nl r)
      else c # universal_nl r)"

definition text_lines :: "string \<Rightarrow> string list" where
  \<comment> \<open>\<open>for line in open(path)\<close>\<close>
  "text_lines s = file_lines (universal_nl s)"

definition line_break :: "char \<Rightarrow> bool" where
  \<comment> \<open>the boundaries of \<open>str.splitlines\<close> below 256; \<open>\\r\\n\<close> is one\<close>
  "line_break c = (code c \<in> {10, 11, 12, 13, 28, 29, 30, 133})"

fun splitlines :: "string \<Rightarrow> string \<Rightarrow> string list" where
  \<comment> \<open>the line read so far, and the rest\<close>
  "splitlines cur [] = (if cur = [] then [] else [cur])"
| "splitlines cur (c # s) =
     (if line_break c then cur # splitlines [] (if code c = 13 \<and> s \<noteq> [] \<and> code (hd s) = 10 then tl s else s)
      else splitlines (cur @ [c]) s)"

definition sp_join :: "string list \<Rightarrow> string" where
  \<comment> \<open>\<open>f"{a} {b} ..."\<close>\<close>
  "sp_join fs = (case fs of [] \<Rightarrow> [] | f # r \<Rightarrow> f @ concat (map (\<lambda>x. '' '' @ x) r))"

definition unlines :: "string list \<Rightarrow> string" where
  \<comment> \<open>\<open>f.writelines(line + "\n" for line in ls)\<close>\<close>
  "unlines ls = concat (map (\<lambda>l. l @ nl) ls)"

definition one_line :: "string \<Rightarrow> bool" where
  "one_line s = list_all (\<lambda>c. code c \<noteq> NL \<and> code c \<noteq> 13) s"

lemma universal_nl_id: "list_all (\<lambda>c. code c \<noteq> 13) s \<Longrightarrow> universal_nl s = s"
  by (induction s) auto

lemma text_lines_unlines:
  assumes "\<And>l. l \<in> set ls \<Longrightarrow> one_line l"
  shows "text_lines (unlines ls) = map (\<lambda>l. l @ nl) ls"
proof -
  have "list_all (\<lambda>c. code c \<noteq> 13) (unlines ls)"
    using assms by (auto simp: unlines_def one_line_def list_all_iff nl_def)
  then have "text_lines (unlines ls) = file_lines (concat (map (\<lambda>l. l @ nl) ls))"
    by (simp add: text_lines_def universal_nl_id) (simp add: unlines_def)
  then show ?thesis
    using assms by (subst (asm) file_lines_concat) (auto simp: one_line_def list_all_iff)
qed

lemma plain_one_line: "plain s \<Longrightarrow> one_line s"
  by (auto simp: plain_def one_line_def list_all_iff is_space_char_def)

lemma sp_join_one_line:
  assumes "\<And>f. f \<in> set fs \<Longrightarrow> plain f"
  shows "one_line (sp_join fs)"
proof -
  have f: "one_line f" if "f \<in> set fs" for f using plain_one_line [OF assms [OF that]] .
  have "one_line ('' '')" by (simp add: one_line_def code_def)
  then have "one_line (concat (map ((@) '' '') r))" if "\<forall>f \<in> set r. one_line f" for r
    using that by (induction r) (simp_all add: one_line_def)
  then have "one_line (sp_join fs)" if "fs = f # r" for f r
    using that f by (simp add: sp_join_def) (simp add: one_line_def)
  then show ?thesis by (cases fs) (simp_all add: sp_join_def one_line_def)
qed

lemma split_ws_join:
  assumes "\<And>f. f \<in> set fs \<Longrightarrow> plain f"
  shows "split_ws (sp_join fs @ nl) = fs"
  using assms
proof (induction fs)
  case Nil
  then show ?case by (simp add: sp_join_def nl_def split_ws_space)
next
  case (Cons f fs)
  show ?case
  proof (cases fs)
    case Nil
    then show ?thesis using Cons.prems by (simp add: sp_join_def nl_def split_ws_field)
  next
    case (Cons g gs)
    have "sp_join (f # fs) @ nl = f @ CHR '' '' # (sp_join fs @ nl)"
      by (simp add: sp_join_def Cons)
    then have "split_ws (sp_join (f # fs) @ nl) = f # split_ws (sp_join fs @ nl)"
      using Cons.prems by (simp only:) (rule split_ws_field; simp)
    then show ?thesis using Cons.IH Cons.prems by simp
  qed
qed

end
