(* ===== verification/Eval_Metrics.thy ===== *)
theory Eval_Metrics
  imports Py_Text
begin

text \<open>
  \<open>py/hybridsearch/eval/metrics.py\<close>: metric names, the trec_eval ranking order, reciprocal rank,
  nDCG and recall at a cut, and the evaluation of a run against relevance judgments.  The lemmas give
  the order of a ranking, the bounds of every metric (nDCG through a rearrangement argument), the
  canonical metric names and what \<open>evaluate\<close> returns for each query.
\<close>

type_synonym docid = string
type_synonym qid = string
type_synonym qrel = "(docid, int) dict"
type_synonym qrels = "(qid, qrel) dict"
type_synonym run = "(qid, (docid, real) dict) dict"

section \<open>Metric names\<close>

datatype metric_kind = KRR | KNDCG | KR

record metric =
  m_name :: string
  m_kind :: metric_kind
  m_k :: nat
  m_rel :: nat

fun kind_name :: "metric_kind \<Rightarrow> string" where
  "kind_name KRR = ''RR''"
| "kind_name KNDCG = ''nDCG''"
| "kind_name KR = ''R''"

text \<open>
  \<open>_METRIC_RE\<close>: the alternatives of its first group in order, then an optional \<open>(rel=N)\<close> and \<open>@N\<close> up
  to the end of the string.  An alternative that is a prefix of the name but leaves a rest that does
  not match is given up for the next one, as the regular expression backtracks.
\<close>

definition metric_alts :: "(string \<times> metric_kind) list" where
  "metric_alts =
     [(''RR'', KRR), (''MRR'', KRR), (''nDCG'', KNDCG), (''NDCG'', KNDCG), (''ndcg'', KNDCG),
      (''R'', KR), (''Recall'', KR), (''recall'', KR)]"

definition strip_prefix :: "string \<Rightarrow> string \<Rightarrow> string option" where
  "strip_prefix p s = (if take (length p) s = p then Some (drop (length p) s) else None)"

definition match_at_k :: "string \<Rightarrow> nat option" where
  \<comment> \<open>\<open>@(\d+)$\<close>\<close>
  "match_at_k s =
     (case strip_prefix ''@'' s of
        None \<Rightarrow> None
      | Some r \<Rightarrow> if isdigit r then Some (nat_of_digits r) else None)"

definition match_rest :: "string \<Rightarrow> (nat option \<times> nat) option" where
  \<comment> \<open>\<open>(?:\(rel=(\d+)\))?@(\d+)$\<close>\<close>
  "match_rest s =
     (case strip_prefix ''(rel='' s of
        Some r \<Rightarrow>
          (let ds = takeWhile is_digit_char r in
           case strip_prefix '')'' (dropWhile is_digit_char r) of
             None \<Rightarrow> None
           | Some r' \<Rightarrow>
               if ds = [] then None
               else map_option (\<lambda>k. (Some (nat_of_digits ds), k)) (match_at_k r'))
      | None \<Rightarrow> map_option (\<lambda>k. (None, k)) (match_at_k s))"

fun match_metric :: "(string \<times> metric_kind) list \<Rightarrow> string \<Rightarrow>
    (metric_kind \<times> nat option \<times> nat) option" where
  "match_metric [] s = None"
| "match_metric ((p, kd) # alts) s =
     (case strip_prefix p s of
        None \<Rightarrow> match_metric alts s
      | Some r \<Rightarrow>
          (case match_rest r of
             None \<Rightarrow> match_metric alts s
           | Some (rel, k) \<Rightarrow> Some (kd, rel, k)))"

definition metric_name :: "metric_kind \<Rightarrow> nat \<Rightarrow> nat \<Rightarrow> string" where
  "metric_name kd rel k =
     kind_name kd @ (if rel \<noteq> 1 then ''(rel='' @ str_nat rel @ '')'' else []) @ ''@'' @ str_nat k"

definition parse_metric :: "string \<Rightarrow> metric res" where
  "parse_metric s =
     (case match_metric metric_alts (strip s) of
        None \<Rightarrow> Inl ValueError
      | Some (kd, relo, k) \<Rightarrow>
          (let rel = (case relo of Some n \<Rightarrow> n | None \<Rightarrow> 1)
           in Inr \<lparr>m_name = metric_name kd rel k, m_kind = kd, m_k = k, m_rel = rel\<rparr>))"

definition DEFAULT_METRICS :: "string list" where
  "DEFAULT_METRICS = [''RR@10'', ''nDCG@10'', ''R@100'', ''R@1000'']"

section \<open>Ranking and the three metrics\<close>

definition rank_run :: "(docid, real) dict \<Rightarrow> docid list" where
  "rank_run scores = map fst (py_sorted_rev (\<lambda>(d, s). (s, d)) scores)"

fun mrr_scan :: "nat \<Rightarrow> docid list \<Rightarrow> qrel \<Rightarrow> int \<Rightarrow> real" where
  "mrr_scan i [] qrel rel = 0"
| "mrr_scan i (d # ds) qrel rel =
     (if dget qrel d 0 \<ge> rel then 1 / (real i + 1) else mrr_scan (Suc i) ds qrel rel)"

definition mrr_at_k :: "docid list \<Rightarrow> qrel \<Rightarrow> nat \<Rightarrow> int \<Rightarrow> real" where
  "mrr_at_k ranked qrel k rel = mrr_scan 0 (take k ranked) qrel rel"

fun discounted :: "nat \<Rightarrow> real list \<Rightarrow> real" where
  \<comment> \<open>\<open>sum(g / math.log2(i + 2) for i, g in enumerate(gs, i))\<close>\<close>
  "discounted i [] = 0"
| "discounted i (g # gs) = g / log 2 (real i + 2) + discounted (Suc i) gs"

fun dcg_scan :: "nat \<Rightarrow> docid list \<Rightarrow> qrel \<Rightarrow> real \<Rightarrow> real" where
  "dcg_scan i [] qrel dcg = dcg"
| "dcg_scan i (d # ds) qrel dcg =
     (let g = dget qrel d 0
      in dcg_scan (Suc i) ds qrel (if g > 0 then dcg + real_of_int g / log 2 (real i + 2) else dcg))"

definition ideal_gains :: "qrel \<Rightarrow> nat \<Rightarrow> int list" where
  "ideal_gains qrel k = take k (py_sorted_rev (\<lambda>g. g) (filter (\<lambda>g. g > 0) (map snd qrel)))"

definition ndcg_at_k :: "docid list \<Rightarrow> qrel \<Rightarrow> nat \<Rightarrow> real" where
  "ndcg_at_k ranked qrel k =
     (let dcg = dcg_scan 0 (take k ranked) qrel 0;
          idcg = discounted 0 (map real_of_int (ideal_gains qrel k))
      in if idcg > 0 then dcg / idcg else 0)"

definition recall_at_k :: "docid list \<Rightarrow> qrel \<Rightarrow> nat \<Rightarrow> int \<Rightarrow> real" where
  "recall_at_k ranked qrel k rel =
     (let nrel = length (filter (\<lambda>g. g \<ge> rel) (map snd qrel))
      in if nrel = 0 then 0
         else real (length (filter (\<lambda>d. dget qrel d 0 \<ge> rel) (take k ranked))) / real nrel)"

section \<open>Evaluating a run\<close>

definition metric_value :: "metric \<Rightarrow> docid list \<Rightarrow> qrel \<Rightarrow> real" where
  "metric_value m ranked qrel =
     (case m_kind m of
        KRR \<Rightarrow> mrr_at_k ranked qrel (m_k m) (int (m_rel m))
      | KNDCG \<Rightarrow> ndcg_at_k ranked qrel (m_k m)
      | KR \<Rightarrow> recall_at_k ranked qrel (m_k m) (int (m_rel m)))"

type_synonym per_query = "(string, (qid, real) dict) dict"

definition record_value :: "docid list \<Rightarrow> qid \<Rightarrow> qrel \<Rightarrow> per_query \<Rightarrow> metric \<Rightarrow> per_query" where
  \<comment> \<open>\<open>per_query[m.name][qid] = v\<close>\<close>
  "record_value ranked q qrel pq m =
     dset pq (m_name m) (dset (dget pq (m_name m) []) q (metric_value m ranked qrel))"

definition evaluate_query :: "run \<Rightarrow> metric list \<Rightarrow> per_query \<Rightarrow> qid \<times> qrel \<Rightarrow> per_query" where
  "evaluate_query run ms pq = (\<lambda>(q, qrel).
     foldl (record_value (rank_run (dget run q [])) q qrel) pq ms)"

definition mean_or_zero :: "real list \<Rightarrow> real" where
  "mean_or_zero vs = (if vs \<noteq> [] then sum_list vs / real (length vs) else 0)"

definition evaluate :: "run \<Rightarrow> qrels \<Rightarrow> string list option \<Rightarrow>
    ((string, real) dict \<times> per_query) res" where
  "evaluate run qrels metrics =
     (let names = (case metrics of None \<Rightarrow> DEFAULT_METRICS | Some ns \<Rightarrow>
                     if ns = [] then DEFAULT_METRICS else ns)
      in res_bind (res_map parse_metric names) (\<lambda>ms.
           let pq0 = dict_of (map (\<lambda>m. (m_name m, [])) ms);
               pq = foldl (evaluate_query run ms) pq0 qrels
           in Inr (map (\<lambda>(n, vals). (n, mean_or_zero (map snd vals))) pq, pq)))"

section \<open>Canonical metric names\<close>

lemma strip_prefix_append [simp]: "strip_prefix p (p @ s) = Some s"
  by (simp add: strip_prefix_def)

lemma match_at_k_name [simp]: "match_at_k (''@'' @ str_nat k) = Some k"
  using strip_prefix_append [of "''@''" "str_nat k"] by (simp add: match_at_k_def)

lemma match_rest_plain: "match_rest (''@'' @ str_nat k) = Some (None, k)"
  using match_at_k_name [of k] by (simp add: match_rest_def strip_prefix_def)

lemma digits_then_paren:
  "takeWhile is_digit_char (str_nat n @ CHR '')'' # r) = str_nat n"
  "dropWhile is_digit_char (str_nat n @ CHR '')'' # r) = CHR '')'' # r"
proof -
  have "\<forall>c \<in> set (str_nat n). is_digit_char c"
    using str_nat_digits by (simp add: list_all_iff)
  moreover have "\<not> is_digit_char (CHR '')'')" by (simp add: is_digit_char_def code_def)
  ultimately show "takeWhile is_digit_char (str_nat n @ CHR '')'' # r) = str_nat n"
    "dropWhile is_digit_char (str_nat n @ CHR '')'' # r) = CHR '')'' # r"
    by (simp_all add: takeWhile_append2 dropWhile_append2)
qed

lemma match_rest_rel:
  "match_rest (''(rel='' @ str_nat n @ '')'' @ ''@'' @ str_nat k) = Some (Some n, k)"
proof -
  have p: "strip_prefix ''(rel='' (''(rel='' @ str_nat n @ '')'' @ ''@'' @ str_nat k)
      = Some (str_nat n @ '')'' @ ''@'' @ str_nat k)"
    by (rule strip_prefix_append)
  have q: "strip_prefix '')'' ('')'' @ ''@'' @ str_nat k) = Some (''@'' @ str_nat k)"
    by (rule strip_prefix_append)
  show ?thesis
    using match_at_k_name [of k] q
    by (simp add: match_rest_def p [simplified] digits_then_paren)
qed

lemma match_rest_metric:
  "match_rest ((if rel \<noteq> 1 then ''(rel='' @ str_nat rel @ '')'' else []) @ ''@'' @ str_nat k)
     = Some (if rel \<noteq> 1 then Some rel else None, k)"
  using match_rest_plain match_rest_rel by (cases "rel = 1") simp_all

lemma no_alt_rest:
  "c \<noteq> CHR ''('' \<Longrightarrow> c \<noteq> CHR ''@'' \<Longrightarrow> match_rest (c # s) = None"
  by (simp add: match_rest_def match_at_k_def strip_prefix_def)

lemma match_metric_name:
  "match_metric metric_alts (metric_name kd rel k) =
     Some (kd, if rel \<noteq> 1 then Some rel else None, k)"
proof -
  define r where
    "r = (if rel \<noteq> 1 then ''(rel='' @ str_nat rel @ '')'' else []) @ ''@'' @ str_nat k"
  have m: "match_rest r = Some (if rel \<noteq> 1 then Some rel else None, k)"
    unfolding r_def by (rule match_rest_metric)
  obtain c s where r: "r = c # s" "c = CHR ''('' \<or> c = CHR ''@''"
    unfolding r_def by (cases "rel = 1") auto
  show ?thesis
    unfolding metric_name_def r_def [symmetric]
    using m r by (cases kd) (auto simp: metric_alts_def strip_prefix_def)
qed

lemma metric_name_not_space:
  "\<forall>c \<in> set (metric_name kd rel k). \<not> is_space_char c"
proof -
  have d: "list_all (\<lambda>c. \<not> is_space_char c) (str_nat n)" for n
    using plain_str_nat [of n] by (simp add: plain_def)
  have kn: "list_all (\<lambda>c. \<not> is_space_char c) (kind_name kd)" by (cases kd; simp only: kind_name.simps; code_simp)
  have p: "list_all (\<lambda>c. \<not> is_space_char c) ''(rel=''" "list_all (\<lambda>c. \<not> is_space_char c) '')''"
    "list_all (\<lambda>c. \<not> is_space_char c) ''@''"
    by code_simp+
  have "list_all (\<lambda>c. \<not> is_space_char c) (metric_name kd rel k)"
    unfolding metric_name_def using d kn p by (simp only: list_all_append) simp
  then show ?thesis by (simp add: list_all_iff)
qed

lemma strip_no_space: "\<forall>c \<in> set s. \<not> is_space_char c \<Longrightarrow> strip s = s"
proof -
  assume a: "\<forall>c \<in> set s. \<not> is_space_char c"
  have "dropWhile is_space_char t = t" if "\<forall>c \<in> set t. \<not> is_space_char c" for t
    using that by (cases t) auto
  from this [of s] this [of "rev s"] a show ?thesis by (simp add: strip_def lstrip_def rstrip_def)
qed

lemma parse_metric_name:
  "parse_metric (metric_name kd rel k) =
     Inr \<lparr>m_name = metric_name kd rel k, m_kind = kd, m_k = k, m_rel = rel\<rparr>"
  by (simp add: parse_metric_def strip_no_space [OF metric_name_not_space] match_metric_name)

lemma parse_metric_m_name:
  "parse_metric s = Inr m \<Longrightarrow> m_name m = metric_name (m_kind m) (m_rel m) (m_k m)"
  by (auto simp: parse_metric_def Let_def split: option.splits)

lemma metric_name_inject:
  "metric_name kd rel k = metric_name kd' rel' k' \<longleftrightarrow> kd = kd' \<and> rel = rel' \<and> k = k'"
  using parse_metric_name by (metis metric.ext_inject sum.inject(2))

text \<open>A parsed metric's canonical name parses back to the same metric, so \<open>parse_metric\<close> is a
  normal form and two metrics with the same name are the same metric.\<close>

theorem parse_metric_roundtrip:
  assumes "parse_metric s = Inr m"
  shows "parse_metric (m_name m) = Inr m"
  using parse_metric_m_name [OF assms] parse_metric_name [of "m_kind m" "m_rel m" "m_k m"] by simp

theorem parse_metric_roundtrip_witness:
  "parse_metric ''R(rel=2)@10'' = Inr \<lparr>m_name = ''R(rel=2)@10'', m_kind = KR, m_k = 10, m_rel = 2\<rparr>"
proof -
  have "parse_metric '' recall(rel=02)@10 '' =
      Inr \<lparr>m_name = ''R(rel=2)@10'', m_kind = KR, m_k = 10, m_rel = 2\<rparr>" by code_simp
  from parse_metric_roundtrip [OF this] show ?thesis by simp
qed

section \<open>The order of a ranking\<close>

definition before :: "(docid, real) dict \<Rightarrow> docid \<Rightarrow> docid \<Rightarrow> bool" where
  \<comment> \<open>score descending, ties by descending docid\<close>
  "before scores a b =
     (dget scores a 0 > dget scores b 0 \<or> (dget scores a 0 = dget scores b 0 \<and> b < a))"

lemma before_distinct: "sorted_wrt (before scores) ds \<Longrightarrow> distinct ds"
  by (induction ds) (auto simp: before_def)

lemma rank_run_keys: "set (rank_run scores) = set (keys scores)"
  by (simp add: rank_run_def sort_simps)

lemma rank_run_distinct: "dict_ok scores \<Longrightarrow> distinct (rank_run scores)"
  by (simp add: rank_run_def sort_simps)

lemma rank_run_Nil [simp]: "rank_run [] = []"
  by (simp add: rank_run_def py_sorted_rev_def)

lemma rank_run_sorted:
  assumes "dict_ok scores"
  shows "sorted_wrt (before scores) (rank_run scores)"
proof -
  define key where "key = (\<lambda>(d::docid, s::real). (s, d))"
  define xs where "xs = py_sorted_rev key scores"
  have "distinct (map key xs)"
    unfolding xs_def sorted_desc.desc_distinct
    using assms by (auto simp: key_def distinct_map inj_on_def)
  moreover have "sorted (rev (map key xs))"
    unfolding xs_def by (rule sorted_desc.rank_desc)
  ultimately have "sorted_wrt (<) (rev (map key xs))"
    by (simp add: strict_sorted_iff)
  then have "sorted_wrt (\<lambda>a b. key b < key a) xs"
    by (simp add: sorted_wrt_rev sorted_wrt_map)
  moreover have "before scores (fst a) (fst b)"
    if m: "a \<in> set xs" "b \<in> set xs" and lt: "key b < key a" for a b
  proof -
    obtain da sa db sb where ab: "a = (da, sa)" "b = (db, sb)" by (cases a; cases b)
    have "(da, sa) \<in> set scores" "(db, sb) \<in> set scores"
      using m by (simp_all add: ab xs_def sort_simps)
    then have "dget scores da 0 = sa" "dget scores db 0 = sb"
      using assms by (simp_all add: dget_present)
    with lt show ?thesis by (auto simp: ab before_def key_def less_prod_simp)
  qed
  ultimately have "sorted_wrt (\<lambda>a b. before scores (fst a) (fst b)) xs"
    by (metis (mono_tags, lifting) sorted_wrt_mono_rel)
  then show ?thesis by (simp add: rank_run_def xs_def key_def sorted_wrt_map)
qed

lemma rank_run_unique:
  assumes ok: "dict_ok scores" and set: "set ds = set (keys scores)"
    and srt: "sorted_wrt (before scores) ds"
  shows "ds = rank_run scores"
proof -
  define key where "key = (\<lambda>(d::docid, s::real). (s, d))"
  define ys where "ys = map (\<lambda>k. (k, dget scores k 0)) ds"
  have "mset ys = mset scores"
    unfolding ys_def using ok before_distinct [OF srt] set by (rule mset_dict_keys)
  moreover have "sorted (rev (map key ys))"
  proof -
    have "sorted_wrt (\<lambda>a b. key (b, dget scores b 0) \<le> key (a, dget scores a 0)) ds"
      using srt by (rule sorted_wrt_mono_rel [rotated]) (auto simp: before_def key_def less_eq_prod_simp)
    then show ?thesis by (simp add: ys_def sorted_wrt_rev sorted_wrt_map)
  qed
  moreover have "inj_on key (set scores)" by (auto simp: key_def inj_on_def)
  ultimately have "ys = py_sorted_rev key scores" by (rule sorted_desc.desc_unique)
  then have "map fst ys = rank_run scores" by (simp add: rank_run_def key_def)
  then show ?thesis by (simp add: ys_def comp_def)
qed

text \<open>C1: \<open>rank_run\<close> is exactly trec_eval's order: for the scores of a query, a list of documents is
  the ranking if and only if it lists every scored document and each precedes the later ones by a
  higher score, or by the greater docid string on equal scores.\<close>

theorem rank_run_spec:
  assumes "dict_ok scores"
  shows "ds = rank_run scores \<longleftrightarrow>
     set ds = set (keys scores) \<and> sorted_wrt (before scores) ds"
  using rank_run_keys rank_run_sorted [OF assms] rank_run_unique [OF assms] by blast

theorem rank_run_spec_witness:
  "rank_run [(''7'', 1.5), (''12'', 2), (''9'', 1.5)] = [''12'', ''9'', ''7'']"
proof -
  have "dict_ok [(''7'', 1.5::real), (''12'', 2), (''9'', 1.5)]" by simp
  moreover have "sorted_wrt (before [(''7'', 1.5), (''12'', 2), (''9'', 1.5)]) [''12'', ''9'', ''7'']"
    by (simp add: before_def less_char_def)
  moreover have "set [''12'', ''9'', ''7''] = set (keys [(''7'', 1.5::real), (''12'', 2), (''9'', 1.5)])"
    by (simp add: insert_commute)
  ultimately show ?thesis using rank_run_spec by metis
qed

section \<open>Reciprocal rank and recall\<close>

lemma mrr_scan_first:
  "i < length ds \<Longrightarrow> dget qrel (ds ! i) 0 \<ge> rel \<Longrightarrow> (\<And>j. j < i \<Longrightarrow> dget qrel (ds ! j) 0 < rel) \<Longrightarrow>
   mrr_scan n ds qrel rel = 1 / (real n + real i + 1)"
proof (induction ds arbitrary: n i)
  case (Cons d ds)
  show ?case
  proof (cases i)
    case 0
    with Cons.prems show ?thesis by simp
  next
    case (Suc i')
    have "dget qrel d 0 < rel" using Cons.prems(3) [of 0] Suc by simp
    moreover have "mrr_scan (Suc n) ds qrel rel = 1 / (real (Suc n) + real i' + 1)"
      using Cons.prems(1,2) Cons.prems(3) [of "Suc j" for j] Suc by (intro Cons.IH) auto
    ultimately show ?thesis using Suc by (simp add: algebra_simps)
  qed
qed simp

lemma mrr_scan_none: "(\<And>d. d \<in> set ds \<Longrightarrow> dget qrel d 0 < rel) \<Longrightarrow> mrr_scan n ds qrel rel = 0"
  by (induction ds arbitrary: n) (auto simp: not_le)

lemma mrr_scan_nonneg: "0 \<le> mrr_scan n ds qrel rel"
  by (induction ds arbitrary: n) auto

lemma mrr_scan_le: "mrr_scan n ds qrel rel \<le> 1 / (real n + 1)"
proof (induction ds arbitrary: n)
  case (Cons d ds)
  have "mrr_scan (Suc n) ds qrel rel \<le> 1 / (real (Suc n) + 1)" by (rule Cons)
  also have "\<dots> \<le> 1 / (real n + 1)" by (intro divide_left_mono) auto
  finally show ?case by auto
qed simp

lemma mrr_bounds: "0 \<le> mrr_at_k ds qrel k rel \<and> mrr_at_k ds qrel k rel \<le> 1"
  using mrr_scan_nonneg mrr_scan_le [of 0] by (simp add: mrr_at_k_def)

text \<open>The reciprocal rank is that of the first document of the top \<open>k\<close> whose grade reaches the
  relevance level: the value is \<open>1 / (i + 1)\<close> for the first such position \<open>i\<close>, and 0 when the top
  \<open>k\<close> has none.\<close>

theorem mrr_first_relevant:
  assumes "i < k" "i < length ds" and "rel \<le> dget qrel (ds ! i) 0"
    and "\<And>j. j < i \<Longrightarrow> dget qrel (ds ! j) 0 < rel"
  shows "mrr_at_k ds qrel k rel = 1 / (real i + 1)"
  using mrr_scan_first [of i "take k ds" rel qrel 0] assms by (simp add: mrr_at_k_def)

theorem mrr_first_relevant_witness:
  "mrr_at_k [''a'', ''b'', ''c''] [(''c'', 3), (''b'', 1)] 10 2 = 1 / 3"
proof -
  have "dget [(''c'', 3::int), (''b'', 1)] ([''a'', ''b'', ''c''] ! j) 0 < 2" if "j < 2" for j
    using that by (cases j; cases "j - 1") auto
  from mrr_first_relevant [of 2 10 "[''a'', ''b'', ''c'']" 2 "[(''c'', 3), (''b'', 1)]", OF _ _ _ this]
  show ?thesis by simp
qed

lemma recall_hits_le:
  fixes rel :: int
  assumes "dict_ok qrel" and "distinct ds" and "0 < rel"
  shows "length (filter (\<lambda>d. rel \<le> dget qrel d 0) ds) \<le> length (filter (\<lambda>g. rel \<le> g) (map snd qrel))"
proof -
  let ?hits = "filter (\<lambda>d. rel \<le> dget qrel d 0) ds"
  have "set ?hits \<subseteq> set (map fst qrel)"
  proof
    fix d
    assume "d \<in> set ?hits"
    then have "dget qrel d 0 \<noteq> 0" using assms(3) by auto
    then show "d \<in> set (map fst qrel)" using dget_absent by fastforce
  qed
  then have "mset (map (\<lambda>k. dget qrel k 0) ?hits) \<subseteq># mset (map snd qrel)"
    using assms by (intro mset_map_distinct_sub) auto
  then have "filter_mset (\<lambda>g. rel \<le> g) (mset (map (\<lambda>k. dget qrel k 0) ?hits))
      \<subseteq># filter_mset (\<lambda>g. rel \<le> g) (mset (map snd qrel))"
    by (rule multiset_filter_mono)
  then have "mset (filter (\<lambda>g. rel \<le> g) (map (\<lambda>k. dget qrel k 0) ?hits))
      \<subseteq># mset (filter (\<lambda>g. rel \<le> g) (map snd qrel))"
    by (simp only: mset_filter)
  then have "length (filter (\<lambda>g. rel \<le> g) (map (\<lambda>k. dget qrel k 0) ?hits))
      \<le> length (filter (\<lambda>g. rel \<le> g) (map snd qrel))"
    by (metis size_mset size_mset_mono)
  moreover have "filter (\<lambda>g. rel \<le> g) (map (\<lambda>k. dget qrel k 0) ?hits) = map (\<lambda>k. dget qrel k 0) ?hits"
    by (auto simp: filter_map comp_def)
  ultimately show ?thesis by simp
qed

lemma recall_bounds:
  assumes "dict_ok qrel" and "distinct ds" and "0 < rel"
  shows "0 \<le> recall_at_k ds qrel k rel \<and> recall_at_k ds qrel k rel \<le> 1"
  using recall_hits_le [of qrel "take k ds" rel] assms
  by (auto simp: recall_at_k_def Let_def divide_le_eq_1)

section \<open>nDCG lies between 0 and 1\<close>

lemma log2_pos: "0 < log 2 (real i + 2)"
  by simp

lemma discount_antimono: "i \<le> j \<Longrightarrow> 1 / log 2 (real j + 2) \<le> 1 / log 2 (real i + 2)"
  by (intro divide_left_mono mult_pos_pos log2_pos) simp_all

lemma discounted_append:
  "discounted i (xs @ ys) = discounted i xs + discounted (i + length xs) ys"
  by (induction xs arbitrary: i) simp_all

lemma discounted_nonneg: "(\<And>x. x \<in> set xs \<Longrightarrow> 0 \<le> x) \<Longrightarrow> 0 \<le> discounted i xs"
  by (induction xs arbitrary: i) (simp_all add: add_nonneg_nonneg)

lemma discounted_zero: "(\<And>x. x \<in> set xs \<Longrightarrow> x = 0) \<Longrightarrow> discounted i xs = 0"
  by (induction xs arbitrary: i) simp_all

lemma discounted_swap:
  assumes "x \<le> y"
  shows "discounted i (x # as @ y # bs) \<le> discounted i (y # as @ x # bs)"
proof -
  let ?j = "Suc (i + length as)"
  have "(y - x) * (1 / log 2 (real ?j + 2)) \<le> (y - x) * (1 / log 2 (real i + 2))"
    using assms discount_antimono [of i ?j] by (intro mult_left_mono) auto
  then have "x / log 2 (real i + 2) + y / log 2 (real ?j + 2)
      \<le> y / log 2 (real i + 2) + x / log 2 (real ?j + 2)"
    by (simp add: diff_divide_distrib)
  then show ?thesis by (simp add: discounted_append)
qed

lemma subset_drop_absent:
  assumes "A \<subseteq># add_mset y B" and "y \<notin># A"
  shows "A \<subseteq># B"
proof (rule mset_subset_eqI)
  fix x
  have "count A x \<le> count (add_mset y B) x" using assms(1) by (rule mset_subset_eq_count)
  then show "count A x \<le> count B x"
    using assms(2) by (cases "x = y") (simp_all add: not_in_iff)
qed

text \<open>
  The rearrangement argument: gains drawn from a descending list of positive grades, zeros anywhere
  between them, are discounted to at most the top of that list.
\<close>

lemma discounted_rearrange:
  assumes "length xs \<le> k" and "\<And>x. x \<in> set xs \<Longrightarrow> 0 \<le> x" and "\<And>y. y \<in> set ys \<Longrightarrow> (0::real) < y"
    and "sorted (rev ys)" and "mset (filter (\<lambda>x. 0 < x) xs) \<subseteq># mset ys"
  shows "discounted i xs \<le> discounted i (take k ys)"
  using assms
proof (induction k arbitrary: xs ys i)
  case (Suc k)
  show ?case
  proof (cases ys)
    case Nil
    then have "filter (\<lambda>x. 0 < x) xs = []" using Suc.prems(5) by simp
    then have "x = 0" if "x \<in> set xs" for x
      using that Suc.prems(2) [OF that] by (auto simp: filter_empty_conv)
    then show ?thesis using Nil by (simp add: discounted_zero)
  next
    case (Cons y ys')
    have ymax: "z \<le> y" if "z \<in> set ys" for z
      using that Suc.prems(4) Cons by (auto simp: sorted_append)
    have y: "0 < y" using Suc.prems(3) Cons by simp
    have le: "x \<le> y" if "x \<in> set xs" for x
    proof (cases "0 < x")
      case True
      then have "x \<in># mset ys" using that Suc.prems(5) by (auto dest: mset_subset_eqD)
      then show ?thesis using ymax by simp
    qed (use y in simp)
    have IH: "discounted (Suc i) zs \<le> discounted (Suc i) (take k ys')"
      if "length zs \<le> k" "\<And>x. x \<in> set zs \<Longrightarrow> 0 \<le> x" "mset (filter (\<lambda>x. 0 < x) zs) \<subseteq># mset ys'" for zs
      using that Suc.prems(3,4) Cons by (intro Suc.IH) (auto simp: sorted_append)
    show ?thesis
    proof (cases xs)
      case Nil
      then show ?thesis using Suc.prems(3) by (auto intro!: discounted_nonneg dest!: in_set_takeD less_imp_le)
    next
      case xs: (Cons x xs')
      show ?thesis
      proof (cases "y \<in> set xs'")
        case True
        then obtain as bs where s: "xs' = as @ y # bs" by (meson split_list)
        have "discounted i xs \<le> discounted i (y # as @ x # bs)"
          unfolding xs s using le xs by (intro discounted_swap) simp
        also have "\<dots> \<le> discounted i (y # take k ys')"
          using IH [of "as @ x # bs"] Suc.prems(1,2,5) y by (auto simp: xs s Cons split: if_splits)
        finally show ?thesis by (simp add: Cons)
      next
        case False
        have "mset (filter (\<lambda>x. 0 < x) xs') \<subseteq># mset ys"
          using Suc.prems(5) by (auto simp: xs split: if_splits dest: subset_mset.dual_order.trans mset_subset_eq_insertD)
        moreover have "y \<notin># mset (filter (\<lambda>x. 0 < x) xs')" using False by simp
        ultimately have "mset (filter (\<lambda>x. 0 < x) xs') \<subseteq># mset ys'"
          unfolding Cons by (simp add: subset_drop_absent)
        then have "discounted (Suc i) xs' \<le> discounted (Suc i) (take k ys')"
          using Suc.prems(1,2) by (intro IH) (auto simp: xs)
        moreover have "x / log 2 (real i + 2) \<le> y / log 2 (real i + 2)"
          using le xs by (intro divide_right_mono) auto
        ultimately show ?thesis by (simp add: xs Cons)
      qed
    qed
  qed
qed simp

lemma dcg_scan_discounted:
  "dcg_scan i ds qrel c = c + discounted i (map (\<lambda>d. max 0 (real_of_int (dget qrel d 0))) ds)"
proof (induction ds arbitrary: i c)
  case (Cons d ds)
  then show ?case by (cases "0 < dget qrel d 0") (simp_all add: Let_def max_def)
qed simp

lemma ndcg_bounds:
  assumes "dict_ok qrel" and "distinct ds"
  shows "0 \<le> ndcg_at_k ds qrel k \<and> ndcg_at_k ds qrel k \<le> 1"
proof -
  define xs where "xs = map (\<lambda>d. max 0 (real_of_int (dget qrel d 0))) (take k ds)"
  define ps where "ps = py_sorted_rev (\<lambda>g. g) (filter (\<lambda>g. g > 0) (map snd qrel))"
  define ys where "ys = map real_of_int ps"
  let ?hits = "filter (\<lambda>d. 0 < dget qrel d 0) (take k ds)"
  have "mset (map (\<lambda>d. dget qrel d 0) ?hits) \<subseteq># mset (filter (\<lambda>g. g > 0) (map snd qrel))"
  proof -
    have "set ?hits \<subseteq> set (map fst qrel)" using dget_absent by fastforce
    then have "mset (map (\<lambda>d. dget qrel d 0) ?hits) \<subseteq># mset (map snd qrel)"
      using assms by (intro mset_map_distinct_sub) auto
    then have "filter_mset (\<lambda>g. g > 0) (mset (map (\<lambda>d. dget qrel d 0) ?hits))
        \<subseteq># filter_mset (\<lambda>g. g > 0) (mset (map snd qrel))"
      by (rule multiset_filter_mono)
    moreover have "filter (\<lambda>g. g > 0) (map (\<lambda>d. dget qrel d 0) ?hits) = map (\<lambda>d. dget qrel d 0) ?hits"
      by (simp add: filter_map comp_def)
    ultimately show ?thesis by (metis mset_filter)
  qed
  then have "image_mset real_of_int (mset (map (\<lambda>d. dget qrel d 0) ?hits)) \<subseteq># image_mset real_of_int (mset ps)"
    unfolding ps_def sorted_desc.rank_mset by (rule image_mset_subseteq_mono)
  moreover have "filter (\<lambda>x. 0 < x) xs = map real_of_int (map (\<lambda>d. dget qrel d 0) ?hits)"
  proof -
    have "filter (\<lambda>x. 0 < x) (map (\<lambda>d. max 0 (real_of_int (dget qrel d 0))) zs)
        = map real_of_int (map (\<lambda>d. dget qrel d 0) (filter (\<lambda>d. 0 < dget qrel d 0) zs))" for zs
      by (induction zs) auto
    then show ?thesis by (simp only: xs_def)
  qed
  ultimately have sub: "mset (filter (\<lambda>x. 0 < x) xs) \<subseteq># mset ys"
    by (simp only: ys_def mset_map)
  have "sorted (rev ps)"
    using sorted_desc.rank_desc [where key = "\<lambda>g::int. g"] by (simp add: ps_def)
  then have "sorted (map real_of_int (rev ps))"
    by (simp add: sorted_map)
  then have srt: "sorted (rev ys)" by (simp add: ys_def rev_map)
  have pos: "0 < y" if "y \<in> set ys" for y using that by (auto simp: ys_def ps_def sort_simps)
  have nonneg: "0 \<le> x" if "x \<in> set xs" for x using that by (auto simp: xs_def)
  have "discounted 0 xs \<le> discounted 0 (take k ys)"
    using nonneg pos srt sub by (intro discounted_rearrange) (auto simp: xs_def)
  moreover have "0 \<le> discounted 0 xs" using nonneg by (rule discounted_nonneg)
  moreover have "ndcg_at_k ds qrel k =
      (if discounted 0 (take k ys) > 0 then discounted 0 xs / discounted 0 (take k ys) else 0)"
    by (simp add: ndcg_at_k_def ideal_gains_def dcg_scan_discounted take_map xs_def ys_def ps_def)
  ultimately show ?thesis by (auto simp: divide_le_eq_1)
qed

text \<open>C2: on a ranking without repeated documents and a judged query, every metric with a positive
  relevance level is a number between 0 and 1; for nDCG this holds whatever the grades, because no
  arrangement of judged documents beats the ideal one.\<close>

theorem metric_value_bounds:
  assumes "dict_ok qrel" and "distinct ranked" and "0 < m_rel m"
  shows "0 \<le> metric_value m ranked qrel \<and> metric_value m ranked qrel \<le> 1"
  using assms mrr_bounds ndcg_bounds [OF assms(1,2)] recall_bounds [OF assms(1,2)]
  by (cases "m_kind m") (simp_all add: metric_value_def)

theorem metric_value_bounds_witness:
  "metric_value \<lparr>m_name = ''nDCG@2'', m_kind = KNDCG, m_k = 2, m_rel = 1\<rparr> [''a'', ''b'']
     [(''b'', 3), (''c'', 1)] \<le> 1"
  using metric_value_bounds [of "[(''b'', 3), (''c'', 1)]" "[''a'', ''b'']"
      "\<lparr>m_name = ''nDCG@2'', m_kind = KNDCG, m_k = 2, m_rel = 1\<rparr>"] by simp

section \<open>What \<open>evaluate\<close> returns\<close>

lemma record_values:
  assumes "\<And>m. m \<in> set ms \<Longrightarrow> metric_value m ranked qrel = V (m_name m)"
  shows "dget (foldl (record_value ranked q qrel) pq ms) n [] =
     (if n \<in> m_name ` set ms then dset (dget pq n []) q (V n) else dget pq n [])"
  using assms
proof (induction ms arbitrary: pq)
  case (Cons m ms)
  then show ?case by (auto simp: record_value_def)
qed simp

lemma evaluate_queries:
  assumes "\<And>q qrel m. m \<in> set ms \<Longrightarrow>
      metric_value m (rank_run (dget run q [])) qrel = V q qrel (m_name m)"
    and "n \<in> m_name ` set ms"
  shows "dget (foldl (evaluate_query run ms) pq qrels) n [] =
     foldl (\<lambda>d (q, v). dset d q v) (dget pq n []) (map (\<lambda>(q, qrel). (q, V q qrel n)) qrels)"
proof (induction qrels arbitrary: pq)
  case (Cons p qrels)
  obtain q qrel where p: "p = (q, qrel)" by (cases p)
  have "dget (evaluate_query run ms pq p) n [] = dset (dget pq n []) q (V q qrel n)"
    using assms by (simp add: p evaluate_query_def record_values [where V = "V q qrel"])
  then show ?case by (simp add: Cons.IH p)
qed simp

lemma record_value_keys: "m_name ` set ms \<union> set (keys pq) = set (keys (foldl (record_value ranked q qrel) pq ms))"
proof (induction ms arbitrary: pq)
  case (Cons m ms)
  have "set (keys (foldl (record_value ranked q qrel) pq (m # ms)))
      = m_name ` set ms \<union> set (keys (record_value ranked q qrel pq m))"
    using Cons.IH by (simp only: foldl_Cons)
  also have "set (keys (record_value ranked q qrel pq m)) = insert (m_name m) (set (keys pq))"
    by (simp only: record_value_def keys_dset)
  finally show ?case by auto
qed simp

lemma evaluate_keys: "set (keys pq) \<subseteq> set (keys (foldl (evaluate_query run ms) pq qrels))"
proof (induction qrels arbitrary: pq)
  case (Cons p qrels)
  have "set (keys pq) \<subseteq> set (keys (evaluate_query run ms pq p))"
    by (cases p) (simp only: evaluate_query_def prod.case record_value_keys [symmetric] Un_upper2)
  also have "\<dots> \<subseteq> set (keys (foldl (evaluate_query run ms) pq (p # qrels)))"
    using Cons.IH by (simp only: foldl_Cons)
  finally show ?case .
qed simp

lemma evaluate_metric:
  assumes r: "evaluate run qrels (Some ns) = Inr (agg, pq)" and ok: "dict_ok qrels"
    and n: "n \<in> set ns" "parse_metric n = Inr m"
  shows "map_of pq (m_name m) =
           Some (map (\<lambda>(q, qrel). (q, metric_value m (rank_run (dget run q [])) qrel)) qrels)"
    and "agg = map (\<lambda>(n, vals). (n, mean_or_zero (map snd vals))) pq"
proof -
  have ns: "ns \<noteq> []" using n by auto
  then obtain ms where ms: "res_map parse_metric ns = Inr ms"
    and pq: "pq = foldl (evaluate_query run ms) (dict_of (map (\<lambda>m. (m_name m, [])) ms)) qrels"
    and agg: "agg = map (\<lambda>(n, vals). (n, mean_or_zero (map snd vals))) pq"
    using r by (auto simp: evaluate_def Let_def)
  show "agg = map (\<lambda>(n, vals). (n, mean_or_zero (map snd vals))) pq" by (rule agg)
  have mem: "m \<in> set ms"
    using res_map_Inr_nth [OF ms] res_map_Inr_length [OF ms] n by (metis in_set_conv_nth sum.inject(2))
  define V where "V = (\<lambda>q qrel n. case parse_metric n of
      Inr m \<Rightarrow> metric_value m (rank_run (dget run q [])) qrel | Inl e \<Rightarrow> 0)"
  have self: "parse_metric (m_name m') = Inr m'" if "m' \<in> set ms" for m'
  proof -
    obtain s where "parse_metric s = Inr m'" using res_map_Inr_set [OF ms \<open>m' \<in> set ms\<close>] by auto
    then show ?thesis
      using parse_metric_m_name parse_metric_name [of "m_kind m'" "m_rel m'" "m_k m'"] by simp
  qed
  let ?pq0 = "dict_of (map (\<lambda>m. (m_name m, [])) ms)"
  have "dget pq (m_name m) [] =
      foldl (\<lambda>d (q, v). dset d q v) (dget ?pq0 (m_name m) []) (map (\<lambda>(q, qrel). (q, V q qrel (m_name m))) qrels)"
    unfolding pq using mem self by (intro evaluate_queries) (auto simp: V_def)
  also have "dget ?pq0 (m_name m) [] = []"
  proof -
    have "map_of ?pq0 (m_name m) = Some v \<Longrightarrow> v = []" for v
      by (auto simp: map_of_dict_of dest!: map_of_SomeD)
    then show ?thesis by (auto simp: dget_def split: option.splits)
  qed
  also have "foldl (\<lambda>d (q, v). dset d q v) [] (map (\<lambda>(q, qrel). (q, V q qrel (m_name m))) qrels)
      = map (\<lambda>(q, qrel). (q, V q qrel (m_name m))) qrels"
    using ok by (subst foldl_dset_distinct) (simp_all add: comp_def case_prod_unfold)
  finally have "dget pq (m_name m) [] = map (\<lambda>(q, qrel). (q, metric_value m (rank_run (dget run q [])) qrel)) qrels"
    using self [OF mem] by (simp add: V_def)
  moreover have "m_name m \<in> set (keys pq)"
    unfolding pq by (rule subsetD [OF evaluate_keys]) (use mem in \<open>simp only: keys_dict_of; force\<close>)
  ultimately show "map_of pq (m_name m) =
      Some (map (\<lambda>(q, qrel). (q, metric_value m (rank_run (dget run q [])) qrel)) qrels)"
    by (auto simp: dget_def map_of_eq_None_iff split: option.splits)
qed

text \<open>\<open>evaluate\<close> returns, under the canonical name of every requested metric, one value for every
  judged query in qrels order, the metric of trec_eval's ranking of the run's scores for that query
  (an empty ranking when the run lacks the query), and the aggregate is the mean of those values.\<close>

theorem evaluate_per_query:
  assumes "evaluate run qrels (Some ns) = Inr (agg, pq)" and "dict_ok qrels"
    and "n \<in> set ns" and "parse_metric n = Inr m"
  shows "map_of pq (m_name m) =
           Some (map (\<lambda>(q, qrel). (q, metric_value m (rank_run (dget run q [])) qrel)) qrels) \<and>
         map_of agg (m_name m) =
           Some (mean_or_zero (map (\<lambda>(q, qrel). metric_value m (rank_run (dget run q [])) qrel) qrels))"
proof -
  note ev = evaluate_metric [OF assms]
  have "map_of agg (m_name m) = map_option (\<lambda>vals. mean_or_zero (map snd vals)) (map_of pq (m_name m))"
    unfolding ev(2) by (simp add: map_of_map)
  then show ?thesis by (simp add: ev(1) comp_def case_prod_unfold)
qed

theorem evaluate_per_query_witness:
  "\<exists>agg pq. evaluate [(''q1'', [(''d1'', 2), (''d2'', 1)])] [(''q1'', [(''d2'', 1)]), (''q2'', [(''d9'', 1)])]
       (Some [''MRR@10'']) = Inr (agg, pq) \<and> map_of agg ''RR@10'' = Some (1 / 4)"
proof -
  let ?run = "[(''q1'', [(''d1'', 2), (''d2'', 1)])] :: run"
  let ?qrels = "[(''q1'', [(''d2'', 1)]), (''q2'', [(''d9'', 1)])] :: qrels"
  let ?m = "\<lparr>m_name = ''RR@10'', m_kind = KRR, m_k = 10, m_rel = 1\<rparr>"
  have p: "parse_metric ''MRR@10'' = Inr ?m" by code_simp
  then obtain agg pq where e: "evaluate ?run ?qrels (Some [''MRR@10'']) = Inr (agg, pq)"
    by (auto simp: evaluate_def Let_def)
  have "rank_run [(''d1'', 2), (''d2'', 1)] = [''d1'', ''d2'']"
    by (simp add: rank_run_def py_sorted_rev_def less_prod_simp)
  then show ?thesis
    using evaluate_per_query [OF e _ _ p] e by (simp add: metric_value_def mrr_at_k_def mean_or_zero_def)
qed

end
