(* ===== verification/Py_Float.thy ===== *)
theory Py_Float
  imports Py_Text
begin

text \<open>
  Python's decimal rounding and printing on exact numbers: \<open>round(x)\<close> and \<open>round(x, n)\<close> (halves to
  even), \<open>float(f"{x:.Pg}")\<close> as rounding to \<open>P\<close> significant digits, the \<open>%g\<close> and \<open>%.nf\<close> formats as
  strings and \<open>float(s)\<close> as the reader of decimal literals.  The main facts: rounding to \<open>P\<close> digits
  never moves a number past a \<open>P\<close>-digit decimal, and reading back a printed number gives the number
  rounded to the printed digits.
\<close>

section \<open>Rounding halves to even\<close>

definition round_half_even :: "real \<Rightarrow> int" where
  "round_half_even x =
     (let f = \<lfloor>x\<rfloor>; d = x - of_int f
      in if d < 1 / 2 then f else if d > 1 / 2 then f + 1 else if even f then f else f + 1)"

definition round_to :: "nat \<Rightarrow> real \<Rightarrow> real" where
  \<comment> \<open>\<open>round(x, n)\<close>\<close>
  "round_to n x = of_int (round_half_even (x * 10 ^ n)) / 10 ^ n"

lemma round_half_even_error: "\<bar>of_int (round_half_even x) - x\<bar> \<le> 1 / 2"
  unfolding round_half_even_def Let_def by (auto simp: abs_le_iff)

lemma round_half_even_of_int [simp]: "round_half_even (of_int n) = n"
  by (simp add: round_half_even_def)

lemma round_half_even_le: "x \<le> of_int n \<Longrightarrow> round_half_even x \<le> n"
proof (cases "x = of_int n")
  case False
  assume "x \<le> of_int n"
  then have "x < of_int n" using False by simp
  moreover have "of_int (round_half_even x) \<le> x + 1 / 2"
    using round_half_even_error [of x] by linarith
  ultimately have "of_int (round_half_even x) < real_of_int (n + 1)" by simp
  then show ?thesis by linarith
qed simp

lemma round_half_even_ge: "of_int n \<le> x \<Longrightarrow> n \<le> round_half_even x"
proof (cases "x = of_int n")
  case False
  assume "of_int n \<le> x"
  then have "of_int n < x" using False by simp
  moreover have "x - 1 / 2 \<le> of_int (round_half_even x)"
    using round_half_even_error [of x] by linarith
  ultimately have "real_of_int (n - 1) < of_int (round_half_even x)" by simp
  then show ?thesis by linarith
qed simp

lemma round_to_error: "\<bar>round_to n x - x\<bar> \<le> 1 / (2 * 10 ^ n)"
proof -
  have "\<bar>of_int (round_half_even (x * 10 ^ n)) - x * 10 ^ n\<bar> / 10 ^ n \<le> (1 / 2) / 10 ^ n"
    using round_half_even_error by (rule divide_right_mono) simp
  moreover have "round_to n x - x = (of_int (round_half_even (x * 10 ^ n)) - x * 10 ^ n) / 10 ^ n"
    by (simp add: round_to_def field_simps)
  ultimately show ?thesis by (simp add: abs_divide)
qed

section \<open>Significant digits\<close>

abbreviation pow10 :: "int \<Rightarrow> real" where
  "pow10 e \<equiv> 10 powi e"

definition exp10_of :: "real \<Rightarrow> int" where
  \<comment> \<open>the decimal exponent of a number other than 0\<close>
  "exp10_of x = \<lfloor>log 10 \<bar>x\<bar>\<rfloor>"

definition round_sig :: "nat \<Rightarrow> real \<Rightarrow> real" where
  \<comment> \<open>\<open>float(f"{x:.{digits}g}")\<close>\<close>
  "round_sig digits x =
     (if x = 0 then 0
      else let s = pow10 (int digits - 1 - exp10_of x) in of_int (round_half_even (x * s)) / s)"

definition decimal_rep :: "nat \<Rightarrow> real \<Rightarrow> bool" where
  \<comment> \<open>a decimal of at most \<open>digits\<close> significant digits\<close>
  "decimal_rep digits q = (\<exists>m e. q = of_int m * pow10 e \<and> \<bar>m\<bar> < 10 ^ digits)"

lemma pow10_pos [simp]: "0 < pow10 e"
  by (simp add: zero_less_power_int)

lemma pow10_add: "pow10 (a + b) = pow10 a * pow10 b"
  by (simp add: power_int_add)

lemma pow10_shift: "10 ^ n * pow10 k = pow10 (int n + k)"
  by (simp add: pow10_add)

lemma pow10_le_iff: "pow10 a \<le> pow10 b \<longleftrightarrow> a \<le> b"
  using power_int_increasing [of a b "10::real"] power_int_strict_increasing [of b a "10::real"]
  by (cases "a \<le> b") auto

lemma pow10_less_iff: "pow10 a < pow10 b \<longleftrightarrow> a < b"
  by (meson pow10_le_iff linorder_not_le)

lemma pow10_nat: "0 \<le> e \<Longrightarrow> pow10 e = of_int (10 ^ nat e)"
  by (simp add: power_int_def)

lemma exp10_bounds:
  assumes "x \<noteq> 0"
  shows "pow10 (exp10_of x) \<le> \<bar>x\<bar>" and "\<bar>x\<bar> < pow10 (exp10_of x + 1)"
proof -
  have p: "10 powr (of_int e) = pow10 e" for e by (simp add: powr_real_of_int')
  have a: "\<bar>x\<bar> = 10 powr (log 10 \<bar>x\<bar>)" using assms by simp
  have "10 powr (of_int (exp10_of x)) \<le> 10 powr (log 10 \<bar>x\<bar>)"
    unfolding exp10_of_def by (rule powr_mono) simp_all
  then show "pow10 (exp10_of x) \<le> \<bar>x\<bar>" using a by (simp add: p)
  have "10 powr (log 10 \<bar>x\<bar>) < 10 powr (of_int (exp10_of x + 1))"
    unfolding exp10_of_def by (rule powr_less_mono) (linarith, simp)
  then show "\<bar>x\<bar> < pow10 (exp10_of x + 1)" using a by (simp only: p)
qed

lemma exp10_unique:
  assumes "pow10 e \<le> \<bar>x\<bar>" and "\<bar>x\<bar> < pow10 (e + 1)"
  shows "exp10_of x = e"
proof -
  have "0 < \<bar>x\<bar>" using pow10_pos assms(1) by (rule less_le_trans)
  then have "x \<noteq> 0" by simp
  note b = exp10_bounds [OF this]
  have "pow10 (exp10_of x) < pow10 (e + 1)" using b(1) assms(2) by simp
  moreover have "pow10 e < pow10 (exp10_of x + 1)" using b(2) assms(1) by simp
  ultimately show ?thesis by (simp add: pow10_less_iff)
qed

text \<open>On the grid of a number's last digit, every decimal as large as the number is an integer.\<close>

lemma grid_int:
  assumes "decimal_rep d q" and "pow10 e \<le> \<bar>q\<bar>"
  shows "\<exists>n. q * pow10 (int d - 1 - e) = of_int n"
proof -
  obtain m j where q: "q = of_int m * pow10 j" and m: "\<bar>m\<bar> < 10 ^ d"
    using assms(1) by (auto simp: decimal_rep_def)
  have "real_of_int \<bar>m\<bar> < of_int (10 ^ d)" using m by (simp only: of_int_less_iff)
  then have "\<bar>q\<bar> < pow10 (int d) * pow10 j"
    by (simp add: q abs_mult power_int_def)
  then have "pow10 e < pow10 (int d + j)" using assms(2) by (simp add: pow10_add)
  then have "0 \<le> j + (int d - 1 - e)" by (simp add: pow10_less_iff)
  then have "q * pow10 (int d - 1 - e) = of_int (m * 10 ^ nat (j + (int d - 1 - e)))"
    using pow10_nat [of "j + (int d - 1 - e)"] by (simp add: q mult.assoc flip: pow10_add)
  then show ?thesis by blast
qed

lemma pow10_rep: "0 < d \<Longrightarrow> decimal_rep d (pow10 e)" "0 < d \<Longrightarrow> decimal_rep d (- pow10 e)"
proof -
  assume "0 < d"
  then have "(1::int) < 10 ^ d" by simp
  then show "decimal_rep d (pow10 e)" "decimal_rep d (- pow10 e)"
    unfolding decimal_rep_def by (intro exI [of _ 1] exI [of _ e], simp,
        intro exI [of _ "- 1"] exI [of _ e], simp)
qed

lemma round_sig_le:
  assumes d: "0 < d" and q: "decimal_rep d q" and xq: "x \<le> q"
  shows "round_sig d x \<le> q"
proof (cases "x = 0")
  case False
  define e where "e = exp10_of x"
  define s where "s = pow10 (int d - 1 - e)"
  have s: "0 < s" by (simp add: s_def)
  note b = exp10_bounds [OF False, folded e_def]
  have on_grid: "round_sig d x \<le> r" if r: "decimal_rep d r" "pow10 e \<le> \<bar>r\<bar>" "x \<le> r" for r
  proof -
    obtain n where n: "r * s = of_int n" using grid_int [OF r(1,2)] by (auto simp: s_def)
    have "x * s \<le> of_int n" using r(3) s by (simp flip: n)
    then have "real_of_int (round_half_even (x * s)) \<le> of_int n"
      by (simp only: of_int_le_iff round_half_even_le)
    then have "of_int (round_half_even (x * s)) / s \<le> r" using s n by (simp add: pos_divide_le_eq)
    then show ?thesis using False by (simp add: round_sig_def Let_def s_def e_def)
  qed
  show ?thesis
  proof (cases "pow10 e \<le> \<bar>q\<bar>")
    case True
    then show ?thesis using q xq by (intro on_grid)
  next
    case small: False
    then have "x < 0" using b(1) xq by linarith
    then have "round_sig d x \<le> - pow10 e"
      using b(1) by (intro on_grid pow10_rep(2) d) auto
    also have "\<dots> \<le> q" using small by linarith
    finally show ?thesis .
  qed
qed (use xq in \<open>simp add: round_sig_def\<close>)

lemma decimal_rep_carry:
  assumes "0 < d" and "\<bar>m\<bar> \<le> 10 ^ d"
  shows "decimal_rep d (of_int m * pow10 e)"
proof (cases "\<bar>m\<bar> < 10 ^ d")
  case True
  then show ?thesis by (auto simp: decimal_rep_def)
next
  case False
  then have "m = 10 ^ d \<or> m = - (10 ^ d)" using assms(2) by linarith
  then have "of_int m * pow10 e = pow10 (int d + e) \<or> of_int m * pow10 e = - pow10 (int d + e)"
    by (auto simp: pow10_shift)
  then show ?thesis using pow10_rep [OF assms(1)] by metis
qed

lemma decimal_rep_round_sig:
  assumes d: "0 < d"
  shows "decimal_rep d (round_sig d x)"
proof (cases "x = 0")
  case True
  have "decimal_rep d (of_int 0 * pow10 0)" using d by (intro decimal_rep_carry) simp_all
  then show ?thesis using True by (simp add: round_sig_def)
next
  case False
  define e where "e = exp10_of x"
  define s where "s = pow10 (int d - 1 - e)"
  define r where "r = round_half_even (x * s)"
  have s: "0 < s" by (simp add: s_def)
  have "\<bar>x\<bar> * s \<le> pow10 (e + 1) * s"
    using exp10_bounds(2) [OF False] s by (intro mult_right_mono) (auto simp: e_def)
  also have "\<dots> = of_int (10 ^ d)" by (simp add: s_def flip: pow10_add)
  finally have "\<bar>x * s\<bar> \<le> of_int (10 ^ d)" using s by (simp add: abs_mult)
  then have "of_int (- (10 ^ d)) \<le> x * s" "x * s \<le> of_int (10 ^ d)" by simp_all
  then have "- (10 ^ d) \<le> r" "r \<le> 10 ^ d"
    unfolding r_def using round_half_even_ge round_half_even_le by blast+
  then have "decimal_rep d (of_int r * pow10 (e - int d + 1))"
    using d by (intro decimal_rep_carry) auto
  moreover have "round_sig d x = of_int r * pow10 (e - int d + 1)"
  proof -
    have "s * pow10 (e - int d + 1) = 1" by (simp add: s_def flip: pow10_add)
    then have "1 / s = pow10 (e - int d + 1)" using s by (simp add: field_simps)
    then have "of_int r / s = of_int r * pow10 (e - int d + 1)" by (metis times_divide_eq_right mult.right_neutral)
    then show ?thesis using False by (simp add: round_sig_def r_def s_def e_def)
  qed
  ultimately show ?thesis by simp
qed

lemma round_sig_rep:
  assumes "decimal_rep d q"
  shows "round_sig d q = q"
proof (cases "q = 0")
  case False
  obtain n where n: "q * pow10 (int d - 1 - exp10_of q) = of_int n"
    using grid_int [OF assms exp10_bounds(1) [OF False]] by blast
  define s where "s = pow10 (int d - 1 - exp10_of q)"
  have "s \<noteq> 0" using pow10_pos [of "int d - 1 - exp10_of q"] by (simp add: s_def)
  then have "of_int n / s = q" unfolding n [symmetric] s_def by simp
  moreover have "q * s = of_int n" using n by (simp only: s_def)
  ultimately show ?thesis using False
    by (simp only: round_sig_def Let_def if_False s_def [symmetric] round_half_even_of_int)
qed (simp add: round_sig_def)

text \<open>Taking off a step of a unit in the last place always gives a smaller printed number.\<close>

lemma round_sig_step:
  assumes d: "0 < d" and p: "decimal_rep d p"
    and step: "\<bar>p\<bar> * pow10 (1 - int d) \<le> step" "0 < step"
  shows "round_sig d (p - step) < p"
proof (cases "p = 0")
  case True
  then have x: "p - step < 0" using step by simp
  then have "p - step \<le> - pow10 (exp10_of (p - step))" using exp10_bounds(1) [of "p - step"] by simp
  then have "round_sig d (p - step) \<le> - pow10 (exp10_of (p - step))"
    by (intro round_sig_le d pow10_rep(2))
  then show ?thesis using True pow10_pos [of "exp10_of (p - step)"] by linarith
next
  case False
  define e where "e = exp10_of p"
  define j where "j = e - int d + 1"
  note b = exp10_bounds [OF False, folded e_def]
  obtain n where n: "p * pow10 (int d - 1 - e) = of_int n" using grid_int [OF p b(1)] by blast
  have "p * (pow10 (int d - 1 - e) * pow10 j) = of_int n * pow10 j" by (simp flip: n)
  then have pn: "p = of_int n * pow10 j" by (simp add: j_def flip: pow10_add)
  have "\<bar>real_of_int n\<bar> * pow10 j < pow10 (int d) * pow10 j"
    using b(2) unfolding pn j_def by (simp add: abs_mult pow10_shift)
  then have "\<bar>real_of_int n\<bar> < pow10 (int d)" by (rule mult_right_less_imp_less) simp
  then have "real_of_int \<bar>n\<bar> < of_int (10 ^ d)" by simp
  then have "\<bar>n - 1\<bar> \<le> 10 ^ d" by (simp only: of_int_less_iff)
  then have q: "decimal_rep d (of_int (n - 1) * pow10 j)" by (intro decimal_rep_carry d)
  have "pow10 j = pow10 e * pow10 (1 - int d)" by (simp add: j_def algebra_simps flip: pow10_add)
  also have "\<dots> \<le> \<bar>p\<bar> * pow10 (1 - int d)" using b(1) by (intro mult_right_mono) simp_all
  finally have "p - step \<le> of_int (n - 1) * pow10 j" using step(1) by (simp add: pn left_diff_distrib)
  then have "round_sig d (p - step) \<le> of_int (n - 1) * pow10 j" using round_sig_le [OF d q] by blast
  also have "\<dots> < p" by (simp add: pn)
  finally show ?thesis .
qed

section \<open>Printing and reading decimals\<close>

text \<open>
  \<open>sig_digits\<close> gives the \<open>digits\<close>-digit integer and the exponent that \<open>%g\<close> prints; when rounding
  carries to one digit more, the exponent goes up instead.
\<close>

definition sig_digits :: "nat \<Rightarrow> real \<Rightarrow> nat \<times> int" where
  "sig_digits P x =
     (let e = exp10_of x;
          m = nat (round_half_even (\<bar>x\<bar> * pow10 (int P - 1 - e)))
      in if m = 10 ^ P then (10 ^ (P - 1), e + 1) else (m, e))"

definition strip_zeros :: "string \<Rightarrow> string" where
  "strip_zeros s = rev (dropWhile (\<lambda>c. c = CHR ''0'') (rev s))"

definition with_frac :: "string \<Rightarrow> string \<Rightarrow> string" where
  "with_frac ip fp = (let f = strip_zeros fp in if f = [] then ip else ip @ ''.'' @ f)"

definition exp_str :: "int \<Rightarrow> string" where
  \<comment> \<open>\<open>e+XX\<close> or \<open>e-XX\<close>, at least two digits\<close>
  "exp_str e =
     (let ds = str_nat (nat \<bar>e\<bar>)
      in (if e < 0 then ''e-'' else ''e+'') @ (if length ds < 2 then ''0'' @ ds else ds))"

definition fmt_g :: "nat \<Rightarrow> real \<Rightarrow> string" where
  \<comment> \<open>\<open>f"{x:.Pg}"\<close>, \<open>0 < P\<close>\<close>
  "fmt_g P x =
     (if x = 0 then ''0''
      else
        (let (m, e) = sig_digits P x; ds = str_nat m
         in (if x < 0 then ''-'' else []) @
            (if - 4 \<le> e \<and> e < int P then
               (if 0 \<le> e then with_frac (take (nat e + 1) ds) (drop (nat e + 1) ds)
                else with_frac ''0'' (replicate (nat (- e) - 1) (CHR ''0'') @ ds))
             else with_frac (take 1 ds) (drop 1 ds) @ exp_str e)))"

definition read_exp :: "string \<Rightarrow> int option" where
  \<comment> \<open>the exponent of a decimal literal, after the \<open>e\<close>\<close>
  "read_exp s = (case int_of s of Inr n \<Rightarrow> Some n | Inl _ \<Rightarrow> None)"

definition is_e :: "char \<Rightarrow> bool" where
  "is_e c = (c = CHR ''e'' \<or> c = CHR ''E'')"

definition read_udec :: "string \<Rightarrow> real option" where
  \<comment> \<open>an unsigned decimal literal: digits, an optional point and digits, an optional exponent\<close>
  "read_udec s =
     (let mant = takeWhile (\<lambda>c. \<not> is_e c) s;
          rest = dropWhile (\<lambda>c. \<not> is_e c) s;
          ip = takeWhile is_digit_char mant;
          aft = dropWhile is_digit_char mant;
          fp = drop 1 aft
      in if (aft \<noteq> [] \<and> (hd aft \<noteq> CHR ''.'' \<or> \<not> list_all is_digit_char fp)) \<or> ip @ fp = [] then None
         else case (if rest = [] then Some 0 else read_exp (drop 1 rest)) of
           None \<Rightarrow> None
         | Some e \<Rightarrow> Some (real (nat_of_digits (ip @ fp)) * pow10 (e - int (length fp))))"

definition float_of :: "string \<Rightarrow> real res" where
  \<comment> \<open>\<open>float(s)\<close> on finite decimal literals; every other string raises\<close>
  "float_of s =
     (let t = strip s;
          (sg, u) = (if t \<noteq> [] \<and> hd t = CHR ''-'' then (- 1, tl t)
                     else if t \<noteq> [] \<and> hd t = CHR ''+'' then (1, tl t) else (1, t))
      in case read_udec u of None \<Rightarrow> Inl ValueError | Some v \<Rightarrow> Inr (sg * v))"

definition fmt_f :: "nat \<Rightarrow> real \<Rightarrow> string" where
  \<comment> \<open>\<open>f"{x:.nf}"\<close>\<close>
  "fmt_f n x =
     (let m = nat \<bar>round_half_even (x * 10 ^ n)\<bar>;
          ds = str_nat (m mod 10 ^ n)
      in (if x < 0 then ''-'' else []) @ str_nat (m div 10 ^ n) @
         (if n = 0 then [] else ''.'' @ replicate (n - length ds) (CHR ''0'') @ ds))"

section \<open>Reading back a printed number\<close>

lemma nat_of_digits_append:
  "nat_of_digits (a @ b) = nat_of_digits a * 10 ^ length b + nat_of_digits b"
  by (induction b rule: rev_induct)
     (simp_all add: nat_of_digits_snoc nat_of_digits_def [of "[]"] algebra_simps flip: append_assoc)

lemma nat_of_digits_zeros: "nat_of_digits (replicate n (CHR ''0'')) = 0"
  by (induction n) (simp_all add: nat_of_digits_snoc nat_of_digits_def [of "[]"] code_def
      replicate_append_same [symmetric])

lemma strip_zeros_split: "\<exists>n. s = strip_zeros s @ replicate n (CHR ''0'')"
proof -
  have "takeWhile (\<lambda>c. c = CHR ''0'') (rev s) = replicate (length (takeWhile (\<lambda>c. c = CHR ''0'') (rev s))) (CHR ''0'')"
    by (rule replicate_eqI) (auto dest: set_takeWhileD)
  then show ?thesis
    by (metis strip_zeros_def rev_append rev_replicate rev_rev_ident takeWhile_dropWhile_id)
qed

lemma length_str_nat:
  "0 < p \<Longrightarrow> 10 ^ (p - 1) \<le> m \<Longrightarrow> m < 10 ^ p \<Longrightarrow> length (str_nat m) = p"
proof (induction p arbitrary: m)
  case (Suc p)
  show ?case
  proof (cases "p = 0")
    case True
    then show ?thesis using Suc.prems by (simp add: str_nat.simps [of m])
  next
    case False
    then have "10 \<le> (10::nat) ^ p" by (metis One_nat_def power_increasing power_one_right Suc_leI neq0_conv one_le_numeral)
    then have "\<not> m < 10" using Suc.prems by simp
    moreover have "length (str_nat (m div 10)) = p"
    proof (rule Suc.IH)
      show "10 ^ (p - 1) \<le> m div 10" using Suc.prems False
        by (metis Suc_pred' diff_Suc_1 div_le_mono nonzero_mult_div_cancel_left neq0_conv power_Suc zero_neq_numeral)
      show "m div 10 < 10 ^ p" using Suc.prems by (simp add: less_mult_imp_div_less mult.commute)
    qed (use False in simp)
    ultimately show ?thesis by (simp add: str_nat.simps [of m])
  qed
qed simp

lemma digits_no_e: "list_all is_digit_char s \<Longrightarrow> c \<in> set s \<Longrightarrow> \<not> is_e c"
  by (auto simp: list_all_iff is_e_def is_digit_char_def code_def)

lemma read_exp_exp_str: "read_exp (tl (exp_str e)) = Some e"
proof -
  define ds where "ds = (let ds = str_nat (nat \<bar>e\<bar>) in if length ds < 2 then ''0'' @ ds else ds)"
  have "nat_of_digits (''0'' @ str_nat n) = n" for n
    by (simp only: nat_of_digits_append nat_of_digits_str_nat) (simp add: nat_of_digits_def code_def)
  then have v: "nat_of_digits ds = nat \<bar>e\<bar>" by (simp add: ds_def Let_def)
  have d: "isdigit ds"
    using isdigit_str_nat by (simp add: ds_def Let_def isdigit_def is_digit_char_def code_def)
  have "exp_str e = (if e < 0 then ''e-'' else ''e+'') @ ds" by (simp add: exp_str_def ds_def Let_def)
  then show ?thesis using v d by (simp add: read_exp_def int_of_def)
qed

lemma exp_str_e: "\<exists>c r. exp_str e = c # r \<and> is_e c"
  by (simp add: exp_str_def Let_def is_e_def)

lemma read_udec_frac:
  assumes ip: "list_all is_digit_char ip" "ip \<noteq> []" and fp: "list_all is_digit_char fp"
    and ex: "ex = [] \<and> e = 0 \<or> ex = exp_str e"
  shows "read_udec (with_frac ip fp @ ex) =
     Some (real (nat_of_digits (ip @ fp)) * pow10 (e - int (length fp)))"
proof -
  obtain n where n: "fp = strip_zeros fp @ replicate n (CHR ''0'')" using strip_zeros_split by blast
  define f where "f = strip_zeros fp"
  have f: "list_all is_digit_char f" using fp n by (metis f_def list_all_append)
  have point: "\<not> is_digit_char (CHR ''.'')" "\<not> is_e (CHR ''.'')"
    by (simp_all add: is_digit_char_def code_def is_e_def)
  let ?mant = "with_frac ip fp"
  have m: "?mant = ip @ (if f = [] then [] else CHR ''.'' # f)"
    by (simp add: with_frac_def f_def Let_def)
  have no_e: "\<forall>c \<in> set ?mant. \<not> is_e c"
    using digits_no_e [OF ip(1)] digits_no_e [OF f] point by (auto simp: m)
  have split: "takeWhile (\<lambda>c. \<not> is_e c) (?mant @ ex) = ?mant" "dropWhile (\<lambda>c. \<not> is_e c) (?mant @ ex) = ex"
    using no_e ex exp_str_e [of e] by (auto simp: takeWhile_append2 dropWhile_append2)
  have ipd: "\<forall>c \<in> set ip. is_digit_char c" using ip(1) by (simp add: list_all_iff)
  have parts: "takeWhile is_digit_char ?mant = ip"
    "dropWhile is_digit_char ?mant = (if f = [] then [] else CHR ''.'' # f)"
    using ipd point by (auto simp: m takeWhile_append2 dropWhile_append2)
  have "(if ex = [] then Some 0 else read_exp (drop 1 ex)) = Some e"
    using ex exp_str_e [of e] read_exp_exp_str [of e] by (auto simp: drop_Suc)
  then have "read_udec (?mant @ ex) = Some (real (nat_of_digits (ip @ f)) * pow10 (e - int (length f)))"
    unfolding read_udec_def Let_def split parts using f ip(2) by (cases "f = []") simp_all
  moreover have "real (nat_of_digits (ip @ fp)) * pow10 (e - int (length fp))
      = real (nat_of_digits (ip @ f)) * pow10 (e - int (length f))"
  proof -
    have "nat_of_digits (ip @ fp) = nat_of_digits (ip @ f) * 10 ^ n"
      using n nat_of_digits_append [of "ip @ f" "replicate n (CHR ''0'')"]
      by (simp add: f_def nat_of_digits_zeros)
    moreover have "length fp = length f + n" using n by (metis f_def length_append length_replicate)
    ultimately show ?thesis by (simp add: mult.assoc pow10_shift algebra_simps)
  qed
  ultimately show ?thesis by simp
qed

lemma sig_digits_round:
  assumes P: "0 < P" and x: "x \<noteq> 0" and s: "sig_digits P x = (m, e)"
  shows "10 ^ (P - 1) \<le> m" and "m < 10 ^ P" and "round_sig P \<bar>x\<bar> = real m * pow10 (e - int P + 1)"
proof -
  define e0 where "e0 = exp10_of x"
  define sc where "sc = pow10 (int P - 1 - e0)"
  define r where "r = round_half_even (\<bar>x\<bar> * sc)"
  note b = exp10_bounds [OF x, folded e0_def]
  have sc: "0 < sc" by (simp add: sc_def)
  have P1: "pow10 (int P - 1) = of_int (10 ^ (P - 1))"
    using P by (subst pow10_nat) (simp_all add: nat_diff_distrib' flip: nat_diff_distrib)
  have lo: "of_int (10 ^ (P - 1)) \<le> \<bar>x\<bar> * sc"
  proof -
    have "pow10 e0 * sc \<le> \<bar>x\<bar> * sc" using b(1) sc by (intro mult_right_mono) auto
    then show ?thesis using P1 by (simp add: sc_def flip: pow10_add)
  qed
  have hi: "\<bar>x\<bar> * sc \<le> of_int (10 ^ P)"
  proof -
    have "\<bar>x\<bar> * sc \<le> pow10 (e0 + 1) * sc" using b(2) sc by (intro mult_right_mono) auto
    then show ?thesis by (simp add: sc_def flip: pow10_add)
  qed
  have r: "10 ^ (P - 1) \<le> r" "r \<le> 10 ^ P"
    unfolding r_def by (rule round_half_even_ge [OF lo], rule round_half_even_le [OF hi])
  then have r0: "0 \<le> r" by (meson order.trans zero_le_numeral zero_le_power)
  have me: "(m, e) = (if nat r = 10 ^ P then (10 ^ (P - 1), e0 + 1) else (nat r, e0))"
    using s by (auto simp: sig_digits_def Let_def r_def sc_def e0_def split: if_splits)
  have nr: "nat r = 10 ^ P \<longleftrightarrow> r = 10 ^ P" using r0 by (metis int_nat_eq nat_int of_nat_numeral of_nat_power)
  show "10 ^ (P - 1) \<le> m" using me r(1) by (auto split: if_splits simp: nat_le_eq_zle nat_power_eq le_nat_iff)
  show "m < 10 ^ P" using me r P by (auto split: if_splits simp: nr nat_less_iff r0)
  have rs: "round_sig P \<bar>x\<bar> = of_int r / sc"
    using x by (simp add: round_sig_def Let_def r_def sc_def e0_def exp10_of_def)
  have div: "of_int r / sc = of_int r * pow10 (e0 - int P + 1)"
    by (simp add: sc_def power_int_diff power_int_add field_simps)
  show "round_sig P \<bar>x\<bar> = real m * pow10 (e - int P + 1)"
  proof (cases "r = 10 ^ P")
    case True
    then have "m = 10 ^ (P - 1)" "e = e0 + 1" using me nr by auto
    moreover have "real (10 ^ (P - 1)) = pow10 (int P - 1)" using P1 by simp
    ultimately show ?thesis using rs div True by (simp add: pow10_shift algebra_simps flip: pow10_add)
  next
    case False
    then have "m = nat r" "e = e0" using me nr by auto
    then show ?thesis using rs div r0 by simp
  qed
qed

lemma round_sig_abs: "round_sig P x = (if x < 0 then - round_sig P \<bar>x\<bar> else round_sig P \<bar>x\<bar>)"
proof -
  have neg: "round_half_even (- y) = - round_half_even y" for y
  proof (cases "y = of_int \<lfloor>y\<rfloor>")
    case True
    then show ?thesis by (metis of_int_minus round_half_even_of_int)
  next
    case False
    then have fl: "\<lfloor>- y\<rfloor> = - \<lfloor>y\<rfloor> - 1" by (metis floor_minus ceiling_altdef minus_diff_minus add.commute diff_minus_eq_add minus_add_distrib uminus_add_conv_diff)
    show ?thesis by (simp add: round_half_even_def Let_def fl)
  qed
  show ?thesis
    by (auto simp: round_sig_def exp10_of_def Let_def neg simp flip: minus_mult_left)
qed

lemma with_frac_hd: "ip \<noteq> [] \<Longrightarrow> hd (with_frac ip fp) = hd ip \<and> with_frac ip fp \<noteq> []"
  by (simp add: with_frac_def Let_def)

abbreviation nsp :: "string \<Rightarrow> bool" where
  "nsp s \<equiv> list_all (\<lambda>c. \<not> is_space_char c) s"

lemma digits_nsp: "list_all is_digit_char s \<Longrightarrow> nsp s"
  using digit_not_space by (auto simp: list_all_iff)

lemma with_frac_nsp:
  "list_all is_digit_char ip \<Longrightarrow> list_all is_digit_char fp \<Longrightarrow> nsp (with_frac ip fp)"
proof -
  assume a: "list_all is_digit_char ip" "list_all is_digit_char fp"
  obtain n where "fp = strip_zeros fp @ replicate n (CHR ''0'')" using strip_zeros_split by blast
  then have "list_all is_digit_char (strip_zeros fp)" using a(2) by (metis list_all_append)
  then have "nsp (strip_zeros fp)" "nsp ip" using a(1) digits_nsp by auto
  moreover have "\<not> is_space_char (CHR ''.'')" by (simp add: is_space_char_def code_def)
  ultimately show ?thesis by (simp add: with_frac_def Let_def)
qed

lemma exp_str_nsp: "nsp (exp_str e)"
proof -
  have "nsp (str_nat n)" for n by (rule digits_nsp [OF str_nat_digits])
  then show ?thesis by (simp add: exp_str_def Let_def is_space_char_def code_def)
qed

lemma strip_nsp: "nsp s \<Longrightarrow> strip s = s"
proof -
  have "dropWhile is_space_char t = t" if "nsp t" for t using that by (cases t) auto
  then show "nsp s \<Longrightarrow> strip s = s" by (simp add: strip_def lstrip_def rstrip_def list_all_rev)
qed

lemma zeros_digits: "list_all is_digit_char (replicate n (CHR ''0''))"
  by (simp add: list_all_iff is_digit_char_def code_def)

text \<open>Every branch of \<open>%g\<close> is an unsigned literal with the same value.\<close>

lemma float_of_signed:
  assumes "nsp b" and "b \<noteq> []" and "is_digit_char (hd b)" and "read_udec b = Some v"
  shows "float_of ((if neg then ''-'' else []) @ b) = Inr (if neg then - v else v)"
proof -
  have "\<not> is_space_char (CHR ''-'')" by (simp add: is_space_char_def code_def)
  then have "strip ((if neg then ''-'' else []) @ b) = (if neg then ''-'' else []) @ b"
    using assms(1) by (intro strip_nsp) auto
  moreover have "hd b \<noteq> CHR ''-''" "hd b \<noteq> CHR ''+''"
    using assms(3) not_digit_minus not_digit_plus by auto
  ultimately show ?thesis using assms(2,4) by (simp add: float_of_def)
qed

lemma sig_body:
  assumes ip: "list_all is_digit_char ip" "ip \<noteq> []" and fp: "list_all is_digit_char fp"
    and ex: "ex = [] \<and> e = 0 \<or> ex = exp_str e"
  shows "float_of ((if neg then ''-'' else []) @ with_frac ip fp @ ex) =
     (let v = real (nat_of_digits (ip @ fp)) * pow10 (e - int (length fp))
      in Inr (if neg then - v else v))"
  unfolding Let_def
proof (rule float_of_signed)
  show "nsp (with_frac ip fp @ ex)" using with_frac_nsp [OF ip(1) fp] ex exp_str_nsp [of e] by auto
  show "with_frac ip fp @ ex \<noteq> []" using with_frac_hd [OF ip(2)] by simp
  show "is_digit_char (hd (with_frac ip fp @ ex))"
    using with_frac_hd [OF ip(2), of fp] ip by (cases ip) (auto simp: hd_append)
  show "read_udec (with_frac ip fp @ ex) = Some (real (nat_of_digits (ip @ fp)) * pow10 (e - int (length fp)))"
    by (rule read_udec_frac [OF ip fp ex])
qed

lemma float_of_fmt_g:
  assumes P: "0 < P"
  shows "float_of (fmt_g P x) = Inr (round_sig P x)"
proof (cases "x = 0")
  case True
  have "float_of ''0'' = Inr 0"
    using sig_body [of "''0''" "[]" "[]" 0 False]
    by (simp add: with_frac_def strip_zeros_def is_digit_char_def code_def nat_of_digits_def)
  then show ?thesis using True by (simp add: fmt_g_def round_sig_def)
next
  case False
  obtain m e where me: "sig_digits P x = (m, e)" by (cases "sig_digits P x")
  note sd = sig_digits_round [OF P False me]
  define ds where "ds = str_nat m"
  have len: "length ds = P" unfolding ds_def using length_str_nat [OF P sd(1,2)] .
  have dg: "list_all is_digit_char ds" unfolding ds_def by (rule str_nat_digits)
  have part: "list_all is_digit_char (take n ds)" "list_all is_digit_char (drop n ds)" for n
    using dg by (metis append_take_drop_id list_all_append)+
  have val: "nat_of_digits ds = m" by (simp add: ds_def)
  have ne: "ds \<noteq> []" by (simp add: ds_def)
  define v where "v = real m * pow10 (e - int P + 1)"
  have res: "Inr (if x < 0 then - v else v) = (Inr (round_sig P x) :: real res)"
    unfolding v_def sd(3) [symmetric] sum.inject by (rule round_sig_abs [symmetric])
  let ?sg = "if x < 0 then ''-'' else []"
  consider (fixed) "0 \<le> e" "e < int P" | (small) "- 4 \<le> e" "e < 0" | (sci) "\<not> (- 4 \<le> e \<and> e < int P)"
    by linarith
  then show ?thesis
  proof cases
    case fixed
    have "float_of (?sg @ with_frac (take (nat e + 1) ds) (drop (nat e + 1) ds) @ []) = Inr (if x < 0 then - v else v)"
      using part ne fixed by (subst sig_body) (auto simp: Let_def val len v_def of_nat_diff algebra_simps)
    then show ?thesis
      unfolding fmt_g_def me Let_def prod.case if_not_P [OF False] ds_def using fixed res by simp
  next
    case small
    have "nat_of_digits (''0'' @ replicate (nat (- e) - 1) (CHR ''0'') @ ds) = m"
      by (simp only: nat_of_digits_append nat_of_digits_zeros val) (simp add: nat_of_digits_def code_def)
    then have "float_of (?sg @ with_frac ''0'' (replicate (nat (- e) - 1) (CHR ''0'') @ ds) @ []) = Inr (if x < 0 then - v else v)"
      using dg zeros_digits small
      by (subst sig_body) (auto simp: Let_def len v_def is_digit_char_def code_def of_nat_diff algebra_simps)
    then show ?thesis using False small P res by (simp add: fmt_g_def me ds_def)
  next
    case sci
    have "float_of (?sg @ with_frac (take 1 ds) (drop 1 ds) @ exp_str e) = Inr (if x < 0 then - v else v)"
    proof (subst sig_body)
      have "e - int (length (drop 1 ds)) = e - int P + 1" using P len by (simp add: of_nat_diff)
      then show "(let v = real (nat_of_digits (take 1 ds @ drop 1 ds)) * pow10 (e - int (length (drop 1 ds)))
          in Inr (if x < 0 then - v else v)) = Inr (if x < 0 then - v else v)"
        by (simp only: Let_def append_take_drop_id val v_def)
    qed (use part ne in auto)
    then show ?thesis
      unfolding fmt_g_def me Let_def prod.case if_not_P [OF False] if_not_P [OF sci] ds_def res .
  qed
qed

lemma plain_fmt_g:
  assumes "0 < P"
  shows "plain (fmt_g P x)"
proof (cases "x = 0")
  case True
  then show ?thesis by (simp add: fmt_g_def plain_def is_space_char_def code_def)
next
  case False
  obtain m e where me: "sig_digits P x = (m, e)" by (cases "sig_digits P x")
  have dg: "list_all is_digit_char (str_nat m)" by (rule str_nat_digits)
  have part: "list_all is_digit_char (take n (str_nat m))" "list_all is_digit_char (drop n (str_nat m))" for n
    using dg by (metis append_take_drop_id list_all_append)+
  have nsp0: "list_all is_digit_char (''0'')" by (simp add: is_digit_char_def code_def)
  let ?body = "if - 4 \<le> e \<and> e < int P then
       (if 0 \<le> e then with_frac (take (nat e + 1) (str_nat m)) (drop (nat e + 1) (str_nat m))
        else with_frac ''0'' (replicate (nat (- e) - 1) (CHR ''0'') @ str_nat m))
     else with_frac (take 1 (str_nat m)) (drop 1 (str_nat m)) @ exp_str e"
  have w: "nsp (with_frac ip fp) \<and> with_frac ip fp \<noteq> []"
    if "list_all is_digit_char ip" "ip \<noteq> []" "list_all is_digit_char fp" for ip fp
    using that with_frac_nsp with_frac_hd by blast
  have w1: "nsp (with_frac (take (Suc n) (str_nat m)) (drop k (str_nat m))) \<and>
      with_frac (take (Suc n) (str_nat m)) (drop k (str_nat m)) \<noteq> []" for n k
    using part by (intro w) auto
  have w2: "nsp (with_frac ''0'' (replicate n (CHR ''0'') @ str_nat m)) \<and>
      with_frac ''0'' (replicate n (CHR ''0'') @ str_nat m) \<noteq> []" for n
    using dg nsp0 zeros_digits by (intro w) auto
  define body where "body = ?body"
  have "nsp body \<and> body \<noteq> []"
    unfolding body_def using w1 w2 exp_str_nsp [of e] by simp
  moreover have "nsp (if x < 0 then ''-'' else [])" by (simp add: is_space_char_def code_def)
  moreover have "fmt_g P x = (if x < 0 then ''-'' else []) @ body"
    unfolding fmt_g_def me Let_def prod.case if_not_P [OF False] body_def ..
  ultimately show ?thesis unfolding plain_def by simp
qed

lemma float_of_printed: "0 < d \<Longrightarrow> decimal_rep d q \<Longrightarrow> float_of (fmt_g d q) = Inr q"
  by (simp add: float_of_fmt_g round_sig_rep)

section \<open>Fixed decimals are read back\<close>

definition decimals :: "nat \<Rightarrow> nat \<Rightarrow> string" where
  \<comment> \<open>\<open>m / 10 ^ n\<close> with \<open>n\<close> decimals\<close>
  "decimals n m = (let ds = str_nat (m mod 10 ^ n) in replicate (n - length ds) (CHR ''0'') @ ds)"

lemma decimals_digits: "list_all is_digit_char (decimals n m)"
  by (simp add: decimals_def Let_def zeros_digits str_nat_digits)

lemma length_str_nat_le: "0 < n \<Longrightarrow> m < 10 ^ n \<Longrightarrow> length (str_nat m) \<le> n"
proof (induction n arbitrary: m)
  case (Suc n)
  show ?case
  proof (cases "m < 10")
    case False
    then have "0 < n" "m div 10 < 10 ^ n" using Suc.prems by (auto simp: less_mult_imp_div_less mult.commute intro: ccontr)
    then show ?thesis using Suc.IH [of "m div 10"] False by (simp add: str_nat.simps [of m])
  qed (simp add: str_nat.simps [of m])
qed simp

lemma length_decimals: "0 < n \<Longrightarrow> length (decimals n m) = n"
  using length_str_nat_le [of n "m mod 10 ^ n"] by (simp add: decimals_def Let_def)

lemma decimals_value:
  assumes "0 < n"
  shows "nat_of_digits (str_nat (m div 10 ^ n) @ decimals n m) = m"
proof -
  have "nat_of_digits (decimals n m) = m mod 10 ^ n"
    by (simp add: decimals_def Let_def nat_of_digits_append nat_of_digits_zeros)
  then show ?thesis using div_mult_mod_eq [of m "10 ^ n"] by (simp add: nat_of_digits_append length_decimals [OF assms])
qed

lemma fmt_f_parts:
  "0 < n \<Longrightarrow> fmt_f n x = (let m = nat \<bar>round_half_even (x * 10 ^ n)\<bar> in
     (if x < 0 then ''-'' else []) @ str_nat (m div 10 ^ n) @ ''.'' @ decimals n m)"
  by (simp add: fmt_f_def decimals_def Let_def)

lemma read_udec_decimals:
  assumes "0 < n"
  shows "read_udec (str_nat (m div 10 ^ n) @ ''.'' @ decimals n m) = Some (real m / 10 ^ n)"
proof -
  let ?ip = "str_nat (m div 10 ^ n)" and ?fp = "decimals n m"
  have d: "\<forall>c \<in> set ?ip. is_digit_char c" "\<forall>c \<in> set ?fp. is_digit_char c"
    using str_nat_digits [of "m div 10 ^ n"] decimals_digits [of n m] by (simp_all add: list_all_iff)
  have pt: "\<not> is_digit_char (CHR ''.'')" "\<not> is_e (CHR ''.'')" by (simp_all add: is_digit_char_def code_def is_e_def)
  let ?s = "?ip @ ''.'' @ ?fp"
  have "\<forall>c \<in> set ?s. \<not> is_e c"
    using digits_no_e [OF str_nat_digits] digits_no_e [OF decimals_digits] pt by auto
  then have e: "takeWhile (\<lambda>c. \<not> is_e c) ?s = ?s" "dropWhile (\<lambda>c. \<not> is_e c) ?s = []"
    by (simp_all only: takeWhile_eq_all_conv dropWhile_eq_Nil_conv)
  have parts: "takeWhile is_digit_char ?s = ?ip" "dropWhile is_digit_char ?s = ''.'' @ ?fp"
    using d pt by (simp_all add: takeWhile_append2 dropWhile_append2)
  have v: "drop 1 (''.'' @ ?fp) = ?fp" "nat_of_digits (?ip @ ?fp) = m" "length ?fp = n" "list_all is_digit_char ?fp"
    using decimals_digits [of n m] decimals_value [OF assms, of m] length_decimals [OF assms, of m] by simp_all
  show ?thesis
    unfolding read_udec_def Let_def e parts v using v(4) by (simp add: power_int_minus divide_inverse)
qed

lemma fmt_f_neg: "x < 0 \<Longrightarrow> real_of_int (round_half_even (x * 10 ^ n)) = - real (nat \<bar>round_half_even (x * 10 ^ n)\<bar>)"
  "\<not> x < 0 \<Longrightarrow> real_of_int (round_half_even (x * 10 ^ n)) = real (nat \<bar>round_half_even (x * 10 ^ n)\<bar>)"
proof -
  assume "x < 0"
  then have "round_half_even (x * 10 ^ n) \<le> 0" by (intro round_half_even_le) (simp add: mult_nonpos_nonneg)
  then show "real_of_int (round_half_even (x * 10 ^ n)) = - real (nat \<bar>round_half_even (x * 10 ^ n)\<bar>)" by simp
next
  assume "\<not> x < 0"
  then have "0 \<le> round_half_even (x * 10 ^ n)" by (intro round_half_even_ge) simp
  then show "real_of_int (round_half_even (x * 10 ^ n)) = real (nat \<bar>round_half_even (x * 10 ^ n)\<bar>)" by simp
qed

lemma float_of_fmt_f:
  assumes "0 < n"
  shows "float_of (fmt_f n x) = Inr (round_to n x)"
proof -
  let ?m = "nat \<bar>round_half_even (x * 10 ^ n)\<bar>"
  let ?b = "str_nat (?m div 10 ^ n) @ ''.'' @ decimals n ?m"
  have "nsp ?b" using digits_nsp [OF str_nat_digits] digits_nsp [OF decimals_digits] by (simp add: is_space_char_def code_def)
  moreover have "is_digit_char (hd ?b)" using str_nat_digits [of "?m div 10 ^ n"] by (cases "str_nat (?m div 10 ^ n)") auto
  ultimately have "float_of ((if x < 0 then ''-'' else []) @ ?b) = Inr (if x < 0 then - (real ?m / 10 ^ n) else real ?m / 10 ^ n)"
    using read_udec_decimals [OF assms, of ?m] by (intro float_of_signed) simp_all
  moreover have "fmt_f n x = (if x < 0 then ''-'' else []) @ ?b" unfolding fmt_f_parts [OF assms] Let_def ..
  moreover have "round_to n x = (if x < 0 then - (real ?m / 10 ^ n) else real ?m / 10 ^ n)"
    unfolding round_to_def by (cases "x < 0") (simp_all only: fmt_f_neg if_True if_False minus_divide_left not_False_eq_True)
  ultimately show ?thesis by (simp only:)
qed

end
