(* ===== verification/Fusion_Core.thy ===== *)
theory Fusion_Core
  imports Eval_Metrics Py_Float
begin

text \<open>
  \<open>py/hybridsearch/fusion/core.py\<close>: reciprocal rank fusion, weighted fusion of normalised scores and
  the run-file scores that keep a fused order.  A ranking is a list of (docid, score) pairs, best
  first.  The iteration order of a Python set is an argument (\<open>so\<close>) of the functions that iterate over
  one.  The lemmas give the fused score of every document, that the order is the sort by fused score
  and docid key, the errors, and that run-file scores are strictly decreasing decimals.
\<close>

type_synonym ranking = "(docid \<times> real) list"

section \<open>Docid order and truncation\<close>

definition docid_key :: "docid \<Rightarrow> nat \<times> nat \<times> string" where
  "docid_key d = (if isdigit d then (0, nat_of_digits d, []) else (1, 0, d))"

definition cut_depth :: "'a list \<Rightarrow> int option \<Rightarrow> 'a list res" where
  "cut_depth r depth =
     (case depth of
        None \<Rightarrow> Inr r
      | Some n \<Rightarrow> if n < 1 then Inl ValueError else Inr (take (nat n) r))"

fun check_unique_scan :: "docid set \<Rightarrow> ranking \<Rightarrow> unit res" where
  "check_unique_scan seen [] = Inr ()"
| "check_unique_scan seen ((d, s) # r) =
     (if d \<in> seen then Inl ValueError else check_unique_scan (insert d seen) r)"

definition check_unique :: "ranking \<Rightarrow> unit res" where
  "check_unique r = check_unique_scan {} r"

definition out_take :: "nat option \<Rightarrow> 'a list \<Rightarrow> 'a list" where
  \<comment> \<open>\<open>out if out_k is None else out[:out_k]\<close>\<close>
  "out_take out_k xs = (case out_k of None \<Rightarrow> xs | Some n \<Rightarrow> take n xs)"

definition sort_fused :: "(docid, real) dict \<Rightarrow> nat option \<Rightarrow> ranking" where
  "sort_fused scores out_k = out_take out_k (py_sorted (\<lambda>x. (- snd x, docid_key (fst x))) scores)"

section \<open>Reciprocal rank fusion\<close>

definition rrf_add :: "real \<Rightarrow> (docid, real) dict \<Rightarrow> nat \<times> docid \<times> real \<Rightarrow> (docid, real) dict" where
  "rrf_add k scores = (\<lambda>(rank, d, _). dset scores d (dget scores d 0 + 1 / (k + real rank)))"

definition rrf_ranking :: "real \<Rightarrow> int option \<Rightarrow> (docid, real) dict \<Rightarrow> ranking \<Rightarrow> (docid, real) dict res" where
  "rrf_ranking k depth scores r =
     res_bind (cut_depth r depth) (\<lambda>r.
       res_bind (check_unique r) (\<lambda>_. Inr (foldl (rrf_add k) scores (enumerate 1 r))))"

definition rrf :: "ranking list \<Rightarrow> real \<Rightarrow> int option \<Rightarrow> nat option \<Rightarrow> ranking res" where
  "rrf rankings k depth out_k =
     (if k < 0 then Inl ValueError
      else res_bind (res_fold (rrf_ranking k depth) [] rankings) (\<lambda>scores. Inr (sort_fused scores out_k)))"

section \<open>Normalised scores\<close>

definition NORMALISATIONS :: "string list" where
  "NORMALISATIONS = [''minmax'', ''zscore'']"

definition normalise :: "real list \<Rightarrow> string \<Rightarrow> real list res" where
  "normalise s method =
     (if s = [] then Inr []
      else if method = ''minmax'' then
        (let lo = Min (set s); hi = Max (set s)
         in Inr (if hi - lo = 0 then replicate (length s) 1 else map (\<lambda>x. (x - lo) / (hi - lo)) s))
      else if method = ''zscore'' then
        (let n = real (length s);
             mu = sum_list s / n;
             sd = sqrt (sum_list (map (\<lambda>x. (x - mu) ^ 2) s) / n)
         in Inr (if sd = 0 then replicate (length s) 0 else map (\<lambda>x. (x - mu) / sd) s))
      else Inl ValueError)"

definition floor_of :: "real list \<Rightarrow> real" where
  \<comment> \<open>\<open>min(ns) if ns else 0.0\<close>\<close>
  "floor_of ns = (if ns = [] then 0 else Min (set ns))"

type_synonym part = "(docid, real) dict \<times> real \<times> real"

definition weighted_part :: "string \<Rightarrow> int option \<Rightarrow> ranking \<Rightarrow> real \<Rightarrow> part res" where
  "weighted_part nm depth r w =
     res_bind (cut_depth r depth) (\<lambda>r.
       res_bind (check_unique r) (\<lambda>_.
         res_bind (normalise (map snd r) nm) (\<lambda>ns.
           Inr (dict_of (zip (map fst r) ns), floor_of ns, w))))"

definition part_score :: "docid \<Rightarrow> part \<Rightarrow> real" where
  "part_score d = (\<lambda>(m, fl, w). w * dget m d fl)"

definition weighted :: "(docid list \<Rightarrow> docid list) \<Rightarrow> ranking \<Rightarrow> ranking \<Rightarrow> real \<Rightarrow> string \<Rightarrow>
    int option \<Rightarrow> nat option \<Rightarrow> ranking res" where
  "weighted so lexr denser alpha nm depth out_k =
     (if \<not> (0 \<le> alpha \<and> alpha \<le> 1) then Inl ValueError
      else
        res_bind (weighted_part nm depth lexr (1 - alpha)) (\<lambda>pl.
          res_bind (weighted_part nm depth denser alpha) (\<lambda>pd.
            let docs = so (keys (fst pl) @ keys (fst pd));
                scores = map (\<lambda>d. (d, part_score d pl + part_score d pd)) docs
            in Inr (sort_fused scores out_k))))"

definition is_set_order :: "('a list \<Rightarrow> 'a list) \<Rightarrow> bool" where
  \<comment> \<open>iterating over a set visits every element once, in some order\<close>
  "is_set_order so = (\<forall>xs. distinct (so xs) \<and> set (so xs) = set xs)"

section \<open>Run-file scores\<close>

partial_function (option) bump_down :: "nat \<Rightarrow> real \<Rightarrow> real \<Rightarrow> real \<Rightarrow> real option" where
  \<comment> \<open>the \<open>while v >= prev_printed\<close> loop\<close>
  "bump_down digits prev step v =
     (if prev \<le> v
      then bump_down digits prev (step * 2) (round_sig digits (prev - step * 2))
      else Some v)"

definition next_score :: "nat \<Rightarrow> real option \<Rightarrow> real \<Rightarrow> real option" where
  \<comment> \<open>one turn of the loop; \<open>prev_printed\<close> is None while it is infinity\<close>
  "next_score digits prev s =
     (let v = round_sig digits s
      in case prev of
           None \<Rightarrow> Some v
         | Some p \<Rightarrow>
             if p \<le> v then
               (let step = max \<bar>p\<bar> (pow10 (- 300)) * pow10 (1 - int digits)
                in bump_down digits p step (round_sig digits (p - step)))
             else Some v)"

fun score_scan :: "nat \<Rightarrow> real option \<Rightarrow> ranking \<Rightarrow> real list option" where
  "score_scan digits prev [] = Some []"
| "score_scan digits prev ((d, s) # r) =
     (case next_score digits prev s of
        None \<Rightarrow> None
      | Some v \<Rightarrow> map_option (\<lambda>out. v # out) (score_scan digits (Some v) r))"

definition run_file_scores :: "ranking \<Rightarrow> nat \<Rightarrow> real list option" where
  "run_file_scores r digits = score_scan digits None r"

section \<open>Truncation and uniqueness\<close>

lemma cut_depth_Inr:
  "cut_depth r depth = Inr t \<Longrightarrow> \<exists>n. t = take n r"
  by (auto simp: cut_depth_def split: option.splits if_splits intro: exI [of _ "length r"])

lemma check_unique_scan_iff:
  "check_unique_scan seen r = Inr () \<longleftrightarrow> distinct (map fst r) \<and> (\<forall>d \<in> fst ` set r. d \<notin> seen)"
  by (induction r arbitrary: seen) (auto split: if_splits, fastforce+)

lemma check_unique_iff: "check_unique r = Inr u \<longleftrightarrow> distinct (map fst r)"
  by (simp add: check_unique_def check_unique_scan_iff)

lemma docid_key_inj:
  assumes "\<And>d. d \<in> D \<Longrightarrow> isdigit d \<Longrightarrow> d = str_nat (nat_of_digits d)"
  shows "inj_on docid_key D"
  using assms by (intro inj_onI) (metis docid_key_def prod.inject zero_neq_one)

lemma sorted_fused_unique:
  assumes "mset xs = mset ys" and "sorted (map (\<lambda>x. (- snd x, docid_key (fst x))) ys)"
    and "inj_on docid_key (set (map fst xs))" and "distinct (map fst xs)"
  shows "ys = py_sorted (\<lambda>x. (- snd x, docid_key (fst x))) (xs :: ranking)"
proof (rule sorted_asc.rank_unique)
  show "inj_on (\<lambda>x. (- snd x, docid_key (fst x))) (set xs)"
    using assms(3) by (auto simp: inj_on_def)
qed (use assms in auto)

section \<open>The fused scores of RRF\<close>

definition ranks :: "ranking \<Rightarrow> (docid \<times> nat) list" where
  "ranks r = map (\<lambda>(i, d, s). (d, i)) (enumerate 1 r)"

definition reciprocal :: "real \<Rightarrow> ranking \<Rightarrow> docid \<Rightarrow> real" where
  \<comment> \<open>what one ranking contributes to a document's RRF score\<close>
  "reciprocal k r d = (case map_of (ranks r) d of None \<Rightarrow> 0 | Some i \<Rightarrow> 1 / (k + real i))"

lemma ranks_fst: "map fst (ranks r) = map fst r"
  by (simp add: ranks_def case_prod_unfold comp_def) (simp add: list_eq_iff_nth_eq nth_enumerate_eq)

lemma rrf_fold:
  assumes "distinct (map fst ps)"
  shows "dget (foldl (\<lambda>sc (d, i). dset sc d (dget sc d 0 + 1 / (k + real i))) sc ps) d 0 =
     dget sc d 0 + (case map_of ps d of None \<Rightarrow> 0 | Some i \<Rightarrow> 1 / (k + real i))"
  using assms
proof (induction ps arbitrary: sc)
  case (Cons p ps)
  obtain e i where p: "p = (e, i)" by (cases p)
  have "map_of ps e = None" using Cons.prems by (simp add: p map_of_eq_None_iff)
  then show ?case using Cons by (auto simp: p)
qed simp

lemma rrf_add_eq:
  "rrf_add k = (\<lambda>sc x. dset sc (fst (snd x)) (dget sc (fst (snd x)) 0 + 1 / (k + real (fst x))))"
  by (intro ext) (simp add: rrf_add_def case_prod_unfold)

lemma rrf_fold_ranks:
  "foldl (rrf_add k) sc (enumerate 1 r) =
   foldl (\<lambda>sc (d, i). dset sc d (dget sc d 0 + 1 / (k + real i))) sc (ranks r)"
  by (simp add: ranks_def foldl_map rrf_add_eq case_prod_unfold)

lemma foldl_dset_keys:
  "set (keys (foldl (\<lambda>sc p. dset sc (fst p) (h sc p)) sc ps)) = set (keys sc) \<union> fst ` set ps"
proof (induction ps arbitrary: sc)
  case (Cons p ps)
  have "set (keys (foldl (\<lambda>sc p. dset sc (fst p) (h sc p)) sc (p # ps)))
      = set (keys (dset sc (fst p) (h sc p))) \<union> fst ` set ps"
    using Cons.IH by (simp only: foldl_Cons)
  then show ?case by (simp only: keys_dset) auto
qed simp

lemma foldl_dset_dict_ok:
  "dict_ok sc \<Longrightarrow> dict_ok (foldl (\<lambda>sc p. dset sc (fst p) (h sc p)) sc ps)"
  by (induction ps arbitrary: sc) simp_all

lemma rrf_ranking_scores:
  assumes "rrf_ranking k depth sc r = Inr sc'"
  obtains t where "cut_depth r depth = Inr t" "distinct (map fst t)"
    "\<And>d. dget sc' d 0 = dget sc d 0 + reciprocal k t d"
    "set (keys sc') = set (keys sc) \<union> set (map fst t)" "dict_ok sc \<Longrightarrow> dict_ok sc'"
proof -
  obtain t where t: "cut_depth r depth = Inr t" and u: "distinct (map fst t)"
    and sc': "sc' = foldl (rrf_add k) sc (enumerate 1 t)"
    using assms by (auto simp: rrf_ranking_def check_unique_iff)
  have d: "distinct (map fst (ranks t))" using u by (simp add: ranks_fst)
  have f: "sc' = foldl (\<lambda>sc p. dset sc (fst p) (dget sc (fst p) 0 + 1 / (k + real (snd p)))) sc (ranks t)"
    unfolding sc' rrf_fold_ranks by (simp add: case_prod_unfold)
  show ?thesis
  proof (rule that [OF t u])
    show "dget sc' d 0 = dget sc d 0 + reciprocal k t d" for d
      unfolding sc' rrf_fold_ranks reciprocal_def by (rule rrf_fold [OF d])
    show "set (keys sc') = set (keys sc) \<union> set (map fst t)"
      unfolding f foldl_dset_keys by (simp flip: ranks_fst)
    show "dict_ok sc \<Longrightarrow> dict_ok sc'" unfolding f by (rule foldl_dset_dict_ok)
  qed
qed

text \<open>The truncated rankings, when every one of them is valid.\<close>

definition cut_all :: "int option \<Rightarrow> ranking list \<Rightarrow> ranking list res" where
  "cut_all depth rs = res_map (\<lambda>r. cut_depth r depth) rs"

lemma rrf_scores_fold:
  assumes "res_fold (rrf_ranking k depth) sc rankings = Inr sc'" and "dict_ok sc"
  shows "\<exists>ts. cut_all depth rankings = Inr ts \<and> (\<forall>t \<in> set ts. distinct (map fst t)) \<and> dict_ok sc' \<and>
     set (keys sc') = set (keys sc) \<union> (\<Union>t \<in> set ts. set (map fst t)) \<and>
     (\<forall>d. dget sc' d 0 = dget sc d 0 + sum_list (map (\<lambda>t. reciprocal k t d) ts))"
  using assms
proof (induction rankings arbitrary: sc)
  case Nil
  then show ?case by (simp add: cut_all_def)
next
  case (Cons r rankings)
  then obtain sc1 where s1: "rrf_ranking k depth sc r = Inr sc1"
    and s2: "res_fold (rrf_ranking k depth) sc1 rankings = Inr sc'" by auto
  from s1 obtain t where t: "cut_depth r depth = Inr t" "distinct (map fst t)"
    "\<And>d. dget sc1 d 0 = dget sc d 0 + reciprocal k t d"
    "set (keys sc1) = set (keys sc) \<union> set (map fst t)" "dict_ok sc1"
    using rrf_ranking_scores Cons.prems(2) by metis
  from Cons.IH [OF s2 t(5)] obtain ts where ts: "cut_all depth rankings = Inr ts"
    "\<forall>t \<in> set ts. distinct (map fst t)" "dict_ok sc'"
    "set (keys sc') = set (keys sc1) \<union> (\<Union>t \<in> set ts. set (map fst t))"
    "\<forall>d. dget sc' d 0 = dget sc1 d 0 + sum_list (map (\<lambda>t. reciprocal k t d) ts)" by blast
  have "cut_all depth (r # rankings) = Inr (t # ts)" using t(1) ts(1) by (simp add: cut_all_def)
  then show ?case using t(2-4) ts(2-5) by (intro exI [of _ "t # ts"]) (auto simp: add.assoc)
qed

lemma rrf_result:
  assumes "rrf rankings k depth out_k = Inr out"
  obtains ts sc where "cut_all depth rankings = Inr ts" "\<forall>t \<in> set ts. distinct (map fst t)" "dict_ok sc"
    "set (keys sc) = (\<Union>t \<in> set ts. set (map fst t))"
    "\<And>d. dget sc d 0 = sum_list (map (\<lambda>t. reciprocal k t d) ts)" "out = sort_fused sc out_k"
proof -
  obtain sc where sc: "res_fold (rrf_ranking k depth) [] rankings = Inr sc" "out = sort_fused sc out_k"
    using assms by (auto simp: rrf_def split: if_splits)
  from rrf_scores_fold [OF sc(1)] show ?thesis using that sc(2) by auto
qed

text \<open>C3: on success RRF ranks exactly the documents of the truncated rankings, each with the fused
  score \<open>sum 1 / (k + rank)\<close> over the rankings that hold it, in descending score with ties by the docid
  key; with \<open>out_k\<close> it returns that many of the first.\<close>

theorem rrf_spec:
  assumes "rrf rankings k depth None = Inr out"
  shows "\<exists>ts. cut_all depth rankings = Inr ts \<and> distinct (map fst out) \<and>
     set out = (\<lambda>d. (d, sum_list (map (\<lambda>t. reciprocal k t d) ts))) ` (\<Union>t \<in> set ts. set (map fst t)) \<and>
     sorted (map (\<lambda>x. (- snd x, docid_key (fst x))) out) \<and>
     rrf rankings k depth (Some n) = Inr (take n out)"
proof -
  obtain ts sc where r: "cut_all depth rankings = Inr ts" "dict_ok sc"
    "set (keys sc) = (\<Union>t \<in> set ts. set (map fst t))"
    "\<And>d. dget sc d 0 = sum_list (map (\<lambda>t. reciprocal k t d) ts)" "out = sort_fused sc None"
    using rrf_result [OF assms] by metis
  have out: "out = py_sorted (\<lambda>x. (- snd x, docid_key (fst x))) sc"
    using r(5) by (simp add: sort_fused_def out_take_def)
  have "set out = set sc" by (simp add: out sort_simps)
  also have "\<dots> = (\<lambda>d. (d, dget sc d 0)) ` set (keys sc)"
    using dict_values_back [OF r(2), of 0] by (metis list.set_map)
  finally have "set out = (\<lambda>d. (d, sum_list (map (\<lambda>t. reciprocal k t d) ts))) ` (\<Union>t \<in> set ts. set (map fst t))"
    by (simp only: r(3,4))
  moreover have "distinct (map fst out)" using r(2) by (simp add: out sort_simps)
  moreover have "sorted (map (\<lambda>x. (- snd x, docid_key (fst x))) out)"
    unfolding out by (rule sorted_asc.rank_sorted)
  moreover have "rrf rankings k depth (Some n) = Inr (take n out)"
    using assms by (auto simp: rrf_def sort_fused_def out_take_def split: if_splits)
  ultimately show ?thesis using r(1) by blast
qed

theorem rrf_spec_witness:
  "\<exists>out ts. rrf [[(''7'', 2)], [(''8'', 3), (''7'', 1)]] 60 None None = Inr out \<and> cut_all None [[(''7'', 2)], [(''8'', 3), (''7'', 1)]] = Inr ts \<and>
     set out = (\<lambda>d. (d, sum_list (map (\<lambda>t. reciprocal 60 t d) ts))) ` (\<Union>t \<in> set ts. set (map fst t))"
proof -
  obtain out where o: "rrf [[(''7'', 2)], [(''8'', 3), (''7'', 1)]] 60 None None = Inr out"
    by (simp add: rrf_def rrf_ranking_def cut_depth_def check_unique_def)
  from rrf_spec [OF this] show ?thesis using o by blast
qed

section \<open>Normalisation\<close>

lemma minmax_bounds:
  assumes "normalise s ''minmax'' = Inr ns" and "v \<in> set ns"
  shows "0 \<le> v \<and> v \<le> 1"
proof (cases "Max (set s) - Min (set s) = 0 \<or> s = []")
  case True
  then show ?thesis using assms by (auto simp: normalise_def Let_def split: if_splits)
next
  case False
  then have ns: "ns = map (\<lambda>x. (x - Min (set s)) / (Max (set s) - Min (set s))) s"
    using assms by (simp add: normalise_def Let_def)
  then obtain x where x: "x \<in> set s" "v = (x - Min (set s)) / (Max (set s) - Min (set s))"
    using assms by auto
  have "Min (set s) \<le> x" "x \<le> Max (set s)" using x by simp_all
  with False show ?thesis by (auto simp: x(2) divide_le_eq_1 zero_le_divide_iff)
qed

lemma zscore_moments:
  assumes "normalise s ''zscore'' = Inr ns" and "sd \<noteq> 0"
    and sd: "sd = sqrt (sum_list (map (\<lambda>x. (x - sum_list s / length s) ^ 2) s) / length s)"
  shows "sum_list ns = 0" and "sum_list (map (\<lambda>v. v ^ 2) ns) = length s"
proof -
  define mu where "mu = sum_list s / length s"
  have s: "s \<noteq> []" using assms(2) sd by auto
  then have n: "0 < real (length s)" by simp
  have sd': "sd = sqrt (sum_list (map (\<lambda>x. (x - mu) ^ 2) s) / length s)" by (simp add: sd mu_def)
  have ns: "ns = map (\<lambda>x. (x - mu) / sd) s"
    using assms(1,2) s by (simp add: normalise_def Let_def sd' mu_def split: if_splits)
  have lin: "sum_list (map (\<lambda>x. (x - mu) / sd) xs) = (sum_list xs - mu * length xs) / sd" for xs
    by (induction xs) (simp_all add: field_simps add_divide_distrib diff_divide_distrib)
  show "sum_list ns = 0" unfolding ns lin using n by (simp add: mu_def)
  let ?q = "sum_list (map (\<lambda>x. (x - mu) ^ 2) s)"
  have "0 \<le> ?q" by (rule sum_list_nonneg_map) simp
  then have sq: "sd ^ 2 = ?q / length s" using n by (simp add: sd' real_sqrt_pow2)
  have quad: "sum_list (map (\<lambda>v. v ^ 2) (map (\<lambda>x. (x - mu) / sd) xs))
      = sum_list (map (\<lambda>x. (x - mu) ^ 2) xs) / sd ^ 2" for xs
    by (induction xs) (simp_all add: power_divide add_divide_distrib)
  have "sd ^ 2 \<noteq> 0" using assms(2) by simp
  moreover have "?q = length s * sd ^ 2" using n sq by simp
  ultimately have "?q / sd ^ 2 = length s" by simp
  then show "sum_list (map (\<lambda>v. v ^ 2) ns) = length s" by (simp only: ns quad)
qed

text \<open>Min-max normalisation maps a list of scores into [0, 1], and z-scores of a list that is not
  constant have mean 0 and population variance 1.\<close>

theorem normalise_ranges:
  assumes "normalise s ''minmax'' = Inr mm" and "normalise s ''zscore'' = Inr zs"
    and "x \<in> set s" and "y \<in> set s" and "x \<noteq> y"
  shows "list_all (\<lambda>v. 0 \<le> v \<and> v \<le> 1) mm \<and> sum_list zs = 0 \<and>
     sum_list (map (\<lambda>v. v ^ 2) zs) / real (length s) = 1"
proof -
  define mu where "mu = sum_list s / length s"
  let ?q = "sum_list (map (\<lambda>x. (x - mu) ^ 2) s)"
  have "x \<noteq> mu \<or> y \<noteq> mu" using assms(5) by auto
  then obtain z where z: "z \<in> set s" "z \<noteq> mu" using assms(3,4) by auto
  have "(z - mu) ^ 2 \<le> ?q"
    using z(1) by (intro member_le_sum_list) auto
  moreover have "0 < (z - mu) ^ 2" using z(2) by simp
  ultimately have "0 < ?q" by linarith
  moreover have n: "0 < real (length s)" using z(1) by (cases s) simp_all
  ultimately have "sqrt (?q / length s) \<noteq> 0" by simp
  from zscore_moments [OF assms(2) this] show ?thesis
    using minmax_bounds [OF assms(1)] n by (simp add: mu_def list_all_iff)
qed

theorem normalise_ranges_witness:
  "list_all (\<lambda>v. 0 \<le> v \<and> v \<le> 1) [1, 0::real] \<and> sum_list [1, - 1 :: real] = 0"
proof -
  have a: "normalise [3, 1] ''minmax'' = Inr [1, 0]" by (simp add: normalise_def)
  have b: "normalise [3, 1] ''zscore'' = Inr [1, - 1]" by (simp add: normalise_def Let_def)
  from normalise_ranges [OF a b, of 3 1] show ?thesis by simp
qed

section \<open>Run-file scores\<close>

lemma next_score_less:
  assumes "0 < digits" and "\<And>p. prev = Some p \<Longrightarrow> decimal_rep digits p"
  obtains v where "next_score digits prev s = Some v" "decimal_rep digits v"
    "\<And>p. prev = Some p \<Longrightarrow> v < p"
proof (cases "\<exists>p. prev = Some p \<and> p \<le> round_sig digits s")
  case True
  then obtain p where p: "prev = Some p" "p \<le> round_sig digits s" by blast
  define step where "step = max \<bar>p\<bar> (pow10 (- 300)) * pow10 (1 - int digits)"
  have m: "0 < max \<bar>p\<bar> (pow10 (- 300))" by (meson less_le_trans max.cobounded2 pow10_pos)
  then have "0 < step" by (simp add: step_def)
  moreover have "\<bar>p\<bar> * pow10 (1 - int digits) \<le> step"
    unfolding step_def by (intro mult_right_mono) simp_all
  ultimately have less: "round_sig digits (p - step) < p"
    using assms p by (intro round_sig_step) auto
  then have "bump_down digits p step (round_sig digits (p - step)) = Some (round_sig digits (p - step))"
    by (subst bump_down.simps) simp
  then have "next_score digits prev s = Some (round_sig digits (p - step))"
    unfolding next_score_def Let_def p(1) option.case step_def [symmetric] using p(2) by simp
  then show ?thesis using less p decimal_rep_round_sig [OF assms(1)] that by simp
next
  case False
  then have "next_score digits prev s = Some (round_sig digits s)"
    by (cases prev) (auto simp: next_score_def Let_def)
  then show ?thesis using False decimal_rep_round_sig [OF assms(1)] that by force
qed

lemma score_scan_ok:
  assumes "0 < digits" and "\<And>p. prev = Some p \<Longrightarrow> decimal_rep digits p"
  shows "\<exists>out. score_scan digits prev r = Some out \<and> length out = length r \<and>
     list_all (decimal_rep digits) out \<and> sorted_wrt (>) out \<and>
     (\<forall>p. prev = Some p \<longrightarrow> (\<forall>v \<in> set out. v < p))"
  using assms
proof (induction r arbitrary: prev)
  case (Cons x r)
  obtain d s where x: "x = (d, s)" by (cases x)
  obtain v where v: "next_score digits prev s = Some v" "decimal_rep digits v"
    "\<And>p. prev = Some p \<Longrightarrow> v < p"
    using next_score_less [of digits prev s] Cons.prems by metis
  obtain out where "score_scan digits (Some v) r = Some out" "length out = length r"
    "list_all (decimal_rep digits) out" "sorted_wrt (>) out" "\<forall>u \<in> set out. u < v"
    using Cons.IH [of "Some v"] Cons.prems(1) v(2) by auto
  then show ?case using v by (intro exI [of _ "v # out"]) (auto simp: x dest: less_trans)
qed simp

lemma run_file_scores_ok:
  "0 < digits \<Longrightarrow> \<exists>out. run_file_scores r digits = Some out \<and> length out = length r \<and>
     list_all (decimal_rep digits) out \<and> sorted_wrt (>) out"
  using score_scan_ok [of digits None r] by (auto simp: run_file_scores_def)

text \<open>C4: \<open>run_file_scores\<close> always returns (the loop that guards against rounding ends), one score per
  document, every score a decimal of \<open>digits\<close> significant digits, and every score is strictly below
  the one before it, so a re-sort by score keeps the order of the ranking.\<close>

theorem run_file_scores_decreasing:
  assumes "0 < digits"
  shows "\<exists>out. run_file_scores r digits = Some out \<and> length out = length r \<and>
     list_all (decimal_rep digits) out \<and> sorted_wrt (>) out"
  using assms by (rule run_file_scores_ok)

theorem run_file_scores_decreasing_witness:
  "\<exists>out. run_file_scores [(''a'', 1), (''b'', 1), (''c'', 2)] 15 = Some out \<and> length out = 3 \<and> sorted_wrt (>) out"
  using run_file_scores_decreasing [of 15 "[(''a'', 1), (''b'', 1), (''c'', 2)]"] by auto

end
