(* ===== verification/Data_IO.thy ===== *)
theory Data_IO
  imports Fusion_Core "HOL-Library.Word"
begin

text \<open>
  \<open>py/hybridsearch/data/io.py\<close>: the little-endian binary formats (\<open>.u64bin\<close>, \<open>.fbin\<close>), qrels, query
  and run files.  A file is a list of bytes or a string; a float32 is its 32-bit word.  The codec of
  one array element is an interface (locale \<open>element_codec\<close>) that the 8-byte and the 4-byte elements
  implement; the theorems are the round trips and that a truncated file is refused.
\<close>

type_synonym byte = "8 word"

section \<open>Little-endian elements\<close>

primrec le_bytes :: "nat \<Rightarrow> nat \<Rightarrow> byte list" where
  "le_bytes 0 k = []"
| "le_bytes (Suc n) k = word_of_nat (k mod 256) # le_bytes n (k div 256)"

primrec le_nat :: "byte list \<Rightarrow> nat" where
  "le_nat [] = 0"
| "le_nat (b # bs) = unat b + 256 * le_nat bs"

fun chunks :: "nat \<Rightarrow> 'a list \<Rightarrow> 'a list list" where
  "chunks n xs = (if n = 0 \<or> xs = [] then [] else take n xs # chunks n (drop n xs))"

declare chunks.simps [simp del]

definition frombuffer :: "nat \<Rightarrow> (byte list \<Rightarrow> 'w) \<Rightarrow> byte list \<Rightarrow> 'w list res" where
  \<comment> \<open>\<open>np.frombuffer(buf, dtype)\<close> for an element of \<open>w\<close> bytes\<close>
  "frombuffer w dec buf =
     (if length buf mod w \<noteq> 0 then Inl ValueError else Inr (map dec (chunks w buf)))"

definition u8_enc :: "64 word \<Rightarrow> byte list" where "u8_enc x = le_bytes 8 (unat x)"
definition u8_dec :: "byte list \<Rightarrow> 64 word" where "u8_dec bs = word_of_nat (le_nat bs)"
definition u4_enc :: "32 word \<Rightarrow> byte list" where "u4_enc x = le_bytes 4 (unat x)"
definition u4_dec :: "byte list \<Rightarrow> 32 word" where "u4_dec bs = word_of_nat (le_nat bs)"

section \<open>Binary files\<close>

definition write_u64bin :: "64 word list \<Rightarrow> byte list" where
  "write_u64bin arr = u8_enc (word_of_nat (length arr)) @ concat (map u8_enc arr)"

definition read_u64bin :: "byte list \<Rightarrow> 64 word list res" where
  "read_u64bin f =
     res_bind (frombuffer 8 u8_dec (take 8 f)) (\<lambda>h.
       case h of
         [] \<Rightarrow> Inl IndexError
       | n # _ \<Rightarrow>
           res_bind (frombuffer 8 u8_dec (take (8 * unat n) (drop 8 f))) (\<lambda>arr.
             if length arr \<noteq> unat n then Inl ValueError else Inr arr))"

record f32_array =
  shape :: "nat list"
  flat :: "32 word list"

definition write_fbin :: "f32_array \<Rightarrow> byte list res" where
  "write_fbin mat =
     (if length (shape mat) \<noteq> 2 then Inl ValueError
      else Inr (concat (map (\<lambda>n. u4_enc (word_of_nat n)) (shape mat)) @ concat (map u4_enc (flat mat))))"

definition fbin_header :: "byte list \<Rightarrow> (nat \<times> nat) res" where
  "fbin_header f =
     res_bind (frombuffer 4 u4_dec (take 8 f)) (\<lambda>h.
       case h of [n, d] \<Rightarrow> Inr (unat n, unat d) | _ \<Rightarrow> Inl ValueError)"

definition read_fbin :: "byte list \<Rightarrow> bool \<Rightarrow> f32_array res" where
  \<comment> \<open>\<open>np.memmap\<close> refuses a file that is shorter than the mapped shape and ignores bytes behind it\<close>
  "read_fbin f mmap =
     res_bind (fbin_header f) (\<lambda>(n, d).
       if mmap then
         (if length f < 8 + 4 * n * d then Inl ValueError
          else Inr \<lparr>shape = [n, d], flat = map u4_dec (chunks 4 (take (4 * n * d) (drop 8 f)))\<rparr>)
       else
         res_bind (frombuffer 4 u4_dec (take (4 * n * d) (drop 8 f))) (\<lambda>xs.
           if length xs \<noteq> n * d then Inl ValueError else Inr \<lparr>shape = [n, d], flat = xs\<rparr>))"

section \<open>Text files\<close>

definition read_query_line :: "(qid, string) dict \<Rightarrow> string \<Rightarrow> (qid, string) dict res" where
  "read_query_line out line =
     (let line = rstrip_nl line in
      if line = [] then Inr out
      else case split1 TAB line of
             None \<Rightarrow> Inl ValueError
           | Some (q, text) \<Rightarrow> Inr (dset out q text))"

definition read_queries :: "string \<Rightarrow> (qid, string) dict res" where
  "read_queries f = res_fold read_query_line [] (text_lines f)"

definition write_queries :: "(qid \<times> string) list \<Rightarrow> string" where
  "write_queries queries = unlines (map (\<lambda>(q, text). q @ tab @ text) queries)"

definition add_nested :: "(qid, (docid, 'v) dict) dict \<Rightarrow> qid \<Rightarrow> docid \<Rightarrow> 'v \<Rightarrow> (qid, (docid, 'v) dict) dict" where
  \<comment> \<open>\<open>m[qid][docid] = v\<close> on a \<open>defaultdict(dict)\<close>\<close>
  "add_nested m q d v = dset m q (dset (dget m q []) d v)"

definition read_qrels_line :: "qrels \<Rightarrow> string \<Rightarrow> qrels res" where
  "read_qrels_line qrels line =
     (case split_ws line of
        [] \<Rightarrow> Inr qrels
      | [q, _, d, grade] \<Rightarrow> res_bind (int_of grade) (\<lambda>g. Inr (add_nested qrels q d g))
      | _ \<Rightarrow> Inl ValueError)"

definition read_qrels :: "string \<Rightarrow> qrels res" where
  "read_qrels f = res_fold read_qrels_line [] (text_lines f)"

definition qrels_key :: "string \<Rightarrow> nat \<times> string" where
  "qrels_key x = (if isdigit x then (nat_of_digits x, x) else (0, x))"

definition qrels_lines :: "qid \<Rightarrow> qrel \<Rightarrow> string list" where
  "qrels_lines q qrel =
     map (\<lambda>d. sp_join [q, ''0'', d, str_int (dget qrel d 0)]) (py_sorted qrels_key (keys qrel))"

definition write_qrels :: "qrels \<Rightarrow> string" where
  "write_qrels qrels =
     unlines (concat (map (\<lambda>q. qrels_lines q (dget qrels q [])) (py_sorted qrels_key (keys qrels))))"

definition read_run_line :: "run \<Rightarrow> string \<Rightarrow> run res" where
  "read_run_line run line =
     (case split_ws line of
        [] \<Rightarrow> Inr run
      | q # _ # d # _ # score # _ # _ \<Rightarrow> res_bind (float_of score) (\<lambda>s. Inr (add_nested run q d s))
      | _ \<Rightarrow> Inl ValueError)"

definition read_run :: "string \<Rightarrow> run res" where
  "read_run f = res_fold read_run_line [] (text_lines f)"

definition write_run :: "(qid \<times> ranking) list \<Rightarrow> string \<Rightarrow> string" where
  "write_run results tag =
     unlines (concat (map (\<lambda>(q, hits).
       map (\<lambda>(rank, d, s). sp_join [q, ''Q0'', d, str_nat rank, fmt_f 6 s, tag]) (enumerate 1 hits)) results))"

definition iter_collection_line :: "string \<Rightarrow> (int \<times> string) res" where
  "iter_collection_line line =
     (case split1 TAB (rstrip_nl line) of
        None \<Rightarrow> Inl ValueError
      | Some (pid, text) \<Rightarrow> res_bind (int_of pid) (\<lambda>n. Inr (n, text)))"

definition iter_collection :: "string \<Rightarrow> (int \<times> string) list res" where
  "iter_collection f = res_map iter_collection_line (text_lines f)"

section \<open>The element codec\<close>

lemma length_le_bytes [simp]: "length (le_bytes n k) = n"
  by (induction n arbitrary: k) simp_all

lemma le_nat_bytes: "le_nat (le_bytes n k) = k mod 256 ^ n"
proof (induction n arbitrary: k)
  case (Suc n)
  have "unat (word_of_nat (k mod 256) :: byte) = k mod 256"
    by (simp add: unat_of_nat)
  then show ?case using Suc by (simp add: mod_mult2_eq)
qed simp

text \<open>What the binary formats rely on: an element has a fixed width and decodes to itself.\<close>

locale element_codec =
  fixes enc :: "'w \<Rightarrow> byte list" and dec :: "byte list \<Rightarrow> 'w" and width :: nat
  assumes width_pos: "0 < width"
    and enc_width: "length (enc x) = width"
    and dec_enc: "dec (enc x) = x"
begin

lemma concat_length: "length (concat (map enc xs)) = width * length xs"
  by (induction xs) (simp_all add: enc_width)

lemma chunks_enc: "chunks width (concat (map enc xs)) = map enc xs"
proof (induction xs)
  case Nil
  then show ?case by (simp add: chunks.simps)
next
  case (Cons x xs)
  have "enc x \<noteq> []" using enc_width [of x] width_pos by auto
  then show ?case using Cons width_pos by (subst chunks.simps) (simp add: enc_width)
qed

lemma decode_enc: "map dec (chunks width (concat (map enc xs))) = xs"
  by (simp add: chunks_enc dec_enc comp_def)

lemma frombuffer_enc: "frombuffer width dec (concat (map enc xs)) = Inr xs"
  by (simp add: frombuffer_def concat_length decode_enc)

lemma frombuffer_take: "frombuffer width dec (take (width * length xs) (concat (map enc xs) @ rest)) = Inr xs"
  using frombuffer_enc [of xs] by (simp add: concat_length)

lemma chunks_length: "length bs = width * n \<Longrightarrow> length (chunks width bs) = n"
proof (induction n arbitrary: bs)
  case (Suc n)
  then have "bs \<noteq> []" using width_pos by auto
  then show ?case using Suc width_pos by (subst chunks.simps) simp
qed (simp add: chunks.simps)

lemma frombuffer_length:
  assumes "frombuffer width dec bs = Inr xs"
  shows "length bs = width * length xs"
proof -
  have m: "length bs mod width = 0" and x: "xs = map dec (chunks width bs)"
    using assms by (auto simp: frombuffer_def split: if_splits)
  obtain n where n: "length bs = width * n" using m by (auto simp: mod_eq_0_iff_dvd)
  show ?thesis using chunks_length [OF n] n x by simp
qed

end

interpretation u8: element_codec u8_enc u8_dec 8
proof
  show "u8_dec (u8_enc x) = x" for x
    using unsigned_less [where ?'a = nat, of x] by (simp add: u8_enc_def u8_dec_def le_nat_bytes mod_less)
qed (simp_all add: u8_enc_def)

interpretation u4: element_codec u4_enc u4_dec 4
proof
  show "u4_dec (u4_enc x) = x" for x
    using unsigned_less [where ?'a = nat, of x] by (simp add: u4_enc_def u4_dec_def le_nat_bytes mod_less)
qed (simp_all add: u4_enc_def)

section \<open>Binary round trips\<close>

lemma u8_of_nat: "n < 2 ^ 64 \<Longrightarrow> unat (word_of_nat n :: 64 word) = n"
  by (simp add: unat_of_nat)

lemma u4_of_nat: "n < 2 ^ 32 \<Longrightarrow> unat (word_of_nat n :: 32 word) = n"
  by (simp add: unat_of_nat)

lemma short_header:
  assumes "k < 8"
  shows "read_u64bin (take k f) \<noteq> Inr xs"
proof -
  define p where "p = take k f"
  have l: "length (take 8 p) < 8" using assms by (simp add: p_def)
  show ?thesis
  proof (cases "frombuffer 8 u8_dec (take 8 p)")
    case (Inr h)
    have "h = []" using u8.frombuffer_length [OF Inr] l by (cases h) auto
    then show ?thesis using Inr by (simp add: read_u64bin_def flip: p_def)
  qed (simp add: read_u64bin_def flip: p_def)
qed

lemma read_u64bin_cut:
  assumes "length ids < 2 ^ 64"
  shows "read_u64bin (take k (write_u64bin ids)) = Inr xs \<longleftrightarrow>
     length (write_u64bin ids) \<le> k \<and> xs = ids"
proof -
  have len: "length (write_u64bin ids) = 8 + 8 * length ids"
    by (simp add: write_u64bin_def u8.concat_length u8.enc_width)
  show ?thesis
  proof (cases "k < 8")
    case True
    then show ?thesis using short_header len by simp
  next
    case False
    have h: "frombuffer 8 u8_dec (u8_enc x) = Inr [x]" for x using u8.frombuffer_enc [of "[x]"] by simp
    define body where "body = take (k - 8) (concat (map u8_enc ids))"
    have t: "take k (write_u64bin ids) = u8_enc (word_of_nat (length ids)) @ body"
      using False by (simp add: write_u64bin_def u8.enc_width body_def)
    have rd: "read_u64bin (take k (write_u64bin ids)) =
        res_bind (frombuffer 8 u8_dec (take (8 * length ids) body))
          (\<lambda>arr. if length arr \<noteq> length ids then Inl ValueError else Inr arr)"
      unfolding t using u8_of_nat [OF assms] by (simp add: read_u64bin_def u8.enc_width h)
    show ?thesis
    proof (cases "length (write_u64bin ids) \<le> k")
      case True
      then have "take (8 * length ids) body = concat (map u8_enc ids)"
        by (simp add: body_def len u8.concat_length)
      then show ?thesis using True unfolding rd by (auto simp: u8.frombuffer_enc)
    next
      case short: False
      have "\<not> (frombuffer 8 u8_dec (take (8 * length ids) body) = Inr arr \<and> length arr = length ids)" for arr
        using short False u8.frombuffer_length [of "take (8 * length ids) body" arr]
        by (auto simp: body_def len u8.concat_length)
      then show ?thesis using short unfolding rd by auto
    qed
  qed
qed

lemma fbin_short_header:
  assumes "k < 8"
  shows "\<exists>e. fbin_header (take k f) = Inl e"
proof -
  define p where "p = take k f"
  have l: "length (take 8 p) < 8" using assms by (simp add: p_def)
  show ?thesis
  proof (cases "frombuffer 4 u4_dec (take 8 p)")
    case (Inr h)
    have "length h < 2" using u4.frombuffer_length [OF Inr] l by simp
    then have "h = [] \<or> (\<exists>x. h = [x])" by (cases h; cases "tl h") auto
    then show ?thesis using Inr by (auto simp: fbin_header_def simp flip: p_def)
  qed (simp add: fbin_header_def flip: p_def)
qed

text \<open>An \<open>.fbin\<close> file of an \<open>n x d\<close> matrix reads back as that matrix, mapped or loaded, and a file
  cut off anywhere before its end is refused; an array that is not two-dimensional is not written.\<close>

theorem fbin_roundtrip:
  assumes "write_fbin mat = Inr f" and "shape mat = [n, d]" and "length (flat mat) = n * d"
    and "n < 2 ^ 32" and "d < 2 ^ 32"
  shows "read_fbin (take k f) mmap = Inr a \<longleftrightarrow> length f \<le> k \<and> a = mat"
proof -
  define hd where "hd = concat (map u4_enc [word_of_nat n, word_of_nat d])"
  define body where "body = concat (map u4_enc (flat mat))"
  have f: "f = hd @ body" using assms(1,2) by (simp add: write_fbin_def hd_def body_def)
  have l: "length hd = 8" "length body = 4 * n * d"
    using assms(3) by (simp_all add: hd_def body_def u4.concat_length u4.enc_width)
  have mat: "mat = \<lparr>shape = [n, d], flat = flat mat\<rparr>" using assms(2) by simp
  have full: "map u4_dec (chunks 4 body) = flat mat" "frombuffer 4 u4_dec body = Inr (flat mat)"
    unfolding body_def by (rule u4.decode_enc, rule u4.frombuffer_enc)
  show ?thesis
  proof (cases "k < 8")
    case True
    then show ?thesis using fbin_short_header [OF True, of f] l by (auto simp: read_fbin_def f)
  next
    case False
    define b where "b = take (k - 8) body"
    have t: "take k f = hd @ b" using False l(1) by (simp add: f b_def)
    have "frombuffer 4 u4_dec hd = Inr [word_of_nat n, word_of_nat d]"
      unfolding hd_def by (rule u4.frombuffer_enc)
    then have h: "fbin_header (take k f) = Inr (n, d)"
      using l(1) u4_of_nat [OF assms(4)] u4_of_nat [OF assms(5)] by (simp add: fbin_header_def t)
    show ?thesis
    proof (cases "length f \<le> k")
      case True
      then have "b = body" using l by (simp add: b_def f)
      then show ?thesis using True h full l assms(3) mat by (cases mmap) (auto simp: read_fbin_def t f)
    next
      case short: False
      then have lb: "length b < 4 * n * d" using l False by (simp add: b_def f)
      have "\<not> (frombuffer 4 u4_dec (take (4 * n * d) b) = Inr xs \<and> length xs = n * d)" for xs
        using u4.frombuffer_length [of "take (4 * n * d) b" xs] lb by auto
      then show ?thesis using short h l lb by (cases mmap) (auto simp: read_fbin_def t)
    qed
  qed
qed

theorem fbin_roundtrip_witness:
  "\<exists>f. write_fbin \<lparr>shape = [1, 2], flat = [0x3F800000, 0xBF800000]\<rparr> = Inr f \<and>
     read_fbin (take 16 f) True = Inr \<lparr>shape = [1, 2], flat = [0x3F800000, 0xBF800000]\<rparr>"
proof -
  let ?m = "\<lparr>shape = [1, 2], flat = [0x3F800000, 0xBF800000]\<rparr>"
  obtain f where f: "write_fbin ?m = Inr f" and l: "length f = 16"
    by (simp add: write_fbin_def u4.enc_width)
  from fbin_roundtrip [OF f, of 1 2 16 True ?m] f l show ?thesis by simp
qed

section \<open>Text round trips\<close>

text \<open>Entries grouped by query fill a nested dictionary block by block.\<close>

lemma add_nested_block:
  "foldl (\<lambda>m (d, v). add_nested m q d v) m ps =
     (if ps = [] then m else dset m q (foldl (\<lambda>x (d, v). dset x d v) (dget m q []) ps))"
proof (induction ps arbitrary: m)
  case (Cons p ps)
  then show ?case by (cases p) (simp add: add_nested_def)
qed simp

definition entries :: "(qid, (docid, 'v) dict) dict \<Rightarrow> (qid \<times> docid \<times> 'v) list" where
  "entries blocks = concat (map (\<lambda>(q, ps). map (\<lambda>(d, v). (q, d, v)) ps) blocks)"

lemma add_nested_entries:
  assumes "distinct (map fst blocks)" and "\<And>q ps. (q, ps) \<in> set blocks \<Longrightarrow> dict_ok ps \<and> ps \<noteq> []"
    and "set (keys m) \<inter> set (map fst blocks) = {}"
  shows "foldl (\<lambda>m (q, d, v). add_nested m q d v) m (entries blocks) = m @ blocks"
  using assms
proof (induction blocks arbitrary: m)
  case (Cons b blocks)
  obtain q ps where b: "b = (q, ps)" by (cases b)
  have q: "q \<notin> set (keys m)" and ps: "dict_ok ps" "ps \<noteq> []" using Cons.prems b by auto
  have "foldl (\<lambda>m (q, d, v). add_nested m q d v) m (map (\<lambda>(d, v). (q, d, v)) ps)
      = foldl (\<lambda>m (d, v). add_nested m q d v) m ps"
    by (simp add: foldl_map case_prod_unfold)
  also have "\<dots> = dset m q (foldl (\<lambda>x (d, v). dset x d v) [] ps)"
    using q ps by (simp add: add_nested_block dget_absent)
  also have "\<dots> = m @ [(q, ps)]" using q ps by (simp add: foldl_dset_distinct dset_new)
  finally have "foldl (\<lambda>m (q, d, v). add_nested m q d v) m (entries (b # blocks))
      = foldl (\<lambda>m (q, d, v). add_nested m q d v) (m @ [(q, ps)]) (entries blocks)"
    by (simp add: entries_def b)
  also have "\<dots> = (m @ [(q, ps)]) @ blocks"
    using Cons.prems b by (intro Cons.IH) auto
  finally show ?case by (simp add: b)
qed (simp add: entries_def)

lemma plain_lits: "plain ''0''" "plain ''Q0''"
  by (simp_all add: plain_def is_space_char_def code_def)

lemma read_qrels_entry:
  assumes "plain q" and "plain d"
  shows "read_qrels_line m (sp_join [q, ''0'', d, str_int g] @ nl) = Inr (add_nested m q d g)"
proof -
  have "split_ws (sp_join [q, ''0'', d, str_int g] @ nl) = [q, ''0'', d, str_int g]"
    using assms plain_lits by (intro split_ws_join) auto
  then show ?thesis by (simp add: read_qrels_line_def)
qed

lemma read_run_entry:
  assumes "plain q" and "plain d" and "plain r" and "plain sc" and "plain tag" and "float_of sc = Inr v"
  shows "read_run_line m (sp_join [q, ''Q0'', d, r, sc, tag] @ nl) = Inr (add_nested m q d v)"
proof -
  have "split_ws (sp_join [q, ''Q0'', d, r, sc, tag] @ nl) = [q, ''Q0'', d, r, sc, tag]"
    using assms plain_lits by (intro split_ws_join) auto
  then show ?thesis using assms(6) by (simp add: read_run_line_def)
qed

lemma text_fold_unlines:
  assumes "\<And>x. x \<in> set xs \<Longrightarrow> one_line (h x)"
    and "\<And>s x. x \<in> set xs \<Longrightarrow> f s (h x @ nl) = Inr (g s x)"
  shows "res_fold f s (text_lines (unlines (map h xs))) = Inr (foldl g s xs)"
proof -
  have "text_lines (unlines (map h xs)) = map (\<lambda>l. l @ nl) (map h xs)"
    using assms(1) by (intro text_lines_unlines) auto
  then have "text_lines (unlines (map h xs)) = map (\<lambda>x. h x @ nl) xs" by (simp add: comp_def)
  then show ?thesis using assms(2) by (simp add: res_fold_map_Inr)
qed

lemma read_qrels_unlines:
  assumes "\<And>q d g. (q, d, g) \<in> set es \<Longrightarrow> plain q \<and> plain d"
  shows "read_qrels (unlines (map (\<lambda>(q, d, g). sp_join [q, ''0'', d, str_int g]) es)) =
     Inr (foldl (\<lambda>m (q, d, v). add_nested m q d v) [] es)"
  unfolding read_qrels_def
proof (rule text_fold_unlines)
  fix x
  assume x: "x \<in> set es"
  obtain q d g where e: "x = (q, d, g)" by (cases x)
  have p: "plain q" "plain d" using assms x e by blast+
  then show "one_line (case x of (q, d, g) \<Rightarrow> sp_join [q, ''0'', d, str_int g])"
    using plain_lits by (simp only: e prod.case) (rule sp_join_one_line; auto)
  show "read_qrels_line s ((case x of (q, d, g) \<Rightarrow> sp_join [q, ''0'', d, str_int g]) @ nl)
      = Inr (case x of (q, d, v) \<Rightarrow> add_nested s q d v)" for s
    using read_qrels_entry [OF p] by (simp only: e prod.case)
qed

definition canonical_qrels :: "qrels \<Rightarrow> qrels" where
  \<comment> \<open>the judged queries and their documents in the order \<open>write_qrels\<close> writes\<close>
  "canonical_qrels qrels =
     filter (\<lambda>(q, ps). ps \<noteq> [])
       (map (\<lambda>q. (q, map (\<lambda>d. (d, dget (dget qrels q []) d 0)) (py_sorted qrels_key (keys (dget qrels q [])))))
         (py_sorted qrels_key (keys qrels)))"

lemma entries_nonempty: "entries (filter (\<lambda>(q, ps). ps \<noteq> []) bs) = entries bs"
  by (induction bs) (auto simp: entries_def)

lemma write_qrels_entries:
  "write_qrels qrels = unlines (map (\<lambda>(q, d, g). sp_join [q, ''0'', d, str_int g]) (entries (canonical_qrels qrels)))"
proof -
  have "map (\<lambda>(q, d, g). sp_join [q, ''0'', d, str_int g]) (entries bs)
      = concat (map (\<lambda>(q, ps). map (\<lambda>(d, g). sp_join [q, ''0'', d, str_int g]) ps) bs)" for bs
    by (induction bs) (auto simp: entries_def)
  then show ?thesis
    by (simp add: write_qrels_def canonical_qrels_def entries_nonempty qrels_lines_def comp_def)
qed

text \<open>A qrels file reads back as the judgments that were written, grouped and sorted by query and
  document id (numeric ids in numeric order), for negative grades too; only queries without a judged
  document are lost.\<close>

theorem qrels_roundtrip:
  assumes "dict_ok qrels" and "\<And>q qrel. (q, qrel) \<in> set qrels \<Longrightarrow> plain q \<and> dict_ok qrel"
    and "\<And>q qrel d g. (q, qrel) \<in> set qrels \<Longrightarrow> (d, g) \<in> set qrel \<Longrightarrow> plain d"
  shows "read_qrels (write_qrels qrels) = Inr (canonical_qrels qrels)"
proof -
  let ?c = "canonical_qrels qrels"
  have qin: "(q, dget qrels q []) \<in> set qrels" if "q \<in> set (keys qrels)" for q using that by (rule dget_in)
  have plains: "plain q \<and> plain d" if "(q, d, g) \<in> set (entries ?c)" for q d g
  proof -
    from that have "q \<in> set (keys qrels)" "d \<in> set (keys (dget qrels q []))"
      by (auto simp: entries_def canonical_qrels_def sort_simps)
    then show ?thesis using assms(2) assms(3) qin [of q] dget_in by metis
  qed
  have "read_qrels (write_qrels qrels) = Inr (foldl (\<lambda>m (q, d, v). add_nested m q d v) [] (entries ?c))"
    unfolding write_qrels_entries by (rule read_qrels_unlines) (rule plains)
  also have "foldl (\<lambda>m (q, d, v). add_nested m q d v) [] (entries ?c) = [] @ ?c"
  proof (rule add_nested_entries)
    have "distinct (py_sorted qrels_key (keys qrels))" using assms(1) by (simp only: sort_simps)
    then show "distinct (map fst ?c)" by (simp add: canonical_qrels_def filter_map comp_def)
    show "dict_ok ps \<and> ps \<noteq> []" if "(q, ps) \<in> set ?c" for q ps
    proof -
      have q: "q \<in> set (keys qrels)" and ne: "ps \<noteq> []"
        and ps: "ps = map (\<lambda>d. (d, dget (dget qrels q []) d 0)) (py_sorted qrels_key (keys (dget qrels q [])))"
        using that by (auto simp: canonical_qrels_def sort_simps)
      have "dict_ok (dget qrels q [])" using assms(2) qin [OF q] by blast
      then have "distinct (py_sorted qrels_key (keys (dget qrels q [])))" by (simp only: sort_simps)
      then show ?thesis using ne by (simp add: ps comp_def)
    qed
  qed simp
  finally show ?thesis by simp
qed

theorem qrels_roundtrip_witness:
  "read_qrels (write_qrels [(''q2'', [(''30'', 1), (''7'', - 2)]), (''q1'', [])]) =
     Inr [(''q2'', [(''7'', - 2), (''30'', 1)])]"
proof -
  let ?q = "[(''q2'', [(''30'', 1), (''7'', - 2)]), (''q1'', [])] :: qrels"
  have p: "plain ''q1''" "plain ''q2''" "plain ''30''" "plain ''7''" by code_simp+
  have "canonical_qrels ?q = [(''q2'', [(''7'', - 2), (''30'', 1)])]" by code_simp
  moreover have "read_qrels (write_qrels ?q) = Inr (canonical_qrels ?q)"
    by (rule qrels_roundtrip) (use p in auto)
  ultimately show ?thesis by simp
qed

end
