(* ===== verification/Beir.thy ===== *)
theory Beir
  imports Data_IO
begin

text \<open>
  The BEIR datasets: \<open>py/hybridsearch/dense/beir.py\<close> (loading, passage texts, judgments in TREC format, the
  exact dense run) and \<open>scripts/m4_beir_bm25.py\<close> (the lexical engine on integer ids and the run mapped
  back to BEIR ids).  The decoded JSON objects are records; the encoder, FAISS's search and the lexical
  engine are arguments.  The lemmas are the round trips of the converted files.
\<close>

section \<open>Loading\<close>

record beir_doc =
  bd_id :: string
  bd_title :: "string option" \<comment> \<open>None when missing or null\<close>
  bd_text :: "string option"

record beir_query =
  bq_id :: string
  bq_text :: "string option"

definition or_empty :: "string option \<Rightarrow> string" where
  "or_empty s = (case s of None \<Rightarrow> [] | Some t \<Rightarrow> t)"

definition beir_queries :: "beir_query list \<Rightarrow> (qid, string) dict res" where
  "beir_queries os =
     res_fold (\<lambda>d o'. case bq_text o' of None \<Rightarrow> Inl KeyError | Some t \<Rightarrow> Inr (dset d (bq_id o') t)) [] os"

definition beir_qrels_line :: "qrels \<Rightarrow> string \<Rightarrow> qrels res" where
  "beir_qrels_line m line =
     (case split_at TAB (rstrip_nl line) of
        [q, d, s] \<Rightarrow> res_bind (int_of s) (\<lambda>n. Inr (add_nested m q d n))
      | _ \<Rightarrow> Inl ValueError)"

definition beir_qrels :: "string \<Rightarrow> qrels res" where
  "beir_qrels f =
     (case text_lines f of [] \<Rightarrow> Inl StopIteration | _ # ls \<Rightarrow> res_fold beir_qrels_line [] ls)"

definition passage_text :: "beir_doc \<Rightarrow> string" where
  "passage_text c = strip (or_empty (bd_title c) @ '' '' @ or_empty (bd_text c))"

section \<open>Dense runs\<close>

definition trec_qrels :: "qrels \<Rightarrow> string" where
  "trec_qrels qrels =
     unlines (concat (map (\<lambda>(q, docs). map (\<lambda>(d, s). sp_join [q, ''0'', d, str_int s]) docs) qrels))"

record 'v beir_out =
  bo_docids :: string
  bo_passages :: 'v
  bo_qids :: string
  bo_queries :: 'v
  bo_qrels :: string
  bo_run :: string
  bo_corpus :: nat
  bo_test :: nat
  bo_missing :: nat

definition beir_dense :: "(string list \<Rightarrow> 'v) \<Rightarrow> (string list \<Rightarrow> 'v) \<Rightarrow> ('v \<Rightarrow> 'v \<Rightarrow> nat \<Rightarrow> (nat \<times> real) list list) \<Rightarrow> nat \<Rightarrow>
    beir_doc list \<Rightarrow> (qid, string) dict \<Rightarrow> qrels \<Rightarrow> 'v beir_out res" where
  "beir_dense enc_p enc_q search k corpus queries qrels =
     (let docids = map bd_id corpus; c = enc_p (map passage_text corpus);
          qids = filter (dhas queries) (keys qrels); q = enc_q (map (\<lambda>q. dget queries q []) qids);
          hits = search c q (min k (length docids))
      in res_bind (res_map (res_map (\<lambda>(j, s). if length docids \<le> j then Inl IndexError else Inr (docids ! j, s))) (take (length qids) hits)) (\<lambda>rs.
           if length rs < length qids then Inl IndexError
           else Inr \<lparr>bo_docids = unlines docids, bo_passages = c, bo_qids = unlines qids, bo_queries = q, bo_qrels = trec_qrels qrels,
             bo_run = write_run (zip qids rs) ''dense-flat'', bo_corpus = length docids, bo_test = length qids,
             bo_missing = length qrels - length qids\<rparr>))"

section \<open>Lexical runs on integer ids\<close>

definition clean :: "string \<Rightarrow> string" where
  \<comment> \<open>the replacements of tabs and line ends are subsumed by \<open>split()\<close>, but kept\<close>
  "clean s = sp_join (split_ws (map (\<lambda>c. if code c = TAB \<or> code c = 13 \<or> code c = NL then CHR '' '' else c) s))"

definition corpus_tsv :: "beir_doc list \<Rightarrow> string" where
  "corpus_tsv corpus = unlines (map (\<lambda>(i, c). str_nat i @ tab @ clean (passage_text c)) (enumerate 0 corpus))"

definition test_qids :: "string \<Rightarrow> string list res" where
  "test_qids f =
     (case text_lines f of
        [] \<Rightarrow> Inl StopIteration
      | _ # ls \<Rightarrow> Inr (foldl (\<lambda>qs q. if q \<in> set qs then qs else qs @ [q]) [] (map (takeWhile (\<lambda>c. code c \<noteq> TAB)) ls)))"

definition py_index :: "'a list \<Rightarrow> int \<Rightarrow> 'a res" where
  \<comment> \<open>\<open>xs[i]\<close>: a negative index counts from the end\<close>
  "py_index xs i =
     (let j = (if i < 0 then i + int (length xs) else i)
      in if j < 0 \<or> int (length xs) \<le> j then Inl IndexError else Inr (xs ! nat j))"

definition map_run_line :: "string list \<Rightarrow> string \<Rightarrow> string res" where
  "map_run_line ids line =
     (case split_ws line of
        [q, q0, did, rank, score, tag] \<Rightarrow>
          res_bind (int_of did) (\<lambda>i. res_bind (py_index ids i) (\<lambda>d. Inr (sp_join [q, q0, d, rank, score, tag])))
      | _ \<Rightarrow> Inl ValueError)"

definition map_run :: "string list \<Rightarrow> string \<Rightarrow> string res" where
  "map_run ids raw = res_bind (res_map (map_run_line ids) (text_lines raw)) (\<lambda>ls. Inr (unlines ls))"

definition queries_tsv :: "(qid, string) dict \<Rightarrow> string list \<Rightarrow> string" where
  "queries_tsv queries qids = unlines (map (\<lambda>q. q @ tab @ clean (dget queries q [])) qids)"

definition beir_bm25 :: "(string \<Rightarrow> string \<Rightarrow> string) \<Rightarrow> beir_doc list \<Rightarrow> beir_query list \<Rightarrow> string \<Rightarrow> (string \<times> string) res" where
  \<comment> \<open>the id map and the run; \<open>engine\<close> indexes a corpus file and answers a query file\<close>
  "beir_bm25 engine corpus qs qrels_f =
     (let ids = map bd_id corpus in
      if \<not> distinct ids then Inl SystemExit
      else res_bind (beir_queries qs) (\<lambda>queries. res_bind (test_qids qrels_f) (\<lambda>qids.
        if \<exists>q \<in> set qids. \<not> dhas queries q then Inl SystemExit
        else res_bind (map_run ids (engine (corpus_tsv corpus) (queries_tsv queries qids))) (\<lambda>run.
          Inr (unlines (map (\<lambda>(i, s). str_nat i @ tab @ s) (enumerate 0 ids)), run)))))"

section \<open>The converted files\<close>

lemma split_ws_plain: "f \<in> set (split_ws s) \<Longrightarrow> plain f"
proof (induction s rule: split_ws.induct)
  case (1 s)
  show ?case
  proof (cases "dropWhile is_space_char s")
    case Nil
    have "split_ws s = []" by (subst split_ws.simps) (simp add: Nil)
    then show ?thesis using "1.prems" by simp
  next
    case (Cons c r)
    have c: "\<not> is_space_char c" using Cons by (metis dropWhile_Cons_props(1))
    have split: "split_ws s = takeWhile (\<lambda>c. \<not> is_space_char c) (c # r) # split_ws (dropWhile (\<lambda>c. \<not> is_space_char c) (c # r))"
      by (subst split_ws.simps) (simp add: Cons)
    have "plain (takeWhile (\<lambda>c. \<not> is_space_char c) (c # r))"
      using c by (auto simp: plain_def list_all_iff dest: set_takeWhileD)
    then show ?thesis using "1.prems" "1.IH" [OF Cons] unfolding split by auto
  qed
qed

lemma clean_one_line: "one_line (clean s)"
  unfolding clean_def by (rule sp_join_one_line) (rule split_ws_plain)

lemma rstrip_nl_line: "one_line s \<Longrightarrow> rstrip_nl (s @ nl) = s"
  by (cases s rule: rev_cases) (auto simp: rstrip_nl_def nl_def one_line_def)

lemma corpus_line:
  assumes "one_line t"
  shows "iter_collection_line ((str_nat i @ tab @ t) @ nl) = Inr (int i, t)"
proof -
  have tab: "code (char_of TAB) = TAB" by (simp add: code_def)
  have one: "one_line (str_nat i @ tab @ t)"
    using assms plain_one_line [OF plain_str_nat [of i]] by (simp add: one_line_def tab_def tab)
  have "split1 TAB (str_nat i @ char_of TAB # t) = Some (str_nat i, t)"
    by (rule split1_at) (simp_all add: plain_no_tab tab)
  then have "split1 TAB (rstrip_nl ((str_nat i @ tab @ t) @ nl)) = Some (str_nat i, t)"
    unfolding rstrip_nl_line [OF one] by (simp add: tab_def)
  moreover have "int_of (str_nat i) = Inr (int i)" using int_of_str_int [of "int i"] by (simp add: str_int_def)
  ultimately show ?thesis by (simp only: iter_collection_line_def) simp
qed

lemma res_map_lines:
  "(\<And>x. x \<in> set xs \<Longrightarrow> f (g x @ nl) = Inr (h x)) \<Longrightarrow> res_map f (map (\<lambda>l. l @ nl) (map g xs)) = Inr (map h xs)"
  by (induction xs) auto

lemma corpus_tsv_reads:
  "iter_collection (corpus_tsv corpus) = Inr (map (\<lambda>(i, c). (int i, clean (passage_text c))) (enumerate 0 corpus))"
proof -
  let ?line = "\<lambda>(i, c). str_nat i @ tab @ clean (passage_text c)"
  have tab: "code (char_of TAB) = TAB" by (simp add: code_def)
  have one: "one_line (?line x)" for x
    using clean_one_line plain_one_line [OF plain_str_nat] by (cases x) (simp add: one_line_def tab_def tab)
  have "text_lines (corpus_tsv corpus) = map (\<lambda>l. l @ nl) (map ?line (enumerate 0 corpus))"
    unfolding corpus_tsv_def using one by (intro text_lines_unlines) (auto simp del: split_paired_All)
  moreover have "res_map iter_collection_line (map (\<lambda>l. l @ nl) (map ?line (enumerate 0 corpus))) =
      Inr (map (\<lambda>(i, c). (int i, clean (passage_text c))) (enumerate 0 corpus))"
    using corpus_line [OF clean_one_line]
    by (intro res_map_lines) (auto simp: case_prod_unfold)
  ultimately show ?thesis by (simp add: iter_collection_def)
qed

lemma trec_qrels_entries:
  "trec_qrels qrels = unlines (map (\<lambda>(q, d, g). sp_join [q, ''0'', d, str_int g]) (entries qrels))"
proof -
  have "concat (map (\<lambda>(q, docs). map (\<lambda>(d, s). sp_join [q, ''0'', d, str_int s]) docs) bs) =
      map (\<lambda>(q, d, g). sp_join [q, ''0'', d, str_int g]) (entries bs)" for bs
    by (induction bs) (auto simp: entries_def)
  then show ?thesis by (simp only: trec_qrels_def)
qed

lemma trec_qrels_reads:
  assumes "dict_ok qrels" and ps: "\<And>q ps. (q, ps) \<in> set qrels \<Longrightarrow> plain q \<and> dict_ok ps \<and> ps \<noteq> [] \<and> (\<forall>d \<in> set (keys ps). plain d)"
  shows "read_qrels (trec_qrels qrels) = Inr qrels"
proof -
  have "plain q \<and> plain d" if "(q, d, g) \<in> set (entries qrels)" for q d g
    using that ps by (fastforce simp: entries_def)
  then have "read_qrels (trec_qrels qrels) = Inr (foldl (\<lambda>m (q, d, v). add_nested m q d v) [] (entries qrels))"
    unfolding trec_qrels_entries by (rule read_qrels_unlines)
  also have "foldl (\<lambda>m (q, d, v). add_nested m q d v) [] (entries qrels) = [] @ qrels"
    by (rule add_nested_entries) (use assms in auto)
  finally show ?thesis by simp
qed

section \<open>The run on integer ids\<close>

text \<open>A line of an engine's run: query, integer id, rank and score.\<close>

type_synonym raw_line = "qid \<times> nat \<times> string \<times> string"

definition raw_lines :: "string \<Rightarrow> (nat \<Rightarrow> string) \<Rightarrow> raw_line list \<Rightarrow> string" where
  "raw_lines tag name ls = unlines (map (\<lambda>(q, i, r, s). sp_join [q, ''Q0'', name i, r, s, tag]) ls)"

definition raw_ok :: "nat \<Rightarrow> raw_line \<Rightarrow> bool" where
  "raw_ok n = (\<lambda>(q, i, r, s). plain q \<and> i < n \<and> plain r \<and> plain s)"

lemma map_run_line_exact:
  assumes "raw_ok (length ids) (q, i, r, s)" and "plain tag"
  shows "map_run_line ids (sp_join [q, ''Q0'', str_nat i, r, s, tag] @ nl) = Inr (sp_join [q, ''Q0'', ids ! i, r, s, tag])"
proof -
  have "split_ws (sp_join [q, ''Q0'', str_nat i, r, s, tag] @ nl) = [q, ''Q0'', str_nat i, r, s, tag]"
    using assms plain_lits plain_str_nat by (intro split_ws_join) (auto simp: raw_ok_def)
  moreover have "int_of (str_nat i) = Inr (int i)" using int_of_str_int [of "int i"] by (simp add: str_int_def)
  moreover have "py_index ids (int i) = Inr (ids ! i)" using assms(1) by (simp add: py_index_def raw_ok_def)
  ultimately show ?thesis by (simp add: map_run_line_def)
qed

lemma raw_lines_split:
  assumes "\<And>x. x \<in> set ls \<Longrightarrow> raw_ok n x" and "plain tag" and "\<And>i. i < n \<Longrightarrow> plain (name i)"
  shows "text_lines (raw_lines tag name ls) = map (\<lambda>l. l @ nl) (map (\<lambda>(q, i, r, s). sp_join [q, ''Q0'', name i, r, s, tag]) ls)"
  unfolding raw_lines_def
proof (rule text_lines_unlines)
  fix l
  assume "l \<in> set (map (\<lambda>(q, i, r, s). sp_join [q, ''Q0'', name i, r, s, tag]) ls)"
  then obtain q i r s where l: "l = sp_join [q, ''Q0'', name i, r, s, tag]" and "(q, i, r, s) \<in> set ls" by auto
  then have ok: "raw_ok n (q, i, r, s)" using assms(1) by blast
  show "one_line l"
    unfolding l by (rule sp_join_one_line) (use ok assms plain_lits in \<open>auto simp: raw_ok_def\<close>)
qed

lemma map_run_exact:
  assumes "\<And>x. x \<in> set ls \<Longrightarrow> raw_ok (length ids) x" and "plain tag"
  shows "map_run ids (raw_lines tag str_nat ls) = Inr (raw_lines tag ((!) ids) ls)"
proof -
  have line: "map_run_line ids ((case x of (q, i, r, s) \<Rightarrow> sp_join [q, ''Q0'', str_nat i, r, s, tag]) @ nl) =
      Inr (case x of (q, i, r, s) \<Rightarrow> sp_join [q, ''Q0'', ids ! i, r, s, tag])" if "x \<in> set ls" for x
    using map_run_line_exact [OF _ assms(2)] assms(1) [OF that] by (cases x) simp
  have "text_lines (raw_lines tag str_nat ls) =
      map (\<lambda>l. l @ nl) (map (\<lambda>(q, i, r, s). sp_join [q, ''Q0'', str_nat i, r, s, tag]) ls)"
    using assms plain_str_nat by (intro raw_lines_split [of ls "length ids"])
  then have "res_map (map_run_line ids) (text_lines (raw_lines tag str_nat ls)) =
      Inr (map (\<lambda>(q, i, r, s). sp_join [q, ''Q0'', ids ! i, r, s, tag]) ls)"
    using line by (simp only:) (rule res_map_lines, blast)
  then show ?thesis by (simp add: map_run_def raw_lines_def)
qed

lemma raw_lines_read:
  assumes "\<And>x. x \<in> set ls \<Longrightarrow> raw_ok n x" and "plain tag" and "\<And>i. i < n \<Longrightarrow> plain (name i)"
    and "\<And>q i r s. (q, i, r, s) \<in> set ls \<Longrightarrow> float_of s = Inr (val s)"
  shows "read_run (raw_lines tag name ls) =
     Inr (foldl (\<lambda>m (q, d, v). add_nested m q d v) [] (map (\<lambda>(q, i, r, s). (q, name i, val s)) ls))"
proof -
  have "read_run (raw_lines tag name ls) = Inr (foldl (\<lambda>m (q, i, r, s). add_nested m q (name i) (val s)) [] ls)"
    unfolding read_run_def raw_lines_def
  proof (rule text_fold_unlines)
    fix x
    assume x: "x \<in> set ls"
    obtain q i r s where e: "x = (q, i, r, s)" by (cases x)
    have ok: "plain q" "i < n" "plain r" "plain s" "plain (name i)"
      using assms(1) [OF x] assms(3) by (auto simp: e raw_ok_def)
    have v: "float_of s = Inr (val s)" using assms(4) x by (simp add: e)
    have "one_line (sp_join [q, ''Q0'', name i, r, s, tag])"
      by (rule sp_join_one_line) (use ok assms(2) plain_lits in auto)
    then show "one_line (case x of (q, i, r, s) \<Rightarrow> sp_join [q, ''Q0'', name i, r, s, tag])" by (simp add: e)
    show "read_run_line m ((case x of (q, i, r, s) \<Rightarrow> sp_join [q, ''Q0'', name i, r, s, tag]) @ nl) =
        Inr (case x of (q, i, r, s) \<Rightarrow> add_nested m q (name i) (val s))" for m
      unfolding e prod.case by (rule read_run_entry) (use ok v assms(2) in auto)
  qed
  then show ?thesis by (simp add: foldl_map case_prod_unfold)
qed

text \<open>C30: the engine reads every passage under its position in the corpus file, with tabs and line ends
  gone; and when it answers with lines over these integers, the run written reads back as the engine's
  scores on the documents at those positions, in the engine's order.\<close>

theorem beir_bm25_exact:
  assumes "distinct (map bd_id corpus)" and ids: "\<And>c. c \<in> set corpus \<Longrightarrow> plain (bd_id c)"
    and "beir_queries qs = Inr queries" and "test_qids f = Inr qids" and "\<And>q. q \<in> set qids \<Longrightarrow> dhas queries q"
    and engine: "engine (corpus_tsv corpus) (queries_tsv queries qids) = raw_lines tag str_nat ls"
    and ok: "\<And>x. x \<in> set ls \<Longrightarrow> raw_ok (length corpus) x" "plain tag"
    and val: "\<And>q i r s. (q, i, r, s) \<in> set ls \<Longrightarrow> float_of s = Inr (val s)"
  shows "iter_collection (corpus_tsv corpus) = Inr (map (\<lambda>(i, c). (int i, clean (passage_text c))) (enumerate 0 corpus)) \<and>
     (\<exists>idmap out. beir_bm25 engine corpus qs f = Inr (idmap, out) \<and>
        read_run out = Inr (foldl (\<lambda>m (q, d, v). add_nested m q d v) []
          (map (\<lambda>(q, i, r, s). (q, bd_id (corpus ! i), val s)) ls)))"
proof -
  define ids' where "ids' = map bd_id corpus"
  have ok': "raw_ok (length ids') x" if "x \<in> set ls" for x using ok(1) [OF that] by (simp add: ids'_def)
  have "map_run ids' (engine (corpus_tsv corpus) (queries_tsv queries qids)) = Inr (raw_lines tag ((!) ids') ls)"
    unfolding engine by (rule map_run_exact [OF ok' ok(2)])
  then have out: "\<exists>idmap. beir_bm25 engine corpus qs f = Inr (idmap, raw_lines tag ((!) ids') ls)"
    using assms(1,3-5) by (auto simp: beir_bm25_def Let_def ids'_def)
  have "plain (ids' ! i)" if "i < length ids'" for i
    using ids that by (simp add: ids'_def)
  from raw_lines_read [of ls "length ids'" tag "(!) ids'" val, OF ok' ok(2) this val]
  have "read_run (raw_lines tag ((!) ids') ls) =
      Inr (foldl (\<lambda>m (q, d, v). add_nested m q d v) [] (map (\<lambda>(q, i, r, s). (q, ids' ! i, val s)) ls))" .
  moreover have "map (\<lambda>(q, i, r, s). (q, ids' ! i, val s)) ls = map (\<lambda>(q, i, r, s). (q, bd_id (corpus ! i), val s)) ls"
    using ok(1) by (auto simp: ids'_def raw_ok_def)
  ultimately show ?thesis using out corpus_tsv_reads by auto
qed

theorem beir_bm25_exact_witness:
  "let corpus = [\<lparr>bd_id = ''MED-1'', bd_title = Some ''T'', bd_text = None\<rparr>, \<lparr>bd_id = ''MED-2'', bd_title = None, bd_text = Some ''x''\<rparr>];
       qs = [\<lparr>bq_id = ''q'', bq_text = Some ''x''\<rparr>]; f = ''h'' @ nl @ ''q'' @ tab @ ''MED-2'' @ tab @ ''1'' @ nl;
       engine = (\<lambda>c q. raw_lines ''t'' str_nat [(''q'', 1, ''1'', ''2'')])
   in \<exists>idmap out. beir_bm25 engine corpus qs f = Inr (idmap, out) \<and> read_run out = Inr [(''q'', [(''MED-2'', 2)])]"
proof -
  let ?corpus = "[\<lparr>bd_id = ''MED-1'', bd_title = Some ''T'', bd_text = None\<rparr>, \<lparr>bd_id = ''MED-2'', bd_title = None, bd_text = Some ''x''\<rparr>]"
  let ?qs = "[\<lparr>bq_id = ''q'', bq_text = Some ''x''\<rparr>]"
  let ?f = "''h'' @ nl @ ''q'' @ tab @ ''MED-2'' @ tab @ ''1'' @ nl"
  have qs: "beir_queries ?qs = Inr [(''q'', ''x'')]" by code_simp
  have qids: "test_qids ?f = Inr [''q'']" by code_simp
  have v: "float_of ''2'' = Inr 2" by code_simp
  have p: "plain ''MED-1''" "plain ''MED-2''" "plain ''q''" "plain ''1''" "plain ''2''" "plain ''t''" by code_simp+
  have "\<exists>idmap out. beir_bm25 (\<lambda>c q. raw_lines ''t'' str_nat [(''q'', 1, ''1'', ''2'')]) ?corpus ?qs ?f = Inr (idmap, out) \<and>
      read_run out = Inr (foldl (\<lambda>m (q, d, v). add_nested m q d v) []
        (map (\<lambda>(q, i, r, s). (q, bd_id (?corpus ! i), 2)) [(''q'', 1 :: nat, ''1'', ''2'')]))"
    by (rule conjunct2 [OF beir_bm25_exact [OF _ _ qs qids, where tag = "''t''" and ls = "[(''q'', 1, ''1'', ''2'')]"]])
      (use v p in \<open>auto simp: raw_ok_def dhas_def\<close>)
  then show ?thesis by (simp add: add_nested_def dset_def dhas_def)
qed

end
