(* ===== verification/Effects.thy ===== *)
theory Effects
  imports Prelude "HOL-Library.State_Monad"
begin

text \<open>
  Computations that change a state and may raise, over the library's state monad: what was done before an
  exception stays done.  Random generators and files that are appended to are such states.  The rules
  open a successful run step by step (\<open>act_simps\<close>).
\<close>

type_synonym ('s, 'a) eff = "('s, 'a res) state"

definition act_of :: "'a res \<Rightarrow> ('s, 'a) eff" where
  "act_of r = State (\<lambda>w. (r, w))"

definition act_bind :: "('s, 'a) eff \<Rightarrow> ('a \<Rightarrow> ('s, 'b) eff) \<Rightarrow> ('s, 'b) eff" where
  "act_bind m f = State_Monad.bind m (\<lambda>r. case r of Inl e \<Rightarrow> act_of (Inl e) | Inr x \<Rightarrow> f x)"

fun act_each :: "('a \<Rightarrow> ('s, unit) eff) \<Rightarrow> 'a list \<Rightarrow> ('s, unit) eff" where
  "act_each f [] = act_of (Inr ())"
| "act_each f (x # xs) = act_bind (f x) (\<lambda>_. act_each f xs)"

fun act_map :: "('a \<Rightarrow> ('s, 'b) eff) \<Rightarrow> 'a list \<Rightarrow> ('s, 'b list) eff" where
  "act_map f [] = act_of (Inr [])"
| "act_map f (x # xs) = act_bind (f x) (\<lambda>y. act_bind (act_map f xs) (\<lambda>ys. act_of (Inr (y # ys))))"

fun act_fold :: "('a \<Rightarrow> 'b \<Rightarrow> ('s, 'b) eff) \<Rightarrow> 'a list \<Rightarrow> 'b \<Rightarrow> ('s, 'b) eff" where
  "act_fold f [] y = act_of (Inr y)"
| "act_fold f (x # xs) y = act_bind (f x y) (act_fold f xs)"

definition act_gets :: "('s \<Rightarrow> 'a) \<Rightarrow> ('s, 'a) eff" where
  "act_gets f = State (\<lambda>w. (Inr (f w), w))"

definition act_puts :: "('s \<Rightarrow> 's) \<Rightarrow> ('s, unit) eff" where
  "act_puts f = State (\<lambda>w. (Inr (), f w))"

definition act_draw :: "('s \<Rightarrow> 'a \<times> 's) \<Rightarrow> ('s, 'a) eff" where
  \<comment> \<open>a step that cannot fail, such as a draw of a generator\<close>
  "act_draw f = State (\<lambda>w. case f w of (x, w') \<Rightarrow> (Inr x, w'))"

definition act_run :: "('s, 'a) eff \<Rightarrow> 's \<Rightarrow> 'a res \<times> 's" where
  "act_run m w = run_state m w"

named_theorems act_simps \<open>successful steps of a computation\<close>

lemma act_run_step:
  "act_run (act_of r) w = (r, w)" "act_run (act_gets f) w = (Inr (f w), w)" "act_run (act_puts g) w = (Inr (), g w)"
  by (simp_all add: act_run_def act_of_def act_gets_def act_puts_def)

lemma act_run_of [act_simps]: "act_run (act_of r) w = (y, w') \<longleftrightarrow> r = y \<and> w' = w"
  by (auto simp: act_run_def act_of_def)

lemma act_run_gets [act_simps]: "act_run (act_gets f) w = (y, w') \<longleftrightarrow> y = Inr (f w) \<and> w' = w"
  by (auto simp: act_run_def act_gets_def)

lemma act_run_puts [act_simps]: "act_run (act_puts f) w = (y, w') \<longleftrightarrow> y = Inr () \<and> w' = f w"
  by (auto simp: act_run_def act_puts_def)

lemma act_run_draw [act_simps]: "act_run (act_draw f) w = (y, w') \<longleftrightarrow> y = Inr (fst (f w)) \<and> w' = snd (f w)"
  by (auto simp: act_run_def act_draw_def split: prod.splits)

lemma act_run_bind:
  "act_run (act_bind m f) w = (case act_run m w of (Inl e, w') \<Rightarrow> (Inl e, w') | (Inr x, w') \<Rightarrow> act_run (f x) w')"
  by (simp add: act_run_def act_bind_def act_of_def split: prod.splits sum.splits)

lemma act_bind_Inr [act_simps]:
  "act_run (act_bind m f) w = (Inr y, w'') \<longleftrightarrow> (\<exists>x w'. act_run m w = (Inr x, w') \<and> act_run (f x) w' = (Inr y, w''))"
  by (auto simp: act_run_bind split: prod.splits sum.splits)

text \<open>What every successful run returns.\<close>

definition returns :: "('a \<Rightarrow> bool) \<Rightarrow> ('s, 'a) eff \<Rightarrow> bool" where
  "returns P m \<longleftrightarrow> (\<forall>w x w'. act_run m w = (Inr x, w') \<longrightarrow> P x)"

lemma returns_of: "(\<And>x. r = Inr x \<Longrightarrow> P x) \<Longrightarrow> returns P (act_of r)"
  by (auto simp: returns_def act_simps)

lemma returns_draw: "(\<And>w. P (fst (f w))) \<Longrightarrow> returns P (act_draw f)"
  by (auto simp: returns_def act_simps)

lemma returns_bind: "returns P m \<Longrightarrow> (\<And>x. P x \<Longrightarrow> returns Q (f x)) \<Longrightarrow> returns Q (act_bind m f)"
  by (simp add: returns_def act_simps) blast

lemma returns_if: "(b \<Longrightarrow> returns P m) \<Longrightarrow> (\<not> b \<Longrightarrow> returns P m') \<Longrightarrow> returns P (if b then m else m')"
  by simp

lemma returns_any: "returns (\<lambda>_. True) m"
  by (simp add: returns_def)

lemma returnsD: "returns P m \<Longrightarrow> act_run m w = (Inr x, w') \<Longrightarrow> P x"
  unfolding returns_def by blast

lemma returns_weaken: "returns P m \<Longrightarrow> (\<And>x. P x \<Longrightarrow> Q x) \<Longrightarrow> returns Q m"
  unfolding returns_def by blast

lemma returns_map:
  assumes "\<And>x. x \<in> set xs \<Longrightarrow> returns (P x) (f x)"
  shows "returns (list_all2 P xs) (act_map f xs)"
  using assms
proof (induction xs)
  case (Cons x xs)
  have "returns (P x) (f x)" "returns (list_all2 P xs) (act_map f xs)" using Cons by simp_all
  then show ?case
    unfolding act_map.simps by (elim returns_bind) (auto intro: returns_of)
qed (auto intro: returns_of)

lemma returns_map_all:
  assumes "\<And>x. x \<in> set xs \<Longrightarrow> returns P (f x)"
  shows "returns (\<lambda>ys. length ys = length xs \<and> list_all P ys) (act_map f xs)"
proof (rule returns_weaken)
  show "returns (list_all2 (\<lambda>_. P) xs) (act_map f xs)" using assms by (rule returns_map)
  show "list_all2 (\<lambda>_. P) xs ys \<Longrightarrow> length ys = length xs \<and> list_all P ys" for ys
    by (auto simp: list_all2_conv_all_nth list_all_length)
qed

lemma returns_fold:
  "(\<And>x y. x \<in> set xs \<Longrightarrow> P y \<Longrightarrow> returns P (f x y)) \<Longrightarrow> P y \<Longrightarrow> returns P (act_fold f xs y)"
proof (induction xs arbitrary: y)
  case (Cons x xs)
  have "returns P (f x y)" using Cons.prems by simp
  then show ?case unfolding act_fold.simps by (rule returns_bind) (rule Cons.IH, simp_all add: Cons.prems)
qed (auto intro: returns_of)

end
