(* ===== verification/Test_Corpus.thy ===== *)
theory Test_Corpus
  imports Beir Effects
begin

text \<open>
  \<open>py/hybridsearch/lexical/gen_test_corpus.py\<close>: the synthetic corpus and queries of the engine's lexical tests.  The
  generator of Python's \<open>random\<close> is an argument; the generation is a computation on its state.  Texts are the
  UTF-8 bytes of the files (the accented words and the Chinese one are written by their bytes; none of them
  changes under \<open>capitalize\<close>).  The lemmas show that both files are read back by the project's own readers:
  2,500 passages with increasing ids at most nine apart, and the 300 queries.
\<close>

section \<open>The generator\<close>

record 'g py_random =
  pr_random :: "'g \<Rightarrow> real \<times> 'g"
  pr_below :: "nat \<Rightarrow> 'g \<Rightarrow> nat \<times> 'g" \<comment> \<open>the index drawn by \<open>choice\<close> and \<open>randint\<close>\<close>
  pr_weighted :: "real list \<Rightarrow> 'g \<Rightarrow> nat \<times> 'g" \<comment> \<open>the index drawn by \<open>choices(xs, weights)[0]\<close>\<close>
  pr_shuffle :: "string list \<Rightarrow> 'g \<Rightarrow> string list \<times> 'g"

definition rand :: "'g py_random \<Rightarrow> ('g, real) eff" where
  "rand R = act_draw (pr_random R)"

definition draw_one :: "'g py_random \<Rightarrow> 'a list \<Rightarrow> ('g, 'a) eff" where
  \<comment> \<open>\<open>rng.choice(xs)\<close>\<close>
  "draw_one R xs = (if xs = [] then act_of (Inl IndexError) else act_bind (act_draw (pr_below R (length xs))) (\<lambda>i. act_of (Inr (xs ! i))))"

definition rand_int :: "'g py_random \<Rightarrow> nat \<Rightarrow> nat \<Rightarrow> ('g, nat) eff" where
  \<comment> \<open>\<open>rng.randint(a, b)\<close>\<close>
  "rand_int R a b = act_bind (act_draw (pr_below R (b + 1 - a))) (\<lambda>i. act_of (Inr (a + i)))"

definition pick_weighted :: "'g py_random \<Rightarrow> 'a list \<Rightarrow> real list \<Rightarrow> ('g, 'a) eff" where
  "pick_weighted R xs ws = (if xs = [] then act_of (Inl IndexError) else act_bind (act_draw (pr_weighted R ws)) (\<lambda>i. act_of (Inr (xs ! i))))"

section \<open>The vocabulary\<close>

definition STEMS :: "string list" where
  "STEMS =
    [''run'', ''walk'', ''connect'', ''generate'', ''relate'', ''condition'', ''agree'', ''feed'', ''hope'', ''care'', ''pony'', ''sky'', ''cat'', ''dog'', ''house'', ''water'',
     ''cell'', ''energy'', ''protein'', ''acid'', ''heart'', ''blood'', ''river'', ''mountain'', ''city'', ''country'', ''state'', ''price'', ''cost'', ''market'', ''bank'',
     ''computer'', ''program'', ''system'', ''network'', ''data'', ''model'', ''train'', ''learn'', ''test'', ''result'', ''number'', ''value'', ''power'', ''light'',
     ''sound'', ''music'', ''film'', ''book'', ''write'', ''read'', ''speak'', ''language'', ''word'', ''name'', ''call'', ''form'', ''work'', ''play'', ''move'', ''live'', ''die'',
     ''grow'', ''change'', ''turn'', ''start'', ''end'', ''open'', ''close'', ''build'', ''design'', ''plan'', ''study'', ''teach'', ''school'', ''student'', ''class'',
     ''temperature'', ''pressure'', ''weather'', ''climate'', ''rain'', ''snow'', ''storm'', ''wind'', ''cloud'', ''sun'', ''moon'', ''star'', ''planet'', ''earth'']"

definition SUFFIXES :: "string list" where
  "SUFFIXES = [[], [], [], ''s'', ''ing'', ''ed'', ''er'', ''ers'', ''ation'', ''ational'', ''ness'', ''ly'', ''ful'', ''able'', char_of (39 :: nat) # ''s'']"

definition STOP :: "string list" where
  "STOP = [''a'', ''an'', ''and'', ''are'', ''as'', ''at'', ''be'', ''but'', ''by'', ''for'', ''if'', ''in'', ''into'', ''is'', ''it'', ''no'',
     ''not'', ''of'', ''on'', ''or'', ''such'', ''that'', ''the'', ''their'', ''then'', ''there'', ''these'', ''they'', ''this'', ''to'',
     ''was'', ''will'', ''with'']"

definition EXTRAS :: "string list" where
  "EXTRAS = [''3.14'', ''1,000'', ''2019'', ''U.S.'', ''e-mail'', ''state-of-the-art'', ''caf'' @ map char_of [195, 169 :: nat],
     ''na'' @ map char_of [195, 175 :: nat] @ ''ve'', ''Z'' @ map char_of [195, 188 :: nat] @ ''rich'',
     map char_of [230, 157, 177, 228, 186, 172 :: nat], map char_of [240, 159, 152, 128 :: nat], ''O'' @ char_of (39 :: nat) # ''Neil'',
     ''rock'' @ char_of (39 :: nat) # ''n'' @ char_of (39 :: nat) # ''roll'', ''x_y'', ''ab12cd'', ''100%'', ''$5.00'', ''C++'', ''Mr.'',
     ''HTTP://www.example.com/a?b=c'']"

definition capitalize :: "string \<Rightarrow> string" where
  "capitalize w =
     (let up = (\<lambda>c. if 97 \<le> code c \<and> code c \<le> 122 then char_of (code c - 32) else c);
          low = (\<lambda>c. if 65 \<le> code c \<and> code c \<le> 90 then char_of (code c + 32) else c)
      in case w of [] \<Rightarrow> [] | c # r \<Rightarrow> up c # map low r)"

definition vocabulary :: "'g py_random \<Rightarrow> ('g, string list) eff" where
  \<comment> \<open>every stem with every suffix, each kept with probability one half, in random order\<close>
  "vocabulary R =
     act_bind (act_map (\<lambda>(s, suf). act_bind (rand R) (\<lambda>r. act_of (Inr (if r < 1 / 2 then [s @ suf] else [])))) (List.product STEMS SUFFIXES)) (\<lambda>ws.
       act_draw (pr_shuffle R (concat ws)))"

definition zipf_weights :: "nat \<Rightarrow> real list" where
  "zipf_weights n = map (\<lambda>i. 1 / (real i + 1) powr (105 / 100)) [0..<n]"

section \<open>Texts\<close>

definition gen_word :: "'g py_random \<Rightarrow> string list \<Rightarrow> real list \<Rightarrow> ('g, string) eff" where
  "gen_word R words weights =
     act_bind (rand R) (\<lambda>r.
     act_bind (if r < 28 / 100 then draw_one R STOP else if r < 31 / 100 then draw_one R EXTRAS else pick_weighted R words weights) (\<lambda>w.
     act_bind (rand R) (\<lambda>c. act_of (Inr (if c < 8 / 100 then capitalize w else w)))))"

definition sentence :: "'g py_random \<Rightarrow> string list \<Rightarrow> real list \<Rightarrow> nat \<Rightarrow> ('g, string) eff" where
  "sentence R words weights n =
     act_bind (act_map (\<lambda>_. gen_word R words weights) [0..<n]) (\<lambda>out.
     act_bind (rand R) (\<lambda>r.
       let t = join_with '' '' out in
       if r < 1 / 2 then act_bind (draw_one R [''.'', ''!'', ''?'', '';'', '' ...'']) (\<lambda>e. act_of (Inr (t @ e))) else act_of (Inr t)))"

definition gen_doc :: "'g py_random \<Rightarrow> string list \<Rightarrow> real list \<Rightarrow> string list \<Rightarrow> ('g, string) eff" where
  \<comment> \<open>stop words only, a long passage, a copy of an earlier one, or an ordinary one\<close>
  "gen_doc R words weights docs =
     act_bind (rand R) (\<lambda>r.
       if r < 1 / 100 then
         act_bind (rand_int R 1 6) (\<lambda>n. act_bind (act_map (\<lambda>_. draw_one R STOP) [0..<n]) (\<lambda>ws. act_of (Inr (join_with '' '' ws))))
       else if r < 2 / 100 then act_bind (rand_int R 400 1500) (sentence R words weights)
       else if r < 6 / 100 \<and> docs \<noteq> [] then draw_one R docs
       else act_bind (rand_int R 5 70) (sentence R words weights))"

definition gen_docs :: "'g py_random \<Rightarrow> string list \<Rightarrow> real list \<Rightarrow> nat \<Rightarrow> ('g, string list) eff" where
  "gen_docs R words weights n =
     act_fold (\<lambda>_ docs. act_bind (gen_doc R words weights docs) (\<lambda>t. act_of (Inr (docs @ [t])))) [0..<n] []"

definition gen_term :: "'g py_random \<Rightarrow> string list \<Rightarrow> real list \<Rightarrow> string list \<Rightarrow> ('g, string) eff" where
  \<comment> \<open>a stop word, an unknown word, the last term again, or a word\<close>
  "gen_term R words weights terms =
     act_bind (rand R) (\<lambda>r.
       if r < 15 / 100 then draw_one R STOP
       else if r < 2 / 10 then act_bind (rand_int R 0 9) (\<lambda>d. act_of (Inr (''zzqx'' @ str_nat d)))
       else if r < 25 / 100 \<and> terms \<noteq> [] then act_of (Inr (last terms))
       else pick_weighted R words weights)"

definition gen_query :: "'g py_random \<Rightarrow> string list \<Rightarrow> real list \<Rightarrow> ('g, string) eff" where
  "gen_query R words weights =
     act_bind (rand_int R 1 8) (\<lambda>n.
     act_bind (act_fold (\<lambda>_ terms. act_bind (gen_term R words weights terms) (\<lambda>t. act_of (Inr (terms @ [t])))) [0..<n] []) (\<lambda>terms.
       act_of (Inr (join_with '' '' terms))))"

section \<open>The files\<close>

definition gen_ids :: "'g py_random \<Rightarrow> nat \<Rightarrow> ('g, nat list) eff" where
  \<comment> \<open>the ids: each is 1 to 9 above the one before\<close>
  "gen_ids R n =
     act_bind (act_fold (\<lambda>_ (pid, ids). act_bind (rand_int R 1 9) (\<lambda>d. act_of (Inr (pid + d, ids @ [pid + d])))) [0..<n] (0, [])) (\<lambda>(_, ids).
       act_of (Inr ids))"

definition test_corpus :: "'g py_random \<Rightarrow> ('g, string \<times> string) eff" where
  \<comment> \<open>\<open>corpus.tsv\<close> and \<open>queries.tsv\<close>\<close>
  "test_corpus R =
     act_bind (vocabulary R) (\<lambda>words. let weights = zipf_weights (length words) in
     act_bind (gen_docs R words weights 2500) (\<lambda>docs.
     act_bind (gen_ids R (length docs)) (\<lambda>ids.
     act_bind (act_map (\<lambda>_. gen_query R words weights) [0..<300]) (\<lambda>qs.
       act_of (Inr (unlines (map2 (\<lambda>pid t. str_nat pid @ tab @ t) ids docs),
                    unlines (map (\<lambda>(q, t). str_nat (1000 + q) @ tab @ t) (enumerate 0 qs))))))))"

section \<open>Every text is one line\<close>

definition random_ok :: "'g py_random \<Rightarrow> bool" where
  \<comment> \<open>drawn indices are in range, a shuffled list has the same elements\<close>
  "random_ok R \<longleftrightarrow> (\<forall>n g. 0 < n \<longrightarrow> fst (pr_below R n g) < n) \<and> (\<forall>ws g. ws \<noteq> [] \<longrightarrow> fst (pr_weighted R ws g) < length ws) \<and>
     (\<forall>xs g. mset (fst (pr_shuffle R xs g)) = mset xs)"

lemma rand_int_range: "random_ok R \<Longrightarrow> a \<le> b \<Longrightarrow> returns (\<lambda>n. a \<le> n \<and> n \<le> b) (rand_int R a b)"
  unfolding rand_int_def
  by (rule returns_bind [OF returns_draw [of "\<lambda>i. i < b + 1 - a"]]) (auto simp: random_ok_def intro!: returns_of)

lemma draw_one_member: "random_ok R \<Longrightarrow> returns (\<lambda>x. x \<in> set xs) (draw_one R xs)"
  by (cases "xs = []") (auto simp: draw_one_def random_ok_def intro!: returns_of returns_bind [OF returns_draw [of "\<lambda>i. i < length xs"]])

lemma pick_weighted_member:
  assumes "random_ok R" "length ws = length xs"
  shows "returns (\<lambda>x. x \<in> set xs) (pick_weighted R xs ws)"
proof (cases "xs = []")
  case False
  then have "ws \<noteq> []" using assms(2) by auto
  then have "fst (pr_weighted R ws g) < length xs" for g using assms by (auto simp: random_ok_def)
  then show ?thesis
    using False by (auto simp: pick_weighted_def intro!: returns_of returns_bind [OF returns_draw [of "\<lambda>i. i < length xs"]])
qed (auto simp: pick_weighted_def intro: returns_of)

lemma one_line_append [simp]: "one_line (a @ b) \<longleftrightarrow> one_line a \<and> one_line b"
  by (auto simp: one_line_def)

lemma one_line_number [simp]: "one_line (str_nat i)" "one_line tab"
  using plain_one_line [OF plain_str_nat [of i]] by (simp_all add: one_line_def tab_def code_def)

lemma one_line_join: "one_line sep \<Longrightarrow> list_all one_line xs \<Longrightarrow> one_line (join_with sep xs)"
  by (induction xs rule: induct_list012) (simp_all add: one_line_def)

lemma one_line_space: "one_line '' ''" "one_line []"
  by (simp_all add: one_line_def code_def)

lemma one_line_capitalize: "one_line w \<Longrightarrow> one_line (capitalize w)"
proof -
  have "code (char_of (code c + 32)) \<noteq> 10 \<and> code (char_of (code c + 32)) \<noteq> 13" if "65 \<le> code c" "code c \<le> 90" for c
    using that by (simp add: code_def)
  moreover have "code (char_of (code c - 32)) \<noteq> 10 \<and> code (char_of (code c - 32)) \<noteq> 13" if "97 \<le> code c" "code c \<le> 122" for c
    using that unfolding code_def by (simp; arith)
  ultimately show "one_line w \<Longrightarrow> one_line (capitalize w)"
    by (cases w) (auto simp: capitalize_def one_line_def list_all_iff)
qed

lemma fixed_words:
  "list_all one_line STOP" "list_all one_line EXTRAS" "list_all one_line STEMS" "list_all one_line SUFFIXES"
  by code_simp+

lemma vocabulary_lines:
  assumes "random_ok R"
  shows "returns (list_all one_line) (vocabulary R)"
  unfolding vocabulary_def
proof (rule returns_bind)
  show "returns (\<lambda>wss. length wss = length (List.product STEMS SUFFIXES) \<and> list_all (list_all one_line) wss)
     (act_map (\<lambda>(s, suf). act_bind (rand R) (\<lambda>r. act_of (Inr (if r < 1 / 2 then [s @ suf] else [])))) (List.product STEMS SUFFIXES))"
    by (rule returns_map_all) (use fixed_words(3,4) in \<open>auto simp: list_all_iff intro!: returns_bind [OF returns_any] returns_of\<close>)
  fix wss :: "string list list"
  assume "length wss = length (List.product STEMS SUFFIXES) \<and> list_all (list_all one_line) wss"
  moreover have "set (fst (pr_shuffle R (concat wss) g)) = set (concat wss)" for g
    using assms by (metis random_ok_def set_mset_mset)
  ultimately show "returns (list_all one_line) (act_draw (pr_shuffle R (concat wss)))"
    by (intro returns_draw) (auto simp: list_all_iff)
qed

lemma sentence_line:
  assumes "random_ok R" "list_all one_line words" "length weights = length words"
  shows "returns one_line (sentence R words weights n)"
proof -
  have ends: "list_all one_line [''.'', ''!'', ''?'', '';'', '' ...'']" by code_simp
  have word: "returns one_line (gen_word R words weights)"
    unfolding gen_word_def
    by (intro returns_bind [OF returns_any] returns_bind [of one_line] returns_if returns_of
        returns_weaken [OF draw_one_member [OF assms(1)]] returns_weaken [OF pick_weighted_member [OF assms(1,3)]])
      (use assms(2) fixed_words one_line_capitalize in \<open>auto simp: list_all_iff\<close>)
  have "returns (\<lambda>ys. length ys = length [0..<n] \<and> list_all one_line ys) (act_map (\<lambda>_. gen_word R words weights) [0..<n])"
    by (rule returns_map_all) (rule word)
  then show ?thesis
    unfolding sentence_def Let_def
    by (elim returns_bind) (intro returns_bind [OF returns_any] returns_bind [OF draw_one_member [OF assms(1)]] returns_if returns_of,
      use ends one_line_space in \<open>auto simp: list_all_iff intro!: one_line_join\<close>)
qed

lemma returns_grow:
  assumes "\<And>ys. list_all P ys \<Longrightarrow> returns P (f ys)" and "list_all P ys0"
  shows "returns (\<lambda>ys. length ys = length xs + length ys0 \<and> list_all P ys)
     (act_fold (\<lambda>_ ys. act_bind (f ys) (\<lambda>t. act_of (Inr (ys @ [t])))) xs ys0)"
  using assms(2)
proof (induction xs arbitrary: ys0)
  case (Cons x xs)
  have step: "returns (\<lambda>ys. length ys = length ys0 + 1 \<and> list_all P ys) (act_bind (f ys0) (\<lambda>t. act_of (Inr (ys0 @ [t]))))"
    by (rule returns_bind [OF assms(1) [OF Cons.prems]]) (use Cons.prems in \<open>auto intro: returns_of\<close>)
  show ?case unfolding act_fold.simps by (rule returns_bind [OF step]) (use Cons.IH in \<open>fastforce elim: returns_weaken\<close>)
qed (auto intro: returns_of)

lemma docs_lines:
  assumes ok: "random_ok R" and words: "list_all one_line words" "length weights = length words"
  shows "returns (\<lambda>ds. length ds = n \<and> list_all one_line ds) (gen_docs R words weights n)"
proof -
  have doc: "returns one_line (gen_doc R words weights docs)" if "list_all one_line docs" for docs
  proof -
    have stops: "returns one_line (act_bind (rand_int R 1 6) (\<lambda>n. act_bind (act_map (\<lambda>_. draw_one R STOP) [0..<n]) (\<lambda>ws. act_of (Inr (join_with '' '' ws)))))"
    proof (rule returns_bind [OF returns_any])
      fix m
      have "returns (\<lambda>ys. length ys = length [0..<m] \<and> list_all (\<lambda>x. x \<in> set STOP) ys) (act_map (\<lambda>_. draw_one R STOP) [0..<m])"
        by (rule returns_map_all) (rule draw_one_member [OF ok])
      then show "returns one_line (act_bind (act_map (\<lambda>_. draw_one R STOP) [0..<m]) (\<lambda>ws. act_of (Inr (join_with '' '' ws))))"
        by (elim returns_bind) (use fixed_words(1) one_line_space in \<open>auto simp: list_all_iff intro!: returns_of one_line_join\<close>)
    qed
    have sent: "returns one_line (act_bind (rand_int R a b) (sentence R words weights))" for a b
      by (rule returns_bind [OF returns_any]) (rule sentence_line [OF ok words])
    have old: "returns one_line (draw_one R docs)" by (rule returns_weaken [OF draw_one_member [OF ok]]) (use that in \<open>auto simp: list_all_iff\<close>)
    show ?thesis unfolding gen_doc_def by (rule returns_bind [OF returns_any], intro returns_if stops sent old)
  qed
  show ?thesis using returns_grow [of one_line "gen_doc R words weights" "[]" "[0..<n]"] doc by (simp add: gen_docs_def)
qed

lemma query_line:
  assumes ok: "random_ok R" and words: "list_all one_line words" "length weights = length words"
  shows "returns one_line (gen_query R words weights)"
proof -
  have digit: "one_line (''zzqx'' @ str_nat d)" for d
    using plain_one_line [OF plain_str_nat] by (simp add: one_line_def code_def)
  have unknown: "returns one_line (act_bind (rand_int R 0 9) (\<lambda>d. act_of (Inr (''zzqx'' @ str_nat d))))"
    by (rule returns_bind [OF returns_any]) (use digit in \<open>auto intro: returns_of\<close>)
  have trm: "returns one_line (gen_term R words weights terms)" if "list_all one_line terms" for terms
    unfolding gen_term_def
    by (rule returns_bind [OF returns_any], intro returns_if unknown returns_weaken [OF draw_one_member [OF ok]] returns_weaken [OF pick_weighted_member [OF ok words(2)]])
      (use that words(1) fixed_words(1) in \<open>auto simp: list_all_iff returns_def act_simps\<close>)
  show ?thesis
    unfolding gen_query_def
    by (rule returns_bind [OF returns_any], rule returns_bind [OF returns_grow [of one_line]])
      (use trm one_line_space in \<open>auto intro!: returns_of one_line_join\<close>)
qed

fun gaps :: "nat \<Rightarrow> nat list \<Rightarrow> bool" where
  \<comment> \<open>every id is 1 to 9 above the one before\<close>
  "gaps p [] = True"
| "gaps p (i # is') = (p < i \<and> i \<le> p + 9 \<and> gaps i is')"

lemma gaps_snoc: "gaps p (xs @ [y]) \<longleftrightarrow> gaps p xs \<and> last (p # xs) < y \<and> y \<le> last (p # xs) + 9"
  by (induction xs arbitrary: p) auto

lemma ids_increase:
  assumes "random_ok R"
  shows "returns (\<lambda>ids. length ids = n \<and> gaps 0 ids) (gen_ids R n)"
proof -
  let ?step = "\<lambda>_ (pid, ids). act_bind (rand_int R 1 9) (\<lambda>d. act_of (Inr (pid + d, ids @ [pid + d])))"
  have "returns (\<lambda>(pid, ids). length ids = length xs + length ids0 \<and> gaps 0 ids) (act_fold ?step xs (pid0, ids0))"
    if "gaps 0 ids0" "pid0 = last (0 # ids0)" for xs :: "nat list" and pid0 ids0
    using that
  proof (induction xs arbitrary: pid0 ids0)
    case (Cons x xs)
    have step: "returns (\<lambda>(pid, ids). length ids = length ids0 + 1 \<and> gaps 0 ids \<and> pid = last (0 # ids)) (?step x (pid0, ids0))"
      by (simp, rule returns_bind [OF rand_int_range [OF assms]]) (use Cons.prems in \<open>auto simp: gaps_snoc intro!: returns_of\<close>)
    show ?case
      unfolding act_fold.simps by (rule returns_bind [OF step]) (use Cons.IH in \<open>fastforce elim: returns_weaken\<close>)
  qed (auto intro: returns_of)
  from this [of "[]" 0 "[0..<n]"]
  have "returns (\<lambda>(pid, ids). length ids = n \<and> gaps 0 ids) (act_fold ?step [0..<n] (0, []))" by simp
  then show ?thesis
    unfolding gen_ids_def by (rule returns_bind) (auto intro: returns_of)
qed

text \<open>Whatever the generator draws, the files of the test corpus are what the readers expect.  When the
  generation finishes, the collection reader returns 2,500 passages in order with ids that start above 0 and are
  1 to 9 apart (so increasing and at most 22,500), and the query reader returns the 300 queries 1000 to 1299.\<close>

lemma query_tab_line:
  assumes "one_line t"
  shows "read_query_line out ((str_nat i @ tab @ t) @ nl) = Inr (dset out (str_nat i) t)"
proof -
  have tab: "code (char_of TAB) = TAB" by (simp add: code_def)
  have one: "one_line (str_nat i @ tab @ t)" using assms by simp
  have "split1 TAB (str_nat i @ char_of TAB # t) = Some (str_nat i, t)"
    by (rule split1_at) (simp_all add: plain_no_tab tab)
  then show ?thesis unfolding read_query_line_def rstrip_nl_line [OF one] by (simp add: tab_def)
qed

lemma corpus_lines_read:
  assumes "list_all one_line docs" "length ids = length docs"
  shows "iter_collection (unlines (map2 (\<lambda>pid t. str_nat pid @ tab @ t) ids docs)) = Inr (zip (map int ids) docs)"
proof -
  have line: "one_line t" if "(i, t) \<in> set (zip ids docs)" for i t
    using that assms(1) by (auto simp: list_all_iff dest: set_zip_rightD)
  have "text_lines (unlines (map2 (\<lambda>pid t. str_nat pid @ tab @ t) ids docs)) = map (\<lambda>l. l @ nl) (map2 (\<lambda>pid t. str_nat pid @ tab @ t) ids docs)"
    using line by (intro text_lines_unlines) auto
  moreover have "res_map iter_collection_line (map (\<lambda>l. l @ nl) (map2 (\<lambda>pid t. str_nat pid @ tab @ t) ids docs)) =
     Inr (map (\<lambda>(i, t). (int i, t)) (zip ids docs))"
    using corpus_line line by (intro res_map_lines) auto
  ultimately show ?thesis by (simp add: iter_collection_def zip_map1)
qed

lemma query_lines_read:
  assumes "list_all one_line qs"
  shows "read_queries (unlines (map (\<lambda>(q, t). str_nat (b + q) @ tab @ t) (enumerate 0 qs))) =
     Inr (zip (map (\<lambda>i. str_nat (b + i)) [0..<length qs]) qs)"
proof -
  let ?ps = "map (\<lambda>(q, t). (str_nat (b + q), t)) (enumerate 0 qs)"
  have line: "one_line t" if "(i, t) \<in> set (enumerate 0 qs)" for i t
    using that assms by (auto simp: list_all_iff in_set_enumerate_eq)
  have "read_queries (unlines (map (\<lambda>(q, t). str_nat (b + q) @ tab @ t) (enumerate 0 qs))) =
     Inr (foldl (\<lambda>d (q, t). dset d (str_nat (b + q)) t) [] (enumerate 0 qs))"
    unfolding read_queries_def
    by (rule text_fold_unlines) (use line query_tab_line in \<open>fastforce split: prod.splits\<close>)+
  also have "foldl (\<lambda>d (q, t). dset d (str_nat (b + q)) t) [] (enumerate 0 qs) = foldl (\<lambda>d (k, v). dset d k v) [] ?ps"
    by (simp add: foldl_map case_prod_unfold)
  also have "\<dots> = ?ps"
  proof -
    have "map fst ?ps = map (\<lambda>i. str_nat (b + i)) [0..<length qs]"
      by (rule nth_equalityI) (auto simp: nth_enumerate_eq)
    moreover have "distinct (map (\<lambda>i. str_nat (b + i)) [0..<length qs])"
      by (auto simp: distinct_map inj_on_def)
    ultimately have "distinct (map fst ?ps)" by (simp only:)
    then show ?thesis by (subst foldl_dset_distinct) auto
  qed
  also have "?ps = zip (map (\<lambda>i. str_nat (b + i)) [0..<length qs]) qs"
    by (rule nth_equalityI) (auto simp: nth_enumerate_eq)
  finally show ?thesis .
qed

theorem test_corpus_reads_back:
  assumes ok: "random_ok R" and run: "act_run (test_corpus R) g = (Inr (corpus, queries), g')"
  shows "\<exists>ids docs qs. iter_collection corpus = Inr (zip (map int ids) docs) \<and> length ids = 2500 \<and> length docs = 2500 \<and> gaps 0 ids \<and>
     read_queries queries = Inr (zip (map (\<lambda>i. str_nat (1000 + i)) [0..<300]) qs) \<and> length qs = 300"
proof -
  obtain words docs ids qs w1 w2 w3 w4
    where words: "act_run (vocabulary R) g = (Inr words, w1)"
      and docs: "act_run (gen_docs R words (zipf_weights (length words)) 2500) w1 = (Inr docs, w2)"
      and ids: "act_run (gen_ids R (length docs)) w2 = (Inr ids, w3)"
      and qs: "act_run (act_map (\<lambda>_. gen_query R words (zipf_weights (length words))) [0..<300]) w3 = (Inr qs, w4)"
      and files: "corpus = unlines (map2 (\<lambda>pid t. str_nat pid @ tab @ t) ids docs)"
        "queries = unlines (map (\<lambda>(q, t). str_nat (1000 + q) @ tab @ t) (enumerate 0 qs))"
    using run unfolding test_corpus_def Let_def act_bind_Inr act_run_of by blast
  have w: "list_all one_line words" "length (zipf_weights (length words)) = length words"
    using returnsD [OF vocabulary_lines [OF ok] words] by (simp_all add: zipf_weights_def)
  have d: "length docs = 2500 \<and> list_all one_line docs" by (rule returnsD [OF docs_lines [OF ok w] docs])
  have i: "length ids = length docs \<and> gaps 0 ids" by (rule returnsD [OF ids_increase [OF ok] ids])
  have q: "length qs = length [0..<300] \<and> list_all one_line qs"
    by (rule returnsD [OF returns_map_all [OF query_line [OF ok w]] qs])
  have "iter_collection corpus = Inr (zip (map int ids) docs)" unfolding files by (rule corpus_lines_read) (use d i in auto)
  moreover have "read_queries queries = Inr (zip (map (\<lambda>i. str_nat (1000 + i)) [0..<300]) qs)"
    using query_lines_read [of qs 1000] q unfolding files by simp
  ultimately show ?thesis using d i q by auto
qed

end
