(* ===== verification/Click_Models.thy ===== *)
theory Click_Models
  imports Py_Float
begin

text \<open>
  \<open>py/hybridsearch/clicks/models.py\<close> (user profiles, the position-based and the dynamic Bayesian click
  model, dwell times) and \<open>clicks/ab.py\<close> (impression metrics, tests and reports).  numpy's generator is
  the record \<open>rng_ops\<close> of the draws the code makes; the distribution functions of scipy
  (\<open>norm.sf\<close>, \<open>binom.cdf\<close>, \<open>chisquare\<close>) and \<open>np.quantile\<close> are arguments.  A NaN is None.  The lemmas
  give the examination behaviour of the DBN and the metrics of an impression.
\<close>

section \<open>Random draws\<close>

record 'g rng_ops =
  rg_random :: "'g \<Rightarrow> nat \<Rightarrow> real list \<times> 'g" \<comment> \<open>\<open>k\<close> uniform numbers in [0, 1)\<close>
  rg_integers :: "'g \<Rightarrow> nat \<Rightarrow> nat \<Rightarrow> nat list \<times> 'g" \<comment> \<open>\<open>k\<close> integers below a bound\<close>
  rg_normal :: "'g \<Rightarrow> nat \<Rightarrow> real list \<times> 'g" \<comment> \<open>\<open>k\<close> standard normal numbers\<close>
  rg_geometric :: "'g \<Rightarrow> real \<Rightarrow> nat \<times> 'g"
  rg_multinomial :: "'g \<Rightarrow> nat \<Rightarrow> real list \<Rightarrow> nat \<Rightarrow> nat list list \<times> 'g" \<comment> \<open>\<open>size\<close> draws of \<open>n\<close>\<close>
  rg_choice :: "'g \<Rightarrow> real list \<Rightarrow> nat \<times> 'g"

definition uniform_draws :: "'g rng_ops \<Rightarrow> bool" where
  \<comment> \<open>what numpy documents of \<open>rng.random(k)\<close>\<close>
  "uniform_draws R = (\<forall>g k. length (fst (rg_random R g k)) = k \<and> list_all (\<lambda>u. 0 \<le> u \<and> u < 1) (fst (rg_random R g k)))"

fun split_rows :: "nat \<Rightarrow> nat \<Rightarrow> 'a list \<Rightarrow> 'a list list" where
  \<comment> \<open>the rows of an array of shape (n, k)\<close>
  "split_rows 0 k xs = []"
| "split_rows (Suc n) k xs = take k xs # split_rows n k (drop k xs)"

definition draw_below :: "'g rng_ops \<Rightarrow> nat \<Rightarrow> 'g \<Rightarrow> nat \<times> 'g" where
  "draw_below R n g = (let (xs, g') = rg_integers R g n 1 in (hd xs, g'))"

definition draw_uniform :: "'g rng_ops \<Rightarrow> 'g \<Rightarrow> real \<times> 'g" where
  "draw_uniform R g = (let (xs, g') = rg_random R g 1 in (hd xs, g'))"

section \<open>Profiles\<close>

type_synonym profile = "real list \<times> real list"

definition PROFILES :: "(string, profile) dict" where
  "PROFILES =
     [(''perfect'', ([0, 2/10, 4/10, 8/10, 1], [0, 0, 0, 0, 0])),
      (''navigational'', ([5/100, 3/10, 5/10, 7/10, 95/100], [2/10, 3/10, 5/10, 7/10, 9/10])),
      (''informational'', ([4/10, 6/10, 7/10, 8/10, 9/10], [1/10, 2/10, 3/10, 4/10, 5/10]))]"

definition DL_TO_TABLE :: "nat list" where
  "DL_TO_TABLE = [0, 1, 3, 4]"

definition dl_profile_arrays :: "string \<Rightarrow> profile res" where
  "dl_profile_arrays p =
     res_bind (dlookup PROFILES p) (\<lambda>(click, stop).
       Inr (map (\<lambda>i. click ! i) DL_TO_TABLE, map (\<lambda>i. stop ! i) DL_TO_TABLE))"

definition position_bias :: "nat \<Rightarrow> real \<Rightarrow> real list" where
  "position_bias k severity = map (\<lambda>r. (1 / real r) powr severity) [1..<k + 1]"

section \<open>Click models\<close>

record click_result =
  cr_clicks :: "bool list list"
  cr_satisfied :: "bool list list"
  cr_examined :: "bool list list"

datatype click_model =
    PBM string "real list" "real list" "real list"
  | DBN string "real list" "real list" real

definition lookup_grade :: "real list \<Rightarrow> int \<Rightarrow> real" where
  \<comment> \<open>one element of \<open>_lookup\<close>; a negative grade is an empty slot\<close>
  "lookup_grade table g = (if g \<ge> 0 then table ! nat (min g (int (length table) - 1)) else 0)"

definition pbm_row :: "real list \<Rightarrow> real list \<Rightarrow> real list \<Rightarrow> int list \<Rightarrow> real list \<Rightarrow> real list \<Rightarrow> real list \<Rightarrow>
    bool list \<times> bool list \<times> bool list" where
  "pbm_row alpha sigma eta grades u_ex u_at u_sat =
     (let examined = map2 (<) u_ex (take (length grades) eta);
          attracted = map2 (<) u_at (map (lookup_grade alpha) grades);
          clicks = map2 (\<and>) examined attracted
      in (clicks, map2 (\<and>) clicks (map2 (<) u_sat (map (lookup_grade sigma) grades)), examined))"

fun dbn_scan :: "real \<Rightarrow> bool \<Rightarrow> (real \<times> real \<times> real \<times> real \<times> real) list \<Rightarrow> (bool \<times> bool \<times> bool) list" where
  \<comment> \<open>the loop over positions: (alpha, sigma, u_click, u_sat, u_cont) to (click, satisfied, examined)\<close>
  "dbn_scan gamma e [] = []"
| "dbn_scan gamma e ((a, s, uc, us, ut) # r) =
     (let c = (e \<and> uc < a); sr = (c \<and> us < s)
      in (c, sr, e) # dbn_scan gamma (e \<and> \<not> sr \<and> ut < gamma) r)"

definition dbn_row :: "real list \<Rightarrow> real list \<Rightarrow> real \<Rightarrow> int list \<Rightarrow> real list \<Rightarrow> real list \<Rightarrow> real list \<Rightarrow>
    bool list \<times> bool list \<times> bool list" where
  "dbn_row alpha sigma gamma grades u_click u_sat u_cont =
     (let r = dbn_scan gamma True
                (zip (map (lookup_grade alpha) grades) (zip (map (lookup_grade sigma) grades)
                  (zip u_click (zip u_sat u_cont))))
      in (map fst r, map (fst \<circ> snd) r, map (snd \<circ> snd) r))"

definition simulate :: "'g rng_ops \<Rightarrow> click_model \<Rightarrow> int list list \<Rightarrow> nat \<Rightarrow> 'g \<Rightarrow> click_result \<times> 'g" where
  \<comment> \<open>\<open>grades\<close> is an (n, k) array; both models draw three (n, k) arrays of uniform numbers in order\<close>
  "simulate R m grades k g =
     (let n = length grades;
          (u1, g1) = rg_random R g (n * k); (u2, g2) = rg_random R g1 (n * k); (u3, g3) = rg_random R g2 (n * k);
          us = zip (split_rows n k u1) (zip (split_rows n k u2) (split_rows n k u3));
          rs = map2 (\<lambda>gr (a, b, c). case m of
                   PBM _ alpha sigma eta \<Rightarrow> pbm_row alpha sigma eta gr a b c
                 | DBN _ alpha sigma gamma \<Rightarrow> dbn_row alpha sigma gamma gr a b c) grades us
      in (\<lparr>cr_clicks = map fst rs, cr_satisfied = map (fst \<circ> snd) rs, cr_examined = map (snd \<circ> snd) rs\<rparr>, g3))"

definition make_model :: "string \<Rightarrow> string \<Rightarrow> nat \<Rightarrow> real \<Rightarrow> real \<Rightarrow> click_model res" where
  "make_model kind profile k severity gamma =
     res_bind (dl_profile_arrays profile) (\<lambda>(alpha, sigma).
       let name = kind @ ''-'' @ profile in
       if kind = ''pbm'' then Inr (PBM name alpha sigma (position_bias k severity))
       else if kind = ''cascade'' then Inr (DBN name alpha sigma 1)
       else if kind = ''dbn'' then Inr (DBN name alpha sigma gamma)
       else Inl ValueError)"

definition ALL_MODELS :: "(string \<times> string) list" where
  "ALL_MODELS = concat (map (\<lambda>k. map (\<lambda>p. (k, p)) [''perfect'', ''navigational'', ''informational''])
     [''pbm'', ''cascade'', ''dbn''])"

definition model_name :: "click_model \<Rightarrow> string" where
  "model_name m = (case m of PBM n _ _ _ \<Rightarrow> n | DBN n _ _ _ \<Rightarrow> n)"

definition sample_dwell_ms :: "'g rng_ops \<Rightarrow> bool list \<Rightarrow> 'g \<Rightarrow> int list \<times> 'g" where
  "sample_dwell_ms R satisfied g =
     (let (zs, g') = rg_normal R g (length satisfied)
      in (map2 (\<lambda>s z. round_half_even ((if s then 60000 else 8000) * exp (6/10 * z))) satisfied zs, g'))"

section \<open>Impression metrics\<close>

fun first_true :: "bool list \<Rightarrow> nat" where
  \<comment> \<open>\<open>np.argmax\<close> of a boolean row: 0 when no element is true\<close>
  "first_true [] = 0"
| "first_true (b # r) = (if b then 0 else if True \<in> set r then Suc (first_true r) else 0)"

definition n_clicks :: "bool list \<Rightarrow> nat" where
  "n_clicks row = length (filter (\<lambda>c. c) row)"

definition METRICS :: "string list" where
  "METRICS = [''ctr'', ''clicks_at_1'', ''abandonment'', ''rr_first'']"

definition HIGHER_IS_BETTER :: "(string, bool) dict" where
  "HIGHER_IS_BETTER = [(''ctr'', True), (''clicks_at_1'', True), (''abandonment'', False), (''rr_first'', True)]"

definition impression_metrics :: "bool list list \<Rightarrow> (string, real list) dict" where
  \<comment> \<open>of an (n, k) array with \<open>0 < k\<close>\<close>
  "impression_metrics clicks =
     [(''ctr'', map (\<lambda>r. real (n_clicks r)) clicks),
      (''clicks_at_1'', map (\<lambda>r. if hd r then 1 else 0) clicks),
      (''abandonment'', map (\<lambda>r. if True \<in> set r then 0 else 1) clicks),
      (''rr_first'', map (\<lambda>r. if True \<in> set r then 1 / (real (first_true r) + 1) else 0) clicks)]"

section \<open>Tests and reports\<close>

definition var1 :: "real list \<Rightarrow> real" where
  \<comment> \<open>\<open>x.var(ddof=1)\<close>\<close>
  "var1 xs = sum_list (map (\<lambda>x. (x - mean xs) ^ 2) xs) / (real (length xs) - 1)"

definition welch_p :: "(real \<Rightarrow> real) \<Rightarrow> real \<Rightarrow> real \<Rightarrow> real \<Rightarrow> real \<Rightarrow> real \<Rightarrow> real \<Rightarrow> real" where
  "welch_p sf m1 v1 n1 m2 v2 n2 =
     (let se = sqrt (v1 / n1 + v2 / n2)
      in if se > 0 then 2 * sf \<bar>(m2 - m1) / se\<bar> else if m1 = m2 then 1 else 0)"

definition sign_test_p :: "(nat \<Rightarrow> nat \<Rightarrow> real) \<Rightarrow> nat \<Rightarrow> nat \<Rightarrow> real" where
  \<comment> \<open>\<open>cdf k n\<close> is \<open>binom.cdf(k, n, 0.5)\<close>\<close>
  "sign_test_p cdf wins losses =
     (let n = wins + losses in if n > 0 then min 1 (2 * cdf (min wins losses) n) else 1)"

definition one_sample_p :: "(real \<Rightarrow> real) \<Rightarrow> real \<Rightarrow> real \<Rightarrow> real \<Rightarrow> real" where
  "one_sample_p sf m v n =
     (let se = sqrt (v / n) in if se > 0 then 2 * sf \<bar>m / se\<bar> else if m = 0 then 1 else 0)"

definition unique_counts :: "real list \<Rightarrow> (real \<times> nat) list" where
  \<comment> \<open>\<open>np.unique(x, return_counts=True)\<close>\<close>
  "unique_counts xs = map (\<lambda>v. (v, length (filter (\<lambda>x. x = v) xs))) (sort (remdups xs))"

definition boot_means :: "'g rng_ops \<Rightarrow> real list \<Rightarrow> nat \<Rightarrow> 'g \<Rightarrow> real list \<times> 'g" where
  "boot_means R xs n_boot g =
     (let u = unique_counts xs; n = length xs in
      if length u \<le> 256 then
        (let (draws, g') = rg_multinomial R g n (map (\<lambda>(_, c). real c / real n) u) n_boot
         in (map (\<lambda>d. sum_list (map2 (\<lambda>c (v, _). real c * v) d u) / real n) draws, g'))
      else
        (let (idx, g') = rg_integers R g n (n_boot * n)
         in (map (\<lambda>row. mean (map (\<lambda>i. xs ! i) row)) (split_rows n_boot n idx), g')))"

type_synonym ci = "(real \<times> real) option"

definition bootstrap_mean_ci :: "(real list \<Rightarrow> real \<Rightarrow> real) \<Rightarrow> 'g rng_ops \<Rightarrow> real list \<Rightarrow> 'g \<Rightarrow> nat \<Rightarrow> real \<Rightarrow> ci \<times> 'g" where
  "bootstrap_mean_ci quantile R xs g n_boot alpha =
     (if xs = [] then (None, g)
      else let (means, g') = boot_means R xs n_boot g
           in (Some (quantile means (alpha / 2), quantile means (1 - alpha / 2)), g'))"

definition bootstrap_diff_ci :: "(real list \<Rightarrow> real \<Rightarrow> real) \<Rightarrow> 'g rng_ops \<Rightarrow> real list \<Rightarrow> real list \<Rightarrow> 'g \<Rightarrow> nat \<Rightarrow>
    real \<Rightarrow> ci \<times> 'g" where
  "bootstrap_diff_ci quantile R xa xb g n_boot alpha =
     (if xa = [] \<or> xb = [] then (None, g)
      else let (ma, g1) = boot_means R xa n_boot g; (mb, g2) = boot_means R xb n_boot g1;
               ds = map2 (-) mb ma
           in (Some (quantile ds (alpha / 2), quantile ds (1 - alpha / 2)), g2))"

record metric_report =
  mr_a :: "real option"
  mr_b :: "real option"
  mr_delta :: "real option"
  mr_ci :: ci
  mr_p :: "real option"
  mr_higher :: bool

record ab_result =
  abr_n_a :: nat
  abr_n_b :: nat
  abr_metrics :: "(string, metric_report) dict"

definition ab_metric :: "(real \<Rightarrow> real) \<Rightarrow> (real list \<Rightarrow> real \<Rightarrow> real) \<Rightarrow> 'g rng_ops \<Rightarrow> nat \<Rightarrow> string \<Rightarrow> real list \<Rightarrow> real list \<Rightarrow>
    'g \<Rightarrow> metric_report \<times> 'g" where
  "ab_metric sf quantile R n_boot m xa xb g =
     (let p = (if length xa > 1 \<and> length xb > 1
               then Some (welch_p sf (mean xa) (var1 xa) (length xa) (mean xb) (var1 xb) (length xb)) else None);
          (c, g') = bootstrap_diff_ci quantile R xa xb g n_boot (5/100)
      in (\<lparr>mr_a = (if xa \<noteq> [] then Some (mean xa) else None), mr_b = (if xb \<noteq> [] then Some (mean xb) else None),
           mr_delta = (if xa \<noteq> [] \<and> xb \<noteq> [] then Some (mean xb - mean xa) else None),
           mr_ci = c, mr_p = p, mr_higher = dget HIGHER_IS_BETTER m False\<rparr>, g'))"

fun ab_metrics_loop :: "(real \<Rightarrow> real) \<Rightarrow> (real list \<Rightarrow> real \<Rightarrow> real) \<Rightarrow> 'g rng_ops \<Rightarrow> nat \<Rightarrow> (string, real list) dict \<Rightarrow>
    (string, real list) dict \<Rightarrow> string list \<Rightarrow> 'g \<Rightarrow> (string, metric_report) dict \<times> 'g" where
  "ab_metrics_loop sf quantile R n_boot ma mb [] g = ([], g)"
| "ab_metrics_loop sf quantile R n_boot ma mb (m # ms) g =
     (let (r, g1) = ab_metric sf quantile R n_boot m (dget ma m []) (dget mb m []) g;
          (rs, g2) = ab_metrics_loop sf quantile R n_boot ma mb ms g1
      in ((m, r) # rs, g2))"

definition ab_report :: "(real \<Rightarrow> real) \<Rightarrow> (real list \<Rightarrow> real \<Rightarrow> real) \<Rightarrow> 'g rng_ops \<Rightarrow> nat \<Rightarrow> bool list list \<Rightarrow> bool list list \<Rightarrow>
    'g \<Rightarrow> ab_result \<times> 'g" where
  "ab_report sf quantile R n_boot clicks_a clicks_b g =
     (let (ms, g') = ab_metrics_loop sf quantile R n_boot (impression_metrics clicks_a) (impression_metrics clicks_b) METRICS g
      in (\<lparr>abr_n_a = length clicks_a, abr_n_b = length clicks_b, abr_metrics = ms\<rparr>, g'))"

record interleave_result =
  ir_impressions :: nat
  ir_wins_a :: nat
  ir_wins_b :: nat
  ir_ties :: nat
  ir_delta_ab :: "real option"
  ir_ci :: ci
  ir_p_sign :: real

definition interleave_report :: "(nat \<Rightarrow> nat \<Rightarrow> real) \<Rightarrow> (real list \<Rightarrow> real \<Rightarrow> real) \<Rightarrow> 'g rng_ops \<Rightarrow> nat \<Rightarrow> real list \<Rightarrow> 'g \<Rightarrow>
    interleave_result \<times> 'g" where
  "interleave_report cdf quantile R n_boot outcomes g =
     (let w = length (filter (\<lambda>x. x > 0) outcomes); l = length (filter (\<lambda>x. x < 0) outcomes);
          t = length (filter (\<lambda>x. x = 0) outcomes); n = length outcomes;
          delta = (if n \<noteq> 0 then Some ((real w + real t / 2) / real n - 1 / 2) else None);
          (c, g') = (if n \<noteq> 0 then bootstrap_mean_ci quantile R (map (\<lambda>x. max (- 1) (min x 1) / 2) outcomes) g n_boot (5/100)
                     else (None, g))
      in (\<lparr>ir_impressions = n, ir_wins_a = w, ir_wins_b = l, ir_ties = t, ir_delta_ab = delta, ir_ci = c,
           ir_p_sign = sign_test_p cdf w l\<rparr>, g'))"

record srm_result =
  srm_counts :: "nat list"
  srm_expected :: "real list"
  srm_chi2 :: real
  srm_p :: real
  srm_flag :: bool
  srm_threshold :: real

definition srm_check :: "(real list \<Rightarrow> real list \<Rightarrow> real \<times> real) \<Rightarrow> nat list \<Rightarrow> real list \<Rightarrow> real \<Rightarrow> srm_result" where
  "srm_check chisquare counts expected_fractions threshold =
     (let cs = map real counts;
          ex = map (\<lambda>x. x / sum_list expected_fractions * sum_list cs) expected_fractions;
          (chi2, p) = chisquare cs ex
      in \<lparr>srm_counts = counts, srm_expected = ex, srm_chi2 = chi2, srm_p = p, srm_flag = p < threshold, srm_threshold = threshold\<rparr>)"

section \<open>Examination in the DBN\<close>

lemma dbn_scan_length [simp]: "length (dbn_scan gamma e xs) = length xs"
  by (induction xs arbitrary: e) (auto simp: Let_def)

text \<open>Examination starts as given and stops for good.\<close>

lemma dbn_scan_first: "xs \<noteq> [] \<Longrightarrow> snd (snd (dbn_scan gamma e xs ! 0)) = e"
  by (cases xs) (auto simp: Let_def)

lemma dbn_scan_step:
  assumes "Suc r < length xs"
  shows "snd (snd (dbn_scan gamma e xs ! Suc r)) =
     (snd (snd (dbn_scan gamma e xs ! r)) \<and> \<not> fst (snd (dbn_scan gamma e xs ! r)) \<and>
      snd (snd (snd (snd (xs ! r)))) < gamma)"
  using assms
proof (induction xs arbitrary: e r)
  case (Cons x xs)
  obtain a s uc us ut where x: "x = (a, s, uc, us, ut)" by (metis prod_cases5)
  show ?case
  proof (cases r)
    case 0
    then show ?thesis using Cons.prems dbn_scan_first [of xs] by (auto simp: x Let_def)
  next
    case (Suc r')
    then show ?thesis using Cons by (simp add: x Let_def)
  qed
qed simp

lemma dbn_scan_at:
  assumes "r < length xs"
  shows "fst (dbn_scan gamma e xs ! r) = (snd (snd (dbn_scan gamma e xs ! r)) \<and> fst (snd (snd (xs ! r))) < fst (xs ! r))"
    and "fst (snd (dbn_scan gamma e xs ! r)) = (fst (dbn_scan gamma e xs ! r) \<and> fst (snd (snd (snd (xs ! r)))) < fst (snd (xs ! r)))"
  using assms
proof (induction xs arbitrary: e r)
  case (Cons x xs)
  obtain a s uc us ut where x: "x = (a, s, uc, us, ut)" by (metis prod_cases5)
  case 1 show ?case using Cons(1) 1 by (cases r) (simp_all add: x Let_def)
next
  case (Cons x xs)
  obtain a s uc us ut where x: "x = (a, s, uc, us, ut)" by (metis prod_cases5)
  case 2 show ?case using Cons(2) 2 by (cases r) (simp_all add: x Let_def)
qed simp_all

text \<open>The DBN reads a result page from the top: position 0 is examined; a position is examined
  exactly when the one before it was, that one did not satisfy the user and the user went on; only
  examined positions are clicked, only clicked ones satisfy, and an empty slot (a negative grade) is
  never clicked.\<close>

theorem dbn_examination:
  assumes "dbn_row alpha sigma gamma grades u_click u_sat u_cont = (clicks, sat, examined)"
    and "length u_click = length grades" and "length u_sat = length grades" and "length u_cont = length grades"
    and "list_all (\<lambda>u. 0 \<le> u) u_click" and "r < length grades"
  shows "(examined ! r \<longleftrightarrow> r = 0 \<or> (examined ! (r - 1) \<and> \<not> sat ! (r - 1) \<and> u_cont ! (r - 1) < gamma)) \<and>
     (clicks ! r \<longrightarrow> examined ! r \<and> 0 \<le> grades ! r) \<and> (sat ! r \<longrightarrow> clicks ! r)"
proof -
  define xs where "xs = zip (map (lookup_grade alpha) grades) (zip (map (lookup_grade sigma) grades)
      (zip u_click (zip u_sat u_cont)))"
  have len: "length xs = length grades" using assms(2-4) by (simp add: xs_def)
  have x: "xs ! i = (lookup_grade alpha (grades ! i), lookup_grade sigma (grades ! i), u_click ! i, u_sat ! i, u_cont ! i)"
    if "i < length grades" for i using that assms(2-4) by (simp add: xs_def)
  have o: "clicks ! i = fst (dbn_scan gamma True xs ! i)" "sat ! i = fst (snd (dbn_scan gamma True xs ! i))"
    "examined ! i = snd (snd (dbn_scan gamma True xs ! i))" if "i < length grades" for i
    using assms(1) that len by (auto simp: dbn_row_def Let_def simp flip: xs_def)
  have ex: "examined ! r \<longleftrightarrow> r = 0 \<or> (examined ! (r - 1) \<and> \<not> sat ! (r - 1) \<and> u_cont ! (r - 1) < gamma)"
  proof (cases r)
    case 0
    have "xs \<noteq> []" using assms(6) len by auto
    then show ?thesis using dbn_scan_first [of xs gamma True] o(3) [OF assms(6)] 0 by simp
  next
    case (Suc i)
    then have i: "i < length grades" "Suc i < length xs" using assms(6) len by simp_all
    show ?thesis using dbn_scan_step [OF i(2), of gamma True] o [OF i(1)] o(3) [OF assms(6)] x [OF i(1)] Suc by simp
  qed
  have at: "clicks ! r = (examined ! r \<and> u_click ! r < lookup_grade alpha (grades ! r))" "sat ! r \<longrightarrow> clicks ! r"
    using dbn_scan_at [of r xs gamma True] o [OF assms(6)] x [OF assms(6)] len assms(6) by auto
  have "0 \<le> u_click ! r" using assms(2,5,6) by (simp add: list_all_length)
  then have "clicks ! r \<longrightarrow> 0 \<le> grades ! r" using at(1) by (auto simp: lookup_grade_def split: if_splits)
  then show ?thesis using ex at by blast
qed

theorem dbn_examination_witness:
  "\<exists>clicks sat examined. dbn_row [0, 1] [0, 1] 1 [1, 1] [0, 0] [1 / 2, 0] [0, 0] = (clicks, sat, examined) \<and> \<not> examined ! 1"
proof -
  obtain clicks sat examined where o: "dbn_row [0, 1] [0, 1] 1 [1, 1] [0, 0] [1 / 2, 0] [0, 0] = (clicks, sat, examined)"
    by (metis prod_cases3)
  have s: "sat ! 0" using o by (auto simp: dbn_row_def Let_def lookup_grade_def)
  from dbn_examination [OF o, of 1] show ?thesis using o s by auto
qed

lemma first_true_props:
  "True \<in> set r \<Longrightarrow> first_true r < length r \<and> r ! first_true r \<and> (\<forall>j < first_true r. \<not> r ! j)"
proof (induction r)
  case (Cons b r)
  show ?case
  proof (cases b)
    case False
    then have "True \<in> set r" using Cons.prems by auto
    then show ?thesis using Cons.IH False by (auto simp: less_Suc_eq_0_disj)
  qed simp
qed simp

lemma n_clicks_zero: "n_clicks r = 0 \<longleftrightarrow> True \<notin> set r"
  by (auto simp: n_clicks_def filter_empty_conv)

text \<open>The interleaving statistic is \<open>Delta_AB = P(A wins) + P(tie) / 2 - 1 / 2 = (wins_a - wins_b) / (2 n)\<close>,
  a number between -1/2 and 1/2, and wins, losses and ties account for every impression.\<close>

theorem interleave_delta:
  assumes "outcomes \<noteq> []" and "interleave_report cdf quantile R n_boot outcomes g = (rep, g')"
  shows "ir_delta_ab rep = Some ((real (ir_wins_a rep) - real (ir_wins_b rep)) / (2 * real (ir_impressions rep))) \<and>
     ir_wins_a rep + ir_wins_b rep + ir_ties rep = ir_impressions rep \<and>
     \<bar>the (ir_delta_ab rep)\<bar> \<le> 1 / 2"
proof -
  let ?w = "length (filter (\<lambda>x. x > 0) outcomes)" and ?l = "length (filter (\<lambda>x. x < 0) outcomes)"
    and ?t = "length (filter (\<lambda>x. x = 0) outcomes)" and ?n = "length outcomes"
  have sum: "?w + ?l + ?t = ?n"
  proof -
    have "length (filter (\<lambda>x. x > 0) xs) + length (filter (\<lambda>x. x < 0) xs) + length (filter (\<lambda>x. x = 0) xs) = length xs"
      for xs :: "real list" by (induction xs) auto
    then show ?thesis .
  qed
  have rep: "ir_wins_a rep = ?w" "ir_wins_b rep = ?l" "ir_ties rep = ?t" "ir_impressions rep = ?n"
    "ir_delta_ab rep = Some ((real ?w + real ?t / 2) / real ?n - 1 / 2)"
    using assms by (auto simp: interleave_report_def Let_def split: prod.splits)
  have n: "0 < real ?n" using assms(1) by simp
  have s: "real ?n = real ?w + real ?l + real ?t" using sum by linarith
  have d: "(real ?w + real ?t / 2) / real ?n - 1 / 2 = (real ?w - real ?l) / (2 * real ?n)"
    using n s by (simp add: field_simps)
  have "\<bar>real ?w - real ?l\<bar> \<le> real ?n" using s by linarith
  then have "\<bar>(real ?w - real ?l) / (2 * real ?n)\<bar> \<le> 1 / 2" using n by (simp add: abs_divide divide_simps)
  then show ?thesis using rep d sum by simp
qed

theorem interleave_delta_witness:
  "\<exists>rep g'. interleave_report (\<lambda>k n. 1) (\<lambda>xs q. 0)
       \<lparr>rg_random = \<lambda>g k. (replicate k 0, g), rg_integers = \<lambda>g h k. (replicate k 0, g), rg_normal = \<lambda>g k. (replicate k 0, g),
        rg_geometric = \<lambda>g p. (1, g), rg_multinomial = \<lambda>g n ps k. (replicate k [n], g), rg_choice = \<lambda>g ps. (0, g)\<rparr>
       10 [1, 0, 1, - 1] () = (rep, g') \<and> ir_delta_ab rep = Some (1 / 8)"
proof -
  let ?R = "\<lparr>rg_random = \<lambda>g k. (replicate k 0, g), rg_integers = \<lambda>g h k. (replicate k 0, g), rg_normal = \<lambda>g k. (replicate k 0, g),
        rg_geometric = \<lambda>g p. (1, g), rg_multinomial = \<lambda>g n ps k. (replicate k [n], g), rg_choice = \<lambda>g ps. (0, g)\<rparr> :: unit rng_ops"
  obtain rep g' where o: "interleave_report (\<lambda>k n. 1) (\<lambda>xs q. 0) ?R 10 [1, 0, 1, - 1] () = (rep, g')"
    by (metis prod.exhaust)
  then have "ir_wins_a rep = 2" "ir_wins_b rep = 1" "ir_impressions rep = 4"
    by (auto simp: interleave_report_def Let_def split: prod.splits)
  then show ?thesis using interleave_delta [OF _ o] o by auto
qed

end
