(* ===== verification/Rankers.thy ===== *)
theory Rankers
    imports Click_Models Data_IO
begin

text \<open>
    \<open>py/hybridsearch/clicks/rankers.py\<close>: judgments and runs for the simulations, the order of a run,
    reciprocal rank fusion of runs, synthetic rankers, a second nDCG and the table of rankers.  A file
    system is a list of paths with their contents (absent: the path is not in it).  Ids that are
    decimal strings are compared as numbers, and comparing a number with a string raises TypeError; the
    type \<open>id_key\<close> with its order stands for the mixed key.
\<close>

section \<open>Files\<close>

type_synonym files = "(string, string) dict"

definition first_existing :: "files \<Rightarrow> string list \<Rightarrow> string option" where
    \<comment> \<open>the first path that exists and is not empty\<close>
    "first_existing fs paths =
          (case filter (\<lambda>p. dget fs p [] \<noteq> []) paths of [] \<Rightarrow> None | p # _ \<Rightarrow> Some p)"

record provenance =
    pv_path :: string
    pv_topics :: nat
    pv_judgments :: nat

definition merge_qrels :: "files \<Rightarrow> qrels \<times> (string, provenance) dict \<Rightarrow> string \<times> string list \<Rightarrow>
        (qrels \<times> (string, provenance) dict) res" where
    "merge_qrels fs st np =
          (let (merged, prov) = st; (name, paths) = np in
            case first_existing fs paths of
                None \<Rightarrow> Inl FileNotFoundError
            | Some p \<Rightarrow>
                    res_bind (read_qrels (dget fs p [])) (\<lambda>q.
                        if set (keys q) \<inter> set (keys merged) \<noteq> {} then Inl ValueError
                        else Inr (foldl (\<lambda>m (k, v). dset m k v) merged q,
                                            dset prov name \<lparr>pv_path = p, pv_topics = length q,
                                                pv_judgments = sum_list (map (\<lambda>(_, v). length v) q)\<rparr>)))"

definition load_dl_qrels :: "files \<Rightarrow> (string \<times> string list) list \<Rightarrow> (qrels \<times> (string, provenance) dict) res" where
    \<comment> \<open>over \<open>QRELS_PATHS\<close>\<close>
    "load_dl_qrels fs qrels_paths = res_fold (merge_qrels fs) ([], []) qrels_paths"

definition load_query_line :: "(qid, string) dict \<Rightarrow> string \<Rightarrow> (qid, string) dict" where
    "load_query_line out line =
          (case split1 TAB (rstrip_nl line) of
                Some (q, t) \<Rightarrow> dset out q t
            | None \<Rightarrow> out)"

definition load_dl_queries :: "files \<Rightarrow> string list list \<Rightarrow> (qid, string) dict" where
    \<comment> \<open>over the values of \<open>QUERY_PATHS\<close>; a compressed file stands for its text\<close>
    "load_dl_queries fs query_paths =
          foldl (\<lambda>out paths. case first_existing fs paths of
                  None \<Rightarrow> out
              | Some p \<Rightarrow> foldl load_query_line out (text_lines (dget fs p []))) [] query_paths"

section \<open>The order of a run\<close>

datatype id_key = Num nat | Str string

instantiation id_key :: linorder
begin

fun less_eq_id_key :: "id_key \<Rightarrow> id_key \<Rightarrow> bool" where
    "less_eq_id_key (Num m) (Num n) = (m \<le> n)"
| "less_eq_id_key (Num m) (Str t) = True"
| "less_eq_id_key (Str s) (Num n) = False"
| "less_eq_id_key (Str s) (Str t) = (s \<le> t)"

definition less_id_key :: "id_key \<Rightarrow> id_key \<Rightarrow> bool" where
    "less_id_key x y = (x \<le> y \<and> \<not> y \<le> x)"

instance
proof
    fix x y z :: id_key
    show "x < y \<longleftrightarrow> x \<le> y \<and> \<not> y \<le> x" by (rule less_id_key_def)
    show "x \<le> x" by (cases x) simp_all
    show "x \<le> y \<Longrightarrow> y \<le> z \<Longrightarrow> x \<le> z" by (cases x; cases y; cases z) auto
    show "x \<le> y \<Longrightarrow> y \<le> x \<Longrightarrow> x = y" by (cases x; cases y) auto
    show "x \<le> y \<or> y \<le> x" by (cases x; cases y) auto
qed

end

definition rank_id :: "docid \<Rightarrow> id_key" where
    \<comment> \<open>\<open>int(d) if d.isdigit() else d\<close>\<close>
    "rank_id d = (if isdigit d then Num (nat_of_digits d) else Str d)"

definition mixed_tie :: "(docid, real) dict \<Rightarrow> bool" where
    \<comment> \<open>two documents of equal score whose ids cannot be compared\<close>
    "mixed_tie run_q = (\<exists>(d, s) \<in> set run_q. \<exists>(e, t) \<in> set run_q. s = t \<and> isdigit d \<and> \<not> isdigit e)"

definition ranked :: "(docid, real) dict \<Rightarrow> docid list res" where
    "ranked run_q =
          (if mixed_tie run_q then Inl TypeError
            else Inr (map fst (py_sorted (\<lambda>(d, s). (- s, rank_id d)) run_q)))"

definition run_name :: "string \<Rightarrow> (string \<times> string) option" where
    \<comment> \<open>\<open>(.+)\.(dl19|dl20)\.trec$\<close> on a file name\<close>
    "run_name f =
          (let n = length f - 10; h = take n f; t = drop n f in
            if h = [] then None
            else if t = ''.dl19.trec'' then Some (h, ''dl19'')
            else if t = ''.dl20.trec'' then Some (h, ''dl20'') else None)"

definition discover_real_runs :: "(string \<times> string) list \<Rightarrow> (string, run) dict res" where
    \<comment> \<open>of the \<open>*.trec\<close> files found, as (file name, contents) pairs in directory order\<close>
    "discover_real_runs found_files =
          (let found = foldl (\<lambda>fd (f, text). case run_name f of
                          Some (name, part) \<Rightarrow> if text \<noteq> [] then dset fd name (dset (dget fd name []) part text) else fd
                      | None \<Rightarrow> fd) [] found_files;
                    both = filter (\<lambda>(name, parts). dhas parts ''dl19'' \<and> dhas parts ''dl20'') (py_sorted fst found)
            in res_map (\<lambda>(name, parts).
                      res_bind (read_run (dget parts ''dl19'' [])) (\<lambda>r1.
                          res_bind (read_run (dget parts ''dl20'' [])) (\<lambda>r2.
                              Inr (name, foldl (\<lambda>m (q, v). dset m q v) r1 r2)))) both)"

definition rrf_query :: "int \<Rightarrow> nat \<Rightarrow> run list \<Rightarrow> qid \<Rightarrow> (docid, real) dict res" where
    "rrf_query k depth runs q =
          res_fold (\<lambda>acc r.
                  res_bind (ranked (dget r q [])) (\<lambda>ds.
                      Inr (foldl (\<lambda>acc (rank, d). dset acc d (dget acc d 0 + 1 / (real_of_int k + real rank))) acc
                                    (enumerate 1 (take depth ds))))) [] runs"

definition rrf_runs :: "(qid list \<Rightarrow> qid list) \<Rightarrow> run list \<Rightarrow> int \<Rightarrow> nat \<Rightarrow> run res" where
    \<comment> \<open>\<open>so\<close> is the iteration order of the set of query ids\<close>
    "rrf_runs so runs k depth =
          res_map (\<lambda>q. res_bind (rrf_query k depth runs q) (\<lambda>acc. Inr (q, acc))) (so (concat (map keys runs)))"

definition filler_docs :: "qid \<Rightarrow> nat \<Rightarrow> docid list" where
    "filler_docs q n = map (\<lambda>i. ''syn'' @ q @ ''_'' @ str_nat i) [0..<n]"

definition noisy_scores :: "real \<Rightarrow> qrel \<Rightarrow> docid list \<Rightarrow> real list \<Rightarrow> real list" where
    "noisy_scores sigma qrel docs zs = map2 (\<lambda>d z. real_of_int (dget qrel d 0) + sigma * z) docs zs"

definition top_scores :: "nat \<Rightarrow> docid list \<Rightarrow> real list \<Rightarrow> (docid, real) dict" where
    "top_scores depth docs s =
          dict_of (map (\<lambda>i. (docs ! i, s ! i)) (take depth (py_sorted (\<lambda>i. - (s ! i)) [0..<length s])))"

fun noisy_queries :: "'g rng_ops \<Rightarrow> qrels \<Rightarrow> real \<Rightarrow> nat \<Rightarrow> nat \<Rightarrow> qid list \<Rightarrow> 'g \<Rightarrow> run" where
    "noisy_queries R qrels sigma n_fillers depth [] g = []"
| "noisy_queries R qrels sigma n_fillers depth (q # qs) g =
          (let docs = keys (dget qrels q []) @ filler_docs q n_fillers;
                    (zs, g') = rg_normal R g (length docs)
            in (q, top_scores depth docs (noisy_scores sigma (dget qrels q []) docs zs)) # noisy_queries R qrels sigma n_fillers depth qs g')"

definition int_sorted :: "qid list \<Rightarrow> qid list res" where
    \<comment> \<open>\<open>sorted(qids, key=lambda x: int(x))\<close>\<close>
    "int_sorted qs =
          res_bind (res_map (\<lambda>q. res_bind (int_of q) (\<lambda>n. Inr (n, q))) qs) (\<lambda>ps. Inr (map snd (py_sorted fst ps)))"

lemma int_sorted_mset:
  assumes "int_sorted qs = Inr rs"
  shows "mset rs = mset qs"
proof -
  obtain ps where ps: "res_map (\<lambda>q. res_bind (int_of q) (\<lambda>n. Inr (n, q))) qs = Inr ps" "rs = map snd (py_sorted fst ps)"
    using assms by (auto simp: int_sorted_def)
  have "map snd ps = qs" using ps(1) by (induction qs arbitrary: ps) auto
  then show ?thesis using ps(2) by (metis mset_map sorted_asc.rank_mset)
qed

definition synthetic_noisy_oracle :: "'g rng_ops \<Rightarrow> qrels \<Rightarrow> real \<Rightarrow> 'g \<Rightarrow> nat \<Rightarrow> nat \<Rightarrow> run res" where
    "synthetic_noisy_oracle R qrels sigma g n_fillers depth =
          res_bind (int_sorted (keys qrels)) (\<lambda>qs. Inr (noisy_queries R qrels sigma n_fillers depth qs g))"

section \<open>Metrics and the table\<close>

definition discounts :: "nat \<Rightarrow> real list" where
    "discounts k = map (\<lambda>i. 1 / log 2 (real i)) [2..<k + 2]"

definition ndcg_table :: "docid list \<Rightarrow> qrel \<Rightarrow> nat \<Rightarrow> real" where
    \<comment> \<open>\<open>rankers.ndcg_at_k\<close>\<close>
    "ndcg_table lst judged k =
          (let gains = map (\<lambda>d. real_of_int (dget judged d 0)) (take k lst);
                    dcg = sum_list (map2 (*) gains (take (length gains) (discounts k)));
                    ideal = take k (rev (sort (map real_of_int (filter (\<lambda>g. g > 0) (map snd judged)))));
                    idcg = sum_list (map2 (*) ideal (take (length ideal) (discounts k)))
            in if idcg > 0 then dcg / idcg else 0)"

record ranker_table =
    rt_qids :: "qid list"
    rt_lists :: "(string, docid list list) dict"
    rt_qrels :: qrels
    rt_k :: nat

definition table_grades :: "ranker_table \<Rightarrow> string \<Rightarrow> int list list res" where
    "table_grades t ranker =
          res_bind (dlookup (rt_lists t) ranker) (\<lambda>lists.
              res_map (\<lambda>(q, lst). res_bind (dlookup (rt_qrels t) q) (\<lambda>j.
                      let row = map (\<lambda>d. dget j d 0) (take (rt_k t) lst)
                      in Inr (row @ replicate (rt_k t - length row) (- 1)))) (zip (rt_qids t) lists))"

definition table_ndcg :: "ranker_table \<Rightarrow> string \<Rightarrow> nat \<Rightarrow> real list res" where
    "table_ndcg t ranker k =
          res_bind (dlookup (rt_lists t) ranker) (\<lambda>lists.
              res_map (\<lambda>(q, lst). res_bind (dlookup (rt_qrels t) q) (\<lambda>j. Inr (ndcg_table lst j k))) (zip (rt_qids t) lists))"

definition build_table :: "(string, run) dict \<Rightarrow> qrels \<Rightarrow> nat \<Rightarrow> ranker_table res" where
    "build_table runs qrels k =
          res_bind (int_sorted (filter (\<lambda>q. \<forall>(_, r) \<in> set runs. dhas r q) (keys qrels))) (\<lambda>qids.
              res_bind (res_map (\<lambda>(name, r).
                      res_bind (res_map (\<lambda>q. res_bind (ranked (dget r q [])) (\<lambda>ds. Inr (take k ds))) qids) (\<lambda>ls. Inr (name, ls))) runs)
                  (\<lambda>lists. Inr \<lparr>rt_qids = qids, rt_lists = lists, rt_qrels = qrels, rt_k = k\<rparr>))"

section \<open>The order and the metric\<close>

lemma discounted_map2:
    "discounted i gs = sum_list (map2 (*) gs (map (\<lambda>j. 1 / log 2 (real j)) [i + 2..<i + 2 + length gs]))"
proof (induction gs arbitrary: i)
    case (Cons g gs)
    have "[i + 2..<i + 2 + length (g # gs)] = (i + 2) # [Suc i + 2..<Suc i + 2 + length gs]"
        by (subst upt_conv_Cons) simp_all
    then show ?case using Cons.IH [of "Suc i"] by (simp add: add.commute del: upt_Suc)
qed simp

lemma take_discounts: "n \<le> k \<Longrightarrow> take n (discounts k) = map (\<lambda>j. 1 / log 2 (real j)) [2..<2 + n]"
    by (simp add: discounts_def take_map take_upt add.commute del: upt_Suc)

lemma weighted_discounts:
    "length gs \<le> k \<Longrightarrow> sum_list (map2 (*) gs (take (length gs) (discounts k))) = discounted 0 gs"
    by (simp add: take_discounts discounted_map2 [of 0 gs] numeral_2_eq_2 del: upt_Suc)

lemma sort_of_int: "sort (map real_of_int xs) = map real_of_int (sort xs)"
    by (rule properties_for_sort) (simp_all add: sorted_map)

lemma py_sorted_rev_id: "py_sorted_rev (\<lambda>g. g) xs = rev (sort (xs :: int list))"
    unfolding py_sorted_rev_def by (rule arg_cong [of _ _ rev], rule properties_for_sort [symmetric]) simp_all

text \<open>The two nDCG implementations of the repository, the evaluator's and the one of the click
    simulations, return the same value for every ranking when no judged grade is negative.\<close>

theorem ndcg_table_is_ndcg:
    assumes "\<And>d g. (d, g) \<in> set judged \<Longrightarrow> 0 \<le> g"
    shows "ndcg_table lst judged k = ndcg_at_k lst judged k"
proof -
    have nn: "0 \<le> dget judged d 0" for d
    proof (cases "d \<in> set (keys judged)")
        case True
        then show ?thesis using dget_in assms by metis
    qed (simp add: dget_absent)
    let ?gs = "map (\<lambda>d. real_of_int (dget judged d 0)) (take k lst)"
    have g: "map (\<lambda>d. max 0 (real_of_int (dget judged d 0))) (take k lst) = ?gs"
        using nn by (intro map_cong) auto
    have dcg: "sum_list (map2 (*) ?gs (take (length ?gs) (discounts k))) = dcg_scan 0 (take k lst) judged 0"
        by (subst weighted_discounts) (simp_all only: dcg_scan_discounted g length_map length_take min.cobounded2 add_0)
    let ?ps = "filter (\<lambda>g. g > 0) (map snd judged)"
    have ideal: "take k (rev (sort (map real_of_int ?ps))) = map real_of_int (ideal_gains judged k)"
        by (simp only: ideal_gains_def py_sorted_rev_id sort_of_int rev_map take_map)
    have idcg: "sum_list (map2 (*) (map real_of_int (ideal_gains judged k))
            (take (length (map real_of_int (ideal_gains judged k))) (discounts k))) = discounted 0 (map real_of_int (ideal_gains judged k))"
        by (rule weighted_discounts) (simp add: ideal_gains_def)
    show ?thesis
        unfolding ndcg_table_def ndcg_at_k_def Let_def dcg ideal idcg ..
qed

theorem ndcg_table_is_ndcg_witness:
    "ndcg_table [''a'', ''b''] [(''b'', 2), (''c'', 0)] 10 = ndcg_at_k [''a'', ''b''] [(''b'', 2), (''c'', 0)] 10"
    by (rule ndcg_table_is_ndcg) auto

lemma ranked_order:
    assumes "ranked run_q = Inr ds" and "dict_ok run_q"
    shows "distinct ds \<and> set ds = set (keys run_q)"
proof -
    have ds: "ds = map fst (py_sorted (\<lambda>(d, s). (- s, rank_id d)) run_q)"
        using assms(1) by (simp add: ranked_def split: if_splits)
    have "mset ds = mset (keys run_q)"
        unfolding ds by (metis mset_map sorted_asc.rank_mset)
    then show ?thesis using assms(2) by (metis mset_eq_imp_distinct_iff mset_eq_setD)
qed

end
