(* ===== verification/Significance.thy ===== *)
theory Significance
  imports Prelude
begin

text \<open>
  \<open>py/hybridsearch/stats/significance.py\<close>: alignment of two per-query results, the paired
  randomization test, the paired bootstrap interval, Holm's correction and the comparison of a family
  of system pairs.  numpy's generator is an argument: \<open>ints g hi k\<close> are the next \<open>k\<close> integers below
  \<open>hi\<close> and the state after them; \<open>np.quantile\<close> is an argument too.  The lemmas bound the p-value and
  show that the adjusted p-values implement Holm's sequential rejection.
\<close>

type_synonym qid = string

type_synonym 'g ints = "'g \<Rightarrow> nat \<Rightarrow> nat \<Rightarrow> nat list \<times> 'g"

definition int_source :: "'g ints \<Rightarrow> bool" where
  \<comment> \<open>what numpy documents of \<open>rng.integers(0, hi, size=k)\<close>\<close>
  "int_source ints = (\<forall>g hi k. 0 < hi \<longrightarrow> length (fst (ints g hi k)) = k \<and> list_all (\<lambda>x. x < hi) (fst (ints g hi k)))"

definition EPS :: real where "EPS = 1 / 10 ^ 12"

section \<open>Alignment\<close>

definition align :: "(qid, real) dict \<Rightarrow> (qid, real) dict \<Rightarrow> bool \<Rightarrow> (qid list \<times> real list \<times> real list) res" where
  "align a b strict =
     (if strict \<and> set (keys a) \<noteq> set (keys b) then Inl ValueError
      else let qids = py_sorted (\<lambda>x. (length x, x)) (filter (\<lambda>q. dhas b q) (keys a))
           in Inr (qids, map (\<lambda>q. dget a q 0) qids, map (\<lambda>q. dget b q 0) qids))"

section \<open>Paired randomization test\<close>

definition np_sub :: "real list \<Rightarrow> real list \<Rightarrow> real list res" where
  \<comment> \<open>the difference of two 1-D arrays, with numpy's broadcasting of a single value\<close>
  "np_sub a b =
     (if length a = length b then Inr (map2 (-) a b)
      else if length b = 1 then Inr (map (\<lambda>x. x - hd b) a)
      else if length a = 1 then Inr (map (\<lambda>y. hd a - y) b)
      else Inl ValueError)"

fun rows :: "nat \<Rightarrow> nat \<Rightarrow> 'a list \<Rightarrow> 'a list list" where
  \<comment> \<open>the rows of an array of shape (m, n)\<close>
  "rows 0 n xs = []"
| "rows (Suc m) n xs = take n xs # rows m n (drop n xs)"

definition flip_mean :: "real list \<Rightarrow> nat list \<Rightarrow> real" where
  \<comment> \<open>\<open>((draws * 2 - 1) * d).mean()\<close> of one row\<close>
  "flip_mean d draws = mean (map2 (\<lambda>s x. (real s * 2 - 1) * x) draws d)"

definition extreme :: "string \<Rightarrow> real \<Rightarrow> (real \<Rightarrow> bool) res" where
  "extreme alternative obs =
     (if alternative = ''two-sided'' then Inr (\<lambda>m. \<bar>m\<bar> \<ge> \<bar>obs\<bar> - EPS)
      else if alternative = ''greater'' then Inr (\<lambda>m. m \<ge> obs - EPS)
      else if alternative = ''less'' then Inr (\<lambda>m. m \<le> obs + EPS)
      else Inl ValueError)"

partial_function (option) perm_loop ::
    "'g ints \<Rightarrow> real list \<Rightarrow> string \<Rightarrow> nat \<Rightarrow> nat \<Rightarrow> nat \<Rightarrow> nat \<Rightarrow> 'g \<Rightarrow> nat diverging" where
  \<comment> \<open>\<open>while done < n_perm\<close>\<close>
  "perm_loop ints d alternative n_perm batch cnt ndone g =
     (if ndone < n_perm then
        (let m = min batch (n_perm - ndone);
             (draws, g') = ints g 2 (m * length d);
             means = map (flip_mean d) (rows m (length d) draws)
         in case extreme alternative (mean d) of
              Inl e \<Rightarrow> Some (Inl e)
            | Inr ext \<Rightarrow>
                perm_loop ints d alternative n_perm batch (cnt + length (filter ext means)) (ndone + m) g')
      else Some (Inr cnt))"

definition paired_randomization_test ::
    "'g ints \<Rightarrow> 'g \<Rightarrow> real list \<Rightarrow> real list \<Rightarrow> nat \<Rightarrow> string \<Rightarrow> nat \<Rightarrow> real diverging" where
  "paired_randomization_test ints g a b n_perm alternative batch =
     div_bind (Some (np_sub a b)) (\<lambda>d.
       if d = [] then Some (Inl ValueError)
       else if n_perm < 1 then Some (Inl ValueError)
       else div_bind (perm_loop ints d alternative n_perm batch 0 0 g) (\<lambda>cnt.
              Some (Inr ((real cnt + 1) / (real n_perm + 1)))))"

section \<open>Paired bootstrap\<close>

partial_function (option) boot_loop ::
    "'g ints \<Rightarrow> real list \<Rightarrow> nat \<Rightarrow> nat \<Rightarrow> real list \<Rightarrow> 'g \<Rightarrow> real list option" where
  "boot_loop ints d n_boot batch stats g =
     (if length stats < n_boot then
        (let m = min batch (n_boot - length stats);
             (draws, g') = ints g (length d) (m * length d)
         in boot_loop ints d n_boot batch
              (stats @ map (\<lambda>row. mean (map (\<lambda>i. d ! i) row)) (rows m (length d) draws)) g')
      else Some stats)"

definition paired_bootstrap_ci ::
    "(real list \<Rightarrow> real \<Rightarrow> real) \<Rightarrow> 'g ints \<Rightarrow> 'g \<Rightarrow> real list \<Rightarrow> real list \<Rightarrow> nat \<Rightarrow> real \<Rightarrow> nat \<Rightarrow>
     (real \<times> real \<times> real) diverging" where
  "paired_bootstrap_ci quantile ints g a b n_boot alpha batch =
     div_bind (Some (np_sub a b)) (\<lambda>d.
       if d = [] then Some (Inl ValueError)
       else map_option (\<lambda>stats. Inr (mean d, quantile stats (alpha / 2), quantile stats (1 - alpha / 2)))
              (boot_loop ints d n_boot batch [] g))"

section \<open>Holm's correction\<close>

fun cummax :: "real \<Rightarrow> real list \<Rightarrow> real list" where
  \<comment> \<open>\<open>np.maximum.accumulate\<close>, started\<close>
  "cummax m [] = []"
| "cummax m (x # xs) = max m x # cummax (max m x) xs"

definition accumulate_max :: "real list \<Rightarrow> real list" where
  "accumulate_max xs = (case xs of [] \<Rightarrow> [] | x # r \<Rightarrow> x # cummax x r)"

definition scatter :: "nat list \<Rightarrow> 'a list \<Rightarrow> 'a list \<Rightarrow> 'a list" where
  \<comment> \<open>\<open>a[idx] = vs\<close>\<close>
  "scatter idx vs a = foldl (\<lambda>a (i, v). a[i := v]) a (zip idx vs)"

definition holm_order :: "real list \<Rightarrow> nat list" where
  "holm_order p = py_sorted (\<lambda>i. p ! i) [0..<length p]"

definition holm_sorted :: "real list \<Rightarrow> real list" where
  "holm_sorted p =
     accumulate_max (map (\<lambda>j. min 1 ((real (length p) - real j) * (p ! (holm_order p ! j)))) [0..<length p])"

definition holm_bonferroni :: "real list \<Rightarrow> real \<Rightarrow> real list \<times> bool list" where
  "holm_bonferroni p alpha =
     (if length p = 0 then (p, [])
      else let adj = scatter (holm_order p) (holm_sorted p) (replicate (length p) 0)
           in (adj, map (\<lambda>x. x \<le> alpha) adj))"

section \<open>Comparing a family\<close>

record comparison =
  c_name :: string
  c_metric :: string
  c_n_queries :: nat
  c_mean_a :: real
  c_mean_b :: real
  c_delta :: real
  c_ci_lo :: real
  c_ci_hi :: real
  c_p_value :: real
  c_p_holm :: "real option"
  c_significant :: "bool option"

definition compare_pair ::
    "(real list \<Rightarrow> real \<Rightarrow> real) \<Rightarrow> 'g ints \<Rightarrow> 'g \<Rightarrow> string \<Rightarrow> nat \<Rightarrow> nat \<Rightarrow> real \<Rightarrow>
     string \<times> (qid, real) dict \<times> (qid, real) dict \<Rightarrow> comparison diverging" where
  "compare_pair quantile ints g metric n_perm n_boot alpha = (\<lambda>(name, pa, pb).
     div_bind (Some (align pa pb True)) (\<lambda>(qids, a, b).
       div_bind (paired_randomization_test ints g a b n_perm ''two-sided'' 1000) (\<lambda>p.
         div_bind (paired_bootstrap_ci quantile ints g a b n_boot alpha 1000) (\<lambda>(delta, lo, hi).
           Some (Inr \<lparr>c_name = name, c_metric = metric, c_n_queries = length qids, c_mean_a = mean a,
             c_mean_b = mean b, c_delta = delta, c_ci_lo = lo, c_ci_hi = hi, c_p_value = p,
             c_p_holm = None, c_significant = None\<rparr>)))))"

definition compare ::
    "(real list \<Rightarrow> real \<Rightarrow> real) \<Rightarrow> 'g ints \<Rightarrow> 'g \<Rightarrow>
     (string, (qid, real) dict \<times> (qid, real) dict) dict \<Rightarrow> string \<Rightarrow> nat \<Rightarrow> nat \<Rightarrow> real \<Rightarrow>
     comparison list diverging" where
  "compare quantile ints g family metric n_perm n_boot alpha =
     div_bind (div_map (compare_pair quantile ints g metric n_perm n_boot alpha) family) (\<lambda>out.
       let (adj, rej) = holm_bonferroni (map c_p_value out) alpha
       in Some (Inr (map2 (\<lambda>c (p, r). c\<lparr>c_p_holm := Some p, c_significant := Some r\<rparr>) out (zip adj rej))))"

section \<open>The randomization p-value\<close>

lemma rows_length [simp]: "length (rows m n xs) = m"
  by (induction m arbitrary: xs) simp_all

text \<open>The loop ends for a positive batch and counts at most one per permutation.\<close>

lemma perm_loop_returns:
  assumes "0 < batch" and "extreme alternative (mean d) = Inr ext" and "ndone \<le> n_perm"
  shows "\<exists>c. perm_loop ints d alternative n_perm batch cnt ndone g = Some (Inr c) \<and>
     cnt \<le> c \<and> c \<le> cnt + (n_perm - ndone)"
  using assms(3)
proof (induction "n_perm - ndone" arbitrary: ndone cnt g rule: less_induct)
  case less
  show ?case
  proof (cases "ndone < n_perm")
    case True
    define m where "m = min batch (n_perm - ndone)"
    obtain draws g' where dr: "ints g 2 (m * length d) = (draws, g')" by (cases "ints g 2 (m * length d)")
    define h where "h = length (filter ext (map (flip_mean d) (rows m (length d) draws)))"
    have h: "h \<le> m" unfolding h_def by (rule order.trans [OF length_filter_le]) simp
    have m: "0 < m" "ndone + m \<le> n_perm" using True assms(1) by (auto simp: m_def)
    obtain c where "perm_loop ints d alternative n_perm batch (cnt + h) (ndone + m) g' = Some (Inr c)"
      "cnt + h \<le> c" "c \<le> cnt + h + (n_perm - (ndone + m))"
      using less.hyps [OF _ m(2), of "cnt + h" g'] m True by fastforce
    moreover have "perm_loop ints d alternative n_perm batch cnt ndone g =
        perm_loop ints d alternative n_perm batch (cnt + h) (ndone + m) g'"
      using True assms(2) by (subst perm_loop.simps) (simp add: Let_def dr h_def flip: m_def)
    ultimately show ?thesis using h m by (intro exI [of _ c]) auto
  next
    case False
    then show ?thesis using less.prems by (subst perm_loop.simps) simp
  qed
qed

text \<open>When every sign pattern is as extreme as the observation, all permutations cnt.\<close>

lemma perm_loop_all:
  assumes "0 < batch" and "extreme alternative (mean d) = Inr ext" and "ndone \<le> n_perm"
    and "\<And>row. ext (flip_mean d row)"
  shows "perm_loop ints d alternative n_perm batch cnt ndone g = Some (Inr (cnt + (n_perm - ndone)))"
  using assms(3)
proof (induction "n_perm - ndone" arbitrary: ndone cnt g rule: less_induct)
  case less
  show ?case
  proof (cases "ndone < n_perm")
    case True
    define m where "m = min batch (n_perm - ndone)"
    obtain draws g' where dr: "ints g 2 (m * length d) = (draws, g')" by (cases "ints g 2 (m * length d)")
    define h where "h = length (filter ext (map (flip_mean d) (rows m (length d) draws)))"
    have "filter ext (map (flip_mean d) (rows m (length d) draws)) = map (flip_mean d) (rows m (length d) draws)"
      using assms(4) by (intro filter_True) auto
    then have h: "h = m" by (simp only: h_def length_map rows_length)
    have m: "0 < m" "ndone + m \<le> n_perm" using True assms(1) by (auto simp: m_def)
    have "perm_loop ints d alternative n_perm batch cnt ndone g =
        perm_loop ints d alternative n_perm batch (cnt + h) (ndone + m) g'"
      using True assms(2) by (subst perm_loop.simps) (simp add: Let_def dr h_def flip: m_def)
    then show ?thesis using less.hyps [OF _ m(2), of "cnt + m" g'] m True h by simp
  next
    case False
    then show ?thesis using less.prems by (subst perm_loop.simps) simp
  qed
qed

lemma randomization_value:
  assumes "np_sub a b = Inr d" and "d \<noteq> []" and "0 < n_perm"
    and "perm_loop ints d alternative n_perm batch 0 0 g = Some (Inr c)"
  shows "paired_randomization_test ints g a b n_perm alternative batch = Some (Inr ((real c + 1) / (real n_perm + 1)))"
  using assms by (simp add: paired_randomization_test_def)

text \<open>C8: with a positive batch the randomization test returns on every non-empty pair of result lists,
  for each of the three alternatives and whatever the generator draws; the p-value lies in
  \<open>[1 / (n_perm + 1), 1]\<close>, and two systems with equal results get exactly 1.\<close>

theorem randomization_test_p_value:
  assumes "length a = length b" and "a \<noteq> []" and "0 < n_perm" and "0 < batch"
    and "alternative \<in> {''two-sided'', ''greater'', ''less''}"
  shows "\<exists>p. paired_randomization_test ints g a b n_perm alternative batch = Some (Inr p) \<and>
     1 / (real n_perm + 1) \<le> p \<and> p \<le> 1 \<and> (a = b \<longrightarrow> p = 1)"
proof -
  define d where "d = map2 (-) a b"
  have d: "np_sub a b = Inr d" "d \<noteq> []" using assms(1,2) by (auto simp: np_sub_def d_def)
  obtain ext where ext: "extreme alternative (mean d) = Inr ext"
    using assms(5) by (auto simp: extreme_def)
  obtain c where c: "perm_loop ints d alternative n_perm batch 0 0 g = Some (Inr c)" "c \<le> n_perm"
    using perm_loop_returns [OF assms(4) ext, of 0 n_perm ints 0 g] by auto
  have "c = n_perm" if "a = b"
  proof -
    have z: "\<forall>x \<in> set d. x = 0" unfolding d_def using that by (auto simp: set_zip)
    have "sum_list (map2 (\<lambda>s x. (real s * 2 - 1) * x) row xs) = 0" if "\<forall>x \<in> set xs. x = 0" for row :: "nat list" and xs
      using that by (induction row xs rule: list_induct2') auto
    then have "flip_mean d row = 0" for row using z by (simp add: flip_mean_def mean_def)
    moreover have "sum_list xs = 0" if "\<forall>x \<in> set xs. x = (0::real)" for xs
      using that by (induction xs) auto
    then have "mean d = 0" using z by (simp add: mean_def)
    ultimately have "ext (flip_mean d row)" for row
      using ext assms(5) by (auto simp: extreme_def EPS_def)
    from perm_loop_all [OF assms(4) ext _ this, of 0 n_perm ints 0 g] show ?thesis using c(1) by simp
  qed
  then show ?thesis
    using c(2) assms(3) unfolding randomization_value [OF d assms(3) c(1)]
    by (intro exI [of _ "(real c + 1) / (real n_perm + 1)"]) (auto simp: divide_right_mono)
qed

theorem randomization_test_p_value_witness:
  "\<exists>p. paired_randomization_test (\<lambda>g hi k. (replicate k 1, g)) () [1, 0] [0, 1] 10 ''greater'' 3 = Some (Inr p) \<and> p \<le> 1"
  using randomization_test_p_value [of "[1, 0]" "[0, 1]" 10 3 "''greater''" "\<lambda>g hi k. (replicate k 1, g)" "()"]
  by auto

section \<open>Holm's rejections\<close>

text \<open>The sequential rule: in ascending order of p, the j-th hypothesis (from 0) is tested at
  \<open>alpha / (m - j)\<close>, and the first that fails stops the procedure.\<close>

fun holm_rejects :: "real \<Rightarrow> nat \<Rightarrow> real list \<Rightarrow> nat" where
  \<comment> \<open>how many of the sorted p-values the procedure rejects; \<open>m\<close> hypotheses are left\<close>
  "holm_rejects alpha m [] = 0"
| "holm_rejects alpha m (x # xs) = (if x \<le> alpha / real m then Suc (holm_rejects alpha (m - 1) xs) else 0)"

lemma cummax_nth:
  "i < length xs \<Longrightarrow> cummax m xs ! i \<le> a \<longleftrightarrow> m \<le> a \<and> (\<forall>j \<le> i. xs ! j \<le> a)"
proof (induction xs arbitrary: m i)
  case (Cons x xs)
  show ?case
  proof (cases i)
    case (Suc i')
    then have "cummax m (x # xs) ! i \<le> a \<longleftrightarrow> max m x \<le> a \<and> (\<forall>j \<le> i'. xs ! j \<le> a)"
      using Cons by simp
    also have "\<dots> \<longleftrightarrow> m \<le> a \<and> (\<forall>j \<le> i. (x # xs) ! j \<le> a)"
      unfolding Suc All_le_Suc2 by auto
    finally show ?thesis .
  qed simp
qed simp

lemma cummax_length [simp]: "length (cummax m xs) = length xs"
  by (induction xs arbitrary: m) simp_all

lemma accumulate_max_nth:
  assumes "i < length xs"
  shows "accumulate_max xs ! i \<le> a \<longleftrightarrow> (\<forall>j \<le> i. xs ! j \<le> a)"
proof (cases xs)
  case (Cons x r)
  show ?thesis
  proof (cases i)
    case (Suc i')
    then show ?thesis using assms Cons cummax_nth [of i' r x a] by (simp add: accumulate_max_def All_le_Suc2)
  qed (simp add: Cons accumulate_max_def)
qed (use assms in simp)

lemma accumulate_max_length [simp]: "length (accumulate_max xs) = length xs"
  by (simp add: accumulate_max_def split: list.splits)

lemma scatter_nth:
  assumes "distinct idx" and "length vs = length idx" and "set idx \<subseteq> {..< length a}" and "j < length idx"
  shows "scatter idx vs a ! (idx ! j) = vs ! j"
  using assms
proof (induction idx arbitrary: vs a j)
  case (Cons i idx)
  obtain v vs' where vs: "vs = v # vs'" using Cons.prems(2) by (cases vs) auto
  have keep: "scatter idx vs' b ! i = b ! i" if "i \<notin> set idx" for b :: "'a list"
    using that
  proof (induction idx arbitrary: vs' b)
    case (Cons k idx)
    then show ?case by (cases vs') (auto simp: scatter_def)
  qed (simp add: scatter_def)
  have step: "scatter (i # idx) (v # vs') a = scatter idx vs' (a[i := v])" by (simp add: scatter_def)
  show ?case
  proof (cases j)
    case 0
    then show ?thesis using Cons.prems keep [of "a[i := v]"] by (simp add: step vs)
  next
    case (Suc j')
    then show ?thesis using Cons.prems Cons.IH [of vs' "a[i := v]" j'] by (simp add: step vs)
  qed
qed simp

lemma scatter_append:
  "length vs = length idx \<Longrightarrow> scatter (idx @ idx') (vs @ vs') a = scatter idx' vs' (scatter idx vs a)"
  by (simp add: scatter_def)

lemma scatter_length [simp]: "length (scatter idx vs a) = length a"
  by (induction idx arbitrary: vs a; case_tac vs; simp add: scatter_def)

lemma scatter_all:
  assumes "distinct order" and "set order = {..<length a}"
  shows "scatter order (map g order) a = map g [0..<length a]"
proof (rule nth_equalityI)
  fix i assume "i < length (scatter order (map g order) a)"
  then have i: "i < length a" by simp
  then obtain j where j: "j < length order" "order ! j = i" using assms(2) by (metis in_set_conv_nth lessThan_iff)
  then show "scatter order (map g order) a ! i = map g [0..<length a] ! i"
    using scatter_nth [OF assms(1), of "map g order" a j] assms(2) i by simp
qed simp

lemma holm_rejects_nth:
  "i < length xs \<Longrightarrow> length xs = m \<Longrightarrow> i < holm_rejects alpha m xs \<longleftrightarrow> (\<forall>j \<le> i. xs ! j \<le> alpha / real (m - j))"
proof (induction xs arbitrary: m i)
  case (Cons x xs)
  show ?case
  proof (cases i)
    case (Suc i')
    then show ?thesis using Cons.prems Cons.IH [of i' "m - 1"] by (auto simp: All_le_Suc2)
  qed simp
qed simp

lemma holm_order_props:
  "distinct (holm_order p)" "length (holm_order p) = length p" "set (holm_order p) = {..< length p}"
  by (simp_all add: holm_order_def sort_simps lessThan_atLeast0)

text \<open>C9: Holm's correction as computed (multiply, cap at 1, running maximum, scatter back) rejects a
  hypothesis exactly when the sequential step-down procedure does: the hypothesis at place \<open>i\<close> of the
  ascending order is significant iff the procedure rejects more than \<open>i\<close> hypotheses before it stops.\<close>

theorem holm_is_sequential:
  assumes "i < length p" and "alpha < 1"
  shows "snd (holm_bonferroni p alpha) ! (holm_order p ! i) \<longleftrightarrow>
     i < holm_rejects alpha (length p) (map (\<lambda>k. p ! k) (holm_order p))"
proof -
  note o = holm_order_props [of p]
  let ?adj = "scatter (holm_order p) (holm_sorted p) (replicate (length p) 0)"
  have len: "length (scatter idx vs a) = length a" for idx and vs a :: "real list"
    unfolding scatter_def by (induction idx arbitrary: vs a) (auto simp: case_prod_unfold zip_Cons1 split: list.splits)
  have k: "holm_order p ! i < length p" using o assms(1) nth_mem by fastforce
  have "snd (holm_bonferroni p alpha) ! (holm_order p ! i) \<longleftrightarrow> ?adj ! (holm_order p ! i) \<le> alpha"
    using assms(1) k by (auto simp: holm_bonferroni_def Let_def len)
  also have "?adj ! (holm_order p ! i) = holm_sorted p ! i"
    using o assms(1) by (intro scatter_nth) (auto simp: holm_sorted_def)
  also have "holm_sorted p ! i \<le> alpha \<longleftrightarrow>
      (\<forall>j \<le> i. min 1 ((real (length p) - real j) * p ! (holm_order p ! j)) \<le> alpha)"
    using assms(1) unfolding holm_sorted_def by (subst accumulate_max_nth) auto
  also have "\<dots> \<longleftrightarrow> (\<forall>j \<le> i. p ! (holm_order p ! j) \<le> alpha / real (length p - j))"
  proof -
    have "min 1 ((real (length p) - real j) * x) \<le> alpha \<longleftrightarrow> x \<le> alpha / real (length p - j)" if "j \<le> i" for j x
      using that assms by (auto simp: min_le_iff_disj pos_le_divide_eq of_nat_diff mult.commute)
    then show ?thesis by blast
  qed
  also have "\<dots> \<longleftrightarrow> i < holm_rejects alpha (length p) (map (\<lambda>k. p ! k) (holm_order p))"
    using assms(1) o by (subst holm_rejects_nth) auto
  finally show ?thesis .
qed

theorem holm_is_sequential_witness:
  "map ((!) (snd (holm_bonferroni [1 / 25, 1 / 100, 3 / 100] (1 / 20)))) [1, 2, 0] = [True, False, False]"
proof -
  let ?p = "[1 / 25, 1 / 100, 3 / 100 :: real]"
  have order: "holm_order ?p = [Suc 0, 2, 0]" by code_simp
  have rejected: "holm_rejects (1 / 20) (Suc (Suc (Suc 0))) [1 / 100, 3 / 100, 1 / 25] = 1" by code_simp
  have step: "snd (holm_bonferroni ?p (1 / 20)) ! ([Suc 0, 2, 0] ! i) \<longleftrightarrow> i < 1" if "i < 3" for i
  proof -
    have "snd (holm_bonferroni ?p (1 / 20)) ! (holm_order ?p ! i) \<longleftrightarrow>
      i < holm_rejects (1 / 20) (length ?p) (map (\<lambda>k. ?p ! k) (holm_order ?p))"
      using that by (intro holm_is_sequential) simp_all
    also have "map (\<lambda>k. ?p ! k) (holm_order ?p) = [1 / 100, 3 / 100, 1 / 25]"
      unfolding order by simp
    finally show ?thesis using rejected unfolding order by simp
  qed
  show ?thesis using step [of 0] step [of 1] step [of 2] by simp
qed

end
