(* ===== verification/Rerank.thy ===== *)
theory Rerank
  imports Rankers Significance
begin

text \<open>
  \<open>py/hybridsearch/rerank/text.py\<close> (passage lookup, run streaming), \<open>rerank/rerank_run.py\<close> (candidates,
  length-sorted scoring, the reranked run and its evaluation) and \<open>rerank/cascade.py\<close> (quality by rerank
  depth).  The cross-encoder and its tokenizer are arguments: the scores of a batch of (query, passage)
  pairs, the clipping of a query and the rounding to 32-bit floats.  Files are their contents.  The lemmas: streaming a run agrees with
  reading it, sorting by length does not change the scores, and a cascade reorders the head only.
\<close>

section \<open>Texts and runs\<close>

fun load_scan :: "string set option \<Rightarrow> string list \<Rightarrow> (string, string) dict \<Rightarrow> (string, string) dict res" where
  \<comment> \<open>over the lines; a line without a tab raises ValueError, and reading stops when all are found\<close>
  "load_scan want [] out = Inr out"
| "load_scan want (line # r) out =
     (case split1 TAB line of
        None \<Rightarrow> Inl ValueError
      | Some (pid, t) \<Rightarrow>
          if want = None \<or> pid \<in> the want then
            (let out' = dset out pid (rstrip_nl t) in
             if want \<noteq> None \<and> length out' = card (the want) then Inr out' else load_scan want r out')
          else load_scan want r out)"

definition load_passages :: "string set option \<Rightarrow> string \<Rightarrow> (string, string) dict res" where
  "load_passages needed f = load_scan needed (text_lines f) []"

definition top_k :: "run \<Rightarrow> nat \<Rightarrow> (qid, ranking) dict res" where
  \<comment> \<open>score descending, then document id ascending; ids that cannot be compared raise TypeError\<close>
  "top_k run k =
     res_map (\<lambda>(q, hits). if mixed_tie hits then Inl TypeError
                          else Inr (q, take k (py_sorted (\<lambda>(d, s). (- s, rank_id d)) hits))) run"

record groups =
  gr_seen :: "qid set"
  gr_cur :: "qid option"
  gr_hits :: "(docid, real) dict"
  gr_out :: "(qid \<times> (docid, real) dict) list"

definition flush :: "groups \<Rightarrow> (qid \<times> (docid, real) dict) list" where
  "flush st = (case gr_cur st of None \<Rightarrow> gr_out st | Some q \<Rightarrow> gr_out st @ [(q, gr_hits st)])"

definition group_line :: "nat option \<Rightarrow> groups \<Rightarrow> string \<Rightarrow> groups res" where
  "group_line max_hits st line =
     (case split_ws line of
        [] \<Rightarrow> Inr st
      | qid # _ # docid # _ # score # _ \<Rightarrow>
          res_bind (float_of score) (\<lambda>s.
            res_bind (if Some qid \<noteq> gr_cur st
                      then if qid \<in> gr_seen st then Inl ValueError
                           else Inr \<lparr>gr_seen = insert qid (gr_seen st), gr_cur = Some qid, gr_hits = [], gr_out = flush st\<rparr>
                      else Inr st)
              (\<lambda>st1. Inr (if max_hits = None \<or> length (gr_hits st1) < the max_hits
                           then st1\<lparr>gr_hits := dset (gr_hits st1) docid s\<rparr> else st1)))
      | _ \<Rightarrow> Inl IndexError)"

definition iter_run_groups :: "string \<Rightarrow> nat option \<Rightarrow> (qid \<times> (docid, real) dict) list res" where
  \<comment> \<open>the groups a consumer that reads to the end sees, or the error that ends the stream\<close>
  "iter_run_groups f max_hits =
     res_bind (res_fold (group_line max_hits) \<lparr>gr_seen = {}, gr_cur = None, gr_hits = [], gr_out = []\<rparr> (text_lines f))
       (\<lambda>st. Inr (flush st))"

section \<open>Reranking a run\<close>

definition load_candidates :: "string \<Rightarrow> qid set \<Rightarrow> nat \<Rightarrow> (qid, ranking) dict res" where
  "load_candidates f qids depth =
     res_bind (iter_run_groups f None) (\<lambda>gs.
       Inr (dict_of (map (\<lambda>(q, hits). (q, take depth (py_sorted_rev (\<lambda>(d, s). (s, d)) hits)))
             (filter (\<lambda>(q, hits). q \<in> qids) gs))))"

definition score_slice :: "(string list \<Rightarrow> string list \<Rightarrow> real list) \<Rightarrow> string list \<Rightarrow> string list \<Rightarrow> real list \<Rightarrow> nat list \<Rightarrow> real list" where
  "score_slice model Q P out idx = scatter idx (model (map ((!) Q) idx) (map ((!) P) idx)) out"

definition length_order :: "string list \<Rightarrow> string list \<Rightarrow> nat list" where
  \<comment> \<open>\<open>np.argsort(lengths, kind="stable")\<close>\<close>
  "length_order Q P = py_sorted (\<lambda>i. length (Q ! i) + length (P ! i)) [0..<length (zip Q P)]"

definition score :: "(string list \<Rightarrow> string list \<Rightarrow> real list) \<Rightarrow> string list \<Rightarrow> string list \<Rightarrow> nat \<Rightarrow> real list res" where
  \<comment> \<open>\<open>Scorer.score\<close>; the initial array is uninitialised, here zeros\<close>
  "score model Q P batch =
     (if batch = 0 then Inl ValueError
      else Inr (foldl (score_slice model Q P) (replicate (length Q) 0) (slices batch (length_order Q P))))"

definition metrics_for :: "string \<Rightarrow> string list" where
  "metrics_for split =
     (if take 2 split = ''dl'' then [''nDCG@10'', ''RR(rel=2)@10'', ''R(rel=2)@100'']
      else [''RR@10'', ''nDCG@10'', ''R@100''])"

record rerank_result =
  rr_n_qrels :: nat
  rr_n_with_candidates :: nat
  rr_n_pairs :: nat
  rr_metrics :: "(string, real) dict"
  rr_first_stage :: "(string, real) dict"
  rr_run_file :: string
  rr_cache :: "(qid \<times> docid \<times> real \<times> real) list" \<comment> \<open>the rows of the score cache\<close>

definition judged_queries :: "(qid, string) dict \<Rightarrow> qrels \<Rightarrow> nat option \<Rightarrow> (qid list \<times> qrels) res" where
  \<comment> \<open>\<open>max_queries\<close> of 0 is no limit\<close>
  "judged_queries queries qrels max_queries =
     (let qids = filter (dhas qrels) (keys queries) in
      case max_queries of
        None \<Rightarrow> Inr (qids, qrels)
      | Some m \<Rightarrow>
          if m = 0 then Inr (qids, qrels)
          else res_bind (int_sorted qids) (\<lambda>qs. Inr (take m qs, map (\<lambda>q. (q, dget qrels q [])) (take m qs))))"

definition pairs_of :: "(qid, ranking) dict \<Rightarrow> (qid \<times> docid \<times> real) list res" where
  \<comment> \<open>\<open>(q, p)\<close> with its first-stage score, queries in numeric order\<close>
  "pairs_of cands =
     res_bind (int_sorted (keys cands)) (\<lambda>qs. Inr (concat (map (\<lambda>q. map (\<lambda>(p, s). (q, p, s)) (dget cands q [])) qs)))"

definition rerank :: "(real \<Rightarrow> real) \<Rightarrow> (string list \<Rightarrow> string list \<Rightarrow> real list) \<Rightarrow> (string \<Rightarrow> string) \<Rightarrow> string \<Rightarrow> string \<Rightarrow>
    string \<Rightarrow> string \<Rightarrow> string \<Rightarrow> string \<Rightarrow> nat \<Rightarrow> nat \<Rightarrow> nat option \<Rightarrow> rerank_result res" where
  \<comment> \<open>arguments: \<open>np.float32\<close>, model, clipping, run name, split, and the query, judgment, candidate and collection files; the cache
    keeps the first-stage scores as 32-bit floats, the evaluation takes them as they were read\<close>
  "rerank nar model clip name split qf qrf cf colf depth batch max_queries =
     res_bind (read_queries qf) (\<lambda>queries. res_bind (read_qrels qrf) (\<lambda>qrels0.
       res_bind (judged_queries queries qrels0 max_queries) (\<lambda>(qids, qrels).
         res_bind (load_candidates cf (set qids) depth) (\<lambda>cands.
           let need = set (map fst (concat (map snd cands))) in
           res_bind (load_passages (Some need) colf) (\<lambda>text.
             if \<not> need \<subseteq> set (keys text) then Inl KeyError
             else res_bind (pairs_of cands) (\<lambda>ps.
               let Q = map (\<lambda>(q, p, s). clip (dget queries q [])) ps; P = map (\<lambda>(q, p, s). dget text p []) ps in
               res_bind (score model Q P batch) (\<lambda>scores.
                 let run = foldl (\<lambda>r ((q, p, s), x). add_nested r q p x) [] (zip ps scores) in
                 res_bind (int_sorted (keys run)) (\<lambda>rq.
                   res_bind (evaluate run qrels (Some (metrics_for split))) (\<lambda>(agg, _).
                     res_bind (evaluate (map (\<lambda>(q, h). (q, dict_of h)) cands) qrels (Some (metrics_for split))) (\<lambda>(base, _).
                       Inr \<lparr>rr_n_qrels = length qrels, rr_n_with_candidates = length cands, rr_n_pairs = length ps,
                            rr_metrics = map (\<lambda>(k, v). (k, round_to 4 v)) agg,
                            rr_first_stage = map (\<lambda>(k, v). (k, round_to 4 v)) base,
                            rr_run_file = write_run (map (\<lambda>q. (q, py_sorted (\<lambda>(d, s). (- s, d)) (dget run q []))) rq) name,
                            rr_cache = map2 (\<lambda>(q, p, s) x. (q, p, x, nar s)) ps scores\<rparr>))))))))))"

section \<open>Quality by rerank depth\<close>

type_synonym cached = "docid \<times> real \<times> real" \<comment> \<open>id, cross-encoder score, first-stage score\<close>

definition rerank_head :: "nat \<Rightarrow> cached list \<Rightarrow> cached list" where
  \<comment> \<open>the top \<open>k\<close> reordered, the rest below in first-stage order\<close>
  "rerank_head k v = py_sorted (\<lambda>(p, s, f). - s) (take k v) @ drop k v"

definition cascade_run :: "nat \<Rightarrow> cached list \<Rightarrow> (docid, real) dict" where
  "cascade_run k v = dict_of (map (\<lambda>(i, (p, _, _)). (p, real (length v) - real i)) (enumerate 0 (rerank_head k v)))"

definition per_query_rows :: "(qid \<times> docid \<times> real \<times> real) list \<Rightarrow> (qid, cached list) dict" where
  "per_query_rows cached_rows = map (\<lambda>(q, rs). (q, map snd rs)) (group_by fst cached_rows)"

fun cascade_depths :: "(qid, cached list) dict \<Rightarrow> qrels \<Rightarrow> string list \<Rightarrow> nat list \<Rightarrow> (nat \<times> (string, real) dict) list res" where
  "cascade_depths per_q qrels ms [] = Inr []"
| "cascade_depths per_q qrels ms (k # ks) =
     (if k > Max (set (map (length \<circ> snd) per_q)) then cascade_depths per_q qrels ms ks
      else res_bind (evaluate (map (\<lambda>(q, v). (q, cascade_run k v)) per_q) qrels (Some ms)) (\<lambda>(agg, _).
             res_bind (cascade_depths per_q qrels ms ks) (\<lambda>r. Inr ((k, agg) # r))))"

definition cascade_quality :: "(qid \<times> docid \<times> real \<times> real) list \<Rightarrow> qrels \<Rightarrow> nat list \<Rightarrow> string list \<Rightarrow>
    ((nat, (string, real) dict) dict \<times> nat) res" where
  \<comment> \<open>the quality at depth 0 and at every depth, and the fewest candidates of a query; no query is a ValueError\<close>
  "cascade_quality cached_rows qrels depths ms =
     (let per_q = per_query_rows cached_rows in
      if per_q = [] then Inl ValueError
      else res_bind (evaluate (map (\<lambda>(q, v). (q, dict_of (map (\<lambda>(p, _, f). (p, f)) v))) per_q) qrels (Some ms)) (\<lambda>(base, _).
        res_bind (cascade_depths per_q qrels ms depths) (\<lambda>out.
          Inr (foldl (\<lambda>d (k, v). dset d k v) [(0, base)] out, Min (set (map (length \<circ> snd) per_q))))))"

section \<open>Streaming a run agrees with reading it\<close>

definition stream_inv :: "groups \<Rightarrow> run \<Rightarrow> bool" where
  "stream_inv st r =
     (flush st = r \<and> distinct (keys (flush st)) \<and> set (keys (flush st)) = gr_seen st)"

lemma group_line_step:
  assumes "stream_inv st r" and "read_run_line r line = Inr r'" and "group_line None st line = Inr st'"
  shows "stream_inv st' r'"
proof (cases "split_ws line")
  case Nil
  then show ?thesis using assms by (simp add: read_run_line_def group_line_def)
next
  case (Cons q fs)
  obtain d sc s where f: "split_ws line = q # (fs ! 0) # d # (fs ! 2) # sc # (drop 4 fs)" and s: "float_of sc = Inr s" and r': "r' = add_nested r q d s"
    using assms(2) by (auto simp: read_run_line_def Cons split: list.splits)
  show ?thesis
  proof (cases "Some q = gr_cur st")
    case True
    have st': "st' = st\<lparr>gr_hits := dset (gr_hits st) d s\<rparr>"
      using assms(3) True by (simp add: group_line_def f s)
    have fl: "flush st = gr_out st @ [(q, gr_hits st)]" using True by (simp add: flush_def flip: True)
    then have q: "q \<notin> set (keys (gr_out st))" using assms(1) by (simp add: stream_inv_def)
    have r: "r = gr_out st @ [(q, gr_hits st)]" using assms(1) fl by (simp add: stream_inv_def)
    have "flush st' = gr_out st @ [(q, dset (gr_hits st) d s)]" using True by (simp add: flush_def st' flip: True)
    then show ?thesis
      using assms(1) fl q by (simp add: stream_inv_def st' r' r add_nested_def dget_last dset_last)
  next
    case False
    have fresh: "q \<notin> gr_seen st" using assms(3) False by (auto simp: group_line_def f s split: if_splits)
    then have st': "st' = \<lparr>gr_seen = insert q (gr_seen st), gr_cur = Some q, gr_hits = dset [] d s, gr_out = flush st\<rparr>"
      using assms(3) False by (simp add: group_line_def f s)
    have "q \<notin> set (keys r)" using assms(1) fresh by (auto simp: stream_inv_def)
    then have "r' = r @ [(q, dset [] d s)]" by (simp add: r' add_nested_def dget_absent dset_new)
    then show ?thesis using assms(1) fresh by (auto simp: stream_inv_def st' flush_def)
  qed
qed

definition line_qids :: "string list \<Rightarrow> qid list" where
  \<comment> \<open>the query of every line that is not blank\<close>
  "line_qids ls = map (\<lambda>l. hd (split_ws l)) (filter (\<lambda>l. split_ws l \<noteq> []) ls)"

definition contiguous :: "'a list \<Rightarrow> bool" where
  \<comment> \<open>equal elements stand together\<close>
  "contiguous qs \<longleftrightarrow> distinct (remdups_adj qs)"

lemma contiguous_snoc: "contiguous (qs @ [q]) \<longleftrightarrow> contiguous qs \<and> (qs \<noteq> [] \<and> last qs = q \<or> q \<notin> set qs)"
proof (cases qs rule: rev_cases)
  case (snoc ys y)
  have "remdups_adj (ys @ [y, q]) = remdups_adj (ys @ [y]) @ (if y = q then [] else [q])" by (rule remdups_adj_append_two)
  moreover have "set (remdups_adj (ys @ [y])) = set qs" by (simp only: remdups_adj_set snoc)
  ultimately show ?thesis by (auto simp: contiguous_def snoc)
qed (simp add: contiguous_def)

lemma contiguous_prefix: "contiguous (qs @ q # rest) \<Longrightarrow> contiguous (qs @ [q])"
  unfolding contiguous_def by (subst (asm) remdups_adj_append) simp

definition stream_at :: "qid list \<Rightarrow> groups \<Rightarrow> run \<Rightarrow> bool" where
  \<comment> \<open>after lines of the queries \<open>qs\<close>\<close>
  "stream_at qs st r \<longleftrightarrow> stream_inv st r \<and> contiguous qs \<and> gr_seen st = set qs \<and> gr_cur st = (if qs = [] then None else Some (last qs))"

lemma group_line_next:
  assumes "stream_at qs st r" and "read_run_line r line = Inr r'" and "split_ws line = q # fs"
  shows "if contiguous (qs @ [q]) then \<exists>st'. group_line None st line = Inr st' \<and> stream_at (qs @ [q]) st' r'
    else group_line None st line = Inl ValueError"
proof -
  obtain d sc s where f: "split_ws line = q # (fs ! 0) # d # (fs ! 2) # sc # (drop 4 fs)" and s: "float_of sc = Inr s"
    using assms(2) by (auto simp: read_run_line_def assms(3) split: list.splits)
  have cur: "Some q = gr_cur st \<longleftrightarrow> qs \<noteq> [] \<and> last qs = q" and seen: "gr_seen st = set qs" and inv: "stream_inv st r" and c: "contiguous qs"
    using assms(1) by (auto simp: stream_at_def)
  show ?thesis
  proof (cases "contiguous (qs @ [q])")
    case True
    obtain st' where st': "group_line None st line = Inr st'"
        "gr_seen st' = insert q (gr_seen st)" "gr_cur st' = Some q"
    proof (cases "Some q = gr_cur st")
      case same: True
      then have "q \<in> gr_seen st" using cur seen by (metis last_in_set)
      then have "insert q (gr_seen st) = gr_seen st" by blast
      then show thesis using same by (intro that [of "st\<lparr>gr_hits := dset (gr_hits st) d s\<rparr>"]) (simp_all add: group_line_def f s)
    next
      case False
      then have "q \<notin> gr_seen st" using True cur seen by (auto simp: contiguous_snoc)
      then have "group_line None st line =
          Inr \<lparr>gr_seen = insert q (gr_seen st), gr_cur = Some q, gr_hits = dset [] d s, gr_out = flush st\<rparr>"
        using False by (simp add: group_line_def f s)
      then show thesis by (rule that) simp_all
    qed
    then show ?thesis using True group_line_step [OF inv assms(2) st'(1)] seen by (auto simp: stream_at_def)
  next
    case False
    then have "Some q \<noteq> gr_cur st" "q \<in> gr_seen st" using c cur seen by (auto simp: contiguous_snoc)
    then show ?thesis using False by (simp add: group_line_def f s)
  qed
qed

lemma stream_lines:
  assumes "stream_at qs st r" and "res_fold read_run_line r ls = Inr r'"
  shows "if contiguous (qs @ line_qids ls) then \<exists>st'. res_fold (group_line None) st ls = Inr st' \<and> stream_inv st' r'
    else res_fold (group_line None) st ls = Inl ValueError"
  using assms
proof (induction ls arbitrary: qs st r)
  case Nil
  then show ?case by (simp add: stream_at_def line_qids_def)
next
  case (Cons l ls)
  obtain r1 where r1: "read_run_line r l = Inr r1" "res_fold read_run_line r1 ls = Inr r'" using Cons.prems(2) by auto
  show ?case
  proof (cases "split_ws l")
    case Nil
    then have "r1 = r" "group_line None st l = Inr st" "line_qids (l # ls) = line_qids ls"
      using r1(1) by (simp_all add: read_run_line_def group_line_def line_qids_def)
    then show ?thesis using Cons.IH [OF Cons.prems(1)] r1(2) by simp
  next
    case q: (Cons q fs)
    have qids: "line_qids (l # ls) = q # line_qids ls" by (simp add: line_qids_def q)
    note nxt = group_line_next [OF Cons.prems(1) r1(1) q]
    show ?thesis
    proof (cases "contiguous (qs @ [q])")
      case True
      then obtain st1 where "group_line None st l = Inr st1" "stream_at (qs @ [q]) st1 r1" using nxt by auto
      then show ?thesis using Cons.IH [of "qs @ [q]" st1 r1] r1(2) by (simp add: qids)
    next
      case False
      then have "\<not> contiguous (qs @ line_qids (l # ls))" using contiguous_prefix qids by metis
      then show ?thesis using nxt False by simp
    qed
  qed
qed

text \<open>C18: the constant-memory reader refines the plain one: of a run file that \<open>read_run\<close> reads, streaming yields exactly
  the same queries, documents and scores, in the order of the file and each query once, if each query's lines stand
  together, and ends with the ValueError if they do not.\<close>

theorem iter_run_groups_refines:
  assumes "read_run f = Inr r"
  shows "iter_run_groups f None = (if contiguous (line_qids (text_lines f)) then Inr r else Inl ValueError) \<and> distinct (keys r)"
proof -
  define st0 where "st0 = \<lparr>gr_seen = {}, gr_cur = None, gr_hits = [], gr_out = []\<rparr>"
  have "stream_at [] st0 []" by (simp add: stream_at_def stream_inv_def st0_def flush_def contiguous_def)
  from stream_lines [OF this, of "text_lines f" r]
  have s: "if contiguous (line_qids (text_lines f)) then \<exists>st. res_fold (group_line None) st0 (text_lines f) = Inr st \<and> stream_inv st r
    else res_fold (group_line None) st0 (text_lines f) = Inl ValueError" using assms by (simp add: read_run_def)
  have "dict_ok r' \<Longrightarrow> read_run_line r' l = Inr r'' \<Longrightarrow> dict_ok r''" for r' l r''
    by (auto simp: read_run_line_def add_nested_def split: list.splits)
  then have "dict_ok r' \<Longrightarrow> res_fold read_run_line r' ls = Inr r \<Longrightarrow> dict_ok r" for r' ls
    by (induction ls arbitrary: r') auto
  from this [of "[]"] have "distinct (keys r)" using assms by (simp add: read_run_def)
  moreover have "iter_run_groups f None = (if contiguous (line_qids (text_lines f)) then Inr r else Inl ValueError)"
    using s unfolding iter_run_groups_def st0_def [symmetric] by (auto simp: stream_inv_def)
  ultimately show ?thesis by blast
qed

section \<open>Sorting by length does not change the scores\<close>

lemma score_slices:
  assumes "\<And>qs ps. length qs = length ps \<Longrightarrow> model qs ps = map2 f qs ps"
  shows "foldl (score_slice model Q P) out idxs = scatter (concat idxs) (map (\<lambda>i. f (Q ! i) (P ! i)) (concat idxs)) out"
proof (induction idxs arbitrary: out)
  case Nil
  show ?case by (simp add: scatter_def)
next
  case (Cons idx idxs)
  have m: "model (map ((!) Q) idx) (map ((!) P) idx) = map (\<lambda>i. f (Q ! i) (P ! i)) idx"
    using assms by (simp add: zip_map1 zip_map2 zip_same_conv_map comp_def)
  have "score_slice model Q P out idx = scatter idx (map (\<lambda>i. f (Q ! i) (P ! i)) idx) out"
    by (simp add: score_slice_def m)
  then show ?case by (simp add: Cons scatter_append)
qed

text \<open>Scoring in batches sorted by length returns the scores in input order: if the cross-encoder
  scores each pair of a batch on its own, \<open>score\<close> is the pairwise map, whatever the lengths and the
  batch size.\<close>

theorem score_is_pointwise:
  assumes "0 < batch" and "length P = length Q" and "\<And>qs ps. length qs = length ps \<Longrightarrow> model qs ps = map2 f qs ps"
  shows "score model Q P batch = Inr (map2 f Q P)"
proof -
  have order: "distinct (length_order Q P)" "set (length_order Q P) = {..<length Q}"
    using assms(2) by (simp_all add: length_order_def sort_simps lessThan_atLeast0)
  have "map (\<lambda>i. f (Q ! i) (P ! i)) [0..<length Q] = map2 f Q P" by (rule nth_equalityI) (simp_all add: assms(2))
  then show ?thesis
    using scatter_all [OF order(1), of "replicate (length Q) 0" "\<lambda>i. f (Q ! i) (P ! i)"] assms(1) order(2)
    by (simp add: score_def score_slices [OF assms(3)] concat_slices)
qed

section \<open>A cascade reorders the head only\<close>

lemma rerank_head_mset: "mset (rerank_head k v) = mset v"
  by (metis append_take_drop_id mset_append rerank_head_def sorted_asc.rank_mset)

lemma cascade_run_rank:
  assumes "distinct (map fst v)"
  shows "rank_run (cascade_run k v) = map fst (rerank_head k v)"
proof -
  let ?h = "rerank_head k v"
  define d where "d = map (\<lambda>(i, (p, s, f)). (p, real (length v) - real i)) (enumerate 0 ?h)"
  have len: "length ?h = length v" by (metis rerank_head_mset size_mset)
  have keys: "map fst d = map fst ?h"
    by (rule nth_equalityI) (auto simp: d_def nth_enumerate_eq case_prod_unfold)
  have dist: "distinct (map fst d)"
    using assms unfolding keys by (metis mset_map mset_eq_imp_distinct_iff rerank_head_mset)
  then have run: "cascade_run k v = d" by (simp add: cascade_run_def d_def [symmetric] dict_of_distinct)
  have val: "dget d (fst (?h ! i)) 0 = real (length v) - real i" if "i < length v" for i
  proof (rule dget_present [OF dist])
    have "d ! i = (fst (?h ! i), real (length v) - real i)"
      using that len by (simp add: d_def nth_enumerate_eq case_prod_unfold)
    then show "(fst (?h ! i), real (length v) - real i) \<in> set d" using that len by (metis d_def length_enumerate length_map nth_mem)
  qed
  have "map fst ?h = rank_run d"
    using dist len val by (intro rank_run_unique) (auto simp: keys sorted_wrt_iff_nth_less before_def)
  then show ?thesis by (simp add: run)
qed

text \<open>At rerank depth \<open>k\<close> the evaluator sees exactly the cascade: the first stage's top \<open>k\<close> in the order
  of the cross-encoder's scores, then the rest of the list in first-stage order.\<close>

theorem cascade_rank_order:
  assumes "distinct (map fst v)"
  shows "rank_run (cascade_run k v) = map fst (rerank_head k v) \<and>
     map fst (drop k (rerank_head k v)) = map fst (drop k v) \<and>
     sorted (map (\<lambda>(p, s, f). - s) (take k (rerank_head k v))) \<and> mset (take k (rerank_head k v)) = mset (take k v)"
proof -
  have "length (py_sorted (\<lambda>(p, s, f). - s) (take k v)) = min k (length v)" by (simp add: sort_simps)
  then have "take k (rerank_head k v) = py_sorted (\<lambda>(p, s, f). - s) (take k v)" "drop k (rerank_head k v) = drop k v"
    by (cases "k \<le> length v"; simp add: rerank_head_def)+
  then show ?thesis using sorted_asc.rank_sorted by (auto simp: sorted_asc.rank_mset cascade_run_rank [OF assms])
qed

definition demo_line :: "string \<Rightarrow> string \<Rightarrow> string \<Rightarrow> string" where
  "demo_line q d v = sp_join [q, ''Q0'', d, ''1'', v, ''t'']"

lemma demo_lines:
  "text_lines (unlines [demo_line ''q'' ''a'' ''2'', demo_line ''q'' ''b'' ''1'', demo_line ''r'' ''a'' ''3'']) =
     [demo_line ''q'' ''a'' ''2'' @ nl, demo_line ''q'' ''b'' ''1'' @ nl, demo_line ''r'' ''a'' ''3'' @ nl]"
  "text_lines (unlines [demo_line ''q'' ''a'' ''2'', demo_line ''r'' ''a'' ''3'', demo_line ''q'' ''b'' ''1'']) =
     [demo_line ''q'' ''a'' ''2'' @ nl, demo_line ''r'' ''a'' ''3'' @ nl, demo_line ''q'' ''b'' ''1'' @ nl]"
  "split_ws (demo_line ''q'' ''a'' ''2'' @ nl) = [''q'', ''Q0'', ''a'', ''1'', ''2'', ''t'']"
  "split_ws (demo_line ''q'' ''b'' ''1'' @ nl) = [''q'', ''Q0'', ''b'', ''1'', ''1'', ''t'']"
  "split_ws (demo_line ''r'' ''a'' ''3'' @ nl) = [''r'', ''Q0'', ''a'', ''1'', ''3'', ''t'']"
  "float_of ''1'' = Inr 1" "float_of ''2'' = Inr 2" "float_of ''3'' = Inr 3"
  by code_simp+

theorem iter_run_groups_refines_witness:
  "iter_run_groups (unlines [demo_line ''q'' ''a'' ''2'', demo_line ''q'' ''b'' ''1'', demo_line ''r'' ''a'' ''3'']) None =
     Inr [(''q'', [(''a'', 2), (''b'', 1)]), (''r'', [(''a'', 3)])] \<and>
   iter_run_groups (unlines [demo_line ''q'' ''a'' ''2'', demo_line ''r'' ''a'' ''3'', demo_line ''q'' ''b'' ''1'']) None = Inl ValueError"
proof -
  have "read_run (unlines [demo_line ''q'' ''a'' ''2'', demo_line ''q'' ''b'' ''1'', demo_line ''r'' ''a'' ''3'']) =
      Inr [(''q'', [(''a'', 2), (''b'', 1)]), (''r'', [(''a'', 3)])]"
    by (simp add: read_run_def read_run_line_def add_nested_def dset_def dget_def demo_lines)
  moreover have "read_run (unlines [demo_line ''q'' ''a'' ''2'', demo_line ''r'' ''a'' ''3'', demo_line ''q'' ''b'' ''1'']) =
      Inr [(''q'', [(''a'', 2), (''b'', 1)]), (''r'', [(''a'', 3)])]"
    by (simp add: read_run_def read_run_line_def add_nested_def dset_def dget_def demo_lines)
  moreover have "contiguous (line_qids [demo_line ''q'' ''a'' ''2'' @ nl, demo_line ''q'' ''b'' ''1'' @ nl, demo_line ''r'' ''a'' ''3'' @ nl])"
    "\<not> contiguous (line_qids [demo_line ''q'' ''a'' ''2'' @ nl, demo_line ''r'' ''a'' ''3'' @ nl, demo_line ''q'' ''b'' ''1'' @ nl])"
    by (simp_all add: contiguous_def line_qids_def demo_lines)
  ultimately show ?thesis using iter_run_groups_refines by (simp add: demo_lines)
qed

theorem cascade_rank_order_witness:
  "rank_run (cascade_run 2 [(''a'', 0, 9), (''b'', 1, 8), (''c'', 5, 7)]) = [''b'', ''a'', ''c'']"
  using cascade_rank_order [of "[(''a'', 0, 9), (''b'', 1, 8), (''c'', 5, 7)]" 2] by (simp add: rerank_head_def py_sorted_def)

end
