(* ===== verification/Dense_Search.thy ===== *)
theory Dense_Search
  imports Data_IO
begin

text \<open>
  Exact inner-product search in blocks: \<open>exact_topk\<close> of \<open>py/hybridsearch/rerank/mine.py\<close> (numpy,
  \<open>argpartition\<close>) and of \<open>dense/flat.py\<close> (one FAISS flat index per block), both keeping a running top-k
  per query.  \<open>argpartition\<close> and FAISS's search are arguments with what they document as hypotheses: each
  picks \<open>k\<close> best rows of a block, in any order and with any choice among ties.  A query's running arrays
  are the list of its (score, id) pairs; the filler entries of minus infinity, which any row displaces,
  are the missing elements of a shorter list.  Products are exact.
\<close>

section \<open>The k best of a multiset\<close>

definition best_of :: "nat \<Rightarrow> (real \<times> 'i) multiset \<Rightarrow> (real \<times> 'i) multiset \<Rightarrow> bool" where
  \<comment> \<open>\<open>A\<close> holds \<open>k\<close> entries of \<open>X\<close> (all, when there are fewer), none worse than one left out\<close>
  "best_of k A X = (A \<subseteq># X \<and> size A = min k (size X) \<and> (\<forall>a \<in># A. \<forall>x \<in># X - A. fst x \<le> fst a))"

lemma best_beats:
  assumes "best_of k C (A + B)" and "size A = k" and "\<forall>a \<in># A. u \<le> fst a" and "z \<in># C"
  shows "u \<le> fst z"
proof (cases "A \<subseteq># C")
  case True
  have "size C \<le> size A" using assms(1,2) by (simp add: best_of_def)
  then have "A = C" using True by (metis mset_subset_size not_less subset_mset.le_imp_less_or_eq)
  then show ?thesis using assms(3,4) by blast
next
  case False
  then obtain a where "count C a < count A a" by (meson mset_subset_eqI not_less)
  then have "0 < count A a" "count C a < count (A + B) a" by (linarith, simp)
  then have "a \<in># A" "a \<in># A + B - C" by (simp_all only: in_diff_count count_greater_zero_iff)
  then show ?thesis using assms(1,3,4) by (fastforce simp: best_of_def)
qed

lemma best_of_full: "best_of k A X \<Longrightarrow> x \<in># X - A \<Longrightarrow> size A = k"
proof -
  assume a: "best_of k A X" and x: "x \<in># X - A"
  have "0 < size (X - A)" using x by (metis gr_zeroI empty_not_add_mset multi_member_split size_eq_0_iff_empty)
  then have "size A < size X" using a by (simp add: best_of_def size_Diff_submset)
  then show "size A = k" using a by (auto simp: best_of_def)
qed

lemma best_of_union:
  assumes a: "best_of k A X" and b: "best_of k B Y" and c: "best_of k C (A + B)"
  shows "best_of k C (X + Y)"
proof -
  have sub: "A \<subseteq># X" "B \<subseteq># Y" "C \<subseteq># A + B" using assms by (simp_all add: best_of_def)
  have size: "size C = min k (size (X + Y))" using assms by (auto simp: best_of_def)
  have "X + Y - C = (X - A) + (Y - B) + (A + B - C)"
  proof -
    obtain X' Y' D where "X = A + X'" "Y = B + Y'" "A + B = C + D" using sub by (metis mset_subset_eq_exists_conv)
    moreover from this have "X + Y = C + (D + X' + Y')" by (metis (no_types, lifting) add.assoc add.commute)
    then have "X + Y - C = D + X' + Y'" by simp
    ultimately show ?thesis by (simp add: ac_simps)
  qed
  moreover have "fst x \<le> fst z" if z: "z \<in># C" and x: "x \<in># (X - A) + (Y - B) + (A + B - C)" for z x
  proof -
    consider "x \<in># X - A" | "x \<in># Y - B" | "x \<in># A + B - C" using x by auto
    then show ?thesis
    proof cases
      case 1
      then have "size A = k" "\<forall>a \<in># A. fst x \<le> fst a" using a best_of_full [OF a] by (auto simp: best_of_def)
      then show ?thesis by (rule best_beats [OF c _ _ z])
    next
      case 2
      then have "size B = k" "\<forall>a \<in># B. fst x \<le> fst a" using b best_of_full [OF b] by (auto simp: best_of_def)
      then show ?thesis using c by (intro best_beats [of k C B A]) (simp_all add: z add.commute)
    next
      case 3
      then show ?thesis using c z by (simp add: best_of_def)
    qed
  qed
  ultimately show ?thesis
    using sub size subset_mset.add_mono [OF sub(1,2)] unfolding best_of_def by (metis subset_mset.order_trans)
qed

text \<open>
  What a running top-k needs of the way it keeps the best entries; the fold over the blocks of a corpus
  is then proved once for every implementation.
\<close>

locale keeper =
  fixes keep :: "nat \<Rightarrow> (real \<times> 'i::linorder) list \<Rightarrow> (real \<times> 'i) list"
  assumes keep_best: "best_of k (mset (keep k xs)) (mset xs)"
    and keep_sorted: "sorted (map (\<lambda>(s, i). (- s, i)) (keep k xs))"
begin

lemma fold_best:
  assumes "\<And>b. b \<in> set bs \<Longrightarrow> best_of k (mset (found b)) (mset (items b))" and "best_of k (mset acc) X"
  shows "best_of k (mset (foldl (\<lambda>acc b. keep k (acc @ found b)) acc bs)) (X + mset (concat (map items bs)))"
  using assms
proof (induction bs arbitrary: acc X)
  case (Cons b bs)
  have "best_of k (mset (keep k (acc @ found b))) (X + mset (items b))"
    using best_of_union [OF Cons.prems(2) Cons.prems(1) [of b]] keep_best [of k "acc @ found b"] by simp
  from Cons.IH [OF Cons.prems(1) this] show ?case by (simp add: add.assoc)
qed simp

lemma fold_sorted: "sorted (map (\<lambda>(s, i). (- s, i)) acc) \<Longrightarrow>
    sorted (map (\<lambda>(s, i). (- s, i)) (foldl (\<lambda>acc b. keep k (acc @ found b)) acc bs))"
  by (induction bs arbitrary: acc) (simp_all add: keep_sorted)

end

definition keep_top :: "nat \<Rightarrow> (real \<times> 'i::linorder) list \<Rightarrow> (real \<times> 'i) list" where
  \<comment> \<open>\<open>np.lexsort((ids, -scores))[:k]\<close>\<close>
  "keep_top k xs = take k (py_sorted (\<lambda>(s, i). (- s, i)) xs)"

interpretation top: keeper keep_top
proof
  fix k and xs :: "(real \<times> 'i::linorder) list"
  let ?ys = "py_sorted (\<lambda>(s, i). (- s, i)) xs"
  have srt: "sorted (map (\<lambda>(s, i). (- s, i)) ?ys)" by (rule sorted_asc.rank_sorted)
  show "sorted (map (\<lambda>(s, i). (- s, i)) (keep_top k xs))"
    using sorted_wrt_take [OF srt, of k] by (simp add: keep_top_def take_map)
  have split: "mset xs = mset (take k ?ys) + mset (drop k ?ys)"
    by (metis append_take_drop_id mset_append sorted_asc.rank_mset)
  have "sorted_wrt (\<lambda>a b. fst b \<le> fst a) ?ys"
    using srt unfolding sorted_map by (rule sorted_wrt_mono_rel [rotated]) (auto simp: less_eq_prod_simp)
  then have "\<forall>a \<in> set (take k ?ys). \<forall>b \<in> set (drop k ?ys). fst b \<le> fst a"
    by (metis append_take_drop_id sorted_wrt_append)
  then show "best_of k (mset (keep_top k xs)) (mset xs)"
    unfolding best_of_def split by (simp add: keep_top_def sort_simps min.commute)
qed

section \<open>Search in blocks\<close>

type_synonym vector = "real list"

definition inner :: "vector \<Rightarrow> vector \<Rightarrow> real" where
  "inner x y = sum_list (map2 (*) x y)"

definition block_rows :: "nat \<Rightarrow> 'v list \<Rightarrow> (nat \<times> 'v list) list" where
  \<comment> \<open>\<open>(c0, xb[c0:c0 + chunk])\<close> for \<open>c0 in range(0, n, chunk)\<close>\<close>
  "block_rows chunk xb = map (\<lambda>(j, b). (chunk * j, b)) (enumerate 0 (slices chunk xb))"

definition mine_block :: "(real list \<Rightarrow> nat \<Rightarrow> nat list) \<Rightarrow> nat \<Rightarrow> vector \<Rightarrow> nat \<times> vector list \<Rightarrow> (real \<times> nat) list" where
  \<comment> \<open>\<open>part xs kk\<close> is \<open>np.argpartition(xs, kk - 1)[:kk]\<close>\<close>
  "mine_block part k q = (\<lambda>(c0, b).
     (let sc = map (inner q) b; kk = min k (length sc)
      in map (\<lambda>i. (sc ! i, i + c0)) (part (map uminus sc) kk)))"

definition mine_query :: "(real list \<Rightarrow> nat \<Rightarrow> nat list) \<Rightarrow> vector list \<Rightarrow> nat \<Rightarrow> nat \<Rightarrow> vector \<Rightarrow> (real \<times> nat) list" where
  "mine_query part xb k chunk q =
     foldl (\<lambda>acc b. keep_top k (acc @ mine_block part k q b)) [] (block_rows chunk xb)"

definition mine_exact_topk :: "(real list \<Rightarrow> nat \<Rightarrow> nat list) \<Rightarrow> vector list \<Rightarrow> vector list \<Rightarrow> nat \<Rightarrow> nat \<Rightarrow> nat \<Rightarrow>
    (real \<times> nat) list list res" where
  \<comment> \<open>\<open>rerank.mine.exact_topk\<close>; the queries go through in batches, every query on its own\<close>
  "mine_exact_topk part xb queries k batch chunk =
     (if chunk = 0 then Inl ValueError
      else if xb = [] then Inr (map (\<lambda>_. []) queries)
      else if batch = 0 then Inl ValueError
      else Inr (concat (map (map (mine_query part xb (min k (length xb)) chunk)) (slices batch queries))))"

definition flat_block :: "(vector list \<Rightarrow> vector \<Rightarrow> nat \<Rightarrow> (real \<times> nat) list) \<Rightarrow> nat list \<Rightarrow> nat \<Rightarrow> vector \<Rightarrow> nat \<times> vector list \<Rightarrow>
    (real \<times> nat) list" where
  \<comment> \<open>\<open>search b q kk\<close> is one row of \<open>IndexFlatIP.search\<close>; row ids become document ids\<close>
  "flat_block search ids k q = (\<lambda>(s, b). map (\<lambda>(x, i). (x, ids ! (i + s))) (search b q (min k (length b))))"

definition flat_query :: "(vector list \<Rightarrow> vector \<Rightarrow> nat \<Rightarrow> (real \<times> nat) list) \<Rightarrow> vector list \<Rightarrow> nat list \<Rightarrow> nat \<Rightarrow> nat \<Rightarrow> vector \<Rightarrow>
    (real \<times> nat) list" where
  "flat_query search corpus ids k block q =
     foldl (\<lambda>acc b. keep_top k (acc @ flat_block search ids k q b)) [] (block_rows block corpus)"

definition flat_exact_topk :: "(vector list \<Rightarrow> vector \<Rightarrow> nat \<Rightarrow> (real \<times> nat) list) \<Rightarrow> vector list \<Rightarrow> vector list \<Rightarrow> nat list \<Rightarrow>
    nat \<Rightarrow> nat \<Rightarrow> (real \<times> nat) list list res" where
  \<comment> \<open>\<open>dense.flat.exact_topk\<close>\<close>
  "flat_exact_topk search queries corpus ids k block =
     (if block = 0 then Inl ValueError else Inr (map (flat_query search corpus ids k block) queries))"

definition flat_run :: "qid list \<Rightarrow> (real \<times> nat) list list \<Rightarrow> string" where
  \<comment> \<open>the run file of a split\<close>
  "flat_run qids res = write_run (map2 (\<lambda>q hits. (q, map (\<lambda>(s, i). (str_nat i, s)) hits)) qids res) ''dense-flat-1m''"

definition flat_truth :: "(real \<times> nat) list list \<Rightarrow> nat list" where
  \<comment> \<open>\<open>I[:, :100].reshape(-1)\<close>, the ground truth of dev\<close>
  "flat_truth res = concat (map (\<lambda>hits. map snd (take 100 hits)) res)"

section \<open>Blocked search is exact\<close>

definition part_ok :: "(real list \<Rightarrow> nat \<Rightarrow> nat list) \<Rightarrow> bool" where
  \<comment> \<open>\<open>argpartition\<close>: \<open>k\<close> different positions, no other position holds a smaller element\<close>
  "part_ok part =
     (\<forall>xs k. k \<le> length xs \<longrightarrow> length (part xs k) = k \<and> distinct (part xs k) \<and> set (part xs k) \<subseteq> {..<length xs} \<and>
        (\<forall>i \<in> set (part xs k). \<forall>j < length xs. j \<notin> set (part xs k) \<longrightarrow> xs ! i \<le> xs ! j))"

definition scored_rows :: "vector \<Rightarrow> vector list \<Rightarrow> (real \<times> nat) list" where
  "scored_rows q b = map (\<lambda>i. (inner q (b ! i), i)) [0..<length b]"

definition search_ok :: "(vector list \<Rightarrow> vector \<Rightarrow> nat \<Rightarrow> (real \<times> nat) list) \<Rightarrow> bool" where
  \<comment> \<open>a flat index returns the \<open>k\<close> rows of largest inner product with their products\<close>
  "search_ok search = (\<forall>b q k. k \<le> length b \<longrightarrow> best_of k (mset (search b q k)) (mset (scored_rows q b)))"

lemma best_of_image:
  assumes "best_of k A X"
  shows "best_of k (image_mset (\<lambda>(s, i). (s, h i)) A) (image_mset (\<lambda>(s, i). (s, h i)) X)"
proof -
  have sub: "A \<subseteq># X" using assms by (simp add: best_of_def)
  then have "image_mset (\<lambda>(s, i). (s, h i)) X - image_mset (\<lambda>(s, i). (s, h i)) A = image_mset (\<lambda>(s, i). (s, h i)) (X - A)"
    by (simp add: image_mset_Diff)
  then show ?thesis using assms image_mset_subseteq_mono [OF sub] by (fastforce simp: best_of_def)
qed

lemma best_of_clip: "best_of (min k (size X)) A X = best_of k A X"
  by (simp add: best_of_def min.assoc)

lemma part_best:
  assumes "part_ok part" and "k \<le> length sc"
  shows "best_of k (mset (map (\<lambda>i. (sc ! i, i)) (part (map uminus sc) k))) (mset (map (\<lambda>i. (sc ! i, i)) [0..<length sc]))"
proof -
  let ?is = "part (map uminus sc) k" and ?all = "[0..<length sc]"
  have "k \<le> length (map uminus sc)" using assms(2) by simp
  then have p: "length ?is = k" "distinct ?is" "set ?is \<subseteq> {..<length sc}"
    "\<forall>i \<in> set ?is. \<forall>j < length sc. j \<notin> set ?is \<longrightarrow> map uminus sc ! i \<le> map uminus sc ! j"
    using assms(1) unfolding part_ok_def by (metis length_map)+
  have sub: "mset ?is \<subseteq># mset ?all"
    using p(2,3) by (metis atLeast_upt distinct_upt mset_set_set finite_set msubset_mset_set_iff)
  have "fst x \<le> fst a" if m: "a \<in># mset (map (\<lambda>i. (sc ! i, i)) ?is)" "x \<in># mset (map (\<lambda>i. (sc ! i, i)) ?all) - mset (map (\<lambda>i. (sc ! i, i)) ?is)" for a x
  proof -
    obtain i where i: "i \<in> set ?is" "a = (sc ! i, i)" using m(1) by auto
    have "x \<in># image_mset (\<lambda>i. (sc ! i, i)) (mset ?all - mset ?is)" using m(2) sub by (simp add: image_mset_Diff)
    then obtain j where j: "j \<in># mset ?all - mset ?is" "x = (sc ! j, j)" by auto
    have "count (mset ?is) j < count (mset ?all) j" using j(1) by (simp add: in_diff_count)
    moreover have "count (mset ?all) j \<le> 1" by (metis distinct_upt distinct_count_atmost_1 order_refl le_numeral_extra(3) zero_le_one)
    ultimately have "count (mset ?is) j = 0" by linarith
    then have "j \<notin> set ?is" by (metis count_eq_zero_iff set_mset_mset)
    moreover have "j \<in> set ?all" using j(1) by (metis in_diffD set_mset_mset)
    ultimately show ?thesis using p(4) i j(2) p(3) by fastforce
  qed
  then show ?thesis
    unfolding best_of_def using image_mset_subseteq_mono [OF sub, of "\<lambda>i. (sc ! i, i)"] p(1) assms(2) by (simp add: min_absorb1)
qed

lemma concat_blocks:
  assumes "0 < c"
  shows "concat (map (\<lambda>(j, b). map (\<lambda>i. (f (b ! i), i + c * j)) [0..<length b]) (enumerate m (slices c xs))) =
     map (\<lambda>i. (f (xs ! i), i + c * m)) [0..<length xs]"
  using assms
proof (induction c xs arbitrary: m rule: slices.induct)
  case (1 c xs)
  show ?case
  proof (cases "xs = []")
    case False
    let ?n = "min c (length xs)"
    let ?g = "\<lambda>m xs. concat (map (\<lambda>(j, b). map (\<lambda>i. (f (b ! i), i + c * j)) [0..<length b]) (enumerate m (slices c xs)))"
    have "?g m xs = map (\<lambda>i. (f (take c xs ! i), i + c * m)) [0..<?n] @ ?g (Suc m) (drop c xs)"
      using False "1.prems" by (simp add: slices_step min.commute)
    also have "map (\<lambda>i. (f (take c xs ! i), i + c * m)) [0..<?n] = map (\<lambda>i. (f (xs ! i), i + c * m)) [0..<?n]"
      by simp
    also have "?g (Suc m) (drop c xs) = map (\<lambda>i. (f (drop c xs ! i), i + c * Suc m)) [0..<length (drop c xs)]"
      using "1.IH" False "1.prems" by simp
    also have "\<dots> = map (\<lambda>i. (f (xs ! i), i + c * m)) [?n..<length xs]"
    proof (cases "c \<le> length xs")
      case True
      have "map (\<lambda>i. (f (drop c xs ! i), i + c * Suc m)) [0..<length (drop c xs)]
          = map (\<lambda>i. (f (xs ! i), i + c * m)) (map (\<lambda>i. i + c) [0..<length xs - c])"
        using True by (simp add: add.commute add.left_commute)
      then show ?thesis using True by (simp add: map_add_upt)
    qed simp
    also have "map (\<lambda>i. (f (xs ! i), i + c * m)) [0..<?n] @ \<dots> = map (\<lambda>i. (f (xs ! i), i + c * m)) [0..<length xs]"
      using upt_add_eq_append [of 0 ?n "length xs - ?n"] by (simp flip: map_append)
    finally show ?thesis .
  qed simp
qed

lemma block_items:
  "0 < c \<Longrightarrow> concat (map (\<lambda>(c0, b). map (\<lambda>(s, i). (s, i + c0)) (scored_rows q b)) (block_rows c xb)) = scored_rows q xb"
  using concat_blocks [of c "inner q" 0 xb]
  by (simp add: block_rows_def scored_rows_def comp_def case_prod_unfold)

lemma mine_block_best:
  assumes "part_ok part"
  shows "best_of k (mset (mine_block part k q (c0, b))) (mset (map (\<lambda>(s, i). (s, i + c0)) (scored_rows q b)))"
proof -
  have "best_of (min k (length b)) (mset (map (\<lambda>i. (map (inner q) b ! i, i)) (part (map uminus (map (inner q) b)) (min k (length b)))))
      (mset (map (\<lambda>i. (map (inner q) b ! i, i)) [0..<length b]))"
    using part_best [OF assms, of "min k (length b)" "map (inner q) b"] by simp
  also have "map (\<lambda>i. (map (inner q) b ! i, i)) [0..<length b] = scored_rows q b" by (simp add: scored_rows_def)
  finally have "best_of k (mset (map (\<lambda>i. (map (inner q) b ! i, i)) (part (map uminus (map (inner q) b)) (min k (length b))))) (mset (scored_rows q b))"
    using best_of_clip [of k "mset (scored_rows q b)"] by (simp add: scored_rows_def)
  from best_of_image [OF this, of "\<lambda>i. i + c0"] show ?thesis
    by (simp add: mine_block_def Let_def comp_def flip: mset_map)
qed

lemma flat_block_best:
  assumes "search_ok search"
  shows "best_of k (mset (flat_block search ids k q (s, b))) (mset (map (\<lambda>(x, i). (x, ids ! (i + s))) (scored_rows q b)))"
proof -
  have "best_of (min k (length b)) (mset (search b q (min k (length b)))) (mset (scored_rows q b))"
    using assms by (simp add: search_ok_def)
  then have "best_of k (mset (search b q (min k (length b)))) (mset (scored_rows q b))"
    using best_of_clip [of k "mset (scored_rows q b)"] by (simp add: scored_rows_def)
  from best_of_image [OF this, of "\<lambda>i. ids ! (i + s)"] show ?thesis
    by (simp add: flat_block_def flip: mset_map)
qed

text \<open>C19: blocked search is exact search: whatever the block and batch sizes, for every query both
  implementations return the top k of all rows of the corpus by inner product (no row left out scores
  higher), sorted by score and then by id, provided each block's search is correct.\<close>

theorem blocked_search_exact:
  assumes "part_ok part" and "search_ok search" and "0 < chunk" and "0 < batch"
  shows "(\<exists>res. mine_exact_topk part xb queries k batch chunk = Inr res \<and> length res = length queries \<and>
       (\<forall>j < length queries. best_of k (mset (res ! j)) (mset (scored_rows (queries ! j) xb)) \<and>
          sorted (map (\<lambda>(s, i). (- s, i)) (res ! j)))) \<and>
     (\<exists>res. flat_exact_topk search queries xb ids k chunk = Inr res \<and> length res = length queries \<and>
       (\<forall>j < length queries. best_of k (mset (res ! j)) (mset (map (\<lambda>(s, i). (s, ids ! i)) (scored_rows (queries ! j) xb))) \<and>
          sorted (map (\<lambda>(s, i). (- s, i)) (res ! j))))"
proof -
  have mine: "best_of k (mset (mine_query part xb (min k (length xb)) chunk q)) (mset (scored_rows q xb))" for q
  proof -
    have "best_of (min k (length xb)) (mset (mine_block part (min k (length xb)) q b))
        (mset ((\<lambda>(c0, b). map (\<lambda>(s, i). (s, i + c0)) (scored_rows q b)) b))" for b
      using mine_block_best [OF assms(1)] by (cases b) simp
    from top.fold_best [of "block_rows chunk xb" "min k (length xb)" "mine_block part (min k (length xb)) q"
        "\<lambda>(c0, b). map (\<lambda>(s, i). (s, i + c0)) (scored_rows q b)" "[]" "{#}", OF this]
    have "best_of (min k (length xb)) (mset (mine_query part xb (min k (length xb)) chunk q)) (mset (scored_rows q xb))"
      by (simp add: mine_query_def best_of_def block_items [OF assms(3)])
    then show ?thesis using best_of_clip [of k "mset (scored_rows q xb)"] by (simp add: scored_rows_def)
  qed
  have flat: "best_of k (mset (flat_query search xb ids k chunk q)) (mset (map (\<lambda>(s, i). (s, ids ! i)) (scored_rows q xb)))" for q
  proof -
    have "best_of k (mset (flat_block search ids k q b)) (mset ((\<lambda>(c0, b). map (\<lambda>(s, i). (s, ids ! (i + c0))) (scored_rows q b)) b))" for b
      using flat_block_best [OF assms(2)] by (cases b) simp
    from top.fold_best [of "block_rows chunk xb" k "flat_block search ids k q"
        "\<lambda>(c0, b). map (\<lambda>(s, i). (s, ids ! (i + c0))) (scored_rows q b)" "[]" "{#}", OF this]
    have b: "best_of k (mset (flat_query search xb ids k chunk q))
        (mset (concat (map (\<lambda>(c0, b). map (\<lambda>(s, i). (s, ids ! (i + c0))) (scored_rows q b)) (block_rows chunk xb))))"
      by (simp add: flat_query_def best_of_def)
    have "concat (map (\<lambda>(c0, b). map (\<lambda>(s, i). (s, ids ! (i + c0))) (scored_rows q b)) (block_rows chunk xb))
        = map (\<lambda>(s, i). (s, ids ! i)) (concat (map (\<lambda>(c0, b). map (\<lambda>(s, i). (s, i + c0)) (scored_rows q b)) (block_rows chunk xb)))"
      by (simp add: map_concat comp_def case_prod_unfold)
    then show ?thesis using b by (simp only: block_items [OF assms(3)])
  qed
  have srt: "sorted (map (\<lambda>(s, i). (- s, i)) (mine_query part xb (min k (length xb)) chunk q))"
    "sorted (map (\<lambda>(s, i). (- s, i)) (flat_query search xb ids k chunk q))" for q
    unfolding mine_query_def flat_query_def by (rule top.fold_sorted; simp)+
  have "mine_exact_topk part xb queries k batch chunk = Inr (map (mine_query part xb (min k (length xb)) chunk) queries)"
    using assms(3,4)
    by (simp add: mine_exact_topk_def concat_slices mine_query_def block_rows_def flip: map_concat)
  moreover have "flat_exact_topk search queries xb ids k chunk = Inr (map (flat_query search xb ids k chunk) queries)"
    using assms(3) by (simp add: flat_exact_topk_def)
  ultimately show ?thesis using mine flat srt by auto
qed

definition part_sort :: "real list \<Rightarrow> nat \<Rightarrow> nat list" where
  "part_sort xs k = take k (py_sorted (\<lambda>i. xs ! i) [0..<length xs])"

definition search_sort :: "vector list \<Rightarrow> vector \<Rightarrow> nat \<Rightarrow> (real \<times> nat) list" where
  "search_sort b q k = keep_top k (scored_rows q b)"

lemma part_sort_ok: "part_ok part_sort"
proof -
  have "length (part_sort xs k) = k \<and> distinct (part_sort xs k) \<and> set (part_sort xs k) \<subseteq> {..<length xs} \<and>
      (\<forall>i \<in> set (part_sort xs k). \<forall>j < length xs. j \<notin> set (part_sort xs k) \<longrightarrow> xs ! i \<le> xs ! j)"
    if k: "k \<le> length xs" for xs :: "real list" and k
  proof -
    let ?ys = "py_sorted (\<lambda>i. xs ! i) [0..<length xs]"
    have set: "set ?ys = {..<length xs}" "length ?ys = length xs" "distinct ?ys" by (simp_all add: sort_simps lessThan_atLeast0)
    have "sorted (map (\<lambda>i. xs ! i) ?ys)" by (rule sorted_asc.rank_sorted)
    then have "sorted_wrt (\<lambda>i j. xs ! i \<le> xs ! j) (take k ?ys @ drop k ?ys)" by (simp add: sorted_map)
    then have "\<forall>i \<in> set (take k ?ys). \<forall>j \<in> set (drop k ?ys). xs ! i \<le> xs ! j" unfolding sorted_wrt_append by blast
    moreover have "j \<in> set (take k ?ys) \<or> j \<in> set (drop k ?ys)" if "j < length xs" for j
      using that set(1) by (metis Un_iff append_take_drop_id lessThan_iff set_append)
    moreover have "set (take k ?ys) \<subseteq> {..<length xs}" using set(1) set_take_subset by metis
    ultimately show ?thesis using set k by (auto simp: part_sort_def)
  qed
  then show ?thesis unfolding part_ok_def by blast
qed

theorem blocked_search_exact_witness:
  "\<exists>res. mine_exact_topk part_sort [[1, 0], [0, 1], [1, 1]] [[2, 1]] 2 1 2 = Inr res \<and>
     best_of 2 (mset (res ! 0)) (mset [(2, 0), (1, 1), (3, 2)])"
proof -
  have "search_ok search_sort" by (simp add: search_ok_def search_sort_def top.keep_best)
  from blocked_search_exact [OF part_sort_ok this, of 2 1 "[[1, 0], [0, 1], [1, 1]]" "[[2, 1]]" 2 "[7, 8, 9]"]
  show ?thesis by (auto simp: scored_rows_def inner_def numeral_2_eq_2)
qed

end
