(* ===== verification/Sampler.thy ===== *)
theory Sampler
  imports Py_Float
begin

text \<open>
  \<open>py/hybridsearch/rerank/sampler.py\<close>: training groups of one positive and \<open>n_neg\<close> negatives.  numpy's
  generator is the record \<open>perm_ops\<close>: a fresh generator from two seeds, a permutation and an integer
  draw.  A set of ids is a list of its members.  The sampler's counter of top-ups and its cache of epoch
  orders are state that every operation returns.  The lemmas give the invariants of a group and show
  that a batch depends on the seed and the step alone.
\<close>

section \<open>Mined queries\<close>

record mined_query =
  mq_qid :: string
  mq_pos :: "string list"
  mq_bm25 :: "string list"
  mq_dense :: "string list"
  mq_random :: "string list"

definition STRATEGIES :: "string list" where
  "STRATEGIES = [''random'', ''bm25-hard'', ''dense-hard'', ''mixed'']"

definition lower_char :: "char \<Rightarrow> char" where
  \<comment> \<open>\<open>str.lower\<close> on one character below 256\<close>
  "lower_char c = (let n = code c in if 65 \<le> n \<and> n \<le> 90 \<or> 192 \<le> n \<and> n \<le> 222 \<and> n \<noteq> 215 then char_of (n + 32) else c)"

function ws_sub :: "string \<Rightarrow> string" where
  \<comment> \<open>\<open>re.sub("\\s+", " ", t)\<close>\<close>
  "ws_sub [] = []"
| "ws_sub (c # r) = (if is_space_char c then CHR '' '' # ws_sub (dropWhile is_space_char r) else c # ws_sub r)"
  by pat_completeness auto
termination by (relation "measure length") (auto simp: le_imp_less_Suc length_dropWhile_le)

definition norm_text :: "string \<Rightarrow> string" where
  "norm_text t = ws_sub (map lower_char (strip t))"

definition read_mined :: "mined_query list \<Rightarrow> nat option \<Rightarrow> mined_query list" where
  \<comment> \<open>of the records the JSON lines hold; a limit of 0 is no limit\<close>
  "read_mined recs limit = (case limit of None \<Rightarrow> recs | Some l \<Rightarrow> if l = 0 then recs else take l recs)"

definition needed_pids :: "mined_query list \<Rightarrow> string \<Rightarrow> string set" where
  "needed_pids mined strategy =
     (\<Union>m \<in> set mined. set (mq_pos m) \<union> set (mq_random m) \<union>
        (if strategy = ''bm25-hard'' \<or> strategy = ''mixed'' then set (mq_bm25 m) else {}) \<union>
        (if strategy = ''dense-hard'' \<or> strategy = ''mixed'' then set (mq_dense m) else {}))"

section \<open>The sampler\<close>

record 'g perm_ops =
  pm_fresh :: "nat \<Rightarrow> nat \<Rightarrow> 'g" \<comment> \<open>\<open>np.random.default_rng([a, b])\<close>\<close>
  pm_permutation :: "'g \<Rightarrow> nat \<Rightarrow> nat list \<times> 'g"
  pm_below :: "'g \<Rightarrow> nat \<Rightarrow> nat \<times> 'g" \<comment> \<open>\<open>rng.integers(n)\<close>\<close>

definition perm_ok :: "'g perm_ops \<Rightarrow> bool" where
  \<comment> \<open>what numpy documents of the two draws\<close>
  "perm_ok R = ((\<forall>g n. mset (fst (pm_permutation R g n)) = mset [0..<n]) \<and> (\<forall>g n. 0 < n \<longrightarrow> fst (pm_below R g n) < n))"

record sampler =
  gs_queries :: "(string, string) dict"
  gs_passages :: "(string, string) dict"
  gs_strategy :: string
  gs_n_neg :: nat
  gs_seed :: nat
  gs_mix_bm25 :: real
  gs_mined :: "mined_query list"
  gs_judged :: "(string, string list) dict"
  gs_pos_text :: "(string, string list) dict"
  gs_topups :: int
  gs_orders :: "(nat, nat list) dict"

definition make_sampler :: "mined_query list \<Rightarrow> (string, string) dict \<Rightarrow> (string, string) dict \<Rightarrow> string \<Rightarrow> nat \<Rightarrow> nat \<Rightarrow> real \<Rightarrow>
    (string, string list) dict \<Rightarrow> sampler res" where
  "make_sampler mined queries passages strategy n_neg seed mix judged =
     (if strategy \<notin> set STRATEGIES then Inl ValueError
      else let kept = filter (\<lambda>m. dhas queries (mq_qid m) \<and> list_ex (dhas passages) (mq_pos m)) mined
           in Inr \<lparr>gs_queries = queries, gs_passages = passages, gs_strategy = strategy, gs_n_neg = n_neg, gs_seed = seed,
                gs_mix_bm25 = mix, gs_mined = kept, gs_judged = judged,
                gs_pos_text = dict_of (map (\<lambda>m. (mq_qid m, map (\<lambda>p. norm_text (dget passages p [])) (filter (dhas passages) (mq_pos m)))) kept),
                gs_topups = 0, gs_orders = []\<rparr>)"

definition epoch_perm :: "'g perm_ops \<Rightarrow> sampler \<Rightarrow> nat \<Rightarrow> nat list" where
  "epoch_perm R s epoch = fst (pm_permutation R (pm_fresh R (gs_seed s) (10000 + epoch)) (length (gs_mined s)))"

definition epoch_order :: "'g perm_ops \<Rightarrow> sampler \<Rightarrow> nat \<Rightarrow> nat list \<times> sampler" where
  "epoch_order R s epoch =
     (if dhas (gs_orders s) epoch then (dget (gs_orders s) epoch [], s)
      else let orders = (if length (gs_orders s) > 2 then [] else gs_orders s); p = epoch_perm R s epoch
           in (p, s\<lparr>gs_orders := dset orders epoch p\<rparr>))"

definition neg_ok :: "sampler \<Rightarrow> mined_query \<Rightarrow> string \<Rightarrow> string set \<Rightarrow> bool" where
  \<comment> \<open>\<open>_ok\<close>; \<open>gs_pos_text\<close> has every query of the sampler (\<open>pos_text_made\<close>), so its default is never taken\<close>
  "neg_ok s m pid taken =
     (pid \<notin> taken \<and> pid \<notin> set (mq_pos m) \<and> pid \<notin> set (dget (gs_judged s) (mq_qid m) []) \<and>
      dhas (gs_passages s) pid \<and> norm_text (dget (gs_passages s) pid []) \<notin> set (dget (gs_pos_text s) (mq_qid m) []))"

fun draw_scan :: "sampler \<Rightarrow> mined_query \<Rightarrow> string list \<Rightarrow> int \<Rightarrow> nat list \<Rightarrow> string list \<Rightarrow> string set \<Rightarrow> string list \<times> string set" where
  "draw_scan s m pl n [] out taken = (out, taken)"
| "draw_scan s m pl n (j # js) out taken =
     (if int (length out) = n then (out, taken)
      else if neg_ok s m (pl ! j) taken then draw_scan s m pl n js (out @ [pl ! j]) (insert (pl ! j) taken)
      else draw_scan s m pl n js out taken)"

definition draw_from :: "'g perm_ops \<Rightarrow> sampler \<Rightarrow> mined_query \<Rightarrow> string list \<Rightarrow> int \<Rightarrow> string set \<Rightarrow> 'g \<Rightarrow> string list \<times> string set \<times> 'g" where
  \<comment> \<open>\<open>_draw\<close>\<close>
  "draw_from R s m pl n taken g =
     (let (perm, g') = pm_permutation R g (length pl); (out, taken') = draw_scan s m pl n perm [] taken
      in (out, taken', g'))"

definition strategy_negs :: "'g perm_ops \<Rightarrow> sampler \<Rightarrow> mined_query \<Rightarrow> 'g \<Rightarrow> string list \<times> string set \<times> 'g" where
  \<comment> \<open>the negatives of the strategy's own pools\<close>
  "strategy_negs R s m g =
     (let n = int (gs_n_neg s) in
      if gs_strategy s = ''random'' then draw_from R s m (mq_random m) n {} g
      else if gs_strategy s = ''bm25-hard'' then draw_from R s m (mq_bm25 m) n {} g
      else if gs_strategy s = ''dense-hard'' then draw_from R s m (mq_dense m) n {} g
      else (let nb = round_half_even (real (gs_n_neg s) * gs_mix_bm25 s);
                (negs, taken, g1) = draw_from R s m (mq_bm25 m) nb {} g;
                (more, taken', g2) = draw_from R s m (mq_dense m) (n - int (length negs)) taken g1
            in (negs @ more, taken', g2)))"

type_synonym sample = "string \<times> string \<times> string list"

definition sample_group :: "'g perm_ops \<Rightarrow> sampler \<Rightarrow> mined_query \<Rightarrow> 'g \<Rightarrow> (sample \<times> sampler \<times> 'g) res" where
  \<comment> \<open>\<open>group\<close>; drawing from no candidate raises ValueError\<close>
  "sample_group R s m g =
     (let cands = filter (dhas (gs_passages s)) (mq_pos m) in
      if cands = [] then Inl ValueError
      else let (i, g1) = pm_below R g (length cands); pos = cands ! i;
               (negs, taken, g2) = strategy_negs R s m g1; short = int (gs_n_neg s) - int (length negs)
           in if short > 0
              then (let (more, _, g3) = draw_from R s m (mq_random m) short taken g2
                    in Inr ((mq_qid m, pos, negs @ more), s\<lparr>gs_topups := gs_topups s + short\<rparr>, g3))
              else Inr ((mq_qid m, pos, negs), s, g2))"

fun batch_loop :: "'g perm_ops \<Rightarrow> nat list \<Rightarrow> sampler \<Rightarrow> 'g \<Rightarrow> (sample list \<times> sampler) res" where
  \<comment> \<open>over the positions \<open>k\<close>; \<open>divmod(k, 0)\<close> raises ZeroDivisionError\<close>
  "batch_loop R [] s g = Inr ([], s)"
| "batch_loop R (k # ks) s g =
     (let n = length (gs_mined s) in
      if n = 0 then Inl ZeroDivisionError
      else let (order, s1) = epoch_order R s (k div n); m = gs_mined s ! (order ! (k mod n))
           in res_bind (sample_group R s1 m g) (\<lambda>(x, s2, g'). res_bind (batch_loop R ks s2 g') (\<lambda>(xs, s3). Inr (x # xs, s3))))"

definition batch :: "'g perm_ops \<Rightarrow> sampler \<Rightarrow> nat \<Rightarrow> nat \<Rightarrow> (sample list \<times> sampler) res" where
  "batch R s step batch_size =
     batch_loop R (map (\<lambda>i. step * batch_size + i) [0..<batch_size]) s (pm_fresh R (gs_seed s) step)"

section \<open>What a group may hold\<close>

definition negs_ok :: "sampler \<Rightarrow> mined_query \<Rightarrow> string list \<Rightarrow> bool" where
  \<comment> \<open>distinct, never judged or positive, and never the text of a positive\<close>
  "negs_ok s m negs = (distinct negs \<and> (\<forall>p \<in> set negs. neg_ok s m p {}))"

lemma neg_ok_weaken: "neg_ok s m p taken \<Longrightarrow> neg_ok s m p {}"
  by (simp add: neg_ok_def)

lemma draw_scan_ok:
  assumes "draw_scan s m pl n js out taken = (out', taken')" and "set out \<subseteq> taken" and "distinct out"
  shows "\<exists>new. out' = out @ new \<and> distinct new \<and> taken' = taken \<union> set new \<and> (\<forall>p \<in> set new. neg_ok s m p taken) \<and>
     (int (length out) \<le> n \<longrightarrow> int (length out') \<le> n)"
  using assms
proof (induction js arbitrary: out taken)
  case (Cons j js)
  show ?case
  proof (cases "int (length out) \<noteq> n \<and> neg_ok s m (pl ! j) taken")
    case True
    let ?p = "pl ! j"
    have fresh: "?p \<notin> taken" using True by (simp add: neg_ok_def)
    obtain new where new: "out' = (out @ [?p]) @ new" "distinct new" "taken' = insert ?p taken \<union> set new"
      "\<forall>p \<in> set new. neg_ok s m p (insert ?p taken)" "int (length (out @ [?p])) \<le> n \<longrightarrow> int (length out') \<le> n"
    proof -
      have "draw_scan s m pl n js (out @ [?p]) (insert ?p taken) = (out', taken')" using Cons.prems(1) True by simp
      moreover have "set (out @ [?p]) \<subseteq> insert ?p taken" "distinct (out @ [?p])" using Cons.prems(2,3) fresh by auto
      ultimately show thesis using that Cons.IH [of "out @ [?p]" "insert ?p taken"] by blast
    qed
    moreover have "neg_ok s m p taken \<and> p \<noteq> ?p" if "p \<in> set new" for p using new(4) that by (auto simp: neg_ok_def)
    ultimately show ?thesis using True by (intro exI [of _ "?p # new"]) auto
  next
    case False
    then show ?thesis using Cons.IH [of out taken] Cons.prems by (auto split: if_splits)
  qed
qed auto

lemma draw_from_ok:
  assumes "draw_from R s m pl n taken g = (out, taken', g')"
  shows "distinct out" and "taken' = taken \<union> set out" and "\<forall>p \<in> set out. neg_ok s m p taken" and "0 \<le> n \<Longrightarrow> int (length out) \<le> n"
  using draw_scan_ok [of s m pl n "fst (pm_permutation R g (length pl))" "[]" taken out taken'] assms
  by (auto simp: draw_from_def Let_def case_prod_unfold)

lemma draw_twice_ok:
  assumes "distinct a" and "\<forall>p \<in> set a. neg_ok s m p {}" and "distinct b" and "\<forall>p \<in> set b. neg_ok s m p (set a)"
  shows "negs_ok s m (a @ b)"
  using assms by (auto simp: negs_ok_def neg_ok_def)

lemma strategy_negs_ok:
  assumes "strategy_negs R s m g = (negs, taken, g')"
  shows "negs_ok s m negs \<and> taken = set negs"
proof (cases "gs_strategy s = ''random'' \<or> gs_strategy s = ''bm25-hard'' \<or> gs_strategy s = ''dense-hard''")
  case True
  then obtain pl where "draw_from R s m pl (int (gs_n_neg s)) {} g = (negs, taken, g')"
    using assms by (auto simp: strategy_negs_def Let_def split: if_splits)
  from draw_from_ok [OF this] show ?thesis by (auto simp: negs_ok_def)
next
  case False
  then obtain nb a ta g1 b tb g2 where a: "draw_from R s m (mq_bm25 m) nb {} g = (a, ta, g1)"
    and b: "draw_from R s m (mq_dense m) (int (gs_n_neg s) - int (length a)) ta g1 = (b, tb, g2)"
    and r: "negs = a @ b" "taken = tb"
    using assms by (auto simp: strategy_negs_def Let_def case_prod_unfold prod_eq_iff)
  show ?thesis using draw_twice_ok draw_from_ok [OF a] draw_from_ok [OF b] r by auto
qed

lemma sample_group_ok:
  assumes "perm_ok R" and "sample_group R s m g = Inr (x, s', g')"
  obtains pos negs where "x = (mq_qid m, pos, negs)" and "pos \<in> set (mq_pos m)" and "dhas (gs_passages s) pos" and "negs_ok s m negs"
    and "gs_topups s \<le> gs_topups s'" and "s' = s\<lparr>gs_topups := gs_topups s'\<rparr>"
proof -
  let ?cands = "filter (dhas (gs_passages s)) (mq_pos m)"
  obtain i g1 negs taken g2 where i: "pm_below R g (length ?cands) = (i, g1)" and sn: "strategy_negs R s m g1 = (negs, taken, g2)"
    by (metis prod_cases3 surj_pair)
  have c: "?cands \<noteq> []" using assms(2) by (auto simp: sample_group_def)
  then have "i < length ?cands" using assms(1) i by (metis perm_ok_def fst_conv length_greater_0_conv)
  then have pos: "?cands ! i \<in> set ?cands" by (rule nth_mem)
  note ok = strategy_negs_ok [OF sn]
  obtain more t g3 where m: "draw_from R s m (mq_random m) (int (gs_n_neg s) - int (length negs)) taken g2 = (more, t, g3)"
    by (metis prod_cases3)
  have both: "negs_ok s m (negs @ more)"
    using draw_from_ok [OF m] ok by (intro draw_twice_ok) (auto simp: negs_ok_def)
  have "taken = set negs" using ok by simp
  note m' = m [unfolded this]
  show thesis
    using assms(2) pos ok both
    by (auto simp: sample_group_def c i sn m' Let_def split: if_splits intro!: that)
qed

lemma epoch_order_state:
  "snd (epoch_order R s e) = s\<lparr>gs_orders := gs_orders (snd (epoch_order R s e))\<rparr>"
  by (simp add: epoch_order_def Let_def)

lemma epoch_order_topups: "gs_topups (snd (epoch_order R s e)) = gs_topups s"
  by (simp add: epoch_order_def Let_def)

definition same_sampler :: "sampler \<Rightarrow> sampler \<Rightarrow> bool" where
  \<comment> \<open>equal up to the counter of top-ups and the cache\<close>
  "same_sampler s t = (s\<lparr>gs_topups := 0, gs_orders := []\<rparr> = t\<lparr>gs_topups := 0, gs_orders := []\<rparr>)"

lemma same_sampler_sel:
  assumes "same_sampler s t"
  shows "gs_queries s = gs_queries t" "gs_passages s = gs_passages t" "gs_strategy s = gs_strategy t" "gs_n_neg s = gs_n_neg t"
    "gs_seed s = gs_seed t" "gs_mix_bm25 s = gs_mix_bm25 t" "gs_mined s = gs_mined t" "gs_judged s = gs_judged t" "gs_pos_text s = gs_pos_text t"
  using assms by (cases s; cases t; simp add: same_sampler_def)+

lemma same_sampler_refl [simp]: "same_sampler s s"
  by (simp add: same_sampler_def)

lemma same_sampler_updates [simp]:
  "same_sampler s (t\<lparr>gs_topups := c\<rparr>) = same_sampler s t" "same_sampler (s\<lparr>gs_topups := c\<rparr>) t = same_sampler s t"
  "same_sampler s (t\<lparr>gs_orders := d\<rparr>) = same_sampler s t" "same_sampler (s\<lparr>gs_orders := d\<rparr>) t = same_sampler s t"
  by (cases s; cases t; simp add: same_sampler_def)+

lemma same_sampler_negs: "same_sampler s t \<Longrightarrow> negs_ok s m negs = negs_ok t m negs"
  by (simp add: negs_ok_def neg_ok_def same_sampler_sel)

definition group_ok :: "sampler \<Rightarrow> sample \<Rightarrow> bool" where
  "group_ok s x = (\<exists>m \<in> set (gs_mined s). \<exists>pos negs. x = (mq_qid m, pos, negs) \<and> pos \<in> set (mq_pos m) \<and>
     dhas (gs_passages s) pos \<and> negs_ok s m negs)"

lemma same_sampler_group: "same_sampler s t \<Longrightarrow> group_ok s x = group_ok t x"
  by (simp add: group_ok_def same_sampler_negs same_sampler_sel)

definition cache_ok :: "'g perm_ops \<Rightarrow> sampler \<Rightarrow> bool" where
  \<comment> \<open>the cache holds the orders the seed determines\<close>
  "cache_ok R s = (\<forall>(e, p) \<in> set (gs_orders s). p = epoch_perm R s e)"

lemma epoch_order_result:
  assumes "cache_ok R s"
  shows "fst (epoch_order R s e) = epoch_perm R s e" and "cache_ok R (snd (epoch_order R s e))"
    and "same_sampler s (snd (epoch_order R s e))"
proof -
  have hit: "dget (gs_orders s) e [] = epoch_perm R s e" if "dhas (gs_orders s) e"
    using assms that dget_in [of e "gs_orders s" "[]"] by (fastforce simp: cache_ok_def dhas_iff)
  show "fst (epoch_order R s e) = epoch_perm R s e"
    using hit by (simp add: epoch_order_def Let_def)
  have "x \<in> set d \<or> x = (k, v)" if "x \<in> set (dset d k v)" for x d and k :: nat and v :: "nat list"
    using that by (induction d) (auto simp: dset_def split: if_splits)
  then show "cache_ok R (snd (epoch_order R s e))"
    using assms by (fastforce simp: epoch_order_def Let_def cache_ok_def epoch_perm_def split: if_splits)
  show "same_sampler s (snd (epoch_order R s e))" by (subst epoch_order_state) simp
qed

lemma epoch_perm_set: "perm_ok R \<Longrightarrow> mset (epoch_perm R s e) = mset [0..<length (gs_mined s)]"
  by (simp add: epoch_perm_def perm_ok_def)

lemma batch_loop_ok:
  assumes "perm_ok R" and "batch_loop R ks s g = Inr (xs, s')" and "cache_ok R s"
  shows "(\<forall>x \<in> set xs. group_ok s x) \<and> length xs = length ks \<and> same_sampler s s' \<and> gs_topups s \<le> gs_topups s' \<and> cache_ok R s'"
  using assms(2,3)
proof (induction ks arbitrary: s g xs)
  case (Cons k ks)
  let ?n = "length (gs_mined s)"
  obtain order s1 where o: "epoch_order R s (k div ?n) = (order, s1)" by fastforce
  have n: "0 < ?n" using Cons.prems(1) by (auto simp: Let_def)
  obtain x s2 g2 ys where x: "sample_group R s1 (gs_mined s ! (order ! (k mod ?n))) g = Inr (x, s2, g2)"
    and ys: "batch_loop R ks s2 g2 = Inr (ys, s')" and xs: "xs = x # ys"
    using Cons.prems(1) n by (auto simp: o Let_def)
  note e = epoch_order_result [OF Cons.prems(2), of "k div ?n", unfolded o fst_conv snd_conv]
  let ?m = "gs_mined s ! (order ! (k mod ?n))"
  have "mset order = mset [0..<?n]" unfolding e(1) by (rule epoch_perm_set [OF assms(1)])
  then have "order ! (k mod ?n) \<in> set [0..<?n]"
    using n by (metis length_upt minus_nat.diff_0 mod_less_divisor mset_eq_length mset_eq_setD nth_mem)
  then have m: "?m \<in> set (gs_mined s)" by simp
  obtain pos negs where g: "x = (mq_qid ?m, pos, negs)" "pos \<in> set (mq_pos ?m)" "dhas (gs_passages s1) pos" "negs_ok s1 ?m negs"
    "gs_topups s1 \<le> gs_topups s2" "s2 = s1\<lparr>gs_topups := gs_topups s2\<rparr>"
    using sample_group_ok [OF assms(1) x] by metis
  have same: "same_sampler s s2" using e(3) g(6) by (metis same_sampler_updates(1))
  have "cache_ok R s2" using e(2) by (subst g(6)) (simp add: cache_ok_def epoch_perm_def)
  then have ih: "(\<forall>x \<in> set ys. group_ok s2 x) \<and> length ys = length ks \<and> same_sampler s2 s' \<and> gs_topups s2 \<le> gs_topups s' \<and> cache_ok R s'"
    using Cons.IH ys by blast
  have "group_ok s x"
    using g(1-4) m same_sampler_sel(2) [OF e(3)] same_sampler_negs [OF e(3)] by (auto simp: group_ok_def)
  moreover have "gs_topups s1 = gs_topups s" using epoch_order_topups [of R s "k div ?n"] by (simp add: o)
  moreover have "same_sampler s s'" using same ih by (simp add: same_sampler_def)
  ultimately show ?case using ih g(5) same_sampler_group [OF same] by (auto simp: xs)
qed simp

section \<open>The sampler the constructor makes\<close>

text \<open>What a sampler goes through: it is made by the constructor and then serves batches.\<close>

inductive sampler_reach :: "'g perm_ops \<Rightarrow> sampler \<Rightarrow> sampler \<Rightarrow> bool" for R s0 where
  made: "sampler_reach R s0 s0"
| served: "sampler_reach R s0 s \<Longrightarrow> batch R s step n = Inr (xs, s') \<Longrightarrow> sampler_reach R s0 s'"

lemma make_sampler_sel:
  assumes "make_sampler mined queries passages strategy n_neg seed mix judged = Inr s"
  shows "gs_mined s = filter (\<lambda>m. dhas queries (mq_qid m) \<and> list_ex (dhas passages) (mq_pos m)) mined"
    and "gs_passages s = passages" and "gs_judged s = judged" and "gs_orders s = []"
    and "gs_pos_text s = dict_of (map (\<lambda>m. (mq_qid m, map (\<lambda>p. norm_text (dget passages p [])) (filter (dhas passages) (mq_pos m)))) (gs_mined s))"
  using assms by (auto simp: make_sampler_def Let_def split: if_splits)

lemma pos_text_made:
  assumes "make_sampler mined queries passages strategy n_neg seed mix judged = Inr s" and "distinct (map mq_qid mined)" and "m \<in> set (gs_mined s)"
  shows "dlookup (gs_pos_text s) (mq_qid m) = Inr (map (\<lambda>p. norm_text (dget passages p [])) (filter (dhas passages) (mq_pos m)))"
    and "dget (gs_pos_text s) (mq_qid m) d = map (\<lambda>p. norm_text (dget passages p [])) (filter (dhas passages) (mq_pos m))"
proof -
  let ?ps = "map (\<lambda>m. (mq_qid m, map (\<lambda>p. norm_text (dget passages p [])) (filter (dhas passages) (mq_pos m)))) (gs_mined s)"
  have "distinct (map mq_qid (gs_mined s))" unfolding make_sampler_sel(1) [OF assms(1)] by (rule distinct_map_filter [OF assms(2)])
  then have d: "distinct (map fst ?ps)" by (simp add: o_def)
  then have "gs_pos_text s = ?ps" by (simp only: make_sampler_sel(5) [OF assms(1)] dict_of_distinct)
  moreover have "map_of ?ps (mq_qid m) = Some (map (\<lambda>p. norm_text (dget passages p [])) (filter (dhas passages) (mq_pos m)))"
    using assms(3) by (intro map_of_is_SomeI [OF d]) auto
  ultimately show "dlookup (gs_pos_text s) (mq_qid m) = Inr (map (\<lambda>p. norm_text (dget passages p [])) (filter (dhas passages) (mq_pos m)))"
    and "dget (gs_pos_text s) (mq_qid m) d = map (\<lambda>p. norm_text (dget passages p [])) (filter (dhas passages) (mq_pos m))"
    by (simp_all add: dlookup_def dget_def)
qed

definition drawable :: "sampler \<Rightarrow> bool" where
  \<comment> \<open>there is a query and every query has a positive with a text\<close>
  "drawable s \<longleftrightarrow> gs_mined s \<noteq> [] \<and> (\<forall>m \<in> set (gs_mined s). \<exists>p \<in> set (mq_pos m). dhas (gs_passages s) p)"

lemma drawable_same: "same_sampler s t \<Longrightarrow> drawable t = drawable s"
  by (simp add: drawable_def same_sampler_sel)

lemma sample_group_total:
  assumes "filter (dhas (gs_passages s)) (mq_pos m) \<noteq> []"
  obtains x s' g' where "sample_group R s m g = Inr (x, s', g')"
proof -
  have "\<exists>r. sample_group R s m g = Inr r" using assms by (simp add: sample_group_def Let_def case_prod_unfold)
  then show thesis using that by auto
qed

lemma batch_loop_total:
  assumes "perm_ok R" and "cache_ok R s" and "drawable s"
  shows "\<exists>xs s'. batch_loop R ks s g = Inr (xs, s')"
  using assms(2,3)
proof (induction ks arbitrary: s g)
  case (Cons k ks)
  let ?n = "length (gs_mined s)"
  obtain order s1 where o: "epoch_order R s (k div ?n) = (order, s1)" by fastforce
  note e = epoch_order_result [OF Cons.prems(1), of "k div ?n", unfolded o fst_conv snd_conv]
  let ?m = "gs_mined s ! (order ! (k mod ?n))"
  have n: "0 < ?n" using Cons.prems(2) by (simp add: drawable_def)
  have "mset order = mset [0..<?n]" unfolding e(1) by (rule epoch_perm_set [OF assms(1)])
  then have "order ! (k mod ?n) \<in> set [0..<?n]"
    using n by (metis length_upt minus_nat.diff_0 mod_less_divisor mset_eq_length mset_eq_setD nth_mem)
  then have "filter (dhas (gs_passages s1)) (mq_pos ?m) \<noteq> []"
    using Cons.prems(2) same_sampler_sel(2) [OF e(3)] by (fastforce simp: drawable_def filter_empty_conv)
  then obtain x s2 g2 where x: "sample_group R s1 ?m g = Inr (x, s2, g2)"
    using sample_group_total by metis
  have s2: "s2 = s1\<lparr>gs_topups := gs_topups s2\<rparr>" using sample_group_ok [OF assms(1) x] by metis
  have "cache_ok R s2" using e(2) by (subst s2) (simp add: cache_ok_def epoch_perm_def)
  moreover have "drawable s2" using Cons.prems(2) drawable_same [OF e(3)] by (subst s2) (simp add: drawable_def)
  ultimately obtain ys s3 where "batch_loop R ks s2 g2 = Inr (ys, s3)" using Cons.IH by blast
  then show ?case using n by (simp add: o x Let_def)
qed simp

lemma reach_ok:
  assumes "perm_ok R" and "gs_orders s0 = []" and "sampler_reach R s0 s"
  shows "same_sampler s0 s \<and> cache_ok R s"
  using assms(3)
proof induction
  case made
  show ?case using assms(2) by (simp add: cache_ok_def)
next
  case (served s step n xs s')
  have "same_sampler s s' \<and> cache_ok R s'" using batch_loop_ok [OF assms(1) served.hyps(2) [unfolded batch_def]] served.IH by blast
  then show ?case using served.IH by (simp add: same_sampler_def)
qed

text \<open>C17: the training batches of a sampler as the constructor makes it and any batches leave it: when a query is
  kept, a batch is served for every step and size, and in each of its groups the query is a mined one with a text, the
  positive a mined positive with a text, and the negatives are pairwise different, are neither judged nor positive
  for the query, have a text, and never the normalised text of any of the query's positives.\<close>

theorem batch_groups_valid:
  assumes "perm_ok R" and "make_sampler mined queries passages strategy n_neg seed mix judged = Inr s0" and "distinct (map mq_qid mined)"
    and "gs_mined s0 \<noteq> []" and "sampler_reach R s0 s"
  shows "\<exists>xs s'. batch R s step n = Inr (xs, s') \<and> sampler_reach R s0 s' \<and> length xs = n \<and> gs_topups s \<le> gs_topups s' \<and>
     (\<forall>(q, pos, negs) \<in> set xs. \<exists>m \<in> set mined. q = mq_qid m \<and> dhas queries q \<and> pos \<in> set (mq_pos m) \<and> dhas passages pos \<and>
        distinct negs \<and> set negs \<inter> (set (mq_pos m) \<union> set (dget judged q [])) = {} \<and>
        (\<forall>p \<in> set negs. dhas passages p \<and>
           (\<forall>p' \<in> set (mq_pos m). dhas passages p' \<longrightarrow> norm_text (dget passages p []) \<noteq> norm_text (dget passages p' []))))"
proof -
  note sel = make_sampler_sel [OF assms(2)]
  have ok: "same_sampler s0 s" "cache_ok R s" using reach_ok [OF assms(1) sel(4) assms(5)] by simp_all
  have "drawable s0" using assms(4) by (auto simp: drawable_def sel list_ex_iff)
  then have "drawable s" using drawable_same [OF ok(1)] by simp
  then obtain xs s' where b: "batch R s step n = Inr (xs, s')" using batch_loop_total [OF assms(1) ok(2)] unfolding batch_def by blast
  then have r: "(\<forall>x \<in> set xs. group_ok s0 x) \<and> length xs = n \<and> gs_topups s \<le> gs_topups s'"
    using batch_loop_ok [OF assms(1) b [unfolded batch_def] ok(2)] same_sampler_group [OF ok(1)] by simp
  have "\<exists>m \<in> set mined. q = mq_qid m \<and> dhas queries q \<and> pos \<in> set (mq_pos m) \<and> dhas passages pos \<and>
        distinct negs \<and> set negs \<inter> (set (mq_pos m) \<union> set (dget judged q [])) = {} \<and>
        (\<forall>p \<in> set negs. dhas passages p \<and>
           (\<forall>p' \<in> set (mq_pos m). dhas passages p' \<longrightarrow> norm_text (dget passages p []) \<noteq> norm_text (dget passages p' [])))"
    if x: "(q, pos, negs) \<in> set xs" for q pos negs
  proof -
    obtain m where m: "m \<in> set (gs_mined s0)" "q = mq_qid m" "pos \<in> set (mq_pos m)" "dhas passages pos" "negs_ok s0 m negs"
      using r x by (fastforce simp: group_ok_def sel(2))
    have "m \<in> set mined" "dhas queries q" using m(1,2) by (simp_all add: sel(1))
    moreover have "set negs \<inter> (set (mq_pos m) \<union> set (dget judged q [])) = {}" "distinct negs"
      using m(5) by (auto simp: negs_ok_def neg_ok_def sel(3) m(2))
    moreover have "dhas passages p \<and> norm_text (dget passages p []) \<notin> (\<lambda>p. norm_text (dget passages p [])) ` {p \<in> set (mq_pos m). dhas passages p}"
      if "p \<in> set negs" for p
      using m(5) that pos_text_made(2) [OF assms(2,3) m(1), of "[]"] by (fastforce simp: negs_ok_def neg_ok_def sel(2))
    ultimately show ?thesis using m(2-4) by blast
  qed
  then show ?thesis using b r sampler_reach.served [OF assms(5) b] by blast
qed

section \<open>A batch depends on the seed and the step alone\<close>

lemma same_sampler_draw:
  assumes "same_sampler s t"
  shows "draw_from R s m pl n taken g = draw_from R t m pl n taken g"
proof -
  have ok: "neg_ok s = neg_ok t" by (intro ext) (simp add: neg_ok_def same_sampler_sel [OF assms])
  have "draw_scan s m pl n js out tk = draw_scan t m pl n js out tk" for js out tk
    by (induction js arbitrary: out tk) (simp_all add: ok)
  then show ?thesis by (simp add: draw_from_def)
qed

lemma same_sampler_result:
  assumes "same_sampler s t"
  shows "case (sample_group R s m g, sample_group R t m g) of
     (Inr (x, s', h), Inr (y, t', h')) \<Rightarrow> x = y \<and> h = h' \<and> same_sampler s' t' \<and> gs_orders s' = gs_orders s \<and> gs_orders t' = gs_orders t
   | (Inl e, Inl f) \<Rightarrow> e = f | _ \<Rightarrow> False"
proof -
  have "strategy_negs R s m h = strategy_negs R t m h" for h
    unfolding strategy_negs_def same_sampler_sel [OF assms] same_sampler_draw [OF assms] ..
  then show ?thesis
    using assms by (simp add: sample_group_def same_sampler_sel [OF assms] same_sampler_draw [OF assms] Let_def case_prod_unfold)
qed

lemma sample_group_same: "sample_group R s m g = Inr (x, s', h) \<Longrightarrow> same_sampler s s'"
  by (auto simp: sample_group_def Let_def case_prod_unfold split: if_splits)

lemma same_sampler_loop:
  assumes "same_sampler s t" and "cache_ok R s" and "cache_ok R t"
  shows "map_sum id fst (batch_loop R ks s g) = map_sum id fst (batch_loop R ks t g)"
  using assms
proof (induction ks arbitrary: s t g)
  case (Cons k ks)
  let ?n = "length (gs_mined s)" and ?m = "length (gs_mined t)"
  have n: "gs_mined t = gs_mined s" using Cons.prems(1) by (simp add: same_sampler_sel)
  obtain o1 s1 o2 t1 where o: "epoch_order R s (k div ?n) = (o1, s1)" "epoch_order R t (k div ?n) = (o2, t1)" by fastforce
  note es = epoch_order_result [OF Cons.prems(2), of "k div ?n", unfolded o fst_conv snd_conv]
  note et = epoch_order_result [OF Cons.prems(3), of "k div ?n", unfolded o fst_conv snd_conv]
  have "epoch_perm R s = epoch_perm R t"
    by (intro ext) (simp add: epoch_perm_def same_sampler_sel [OF Cons.prems(1)])
  then have oo: "o2 = o1" using es(1) et(1) by simp
  have st: "same_sampler s1 t1" using Cons.prems(1) es(3) et(3) by (simp add: same_sampler_def)
  have orders: "gs_mined s1 = gs_mined s" "gs_seed s1 = gs_seed s" "gs_mined t1 = gs_mined t" "gs_seed t1 = gs_seed t"
    using same_sampler_sel [OF es(3)] same_sampler_sel [OF et(3)] by simp_all
  note r = same_sampler_result [OF st, of R "gs_mined s ! (o1 ! (k mod ?n))" g]
  show ?case
  proof (cases "sample_group R s1 (gs_mined s ! (o1 ! (k mod ?n))) g")
    case (Inl e)
    then have "sample_group R t1 (gs_mined s ! (o1 ! (k mod ?n))) g = Inl e" using r by (auto split: sum.splits)
    then show ?thesis using Inl by (simp add: o oo n Let_def)
  next
    case (Inr a)
    obtain x s2 h where a: "a = (x, s2, h)" by (cases a)
    then obtain t2 where t: "sample_group R t1 (gs_mined s ! (o1 ! (k mod ?n))) g = Inr (x, t2, h)"
      and c: "same_sampler s2 t2" "gs_orders s2 = gs_orders s1" "gs_orders t2 = gs_orders t1"
      using r Inr by (auto split: sum.splits)
    have "same_sampler s1 s2" "same_sampler t1 t2"
      using same_sampler_result [of s1 s1] Inr a c(2) t sample_group_same by (metis, metis)
    then have "cache_ok R s2" "cache_ok R t2"
      using es(2) et(2) c(2,3) by (simp_all add: cache_ok_def epoch_perm_def same_sampler_sel)
    then have "map_sum id fst (batch_loop R ks s2 h) = map_sum id fst (batch_loop R ks t2 h)" by (rule Cons.IH [OF c(1)])
    then show ?thesis
      by (cases "batch_loop R ks s2 h"; cases "batch_loop R ks t2 h") (auto simp: o oo n Let_def Inr a t case_prod_unfold prod_eq_iff)
  qed
qed simp

definition demo_perm :: "unit perm_ops" where
  "demo_perm = \<lparr>pm_fresh = \<lambda>a b. (), pm_permutation = \<lambda>g n. ([0..<n], g), pm_below = \<lambda>g n. (0, g)\<rparr>"

definition demo_sampler :: sampler where
  "demo_sampler =
     \<lparr>gs_queries = [(''q'', ''solar'')], gs_passages = [(''1'', ''A b''), (''2'', ''a  B''), (''3'', ''c'')],
      gs_strategy = ''random'', gs_n_neg = 1, gs_seed = 7, gs_mix_bm25 = 1 / 2,
      gs_mined = [\<lparr>mq_qid = ''q'', mq_pos = [''1''], mq_bm25 = [], mq_dense = [], mq_random = [''2'', ''3'']\<rparr>],
      gs_judged = [(''q'', [''1''])], gs_pos_text = [(''q'', [''a b''])], gs_topups = 0, gs_orders = []\<rparr>"

lemma perm_ok_demo: "perm_ok demo_perm"
  by (simp add: perm_ok_def demo_perm_def)

lemma demo_batch: "batch demo_perm demo_sampler 5 1 = Inr ([(''q'', ''1'', [''3''])], demo_sampler\<lparr>gs_orders := [(5, [0])]\<rparr>)"
  by (simp add: batch_def epoch_order_def epoch_perm_def demo_perm_def demo_sampler_def dhas_def dset_def sample_group_def
      strategy_negs_def draw_from_def neg_ok_def Let_def norm_text_def strip_def rstrip_def lstrip_def lower_char_def
      is_space_char_def code_def) code_simp

definition demo_mined :: "mined_query list" where
  "demo_mined =
     [\<lparr>mq_qid = ''q'', mq_pos = [''1''], mq_bm25 = [], mq_dense = [], mq_random = [''2'', ''3'']\<rparr>,
      \<lparr>mq_qid = ''r'', mq_pos = [''9''], mq_bm25 = [], mq_dense = [], mq_random = [''2'']\<rparr>]"

lemma demo_made:
  "make_sampler demo_mined [(''q'', ''solar'')] [(''1'', ''A b''), (''2'', ''a  B''), (''3'', ''c'')] ''random'' 1 7 (1 / 2) [(''q'', [''1''])] =
     Inr demo_sampler"
proof -
  have "norm_text ''A b'' = ''a b''" by code_simp
  then show ?thesis
    by (simp add: make_sampler_def demo_mined_def demo_sampler_def STRATEGIES_def dhas_def dget_def dict_of_def dset_def)
qed

theorem batch_groups_valid_witness:
  "norm_text ''c'' \<noteq> norm_text ''A b'' \<and> sampler_reach demo_perm demo_sampler (demo_sampler\<lparr>gs_orders := [(5, [0])]\<rparr>) \<and>
   (\<exists>xs s'. batch demo_perm (demo_sampler\<lparr>gs_orders := [(5, [0])]\<rparr>) 8 3 = Inr (xs, s') \<and> length xs = 3)"
proof -
  have d: "distinct (map mq_qid demo_mined)" "gs_mined demo_sampler \<noteq> []" by (simp_all add: demo_mined_def demo_sampler_def)
  note valid = batch_groups_valid [OF perm_ok_demo demo_made d]
  have r: "sampler_reach demo_perm demo_sampler (demo_sampler\<lparr>gs_orders := [(5, [0])]\<rparr>)"
    by (rule sampler_reach.served [OF sampler_reach.made demo_batch])
  obtain m where "m \<in> set demo_mined" "''q'' = mq_qid m"
    "norm_text (dget [(''1'', ''A b''), (''2'', ''a  B''), (''3'', ''c'')] ''3'' []) \<noteq>
     norm_text (dget [(''1'', ''A b''), (''2'', ''a  B''), (''3'', ''c'')] ''1'' [])"
    using valid [OF sampler_reach.made, of 5 1] unfolding demo_batch by (fastforce simp: demo_mined_def dhas_def)
  then have "norm_text ''c'' \<noteq> norm_text ''A b''" by (simp add: dget_def)
  then show ?thesis using r valid [OF r, of 8 3] by blast
qed

text \<open>A batch can be replayed: whatever top-ups a sampler has counted and whichever epoch orders it
  has cached, the groups of a step depend only on the seed, the step and the mined data, and so does
  the error when there is one.\<close>

theorem batch_replays:
  assumes "same_sampler s t" and "cache_ok R s" and "cache_ok R t"
  shows "map_sum id fst (batch R s step n) = map_sum id fst (batch R t step n)"
  using same_sampler_loop [OF assms] by (simp add: batch_def same_sampler_sel(5) [OF assms(1)])

theorem batch_replays_witness:
  "map_sum id fst (batch demo_perm (demo_sampler\<lparr>gs_topups := 9, gs_orders := [(0, [0])]\<rparr>) 5 1) = Inr [(''q'', ''1'', [''3''])]"
proof -
  have "map_sum id fst (batch demo_perm (demo_sampler\<lparr>gs_topups := 9, gs_orders := [(0, [0])]\<rparr>) 5 1) =
      map_sum id fst (batch demo_perm demo_sampler 5 1)"
    by (rule batch_replays) (simp_all add: same_sampler_def cache_ok_def epoch_perm_def demo_perm_def demo_sampler_def)
  then show ?thesis unfolding demo_batch by simp
qed

end
