(* ===== verification/Mine.thy ===== *)
theory Mine
  imports Rerank Dense_Search Sampler
begin

text \<open>
  \<open>py/hybridsearch/rerank/mine.py\<close>: hard negatives from the BM25 run and from exact dense search, the
  false-negative rule, the random pool and the counters.  The files are their decoded contents in
  \<open>mine_input\<close>; numpy's generator is the draw of one collection id; \<open>random_pool\<close> loops until it has
  enough ids and so may not return (None).  The lemmas show that no judged passage reaches a pool and
  that the counters account for every record.
\<close>

section \<open>The rule and the pools\<close>

definition load_query_vectors :: "string \<Rightarrow> vector list \<Rightarrow> (qid list \<times> vector list) res" where
  "load_query_vectors qids_text vecs =
     (let qids = split_ws qids_text in if length qids \<noteq> length vecs then Inl ValueError else Inr (qids, vecs))"

definition load_passage_matrix :: "vector list \<Rightarrow> nat list \<Rightarrow> (vector list \<times> nat list) res" where
  "load_passage_matrix xb docids = (if length xb \<noteq> length docids then Inl ValueError else Inr (xb, docids))"

definition exact_dense_search :: "(real list \<Rightarrow> nat \<Rightarrow> nat list) \<Rightarrow> vector list \<Rightarrow> nat list \<Rightarrow> vector list \<Rightarrow> nat \<Rightarrow>
    (real \<times> nat) list list res" where
  \<comment> \<open>scores and collection ids\<close>
  "exact_dense_search part xb docids queries k =
     res_bind (load_passage_matrix xb docids) (\<lambda>(xb, docids).
       res_bind (mine_exact_topk part xb queries k 1024 100000) (\<lambda>res. Inr (map (map (\<lambda>(s, i). (s, docids ! i))) res)))"

definition dense_run :: "(real list \<Rightarrow> nat \<Rightarrow> nat list) \<Rightarrow> vector list \<Rightarrow> nat list \<Rightarrow> string \<Rightarrow> vector list \<Rightarrow> nat \<Rightarrow> string res" where
  \<comment> \<open>the run file \<open>dense_runs\<close> writes for one split\<close>
  "dense_run part xb docids qids_text qvecs k =
     res_bind (load_query_vectors qids_text qvecs) (\<lambda>(qids, q).
       res_bind (exact_dense_search part xb docids q k) (\<lambda>res.
         Inr (write_run (map2 (\<lambda>q hits. (q, map (\<lambda>(s, p). (str_nat p, s)) hits)) qids res) ''hs-dense1m-exact'')))"

definition false_negative :: "real option \<Rightarrow> real option \<Rightarrow> real option \<Rightarrow> real option \<Rightarrow> real \<Rightarrow> real \<Rightarrow> bool option" where
  \<comment> \<open>None: a score is missing\<close>
  "false_negative s_d_neg s_d_pos s_b_neg s_b_pos_ub dense_margin bm25_rel_margin =
     (case (s_d_neg, s_d_pos, s_b_neg, s_b_pos_ub) of
        (Some dn, Some dp, Some bn, Some bp) \<Rightarrow> Some (dn - dp \<ge> dense_margin \<and> bn - bp \<ge> bm25_rel_margin * \<bar>bp\<bar>)
      | _ \<Rightarrow> None)"

partial_function (option) random_loop :: "('g \<Rightarrow> nat \<times> 'g) \<Rightarrow> 'g \<Rightarrow> string set \<Rightarrow> nat \<Rightarrow> string list \<Rightarrow> (string list \<times> 'g) option" where
  \<comment> \<open>\<open>draw\<close> is \<open>rng.integers(0, N_COLLECTION)\<close>\<close>
  "random_loop draw g seen n out =
     (if length out < n
      then (let (x, g') = draw g; p = str_nat x
            in if p \<notin> seen then random_loop draw g' (insert p seen) n (out @ [p]) else random_loop draw g' seen n out)
      else Some (out, g))"

definition random_pool :: "('g \<Rightarrow> nat \<times> 'g) \<Rightarrow> 'g \<Rightarrow> string set \<Rightarrow> nat \<Rightarrow> (string list \<times> 'g) option" where
  "random_pool draw g exclude n = random_loop draw g exclude n []"

definition line_qid :: "string \<Rightarrow> qid res" where
  \<comment> \<open>\<open>line[:line.index(" ")]\<close>\<close>
  "line_qid line = (case split1 32 line of None \<Rightarrow> Inl ValueError | Some (q, r) \<Rightarrow> Inr q)"

definition run_qids :: "string list \<Rightarrow> qid set res" where
  "run_qids runs = res_bind (res_map (\<lambda>f. res_map line_qid (text_lines f)) runs) (\<lambda>qs. Inr (set (concat qs)))"

definition stream_run :: "qid list \<Rightarrow> qid set \<times> (qid \<times> (docid, real) dict) list \<Rightarrow> string \<Rightarrow>
    (qid set \<times> (qid \<times> (docid, real) dict) list) res" where
  "stream_run qids st f =
     res_bind (iter_run_groups f None) (\<lambda>gs.
       Inr (foldl (\<lambda>(fin, out) (q, hits). if q \<in> set qids \<and> q \<notin> fin then (insert q fin, out @ [(q, hits)]) else (fin, out)) st gs))"

definition dict_or_stream :: "string list \<Rightarrow> qid list \<Rightarrow> (qid \<times> (docid, real) dict) list res" where
  "dict_or_stream runs qids =
     res_bind (res_fold (stream_run qids) ({}, []) runs) (\<lambda>(fin, out).
       Inr (out @ map (\<lambda>q. (q, [])) (filter (\<lambda>q. q \<notin> fin) qids)))"

section \<open>Mining\<close>

record mine_config =
  mc_pool_depth :: nat
  mc_dense_depth :: nat
  mc_dense_margin :: real
  mc_bm25_rel_margin :: real

record mine_input =
  mi_queries :: "(qid, string) dict"
  mi_qrels :: qrels
  mi_runs :: "string list"
  mi_qids :: string \<comment> \<open>the text of the ids file\<close>
  mi_qvecs :: "vector list"
  mi_docids :: "nat list"
  mi_xb :: "vector list"
  mi_pos_vecs :: "vector list"
  mi_pos_pids :: "string list"

type_synonym stats = "(string, int) dict"

definition bump :: "string \<Rightarrow> stats \<Rightarrow> stats" where
  "bump k st = dset st k (dget st k 0 + 1)"

record query_side =
  qs_judged :: "docid list"
  qs_d_pos :: "real option"
  qs_b_ub :: "real option"

definition keep_cand :: "mine_config \<Rightarrow> query_side \<Rightarrow> string \<Rightarrow> docid \<Rightarrow> real option \<Rightarrow> real option \<Rightarrow> stats \<Rightarrow> bool \<times> stats" where
  \<comment> \<open>the inner function \<open>keep\<close>\<close>
  "keep_cand cfg q src pid s_d s_b st =
     (if pid \<in> set (qs_judged q) then (False, bump (''leak_removed_'' @ src) st)
      else case false_negative s_d (qs_d_pos q) s_b (qs_b_ub q) (mc_dense_margin cfg) (mc_bm25_rel_margin cfg) of
             None \<Rightarrow> (True, bump (''unverifiable_'' @ src) st)
           | Some True \<Rightarrow> (False, bump (''fn_dropped_'' @ src) st)
           | Some False \<Rightarrow> (True, bump (''verified_kept_'' @ src) st))"

fun pool_scan :: "mine_config \<Rightarrow> query_side \<Rightarrow> string \<Rightarrow> (docid \<times> real option \<times> real option) list \<Rightarrow> docid list \<Rightarrow> stats \<Rightarrow>
    docid list \<times> stats" where
  "pool_scan cfg q src [] pl st = (pl, st)"
| "pool_scan cfg q src ((pid, s_d, s_b) # r) pl st =
     (if length pl \<ge> mc_pool_depth cfg then (pl, st)
      else let (k, st') = keep_cand cfg q src pid s_d s_b st
           in pool_scan cfg q src r (if k then pl @ [pid] else pl) st')"

definition opt_max :: "real list \<Rightarrow> real option" where
  "opt_max xs = (if xs = [] then None else Some (Max (set xs)))"

definition side_of :: "mine_input \<Rightarrow> qrel \<Rightarrow> docid list \<Rightarrow> vector \<Rightarrow> (docid, real) dict \<Rightarrow> query_side" where
  "side_of M judged pos qv hits =
     (let pos_row = positions_of (mi_pos_pids M);
          pos_b = map (\<lambda>p. dget hits p 0) (filter (dhas hits) pos)
      in \<lparr>qs_judged = keys judged,
          qs_d_pos = opt_max (map (\<lambda>p. inner (mi_pos_vecs M ! dget pos_row p 0) qv) (filter (dhas pos_row) pos)),
          qs_b_ub = (if pos_b \<noteq> [] then Some (Max (set pos_b)) else Some (Min (set (map snd hits))))\<rparr>)"

definition bm25_items :: "mine_input \<Rightarrow> vector \<Rightarrow> (docid, real) dict \<Rightarrow> (docid \<times> real option \<times> real option) list res" where
  \<comment> \<open>the hits by score descending, then numeric id, with their dense scores\<close>
  "bm25_items M qv hits =
     res_bind (res_map (\<lambda>(p, s). res_bind (int_of p) (\<lambda>n. Inr (n, p, s))) hits) (\<lambda>rows.
       let ordinal = positions_of (map int (mi_docids M))
       in Inr (map (\<lambda>(n, p, s). (p, (if dhas ordinal n then Some (inner (mi_xb M ! dget ordinal n 0) qv) else None), Some s))
            (py_sorted (\<lambda>(n, p, s). (- s, n)) rows)))"

definition dense_items :: "(real \<times> nat) list \<Rightarrow> (docid, real) dict \<Rightarrow> (docid \<times> real option \<times> real option) list" where
  \<comment> \<open>the passages found for the query, as ids with their BM25 scores where there are any\<close>
  "dense_items found hits =
     map (\<lambda>(s, i). let p = str_nat i in (p, Some s, map_of hits p)) found"

definition mine_query_record :: "mine_config \<Rightarrow> mine_input \<Rightarrow> ('g \<Rightarrow> nat \<times> 'g) \<Rightarrow> qid \<Rightarrow> qrel \<Rightarrow> vector \<Rightarrow> (real \<times> nat) list \<Rightarrow>
    (docid, real) dict \<Rightarrow> stats \<Rightarrow> 'g \<Rightarrow> (mined_query \<times> stats \<times> 'g) diverging" where
  "mine_query_record cfg M draw qid judged qv found hits st g =
     (let pos = sort (map fst (filter (\<lambda>(d, g). g > 0) judged));
          q = side_of M judged pos qv hits;
          st1 = (if list_ex (dhas hits) pos then bump ''pos_in_bm25_top1000'' st else st)
      in case bm25_items M qv hits of
           Inl e \<Rightarrow> Some (Inl e)
         | Inr items \<Rightarrow>
             (let (bpl, st2) = pool_scan cfg q ''bm25'' items [] st1;
                  (dpl, st3) = pool_scan cfg q ''dense'' (dense_items found hits) [] st2
              in map_option (\<lambda>(rnd, g'). Inr (\<lparr>mq_qid = qid, mq_pos = pos, mq_bm25 = bpl, mq_dense = dpl, mq_random = rnd\<rparr>, st3, g'))
                   (random_pool draw g (set (keys judged)) (mc_pool_depth cfg))))"

fun mine_loop :: "mine_config \<Rightarrow> mine_input \<Rightarrow> ('g \<Rightarrow> nat \<times> 'g) \<Rightarrow> (qid, nat) dict \<Rightarrow> vector list \<Rightarrow> (real \<times> nat) list list \<Rightarrow>
    (qid \<times> (docid, real) dict) list \<Rightarrow> stats \<Rightarrow> 'g \<Rightarrow> (mined_query list \<times> stats) diverging" where
  "mine_loop cfg M draw qrow qvecs dense [] st g = Some (Inr ([], st))"
| "mine_loop cfg M draw qrow qvecs dense ((qid, hits) # r) st g =
     (if \<not> dhas (mi_qrels M) qid \<or> \<not> dhas qrow qid then mine_loop cfg M draw qrow qvecs dense r st g
      else if hits = [] then mine_loop cfg M draw qrow qvecs dense r (bump ''no_bm25_hits'' st) g
      else div_bind (mine_query_record cfg M draw qid (dget (mi_qrels M) qid []) (qvecs ! dget qrow qid 0)
                       (dense ! dget qrow qid 0) hits (bump ''queries'' st) g) (\<lambda>(x, st', g').
             div_bind (mine_loop cfg M draw qrow qvecs dense r st' g') (\<lambda>(xs, st''). Some (Inr (x # xs, st'')))))"

definition STAT_KEYS :: "string list" where
  "STAT_KEYS = [''queries'', ''no_bm25_hits'', ''pos_in_bm25_top1000'', ''leak_removed_bm25'', ''leak_removed_dense'',
     ''fn_dropped_bm25'', ''fn_dropped_dense'', ''unverifiable_bm25'', ''unverifiable_dense'', ''verified_kept_bm25'',
     ''verified_kept_dense'']"

definition mine :: "mine_config \<Rightarrow> mine_input \<Rightarrow> (real list \<Rightarrow> nat \<Rightarrow> nat list) \<Rightarrow> ('g \<Rightarrow> nat \<times> 'g) \<Rightarrow> 'g \<Rightarrow>
    (mined_query list \<times> stats) diverging" where
  \<comment> \<open>the records written and the counters; \<open>part\<close> is numpy's argpartition\<close>
  "mine cfg M part draw g =
     (case res_bind (load_query_vectors (mi_qids M) (mi_qvecs M)) (\<lambda>(qids, qvecs). res_bind (run_qids (mi_runs M)) (\<lambda>covered.
        res_bind (int_sorted (keys (mi_queries M))) (\<lambda>order.
          res_bind (dict_or_stream (mi_runs M) order) (\<lambda>groups.
            let kept = filter (\<lambda>(q, v). q \<in> covered) (zip qids qvecs)
            in res_bind (exact_dense_search part (mi_xb M) (mi_docids M) (map snd kept) (mc_dense_depth cfg)) (\<lambda>dense.
                 Inr (groups, kept, dense, int (length qids - length kept))))))) of
        Inl e \<Rightarrow> Some (Inl e)
      | Inr (groups, kept, dense, skipped) \<Rightarrow>
          div_bind (mine_loop cfg M draw (positions_of (map fst kept)) (map snd kept) dense groups (map (\<lambda>k. (k, 0)) STAT_KEYS) g)
            (\<lambda>(xs, st). Some (Inr (xs, dset st ''skipped_no_bm25_run'' skipped))))"

section \<open>No judged passage reaches a pool\<close>

definition kept_count :: "string \<Rightarrow> stats \<Rightarrow> int" where
  "kept_count src st = dget st (''unverifiable_'' @ src) 0 + dget st (''verified_kept_'' @ src) 0"

lemma dget_bump: "dget (bump k st) k' 0 = dget st k' 0 + (if k = k' then 1 else 0)"
  by (simp add: bump_def)

lemma keep_cand_effect:
  assumes "keep_cand cfg q src pid s_d s_b st = (k, st')"
  shows "k \<longrightarrow> pid \<notin> set (qs_judged q)"
    and "kept_count src st' = kept_count src st + (if k then 1 else 0)"
    and "key \<notin> {''leak_removed_'' @ src, ''unverifiable_'' @ src, ''fn_dropped_'' @ src, ''verified_kept_'' @ src} \<Longrightarrow> dget st' key 0 = dget st key 0"
  using assms by (auto simp: keep_cand_def kept_count_def dget_bump split: if_splits option.splits bool.splits)

lemma pool_scan_effect:
  assumes "pool_scan cfg q src items pl st = (pl', st')" and "length pl \<le> mc_pool_depth cfg"
  shows "\<exists>new. pl' = pl @ new \<and> set new \<inter> set (qs_judged q) = {} \<and> length pl' \<le> mc_pool_depth cfg \<and>
     kept_count src st' = kept_count src st + int (length new) \<and>
     (\<forall>key. key \<notin> {''leak_removed_'' @ src, ''unverifiable_'' @ src, ''fn_dropped_'' @ src, ''verified_kept_'' @ src} \<longrightarrow>
        dget st' key 0 = dget st key 0)"
  using assms
proof (induction cfg q src items pl st rule: pool_scan.induct)
  case (2 cfg q src pid s_d s_b r pl st)
  show ?case
  proof (cases "length pl \<ge> mc_pool_depth cfg")
    case False
    obtain k st1 where k: "keep_cand cfg q src pid s_d s_b st = (k, st1)" by fastforce
    have rec: "pool_scan cfg q src r (if k then pl @ [pid] else pl) st1 = (pl', st')" using "2.prems"(1) False k by simp
    have "length (if k then pl @ [pid] else pl) \<le> mc_pool_depth cfg" using False by simp
    from "2.IH" [OF False k [symmetric] refl rec this] obtain new where new: "pl' = (if k then pl @ [pid] else pl) @ new"
      "set new \<inter> set (qs_judged q) = {}" "length pl' \<le> mc_pool_depth cfg" "kept_count src st' = kept_count src st1 + int (length new)"
      "\<forall>key. key \<notin> {''leak_removed_'' @ src, ''unverifiable_'' @ src, ''fn_dropped_'' @ src, ''verified_kept_'' @ src} \<longrightarrow> dget st' key 0 = dget st1 key 0"
      by blast
    note e = keep_cand_effect [OF k]
    show ?thesis
      using new e by (intro exI [of _ "if k then pid # new else new"]) auto
  qed (use "2.prems" in simp)
qed simp

lemma random_loop_result:
  assumes "random_loop draw g seen n out = Some y"
  shows "length out \<le> n \<longrightarrow> (\<exists>new. fst y = out @ new \<and> length (fst y) = n \<and> distinct new \<and> set new \<inter> seen = {})"
  using assms
proof (rule random_loop.raw_induct [rotated])
  fix loop draw g seen n out y
  let ?P = "\<lambda>seen n out y. length out \<le> n \<longrightarrow> (\<exists>new. fst y = out @ new \<and> length (fst y) = n \<and> distinct new \<and> set new \<inter> seen = {})"
  assume IH: "\<And>draw g seen n out y. loop draw g seen n out = Some y \<Longrightarrow> ?P seen n out y"
    and step: "(if length out < n
      then (let (x, g') = draw g; p = str_nat x
            in if p \<notin> seen then loop draw g' (insert p seen) n (out @ [p]) else loop draw g' seen n out)
      else Some (out, g)) = Some y"
  let ?p = "str_nat (fst (draw g))"
  show "?P seen n out y"
  proof (cases "length out < n")
    case True
    then show ?thesis
    proof (cases "?p \<in> seen")
      case False
      then have "loop draw (snd (draw g)) (insert ?p seen) n (out @ [?p]) = Some y" using step True by (simp add: Let_def case_prod_unfold)
      then obtain new where "fst y = (out @ [?p]) @ new" "length (fst y) = n" "distinct new" "set new \<inter> insert ?p seen = {}"
        using IH [of draw "snd (draw g)" "insert ?p seen" n "out @ [?p]" y] True by auto
      then show ?thesis using False by (intro impI exI [of _ "?p # new"]) auto
    qed (use step IH True in \<open>simp add: Let_def case_prod_unfold\<close>)
  qed (use step in auto)
qed

definition record_ok :: "mine_config \<Rightarrow> qrels \<Rightarrow> mined_query \<Rightarrow> bool" where
  \<comment> \<open>the positives are the judged passages of grade above 0, and no pool holds a judged passage\<close>
  "record_ok cfg qrels x =
     (let judged = dget qrels (mq_qid x) [] in
      dhas qrels (mq_qid x) \<and> mq_pos x = sort (map fst (filter (\<lambda>(d, g). g > 0) judged)) \<and>
      (set (mq_bm25 x) \<union> set (mq_dense x) \<union> set (mq_random x)) \<inter> set (keys judged) = {} \<and>
      length (mq_bm25 x) \<le> mc_pool_depth cfg \<and> length (mq_dense x) \<le> mc_pool_depth cfg \<and>
      length (mq_random x) = mc_pool_depth cfg \<and> distinct (mq_random x))"

lemma mine_query_record_ok:
  assumes "mine_query_record cfg M draw qid (dget (mi_qrels M) qid []) qv found hits st g = Some (Inr (x, st', g'))"
    and "dhas (mi_qrels M) qid"
  shows "record_ok cfg (mi_qrels M) x" and "dget st' ''queries'' 0 = dget st ''queries'' 0"
    and "kept_count ''bm25'' st' = kept_count ''bm25'' st + int (length (mq_bm25 x))"
    and "kept_count ''dense'' st' = kept_count ''dense'' st + int (length (mq_dense x))"
proof -
  let ?judged = "dget (mi_qrels M) qid []"
  define pos q where "pos = sort (map fst (filter (\<lambda>(d, g). g > 0) ?judged))" and "q = side_of M ?judged pos qv hits"
  define st1 where "st1 = (if list_ex (dhas hits) pos then bump ''pos_in_bm25_top1000'' st else st)"
  obtain items where items: "bm25_items M qv hits = Inr items"
    using assms(1) by (cases "bm25_items M qv hits") (auto simp: mine_query_record_def Let_def)
  obtain bpl st2 dpl st3 where b: "pool_scan cfg q ''bm25'' items [] st1 = (bpl, st2)"
    and d: "pool_scan cfg q ''dense'' (dense_items found hits) [] st2 = (dpl, st3)" by fastforce
  obtain rnd where r: "random_pool draw g (set (keys ?judged)) (mc_pool_depth cfg) = Some (rnd, g')"
    and x: "x = \<lparr>mq_qid = qid, mq_pos = pos, mq_bm25 = bpl, mq_dense = dpl, mq_random = rnd\<rparr>" "st' = st3"
    using assms(1) by (auto simp: mine_query_record_def Let_def items b d simp flip: pos_def q_def st1_def)
  have j: "set (qs_judged q) = set (keys ?judged)" by (simp add: q_def side_of_def Let_def)
  note eb = pool_scan_effect [OF b, simplified] and ed = pool_scan_effect [OF d, simplified]
  obtain new where "rnd = new" "length rnd = mc_pool_depth cfg" "distinct new" "set new \<inter> set (keys ?judged) = {}"
    using random_loop_result [OF r [unfolded random_pool_def]] by auto
  then show "record_ok cfg (mi_qrels M) x"
    using eb ed j assms(2) by (auto simp: record_ok_def x pos_def)
  have s1: "kept_count src st1 = kept_count src st" "dget st1 ''queries'' 0 = dget st ''queries'' 0" for src
    by (simp_all add: st1_def kept_count_def dget_bump)
  show "dget st' ''queries'' 0 = dget st ''queries'' 0" using eb ed s1 by (simp add: x)
  show "kept_count ''bm25'' st' = kept_count ''bm25'' st + int (length (mq_bm25 x))"
    using eb ed s1(1) [of "''bm25''"] by (simp add: x kept_count_def)
  show "kept_count ''dense'' st' = kept_count ''dense'' st + int (length (mq_dense x))"
    using eb ed s1(1) [of "''dense''"] by (simp add: x kept_count_def)
qed

lemma div_bind_Inr_iff: "div_bind m f = Some (Inr y) \<longleftrightarrow> (\<exists>x. m = Some (Inr x) \<and> f x = Some (Inr y))"
  by (cases m; cases "the m") auto

lemma mine_loop_ok:
  assumes "mine_loop cfg M draw qrow qvecs dense groups st g = Some (Inr (xs, st'))"
  shows "(\<forall>x \<in> set xs. record_ok cfg (mi_qrels M) x) \<and> dget st' ''queries'' 0 = dget st ''queries'' 0 + int (length xs) \<and>
     kept_count ''bm25'' st' = kept_count ''bm25'' st + int (sum_list (map (length \<circ> mq_bm25) xs)) \<and>
     kept_count ''dense'' st' = kept_count ''dense'' st + int (sum_list (map (length \<circ> mq_dense) xs))"
  using assms
proof (induction groups arbitrary: st g xs)
  case (Cons p r)
  obtain qid hits where p: "p = (qid, hits)" by (cases p)
  show ?case
  proof (cases "dhas (mi_qrels M) qid \<and> dhas qrow qid \<and> hits \<noteq> []")
    case False
    then show ?thesis using Cons by (auto simp: p kept_count_def dget_bump split: if_splits)
  next
    case True
    obtain x st1 g1 ys where x: "mine_query_record cfg M draw qid (dget (mi_qrels M) qid []) (qvecs ! dget qrow qid 0)
          (dense ! dget qrow qid 0) hits (bump ''queries'' st) g = Some (Inr (x, st1, g1))"
      and ys: "mine_loop cfg M draw qrow qvecs dense r st1 g1 = Some (Inr (ys, st'))" and xs: "xs = x # ys"
      using Cons.prems True by (auto simp: p div_bind_Inr_iff)
    show ?thesis
      using mine_query_record_ok [OF x] Cons.IH [OF ys] True
      by (auto simp: xs dget_bump kept_count_def)
  qed
qed simp

text \<open>C20: hard-negative mining never leaks: whenever mining returns, every record lists exactly the
  passages judged relevant as positives, none of its three pools holds any judged passage of the query,
  the pools respect the configured depth, and the counters account for every record and every
  candidate kept.\<close>

theorem mine_no_leaks:
  assumes "mine cfg M part draw g = Some (Inr (xs, st))"
  shows "(\<forall>x \<in> set xs. record_ok cfg (mi_qrels M) x) \<and> dget st ''queries'' 0 = int (length xs) \<and>
     kept_count ''bm25'' st = int (sum_list (map (length \<circ> mq_bm25) xs)) \<and>
     kept_count ''dense'' st = int (sum_list (map (length \<circ> mq_dense) xs))"
proof -
  obtain qrow qvecs dense groups st1 sk where l: "mine_loop cfg M draw qrow qvecs dense groups (map (\<lambda>k. (k, 0)) STAT_KEYS) g = Some (Inr (xs, st1))"
    and st: "st = dset st1 ''skipped_no_bm25_run'' sk"
    using assms by (auto simp: mine_def div_bind_Inr_iff split: sum.splits)
  show ?thesis using mine_loop_ok [OF l] by (simp add: st kept_count_def STAT_KEYS_def)
qed

definition demo_mine :: mine_input where
  "demo_mine =
     \<lparr>mi_queries = [(''7'', ''x'')], mi_qrels = [(''7'', [(''1'', 1)])], mi_runs = [''7 Q0 1 1 9 t''], mi_qids = ''7'',
      mi_qvecs = [[1]], mi_docids = [1, 2], mi_xb = [[0], [1]], mi_pos_vecs = [[0]], mi_pos_pids = [''1'']\<rparr>"

definition demo_config :: mine_config where
  "demo_config = \<lparr>mc_pool_depth = 1, mc_dense_depth = 2, mc_dense_margin = 1 / 20, mc_bm25_rel_margin = 1 / 10\<rparr>"

lemma demo_files:
  "text_lines ''7 Q0 1 1 9 t'' = [''7 Q0 1 1 9 t'']" "split_ws ''7 Q0 1 1 9 t'' = [''7'', ''Q0'', ''1'', ''1'', ''9'', ''t'']"
  "split1 32 ''7 Q0 1 1 9 t'' = Some (''7'', ''Q0 1 1 9 t'')" "float_of ''9'' = Inr 9" "int_of ''7'' = Inr 7" "int_of ''1'' = Inr 1"
  "split_ws ''7'' = [''7'']" "str_nat 2 = ''2''" "str_nat 1 = ''1''" "str_nat (Suc 0) = ''1''" "str_nat (Suc (Suc 0)) = ''2''"
  by code_simp+

lemma demo_stream: "iter_run_groups ''7 Q0 1 1 9 t'' None = Inr [(''7'', [(''1'', 9)])]"
  by (simp add: iter_run_groups_def demo_files group_line_def flush_def dset_def)

lemma demo_search: "mine_exact_topk part_sort [[0], [1]] [[1]] 2 1024 100000 = Inr [[(1, 1), (0, 0)]]"
proof -
  have b: "block_rows 100000 [[0], [1]] = [(0, [[0], [1 :: real]])]"
    by (simp add: block_rows_def slices_step)
  have m: "mine_block part_sort 2 [1] (0, [[0], [1]]) = [(1, 1), (0, 0)]"
    by (simp add: mine_block_def part_sort_def inner_def py_sorted_def numeral_2_eq_2)
  have "mine_query part_sort [[0], [1]] 2 100000 [1] = [(1, 1), (0, 0)]"
    unfolding mine_query_def b by (simp add: m keep_top_def py_sorted_def)
  then show ?thesis by (simp add: mine_exact_topk_def slices_step numeral_2_eq_2)
qed

lemma demo_dense: "exact_dense_search part_sort [[0], [1]] [1, 2] [[1]] 2 = Inr [[(1, 2), (0, 1)]]"
  by (simp add: exact_dense_search_def load_passage_matrix_def demo_search)

lemma demo_random: "random_pool (\<lambda>g. (g, Suc g)) 1 {''1''} 1 = Some ([''2''], 3)"
  unfolding random_pool_def by (subst random_loop.simps, subst random_loop.simps, subst random_loop.simps) (simp add: demo_files Let_def)

theorem mine_no_leaks_witness:
  "\<exists>xs st. mine demo_config demo_mine part_sort (\<lambda>g. (g, Suc g)) 1 = Some (Inr (xs, st)) \<and> length xs = 1 \<and>
     (\<forall>x \<in> set xs. record_ok demo_config (mi_qrels demo_mine) x)"
proof -
  have "\<exists>x st' g'. mine_query_record demo_config demo_mine (\<lambda>g. (g, Suc g)) ''7'' [(''1'', 1)] qv found [(''1'', 9)] st 1 = Some (Inr (x, st', g'))"
    for qv found st
    by (simp add: mine_query_record_def bm25_items_def demo_files demo_random [simplified] demo_config_def Let_def case_prod_unfold)
  note rec = this [unfolded demo_mine_def demo_config_def, simplified]
  have "\<exists>x st. mine demo_config demo_mine part_sort (\<lambda>g. (g, Suc g)) 1 = Some (Inr ([x], st))"
    using rec [of "[1]" "[(1, 2), (0, Suc 0)]" "bump ''queries'' (map (\<lambda>k. (k, 0)) STAT_KEYS)"]
    by (auto simp: mine_def demo_mine_def demo_config_def load_query_vectors_def run_qids_def demo_files line_qid_def int_sorted_def
        py_sorted_def dict_or_stream_def stream_run_def demo_stream demo_dense [simplified] positions_of_def dict_of_def dset_def dhas_def)
  then obtain x st where m: "mine demo_config demo_mine part_sort (\<lambda>g. (g, Suc g)) 1 = Some (Inr ([x], st))" by blast
  show ?thesis using mine_no_leaks [OF m] m by (intro exI [of _ "[x]"] exI [of _ st]) simp
qed

end
