(* ===== verification/Encode.thy ===== *)
theory Encode
  imports Rerank Dense_Search
begin

text \<open>
  \<open>py/hybridsearch/dense/encode.py\<close>: encoding in length-sorted batches under a token budget
  (\<open>Encoder\<close>), the query files, and the resumable encoding of the passages into a preallocated file
  (\<open>encode_passages\<close>) as the list of durable writes it makes, so that a crash is a prefix of that list.
  The tokenizer and the network are arguments.  The lemmas: batching changes neither the rows nor their
  order and keeps every batch within the budget; after any crashes the next run completes the file with
  exactly the rows of an uninterrupted run.
\<close>

section \<open>Batches under a token budget\<close>

definition QUERY_PREFIX :: string where
  "QUERY_PREFIX = ''Represent this sentence for searching relevant passages: ''"

definition DIM :: nat where "DIM = 768"
definition PASSAGE_MAX_LEN :: nat where "PASSAGE_MAX_LEN = 512"
definition QUERY_MAX_LEN :: nat where "QUERY_MAX_LEN = 64"
definition CHUNK :: nat where "CHUNK = 20000"

record encoder =
  en_tok :: "string list \<Rightarrow> nat \<Rightarrow> nat list" \<comment> \<open>lengths of the token ids, cut at the given length\<close>
  en_net :: "string list \<Rightarrow> nat \<Rightarrow> vector list" \<comment> \<open>\<open>_encode_batch\<close>\<close>
  en_max_batch :: nat
  en_budget :: nat

fun grow :: "encoder \<Rightarrow> nat \<Rightarrow> nat list \<Rightarrow> nat" where
  \<comment> \<open>\<open>j - i\<close> of the inner loop, over the lengths of the texts still to encode, in order\<close>
  "grow E n [] = n"
| "grow E n (l # ls) = (if n + 1 \<le> en_max_batch E \<and> (n + 1) * l \<le> en_budget E then grow E (n + 1) ls else n)"

function batch_cuts :: "encoder \<Rightarrow> (nat \<Rightarrow> nat) \<Rightarrow> nat list \<Rightarrow> nat list list" where
  "batch_cuts E len order =
     (if order = [] then []
      else let n = max (grow E 0 (map len order)) 1 in take n order # batch_cuts E len (drop n order))"
  by pat_completeness auto
termination by (relation "measure (\<lambda>(E, len, order). length order)") (auto simp: Let_def)

declare batch_cuts.simps [simp del]

definition token_lens :: "encoder \<Rightarrow> string list \<Rightarrow> nat \<Rightarrow> nat list" where
  "token_lens E texts max_len = map (\<lambda>x. min x max_len) (en_tok E texts max_len)"

definition token_order :: "nat list \<Rightarrow> nat list" where
  "token_order lens = py_sorted (\<lambda>i. lens ! i) [0..<length lens]"

definition encode_step :: "encoder \<Rightarrow> string list \<Rightarrow> nat \<Rightarrow> vector list \<Rightarrow> nat list \<Rightarrow> vector list" where
  "encode_step E texts max_len out idx = scatter idx (en_net E (map ((!) texts) idx) max_len) out"

definition encode :: "encoder \<Rightarrow> string list \<Rightarrow> nat \<Rightarrow> vector list" where
  \<comment> \<open>\<open>Encoder.encode\<close>; the uninitialised array is taken as zeros\<close>
  "encode E texts max_len =
     (if texts = [] then []
      else let lens = token_lens E texts max_len in
           foldl (encode_step E texts max_len) (replicate (length texts) (replicate DIM 0))
             (batch_cuts E ((!) lens) (token_order lens)))"

definition encode_query_texts :: "encoder \<Rightarrow> string list \<Rightarrow> vector list" where
  "encode_query_texts E queries = encode E (map (\<lambda>q. QUERY_PREFIX @ q) queries) QUERY_MAX_LEN"

definition encode_passage_texts :: "encoder \<Rightarrow> string list \<Rightarrow> vector list" where
  "encode_passage_texts E passages = encode E passages PASSAGE_MAX_LEN"

definition pointwise :: "encoder \<Rightarrow> (string \<Rightarrow> nat \<Rightarrow> vector) \<Rightarrow> bool" where
  \<comment> \<open>padding does not change a row: what the attention mask is for\<close>
  "pointwise E emb \<longleftrightarrow>
     (\<forall>ts n. length (en_tok E ts n) = length ts) \<and> (\<forall>ts n. en_net E ts n = map (\<lambda>t. emb t n) ts)"

lemma batch_cuts_Nil [simp]: "batch_cuts E len [] = []"
  by (simp add: batch_cuts.simps)

lemma batch_cuts_step:
  "order \<noteq> [] \<Longrightarrow> batch_cuts E len order =
     take (max (grow E 0 (map len order)) 1) order # batch_cuts E len (drop (max (grow E 0 (map len order)) 1) order)"
  by (subst batch_cuts.simps) (simp add: Let_def)

lemma concat_batch_cuts: "concat (batch_cuts E len order) = order"
proof (induction E len order rule: batch_cuts.induct)
  case (1 E len order)
  then show ?case by (cases "order = []") (simp_all add: batch_cuts_step)
qed

lemma grow_bounds:
  "grow E n ls = m \<Longrightarrow> n \<le> m \<and> m \<le> n + length ls \<and>
     (n < m \<longrightarrow> m \<le> en_max_batch E \<and> m * ls ! (m - n - 1) \<le> en_budget E)"
proof (induction ls arbitrary: n)
  case (Cons l ls)
  show ?case
  proof (cases "n + 1 \<le> en_max_batch E \<and> (n + 1) * l \<le> en_budget E")
    case True
    then have "grow E (n + 1) ls = m" using Cons.prems by simp
    from Cons.IH [OF this] True show ?thesis
      by (cases "m = n + 1") (auto simp: nth_Cons' less_diff_conv)
  next
    case False
    then have "m = n" using Cons.prems by (simp split: if_splits)
    then show ?thesis by simp
  qed
qed simp

lemma batch_cuts_bounds:
  assumes "sorted (map len order)" and "b \<in> set (batch_cuts E len order)"
  shows "b \<noteq> [] \<and> length b \<le> max 1 (en_max_batch E) \<and>
    (length b = 1 \<or> length b * Max (len ` set b) \<le> en_budget E)"
  using assms
proof (induction E len order rule: batch_cuts.induct)
  case (1 E len order)
  show ?case
  proof (cases "order = []")
    case True
    then show ?thesis using "1.prems" by simp
  next
    case False
    define m where "m = grow E 0 (map len order)"
    have m: "m \<le> length order" "0 < m \<longrightarrow> m \<le> en_max_batch E \<and> m * len (order ! (m - 1)) \<le> en_budget E"
      using grow_bounds [of E 0 "map len order" m] by (auto simp: m_def)
    have "b = take (max m 1) order \<or> b \<in> set (batch_cuts E len (drop (max m 1) order))"
      using "1.prems"(2) batch_cuts_step [OF False, of E len] by (auto simp: m_def)
    then show ?thesis
    proof
      assume b: "b = take (max m 1) order"
      show ?thesis
      proof (cases "m \<le> 1")
        case True
        moreover have "1 \<le> length order" using False by (cases order) auto
        ultimately show ?thesis using b False by (auto simp: max_def)
      next
        case m1: False
        then have b': "b = take m order" "length b = m" using b m(1) by (auto simp: max_def)
        have "len x \<le> len (order ! (m - 1))" if "x \<in> set b" for x
        proof -
          from that obtain i where "i < length b" "x = b ! i" by (metis in_set_conv_nth)
          then have i: "i < m" "x = order ! i" using b' by simp_all
          have "map len order ! i \<le> map len order ! (m - 1)"
            using "1.prems"(1) i m(1) by (intro sorted_nth_mono) auto
          then show ?thesis using i m(1) by simp
        qed
        moreover have ne: "b \<noteq> []" using b' m1 by auto
        ultimately have "Max (len ` set b) \<le> len (order ! (m - 1))" by simp
        then have "m * Max (len ` set b) \<le> m * len (order ! (m - 1))" by simp
        moreover have "m \<le> en_max_batch E" "m * len (order ! (m - 1)) \<le> en_budget E" using m(2) m1 by simp_all
        ultimately have "m * Max (len ` set b) \<le> en_budget E" "m \<le> max 1 (en_max_batch E)" by linarith+
        then show ?thesis using ne by (simp only: b'(2)) simp
      qed
    next
      assume "b \<in> set (batch_cuts E len (drop (max m 1) order))"
      moreover have "sorted (map len (drop (max m 1) order))"
        using "1.prems"(1) sorted_wrt_drop unfolding drop_map [symmetric] by blast
      ultimately show ?thesis using "1.IH" [OF False m_def [THEN arg_cong, of "\<lambda>k. max k 1"]] by blast
    qed
  qed
qed

lemma token_order_facts:
  fixes texts :: "string list" and n :: nat
  assumes "pointwise E emb"
  defines "lens \<equiv> token_lens E texts n"
  shows "distinct (token_order lens)" "set (token_order lens) = {..<length texts}"
    "mset (token_order lens) = mset [0..<length texts]" "sorted (map ((!) lens) (token_order lens))"
proof -
  have len: "length lens = length texts" using assms by (simp add: token_lens_def pointwise_def)
  show "distinct (token_order lens)" "set (token_order lens) = {..<length texts}"
      "mset (token_order lens) = mset [0..<length texts]" "sorted (map ((!) lens) (token_order lens))"
    using sorted_asc.rank_sorted [of "(!) lens" "[0..<length lens]"]
    by (simp_all add: token_order_def sort_simps lessThan_atLeast0 len sorted_asc.rank_mset)
qed

lemma encode_rows:
  assumes "pointwise E emb"
  shows "encode E texts n = map (\<lambda>t. emb t n) texts"
proof (cases "texts = []")
  case False
  define lens where "lens = token_lens E texts n"
  note order = token_order_facts [OF assms, of texts n, folded lens_def]
  have step: "foldl (encode_step E texts n) out cuts = scatter (concat cuts) (map (\<lambda>i. emb (texts ! i) n) (concat cuts)) out"
    for cuts out
  proof (induction cuts arbitrary: out)
    case (Cons idx cuts)
    have "encode_step E texts n out idx = scatter idx (map (\<lambda>i. emb (texts ! i) n) idx) out"
      using assms by (simp add: encode_step_def pointwise_def comp_def)
    then show ?case by (simp add: Cons scatter_append)
  qed (simp add: scatter_def)
  have "map (\<lambda>i. emb (texts ! i) n) [0..<length texts] = map (\<lambda>t. emb t n) texts" by (rule nth_equalityI) simp_all
  then show ?thesis
    using scatter_all [OF order(1), of "replicate (length texts) (replicate DIM 0)" "\<lambda>i. emb (texts ! i) n"] order(2) False
    by (simp add: encode_def step concat_batch_cuts flip: lens_def)
qed (simp add: encode_def)

text \<open>C21: encoding in length-sorted batches returns the row of every text in input order, and every
  batch is within the memory bound: at most \<open>MAX_BATCH\<close> texts, and one text or at most
  \<open>TOKEN_BUDGET\<close> padded tokens; the batches take every text exactly once.\<close>

theorem encode_is_pointwise:
  assumes "pointwise E emb"
  shows "encode E texts n = map (\<lambda>t. emb t n) texts \<and>
    (let lens = token_lens E texts n; cuts = batch_cuts E ((!) lens) (token_order lens) in
     mset (concat cuts) = mset [0..<length texts] \<and>
     (\<forall>b \<in> set cuts. b \<noteq> [] \<and> length b \<le> max 1 (en_max_batch E) \<and>
        (length b = 1 \<or> length b * Max ((!) lens ` set b) \<le> en_budget E)))"
proof -
  have "\<forall>b \<in> set (batch_cuts E ((!) lens) (token_order lens)). b \<noteq> [] \<and> length b \<le> max 1 (en_max_batch E) \<and>
      (length b = 1 \<or> length b * Max ((!) lens ` set b) \<le> en_budget E)" if "lens = token_lens E texts n" for lens
    unfolding that by (intro ballI batch_cuts_bounds [OF token_order_facts(4) [OF assms]])
  then show ?thesis
    unfolding Let_def concat_batch_cuts [of E] using encode_rows [OF assms] token_order_facts(3) [OF assms] by (intro conjI) blast+
qed

section \<open>The resumable passage file\<close>

text \<open>
  \<open>passages.fbin.partial\<close> is a header (rows, dimension) and rows; a file created but not yet written
  reads as zeros once it is extended.  \<open>passage_writes\<close> is the list of durable writes \<open>encode_passages\<close>
  makes from a directory, with the exception that ends it; an append to the progress file or to the log
  is one write, after the one that creates the log.  The seconds each chunk takes are an argument.  The log
  \<open>passages.chunks.log\<close> is the list of its records (chunk, rows, seconds); the statistics are read from it once the
  file is published, so an error there leaves the vectors in place.
\<close>

type_synonym vec_file = "(nat \<times> nat) \<times> vector list"

record pass_stats =
  ps_n :: nat
  ps_dim :: nat
  ps_seconds :: real
  ps_rate :: real
  ps_chunks :: nat

record pass_fs =
  fs_final :: "vec_file option"
  fs_partial :: "vec_file option"
  fs_progress :: "string option"
  fs_log :: "(nat \<times> nat \<times> real) list option"
  fs_stats :: "pass_stats option option" \<comment> \<open>\<open>Some None\<close> is a file created but not yet written\<close>

datatype pass_write =
    MkPartial
  | PutHeader nat
  | Extend nat
  | InitProgress
  | PutChunk nat "vector list"
  | MarkDone nat
  | OpenLog
  | LogChunk nat nat real
  | Publish
  | DropProgress
  | OpenStats
  | PutStats pass_stats

definition zero_row :: vector where "zero_row = replicate DIM 0"

definition splice :: "nat \<Rightarrow> 'a list \<Rightarrow> 'a list \<Rightarrow> 'a list" where
  \<comment> \<open>\<open>a[s:s + len(new)] = new\<close>\<close>
  "splice s new a = take s a @ new @ drop (s + length new) a"

fun perform :: "pass_fs \<Rightarrow> pass_write \<Rightarrow> pass_fs" where
  "perform fs MkPartial = fs\<lparr>fs_partial := Some ((0, 0), [])\<rparr>"
| "perform fs (PutHeader n) = fs\<lparr>fs_partial := map_option (\<lambda>(h, rs). ((n, DIM), rs)) (fs_partial fs)\<rparr>"
| "perform fs (Extend n) =
     fs\<lparr>fs_partial := map_option (\<lambda>(h, rs). (h, rs @ replicate (n - length rs) zero_row)) (fs_partial fs)\<rparr>"
| "perform fs InitProgress = fs\<lparr>fs_progress := Some []\<rparr>"
| "perform fs (PutChunk c new) = fs\<lparr>fs_partial := map_option (\<lambda>(h, rs). (h, splice (c * CHUNK) new rs)) (fs_partial fs)\<rparr>"
| "perform fs (MarkDone c) = fs\<lparr>fs_progress := Some ((case fs_progress fs of None \<Rightarrow> [] | Some p \<Rightarrow> p) @ str_nat c @ nl)\<rparr>"
| "perform fs OpenLog = fs\<lparr>fs_log := Some (case fs_log fs of None \<Rightarrow> [] | Some l \<Rightarrow> l)\<rparr>"
| "perform fs (LogChunk c k s) = fs\<lparr>fs_log := Some ((case fs_log fs of None \<Rightarrow> [] | Some l \<Rightarrow> l) @ [(c, k, s)])\<rparr>"
| "perform fs Publish = fs\<lparr>fs_final := fs_partial fs, fs_partial := None\<rparr>"
| "perform fs DropProgress = fs\<lparr>fs_progress := None\<rparr>"
| "perform fs OpenStats = fs\<lparr>fs_stats := Some None\<rparr>"
| "perform fs (PutStats st) = fs\<lparr>fs_stats := Some (Some st)\<rparr>"

record pass_input =
  pi_encoder :: encoder
  pi_ids :: "nat list" \<comment> \<open>\<open>docids.u64bin\<close>\<close>
  pi_collection :: string
  pi_free :: real \<comment> \<open>free space, in GB\<close>

definition done_chunks :: "string option \<Rightarrow> int set res" where
  "done_chunks progress =
     (case progress of None \<Rightarrow> Inr {} | Some p \<Rightarrow> res_bind (res_map int_of (split_ws p)) (\<lambda>cs. Inr (set cs)))"

fun read_texts :: "nat list \<Rightarrow> int set \<Rightarrow> nat \<Rightarrow> string list \<Rightarrow> string list res" where
  \<comment> \<open>the lines from number \<open>i\<close> on; chunks already done keep a placeholder\<close>
  "read_texts ids done i [] = Inr []"
| "read_texts ids done i (line # r) =
     (case split1 TAB (rstrip_nl line) of
        None \<Rightarrow> Inl ValueError
      | Some (pid, t) \<Rightarrow>
          res_bind (int_of pid) (\<lambda>p.
            if length ids \<le> i then Inl IndexError
            else if p \<noteq> int (ids ! i) then Inl SystemExit
            else res_bind (read_texts ids done (Suc i) r) (\<lambda>ts. Inr ((if int (i div CHUNK) \<in> done then [] else t) # ts))))"

definition n_chunks :: "nat \<Rightarrow> nat" where
  "n_chunks n = (n + CHUNK - 1) div CHUNK"

definition chunk_writes :: "encoder \<Rightarrow> (nat \<Rightarrow> real) \<Rightarrow> string list \<Rightarrow> nat \<Rightarrow> pass_write list" where
  "chunk_writes E secs texts c =
     (let part = take CHUNK (drop (c * CHUNK) texts) in
      [PutChunk c (encode_passage_texts E part), MarkDone c, OpenLog, LogChunk c (length part) (round_to 2 (secs c))])"

definition row_norm :: "vector \<Rightarrow> real" where
  "row_norm v = sqrt (sum_list (map (\<lambda>x. x * x) v))"

definition norms_ok :: "vector list \<Rightarrow> bool" where
  \<comment> \<open>\<open>np.allclose(norms, 1.0, atol=1e-4)\<close> on a sample of the rows\<close>
  "norms_ok mm =
     (let k = max 1 (length mm div 10000) in
      list_all (\<lambda>i. \<bar>row_norm (mm ! i) - 1\<bar> \<le> 1 / 10 ^ 4 + 1 / 10 ^ 5) (filter (\<lambda>i. i mod k = 0) [0..<length mm]))"

definition partial_rows :: "pass_fs \<Rightarrow> vector list" where
  "partial_rows fs = (case fs_partial fs of None \<Rightarrow> [] | Some (_, rs) \<Rightarrow> rs)"

definition gb_needed :: "nat \<Rightarrow> real" where
  "gb_needed n = (8 + real (n * DIM * 4)) / 10 ^ 9"

definition setup_writes :: "nat \<Rightarrow> pass_fs \<Rightarrow> pass_write list" where
  "setup_writes n fs = (if fs_partial fs = None then [MkPartial, PutHeader n, Extend n, InitProgress] else [])"

definition log_rows :: "(nat \<times> nat \<times> real) list \<Rightarrow> nat" where
  "log_rows l = sum_list (map (\<lambda>(c, k, s). k) l)"

definition log_seconds :: "(nat \<times> nat \<times> real) list \<Rightarrow> real" where
  "log_seconds l = sum_list (map (\<lambda>(c, k, s). s) l)"

definition stats_writes :: "nat \<Rightarrow> pass_fs \<Rightarrow> pass_write list \<times> py_error option" where
  \<comment> \<open>the throughput from the chunk log: no log cannot be read, and no seconds cannot be divided by\<close>
  "stats_writes n fs =
     (case fs_log fs of
        None \<Rightarrow> ([], Some FileNotFoundError)
      | Some l \<Rightarrow>
          if log_seconds l = 0 then ([], Some ZeroDivisionError)
          else ([OpenStats, PutStats \<lparr>ps_n = n, ps_dim = DIM, ps_seconds = round_to 1 (log_seconds l),
                  ps_rate = round_to 1 (real (log_rows l) / log_seconds l), ps_chunks = log_rows l div CHUNK\<rparr>], None))"

definition passage_writes :: "pass_input \<Rightarrow> (nat \<Rightarrow> real) \<Rightarrow> pass_fs \<Rightarrow> pass_write list \<times> py_error option" where
  \<comment> \<open>a chunk that took no time is logged and then ends the run: its rate is printed\<close>
  "passage_writes P secs fs =
     (let n = length (pi_ids P); setup = setup_writes n fs in
      if fs_final fs \<noteq> None then ([], if fs_stats fs = Some None then Some ValueError else None)
      else if fs_partial fs = None \<and> pi_free P - gb_needed n < 3 then ([], Some SystemExit)
      else case done_chunks (fs_progress (foldl perform fs setup)) of
        Inl e \<Rightarrow> (setup, Some e)
      | Inr done \<Rightarrow>
          (case read_texts (pi_ids P) done 0 (text_lines (pi_collection P)) of
             Inl e \<Rightarrow> (setup @ [Extend n], Some e)
           | Inr texts \<Rightarrow>
               if length texts \<noteq> n then (setup @ [Extend n], Some AssertionError)
               else let todo = filter (\<lambda>c. int c \<notin> done) [0..<n_chunks n];
                        timed = takeWhile (\<lambda>c. secs c \<noteq> 0) todo;
                        ws = setup @ [Extend n] @
                          concat (map (chunk_writes (pi_encoder P) secs texts) (take (Suc (length timed)) todo))
                    in if length timed < length todo then (ws, Some ZeroDivisionError)
                       else if \<not> norms_ok (partial_rows (foldl perform fs ws)) then (ws, Some AssertionError)
                       else let (ss, err) = stats_writes n (foldl perform fs ws) in (ws @ [Publish, DropProgress] @ ss, err)))"

definition empty_dir :: pass_fs where
  "empty_dir = \<lparr>fs_final = None, fs_partial = None, fs_progress = None, fs_log = None, fs_stats = None\<rparr>"

text \<open>The directories that any sequence of crashes can leave: a run, however long its chunks take, performs a prefix of
  its writes, and a crash while a chunk is written leaves any rows there.\<close>

inductive crash_reach :: "pass_input \<Rightarrow> pass_fs \<Rightarrow> bool" for P where
  fresh: "crash_reach P empty_dir"
| crash: "crash_reach P fs \<Longrightarrow> \<forall>c. 0 \<le> secs c \<Longrightarrow> passage_writes P secs fs = (ws, e) \<Longrightarrow> crash_reach P (foldl perform fs (take k ws))"
| torn: "crash_reach P fs \<Longrightarrow> \<forall>c. 0 \<le> secs c \<Longrightarrow> passage_writes P secs fs = (ws, e) \<Longrightarrow> k < length ws \<Longrightarrow> ws ! k = PutChunk c new \<Longrightarrow>
    length junk = length new \<Longrightarrow> crash_reach P (perform (foldl perform fs (take k ws)) (PutChunk c junk))"

section \<open>What a crash can leave\<close>

lemma CHUNK_pos [simp]: "0 < CHUNK"
  by (simp add: CHUNK_def)

lemma splice_length [simp]: "s + length new \<le> length a \<or> new = [] \<Longrightarrow> length (splice s new a) = length a"
  by (auto simp: splice_def)

lemma splice_nth:
  assumes "s + length new \<le> length a \<or> new = []" and "i < length a"
  shows "splice s new a ! i = (if s \<le> i \<and> i < s + length new then new ! (i - s) else a ! i)"
proof (cases "new = []")
  case False
  then have "s + length new \<le> length a" using assms(1) by simp
  then show ?thesis using assms(2) by (auto simp: splice_def nth_append min_def)
next
  case True
  then show ?thesis by (auto simp: splice_def)
qed

lemma in_chunk: "i div CHUNK = c \<longleftrightarrow> c * CHUNK \<le> i \<and> i < c * CHUNK + CHUNK"
proof
  assume "i div CHUNK = c"
  then show "c * CHUNK \<le> i \<and> i < c * CHUNK + CHUNK"
    using div_times_less_eq_dividend [of i CHUNK] dividend_less_div_times [of CHUNK i] by (auto simp: algebra_simps)
next
  assume "c * CHUNK \<le> i \<and> i < c * CHUNK + CHUNK"
  then show "i div CHUNK = c" by (intro div_nat_eqI) (auto simp: algebra_simps)
qed

definition agree :: "vector list \<Rightarrow> vector list \<Rightarrow> nat \<Rightarrow> bool" where
  "agree rs W c \<longleftrightarrow> (\<forall>i < length W. i div CHUNK = c \<longrightarrow> rs ! i = W ! i)"

definition prog_text :: "nat list \<Rightarrow> string" where
  "prog_text cs = concat (map (\<lambda>c. str_nat c @ nl) cs)"

definition part_of :: "'a list \<Rightarrow> nat \<Rightarrow> 'a list" where
  "part_of xs c = take CHUNK (drop (c * CHUNK) xs)"

lemma split_ws_prog: "split_ws (prog_text cs) = map str_nat cs"
proof (induction cs)
  case (Cons c cs)
  have "prog_text (c # cs) = str_nat c @ char_of (10 :: nat) # prog_text cs" by (simp add: prog_text_def nl_def)
  then show ?case using split_ws_field [of "str_nat c" "char_of (10 :: nat)" "prog_text cs"] Cons by simp
qed (simp add: prog_text_def)

lemma int_of_str_nat: "int_of (str_nat n) = Inr (int n)"
  using int_of_str_int [of "int n"] by (simp add: str_int_def)

lemma done_prog: "done_chunks (Some (prog_text cs)) = Inr (int ` set cs)"
proof -
  have "res_map int_of (map str_nat cs) = Inr (map int cs)" by (induction cs) (simp_all add: int_of_str_nat)
  then show ?thesis by (simp add: done_chunks_def split_ws_prog)
qed

definition pass_inv :: "vector list \<Rightarrow> pass_fs \<Rightarrow> bool" where
  "pass_inv W fs \<longleftrightarrow>
     (\<forall>h rs. fs_final fs = Some (h, rs) \<longrightarrow> rs = W) \<and>
     (fs_final fs = None \<and> fs_partial fs = None \<longrightarrow> fs_progress fs = None) \<and>
     (fs_final fs = None \<longrightarrow> (\<forall>h rs. fs_partial fs = Some (h, rs) \<longrightarrow>
        (\<exists>cs. (fs_progress fs = Some (prog_text cs) \<or> cs = [] \<and> fs_progress fs = None) \<and>
              (length rs = length W \<or> rs = [] \<and> cs = []) \<and> (\<forall>c \<in> set cs. agree rs W c))))"

definition chunk_state :: "vector list \<Rightarrow> nat \<times> nat \<Rightarrow> nat list \<Rightarrow> pass_fs \<Rightarrow> bool" where
  \<comment> \<open>the file is sized and the chunks \<open>cs\<close> are done\<close>
  "chunk_state W h cs fs \<longleftrightarrow>
     fs_final fs = None \<and> (\<exists>rs. fs_partial fs = Some (h, rs) \<and> length rs = length W \<and> (\<forall>c \<in> set cs. agree rs W c)) \<and>
     (fs_progress fs = Some (prog_text cs) \<or> cs = [] \<and> fs_progress fs = None)"

lemma chunk_state_inv: "chunk_state W h cs fs \<Longrightarrow> pass_inv W fs"
  by (auto simp: chunk_state_def pass_inv_def)

lemma put_chunk:
  assumes "chunk_state W h cs fs" and "c \<notin> set cs" and "length new = length (part_of W c)"
  shows "chunk_state W h cs (perform fs (PutChunk c new)) \<and>
    (new = part_of W c \<longrightarrow> agree (partial_rows (perform fs (PutChunk c new))) W c)"
proof -
  obtain rs where rs: "fs_partial fs = Some (h, rs)" "length rs = length W" "\<forall>c \<in> set cs. agree rs W c"
    using assms(1) by (auto simp: chunk_state_def)
  have fits: "c * CHUNK + length new \<le> length rs \<or> new = []"
    using assms(3) rs(2) by (auto simp: part_of_def simp flip: length_greater_0_conv)
  have len: "length new = min CHUNK (length W - c * CHUNK)" using assms(3) by (simp add: part_of_def)
  have nth: "splice (c * CHUNK) new rs ! i = (if i div CHUNK = c then new ! (i - c * CHUNK) else rs ! i)" if "i < length W" for i
  proof -
    have "c * CHUNK \<le> i \<and> i < c * CHUNK + length new \<longleftrightarrow> i div CHUNK = c"
      using that by (auto simp: len in_chunk)
    then show ?thesis using splice_nth [OF fits, of i] that rs(2) by simp
  qed
  have "chunk_state W h cs (perform fs (PutChunk c new))"
    using assms(1,2) rs fits nth by (auto simp: chunk_state_def agree_def)
  moreover have "agree (partial_rows (perform fs (PutChunk c new))) W c" if "new = part_of W c"
    unfolding agree_def
  proof (intro allI impI)
    fix i assume i: "i < length W" "i div CHUNK = c"
    then have "c * CHUNK \<le> i" "i < c * CHUNK + CHUNK" by (simp_all only: in_chunk)
    then show "partial_rows (perform fs (PutChunk c new)) ! i = W ! i"
      using rs that i nth [OF i(1)] by (simp add: partial_rows_def part_of_def)
  qed
  ultimately show ?thesis by blast
qed

text \<open>A list of writes keeps an invariant if it holds after every prefix, a torn chunk included.\<close>

fun keeps :: "(pass_fs \<Rightarrow> bool) \<Rightarrow> pass_fs \<Rightarrow> pass_write list \<Rightarrow> bool" where
  "keeps I fs [] = I fs"
| "keeps I fs (w # ws) \<longleftrightarrow>
     I fs \<and> (\<forall>c new junk. w = PutChunk c new \<longrightarrow> length junk = length new \<longrightarrow> I (perform fs (PutChunk c junk))) \<and>
     keeps I (perform fs w) ws"

lemma keeps_start: "keeps I fs ws \<Longrightarrow> I fs"
  by (cases ws) auto

lemma keeps_append: "keeps I fs (ws @ vs) \<longleftrightarrow> keeps I fs ws \<and> keeps I (foldl perform fs ws) vs"
  by (induction ws arbitrary: fs) (auto dest: keeps_start)

lemma keeps_prefix: "keeps I fs ws \<Longrightarrow> I (foldl perform fs (take k ws))"
proof (induction ws arbitrary: fs k)
  case (Cons w ws)
  then show ?case by (cases k) auto
qed simp

lemma keeps_torn:
  "keeps I fs ws \<Longrightarrow> k < length ws \<Longrightarrow> ws ! k = PutChunk c new \<Longrightarrow> length junk = length new \<Longrightarrow>
   I (perform (foldl perform fs (take k ws)) (PutChunk c junk))"
proof (induction ws arbitrary: fs k)
  case (Cons w ws)
  show ?case
  proof (cases k)
    case 0
    then have "w = PutChunk c new" using Cons.prems(3) by simp
    then show ?thesis using Cons.prems(1,4) 0 by (simp del: perform.simps)
  next
    case (Suc j)
    have "I (perform (foldl perform (perform fs w) (take j ws)) (PutChunk c junk))"
      using Cons.prems Suc by (intro Cons.IH) simp_all
    then show ?thesis by (simp only: Suc take_Suc_Cons foldl_Cons)
  qed
qed simp

lemma chunk_writes_keep:
  assumes s: "chunk_state W h cs fs" and c: "c \<notin> set cs"
    and new: "encode_passage_texts E (part_of texts c) = part_of W c"
  shows "keeps (pass_inv W) fs (chunk_writes E secs texts c) \<and> chunk_state W h (cs @ [c]) (foldl perform fs (chunk_writes E secs texts c))"
proof -
  let ?put = "perform fs (PutChunk c (part_of W c))"
  have put: "chunk_state W h cs (perform fs (PutChunk c new'))" if "length new' = length (part_of W c)" for new'
    using put_chunk [OF s c that] by blast
  have agr: "agree (partial_rows ?put) W c" using put_chunk [OF s c, of "part_of W c"] by blast
  have mark: "chunk_state W h (cs @ [c]) (perform ?put (MarkDone c))"
    using put [OF refl] agr by (auto simp: chunk_state_def partial_rows_def prog_text_def)
  then have open_log: "chunk_state W h (cs @ [c]) (perform (perform ?put (MarkDone c)) OpenLog)"
    by (simp add: chunk_state_def)
  then have log: "chunk_state W h (cs @ [c]) (perform (perform (perform ?put (MarkDone c)) OpenLog) (LogChunk c k t))" for k t
    by (simp add: chunk_state_def)
  have ws: "chunk_writes E secs texts c =
      [PutChunk c (part_of W c), MarkDone c, OpenLog, LogChunk c (length (part_of texts c)) (round_to 2 (secs c))]"
    using new by (simp add: chunk_writes_def part_of_def)
  show ?thesis unfolding ws using s put mark open_log log [of "length (part_of texts c)" "round_to 2 (secs c)"]
    by (auto intro: chunk_state_inv simp del: perform.simps)
qed

lemma chunks_keep:
  assumes "chunk_state W h cs fs" and "distinct todo" and "set cs \<inter> set todo = {}"
    and "\<And>c. c \<in> set todo \<Longrightarrow> encode_passage_texts E (part_of texts c) = part_of W c"
  shows "keeps (pass_inv W) fs (concat (map (chunk_writes E secs texts) todo)) \<and>
    chunk_state W h (cs @ todo) (foldl perform fs (concat (map (chunk_writes E secs texts) todo)))"
  using assms
proof (induction todo arbitrary: cs fs)
  case Nil
  then show ?case by (simp add: chunk_state_inv)
next
  case (Cons c todo)
  have one: "keeps (pass_inv W) fs (chunk_writes E secs texts c) \<and> chunk_state W h (cs @ [c]) (foldl perform fs (chunk_writes E secs texts c))"
    using Cons.prems by (intro chunk_writes_keep) auto
  have "keeps (pass_inv W) (foldl perform fs (chunk_writes E secs texts c)) (concat (map (chunk_writes E secs texts) todo)) \<and>
    chunk_state W h ((cs @ [c]) @ todo) (foldl perform (foldl perform fs (chunk_writes E secs texts c)) (concat (map (chunk_writes E secs texts) todo)))"
    using Cons.prems one by (intro Cons.IH) auto
  then show ?case using one by (simp add: keeps_append)
qed

lemma setup_keeps:
  assumes inv: "pass_inv W fs" and "fs_final fs = None"
  shows "keeps (pass_inv W) fs (setup_writes (length W) fs @ [Extend (length W)]) \<and>
    (\<exists>h cs. chunk_state W h cs (foldl perform fs (setup_writes (length W) fs @ [Extend (length W)])) \<and>
       done_chunks (fs_progress (foldl perform fs (setup_writes (length W) fs))) = Inr (int ` set cs))"
proof (cases "fs_partial fs")
  case None
  define n where "n = length W"
  have p0: "prog_text [] = []" by (simp add: prog_text_def)
  have d: "done_chunks (Some []) = Inr (int ` set [])" using done_prog [of "[]"] by (simp only: p0)
  have prog: "fs_progress fs = None" using inv None assms(2) by (simp add: pass_inv_def)
  have "pass_inv W (foldl perform fs (take k [MkPartial, PutHeader n, Extend n, InitProgress, Extend n]))" for k
    using prog assms(2) None p0 by (auto simp: pass_inv_def n_def take_Cons' intro!: exI [of _ "[]"])
  from this [of 0] this [of 1] this [of 2] this [of 3] this [of 4] this [of 5]
  have "keeps (pass_inv W) fs [MkPartial, PutHeader n, Extend n, InitProgress, Extend n]" by simp
  moreover have "chunk_state W (n, DIM) [] (foldl perform fs [MkPartial, PutHeader n, Extend n, InitProgress, Extend n])"
    using assms(2) p0 by (simp add: chunk_state_def n_def None)
  ultimately show ?thesis using None d by (auto simp: setup_writes_def n_def intro!: exI [of _ "[] :: nat list"])
next
  case (Some f)
  obtain h rs where f: "f = (h, rs)" by (cases f)
  from inv Some f assms(2) obtain cs where cs: "fs_progress fs = Some (prog_text cs) \<or> cs = [] \<and> fs_progress fs = None"
      "length rs = length W \<or> rs = [] \<and> cs = []" "\<forall>c \<in> set cs. agree rs W c"
    unfolding pass_inv_def by blast
  have "chunk_state W h cs (perform fs (Extend (length W)))"
    using cs Some f assms(2) by (auto simp: chunk_state_def)
  moreover have "done_chunks (fs_progress fs) = Inr (int ` set cs)"
    using cs(1) done_prog [of cs] by (auto simp: done_chunks_def)
  moreover have "setup_writes (length W) fs = []" by (simp add: setup_writes_def Some)
  ultimately show ?thesis using inv by (simp del: perform.simps split_paired_Ex) (blast intro: chunk_state_inv)
qed

lemma read_texts_done:
  "read_texts ids {} i ls = Inr ts \<Longrightarrow>
   read_texts ids done i ls = Inr (map (\<lambda>(j, t). if int (j div CHUNK) \<in> done then [] else t) (enumerate i ts))"
proof (induction ls arbitrary: i ts)
  case (Cons l ls)
  then show ?case by (auto split: option.splits if_splits)
qed simp

lemma part_of_done:
  assumes "int c \<notin> done"
  shows "part_of (map (\<lambda>(j, t). if int (j div CHUNK) \<in> done then [] else t) (enumerate 0 ts)) c = part_of ts c"
proof (rule nth_equalityI)
  fix i assume "i < length (part_of (map (\<lambda>(j, t). if int (j div CHUNK) \<in> done then [] else t) (enumerate 0 ts)) c)"
  then have i: "i < CHUNK" "c * CHUNK + i < length ts" by (auto simp: part_of_def)
  then have "(c * CHUNK + i) div CHUNK = c" by (simp only: in_chunk) simp
  then show "part_of (map (\<lambda>(j, t). if int (j div CHUNK) \<in> done then [] else t) (enumerate 0 ts)) c ! i = part_of ts c ! i"
    using i assms by (simp add: part_of_def nth_enumerate_eq)
qed (simp add: part_of_def)

lemma all_chunks:
  assumes "length rs = length W" and "\<And>c. c < n_chunks (length W) \<Longrightarrow> agree rs W c"
  shows "rs = W"
proof (rule nth_equalityI)
  fix i assume i: "i < length rs"
  have "i div CHUNK < n_chunks (length W)"
  proof -
    have "i + CHUNK \<le> length W + CHUNK - 1" using i assms(1) CHUNK_pos by linarith
    then have "(i + CHUNK) div CHUNK \<le> (length W + CHUNK - 1) div CHUNK" by (rule div_le_mono)
    then show ?thesis by (simp add: n_chunks_def)
  qed
  then show "rs ! i = W ! i" using assms i by (auto simp: agree_def)
qed (rule assms(1))

definition headed :: "nat \<times> nat \<Rightarrow> pass_fs \<Rightarrow> bool" where
  "headed h0 fs \<longleftrightarrow> (\<forall>h rs. fs_partial fs = Some (h, rs) \<or> fs_final fs = Some (h, rs) \<longrightarrow> h = h0)"

lemma headed_eq:
  "headed h0 fs \<Longrightarrow> fs_final fs = Some (h, rs) \<Longrightarrow> h = h0" "headed h0 fs \<Longrightarrow> fs_partial fs = Some (h, rs) \<Longrightarrow> h = h0"
  unfolding headed_def by blast+

definition header_write :: "pass_write \<Rightarrow> bool" where
  "header_write w \<longleftrightarrow> w = MkPartial \<or> (\<exists>n. w = PutHeader n)"

lemma headed_keep: "list_all (\<lambda>w. \<not> header_write w) ws \<Longrightarrow> headed h0 fs \<Longrightarrow> headed h0 (foldl perform fs ws)"
proof (induction ws arbitrary: fs)
  case (Cons w ws)
  have "headed h0 (perform fs w)" using Cons.prems by (cases w) (auto simp: headed_def header_write_def)
  then show ?case using Cons by simp
qed simp

definition inputs_ok :: "pass_input \<Rightarrow> (string \<Rightarrow> nat \<Rightarrow> vector) \<Rightarrow> string list \<Rightarrow> bool" where
  "inputs_ok P emb texts \<longleftrightarrow>
     pointwise (pi_encoder P) emb \<and> (\<forall>t n. row_norm (emb t n) = 1) \<and>
     read_texts (pi_ids P) {} 0 (text_lines (pi_collection P)) = Inr texts \<and> length texts = length (pi_ids P) \<and>
     gb_needed (length (pi_ids P)) + 3 \<le> pi_free P"

section \<open>What a run does from such a directory\<close>

definition chunks_left :: "pass_input \<Rightarrow> pass_fs \<Rightarrow> nat list" where
  "chunks_left P fs =
     (case done_chunks (fs_progress fs) of
        Inl e \<Rightarrow> [] | Inr done \<Rightarrow> filter (\<lambda>c. int c \<notin> done) [0..<n_chunks (length (pi_ids P))])"

definition run_error :: "pass_input \<Rightarrow> pass_fs \<Rightarrow> py_error option" where
  \<comment> \<open>how a run ends that nothing interrupts\<close>
  "run_error P fs =
     (if fs_final fs \<noteq> None then if fs_stats fs = Some None then Some ValueError else None
      else if chunks_left P fs \<noteq> [] then None
      else case fs_log fs of None \<Rightarrow> Some FileNotFoundError | Some l \<Rightarrow> if log_seconds l = 0 then Some ZeroDivisionError else None)"

definition all_chunk_writes :: "pass_input \<Rightarrow> (nat \<Rightarrow> real) \<Rightarrow> string list \<Rightarrow> nat list \<Rightarrow> pass_write list" where
  "all_chunk_writes P secs ts cs = concat (map (chunk_writes (pi_encoder P) secs ts) cs)"

lemma run_plan:
  assumes ok: "inputs_ok P emb texts" and inv: "pass_inv W fs" and W: "W = map (\<lambda>t. emb t PASSAGE_MAX_LEN) texts" and none: "fs_final fs = None"
  obtains pre h cs texts' where "pre = setup_writes (length texts) fs @ [Extend (length texts)]"
    and "chunks_left P fs = filter (\<lambda>c. c \<notin> set cs) [0..<n_chunks (length W)]"
    and "\<And>secs. passage_writes P secs fs =
       (let timed = takeWhile (\<lambda>c. secs c \<noteq> 0) (chunks_left P fs);
            ws = pre @ all_chunk_writes P secs texts' (take (Suc (length timed)) (chunks_left P fs))
        in if length timed < length (chunks_left P fs) then (ws, Some ZeroDivisionError)
           else if \<not> norms_ok (partial_rows (foldl perform fs ws)) then (ws, Some AssertionError)
           else let (ss, err) = stats_writes (length texts) (foldl perform fs ws) in (ws @ [Publish, DropProgress] @ ss, err))"
    and "\<And>secs k. keeps (pass_inv W) fs (pre @ all_chunk_writes P secs texts' (take k (chunks_left P fs))) \<and>
       chunk_state W h (cs @ take k (chunks_left P fs)) (foldl perform fs (pre @ all_chunk_writes P secs texts' (take k (chunks_left P fs))))"
proof -
  define n where "n = length W"
  have n: "length texts = n" "length (pi_ids P) = n" using ok W by (simp_all add: n_def inputs_ok_def)
  define pre where "pre = setup_writes n fs @ [Extend n]"
  obtain h cs where pre: "keeps (pass_inv W) fs pre" "chunk_state W h cs (foldl perform fs pre)"
      "done_chunks (fs_progress (foldl perform fs (setup_writes n fs))) = Inr (int ` set cs)"
    using setup_keeps [OF inv none] unfolding pre_def n_def by blast
  define texts' where "texts' = map (\<lambda>(j, t). if int (j div CHUNK) \<in> int ` set cs then [] else t) (enumerate 0 texts)"
  have "done_chunks (fs_progress fs) = Inr (int ` set cs)"
  proof (cases "fs_partial fs")
    case None
    then have "fs_progress fs = None" using inv none by (simp add: pass_inv_def)
    then show ?thesis using pre(3) None by (simp add: setup_writes_def done_chunks_def)
  next
    case (Some f)
    then show ?thesis using pre(3) by (simp add: setup_writes_def)
  qed
  then have todo: "chunks_left P fs = filter (\<lambda>c. c \<notin> set cs) [0..<n_chunks n]"
    by (simp add: chunks_left_def n inj_image_mem_iff [OF inj_of_nat])
  have rd: "read_texts (pi_ids P) (int ` set cs) 0 (text_lines (pi_collection P)) = Inr texts'" "length texts' = n"
    using ok read_texts_done by (auto simp: inputs_ok_def texts'_def n)
  have enc: "encode_passage_texts (pi_encoder P) ts = map (\<lambda>t. emb t PASSAGE_MAX_LEN) ts" for ts
    using ok encode_rows [of "pi_encoder P" emb ts] by (simp add: encode_passage_texts_def inputs_ok_def)
  have ch: "keeps (pass_inv W) (foldl perform fs pre) (all_chunk_writes P secs texts' (take k (chunks_left P fs))) \<and>
      chunk_state W h (cs @ take k (chunks_left P fs)) (foldl perform (foldl perform fs pre) (all_chunk_writes P secs texts' (take k (chunks_left P fs))))"
    for secs k
    unfolding all_chunk_writes_def
  proof (rule chunks_keep [OF pre(2)])
    fix c assume "c \<in> set (take k (chunks_left P fs))"
    then have "c \<in> set (chunks_left P fs)" by (rule in_set_takeD)
    then have "int c \<notin> int ` set cs" by (auto simp: todo)
    from part_of_done [OF this, of texts] show "encode_passage_texts (pi_encoder P) (part_of texts' c) = part_of W c"
      by (simp add: enc texts'_def W) (simp add: part_of_def take_map drop_map)
  qed (auto simp: todo dest: in_set_takeD)
  have plan: "passage_writes P secs fs =
       (let timed = takeWhile (\<lambda>c. secs c \<noteq> 0) (chunks_left P fs);
            ws = pre @ all_chunk_writes P secs texts' (take (Suc (length timed)) (chunks_left P fs))
        in if length timed < length (chunks_left P fs) then (ws, Some ZeroDivisionError)
           else if \<not> norms_ok (partial_rows (foldl perform fs ws)) then (ws, Some AssertionError)
           else let (ss, err) = stats_writes (length texts) (foldl perform fs ws) in (ws @ [Publish, DropProgress] @ ss, err))" for secs
  proof -
    have "\<not> pi_free P - gb_needed n < 3" using ok n by (simp add: inputs_ok_def)
    moreover have "filter (\<lambda>c. int c \<notin> int ` set cs) [0..<n_chunks n] = chunks_left P fs"
      by (simp add: todo inj_image_mem_iff [OF inj_of_nat])
    ultimately show ?thesis
      unfolding passage_writes_def Let_def n
      by (simp only: none pre(3) sum.case rd if_False simp_thms flip: append_assoc)
         (simp only: pre_def [symmetric] all_chunk_writes_def [symmetric] append_assoc)
  qed
  show thesis
    by (rule that [of pre cs texts' h]) (use todo plan pre(1) ch n pre_def n_def in \<open>simp_all add: keeps_append\<close>)
qed

lemma all_written:
  assumes "chunk_state W h (cs @ filter (\<lambda>c. c \<notin> set cs) [0..<n_chunks (length W)]) fs"
  shows "fs_partial fs = Some (h, W) \<and> fs_final fs = None"
proof -
  obtain rs where rs: "fs_partial fs = Some (h, rs)" "length rs = length W" "\<forall>c \<in> set (cs @ filter (\<lambda>c. c \<notin> set cs) [0..<n_chunks (length W)]). agree rs W c"
      "fs_final fs = None"
    using assms unfolding chunk_state_def by blast
  have "rs = W"
  proof (rule all_chunks [OF rs(2)])
    fix c assume "c < n_chunks (length W)"
    then have "c \<in> set (cs @ filter (\<lambda>c. c \<notin> set cs) [0..<n_chunks (length W)])" by auto
    then show "agree rs W c" using rs(3) by blast
  qed
  then show ?thesis using rs by simp
qed

lemma stats_writes_final:
  "fs_final (foldl perform fs (fst (stats_writes n fs'))) = fs_final fs" "list_all (\<lambda>w. \<not> header_write w) (fst (stats_writes n fs'))"
  by (auto simp: stats_writes_def header_write_def split: option.split)

lemma finish_keeps:
  assumes "chunk_state W h cs fs" and "fs_partial fs = Some (h, W)"
  shows "keeps (pass_inv W) fs ([Publish, DropProgress] @ fst (stats_writes n fs'))"
proof -
  have "keeps (pass_inv W) fs [Publish, DropProgress]"
    using assms chunk_state_inv [OF assms(1)] by (simp add: pass_inv_def)
  moreover have "keeps (pass_inv W) (foldl perform fs [Publish, DropProgress]) (fst (stats_writes n fs'))"
    using assms(2) by (auto simp: stats_writes_def pass_inv_def split: option.split)
  ultimately show ?thesis by (simp add: keeps_append)
qed

lemma run_keeps:
  assumes "inputs_ok P emb texts" and "pass_inv W fs" and "W = map (\<lambda>t. emb t PASSAGE_MAX_LEN) texts"
  shows "keeps (pass_inv W) fs (fst (passage_writes P secs fs))"
proof (cases "fs_final fs")
  case (Some f)
  then show ?thesis using assms(2) by (simp add: passage_writes_def Let_def)
next
  case None
  obtain pre h cs texts' where left: "chunks_left P fs = filter (\<lambda>c. c \<notin> set cs) [0..<n_chunks (length W)]"
    and plan: "passage_writes P secs fs =
       (let timed = takeWhile (\<lambda>c. secs c \<noteq> 0) (chunks_left P fs);
            ws = pre @ all_chunk_writes P secs texts' (take (Suc (length timed)) (chunks_left P fs))
        in if length timed < length (chunks_left P fs) then (ws, Some ZeroDivisionError)
           else if \<not> norms_ok (partial_rows (foldl perform fs ws)) then (ws, Some AssertionError)
           else let (ss, err) = stats_writes (length texts) (foldl perform fs ws) in (ws @ [Publish, DropProgress] @ ss, err))"
    and k: "\<And>k. keeps (pass_inv W) fs (pre @ all_chunk_writes P secs texts' (take k (chunks_left P fs))) \<and>
       chunk_state W h (cs @ take k (chunks_left P fs)) (foldl perform fs (pre @ all_chunk_writes P secs texts' (take k (chunks_left P fs))))"
    by (rule run_plan [OF assms None]) blast
  define m where "m = length (takeWhile (\<lambda>c. secs c \<noteq> 0) (chunks_left P fs))"
  define ws where "ws = pre @ all_chunk_writes P secs texts' (take (Suc m) (chunks_left P fs))"
  have ws: "keeps (pass_inv W) fs ws" using k unfolding ws_def by blast
  consider (cut) err where "passage_writes P secs fs = (ws, err)"
    | (through) err where "m \<ge> length (chunks_left P fs)"
        "passage_writes P secs fs = (ws @ [Publish, DropProgress] @ fst (stats_writes (length texts) (foldl perform fs ws)), err)"
    using plan unfolding m_def [symmetric] Let_def ws_def [symmetric] by (auto simp: case_prod_unfold split: if_splits)
  then show ?thesis
  proof cases
    case through
    then have "take (Suc m) (chunks_left P fs) = chunks_left P fs" by simp
    then have c: "chunk_state W h (cs @ chunks_left P fs) (foldl perform fs ws)" using k [of "Suc m"] unfolding ws_def by simp
    then have "fs_partial (foldl perform fs ws) = Some (h, W)" using all_written left by metis
    from finish_keeps [OF c this] show ?thesis using ws by (simp only: through(2) fst_conv keeps_append simp_thms)
  qed (simp add: ws)
qed

lemma chunk_log:
  "fs_log (foldl perform fs (all_chunk_writes P secs ts todo)) =
     (if todo = [] then fs_log fs
      else Some ((case fs_log fs of None \<Rightarrow> [] | Some l \<Rightarrow> l) @ map (\<lambda>c. (c, length (part_of ts c), round_to 2 (secs c))) todo))"
  by (induction todo arbitrary: fs) (auto simp: all_chunk_writes_def chunk_writes_def part_of_def split: option.split)

lemma round_to_positive: "0 \<le> x \<Longrightarrow> 0 \<le> round_to 2 x" "1 / 100 \<le> x \<Longrightarrow> 0 < round_to 2 x"
proof -
  assume "0 \<le> x"
  then have "0 \<le> x * 10\<^sup>2" by simp
  then have "- 1 < real_of_int (round_half_even (x * 10\<^sup>2))" using round_half_even_error [of "x * 10\<^sup>2"] by linarith
  then have "0 \<le> round_half_even (x * 10\<^sup>2)" by simp
  then show "0 \<le> round_to 2 x" by (simp add: round_to_def)
next
  assume "1 / 100 \<le> x"
  moreover have "\<bar>round_to 2 x - x\<bar> \<le> 1 / 200" using round_to_error [of 2 x] by simp
  ultimately show "0 < round_to 2 x" by linarith
qed

definition seconds_ok :: "pass_fs \<Rightarrow> bool" where
  "seconds_ok fs \<longleftrightarrow> (\<forall>l. fs_log fs = Some l \<longrightarrow> (\<forall>(c, k, s) \<in> set l. 0 \<le> s))"

definition write_seconds_ok :: "pass_write \<Rightarrow> bool" where
  "write_seconds_ok w = (case w of LogChunk c k s \<Rightarrow> 0 \<le> s | _ \<Rightarrow> True)"

lemma perform_seconds: "list_all write_seconds_ok ws \<Longrightarrow> seconds_ok fs \<Longrightarrow> seconds_ok (foldl perform fs ws)"
proof (induction ws arbitrary: fs)
  case (Cons w ws)
  have "seconds_ok (perform fs w)"
    using Cons.prems by (cases w; cases "fs_log fs") (auto simp: seconds_ok_def write_seconds_ok_def)
  then show ?case using Cons by simp
qed simp

lemma passage_writes_seconds:
  assumes "\<forall>c. 0 \<le> secs c"
  shows "list_all write_seconds_ok (fst (passage_writes P secs fs))"
proof -
  have "list_all write_seconds_ok (chunk_writes E secs ts c)" for E ts c
    using assms by (simp add: chunk_writes_def write_seconds_ok_def Let_def round_to_positive)
  then have "list_all write_seconds_ok (concat (map (chunk_writes E secs ts) cs))" for E ts cs by (induction cs) simp_all
  moreover have "list_all write_seconds_ok (setup_writes n fs)" "list_all write_seconds_ok (fst (stats_writes n fs'))" for n fs'
    by (simp_all add: setup_writes_def stats_writes_def write_seconds_ok_def split: option.split)
  ultimately show ?thesis
    by (simp add: passage_writes_def Let_def case_prod_unfold write_seconds_ok_def split: sum.split)
qed

lemma run_completes:
  assumes ok: "inputs_ok P emb texts" and inv: "pass_inv W fs" and W: "W = map (\<lambda>t. emb t PASSAGE_MAX_LEN) texts"
    and log: "seconds_ok fs" and secs: "\<forall>c. 1 / 100 \<le> secs c"
  shows "\<exists>ws h. passage_writes P secs fs = (ws, run_error P fs) \<and> fs_final (foldl perform fs ws) = Some (h, W) \<and>
    (fs_final fs = None \<longrightarrow> (\<exists>ts rest. ws = setup_writes (length texts) fs @ [Extend (length texts)] @ all_chunk_writes P secs ts (chunks_left P fs) @ rest)) \<and>
    (fs_final fs = None \<and> fs_partial fs = None \<longrightarrow> h = (length texts, DIM)) \<and> (\<forall>h0. fs_partial fs \<noteq> None \<or> fs_final fs \<noteq> None \<longrightarrow> headed h0 fs \<longrightarrow> h = h0)"
proof (cases "fs_final fs")
  case (Some f)
  obtain h rs where f: "f = (h, rs)" by (cases f)
  then have "rs = W" using inv Some by (simp add: pass_inv_def)
  then show ?thesis using inv Some f
    by (intro exI [of _ "[]"] exI [of _ h]) (simp add: passage_writes_def run_error_def Let_def headed_eq)
next
  case None
  obtain pre h cs texts' where pre: "pre = setup_writes (length texts) fs @ [Extend (length texts)]"
    and left: "chunks_left P fs = filter (\<lambda>c. c \<notin> set cs) [0..<n_chunks (length W)]"
    and plan: "passage_writes P secs fs =
       (let timed = takeWhile (\<lambda>c. secs c \<noteq> 0) (chunks_left P fs);
            ws = pre @ all_chunk_writes P secs texts' (take (Suc (length timed)) (chunks_left P fs))
        in if length timed < length (chunks_left P fs) then (ws, Some ZeroDivisionError)
           else if \<not> norms_ok (partial_rows (foldl perform fs ws)) then (ws, Some AssertionError)
           else let (ss, err) = stats_writes (length texts) (foldl perform fs ws) in (ws @ [Publish, DropProgress] @ ss, err))"
    and k: "\<And>k. keeps (pass_inv W) fs (pre @ all_chunk_writes P secs texts' (take k (chunks_left P fs))) \<and>
       chunk_state W h (cs @ take k (chunks_left P fs)) (foldl perform fs (pre @ all_chunk_writes P secs texts' (take k (chunks_left P fs))))"
    by (rule run_plan [OF ok inv W None]) blast
  define todo where "todo = chunks_left P fs"
  define ws where "ws = all_chunk_writes P secs texts' todo"
  define done_fs where "done_fs = foldl perform fs (pre @ ws)"
  have "secs c \<noteq> 0" for c using spec [OF secs, of c] by linarith
  then have "takeWhile (\<lambda>c. secs c \<noteq> 0) todo = todo" by (simp add: takeWhile_eq_all_conv)
  then have all: "take (Suc (length (takeWhile (\<lambda>c. secs c \<noteq> 0) todo))) todo = todo" "\<not> length (takeWhile (\<lambda>c. secs c \<noteq> 0) todo) < length todo"
    by (simp_all only: take_all le_SucI order_refl less_irrefl not_False_eq_True)
  have fin: "chunk_state W h (cs @ todo) done_fs"
    using k [of "length todo"] unfolding todo_def [symmetric] done_fs_def ws_def by simp
  have part: "fs_partial done_fs = Some (h, W)" "fs_final done_fs = None"
    using all_written [OF fin [unfolded todo_def left]] by simp_all
  have "norms_ok W" using ok by (auto simp: norms_ok_def W inputs_ok_def list_all_iff)
  then have norms: "norms_ok (partial_rows done_fs)" using part by (simp add: partial_rows_def)
  have pre_log: "fs_log (foldl perform fs pre) = fs_log fs" by (simp add: pre setup_writes_def)
  have "snd (stats_writes (length texts) done_fs) = run_error P fs"
  proof (cases "todo = []")
    case True
    then have "fs_log done_fs = fs_log fs" by (simp add: done_fs_def ws_def chunk_log pre_log)
    then show ?thesis using True None by (simp add: stats_writes_def run_error_def todo_def split: option.split)
  next
    case False
    let ?old = "case fs_log fs of None \<Rightarrow> [] | Some l \<Rightarrow> l" and ?new = "map (\<lambda>c. (c, length (part_of texts' c), round_to 2 (secs c))) todo"
    have l: "fs_log done_fs = Some (?old @ ?new)" using False by (simp add: done_fs_def ws_def chunk_log pre_log)
    have "0 \<le> log_seconds ?old" using log by (auto simp: log_seconds_def seconds_ok_def split: option.splits intro!: sum_list_nonneg)
    moreover have "0 < log_seconds ?new"
    proof -
      obtain c cs' where "todo = c # cs'" using False by (cases todo) auto
      moreover have "0 < round_to 2 (secs c)" for c using spec [OF secs, of c] by (rule round_to_positive(2))
      moreover from this have "0 \<le> round_to 2 (secs c)" for c by (rule less_imp_le)
      ultimately show ?thesis by (auto simp: log_seconds_def intro!: add_pos_nonneg sum_list_nonneg)
    qed
    ultimately have "log_seconds (?old @ ?new) \<noteq> 0" by (simp add: log_seconds_def)
    then show ?thesis using False None l by (simp add: stats_writes_def run_error_def todo_def)
  qed
  then have run: "passage_writes P secs fs = (pre @ ws @ [Publish, DropProgress] @ fst (stats_writes (length texts) done_fs), run_error P fs)"
    using plan norms unfolding todo_def [symmetric] all Let_def ws_def [symmetric] done_fs_def [symmetric]
    by (simp only: all(2) if_False simp_thms case_prod_unfold append_assoc)
  have final: "fs_final (foldl perform fs (pre @ ws @ [Publish, DropProgress] @ fst (stats_writes (length texts) done_fs))) = Some (h, W)"
    using part(1) by (simp add: stats_writes_final done_fs_def)
  have nohdr: "list_all (\<lambda>w. \<not> header_write w) ws"
    by (auto simp: ws_def all_chunk_writes_def chunk_writes_def Let_def header_write_def list_all_iff)
  have "h = (length texts, DIM)" if "fs_partial fs = None"
  proof -
    have "headed (length texts, DIM) (foldl perform fs [MkPartial, PutHeader (length texts)])" using None by (simp add: headed_def)
    from headed_keep [OF _ this, of "[Extend (length texts), InitProgress, Extend (length texts)] @ ws"] nohdr
    have "headed (length texts, DIM) done_fs" using that by (simp add: done_fs_def pre setup_writes_def header_write_def)
    then show ?thesis using part(1) headed_eq(2) by simp
  qed
  moreover have "h = h0" if "fs_partial fs \<noteq> None" "headed h0 fs" for h0
  proof -
    have "headed h0 done_fs"
      unfolding done_fs_def using that nohdr by (intro headed_keep) (simp_all add: pre setup_writes_def header_write_def)
    then show ?thesis using part(1) by (rule headed_eq(2))
  qed
  ultimately show ?thesis using run final None pre
    by (intro exI [of _ "pre @ ws @ [Publish, DropProgress] @ fst (stats_writes (length texts) done_fs)"] exI [of _ h])
       (auto simp: ws_def todo_def)
qed

lemma crash_keeps_inv:
  assumes "inputs_ok P emb texts" and "crash_reach P fs"
  shows "pass_inv (map (\<lambda>t. emb t PASSAGE_MAX_LEN) texts) fs \<and> seconds_ok fs"
  using assms(2)
proof induction
  case fresh
  show ?case by (simp add: pass_inv_def empty_dir_def seconds_ok_def)
next
  case (crash fs secs ws e k)
  have "keeps (pass_inv (map (\<lambda>t. emb t PASSAGE_MAX_LEN) texts)) fs ws"
    using run_keeps [OF assms(1) _ refl, of fs secs] crash by simp
  moreover have "list_all write_seconds_ok (take k ws)"
    using passage_writes_seconds [OF crash.hyps(2), of P fs] crash.hyps(3) by (auto simp: list_all_iff dest: in_set_takeD)
  ultimately show ?case using crash.IH by (auto intro: keeps_prefix perform_seconds)
next
  case (torn fs secs ws e k c new junk)
  have "keeps (pass_inv (map (\<lambda>t. emb t PASSAGE_MAX_LEN) texts)) fs ws"
    using run_keeps [OF assms(1) _ refl, of fs secs] torn by simp
  moreover have "list_all write_seconds_ok (take k ws)"
    using passage_writes_seconds [OF torn.hyps(2), of P fs] torn.hyps(3) by (auto simp: list_all_iff dest: in_set_takeD)
  then have "seconds_ok (foldl perform fs (take k ws))" using torn.IH by (auto intro: perform_seconds)
  then have "seconds_ok (perform (foldl perform fs (take k ws)) (PutChunk c junk))" by (simp add: seconds_ok_def)
  ultimately show ?case using keeps_torn [OF _ torn.hyps(4-6)] by blast
qed

text \<open>C22: encoding the passages recovers from any number of crashes, torn chunks included: from every
  directory they can leave, the next uninterrupted run (whose chunks take at least 10 ms) publishes exactly the rows of all
  the passages in order, as if nothing had failed; its header is right unless a crash fell between creating the
  file and writing its header.  It ends without error, except in the statistics it computes last: when a crash left
  an empty statistics file beside the published vectors, or when no chunk is left to encode and the chunk log
  is missing (FileNotFoundError) or records no time (ZeroDivisionError).\<close>

theorem encoding_resumes:
  assumes "inputs_ok P emb texts" and "crash_reach P fs" and "\<forall>c. 1 / 100 \<le> secs c"
  shows "\<exists>ws h. passage_writes P secs fs = (ws, run_error P fs) \<and>
    fs_final (foldl perform fs ws) = Some (h, map (\<lambda>t. emb t PASSAGE_MAX_LEN) texts) \<and>
    (headed (length texts, DIM) fs \<longrightarrow> h = (length texts, DIM)) \<and>
    (run_error P fs = None \<or> fs_final fs \<noteq> None \<and> fs_stats fs = Some None \<and> run_error P fs = Some ValueError \<or>
     fs_final fs = None \<and> chunks_left P fs = [] \<and>
       (fs_log fs = None \<and> run_error P fs = Some FileNotFoundError \<or>
        (\<exists>l. fs_log fs = Some l \<and> log_seconds l = 0) \<and> run_error P fs = Some ZeroDivisionError))"
proof -
  have "pass_inv (map (\<lambda>t. emb t PASSAGE_MAX_LEN) texts) fs" "seconds_ok fs" using crash_keeps_inv [OF assms(1,2)] by simp_all
  from run_completes [OF assms(1) this(1) refl this(2) assms(3)]
  obtain ws h where "passage_writes P secs fs = (ws, run_error P fs)"
      "fs_final (foldl perform fs ws) = Some (h, map (\<lambda>t. emb t PASSAGE_MAX_LEN) texts)"
      "fs_final fs = None \<and> fs_partial fs = None \<longrightarrow> h = (length texts, DIM)"
      "\<forall>h0. fs_partial fs \<noteq> None \<or> fs_final fs \<noteq> None \<longrightarrow> headed h0 fs \<longrightarrow> h = h0" by blast
  moreover have "run_error P fs = None \<or> fs_final fs \<noteq> None \<and> fs_stats fs = Some None \<and> run_error P fs = Some ValueError \<or>
     fs_final fs = None \<and> chunks_left P fs = [] \<and>
       (fs_log fs = None \<and> run_error P fs = Some FileNotFoundError \<or>
        (\<exists>l. fs_log fs = Some l \<and> log_seconds l = 0) \<and> run_error P fs = Some ZeroDivisionError)"
    by (cases "fs_final fs"; cases "fs_log fs") (simp_all add: run_error_def)
  ultimately show ?thesis by blast
qed

text \<open>Each exception is real.  A crash right after the file is created makes every later run publish a file
  whose header says that it has no rows; one between the progress mark of the last chunk and its log entry makes the
  next run publish the vectors and then fail, when the log holds nothing else.\<close>

lemma run_prefix:
  assumes "inputs_ok P emb texts"
  obtains ts rest where "passage_writes P (\<lambda>c. 1) empty_dir =
    ([MkPartial, PutHeader (length texts), Extend (length texts), InitProgress, Extend (length texts)] @
       all_chunk_writes P (\<lambda>c. 1) ts [0..<n_chunks (length texts)] @ rest, run_error P empty_dir)"
proof -
  have "chunks_left P empty_dir = [0..<n_chunks (length texts)]"
    using assms by (simp add: chunks_left_def done_chunks_def empty_dir_def inputs_ok_def)
  moreover have "\<forall>c. 1 / 100 \<le> (\<lambda>c :: nat. 1 :: real) c" by simp
  moreover have "pass_inv (map (\<lambda>t. emb t PASSAGE_MAX_LEN) texts) empty_dir" "seconds_ok empty_dir"
    using crash_keeps_inv [OF assms crash_reach.fresh] by simp_all
  ultimately obtain ws ts rest where "passage_writes P (\<lambda>c. 1) empty_dir = (ws, run_error P empty_dir)"
      "ws = setup_writes (length texts) empty_dir @ [Extend (length texts)] @ all_chunk_writes P (\<lambda>c. 1) ts [0..<n_chunks (length texts)] @ rest"
    using run_completes [OF assms _ refl, of empty_dir "\<lambda>c. 1"] by (auto simp: empty_dir_def)
  then show thesis using that by (simp add: setup_writes_def empty_dir_def)
qed

lemma bare_file_reachable:
  assumes "inputs_ok P emb texts"
  shows "crash_reach P (empty_dir\<lparr>fs_partial := Some ((0, 0), [])\<rparr>)"
proof -
  obtain ts rest where "passage_writes P (\<lambda>c. 1) empty_dir =
    ([MkPartial, PutHeader (length texts), Extend (length texts), InitProgress, Extend (length texts)] @
       all_chunk_writes P (\<lambda>c. 1) ts [0..<n_chunks (length texts)] @ rest, run_error P empty_dir)"
    using run_prefix [OF assms] .
  from crash_reach.crash [OF crash_reach.fresh _ this, of 1] show ?thesis by simp
qed

lemma header_can_be_lost:
  assumes "inputs_ok P emb texts"
  shows "\<exists>fs. crash_reach P fs \<and> (\<exists>ws e. passage_writes P (\<lambda>c. 1) fs = (ws, e) \<and>
    fs_final (foldl perform fs ws) = Some ((0, 0), map (\<lambda>t. emb t PASSAGE_MAX_LEN) texts))"
proof -
  let ?f1 = "empty_dir\<lparr>fs_partial := Some ((0, 0), [])\<rparr>"
  have r: "crash_reach P ?f1" by (rule bare_file_reachable [OF assms])
  have f1: "headed (0, 0) ?f1" "fs_partial ?f1 \<noteq> None" by (simp_all add: headed_def empty_dir_def)
  have inv: "pass_inv (map (\<lambda>t. emb t PASSAGE_MAX_LEN) texts) ?f1" "seconds_ok ?f1" using crash_keeps_inv [OF assms r] by simp_all
  have "\<forall>c. 1 / 100 \<le> (\<lambda>c :: nat. 1 :: real) c" by simp
  from run_completes [OF assms inv(1) refl inv(2) this] obtain ws' h where
      ws': "passage_writes P (\<lambda>c. 1) ?f1 = (ws', run_error P ?f1)" "fs_final (foldl perform ?f1 ws') = Some (h, map (\<lambda>t. emb t PASSAGE_MAX_LEN) texts)"
      "\<forall>h0. fs_partial ?f1 \<noteq> None \<or> fs_final ?f1 \<noteq> None \<longrightarrow> headed h0 ?f1 \<longrightarrow> h = h0" by blast
  then have "h = (0, 0)" using f1 by metis
  then show ?thesis using r ws'(1,2) by blast
qed

lemma log_can_be_missing:
  assumes "inputs_ok P emb texts" and "n_chunks (length texts) = 1"
  shows "\<exists>fs. crash_reach P fs \<and> fs_final fs = None \<and> run_error P fs = Some FileNotFoundError"
proof -
  obtain ts rest where run: "passage_writes P (\<lambda>c. 1) empty_dir =
    ([MkPartial, PutHeader (length texts), Extend (length texts), InitProgress, Extend (length texts)] @
       all_chunk_writes P (\<lambda>c. 1) ts [0..<n_chunks (length texts)] @ rest, run_error P empty_dir)"
    using run_prefix [OF assms(1)] .
  obtain new k t where chunk: "all_chunk_writes P (\<lambda>c. 1) ts [0..<n_chunks (length texts)] = [PutChunk 0 new, MarkDone 0, OpenLog, LogChunk 0 k t]"
    unfolding assms(2) by (simp add: all_chunk_writes_def chunk_writes_def Let_def)
  let ?ws = "[MkPartial, PutHeader (length texts), Extend (length texts), InitProgress, Extend (length texts), PutChunk 0 new, MarkDone 0]"
  let ?fs = "foldl perform empty_dir ?ws"
  have "crash_reach P ?fs" using crash_reach.crash [OF crash_reach.fresh _ run, of 7] by (simp add: chunk)
  moreover have "fs_final ?fs = None" "fs_log ?fs = None" by (simp_all add: empty_dir_def)
  moreover have "chunks_left P ?fs = []"
  proof -
    have "fs_progress ?fs = Some (prog_text [0])" by (simp add: empty_dir_def prog_text_def)
    then have "done_chunks (fs_progress ?fs) = Inr {0}" using done_prog [of "[0]"] by simp
    then show ?thesis using assms by (simp add: chunks_left_def inputs_ok_def)
  qed
  ultimately show ?thesis by (auto simp: run_error_def)
qed

definition demo_encoder :: encoder where
  "demo_encoder = \<lparr>en_tok = (\<lambda>ts n. map length ts), en_net = (\<lambda>ts n. map (\<lambda>t. [1]) ts), en_max_batch = 2, en_budget = 8\<rparr>"

definition demo_passages :: pass_input where
  "demo_passages = \<lparr>pi_encoder = demo_encoder, pi_ids = [7, 9], pi_collection = unlines [''7'' @ tab @ ''a'', ''9'' @ tab @ ''b''], pi_free = 5\<rparr>"

theorem encode_is_pointwise_witness:
  "encode demo_encoder [''abc'', ''a'', ''abcde'', ''ab''] 4 = [[1], [1], [1], [1]]"
proof -
  have "pointwise demo_encoder (\<lambda>t n. [1])" by (simp add: pointwise_def demo_encoder_def)
  from encode_is_pointwise [OF this, of "[''abc'', ''a'', ''abcde'', ''ab'']" 4] show ?thesis by simp
qed

lemma demo_inputs_ok: "inputs_ok demo_passages (\<lambda>t n. [1]) [''a'', ''b'']"
proof -
  have "text_lines (unlines [''7'' @ tab @ ''a'', ''9'' @ tab @ ''b'']) = [''7'' @ tab @ ''a'' @ nl, ''9'' @ tab @ ''b'' @ nl]"
    by code_simp
  moreover have "split1 TAB (rstrip_nl (''7'' @ tab @ ''a'' @ nl)) = Some (''7'', ''a'')"
    "split1 TAB (rstrip_nl (''9'' @ tab @ ''b'' @ nl)) = Some (''9'', ''b'')" "int_of ''7'' = Inr 7" "int_of ''9'' = Inr 9" by code_simp+
  ultimately show ?thesis
    by (simp add: inputs_ok_def pointwise_def demo_passages_def demo_encoder_def row_norm_def gb_needed_def DIM_def)
qed

theorem encoding_resumes_witness:
  "(\<exists>fs ws h. fs_partial fs = Some ((0, 0), []) \<and> passage_writes demo_passages (\<lambda>c. 2) fs = (ws, None) \<and>
     fs_final (foldl perform fs ws) = Some (h, [[1], [1]])) \<and>
   (\<exists>fs ws h. fs_final fs = None \<and> passage_writes demo_passages (\<lambda>c. 2) fs = (ws, Some FileNotFoundError) \<and>
     fs_final (foldl perform fs ws) = Some (h, [[1], [1]]))"
proof -
  have secs: "\<forall>c. 1 / 100 \<le> (\<lambda>c :: nat. 2 :: real) c" by simp
  let ?bare = "empty_dir\<lparr>fs_partial := Some ((0, 0), [])\<rparr>"
  have "run_error demo_passages ?bare = None"
    by (simp add: run_error_def chunks_left_def done_chunks_def demo_passages_def empty_dir_def n_chunks_def CHUNK_def)
  then have a: "\<exists>ws h. passage_writes demo_passages (\<lambda>c. 2) ?bare = (ws, None) \<and> fs_final (foldl perform ?bare ws) = Some (h, [[1], [1]])"
    using encoding_resumes [OF demo_inputs_ok bare_file_reachable [OF demo_inputs_ok] secs] by auto
  have "n_chunks (length [''a'', ''b'']) = 1" by (simp add: n_chunks_def CHUNK_def)
  from log_can_be_missing [OF demo_inputs_ok this] obtain fs where
      fs: "crash_reach demo_passages fs" "fs_final fs = None" "run_error demo_passages fs = Some FileNotFoundError" by blast
  have b: "\<exists>ws h. passage_writes demo_passages (\<lambda>c. 2) fs = (ws, Some FileNotFoundError) \<and> fs_final (foldl perform fs ws) = Some (h, [[1], [1]])"
    using encoding_resumes [OF demo_inputs_ok fs(1) secs] fs(3) by auto
  have "fs_partial ?bare = Some ((0, 0), [])" by simp
  then show ?thesis using a b fs(2) by blast
qed

section \<open>Query files\<close>

text \<open>\<open>encode_queries\<close>: the vectors and the ids of every chosen query set, in the order of its file.\<close>

definition encode_queries :: "encoder \<Rightarrow> (string, string) dict \<Rightarrow> string list option \<Rightarrow> (string, vector list \<times> string) dict res" where
  \<comment> \<open>\<open>QUERY_SETS\<close> as the contents of its files; the result is the rows and the text of the id file by set\<close>
  "encode_queries E query_sets sets =
     res_map (\<lambda>(name, f). res_bind (read_queries f) (\<lambda>q.
         Inr (name, (encode_query_texts E (map (\<lambda>k. dget q k []) (keys q)), concat (map (\<lambda>k. k @ nl) (keys q))))))
       (filter (\<lambda>(name, f). sets = None \<or> the sets = [] \<or> name \<in> set (the sets)) query_sets)"

end
