(* ===== verification/Fusion_Fast.thy ===== *)
theory Fusion_Fast
  imports Fusion_Core
begin

text \<open>
  \<open>py/hybridsearch/fusion/fast.py\<close>: fusion over a candidate union prepared once per query.  A numpy
  array is a list; the rank array holds None where the code has infinity.  The two equivalences
  proved here are the ones \<open>fast.py\<close> promises: the same scores and the same order as
  \<open>core.rrf\<close> and \<open>core.weighted\<close>.
\<close>

section \<open>The prepared candidates of a query\<close>

record query_cands =
  qc_docs :: "docid list"
  qc_lex_rank :: "nat option list"
  qc_dense_rank :: "nat option list"
  qc_norm :: "(string, real list \<times> real list) dict"

definition doc_positions :: "docid list \<Rightarrow> (docid, nat) dict" where
  \<comment> \<open>\<open>{d: i for i, d in enumerate(docs)}\<close>\<close>
  "doc_positions docs = dict_of (zip docs [0..<length docs])"

definition fill :: "(docid, nat) dict \<Rightarrow> 'a list \<Rightarrow> (docid \<times> 'a) list \<Rightarrow> 'a list" where
  \<comment> \<open>\<open>a[pos[d]] = v\<close> for every pair\<close>
  "fill pos a kvs = foldl (\<lambda>a (d, v). a[dget pos d 0 := v]) a kvs"

definition rank_array :: "docid list \<Rightarrow> ranking \<Rightarrow> nat option list" where
  "rank_array docs r =
     fill (doc_positions docs) (replicate (length docs) None)
       (map (\<lambda>(i, d, s). (d, Some i)) (enumerate 1 r))"

definition norm_array :: "docid list \<Rightarrow> string \<Rightarrow> ranking \<Rightarrow> real list res" where
  "norm_array docs m r =
     res_bind (normalise (map snd r) m) (\<lambda>ns.
       Inr (fill (doc_positions docs) (replicate (length docs) (floor_of ns)) (zip (map fst r) ns)))"

definition prepare :: "(docid list \<Rightarrow> docid list) \<Rightarrow> ranking \<Rightarrow> ranking \<Rightarrow> int option \<Rightarrow> query_cands res" where
  "prepare so lexr denser depth =
     res_bind (cut_depth lexr depth) (\<lambda>lt. res_bind (cut_depth denser depth) (\<lambda>dt.
       let docs = py_sorted docid_key (so (map fst lt @ map fst dt)) in
       res_bind (res_map (\<lambda>m.
           res_bind (norm_array docs m lt) (\<lambda>a.
             res_bind (norm_array docs m dt) (\<lambda>b. Inr (m, a, b)))) NORMALISATIONS) (\<lambda>nm.
         Inr \<lparr>qc_docs = docs, qc_lex_rank = rank_array docs lt, qc_dense_rank = rank_array docs dt,
              qc_norm = dict_of nm\<rparr>)))"

section \<open>Scores and order\<close>

definition order_by_score :: "query_cands \<Rightarrow> real list \<Rightarrow> nat option \<Rightarrow> ranking" where
  "order_by_score qc score out_k =
     (let idx = py_sorted (\<lambda>i. - (score ! i)) [0..<length score]
      in map (\<lambda>i. (qc_docs qc ! i, score ! i)) (out_take out_k idx))"

definition rrf_term :: "real \<Rightarrow> nat option \<Rightarrow> real" where
  \<comment> \<open>\<open>np.where(np.isfinite(rank), 1.0 / (k + rank), 0.0)\<close>\<close>
  "rrf_term k r = (case r of Some i \<Rightarrow> 1 / (k + real i) | None \<Rightarrow> 0)"

definition rrf_scores :: "query_cands \<Rightarrow> real \<Rightarrow> real list" where
  "rrf_scores qc k =
     map2 (+) (map (rrf_term k) (qc_lex_rank qc)) (map (rrf_term k) (qc_dense_rank qc))"

definition weighted_scores :: "query_cands \<Rightarrow> real \<Rightarrow> string \<Rightarrow> real list res" where
  "weighted_scores qc alpha nm =
     res_bind (dlookup (qc_norm qc) nm) (\<lambda>(nl, nd). Inr (map2 (\<lambda>l d. (1 - alpha) * l + alpha * d) nl nd))"

definition rrf_fast :: "query_cands \<Rightarrow> real \<Rightarrow> nat option \<Rightarrow> ranking" where
  "rrf_fast qc k out_k = order_by_score qc (rrf_scores qc k) out_k"

definition weighted_fast :: "query_cands \<Rightarrow> real \<Rightarrow> string \<Rightarrow> nat option \<Rightarrow> ranking res" where
  "weighted_fast qc alpha nm out_k =
     res_bind (weighted_scores qc alpha nm) (\<lambda>sc. Inr (order_by_score qc sc out_k))"

section \<open>Filling arrays by document\<close>

lemma doc_positions_nth:
  assumes "distinct docs" and "j < length docs"
  shows "dget (doc_positions docs) (docs ! j) 0 = j"
proof -
  have "dict_of (zip docs [0..<length docs]) = zip docs [0..<length docs]"
    using assms(1) by (intro dict_of_distinct) simp
  moreover have "map_of (zip docs [0..<length docs]) (docs ! j) = Some j"
    using assms by (simp add: map_of_eq_Some_iff in_set_zip) (metis add.left_neutral nth_upt)
  ultimately show ?thesis by (simp add: doc_positions_def dget_def)
qed

lemma fill_length [simp]: "length (fill pos a kvs) = length a"
  unfolding fill_def by (induction kvs arbitrary: a) (simp_all add: case_prod_unfold)

lemma fill_nth:
  assumes "distinct docs" and "set (map fst kvs) \<subseteq> set docs" and "length a = length docs"
    and "j < length docs" and "distinct (map fst kvs)"
  shows "fill (doc_positions docs) a kvs ! j =
     (case map_of kvs (docs ! j) of Some v \<Rightarrow> v | None \<Rightarrow> a ! j)"
  using assms(2,3,5)
proof (induction kvs arbitrary: a)
  case (Cons p kvs)
  obtain d v where p: "p = (d, v)" by (cases p)
  obtain i where i: "i < length docs" "docs ! i = d"
    using Cons.prems(1) by (auto simp: p in_set_conv_nth)
  have pos: "dget (doc_positions docs) d 0 = i" using doc_positions_nth assms(1) i by metis
  have "docs ! j = d \<longleftrightarrow> j = i" using assms(1,4) i nth_eq_iff_index_eq by metis
  moreover have "fill (doc_positions docs) a (p # kvs) = fill (doc_positions docs) (a[i := v]) kvs"
    by (simp add: fill_def p pos)
  moreover have "map_of kvs d = None" using Cons.prems(3) by (simp add: p map_of_eq_None_iff)
  ultimately show ?case using Cons.IH [of "a[i := v]"] Cons.prems i assms(4)
    by (cases "map_of kvs (docs ! j)") (auto simp: p)
qed (simp add: fill_def)

lemma rank_array_nth:
  assumes "distinct docs" and "set (map fst r) \<subseteq> set docs" and "distinct (map fst r)" and "j < length docs"
  shows "rank_array docs r ! j = map_of (ranks r) (docs ! j)"
proof -
  let ?kvs = "map (\<lambda>(i, d, s). (d, Some i)) (enumerate 1 r)"
  have k: "?kvs = map (\<lambda>(d, i). (d, Some i)) (ranks r)" by (simp add: ranks_def case_prod_unfold)
  then have f: "map fst ?kvs = map fst r" using ranks_fst [of r] by (simp add: case_prod_unfold comp_def)
  have "rank_array docs r ! j = (case map_of ?kvs (docs ! j) of Some v \<Rightarrow> v | None \<Rightarrow> None)"
    unfolding rank_array_def using assms f by (subst fill_nth) (auto split: option.splits)
  also have "map_of ?kvs (docs ! j) = map_option Some (map_of (ranks r) (docs ! j))"
    unfolding k using map_of_map [of Some "ranks r"] by (simp add: fun_eq_iff)
  finally show ?thesis by (cases "map_of (ranks r) (docs ! j)") auto
qed

lemma rank_array_length [simp]: "length (rank_array docs r) = length docs"
  by (simp add: rank_array_def)

section \<open>A stable sort of prepared candidates is the fused order\<close>

lemma order_by_score_sorted:
  assumes "length score = length (qc_docs qc)"
  shows "order_by_score qc score out_k = out_take out_k (py_sorted (\<lambda>x. - snd x) (zip (qc_docs qc) score))"
proof -
  let ?f = "\<lambda>i. (qc_docs qc ! i, score ! i)"
  have "map ?f (py_sorted (\<lambda>i. - snd (?f i)) [0..<length score]) = py_sorted (\<lambda>x. - snd x) (map ?f [0..<length score])"
    by (rule map_py_sorted)
  moreover have "map ?f [0..<length score] = zip (qc_docs qc) score"
    using assms by (intro nth_equalityI) auto
  ultimately show ?thesis
    by (simp add: order_by_score_def out_take_def split: option.splits flip: take_map)
qed

lemma fast_is_sorted:
  assumes docs: "distinct docs" "sorted (map docid_key docs)" "qc_docs qc = docs"
    and len: "length score = length docs"
    and val: "\<And>j. j < length docs \<Longrightarrow> score ! j = dget sc (docs ! j) 0"
    and sc: "dict_ok sc" "set docs = set (keys sc)" and inj: "inj_on docid_key (set docs)"
  shows "order_by_score qc score out_k = sort_fused sc out_k"
proof -
  have z: "zip docs score = map (\<lambda>d. (d, dget sc d 0)) docs"
    using len val by (intro nth_equalityI) auto
  have "mset (zip docs score) = mset sc"
    unfolding z using sc docs(1) by (intro mset_dict_keys)
  moreover have "sorted (map (\<lambda>x. docid_key (fst x)) (zip docs score))"
    using docs(2) by (simp add: z comp_def)
  then have "sorted (map (\<lambda>x. (- snd x, docid_key (fst x))) (py_sorted (\<lambda>x. - snd x) (zip docs score)))"
    by (rule stable_sort_lex)
  ultimately have "py_sorted (\<lambda>x. - snd x) (zip docs score) = py_sorted (\<lambda>x. (- snd x, docid_key (fst x))) sc"
    using inj sc by (intro sorted_fused_unique) (auto simp: sort_simps)
  then show ?thesis using order_by_score_sorted [of score qc out_k] len docs(3) by (simp add: sort_fused_def)
qed

lemma prepare_Inr:
  assumes "prepare so lexr denser depth = Inr qc" and "is_set_order so"
  obtains lt dt where "cut_depth lexr depth = Inr lt" "cut_depth denser depth = Inr dt"
    "distinct (qc_docs qc)" "sorted (map docid_key (qc_docs qc))"
    "set (qc_docs qc) = set (map fst lt) \<union> set (map fst dt)"
    "qc_lex_rank qc = rank_array (qc_docs qc) lt" "qc_dense_rank qc = rank_array (qc_docs qc) dt"
    "\<And>m. m \<in> set NORMALISATIONS \<Longrightarrow> \<exists>a b. norm_array (qc_docs qc) m lt = Inr a \<and>
        norm_array (qc_docs qc) m dt = Inr b \<and> dlookup (qc_norm qc) m = Inr (a, b)"
proof -
  obtain lt dt nm where t: "cut_depth lexr depth = Inr lt" "cut_depth denser depth = Inr dt"
    and q: "qc_docs qc = py_sorted docid_key (so (map fst lt @ map fst dt))"
      "qc_lex_rank qc = rank_array (qc_docs qc) lt" "qc_dense_rank qc = rank_array (qc_docs qc) dt"
      "qc_norm qc = dict_of nm"
    and nm: "res_map (\<lambda>m. res_bind (norm_array (qc_docs qc) m lt) (\<lambda>a.
             res_bind (norm_array (qc_docs qc) m dt) (\<lambda>b. Inr (m, a, b)))) NORMALISATIONS = Inr nm"
    using assms(1) by (auto simp: prepare_def Let_def)
  have so: "distinct (so xs)" "set (so xs) = set xs" for xs
    using assms(2) by (simp_all add: is_set_order_def)
  have d: "distinct (map fst nm)" using nm by (auto simp: NORMALISATIONS_def)
  have "\<exists>a b. norm_array (qc_docs qc) m lt = Inr a \<and> norm_array (qc_docs qc) m dt = Inr b \<and>
      (m, a, b) \<in> set nm" if "m \<in> set NORMALISATIONS" for m
    using that nm by (auto simp: NORMALISATIONS_def)
  then have n: "\<exists>a b. norm_array (qc_docs qc) m lt = Inr a \<and> norm_array (qc_docs qc) m dt = Inr b \<and>
      dlookup (qc_norm qc) m = Inr (a, b)" if "m \<in> set NORMALISATIONS" for m
    using that d by (fastforce simp: q(4) dict_of_distinct dlookup_def map_of_eq_Some_iff split: option.splits)
  have "distinct (qc_docs qc)"
    using so sorted_asc.rank_distinct [of "\<lambda>d. d" docid_key] by (simp add: q(1))
  moreover have "sorted (map docid_key (qc_docs qc))" unfolding q(1) by (rule sorted_asc.rank_sorted)
  moreover have "set (qc_docs qc) = set (map fst lt) \<union> set (map fst dt)" by (simp add: q(1) sort_simps so)
  ultimately show ?thesis using that t q(2,3) n by blast
qed

section \<open>Equivalence with the reference definitions\<close>

lemma rrf_fast_result:
  assumes r: "rrf [lexr, denser] k depth out_k = Inr out"
    and p: "prepare so lexr denser depth = Inr qc" and so: "is_set_order so"
    and inj: "inj_on docid_key (set (map fst lexr) \<union> set (map fst denser))"
  shows "rrf_fast qc k out_k = out"
proof -
  obtain ts sc where ts: "cut_all depth [lexr, denser] = Inr ts" "\<forall>t \<in> set ts. distinct (map fst t)"
    and sc: "dict_ok sc" "set (keys sc) = (\<Union>t \<in> set ts. set (map fst t))"
      "\<And>d. dget sc d 0 = sum_list (map (\<lambda>t. reciprocal k t d) ts)" "out = sort_fused sc out_k"
    using rrf_result [OF r] by metis
  obtain lt dt where t: "cut_depth lexr depth = Inr lt" "cut_depth denser depth = Inr dt"
    and q: "distinct (qc_docs qc)" "sorted (map docid_key (qc_docs qc))"
      "set (qc_docs qc) = set (map fst lt) \<union> set (map fst dt)"
      "qc_lex_rank qc = rank_array (qc_docs qc) lt" "qc_dense_rank qc = rank_array (qc_docs qc) dt"
    using prepare_Inr [OF p so] by metis
  have tt: "ts = [lt, dt]" using ts(1) t by (simp add: cut_all_def)
  have u: "distinct (map fst lt)" "distinct (map fst dt)" using ts(2) tt by auto
  have ij: "inj_on docid_key (set (qc_docs qc))"
    using inj cut_depth_Inr [OF t(1)] cut_depth_Inr [OF t(2)] q(3)
    by (elim inj_on_subset) (auto dest: in_set_takeD)
  have "order_by_score qc (rrf_scores qc k) out_k = sort_fused sc out_k"
  proof (rule fast_is_sorted [OF q(1,2) refl])
    fix j
    assume j: "j < length (qc_docs qc)"
    have "rrf_term k (map_of (ranks t) d) = reciprocal k t d" for t d
      by (simp add: rrf_term_def reciprocal_def split: option.splits)
    then show "rrf_scores qc k ! j = dget sc (qc_docs qc ! j) 0"
      using j u q by (simp add: rrf_scores_def sc(3) tt rank_array_nth)
  qed (use sc q tt ij in \<open>simp_all add: rrf_scores_def\<close>)
  then show ?thesis by (simp add: rrf_fast_def sc(4))
qed

text \<open>C5: \<open>rrf_fast\<close> returns exactly the ranking of \<open>core.rrf\<close> on the two retrievers, for every \<open>k\<close>,
  depth and cut, whatever order Python iterates the candidate set in, when no two candidates share a
  docid key.\<close>

theorem rrf_fast_eq_rrf:
  assumes r: "rrf [lexr, denser] k depth out_k = Inr out"
    and p: "prepare so lexr denser depth = Inr qc" and so: "is_set_order so"
    and inj: "inj_on docid_key (set (map fst lexr) \<union> set (map fst denser))"
  shows "rrf_fast qc k out_k = out"
  using rrf_fast_result [OF assms] .

lemma is_set_order_remdups: "is_set_order remdups"
  by (simp add: is_set_order_def)

theorem rrf_fast_eq_rrf_witness:
  "\<exists>qc out. prepare remdups [(''7'', 2)] [(''8'', 3), (''7'', 1)] None = Inr qc \<and>
     rrf [[(''7'', 2)], [(''8'', 3), (''7'', 1)]] 60 None (Some 1) = Inr out \<and> rrf_fast qc 60 (Some 1) = out"
proof -
  obtain out where o: "rrf [[(''7'', 2)], [(''8'', 3), (''7'', 1)]] 60 None (Some 1) = Inr out"
    by (simp add: rrf_def rrf_ranking_def cut_depth_def check_unique_def)
  obtain qc where p: "prepare remdups [(''7'', 2)] [(''8'', 3), (''7'', 1)] None = Inr qc"
    by (simp add: prepare_def cut_depth_def NORMALISATIONS_def norm_array_def normalise_def Let_def)
  have "inj_on docid_key (set (map fst [(''7'', 2::real)]) \<union> set (map fst [(''8'', 3::real), (''7'', 1)]))"
    by (simp add: docid_key_def isdigit_def is_digit_char_def code_def nat_of_digits_def)
  from rrf_fast_eq_rrf [OF o p is_set_order_remdups this] show ?thesis using o p by blast
qed

lemma norm_array_nth:
  assumes "norm_array docs m r = Inr a" and "distinct docs" and "set (map fst r) \<subseteq> set docs"
    and "distinct (map fst r)"
  obtains ns where "normalise (map snd r) m = Inr ns" "length a = length docs"
    "\<And>j. j < length docs \<Longrightarrow> a ! j = dget (dict_of (zip (map fst r) ns)) (docs ! j) (floor_of ns)"
proof -
  obtain ns where ns: "normalise (map snd r) m = Inr ns"
    and a: "a = fill (doc_positions docs) (replicate (length docs) (floor_of ns)) (zip (map fst r) ns)"
    using assms(1) by (auto simp: norm_array_def)
  have "length ns = length r" using ns by (auto simp: normalise_def Let_def split: if_splits)
  then have f: "map fst (zip (map fst r) ns) = map fst r" by simp
  then have "dict_of (zip (map fst r) ns) = zip (map fst r) ns"
    using assms(4) by (intro dict_of_distinct) (simp only:)
  moreover have "a ! j = (case map_of (zip (map fst r) ns) (docs ! j) of Some v \<Rightarrow> v | None \<Rightarrow> floor_of ns)"
    if "j < length docs" for j
    unfolding a using that assms(2-4) by (subst fill_nth [OF assms(2)]) (simp_all only: f length_replicate nth_replicate)
  ultimately show ?thesis by (intro that [OF ns]) (auto simp: a dget_def)
qed

lemma weighted_fast_result:
  assumes r: "weighted so lexr denser alpha nm depth out_k = Inr out"
    and p: "prepare so' lexr denser depth = Inr qc" and so: "is_set_order so" "is_set_order so'"
    and inj: "inj_on docid_key (set (map fst lexr) \<union> set (map fst denser))"
    and nm: "nm \<in> set NORMALISATIONS"
  shows "weighted_fast qc alpha nm out_k = Inr out"
proof -
  obtain lt dt where t: "cut_depth lexr depth = Inr lt" "cut_depth denser depth = Inr dt"
    and q: "distinct (qc_docs qc)" "sorted (map docid_key (qc_docs qc))"
      "set (qc_docs qc) = set (map fst lt) \<union> set (map fst dt)"
    and ab: "\<exists>a b. norm_array (qc_docs qc) nm lt = Inr a \<and> norm_array (qc_docs qc) nm dt = Inr b \<and>
        dlookup (qc_norm qc) nm = Inr (a, b)"
    using prepare_Inr [OF p so(2)] nm by metis
  obtain pl pd where pp: "weighted_part nm depth lexr (1 - alpha) = Inr pl" "weighted_part nm depth denser alpha = Inr pd"
    and out: "out = sort_fused (map (\<lambda>d. (d, part_score d pl + part_score d pd)) (so (keys (fst pl) @ keys (fst pd)))) out_k"
    using r by (auto simp: weighted_def Let_def split: if_splits)
  have u: "distinct (map fst lt)" "distinct (map fst dt)"
    using pp t by (auto simp: weighted_part_def check_unique_iff)
  obtain a b where a: "norm_array (qc_docs qc) nm lt = Inr a" and b: "norm_array (qc_docs qc) nm dt = Inr b"
    and l: "dlookup (qc_norm qc) nm = Inr (a, b)" using ab by blast
  obtain nl where nl: "normalise (map snd lt) nm = Inr nl" "length a = length (qc_docs qc)"
    "\<And>j. j < length (qc_docs qc) \<Longrightarrow> a ! j = dget (dict_of (zip (map fst lt) nl)) (qc_docs qc ! j) (floor_of nl)"
    using norm_array_nth [OF a q(1)] q(3) u(1) by (metis Un_upper1)
  obtain nd where nd: "normalise (map snd dt) nm = Inr nd" "length b = length (qc_docs qc)"
    "\<And>j. j < length (qc_docs qc) \<Longrightarrow> b ! j = dget (dict_of (zip (map fst dt) nd)) (qc_docs qc ! j) (floor_of nd)"
    using norm_array_nth [OF b q(1)] q(3) u(2) by (metis Un_upper2)
  have pl: "pl = (dict_of (zip (map fst lt) nl), floor_of nl, 1 - alpha)"
    and pd: "pd = (dict_of (zip (map fst dt) nd), floor_of nd, alpha)"
    using pp t nl(1) nd(1) by (auto simp: weighted_part_def)
  have len: "length nl = length lt" "length nd = length dt"
    using nl(1) nd(1) by (auto simp: normalise_def Let_def split: if_splits)
  define ds where "ds = so (keys (fst pl) @ keys (fst pd))"
  have kp: "set (keys (fst pl)) = set (map fst lt)" "set (keys (fst pd)) = set (map fst dt)"
    using len by (simp_all only: pl pd fst_conv keys_dict_of map_fst_zip length_map)
  have ds: "distinct ds" "set ds = set (qc_docs qc)"
    using so(1) unfolding ds_def is_set_order_def q(3) by (simp_all only: set_append kp)
  define sc where "sc = map (\<lambda>d. (d, part_score d pl + part_score d pd)) ds"
  have val: "dget sc d 0 = part_score d pl + part_score d pd" if "d \<in> set ds" for d
    using that ds(1) by (intro dget_present) (auto simp: sc_def comp_def)
  have ij: "inj_on docid_key (set (qc_docs qc))"
    using inj cut_depth_Inr [OF t(1)] cut_depth_Inr [OF t(2)] q(3)
    by (elim inj_on_subset) (auto dest: in_set_takeD)
  define score where "score = map2 (\<lambda>l d. (1 - alpha) * l + alpha * d) a b"
  have "order_by_score qc score out_k = sort_fused sc out_k"
  proof (rule fast_is_sorted [OF q(1,2) refl])
    fix j
    assume j: "j < length (qc_docs qc)"
    then have "qc_docs qc ! j \<in> set ds" using ds(2) by simp
    then show "score ! j = dget sc (qc_docs qc ! j) 0"
      using j nl(2,3) nd(2,3) by (simp add: val score_def part_score_def pl pd)
  qed (use ds nl(2) nd(2) ij in \<open>simp_all add: score_def sc_def comp_def\<close>)
  moreover have "weighted_scores qc alpha nm = Inr score"
    by (simp add: weighted_scores_def l score_def)
  ultimately show ?thesis by (simp add: weighted_fast_def out sc_def ds_def)
qed

text \<open>\<open>weighted_fast\<close> returns exactly the ranking of \<open>core.weighted\<close> for both normalisations, and
  neither depends on the order in which Python iterates over the candidate set.\<close>

theorem weighted_fast_eq_weighted:
  assumes r: "weighted so lexr denser alpha nm depth out_k = Inr out"
    and p: "prepare so' lexr denser depth = Inr qc" and so: "is_set_order so" "is_set_order so'"
    and inj: "inj_on docid_key (set (map fst lexr) \<union> set (map fst denser))"
    and nm: "nm \<in> set NORMALISATIONS"
  shows "weighted_fast qc alpha nm out_k = Inr out"
  using weighted_fast_result [OF assms] .

theorem weighted_fast_eq_weighted_witness:
  "\<exists>qc out. prepare remdups [(''7'', 2)] [(''8'', 3), (''7'', 1)] None = Inr qc \<and>
     weighted remdups [(''7'', 2)] [(''8'', 3), (''7'', 1)] (1 / 4) ''minmax'' None (Some 1) = Inr out \<and>
     weighted_fast qc (1 / 4) ''minmax'' (Some 1) = Inr out"
proof -
  obtain out where o: "weighted remdups [(''7'', 2)] [(''8'', 3), (''7'', 1)] (1 / 4) ''minmax'' None (Some 1) = Inr out"
    by (simp add: weighted_def weighted_part_def cut_depth_def check_unique_def normalise_def Let_def)
  obtain qc where p: "prepare remdups [(''7'', 2)] [(''8'', 3), (''7'', 1)] None = Inr qc"
    by (simp add: prepare_def cut_depth_def NORMALISATIONS_def norm_array_def normalise_def Let_def)
  have "inj_on docid_key (set (map fst [(''7'', 2::real)]) \<union> set (map fst [(''8'', 3::real), (''7'', 1)]))"
    by (simp add: docid_key_def isdigit_def is_digit_char_def code_def nat_of_digits_def)
  moreover have "''minmax'' \<in> set NORMALISATIONS" by (simp add: NORMALISATIONS_def)
  ultimately show ?thesis
    using weighted_fast_eq_weighted [OF o p is_set_order_remdups is_set_order_remdups] o p by blast
qed

end
