(* ===== verification/Fusion_Runs.thy ===== *)
theory Fusion_Runs
  imports Fusion_Core Data_IO
begin

text \<open>
  \<open>py/hybridsearch/fusion/runs.py\<close>: reading a run in its own rank order, fusing two runs query by
  query, and writing a run whose scores re-sort to exactly the fused order.  The theorems show that
  writing never fails on rankings without repeated documents, and that evaluating the written file
  sees the fused order.
\<close>

section \<open>Reading and fusing\<close>

type_synonym run_row = "int \<times> nat \<times> docid \<times> real"

definition read_ranked_line :: "(qid, run_row list) dict \<Rightarrow> nat \<times> string \<Rightarrow> (qid, run_row list) dict res" where
  "read_ranked_line rows = (\<lambda>(i, line).
     (case split_ws line of
        [] \<Rightarrow> Inr rows
      | q # _ # d # rank # score # _ # _ \<Rightarrow>
          res_bind (int_of rank) (\<lambda>k.
            res_bind (float_of score) (\<lambda>s. Inr (dset rows q (dget rows q [] @ [(k, i, d, s)]))))
      | _ \<Rightarrow> Inl ValueError))"

definition read_run_ranked :: "string \<Rightarrow> (qid, ranking) dict res" where
  "read_run_ranked f =
     res_bind (res_fold read_ranked_line [] (enumerate 0 (text_lines f))) (\<lambda>rows.
       Inr (map (\<lambda>(q, v). (q, map (\<lambda>(_, _, d, s). (d, s)) (py_sorted (\<lambda>x. x) v))) rows))"

definition fuse_runs :: "(qid, ranking) dict \<Rightarrow> (qid, ranking) dict \<Rightarrow>
    (ranking \<Rightarrow> ranking \<Rightarrow> ranking res) \<Rightarrow> qid list option \<Rightarrow> (qid, ranking) dict res" where
  "fuse_runs lexr denser fn qids =
     (let qs = (case qids of Some qs \<Rightarrow> qs
                | None \<Rightarrow> py_sorted (\<lambda>x. x) (remdups (keys lexr @ keys denser)))
      in res_bind (res_map (\<lambda>q. res_bind (fn (dget lexr q []) (dget denser q [])) (\<lambda>r. Inr (q, r))) qs)
           (\<lambda>ps. Inr (dict_of ps)))"

section \<open>Writing a run that keeps its order\<close>

fun opt_map :: "('a \<Rightarrow> 'b option) \<Rightarrow> 'a list \<Rightarrow> 'b list option" where
  "opt_map f [] = Some []"
| "opt_map f (x # xs) = (case f x of None \<Rightarrow> None | Some y \<Rightarrow> map_option (\<lambda>ys. y # ys) (opt_map f xs))"

definition as_score_dict :: "(qid, ranking) dict \<Rightarrow> run option" where
  \<comment> \<open>None: the score loop of some query does not return\<close>
  "as_score_dict run =
     map_option dict_of (opt_map (\<lambda>(q, r).
       map_option (\<lambda>sc. (q, dict_of (zip (map fst r) sc))) (run_file_scores r 15)) run)"

definition run_query_lines :: "string \<Rightarrow> qid \<Rightarrow> ranking \<Rightarrow> (docid, real) dict \<Rightarrow> string list" where
  "run_query_lines tag q r sd =
     map (\<lambda>(i, d, _). sp_join [q, ''Q0'', d, str_nat i, fmt_g 15 (dget sd d 0), tag]) (enumerate 1 r)"

definition write_run_exact :: "(qid, ranking) dict \<Rightarrow> string \<Rightarrow> (string \<times> run) res option" where
  "write_run_exact run tag =
     map_option (\<lambda>scores.
       res_bind (res_map (\<lambda>(q, r).
           let sd = dget scores q [] in
           if rank_run sd \<noteq> map fst r then Inl AssertionError else Inr (run_query_lines tag q r sd)) run)
         (\<lambda>ls. Inr (unlines (concat ls), scores)))
       (as_score_dict run)"

section \<open>The written scores\<close>

lemma opt_map_Some: "(\<And>x. x \<in> set xs \<Longrightarrow> f x = Some (g x)) \<Longrightarrow> opt_map f xs = Some (map g xs)"
  by (induction xs) auto

definition file_scores :: "ranking \<Rightarrow> real list" where
  "file_scores r = the (run_file_scores r 15)"

lemma file_scores:
  "run_file_scores r 15 = Some (file_scores r)" "length (file_scores r) = length r"
  "sorted_wrt (>) (file_scores r)" "list_all (decimal_rep 15) (file_scores r)"
  using run_file_scores_ok [of 15 r] by (auto simp: file_scores_def)

definition file_dict :: "ranking \<Rightarrow> (docid, real) dict" where
  "file_dict r = dict_of (zip (map fst r) (file_scores r))"

lemma as_score_dict_eq:
  assumes "dict_ok run"
  shows "as_score_dict run = Some (map (\<lambda>(q, r). (q, file_dict r)) run)"
proof -
  have "opt_map (\<lambda>(q, r). map_option (\<lambda>sc. (q, dict_of (zip (map fst r) sc))) (run_file_scores r 15)) run
      = Some (map (\<lambda>(q, r). (q, file_dict r)) run)"
    by (rule opt_map_Some) (auto simp: file_scores(1) file_dict_def)
  moreover have "distinct (map fst (map (\<lambda>(q, r). (q, file_dict r)) run))"
    using assms by (simp add: comp_def case_prod_unfold)
  ultimately show ?thesis by (simp only: as_score_dict_def option.map dict_of_distinct)
qed

lemma file_dict_zip: "distinct (map fst r) \<Longrightarrow> file_dict r = zip (map fst r) (file_scores r)"
  unfolding file_dict_def using file_scores(2) [of r] by (intro dict_of_distinct) simp

lemma file_dict_nth:
  assumes "distinct (map fst r)" and "i < length r"
  shows "dget (file_dict r) (fst (r ! i)) 0 = file_scores r ! i"
  using assms file_scores(2) [of r] unfolding file_dict_zip [OF assms(1)]
  by (intro dget_present) (auto simp: in_set_zip intro!: exI [of _ i])

lemma rank_file_dict:
  "rank_run (file_dict r) = map fst r \<longleftrightarrow> distinct (map fst r)"
proof
  assume "rank_run (file_dict r) = map fst r"
  moreover have "distinct (rank_run (file_dict r))"
    by (rule rank_run_distinct) (simp add: file_dict_def)
  ultimately show "distinct (map fst r)" by metis
next
  assume d: "distinct (map fst r)"
  have ok: "dict_ok (file_dict r)" by (simp add: file_dict_def)
  have set: "set (map fst r) = set (keys (file_dict r))"
    using file_scores(2) [of r] by (simp add: file_dict_zip [OF d])
  have "sorted_wrt (before (file_dict r)) (map fst r)"
    using file_scores(2,3) [of r] file_dict_nth [OF d]
    by (auto simp: sorted_wrt_iff_nth_less before_def)
  then show "rank_run (file_dict r) = map fst r" using rank_run_unique [OF ok set] by simp
qed

lemma write_run_exact_eq:
  assumes "dict_ok run"
  shows "write_run_exact run tag = Some (res_bind (res_map (\<lambda>(q, r).
       if distinct (map fst r) then Inr (run_query_lines tag q r (file_dict r)) else Inl AssertionError) run)
     (\<lambda>ls. Inr (unlines (concat ls), map (\<lambda>(q, r). (q, file_dict r)) run)))"
proof -
  let ?sc = "map (\<lambda>(q, r). (q, file_dict r)) run"
  have g: "dget ?sc q [] = file_dict r" if "(q, r) \<in> set run" for q r
  proof (rule dget_present)
    show "dict_ok ?sc" using assms by (simp add: comp_def case_prod_unfold)
    show "(q, file_dict r) \<in> set ?sc" using that by force
  qed
  have cong: "res_map f xs = res_map h xs" if "\<And>x. x \<in> set xs \<Longrightarrow> f x = h x" for f h and xs :: "'a list"
    using that by (induction xs) auto
  have "res_map (\<lambda>(q, r). let sd = dget ?sc q [] in
          if rank_run sd \<noteq> map fst r then Inl AssertionError else Inr (run_query_lines tag q r sd)) run
      = res_map (\<lambda>(q, r). if distinct (map fst r) then Inr (run_query_lines tag q r (file_dict r))
          else Inl AssertionError) run"
    by (rule cong) (auto simp: g rank_file_dict Let_def)
  then show ?thesis by (simp only: write_run_exact_def as_score_dict_eq [OF assms] option.map)
qed

text \<open>C6: \<open>write_run_exact\<close> always returns; it fails, with the AssertionError of its check, exactly
  when some query's ranking repeats a document.\<close>

theorem write_run_exact_checks:
  assumes "dict_ok run"
  shows "\<exists>res. write_run_exact run tag = Some res \<and>
     (res = Inl AssertionError \<longleftrightarrow> (\<exists>(q, r) \<in> set run. \<not> distinct (map fst r))) \<and>
     ((\<exists>v. res = Inr v) \<longleftrightarrow> (\<forall>(q, r) \<in> set run. distinct (map fst r)))"
proof -
  have "(\<exists>ls. res_map (\<lambda>(q, r). if distinct (map fst r) then Inr (h q r) else Inl AssertionError) rs = Inr ls
          \<and> (\<forall>(q, r) \<in> set rs. distinct (map fst r)))
      \<or> (res_map (\<lambda>(q, r). if distinct (map fst r) then Inr (h q r) else Inl AssertionError) rs = Inl AssertionError
          \<and> (\<exists>(q, r) \<in> set rs. \<not> distinct (map fst r)))" for rs :: "(qid, ranking) dict" and h :: "qid \<Rightarrow> ranking \<Rightarrow> string list"
  proof (induction rs)
    case (Cons p rs)
    then show ?case by (cases p; cases "distinct (map fst (snd p))") auto
  qed simp
  from this [of "\<lambda>q r. run_query_lines tag q r (file_dict r)" run] show ?thesis
    unfolding write_run_exact_eq [OF assms] by (elim disjE exE conjE) auto
qed

theorem write_run_exact_checks_witness:
  "write_run_exact [(''q'', [(''a'', 1), (''a'', 0)])] ''t'' = Some (Inl AssertionError)"
  using write_run_exact_checks [of "[(''q'', [(''a'', 1), (''a'', 0)])]" "''t''"] by simp

text \<open>C7: a fused run written by \<open>write_run_exact\<close> and read back by \<open>read_run\<close> gives exactly the scores
  it returned (queries without documents have no line), and the evaluator ranks every query's
  documents in the fused order, ties in the fused score included.\<close>

theorem write_run_exact_roundtrip:
  assumes w: "write_run_exact run tag = Some (Inr (f, scores))" and ok: "dict_ok run"
    and pl: "plain tag" "\<And>q r. (q, r) \<in> set run \<Longrightarrow> plain q"
      "\<And>q r d s. (q, r) \<in> set run \<Longrightarrow> (d, s) \<in> set r \<Longrightarrow> plain d"
    and qr: "(q, r) \<in> set run"
  shows "read_run f = Inr (filter (\<lambda>(q, sd). sd \<noteq> []) scores) \<and> rank_run (dget scores q []) = map fst r"
proof -
  obtain ls where ls: "res_map (\<lambda>(q, r). if distinct (map fst r) then Inr (run_query_lines tag q r (file_dict r))
        else Inl AssertionError) run = Inr ls"
    and f: "f = unlines (concat ls)" and sc: "scores = map (\<lambda>(q, r). (q, file_dict r)) run"
    using w write_run_exact_eq [OF ok] by auto
  have dist: "distinct (map fst r)" if m: "(q, r) \<in> set run" for q r
  proof -
    obtain i where "i < length run" "run ! i = (q, r)" using m unfolding in_set_conv_nth by blast
    then show ?thesis using res_map_Inr_nth [OF ls, of i] by (auto split: if_splits)
  qed
  define blocks where "blocks = filter (\<lambda>(q, sd). sd \<noteq> []) scores"
  have lsm: "ls = map (\<lambda>(q, r). run_query_lines tag q r (file_dict r)) run"
    using ls dist by (subst (asm) res_map_all_Inr [where g = "\<lambda>(q, r). run_query_lines tag q r (file_dict r)"]) auto
  have okd: "distinct (map fst scores)" using ok by (simp add: sc comp_def case_prod_unfold)
  define numbered where "numbered = concat (map (\<lambda>(q, r). map (\<lambda>(i, d, s). (i, q, d, dget (file_dict r) d 0)) (enumerate 1 r)) run)"
  have lines: "concat ls = map (\<lambda>(i, q, d, v). sp_join [q, ''Q0'', d, str_nat i, fmt_g 15 v, tag]) numbered"
    by (simp add: lsm numbered_def run_query_lines_def map_concat comp_def case_prod_unfold)
  have ents: "map snd numbered = entries blocks"
  proof -
    have "map snd (map (\<lambda>(i, d, s). (i, q, d, dget (file_dict r) d 0)) (enumerate 1 r))
        = map (\<lambda>(d, v). (q, d, v)) (file_dict r)" if "(q, r) \<in> set run" for q r
      using dist [OF that] file_scores(2) [of r] file_dict_nth [OF dist [OF that]]
      by (auto simp: file_dict_zip nth_enumerate_eq case_prod_unfold intro!: nth_equalityI)
    then have "map snd numbered = entries scores"
      by (auto simp: numbered_def entries_def sc map_concat comp_def case_prod_unfold intro!: arg_cong [where f = concat])
    then show ?thesis by (simp only: blocks_def entries_nonempty)
  qed
  have val: "plain q \<and> plain d \<and> decimal_rep 15 v" if n: "(i, q, d, v) \<in> set numbered" for i q d v
  proof -
    obtain r s where r: "(q, r) \<in> set run" "(i, d, s) \<in> set (enumerate 1 r)" "v = dget (file_dict r) d 0"
      using n by (auto simp: numbered_def)
    obtain j where j: "j < length r" "r ! j = (d, s)"
      using r(2) by (metis enumerate_map_snd in_set_conv_nth list.set_map image_eqI snd_conv)
    then have "v = file_scores r ! j" using file_dict_nth [OF dist [OF r(1)] j(1)] r(3) by simp
    then have "decimal_rep 15 v" using file_scores(2,4) [of r] j(1) by (simp add: list_all_length)
    moreover have "(d, s) \<in> set r" using j by (metis nth_mem)
    ultimately show ?thesis using pl r(1) by blast
  qed
  have "read_run f = Inr (foldl (\<lambda>m (i, q, d, v). add_nested m q d v) [] numbered)"
    unfolding read_run_def f lines
  proof (rule text_fold_unlines)
    fix x
    assume x: "x \<in> set numbered"
    obtain i q d v where e: "x = (i, q, d, v)" by (cases x)
    have p: "plain q" "plain d" "decimal_rep 15 v" using val x e by blast+
    have pf: "plain (fmt_g 15 v)" by (rule plain_fmt_g) simp
    show "one_line (case x of (i, q, d, v) \<Rightarrow> sp_join [q, ''Q0'', d, str_nat i, fmt_g 15 v, tag])"
      unfolding e prod.case using p pl(1) pf plain_lits by (intro sp_join_one_line) auto
    show "read_run_line s ((case x of (i, q, d, v) \<Rightarrow> sp_join [q, ''Q0'', d, str_nat i, fmt_g 15 v, tag]) @ nl)
        = Inr (case x of (i, q, d, v) \<Rightarrow> add_nested s q d v)" for s
      unfolding e prod.case using p pl(1) pf by (intro read_run_entry) (simp_all add: float_of_printed)
  qed
  also have "foldl (\<lambda>m (i, q, d, v). add_nested m q d v) [] numbered
      = foldl (\<lambda>m (q, d, v). add_nested m q d v) [] (map snd numbered)"
    by (simp add: foldl_map case_prod_unfold)
  also have "\<dots> = [] @ blocks"
    unfolding ents
  proof (rule add_nested_entries)
    show "distinct (map fst blocks)" using okd by (simp add: blocks_def distinct_map_filter)
    show "dict_ok ps \<and> ps \<noteq> []" if "(q, ps) \<in> set blocks" for q ps
      using that by (auto simp: blocks_def sc file_dict_def)
  qed simp
  finally have "read_run f = Inr blocks" by simp
  moreover have "dget scores q [] = file_dict r"
    using okd qr by (intro dget_present) (auto simp: sc)
  ultimately show ?thesis using rank_file_dict dist [OF qr] by (simp add: blocks_def)
qed

theorem write_run_exact_roundtrip_witness:
  "\<exists>f scores. write_run_exact [(''q'', [(''a'', 1), (''b'', 1)])] ''hs'' = Some (Inr (f, scores)) \<and>
     read_run f = Inr (filter (\<lambda>(q, sd). sd \<noteq> []) scores) \<and> rank_run (dget scores ''q'' []) = [''a'', ''b'']"
proof -
  let ?run = "[(''q'', [(''a'', 1), (''b'', 1)])] :: (qid, ranking) dict"
  have p: "plain ''q''" "plain ''a''" "plain ''b''" "plain ''hs''" by code_simp+
  obtain f sc where w: "write_run_exact ?run ''hs'' = Some (Inr (f, sc))"
    by (simp add: write_run_exact_eq)
  have "read_run f = Inr (filter (\<lambda>(q, sd). sd \<noteq> []) sc) \<and>
      rank_run (dget sc ''q'' []) = map fst [(''a'', 1::real), (''b'', 1)]"
    by (rule write_run_exact_roundtrip [OF w]) (use p in auto)
  then show ?thesis using w by simp
qed

end
