(* ===== verification/Fusion_Study.thy ===== *)
theory Fusion_Study
  imports Fusion_Fast Fusion_Runs Significance
begin

text \<open>
  \<open>scripts/m4_fusion.py\<close> (the hybrid retrieval study: tuning on the training queries only, evaluation
  on the held-out sets, significance families, the approximate dense run) and the gate check of
  \<open>py/hybridsearch/eval/reference.py\<close>.  A file system is a partial function from paths to contents; the
  random generator and \<open>np.quantile\<close> are arguments, as in \<open>Significance\<close>.  A grid point is the key of its
  own results, where the script uses its printed name; the mean of no value (NaN) is None.  The
  lemmas show that the cross-check of the two fusion paths never fails and that the tuned parameters
  are the first best ones of the grid.
\<close>

section \<open>The grid\<close>

datatype config = Rrf_K nat | Wsum real string

definition DEPTH :: int where "DEPTH = 1000"
definition OUT_K :: nat where "OUT_K = 1000"
definition RRF_KS :: "nat list" where "RRF_KS = [10, 20, 40, 60, 100]"
definition ALPHAS :: "real list" where "ALPHAS = map (\<lambda>i. real i / 10) [1..<10]"
definition NORMS :: "string list" where "NORMS = [''minmax'', ''zscore'']"

definition grid_configs :: "config list" where
  "grid_configs = map Rrf_K RRF_KS @ concat (map (\<lambda>n. map (\<lambda>a. Wsum a n) ALPHAS) NORMS)"

record spec =
  sp_lex :: string
  sp_dense :: string
  sp_qrels :: string
  sp_metrics :: "string list"
  sp_primary :: string
  sp_recall :: string

definition msmarco_spec :: "string \<Rightarrow> string list \<Rightarrow> string \<Rightarrow> string \<Rightarrow> spec" where
  "msmarco_spec ds metrics primary recall =
     \<lparr>sp_lex = ''m4/hs-bm25-1m.'' @ ds @ ''.trec'', sp_dense = ''reference/dense-flat-1m.'' @ ds @ ''.trec'',
      sp_qrels = ''data/subset/1m/qrels.'' @ ds @ ''.tsv'', sp_metrics = metrics, sp_primary = primary, sp_recall = recall\<rparr>"

definition beir_spec :: "string \<Rightarrow> spec" where
  "beir_spec ds =
     \<lparr>sp_lex = ''m4/hs-bm25.beir-'' @ ds @ ''.test.trec'', sp_dense = ''reference/dense-flat.beir-'' @ ds @ ''.test.trec'',
      sp_qrels = ''data/raw/beir/'' @ ds @ ''/qrels/test.trec'', sp_metrics = [''nDCG@10'', ''R@100''],
      sp_primary = ''nDCG@10'', sp_recall = ''R@100''\<rparr>"

definition DATASETS :: "(string, spec) dict" where
  "DATASETS =
     [(''dev'', msmarco_spec ''dev'' [''RR@10'', ''R@100'', ''R@1000''] ''RR@10'' ''R@1000''),
      (''dl19'', msmarco_spec ''dl19'' [''nDCG@10'', ''R(rel=2)@1000''] ''nDCG@10'' ''R(rel=2)@1000''),
      (''dl20'', msmarco_spec ''dl20'' [''nDCG@10'', ''R(rel=2)@1000''] ''nDCG@10'' ''R(rel=2)@1000'')] @
     map (\<lambda>ds. (''beir-'' @ ds, beir_spec ds)) [''scifact'', ''nfcorpus'', ''fiqa'']"

definition TUNE :: "string \<times> string \<times> string" where
  "TUNE = (''m4/hs-bm25-1m.train_tune.trec'', ''reference/dense-flat-1m.train_tune.trec'', ''data/subset/train_tune/qrels.tsv'')"

type_synonym files = "string \<Rightarrow> string option"

definition read_file :: "files \<Rightarrow> string \<Rightarrow> string res" where
  "read_file fs p = (case fs p of None \<Rightarrow> Inl FileNotFoundError | Some s \<Rightarrow> Inr s)"

definition run_path :: "string \<Rightarrow> string" where "run_path p = ''data/runs/'' @ p"

definition load_inputs :: "files \<Rightarrow> string \<times> string \<times> string \<Rightarrow>
    ((qid, ranking) dict \<times> (qid, ranking) dict \<times> qrels) res" where
  "load_inputs fs = (\<lambda>(lexp, densep, qrelsp).
     res_bind (res_bind (read_file fs (run_path lexp)) read_run_ranked) (\<lambda>l.
     res_bind (res_bind (read_file fs (run_path densep)) read_run_ranked) (\<lambda>d.
     res_bind (res_bind (read_file fs qrelsp) read_qrels) (\<lambda>q. Inr (l, d, q)))))"

section \<open>Sweeping the grid\<close>

definition nan_mean :: "real list \<Rightarrow> real option" where
  "nan_mean vs = (if vs = [] then None else Some (mean vs))"

definition fast_ranking :: "config \<Rightarrow> query_cands \<Rightarrow> nat \<Rightarrow> ranking res" where
  "fast_ranking c qc out_k =
     (case c of Rrf_K k \<Rightarrow> Inr (rrf_fast qc (real k) (Some out_k)) | Wsum a n \<Rightarrow> weighted_fast qc a n (Some out_k))"

definition sweep_ranked :: "(qid, query_cands) dict \<Rightarrow> nat \<Rightarrow> config \<Rightarrow> qid \<Rightarrow> docid list res" where
  "sweep_ranked cands need c q =
     (case map_of cands q of
        None \<Rightarrow> Inr []
      | Some qc \<Rightarrow> res_bind (fast_ranking c qc need) (\<lambda>r. Inr (map fst r)))"

type_synonym grid = "(config, (string, real option) dict) dict"

definition sweep :: "(qid, query_cands) dict \<Rightarrow> qrels \<Rightarrow> string list \<Rightarrow> grid res" where
  "sweep cands qrels names =
     res_bind (res_map parse_metric names) (\<lambda>ms.
       if ms = [] then Inl ValueError
       else let need = Max (set (map m_k ms)) in
         res_map (\<lambda>c.
           res_bind (res_map (\<lambda>(q, qrel). res_bind (sweep_ranked cands need c q) (\<lambda>r. Inr (r, qrel))) qrels) (\<lambda>rs.
             Inr (c, dict_of (map (\<lambda>m. (m_name m, nan_mean (map (\<lambda>(r, qrel). metric_value m r qrel) rs))) ms)))) grid_configs)"

section \<open>Tuning\<close>

definition score_of :: "grid \<Rightarrow> string \<Rightarrow> config \<Rightarrow> real" where
  \<comment> \<open>a NaN compares as the others do: it occurs only without queries, and then everywhere\<close>
  "score_of g m c = (case dget (dget g c []) m None of None \<Rightarrow> 0 | Some x \<Rightarrow> x)"

definition first_best :: "('a \<Rightarrow> real) \<Rightarrow> 'a list \<Rightarrow> 'a" where
  \<comment> \<open>\<open>max(xs, key=lambda x: (f(x), -xs.index(x)))\<close> of a non-empty list\<close>
  "first_best f xs = foldl (\<lambda>b x. if f b < f x then x else b) (hd xs) (tl xs)"

record tuned =
  tu_grid :: grid
  tu_k :: nat
  tu_norm :: string
  tu_alpha :: real
  tu_single :: "(string, (string, real) dict) dict"

definition tuning_metrics :: "string list" where "tuning_metrics = [''RR@10'', ''R@1000'']"

definition prepare_all :: "(docid list \<Rightarrow> docid list) \<Rightarrow> (qid, ranking) dict \<Rightarrow> (qid, ranking) dict \<Rightarrow> qid list \<Rightarrow>
    (qid, query_cands) dict res" where
  "prepare_all so lexr denser qids =
     res_map (\<lambda>q. res_bind (prepare so (dget lexr q []) (dget denser q []) (Some DEPTH)) (\<lambda>qc. Inr (q, qc))) qids"

definition single_run :: "files \<Rightarrow> qrels \<Rightarrow> string list \<Rightarrow> string \<Rightarrow> ((string, real) dict \<times> per_query) res" where
  "single_run fs qrels metrics path =
     res_bind (res_bind (read_file fs path) read_run) (\<lambda>r. evaluate r qrels (Some metrics))"

definition weight_grid :: "(string \<times> real) list" where
  "weight_grid = concat (map (\<lambda>n. map (Pair n) ALPHAS) NORMS)"

definition choose_params :: "grid \<Rightarrow> nat \<times> string \<times> real" where
  "choose_params g =
     (let k = first_best (\<lambda>k. score_of g ''RR@10'' (Rrf_K k)) RRF_KS;
          (n, a) = first_best (\<lambda>(n, a). score_of g ''RR@10'' (Wsum a n)) weight_grid
      in (k, n, a))"

definition tune :: "(docid list \<Rightarrow> docid list) \<Rightarrow> files \<Rightarrow> tuned res" where
  "tune so fs =
     res_bind (load_inputs fs TUNE) (\<lambda>(lexr, denser, qrels).
     res_bind (prepare_all so lexr denser (keys qrels)) (\<lambda>cands.
     res_bind (sweep cands qrels tuning_metrics) (\<lambda>g.
     res_bind (single_run fs qrels tuning_metrics (run_path (fst TUNE))) (\<lambda>(b, _).
     res_bind (single_run fs qrels tuning_metrics (run_path (fst (snd TUNE)))) (\<lambda>(d, _).
       let (k, n, a) = choose_params g
       in Inr \<lparr>tu_grid = g, tu_k = k, tu_norm = n, tu_alpha = a, tu_single = [(''bm25'', b), (''dense'', d)]\<rparr>)))))"

definition systems_of :: "nat \<Rightarrow> string \<Rightarrow> real \<Rightarrow> (string, config) dict" where
  "systems_of k n a = [(''rrf_tuned'', Rrf_K k), (''rrf_k60'', Rrf_K 60), (''wsum_tuned'', Wsum a n)]"

section \<open>Held-out evaluation\<close>

definition fuser :: "(docid list \<Rightarrow> docid list) \<Rightarrow> config \<Rightarrow> ranking \<Rightarrow> ranking \<Rightarrow> ranking res" where
  "fuser so c l d =
     (case c of Rrf_K k \<Rightarrow> rrf [l, d] (real k) (Some DEPTH) (Some OUT_K)
      | Wsum a n \<Rightarrow> weighted so l d a n (Some DEPTH) (Some OUT_K))"

record system_out =
  so_name :: string
  so_mismatches :: nat
  so_file :: string
  so_agg :: "(string, real) dict"
  so_per :: per_query

definition cross_check :: "config \<Rightarrow> (qid, query_cands) dict \<Rightarrow> (qid, ranking) dict \<Rightarrow> qid list \<Rightarrow> nat res" where
  \<comment> \<open>on how many queries the sweep path and the reference disagree\<close>
  "cross_check c cands fused qids =
     res_bind (res_map (\<lambda>q.
         res_bind (dlookup cands q) (\<lambda>qc. res_bind (fast_ranking c qc OUT_K) (\<lambda>f.
         res_bind (dlookup fused q) (\<lambda>r. Inr (f \<noteq> r))))) qids)
       (\<lambda>bad. Inr (length (filter id bad)))"

definition write_eval :: "(qid, ranking) dict \<Rightarrow> qrels \<Rightarrow> string list \<Rightarrow> string \<Rightarrow>
    (string \<times> (string, real) dict \<times> per_query) diverging" where
  "write_eval fused qrels metrics tag =
     div_bind (write_run_exact fused tag) (\<lambda>(file, scores).
     div_bind (Some (evaluate scores qrels (Some metrics))) (\<lambda>(agg, per). Some (Inr (file, agg, per))))"

definition run_system :: "(docid list \<Rightarrow> docid list) \<Rightarrow> (qid, ranking) dict \<Rightarrow> (qid, ranking) dict \<Rightarrow> qrels \<Rightarrow>
    (qid, query_cands) dict \<Rightarrow> string list \<Rightarrow> string \<times> config \<Rightarrow> system_out diverging" where
  "run_system so lexr denser qrels cands metrics = (\<lambda>(name, c).
     div_bind (Some (fuse_runs lexr denser (fuser so c) (Some (keys qrels)))) (\<lambda>fused.
     div_bind (Some (cross_check c cands fused (keys qrels))) (\<lambda>bad.
     div_bind (write_eval fused qrels metrics (''m4-'' @ name)) (\<lambda>(file, agg, per).
       Some (Inr \<lparr>so_name = name, so_mismatches = bad, so_file = file, so_agg = agg, so_per = per\<rparr>)))))"

record held_out =
  ho_results :: "(string, (string, real) dict) dict"
  ho_per_query :: "(string, per_query) dict"
  ho_files :: "(string, string) dict"
  ho_grid :: grid
  ho_queries :: nat
  ho_missing_lex :: nat
  ho_missing_dense :: nat
  ho_union :: "real option"
  ho_mismatches :: nat

definition union_size :: "ranking \<Rightarrow> ranking \<Rightarrow> nat" where
  "union_size l d = card (set (map fst (take (nat DEPTH) l)) \<union> set (map fst (take (nat DEPTH) d)))"

definition evaluate_held_out :: "(docid list \<Rightarrow> docid list) \<Rightarrow> files \<Rightarrow> (string, config) dict \<Rightarrow> spec \<Rightarrow> held_out diverging" where
  "evaluate_held_out so fs systems sp =
     div_bind (Some (load_inputs fs (sp_lex sp, sp_dense sp, sp_qrels sp))) (\<lambda>(lexr, denser, qrels).
     div_bind (Some (single_run fs qrels (sp_metrics sp) (run_path (sp_lex sp)))) (\<lambda>(ba, bp).
     div_bind (Some (single_run fs qrels (sp_metrics sp) (run_path (sp_dense sp)))) (\<lambda>(da, dp).
     div_bind (Some (prepare_all so lexr denser (keys qrels))) (\<lambda>cands.
     div_bind (div_map (run_system so lexr denser qrels cands (sp_metrics sp)) systems) (\<lambda>outs.
       if sum_list (map so_mismatches outs) \<noteq> 0 then Some (Inl AssertionError)
       else div_bind (Some (sweep cands qrels [sp_primary sp])) (\<lambda>g.
         Some (Inr
           \<lparr>ho_results = [(''bm25'', ba), (''dense'', da)] @ map (\<lambda>o'. (so_name o', so_agg o')) outs,
            ho_per_query = [(''bm25'', bp), (''dense'', dp)] @ map (\<lambda>o'. (so_name o', so_per o')) outs,
            ho_files = map (\<lambda>o'. (so_name o', so_file o')) outs,
            ho_grid = g, ho_queries = length qrels,
            ho_missing_lex = length (filter (\<lambda>q. dget lexr q [] = []) (keys qrels)),
            ho_missing_dense = length (filter (\<lambda>q. dget denser q [] = []) (keys qrels)),
            ho_union = nan_mean (map (\<lambda>q. real (union_size (dget lexr q []) (dget denser q []))) (keys qrels)),
            ho_mismatches = sum_list (map so_mismatches outs)\<rparr>)))))))"

section \<open>Significance families\<close>

definition hybrid_names :: "nat \<Rightarrow> string list" where
  "hybrid_names best_k = [''rrf_tuned'', ''wsum_tuned''] @ (if best_k = 60 then [] else [''rrf_k60''])"

definition pair_key :: "string \<times> string \<times> string \<times> string \<Rightarrow> string" where
  "pair_key = (\<lambda>(ds, h, single, m). ds @ '' | '' @ h @ '' vs '' @ single @ '' | '' @ m)"

definition family_pairs :: "(string, string) dict \<Rightarrow> string list \<Rightarrow> (string \<times> string \<times> string \<times> string) list" where
  \<comment> \<open>the datasets with the metric of the family\<close>
  "family_pairs dm hybrids =
     concat (map (\<lambda>(ds, m). concat (map (\<lambda>h. map (\<lambda>s. (ds, h, s, m)) [''bm25'', ''dense'']) hybrids)) dm)"

definition family_input :: "(string, held_out) dict \<Rightarrow> (string \<times> string \<times> string \<times> string) list \<Rightarrow>
    (string, (qid, real) dict \<times> (qid, real) dict) dict res" where
  "family_input res pairs =
     res_bind (res_map (\<lambda>(ds, h, s, m).
         res_bind (dlookup res ds) (\<lambda>ho.
         res_bind (res_bind (dlookup (ho_per_query ho) h) (\<lambda>p. dlookup p m)) (\<lambda>a.
         res_bind (res_bind (dlookup (ho_per_query ho) s) (\<lambda>p. dlookup p m)) (\<lambda>b.
           Inr (pair_key (ds, h, s, m), a, b))))) pairs)
       (\<lambda>xs. Inr (dict_of xs))"

record verdict =
  ve_comparison :: comparison
  ve_dataset :: string
  ve_hybrid :: string
  ve_baseline :: string
  ve_metric :: string
  ve_lt_01 :: bool
  ve_lt_05 :: bool

definition verdict_of :: "(string \<times> string \<times> string \<times> string) list \<Rightarrow> comparison \<Rightarrow> verdict res" where
  "verdict_of pairs c =
     res_bind (dlookup (dict_of (map (\<lambda>p. (pair_key p, p)) pairs)) (c_name c)) (\<lambda>(ds, h, s, m).
     case c_p_holm c of
       None \<Rightarrow> Inl TypeError
     | Some p \<Rightarrow> Inr \<lparr>ve_comparison = c, ve_dataset = ds, ve_hybrid = h, ve_baseline = s, ve_metric = m,
         ve_lt_01 = p < 1 / 100, ve_lt_05 = p < 5 / 100\<rparr>)"

definition significance_family :: "(real list \<Rightarrow> real \<Rightarrow> real) \<Rightarrow> 'g ints \<Rightarrow> 'g \<Rightarrow> nat \<Rightarrow> nat \<Rightarrow> (string, held_out) dict \<Rightarrow>
    (string, string) dict \<Rightarrow> string list \<Rightarrow> string \<Rightarrow> verdict list diverging" where
  "significance_family quantile ints g n_perm n_boot res dm hybrids fam =
     (let pairs = family_pairs dm hybrids in
      div_bind (Some (family_input res pairs)) (\<lambda>fam_in.
      div_bind (compare quantile ints g fam_in fam n_perm n_boot (5 / 100)) (\<lambda>cs.
        Some (res_map (verdict_of pairs) cs))))"

section \<open>An approximate dense run\<close>

definition int_median :: "nat list \<Rightarrow> nat" where
  \<comment> \<open>\<open>int(np.median(xs))\<close> of a non-empty list\<close>
  "int_median xs =
     (let s = sort xs; n = length s
      in if odd n then s ! (n div 2) else (s ! (n div 2 - 1) + s ! (n div 2)) div 2)"

record approx_entry =
  ap_depth :: nat
  ap_queries :: nat
  ap_dense :: "(string, real) dict"
  ap_approx :: "(string, (string, real) dict) dict"
  ap_cut :: "(string, (string, real) dict) dict"
  ap_significance :: "comparison list"

definition approx_key :: "string \<Rightarrow> string \<Rightarrow> string \<Rightarrow> string \<Rightarrow> string" where
  "approx_key ds label system primary = ds @ '' | '' @ system @ '': '' @ label @ '' vs exact dense | '' @ primary"

definition cut_key :: "string \<Rightarrow> string \<Rightarrow> nat \<Rightarrow> string \<Rightarrow> string \<Rightarrow> string" where
  "cut_key ds label depth system primary =
     ds @ '' | '' @ system @ '': '' @ label @ '' vs exact dense cut to depth '' @ str_nat depth @ '' | '' @ primary"

definition dense_key :: "string \<Rightarrow> string \<Rightarrow> string \<Rightarrow> string" where
  "dense_key ds label primary = ds @ '' | dense '' @ label @ '' vs exact | '' @ primary"

definition system_values :: "held_out \<Rightarrow> string \<Rightarrow> string \<Rightarrow> (qid, real) dict res" where
  "system_values ho system m = res_bind (dlookup (ho_per_query ho) system) (\<lambda>p. dlookup p m)"

definition approx_systems :: "(docid list \<Rightarrow> docid list) \<Rightarrow> (string, config) dict \<Rightarrow> (qid, ranking) dict \<Rightarrow> (qid, ranking) dict \<Rightarrow>
    qrels \<Rightarrow> string list \<Rightarrow> string \<Rightarrow> string \<Rightarrow> (string \<times> (string, real) dict \<times> (qid, real) dict) list diverging" where
  \<comment> \<open>every system fused with one dense run: its name, metrics and values of the primary metric\<close>
  "approx_systems so systems lexr denser qrels metrics primary suffix =
     div_map (\<lambda>(name, c).
       div_bind (Some (fuse_runs lexr denser (fuser so c) (Some (keys qrels)))) (\<lambda>fused.
       div_bind (write_eval fused qrels metrics (''m4-'' @ name @ suffix)) (\<lambda>(file, agg, per).
       div_bind (Some (dlookup per primary)) (\<lambda>v. Some (Inr (name, agg, v)))))) systems"

definition approx_dense :: "(docid list \<Rightarrow> docid list) \<Rightarrow> (real list \<Rightarrow> real \<Rightarrow> real) \<Rightarrow> 'g ints \<Rightarrow> 'g \<Rightarrow> nat \<Rightarrow> nat \<Rightarrow>
    files \<Rightarrow> (string, config) dict \<Rightarrow> string \<Rightarrow> string \<Rightarrow> spec \<Rightarrow> held_out \<Rightarrow> string \<Rightarrow> approx_entry diverging" where
  "approx_dense so quantile ints g n_perm n_boot fs systems label ds sp ho path =
     div_bind (Some (load_inputs fs (sp_lex sp, sp_dense sp, sp_qrels sp))) (\<lambda>(lexr, exact, qrels).
     div_bind (Some (res_bind (read_file fs path) read_run_ranked)) (\<lambda>ap.
     let depth = (if ap = [] then 0 else int_median (map (length \<circ> snd) ap)); m = sp_primary sp in
     div_bind (Some (single_run fs qrels (sp_metrics sp) path)) (\<lambda>(agg, per).
     div_bind (Some (dlookup per m)) (\<lambda>pa.
     div_bind (Some (system_values ho ''dense'' m)) (\<lambda>pe.
     div_bind (approx_systems so systems lexr ap qrels (sp_metrics sp) m ''-approx'') (\<lambda>as.
     div_bind (Some (res_map (\<lambda>(name, _, v).
         res_bind (system_values ho name m) (\<lambda>e. Inr (approx_key ds label name m, v, e))) as)) (\<lambda>fam1.
     div_bind (approx_systems so systems lexr (map (\<lambda>(q, r). (q, take depth r)) exact) qrels (sp_metrics sp) m ''-exactcut'') (\<lambda>cs.
     let fam2 = map2 (\<lambda>(name, _, v) (_, _, c). (cut_key ds label depth name m, v, c)) as cs in
     div_bind (compare quantile ints g (dict_of ((dense_key ds label m, pa, pe) # fam1 @ fam2)) m n_perm n_boot (5 / 100)) (\<lambda>sig.
       Some (Inr \<lparr>ap_depth = depth, ap_queries = length ap, ap_dense = agg,
         ap_approx = map (\<lambda>(name, a, _). (name, a)) as, ap_cut = map (\<lambda>(name, a, _). (name, a)) cs,
         ap_significance = sig\<rparr>))))))))))"

section \<open>The study\<close>

record study =
  st_tuned :: tuned
  st_results :: "(string, held_out) dict"
  st_anserini :: "(string, (string, real) dict) dict"
  st_primary :: "verdict list"
  st_recall :: "verdict list"
  st_approx :: "(string, approx_entry) dict"

definition anserini_path :: "string \<Rightarrow> string" where
  "anserini_path ds = run_path (''reference/anserini-bm25-default-1m.'' @ ds @ ''.trec'')"

definition anserini_check :: "files \<Rightarrow> string \<Rightarrow> (string \<times> (string, real) dict) res" where
  "anserini_check fs ds =
     res_bind (dlookup DATASETS ds) (\<lambda>sp.
     res_bind (res_bind (read_file fs (sp_qrels sp)) read_qrels) (\<lambda>qrels.
     res_bind (single_run fs qrels (sp_metrics sp) (anserini_path ds)) (\<lambda>(agg, _). Inr (ds, agg))))"

definition fusion_study :: "(docid list \<Rightarrow> docid list) \<Rightarrow> (real list \<Rightarrow> real \<Rightarrow> real) \<Rightarrow> 'g ints \<Rightarrow> 'g \<Rightarrow> nat \<Rightarrow> nat \<Rightarrow>
    files \<Rightarrow> string \<Rightarrow> (string \<times> string) list \<Rightarrow> study diverging" where
  \<comment> \<open>\<open>g\<close> is the generator seeded with \<open>SEED\<close>, which every call of \<open>compare\<close> starts from\<close>
  "fusion_study so quantile ints g n_perm n_boot fs label approx =
     div_bind (Some (tune so fs)) (\<lambda>t.
     let systems = systems_of (tu_k t) (tu_norm t) (tu_alpha t); hybrids = hybrid_names (tu_k t) in
     div_bind (div_map (\<lambda>(ds, sp). div_bind (evaluate_held_out so fs systems sp) (\<lambda>h. Some (Inr (ds, h)))) DATASETS) (\<lambda>res.
     div_bind (Some (res_map (anserini_check fs) [''dev'', ''dl19'', ''dl20''])) (\<lambda>ans.
     div_bind (significance_family quantile ints g n_perm n_boot res (map (\<lambda>(ds, sp). (ds, sp_primary sp)) DATASETS) hybrids ''primary'') (\<lambda>fp.
     div_bind (significance_family quantile ints g n_perm n_boot res (map (\<lambda>(ds, sp). (ds, sp_recall sp)) DATASETS) hybrids ''recall'') (\<lambda>fr.
     div_bind (div_map (\<lambda>(ds, path).
         div_bind (Some (res_bind (dlookup DATASETS ds) (\<lambda>sp. res_bind (dlookup res ds) (\<lambda>ho. Inr (sp, ho))))) (\<lambda>(sp, ho).
         div_bind (approx_dense so quantile ints g n_perm n_boot fs systems label ds sp ho path) (\<lambda>e. Some (Inr (ds, e))))) approx) (\<lambda>aps.
       Some (Inr \<lparr>st_tuned = t, st_results = res, st_anserini = ans, st_primary = fp, st_recall = fr, st_approx = dict_of aps\<rparr>)))))))"

section \<open>Reference runs and their gates\<close>

text \<open>\<open>eval/reference.py\<close>: every reference run that exists is scored, and the published figures are checked to four
  decimals.  Paths are relative to the directories of the script.\<close>

record ref_run =
  rf_run :: string
  rf_qrels :: string
  rf_metrics :: "string list"
  rf_gates :: "(string, real) dict" \<comment> \<open>published values\<close>

record ref_row =
  rw_run :: string
  rw_queries :: nat
  rw_missing :: nat
  rw_metrics :: "(string, real) dict"
  rw_gates :: "(string, real \<times> real \<times> bool) dict" \<comment> \<open>published, ours, pass\<close>

definition DEV_M :: "string list" where "DEV_M = [''RR@10'', ''nDCG@10'', ''R@100'', ''R@1000'']"
definition DL_M :: "string list" where "DL_M = [''nDCG@10'', ''RR(rel=2)@10'', ''R(rel=2)@100'', ''R(rel=2)@1000'']"

definition RUNS :: "ref_run list" where
  "RUNS =
     [\<lparr>rf_run = ''anserini-bm25-default.dev.trec'', rf_qrels = ''raw/msmarco/qrels.dev.small.tsv'', rf_metrics = DEV_M,
       rf_gates = [(''RR@10'', 1840 / 10 ^ 4), (''R@1000'', 8526 / 10 ^ 4)]\<rparr>,
      \<lparr>rf_run = ''anserini-bm25-default.dl19.trec'', rf_qrels = ''raw/trec-dl/dl19.qrels'', rf_metrics = DL_M,
       rf_gates = [(''nDCG@10'', 5058 / 10 ^ 4)]\<rparr>,
      \<lparr>rf_run = ''anserini-bm25-default.dl20.trec'', rf_qrels = ''raw/trec-dl/dl20.qrels'', rf_metrics = DL_M,
       rf_gates = [(''nDCG@10'', 4796 / 10 ^ 4)]\<rparr>] @
     map (\<lambda>(r, q, ms). \<lparr>rf_run = r, rf_qrels = q, rf_metrics = ms, rf_gates = []\<rparr>)
      [(''anserini-bm25-default.train_tune.trec'', ''subset/train_tune/qrels.tsv'', DEV_M),
       (''bm25.train50k.trec'', ''subset/train50k/qrels.tsv'', DEV_M),
       (''bm25.train50k.first10k.trec'', ''subset/train50k/qrels.first10k.tsv'', DEV_M),
       (''anserini-bm25-default-1m.dev.trec'', ''subset/1m/qrels.dev.tsv'', DEV_M),
       (''anserini-bm25-default-1m.dl19.trec'', ''subset/1m/qrels.dl19.tsv'', DL_M),
       (''anserini-bm25-default-1m.dl20.trec'', ''subset/1m/qrels.dl20.tsv'', DL_M),
       (''anserini-bm25-default-1m.train_tune.trec'', ''subset/train_tune/qrels.tsv'', DEV_M),
       (''dense-flat-1m.dev.trec'', ''subset/1m/qrels.dev.tsv'', DEV_M),
       (''dense-flat-1m.dl19.trec'', ''subset/1m/qrels.dl19.tsv'', DL_M),
       (''dense-flat-1m.dl20.trec'', ''subset/1m/qrels.dl20.tsv'', DL_M),
       (''dense-flat-1m.train_tune.trec'', ''subset/train_tune/qrels.tsv'', DEV_M)] @
     map (\<lambda>ds. \<lparr>rf_run = ''dense-flat.beir-'' @ ds @ ''.test.trec'', rf_qrels = ''raw/beir/'' @ ds @ ''/qrels/test.trec'',
        rf_metrics = [''nDCG@10'', ''R@100''], rf_gates = []\<rparr>) [''scifact'', ''nfcorpus'', ''fiqa'']"

definition gate :: "(string, real) dict \<Rightarrow> string \<times> real \<Rightarrow> (string \<times> real \<times> real \<times> bool) res" where
  "gate agg = (\<lambda>(m, want). res_bind (dlookup agg m) (\<lambda>x. let got = round_to 4 x in Inr (m, want, got, got = want)))"

definition reference_row :: "files \<Rightarrow> files \<Rightarrow> ref_run \<Rightarrow> ref_row list res" where
  "reference_row run_fs qrels_fs r =
     (case (run_fs (rf_run r), qrels_fs (rf_qrels r)) of
        (Some rf, Some qf) \<Rightarrow>
          res_bind (read_run rf) (\<lambda>run. res_bind (read_qrels qf) (\<lambda>qrels.
          res_bind (evaluate run qrels (Some (rf_metrics r))) (\<lambda>(agg, _).
          res_bind (res_map (gate agg) (rf_gates r)) (\<lambda>gs.
            Inr [\<lparr>rw_run = rf_run r, rw_queries = length qrels, rw_missing = length (filter (\<lambda>q. \<not> dhas run q) (keys qrels)),
              rw_metrics = map (\<lambda>(k, v). (k, round_to 4 v)) agg, rw_gates = dict_of gs\<rparr>]))))
      | _ \<Rightarrow> Inr [])"

definition reference_runs :: "files \<Rightarrow> files \<Rightarrow> (ref_row list \<times> bool) res" where
  "reference_runs run_fs qrels_fs =
     res_bind (res_map (reference_row run_fs qrels_fs) RUNS) (\<lambda>rows.
       Inr (concat rows, list_all (\<lambda>r. list_all (\<lambda>(_, _, _, ok). ok) (rw_gates r)) (concat rows)))"

section \<open>Both fusion paths succeed and agree\<close>

fun valid_config :: "config \<Rightarrow> bool" where
  "valid_config (Rrf_K k) = True"
| "valid_config (Wsum a n) = (0 \<le> a \<and> a \<le> 1 \<and> n \<in> set NORMALISATIONS)"

lemma weight_grid_configs: "(n, a) \<in> set weight_grid \<longleftrightarrow> Wsum a n \<in> set grid_configs"
  by (auto simp: grid_configs_def weight_grid_def)

lemma grid_configs_valid: "c \<in> set grid_configs \<Longrightarrow> valid_config c"
  by (auto simp: grid_configs_def NORMS_def NORMALISATIONS_def ALPHAS_def)

lemma sort_fused_distinct: "dict_ok sc \<Longrightarrow> distinct (map fst (sort_fused sc k))"
  by (auto simp: sort_fused_def out_take_def sort_simps distinct_take simp flip: take_map split: option.splits)

lemma normalise_total: "m \<in> set NORMALISATIONS \<Longrightarrow> \<exists>ns. normalise s m = Inr ns"
  by (auto simp: NORMALISATIONS_def normalise_def Let_def)

lemma cut_depth_DEPTH: "cut_depth r (Some DEPTH) = Inr (take (nat DEPTH) r)"
  by (simp add: cut_depth_def DEPTH_def)

lemma norm_array_total: "m \<in> set NORMALISATIONS \<Longrightarrow> \<exists>a. norm_array docs m r = Inr a"
  using normalise_total [of m "map snd r"] by (auto simp: norm_array_def)

lemma res_map_total: "(\<And>x. x \<in> set xs \<Longrightarrow> \<exists>y. f x = Inr y) \<Longrightarrow> \<exists>ys. res_map f xs = Inr ys"
  by (induction xs) auto

lemma prepare_total: "\<exists>qc. prepare so l d (Some DEPTH) = Inr qc"
proof -
  let ?docs = "py_sorted docid_key (so (map fst (take (nat DEPTH) l) @ map fst (take (nat DEPTH) d)))"
  have "\<exists>nm. res_map (\<lambda>m. res_bind (norm_array ?docs m (take (nat DEPTH) l)) (\<lambda>a.
      res_bind (norm_array ?docs m (take (nat DEPTH) d)) (\<lambda>b. Inr (m, a, b)))) NORMALISATIONS = Inr nm"
    by (rule res_map_total) (use norm_array_total in fastforce)
  then show ?thesis by (auto simp: prepare_def cut_depth_DEPTH Let_def)
qed

lemma rrf_total:
  assumes "distinct (map fst l)" and "distinct (map fst d)"
  shows "\<exists>out. rrf [l, d] (real k) (Some DEPTH) out_k = Inr out \<and> distinct (map fst out)"
proof -
  have u: "distinct (map fst (take n l))" "distinct (map fst (take n d))" for n
    using assms by (simp_all flip: take_map)
  obtain out where out: "rrf [l, d] (real k) (Some DEPTH) out_k = Inr out"
    using u check_unique_iff by (simp add: rrf_def rrf_ranking_def cut_depth_DEPTH)
  obtain sc where "dict_ok sc" "out = sort_fused sc out_k" using rrf_result [OF out] by metis
  then show ?thesis using out sort_fused_distinct by blast
qed

lemma weighted_total:
  assumes "distinct (map fst l)" and "distinct (map fst d)" and "is_set_order so" and "valid_config (Wsum a n)"
  shows "\<exists>out. weighted so l d a n (Some DEPTH) out_k = Inr out \<and> distinct (map fst out)"
proof -
  have u: "distinct (map fst (take k l))" "distinct (map fst (take k d))" for k
    using assms by (simp_all flip: take_map)
  have part: "\<exists>p. weighted_part n (Some DEPTH) r w = Inr p" if "distinct (map fst (take (nat DEPTH) r))" for r w
    using that normalise_total [of n "map snd (take (nat DEPTH) r)"] assms(4)
    by (auto simp: weighted_part_def cut_depth_DEPTH check_unique_iff take_map)
  obtain pl where pl: "weighted_part n (Some DEPTH) l (1 - a) = Inr pl" using part u(1) by blast
  obtain pd where pd: "weighted_part n (Some DEPTH) d a = Inr pd" using part u(2) by blast
  have "distinct (so xs)" for xs using assms(3) by (simp add: is_set_order_def)
  then have "distinct (map fst (sort_fused (map (\<lambda>x. (x, part_score x pl + part_score x pd)) (so xs)) out_k))" for xs
    by (intro sort_fused_distinct) (simp add: comp_def)
  then show ?thesis using pl pd assms(4) by (simp add: weighted_def Let_def)
qed

text \<open>The docids of a query can be told apart by the sort key of the fused order.\<close>

definition keys_apart :: "ranking \<Rightarrow> ranking \<Rightarrow> bool" where
  "keys_apart l d \<longleftrightarrow> inj_on docid_key (set (map fst l) \<union> set (map fst d))"

lemma fuser_fast:
  assumes "distinct (map fst l)" and "distinct (map fst d)" and so: "is_set_order so" and c: "valid_config c"
    and inj: "keys_apart l d" and qc: "prepare so l d (Some DEPTH) = Inr qc"
  obtains out where "fuser so c l d = Inr out" "fast_ranking c qc OUT_K = Inr out" "distinct (map fst out)"
proof (cases c)
  case (Rrf_K k)
  obtain out where out: "rrf [l, d] (real k) (Some DEPTH) (Some OUT_K) = Inr out" "distinct (map fst out)"
    using rrf_total [OF assms(1,2)] by blast
  have "rrf_fast qc (real k) (Some OUT_K) = out"
    by (rule rrf_fast_result [OF out(1) qc so inj [unfolded keys_apart_def]])
  then show ?thesis using out that by (simp add: Rrf_K fuser_def fast_ranking_def)
next
  case (Wsum a n)
  obtain out where out: "weighted so l d a n (Some DEPTH) (Some OUT_K) = Inr out" "distinct (map fst out)"
    using weighted_total [OF assms(1,2) so] c Wsum by blast
  have "weighted_fast qc a n (Some OUT_K) = Inr out"
    by (rule weighted_fast_result [OF out(1) qc so so inj [unfolded keys_apart_def]]) (use c Wsum in simp)
  then show ?thesis using out that by (simp add: Wsum fuser_def fast_ranking_def)
qed

lemma fast_total:
  assumes "prepare so l d (Some DEPTH) = Inr qc" and "is_set_order so" and "valid_config c"
  shows "\<exists>r. fast_ranking c qc k = Inr r"
proof (cases c)
  case (Wsum a n)
  then have "\<exists>x y. dlookup (qc_norm qc) n = Inr (x, y)"
    using prepare_Inr [OF assms(1,2)] assms(3) by (metis valid_config.simps(2))
  then show ?thesis by (auto simp: Wsum fast_ranking_def weighted_fast_def weighted_scores_def)
qed (simp add: fast_ranking_def)

section \<open>One system on one dataset\<close>

lemma prepare_all_Inr:
  obtains cands where "prepare_all so lexr denser qids = Inr cands" "keys cands = qids"
    "\<And>q qc. (q, qc) \<in> set cands \<Longrightarrow> prepare so (dget lexr q []) (dget denser q []) (Some DEPTH) = Inr qc"
proof -
  have "\<exists>cands. prepare_all so lexr denser qids = Inr cands"
    unfolding prepare_all_def by (rule res_map_total) (use prepare_total in fastforce)
  then obtain cands where c: "prepare_all so lexr denser qids = Inr cands" ..
  have "keys cands = qids"
    using c unfolding prepare_all_def by (induction qids arbitrary: cands) auto
  moreover have "prepare so (dget lexr q []) (dget denser q []) (Some DEPTH) = Inr qc" if "(q, qc) \<in> set cands" for q qc
    using res_map_Inr_set [OF c [unfolded prepare_all_def] that] by auto
  ultimately show ?thesis using c that by blast
qed

definition fused_docs :: "(docid list \<Rightarrow> docid list) \<Rightarrow> config \<Rightarrow> ranking \<Rightarrow> ranking \<Rightarrow> docid list" where
  "fused_docs so c l d = (case fuser so c l d of Inl _ \<Rightarrow> [] | Inr r \<Rightarrow> map fst r)"

definition inputs_ok :: "(qid, ranking) dict \<Rightarrow> (qid, ranking) dict \<Rightarrow> qid \<Rightarrow> bool" where
  \<comment> \<open>neither run repeats a document for the query, and no two candidates have the same sort key\<close>
  "inputs_ok lexr denser q \<longleftrightarrow>
     distinct (map fst (dget lexr q [])) \<and> distinct (map fst (dget denser q [])) \<and> keys_apart (dget lexr q []) (dget denser q [])"

lemma evaluate_any: "evaluate r qrels ns = Inr x \<Longrightarrow> \<exists>y. evaluate r' qrels ns = Inr y"
  by (auto simp: evaluate_def Let_def)

lemma write_run_exact_distinct:
  assumes "dict_ok run" and "\<And>q r. (q, r) \<in> set run \<Longrightarrow> distinct (map fst r)"
  shows "\<exists>f. write_run_exact run tag = Some (Inr (f, map (\<lambda>(q, r). (q, file_dict r)) run))"
proof -
  have "res_map (\<lambda>(q, r). if distinct (map fst r) then Inr (run_query_lines tag q r (file_dict r)) else Inl AssertionError) run
      = Inr (map (\<lambda>(q, r). run_query_lines tag q r (file_dict r)) run)"
    by (rule res_map_all_Inr) (use assms(2) in auto)
  then show ?thesis by (simp add: write_run_exact_eq [OF assms(1)])
qed

text \<open>On one dataset a system is fused, cross-checked without a mismatch, written, and evaluated in the fused order.\<close>

lemma run_system_ok:
  assumes so: "is_set_order so" and c: "valid_config c" and qr: "dict_ok qrels"
    and ok: "\<And>q. q \<in> set (keys qrels) \<Longrightarrow> inputs_ok lexr denser q"
    and cands: "keys cands = keys qrels"
      "\<And>q qc. (q, qc) \<in> set cands \<Longrightarrow> prepare so (dget lexr q []) (dget denser q []) (Some DEPTH) = Inr qc"
    and ev: "evaluate r0 qrels (Some metrics) = Inr x0"
  shows "\<exists>out. run_system so lexr denser qrels cands metrics (name, c) = Some (Inr out) \<and> so_name out = name \<and> so_mismatches out = 0 \<and>
     (\<forall>n \<in> set metrics. \<forall>m. parse_metric n = Inr m \<longrightarrow> map_of (so_per out) (m_name m) =
        Some (map (\<lambda>(q, qrel). (q, metric_value m (fused_docs so c (dget lexr q []) (dget denser q [])) qrel)) qrels))"
proof -
  let ?l = "\<lambda>q. dget lexr q []" and ?d = "\<lambda>q. dget denser q []"
  define out where "out = (\<lambda>q. case fuser so c (?l q) (?d q) of Inl _ \<Rightarrow> [] | Inr r \<Rightarrow> r)"
  have q: "fuser so c (?l q) (?d q) = Inr (out q) \<and> distinct (map fst (out q)) \<and>
      (\<exists>qc. map_of cands q = Some qc \<and> fast_ranking c qc OUT_K = Inr (out q))" if m: "q \<in> set (keys qrels)" for q
  proof -
    obtain qc where qc: "map_of cands q = Some qc" using m cands(1) by (metis map_of_eq_None_iff not_None_eq list.set_map)
    have p: "prepare so (?l q) (?d q) (Some DEPTH) = Inr qc" using cands(2) map_of_SomeD [OF qc] .
    show ?thesis using fuser_fast [OF _ _ so c _ p] ok [OF m] qc unfolding inputs_ok_def out_def by fastforce
  qed
  define fused where "fused = map (\<lambda>q. (q, out q)) (keys qrels)"
  have fok: "dict_ok fused" using qr by (simp add: fused_def comp_def)
  have fuse: "fuse_runs lexr denser (fuser so c) (Some (keys qrels)) = Inr fused"
  proof -
    have "res_map (\<lambda>q. res_bind (fuser so c (?l q) (?d q)) (\<lambda>r. Inr (q, r))) (keys qrels) = Inr fused"
      unfolding fused_def by (rule res_map_all_Inr) (use q in simp)
    then show ?thesis using fok by (simp add: fuse_runs_def dict_of_distinct)
  qed
  have "res_map (\<lambda>q. res_bind (dlookup cands q) (\<lambda>qc. res_bind (fast_ranking c qc OUT_K) (\<lambda>f.
      res_bind (dlookup fused q) (\<lambda>r. Inr (f \<noteq> r))))) (keys qrels) = Inr (map (\<lambda>q. False) (keys qrels))"
  proof (rule res_map_all_Inr)
    fix q assume m: "q \<in> set (keys qrels)"
    then have "map_of fused q = Some (out q)" using fok by (simp add: map_of_eq_Some_iff) (auto simp: fused_def)
    then show "res_bind (dlookup cands q) (\<lambda>qc. res_bind (fast_ranking c qc OUT_K) (\<lambda>f.
      res_bind (dlookup fused q) (\<lambda>r. Inr (f \<noteq> r)))) = Inr False"
      using q [OF m] by (auto simp: dlookup_def)
  qed
  then have check: "cross_check c cands fused (keys qrels) = Inr 0" by (simp add: cross_check_def filter_empty_conv)
  obtain f where w: "write_run_exact fused (''m4-'' @ name) = Some (Inr (f, map (\<lambda>(q, r). (q, file_dict r)) fused))"
    using write_run_exact_distinct [OF fok] q by (fastforce simp: fused_def)
  let ?scores = "map (\<lambda>(q, r). (q, file_dict r)) fused"
  obtain agg pq where e: "evaluate ?scores qrels (Some metrics) = Inr (agg, pq)"
    using evaluate_any [OF ev] by (metis surj_pair)
  have rank: "rank_run (dget ?scores q []) = map fst (out q)" if m: "q \<in> set (keys qrels)" for q
  proof -
    have "dget ?scores q [] = file_dict (out q)"
      using m qr by (intro dget_present) (auto simp: fused_def comp_def)
    then show ?thesis using rank_file_dict q [OF m] by simp
  qed
  have docs: "fused_docs so c (?l q) (?d q) = map fst (out q)" if m: "q \<in> set (keys qrels)" for q
    using q [OF m] by (simp add: fused_docs_def)
  have "map_of pq (m_name m) = Some (map (\<lambda>(q, qrel). (q, metric_value m (fused_docs so c (?l q) (?d q)) qrel)) qrels)"
    if "n \<in> set metrics" "parse_metric n = Inr m" for n m
  proof -
    have "rank_run (dget ?scores (fst p) []) = fused_docs so c (?l (fst p)) (?d (fst p))" if "p \<in> set qrels" for p
      using that rank docs by simp
    then show ?thesis unfolding evaluate_metric(1) [OF e qr that] case_prod_unfold by (simp cong: map_cong)
  qed
  then show ?thesis using check w e by (auto simp: run_system_def fuse write_eval_def)
qed

section \<open>The held-out evaluation\<close>

definition is_first_best :: "('a \<Rightarrow> real) \<Rightarrow> 'a list \<Rightarrow> 'a \<Rightarrow> bool" where
  \<comment> \<open>the first of the elements with the largest value\<close>
  "is_first_best f xs r \<longleftrightarrow> (\<exists>pre post. xs = pre @ r # post \<and> (\<forall>y \<in> set pre. f y < f r)) \<and> (\<forall>y \<in> set xs. f y \<le> f r)"

lemma is_first_best_snoc:
  assumes "is_first_best f xs r"
  shows "is_first_best f (xs @ [x]) (if f r < f x then x else r)"
proof (cases "f r < f x")
  case True
  then have "\<forall>y \<in> set xs. f y < f x" using assms by (auto simp: is_first_best_def intro: le_less_trans)
  then have "is_first_best f (xs @ [x]) x" unfolding is_first_best_def by (intro conjI exI [of _ xs] exI [of _ "[]"]) auto
  then show ?thesis using True by simp
next
  case False
  obtain pre post where "xs = pre @ r # post" "\<forall>y \<in> set pre. f y < f r" "\<forall>y \<in> set xs. f y \<le> f r"
    using assms unfolding is_first_best_def by blast
  then have "is_first_best f (xs @ [x]) r"
    using False unfolding is_first_best_def by (intro conjI exI [of _ pre] exI [of _ "post @ [x]"]) auto
  then show ?thesis using False by simp
qed

lemma first_best_fold: "is_first_best f (b # ys) (foldl (\<lambda>b x. if f b < f x then x else b) b ys)"
proof (induction ys rule: rev_induct)
  case Nil
  have "[b] = [] @ b # []" by simp
  then show ?case unfolding is_first_best_def by fastforce
next
  case (snoc y ys)
  from is_first_best_snoc [OF this, of y] show ?case by simp
qed

lemma first_best: "xs \<noteq> [] \<Longrightarrow> is_first_best f xs (first_best f xs)"
  using first_best_fold [of f "hd xs" "tl xs"] by (simp add: first_best_def)

lemma is_first_best_cong:
  assumes "is_first_best f xs r" and "\<And>x. x \<in> set xs \<Longrightarrow> h x = f x"
  shows "is_first_best h xs r"
proof -
  obtain pre post where p: "xs = pre @ r # post" "\<forall>y \<in> set pre. f y < f r" "\<forall>y \<in> set xs. f y \<le> f r"
    using assms(1) unfolding is_first_best_def by blast
  then have "\<forall>y \<in> set pre. h y < h r" "\<forall>y \<in> set xs. h y \<le> h r" using assms(2) by auto
  then show ?thesis unfolding is_first_best_def using p(1) by blast
qed

lemma is_first_best_mem: "is_first_best f xs r \<Longrightarrow> r \<in> set xs"
  unfolding is_first_best_def by (metis in_set_conv_decomp)

lemma choose_params_best:
  assumes "choose_params g = (k, n, a)"
  shows "is_first_best (\<lambda>k. score_of g ''RR@10'' (Rrf_K k)) RRF_KS k"
    and "is_first_best (\<lambda>(n, a). score_of g ''RR@10'' (Wsum a n)) weight_grid (n, a)"
proof -
  have ne: "RRF_KS \<noteq> []" "weight_grid \<noteq> []" by (simp_all add: RRF_KS_def weight_grid_def NORMS_def ALPHAS_def)
  have e: "k = first_best (\<lambda>k. score_of g ''RR@10'' (Rrf_K k)) RRF_KS"
    "(n, a) = first_best (\<lambda>(n, a). score_of g ''RR@10'' (Wsum a n)) weight_grid"
    using assms by (simp_all add: choose_params_def split: prod.splits)
  show "is_first_best (\<lambda>k. score_of g ''RR@10'' (Rrf_K k)) RRF_KS k" unfolding e(1) by (rule first_best [OF ne(1)])
  show "is_first_best (\<lambda>(n, a). score_of g ''RR@10'' (Wsum a n)) weight_grid (n, a)" unfolding e(2) by (rule first_best [OF ne(2)])
qed

lemma choose_params_grid:
  assumes "choose_params g = (k, n, a)"
  shows "k \<in> set RRF_KS" and "n \<in> set NORMS" and "a \<in> set ALPHAS"
proof -
  show "k \<in> set RRF_KS" by (rule is_first_best_mem [OF choose_params_best(1) [OF assms]])
  have "(n, a) \<in> set weight_grid" by (rule is_first_best_mem [OF choose_params_best(2) [OF assms]])
  then show "n \<in> set NORMS" "a \<in> set ALPHAS" by (auto simp: weight_grid_def)
qed

text \<open>On the tuning metrics the sweep cuts at \<open>OUT_K\<close>, so its value is that of the reference fusion.\<close>

definition mean_rr10 :: "(docid list \<Rightarrow> docid list) \<Rightarrow> (qid, ranking) dict \<Rightarrow> (qid, ranking) dict \<Rightarrow> qrels \<Rightarrow> config \<Rightarrow> real" where
  \<comment> \<open>the mean RR@10 of the reference fusion\<close>
  "mean_rr10 so lexr denser qrels c =
     mean (map (\<lambda>(q, qrel). mrr_at_k (fused_docs so c (dget lexr q []) (dget denser q [])) qrel 10 1) qrels)"

lemma tuning_parsed:
  "res_map parse_metric tuning_metrics =
     Inr [\<lparr>m_name = ''RR@10'', m_kind = KRR, m_k = 10, m_rel = 1\<rparr>, \<lparr>m_name = ''R@1000'', m_kind = KR, m_k = 1000, m_rel = 1\<rparr>]"
  unfolding tuning_metrics_def by code_simp

lemma sweep_ranked_fused:
  assumes "map_of cands q = Some qc" and "prepare so (dget lexr q []) (dget denser q []) (Some DEPTH) = Inr qc"
    and "is_set_order so" and "valid_config c" and "inputs_ok lexr denser q"
  shows "sweep_ranked cands OUT_K c q = Inr (fused_docs so c (dget lexr q []) (dget denser q []))"
proof -
  obtain out where "fuser so c (dget lexr q []) (dget denser q []) = Inr out" "fast_ranking c qc OUT_K = Inr out"
    using fuser_fast [OF _ _ assms(3,4) _ assms(2)] assms(5) unfolding inputs_ok_def by metis
  then show ?thesis by (simp add: sweep_ranked_def fused_docs_def assms(1))
qed

lemma sweep_tuning:
  assumes sw: "sweep cands qrels tuning_metrics = Inr g" and so: "is_set_order so" and ne: "qrels \<noteq> []"
    and ok: "\<And>q. q \<in> set (keys qrels) \<Longrightarrow> inputs_ok lexr denser q"
    and cands: "keys cands = keys qrels"
      "\<And>q qc. (q, qc) \<in> set cands \<Longrightarrow> prepare so (dget lexr q []) (dget denser q []) (Some DEPTH) = Inr qc"
    and c: "c \<in> set grid_configs"
  shows "score_of g ''RR@10'' c = mean_rr10 so lexr denser qrels c"
proof -
  let ?ms = "[\<lparr>m_name = ''RR@10'', m_kind = KRR, m_k = 10, m_rel = 1\<rparr>, \<lparr>m_name = ''R@1000'', m_kind = KR, m_k = 1000, m_rel = 1\<rparr>]"
  let ?f = "\<lambda>c q. fused_docs so c (dget lexr q []) (dget denser q [])"
  define rs where "rs = (\<lambda>c. map (\<lambda>(q, qrel). (?f c q, qrel)) qrels)"
  define V where "V = (\<lambda>c. dict_of (map (\<lambda>m. (m_name m, nan_mean (map (\<lambda>(r, qrel). metric_value m r qrel) (rs c)))) ?ms))"
  have need: "Max (set (map m_k ?ms)) = OUT_K" by (simp add: OUT_K_def)
  have "res_map (\<lambda>(q, qrel). res_bind (sweep_ranked cands OUT_K c q) (\<lambda>r. Inr (r, qrel))) qrels = Inr (rs c)"
    if "c \<in> set grid_configs" for c
    unfolding rs_def
  proof (rule res_map_all_Inr)
    fix p assume p: "p \<in> set qrels"
    obtain q qrel where e: "p = (q, qrel)" by (cases p)
    have m: "q \<in> set (keys qrels)" using p e by force
    then obtain qc where "map_of cands q = Some qc" using cands(1) by (metis map_of_eq_None_iff not_None_eq list.set_map)
    then show "(case p of (q, qrel) \<Rightarrow> res_bind (sweep_ranked cands OUT_K c q) (\<lambda>r. Inr (r, qrel))) = Inr (case p of (q, qrel) \<Rightarrow> (?f c q, qrel))"
      using sweep_ranked_fused [OF _ cands(2) so grid_configs_valid [OF that] ok [OF m]] by (simp add: e map_of_SomeD)
  qed
  then have "res_map (\<lambda>c. res_bind (res_map (\<lambda>(q, qrel). res_bind (sweep_ranked cands OUT_K c q) (\<lambda>r. Inr (r, qrel))) qrels)
      (\<lambda>rs. Inr (c, dict_of (map (\<lambda>m. (m_name m, nan_mean (map (\<lambda>(r, qrel). metric_value m r qrel) rs))) ?ms)))) grid_configs
    = Inr (map (\<lambda>c. (c, V c)) grid_configs)"
    by (intro res_map_all_Inr) (simp add: V_def)
  then have g: "g = map (\<lambda>c. (c, V c)) grid_configs"
    using sw unfolding sweep_def tuning_parsed res_bind.simps need Let_def by simp
  have "dget g c [] = V c" using c by (simp add: g dget_def map_of_map_restrict)
  moreover have "rs c \<noteq> []" using ne by (simp add: rs_def)
  ultimately show ?thesis
    by (simp add: score_of_def V_def dict_of_distinct nan_mean_def mean_rr10_def rs_def metric_value_def comp_def case_prod_unfold)
qed

lemma sweep_total:
  assumes "res_map parse_metric names = Inr ms" and "ms \<noteq> []" and so: "is_set_order so"
    and cands: "\<And>q qc. (q, qc) \<in> set cands \<Longrightarrow> prepare so (dget lexr q []) (dget denser q []) (Some DEPTH) = Inr qc"
  shows "\<exists>g. sweep cands qrels names = Inr g"
proof -
  have r: "\<exists>r. sweep_ranked cands need c q = Inr r" if c: "c \<in> set grid_configs" for need c q
  proof (cases "map_of cands q")
    case (Some qc)
    then show ?thesis using fast_total [OF cands [OF map_of_SomeD] so grid_configs_valid [OF c]] by (fastforce simp: sweep_ranked_def)
  qed (simp add: sweep_ranked_def)
  have "\<exists>rs. res_map (\<lambda>(q, qrel). res_bind (sweep_ranked cands need c q) (\<lambda>r. Inr (r, qrel))) qrels = Inr rs"
    if "c \<in> set grid_configs" for need c by (rule res_map_total) (use r [OF that] in fastforce)
  then have "\<exists>g. res_map (\<lambda>c. res_bind (res_map (\<lambda>(q, qrel). res_bind (sweep_ranked cands (Max (set (map m_k ms))) c q) (\<lambda>r. Inr (r, qrel))) qrels)
      (\<lambda>rs. Inr (c, dict_of (map (\<lambda>m. (m_name m, nan_mean (map (\<lambda>(r, qrel). metric_value m r qrel) rs))) ms)))) grid_configs = Inr g"
    by (intro res_map_total) fastforce
  then show ?thesis using assms(1,2) by (simp add: sweep_def Let_def)
qed

lemma tune_total:
  assumes "load_inputs fs TUNE = Inr (lexr, denser, qrels)" and "is_set_order so"
    and "single_run fs qrels tuning_metrics (run_path (fst TUNE)) = Inr b"
    and "single_run fs qrels tuning_metrics (run_path (fst (snd TUNE))) = Inr d"
  shows "\<exists>t. tune so fs = Inr t"
proof -
  obtain cands where "prepare_all so lexr denser (keys qrels) = Inr cands"
    "\<And>q qc. (q, qc) \<in> set cands \<Longrightarrow> prepare so (dget lexr q []) (dget denser q []) (Some DEPTH) = Inr qc"
    using prepare_all_Inr by metis
  moreover from sweep_total [OF tuning_parsed _ assms(2) this(2)] obtain g where "sweep cands qrels tuning_metrics = Inr g" by auto
  ultimately show ?thesis using assms by (simp add: tune_def case_prod_unfold Let_def)
qed

text \<open>C28: the parameters tuned on the training queries are the first ones in grid order whose reference fusion
  (not the vectorised path they were found with) has the largest mean RR@10 on those queries, and they are
  computed from the tuning files alone: two file systems that agree on these give the same parameters.  There is a
  judged query, and no query has a list in which a document repeats or a tied score that cannot be ordered (\<open>inputs_ok\<close>).\<close>

theorem tuning_maximises_reference:
  assumes t: "tune so fs = Inr t" and l: "load_inputs fs TUNE = Inr (lexr, denser, qrels)"
    and so: "is_set_order so" and ne: "qrels \<noteq> []" and ok: "\<And>q. q \<in> set (keys qrels) \<Longrightarrow> inputs_ok lexr denser q"
    and same: "\<And>p. p \<in> {run_path (fst TUNE), run_path (fst (snd TUNE)), snd (snd TUNE)} \<Longrightarrow> fs' p = fs p"
  shows "is_first_best (\<lambda>k. mean_rr10 so lexr denser qrels (Rrf_K k)) RRF_KS (tu_k t) \<and>
     is_first_best (\<lambda>(n, a). mean_rr10 so lexr denser qrels (Wsum a n)) weight_grid (tu_norm t, tu_alpha t) \<and>
     tune so fs' = Inr t"
proof -
  obtain cands where cands: "prepare_all so lexr denser (keys qrels) = Inr cands" "keys cands = keys qrels"
    "\<And>q qc. (q, qc) \<in> set cands \<Longrightarrow> prepare so (dget lexr q []) (dget denser q []) (Some DEPTH) = Inr qc"
    using prepare_all_Inr by metis
  obtain g where g: "sweep cands qrels tuning_metrics = Inr g" "choose_params g = (tu_k t, tu_norm t, tu_alpha t)"
  proof -
    obtain g b d where g: "sweep cands qrels tuning_metrics = Inr g"
      "t = (let (k, n, a) = choose_params g in \<lparr>tu_grid = g, tu_k = k, tu_norm = n, tu_alpha = a, tu_single = [(''bm25'', b), (''dense'', d)]\<rparr>)"
      using t l cands(1) by (auto simp: tune_def case_prod_unfold Let_def)
    then have "choose_params g = (tu_k t, tu_norm t, tu_alpha t)" by (simp add: case_prod_unfold Let_def)
    then show ?thesis using g(1) that by blast
  qed
  have v: "score_of g ''RR@10'' c = mean_rr10 so lexr denser qrels c" if "c \<in> set grid_configs" for c
    by (rule sweep_tuning [OF g(1) so ne ok cands(2,3) that])
  have k: "is_first_best (\<lambda>k. score_of g ''RR@10'' (Rrf_K k)) RRF_KS (tu_k t)"
    and w: "is_first_best (\<lambda>(n, a). score_of g ''RR@10'' (Wsum a n)) weight_grid (tu_norm t, tu_alpha t)"
    using choose_params_best [OF g(2)] .
  have "is_first_best (\<lambda>k. mean_rr10 so lexr denser qrels (Rrf_K k)) RRF_KS (tu_k t)"
    by (rule is_first_best_cong [OF k]) (simp add: v grid_configs_def)
  moreover have "is_first_best (\<lambda>(n, a). mean_rr10 so lexr denser qrels (Wsum a n)) weight_grid (tu_norm t, tu_alpha t)"
    by (rule is_first_best_cong [OF w]) (auto intro!: v [symmetric] simp: weight_grid_configs)
  moreover have "tune so fs' = tune so fs"
    using same by (simp add: tune_def load_inputs_def single_run_def read_file_def TUNE_def)
  ultimately show ?thesis using t by simp
qed

lemma read_qrels_ok: "read_qrels f = Inr q \<Longrightarrow> dict_ok q"
  unfolding read_qrels_def
  by (rule res_fold_invariant) (auto simp: read_qrels_line_def add_nested_def split: list.splits)

lemma div_map_total:
  assumes "\<And>x. x \<in> set xs \<Longrightarrow> \<exists>y. f x = Some (Inr y) \<and> P x y"
  shows "\<exists>ys. div_map f xs = Some (Inr ys) \<and> list_all2 P xs ys"
  using assms
proof (induction xs)
  case (Cons x xs)
  obtain y ys where "f x = Some (Inr y)" "P x y" "div_map f xs = Some (Inr ys)" "list_all2 P xs ys"
    using Cons.IH Cons.prems by fastforce
  then show ?case by simp
qed simp

text \<open>C29: on a held-out set the cross-check of the two fusion paths never fails.  Whatever parameters the
  tuning chose, if the run files repeat no document for a judged query and their docids are told apart by the
  sort key, the evaluation of all three systems returns without a mismatch, and the metrics recorded for a
  system are those of the documents in the order of the reference fusion, query by query.\<close>

theorem cross_check_passes:
  assumes g: "choose_params g = (k, n, a)" and so: "is_set_order so"
    and l: "load_inputs fs (sp_lex sp, sp_dense sp, sp_qrels sp) = Inr (lexr, denser, qrels)"
    and ok: "\<And>q. q \<in> set (keys qrels) \<Longrightarrow> inputs_ok lexr denser q"
    and b: "single_run fs qrels (sp_metrics sp) (run_path (sp_lex sp)) = Inr b"
    and d: "single_run fs qrels (sp_metrics sp) (run_path (sp_dense sp)) = Inr d"
    and prim: "sp_primary sp \<in> set (sp_metrics sp)"
  shows "\<exists>h. evaluate_held_out so fs (systems_of k n a) sp = Some (Inr h) \<and> ho_mismatches h = 0 \<and>
     (\<forall>(name, c) \<in> set (systems_of k n a). \<exists>pq. map_of (ho_per_query h) name = Some pq \<and>
        (\<forall>metric \<in> set (sp_metrics sp). \<forall>m. parse_metric metric = Inr m \<longrightarrow> map_of pq (m_name m) =
           Some (map (\<lambda>(q, qrel). (q, metric_value m (fused_docs so c (dget lexr q []) (dget denser q [])) qrel)) qrels)))"
proof -
  have qr: "dict_ok qrels" using l by (auto simp: load_inputs_def intro: read_qrels_ok)
  obtain cands where cands: "prepare_all so lexr denser (keys qrels) = Inr cands" "keys cands = keys qrels"
    "\<And>q qc. (q, qc) \<in> set cands \<Longrightarrow> prepare so (dget lexr q []) (dget denser q []) (Some DEPTH) = Inr qc"
    using prepare_all_Inr by metis
  obtain r0 where ev: "evaluate r0 qrels (Some (sp_metrics sp)) = Inr b" using b by (auto simp: single_run_def)
  have valid: "valid_config c" if "(name, c) \<in> set (systems_of k n a)" for name c
    using that choose_params_grid(2,3) [OF g] by (auto simp: systems_of_def NORMS_def NORMALISATIONS_def ALPHAS_def)
  let ?P = "\<lambda>(name, c) out. so_name out = name \<and> so_mismatches out = 0 \<and>
     (\<forall>n \<in> set (sp_metrics sp). \<forall>m. parse_metric n = Inr m \<longrightarrow> map_of (so_per out) (m_name m) =
        Some (map (\<lambda>(q, qrel). (q, metric_value m (fused_docs so c (dget lexr q []) (dget denser q [])) qrel)) qrels))"
  have "\<exists>outs. div_map (run_system so lexr denser qrels cands (sp_metrics sp)) (systems_of k n a) = Some (Inr outs) \<and>
      list_all2 ?P (systems_of k n a) outs"
    by (rule div_map_total) (use run_system_ok [OF so valid qr ok cands(2,3) ev] in fastforce)
  then obtain o1 o2 o3 where outs: "div_map (run_system so lexr denser qrels cands (sp_metrics sp)) (systems_of k n a) = Some (Inr [o1, o2, o3])"
    and P: "?P (''rrf_tuned'', Rrf_K k) o1" "?P (''rrf_k60'', Rrf_K 60) o2" "?P (''wsum_tuned'', Wsum a n) o3"
    by (auto simp: systems_of_def list_all2_Cons1)
  have "\<exists>m. parse_metric (sp_primary sp) = Inr m"
  proof -
    obtain ms where "res_map parse_metric (sp_metrics sp) = Inr ms"
      using ev prim by (auto simp: evaluate_def Let_def split: if_splits)
    then show ?thesis using prim by (metis in_set_conv_nth res_map_Inr_nth)
  qed
  then obtain m where "res_map parse_metric [sp_primary sp] = Inr [m]" by auto
  from sweep_total [OF this _ so cands(3)] obtain g' where g': "sweep cands qrels [sp_primary sp] = Inr g'" by auto
  obtain ba bp da dp where bd: "b = (ba, bp)" "d = (da, dp)" by (cases b; cases d)
  let ?sys = "systems_of k n a"
  obtain h where h: "evaluate_held_out so fs ?sys sp = Some (Inr h)" "ho_mismatches h = 0"
      "ho_per_query h = [(''bm25'', bp), (''dense'', dp)] @ [(so_name o1, so_per o1), (so_name o2, so_per o2), (so_name o3, so_per o3)]"
    using P by (simp add: evaluate_held_out_def l b d bd cands(1) outs g')
  have "\<forall>(name, c) \<in> set ?sys. \<exists>pq. map_of (ho_per_query h) name = Some pq \<and>
        (\<forall>metric \<in> set (sp_metrics sp). \<forall>m. parse_metric metric = Inr m \<longrightarrow> map_of pq (m_name m) =
           Some (map (\<lambda>(q, qrel). (q, metric_value m (fused_docs so c (dget lexr q []) (dget denser q [])) qrel)) qrels))"
    using P unfolding h(3) by (simp add: systems_of_def)
  then show ?thesis using h(1,2) by blast
qed

definition demo_lex :: string where "demo_lex = ''1 Q0 7 1 2 t''"
definition demo_dense :: string where "demo_dense = ''1 Q0 8 1 3 t''"
definition demo_qrels :: string where "demo_qrels = ''1 0 8 1''"

definition demo_files :: files where
  "demo_files p =
     (if p = run_path (fst TUNE) \<or> p = run_path (sp_lex (beir_spec ''fiqa'')) then Some demo_lex
      else if p = run_path (fst (snd TUNE)) \<or> p = run_path (sp_dense (beir_spec ''fiqa'')) then Some demo_dense
      else if p = snd (snd TUNE) \<or> p = sp_qrels (beir_spec ''fiqa'') then Some demo_qrels else None)"

lemma demo_contents:
  "read_run_ranked demo_lex = Inr [(''1'', [(''7'', 2)])]" "read_run_ranked demo_dense = Inr [(''1'', [(''8'', 3)])]"
  "read_qrels demo_qrels = Inr [(''1'', [(''8'', 1)])]"
  "read_run demo_lex = Inr [(''1'', [(''7'', 2)])]" "read_run demo_dense = Inr [(''1'', [(''8'', 3)])]"
  unfolding demo_lex_def demo_dense_def demo_qrels_def by code_simp+

lemma demo_read:
  "read_file demo_files (run_path (fst TUNE)) = Inr demo_lex"
  "read_file demo_files (run_path (fst (snd TUNE))) = Inr demo_dense"
  "read_file demo_files (snd (snd TUNE)) = Inr demo_qrels"
  "read_file demo_files (run_path (sp_lex (beir_spec ''fiqa''))) = Inr demo_lex"
  "read_file demo_files (run_path (sp_dense (beir_spec ''fiqa''))) = Inr demo_dense"
  "read_file demo_files (sp_qrels (beir_spec ''fiqa'')) = Inr demo_qrels"
  by (simp_all add: read_file_def demo_files_def run_path_def TUNE_def beir_spec_def)

lemma demo_load:
  "load_inputs demo_files TUNE = Inr ([(''1'', [(''7'', 2)])], [(''1'', [(''8'', 3)])], [(''1'', [(''8'', 1)])])"
  "load_inputs demo_files (sp_lex (beir_spec ''fiqa''), sp_dense (beir_spec ''fiqa''), sp_qrels (beir_spec ''fiqa'')) =
     Inr ([(''1'', [(''7'', 2)])], [(''1'', [(''8'', 3)])], [(''1'', [(''8'', 1)])])"
  by (simp_all add: load_inputs_def case_prod_unfold demo_read demo_contents)

lemma study_inputs_ok: "inputs_ok [(''1'', [(''7'', 2)])] [(''1'', [(''8'', 3)])] ''1''"
  by (simp add: inputs_ok_def keys_apart_def docid_key_def isdigit_def is_digit_char_def code_def nat_of_digits_def)

theorem tuning_maximises_reference_witness:
  "\<exists>t. tune remdups demo_files = Inr t \<and> is_first_best (\<lambda>k. mean_rr10 remdups [(''1'', [(''7'', 2)])] [(''1'', [(''8'', 3)])]
     [(''1'', [(''8'', 1)])] (Rrf_K k)) RRF_KS (tu_k t)"
proof -
  obtain b d where "single_run demo_files [(''1'', [(''8'', 1)])] tuning_metrics (run_path (fst TUNE)) = Inr b"
    "single_run demo_files [(''1'', [(''8'', 1)])] tuning_metrics (run_path (fst (snd TUNE))) = Inr d"
    using tuning_parsed by (simp add: single_run_def demo_read demo_contents evaluate_def tuning_metrics_def Let_def)
  then obtain t where t: "tune remdups demo_files = Inr t" using tune_total [OF demo_load(1) is_set_order_remdups] by blast
  show ?thesis
    by (intro exI [of _ t] conjI t
        tuning_maximises_reference [OF t demo_load(1) is_set_order_remdups _ _ refl, THEN conjunct1])
      (simp_all add: study_inputs_ok)
qed

theorem cross_check_passes_witness:
  "\<exists>h. evaluate_held_out remdups demo_files (systems_of 10 ''minmax'' (1 / 10)) (beir_spec ''fiqa'') = Some (Inr h) \<and> ho_mismatches h = 0"
proof -
  have g: "choose_params [] = (10, ''minmax'', 1 / 10)"
    by (simp add: choose_params_def score_of_def first_best_def RRF_KS_def weight_grid_def NORMS_def ALPHAS_def upt_rec)
  have "res_map parse_metric [''nDCG@10'', ''R@100''] =
      Inr [\<lparr>m_name = ''nDCG@10'', m_kind = KNDCG, m_k = 10, m_rel = 1\<rparr>, \<lparr>m_name = ''R@100'', m_kind = KR, m_k = 100, m_rel = 1\<rparr>]"
    by code_simp
  then have "\<exists>x. evaluate r qs (Some (sp_metrics (beir_spec ''fiqa''))) = Inr x" for r qs
    by (simp add: evaluate_def beir_spec_def Let_def)
  then obtain b d where b: "single_run demo_files [(''1'', [(''8'', 1)])] (sp_metrics (beir_spec ''fiqa'')) (run_path (sp_lex (beir_spec ''fiqa''))) = Inr b"
    and d: "single_run demo_files [(''1'', [(''8'', 1)])] (sp_metrics (beir_spec ''fiqa'')) (run_path (sp_dense (beir_spec ''fiqa''))) = Inr d"
    unfolding single_run_def demo_read res_bind.simps demo_contents by blast
  have "sp_primary (beir_spec ''fiqa'') \<in> set (sp_metrics (beir_spec ''fiqa''))" by (simp add: beir_spec_def)
  from cross_check_passes [OF g is_set_order_remdups demo_load(2) _ b d this] show ?thesis by (auto simp: study_inputs_ok)
qed

end
