(* ===== verification/Json.thy ===== *)
theory Json
  imports Py_Float
begin

text \<open>
  The parts of Python's \<open>json\<close> module the code uses: \<open>json.dumps\<close> with its separators and \<open>json.loads\<close>.
  The encoder writes ASCII (\<open>ensure_ascii\<close>), on one line or indented, and the text of a float is an argument (\<open>float.__repr__\<close>).
  The decoder is the scanner of the standard library; it recurses with fuel, and twice the length of
  the text is always enough (\<open>loads_total\<close>).  An escape above \<open>\u00FF\<close> is outside the characters of the
  model.  The lemmas show that a value is read back as it was written, in both layouts, when the text of its
  floats is, and that the text of a value without floats is one line of printable ASCII.
\<close>

section \<open>Values and their text\<close>

datatype json =
    JNull
  | JBool bool
  | JInt int
  | JFloat real
  | JSpecial string \<comment> \<open>\<open>NaN\<close>, \<open>Infinity\<close> and \<open>-Infinity\<close>\<close>
  | JStr string
  | JArr "json list"
  | JObj "(string \<times> json) list"

definition json_char :: "char \<Rightarrow> string" where
  \<comment> \<open>the escapes of \<open>json.dumps\<close> for code points below 256\<close>
  "json_char ch =
     (let n = code ch; hex = (\<lambda>d. ''0123456789abcdef'' ! d) in
      if n = 34 then [char_of (92 :: nat), ch] else if n = 92 then [ch, ch]
      else if n = 8 then [char_of (92 :: nat), CHR ''b''] else if n = 9 then [char_of (92 :: nat), CHR ''t'']
      else if n = 10 then [char_of (92 :: nat), CHR ''n''] else if n = 12 then [char_of (92 :: nat), CHR ''f'']
      else if n = 13 then [char_of (92 :: nat), CHR ''r'']
      else if 32 \<le> n \<and> n < 127 then [ch]
      else char_of (92 :: nat) # ''u00'' @ [hex (n div 16), hex (n mod 16)])"

definition json_string :: "string \<Rightarrow> string" where
  "json_string s = char_of (34 :: nat) # concat (map json_char s) @ [char_of (34 :: nat)]"

definition json_list :: "string list \<Rightarrow> string" where
  "json_list xs = ''['' @ join_with '', '' xs @ '']''"

fun dumps :: "string \<Rightarrow> string \<Rightarrow> (real \<Rightarrow> string) \<Rightarrow> json \<Rightarrow> string" where
  \<comment> \<open>\<open>json.dumps(v, separators=(i, k))\<close> with \<open>float.__repr__\<close>\<close>
  "dumps i k rp JNull = ''null''"
| "dumps i k rp (JBool b) = (if b then ''true'' else ''false'')"
| "dumps i k rp (JInt n) = str_int n"
| "dumps i k rp (JFloat x) = rp x"
| "dumps i k rp (JSpecial s) = s"
| "dumps i k rp (JStr s) = json_string s"
| "dumps i k rp (JArr vs) = ''['' @ join_with i (map (dumps i k rp) vs) @ '']''"
| "dumps i k rp (JObj fs) = ''{'' @ join_with i (map (\<lambda>(key, v). json_string key @ k @ dumps i k rp v) fs) @ ''}''"

definition margin :: "nat \<Rightarrow> string" where
  "margin l = char_of (10 :: nat) # replicate (2 * l) (CHR '' '')"

fun dumps_indent :: "(real \<Rightarrow> string) \<Rightarrow> nat \<Rightarrow> json \<Rightarrow> string" where
  \<comment> \<open>\<open>json.dumps(v, indent=2)\<close>, inside \<open>l\<close> levels\<close>
  "dumps_indent rp l (JArr vs) =
     (if vs = [] then ''[]''
      else ''['' @ margin (Suc l) @ join_with ('','' @ margin (Suc l)) (map (dumps_indent rp (Suc l)) vs) @ margin l @ '']'')"
| "dumps_indent rp l (JObj fs) =
     (if fs = [] then ''{}''
      else ''{'' @ margin (Suc l) @
        join_with ('','' @ margin (Suc l)) (map (\<lambda>(key, v). json_string key @ '': '' @ dumps_indent rp (Suc l) v) fs) @ margin l @ ''}'')"
| "dumps_indent rp l v = dumps '', '' '': '' rp v"

section \<open>The scanner\<close>

definition is_json_ws :: "char \<Rightarrow> bool" where
  "is_json_ws c = (code c \<in> {9, 10, 13, 32})"

definition skip_ws :: "string \<Rightarrow> string" where
  "skip_ws s = dropWhile is_json_ws s"

definition hex_value :: "char \<Rightarrow> nat option" where
  "hex_value c =
     (let n = code c in
      if 48 \<le> n \<and> n \<le> 57 then Some (n - 48) else if 97 \<le> n \<and> n \<le> 102 then Some (n - 87)
      else if 65 \<le> n \<and> n \<le> 70 then Some (n - 55) else None)"

definition hex4 :: "string \<Rightarrow> nat option" where
  \<comment> \<open>the four digits of a \<open>\u\<close> escape, below 256\<close>
  "hex4 s =
     (case s of
        a # b # c # d # r \<Rightarrow>
          (case (hex_value a, hex_value b, hex_value c, hex_value d) of
             (Some 0, Some 0, Some x, Some y) \<Rightarrow> Some (16 * x + y)
           | _ \<Rightarrow> None)
      | _ \<Rightarrow> None)"

definition unescape :: "char \<Rightarrow> char option" where
  "unescape e =
     (if code e \<in> {34, 47, 92} then Some e
      else map_of [(CHR ''b'', char_of (8 :: nat)), (CHR ''f'', char_of (12 :: nat)), (CHR ''n'', char_of (10 :: nat)),
             (CHR ''r'', char_of (13 :: nat)), (CHR ''t'', char_of (9 :: nat))] e)"

definition push_char :: "char \<Rightarrow> (string \<times> string) res \<Rightarrow> (string \<times> string) res" where
  "push_char c x = res_bind x (\<lambda>(s, r). Inr (c # s, r))"

function scan_str :: "string \<Rightarrow> (string \<times> string) res" where
  \<comment> \<open>after the opening quote: the string and the text after the closing one\<close>
  "scan_str [] = Inl ValueError"
| "scan_str (c # r) =
     (if code c = 34 then Inr ([], r)
      else if code c < 32 then Inl ValueError
      else if code c \<noteq> 92 then push_char c (scan_str r)
      else
        (case r of
           [] \<Rightarrow> Inl ValueError
         | e # r' \<Rightarrow>
             if e = CHR ''u'' then
               (case hex4 r' of None \<Rightarrow> Inl ValueError | Some n \<Rightarrow> push_char (char_of n) (scan_str (drop 4 r')))
             else (case unescape e of None \<Rightarrow> Inl ValueError | Some x \<Rightarrow> push_char x (scan_str r'))))"
  by pat_completeness auto
termination by (relation "measure length") auto

definition digits :: "string \<Rightarrow> string \<times> string" where
  "digits s = (takeWhile is_digit_char s, dropWhile is_digit_char s)"

definition scan_digits :: "string \<Rightarrow> (string \<times> string) option" where
  \<comment> \<open>\<open>0|[1-9]\d*\<close>\<close>
  "scan_digits s =
     (case s of
        [] \<Rightarrow> None
      | c # r \<Rightarrow> if c = CHR ''0'' then Some ([c], r) else if is_digit_char c then Some (digits s) else None)"

definition scan_int :: "string \<Rightarrow> (string \<times> string) option" where
  \<comment> \<open>\<open>-?(?:0|[1-9]\d*)\<close>\<close>
  "scan_int s =
     (if s \<noteq> [] \<and> hd s = CHR ''-'' then map_option (\<lambda>(d, r). (CHR ''-'' # d, r)) (scan_digits (tl s)) else scan_digits s)"

definition scan_frac :: "string \<Rightarrow> string \<times> string" where
  \<comment> \<open>\<open>(\.\d+)?\<close>\<close>
  "scan_frac s =
     (case s of
        c # r \<Rightarrow> if c = CHR ''.'' \<and> fst (digits r) \<noteq> [] then (c # fst (digits r), snd (digits r)) else ([], s)
      | [] \<Rightarrow> ([], []))"

definition scan_exp :: "string \<Rightarrow> string \<times> string" where
  \<comment> \<open>\<open>([eE][-+]?\d+)?\<close>\<close>
  "scan_exp s =
     (case s of
        c # r \<Rightarrow>
          if c = CHR ''e'' \<or> c = CHR ''E'' then
            (let (sign, r1) = (if r \<noteq> [] \<and> hd r \<in> {CHR ''+'', CHR ''-''} then ([hd r], tl r) else ([], r)) in
             if fst (digits r1) \<noteq> [] then (c # sign @ fst (digits r1), snd (digits r1)) else ([], s))
          else ([], s)
      | [] \<Rightarrow> ([], []))"

definition scan_number :: "string \<Rightarrow> (json \<times> string) res" where
  "scan_number s =
     (case scan_int s of
        None \<Rightarrow> Inl ValueError
      | Some (ip, r) \<Rightarrow>
          (let (fp, r1) = scan_frac r; (ex, r2) = scan_exp r1 in
           if fp = [] \<and> ex = [] then res_bind (int_of ip) (\<lambda>n. Inr (JInt n, r2))
           else res_bind (float_of (ip @ fp @ ex)) (\<lambda>x. Inr (JFloat x, r2))))"

definition JSON_CONSTANTS :: "(string \<times> json) list" where
  "JSON_CONSTANTS =
     [(''null'', JNull), (''true'', JBool True), (''false'', JBool False), (''NaN'', JSpecial ''NaN''),
      (''Infinity'', JSpecial ''Infinity''), (''-Infinity'', JSpecial ''-Infinity'')]"

definition scan_atom :: "string \<Rightarrow> (json \<times> string) res" where
  \<comment> \<open>the constants and the numbers\<close>
  "scan_atom s =
     (case next_or (\<lambda>(w, v). take (length w) s = w) JSON_CONSTANTS of
        Some (w, v) \<Rightarrow> Inr (v, drop (length w) s)
      | None \<Rightarrow> scan_number s)"

fun parse_value :: "nat \<Rightarrow> string \<Rightarrow> (json \<times> string) diverging"
  and parse_items :: "nat \<Rightarrow> string \<Rightarrow> (json list \<times> string) diverging"
  and parse_members :: "nat \<Rightarrow> string \<Rightarrow> ((string \<times> json) list \<times> string) diverging" where
  "parse_value 0 s = None"
| "parse_value (Suc n) s =
     (case s of
        [] \<Rightarrow> Some (Inl ValueError)
      | c # r \<Rightarrow>
          if code c = 34 then Some (res_bind (scan_str r) (\<lambda>(x, r'). Inr (JStr x, r')))
          else if c = CHR ''{'' then
            (case skip_ws r of
               [] \<Rightarrow> Some (Inl ValueError)
             | d # r' \<Rightarrow>
                 if d = CHR ''}'' then Some (Inr (JObj [], r'))
                 else div_bind (parse_members n (d # r')) (\<lambda>(kvs, r2). Some (Inr (JObj (dict_of kvs), r2))))
          else if c = CHR ''['' then
            (case skip_ws r of
               [] \<Rightarrow> Some (Inl ValueError)
             | d # r' \<Rightarrow>
                 if d = CHR '']'' then Some (Inr (JArr [], r'))
                 else div_bind (parse_items n (d # r')) (\<lambda>(vs, r2). Some (Inr (JArr vs, r2))))
          else Some (scan_atom s))"
| "parse_items 0 s = None"
| "parse_items (Suc n) s =
     div_bind (parse_value n s) (\<lambda>(v, r).
       case skip_ws r of
         [] \<Rightarrow> Some (Inl ValueError)
       | d # r' \<Rightarrow>
           if d = CHR '']'' then Some (Inr ([v], r'))
           else if d = CHR '','' then div_bind (parse_items n (skip_ws r')) (\<lambda>(vs, r2). Some (Inr (v # vs, r2)))
           else Some (Inl ValueError))"
| "parse_members 0 s = None"
| "parse_members (Suc n) s =
     (if s = [] \<or> code (hd s) \<noteq> 34 then Some (Inl ValueError)
      else div_bind (Some (scan_str (tl s))) (\<lambda>(key, r1).
        case skip_ws r1 of
          [] \<Rightarrow> Some (Inl ValueError)
        | d # r2 \<Rightarrow>
            if d \<noteq> CHR '':'' then Some (Inl ValueError)
            else div_bind (parse_value n (skip_ws r2)) (\<lambda>(v, r3).
              case skip_ws r3 of
                [] \<Rightarrow> Some (Inl ValueError)
              | e # r4 \<Rightarrow>
                  if e = CHR ''}'' then Some (Inr ([(key, v)], r4))
                  else if e = CHR '','' then
                    div_bind (parse_members n (skip_ws r4)) (\<lambda>(kvs, r5). Some (Inr ((key, v) # kvs, r5)))
                  else Some (Inl ValueError))))"

definition loads_opt :: "string \<Rightarrow> json diverging" where
  "loads_opt s =
     div_bind (parse_value (2 * length s + 1) (skip_ws s)) (\<lambda>(v, r).
       if skip_ws r = [] then Some (Inr v) else Some (Inl ValueError))"

definition loads :: "string \<Rightarrow> json res" where
  \<comment> \<open>\<open>json.loads\<close>; by \<open>loads_total\<close> the fuel never runs out\<close>
  "loads s = (case loads_opt s of Some x \<Rightarrow> x | None \<Rightarrow> Inl ValueError)"

definition json_get :: "json \<Rightarrow> string \<Rightarrow> json option" where
  \<comment> \<open>the value of a key of an object\<close>
  "json_get j key = (case j of JObj fs \<Rightarrow> map_of fs key | _ \<Rightarrow> None)"

definition json_iter :: "json \<Rightarrow> json list res" where
  \<comment> \<open>\<open>list(v)\<close>\<close>
  "json_iter v =
     (case v of
        JArr js \<Rightarrow> Inr js
      | JStr s \<Rightarrow> Inr (map (\<lambda>c. JStr [c]) s)
      | JObj fs \<Rightarrow> Inr (map (\<lambda>(key, _). JStr key) fs)
      | _ \<Rightarrow> Inl TypeError)"

definition json_key :: "json \<Rightarrow> string \<Rightarrow> json res" where
  \<comment> \<open>\<open>v[key]\<close> for a string\<close>
  "json_key v key = (case v of JObj fs \<Rightarrow> dlookup fs key | _ \<Rightarrow> Inl TypeError)"

definition json_get_or :: "json \<Rightarrow> string \<Rightarrow> json \<Rightarrow> json res" where
  \<comment> \<open>\<open>v.get(key, default)\<close>\<close>
  "json_get_or v key d = (case v of JObj fs \<Rightarrow> Inr (dget fs key d) | _ \<Rightarrow> Inl AttributeError)"

fun json_truth :: "json \<Rightarrow> bool" where
  "json_truth JNull = False"
| "json_truth (JBool b) = b"
| "json_truth (JInt n) = (n \<noteq> 0)"
| "json_truth (JFloat x) = (x \<noteq> 0)"
| "json_truth (JSpecial s) = True"
| "json_truth (JStr s) = (s \<noteq> [])"
| "json_truth (JArr vs) = (vs \<noteq> [])"
| "json_truth (JObj fs) = (fs \<noteq> [])"

fun json_fmt_f :: "nat \<Rightarrow> json \<Rightarrow> string res" where
  \<comment> \<open>\<open>f"{v:.nf}"\<close>\<close>
  "json_fmt_f n (JFloat x) = Inr (fmt_f n x)"
| "json_fmt_f n (JInt m) = Inr (fmt_f n (of_int m))"
| "json_fmt_f n (JBool b) = Inr (fmt_f n (if b then 1 else 0))"
| "json_fmt_f n (JSpecial s) = Inr (if s = ''NaN'' then ''nan'' else if s = ''Infinity'' then ''inf'' else ''-inf'')"
| "json_fmt_f n (JStr s) = Inl ValueError"
| "json_fmt_f n _ = Inl TypeError"

definition json_items :: "json \<Rightarrow> (string \<times> json) list res" where
  \<comment> \<open>\<open>v.items()\<close>\<close>
  "json_items v = (case v of JObj fs \<Rightarrow> Inr fs | _ \<Rightarrow> Inl AttributeError)"

section \<open>Strings and numbers are read back\<close>

lemma hex_digit_back: "d < 16 \<Longrightarrow> hex_value (''0123456789abcdef'' ! d) = Some d"
  by (simp add: less_Suc_eq numeral_eq_Suc)
     (elim disjE; simp add: hex_value_def code_def)

lemma hex_digit_zero: "hex_value (CHR ''0'') = Some 0"
  by (simp add: hex_value_def code_def)

lemma scan_str_escape: "code e \<noteq> 117 \<Longrightarrow> scan_str (char_of (92 :: nat) # e # r) =
    (case unescape e of None \<Rightarrow> Inl ValueError | Some x \<Rightarrow> push_char x (scan_str r))"
  by (subst scan_str.simps) (auto simp: code_def)

lemma scan_str_unicode: "scan_str (char_of (92 :: nat) # ''u00'' @ a # b # r) =
    (case (hex_value a, hex_value b) of (Some x, Some y) \<Rightarrow> push_char (char_of (16 * x + y)) (scan_str r) | _ \<Rightarrow> Inl ValueError)"
  by (subst scan_str.simps) (simp add: code_def hex4_def hex_digit_zero split: option.splits)

lemma scan_str_plain: "32 \<le> code c \<Longrightarrow> code c \<noteq> 34 \<Longrightarrow> code c \<noteq> 92 \<Longrightarrow> scan_str (c # r) = push_char c (scan_str r)"
  by (subst scan_str.simps) simp

declare scan_str.simps [simp del]

lemma code_inject: "code c = n \<Longrightarrow> c = char_of n"
  by (auto simp: code_def)

lemma code_less: "code c < 256"
  by (simp add: code_def)

lemma scan_str_json_char: "scan_str (json_char c @ r) = push_char c (scan_str r)"
proof -
  consider "code c \<in> {34, 92, 8, 9, 10, 12, 13}" | "code c \<notin> {34, 92, 8, 9, 10, 12, 13}" "32 \<le> code c" "code c < 127"
    | "code c \<notin> {34, 92, 8, 9, 10, 12, 13}" "\<not> (32 \<le> code c \<and> code c < 127)" by auto
  then show ?thesis
  proof cases
    case 1
    then have c: "c \<in> char_of ` {34, 92, 8, 9, 10, 12, 13 :: nat}" by (auto simp: code_inject)
    then show ?thesis
      by (elim imageE insertE emptyE; simp add: json_char_def code_def scan_str_escape unescape_def)
  next
    case 2
    then show ?thesis by (simp add: json_char_def Let_def scan_str_plain)
  next
    case 3
    have "code c div 16 < 16" "code c mod 16 < 16" using code_less [of c] by (auto simp: less_mult_imp_div_less)
    then have "scan_str (json_char c @ r) = push_char (char_of (16 * (code c div 16) + code c mod 16)) (scan_str r)"
      using 3 by (simp add: json_char_def Let_def hex_digit_back scan_str_unicode [simplified] del: de_Morgan_conj)
    moreover have "char_of (16 * (code c div 16) + code c mod 16) = c" by (simp add: code_def)
    ultimately show ?thesis by simp
  qed
qed

lemma scan_str_chars: "scan_str (concat (map json_char s) @ char_of (34 :: nat) # r) = Inr (s, r)"
proof (induction s)
  case Nil
  show ?case by (simp add: scan_str.simps code_def)
next
  case (Cons c s)
  then show ?case by (simp add: scan_str_json_char push_char_def)
qed

definition num_end :: "string \<Rightarrow> bool" where
  \<comment> \<open>a number cannot go on here\<close>
  "num_end r = (r = [] \<or> \<not> is_digit_char (hd r) \<and> hd r \<notin> {CHR ''.'', CHR ''e'', CHR ''E''})"

lemma digit_char_zero: "d < 10 \<Longrightarrow> digit_char d = CHR ''0'' \<longleftrightarrow> d = 0"
proof
  assume "d < 10" "digit_char d = CHR ''0''"
  then have "48 + d = code (CHR ''0'')" by (simp flip: code_digit_char)
  then show "d = 0" by (simp add: code_def)
next
  assume "d = 0"
  then have "digit_char d = char_of (code (CHR ''0''))" by (simp add: digit_char_def code_def)
  then show "digit_char d = CHR ''0''" by (simp add: code_def del: of_char_Char)
qed

lemma str_nat_zero: "hd (str_nat n) = CHR ''0'' \<longleftrightarrow> n = 0"
proof (induction n rule: less_induct)
  case (less n)
  show ?case
  proof (cases "n < 10")
    case True
    then show ?thesis by (simp add: str_nat.simps [of n] digit_char_zero)
  next
    case False
    then have "n div 10 < n" "n div 10 \<noteq> 0" by auto
    then show ?thesis using less [of "n div 10"] False by (simp add: str_nat.simps [of n])
  qed
qed

lemma digits_stop: "list_all is_digit_char s \<Longrightarrow> r = [] \<or> \<not> is_digit_char (hd r) \<Longrightarrow> digits (s @ r) = (s, r)"
  by (cases r) (auto simp: digits_def list_all_iff takeWhile_append2 dropWhile_append2)

lemma scan_digits_stop:
  assumes "r = [] \<or> \<not> is_digit_char (hd r)"
  shows "scan_digits (str_nat n @ r) = Some (str_nat n, r)"
proof (cases "str_nat n")
  case Nil
  then show ?thesis using str_nat_nonempty [of n] by simp
next
  case (Cons c t)
  have "is_digit_char c" using str_nat_digits [of n] Cons by simp
  moreover have "t = []" if "c = CHR ''0''" using str_nat_zero [of n] Cons that by (auto simp: str_nat.simps)
  ultimately show ?thesis
    using Cons digits_stop [OF str_nat_digits assms, of n] by (auto simp: scan_digits_def)
qed

lemma scan_digits_nat: "num_end r \<Longrightarrow> scan_digits (str_nat n @ r) = Some (str_nat n, r)"
  by (rule scan_digits_stop) (auto simp: num_end_def)

lemma scan_int_str_int:
  assumes "num_end r"
  shows "scan_int (str_int n @ r) = Some (str_int n, r)"
proof -
  have "hd (str_nat m @ r) \<noteq> CHR ''-''" for m
    using str_nat_digits [of m] str_nat_nonempty [of m] not_digit_minus by (cases "str_nat m") auto
  then show ?thesis by (simp add: scan_int_def str_int_def scan_digits_nat [OF assms])
qed

lemma scan_number_int:
  assumes "num_end r"
  shows "scan_number (str_int n @ r) = Inr (JInt n, r)"
proof -
  have "scan_frac r = ([], r)" "scan_exp r = ([], r)"
    using assms by (cases r; auto simp: scan_frac_def scan_exp_def num_end_def)+
  then show ?thesis by (simp add: scan_number_def scan_int_str_int [OF assms])
qed

lemma str_int_start: "\<exists>c t. str_int n = c # t \<and> (is_digit_char c \<or> c = CHR ''-'' \<and> t \<noteq> [] \<and> is_digit_char (hd t))"
proof -
  have d: "\<exists>c t. str_nat m = c # t \<and> is_digit_char c" for m
    using str_nat_digits [of m] str_nat_nonempty [of m] by (cases "str_nat m") auto
  show ?thesis
    using d [of "nat n"] d [of "nat (- n)"] by (auto simp: str_int_def)
qed

lemma scan_atom_int:
  assumes "num_end r"
  shows "scan_atom (str_int n @ r) = Inr (JInt n, r)"
proof -
  obtain c t where c: "str_int n = c # t" "is_digit_char c \<or> c = CHR ''-'' \<and> t \<noteq> [] \<and> is_digit_char (hd t)"
    using str_int_start by blast
  have nd: "is_digit_char d \<Longrightarrow> d \<noteq> CHR ''n'' \<and> d \<noteq> CHR ''t'' \<and> d \<noteq> CHR ''f'' \<and> d \<noteq> CHR ''N'' \<and> d \<noteq> CHR ''I'' \<and> d \<noteq> CHR ''-''" for d
    by (auto simp: is_digit_char_def code_def)
  have "filter (\<lambda>(w, v). take (length w) (str_int n @ r) = w) JSON_CONSTANTS = []"
  proof (cases "is_digit_char c")
    case True
    from nd [OF this] show ?thesis by (simp add: c(1) JSON_CONSTANTS_def)
  next
    case False
    then obtain d t' where m: "c = CHR ''-''" "t = d # t'" "is_digit_char d" using c(2) by (cases t) auto
    from nd [OF m(3)] show ?thesis by (simp add: c(1) m(1,2) JSON_CONSTANTS_def)
  qed
  then show ?thesis by (simp add: scan_atom_def next_or_def scan_number_int [OF assms])
qed

lemma scan_atom_constant:
  "scan_atom (''null'' @ r) = Inr (JNull, r)" "scan_atom (''true'' @ r) = Inr (JBool True, r)"
  "scan_atom (''false'' @ r) = Inr (JBool False, r)"
  by (simp_all add: scan_atom_def next_or_def JSON_CONSTANTS_def)

section \<open>Values are read back\<close>

fun json_plain :: "json \<Rightarrow> bool" where
  \<comment> \<open>no floats, and every object is a dict\<close>
  "json_plain (JFloat x) = False"
| "json_plain (JSpecial s) = False"
| "json_plain (JArr vs) = list_all json_plain vs"
| "json_plain (JObj fs) = (distinct (map fst fs) \<and> list_all (\<lambda>(_, v). json_plain v) fs)"
| "json_plain _ = True"

definition float_text :: "(real \<Rightarrow> string) \<Rightarrow> real \<Rightarrow> bool" where
  \<comment> \<open>the text of a float is a number that is read back\<close>
  "float_text rp x \<longleftrightarrow>
     rp x \<noteq> [] \<and> (is_digit_char (hd (rp x)) \<or> hd (rp x) = CHR ''-'') \<and>
     (\<forall>r. num_end r \<longrightarrow> scan_atom (rp x @ r) = Inr (JFloat x, r))"

fun json_back :: "(real \<Rightarrow> string) \<Rightarrow> json \<Rightarrow> bool" where
  \<comment> \<open>every object is a dict, and the text of every float is read back\<close>
  "json_back rp (JFloat x) = float_text rp x"
| "json_back rp (JSpecial s) = False"
| "json_back rp (JArr vs) = list_all (json_back rp) vs"
| "json_back rp (JObj fs) = (distinct (map fst fs) \<and> list_all (\<lambda>(_, v). json_back rp v) fs)"
| "json_back rp _ = True"

lemma scan_atom_fmt_f:
  assumes "0 < n" and "num_end r"
  shows "scan_atom (fmt_f n x @ r) = Inr (JFloat (round_to n x), r)"
proof -
  let ?m = "nat \<bar>round_half_even (x * 10 ^ n)\<bar>"
  let ?ip = "str_nat (?m div 10 ^ n)" and ?fp = "decimals n ?m" and ?sg = "if x < 0 then ''-'' else []"
  have ft: "fmt_f n x = ?sg @ ?ip @ ''.'' @ ?fp" by (simp add: fmt_f_parts [OF assms(1)] Let_def)
  obtain c t where c: "?ip = c # t" "is_digit_char c"
    using str_nat_digits [of "?m div 10 ^ n"] str_nat_nonempty by (cases ?ip) auto
  then have hd: "hd (?ip @ u) \<noteq> CHR ''-''" for u using not_digit_minus by auto
  have nd: "is_digit_char d \<Longrightarrow> d \<noteq> CHR ''n'' \<and> d \<noteq> CHR ''t'' \<and> d \<noteq> CHR ''f'' \<and> d \<noteq> CHR ''N'' \<and> d \<noteq> CHR ''I'' \<and> d \<noteq> CHR ''-''" for d
    by (auto simp: is_digit_char_def code_def)
  have "scan_digits (?ip @ ''.'' @ ?fp @ r) = Some (?ip, ''.'' @ ?fp @ r)"
    by (rule scan_digits_stop) (simp add: is_digit_char_def code_def)
  then have "scan_int (fmt_f n x @ r) = Some (?sg @ ?ip, ''.'' @ ?fp @ r)"
    using hd by (auto simp: scan_int_def ft)
  moreover have "scan_frac (''.'' @ ?fp @ r) = (''.'' @ ?fp, r)"
  proof -
    have "digits (?fp @ r) = (?fp, r)" by (rule digits_stop [OF decimals_digits]) (use assms(2) in \<open>auto simp: num_end_def\<close>)
    moreover have "?fp \<noteq> []" using length_decimals [OF assms(1), of ?m] assms(1) by auto
    ultimately show ?thesis by (simp add: scan_frac_def)
  qed
  moreover have "scan_exp r = ([], r)" using assms(2) by (cases r) (auto simp: scan_exp_def num_end_def)
  moreover have "(?sg @ ?ip) @ (''.'' @ ?fp) @ [] = fmt_f n x" unfolding ft by simp
  ultimately have "scan_number (fmt_f n x @ r) = Inr (JFloat (round_to n x), r)"
    using float_of_fmt_f [OF assms(1), of x] by (simp add: scan_number_def)
  moreover have "filter (\<lambda>(w, v). take (length w) (fmt_f n x @ r) = w) JSON_CONSTANTS = []"
    using c nd [of c] by (cases "x < 0") (auto simp: ft JSON_CONSTANTS_def)
  ultimately show ?thesis by (simp add: scan_atom_def next_or_def)
qed

lemma float_text_fmt_f:
  assumes "0 < n" and "round_to n x = x"
  shows "float_text (fmt_f n) x"
proof -
  have ip: "is_digit_char (hd (str_nat m @ u))" for m u
    using str_nat_digits [of m] str_nat_nonempty [of m] by (cases "str_nat m") auto
  have "fmt_f n x \<noteq> [] \<and> (is_digit_char (hd (fmt_f n x)) \<or> hd (fmt_f n x) = CHR ''-'')"
    unfolding fmt_f_parts [OF assms(1)] Let_def using ip by auto
  then show ?thesis using scan_atom_fmt_f [OF assms(1), of _ x] assms(2) by (auto simp: float_text_def)
qed

lemma json_plain_back: "json_plain v \<Longrightarrow> json_back rp v"
  by (induction v) (auto simp: list_all_iff)

definition json_seps :: "string \<Rightarrow> string \<Rightarrow> bool" where
  \<comment> \<open>a comma and a colon, with white space after them\<close>
  "json_seps i k \<longleftrightarrow> i \<noteq> [] \<and> hd i = CHR '','' \<and> list_all is_json_ws (tl i) \<and> k \<noteq> [] \<and> hd k = CHR '':'' \<and> list_all is_json_ws (tl k)"

lemma skip_ws_none [simp]: "\<not> is_json_ws c \<Longrightarrow> skip_ws (c # r) = c # r"
  by (simp add: skip_ws_def)

lemma skip_ws_append: "list_all is_json_ws w \<Longrightarrow> skip_ws (w @ r) = skip_ws r"
  by (simp add: skip_ws_def list_all_iff dropWhile_append2)

lemma json_ws_facts [simp]:
  "\<not> is_json_ws (CHR ''{'')" "\<not> is_json_ws (CHR ''}'')" "\<not> is_json_ws (CHR ''['')" "\<not> is_json_ws (CHR '']'')"
  "\<not> is_json_ws (CHR '','')" "\<not> is_json_ws (CHR '':'')" "\<not> is_json_ws (char_of (34 :: nat))"
  by (simp_all add: is_json_ws_def code_def)

lemma num_end_ws: "is_json_ws c \<Longrightarrow> num_end (c # r)"
  by (auto simp: num_end_def is_json_ws_def is_digit_char_def code_def)

lemma ws_close:
  "list_all is_json_ws w \<Longrightarrow> num_end (w @ CHR '']'' # r) \<and> num_end (w @ CHR ''}'' # r) \<and>
     skip_ws (w @ CHR '']'' # r) = CHR '']'' # r \<and> skip_ws (w @ CHR ''}'' # r) = CHR ''}'' # r"
proof -
  assume w: "list_all is_json_ws w"
  have "num_end (w @ CHR '']'' # r) \<and> num_end (w @ CHR ''}'' # r)"
    using w by (cases w) (simp_all add: num_end_ws, simp_all add: num_end_def is_digit_char_def code_def)
  then show ?thesis using w by (simp add: skip_ws_append)
qed

lemma num_end_facts [simp]: "num_end []" "num_end (CHR '','' # r)" "num_end (CHR '']'' # r)" "num_end (CHR ''}'' # r)"
  by (simp_all add: num_end_def is_digit_char_def code_def)

lemma dumps_start:
  assumes "json_back rp v"
  shows "\<exists>c t. dumps i k rp v = c # t \<and> \<not> is_json_ws c \<and> c \<noteq> CHR '']'' \<and> c \<noteq> CHR ''}''"
proof (cases v)
  case (JInt n)
  then show ?thesis
    using str_int_start [of n] by (auto simp: is_json_ws_def is_digit_char_def code_def)
next
  case (JFloat x)
  then show ?thesis
    using assms by (cases "rp x") (auto simp: float_text_def is_json_ws_def is_digit_char_def code_def)
next
  case (JStr s)
  have "char_of (34 :: nat) \<noteq> CHR '']''" "char_of (34 :: nat) \<noteq> CHR ''}''" 
    by (auto dest: arg_cong [of _ _ code] simp: code_def)
  then show ?thesis using JStr by (simp add: json_string_def)
qed (use assms in \<open>auto simp: is_json_ws_def code_def\<close>)

lemma dumps_indent_start:
  assumes "json_back rp v"
  shows "\<exists>c t. dumps_indent rp l v = c # t \<and> \<not> is_json_ws c \<and> c \<noteq> CHR '']'' \<and> c \<noteq> CHR ''}''"
  using dumps_start [OF assms, of "'', ''" "'': ''"] by (cases v) simp_all

lemma skip_ws_dumps: "json_back rp v \<Longrightarrow> skip_ws (dumps i k rp v @ r) = dumps i k rp v @ r"
  using dumps_start [of rp v i k] by auto

lemma skip_ws_dumps_indent: "json_back rp v \<Longrightarrow> skip_ws (dumps_indent rp l v @ r) = dumps_indent rp l v @ r"
  using dumps_indent_start [of rp v l] by auto

lemma parse_items_back:
  assumes "\<And>v n r. v \<in> set vs \<Longrightarrow> num_end r \<Longrightarrow> 2 * length (d v @ r) < n \<Longrightarrow> parse_value n (d v @ r) = Some (Inr (v, r))"
    and "\<And>v r. v \<in> set vs \<Longrightarrow> skip_ws (d v @ r) = d v @ r"
    and "i \<noteq> []" "hd i = CHR '',''" "list_all is_json_ws (tl i)" and "vs \<noteq> []"
    and "2 * length (join_with i (map d vs) @ w' @ '']'' @ r) + 1 < n" and w': "list_all is_json_ws w'"
  shows "parse_items n (join_with i (map d vs) @ w' @ '']'' @ r) = Some (Inr (vs, r))"
  using assms(1,2,6,7)
proof (induction vs arbitrary: n)
  case (Cons v vs)
  obtain m where n: "n = Suc m" using Cons.prems(4) by (cases n) auto
  obtain w where i: "i = CHR '','' # w" "list_all is_json_ws w" using assms(3-5) by (cases i) auto
  show ?case
  proof (cases vs)
    case Nil
    have "parse_value m (d v @ w' @ CHR '']'' # r) = Some (Inr (v, w' @ CHR '']'' # r))"
      using Cons.prems(4) n Nil ws_close [OF w'] by (intro Cons.prems(1)) auto
    then show ?thesis using n Nil ws_close [OF w'] by simp
  next
    case c: (Cons v' vs')
    let ?rest = "join_with i (map d vs) @ w' @ '']'' @ r"
    have v: "parse_value m (d v @ i @ ?rest) = Some (Inr (v, i @ ?rest))"
      using Cons.prems(4) n c i by (intro Cons.prems(1)) auto
    have "parse_items m ?rest = Some (Inr (vs, r))"
      using Cons.prems c n i by (intro Cons.IH) auto
    moreover have "skip_ws (w @ ?rest) = ?rest"
    proof -
      have "\<exists>t. ?rest = d v' @ t" using c by (cases vs') auto
      then show ?thesis using Cons.prems(2) c i by (auto simp: skip_ws_append)
    qed
    ultimately show ?thesis using n v c i by simp
  qed
qed simp

lemma parse_members_back:
  assumes "\<And>key v n r. (key, v) \<in> set fs \<Longrightarrow> num_end r \<Longrightarrow> 2 * length (d v @ r) < n \<Longrightarrow> parse_value n (d v @ r) = Some (Inr (v, r))"
    and "\<And>key v r. (key, v) \<in> set fs \<Longrightarrow> skip_ws (d v @ r) = d v @ r"
    and "json_seps i k" and "fs \<noteq> []"
    and "2 * length (join_with i (map (\<lambda>(key, v). json_string key @ k @ d v) fs) @ w' @ ''}'' @ r) + 1 < n" and w': "list_all is_json_ws w'"
  shows "parse_members n (join_with i (map (\<lambda>(key, v). json_string key @ k @ d v) fs) @ w' @ ''}'' @ r) = Some (Inr (fs, r))"
  using assms(1,2,4,5)
proof (induction fs arbitrary: n)
  case (Cons f fs)
  obtain key v where f: "f = (key, v)" by (cases f)
  obtain m where n: "n = Suc m" using Cons.prems(4) by (cases n) auto
  obtain w where i: "i = CHR '','' # w" "list_all is_json_ws w" using assms(3) by (cases i) (auto simp: json_seps_def)
  obtain u where k: "k = CHR '':'' # u" "list_all is_json_ws u" using assms(3) by (cases k) (auto simp: json_seps_def)
  let ?member = "\<lambda>(key, v). json_string key @ k @ d v"
  let ?rest = "if fs = [] then w' @ ''}'' @ r else i @ join_with i (map ?member fs) @ w' @ ''}'' @ r"
  have full: "join_with i (map ?member (f # fs)) @ w' @ ''}'' @ r =
      char_of (34 :: nat) # concat (map json_char key) @ char_of (34 :: nat) # k @ d v @ ?rest"
    by (cases fs) (simp_all add: f json_string_def)
  have v: "parse_value m (d v @ ?rest) = Some (Inr (v, ?rest))"
  proof (rule Cons.prems(1))
    show "2 * length (d v @ ?rest) < m" using Cons.prems(4) n full by (cases fs) (auto simp: k f)
  qed (use ws_close [OF w'] in \<open>auto simp: f i\<close>)
  have vs: "skip_ws (u @ d v @ ?rest) = d v @ ?rest" using Cons.prems(2) k f by (auto simp: skip_ws_append)
  show ?case
  proof (cases "fs = []")
    case True
    then show ?thesis using v vs k ws_close [OF w'] unfolding full n by (simp add: scan_str_chars code_def f)
  next
    case False
    let ?tail = "join_with i (map ?member fs) @ w' @ ''}'' @ r"
    have "parse_members m ?tail = Some (Inr (fs, r))"
    proof (rule Cons.IH)
      show "2 * length ?tail + 1 < m" using Cons.prems(4) n False unfolding full by (simp add: i)
      show "parse_value n' (d v' @ r') = Some (Inr (v', r'))"
        if "(key', v') \<in> set fs" "num_end r'" "2 * length (d v' @ r') < n'" for key' v' n' r'
        using that by (intro Cons.prems(1) [of key']) simp_all
      show "skip_ws (d v' @ r') = d v' @ r'" if "(key', v') \<in> set fs" for key' v' r'
        using that by (intro Cons.prems(2) [of key']) simp
    qed (rule False)
    moreover have "skip_ws (w @ ?tail) = ?tail"
      using False i by (cases fs rule: remdups_adj.cases) (auto simp: skip_ws_append json_string_def)
    ultimately show ?thesis using v vs k i False unfolding full n by (simp add: scan_str_chars code_def f)
  qed
qed simp

lemmas parse_items_end = parse_items_back [where w' = "[]", unfolded append_Nil]
lemmas parse_members_end = parse_members_back [where w' = "[]", unfolded append_Nil]

lemma parse_dumps:
  assumes "json_seps i k"
  shows "json_back rp v \<Longrightarrow> num_end r \<Longrightarrow> 2 * length (dumps i k rp v @ r) < n \<Longrightarrow> parse_value n (dumps i k rp v @ r) = Some (Inr (v, r))"
proof (induction v arbitrary: n r)
  case JNull
  then show ?case by (cases n) (simp_all add: scan_atom_constant [simplified] code_def)
next
  case (JBool b)
  then show ?case by (cases n; cases b) (simp_all add: scan_atom_constant [simplified] code_def)
next
  case (JInt m)
  obtain c t where c: "str_int m = c # t" "is_digit_char c \<or> c = CHR ''-''" using str_int_start by blast
  then have "code c \<noteq> 34" "c \<noteq> CHR ''{''" "c \<noteq> CHR ''[''" by (auto simp: is_digit_char_def code_def)
  then show ?case using JInt scan_atom_int [of r m] c by (cases n) simp_all
next
  case (JFloat x)
  then obtain c t where c: "rp x = c # t" "is_digit_char c \<or> c = CHR ''-''" "scan_atom (rp x @ r) = Inr (JFloat x, r)"
    by (cases "rp x") (auto simp: float_text_def)
  then have "code c \<noteq> 34" "c \<noteq> CHR ''{''" "c \<noteq> CHR ''[''" by (auto simp: is_digit_char_def code_def)
  then show ?case using JFloat c by (cases n) simp_all
next
  case (JStr s)
  then show ?case by (cases n) (simp_all add: json_string_def scan_str_chars code_def)
next
  case (JArr vs)
  obtain m where n: "n = Suc m" using JArr.prems(3) by (cases n) auto
  show ?case
  proof (cases "vs = []")
    case False
    let ?body = "join_with i (map (dumps i k rp) vs) @ '']'' @ r"
    have plain: "v \<in> set vs \<Longrightarrow> json_back rp v" for v using JArr.prems(1) by (simp add: list_all_iff)
    have "parse_items m ?body = Some (Inr (vs, r))"
      using assms JArr.IH plain JArr.prems(3) n False
      by (intro parse_items_end) (auto simp: json_seps_def skip_ws_dumps)
    moreover obtain c t where "?body = c # t" "\<not> is_json_ws c" "c \<noteq> CHR '']''"
    proof -
      obtain v vs' where v: "vs = v # vs'" using False by (cases vs) auto
      obtain c t where "dumps i k rp v = c # t" "\<not> is_json_ws c" "c \<noteq> CHR '']''"
        using dumps_start [OF plain, of v i k] v by auto
      then show ?thesis using v by (intro that [of c "t @ (if vs' = [] then [] else i @ join_with i (map (dumps i k rp) vs')) @ '']'' @ r"]) (cases vs'; auto)+
    qed
    ultimately show ?thesis using n by (simp add: code_def)
  qed (simp add: n code_def)
next
  case (JObj fs)
  obtain m where n: "n = Suc m" using JObj.prems(3) by (cases n) auto
  let ?member = "\<lambda>(key, v). json_string key @ k @ dumps i k rp v"
  show ?case
  proof (cases "fs = []")
    case False
    let ?body = "join_with i (map ?member fs) @ ''}'' @ r"
    have plain: "(key, v) \<in> set fs \<Longrightarrow> json_back rp v" for key v using JObj.prems(1) by (auto simp: list_all_iff)
    have "parse_members m ?body = Some (Inr (fs, r))"
      using assms JObj.IH plain JObj.prems(3) n False
      by (intro parse_members_end) (auto simp: skip_ws_dumps)
    moreover obtain t where "?body = char_of (34 :: nat) # t"
    proof -
      obtain key v fs' where v: "fs = (key, v) # fs'" using False by (cases fs) auto
      then show ?thesis by (cases fs') (auto intro!: that simp: json_string_def)
    qed
    moreover have "char_of (34 :: nat) \<noteq> CHR ''}''" by (auto dest: arg_cong [of _ _ code] simp: code_def)
    ultimately show ?thesis using n JObj.prems(1) by (simp add: code_def dict_of_distinct)
  qed (simp add: n code_def dict_of_def)
qed simp_all

lemma loads_dumps_floats:
  assumes "json_back rp v" and "json_seps i k"
  shows "loads (dumps i k rp v) = Inr v"
proof -
  have "parse_value (2 * length (dumps i k rp v) + 1) (dumps i k rp v @ []) = Some (Inr (v, []))"
    using assms by (intro parse_dumps) simp_all
  moreover have "skip_ws (dumps i k rp v) = dumps i k rp v" using skip_ws_dumps [OF assms(1), of i k "[]"] by simp
  ultimately show ?thesis by (simp add: loads_def loads_opt_def skip_ws_def)
qed

lemma loads_dumps: "json_plain v \<Longrightarrow> json_seps i k \<Longrightarrow> loads (dumps i k rp v) = Inr v"
  by (rule loads_dumps_floats) (rule json_plain_back)

lemma margin_ws: "list_all is_json_ws (margin l)"
  by (auto simp: margin_def list_all_iff is_json_ws_def code_def)

lemma parse_dumps_atom:
  "dumps_indent rp l v = dumps '', '' '': '' rp v \<Longrightarrow> json_back rp v \<Longrightarrow> num_end r \<Longrightarrow> 2 * length (dumps_indent rp l v @ r) < n \<Longrightarrow>
     parse_value n (dumps_indent rp l v @ r) = Some (Inr (v, r))"
  by (simp only:) (rule parse_dumps, simp_all add: json_seps_def is_json_ws_def code_def)

lemma parse_dumps_indent:
  "json_back rp v \<Longrightarrow> num_end r \<Longrightarrow> 2 * length (dumps_indent rp l v @ r) < n \<Longrightarrow> parse_value n (dumps_indent rp l v @ r) = Some (Inr (v, r))"
proof (induction v arbitrary: n r l)
  case (JArr vs)
  obtain m where n: "n = Suc m" using JArr.prems(3) by (cases n) auto
  show ?case
  proof (cases "vs = []")
    case False
    let ?body = "join_with ('','' @ margin (Suc l)) (map (dumps_indent rp (Suc l)) vs) @ margin l @ '']'' @ r"
    have plain: "v \<in> set vs \<Longrightarrow> json_back rp v" for v using JArr.prems(1) by (simp add: list_all_iff)
    have "parse_items m ?body = Some (Inr (vs, r))"
      using JArr.IH plain JArr.prems(3) n False
      by (intro parse_items_back) (auto simp: skip_ws_dumps_indent margin_ws)
    moreover obtain c t where "?body = c # t" "\<not> is_json_ws c" "c \<noteq> CHR '']''"
    proof -
      obtain v vs' where v: "vs = v # vs'" using False by (cases vs) auto
      obtain c t where "dumps_indent rp (Suc l) v = c # t" "\<not> is_json_ws c" "c \<noteq> CHR '']''"
        using dumps_indent_start [OF plain, of v "Suc l"] v by auto
      then show ?thesis
        using v by (cases vs') (auto intro: that)
    qed
    ultimately show ?thesis using n False by (simp add: code_def skip_ws_append margin_ws)
  qed (simp add: n code_def)
next
  case (JObj fs)
  obtain m where n: "n = Suc m" using JObj.prems(3) by (cases n) auto
  let ?member = "\<lambda>(key, v). json_string key @ '': '' @ dumps_indent rp (Suc l) v"
  show ?case
  proof (cases "fs = []")
    case False
    let ?body = "join_with ('','' @ margin (Suc l)) (map ?member fs) @ margin l @ ''}'' @ r"
    have plain: "(key, v) \<in> set fs \<Longrightarrow> json_back rp v" for key v using JObj.prems(1) by (auto simp: list_all_iff)
    have seps: "json_seps ('','' @ margin (Suc l)) '': ''" by (simp add: json_seps_def margin_ws is_json_ws_def code_def)
    have "parse_members m ?body = Some (Inr (fs, r))"
      using JObj.IH plain JObj.prems(3) n False
      by (intro parse_members_back seps) (auto simp: skip_ws_dumps_indent margin_ws)
    moreover obtain t where "?body = char_of (34 :: nat) # t"
    proof -
      obtain key v fs' where v: "fs = (key, v) # fs'" using False by (cases fs) auto
      then show ?thesis by (cases fs') (auto intro!: that simp: json_string_def)
    qed
    moreover have "char_of (34 :: nat) \<noteq> CHR ''}''" by (auto dest: arg_cong [of _ _ code] simp: code_def)
    ultimately show ?thesis using n False JObj.prems(1) by (simp add: code_def dict_of_distinct skip_ws_append margin_ws)
  qed (simp add: n code_def dict_of_def)
qed (rule parse_dumps_atom; (assumption | rule dumps_indent.simps))+

lemma loads_dumps_indent:
  assumes "json_back rp v"
  shows "loads (dumps_indent rp 0 v @ nl) = Inr v"
proof -
  have "num_end nl" unfolding nl_def by (rule num_end_ws) (simp add: is_json_ws_def code_def)
  then have "parse_value (2 * length (dumps_indent rp 0 v @ nl) + 1) (dumps_indent rp 0 v @ nl) = Some (Inr (v, nl))"
    using assms by (intro parse_dumps_indent) simp_all
  moreover have "skip_ws nl = []" by (simp add: nl_def skip_ws_def is_json_ws_def code_def)
  ultimately show ?thesis by (simp add: loads_def loads_opt_def skip_ws_dumps_indent [OF assms])
qed

section \<open>The text is one line of printable ASCII\<close>

definition printable :: "string \<Rightarrow> bool" where
  "printable s = list_all (\<lambda>c. 32 \<le> code c \<and> code c < 127) s"

lemma printable_append [simp]: "printable (a @ b) \<longleftrightarrow> printable a \<and> printable b"
  "printable (c # s) \<longleftrightarrow> 32 \<le> code c \<and> code c < 127 \<and> printable s" "printable []"
  by (auto simp: printable_def)

lemma printable_json_char: "printable (json_char c)"
proof -
  have hex: "32 \<le> code (''0123456789abcdef'' ! d) \<and> code (''0123456789abcdef'' ! d) < 127" if "d < 16" for d
    using that by (simp add: less_Suc_eq numeral_eq_Suc) (elim disjE; simp add: code_def)
  have "code c div 16 < 16" "code c mod 16 < 16" using code_less [of c] by (auto simp: less_mult_imp_div_less)
  from hex [OF this(1)] hex [OF this(2)] show ?thesis
    by (simp add: json_char_def Let_def) (simp add: code_def)
qed

lemma printable_json_string: "printable (json_string s)"
  using printable_json_char by (induction s) (simp_all add: json_string_def code_def)

lemma printable_str_int: "printable (str_int n)"
proof -
  have "printable (str_nat m)" for m
    using str_nat_digits [of m] by (auto simp: printable_def list_all_iff is_digit_char_def)
  then show ?thesis by (simp add: str_int_def code_def)
qed

lemma printable_fmt_f: "0 < n \<Longrightarrow> printable (fmt_f n x)"
proof -
  assume n: "0 < n"
  have d: "list_all is_digit_char s \<Longrightarrow> printable s" for s
    by (auto simp: printable_def list_all_iff is_digit_char_def)
  show ?thesis
    using d [OF str_nat_digits] d [OF decimals_digits] unfolding fmt_f_parts [OF n] Let_def by (simp add: code_def)
qed

lemma printable_join: "printable sep \<Longrightarrow> list_all printable xs \<Longrightarrow> printable (join_with sep xs)"
  by (induction xs rule: induct_list012) simp_all

lemma printable_dumps:
  assumes "printable i" and "printable k"
  shows "json_plain v \<Longrightarrow> printable (dumps i k rp v)"
proof (induction v)
  case (JArr vs)
  then show ?case using assms by (auto simp: code_def list_all_iff intro!: printable_join)
next
  case (JObj fs)
  have "printable (join_with i (map (\<lambda>(key, v). json_string key @ k @ dumps i k rp v) fs))"
    using JObj assms by (intro printable_join) (force simp: list_all_iff printable_json_string)+
  then show ?case by (simp add: code_def)
qed (simp_all add: code_def printable_json_string printable_str_int)

section \<open>The fuel is enough\<close>

lemma scan_str_shorter: "scan_str s = Inr (x, r) \<Longrightarrow> length r < length s"
proof (induction s arbitrary: x rule: scan_str.induct)
  case (2 c s)
  show ?case
  proof (cases s)
    case Nil
    then show ?thesis using "2.prems" by (auto simp: scan_str.simps push_char_def split: if_splits)
  next
    case (Cons e s')
    have "push_char y (scan_str t) = Inr (x, r) \<Longrightarrow> \<exists>x'. scan_str t = Inr (x', r)" for y t
      by (cases "scan_str t") (auto simp: push_char_def)
    then show ?thesis
      using "2.prems" "2.IH" Cons by (subst (asm) scan_str.simps) (fastforce split: if_splits option.splits)
  qed
qed (simp add: scan_str.simps)

lemma digits_shorter: "length (snd (digits s)) \<le> length s" "fst (digits s) \<noteq> [] \<Longrightarrow> length (snd (digits s)) < length s"
proof -
  have "length (fst (digits s)) + length (snd (digits s)) = length s"
    by (simp add: digits_def flip: length_append)
  then show "length (snd (digits s)) \<le> length s" "fst (digits s) \<noteq> [] \<Longrightarrow> length (snd (digits s)) < length s"
    by (auto simp flip: length_greater_0_conv)
qed

lemma scan_digits_shorter: "scan_digits s = Some (d, r) \<Longrightarrow> length r < length s"
  using digits_shorter(2) [of s] by (auto simp: scan_digits_def digits_def split: list.splits if_splits)

lemma scan_int_shorter: "scan_int s = Some (d, r) \<Longrightarrow> length r < length s"
  by (cases s) (auto simp: scan_int_def dest!: scan_digits_shorter split: if_splits)

lemma scan_frac_shorter: "length (snd (scan_frac s)) \<le> length s"
  using digits_shorter(1) [of "tl s"] by (cases s) (auto simp: scan_frac_def)

lemma scan_exp_shorter: "length (snd (scan_exp s)) \<le> length s"
proof (cases s)
  case (Cons c r)
  then show ?thesis
    using digits_shorter(1) [of r] digits_shorter(1) [of "tl r"] by (cases r) (auto simp: scan_exp_def Let_def)
qed (simp add: scan_exp_def)

lemma scan_atom_shorter:
  assumes "scan_atom s = Inr (v, r)"
  shows "length r < length s"
proof (cases "next_or (\<lambda>(w, v). take (length w) s = w) JSON_CONSTANTS")
  case None
  then obtain ip r0 where ip: "scan_int s = Some (ip, r0)"
    using assms by (auto simp: scan_atom_def scan_number_def split: option.splits)
  then have "r = snd (scan_exp (snd (scan_frac r0)))"
    using assms None by (auto simp: scan_atom_def scan_number_def Let_def case_prod_unfold split: if_splits)
  then show ?thesis
    using scan_int_shorter [OF ip] scan_frac_shorter [of r0] scan_exp_shorter [of "snd (scan_frac r0)"] by simp
next
  case (Some p)
  then have "p \<in> set (filter (\<lambda>(w, v). take (length w) s = w) JSON_CONSTANTS)"
    by (auto simp: next_or_def split: list.splits simp del: set_filter)
  then have p: "take (length (fst p)) s = fst p" "p \<in> set JSON_CONSTANTS" by auto
  have "list_all (\<lambda>p. fst p \<noteq> []) JSON_CONSTANTS" by (simp add: JSON_CONSTANTS_def)
  then have "fst p \<noteq> []" using p(2) by (auto simp: list_all_iff)
  moreover have "r = drop (length (fst p)) s" using assms Some by (auto simp: scan_atom_def case_prod_unfold)
  ultimately show ?thesis using p(1) by (cases s; cases "fst p") auto
qed

lemma skip_ws_shorter: "length (skip_ws s) \<le> length s"
  by (simp add: skip_ws_def length_dropWhile_le)

text \<open>A scan of a text of length \<open>n\<close> that ran to its end: an error, or a value and a shorter rest.\<close>

definition scanned :: "nat \<Rightarrow> ('a \<times> string) diverging \<Rightarrow> bool" where
  "scanned n x \<longleftrightarrow> x \<noteq> None \<and> (\<forall>v r. x = Some (Inr (v, r)) \<longrightarrow> length r < n)"

lemma scanned_error [simp]: "scanned n (Some (Inl e))"
  by (simp add: scanned_def)

lemma scanned_value [simp]: "scanned n (Some (Inr (v, r))) \<longleftrightarrow> length r < n"
  by (auto simp: scanned_def)

lemma scanned_mono: "scanned m x \<Longrightarrow> m \<le> n \<Longrightarrow> scanned n x"
  by (fastforce simp: scanned_def)

lemma scanned_bind:
  assumes "scanned m x" and "\<And>v r. x = Some (Inr (v, r)) \<Longrightarrow> length r < m \<Longrightarrow> scanned n (f (v, r))"
  shows "scanned n (div_bind x f)"
proof (cases x)
  case None
  then show ?thesis using assms(1) by (simp add: scanned_def)
next
  case (Some y)
  then show ?thesis using assms by (cases y) (auto simp: scanned_def)
qed

lemma scanned_skip:
  assumes "length r < n" and "\<And>d r'. length r' + 1 \<le> length r \<Longrightarrow> scanned n (f d r')"
  shows "scanned n (case skip_ws r of [] \<Rightarrow> Some (Inl e) | d # r' \<Rightarrow> f d r')"
  using skip_ws_shorter [of r] assms(2) by (auto split: list.splits)

lemma scanned_string: "scanned (length s) (Some (scan_str s))"
  by (auto simp: scanned_def scan_str_shorter)

lemma parse_scanned:
  "2 * length s < n \<Longrightarrow> scanned (length s) (parse_value n s)"
  "2 * length s + 1 < n \<Longrightarrow> scanned (length s) (parse_items n s)"
  "2 * length s + 1 < n \<Longrightarrow> scanned (length s) (parse_members n s)"
proof (induction n arbitrary: s)
  case (Suc n)
  {
    case 1
    show ?case
    proof (cases s)
      case (Cons c r)
      have members: "scanned (Suc (length r)) (if d = CHR ''}'' then Some (Inr (JObj [], r'))
          else div_bind (parse_members n (d # r')) (\<lambda>(kvs, r2). Some (Inr (JObj (dict_of kvs), r2))))"
        and items: "scanned (Suc (length r)) (if d = CHR '']'' then Some (Inr (JArr [], r'))
          else div_bind (parse_items n (d # r')) (\<lambda>(vs, r2). Some (Inr (JArr vs, r2))))"
        if "length r' + 1 \<le> length r" for d r'
        using that 1 Cons by (auto intro!: scanned_bind [of "length (d # r')"] Suc.IH)
      have "scanned (length s) (Some (scan_atom s))"
        by (auto simp: scanned_def scan_atom_shorter)
      moreover have "scanned (length s) (Some (res_bind (scan_str r) (\<lambda>(x, r'). Inr (JStr x, r'))))"
        using scan_str_shorter [of r] Cons by (cases "scan_str r") (auto simp: less_SucI)
      ultimately show ?thesis
        using Cons by (auto intro!: scanned_skip members items)
    qed simp
  next
    case 2
    show ?case
    proof (simp only: parse_items.simps, rule scanned_bind [OF Suc.IH(1)])
      show "2 * length s < n" using 2 by simp
      fix v and r :: string
      assume r: "length r < length s"
      have "scanned (length s) (div_bind (parse_items n (skip_ws r')) (\<lambda>(vs, r2). Some (Inr (v # vs, r2))))"
        if "length r' + 1 \<le> length r" for r'
        using that r 2 skip_ws_shorter [of r'] by (auto intro!: scanned_bind [of "length (skip_ws r')"] Suc.IH)
      then show "scanned (length s) (case (v, r) of (v, r) \<Rightarrow> case skip_ws r of [] \<Rightarrow> Some (Inl ValueError)
         | d # r' \<Rightarrow> if d = CHR '']'' then Some (Inr ([v], r'))
             else if d = CHR '','' then div_bind (parse_items n (skip_ws r')) (\<lambda>(vs, r2). Some (Inr (v # vs, r2)))
             else Some (Inl ValueError))"
        using r by (auto intro!: scanned_skip)
    qed
  next
    case 3
    have member: "scanned (length s) (div_bind (parse_members n (skip_ws r)) (\<lambda>(kvs, r2). Some (Inr (kv # kvs, r2))))"
      if "length r < length s" for r and kv :: "string \<times> json"
      using that 3 skip_ws_shorter [of r] by (auto intro!: scanned_bind [of "length (skip_ws r)"] Suc.IH)
    have member_value: "scanned (length s) (div_bind (parse_value n (skip_ws r2)) (\<lambda>(v, r3).
              case skip_ws r3 of
                [] \<Rightarrow> Some (Inl ValueError)
              | e # r4 \<Rightarrow>
                  if e = CHR ''}'' then Some (Inr ([(key, v)], r4))
                  else if e = CHR '','' then
                    div_bind (parse_members n (skip_ws r4)) (\<lambda>(kvs, r5). Some (Inr ((key, v) # kvs, r5)))
                  else Some (Inl ValueError)))" if "length r2 < length s" for r2 key
    proof (rule scanned_bind [OF Suc.IH(1)])
      show "2 * length (skip_ws r2) < n" using that 3 skip_ws_shorter [of r2] by simp
    qed (use that skip_ws_shorter [of r2] in \<open>auto intro!: scanned_skip member\<close>)
    show ?case
    proof (cases "s = [] \<or> code (hd s) \<noteq> 34")
      case False
      then have "length (tl s) < length s" by (cases s) auto
      then show ?thesis
        using False by (simp only: parse_members.simps if_False)
          (rule scanned_bind [OF scanned_string], auto intro!: scanned_skip member_value)
    qed simp
  }
qed simp_all

lemma loads_total: "loads_opt s \<noteq> None"
proof -
  have "scanned (length (skip_ws s)) (parse_value (2 * length s + 1) (skip_ws s))"
    using skip_ws_shorter [of s] by (intro parse_scanned) simp
  then have "scanned 1 (div_bind (parse_value (2 * length s + 1) (skip_ws s))
      (\<lambda>(v, r). map_option (map_sum id (\<lambda>v. (v, []))) (if skip_ws r = [] then Some (Inr v) else Some (Inl ValueError))))"
    by (rule scanned_bind) simp
  then show ?thesis unfolding loads_opt_def
    by (cases "parse_value (2 * length s + 1) (skip_ws s)" rule: div_bind.cases [of "(_, \<lambda>_. None)"])
      (auto simp: scanned_def)
qed

end
