(* ===== verification/Model_Parity.thy ===== *)
theory Model_Parity
  imports Rerank Encode Json
begin

text \<open>
  What surrounds the exported networks: pair encoding (\<open>rerank/model.py\<close>), scoring in batches and the
  parity check of the exported reranker (\<open>rerank/export.py\<close>), the query encoder's vocabulary file and
  parity check (\<open>dense/export_query_encoder.py\<close>) and the check of stored passage vectors against the
  reference encoder (\<open>dense/parity.py\<close>).  Tokenizers, networks, sessions of the runtime and random draws are
  arguments; a network returns one row per input.  The lemmas say what a passed check is worth: the
  exported model ranks like the original, and its inner products are close to those of the original.
\<close>

section \<open>Pairs\<close>

definition MAX_QUERY_LEN :: nat where "MAX_QUERY_LEN = 64"
definition EVAL_MAX_LEN :: nat where "EVAL_MAX_LEN = 512"

record PairBatch =
  input_ids :: "int list list"
  attention_mask :: "int list list"
  token_type_ids :: "int list list"

record pair_tokenizer =
  tk_tokenize :: "string \<Rightarrow> string list"
  tk_join :: "string list \<Rightarrow> string" \<comment> \<open>\<open>convert_tokens_to_string\<close>\<close>
  tk_pairs :: "string list \<Rightarrow> string list \<Rightarrow> nat \<Rightarrow> nat option \<Rightarrow> PairBatch"
    \<comment> \<open>padding to the longest pair or a multiple, truncation of the passage only\<close>

definition clip_query :: "pair_tokenizer \<Rightarrow> string \<Rightarrow> nat \<Rightarrow> string" where
  "clip_query tk query max_query_len =
     (let toks = tk_tokenize tk query in
      if length toks \<le> max_query_len then query else tk_join tk (take max_query_len toks))"

definition encode_pairs :: "pair_tokenizer \<Rightarrow> string list \<Rightarrow> string list \<Rightarrow> nat \<Rightarrow> nat option \<Rightarrow> PairBatch res" where
  "encode_pairs tk queries passages max_length pad_multiple =
     (if length queries \<noteq> length passages then Inl ValueError
      else Inr (tk_pairs tk queries passages max_length pad_multiple))"

definition pair_batch :: "pair_tokenizer \<Rightarrow> string list \<Rightarrow> string list \<Rightarrow> nat \<Rightarrow> PairBatch res" where
  \<comment> \<open>with the default of 32 tokens to which lengths are rounded\<close>
  "pair_batch tk queries passages max_length = encode_pairs tk queries passages max_length (Some 32)"

definition first_logits :: "real list list \<Rightarrow> real list res" where
  \<comment> \<open>\<open>logits[:, 0]\<close>\<close>
  "first_logits logits = res_map (\<lambda>r. case r of [] \<Rightarrow> Inl IndexError | x # _ \<Rightarrow> Inr x) logits"

definition cross_encoder_graph :: "(PairBatch \<Rightarrow> real list list) \<Rightarrow> PairBatch \<Rightarrow> real list res" where
  \<comment> \<open>the exported graph\<close>
  "cross_encoder_graph clf b = first_logits (clf b)"

definition pick_device :: "string \<Rightarrow> bool \<Rightarrow> bool \<Rightarrow> string" where
  "pick_device pref cuda mps = (if pref \<noteq> ''auto'' then pref else if cuda then ''cuda'' else if mps then ''mps'' else ''cpu'')"

section \<open>Scoring in batches\<close>

function score_batches :: "('q list \<Rightarrow> 'p list \<Rightarrow> 'v list res) \<Rightarrow> nat \<Rightarrow> 'q list \<Rightarrow> 'p list \<Rightarrow> 'v list res" where
  \<comment> \<open>\<open>for i in range(0, len(Q), b)\<close> over \<open>Q[i:i + b]\<close> and \<open>P[i:i + b]\<close>\<close>
  "score_batches f b Q P =
     (if Q = [] \<or> b = 0 then Inr []
      else res_bind (f (take b Q) (take b P)) (\<lambda>s. res_bind (score_batches f b (drop b Q) (drop b P)) (\<lambda>r. Inr (s @ r))))"
  by pat_completeness auto
termination by (relation "measure (\<lambda>(f, b, Q, P). length Q)") auto

declare score_batches.simps [simp del]

definition session_threads :: "nat \<Rightarrow> nat option \<Rightarrow> nat" where
  \<comment> \<open>\<open>min(threads or MAX_CPU_THREADS, MAX_CPU_THREADS)\<close>\<close>
  "session_threads max_threads threads = min (case threads of None \<Rightarrow> max_threads | Some t \<Rightarrow> if t = 0 then max_threads else t) max_threads"

definition ort_score :: "(PairBatch \<Rightarrow> real list res) \<Rightarrow> pair_tokenizer \<Rightarrow> string list \<Rightarrow> string list \<Rightarrow> nat \<Rightarrow> nat \<Rightarrow> real list res" where
  "ort_score sess tk queries passages max_length batch =
     (if batch = 0 then Inl ValueError
      else score_batches (\<lambda>qs ps. res_bind (encode_pairs tk qs ps max_length None) sess) batch queries passages)"

definition torch_score :: "(PairBatch \<Rightarrow> real list list) \<Rightarrow> pair_tokenizer \<Rightarrow> string list \<Rightarrow> string list \<Rightarrow> nat \<Rightarrow> nat \<Rightarrow> real list res" where
  "torch_score model tk queries passages max_length batch =
     (if batch = 0 then Inl ValueError
      else score_batches (\<lambda>qs ps. res_bind (encode_pairs tk qs ps max_length None) (\<lambda>e. first_logits (model e))) batch queries passages)"

lemma score_batches_Nil [simp]: "score_batches f b [] P = Inr []"
  by (simp add: score_batches.simps)

lemma score_batches_pointwise:
  assumes "\<And>qs ps. length qs = length ps \<Longrightarrow> f qs ps = Inr (map2 g qs ps)" and "0 < b" and "length P = length Q"
  shows "score_batches f b Q P = Inr (map2 g Q P)"
  using assms(3)
proof (induction "length Q" arbitrary: Q P rule: less_induct)
  case less
  show ?case
  proof (cases "Q = []")
    case False
    have tail: "score_batches f b (drop b Q) (drop b P) = Inr (map2 g (drop b Q) (drop b P))"
      using False assms(2) less.prems by (intro less.hyps) auto
    have "map2 g (take b Q) (take b P) @ map2 g (drop b Q) (drop b P) = map2 g Q P"
      using less.prems by (simp flip: take_zip drop_zip map_append)
    then show ?thesis
      using False assms(2) less.prems by (simp add: score_batches.simps [of f b Q P] tail assms(1))
  qed simp
qed

text \<open>Batches change nothing: a session that scores each pair on its own gives, in batches of any size, the scores in order.\<close>

lemma ort_score_pointwise:
  assumes "\<And>qs ps. length qs = length ps \<Longrightarrow> sess (tk_pairs tk qs ps L None) = Inr (map2 g qs ps)"
    and "0 < batch" and "length P = length Q"
  shows "ort_score sess tk Q P L batch = Inr (map2 g Q P)"
proof -
  have "res_bind (encode_pairs tk qs ps L None) sess = Inr (map2 g qs ps)" if "length qs = length ps" for qs ps
    using that by (simp add: encode_pairs_def assms(1))
  then show ?thesis using assms(2,3) by (simp add: ort_score_def score_batches_pointwise)
qed

lemma graph_scores_as_torch: "ort_score (cross_encoder_graph clf) tk = torch_score clf tk"
proof -
  have "res_bind x (cross_encoder_graph clf) = res_bind x (\<lambda>e. first_logits (clf e))" for x
    by (cases x) (simp_all add: cross_encoder_graph_def)
  then show ?thesis by (simp add: fun_eq_iff ort_score_def torch_score_def)
qed

section \<open>Parity of the reranker\<close>

definition N_COLLECTION :: nat where "N_COLLECTION = 8841823"

fun random_pids :: "('g \<Rightarrow> nat \<Rightarrow> nat \<times> 'g) \<Rightarrow> nat \<Rightarrow> 'g \<Rightarrow> string list \<times> 'g" where
  \<comment> \<open>\<open>[str(rng.randrange(8_841_823)) for _ in range(n)]\<close>\<close>
  "random_pids randrange 0 g = ([], g)"
| "random_pids randrange (Suc n) g =
     (let (x, g1) = randrange g N_COLLECTION; (xs, g2) = random_pids randrange n g1 in (str_nat x # xs, g2))"

fun random_groups :: "('g \<Rightarrow> nat \<Rightarrow> nat \<times> 'g) \<Rightarrow> nat \<Rightarrow> qid list \<Rightarrow> 'g \<Rightarrow> (qid, string list) dict" where
  "random_groups randrange n [] g = []"
| "random_groups randrange n (q # qs) g = (let (ps, g1) = random_pids randrange n g in (q, ps) # random_groups randrange n qs g1)"

definition first_judged :: "qrels \<Rightarrow> qid \<Rightarrow> docid res" where
  \<comment> \<open>\<open>sorted(qrels[q])[0]\<close>\<close>
  "first_judged qrels q = (case sort (keys (dget qrels q [])) of [] \<Rightarrow> Inl IndexError | d # _ \<Rightarrow> Inr d)"

definition parity_group :: "(qid, string list) dict \<Rightarrow> (qid \<times> docid) \<Rightarrow> (qid \<times> docid) list" where
  "parity_group rand qp = (let (q, p) = qp in map (\<lambda>d. (q, d)) (p # dget rand q []))"

definition parity_pairs :: "('g \<Rightarrow> nat \<Rightarrow> nat \<times> 'g) \<Rightarrow> 'g \<Rightarrow> string \<Rightarrow> string \<Rightarrow> string \<Rightarrow> nat \<Rightarrow> nat \<Rightarrow> (qid \<times> string \<times> string) list res" where
  \<comment> \<open>the three lists zipped; the generator starts at \<open>random.Random(seed)\<close>\<close>
  "parity_pairs randrange g qf qrf colf n_queries per_query =
     res_bind (read_queries qf) (\<lambda>queries. res_bind (read_qrels qrf) (\<lambda>qrels.
       let qids = take n_queries (filter (dhas qrels) (keys queries)) in
       res_bind (res_map (\<lambda>q. res_bind (first_judged qrels q) (\<lambda>d. Inr (q, d))) qids) (\<lambda>pos.
         let rand = random_groups randrange (per_query - 1) qids g;
             need = set (map snd pos) \<union> set (concat (map snd rand)) in
         res_bind (load_passages (Some need) colf) (\<lambda>text.
           res_map (\<lambda>(q, d). res_bind (dlookup queries q) (\<lambda>qt. res_bind (dlookup text d) (\<lambda>p. Inr (q, qt, p))))
             (concat (map (parity_group rand) pos))))))"

definition pair_queries :: "(qid \<times> string \<times> string) list \<Rightarrow> string list" where
  "pair_queries ps = map (\<lambda>(_, q, _). q) ps"

definition pair_passages :: "(qid \<times> string \<times> string) list \<Rightarrow> string list" where
  "pair_passages ps = map (\<lambda>(_, _, p). p) ps"

record parity_result =
  pa_n_pairs :: nat
  pa_n_queries :: nat
  pa_max_abs :: real
  pa_mean_abs :: real
  pa_score_range :: "real \<times> real"
  pa_same_order :: nat
  pa_tolerance :: "real option" \<comment> \<open>None is \<open>inf\<close>\<close>
  pa_pass :: bool

definition score_order :: "real list \<Rightarrow> nat list" where
  \<comment> \<open>\<open>np.argsort(-x, kind="stable")\<close>\<close>
  "score_order x = py_sorted (\<lambda>i. - (x ! i)) [0..<length x]"

definition abs_diffs :: "real list \<Rightarrow> real list \<Rightarrow> real list" where
  "abs_diffs x y = map2 (\<lambda>a b. \<bar>a - b\<bar>) x y"

definition within_tol :: "real \<Rightarrow> real option \<Rightarrow> bool" where
  "within_tol x tol = (case tol of None \<Rightarrow> True | Some t \<Rightarrow> x \<le> t)"

definition mean_list :: "real list \<Rightarrow> real" where
  "mean_list xs = sum_list xs / real (length xs)"

definition compare_scores :: "real list \<Rightarrow> real list \<Rightarrow> nat \<Rightarrow> real option \<Rightarrow> parity_result res" where
  \<comment> \<open>the reference scores, the candidate's, one for each pair\<close>
  "compare_scores ref got per_query tol =
     (if ref = [] \<or> per_query = 0 then Inl ValueError
      else
        (let d = abs_diffs ref got; groups = zip (slices per_query ref) (slices per_query got) in
         Inr \<lparr>pa_n_pairs = length ref, pa_n_queries = length groups, pa_max_abs = Max (set d), pa_mean_abs = mean_list d,
              pa_score_range = (Min (set ref), Max (set ref)),
              pa_same_order = length (filter (\<lambda>(r, x). score_order r = score_order x) groups),
              pa_tolerance = tol, pa_pass = within_tol (Max (set d)) tol\<rparr>))"

definition reranker_parity :: "(PairBatch \<Rightarrow> real list list) \<Rightarrow> (PairBatch \<Rightarrow> real list res) \<Rightarrow> pair_tokenizer \<Rightarrow> ('g \<Rightarrow> nat \<Rightarrow> nat \<times> 'g) \<Rightarrow> 'g \<Rightarrow>
    string \<Rightarrow> string \<Rightarrow> string \<Rightarrow> nat \<Rightarrow> nat \<Rightarrow> real option \<Rightarrow> parity_result res" where
  \<comment> \<open>\<open>parity\<close>, with the default batches of 64\<close>
  "reranker_parity model sess tk randrange g qf qrf colf n_queries per_query tol =
     res_bind (parity_pairs randrange g qf qrf colf n_queries per_query) (\<lambda>ps.
       res_bind (torch_score model tk (pair_queries ps) (pair_passages ps) EVAL_MAX_LEN 64) (\<lambda>ref.
       res_bind (ort_score sess tk (pair_queries ps) (pair_passages ps) EVAL_MAX_LEN 64) (\<lambda>got. compare_scores ref got per_query tol)))"

definition export_main :: "(PairBatch \<Rightarrow> real list list) \<Rightarrow> (PairBatch \<Rightarrow> real list res) \<Rightarrow> (PairBatch \<Rightarrow> real list res) option \<Rightarrow>
    pair_tokenizer \<Rightarrow> ('g \<Rightarrow> nat \<Rightarrow> nat \<times> 'g) \<Rightarrow> 'g \<Rightarrow> string \<Rightarrow> string \<Rightarrow> string \<Rightarrow> ((parity_result \<times> parity_result option) \<times> bool) res" where
  \<comment> \<open>the checks of \<open>main\<close>, the int8 model when its file exists: what is written and whether the command succeeds;
    the quantised result is recorded without tolerance and verdict\<close>
  "export_main model fp32 int8 tk randrange g qf qrf colf =
     res_bind (reranker_parity model fp32 tk randrange g qf qrf colf 100 5 (Some (1 / 1000))) (\<lambda>r.
     res_bind (case int8 of
         None \<Rightarrow> Inr None
       | Some s \<Rightarrow> res_bind (reranker_parity model s tk randrange g qf qrf colf 100 5 None) (\<lambda>r8. Inr (Some r8))) (\<lambda>r8.
       Inr ((r, r8), pa_pass r)))"

section \<open>A passed check keeps the order\<close>

lemma slices_map: "slices b (map f xs) = map (map f) (slices b xs)"
proof (induction b xs rule: slices.induct)
  case (1 b xs)
  then show ?case
    by (cases "xs = [] \<or> b = 0") (auto simp: slices.simps [of b xs] slices.simps [of b "map f xs"] take_map drop_map)
qed

lemma slices_concat: "0 < b \<Longrightarrow> list_all (\<lambda>ys. length ys = b) yss \<Longrightarrow> slices b (concat yss) = yss"
  by (induction yss) (auto simp: slices.simps [of b "_ @ _"])

lemma sort_key_cong_order:
  assumes "\<And>x y. x \<in> set xs \<Longrightarrow> y \<in> set xs \<Longrightarrow> f x \<le> f y \<longleftrightarrow> g x \<le> g y"
  shows "py_sorted f xs = py_sorted g xs"
proof -
  have ins: "insort_key f a ys = insort_key g a ys"
    if "\<And>y. y \<in> set ys \<Longrightarrow> f a \<le> f y \<longleftrightarrow> g a \<le> g y" for a ys
    using that by (induction ys) auto
  have "foldr (insort_key f) ys [] = foldr (insort_key g) ys [] \<and> set (foldr (insort_key g) ys []) = set ys"
    if "set ys \<subseteq> set xs" for ys
    using that
  proof (induction ys)
    case (Cons y ys)
    then have s: "foldr (insort_key f) ys [] = foldr (insort_key g) ys []" "set (foldr (insort_key g) ys []) = set ys" by simp_all
    have "insort_key f y (foldr (insort_key g) ys []) = insort_key g y (foldr (insort_key g) ys [])"
      using Cons.prems s(2) by (intro ins assms) auto
    then show ?case using s by (simp add: set_insort_key)
  qed simp
  then show ?thesis by (simp add: py_sorted_def sort_key_def)
qed

definition separated :: "real \<Rightarrow> real list \<Rightarrow> bool" where
  \<comment> \<open>no two scores within twice the tolerance\<close>
  "separated t x = (\<forall>i < length x. \<forall>j < length x. i \<noteq> j \<longrightarrow> 2 * t < \<bar>x ! i - x ! j\<bar>)"

lemma close_scores_same_order:
  assumes "length y = length x" and "\<And>i. i < length x \<Longrightarrow> \<bar>x ! i - y ! i\<bar> \<le> t" and "separated t x"
  shows "score_order x = score_order y"
proof -
  have "- (x ! i) \<le> - (x ! j) \<longleftrightarrow> - (y ! i) \<le> - (y ! j)" if "i < length x" "j < length x" for i j
  proof (cases "i = j")
    case False
    then have "2 * t < \<bar>x ! i - x ! j\<bar>" using assms(3) that by (simp add: separated_def)
    then show ?thesis using assms(2) [OF that(1)] assms(2) [OF that(2)] by linarith
  qed simp
  then show ?thesis unfolding score_order_def assms(1) by (intro sort_key_cong_order) auto
qed

lemma score_batches_length:
  assumes "\<And>qs ps v. length qs = length ps \<Longrightarrow> f qs ps = Inr v \<Longrightarrow> length v = length qs"
  shows "score_batches f b Q P = Inr v \<Longrightarrow> length P = length Q \<Longrightarrow> 0 < b \<Longrightarrow> length v = length Q"
proof (induction "length Q" arbitrary: Q P v rule: less_induct)
  case less
  show ?case
  proof (cases "Q = []")
    case True
    then show ?thesis using less.prems by simp
  next
    case False
    then obtain s r where s: "f (take b Q) (take b P) = Inr s" and r: "score_batches f b (drop b Q) (drop b P) = Inr r" and v: "v = s @ r"
      using less.prems by (auto simp: score_batches.simps [of f b Q P])
    have "length s = length (take b Q)" using assms [OF _ s] less.prems by simp
    moreover have "length r = length (drop b Q)" using less.hyps [OF _ r] False less.prems by simp
    ultimately show ?thesis by (simp add: v)
  qed
qed

lemma first_logits_length: "first_logits l = Inr v \<Longrightarrow> length v = length l"
  unfolding first_logits_def by (rule res_map_Inr_length)

lemma compare_scores_order:
  assumes r: "compare_scores ref got b (Some t) = Inr r" "pa_pass r" and l: "length got = length ref"
    and sep: "list_all (separated t) (slices b ref)"
  shows "pa_same_order r = pa_n_queries r"
proof -
  define z where "z = zip ref got"
  have z: "ref = map fst z" "got = map snd z" using l by (simp_all add: z_def)
  have b: "0 < b" and mx: "Max (set (abs_diffs ref got)) \<le> t"
    using r by (auto simp: compare_scores_def within_tol_def Let_def split: if_splits)
  have close: "\<bar>fst e - snd e\<bar> \<le> t" if "e \<in> set z" for e
  proof -
    have "\<bar>fst e - snd e\<bar> \<in> set (abs_diffs ref got)"
      using that by (force simp: abs_diffs_def z_def)
    then have "\<bar>fst e - snd e\<bar> \<le> Max (set (abs_diffs ref got))" by (rule Max_ge [OF finite_set])
    then show ?thesis using mx by (rule order_trans)
  qed
  have same: "score_order (map fst w) = score_order (map snd w)" if "w \<in> set (slices b z)" for w
  proof (rule close_scores_same_order)
    have "set w \<subseteq> set z" using that concat_slices [OF b, of z] by (metis Union_upper set_concat image_eqI)
    then show "\<bar>map fst w ! i - map snd w ! i\<bar> \<le> t" if "i < length (map fst w)" for i
    proof -
      have "w ! i \<in> set z" using \<open>set w \<subseteq> set z\<close> that by auto
      then show ?thesis using close [of "w ! i"] that by simp
    qed
    have "map fst w \<in> set (slices b ref)" using that by (simp add: z(1) slices_map)
    then show "separated t (map fst w)" using sep by (simp add: list_all_iff)
  qed simp
  have "zip (slices b ref) (slices b got) = map (\<lambda>w. (map fst w, map snd w)) (slices b z)"
    by (simp add: z slices_map zip_map1 zip_map2 zip_same_conv_map)
  then have "filter (\<lambda>(r, x). score_order r = score_order x) (zip (slices b ref) (slices b got)) = zip (slices b ref) (slices b got)"
    using same by (auto simp: filter_id_conv)
  then show ?thesis using r b by (auto simp: compare_scores_def Let_def split: if_splits)
qed

lemma random_pids_length: "length (fst (random_pids randrange n g)) = n"
  by (induction n arbitrary: g) (simp_all add: case_prod_unfold Let_def)

lemma random_groups_keys: "keys (random_groups randrange n qs g) = qs"
  by (induction qs arbitrary: g) (simp_all add: case_prod_unfold Let_def)

lemma random_groups_length: "(q, ps) \<in> set (random_groups randrange n qs g) \<Longrightarrow> length ps = n"
proof (induction qs arbitrary: g)
  case (Cons q' qs)
  then show ?case using random_pids_length [of randrange n g] by (auto simp: Let_def case_prod_unfold)
qed simp

lemma res_map_image:
  "res_map f xs = Inr ys \<Longrightarrow> (\<And>x y. x \<in> set xs \<Longrightarrow> f x = Inr y \<Longrightarrow> h y = k x) \<Longrightarrow> map h ys = map k xs"
  by (induction xs arbitrary: ys) auto

text \<open>The pairs come in runs of \<open>per_query\<close>, one run for each query, the judged passage first.\<close>

lemma parity_pairs_groups:
  assumes "parity_pairs randrange g qf qrf colf n b = Inr ps" and "0 < b" and "read_queries qf = Inr queries" and "read_qrels qrf = Inr qrels"
  defines "qids \<equiv> take n (filter (dhas qrels) (keys queries))"
  shows "map (map fst) (slices b ps) = map (replicate b) qids"
proof -
  let ?rand = "random_groups randrange (b - 1) qids g"
  obtain pos txts where pos: "res_map (\<lambda>q. res_bind (first_judged qrels q) (\<lambda>d. Inr (q, d))) qids = Inr pos"
    and ps: "res_map (\<lambda>(q, d). res_bind (dlookup queries q) (\<lambda>qt. res_bind (dlookup txts d) (\<lambda>p. Inr (q, qt, p))))
      (concat (map (parity_group ?rand) pos)) = Inr ps"
    using assms(1) by (auto simp: parity_pairs_def Let_def assms(3,4) qids_def)
  have fst_pos: "map fst pos = qids" using res_map_image [OF pos, of fst "\<lambda>q. q"] by auto
  have "map fst ps = map fst (concat (map (parity_group ?rand) pos))"
    using res_map_image [OF ps, of fst fst] by auto
  also have "\<dots> = concat (map (replicate b) qids)"
  proof -
    have "map fst (parity_group ?rand qp) = replicate b (fst qp)" if "qp \<in> set pos" for qp
    proof -
      have "fst qp \<in> set (keys ?rand)" using that fst_pos by (force simp: random_groups_keys)
      then have "length (dget ?rand (fst qp) []) = b - 1" by (rule random_groups_length [OF dget_in])
      then show ?thesis using assms(2)
        by (cases b) (simp_all add: parity_group_def case_prod_unfold comp_def map_replicate_const)
    qed
    then show ?thesis by (simp add: map_concat comp_def fst_pos [symmetric] cong: map_cong)
  qed
  finally have "map fst ps = concat (map (replicate b) qids)" .
  then have "slices b (map fst ps) = map (replicate b) qids"
    using assms(2) by (simp add: slices_concat list_all_iff)
  then show ?thesis by (simp add: slices_map)
qed

lemma slices_length_eq: "length xs = length ys \<Longrightarrow> length (slices b xs) = length (slices b ys)"
proof -
  assume "length xs = length ys"
  then have "map (\<lambda>_. ()) xs = map (\<lambda>_. ()) ys" by (simp add: list_eq_iff_nth_eq)
  then have "map (map (\<lambda>_. ())) (slices b xs) = map (map (\<lambda>_. ())) (slices b ys)" by (simp flip: slices_map)
  then show ?thesis by (metis length_map)
qed

lemma torch_score_length:
  assumes "\<And>qs ps. length qs = length ps \<Longrightarrow> length (model (tk_pairs tk qs ps L None)) = length qs"
    and "torch_score model tk Q P L b = Inr v" and "length P = length Q"
  shows "length v = length Q"
proof -
  have s: "score_batches (\<lambda>qs ps. res_bind (encode_pairs tk qs ps L None) (\<lambda>e. first_logits (model e))) b Q P = Inr v" "0 < b"
    using assms(2) by (auto simp: torch_score_def split: if_splits)
  show ?thesis
    by (rule score_batches_length [OF _ s(1) assms(3) s(2)]) (auto simp: encode_pairs_def assms(1) dest: first_logits_length)
qed

lemma ort_score_length:
  assumes "\<And>qs ps v. length qs = length ps \<Longrightarrow> sess (tk_pairs tk qs ps L None) = Inr v \<Longrightarrow> length v = length qs"
    and "ort_score sess tk Q P L b = Inr v" and "length P = length Q"
  shows "length v = length Q"
proof -
  have s: "score_batches (\<lambda>qs ps. res_bind (encode_pairs tk qs ps L None) sess) b Q P = Inr v" "0 < b"
    using assms(2) by (auto simp: ort_score_def split: if_splits)
  show ?thesis by (rule score_batches_length [OF _ s(1) assms(3) s(2)]) (auto simp: encode_pairs_def assms(1))
qed

text \<open>C35: what a passed parity check of the exported reranker is worth: the pairs it scores fall into runs of \<open>per_query\<close> that
  belong to one query each, and if the original's scores within each run are more than twice the
  tolerance apart then every query is ranked in the same order by both, so the recorded count of equal
  orders is the number of judged queries scored.\<close>
theorem parity_pass_keeps_order:
  assumes run: "reranker_parity model sess tk randrange g qf qrf colf n b (Some t) = Inr r" and pass: "pa_pass r" and b: "0 < b"
    and read: "read_queries qf = Inr queries" "read_qrels qrf = Inr qrels" "parity_pairs randrange g qf qrf colf n b = Inr ps"
    and ref: "torch_score model tk (pair_queries ps) (pair_passages ps) EVAL_MAX_LEN 64 = Inr ref"
    and model_rows: "\<And>qs ps. length qs = length ps \<Longrightarrow> length (model (tk_pairs tk qs ps EVAL_MAX_LEN None)) = length qs"
    and sess_rows: "\<And>qs ps v. length qs = length ps \<Longrightarrow> sess (tk_pairs tk qs ps EVAL_MAX_LEN None) = Inr v \<Longrightarrow> length v = length qs"
    and sep: "list_all (separated t) (slices b ref)"
  defines "qids \<equiv> take n (filter (dhas qrels) (keys queries))"
  shows "map (map fst) (slices b ps) = map (replicate b) qids \<and> pa_n_queries r = length qids \<and> pa_same_order r = length qids"
proof -
  have groups: "map (map fst) (slices b ps) = map (replicate b) qids"
    unfolding qids_def by (rule parity_pairs_groups [OF read(3) b read(1,2)])
  obtain got where got: "ort_score sess tk (pair_queries ps) (pair_passages ps) EVAL_MAX_LEN 64 = Inr got"
    and cmp: "compare_scores ref got b (Some t) = Inr r"
    using run ref by (auto simp: reranker_parity_def read(3))
  have l: "length ref = length ps" "length got = length ps"
    using torch_score_length [where model = model, OF model_rows ref] ort_score_length [where sess = sess, OF sess_rows got]
    by (simp_all add: pair_queries_def pair_passages_def)
  have "pa_same_order r = pa_n_queries r" using compare_scores_order [OF cmp pass _ sep] l by simp
  moreover have "pa_n_queries r = length (slices b ps)"
    using cmp slices_length_eq [of ref ps b] slices_length_eq [of got ps b] l
    by (auto simp: compare_scores_def Let_def split: if_splits)
  moreover have "length (slices b ps) = length qids" using arg_cong [OF groups, of length] by simp
  ultimately show ?thesis using groups by simp
qed

definition demo_tokenizer :: pair_tokenizer where
  "demo_tokenizer =
     \<lparr>tk_tokenize = \<lambda>s. [s], tk_join = concat,
      tk_pairs = \<lambda>qs ps L pad. \<lparr>input_ids = map (\<lambda>p. [int (length p)]) ps, attention_mask = [], token_type_ids = []\<rparr>\<rparr>"

definition demo_cross_encoder :: "PairBatch \<Rightarrow> real list list" where
  "demo_cross_encoder e = map (\<lambda>x. [of_int (hd x)]) (input_ids e)"

definition demo_session :: "PairBatch \<Rightarrow> real list res" where
  \<comment> \<open>an export whose scores are off by 1/2000\<close>
  "demo_session e = Inr (map (\<lambda>x. of_int (hd x) + 1 / 2000) (input_ids e))"

definition demo_range :: "nat \<Rightarrow> nat \<Rightarrow> nat \<times> nat" where
  "demo_range g n = (g, g + 1)"

definition demo_parity_files :: "string \<times> string \<times> string" where
  "demo_parity_files = (''q'' @ tab @ ''a'' @ nl, ''q 0 7 1'' @ nl, ''7'' @ tab @ ''x'' @ nl @ ''8'' @ tab @ ''xyz'' @ nl)"

lemma demo_parity_reads:
  "read_queries (fst demo_parity_files) = Inr [(''q'', ''a'')]"
  "read_qrels (fst (snd demo_parity_files)) = Inr [(''q'', [(''7'', 1)])]"
  "load_passages (Some {''8'', ''7''}) (snd (snd demo_parity_files)) = Inr [(''7'', ''x''), (''8'', ''xyz'')]"
  by code_simp+

lemma demo_parity_pairs:
  "parity_pairs demo_range 8 (fst demo_parity_files) (fst (snd demo_parity_files)) (snd (snd demo_parity_files)) 1 2 =
     Inr [(''q'', ''a'', ''x''), (''q'', ''a'', ''xyz'')]"
proof -
  have r: "random_groups demo_range 1 [''q''] 8 = [(''q'', [''8''])]"
  proof -
    have "str_nat 8 = ''8''" by code_simp
    then have "random_pids demo_range (Suc 0) 8 = ([''8''], 9)" by (simp add: demo_range_def)
    then show ?thesis by simp
  qed
  have k: "take 1 (filter (dhas [(''q'', [(''7'', 1 :: int)])]) (keys [(''q'', ''a'')])) = [''q'']" by (simp add: dhas_def)
  have f: "first_judged [(''q'', [(''7'', 1)])] ''q'' = Inr ''7''" by (simp add: first_judged_def)
  have n: "2 - 1 = (1 :: nat)" by simp
  show ?thesis
    unfolding parity_pairs_def demo_parity_reads res_bind.simps Let_def k n r
    using demo_parity_reads(3) by (simp add: f parity_group_def dlookup_def)
qed

theorem parity_pass_keeps_order_witness:
  "\<exists>r. reranker_parity demo_cross_encoder demo_session demo_tokenizer demo_range 8 (fst demo_parity_files) (fst (snd demo_parity_files))
         (snd (snd demo_parity_files)) 1 2 (Some (1 / 1000)) = Inr r \<and> pa_n_queries r = 1 \<and> pa_same_order r = 1"
proof -
  let ?ps = "[(''q'', ''a'', ''x''), (''q'', ''a'', ''xyz'')]"
  have ref: "torch_score demo_cross_encoder demo_tokenizer (pair_queries ?ps) (pair_passages ?ps) EVAL_MAX_LEN 64 = Inr [1, 3]"
    by (simp add: torch_score_def pair_queries_def pair_passages_def score_batches.simps [of _ 64] encode_pairs_def demo_tokenizer_def
        demo_cross_encoder_def first_logits_def)
  have got: "ort_score demo_session demo_tokenizer (pair_queries ?ps) (pair_passages ?ps) EVAL_MAX_LEN 64 = Inr [1 + 1 / 2000, 3 + 1 / 2000]"
    by (simp add: ort_score_def pair_queries_def pair_passages_def score_batches.simps [of _ 64] encode_pairs_def demo_tokenizer_def demo_session_def)
  obtain r where r: "compare_scores [1, 3] [1 + 1 / 2000, 3 + 1 / 2000] 2 (Some (1 / 1000)) = Inr r" "pa_pass r"
    by (simp add: compare_scores_def abs_diffs_def within_tol_def Let_def)
  have run: "reranker_parity demo_cross_encoder demo_session demo_tokenizer demo_range 8 (fst demo_parity_files) (fst (snd demo_parity_files))
      (snd (snd demo_parity_files)) 1 2 (Some (1 / 1000)) = Inr r"
    unfolding reranker_parity_def demo_parity_pairs by (simp only: res_bind.simps ref got r)
  have sep: "list_all (separated (1 / 1000)) (slices 2 [1, 3])"
    by (simp add: slices.simps [of 2] separated_def All_less_Suc2 nth_Cons')
  have rows: "length (demo_cross_encoder (tk_pairs demo_tokenizer qs ps EVAL_MAX_LEN None)) = length qs" if "length qs = length ps" for qs ps
    using that by (simp add: demo_cross_encoder_def demo_tokenizer_def)
  have sess_rows: "length v = length qs" if "length qs = length ps" "demo_session (tk_pairs demo_tokenizer qs ps EVAL_MAX_LEN None) = Inr v" for qs ps v
    using that by (auto simp: demo_session_def demo_tokenizer_def)
  have "pa_n_queries r = length (take 1 (filter (dhas [(''q'', [(''7'', 1 :: int)])]) (keys [(''q'', ''a'')]))) \<and>
     pa_same_order r = length (take 1 (filter (dhas [(''q'', [(''7'', 1 :: int)])]) (keys [(''q'', ''a'')])))"
    using parity_pass_keeps_order [OF run r(2) _ demo_parity_reads(1,2) demo_parity_pairs ref rows sess_rows sep] by simp
  then show ?thesis using run by (simp add: dhas_def)
qed

section \<open>The vocabulary file\<close>

definition vocab_text :: "(string, nat) dict \<Rightarrow> string res" where
  \<comment> \<open>one token per line, by id; the ids must be \<open>0..n-1\<close>\<close>
  "vocab_text v =
     (let ids = sort (map snd v) in
      if ids \<noteq> [0..<length ids] then Inl ValueError
      else let inv = dict_of (map (\<lambda>(t, i). (i, t)) v) in Inr (unlines (map (\<lambda>i. dget inv i []) ids)))"

definition save_vocab :: "string option \<Rightarrow> string option \<Rightarrow> (string, nat) dict \<Rightarrow> string res" where
  \<comment> \<open>\<open>vocab.txt\<close> afterwards: the one the tokenizer wrote, the one beside a local model, or one rebuilt\<close>
  "save_vocab existing source v =
     (case existing of Some f \<Rightarrow> Inr f | None \<Rightarrow> (case source of Some f \<Rightarrow> Inr f | None \<Rightarrow> vocab_text v))"

text \<open>Line \<open>i\<close> of the rebuilt file is the token with id \<open>i\<close>, so the broker reads the tokenizer's own numbering.\<close>

lemma vocab_text_lines:
  assumes "vocab_text v = Inr f" and "list_all (one_line \<circ> fst) v" and "(t, i) \<in> set v"
  shows "length (text_lines f) = length v \<and> text_lines f ! i = t @ nl \<and> i < length v"
proof -
  have ids: "sort (map snd v) = [0..<length v]" and f: "f = unlines (map (\<lambda>i. dget (dict_of (map (\<lambda>(t, i). (i, t)) v)) i []) [0..<length v])"
    using assms(1) by (auto simp: vocab_text_def Let_def split: if_splits)
  let ?inv = "map (\<lambda>(t, i). (i, t)) v"
  have "distinct (sort (map snd v))" by (simp add: ids)
  then have d: "distinct (map fst ?inv)" by (simp add: comp_def case_prod_unfold)
  have inv: "dict_of ?inv = ?inv" by (rule dict_of_distinct [OF d])
  have set_ids: "snd ` set v = {..<length v}" using arg_cong [OF ids, of set] by (simp add: lessThan_atLeast0)
  have get: "dget ?inv j [] = t'" if "(t', j) \<in> set v" for t' j
    using that by (intro dget_present [OF d]) force
  have "one_line (dget ?inv j [])" if "j < length v" for j
  proof -
    have "j \<in> snd ` set v" using that set_ids by simp
    then obtain t' where "(t', j) \<in> set v" by force
    then show ?thesis using assms(2) get by (fastforce simp: list_all_iff)
  qed
  then have lines: "text_lines f = map (\<lambda>j. dget ?inv j [] @ nl) [0..<length v]"
    unfolding f inv by (subst text_lines_unlines) (auto simp: list_all_iff)
  have "i < length v" using assms(3) set_ids by force
  then show ?thesis using get [OF assms(3)] by (simp add: lines)
qed

section \<open>Parity of the query encoder\<close>

definition vnorm :: "vector \<Rightarrow> real" where
  "vnorm x = sqrt (inner x x)"

definition ort_encode :: "(string list \<Rightarrow> vector list) \<Rightarrow> string list \<Rightarrow> nat \<Rightarrow> vector list res" where
  \<comment> \<open>tokenizer and session as one function of a batch of texts; concatenating no batch raises\<close>
  "ort_encode run txts batch =
     (if batch = 0 \<or> txts = [] then Inl ValueError else Inr (concat (map run (slices batch txts))))"

fun parity_queries :: "nat \<Rightarrow> (string \<times> string option) list \<Rightarrow> (string list \<times> string) res" where
  \<comment> \<open>the first file with enough queries; a file that does not exist is passed over\<close>
  "parity_queries n [] = Inl FileNotFoundError"
| "parity_queries n ((path, None) # r) = parity_queries n r"
| "parity_queries n ((path, Some f) # r) =
     res_bind (read_queries f) (\<lambda>q. if n \<le> length q then Inr (take n (map snd q), path) else parity_queries n r)"

definition row_cos :: "vector \<Rightarrow> vector \<Rightarrow> real option" where
  \<comment> \<open>a zero vector gives NaN\<close>
  "row_cos x y = (if vnorm x = 0 \<or> vnorm y = 0 then None else Some (inner x y / (vnorm x * vnorm y)))"

definition np_min :: "real option list \<Rightarrow> real option" where
  "np_min xs = (if None \<in> set xs then None else Some (Min (the ` set xs)))"

definition np_mean :: "real option list \<Rightarrow> real option" where
  "np_mean xs = (if None \<in> set xs then None else Some (mean_list (map the xs)))"

definition at_least :: "real option \<Rightarrow> real \<Rightarrow> bool" where
  "at_least x t = (case x of None \<Rightarrow> False | Some y \<Rightarrow> t \<le> y)"

record encoder_parity =
  ep_n_queries :: nat
  ep_source :: string
  ep_cos_min :: "real option"
  ep_cos_mean :: "real option"
  ep_max_abs :: real
  ep_norm_min :: real
  ep_norm_max :: real
  ep_pass :: bool

definition query_parity :: "(string list \<Rightarrow> vector list) \<Rightarrow> (string list \<Rightarrow> vector list) \<Rightarrow> string \<Rightarrow> nat \<Rightarrow> (string \<times> string option) list \<Rightarrow> encoder_parity res" where
  \<comment> \<open>\<open>parity\<close>: the reference encoder, the exported one in batches of 64\<close>
  "query_parity st run prefix n candidates =
     res_bind (parity_queries n candidates) (\<lambda>(queries, source).
       let txts = map (\<lambda>q. prefix @ q) queries; ref = st txts in
       res_bind (ort_encode run txts 64) (\<lambda>got.
         let cos = map2 row_cos ref got; norms = map vnorm got in
         Inr \<lparr>ep_n_queries = length queries, ep_source = source, ep_cos_min = np_min cos, ep_cos_mean = np_mean cos,
              ep_max_abs = Max (set (concat (map2 abs_diffs ref got))), ep_norm_min = Min (set norms), ep_norm_max = Max (set norms),
              ep_pass = at_least (np_min cos) (9999 / 10000)\<rparr>))"

definition write_sanity :: "(string list \<Rightarrow> vector list) \<Rightarrow> (string \<Rightarrow> int list) \<Rightarrow> string \<Rightarrow> (string \<times> json) list \<Rightarrow> (string \<times> json) list res" where
  \<comment> \<open>the entries of \<open>encoder_config.json\<close> with the ids and the first 8 components of one query\<close>
  "write_sanity run ids txt cfg =
     res_bind (ort_encode run [QUERY_PREFIX @ txt] 64) (\<lambda>vs.
       case vs of
         [] \<Rightarrow> Inl IndexError
       | vec # _ \<Rightarrow> Inr (dset cfg ''sanity'' (JObj [(''query'', JStr txt), (''input_ids'', JArr (map JInt (ids (QUERY_PREFIX @ txt)))),
             (''embedding_first8'', JArr (map (\<lambda>x. JFloat (round_to 6 x)) (take 8 vec)))])))"

section \<open>A passed check bounds every score\<close>

lemma inner_Nil [simp]: "inner [] y = 0" "inner x [] = 0"
  by (simp_all add: inner_def)

lemma inner_Cons [simp]: "inner (a # x) (b # y) = a * b + inner x y"
  by (simp add: inner_def)

lemma inner_self_nonneg: "0 \<le> inner x x"
  by (induction x) simp_all

lemma vnorm_square: "vnorm x ^ 2 = inner x x"
  by (simp add: vnorm_def inner_self_nonneg)

lemma inner_minus: "length y = length x \<Longrightarrow> length d = length x \<Longrightarrow> inner (map2 (-) x y) d = inner x d - inner y d"
  by (induction x arbitrary: y d) (auto simp: length_Suc_conv algebra_simps)

lemma inner_commute: "inner x y = inner y x"
proof (induction x arbitrary: y)
  case (Cons a x)
  then show ?case by (cases y) simp_all
qed simp

lemma inner_minus_self: "length y = length x \<Longrightarrow> inner (map2 (-) x y) (map2 (-) x y) = inner x x - 2 * inner x y + inner y y"
  by (induction x arbitrary: y) (auto simp: length_Suc_conv algebra_simps)

lemma cauchy_schwarz: "(inner x y)\<^sup>2 \<le> inner x x * inner y y"
proof (induction x arbitrary: y)
  case (Cons a x)
  show ?case
  proof (cases y)
    case (Cons b y')
    let ?A = "inner x x" and ?B = "inner y' y'" and ?S = "inner x y'"
    have nn: "0 \<le> ?A" "0 \<le> ?B" by (simp_all add: inner_self_nonneg)
    have "(2 * a * b * ?S)\<^sup>2 \<le> (a\<^sup>2 * ?B + b\<^sup>2 * ?A)\<^sup>2"
    proof -
      have "(2 * a * b * ?S)\<^sup>2 = 4 * (a * b)\<^sup>2 * ?S\<^sup>2" by (simp add: power2_eq_square)
      also have "\<dots> \<le> 4 * (a * b)\<^sup>2 * (?A * ?B)" using Cons.IH by (intro mult_left_mono) simp_all
      also have "\<dots> = 4 * (a\<^sup>2 * ?B) * (b\<^sup>2 * ?A)" by (simp add: power2_eq_square)
      also have "\<dots> \<le> (a\<^sup>2 * ?B + b\<^sup>2 * ?A)\<^sup>2"
        using zero_le_power2 [of "a\<^sup>2 * ?B - b\<^sup>2 * ?A"] by (simp add: power2_eq_square algebra_simps)
      finally show ?thesis .
    qed
    then have "\<bar>2 * a * b * ?S\<bar> \<le> \<bar>a\<^sup>2 * ?B + b\<^sup>2 * ?A\<bar>" by (simp only: abs_le_square_iff)
    also have "\<dots> = a\<^sup>2 * ?B + b\<^sup>2 * ?A" using nn by simp
    finally have "2 * a * b * ?S \<le> a\<^sup>2 * ?B + b\<^sup>2 * ?A" by simp
    moreover have "?S\<^sup>2 \<le> ?A * ?B" by (rule Cons.IH)
    ultimately show ?thesis by (simp add: Cons power2_eq_square algebra_simps)
  qed simp
qed simp

lemma close_unit_vectors:
  assumes "length y = length x" "length d = length x" and "inner x x = 1" "inner y y = 1" "inner d d = 1" and "1 - e \<le> inner x y"
  shows "(inner x d - inner y d)\<^sup>2 \<le> 2 * e"
proof -
  have "(inner (map2 (-) x y) d)\<^sup>2 \<le> inner (map2 (-) x y) (map2 (-) x y) * 1"
    using cauchy_schwarz [of "map2 (-) x y" d] assms(5) by simp
  also have "\<dots> \<le> 2 * e" using assms by (simp add: inner_minus_self)
  finally show ?thesis using assms(1,2) by (simp add: inner_minus)
qed

lemma np_min_at_least: "at_least (np_min xs) t \<Longrightarrow> x \<in> set xs \<Longrightarrow> \<exists>c. x = Some c \<and> t \<le> c"
proof -
  assume a: "at_least (np_min xs) t" "x \<in> set xs"
  then have n: "None \<notin> set xs" and m: "t \<le> Min (the ` set xs)" by (auto simp: np_min_def at_least_def split: if_splits)
  have "x \<noteq> None" using a(2) n by metis
  then obtain c where x: "x = Some c" by blast
  have "c \<in> the ` set xs" using a(2) x by force
  then have "Min (the ` set xs) \<le> c" by (intro Min_le) simp_all
  then show ?thesis using m x by simp
qed

lemma query_parity_cosines:
  assumes "query_parity st run prefix n candidates = Inr r" and "ep_pass r" and "parity_queries n candidates = Inr (queries, source)"
    and "ort_encode run (map (\<lambda>q. prefix @ q) queries) 64 = Inr got" and "i < length got" and "length (st (map (\<lambda>q. prefix @ q) queries)) = length got"
  defines "ref \<equiv> st (map (\<lambda>q. prefix @ q) queries)"
  shows "\<exists>c. row_cos (ref ! i) (got ! i) = Some c \<and> 9999 / 10000 \<le> c"
proof -
  have p: "at_least (np_min (map2 row_cos ref got)) (9999 / 10000)"
    using assms(1,2) by (auto simp: query_parity_def assms(3,4) Let_def ref_def)
  have "row_cos (ref ! i) (got ! i) \<in> set (map2 row_cos ref got)"
    using assms(5,6) by (auto simp: ref_def set_zip intro!: image_eqI [of _ _ "(ref ! i, got ! i)"])
  then show ?thesis using np_min_at_least [OF p] by blast
qed

lemma row_cos_unit: "inner x x = 1 \<Longrightarrow> inner y y = 1 \<Longrightarrow> row_cos x y = Some (inner x y)"
  by (simp add: row_cos_def vnorm_def)

lemma concat_map_rows: "(\<And>ts. length (run ts) = length ts) \<Longrightarrow> length (concat (map run tss)) = length (concat tss)"
  by (induction tss) simp_all

text \<open>C36: what a passed parity check of the query encoder is worth: when both encoders return one unit vector for each text, every
  inner product of a checked query with a unit passage vector, so every score of dense retrieval, changes by at
  most 0.0142 when the exported encoder replaces the reference.\<close>
theorem query_parity_bounds_scores:
  assumes run: "query_parity st run prefix n candidates = Inr r" and pass: "ep_pass r"
    and queries: "parity_queries n candidates = Inr (queries, source)" and i: "i < length queries"
    and st_rows: "\<And>ts. length (st ts) = length ts" and run_rows: "\<And>ts. length (run ts) = length ts"
    and st_unit: "\<And>ts v. v \<in> set (st ts) \<Longrightarrow> length v = m \<and> inner v v = 1"
    and run_unit: "\<And>ts v. v \<in> set (run ts) \<Longrightarrow> length v = m \<and> inner v v = 1"
    and d: "length d = m" "inner d d = 1"
  shows "\<exists>got. ort_encode run (map (\<lambda>q. prefix @ q) queries) 64 = Inr got \<and>
    \<bar>inner (st (map (\<lambda>q. prefix @ q) queries) ! i) d - inner (got ! i) d\<bar> \<le> 142 / 10000"
proof -
  let ?txts = "map (\<lambda>q. prefix @ q) queries"
  define got where "got = concat (map run (slices 64 ?txts))"
  have g: "ort_encode run ?txts 64 = Inr got" using i by (auto simp: ort_encode_def got_def)
  have l: "length got = length queries" using concat_map_rows [of run "slices 64 ?txts", OF run_rows] by (simp add: got_def concat_slices)
  have s: "length (st ?txts) = length got" using st_rows l by simp
  have x: "length (st ?txts ! i) = m" "inner (st ?txts ! i) (st ?txts ! i) = 1" using st_unit [of "st ?txts ! i" ?txts] i s l by simp_all
  have "got ! i \<in> set got" using i l by simp
  then obtain ts where "got ! i \<in> set (run ts)" by (auto simp: got_def)
  then have y: "length (got ! i) = m" "inner (got ! i) (got ! i) = 1" using run_unit by blast+
  have "9999 / 10000 \<le> inner (st ?txts ! i) (got ! i)"
    using query_parity_cosines [OF run pass queries g _ s, of i] i l row_cos_unit [OF x(2) y(2)] by simp
  then have "(inner (st ?txts ! i) d - inner (got ! i) d)\<^sup>2 \<le> 2 * (1 / 10000)"
    using close_unit_vectors [of "got ! i" "st ?txts ! i" d "1 / 10000"] x y d by simp
  also have "\<dots> \<le> (142 / 10000)\<^sup>2" by (simp add: power2_eq_square)
  finally have "\<bar>inner (st ?txts ! i) d - inner (got ! i) d\<bar> \<le> \<bar>142 / 10000\<bar>" by (simp only: abs_le_square_iff)
  then show ?thesis using g by auto
qed

theorem query_parity_bounds_scores_witness:
  "\<exists>got. ort_encode (map (\<lambda>_. [39999 / 40001, 400 / 40001])) [''x:a''] 64 = Inr got \<and>
     \<bar>inner [1, 0] [0, 1] - inner (got ! 0) [0, 1]\<bar> \<le> 142 / 10000"
proof -
  let ?st = "map (\<lambda>_ :: string. [1, 0 :: real])" and ?run = "map (\<lambda>_ :: string. [39999 / 40001, 400 / 40001 :: real])"
  let ?cs = "[(''a.tsv'', None), (''b.tsv'', Some (''1'' @ tab @ ''a'' @ nl))]"
  have "read_queries (''1'' @ tab @ ''a'' @ nl) = Inr [(''1'', ''a'')]" by code_simp
  then have q: "parity_queries 1 ?cs = Inr ([''a''], ''b.tsv'')" by simp
  have e: "ort_encode ?run [''x:a''] 64 = Inr [[39999 / 40001, 400 / 40001]]" by (simp add: ort_encode_def slices_step)
  have c: "row_cos [1, 0] [39999 / 40001, 400 / 40001] = Some (39999 / 40001)" by (subst row_cos_unit) simp_all
  obtain r where r: "query_parity ?st ?run ''x:'' 1 ?cs = Inr r" "ep_pass r"
    unfolding query_parity_def q by (simp add: e c np_min_def at_least_def)
  show ?thesis
    using query_parity_bounds_scores [where st = ?st and run = ?run and m = 2 and d = "[0, 1]" and i = 0, OF r q] by (auto simp: e)
qed

section \<open>Parity of stored vectors\<close>

record parity_files =
  pf_ids :: "byte list"
  pf_final :: "byte list option" \<comment> \<open>\<open>passages.fbin\<close>\<close>
  pf_partial :: "byte list option"
  pf_progress :: "string option"
  pf_collection :: string
  pf_queries :: string
  pf_qids :: string
  pf_qvecs :: "byte list"

record parity_env =
  pv_passages :: "string list \<Rightarrow> vector list" \<comment> \<open>the reference encoder\<close>
  pv_queries :: "string list \<Rightarrow> vector list" \<comment> \<open>the same with at most 64 tokens\<close>
  pv_float :: "32 word \<Rightarrow> real"

record dense_parity_result =
  dp_source :: string
  dp_p_min :: "real option"
  dp_p_mean :: "real option"
  dp_q_min :: real
  dp_q_mean :: real
  dp_pass :: bool

definition chunk_rows :: "nat \<Rightarrow> int \<Rightarrow> int list" where
  \<comment> \<open>\<open>np.arange(c * CHUNK, min(n, (c + 1) * CHUNK))\<close>\<close>
  "chunk_rows n c = [c * int CHUNK .. min (int n) ((c + 1) * int CHUNK) - 1]"

definition done_rows :: "nat \<Rightarrow> string \<Rightarrow> int list res" where
  \<comment> \<open>concatenating no chunk raises\<close>
  "done_rows n progress =
     res_bind (res_map int_of (split_ws progress)) (\<lambda>cs.
       if cs = [] then Inl ValueError else Inr (concat (map (chunk_rows n) (sort cs))))"

definition parity_source :: "parity_files \<Rightarrow> nat \<Rightarrow> (string \<times> byte list \<times> int list) res" where
  \<comment> \<open>the vector file and the rows of it that are written\<close>
  "parity_source fs n =
     (case pf_final fs of
        Some f \<Rightarrow> Inr (''passages.fbin'', f, map int [0..<n])
      | None \<Rightarrow>
          (case (pf_progress fs, pf_partial fs) of
             (Some p, Some f) \<Rightarrow> res_bind (done_rows n p) (\<lambda>rs. Inr (''passages.fbin.partial'', f, rs))
           | _ \<Rightarrow> Inl FileNotFoundError))"

definition choose_rows :: "('g \<Rightarrow> nat \<Rightarrow> nat \<Rightarrow> nat list \<times> 'g) \<Rightarrow> 'g \<Rightarrow> int list \<Rightarrow> nat \<Rightarrow> (int list \<times> 'g) res" where
  \<comment> \<open>\<open>np.sort(rng.choice(pool, n, replace=False))\<close>, the generator drawing positions\<close>
  "choose_rows choice g pool n =
     (if length pool < n then Inl ValueError else (let (ix, g') = choice g (length pool) n in Inr (sort (map ((!) pool) ix), g')))"

fun sample_texts :: "int list \<Rightarrow> 64 word list \<Rightarrow> nat \<Rightarrow> string list \<Rightarrow> (int, string) dict \<Rightarrow> (int, string) dict res" where
  \<comment> \<open>over the lines of the collection; the id of a wanted line must be the id of its row\<close>
  "sample_texts want ids i [] out = Inr out"
| "sample_texts want ids i (line # r) out =
     (if int i \<notin> set want then sample_texts want ids (Suc i) r out
      else case split1 TAB (rstrip_nl line) of
        None \<Rightarrow> Inl ValueError
      | Some (pid, t) \<Rightarrow>
          res_bind (int_of pid) (\<lambda>p.
            if length ids \<le> i then Inl IndexError
            else if p \<noteq> uint (ids ! i) then Inl AssertionError
            else sample_texts want ids (Suc i) r (dset out (int i) t)))"

definition matrix_row :: "(32 word \<Rightarrow> real) \<Rightarrow> f32_array \<Rightarrow> int \<Rightarrow> vector res" where
  \<comment> \<open>\<open>mat[i]\<close> as floats\<close>
  "matrix_row val a i =
     (case shape a of
        [n, d] \<Rightarrow> let j = (if i < 0 then i + int n else i) in
          if j < 0 \<or> int n \<le> j then Inl IndexError else Inr (map val (take d (drop (nat j * d) (flat a))))
      | _ \<Rightarrow> Inl ValueError)"

definition dense_parity :: "parity_env \<Rightarrow> ('g \<Rightarrow> nat \<Rightarrow> nat \<Rightarrow> nat list \<times> 'g) \<Rightarrow> 'g \<Rightarrow> parity_files \<Rightarrow> nat \<Rightarrow> dense_parity_result res" where
  \<comment> \<open>the exit status of the command is 0 iff the result passes; the minimum over no row raises\<close>
  "dense_parity E choice g fs n =
     res_bind (read_u64bin (pf_ids fs)) (\<lambda>ids.
     res_bind (parity_source fs (length ids)) (\<lambda>(name, f, pool).
     res_bind (read_fbin f True) (\<lambda>mat.
     res_bind (choose_rows choice g pool n) (\<lambda>(sel, g1).
     res_bind (sample_texts sel ids 0 (text_lines (pf_collection fs)) []) (\<lambda>txts.
     res_bind (res_map (dlookup txts) sel) (\<lambda>ts.
     res_bind (res_map (matrix_row (pv_float E) mat) sel) (\<lambda>ours.
     res_bind (read_queries (pf_queries fs)) (\<lambda>q.
     let qids = split_ws (pf_qids fs) in
     res_bind (read_fbin (pf_qvecs fs) True) (\<lambda>qmat.
     res_bind (choose_rows choice g1 (map int [0..<length qids]) n) (\<lambda>(qsel, _).
     res_bind (res_map (\<lambda>i. dlookup q (qids ! nat i)) qsel) (\<lambda>qts.
     res_bind (res_map (matrix_row (pv_float E) qmat) qsel) (\<lambda>qours.
       if n = 0 then Inl ValueError
       else
         (let cos_p = map2 row_cos (pv_passages E ts) ours; cos_q = map2 inner (pv_queries E (map (\<lambda>t. QUERY_PREFIX @ t) qts)) qours in
          Inr \<lparr>dp_source = name, dp_p_min = np_min cos_p, dp_p_mean = np_mean cos_p, dp_q_min = Min (set cos_q), dp_q_mean = mean_list cos_q,
               dp_pass = at_least (np_min cos_p) (9999 / 10000) \<and> 9999 / 10000 \<le> Min (set cos_q)\<rparr>)))))))))))))"

text \<open>A text is compared with the vector of its own passage: the line of a sampled row carries the id stored for that row.\<close>

lemma sample_texts_spec:
  assumes "sample_texts want ids i ls out = Inr out'" and "(j, t) \<in> set out'" and "dict_ok out"
  shows "(j, t) \<in> set out \<or> (\<exists>k pid. j = int (i + k) \<and> k < length ls \<and> j \<in> set want \<and> i + k < length ids \<and>
    split1 TAB (rstrip_nl (ls ! k)) = Some (pid, t) \<and> int_of pid = Inr (uint (ids ! (i + k))))"
  using assms
proof (induction ls arbitrary: i out)
  case (Cons l ls)
  show ?case
  proof (cases "int i \<in> set want")
    case False
    then have "sample_texts want ids (Suc i) ls out = Inr out'" using Cons.prems by simp
    then consider "(j, t) \<in> set out"
      | k p where "j = int (Suc i + k)" "k < length ls" "j \<in> set want" "Suc i + k < length ids"
          "split1 TAB (rstrip_nl (ls ! k)) = Some (p, t)" "int_of p = Inr (uint (ids ! (Suc i + k)))"
      using Cons.IH [OF _ Cons.prems(2,3)] by blast
    then show ?thesis
    proof cases
      case (2 k p)
      then show ?thesis by (intro disjI2 exI [of _ "Suc k"] exI [of _ p]) simp
    qed simp
  next
    case True
    then obtain pid u where l: "split1 TAB (rstrip_nl l) = Some (pid, u)" "int_of pid = Inr (uint (ids ! i))" "i < length ids"
      and rest: "sample_texts want ids (Suc i) ls (dset out (int i) u) = Inr out'"
      using Cons.prems(1) by (auto split: option.splits prod.splits if_splits simp: linorder_not_le)
    have ok: "dict_ok (dset out (int i) u)" using Cons.prems(3) by simp
    consider "(j, t) \<in> set (dset out (int i) u)"
      | k p where "j = int (Suc i + k)" "k < length ls" "j \<in> set want" "Suc i + k < length ids"
          "split1 TAB (rstrip_nl (ls ! k)) = Some (p, t)" "int_of p = Inr (uint (ids ! (Suc i + k)))"
      using Cons.IH [OF rest Cons.prems(2) ok] by blast
    then show ?thesis
    proof cases
      case 1
      then have "map_of (dset out (int i) u) j = Some t" using ok by (simp only: map_of_eq_Some_iff)
      then have "(j, t) \<in> set out \<or> j = int i \<and> t = u" by (auto simp: map_of_SomeD split: if_splits)
      then show ?thesis using l True by (auto intro!: exI [of _ "0 :: nat"])
    next
      case (2 k p)
      then show ?thesis by (intro disjI2 exI [of _ "Suc k"] exI [of _ p]) simp
    qed
  qed
qed simp

end
