(* ===== verification/Positives.thy ===== *)
theory Positives
  imports Mine Encode Fusion_Study Model_Parity Effects
begin

text \<open>
  The rest of \<open>py/hybridsearch/rerank/mine.py\<close>: \<open>encode_positives\<close>, which encodes the judged passages of a split once
  and keeps them in two files, and \<open>dense_runs\<close>, as computations on those files (\<open>Effects\<close>).  The tokenizers and
  networks are the encoder of \<open>Encode\<close> and the session of \<open>Model_Parity\<close>; the GPU mutex around the encoder is
  \<open>Mps_Lock\<close>.  The lemmas: the files stay a correct cache, and mining then scores every positive of every query it
  uses; a crash between the two writes breaks that, and the next run does not notice.
\<close>

section \<open>The splits\<close>

definition MINE_SPLITS :: "(string, string \<times> string) dict" where
  "MINE_SPLITS =
     [(''train50k'', ''data/subset/train50k/queries.tsv'', ''data/subset/train50k/qrels.tsv''),
      (''train_tune'', ''data/subset/train_tune/queries.tsv'', ''data/subset/train_tune/qrels.tsv''),
      (''dev'', ''data/raw/msmarco/queries.dev.small.tsv'', ''data/subset/1m/qrels.dev.tsv''),
      (''dl19'', ''data/raw/trec-dl/dl19.queries.tsv'', ''data/subset/1m/qrels.dl19.tsv''),
      (''dl20'', ''data/raw/trec-dl/dl20.queries.tsv'', ''data/subset/1m/qrels.dl20.tsv'')]"

section \<open>Encoding the positives\<close>

record positives =
  pv_vecs :: "vector list option" \<comment> \<open>\<open>positives.<split>.fbin\<close>\<close>
  pv_pids :: "string option" \<comment> \<open>\<open>positives.<split>.fbin.pids.tx\<close>\<close>

definition covered_qrels :: "files \<Rightarrow> string list option \<Rightarrow> qrels \<Rightarrow> qrels res" where
  \<comment> \<open>only the queries that the run files cover\<close>
  "covered_qrels fs only_runs qrels =
     (case only_runs of
        None \<Rightarrow> Inr qrels
      | Some ps \<Rightarrow> res_bind (res_map (read_file fs) ps) (\<lambda>runs. res_bind (run_qids runs) (\<lambda>cov. Inr (filter (\<lambda>(q, d). q \<in> cov) qrels))))"

definition positive_pids :: "qrels \<Rightarrow> int list res" where
  "positive_pids qrels =
     res_bind (res_map (\<lambda>(d, g). int_of d) (filter (\<lambda>(d, g). g > 0) (concat (map snd qrels)))) (\<lambda>ns.
       Inr (sorted_list_of_set (set ns)))"

definition covers_pids :: "string option \<Rightarrow> int list \<Rightarrow> bool res" where
  "covers_pids have pids =
     (case have of None \<Rightarrow> Inr False | Some t \<Rightarrow> res_bind (res_map int_of (split_ws t)) (\<lambda>ns. Inr (set pids \<subseteq> set ns)))"

datatype pos_backend = Ort | Torch

definition ort_rows :: "(string list \<Rightarrow> vector list) \<Rightarrow> string list \<Rightarrow> nat \<Rightarrow> vector list res" where
  \<comment> \<open>batches of texts sorted by length; \<open>run\<close> is the session on a batch cut at 512 tokens\<close>
  "ort_rows run texts bs =
     res_fold (\<lambda>vecs idx. res_bind (ort_encode run (map ((!) texts) idx) bs) (\<lambda>vs. Inr (scatter idx vs vecs)))
       (replicate (length texts) zero_row) (slices (bs * 16) (py_sorted (\<lambda>i. length (texts ! i)) [0..<length texts]))"

definition positive_rows :: "encoder \<Rightarrow> (string list \<Rightarrow> vector list) \<Rightarrow> pos_backend \<Rightarrow> string list \<Rightarrow> nat \<Rightarrow> vector list res" where
  "positive_rows E run backend texts bs =
     (case backend of Ort \<Rightarrow> ort_rows run texts bs | Torch \<Rightarrow> Inr (encode_passage_texts E texts))"

record pos_args =
  pa_split :: string
  pa_batch :: nat
  pa_backend :: pos_backend
  pa_only_runs :: "string list option"

definition positives_plan :: "encoder \<Rightarrow> (string list \<Rightarrow> vector list) \<Rightarrow> files \<Rightarrow> string \<Rightarrow> pos_args \<Rightarrow> positives \<Rightarrow>
    (vector list \<times> int list) option res" where
  \<comment> \<open>what is to be written; None: the ids file covers the positives already\<close>
  "positives_plan E run fs coll a w =
     res_bind (dlookup MINE_SPLITS (pa_split a)) (\<lambda>(_, qrels_path).
     res_bind (res_bind (read_file fs qrels_path) read_qrels) (\<lambda>qrels0.
     res_bind (covered_qrels fs (pa_only_runs a) qrels0) (\<lambda>qrels.
     res_bind (positive_pids qrels) (\<lambda>pids.
     res_bind (covers_pids (pv_pids w) pids) (\<lambda>done.
       if done then Inr None
       else res_bind (load_passages (Some (set (map str_int pids))) coll) (\<lambda>tx.
            res_bind (res_map (\<lambda>p. dlookup tx (str_int p)) pids) (\<lambda>texts.
            res_bind (positive_rows E run (pa_backend a) texts (pa_batch a)) (\<lambda>vecs. Inr (Some (vecs, pids))))))))))"

definition pids_text :: "int list \<Rightarrow> string" where
  "pids_text pids = join_with nl (map str_int pids) @ nl"

definition encode_positives :: "encoder \<Rightarrow> (string list \<Rightarrow> vector list) \<Rightarrow> files \<Rightarrow> string \<Rightarrow> pos_args \<Rightarrow> (positives, unit) eff" where
  "encode_positives E run fs coll a =
     act_bind (act_gets (positives_plan E run fs coll a)) (\<lambda>r. act_bind (act_of r) (\<lambda>plan.
       case plan of
         None \<Rightarrow> act_of (Inr ())
       | Some (vecs, pids) \<Rightarrow>
           act_bind (act_puts (\<lambda>w. w\<lparr>pv_vecs := Some vecs\<rparr>)) (\<lambda>_. act_puts (\<lambda>w. w\<lparr>pv_pids := Some (pids_text pids)\<rparr>))))"

section \<open>Exact dense runs of several splits\<close>

definition mine_dense_runs :: "(real list \<Rightarrow> nat \<Rightarrow> nat list) \<Rightarrow> vector list \<Rightarrow> nat list \<Rightarrow> (string \<Rightarrow> (string \<times> vector list) option) \<Rightarrow>
    string list \<Rightarrow> nat \<Rightarrow> ((string, string) dict, unit) eff" where
  \<comment> \<open>\<open>qv\<close> gives the ids file and the vectors of a split, the state is the run files by split\<close>
  "mine_dense_runs part xb docids qv splits k =
     act_bind (act_of (load_passage_matrix xb docids)) (\<lambda>_.
       act_each (\<lambda>s. act_bind (act_of (case qv s of
                        None \<Rightarrow> Inl FileNotFoundError
                      | Some (t, v) \<Rightarrow> dense_run part xb docids t v k)) (\<lambda>r. act_puts (\<lambda>w. dset w s r))) splits)"

lemma act_each_puts:
  assumes "act_run (act_each (\<lambda>s. act_bind (act_of (F s)) (\<lambda>r. act_puts (\<lambda>w. dset w s r))) xs) w = (Inr (), w')"
  shows "(\<forall>s \<in> set xs. \<exists>r. F s = Inr r \<and> map_of w' s = Some r) \<and> (\<forall>s. s \<notin> set xs \<longrightarrow> map_of w' s = map_of w s)"
  using assms
proof (induction xs arbitrary: w)
  case (Cons x xs)
  obtain r where r: "F x = Inr r" and rest: "act_run (act_each (\<lambda>s. act_bind (act_of (F s)) (\<lambda>r. act_puts (\<lambda>w. dset w s r))) xs) (dset w x r) = (Inr (), w')"
    using Cons.prems by (auto simp: act_simps)
  show ?case using Cons.IH [OF rest] r by (cases "x \<in> set xs") auto
qed (simp add: act_simps)

text \<open>When \<open>dense_runs\<close> finishes, the run file of every split asked for is that of its own query vectors.\<close>

lemma mine_dense_runs_files:
  assumes "act_run (mine_dense_runs part xb docids qv splits k) w = (Inr (), w')" and "s \<in> set splits"
  shows "\<exists>t v r. qv s = Some (t, v) \<and> dense_run part xb docids t v k = Inr r \<and> map_of w' s = Some r"
proof -
  let ?F = "\<lambda>s. case qv s of None \<Rightarrow> Inl FileNotFoundError | Some (t, v) \<Rightarrow> dense_run part xb docids t v k"
  have "act_run (act_each (\<lambda>s. act_bind (act_of (?F s)) (\<lambda>r. act_puts (\<lambda>w. dset w s r))) splits) w = (Inr (), w')"
    using assms(1) by (auto simp: mine_dense_runs_def act_simps)
  from act_each_puts [OF this] assms(2) obtain r where "?F s = Inr r" "map_of w' s = Some r" by blast
  then show ?thesis by (auto split: option.splits)
qed

section \<open>Every backend returns the row of every text\<close>

lemma ort_rows_pointwise:
  assumes run: "\<And>ts. run ts = map f ts" and b: "0 < bs"
  shows "ort_rows run texts bs = Inr (map f texts)"
proof -
  define order where "order = py_sorted (\<lambda>i. length (texts ! i)) [0..<length texts]"
  have ord: "distinct order" "set order = {..<length texts}"
    by (simp_all add: order_def sort_simps lessThan_atLeast0)
  have "run = map f" using run by (rule ext)
  then have enc: "ort_encode run ts bs = Inr (map f ts)" if "ts \<noteq> []" for ts
    using that b map_concat [of f "slices bs ts"] by (simp add: ort_encode_def concat_slices)
  have step: "res_fold (\<lambda>vecs idx. res_bind (ort_encode run (map ((!) texts) idx) bs) (\<lambda>vs. Inr (scatter idx vs vecs))) out idxs =
      Inr (scatter (concat idxs) (map (\<lambda>i. f (texts ! i)) (concat idxs)) out)" if "[] \<notin> set idxs" for out idxs
    using that
  proof (induction idxs arbitrary: out)
    case (Cons idx idxs)
    have "ort_encode run (map ((!) texts) idx) bs = Inr (map (\<lambda>i. f (texts ! i)) idx)"
      using enc [of "map ((!) texts) idx"] Cons.prems by (cases idx) (simp_all add: comp_def)
    then show ?case using Cons by (simp add: scatter_append)
  qed (simp add: scatter_def)
  have "[] \<notin> set (slices (bs * 16) order)" using slices_bounds [of "bs * 16" "[]" order] b by auto
  then have "ort_rows run texts bs = Inr (scatter order (map (\<lambda>i. f (texts ! i)) order) (replicate (length texts) zero_row))"
    using b unfolding ort_rows_def order_def [symmetric] by (simp add: step concat_slices)
  also have "scatter order (map (\<lambda>i. f (texts ! i)) order) (replicate (length texts) zero_row) = map f texts"
  proof -
    have "map (\<lambda>i. f (texts ! i)) [0..<length texts] = map f texts" by (rule nth_equalityI) simp_all
    then show ?thesis using scatter_all [OF ord(1), of "replicate (length texts) zero_row" "\<lambda>i. f (texts ! i)"] ord(2) by simp
  qed
  finally show ?thesis .
qed

definition backends_agree :: "encoder \<Rightarrow> (string list \<Rightarrow> vector list) \<Rightarrow> (string \<Rightarrow> nat \<Rightarrow> vector) \<Rightarrow> bool" where
  \<comment> \<open>padding changes no row, and the exported network is the network\<close>
  "backends_agree E run emb \<longleftrightarrow> pointwise E emb \<and> (\<forall>ts. run ts = map (\<lambda>t. emb t PASSAGE_MAX_LEN) ts)"

lemma positive_rows_pointwise:
  assumes "backends_agree E run emb" and "0 < bs"
  shows "positive_rows E run backend texts bs = Inr (map (\<lambda>t. emb t PASSAGE_MAX_LEN) texts)"
proof (cases backend)
  case Ort
  then show ?thesis using assms ort_rows_pointwise [of run "\<lambda>t. emb t PASSAGE_MAX_LEN" bs texts]
    by (simp add: positive_rows_def backends_agree_def)
next
  case Torch
  have "encode E texts PASSAGE_MAX_LEN = map (\<lambda>t. emb t PASSAGE_MAX_LEN) texts"
    using encode_rows assms(1) by (simp add: backends_agree_def)
  then show ?thesis by (simp add: Torch positive_rows_def encode_passage_texts_def)
qed

section \<open>The files stay a correct cache\<close>

definition has_text :: "string \<Rightarrow> string \<Rightarrow> string \<Rightarrow> bool" where
  "has_text coll p t \<longleftrightarrow> (\<exists>line r. line \<in> set (text_lines coll) \<and> split1 TAB line = Some (p, r) \<and> t = rstrip_nl r)"

definition collection_embeds :: "(string \<Rightarrow> nat \<Rightarrow> vector) \<Rightarrow> string \<Rightarrow> (int \<Rightarrow> vector) \<Rightarrow> bool" where
  \<comment> \<open>a passage has one vector: that of each text the collection gives it\<close>
  "collection_embeds emb coll V \<longleftrightarrow> (\<forall>p t. has_text coll (str_int p) t \<longrightarrow> V p = emb t PASSAGE_MAX_LEN)"

definition positives_sound :: "(int \<Rightarrow> vector) \<Rightarrow> positives \<Rightarrow> bool" where
  "positives_sound V w \<longleftrightarrow>
     (\<forall>t. pv_pids w = Some t \<longrightarrow> (\<exists>ps. split_ws t = map str_int ps \<and> distinct ps \<and> pv_vecs w = Some (map V ps)))"

lemma load_scan_texts:
  assumes "load_scan want ls out = Inr out'" and "map_of out' p = Some t"
  shows "map_of out p = Some t \<or> (\<exists>line r. line \<in> set ls \<and> split1 TAB line = Some (p, r) \<and> t = rstrip_nl r)"
  using assms
proof (induction ls arbitrary: out)
  case (Cons line ls)
  obtain pid r where l: "split1 TAB line = Some (pid, r)" using Cons.prems(1) by (auto split: option.splits)
  let ?out = "dset out pid (rstrip_nl r)"
  have later: ?case if "map_of ?out p = Some t \<or> (\<exists>line r. line \<in> set ls \<and> split1 TAB line = Some (p, r) \<and> t = rstrip_nl r)"
    using that l by (cases "p = pid") auto
  show ?case
  proof (cases "want = None \<or> pid \<in> the want")
    case True
    then have "out' = ?out \<or> load_scan want ls ?out = Inr out'" using Cons.prems(1) l by (auto simp: Let_def split: if_splits)
    then show ?thesis using Cons.IH [of ?out] Cons.prems(2) later by blast
  next
    case False
    then have "load_scan want ls out = Inr out'" using Cons.prems(1) l by auto
    then show ?thesis using Cons.IH [of out] Cons.prems(2) by auto
  qed
qed simp

lemma loaded_text: "load_passages want coll = Inr tx \<Longrightarrow> dlookup tx p = Inr t \<Longrightarrow> has_text coll p t"
  using load_scan_texts [of want "text_lines coll" "[]" tx p t]
  by (auto simp: load_passages_def has_text_def dlookup_def split: option.splits)

lemma positives_plan_rows:
  assumes agree: "backends_agree E run emb" "0 < pa_batch a" "collection_embeds emb coll V"
    and plan: "positives_plan E run fs coll a w = Inr (Some (vecs, pids))"
  shows "vecs = map V pids \<and> distinct pids"
proof -
  obtain qrels tx texts where pids: "positive_pids qrels = Inr pids"
      and tx: "load_passages (Some (set (map str_int pids))) coll = Inr tx"
      and texts: "res_map (\<lambda>p. dlookup tx (str_int p)) pids = Inr texts"
      and rows: "positive_rows E run (pa_backend a) texts (pa_batch a) = Inr vecs"
    using plan unfolding positives_plan_def by (auto split: if_splits)
  have "vecs = map (\<lambda>t. emb t PASSAGE_MAX_LEN) texts" using rows positive_rows_pointwise [OF agree(1,2)] by simp
  moreover have "emb (texts ! i) PASSAGE_MAX_LEN = V (pids ! i)" if "i < length pids" for i
    using loaded_text [OF tx res_map_Inr_nth [OF texts that]] agree(3) by (simp add: collection_embeds_def)
  ultimately have "vecs = map V pids" using res_map_Inr_length [OF texts] by (auto intro: nth_equalityI)
  moreover have "distinct pids" using pids by (auto simp: positive_pids_def)
  ultimately show ?thesis ..
qed

lemma split_pids_text: "split_ws (pids_text ps) = map str_int ps"
proof (induction ps rule: induct_list012)
  case (2 p)
  then show ?case using split_ws_field [of "str_int p" "hd nl" "[]"] by (simp add: pids_text_def nl_def is_space_char_def code_def)
next
  case (3 p q ps)
  then show ?case using split_ws_field [of "str_int p" "hd nl" "pids_text (q # ps)"]
    by (simp add: pids_text_def nl_def is_space_char_def code_def)
qed (simp add: pids_text_def nl_def split_ws_space is_space_char_def code_def)

lemma str_int_eq [simp]: "str_int m = str_int n \<longleftrightarrow> m = n"
  by (metis int_of_str_int sum.inject(2))

lemma positions_of_nth:
  assumes "distinct xs" "i < length xs"
  shows "map_of (positions_of xs) (xs ! i) = Some i"
proof -
  have k: "map fst (map (\<lambda>(j, d). (d, j)) (enumerate 0 xs)) = xs" by (rule nth_equalityI) (auto simp: nth_enumerate_eq)
  have "(xs ! i, i) \<in> set (map (\<lambda>(j, d). (d, j)) (enumerate 0 xs))"
    using assms(2) by (auto simp: in_set_enumerate_eq intro!: image_eqI [of _ _ "(i, xs ! i)"])
  then show ?thesis unfolding positions_of_def using k assms(1) by (simp add: dict_of_distinct map_of_eq_Some_iff del: set_map)
qed

lemma res_map_str_int: "res_map int_of (map str_int ps) = Inr ps"
  by (induction ps) simp_all

lemma positive_pids_member:
  assumes "positive_pids qrels = Inr pids" "(q, judged) \<in> set qrels" "(str_int n, g) \<in> set judged" "0 < g"
  shows "n \<in> set pids"
proof -
  let ?js = "filter (\<lambda>(d, g). g > 0) (concat (map snd qrels))"
  obtain ns where ns: "res_map (\<lambda>(d, g). int_of d) ?js = Inr ns" "pids = sorted_list_of_set (set ns)"
    using assms(1) by (auto simp: positive_pids_def)
  have "(str_int n, g) \<in> set ?js" using assms(2-4) by force
  then obtain i where i: "i < length ?js" "?js ! i = (str_int n, g)" by (metis in_set_conv_nth)
  have "n \<in> set ns" using res_map_Inr_nth [OF ns(1) i(1)] i res_map_Inr_length [OF ns(1)] by (simp add: nth_mem)
  then show ?thesis by (simp add: ns(2))
qed

lemma sound_scores:
  assumes "split_ws t = map str_int ps" "distinct ps" "set ns \<subseteq> set ps"
  shows "qs_d_pos (side_of (M\<lparr>mi_pos_vecs := map V ps, mi_pos_pids := split_ws t\<rparr>) judged (map str_int ns) qv hits) =
    opt_max (map (\<lambda>n. inner (V n) qv) ns)"
proof -
  let ?rows = "positions_of (map str_int ps)"
  have row: "\<exists>i < length ps. map_of ?rows (str_int n) = Some i \<and> ps ! i = n" if "n \<in> set ns" for n
  proof -
    have "n \<in> set ps" using that assms(3) by blast
    then obtain i where i: "i < length ps" "ps ! i = n" by (auto simp: in_set_conv_nth)
    have "distinct (map str_int ps)" using assms(2) by (simp add: distinct_map inj_on_def)
    then show ?thesis using positions_of_nth [of "map str_int ps" i] i by auto
  qed
  then have all: "filter (dhas ?rows) (map str_int ns) = map str_int ns"
    by (intro filter_True) (auto simp: dhas_def)
  have "map V ps ! dget ?rows (str_int n) 0 = V n" if n: "n \<in> set ns" for n
  proof -
    obtain i where "i < length ps" "map_of ?rows (str_int n) = Some i" "ps ! i = n" using row [OF n] by blast
    then show ?thesis by (simp add: dget_def)
  qed
  then have "map (\<lambda>p. inner (map V ps ! dget ?rows p 0) qv) (filter (dhas ?rows) (map str_int ns)) = map (\<lambda>n. inner (V n) qv) ns"
    unfolding all map_map by (intro map_cong refl) (simp only: comp_def)
  then show ?thesis by (simp only: side_of_def assms(1) Let_def) simp
qed

text \<open>C40: the files of encoded positives stay a correct cache, and mining then scores every positive.  A call of
  \<open>encode_positives\<close> on such a cache (an empty one at first) leaves files whose rows are the vectors of the passages their
  ids name; a call that fails changes nothing; and after one that succeeds, for every judged query it covers whose
  relevant passages have ids written in decimal, the dense score that the false-negative rule of \<open>mine\<close> compares
  with is the largest over all relevant passages, none being skipped for want of a vector.\<close>

theorem positives_cached:
  assumes agree: "backends_agree E run emb" "0 < pa_batch a" "collection_embeds emb coll V"
    and sound: "positives_sound V w"
    and run: "act_run (encode_positives E run fs coll a) w = (r, w')"
    and split: "dlookup MINE_SPLITS (pa_split a) = Inr (queries_path, qrels_path)"
    and qrels: "res_bind (read_file fs qrels_path) read_qrels = Inr qrels0" "covered_qrels fs (pa_only_runs a) qrels0 = Inr qrels"
  shows "positives_sound V w' \<and> (\<forall>e. r = Inl e \<longrightarrow> w' = w) \<and>
    (r = Inr () \<longrightarrow> (\<exists>t vecs. pv_pids w' = Some t \<and> pv_vecs w' = Some vecs \<and>
       (\<forall>q judged ns M qv hits. (q, judged) \<in> set qrels \<longrightarrow> (\<forall>n \<in> set ns. \<exists>g > 0. (str_int n, g) \<in> set judged) \<longrightarrow>
          qs_d_pos (side_of (M\<lparr>mi_pos_vecs := vecs, mi_pos_pids := split_ws t\<rparr>) judged (map str_int ns) qv hits) =
            opt_max (map (\<lambda>n. inner (V n) qv) ns))))"
proof -
  have scores: "\<exists>t vecs. pv_pids u = Some t \<and> pv_vecs u = Some vecs \<and>
       (\<forall>q judged ns M qv hits. (q, judged) \<in> set qrels \<longrightarrow> (\<forall>n \<in> set ns. \<exists>g > 0. (str_int n, g) \<in> set judged) \<longrightarrow>
          qs_d_pos (side_of (M\<lparr>mi_pos_vecs := vecs, mi_pos_pids := split_ws t\<rparr>) judged (map str_int ns) qv hits) =
            opt_max (map (\<lambda>n. inner (V n) qv) ns))"
    if u: "positives_sound V u" "pv_pids u = Some t" and c: "positive_pids qrels = Inr pids" "covers_pids (Some t) pids = Inr True" for u t pids
  proof -
    obtain ps where ps: "split_ws t = map str_int ps" "distinct ps" "pv_vecs u = Some (map V ps)"
      using u by (auto simp: positives_sound_def)
    have "res_map int_of (map str_int ps) = Inr ps" by (rule res_map_str_int)
    then have sub: "set pids \<subseteq> set ps" using c(2) by (simp add: covers_pids_def ps(1))
    have "set ns \<subseteq> set pids" if "(q, judged) \<in> set qrels" "\<forall>n \<in> set ns. \<exists>g > 0. (str_int n, g) \<in> set judged" for q judged ns
      using positive_pids_member [OF c(1) that(1)] that(2) by blast
    then show ?thesis using u(2) ps(3) sound_scores [OF ps(1,2)] sub by (metis subset_trans)
  qed
  show ?thesis
  proof (cases "positives_plan E run fs coll a w")
    case (Inl e)
    then have "r = Inl e \<and> w' = w" using run by (auto simp: encode_positives_def act_run_bind act_run_step)
    then show ?thesis using sound by simp
  next
    case (Inr plan)
    obtain pids dn where pids: "positive_pids qrels = Inr pids" and dn: "covers_pids (pv_pids w) pids = Inr dn" "plan = None \<longleftrightarrow> dn"
        "\<And>vecs ps. plan = Some (vecs, ps) \<Longrightarrow> ps = pids"
      using Inr unfolding positives_plan_def split qrels res_bind.simps prod.case by (auto split: if_splits)
    show ?thesis
    proof (cases plan)
      case None
      then have "r = Inr () \<and> w' = w" using run Inr by (auto simp: encode_positives_def act_run_bind act_run_step)
      moreover obtain t where "pv_pids w = Some t" using dn None by (auto simp: covers_pids_def split: option.splits)
      ultimately show ?thesis using scores [OF sound _ pids] dn None sound by auto
    next
      case (Some vp)
      obtain vecs where vp: "plan = Some (vecs, pids)" using Some dn(3) by (cases vp) auto
      have rows: "vecs = map V pids" "distinct pids" using positives_plan_rows [OF agree, of fs w vecs pids] Inr vp by auto
      have w': "r = Inr ()" "w' = w\<lparr>pv_vecs := Some vecs, pv_pids := Some (pids_text pids)\<rparr>"
        using run Inr vp by (auto simp: encode_positives_def act_run_bind act_run_step)
      have snd: "positives_sound V w'" using rows split_pids_text by (auto simp: positives_sound_def w')
      have "covers_pids (Some (pids_text pids)) pids = Inr True"
        by (simp add: covers_pids_def split_pids_text res_map_str_int)
      then show ?thesis using scores [OF snd _ pids, of "pids_text pids"] snd w' by simp
    qed
  qed
qed

definition demo_pos_files :: files where
  "demo_pos_files p =
     (if p = ''data/subset/train50k/qrels.tsv'' then Some (''q1 0 1 1'' @ nl @ ''q2 0 2 1'' @ nl @ ''q3 0 3 1'' @ nl)
      else if p = ''r12'' then Some (''q1 Q0 9 1 5 t'' @ nl @ ''q2 Q0 9 1 5 t'' @ nl)
      else if p = ''r13'' then Some (''q1 Q0 9 1 5 t'' @ nl @ ''q3 Q0 9 1 5 t'' @ nl) else None)"

definition demo_pos_coll :: string where
  "demo_pos_coll = ''1'' @ tab @ ''a'' @ nl @ ''2'' @ tab @ ''b'' @ nl @ ''3'' @ tab @ ''c'' @ nl"

definition demo_emb :: "string \<Rightarrow> nat \<Rightarrow> vector" where
  "demo_emb t n = [if t = ''a'' then 1 else if t = ''b'' then 2 else 3]"

definition demo_pos_encoder :: encoder where
  "demo_pos_encoder = \<lparr>en_tok = \<lambda>ts n. map length ts, en_net = \<lambda>ts n. map (\<lambda>t. demo_emb t n) ts, en_max_batch = 2, en_budget = 9\<rparr>"

definition demo_session :: "string list \<Rightarrow> vector list" where
  "demo_session ts = map (\<lambda>t. demo_emb t PASSAGE_MAX_LEN) ts"

definition demo_V :: "int \<Rightarrow> vector" where
  "demo_V p = [if p = 1 then 1 else if p = 2 then 2 else 3]"

definition demo_call :: "string \<Rightarrow> pos_args" where
  "demo_call run = \<lparr>pa_split = ''train50k'', pa_batch = 2, pa_backend = Ort, pa_only_runs = Some [run]\<rparr>"

lemma demo_split: "dlookup MINE_SPLITS ''train50k'' = Inr (''data/subset/train50k/queries.tsv'', ''data/subset/train50k/qrels.tsv'')"
  by code_simp

lemma demo_pos_qrels:
  "res_bind (read_file demo_pos_files ''data/subset/train50k/qrels.tsv'') read_qrels =
     Inr [(''q1'', [(''1'', 1)]), (''q2'', [(''2'', 1)]), (''q3'', [(''3'', 1)])]"
  by code_simp

lemma demo_covered:
  "covered_qrels demo_pos_files (Some [''r12'']) [(''q1'', [(''1'', 1)]), (''q2'', [(''2'', 1)]), (''q3'', [(''3'', 1)])] =
     Inr [(''q1'', [(''1'', 1)]), (''q2'', [(''2'', 1)])]"
  "covered_qrels demo_pos_files (Some [''r13'']) [(''q1'', [(''1'', 1)]), (''q2'', [(''2'', 1)]), (''q3'', [(''3'', 1)])] =
     Inr [(''q1'', [(''1'', 1)]), (''q3'', [(''3'', 1)])]"
  by code_simp+

lemma demo_pids:
  "positive_pids [(''q1'', [(''1'', 1)]), (''q2'', [(''2'', 1)])] = Inr [1, 2]"
  "positive_pids [(''q1'', [(''1'', 1)]), (''q3'', [(''3'', 1)])] = Inr [1, 3]"
  by code_simp+

lemma demo_pos_load:
  "load_passages (Some {''1'', ''2''}) demo_pos_coll = Inr [(''1'', ''a''), (''2'', ''b'')]"
  "load_passages (Some {''1'', ''3''}) demo_pos_coll = Inr [(''1'', ''a''), (''3'', ''c'')]"
  by code_simp+

lemma demo_numbers: "str_int 1 = ''1''" "str_int 2 = ''2''" "str_int 3 = ''3''"
  by code_simp+

lemma demo_agree: "backends_agree demo_pos_encoder demo_session demo_emb"
  by (simp add: backends_agree_def pointwise_def demo_pos_encoder_def demo_session_def)

lemma demo_rows: "positive_rows demo_pos_encoder demo_session Ort texts 2 = Inr (map (\<lambda>t. demo_emb t PASSAGE_MAX_LEN) texts)"
  using positive_rows_pointwise [OF demo_agree] by simp

lemma demo_embeds: "collection_embeds demo_emb demo_pos_coll demo_V"
proof -
  let ?f = "\<lambda>line. map_option (\<lambda>(p, r). (p, rstrip_nl r)) (split1 TAB line)"
  have l: "map ?f (text_lines demo_pos_coll) = [Some (''1'', ''a''), Some (''2'', ''b''), Some (''3'', ''c'')]" by code_simp
  have mem: "Some (q, t) \<in> set (map ?f (text_lines demo_pos_coll))" if "has_text demo_pos_coll q t" for q t
    using that unfolding has_text_def by force
  have n: "str_int p = ''1'' \<longleftrightarrow> p = 1" "str_int p = ''2'' \<longleftrightarrow> p = 2" "str_int p = ''3'' \<longleftrightarrow> p = 3" for p
    unfolding demo_numbers [symmetric] by (rule str_int_eq)+
  have "(p = 1 \<and> t = ''a'') \<or> (p = 2 \<and> t = ''b'') \<or> (p = 3 \<and> t = ''c'')" if "has_text demo_pos_coll (str_int p) t" for p t
    using mem [OF that] n [of p] unfolding l by (simp only: set_simps insert_iff empty_iff option.inject prod.inject) blast
  then show ?thesis unfolding collection_embeds_def demo_V_def demo_emb_def by fastforce
qed

lemma demo_plan_fresh: "positives_plan demo_pos_encoder demo_session demo_pos_files demo_pos_coll (demo_call ''r12'') \<lparr>pv_vecs = None, pv_pids = None\<rparr> =
   Inr (Some ([[1], [2]], [1, 2]))"
  unfolding positives_plan_def demo_call_def pos_args.simps positives.simps demo_split res_bind.simps prod.case demo_pos_qrels demo_covered demo_pids
  by (simp add: covers_pids_def demo_numbers demo_pos_load dlookup_def demo_rows) (simp add: demo_emb_def)

theorem positives_cached_witness:
  "\<exists>w. act_run (encode_positives demo_pos_encoder demo_session demo_pos_files demo_pos_coll (demo_call ''r12''))
        \<lparr>pv_vecs = None, pv_pids = None\<rparr> = (Inr (), w) \<and> positives_sound demo_V w \<and>
     (\<exists>t vecs. pv_pids w = Some t \<and> pv_vecs w = Some vecs \<and>
       (\<forall>M qv hits. qs_d_pos (side_of (M\<lparr>mi_pos_vecs := vecs, mi_pos_pids := split_ws t\<rparr>) [(''2'', 1)] (map str_int [2]) qv hits) =
          opt_max [inner [2] qv]))"
proof -
  let ?w = "\<lparr>pv_vecs = Some [[1], [2]], pv_pids = Some (pids_text [1, 2])\<rparr>"
  have run: "act_run (encode_positives demo_pos_encoder demo_session demo_pos_files demo_pos_coll (demo_call ''r12''))
      \<lparr>pv_vecs = None, pv_pids = None\<rparr> = (Inr (), ?w)"
    by (simp add: encode_positives_def act_run_bind act_run_step demo_plan_fresh)
  have sp: "dlookup MINE_SPLITS (pa_split (demo_call ''r12'')) = Inr (''data/subset/train50k/queries.tsv'', ''data/subset/train50k/qrels.tsv'')"
    using demo_split by (simp add: demo_call_def)
  have cov: "covered_qrels demo_pos_files (pa_only_runs (demo_call ''r12'')) [(''q1'', [(''1'', 1)]), (''q2'', [(''2'', 1)]), (''q3'', [(''3'', 1)])] =
      Inr [(''q1'', [(''1'', 1)]), (''q2'', [(''2'', 1)])]"
    using demo_covered(1) by (simp add: demo_call_def)
  have b: "0 < pa_batch (demo_call ''r12'')" "positives_sound demo_V \<lparr>pv_vecs = None, pv_pids = None\<rparr>"
    by (simp_all add: demo_call_def positives_sound_def)
  note call = positives_cached [OF demo_agree b(1) demo_embeds b(2) run sp demo_pos_qrels cov]
  have q: "(''q2'', [(''2'', 1 :: int)]) \<in> set [(''q1'', [(''1'', 1)]), (''q2'', [(''2'', 1)])]"
    "\<forall>n \<in> set [2 :: int]. \<exists>g > 0. (str_int n, g) \<in> set [(''2'', 1 :: int)]" by (simp_all add: demo_numbers)
  have V: "map (\<lambda>n. inner (demo_V n) qv) [2] = [inner [2] qv]" for qv by (simp add: demo_V_def)
  obtain t vecs where t: "pv_pids ?w = Some t" "pv_vecs ?w = Some vecs"
      and scores: "\<And>q judged ns M qv hits. (q, judged) \<in> set [(''q1'', [(''1'', 1)]), (''q2'', [(''2'', 1)])] \<Longrightarrow>
        \<forall>n \<in> set ns. \<exists>g > 0. (str_int n, g) \<in> set judged \<Longrightarrow>
        qs_d_pos (side_of (M\<lparr>mi_pos_vecs := vecs, mi_pos_pids := split_ws t\<rparr>) judged (map str_int ns) qv hits) =
          opt_max (map (\<lambda>n. inner (demo_V n) qv) ns)"
    using call by blast
  have "positives_sound demo_V ?w" using call by blast
  then show ?thesis using run t scores [OF q, unfolded V] by blast
qed

section \<open>A crash between the two writes\<close>

lemma positives_plan_pids: "pv_pids w = pv_pids w' \<Longrightarrow> positives_plan E run fs coll a w = positives_plan E run fs coll a w'"
  by (simp add: positives_plan_def)

text \<open>The vectors are replaced before their ids.  When a call that would add passages is interrupted between the two
  writes, the old ids stay beside the new vectors: the files are no longer a correct cache, and a later call
  that the old ids cover accepts them as they are.\<close>

theorem interrupted_call_accepted:
  assumes agree: "backends_agree E run emb" "0 < pa_batch a" "collection_embeds emb coll V"
    and old: "pv_pids w = Some (pids_text old)"
    and new: "positives_plan E run fs coll a w = Inr (Some (vecs, pids))" "map V pids \<noteq> map V old"
    and covered: "positives_plan E run fs coll b w = Inr None"
  shows "\<not> positives_sound V (w\<lparr>pv_vecs := Some vecs\<rparr>) \<and>
    act_run (encode_positives E run fs coll b) (w\<lparr>pv_vecs := Some vecs\<rparr>) = (Inr (), w\<lparr>pv_vecs := Some vecs\<rparr>)"
proof
  have vecs: "vecs = map V pids" using positives_plan_rows [OF agree new(1)] by simp
  have inj: "map str_int old = map str_int ps \<Longrightarrow> ps = old" for ps
    using map_inj_on [of str_int ps old] by (simp add: inj_on_def)
  show "\<not> positives_sound V (w\<lparr>pv_vecs := Some vecs\<rparr>)"
    using new(2) inj by (auto simp: positives_sound_def old split_pids_text vecs)
  have "positives_plan E run fs coll b (w\<lparr>pv_vecs := Some vecs\<rparr>) = Inr None"
    using covered positives_plan_pids [of "w\<lparr>pv_vecs := Some vecs\<rparr>" w] by simp
  then show "act_run (encode_positives E run fs coll b) (w\<lparr>pv_vecs := Some vecs\<rparr>) = (Inr (), w\<lparr>pv_vecs := Some vecs\<rparr>)"
    by (simp add: encode_positives_def act_run_bind act_run_step)
qed

text \<open>With three passages: the files hold passages 1 and 2, a call for 1 and 3 is interrupted, and the next call for
  1 and 2 leaves passage 2 with the vector of passage 3.\<close>

definition demo_pos_full :: positives where
  "demo_pos_full = \<lparr>pv_vecs = Some [[1], [2]], pv_pids = Some (pids_text [1, 2])\<rparr>"

lemma demo_plan_next: "positives_plan demo_pos_encoder demo_session demo_pos_files demo_pos_coll (demo_call ''r13'') demo_pos_full =
    Inr (Some ([[1], [3]], [1, 3]))"
  "positives_plan demo_pos_encoder demo_session demo_pos_files demo_pos_coll (demo_call ''r12'') demo_pos_full = Inr None"
  unfolding positives_plan_def demo_call_def demo_pos_full_def pos_args.simps positives.simps demo_split res_bind.simps prod.case demo_pos_qrels
    demo_covered demo_pids covers_pids_def option.case split_pids_text res_map_str_int
  by (simp_all add: demo_numbers demo_pos_load dlookup_def demo_rows) (simp add: demo_emb_def)

theorem interrupted_call_accepted_witness:
  "\<not> positives_sound demo_V (demo_pos_full\<lparr>pv_vecs := Some [[1], [3]]\<rparr>) \<and>
   act_run (encode_positives demo_pos_encoder demo_session demo_pos_files demo_pos_coll (demo_call ''r12'')) (demo_pos_full\<lparr>pv_vecs := Some [[1], [3]]\<rparr>) =
     (Inr (), demo_pos_full\<lparr>pv_vecs := Some [[1], [3]]\<rparr>)"
proof (rule interrupted_call_accepted [OF demo_agree _ demo_embeds _ demo_plan_next(1) _ demo_plan_next(2)])
  show "0 < pa_batch (demo_call ''r13'')" by (simp add: demo_call_def)
  show "pv_pids demo_pos_full = Some (pids_text [1, 2])" by (simp add: demo_pos_full_def)
  show "map demo_V [1, 3] \<noteq> map demo_V [1, 2]" by (simp add: demo_V_def)
qed

end
