(* ===== verification/Ground_Truth.thy ===== *)
theory Ground_Truth
  imports Data_IO Significance
begin

text \<open>
  The vector benchmark's files: \<open>py/hybridsearch/bench/io.py\<close> (\<open>.fbin\<close> and ground-truth readers,
  recall), \<open>gt_from_pids.py\<close> (global ids to ordinals), \<open>gt_to_trec.py\<close> (ordinals to a run), and the
  comparisons computed from them: \<open>mrr_points.py\<close>, \<open>matched_recall.py\<close> and \<open>bench/load/summarize.py\<close>.
  \<open>argsort\<close>, \<open>np.interp\<close>, \<open>np.percentile\<close> and the value of a float32 word are arguments; JSON rows are
  records.  The lemmas show that ordinals are exact: converted ground truth decodes to the ids it came from.
\<close>

section \<open>Reading arrays\<close>

definition fromfile :: "nat \<Rightarrow> (byte list \<Rightarrow> 'w) \<Rightarrow> byte list \<Rightarrow> nat \<Rightarrow> nat \<Rightarrow> 'w list" where
  \<comment> \<open>\<open>np.fromfile(f, dtype, count, offset=o)\<close>: as many whole elements as there are\<close>
  "fromfile w dec f off n =
     (let rest = drop off f in map dec (chunks w (take (w * min n (length rest div w)) rest)))"

record 'a matrix =
  mx_rows :: nat
  mx_cols :: nat
  mx_flat :: "'a list"

definition reshape :: "'a list \<Rightarrow> nat \<Rightarrow> nat \<Rightarrow> 'a matrix res" where
  "reshape xs n d = (if length xs \<noteq> n * d then Inl ValueError else Inr \<lparr>mx_rows = n, mx_cols = d, mx_flat = xs\<rparr>)"

definition mx_row :: "'a matrix \<Rightarrow> nat \<Rightarrow> 'a list" where
  "mx_row m i = take (mx_cols m) (drop (i * mx_cols m) (mx_flat m))"

definition two_counts :: "byte list \<Rightarrow> (nat \<times> nat) res" where
  \<comment> \<open>the header; unpacking fewer than two numbers is a ValueError\<close>
  "two_counts f = (case fromfile 4 u4_dec f 0 2 of [n, d] \<Rightarrow> Inr (unat n, unat d) | _ \<Rightarrow> Inl ValueError)"

definition bench_read_fbin :: "byte list \<Rightarrow> nat option \<Rightarrow> bool \<Rightarrow> 32 word matrix res" where
  \<comment> \<open>\<open>max_rows\<close> None or 0 reads all rows\<close>
  "bench_read_fbin f max_rows mmap =
     res_bind (two_counts f) (\<lambda>(n0, d).
       let n = (case max_rows of None \<Rightarrow> n0 | Some m \<Rightarrow> if m = 0 then n0 else min n0 m) in
       if mmap then
         (if length f < 8 + 4 * n * d then Inl ValueError
          else Inr \<lparr>mx_rows = n, mx_cols = d, mx_flat = map u4_dec (chunks 4 (take (4 * n * d) (drop 8 f)))\<rparr>)
       else reshape (fromfile 4 u4_dec f 8 (n * d)) n d)"

definition bench_write_fbin :: "32 word matrix \<Rightarrow> byte list" where
  "bench_write_fbin x =
     concat (map u4_enc [word_of_nat (mx_rows x), word_of_nat (mx_cols x)]) @ concat (map u4_enc (mx_flat x))"

definition read_gt :: "byte list \<Rightarrow> (32 word matrix \<times> 32 word matrix) res" where
  "read_gt f =
     res_bind (two_counts f) (\<lambda>(nq, k).
     res_bind (reshape (fromfile 4 u4_dec f 8 (nq * k)) nq k) (\<lambda>ids.
     res_bind (reshape (fromfile 4 u4_dec f (8 + 4 * nq * k) (nq * k)) nq k) (\<lambda>scores. Inr (ids, scores))))"

definition bench_recall :: "'i list list \<Rightarrow> 'i list list \<Rightarrow> nat \<Rightarrow> real res" where
  "bench_recall approx gt k =
     (if k * length approx = 0 then Inl ZeroDivisionError
      else Inr (real (sum_list (map2 (\<lambda>a g. card (set (take k a) \<inter> set (take k g))) approx gt)) / real (k * length approx)))"

section \<open>Global ids to ordinals and back\<close>

definition searchsorted :: "nat list \<Rightarrow> nat \<Rightarrow> nat" where
  \<comment> \<open>the leftmost place that keeps a sorted array sorted\<close>
  "searchsorted xs x = length (takeWhile (\<lambda>y. y < x) xs)"

definition ordinal :: "nat list \<Rightarrow> nat list \<Rightarrow> nat \<Rightarrow> 32 word res" where
  \<comment> \<open>\<open>order[pos].astype(np.uint32)\<close>\<close>
  "ordinal order docids p =
     (let pos = searchsorted (map ((!) docids) order) p
      in if length order \<le> pos then Inl IndexError else Inr (word_of_nat (order ! pos)))"

definition gt_from_pids :: "(nat list \<Rightarrow> nat list) \<Rightarrow> byte list \<Rightarrow> byte list \<Rightarrow> byte list \<Rightarrow> byte list res" where
  "gt_from_pids argsort pids_f scores_f docids_f =
     res_bind (bench_read_fbin scores_f None False) (\<lambda>scores.
     res_bind (res_bind (read_u64bin pids_f) (\<lambda>ps. reshape (map unat ps) (mx_rows scores) (mx_cols scores))) (\<lambda>pids.
     res_bind (read_u64bin docids_f) (\<lambda>ds.
       let docids = map unat ds; order = argsort docids in
       res_bind (res_map (ordinal order docids) (mx_flat pids)) (\<lambda>ords.
         if map (\<lambda>o'. docids ! unat o') ords \<noteq> mx_flat pids then Inl AssertionError
         else Inr (concat (map u4_enc [word_of_nat (mx_rows scores), word_of_nat (mx_cols scores)]) @
                   concat (map u4_enc ords) @ concat (map u4_enc (mx_flat scores)))))))"

record gt_check =
  gc_queries :: nat
  gc_same_top10 :: "real option"
  gc_max_diff :: real

definition check_gt :: "(32 word \<Rightarrow> real) \<Rightarrow> 32 word matrix \<times> 32 word matrix \<Rightarrow> 32 word matrix \<times> 32 word matrix \<Rightarrow> gt_check res" where
  \<comment> \<open>the check against a file of the engine; the maximum of no difference raises ValueError\<close>
  "check_gt val = (\<lambda>(ours, oscore) (ords, scores).
     let m = min (mx_rows ours) (mx_rows scores); kk = min 10 (mx_cols ours);
         same = map (\<lambda>i. if set (take kk (mx_row ours i)) = set (take kk (mx_row ords i)) then 1 else (0 :: real)) [0..<m];
         diffs = concat (map (\<lambda>i. let xs = take kk (mx_row oscore i); ys = take kk (mx_row scores i) in
             if mx_cols scores = 1 then map (\<lambda>x. \<bar>val x - val (hd ys)\<bar>) xs else map2 (\<lambda>x y. \<bar>val x - val y\<bar>) xs ys) [0..<m])
     in if mx_cols scores < kk \<and> mx_cols scores \<noteq> 1 then Inl ValueError
        else if diffs = [] then Inl ValueError
        else Inr \<lparr>gc_queries = m, gc_same_top10 = (if m = 0 then None else Some (mean same)), gc_max_diff = Max (set diffs)\<rparr>)"

definition stripped_lines :: "string \<Rightarrow> string list" where
  "stripped_lines f = filter (\<lambda>l. l \<noteq> []) (map strip (text_lines f))"

definition gt_to_trec :: "(32 word \<Rightarrow> real) \<Rightarrow> byte list \<Rightarrow> string \<Rightarrow> byte list \<Rightarrow> string \<Rightarrow> nat \<Rightarrow> string res" where
  "gt_to_trec val gt_f qids_f docids_f tag k =
     res_bind (read_gt gt_f) (\<lambda>(ids, scores).
     res_bind (read_u64bin docids_f) (\<lambda>ds.
     res_bind (res_map (\<lambda>(qi, qid). res_map (\<lambda>r.
         let i = unat (mx_flat ids ! (qi * mx_cols ids + r)) in
         if length ds \<le> i then Inl IndexError
         else Inr (sp_join [qid, ''Q0'', str_nat (unat (ds ! i)), str_nat (r + 1),
                     fmt_f 6 (val (mx_flat scores ! (qi * mx_cols scores + r))), tag]))
         [0..<min k (mx_cols ids)]) (enumerate 0 (take (mx_rows ids) (stripped_lines qids_f)))) (\<lambda>ls.
       Inr (unlines (concat ls)))))"

section \<open>Quality and cost of approximate search\<close>

definition overlap_at_10 :: "run \<Rightarrow> run \<Rightarrow> real" where
  "overlap_at_10 run ref =
     sum_list (map (\<lambda>(q, scores).
       let top_ref = set (take 10 (rank_run scores)); top_run = set (take 10 (rank_run (dget run q [])))
       in real (card (top_ref \<inter> top_run)) / real (max 1 (card top_ref))) ref) / real (max 1 (length ref))"

definition tag_of :: "string \<Rightarrow> string res" where
  "tag_of f =
     (case text_lines f of
        [] \<Rightarrow> Inl IndexError
      | l # _ \<Rightarrow> let ws = split_ws l in if length ws \<le> 5 then Inl IndexError else Inr (ws ! 5))"

record point =
  pt_system :: string
  pt_l :: "nat option"
  pt_w :: "nat option"

definition point_key :: "point \<Rightarrow> string option" where
  \<comment> \<open>rows without \<open>L\<close> are no operating points\<close>
  "point_key p =
     (case (pt_l p, pt_w p) of
        (None, _) \<Rightarrow> None
      | (Some l, None) \<Rightarrow> Some (pt_system p @ ''-L'' @ str_nat l)
      | (Some l, Some w) \<Rightarrow> Some (pt_system p @ ''-W'' @ str_nat w @ ''-L'' @ str_nat l))"

definition operating_points :: "point list \<Rightarrow> (string, point) dict" where
  "operating_points ps = dict_of (concat (map (\<lambda>p. case point_key p of None \<Rightarrow> [] | Some k \<Rightarrow> [(k, p)]) ps))"

record mrr_row =
  mr_tag :: string
  mr_metrics :: "(string, real) dict"
  mr_delta :: real
  mr_ci :: "real \<times> real"
  mr_p :: real
  mr_overlap :: real
  mr_point :: "point option"

definition point_metrics :: "string list" where "point_metrics = [''RR@10'', ''R@10'', ''nDCG@10'']"

definition mrr_point :: "(real list \<Rightarrow> real \<Rightarrow> real) \<Rightarrow> 'g ints \<Rightarrow> 'g \<Rightarrow> nat \<Rightarrow> nat \<Rightarrow> qrels \<Rightarrow> run \<Rightarrow> (string, point) dict \<Rightarrow> string \<Rightarrow> mrr_row diverging" where
  \<comment> \<open>\<open>n_perm\<close> and \<open>n_boot\<close> are the defaults of the tests; the values of both runs are aligned by query\<close>
  "mrr_point quantile ints g n_perm n_boot qrels ref points f =
     div_bind (Some (res_bind (evaluate ref qrels (Some point_metrics)) (\<lambda>r. res_bind (read_run f) (\<lambda>run.
       res_bind (evaluate run qrels (Some point_metrics)) (\<lambda>e. Inr (r, run, e)))))) (\<lambda>((ref_agg, ref_pq), run, agg, pq).
     let qids = py_sorted (\<lambda>q. q) (keys qrels); values = (\<lambda>pq. map (\<lambda>q. dget (dget pq ''RR@10'' []) q 0) qids);
         x = values pq; y = values ref_pq in
     div_bind (paired_randomization_test ints g x y n_perm ''two-sided'' 1000) (\<lambda>p.
     div_bind (paired_bootstrap_ci quantile ints g x y n_boot (5 / 100) 1000) (\<lambda>(_, lo, hi).
     div_bind (Some (tag_of f)) (\<lambda>tag.
       Some (Inr \<lparr>mr_tag = tag, mr_metrics = map (\<lambda>(k, v). (k, round_to 5 v)) agg,
         mr_delta = round_to 5 (dget agg ''RR@10'' 0 - dget ref_agg ''RR@10'' 0), mr_ci = (round_to 5 lo, round_to 5 hi), mr_p = p,
         mr_overlap = round_to 5 (overlap_at_10 run ref), mr_point = map_of points tag\<rparr>)))))"

definition COST :: "string list" where
  "COST = [''hops_per_query'', ''dist_per_query'', ''cpu_us_per_query'', ''ssd_reads_per_query'']"

record sweep_row =
  sr_system :: string
  sr_recall :: real
  sr_costs :: "(string, real) dict"

definition matched_costs :: "(real \<Rightarrow> real list \<Rightarrow> real list \<Rightarrow> real) \<Rightarrow> sweep_row list \<Rightarrow> real \<Rightarrow> (string, real) dict option" where
  \<comment> \<open>one series at one recall target; None when it does not reach the target\<close>
  "matched_costs interp pts t =
     (let pts = py_sorted sr_recall pts; rc = map sr_recall pts in
      if last rc < t then None
      else Some (map (\<lambda>c. (c, round_to 1 (interp t rc (map (\<lambda>p. dget (sr_costs p) c 0) pts))))
                  (filter (\<lambda>c. list_all (\<lambda>p. dhas (sr_costs p) c) pts) COST)))"

definition matched_recall :: "(real \<Rightarrow> real list \<Rightarrow> real list \<Rightarrow> real) \<Rightarrow> sweep_row list \<Rightarrow> real list \<Rightarrow>
    (real, (string, (string, real) dict option) dict) dict" where
  "matched_recall interp rs targets =
     dict_of (map (\<lambda>t. (t, map (\<lambda>(name, pts). (name, matched_costs interp pts t)) (group_by sr_system rs))) targets)"

section \<open>Load summaries\<close>

datatype k6_point = Duration real | Failed bool | Dropped int | Other_Point

record load_summary =
  ls_requests :: nat
  ls_failed :: nat
  ls_percentiles :: "real list"
  ls_max :: real

definition durations :: "k6_point list \<Rightarrow> real list" where
  "durations ps = concat (map (\<lambda>p. case p of Duration x \<Rightarrow> [x] | _ \<Rightarrow> []) ps)"

definition summarise_load :: "(real list \<Rightarrow> real \<Rightarrow> real) \<Rightarrow> k6_point list \<Rightarrow> load_summary res" where
  \<comment> \<open>a run with dropped iterations is refused; a run without samples has no percentiles and no maximum\<close>
  "summarise_load percentile ps =
     (let d = durations ps; dropped = sum_list (map (\<lambda>p. case p of Dropped n \<Rightarrow> n | _ \<Rightarrow> 0) ps)
      in if dropped \<noteq> 0 then Inl SystemExit
         else if d = [] then Inl ValueError
         else Inr \<lparr>ls_requests = length d, ls_failed = length (filter (\<lambda>p. p = Failed True) ps),
           ls_percentiles = map (percentile d) [50, 90, 99, 999 / 10], ls_max = Max (set d)\<rparr>)"

section \<open>Ordinals are exact\<close>

definition is_argsort :: "(nat list \<Rightarrow> nat list) \<Rightarrow> bool" where
  \<comment> \<open>a permutation of the indices that sorts the array, ties in any order\<close>
  "is_argsort argsort \<longleftrightarrow> (\<forall>xs. mset (argsort xs) = mset [0..<length xs] \<and> sorted (map ((!) xs) (argsort xs)))"

lemma searchsorted_present:
  assumes "sorted xs" and "x \<in> set xs"
  shows "searchsorted xs x < length xs \<and> xs ! searchsorted xs x = x"
proof -
  let ?d = "dropWhile (\<lambda>y. y < x) xs" and ?n = "searchsorted xs x"
  have d: "?d = drop ?n xs" by (simp add: searchsorted_def dropWhile_eq_drop)
  have "x \<in> set ?d" using assms(2) by (metis Un_iff less_irrefl set_append set_takeWhileD takeWhile_dropWhile_id)
  then have ne: "?d \<noteq> []" by (metis empty_iff list.set(1))
  then have n: "?n < length xs" using d by (metis drop_all not_le)
  have h: "xs ! ?n = hd ?d" using n by (simp add: d hd_drop_conv_nth)
  have "x \<le> hd ?d" using hd_dropWhile [OF ne] by simp
  moreover have "sorted ?d" using assms(1) by (simp add: d sorted_wrt_drop)
  then have "hd ?d \<le> x" using \<open>x \<in> set ?d\<close> by (cases ?d) auto
  ultimately show ?thesis using n h by simp
qed

lemma ordinal_exact:
  assumes a: "is_argsort argsort" and small: "length docids < 2 ^ 32"
  shows "p \<in> set docids \<Longrightarrow> \<exists>o'. ordinal (argsort docids) docids p = Inr o' \<and> docids ! unat o' = p"
    and "ordinal (argsort docids) docids p = Inr o' \<Longrightarrow> unat o' < length docids"
proof -
  let ?o = "argsort docids" and ?s = "map ((!) docids) (argsort docids)"
  have m: "mset ?o = mset [0..<length docids]" and srt: "sorted ?s" using a unfolding is_argsort_def by blast+
  have "set ?o = set [0..<length docids]" by (rule mset_eq_setD [OF m])
  then have so: "set ?o = {..<length docids}" by (simp only: set_upt lessThan_atLeast0)
  have rt: "unat (word_of_nat i :: 32 word) = i" if "i < length docids" for i
    using that small by (intro u4_of_nat) simp
  have idx: "?o ! j < length docids" if "j < length ?o" for j using so nth_mem [OF that] by auto
  show "\<exists>o'. ordinal (argsort docids) docids p = Inr o' \<and> docids ! unat o' = p" if p: "p \<in> set docids"
  proof -
    have "set ?s = (!) docids ` {..<length docids}" using so by simp
    also have "\<dots> = set docids" by (auto simp: in_set_conv_nth)
    finally have "set ?s = set docids" .
    then have pos: "searchsorted ?s p < length ?o" "?s ! searchsorted ?s p = p"
      using searchsorted_present [OF srt, of p] p by simp_all
    then have val: "docids ! (?o ! searchsorted ?s p) = p" by (metis nth_map)
    have "ordinal ?o docids p = Inr (word_of_nat (?o ! searchsorted ?s p))"
      using pos(1) by (simp only: ordinal_def Let_def not_le [symmetric] if_False)
    then show ?thesis using rt [OF idx [OF pos(1)]] val by simp
  qed
  show "unat o' < length docids" if "ordinal (argsort docids) docids p = Inr o'"
    using that rt idx by (auto simp: ordinal_def Let_def split: if_splits)
qed

lemma fromfile_enc:
  assumes "length pre = off"
  shows "fromfile 4 u4_dec (pre @ concat (map u4_enc xs) @ rest) off (length xs) = xs"
proof -
  have l: "length (concat (map u4_enc xs)) = 4 * length xs" by (rule u4.concat_length)
  then have "min (length xs) (length (concat (map u4_enc xs) @ rest) div 4) = length xs" by simp
  then show ?thesis using assms l u4.decode_enc [of xs] by (simp add: fromfile_def Let_def)
qed

lemma two_counts_bound: "two_counts f = Inr (n, d) \<Longrightarrow> n < 2 ^ 32 \<and> d < 2 ^ 32"
  using unsigned_less [where ?'a = nat and ?'b = 32] by (auto simp: two_counts_def split: list.splits)

lemma read_gt_written:
  assumes "length ids = n * k" and "length sc = n * k" and "n < 2 ^ 32" and "k < 2 ^ 32"
  shows "read_gt (concat (map u4_enc [word_of_nat n, word_of_nat k]) @ concat (map u4_enc ids) @ concat (map u4_enc sc)) =
     Inr (\<lparr>mx_rows = n, mx_cols = k, mx_flat = ids\<rparr>, \<lparr>mx_rows = n, mx_cols = k, mx_flat = sc\<rparr>)"
proof -
  let ?hd = "[word_of_nat n, word_of_nat k] :: 32 word list"
  let ?f = "concat (map u4_enc ?hd) @ concat (map u4_enc ids) @ concat (map u4_enc sc)"
  have l: "length (concat (map u4_enc ?hd)) = 8" "length (concat (map u4_enc ids)) = 4 * n * k"
    using assms(1) by (simp_all add: u4.concat_length u4.enc_width)
  have "fromfile 4 u4_dec ?f 0 2 = ?hd" using fromfile_enc [of "[]" 0 ?hd "concat (map u4_enc ids) @ concat (map u4_enc sc)"]
    by (simp add: numeral_2_eq_2)
  then have h: "two_counts ?f = Inr (n, k)" using u4_of_nat [OF assms(3)] u4_of_nat [OF assms(4)] by (simp add: two_counts_def)
  have i: "fromfile 4 u4_dec ?f 8 (n * k) = ids" using fromfile_enc [OF l(1), of ids] assms(1) by simp
  have "fromfile 4 u4_dec ((concat (map u4_enc ?hd) @ concat (map u4_enc ids)) @ concat (map u4_enc sc) @ []) (8 + 4 * n * k) (length sc) = sc"
    by (rule fromfile_enc) (use l in simp)
  then have s: "fromfile 4 u4_dec ?f (8 + 4 * n * k) (n * k) = sc" using assms(2) by simp
  show ?thesis using assms(1,2) unfolding read_gt_def h res_bind.simps prod.case i s by (simp add: reshape_def)
qed

text \<open>Ids of the index have exact ordinals, and ordinals read through the index give the ids.\<close>

lemma ordinals_exist:
  assumes "is_argsort argsort" and "length docids < 2 ^ 32" and "set ps \<subseteq> set docids"
  shows "\<exists>ords. res_map (ordinal (argsort docids) docids) ps = Inr ords \<and> map (\<lambda>o'. docids ! unat o') ords = ps"
proof -
  define pick where "pick = (\<lambda>p. case ordinal (argsort docids) docids p of Inl _ \<Rightarrow> 0 | Inr o' \<Rightarrow> o')"
  have p: "ordinal (argsort docids) docids p = Inr (pick p) \<and> docids ! unat (pick p) = p" if m: "p \<in> set ps" for p
  proof -
    obtain o' where "ordinal (argsort docids) docids p = Inr o'" "docids ! unat o' = p"
      using ordinal_exact(1) [OF assms(1,2)] assms(3) m by blast
    then show ?thesis by (simp add: pick_def)
  qed
  then have "res_map (ordinal (argsort docids) docids) ps = Inr (map pick ps)" by (intro res_map_all_Inr) simp
  moreover have "map (\<lambda>o'. docids ! unat o') (map pick ps) = ps" using p by (simp add: map_idI)
  ultimately show ?thesis by blast
qed

lemma ordinals_decode:
  assumes "is_argsort argsort" and "length ds < 2 ^ 32"
    and o: "res_map (ordinal (argsort (map unat ds)) (map unat ds)) ps = Inr ords"
    and eq: "map (\<lambda>o'. map unat ds ! unat o') ords = map unat qs"
  shows "map (\<lambda>o'. ds ! unat o') ords = (qs :: 64 word list)" and "set qs \<subseteq> set ds"
proof -
  have b: "unat o' < length ds" if "o' \<in> set ords" for o'
    using res_map_Inr_set [OF o that] ordinal_exact(2) [OF assms(1), of "map unat ds"] assms(2) by auto
  then have "map unat (map (\<lambda>o'. ds ! unat o') ords) = map (\<lambda>o'. map unat ds ! unat o') ords" by (simp add: comp_def)
  then have "map unat (map (\<lambda>o'. ds ! unat o') ords) = map unat qs" using eq by (simp only:)
  then show "map (\<lambda>o'. ds ! unat o') ords = qs"
    by (simp only: inj_map_eq_map [OF injI [OF iffD1 [OF word_unat_eq_iff [symmetric]]]])
  then show "set qs \<subseteq> set ds" using b by (auto simp: nth_mem)
qed

text \<open>Converting ground truth from global ids to ordinals succeeds exactly when every id is in the
  index, and the file it writes reads rt with the same scores and, through the index, the same ids:
  nothing but the representation changes, whatever order numpy's sort leaves equal ids in.\<close>

theorem gt_from_pids_exact:
  assumes a: "is_argsort argsort" and sc: "bench_read_fbin sf None False = Inr scores" and pf: "read_u64bin pf = Inr ps"
    and len: "length ps = mx_rows scores * mx_cols scores" and df: "read_u64bin df = Inr ds" and small: "length ds < 2 ^ 32"
  shows "((\<exists>f. gt_from_pids argsort pf sf df = Inr f) \<longleftrightarrow> set ps \<subseteq> set ds) \<and>
     (\<forall>f. gt_from_pids argsort pf sf df = Inr f \<longrightarrow>
        (\<exists>ids. read_gt f = Inr (ids, scores) \<and> mx_rows ids = mx_rows scores \<and> map (\<lambda>o'. ds ! unat o') (mx_flat ids) = ps))"
proof -
  let ?ord = "ordinal (argsort (map unat ds)) (map unat ds)"
  obtain n k where nk: "two_counts sf = Inr (n, k)" "mx_rows scores = n" "mx_cols scores = k" "length (mx_flat scores) = n * k"
    using sc by (auto simp: bench_read_fbin_def reshape_def split: if_splits)
  have run: "gt_from_pids argsort pf sf df = res_bind (res_map ?ord (map unat ps)) (\<lambda>ords.
      if map (\<lambda>o'. map unat ds ! unat o') ords \<noteq> map unat ps then Inl AssertionError
      else Inr (concat (map u4_enc [word_of_nat n, word_of_nat k]) @ concat (map u4_enc ords) @ concat (map u4_enc (mx_flat scores))))"
    using len by (simp add: gt_from_pids_def sc pf df reshape_def nk(2,3) Let_def cong: if_cong)
  have ok: "\<exists>ids. read_gt f = Inr (ids, scores) \<and> mx_rows ids = mx_rows scores \<and> map (\<lambda>o'. ds ! unat o') (mx_flat ids) = ps \<and>
      set ps \<subseteq> set ds" if f: "gt_from_pids argsort pf sf df = Inr f" for f
  proof -
    obtain ords where o: "res_map ?ord (map unat ps) = Inr ords" "map (\<lambda>o'. map unat ds ! unat o') ords = map unat ps"
      and fe: "f = concat (map u4_enc [word_of_nat n, word_of_nat k]) @ concat (map u4_enc ords) @ concat (map u4_enc (mx_flat scores))"
      using f unfolding run by (auto split: if_splits)
    have "read_gt f = Inr (\<lparr>mx_rows = n, mx_cols = k, mx_flat = ords\<rparr>, \<lparr>mx_rows = n, mx_cols = k, mx_flat = mx_flat scores\<rparr>)"
      unfolding fe using res_map_Inr_length [OF o(1)] len nk two_counts_bound [OF nk(1)] by (intro read_gt_written) simp_all
    then show ?thesis using ordinals_decode [OF a small o] nk(2,3)
      by (intro exI [of _ "\<lparr>mx_rows = n, mx_cols = k, mx_flat = ords\<rparr>"]) simp
  qed
  have "\<exists>f. gt_from_pids argsort pf sf df = Inr f" if sub: "set ps \<subseteq> set ds"
    using ordinals_exist [OF a, of "map unat ds" "map unat ps"] small sub unfolding run by fastforce
  then show ?thesis using ok by blast
qed

definition demo_argsort :: "nat list \<Rightarrow> nat list" where
  "demo_argsort xs = sort_key ((!) xs) [0..<length xs]"

theorem gt_from_pids_exact_witness:
  "\<exists>f ids. gt_from_pids demo_argsort (write_u64bin [9, 7]) (bench_write_fbin \<lparr>mx_rows = 1, mx_cols = 2, mx_flat = [5, 6]\<rparr>) (write_u64bin [7, 8, 9]) = Inr f \<and>
     read_gt f = Inr (ids, \<lparr>mx_rows = 1, mx_cols = 2, mx_flat = [5, 6]\<rparr>) \<and> map (\<lambda>o'. [7, 8, 9] ! unat o') (mx_flat ids) = ([9, 7] :: 64 word list)"
proof -
  have a: "is_argsort demo_argsort" by (simp add: is_argsort_def demo_argsort_def)
  have sc: "bench_read_fbin (bench_write_fbin \<lparr>mx_rows = 1, mx_cols = 2, mx_flat = [5, 6]\<rparr>) None False = Inr \<lparr>mx_rows = 1, mx_cols = 2, mx_flat = [5, 6]\<rparr>"
    by code_simp
  have p: "read_u64bin (write_u64bin [9, 7]) = Inr [9, 7]" "read_u64bin (write_u64bin [7, 8, 9]) = Inr [7, 8, 9]"
    by code_simp+
  show ?thesis using gt_from_pids_exact [OF a sc p(1) _ p(2)] by fastforce
qed

end
