(* ===== verification/Ann_Compare.thy ===== *)
theory Ann_Compare
  imports Ground_Truth Dense_Search Json Effects
begin

text \<open>
  \<open>py/hybridsearch/bench/ann_compare.py\<close>: hnswlib and FAISS on the engine's vectors, queries and ground
  truth.  A run is a computation on the world (the JSON-lines file, FAISS's global number of threads, the
  clock, the CPU seconds of the last batch) that may raise at any step; what it wrote before it raised
  stays.  The two libraries, the readings of the clocks and the sample of the generator are arguments
  (\<open>ann_env\<close>); sizes of the command line are natural numbers.  The lemmas show that the file only grows by
  whole lines and that a finished comparison has one row per operating point of its plan, each with the recall
  of a one-thread search of an index that holds every vector once, under its ordinal.
\<close>

section \<open>The world\<close>

record ann_world =
  w_out :: string
  w_omp :: nat \<comment> \<open>\<open>faiss.omp_set_num_threads\<close>\<close>
  w_tick :: nat \<comment> \<open>how many times a clock was read\<close>
  w_cpu :: real \<comment> \<open>\<open>_LAST_CPU[0]\<close>\<close>

type_synonym 'a ann_act = "(ann_world, 'a) eff"

section \<open>The libraries and the clocks\<close>

type_synonym f32_row = "32 word list"

record ('h, 'f) ann_env =
  ae_text :: "real \<Rightarrow> string" \<comment> \<open>the text of a float in JSON\<close>
  ae_wall :: "nat \<Rightarrow> real" \<comment> \<open>\<open>time.perf_counter\<close>\<close>
  ae_cpu :: "nat \<Rightarrow> real" \<comment> \<open>\<open>time.thread_time\<close>\<close>
  ae_choice :: "nat \<Rightarrow> nat \<Rightarrow> nat \<Rightarrow> nat list res" \<comment> \<open>seed, \<open>n\<close>, \<open>size\<close>: \<open>choice(replace=False)\<close>\<close>
  hn_new :: "nat \<Rightarrow> nat \<Rightarrow> nat \<Rightarrow> nat \<Rightarrow> 'h res" \<comment> \<open>\<open>dim\<close>, \<open>max_elements\<close>, \<open>M\<close>, \<open>ef_construction\<close>\<close>
  hn_add :: "nat \<Rightarrow> f32_row list \<Rightarrow> nat list \<Rightarrow> 'h \<Rightarrow> 'h res" \<comment> \<open>threads, rows and labels\<close>
  hn_query :: "nat \<Rightarrow> nat \<Rightarrow> f32_row list \<Rightarrow> nat \<Rightarrow> 'h \<Rightarrow> int list list res" \<comment> \<open>threads, \<open>ef\<close>, queries, \<open>k\<close>\<close>
  fa_flat :: "nat \<Rightarrow> 'f res"
  fa_hnsw :: "nat \<Rightarrow> nat \<Rightarrow> nat \<Rightarrow> 'f res" \<comment> \<open>\<open>d\<close>, \<open>M\<close>, \<open>efConstruction\<close>\<close>
  fa_ivfpq :: "'f \<Rightarrow> nat \<Rightarrow> nat \<Rightarrow> nat \<Rightarrow> nat \<Rightarrow> 'f res" \<comment> \<open>quantiser, \<open>d\<close>, \<open>nlist\<close>, \<open>m\<close>, bits\<close>
  fa_train :: "nat \<Rightarrow> f32_row list \<Rightarrow> 'f \<Rightarrow> 'f res" \<comment> \<open>the first argument of the next ones: the threads\<close>
  fa_add :: "nat \<Rightarrow> f32_row list \<Rightarrow> 'f \<Rightarrow> 'f res"
  fa_search :: "nat \<Rightarrow> f32_row list \<Rightarrow> nat \<Rightarrow> 'f \<Rightarrow> int list list res"
  fa_ef_search :: "nat \<Rightarrow> 'f \<Rightarrow> 'f" \<comment> \<open>setting \<open>hnsw.efSearch\<close>\<close>
  fa_nprobe :: "nat \<Rightarrow> 'f \<Rightarrow> 'f"
  fa_refine :: "nat \<Rightarrow> 'f \<Rightarrow> 'f \<Rightarrow> 'f" \<comment> \<open>\<open>IndexRefine(ivf, flat)\<close> with its \<open>k_factor\<close>\<close>

definition read_clock :: "(nat \<Rightarrow> real) \<Rightarrow> real ann_act" where
  "read_clock clk = act_bind (act_gets w_tick) (\<lambda>i. act_bind (act_puts (w_tick_update Suc)) (\<lambda>_. act_of (Inr (clk i))))"

definition omp_threads :: "nat \<Rightarrow> unit ann_act" where
  "omp_threads n = act_puts (w_omp_update (\<lambda>_. n))"

definition with_omp :: "(nat \<Rightarrow> 'a res) \<Rightarrow> 'a ann_act" where
  \<comment> \<open>a call into FAISS runs with the threads set last\<close>
  "with_omp f = act_bind (act_gets w_omp) (\<lambda>n. act_of (f n))"

definition ann_line :: "(real \<Rightarrow> string) \<Rightarrow> json \<Rightarrow> string" where
  "ann_line rp row = dumps '', '' '': '' rp row @ nl"

definition ann_emit :: "(real \<Rightarrow> string) \<Rightarrow> json \<Rightarrow> unit ann_act" where
  \<comment> \<open>\<open>emit\<close>; the copy on standard output is left out\<close>
  "ann_emit rp row = act_puts (w_out_update (\<lambda>t. t @ ann_line rp row))"

section \<open>One measurement\<close>

definition timed_search :: "('h, 'f) ann_env \<Rightarrow> int list list ann_act \<Rightarrow> (int list list \<times> real) ann_act" where
  "timed_search E fn =
     act_bind (read_clock (ae_cpu E)) (\<lambda>c.
     act_bind (read_clock (ae_wall E)) (\<lambda>t.
     act_bind fn (\<lambda>ids.
     act_bind (read_clock (ae_wall E)) (\<lambda>t'.
     act_bind (read_clock (ae_cpu E)) (\<lambda>c'.
     act_bind (act_puts (w_cpu_update (\<lambda>_. c' - c))) (\<lambda>_. act_of (Inr (ids, t' - t))))))))"

definition cpu_fields :: "nat \<Rightarrow> (string \<times> json) list ann_act" where
  "cpu_fields nq =
     act_bind (act_gets w_cpu) (\<lambda>cpu.
       if nq = 0 then act_of (Inl ZeroDivisionError)
       else act_of (Inr [(''cpu_us_per_query'', JFloat (cpu / real nq * 1000000)),
              (''cpu_qps'', if cpu > 0 then JFloat (real nq / cpu) else JNull)]))"

definition measured :: "('h, 'f) ann_env \<Rightarrow> int list list ann_act \<Rightarrow> nat \<Rightarrow> nat \<Rightarrow> int list list \<Rightarrow> (string \<times> json) list \<Rightarrow>
    (string \<times> json) list \<Rightarrow> unit ann_act" where
  \<comment> \<open>the search and the row every system emits: its fields before and after the measured ones\<close>
  "measured E fn n nq gt front rest =
     act_bind (timed_search E fn) (\<lambda>(ids, secs).
     act_bind (act_of (bench_recall ids gt 10)) (\<lambda>r.
     act_bind (act_of (if secs = 0 then Inl ZeroDivisionError else Inr (real nq / secs))) (\<lambda>qps.
     act_bind (cpu_fields nq) (\<lambda>cf.
       ann_emit (ae_text E) (JObj (front @ [(''n'', JInt (int n)), (''nq'', JInt (int nq)), (''recall'', JFloat r),
         (''qps'', JFloat qps)] @ cf @ rest))))))"

section \<open>The systems\<close>

definition ANN_SLICE :: nat where "ANN_SLICE = 100000"

definition faiss_fill :: "('h, 'f) ann_env \<Rightarrow> f32_row list \<Rightarrow> 'f \<Rightarrow> 'f ann_act" where
  \<comment> \<open>\<open>for s in range(0, n, 100_000): ix.add(x[s:s + 100_000])\<close>\<close>
  "faiss_fill E x ix0 = with_omp (\<lambda>th. res_fold (\<lambda>ix (_, b). fa_add E th b ix) ix0 (block_rows ANN_SLICE x))"

definition hnsw_fill :: "('h, 'f) ann_env \<Rightarrow> nat \<Rightarrow> f32_row list \<Rightarrow> 'h \<Rightarrow> 'h res" where
  "hnsw_fill E threads x ix0 =
     res_fold (\<lambda>ix (s, b). hn_add E threads b [s..<min (length x) (s + ANN_SLICE)] ix) ix0 (block_rows ANN_SLICE x)"

definition hnswlib_bytes :: "nat \<Rightarrow> nat \<Rightarrow> nat \<Rightarrow> nat res" where
  \<comment> \<open>level-0 links, labels, and about \<open>1 / M\<close> of the nodes on upper levels\<close>
  "hnswlib_bytes n d M =
     (if M = 0 then Inl ZeroDivisionError else Inr (n * (d * 4 + 2 * M * 4 + 4 + 8) + n div M * M * 4))"

definition run_hnswlib :: "('h, 'f) ann_env \<Rightarrow> nat \<Rightarrow> f32_row list \<Rightarrow> f32_row list \<Rightarrow> int list list \<Rightarrow> nat \<Rightarrow> nat \<Rightarrow> nat \<Rightarrow> nat list \<Rightarrow>
    string \<Rightarrow> unit ann_act" where
  "run_hnswlib E d x q gt threads M efc efs tg =
     act_bind (read_clock (ae_wall E)) (\<lambda>t.
     act_bind (act_of (hn_new E d (length x) M efc)) (\<lambda>ix0.
     act_bind (act_of (hnsw_fill E threads x ix0)) (\<lambda>ix.
     act_bind (read_clock (ae_wall E)) (\<lambda>t'.
     act_bind (act_of (hnswlib_bytes (length x) d M)) (\<lambda>mem.
       act_each (\<lambda>ef. measured E (act_of (hn_query E 1 (max ef 10) q 10 ix)) (length x) (length q) gt
           [(''system'', JStr tg), (''M'', JInt (int M)), (''efConstruction'', JInt (int efc)), (''efSearch'', JInt (int ef))]
           [(''build_seconds'', JFloat (t' - t)), (''build_threads'', JInt (int threads)), (''index_bytes_est'', JInt (int mem))])
         efs)))))"

definition run_faiss_hnsw :: "('h, 'f) ann_env \<Rightarrow> nat \<Rightarrow> f32_row list \<Rightarrow> f32_row list \<Rightarrow> int list list \<Rightarrow> nat \<Rightarrow> nat \<Rightarrow> nat \<Rightarrow> nat list \<Rightarrow>
    string \<Rightarrow> unit ann_act" where
  "run_faiss_hnsw E d x q gt threads M efc efs tg =
     act_bind (omp_threads threads) (\<lambda>_.
     act_bind (act_of (fa_hnsw E d M efc)) (\<lambda>ix0.
     act_bind (read_clock (ae_wall E)) (\<lambda>t.
     act_bind (faiss_fill E x ix0) (\<lambda>ix.
     act_bind (read_clock (ae_wall E)) (\<lambda>t'.
     act_bind (omp_threads 1) (\<lambda>_.
       act_each (\<lambda>ef. measured E (with_omp (\<lambda>th. fa_search E th q 10 (fa_ef_search E ef ix))) (length x) (length q) gt
           [(''system'', JStr tg), (''M'', JInt (int M)), (''efConstruction'', JInt (int efc)), (''efSearch'', JInt (int ef))]
           [(''build_seconds'', JFloat (t' - t)), (''build_threads'', JInt (int threads)),
            (''index_bytes_est'', JInt (int (length x * (d * 4 + 2 * M * 4))))])
         efs))))))"

definition ivf_head :: "string \<Rightarrow> nat \<Rightarrow> nat \<Rightarrow> nat \<Rightarrow> nat \<Rightarrow> (string \<times> json) list" where
  "ivf_head tg nlist pq_m nprobe f =
     [(''system'', JStr tg), (''nlist'', JInt (int nlist)), (''pq_M'', JInt (int pq_m)), (''nprobe'', JInt (int nprobe)),
      (''refine'', JInt (int f))]"

definition ivf_tail :: "real \<Rightarrow> nat \<Rightarrow> nat \<Rightarrow> (string \<times> json) list" where
  "ivf_tail build threads mem =
     [(''build_seconds'', JFloat build), (''build_threads'', JInt (int threads)), (''index_bytes_est'', JInt (int mem))]"

definition run_refined :: "('h, 'f) ann_env \<Rightarrow> nat \<Rightarrow> f32_row list \<Rightarrow> f32_row list \<Rightarrow> int list list \<Rightarrow> nat \<Rightarrow> nat \<Rightarrow> nat \<Rightarrow> nat list \<Rightarrow>
    nat list \<Rightarrow> real \<Rightarrow> nat \<Rightarrow> string \<Rightarrow> 'f \<Rightarrow> unit ann_act" where
  \<comment> \<open>the second half of \<open>run_faiss_ivfpq\<close>; the refined index shares \<open>ivf\<close>, so it sees the \<open>nprobe\<close> set last\<close>
  "run_refined E d x q gt threads nlist pq_m nprobes factors build mem tg ivf =
     act_bind (omp_threads threads) (\<lambda>_.
     act_bind (act_of (fa_flat E d)) (\<lambda>flat0.
     act_bind (faiss_fill E x flat0) (\<lambda>flat.
     act_bind (omp_threads 1) (\<lambda>_.
       act_each (\<lambda>f. act_each (\<lambda>nprobe.
           measured E (with_omp (\<lambda>th. fa_search E th q 10 (fa_refine E f (fa_nprobe E nprobe ivf) flat))) (length x) (length q) gt
             (ivf_head (tg @ ''+refine'') nlist pq_m nprobe f) (ivf_tail build threads (mem + length x * d * 4)))
         nprobes) factors))))"

definition run_faiss_ivfpq :: "('h, 'f) ann_env \<Rightarrow> nat \<Rightarrow> f32_row list \<Rightarrow> f32_row list \<Rightarrow> int list list \<Rightarrow> nat \<Rightarrow> nat \<Rightarrow> nat \<Rightarrow> nat list \<Rightarrow>
    nat list \<Rightarrow> nat \<Rightarrow> nat \<Rightarrow> string \<Rightarrow> unit ann_act" where
  "run_faiss_ivfpq E d x q gt threads nlist pq_m nprobes factors train_n seed tg =
     act_bind (omp_threads threads) (\<lambda>_.
     act_bind (act_of (ae_choice E seed (length x) (min (length x) train_n))) (\<lambda>picked.
     act_bind (act_of (fa_flat E d)) (\<lambda>quant.
     act_bind (act_of (fa_ivfpq E quant d nlist pq_m 8)) (\<lambda>ivf0.
     act_bind (read_clock (ae_wall E)) (\<lambda>t.
     act_bind (with_omp (\<lambda>th. fa_train E th (map ((!) x) (sort picked)) ivf0)) (\<lambda>ivf1.
     act_bind (faiss_fill E x ivf1) (\<lambda>ivf.
     act_bind (read_clock (ae_wall E)) (\<lambda>t'.
     act_bind (omp_threads 1) (\<lambda>_.
       let mem = length x * (pq_m + 8) + nlist * d * 4 in
       act_bind (act_each (\<lambda>nprobe.
           measured E (with_omp (\<lambda>th. fa_search E th q 10 (fa_nprobe E nprobe ivf))) (length x) (length q) gt
             (ivf_head tg nlist pq_m nprobe 0) (ivf_tail (t' - t) threads mem)) nprobes) (\<lambda>_.
         if factors = [] then act_of (Inr ())
         else run_refined E d x q gt threads nlist pq_m nprobes factors (t' - t) mem tg ivf))))))))))"

definition run_flat :: "('h, 'f) ann_env \<Rightarrow> nat \<Rightarrow> f32_row list \<Rightarrow> f32_row list \<Rightarrow> int list list \<Rightarrow> string \<Rightarrow> unit ann_act" where
  "run_flat E d x q gt tg =
     act_bind (omp_threads 4) (\<lambda>_.
     act_bind (act_of (fa_flat E d)) (\<lambda>ix0.
     act_bind (faiss_fill E x ix0) (\<lambda>ix.
     act_bind (omp_threads 1) (\<lambda>_.
       measured E (with_omp (\<lambda>th. fa_search E th q 10 ix)) (length x) (length q) gt [(''system'', JStr tg)]
         [(''build_seconds'', JFloat 0), (''index_bytes_est'', JInt (int (length x * d * 4)))]))))"

section \<open>The command\<close>

record ann_args =
  an_max_n :: "nat option"
  an_max_queries :: "nat option"
  an_systems :: string
  an_threads :: nat
  an_M :: "nat list"
  an_efc :: nat
  an_ef :: "nat list"
  an_nlist :: nat
  an_pq_M :: nat
  an_nprobe :: "nat list"
  an_refine :: "nat list"
  an_train_n :: nat
  an_seed :: nat

definition mx_all :: "'a matrix \<Rightarrow> 'a list list" where
  "mx_all m = map (mx_row m) [0..<mx_rows m]"

definition ann_systems :: "('h, 'f) ann_env \<Rightarrow> ann_args \<Rightarrow> nat \<Rightarrow> f32_row list \<Rightarrow> f32_row list \<Rightarrow> int list list \<Rightarrow> unit ann_act" where
  "ann_systems E a d x q gt =
     (let systems = split_at 44 (an_systems a); asked = (\<lambda>s m. if s \<in> set systems then m else act_of (Inr ())) in
     act_bind (asked ''faiss-flat'' (run_flat E d x q gt ''faiss-flat'')) (\<lambda>_.
     act_bind (asked ''hnswlib''
        (act_each (\<lambda>M. run_hnswlib E d x q gt (an_threads a) M (an_efc a) (an_ef a) ''hnswlib'') (an_M a))) (\<lambda>_.
     act_bind (asked ''faiss-hnsw''
        (act_each (\<lambda>M. run_faiss_hnsw E d x q gt (an_threads a) M (an_efc a) (an_ef a) ''faiss-hnsw'') (an_M a))) (\<lambda>_.
       asked ''faiss-ivfpq'' (run_faiss_ivfpq E d x q gt (an_threads a) (an_nlist a) (an_pq_M a) (an_nprobe a) (an_refine a)
          (an_train_n a) (an_seed a) ''faiss-ivfpq'')))))"

definition ann_main :: "('h, 'f) ann_env \<Rightarrow> ann_args \<Rightarrow> byte list \<Rightarrow> byte list \<Rightarrow> byte list \<Rightarrow> unit ann_act" where
  "ann_main E a basef queriesf gtf =
     act_bind (act_of (bench_read_fbin basef (an_max_n a) True)) (\<lambda>x.
     act_bind (act_of (bench_read_fbin queriesf (an_max_queries a) False)) (\<lambda>q.
     act_bind (act_of (read_gt gtf)) (\<lambda>(ids, _).
       ann_systems E a (mx_cols x) (mx_all x) (mx_all q) (map (map uint) (take (mx_rows q) (mx_all ids))))))"

section \<open>The plan of a comparison\<close>

datatype ann_point =
    Flat
  | Hnswlib nat nat
  | Faiss_Hnsw nat nat
  | Ivfpq nat
  | Refined nat nat

definition ann_plan :: "ann_args \<Rightarrow> ann_point list" where
  "ann_plan a =
     (let asked = (\<lambda>s ps. if s \<in> set (split_at 44 (an_systems a)) then ps else []) in
      asked ''faiss-flat'' [Flat] @
      asked ''hnswlib'' (concat (map (\<lambda>M. map (Hnswlib M) (an_ef a)) (an_M a))) @
      asked ''faiss-hnsw'' (concat (map (\<lambda>M. map (Faiss_Hnsw M) (an_ef a)) (an_M a))) @
      asked ''faiss-ivfpq'' (map Ivfpq (an_nprobe a) @ concat (map (\<lambda>f. map (Refined f) (an_nprobe a)) (an_refine a))))"

fun point_head :: "ann_args \<Rightarrow> ann_point \<Rightarrow> (string \<times> json) list" where
  "point_head a Flat = [(''system'', JStr ''faiss-flat'')]"
| "point_head a (Hnswlib M ef) = [(''system'', JStr ''hnswlib''), (''M'', JInt (int M)), (''efConstruction'', JInt (int (an_efc a))),
     (''efSearch'', JInt (int ef))]"
| "point_head a (Faiss_Hnsw M ef) = [(''system'', JStr ''faiss-hnsw''), (''M'', JInt (int M)), (''efConstruction'', JInt (int (an_efc a))),
     (''efSearch'', JInt (int ef))]"
| "point_head a (Ivfpq nprobe) = ivf_head ''faiss-ivfpq'' (an_nlist a) (an_pq_M a) nprobe 0"
| "point_head a (Refined f nprobe) = ivf_head ''faiss-ivfpq+refine'' (an_nlist a) (an_pq_M a) nprobe f"

definition by_ordinal :: "'a list \<Rightarrow> nat \<Rightarrow> 'a option" where
  "by_ordinal xs i = (if i < length xs then Some (xs ! i) else None)"

definition hnsw_keeps :: "('h, 'f) ann_env \<Rightarrow> ('h \<Rightarrow> nat \<Rightarrow> f32_row option) \<Rightarrow> bool" where
  \<comment> \<open>a new index is empty; adding stores each row under its label, in place of a row that had it\<close>
  "hnsw_keeps E held \<longleftrightarrow>
     (\<forall>d n M efc ix. hn_new E d n M efc = Inr ix \<longrightarrow> held ix = Map.empty) \<and>
     (\<forall>th b ls ix ix'. length b = length ls \<longrightarrow> hn_add E th b ls ix = Inr ix' \<longrightarrow> held ix' = held ix ++ map_of (zip ls b))"

definition faiss_keeps :: "('h, 'f) ann_env \<Rightarrow> ('f \<Rightarrow> f32_row list) \<Rightarrow> bool" where
  \<comment> \<open>a new index is empty, training adds nothing, adding numbers the rows in order\<close>
  "faiss_keeps E added \<longleftrightarrow>
     (\<forall>d ix. fa_flat E d = Inr ix \<longrightarrow> added ix = []) \<and>
     (\<forall>d M efc ix. fa_hnsw E d M efc = Inr ix \<longrightarrow> added ix = []) \<and>
     (\<forall>qz d nlist m bits ix. fa_ivfpq E qz d nlist m bits = Inr ix \<longrightarrow> added ix = []) \<and>
     (\<forall>th b ix ix'. fa_train E th b ix = Inr ix' \<longrightarrow> added ix' = added ix) \<and>
     (\<forall>th b ix ix'. fa_add E th b ix = Inr ix' \<longrightarrow> added ix' = added ix @ b)"

fun point_search :: "('h, 'f) ann_env \<Rightarrow> ('h \<Rightarrow> nat \<Rightarrow> f32_row option) \<Rightarrow> ('f \<Rightarrow> f32_row list) \<Rightarrow> f32_row list \<Rightarrow> f32_row list \<Rightarrow>
    ann_point \<Rightarrow> int list list \<Rightarrow> bool" where
  \<comment> \<open>what the queries find, on one thread, in an index of all the rows\<close>
  "point_search E held added x q Flat ids = (\<exists>ix. added ix = x \<and> fa_search E 1 q 10 ix = Inr ids)"
| "point_search E held added x q (Hnswlib M ef) ids = (\<exists>ix. held ix = by_ordinal x \<and> hn_query E 1 (max ef 10) q 10 ix = Inr ids)"
| "point_search E held added x q (Faiss_Hnsw M ef) ids = (\<exists>ix. added ix = x \<and> fa_search E 1 q 10 (fa_ef_search E ef ix) = Inr ids)"
| "point_search E held added x q (Ivfpq nprobe) ids = (\<exists>ix. added ix = x \<and> fa_search E 1 q 10 (fa_nprobe E nprobe ix) = Inr ids)"
| "point_search E held added x q (Refined f nprobe) ids =
     (\<exists>ix flat. added ix = x \<and> added flat = x \<and> fa_search E 1 q 10 (fa_refine E f (fa_nprobe E nprobe ix) flat) = Inr ids)"

definition row_reports :: "(string \<times> json) list \<Rightarrow> nat \<Rightarrow> nat \<Rightarrow> real \<Rightarrow> json \<Rightarrow> bool" where
  "row_reports front n nq r row =
     (\<exists>rest. row = JObj (front @ [(''n'', JInt (int n)), (''nq'', JInt (int nq)), (''recall'', JFloat r)] @ rest))"

definition point_row :: "('h, 'f) ann_env \<Rightarrow> ('h \<Rightarrow> nat \<Rightarrow> f32_row option) \<Rightarrow> ('f \<Rightarrow> f32_row list) \<Rightarrow> ann_args \<Rightarrow> f32_row list \<Rightarrow>
    f32_row list \<Rightarrow> int list list \<Rightarrow> ann_point \<Rightarrow> json \<Rightarrow> bool" where
  "point_row E held added a x q gt pt row =
     (\<exists>ids r. point_search E held added x q pt ids \<and> bench_recall ids gt 10 = Inr r \<and>
        row_reports (point_head a pt) (length x) (length q) r row)"

section \<open>Running a computation\<close>

abbreviation any_world :: "ann_world \<Rightarrow> bool" where "any_world w \<equiv> True"

abbreviation one_thread :: "ann_world \<Rightarrow> bool" where "one_thread w \<equiv> w_omp w = 1"

definition emits :: "(ann_world \<Rightarrow> bool) \<Rightarrow> (ann_world \<Rightarrow> bool) \<Rightarrow> (real \<Rightarrow> string) \<Rightarrow> ('a \<Rightarrow> json list \<Rightarrow> bool) \<Rightarrow> 'a ann_act \<Rightarrow> bool" where
  \<comment> \<open>from \<open>I\<close>, a successful run reaches \<open>J\<close>, returns a value and appends the lines of rows that satisfy \<open>Q\<close>\<close>
  "emits I J rp Q m \<longleftrightarrow>
     (\<forall>w x w'. I w \<longrightarrow> act_run m w = (Inr x, w') \<longrightarrow>
        J w' \<and> (\<exists>rws. w_out w' = w_out w @ concat (map (ann_line rp) rws) \<and> Q x rws))"

abbreviation quiet :: "(ann_world \<Rightarrow> bool) \<Rightarrow> (ann_world \<Rightarrow> bool) \<Rightarrow> (real \<Rightarrow> string) \<Rightarrow> ('a \<Rightarrow> bool) \<Rightarrow> 'a ann_act \<Rightarrow> bool" where
  "quiet I J rp P m \<equiv> emits I J rp (\<lambda>x r. r = [] \<and> P x) m"

lemma emitsI:
  "(\<And>w x w'. I w \<Longrightarrow> act_run m w = (Inr x, w') \<Longrightarrow> J w' \<and> (\<exists>rws. w_out w' = w_out w @ concat (map (ann_line rp) rws) \<and> Q x rws)) \<Longrightarrow>
     emits I J rp Q m"
  by (auto simp: emits_def)

lemma emitsE:
  assumes "emits I J rp Q m" "I w" "act_run m w = (Inr x, w')"
  obtains rws where "J w'" "w_out w' = w_out w @ concat (map (ann_line rp) rws)" "Q x rws"
  using assms unfolding emits_def by meson

lemma emits_weaken:
  assumes "emits I J rp Q m" and "\<And>x r. Q x r \<Longrightarrow> Q' x r"
  shows "emits I J rp Q' m"
proof (rule emitsI)
  fix w x w'
  assume "I w" "act_run m w = (Inr x, w')"
  then obtain r where "J w'" "w_out w' = w_out w @ concat (map (ann_line rp) r)" "Q x r" by (rule emitsE [OF assms(1)])
  then show "J w' \<and> (\<exists>rws. w_out w' = w_out w @ concat (map (ann_line rp) rws) \<and> Q' x rws)"
    by (intro conjI exI [of _ r]) (simp_all add: assms(2))
qed

lemma emits_weaken_post: "emits I J rp Q m \<Longrightarrow> (\<And>w. J w \<Longrightarrow> K w) \<Longrightarrow> (\<And>w. H w \<Longrightarrow> I w) \<Longrightarrow> emits H K rp Q m"
  by (fastforce simp: emits_def)

lemma quietI:
  assumes "\<And>w x w'. I w \<Longrightarrow> act_run m w = (Inr x, w') \<Longrightarrow> J w' \<and> w_out w' = w_out w \<and> P x"
  shows "quiet I J rp P m"
proof (rule emitsI)
  fix w x w'
  assume "I w" "act_run m w = (Inr x, w')"
  from assms [OF this] show "J w' \<and> (\<exists>rws. w_out w' = w_out w @ concat (map (ann_line rp) rws) \<and> rws = [] \<and> P x)" by simp
qed

lemma emits_bind:
  assumes "emits I J rp P m" and "\<And>x r. P x r \<Longrightarrow> emits J K rp (\<lambda>y s. Q y (r @ s)) (f x)"
  shows "emits I K rp Q (act_bind m f)"
proof (rule emitsI)
  fix w y w''
  assume I: "I w" and "act_run (act_bind m f) w = (Inr y, w'')"
  then obtain x w' where m: "act_run m w = (Inr x, w')" and f: "act_run (f x) w' = (Inr y, w'')" by (auto simp: act_simps)
  obtain r where r: "J w'" "w_out w' = w_out w @ concat (map (ann_line rp) r)" "P x r" by (rule emitsE [OF assms(1) I m])
  obtain s where "K w''" "w_out w'' = w_out w' @ concat (map (ann_line rp) s)" "Q y (r @ s)"
    by (rule emitsE [OF assms(2) [OF r(3)] r(1) f])
  with r show "K w'' \<and> (\<exists>rws. w_out w'' = w_out w @ concat (map (ann_line rp) rws) \<and> Q y rws)"
    by (intro conjI exI [of _ "r @ s"]) auto
qed

lemma emits_step:
  "quiet I J rp P m \<Longrightarrow> (\<And>x. P x \<Longrightarrow> emits J K rp Q (f x)) \<Longrightarrow> emits I K rp Q (act_bind m f)"
  by (erule emits_bind) auto

lemma quiet_of: "quiet I I rp (\<lambda>x. r = Inr x) (act_of r)"
  by (rule quietI) (auto simp: act_simps)

lemma quiet_threads: "quiet I (\<lambda>w. w_omp w = n) rp (\<lambda>_. True) (omp_threads n)"
  by (rule quietI) (auto simp: act_simps omp_threads_def)

lemma quiet_clock_any: "quiet any_world any_world rp (\<lambda>_. True) (read_clock clk)"
  by (rule quietI) (auto simp: act_simps read_clock_def)

lemma quiet_clock_omp: "quiet (\<lambda>w. w_omp w = n) (\<lambda>w. w_omp w = n) rp (\<lambda>_. True) (read_clock clk)"
  by (rule quietI) (auto simp: act_simps read_clock_def)

lemma quiet_with_omp: "quiet (\<lambda>w. w_omp w = n) (\<lambda>w. w_omp w = n) rp (\<lambda>x. f n = Inr x) (with_omp f)"
  by (rule quietI) (auto simp: act_simps with_omp_def)

lemmas emits_res = emits_step [OF quiet_of]
lemmas emits_threads = emits_step [OF quiet_threads]
lemmas emits_clock = emits_step [OF quiet_clock_any]
lemmas emits_clock_omp = emits_step [OF quiet_clock_omp]
lemmas emits_with_omp = emits_step [OF quiet_with_omp]

lemma emits_skip: "Q () [] \<Longrightarrow> emits I I rp Q (act_of (Inr ()))"
  by (rule emitsI) (auto simp: act_simps intro!: exI [of _ "[]"])

lemma emits_each:
  "(\<And>x. x \<in> set xs \<Longrightarrow> emits I I rp (\<lambda>_. list_all2 R (pts x)) (f x)) \<Longrightarrow>
     emits I I rp (\<lambda>_. list_all2 R (concat (map pts xs))) (act_each f xs)"
proof (induction xs)
  case (Cons x xs)
  have "emits I I rp (\<lambda>_. list_all2 R (pts x)) (f x)" "emits I I rp (\<lambda>_. list_all2 R (concat (map pts xs))) (act_each f xs)"
    using Cons by simp_all
  then show ?case unfolding act_each.simps
    by (elim emits_bind) (auto intro: list_all2_appendI elim!: emits_weaken)
qed (simp add: emits_skip)

lemma emits_each_map:
  "(\<And>x. x \<in> set xs \<Longrightarrow> emits I I rp (\<lambda>_. list_all2 R [g x]) (f x)) \<Longrightarrow> emits I I rp (\<lambda>_. list_all2 R (map g xs)) (act_each f xs)"
  using emits_each [where pts = "\<lambda>x. [g x]" and f = f and R = R and xs = xs and I = I and rp = rp] by simp

lemma cpu_fields_keeps: "act_run (cpu_fields nq) w = (Inr cf, w') \<Longrightarrow> w' = w"
  by (auto simp: cpu_fields_def act_simps split: if_splits)

lemma timed_search_run:
  assumes "act_run (timed_search E fn) w = (Inr (ids, secs), w1)"
  obtains j k c v where "act_run fn (w_tick_update j w) = (Inr ids, v)" "w1 = w_cpu_update c (w_tick_update k v)"
proof -
  have "\<exists>v. act_run fn (w_tick_update Suc (w_tick_update Suc w)) = (Inr ids, v) \<and>
      (\<exists>c. w1 = w_cpu_update c (w_tick_update Suc (w_tick_update Suc v)))"
    using assms by (auto simp: timed_search_def read_clock_def act_simps)
  then obtain v c where "act_run fn (w_tick_update (Suc \<circ> Suc) w) = (Inr ids, v)" "w1 = w_cpu_update c (w_tick_update (Suc \<circ> Suc) v)"
    by (auto simp: comp_def)
  then show thesis by (rule that)
qed

lemma emits_measured:
  assumes "\<And>w ids w'. I w \<Longrightarrow> act_run fn w = (Inr ids, w') \<Longrightarrow> w' = w \<and> P ids"
    and "\<And>w k. I w \<Longrightarrow> I (w_tick_update k w)" "\<And>w k. I w \<Longrightarrow> I (w_cpu_update k w)" "\<And>w k. I w \<Longrightarrow> I (w_out_update k w)"
    and "\<And>ids r row. P ids \<Longrightarrow> bench_recall ids gt 10 = Inr r \<Longrightarrow> row_reports front n nq r row \<Longrightarrow> R pt row"
  shows "emits I I (ae_text E) (\<lambda>_. list_all2 R [pt]) (measured E fn n nq gt front rest)"
proof (rule emitsI)
  fix w y w'
  assume I: "I w" and run: "act_run (measured E fn n nq gt front rest) w = (Inr y, w')"
  then obtain ids secs r qps cf w1 where
    s: "act_run (timed_search E fn) w = (Inr (ids, secs), w1)" and r: "bench_recall ids gt 10 = Inr r"
    and e: "act_run (ann_emit (ae_text E) (JObj (front @ [(''n'', JInt (int n)), (''nq'', JInt (int nq)), (''recall'', JFloat r),
         (''qps'', JFloat qps)] @ cf @ rest))) w1 = (Inr y, w')"
    by (auto simp: measured_def act_simps dest!: cpu_fields_keeps)
  have w1: "I w1 \<and> w_out w1 = w_out w \<and> P ids"
    by (rule timed_search_run [OF s]) (use I assms(1) [OF assms(2)] assms(2,3) in force)
  show "I w' \<and> (\<exists>rws. w_out w' = w_out w @ concat (map (ann_line (ae_text E)) rws) \<and> list_all2 R [pt] rws)"
  proof (intro conjI exI)
    show "I w'" using e w1 assms(4) by (auto simp: ann_emit_def act_simps)
    let ?row = "JObj (front @ [(''n'', JInt (int n)), (''nq'', JInt (int nq)), (''recall'', JFloat r), (''qps'', JFloat qps)] @ cf @ rest)"
    show "w_out w' = w_out w @ concat (map (ann_line (ae_text E)) [?row])" using e w1 by (simp add: ann_emit_def act_simps)
    have "row_reports front n nq r ?row" by (simp add: row_reports_def)
    then have "R pt ?row" using w1 r by (intro assms(5) [of ids r]) simp_all
    then show "list_all2 R [pt] [?row]" by simp
  qed
qed

section \<open>Every row measures an index of all the vectors\<close>

lemma by_ordinal_append:
  "by_ordinal (xs @ ys) = by_ordinal xs ++ map_of (zip [length xs..<length xs + length ys] ys)"
proof (rule ext)
  fix i
  let ?m = "map_of (zip [length xs..<length xs + length ys] ys)"
  have dom: "dom ?m = {length xs..<length xs + length ys}" by (simp add: dom_map_of_zip)
  show "by_ordinal (xs @ ys) i = (by_ordinal xs ++ ?m) i"
  proof (cases "length xs \<le> i \<and> i < length xs + length ys")
    case True
    then have "(i, ys ! (i - length xs)) \<in> set (zip [length xs..<length xs + length ys] ys)"
      by (auto simp: in_set_zip intro!: exI [of _ "i - length xs"])
    then have "?m i = Some (ys ! (i - length xs))" by (intro map_of_is_SomeI) (simp_all add: map_fst_zip)
    then show ?thesis using True by (simp add: by_ordinal_def map_add_def nth_append)
  next
    case False
    then have "?m i = None" using dom by (auto simp: domIff)
    then have "(by_ordinal xs ++ ?m) i = by_ordinal xs i" by (simp only: map_add_def option.case)
    then show ?thesis using False by (auto simp: by_ordinal_def nth_append)
  qed
qed

lemma hnsw_blocks_held:
  assumes keeps: "hnsw_keeps E held" and c: "0 < c"
  shows "res_fold (\<lambda>ix (s, b). hn_add E th b [s..<min n (s + c)] ix) ix0 (map (\<lambda>(j, b). (c * j, b)) (enumerate m (slices c xs))) = Inr ix \<Longrightarrow>
     length front = c * m \<Longrightarrow> n = length front + length xs \<Longrightarrow> held ix0 = by_ordinal front \<Longrightarrow> held ix = by_ordinal (front @ xs)"
  using c
proof (induction c xs arbitrary: ix0 m front rule: slices.induct)
  case (1 c xs)
  show ?case
  proof (cases "xs = []")
    case False
    let ?b = "take c xs" and ?ls = "[c * m..<min n (c * m + c)]"
    obtain ix1 where add: "hn_add E th ?b ?ls ix0 = Inr ix1"
      and rest: "res_fold (\<lambda>ix (s, b). hn_add E th b [s..<min n (s + c)] ix) ix1 (map (\<lambda>(j, b). (c * j, b)) (enumerate (Suc m) (slices c (drop c xs)))) = Inr ix"
      using "1.prems"(1,5) False by (auto simp: slices_step)
    have ls: "?ls = [length front..<length front + length ?b]" using "1.prems"(2,3) by (simp add: min_def)
    have "held ix1 = held ix0 ++ map_of (zip ?ls ?b)"
      using keeps add ls unfolding hnsw_keeps_def by (metis add_diff_cancel_left' length_upt)
    then have held: "held ix1 = by_ordinal (front @ ?b)" using "1.prems"(4) ls by (simp add: by_ordinal_append)
    show ?thesis
    proof (cases "length xs \<le> c")
      case True
      then show ?thesis using rest held by simp
    next
      case far: False
      then have "held ix = by_ordinal ((front @ ?b) @ drop c xs)"
        using "1.IH" [of ix1 "Suc m" "front @ ?b"] rest held "1.prems"(2,3,5) False by (simp add: min_def)
      then show ?thesis by simp
    qed
  qed (use "1.prems" in simp)
qed

lemma hnsw_fill_held:
  assumes "hnsw_keeps E held" "hn_new E d n M efc = Inr ix0" "hnsw_fill E th x ix0 = Inr ix"
  shows "held ix = by_ordinal x"
proof -
  have "held ix0 = by_ordinal []" using assms(1,2) by (auto simp: hnsw_keeps_def by_ordinal_def)
  then show ?thesis
    using hnsw_blocks_held [OF assms(1), of ANN_SLICE th "length x" ix0 0 x ix "[]"] assms(3)
    by (simp add: hnsw_fill_def block_rows_def ANN_SLICE_def)
qed

lemma concat_block_rows: "0 < c \<Longrightarrow> concat (map snd (block_rows c x)) = x"
  by (simp add: block_rows_def comp_def case_prod_unfold concat_slices)

lemma faiss_fill_adds:
  assumes "faiss_keeps E added" and "res_fold (\<lambda>ix (_, b). fa_add E th b ix) ix0 bs = Inr ix"
  shows "added ix = added ix0 @ concat (map snd bs)"
  using assms(2)
proof (induction bs arbitrary: ix0)
  case (Cons sb bs)
  obtain s b where sb: "sb = (s, b)" by (cases sb)
  with Cons.prems obtain ix1 where "fa_add E th b ix0 = Inr ix1" "res_fold (\<lambda>ix (_, b). fa_add E th b ix) ix1 bs = Inr ix" by auto
  then show ?case using Cons.IH assms(1) by (simp add: sb faiss_keeps_def)
qed simp

lemma faiss_fill_all:
  assumes "faiss_keeps E added" "added ix0 = []"
  shows "quiet I I rp (\<lambda>ix. added ix = x) (faiss_fill E x ix0)"
proof (rule quietI)
  fix w ix w'
  assume "I w" "act_run (faiss_fill E x ix0) w = (Inr ix, w')"
  then show "I w' \<and> w_out w' = w_out w \<and> added ix = x"
    using faiss_fill_adds [OF assms(1), of "w_omp w" ix0 "block_rows ANN_SLICE x" ix] assms(2)
    by (auto simp: faiss_fill_def with_omp_def act_simps concat_block_rows ANN_SLICE_def)
qed

lemma emits_measured_omp:
  assumes "\<And>ids. f 1 = Inr ids \<Longrightarrow> point_search E held added x q pt ids"
    and "front = point_head a pt" "n = length x" "nq = length q"
  shows "emits one_thread one_thread (ae_text E) (\<lambda>_. list_all2 (point_row E held added a x q gt) [pt]) (measured E (with_omp f) n nq gt front rest)"
  using assms by (intro emits_measured [where P = "point_search E held added x q pt"])
    (auto simp: with_omp_def act_simps point_row_def)

lemma emits_flat:
  assumes keeps: "faiss_keeps E added"
  shows "emits any_world one_thread (ae_text E) (\<lambda>_. list_all2 (point_row E held added a x q gt) [Flat]) (run_flat E d x q gt ''faiss-flat'')"
  unfolding run_flat_def
proof (rule emits_threads, rule emits_res)
  fix ix0
  assume "fa_flat E d = Inr ix0"
  then have new: "added ix0 = []" using keeps by (auto simp: faiss_keeps_def)
  show "emits (\<lambda>w. w_omp w = 4) one_thread (ae_text E) (\<lambda>_. list_all2 (point_row E held added a x q gt) [Flat])
     (act_bind (faiss_fill E x ix0) (\<lambda>ix. act_bind (omp_threads 1) (\<lambda>_.
       measured E (with_omp (\<lambda>th. fa_search E th q 10 ix)) (length x) (length q) gt [(''system'', JStr ''faiss-flat'')]
         [(''build_seconds'', JFloat 0), (''index_bytes_est'', JInt (int (length x * d * 4)))])))"
    by (rule emits_step [OF faiss_fill_all [OF keeps new]], rule emits_threads, rule emits_measured_omp) auto
qed

lemma emits_hnswlib:
  assumes keeps: "hnsw_keeps E held" and "efc = an_efc a"
  shows "emits any_world any_world (ae_text E) (\<lambda>_. list_all2 (point_row E held added a x q gt) (map (Hnswlib M) efs))
     (run_hnswlib E d x q gt threads M efc efs ''hnswlib'')"
proof -
  have one: "emits any_world any_world (ae_text E) (\<lambda>_. list_all2 (point_row E held added a x q gt) [Hnswlib M ef])
      (measured E (act_of (hn_query E 1 (max ef 10) q 10 ix)) (length x) (length q) gt
           [(''system'', JStr ''hnswlib''), (''M'', JInt (int M)), (''efConstruction'', JInt (int efc)), (''efSearch'', JInt (int ef))] rest)"
    if "held ix = by_ordinal x" for ix ef rest
    using that assms(2) by (intro emits_measured [where P = "point_search E held added x q (Hnswlib M ef)"])
      (auto simp: act_simps point_row_def)
  show ?thesis
    unfolding run_hnswlib_def
    by (rule emits_clock, rule emits_res,
        rule emits_res, rule emits_clock,
        rule emits_res, rule emits_each_map, rule one) (rule hnsw_fill_held [OF keeps])
qed

lemma emits_faiss_hnsw:
  assumes keeps: "faiss_keeps E added" and "efc = an_efc a"
  shows "emits any_world one_thread (ae_text E) (\<lambda>_. list_all2 (point_row E held added a x q gt) (map (Faiss_Hnsw M) efs))
     (run_faiss_hnsw E d x q gt threads M efc efs ''faiss-hnsw'')"
  unfolding run_faiss_hnsw_def
proof (rule emits_threads, rule emits_res, rule emits_clock_omp)
  fix ix0
  assume "fa_hnsw E d M efc = Inr ix0"
  then have new: "added ix0 = []" using keeps by (auto simp: faiss_keeps_def)
  show "emits (\<lambda>w. w_omp w = threads) one_thread (ae_text E) (\<lambda>_. list_all2 (point_row E held added a x q gt) (map (Faiss_Hnsw M) efs))
     (act_bind (faiss_fill E x ix0) (\<lambda>ix. act_bind (read_clock (ae_wall E)) (\<lambda>t'. act_bind (omp_threads 1) (\<lambda>_.
       act_each (\<lambda>ef. measured E (with_omp (\<lambda>th. fa_search E th q 10 (fa_ef_search E ef ix))) (length x) (length q) gt
           [(''system'', JStr ''faiss-hnsw''), (''M'', JInt (int M)), (''efConstruction'', JInt (int efc)), (''efSearch'', JInt (int ef))]
           [(''build_seconds'', JFloat (t' - t)), (''build_threads'', JInt (int threads)),
            (''index_bytes_est'', JInt (int (length x * (d * 4 + 2 * M * 4))))])
         efs))))" for t
    by (rule emits_step [OF faiss_fill_all [OF keeps new]], rule emits_clock_omp, rule emits_threads,
        rule emits_each_map, rule emits_measured_omp) (auto simp: assms(2))
qed

lemma emits_refined:
  assumes keeps: "faiss_keeps E added" and ivf: "added ivf = x" and a: "nlist = an_nlist a" "pq_m = an_pq_M a"
  shows "emits I one_thread (ae_text E)
     (\<lambda>_. list_all2 (point_row E held added a x q gt) (concat (map (\<lambda>f. map (Refined f) nprobes) factors)))
     (run_refined E d x q gt threads nlist pq_m nprobes factors build mem ''faiss-ivfpq'' ivf)"
  unfolding run_refined_def
proof (rule emits_threads, rule emits_res)
  fix flat0
  assume "fa_flat E d = Inr flat0"
  then have new: "added flat0 = []" using keeps by (auto simp: faiss_keeps_def)
  show "emits (\<lambda>w. w_omp w = threads) one_thread (ae_text E)
     (\<lambda>_. list_all2 (point_row E held added a x q gt) (concat (map (\<lambda>f. map (Refined f) nprobes) factors)))
     (act_bind (faiss_fill E x flat0) (\<lambda>flat. act_bind (omp_threads 1) (\<lambda>_.
       act_each (\<lambda>f. act_each (\<lambda>nprobe.
           measured E (with_omp (\<lambda>th. fa_search E th q 10 (fa_refine E f (fa_nprobe E nprobe ivf) flat))) (length x) (length q) gt
             (ivf_head (''faiss-ivfpq'' @ ''+refine'') nlist pq_m nprobe f) (ivf_tail build threads (mem + length x * d * 4)))
         nprobes) factors)))"
    by (rule emits_step [OF faiss_fill_all [OF keeps new]], rule emits_threads,
        rule emits_each, rule emits_each_map, rule emits_measured_omp) (use ivf a in auto)
qed

lemma emits_ivfpq:
  assumes keeps: "faiss_keeps E added" and a: "nlist = an_nlist a" "pq_m = an_pq_M a"
  shows "emits any_world any_world (ae_text E)
     (\<lambda>_. list_all2 (point_row E held added a x q gt) (map Ivfpq nprobes @ concat (map (\<lambda>f. map (Refined f) nprobes) factors)))
     (run_faiss_ivfpq E d x q gt threads nlist pq_m nprobes factors train_n seed ''faiss-ivfpq'')"
  unfolding run_faiss_ivfpq_def
proof (rule emits_threads, rule emits_res, rule emits_res,
    rule emits_res, rule emits_clock_omp)
  fix picked quant ivf0 t
  assume "fa_ivfpq E quant d nlist pq_m 8 = Inr ivf0"
  then have new: "added ivf0 = []" using keeps by (auto simp: faiss_keeps_def)
  have trained: "fa_train E threads b ivf0 = Inr ivf1 \<Longrightarrow> added ivf1 = []" for b ivf1 using keeps new by (auto simp: faiss_keeps_def)
  have plain: "emits one_thread one_thread (ae_text E) (\<lambda>_. list_all2 (point_row E held added a x q gt) (map Ivfpq nprobes))
      (act_each (\<lambda>nprobe. measured E (with_omp (\<lambda>th. fa_search E th q 10 (fa_nprobe E nprobe ivf))) (length x) (length q) gt
          (ivf_head ''faiss-ivfpq'' nlist pq_m nprobe 0) rest) nprobes)" if "added ivf = x" for ivf rest
    by (rule emits_each_map, rule emits_measured_omp) (use that a in auto)
  have refined: "emits one_thread any_world (ae_text E)
      (\<lambda>_. list_all2 (point_row E held added a x q gt) (concat (map (\<lambda>f. map (Refined f) nprobes) factors)))
      (if factors = [] then act_of (Inr ()) else run_refined E d x q gt threads nlist pq_m nprobes factors build mem ''faiss-ivfpq'' ivf)"
    if "added ivf = x" for ivf build mem
    using emits_refined [OF keeps that a, of one_thread held q gt nprobes factors d threads build mem]
    by (cases "factors = []") (auto elim: emits_weaken_post intro: emits_weaken_post [OF emits_skip])
  show "emits (\<lambda>w. w_omp w = threads) any_world (ae_text E)
     (\<lambda>_. list_all2 (point_row E held added a x q gt) (map Ivfpq nprobes @ concat (map (\<lambda>f. map (Refined f) nprobes) factors)))
     (act_bind (with_omp (\<lambda>th. fa_train E th (map ((!) x) (sort picked)) ivf0)) (\<lambda>ivf1.
     act_bind (faiss_fill E x ivf1) (\<lambda>ivf.
     act_bind (read_clock (ae_wall E)) (\<lambda>t'.
     act_bind (omp_threads 1) (\<lambda>_.
       let mem = length x * (pq_m + 8) + nlist * d * 4 in
       act_bind (act_each (\<lambda>nprobe.
           measured E (with_omp (\<lambda>th. fa_search E th q 10 (fa_nprobe E nprobe ivf))) (length x) (length q) gt
             (ivf_head ''faiss-ivfpq'' nlist pq_m nprobe 0) (ivf_tail (t' - t) threads mem)) nprobes) (\<lambda>_.
         if factors = [] then act_of (Inr ())
         else run_refined E d x q gt threads nlist pq_m nprobes factors (t' - t) mem ''faiss-ivfpq'' ivf))))))"
    unfolding Let_def
    by (rule emits_with_omp, drule trained, rule emits_step [OF faiss_fill_all [OF keeps]], assumption,
        rule emits_clock_omp, rule emits_threads, rule emits_bind [OF plain], assumption,
        rule emits_weaken [OF refined], assumption) (rule list_all2_appendI)
qed

lemma emits_asked: "emits any_world any_world rp (\<lambda>_. list_all2 R ps) m \<Longrightarrow>
    emits any_world any_world rp (\<lambda>_. list_all2 R (if b then ps else [])) (if b then m else act_of (Inr ()))"
  by (simp add: emits_skip)

lemma emits_systems:
  assumes "hnsw_keeps E held" "faiss_keeps E added"
  shows "emits any_world any_world (ae_text E) (\<lambda>_. list_all2 (point_row E held added a x q gt) (ann_plan a)) (ann_systems E a d x q gt)"
proof -
  let ?R = "point_row E held added a x q gt"
  let ?emits = "\<lambda>ps. emits any_world any_world (ae_text E) (\<lambda>_. list_all2 ?R ps)"
  have flat: "?emits [Flat] (run_flat E d x q gt ''faiss-flat'')"
    by (rule emits_weaken_post [OF emits_flat [OF assms(2)]]) auto
  have hnswlib: "?emits (concat (map (\<lambda>M. map (Hnswlib M) (an_ef a)) (an_M a)))
      (act_each (\<lambda>M. run_hnswlib E d x q gt (an_threads a) M (an_efc a) (an_ef a) ''hnswlib'') (an_M a))"
    by (rule emits_each) (rule emits_hnswlib [OF assms(1) refl])
  have hnsw: "?emits (concat (map (\<lambda>M. map (Faiss_Hnsw M) (an_ef a)) (an_M a)))
      (act_each (\<lambda>M. run_faiss_hnsw E d x q gt (an_threads a) M (an_efc a) (an_ef a) ''faiss-hnsw'') (an_M a))"
    by (rule emits_each, rule emits_weaken_post [OF emits_faiss_hnsw [OF assms(2) refl]]) auto
  have ivfpq: "?emits (map Ivfpq (an_nprobe a) @ concat (map (\<lambda>f. map (Refined f) (an_nprobe a)) (an_refine a)))
      (run_faiss_ivfpq E d x q gt (an_threads a) (an_nlist a) (an_pq_M a) (an_nprobe a) (an_refine a) (an_train_n a) (an_seed a) ''faiss-ivfpq'')"
    by (rule emits_ivfpq [OF assms(2) refl refl])
  show ?thesis
    unfolding ann_systems_def ann_plan_def Let_def
    by (rule emits_bind [OF emits_asked [OF flat]], rule emits_bind [OF emits_asked [OF hnswlib]],
        rule emits_bind [OF emits_asked [OF hnsw]], rule emits_weaken [OF emits_asked [OF ivfpq]]) (intro list_all2_appendI)
qed

section \<open>The file only grows, whatever happens\<close>

definition appends :: "(real \<Rightarrow> string) \<Rightarrow> 'a ann_act \<Rightarrow> bool" where
  "appends rp m \<longleftrightarrow> state_io_rel (\<lambda>w w'. \<exists>rws. w_out w' = w_out w @ concat (map (ann_line rp) rws)) m"

lemma appends_bind: "appends rp m \<Longrightarrow> (\<And>x. appends rp (f x)) \<Longrightarrow> appends rp (act_bind m f)"
proof -
  assume m: "appends rp m" and f: "\<And>x. appends rp (f x)"
  show ?thesis
    unfolding appends_def
  proof (rule state_io_relI)
    fix y w w''
    assume run: "run_state (act_bind m f) w = (y, w'')"
    obtain r w' where r: "run_state m w = (r, w')" by (cases "run_state m w")
    obtain rws where rws: "w_out w' = w_out w @ concat (map (ann_line rp) rws)"
      using state_io_relD [OF m [unfolded appends_def] r] by blast
    show "\<exists>rws. w_out w'' = w_out w @ concat (map (ann_line rp) rws)"
    proof (cases r)
      case (Inl e)
      then show ?thesis using run r rws act_run_bind [of m f w] by (auto simp: act_run_def)
    next
      case (Inr x)
      then have "run_state (f x) w' = (y, w'')" using run r act_run_bind [of m f w] by (simp add: act_run_def)
      then obtain rws' where "w_out w'' = w_out w' @ concat (map (ann_line rp) rws')"
        using state_io_relD [OF f [unfolded appends_def]] by blast
      then show ?thesis using rws by (intro exI [of _ "rws @ rws'"]) simp
    qed
  qed
qed

lemma appends_quiet:
  "appends rp (act_of r)" "appends rp (act_gets f)" "(\<And>w. w_out (g w) = w_out w) \<Longrightarrow> appends rp (act_puts g)"
  by (auto simp: appends_def state_io_rel_def act_of_def act_gets_def act_puts_def intro: exI [of _ "[]"])

lemma appends_emit: "appends rp (ann_emit rp row)"
  by (auto simp: appends_def state_io_rel_def ann_emit_def act_puts_def intro: exI [of _ "[row]"])

lemma appends_each: "(\<And>x. appends rp (f x)) \<Longrightarrow> appends rp (act_each f xs)"
  by (induction xs) (auto intro: appends_bind appends_quiet)

lemma appends_if: "appends rp m \<Longrightarrow> appends rp m' \<Longrightarrow> appends rp (if b then m else m')"
  by simp

lemma appends_steps: "appends rp (read_clock clk)" "appends rp (omp_threads n)" "appends rp (with_omp g)" "appends rp (cpu_fields nq)"
  unfolding read_clock_def omp_threads_def with_omp_def cpu_fields_def
  by (intro appends_bind appends_quiet appends_if; simp)+

lemma appends_measured: "appends (ae_text E) fn \<Longrightarrow> appends (ae_text E) (measured E fn n nq gt front rest)"
  unfolding measured_def timed_search_def case_prod_unfold
  by (intro appends_bind appends_quiet appends_steps appends_emit) simp_all

lemma appends_main: "appends (ae_text E) (ann_main E a basef queriesf gtf)"
  unfolding ann_main_def ann_systems_def run_flat_def run_hnswlib_def run_faiss_hnsw_def run_faiss_ivfpq_def run_refined_def Let_def
    case_prod_unfold faiss_fill_def
  by (intro appends_bind appends_each appends_if appends_measured appends_steps appends_quiet)

text \<open>C38: whatever happens, a comparison only appends whole JSON lines to its results file.  When it finishes
  it has appended one line per operating point of the plan, in the plan's order (the order of the systems
  does not depend on \<open>--systems\<close>), and each line's recall is that of a one-thread search, against the ground
  truth of these queries, of an index that holds every base vector once, hnswlib's under its ordinal.\<close>

theorem comparison_measures_plan:
  assumes "hnsw_keeps E held" and "faiss_keeps E added"
    and "act_run (ann_main E a basef queriesf gtf) w = (r, w')"
  shows "\<exists>rws. w_out w' = w_out w @ concat (map (ann_line (ae_text E)) rws) \<and>
     (r = Inr () \<longrightarrow> (\<exists>x q ids scores.
        bench_read_fbin basef (an_max_n a) True = Inr x \<and> bench_read_fbin queriesf (an_max_queries a) False = Inr q \<and>
        read_gt gtf = Inr (ids, scores) \<and>
        list_all2 (point_row E held added a (mx_all x) (mx_all q) (map (map uint) (take (mx_rows q) (mx_all ids)))) (ann_plan a) rws))"
proof (cases r)
  case (Inl e)
  have "\<exists>rws. w_out w' = w_out w @ concat (map (ann_line (ae_text E)) rws)"
    using state_io_relD [OF appends_main [unfolded appends_def] assms(3) [unfolded act_run_def]] .
  then show ?thesis using Inl by simp
next
  case (Inr u)
  then obtain x q ids scores where files: "bench_read_fbin basef (an_max_n a) True = Inr x"
      "bench_read_fbin queriesf (an_max_queries a) False = Inr q" "read_gt gtf = Inr (ids, scores)"
    and run: "act_run (ann_systems E a (mx_cols x) (mx_all x) (mx_all q) (map (map uint) (take (mx_rows q) (mx_all ids)))) w = (Inr (), w')"
    using assms(3) by (auto simp: ann_main_def act_simps)
  show ?thesis
    by (rule emitsE [OF emits_systems [OF assms(1,2)] _ run]) (use files in auto)
qed

definition demo_ann :: "((nat \<times> f32_row) list, f32_row list) ann_env" where
  "demo_ann =
     \<lparr>ae_text = (\<lambda>_. ''0.5''), ae_wall = real, ae_cpu = real, ae_choice = (\<lambda>_ _ n. Inr [0..<n]),
      hn_new = (\<lambda>_ _ _ _. Inr []), hn_add = (\<lambda>_ b ls ix. Inr (zip ls b @ ix)), hn_query = (\<lambda>_ _ q k ix. Inr (map (\<lambda>_. [1, 0]) q)),
      fa_flat = (\<lambda>_. Inr []), fa_hnsw = (\<lambda>_ _ _. Inr []), fa_ivfpq = (\<lambda>_ _ _ _ _. Inr []), fa_train = (\<lambda>_ _ ix. Inr ix),
      fa_add = (\<lambda>_ b ix. Inr (ix @ b)), fa_search = (\<lambda>_ q k ix. Inr (map (\<lambda>_. map int [0..<min k (length ix)]) q)),
      fa_ef_search = (\<lambda>_ ix. ix), fa_nprobe = (\<lambda>_ ix. ix), fa_refine = (\<lambda>_ ix _. ix)\<rparr>"

definition demo_ann_args :: ann_args where
  "demo_ann_args =
     \<lparr>an_max_n = None, an_max_queries = Some 3, an_systems = ''hnswlib,faiss-flat'', an_threads = 4, an_M = [2], an_efc = 200,
      an_ef = [8, 16], an_nlist = 4, an_pq_M = 1, an_nprobe = [1], an_refine = [10], an_train_n = 2, an_seed = 1\<rparr>"

definition demo_base_file :: "byte list" where "demo_base_file = concat (map u4_enc [2, 1, 5, 7])"
definition demo_queries_file :: "byte list" where "demo_queries_file = concat (map u4_enc [1, 1, 5])"
definition demo_gt_file :: "byte list" where "demo_gt_file = concat (map u4_enc [1, 1, 0, 9])"

lemma demo_ann_files:
  "bench_read_fbin demo_base_file None True = Inr \<lparr>mx_rows = 2, mx_cols = 1, mx_flat = [5, 7]\<rparr>"
  "bench_read_fbin demo_queries_file (Some 3) False = Inr \<lparr>mx_rows = 1, mx_cols = 1, mx_flat = [5]\<rparr>"
  "read_gt demo_gt_file = Inr (\<lparr>mx_rows = 1, mx_cols = 1, mx_flat = [0]\<rparr>, \<lparr>mx_rows = 1, mx_cols = 1, mx_flat = [9]\<rparr>)"
  by code_simp+

lemma demo_ann_blocks: "block_rows ANN_SLICE [a, b] = [(0, [a, b])]"
  by (simp add: block_rows_def ANN_SLICE_def slices_step)

lemma demo_ann_plan: "ann_plan demo_ann_args = [Flat, Hnswlib 2 8, Hnswlib 2 16]"
  by code_simp

lemma demo_ann_split: "set (split_at 44 ''hnswlib,faiss-flat'') = {''hnswlib'', ''faiss-flat''}"
  by code_simp

lemma demo_ann_runs:
  "fst (act_run (ann_main demo_ann demo_ann_args demo_base_file demo_queries_file demo_gt_file) \<lparr>w_out = [], w_omp = 8, w_tick = 0, w_cpu = 0\<rparr>) = Inr ()"
  by (simp add: ann_main_def act_run_bind act_run_step demo_ann_files demo_ann_args_def ann_systems_def demo_ann_split run_flat_def run_hnswlib_def
      measured_def timed_search_def read_clock_def omp_threads_def with_omp_def cpu_fields_def ann_emit_def faiss_fill_def hnsw_fill_def
      demo_ann_def demo_ann_blocks mx_all_def mx_row_def bench_recall_def hnswlib_bytes_def numeral_2_eq_2)

theorem comparison_measures_plan_witness:
  "case act_run (ann_main demo_ann demo_ann_args demo_base_file demo_queries_file demo_gt_file) \<lparr>w_out = [], w_omp = 8, w_tick = 0, w_cpu = 0\<rparr> of
     (r, w') \<Rightarrow> r = Inr () \<and> (\<exists>rws. w_out w' = concat (map (ann_line (\<lambda>_. ''0.5'')) rws) \<and> length rws = 3)"
proof -
  let ?w = "\<lparr>w_out = [], w_omp = 8, w_tick = 0, w_cpu = 0\<rparr>"
  obtain r w' where run: "act_run (ann_main demo_ann demo_ann_args demo_base_file demo_queries_file demo_gt_file) ?w = (r, w')"
    by (rule prod.exhaust)
  then have r: "r = Inr ()" using demo_ann_runs by simp
  have laws: "hnsw_keeps demo_ann map_of" "faiss_keeps demo_ann (\<lambda>ix. ix)" by (auto simp: hnsw_keeps_def faiss_keeps_def demo_ann_def)
  have jt: "ae_text demo_ann = (\<lambda>_. ''0.5'')" by (simp add: demo_ann_def)
  obtain rws where "w_out w' = concat (map (ann_line (\<lambda>_. ''0.5'')) rws)" "length rws = 3"
    using comparison_measures_plan [OF laws run] r unfolding jt demo_ann_plan by (auto dest: list_all2_lengthD)
  then show ?thesis using run r by auto
qed

end
