(* ===== verification/Vector_Tables.thy ===== *)
theory Vector_Tables
  imports Ann_Compare
begin

text \<open>
  What is made of the JSON-lines tables of the vector benchmark: \<open>py/hybridsearch/bench/strip_timing.py\<close>, which
  drops the timing fields of rows, and the data behind the plots of \<open>py/hybridsearch/bench/plot_vector.py\<close>
  (series, their points and reference lines; drawing, axes and titles are left out).  A file of rows that
  were written as lines is an interface (locale \<open>json_lines\<close>); the rows of a comparison interpret it, so a
  finished comparison is plotted with every operating point under the label of its system.
\<close>

section \<open>Reading a table\<close>

definition plot_rows :: "string \<Rightarrow> json list res" where
  \<comment> \<open>\<open>rows\<close>\<close>
  "plot_rows f = res_map loads (filter (\<lambda>l. strip l \<noteq> []) (splitlines [] (universal_nl f)))"

definition has_prefix :: "string \<Rightarrow> string \<Rightarrow> bool" where
  "has_prefix s p \<longleftrightarrow> take (length p) s = p"

section \<open>Dropping the timings\<close>

definition TIMING :: "string list" where
  "TIMING = [''qps'', ''cpu_'', ''mean_us'', ''p50_us'', ''p90_us'', ''p99_us'', ''io_us'', ''us_per_io_round'', ''wall_'', ''open_seconds'']"

definition is_timing :: "string \<Rightarrow> bool" where
  "is_timing key \<longleftrightarrow> list_ex (has_prefix key) TIMING"

definition strip_row :: "json \<Rightarrow> json res" where
  "strip_row row =
     res_bind (json_items row) (\<lambda>fs.
       Inr (JObj (dset (filter (\<lambda>(key, _). \<not> is_timing key) fs) ''timing'' (JStr ''not measured (background QoS window)''))))"

fun strip_lines :: "(real \<Rightarrow> string) \<Rightarrow> string list \<Rightarrow> string \<Rightarrow> unit res \<times> string" where
  \<comment> \<open>what an exception leaves in the file it appends to stays there\<close>
  "strip_lines rp [] dst = (Inr (), dst)"
| "strip_lines rp (l # ls) dst =
     (case res_bind (loads l) strip_row of
        Inl e \<Rightarrow> (Inl e, dst)
      | Inr row \<Rightarrow> strip_lines rp ls (dst @ ann_line rp row))"

definition strip_timing :: "(real \<Rightarrow> string) \<Rightarrow> string \<Rightarrow> string \<Rightarrow> unit res \<times> string" where
  "strip_timing rp src dst = strip_lines rp (text_lines src) dst"

section \<open>Series and points\<close>

definition json_text :: "json \<Rightarrow> string res" where
  \<comment> \<open>a value whose string methods are called\<close>
  "json_text v = (case v of JStr s \<Rightarrow> Inr s | _ \<Rightarrow> Inl AttributeError)"

definition json_has :: "json \<Rightarrow> string \<Rightarrow> bool" where
  "json_has v key = (json_get v key \<noteq> None)"

definition series_key :: "(json \<Rightarrow> string) \<Rightarrow> json \<Rightarrow> string res" where
  \<comment> \<open>\<open>ps\<close> is \<open>str\<close> of a value\<close>
  "series_key ps r =
     res_bind (json_key r ''system'') (\<lambda>sys. res_bind (json_text sys) (\<lambda>s.
       let opt = (\<lambda>key front. res_bind (json_get_or r key JNull) (\<lambda>v. Inr (if json_truth v then front @ ps v else []))) in
       if has_prefix s ''hnswlib'' \<or> has_prefix s ''faiss-hnsw'' then
         res_bind (json_key r ''M'') (\<lambda>m. Inr (s @ '' M='' @ ps m))
       else if has_prefix s ''faiss-ivfpq'' then
         res_bind (json_key r ''nlist'') (\<lambda>nl'. res_bind (json_key r ''pq_M'') (\<lambda>pm. res_bind (opt ''refine'' ('' k'' @ [char_of (215 :: nat)])) (\<lambda>t.
           Inr (s @ '' (nlist='' @ ps nl' @ '', PQ'' @ ps pm @ '')'' @ t))))
       else if json_has r ''W'' then
         res_bind (json_key r ''W'') (\<lambda>w. res_bind (json_key r ''mode'') (\<lambda>md. res_bind (opt ''cache_nodes'' '' cache='') (\<lambda>t.
           Inr (s @ '' W='' @ ps w @ '' '' @ ps md @ t))))
       else Inr s))"

definition json_num :: "json \<Rightarrow> real res" where
  \<comment> \<open>a coordinate; what cannot be drawn on a linear axis is a TypeError\<close>
  "json_num v = (case v of JFloat x \<Rightarrow> Inr x | JInt n \<Rightarrow> Inr (of_int n) | _ \<Rightarrow> Inl TypeError)"

definition keep_measured :: "string \<Rightarrow> json list \<Rightarrow> json list res" where
  \<comment> \<open>\<open>[p for p in pts if p.get(y) is not None]\<close>\<close>
  "keep_measured y pts =
     res_bind (res_map (\<lambda>p. res_bind (json_get_or p y JNull) (\<lambda>v. Inr (v \<noteq> JNull, p))) pts) (\<lambda>ps. Inr (map snd (filter fst ps)))"

record curve =
  cv_label :: string
  cv_color :: string
  cv_marker :: string
  cv_points :: "(real \<times> real) list"

definition PALETTE :: "string list" where
  "PALETTE = [''#2a78d6'', ''#eb6834'', ''#1baf7a'', ''#eda100'', ''#e87ba4'', ''#008300'', ''#4a3aa7'', ''#e34948'']"

definition MARKERS :: "string list" where
  "MARKERS = [''o'', ''s'', ''^'', ''D'', ''v'', ''P'', ''X'', ''*'']"

definition curve_points :: "string \<Rightarrow> string \<Rightarrow> json list \<Rightarrow> (real \<times> real) list res" where
  "curve_points x y pts =
     res_bind (keep_measured y pts) (\<lambda>ps.
       res_bind (res_map (\<lambda>p. res_bind (json_key p x) json_num) ps) (\<lambda>xs.
         let sorted_ps = py_sorted fst (zip xs ps) in
         res_bind (res_map (\<lambda>(_, p). res_bind (json_key p y) json_num) sorted_ps) (\<lambda>ys. Inr (zip (map fst sorted_ps) ys))))"

definition curves :: "string \<Rightarrow> string \<Rightarrow> (string, json list) dict \<Rightarrow> curve list res" where
  \<comment> \<open>the lines that \<open>curves\<close> draws: colour and marker by position\<close>
  "curves x y series =
     res_map (\<lambda>(i, name, pts). res_bind (curve_points x y pts) (\<lambda>ps.
         Inr \<lparr>cv_label = name, cv_color = PALETTE ! (i mod 8), cv_marker = MARKERS ! (i mod 8), cv_points = ps\<rparr>))
       (enumerate 0 series)"

section \<open>The plots\<close>

definition series_of :: "(json \<Rightarrow> string) \<Rightarrow> json list \<Rightarrow> (string, json list) dict res" where
  \<comment> \<open>\<open>by[series_key(r)].append(r)\<close>\<close>
  "series_of ps rws =
     res_bind (res_map (series_key ps) rws) (\<lambda>ks. Inr (map (\<lambda>(key, krs). (key, map snd krs)) (group_by fst (zip ks rws))))"

definition is_flat_row :: "json \<Rightarrow> bool res" where
  "is_flat_row r = res_bind (json_key r ''system'') (\<lambda>s. Inr (s = JStr ''faiss-flat''))"

definition split_flat :: "json list \<Rightarrow> (json list \<times> json list) res" where
  \<comment> \<open>the rows to compare and the rows of exact search\<close>
  "split_flat rws =
     res_bind (res_map is_flat_row rws) (\<lambda>bs.
       Inr (map snd (filter (\<lambda>(b, _). \<not> b) (zip bs rws)), map snd (filter fst (zip bs rws))))"

definition plot_compare :: "(json \<Rightarrow> string) \<Rightarrow> string \<Rightarrow> string list \<Rightarrow> (curve list \<times> json \<times> json option) res" where
  \<comment> \<open>\<open>compare\<close>: the first eight series, the number of vectors, the line of exact search\<close>
  "plot_compare ps y files =
     res_bind (res_map plot_rows files) (\<lambda>rs.
     res_bind (split_flat (concat rs)) (\<lambda>(rws, flat).
     res_bind (series_of ps rws) (\<lambda>by.
     res_bind (curves ''recall'' y (take 8 by)) (\<lambda>cs.
     res_bind (case by of [] \<Rightarrow> Inl StopIteration | (_, g) # _ \<Rightarrow> (case g of [] \<Rightarrow> Inl IndexError | r # _ \<Rightarrow> json_key r ''n'')) (\<lambda>n.
     res_bind (case flat of [] \<Rightarrow> Inr None | r # _ \<Rightarrow> res_bind (json_key r y) (\<lambda>v. Inr (Some v))) (\<lambda>line.
       Inr (cs, n, line)))))))"

definition BUILD_GROUPS :: "string list list" where
  "BUILD_GROUPS =
     [[''R16-L100-a1.2'', ''R32-L100-a1.2'', ''R64-L100-a1.2'', ''R96-L100-a1.2''],
      [''R64-L50-a1.2'', ''R64-L100-a1.2'', ''R64-L200-a1.2''],
      [''R64-L100-a1.0'', ''R64-L100-a1.2'', ''R64-L100-a1.4'', ''R64-L100-a1.2-1pass'']]"

definition by_system :: "json list \<Rightarrow> (json, json list) dict res" where
  "by_system rws =
     res_bind (res_map (\<lambda>r. json_key r ''system'') rws) (\<lambda>ks. Inr (map (\<lambda>(key, krs). (key, map snd krs)) (group_by fst (zip ks rws))))"

definition plot_build_sweep :: "string \<Rightarrow> string \<Rightarrow> (json \<times> curve list list) res" where
  \<comment> \<open>\<open>build_sweep\<close>: the number of vectors and one panel per group\<close>
  "plot_build_sweep y f =
     res_bind (plot_rows f) (\<lambda>rws. res_bind (by_system rws) (\<lambda>by.
     res_bind (case rws of [] \<Rightarrow> Inl IndexError | r # _ \<Rightarrow> json_key r ''n'') (\<lambda>n.
     res_bind (res_map (\<lambda>names. curves ''recall'' y
         (map (\<lambda>k. (k, dget by (JStr k) [])) (filter (\<lambda>k. dhas by (JStr k)) names))) BUILD_GROUPS) (\<lambda>panels. Inr (n, panels)))))"

definition reference_mrr :: "json \<Rightarrow> json res" where
  "reference_mrr m = res_bind (json_key m ''reference_metrics'') (\<lambda>r. json_key r ''RR@10'')"

definition with_point :: "json \<Rightarrow> (json \<times> json \<times> json) list res" where
  \<comment> \<open>the runs of an MRR table that have an operating point, with the point and their MRR\<close>
  "with_point m =
     res_bind (json_key m ''runs'') (\<lambda>runs. res_bind (json_iter runs) (\<lambda>rs.
     res_bind (res_map (\<lambda>r. res_bind (json_get_or r ''operating_point'' JNull) (\<lambda>v. Inr (json_truth v, r))) rs) (\<lambda>brs.
       res_map (\<lambda>r. res_bind (json_key r ''operating_point'') (\<lambda>pt. res_bind (json_key r ''metrics'') (\<lambda>ms.
           res_bind (json_key ms ''RR@10'') (\<lambda>v. Inr (r, pt, v)))))
         (map snd (filter fst brs)))))"

definition plot_disk :: "(json \<Rightarrow> string) \<Rightarrow> string \<Rightarrow> string option \<Rightarrow>
    (curve list \<times> curve list \<times> (curve list \<times> json) option) res" where
  \<comment> \<open>\<open>disk\<close>: recall against throughput, recall against reads, and MRR against recall with the exact search's line\<close>
  "plot_disk ps f mrr =
     res_bind (plot_rows f) (\<lambda>rws. res_bind (series_of ps rws) (\<lambda>by.
     res_bind (curves ''recall'' ''qps'' by) (\<lambda>c1. res_bind (curves ''ssd_reads_per_query'' ''recall'' by) (\<lambda>c2.
       case mrr of
         None \<Rightarrow> Inr (c1, c2, None)
       | Some mf \<Rightarrow>
           res_bind (loads mf) (\<lambda>m. res_bind (with_point m) (\<lambda>pts.
           res_bind (res_map (\<lambda>(_, pt, v). res_bind (series_key ps pt) (\<lambda>k. res_bind (json_key pt ''recall'') (\<lambda>rc.
               Inr (k, JObj [(''recall'', rc), (''mrr'', v)])))) pts) (\<lambda>kps.
           res_bind (curves ''recall'' ''mrr'' (map (\<lambda>(k, g). (k, map snd g)) (group_by fst kps))) (\<lambda>c3.
           res_bind (reference_mrr m) (\<lambda>ref. Inr (c1, c2, Some (c3, ref)))))))))))"

definition json_in :: "string \<Rightarrow> json \<Rightarrow> bool res" where
  \<comment> \<open>\<open>key in v\<close>\<close>
  "json_in key v =
     (case v of
        JObj fs \<Rightarrow> Inr (dhas fs key)
      | JArr vs \<Rightarrow> Inr (JStr key \<in> set vs)
      | JStr s \<Rightarrow> Inr (str_contains key s)
      | _ \<Rightarrow> Inl TypeError)"

definition shards_key :: "(json \<Rightarrow> string) \<Rightarrow> json \<Rightarrow> string res" where
  "shards_key ps r =
     res_bind (json_key r ''shards'') (\<lambda>s. res_bind (json_key r ''W'') (\<lambda>w. res_bind (json_key r ''mode'') (\<lambda>md.
       Inr (ps s @ '' shards, W='' @ ps w @ '' '' @ ps md))))"

definition plot_shards :: "(json \<Rightarrow> string) \<Rightarrow> string \<Rightarrow> string option \<Rightarrow> (curve list \<times> ((real \<times> real) list \<times> json) option) res" where
  \<comment> \<open>\<open>shards\<close>: merged recall against reads; MRR against recall in the order of the list size\<close>
  "plot_shards ps f mrr =
     res_bind (plot_rows f) (\<lambda>rws.
     res_bind (res_map (\<lambda>r. res_bind (json_in ''L'' r) (\<lambda>b. Inr (b, r))) rws) (\<lambda>brs. let data = map snd (filter fst brs) in
     res_bind (res_map (shards_key ps) data) (\<lambda>ks.
     res_bind (curves ''ssd_reads_per_query_all_shards'' ''recall'' (map (\<lambda>(k, g). (k, map snd g)) (group_by fst (zip ks data)))) (\<lambda>c1.
       case mrr of
         None \<Rightarrow> Inr (c1, None)
       | Some mf \<Rightarrow>
           res_bind (loads mf) (\<lambda>m. res_bind (with_point m) (\<lambda>pts.
           res_bind (res_map (\<lambda>(_, pt, v). res_bind (res_bind (json_key pt ''L'') json_num) (\<lambda>l.
               res_bind (res_bind (json_key pt ''recall'') json_num) (\<lambda>rc. res_bind (json_num v) (\<lambda>x. Inr (l, rc, x))))) pts) (\<lambda>lxs.
           res_bind (reference_mrr m) (\<lambda>ref. Inr (c1, Some (map snd (py_sorted fst lxs), ref))))))))))"

section \<open>A file of rows reads back\<close>

locale json_lines =
  fixes txt_of :: "json \<Rightarrow> string" and ok :: "json \<Rightarrow> bool"
  assumes read_line: "ok v \<Longrightarrow> loads (txt_of v) = Inr v" and read_line_nl: "ok v \<Longrightarrow> loads (txt_of v @ nl) = Inr v"
    and line_chars: "ok v \<Longrightarrow> printable (txt_of v)" and line_content: "ok v \<Longrightarrow> strip (txt_of v) \<noteq> []"
begin

definition table :: "json list \<Rightarrow> string" where
  "table vs = concat (map (\<lambda>v. txt_of v @ nl) vs)"

lemma table_lines: "list_all ok vs \<Longrightarrow> text_lines (table vs) = map (\<lambda>v. txt_of v @ nl) vs"
  using text_lines_unlines [of "map txt_of vs"] line_chars
  by (fastforce simp: table_def unlines_def one_line_def printable_def list_all_iff comp_def)

lemma table_iterates: "list_all ok vs \<Longrightarrow> res_map loads (text_lines (table vs)) = Inr vs"
proof -
  have "list_all ok vs \<Longrightarrow> res_map loads (map (\<lambda>v. txt_of v @ nl) vs) = Inr vs" by (induction vs) (auto simp: read_line_nl)
  then show "list_all ok vs \<Longrightarrow> ?thesis" by (simp add: table_lines)
qed

lemma table_splits: "list_all ok vs \<Longrightarrow> splitlines [] (universal_nl (table vs)) = map txt_of vs"
proof (induction vs)
  case (Cons v vs)
  have split: "printable t \<Longrightarrow> splitlines cur (t @ nl @ r) = (cur @ t) # splitlines [] r" for cur t r
    by (induction t arbitrary: cur) (auto simp: nl_def line_break_def code_def)
  have "list_all (\<lambda>c. code c \<noteq> 13) (table ws)" if "list_all ok ws" for ws
    using that line_chars by (fastforce simp: table_def nl_def list_all_iff printable_def)
  from this [OF Cons.prems] this [of vs] have "universal_nl (table (v # vs)) = table (v # vs)" "universal_nl (table vs) = table vs"
    using Cons.prems by (simp_all add: universal_nl_id)
  then show ?case using Cons split line_chars by (simp add: table_def)
qed (simp add: table_def)

lemma table_rows: "list_all ok vs \<Longrightarrow> plot_rows (table vs) = Inr vs"
proof -
  assume ok: "list_all ok vs"
  have "filter (\<lambda>l. strip l \<noteq> []) (map txt_of vs) = map txt_of vs" using ok line_content by (induction vs) auto
  moreover have "res_map loads (map txt_of vs) = Inr vs" using ok by (induction vs) (auto simp: read_line)
  ultimately show ?thesis using table_splits [OF ok] by (simp add: plot_rows_def)
qed

end

definition row_ok :: "(real \<Rightarrow> string) \<Rightarrow> json \<Rightarrow> bool" where
  \<comment> \<open>a dict whose floats are written in ASCII and read back\<close>
  "row_ok rp v \<longleftrightarrow> (\<exists>fs. v = JObj fs) \<and> json_back rp v \<and> printable (dumps '', '' '': '' rp v)"

lemma default_seps: "json_seps '', '' '': ''"
  by (simp add: json_seps_def is_json_ws_def code_def)

lemma loads_dumps_nl:
  assumes "json_back rp (JObj fs)"
  shows "loads (dumps '', '' '': '' rp (JObj fs) @ nl) = Inr (JObj fs)"
proof -
  let ?t = "dumps '', '' '': '' rp (JObj fs)"
  have "num_end nl" unfolding nl_def by (rule num_end_ws) (simp add: is_json_ws_def code_def)
  then have "parse_value (2 * length (?t @ nl) + 1) (?t @ nl) = Some (Inr (JObj fs, nl))"
    using assms default_seps by (intro parse_dumps) simp_all
  moreover have "skip_ws nl = []" by (simp add: nl_def skip_ws_def is_json_ws_def code_def)
  ultimately show ?thesis by (simp add: loads_def loads_opt_def skip_ws_dumps [OF assms] del: dumps.simps)
qed

interpretation rows: json_lines "dumps '', '' '': '' rp" "row_ok rp" for rp
proof
  fix v
  assume ok: "row_ok rp v"
  then obtain fs where v: "v = JObj fs" and js: "json_back rp (JObj fs)" by (auto simp: row_ok_def)
  show "loads (dumps '', '' '': '' rp v) = Inr v" using js default_seps unfolding v by (rule loads_dumps_floats)
  show "loads (dumps '', '' '': '' rp v @ nl) = Inr v" using js unfolding v by (rule loads_dumps_nl)
  show "printable (dumps '', '' '': '' rp v)" using ok by (simp add: row_ok_def)
  show "strip (dumps '', '' '': '' rp v) \<noteq> []" by (simp add: v strip_def lstrip_def rstrip_def is_space_char_def code_def)
qed

lemma table_ann_line: "concat (map (ann_line rp) rws) = rows.table rp rws"
  by (auto simp: rows.table_def ann_line_def intro: arg_cong [of _ _ concat])

section \<open>What the tables keep\<close>

lemma strip_lines_table:
  assumes "list_all (row_ok rp) rws"
  shows "strip_lines rp (map (\<lambda>v. dumps '', '' '': '' rp v @ nl) rws) dst =
     (Inr (), dst @ concat (map (\<lambda>r. ann_line rp (case strip_row r of Inr r' \<Rightarrow> r' | Inl _ \<Rightarrow> r)) rws))"
  using assms
proof (induction rws arbitrary: dst)
  case (Cons r rws)
  then obtain fs where "r = JObj fs" by (auto simp: row_ok_def)
  then have "\<exists>r'. strip_row r = Inr r'" by (simp add: strip_row_def json_items_def)
  then show ?case using Cons rows.read_line_nl [of rp r] by auto
qed simp

lemma map_of_filter_key: "map_of (filter (\<lambda>(k, _). P k) xs) key = (if P key then map_of xs key else None)"
  by (induction xs) auto

lemma strip_row_keeps:
  assumes "strip_row (JObj fs) = Inr row'"
  shows "json_get row' key =
     (if key = ''timing'' then Some (JStr ''not measured (background QoS window)'')
      else if is_timing key then None else json_get (JObj fs) key)"
  using assms by (auto simp: strip_row_def json_items_def json_get_def dset_def update_conv map_of_filter_key)

fun point_label :: "(json \<Rightarrow> string) \<Rightarrow> ann_args \<Rightarrow> ann_point \<Rightarrow> string" where
  "point_label ps a Flat = ''faiss-flat''"
| "point_label ps a (Hnswlib M ef) = ''hnswlib M='' @ ps (JInt (int M))"
| "point_label ps a (Faiss_Hnsw M ef) = ''faiss-hnsw M='' @ ps (JInt (int M))"
| "point_label ps a (Ivfpq nprobe) = ''faiss-ivfpq (nlist='' @ ps (JInt (int (an_nlist a))) @ '', PQ'' @ ps (JInt (int (an_pq_M a))) @ '')''"
| "point_label ps a (Refined f nprobe) =
     ''faiss-ivfpq+refine (nlist='' @ ps (JInt (int (an_nlist a))) @ '', PQ'' @ ps (JInt (int (an_pq_M a))) @ '')'' @
     (if f = 0 then [] else '' k'' @ char_of (215 :: nat) # ps (JInt (int f)))"

lemma row_series:
  assumes "point_row E held added a x q gt pt row"
  shows "pt \<noteq> Flat \<Longrightarrow> series_key ps row = Inr (point_label ps a pt)" "is_flat_row row = Inr (pt = Flat)"
proof -
  obtain n nq r rest where row: "row = JObj (point_head a pt @ [(''n'', n), (''nq'', nq), (''recall'', r)] @ rest)"
    using assms by (auto simp: point_row_def row_reports_def)
  show "is_flat_row row = Inr (pt = Flat)"
    unfolding row by (cases pt) (simp_all add: is_flat_row_def json_key_def dlookup_def ivf_head_def)
  show "series_key ps row = Inr (point_label ps a pt)" if "pt \<noteq> Flat"
    using that unfolding row by (cases pt)
      (simp_all add: series_key_def json_key_def dlookup_def ivf_head_def json_text_def has_prefix_def json_get_or_def dget_def)
qed

lemma res_map_points:
  assumes "list_all2 P pts rws" and "\<And>pt row. P pt row \<Longrightarrow> f row = Inr (g pt)"
  shows "res_map f rws = Inr (map g pts)"
  using assms(1) by (induction rule: list_all2_induct) (auto simp: assms(2))

lemma list_all2_filter_fst: "list_all2 P xs ys \<Longrightarrow> list_all2 (\<lambda>x y. P x y \<and> Q x) (filter Q xs) (map snd (filter (\<lambda>(x, _). Q x) (zip xs ys)))"
  by (induction rule: list_all2_induct) auto

lemma zip_filter_fst: "length xs = length ys \<Longrightarrow> zip (filter Q xs) (map snd (filter (\<lambda>(x, _). Q x) (zip xs ys))) = filter (\<lambda>(x, _). Q x) (zip xs ys)"
  by (induction xs ys rule: list_induct2) auto

lemma split_flat_points:
  assumes "list_all2 P pts rws" and "\<And>pt row. P pt row \<Longrightarrow> is_flat_row row = Inr (pt = Flat)"
  shows "split_flat rws = Inr (map snd (filter (\<lambda>(pt, _). pt \<noteq> Flat) (zip pts rws)), map snd (filter (\<lambda>(pt, _). pt = Flat) (zip pts rws)))"
  using assms by (auto simp: split_flat_def res_map_points [OF assms(1), of is_flat_row "\<lambda>pt. pt = Flat"] zip_map1 filter_map comp_def case_prod_unfold)

lemma series_of_points:
  assumes "list_all2 P pts rws" and "\<And>pt row. P pt row \<Longrightarrow> series_key ps row = Inr (lab pt)"
  shows "\<exists>by. series_of ps rws = Inr by \<and> (\<forall>k. dget by k [] = map snd (filter (\<lambda>(pt, _). lab pt = k) (zip pts rws)))"
proof (intro exI conjI allI)
  show "series_of ps rws = Inr (map (\<lambda>(key, krs). (key, map snd krs)) (group_by fst (zip (map lab pts) rws)))"
    by (simp add: series_of_def res_map_points [OF assms(1), of "series_key ps" lab] assms(2))
  show "dget (map (\<lambda>(key, krs). (key, map snd krs)) (group_by fst (zip (map lab pts) rws))) k []
      = map snd (filter (\<lambda>(pt, _). lab pt = k) (zip pts rws))" for k
    by (simp add: dget_map_values [of "map snd"] dget_group_by) (simp add: zip_map1 filter_map comp_def case_prod_unfold)
qed

text \<open>The plot of a finished comparison is true to it.  A results file that holds the rows of the plan, in
  a layout whose floats are read back, is read as these rows; the exact search is set apart from the series, and
  the series of a label are the rows of the operating points of that label, all of them and in the order of the plan.\<close>

lemma compare_plots_the_plan:
  assumes "list_all2 (point_row E held added a x q gt) (ann_plan a) rws" and "list_all (row_ok rp) rws"
  shows "plot_rows (concat (map (ann_line rp) rws)) = Inr rws \<and>
     (\<exists>shown flat by. split_flat rws = Inr (shown, flat) \<and> series_of ps shown = Inr by \<and>
       flat = map snd (filter (\<lambda>(pt, _). pt = Flat) (zip (ann_plan a) rws)) \<and>
       (\<forall>k. dget by k [] = map snd (filter (\<lambda>(pt, _). pt \<noteq> Flat \<and> point_label ps a pt = k) (zip (ann_plan a) rws))))"
proof -
  let ?pts = "ann_plan a" and ?shown = "map snd (filter (\<lambda>(pt, _). pt \<noteq> Flat) (zip (ann_plan a) rws))"
  let ?P = "\<lambda>pt row. point_row E held added a x q gt pt row \<and> pt \<noteq> Flat"
  have shown: "list_all2 ?P (filter (\<lambda>pt. pt \<noteq> Flat) ?pts) ?shown" by (rule list_all2_filter_fst [OF assms(1)])
  obtain d where "series_of ps ?shown = Inr d"
      "\<forall>k. dget d k [] = map snd (filter (\<lambda>(pt, _). point_label ps a pt = k) (zip (filter (\<lambda>pt. pt \<noteq> Flat) ?pts) ?shown))"
    using series_of_points [OF shown, of ps "point_label ps a"] row_series(1) by blast
  moreover have "split_flat rws = Inr (?shown, map snd (filter (\<lambda>(pt, _). pt = Flat) (zip ?pts rws)))"
    by (rule split_flat_points [OF assms(1) row_series(2)])
  moreover have "zip (filter (\<lambda>pt. pt \<noteq> Flat) ?pts) ?shown = filter (\<lambda>(pt, _). pt \<noteq> Flat) (zip ?pts rws)"
    by (rule zip_filter_fst) (rule list_all2_lengthD [OF assms(1)])
  ultimately show ?thesis
    unfolding table_ann_line using rows.table_rows [OF assms(2)]
    by (intro conjI exI [of _ ?shown] exI [of _ "map snd (filter (\<lambda>(pt, _). pt = Flat) (zip ?pts rws))"] exI [of _ d])
      (auto simp: case_prod_unfold conj_commute)
qed

end
