(* ===== verification/Parity_Chaos.thy ===== *)
theory Parity_Chaos
  imports Rankers
begin

text \<open>
  Two evaluation programs: \<open>py/hybridsearch/lexical/parity.py\<close> with \<open>lexical/score_agreement.py\<close> (our BM25 runs
  against Anserini's, disagreements by cause), and \<open>serving/chaos.py\<close> (replayed traffic through the phases of
  a fault).  The output of the native analyzer, the HTTP responses with their latencies, \<open>np.percentile\<close> and
  Python's generator are arguments.  The lemmas: a query is counted in exactly one bucket, the phases of an
  experiment replay the same queries, and its quality lies between 0 and 1.
\<close>

section \<open>Runs to compare\<close>

type_synonym scored_run = "(qid, ranking) dict"

definition add_hit :: "scored_run \<Rightarrow> qid \<Rightarrow> docid \<Rightarrow> real \<Rightarrow> scored_run" where
  "add_hit r q d s = dset r q (dget r q [] @ [(d, s)])"

definition read_raw :: "string \<Rightarrow> scored_run res" where
  \<comment> \<open>five tab-separated fields, or ValueError\<close>
  "read_raw f =
     res_fold (\<lambda>r line. case split_at TAB (rstrip_nl line) of
         [q, d, _, s, _] \<Rightarrow> res_bind (float_of s) (\<lambda>x. Inr (add_hit r q d x))
       | _ \<Rightarrow> Inl ValueError) [] (text_lines f)"

definition read_trec :: "string \<Rightarrow> scored_run res" where
  "read_trec f =
     res_bind (res_fold (\<lambda>r line. case split_ws line of
         [q, _, d, _, s, _] \<Rightarrow> res_bind (float_of s) (\<lambda>x. Inr (add_hit r q d x))
       | _ \<Rightarrow> Inl ValueError) [] (text_lines f))
       (\<lambda>r. Inr (map (\<lambda>(q, hits). (q, py_sorted (\<lambda>(d, s). - s) hits)) r))"

definition base4 :: "real \<Rightarrow> real" where "base4 x = round_to 4 x"

definition as_run :: "scored_run \<Rightarrow> run" where
  "as_run r = map (\<lambda>(q, v). (q, dict_of (map (\<lambda>(i, (d, _)). (d, real (length v) - real i)) (enumerate 0 v)))) r"

definition close4 :: "real \<Rightarrow> real \<Rightarrow> bool" where "close4 x y \<longleftrightarrow> \<bar>x - y\<bar> \<le> 101 / 10 ^ 6"

definition classify :: "ranking \<Rightarrow> ranking \<Rightarrow> nat \<Rightarrow> string" where
  "classify ours ref k =
     (let a = take k ours; b = take k ref;
          sa = dict_of (map (\<lambda>(d, s). (d, base4 s)) a); sb = dict_of (map (\<lambda>(d, s). (d, base4 s)) b)
      in if map fst a = map fst b then ''identical''
         else if set (keys sa) = set (keys sb) then
           (if list_all (\<lambda>d. close4 (dget sa d 0) (dget sb d 0)) (keys sa) then ''tie_order'' else ''score'')
         else (let only = filter (\<lambda>d. \<not> dhas sb d) (keys sa) @ filter (\<lambda>d. \<not> dhas sa d) (keys sb);
                   common_ok = list_all (\<lambda>d. close4 (dget sa d 0) (dget sb d 0)) (filter (dhas sb) (keys sa));
                   tied = list_all (\<lambda>d. dhas sa d \<and> a \<noteq> [] \<and> close4 (dget sa d 0) (base4 (snd (last a))) \<or>
                                        dhas sb d \<and> b \<noteq> [] \<and> close4 (dget sb d 0) (base4 (snd (last b)))) only
               in if common_ok \<and> tied \<and> a \<noteq> [] \<and> b \<noteq> [] \<and> close4 (base4 (snd (last a))) (base4 (snd (last b)))
                  then ''tie_cutoff'' else ''score''))"

definition load_terms :: "string \<Rightarrow> (string, int) dict res" where
  "load_terms f =
     res_fold (\<lambda>d line. case split_at TAB (rstrip_nl line) of
         [t, df, _] \<Rightarrow> res_bind (int_of df) (\<lambda>n. Inr (dset d t n)) | _ \<Rightarrow> Inl ValueError) [] (text_lines f)"

definition analyzed_terms :: "string list \<Rightarrow> (qid, string list) dict res" where
  \<comment> \<open>the lines the analyzer printed; tokens are separated by the character 1\<close>
  "analyzed_terms out =
     res_fold (\<lambda>d line. case split_at TAB line of
         [q, toks, _] \<Rightarrow> Inr (dset d q (filter (\<lambda>t. t \<noteq> []) (split_at 1 toks))) | _ \<Rightarrow> Inl ValueError) [] out"

record diagnostics =
  dg_ours_df :: "(string, int) dict"
  dg_ref_df :: "(string, int) dict"
  dg_terms :: "(qid, string list) dict"
  dg_our_norm :: "docid \<Rightarrow> int"
  dg_ref_norm :: "docid \<Rightarrow> int"

definition opt_get :: "('k, 'v) dict \<Rightarrow> 'k \<Rightarrow> 'v option" where "opt_get d k = map_of d k"

definition cause :: "string \<Rightarrow> scored_run \<Rightarrow> diagnostics option \<Rightarrow> qid \<Rightarrow> ranking \<Rightarrow> ranking \<Rightarrow> string" where
  \<comment> \<open>the bucket of one query for the run called \<open>name\<close>\<close>
  "cause name lucene dg q a b =
     (let c = classify a b 10 in
      if c \<noteq> ''score'' then c
      else if name = ''textbook'' \<and> classify (dget lucene q []) b 10 \<noteq> ''score'' then ''length_quantisation''
      else case dg of
          None \<Rightarrow> ''unexplained''
        | Some g \<Rightarrow>
            if list_ex (\<lambda>t. opt_get (dg_ours_df g) t \<noteq> opt_get (dg_ref_df g) t) (dget (dg_terms g) q []) then ''analyzer_vocab''
            else if list_ex (\<lambda>d. dg_our_norm g d \<noteq> dg_ref_norm g d) (map fst (take 10 a) @ map fst (take 10 b)) then ''analyzer_length''
            else ''unexplained'')"

record parity_report =
  pr_queries :: nat
  pr_buckets :: "(string, nat) dict"
  pr_overlap_mean :: real
  pr_overlap_hist :: "(nat \<times> nat) list"
  pr_examples :: "(string, qid list) dict"

definition overlap10 :: "ranking \<Rightarrow> ranking \<Rightarrow> nat" where
  "overlap10 a b = card (set (map fst (take 10 a)) \<inter> set (map fst (take 10 b)))"

definition parity_of :: "string \<Rightarrow> scored_run \<Rightarrow> scored_run \<Rightarrow> scored_run \<Rightarrow> diagnostics option \<Rightarrow> qrels \<Rightarrow> parity_report" where
  "parity_of name r lucene ref dg qrels =
     (let cs = map (\<lambda>q. (q, cause name lucene dg q (dget r q []) (dget ref q []))) (keys qrels);
          ov = map (\<lambda>q. overlap10 (dget r q []) (dget ref q [])) (keys qrels);
          bs = group_by snd cs
      in \<lparr>pr_queries = length ov, pr_buckets = map (\<lambda>(c, g). (c, length g)) bs,
          pr_overlap_mean = mean (map real ov), pr_overlap_hist = map (\<lambda>k. (k, length (filter (\<lambda>x. x = k) ov))) (sort (remdups ov)),
          pr_examples = map (\<lambda>(c, g). (c, take 5 (map fst g))) (filter (\<lambda>(c, g). c \<noteq> ''identical'') bs)\<rparr>)"

lemma if_mem: "x \<in> S \<Longrightarrow> y \<in> S \<Longrightarrow> (if b then x else y) \<in> S"
  by simp

lemma classify_range: "classify a b k \<in> {''identical'', ''tie_order'', ''tie_cutoff'', ''score''}"
  unfolding classify_def Let_def by (intro if_mem) simp_all

lemma cause_range:
  "cause name lucene dg q a b \<in>
     {''identical'', ''tie_order'', ''tie_cutoff'', ''length_quantisation'', ''analyzer_vocab'', ''analyzer_length'', ''unexplained''}"
proof (cases "classify a b 10 = ''score''")
  case True
  show ?thesis unfolding cause_def Let_def True
    by (cases dg) (simp_all only: option.case simp_thms if_False, intro if_mem, simp_all)
next
  case False
  then show ?thesis using classify_range [of a b 10] unfolding cause_def Let_def by (simp only: if_True simp_thms) blast
qed

text \<open>Every judged query is counted in exactly one bucket, and the buckets are the names of the report.\<close>

lemma parity_buckets:
  "sum_list (map snd (pr_buckets (parity_of name r lucene ref dg qrels))) = pr_queries (parity_of name r lucene ref dg qrels)"
  "set (map fst (pr_buckets (parity_of name r lucene ref dg qrels))) \<subseteq>
     {''identical'', ''tie_order'', ''tie_cutoff'', ''length_quantisation'', ''analyzer_vocab'', ''analyzer_length'', ''unexplained''}"
proof -
  let ?cs = "map (\<lambda>q. (q, cause name lucene dg q (dget r q []) (dget ref q []))) (keys qrels)"
  show "sum_list (map snd (pr_buckets (parity_of name r lucene ref dg qrels))) = pr_queries (parity_of name r lucene ref dg qrels)"
    using group_by_total [of snd ?cs] by (simp add: parity_of_def Let_def comp_def case_prod_unfold)
  have eq: "set (map fst (pr_buckets (parity_of name r lucene ref dg qrels))) = snd ` set ?cs"
    using keys_group_by [of snd ?cs] by (simp add: parity_of_def Let_def comp_def case_prod_unfold image_image)
  show "set (map fst (pr_buckets (parity_of name r lucene ref dg qrels))) \<subseteq>
     {''identical'', ''tie_order'', ''tie_cutoff'', ''length_quantisation'', ''analyzer_vocab'', ''analyzer_length'', ''unexplained''}"
    unfolding eq
  proof
    fix x assume "x \<in> snd ` set ?cs"
    then obtain q where "x = cause name lucene dg q (dget r q []) (dget ref q [])" by auto
    then show "x \<in> {''identical'', ''tie_order'', ''tie_cutoff'', ''length_quantisation'', ''analyzer_vocab'', ''analyzer_length'', ''unexplained''}"
      using cause_range by blast
  qed
qed

section \<open>Score agreement\<close>

text \<open>\<open>score_agreement.py\<close>: both runs are read as groups of consecutive lines with the same query, in step.\<close>

definition consecutive :: "('k \<times> docid \<times> real) list \<Rightarrow> ('k \<times> (docid, real) dict) list" where
  \<comment> \<open>\<open>itertools.groupby\<close>, each group as a dictionary\<close>
  "consecutive xs =
     foldl (\<lambda>gs (q, d, s). if gs \<noteq> [] \<and> fst (last gs) = q then butlast gs @ [(q, dset (snd (last gs)) d s)] else gs @ [(q, [(d, s)])]) [] xs"

definition parse_raw :: "string \<Rightarrow> (qid \<times> docid \<times> real) res" where
  "parse_raw l = (case split_at TAB l of [q, d, _, s, _] \<Rightarrow> res_bind (float_of s) (\<lambda>x. Inr (q, d, x)) | _ \<Rightarrow> Inl ValueError)"

definition parse_trec :: "string \<Rightarrow> (qid \<times> docid \<times> real) res" where
  "parse_trec l = (case split_ws l of [q, _, d, _, s, _] \<Rightarrow> res_bind (float_of s) (\<lambda>x. Inr (q, d, x)) | _ \<Rightarrow> Inl ValueError)"

record agreement =
  ag_both :: nat
  ag_only_ours :: nat
  ag_only_ref :: nat
  ag_within :: nat
  ag_perturbed :: nat
  ag_max_diff :: real

definition agree_doc :: "real \<Rightarrow> (docid, real) dict \<Rightarrow> agreement \<Rightarrow> docid \<times> real \<Rightarrow> agreement" where
  "agree_doc scale a st ds =
     (case ds of (d, s) \<Rightarrow>
        if \<not> dhas a d then st\<lparr>ag_only_ours := ag_only_ours st + 1\<rparr>
        else let x = dget a d 0; diff = \<bar>round_to 4 (s / scale) - round_to 4 x\<bar>; near = diff \<le> 101 / 10 ^ 6;
                 off = \<bar>x * 10 ^ 4 - real_of_int (round_half_even (x * 10 ^ 4))\<bar> > 1 / 10 ^ 3
             in st\<lparr>ag_both := ag_both st + 1, ag_within := ag_within st + (if near then 1 else 0),
                   ag_perturbed := ag_perturbed st + (if \<not> near \<and> off then 1 else 0), ag_max_diff := max (ag_max_diff st) diff\<rparr>)"

definition agree_query :: "real \<Rightarrow> agreement \<Rightarrow> (qid \<times> (docid, real) dict) \<times> (qid \<times> (docid, real) dict) \<Rightarrow> agreement res" where
  "agree_query scale st p =
     (case p of ((q, ours), (qa, a)) \<Rightarrow>
        if q \<noteq> qa then Inl SystemExit
        else let st' = foldl (agree_doc scale a) st ours
             in Inr (st'\<lparr>ag_only_ref := ag_only_ref st' + length (filter (\<lambda>(d, _). \<not> dhas ours d) a)\<rparr>))"

definition agreement_of :: "real \<Rightarrow> string \<Rightarrow> string \<Rightarrow> (agreement \<times> real) res" where
  \<comment> \<open>the counts and the share within one unit of the fourth digit; no common pair divides by zero\<close>
  "agreement_of scale ours ref =
     res_bind (res_map parse_raw (text_lines ours)) (\<lambda>xs. res_bind (res_map parse_trec (text_lines ref)) (\<lambda>ys.
       res_bind (res_fold (agree_query scale)
           \<lparr>ag_both = 0, ag_only_ours = 0, ag_only_ref = 0, ag_within = 0, ag_perturbed = 0, ag_max_diff = 0\<rparr>
           (zip (consecutive xs) (consecutive ys))) (\<lambda>st.
         if ag_both st = 0 then Inl ZeroDivisionError
         else Inr (st\<lparr>ag_max_diff := round_to 6 (ag_max_diff st)\<rparr>, real (ag_within st) / real (ag_both st)))))"

section \<open>Replay under a fault\<close>

record reply_sample =
  sm_phase :: string
  sm_qid :: qid
  sm_latency :: real
  sm_status :: int
  sm_docs :: "int list"
  sm_level :: int
  sm_partial :: nat
  sm_failed :: nat
  sm_hedged :: nat

datatype reply =
    Http_Error
  | Status int
  | Body "int list" int nat nat nat \<comment> \<open>documents, degradation level, partial, failed and hedged shards\<close>

definition load_query_pairs :: "string \<Rightarrow> (qid \<times> string) list res" where
  "load_query_pairs f =
     res_map (\<lambda>l. case split1 TAB l of None \<Rightarrow> Inl ValueError | Some p \<Rightarrow> Inr p) (filter (\<lambda>l. l \<noteq> []) (splitlines [] f))"

type_synonym int_qrels = "(qid, (int, int) dict) dict"

definition load_int_qrels :: "string \<Rightarrow> int_qrels res" where
  "load_int_qrels f =
     res_fold (\<lambda>m l. case split_ws l of
         [q, _, d, r] \<Rightarrow> res_bind (int_of d) (\<lambda>di. res_bind (int_of r) (\<lambda>ri. Inr (dset m q (dset (dget m q []) di ri))))
       | _ \<Rightarrow> Inr m) [] (splitlines [] f)"

fun first_hit :: "(int, int) dict \<Rightarrow> nat \<Rightarrow> int list \<Rightarrow> real" where
  "first_hit rels rank [] = 0"
| "first_hit rels rank (d # ds) = (if dget rels d 0 > 0 then 1 / real rank else first_hit rels (rank + 1) ds)"

definition sample_rr :: "int_qrels \<Rightarrow> reply_sample \<Rightarrow> real" where
  "sample_rr qrels s = (if sm_status s = 200 then first_hit (dget qrels (sm_qid s) []) 1 (take 10 (sm_docs s)) else 0)"

definition mrr_at_10 :: "reply_sample list \<Rightarrow> int_qrels \<Rightarrow> real option" where
  "mrr_at_10 samples qrels =
     (let rrs = map (sample_rr qrels) (filter (\<lambda>s. dget qrels (sm_qid s) [] \<noteq> []) samples)
      in if rrs = [] then None else Some (mean rrs))"

record phase_summary =
  ps_requests :: nat
  ps_error_rate :: real
  ps_p50 :: real
  ps_p99 :: real
  ps_p999 :: real
  ps_degraded :: real
  ps_partial :: real
  ps_failed :: real
  ps_hedged :: real
  ps_mrr :: "real option"

definition summarize :: "(real list \<Rightarrow> real \<Rightarrow> real) \<Rightarrow> reply_sample list \<Rightarrow> int_qrels \<Rightarrow> phase_summary" where
  \<comment> \<open>the first argument is \<open>np.percentile\<close>\<close>
  "summarize percentile samples qrels =
     (let lat = (if samples = [] then [0] else map sm_latency samples);
          ok = filter (\<lambda>s. sm_status s = 200) samples; n = max (length samples) 1;
          share = (\<lambda>p. real (length (filter p ok)) / real n)
      in \<lparr>ps_requests = length samples, ps_error_rate = 1 - real (length ok) / real n,
          ps_p50 = percentile lat 50, ps_p99 = percentile lat 99, ps_p999 = percentile lat (999 / 10),
          ps_degraded = share (\<lambda>s. sm_level s > 0), ps_partial = share (\<lambda>s. sm_partial s > 0),
          ps_failed = share (\<lambda>s. sm_failed s > 0), ps_hedged = share (\<lambda>s. sm_hedged s > 0), ps_mrr = mrr_at_10 samples qrels\<rparr>)"

definition one_request :: "string \<Rightarrow> qid \<Rightarrow> real \<times> reply \<Rightarrow> reply_sample" where
  \<comment> \<open>the latency and what came back\<close>
  "one_request phase qid r =
     (let blank = (\<lambda>st. \<lparr>sm_phase = phase, sm_qid = qid, sm_latency = fst r, sm_status = st, sm_docs = [], sm_level = 0,
                          sm_partial = 0, sm_failed = 0, sm_hedged = 0\<rparr>)
      in case snd r of
           Http_Error \<Rightarrow> blank 599
         | Status n \<Rightarrow> blank n
         | Body ds lv p f h \<Rightarrow> (blank 200)\<lparr>sm_docs := ds, sm_level := lv, sm_partial := p, sm_failed := f, sm_hedged := h\<rparr>)"

definition run_phase :: "(nat \<Rightarrow> nat \<Rightarrow> nat list) \<Rightarrow> (string \<Rightarrow> nat \<Rightarrow> real \<times> reply) \<Rightarrow> (qid \<times> string) list \<Rightarrow> string \<Rightarrow> real \<Rightarrow> real \<Rightarrow>
    reply_sample list res" where
  \<comment> \<open>\<open>picks m n\<close>: the first \<open>n\<close> draws of \<open>randrange(m)\<close> of a generator seeded alike in every phase; an
     empty list of queries raises ValueError when there is anything to send, and a rate of 0 divides by zero\<close>
  "run_phase picks respond queries phase rate seconds =
     (let n = nat \<lfloor>rate * seconds\<rfloor> in
      if rate = 0 then Inl ZeroDivisionError
      else if n > 0 \<and> queries = [] then Inl ValueError
      else Inr (map (\<lambda>(i, j). one_request phase (fst (queries ! j)) (respond phase i)) (enumerate 0 (picks (length queries) n))))"

definition PHASES :: "string list" where "PHASES = [''baseline'', ''fault'', ''recovery'']"

definition chaos :: "(nat \<Rightarrow> nat \<Rightarrow> nat list) \<Rightarrow> (real list \<Rightarrow> real \<Rightarrow> real) \<Rightarrow> (string \<Rightarrow> nat \<Rightarrow> real \<times> reply) \<Rightarrow> string \<Rightarrow> string \<Rightarrow> real \<Rightarrow> real \<Rightarrow>
    ((string \<times> phase_summary) list \<times> real option) res" where
  \<comment> \<open>the summaries and the share of quality kept under the fault\<close>
  "chaos picks percentile respond qf qrf rate seconds =
     res_bind (load_query_pairs qf) (\<lambda>queries. res_bind (load_int_qrels qrf) (\<lambda>qrels.
       let judged = filter (\<lambda>(q, t). dhas qrels q) queries in
       res_bind (res_map (\<lambda>p. run_phase picks respond judged p rate seconds) PHASES) (\<lambda>ss.
         let all = concat ss;
             by = map (\<lambda>p. (p, summarize percentile (filter (\<lambda>s. sm_phase s = p) all) qrels)) PHASES;
             mrr = (\<lambda>p. case map_of by p of None \<Rightarrow> None | Some s \<Rightarrow> ps_mrr s)
         in Inr (by, case (mrr ''baseline'', mrr ''fault'') of
                       (Some b, Some f) \<Rightarrow> if b \<noteq> 0 then Some (f / b) else None | _ \<Rightarrow> None))))"

lemma first_hit_bounds: "0 < rank \<Longrightarrow> 0 \<le> first_hit rels rank ds \<and> first_hit rels rank ds \<le> 1"
  by (induction ds arbitrary: rank) auto

text \<open>The quality of a phase lies between 0 and 1, and the phases replay the same queries in the same order.\<close>

lemma chaos_mrr_bounds:
  assumes "mrr_at_10 samples qrels = Some m"
  shows "0 \<le> m \<and> m \<le> 1"
proof -
  obtain rrs where m: "m = mean rrs" "rrs \<noteq> []" and rrs: "\<forall>x \<in> set rrs. 0 \<le> x \<and> x \<le> 1"
  proof
    show "m = mean (map (sample_rr qrels) (filter (\<lambda>s. dget qrels (sm_qid s) [] \<noteq> []) samples))"
      "map (sample_rr qrels) (filter (\<lambda>s. dget qrels (sm_qid s) [] \<noteq> []) samples) \<noteq> []"
      using assms by (auto simp: mrr_at_10_def Let_def split: if_splits)
  qed (use first_hit_bounds [of 1] in \<open>auto simp: sample_rr_def\<close>)
  have "0 \<le> sum_list rrs" "sum_list rrs \<le> real (length rrs)"
    using rrs sum_list_nonneg [of rrs] sum_list_mono [of rrs "\<lambda>x. x" "\<lambda>x. 1"] by (auto simp: sum_list_triv)
  then show ?thesis using m by (simp add: mean_def)
qed

lemma phases_paired:
  assumes "run_phase picks respond queries p rate seconds = Inr a" and "run_phase picks respond' queries p' rate seconds = Inr b"
  shows "map sm_qid a = map sm_qid b"
proof -
  have q: "sm_qid (one_request ph q r) = q" for ph q r by (simp add: one_request_def Let_def split: reply.split)
  show ?thesis using assms by (auto simp: run_phase_def Let_def q case_prod_unfold split: if_splits)
qed

end
