(* ===== verification/Result_Files.thy ===== *)
theory Result_Files
  imports Data_IO Parity_Chaos Json
begin

text \<open>
  Reports and their sidecars: the evaluation command (\<open>py/hybridsearch/eval/__main__.py\<close>), result files with the
  description of the machine that produced them (\<open>eval/results.py\<close>, \<open>rerank/meta.py\<close>, \<open>bench/meta.py\<close>), the
  result of a chaos experiment (\<open>serving/chaos.py\<close>) and the table of all of them (\<open>scripts/chaos_table.py\<close>).  The
  machine is a record of what the commands and the platform module answer.  The lemmas show that printed
  numbers read back to the value rounded to their decimals, what a report keeps of the metrics, and that fields
  given by the caller win over the standard ones.
\<close>

section \<open>The evaluation command\<close>

definition count_missing :: "run \<Rightarrow> qrels \<Rightarrow> nat" where
  "count_missing run qrels = length (filter (\<lambda>(q, _). \<not> dhas run q) qrels)"

definition eval_lines :: "string \<Rightarrow> string \<Rightarrow> nat \<Rightarrow> nat \<Rightarrow> (string, real) dict \<Rightarrow> per_query \<Rightarrow> string list res" where
  \<comment> \<open>standard output\<close>
  "eval_lines run_path qrels_path nq missing agg per_q =
     res_bind (res_map (\<lambda>(n, v). res_bind (dlookup per_q n) (\<lambda>vals.
         Inr (n @ tab @ fmt_f 4 v @ tab @ ''(n='' @ str_nat (length vals) @ '')''))) agg) (\<lambda>ls.
       Inr ((''# run='' @ run_path @ '' qrels='' @ qrels_path @ '' queries_in_qrels='' @ str_nat nq @
             '' missing_from_run='' @ str_nat missing) # ls))"

definition qid_order :: "qid \<Rightarrow> nat \<times> string" where
  "qid_order q = (length q, q)"

definition per_query_tsv :: "per_query \<Rightarrow> string" where
  \<comment> \<open>the rows of \<open>--per-query\<close>\<close>
  "per_query_tsv per_q =
     unlines ((''qid'' @ tab @ ''metric'' @ tab @ ''value'') #
       concat (map (\<lambda>(n, vals). map (\<lambda>q. q @ tab @ n @ tab @ fmt_f 6 (dget vals q 0)) (py_sorted qid_order (keys vals))) per_q))"

definition eval_json :: "string \<Rightarrow> string \<Rightarrow> nat \<Rightarrow> nat \<Rightarrow> (string, real) dict \<Rightarrow> per_query \<Rightarrow> json" where
  "eval_json run_path qrels_path nq missing agg per_q =
     JObj [(''run'', JStr run_path), (''qrels'', JStr qrels_path), (''n_queries'', JInt (int nq)), (''missing_from_run'', JInt (int missing)),
           (''metrics'', JObj (map (\<lambda>(n, v). (n, JFloat (round_to 6 v))) agg)),
           (''n_per_metric'', JObj (map (\<lambda>(n, vals). (n, JInt (int (length vals)))) per_q))]"

definition eval_main :: "(real \<Rightarrow> string) \<Rightarrow> string \<Rightarrow> string \<Rightarrow> string \<Rightarrow> string \<Rightarrow> string list option \<Rightarrow> (string list \<times> string \<times> string) res" where
  \<comment> \<open>the printed lines, the table and the JSON file (without a final newline)\<close>
  "eval_main rp run_path qrels_path runf qrelsf metrics =
     res_bind (read_run runf) (\<lambda>run. res_bind (read_qrels qrelsf) (\<lambda>qrels.
     res_bind (evaluate run qrels metrics) (\<lambda>(agg, per_q).
       let nq = length qrels; missing = count_missing run qrels in
       res_bind (eval_lines run_path qrels_path nq missing agg per_q) (\<lambda>ls.
         Inr (ls, per_query_tsv per_q, dumps_indent rp 0 (eval_json run_path qrels_path nq missing agg per_q))))))"

section \<open>The machine\<close>

record machine =
  mc_run :: "string list \<Rightarrow> string option" \<comment> \<open>the output of a command; None when it is missing or fails\<close>
  mc_stdout :: "string list \<Rightarrow> string option" \<comment> \<open>its output even when it fails; None when it is missing\<close>
  mc_processor :: string
  mc_cores :: nat
  mc_system :: string
  mc_release :: string
  mc_mac_ver :: string
  mc_python :: string
  mc_platform :: string
  mc_now :: string \<comment> \<open>the local time in ISO format, to seconds\<close>
  mc_load :: "real \<times> real \<times> real"
  mc_darwin :: bool
  mc_arch :: string
  mc_cpuinfo :: "string option" \<comment> \<open>\<open>/proc/cpuinfo\<close>\<close>
  mc_versions :: "(string, string) dict" \<comment> \<open>the modules that can be imported\<close>

definition or_else :: "string option \<Rightarrow> string \<Rightarrow> string" where
  \<comment> \<open>\<open>x or y\<close> where \<open>x\<close> may be None\<close>
  "or_else x y = (case x of None \<Rightarrow> y | Some s \<Rightarrow> if s = [] then y else s)"

definition sh :: "machine \<Rightarrow> string list \<Rightarrow> string option" where
  "sh m cmd = map_option strip (mc_run m cmd)"

definition sh_any :: "machine \<Rightarrow> string list \<Rightarrow> string" where
  \<comment> \<open>\<open>_sh\<close> of the reranker\<close>
  "sh_any m cmd = (case mc_stdout m cmd of None \<Rightarrow> [] | Some s \<Rightarrow> strip s)"

definition str_or_null :: "string option \<Rightarrow> json" where
  "str_or_null x = (case x of None \<Rightarrow> JNull | Some s \<Rightarrow> JStr s)"

definition loads_json :: "real \<times> real \<times> real \<Rightarrow> json" where
  \<comment> \<open>\<open>[round(x, 2) for x in os.getloadavg()]\<close>\<close>
  "loads_json l = (case l of (a, b, c) \<Rightarrow> JArr (map (\<lambda>x. JFloat (round_to 2 x)) [a, b, c]))"

definition dict_update :: "('k, 'v) dict \<Rightarrow> ('k, 'v) dict \<Rightarrow> ('k, 'v) dict" where
  "dict_update d e = foldl (\<lambda>d (k, v). dset d k v) d e"

definition machine_meta :: "machine \<Rightarrow> (string, json) dict \<Rightarrow> (string, json) dict res" where
  "machine_meta m extra =
     res_bind (int_of (or_else (sh m [''sysctl'', ''-n'', ''hw.memsize'']) ''0'')) (\<lambda>mem.
       Inr (dict_update
         [(''cpu'', JStr (or_else (sh m [''sysctl'', ''-n'', ''machdep.cpu.brand_string'']) (mc_processor m))), (''cores'', JInt (int (mc_cores m))),
          (''mem_bytes'', JInt mem), (''os'', JStr (mc_system m @ '' '' @ mc_release m @ '' (macOS '' @ mc_mac_ver m @ '')'')),
          (''python'', JStr (mc_python m)), (''date'', JStr (mc_now m)), (''git_sha'', str_or_null (sh m [''git'', ''rev-parse'', ''HEAD''])),
          (''git_dirty'', JBool (or_else (sh m [''git'', ''status'', ''--porcelain'']) [] \<noteq> [])), (''load_avg_1_5_15'', loads_json (mc_load m)),
          (''pinned'', JBool False),
          (''timing_label'', JStr ''dev-signal-only (macOS, shared machine with other projects running concurrently, threads not pinned)'')] extra))"

definition sidecar_text :: "(real \<Rightarrow> string) \<Rightarrow> (string, json) dict \<Rightarrow> string" where
  "sidecar_text rp meta = dumps_indent rp 0 (JObj meta) @ nl"

datatype payload = Text string | Value json

definition write_result :: "(real \<Rightarrow> string) \<Rightarrow> machine \<Rightarrow> string \<Rightarrow> payload \<Rightarrow> string \<Rightarrow> (string, json) dict \<Rightarrow> (string, string) dict res" where
  \<comment> \<open>the files written under \<open>results/\<close>; the arguments of \<open>machine_meta\<close> are \<open>command\<close> and the rest\<close>
  "write_result rp m rel p command extra =
     res_bind (machine_meta m ((''command'', JStr command) # extra)) (\<lambda>meta.
       Inr [(''results/'' @ rel, case p of Text s \<Rightarrow> s | Value v \<Rightarrow> dumps_indent rp 0 v @ nl),
            (''results/'' @ rel @ ''.meta.json'', sidecar_text rp meta)])"

section \<open>The sidecars of the reranker\<close>

definition cpu_model :: "string \<Rightarrow> string res" where
  \<comment> \<open>the first \<open>model name\<close> line of \<open>/proc/cpuinfo\<close>; its text after the colon\<close>
  "cpu_model f =
     (case next_or (\<lambda>l. take 10 l = ''model name'') (splitlines [] (universal_nl f)) of
        None \<Rightarrow> Inr []
      | Some l \<Rightarrow> (case split1 58 l of None \<Rightarrow> Inl IndexError | Some (_, r) \<Rightarrow> Inr (strip r)))"

definition rerank_cpu :: "machine \<Rightarrow> string res" where
  "rerank_cpu m =
     (let cpu = (if mc_darwin m then sh_any m [''sysctl'', ''-n'', ''machdep.cpu.brand_string''] else []) in
      if cpu = [] then (case mc_cpuinfo m of None \<Rightarrow> Inr [] | Some f \<Rightarrow> cpu_model f) else Inr cpu)"

definition rerank_hardware :: "machine \<Rightarrow> (string, json) dict res" where
  "rerank_hardware m =
     res_bind (rerank_cpu m) (\<lambda>cpu.
       let info = [(''cpu'', JStr (or_else (Some cpu) (mc_processor m))), (''logical_cores'', JInt (int (mc_cores m))),
            (''os'', JStr (mc_system m @ '' '' @ mc_release m @ '' ('' @ mc_platform m @ '')'')), (''python'', JStr (mc_python m)),
            (''pinned_threads'', JBool False), (''loadavg_1_5_15'', loads_json (mc_load m))]
       in if \<not> mc_darwin m then Inr info
          else res_bind (int_of (or_else (Some (sh_any m [''sysctl'', ''-n'', ''hw.memsize''])) ''0'')) (\<lambda>mem.
            Inr (info @ [(''timing_label'', JStr ''dev-signal-only (macOS, threads cannot be pinned)''), (''mem_bytes'', JInt mem)])))"

definition VERSIONED :: "string list" where
  "VERSIONED = [''torch'', ''transformers'', ''sentence_transformers'', ''onnx'', ''onnxruntime'', ''numpy'']"

definition versions :: "machine \<Rightarrow> (string, json) dict" where
  "versions m = map (\<lambda>n. (n, JStr (dget (mc_versions m) n []))) (filter (dhas (mc_versions m)) VERSIONED)"

definition write_meta :: "(real \<Rightarrow> string) \<Rightarrow> machine \<Rightarrow> string \<Rightarrow> string \<Rightarrow> string \<Rightarrow> (string, json) dict \<Rightarrow> (string \<times> string) res" where
  \<comment> \<open>path and text of the sidecar of a result; a field given twice keeps its place and takes the later value\<close>
  "write_meta rp m repo result command given =
     res_bind (rerank_hardware m) (\<lambda>hw.
       Inr (result @ ''.meta.json'', sidecar_text rp (dict_update
         [(''result'', JStr result), (''date'', JStr (mc_now m)), (''command'', JStr command), (''hardware'', JObj hw), (''versions'', JObj (versions m)),
          (''git_sha'', JStr (or_else (Some (sh_any m [''git'', ''-C'', repo, ''rev-parse'', ''--short'', ''HEAD''])) ''no-commit''))] given)))"

section \<open>The sidecars of the vector benchmark\<close>

fun cmake_value :: "string \<Rightarrow> string list \<Rightarrow> string option" where
  \<comment> \<open>\<open>re.search(rf"^{key}:[A-Z]+=(.*)$", txt, re.M)\<close> on the lines of the cache\<close>
  "cmake_value key [] = None"
| "cmake_value key (l # ls) =
     (let upper = (\<lambda>c. 65 \<le> code c \<and> code c \<le> 90); r = drop (length key + 1) l in
      if take (length key + 1) l = key @ '':'' \<and> takeWhile upper r \<noteq> [] \<and> take 1 (dropWhile upper r) = ''='' then Some (tl (dropWhile upper r))
      else cmake_value key ls)"

definition native_flag :: "string \<Rightarrow> string option \<Rightarrow> json" where
  "native_flag arch native =
     (if native \<in> {Some ''ON'', Some ''1'', Some ''TRUE''} then JStr (if arch = ''arm64'' then ''-mcpu=native'' else ''-march=native'') else JNull)"

definition cmake_fields :: "machine \<Rightarrow> string \<Rightarrow> (string, json) dict" where
  "cmake_fields m txt =
     (let get = (\<lambda>key. cmake_value key (split_at NL (universal_nl txt))); cxx = get ''CMAKE_CXX_COMPILER'' in
      [(''cxx'', str_or_null cxx), (''build_type'', str_or_null (get ''CMAKE_BUILD_TYPE'')), (''cxx_flags_release'', str_or_null (get ''CMAKE_CXX_FLAGS_RELEASE'')),
       (''native_flag'', native_flag (mc_arch m) (get ''HS_NATIVE''))] @
      (case cxx of
         None \<Rightarrow> []
       | Some c \<Rightarrow>
           (if c = [] then []
            else case mc_run m [c, ''--version''] of
              None \<Rightarrow> []
            | Some out \<Rightarrow> (case splitlines [] (universal_nl out) of [] \<Rightarrow> [] | v # _ \<Rightarrow> [(''cxx_version'', JStr v)]))))"

definition compiler_info :: "machine \<Rightarrow> string \<Rightarrow> string option \<Rightarrow> (string, json) dict" where
  \<comment> \<open>the directory as it is shown, and the text of its CMake cache if there is one\<close>
  "compiler_info m shown cache =
     [(''build_dir'', JStr shown)] @ (case cache of None \<Rightarrow> [] | Some txt \<Rightarrow> cmake_fields m txt) @
     [(''simd'', JStr (if mc_arch m = ''arm64'' then ''neon'' else ''avx2-or-scalar''))]"

definition memory_state :: "machine \<Rightarrow> (string, json) dict" where
  \<comment> \<open>the last line of the second; no line is an IndexError, which is swallowed like any other\<close>
  "memory_state m =
     (case mc_run m [''sysctl'', ''-n'', ''vm.swapusage''] of None \<Rightarrow> [] | Some t \<Rightarrow> [(''swapusage'', JStr (strip t))]) @
     (case mc_run m [''memory_pressure''] of
        None \<Rightarrow> []
      | Some t \<Rightarrow> (let ls = splitlines [] (strip t) in if ls = [] then [] else [(''memory_pressure'', JStr (last ls))]))"

definition sidecar :: "(real \<Rightarrow> string) \<Rightarrow> machine \<Rightarrow> string \<Rightarrow> string \<Rightarrow> string \<Rightarrow> nat option \<Rightarrow> string \<Rightarrow> string option \<Rightarrow> (string, json) dict \<Rightarrow>
    (string \<times> string) res" where
  "sidecar rp m result command cache threads shown cmake given =
     res_bind (machine_meta m
        [(''command'', JStr command), (''cache'', JStr cache), (''threads'', case threads of None \<Rightarrow> JNull | Some n \<Rightarrow> JInt (int n)),
         (''compiler'', JObj (compiler_info m shown cmake)), (''load_average_1_5_15'', loads_json (mc_load m)),
         (''memory_at_write_time'', JObj (memory_state m)),
         (''timing_label'', JStr (''dev-signal-only (macOS, threads not pinned; machine shared with other jobs, load avg '' @
            fmt_f 1 (fst (mc_load m)) @ '' on '' @ str_nat (mc_cores m) @ '' cores at write time; see memory_at_write_time '' @
            ''for swap: page-ins inflate latency of RAM-resident indexes)''))]) (\<lambda>meta.
       Inr (result @ ''.meta.json'', sidecar_text rp (if given = [] then meta else dict_update meta given)))"

definition set_pair :: "string \<Rightarrow> string \<times> string" where
  \<comment> \<open>\<open>kv.partition("=")\<close>\<close>
  "set_pair kv = (case split1 61 kv of None \<Rightarrow> (kv, []) | Some p \<Rightarrow> p)"

definition meta_main :: "(real \<Rightarrow> string) \<Rightarrow> machine \<Rightarrow> string \<Rightarrow> string \<Rightarrow> string \<Rightarrow> nat option \<Rightarrow> string \<Rightarrow> string option \<Rightarrow> string list \<Rightarrow>
    (string \<times> string) res" where
  "meta_main rp m result command cache threads shown cmake sets =
     sidecar rp m result command cache threads shown cmake (dict_of (map (\<lambda>kv. (fst (set_pair kv), JStr (snd (set_pair kv)))) sets))"

section \<open>Chaos experiments\<close>

record chaos_args =
  ca_name :: string
  ca_rate :: real
  ca_seconds :: real
  ca_mode :: string
  ca_rerank :: bool
  ca_deadline :: int
  ca_start :: "string option"
  ca_stop :: "string option"

definition opt_float :: "real option \<Rightarrow> json" where
  "opt_float x = (case x of None \<Rightarrow> JNull | Some v \<Rightarrow> JFloat v)"

definition phase_json :: "phase_summary \<Rightarrow> json" where
  "phase_json s =
     JObj [(''requests'', JInt (int (ps_requests s))), (''error_rate'', JFloat (ps_error_rate s)), (''p50_ms'', JFloat (ps_p50 s)),
           (''p99_ms'', JFloat (ps_p99 s)), (''p999_ms'', JFloat (ps_p999 s)), (''degraded_rate'', JFloat (ps_degraded s)),
           (''partial_rate'', JFloat (ps_partial s)), (''failed_shard_rate'', JFloat (ps_failed s)), (''hedged_rate'', JFloat (ps_hedged s)),
           (''mrr_at_10'', opt_float (ps_mrr s))]"

definition chaos_result :: "machine \<Rightarrow> chaos_args \<Rightarrow> (string \<times> phase_summary) list \<times> real option \<Rightarrow> json" where
  "chaos_result m a r =
     JObj [(''experiment'', JStr (ca_name a)), (''fault_start'', str_or_null (ca_start a)), (''fault_stop'', str_or_null (ca_stop a)),
           (''rate_per_s'', JFloat (ca_rate a)), (''phase_seconds'', JFloat (ca_seconds a)),
           (''params'', JObj [(''mode'', JStr (ca_mode a)), (''rerank'', JStr (if ca_rerank a then ''true'' else ''false'')),
              (''deadlineMs'', JInt (ca_deadline a)), (''k'', JInt 10)]),
           (''phases'', JObj (map (\<lambda>(p, s). (p, phase_json s)) (fst r))), (''mrr_retained_under_fault'', opt_float (snd r)),
           (''hardware'', JObj [(''machine'', JStr (mc_arch m)), (''system'', JStr (mc_platform m)),
              (''note'', JStr (if mc_system m = ''Darwin'' then ''macOS runs are dev-signal-only'' else []))])]"

definition chaos_file :: "(real \<Rightarrow> string) \<Rightarrow> machine \<Rightarrow> chaos_args \<Rightarrow> (nat \<Rightarrow> nat \<Rightarrow> nat list) \<Rightarrow> (real list \<Rightarrow> real \<Rightarrow> real) \<Rightarrow>
    (string \<Rightarrow> nat \<Rightarrow> real \<times> reply) \<Rightarrow> string \<Rightarrow> string \<Rightarrow> string res" where
  \<comment> \<open>the text of \<open>--out\<close>\<close>
  "chaos_file rp m a picks percentile respond qf qrf =
     res_bind (chaos picks percentile respond qf qrf (ca_rate a) (ca_seconds a)) (\<lambda>r. Inr (dumps_indent rp 0 (chaos_result m a r) @ nl))"

definition TABLE_COLS :: "string list" where
  "TABLE_COLS = [''requests'', ''error_rate'', ''p50_ms'', ''p99_ms'', ''mrr_at_10'', ''degraded_rate'', ''partial_rate'', ''failed_shard_rate'', ''hedged_rate'']"

definition table_cell :: "(json \<Rightarrow> string) \<Rightarrow> json \<Rightarrow> string res" where
  \<comment> \<open>four decimals for a float, \<open>str\<close> for the rest\<close>
  "table_cell ps v = (case v of JFloat x \<Rightarrow> json_fmt_f 4 v | JSpecial s \<Rightarrow> json_fmt_f 4 v | _ \<Rightarrow> Inr (ps v))"

definition phase_line :: "(json \<Rightarrow> string) \<Rightarrow> json \<Rightarrow> string \<times> json \<Rightarrow> string res" where
  "phase_line ps name pm =
     res_bind (res_map (\<lambda>c. res_bind (json_key (snd pm) c) (table_cell ps)) TABLE_COLS) (\<lambda>vals.
       Inr (''| '' @ ps name @ '' | '' @ fst pm @ '' | '' @ join_with '' | '' vals @ '' |''))"

definition chaos_lines :: "(json \<Rightarrow> string) \<Rightarrow> string \<Rightarrow> string list res" where
  \<comment> \<open>the lines of one result file\<close>
  "chaos_lines ps f =
     res_bind (loads f) (\<lambda>d.
     res_bind (res_bind (json_key d ''phases'') json_items) (\<lambda>phases.
     res_bind (res_map (\<lambda>pm. res_bind (json_key d ''experiment'') (\<lambda>nm. phase_line ps nm pm)) phases) (\<lambda>ls.
     res_bind (json_key d ''experiment'') (\<lambda>nm.
     res_bind (res_bind (json_key d ''mrr_retained_under_fault'') (json_fmt_f 3)) (\<lambda>kept.
       Inr (ls @ [''| '' @ ps nm @ '' | **MRR retained under fault** | '' @ kept @ '' |'' @
                  concat (replicate (length TABLE_COLS - 1) '' |'')]))))))"

definition chaos_table :: "(json \<Rightarrow> string) \<Rightarrow> string list \<Rightarrow> string list res" where
  \<comment> \<open>what is printed for the files named\<close>
  "chaos_table ps files =
     res_bind (res_map (chaos_lines ps) files) (\<lambda>lss.
       Inr ([''| experiment | phase | '' @ join_with '' | '' TABLE_COLS @ '' |'',
             ''|'' @ concat (replicate (length TABLE_COLS + 2) ''---|'')] @ concat lss))"

section \<open>Fields given by the caller win\<close>

lemma map_of_dict_update: "dict_ok e \<Longrightarrow> map_of (dict_update d e) k = (case map_of e k of Some v \<Rightarrow> Some v | None \<Rightarrow> map_of d k)"
proof (induction e arbitrary: d)
  case (Cons kv e)
  obtain k' v where kv: "kv = (k', v)" by (cases kv)
  have "map_of e k' = None" using Cons.prems by (simp add: kv map_of_eq_None_iff)
  then show ?case using Cons by (auto simp: kv dict_update_def dset_def update_conv split: option.split)
qed (simp add: dict_update_def)

lemma write_result_names_command:
  assumes "write_result rp m rel p command extra = Inr files" and "dict_ok ((''command'', JStr command) # extra)"
  shows "\<exists>meta. machine_meta m ((''command'', JStr command) # extra) = Inr meta \<and> map_of meta ''command'' = Some (JStr command) \<and>
     (\<forall>k v. map_of extra k = Some v \<longrightarrow> map_of meta k = Some v) \<and>
     map_of files (''results/'' @ rel @ ''.meta.json'') = Some (sidecar_text rp meta)"
proof -
  obtain meta where meta: "machine_meta m ((''command'', JStr command) # extra) = Inr meta"
    and files: "files = [(''results/'' @ rel, case p of Text s \<Rightarrow> s | Value v \<Rightarrow> dumps_indent rp 0 v @ nl),
            (''results/'' @ rel @ ''.meta.json'', sidecar_text rp meta)]"
    using assms(1) by (auto simp: write_result_def)
  have "map_of meta k = (case map_of ((''command'', JStr command) # extra) k of Some v \<Rightarrow> Some v | None \<Rightarrow> map_of base k)"
    if "meta = dict_update base ((''command'', JStr command) # extra)" for base k
    using map_of_dict_update [OF assms(2)] that by simp
  moreover obtain base where "meta = dict_update base ((''command'', JStr command) # extra)"
    using meta by (auto simp: machine_meta_def)
  moreover have "''command'' \<notin> fst ` set extra" using assms(2) by simp
  ultimately have "map_of meta ''command'' = Some (JStr command)" "\<And>k v. map_of extra k = Some v \<Longrightarrow> map_of meta k = Some v"
    by (auto dest: map_of_SomeD split: option.split) (force dest: map_of_SomeD)
  then show ?thesis using meta files by auto
qed

lemma unknown_tree_is_clean:
  \<comment> \<open>when git cannot be asked, the tree is recorded as clean\<close>
  assumes "mc_run m [''git'', ''status'', ''--porcelain''] = None" and "machine_meta m [] = Inr meta"
  shows "map_of meta ''git_dirty'' = Some (JBool False)"
  using assms by (auto simp: machine_meta_def dict_update_def sh_def or_else_def)

section \<open>What the reports say\<close>

lemma eval_json_reads:
  assumes "json_back rp (eval_json rn qn nq missing agg per_q)" and "map_of agg n = Some v"
  shows "\<exists>d ms. loads (dumps_indent rp 0 (eval_json rn qn nq missing agg per_q) @ nl) = Inr d \<and> json_key d ''metrics'' = Inr ms \<and>
     json_key ms n = Inr (JFloat (round_to 6 v)) \<and> \<bar>round_to 6 v - v\<bar> \<le> 1 / (2 * 10 ^ 6)"
proof -
  have "json_key (JObj (map (\<lambda>(n, v). (n, JFloat (round_to 6 v))) agg)) n = Inr (JFloat (round_to 6 v))"
    using assms(2) by (simp add: json_key_def dlookup_def map_of_map)
  then show ?thesis
    using loads_dumps_indent [OF assms(1)] round_to_error [of 6 v] by (simp add: eval_json_def json_key_def dlookup_def)
qed

lemma per_query_row:
  \<comment> \<open>every value is a row, and its number reads back within half of the last decimal\<close>
  assumes "(n, vals) \<in> set per_q" and "dict_ok vals" and "(q, v) \<in> set vals"
  shows "\<exists>ls t. per_query_tsv per_q = unlines ls \<and> q @ tab @ n @ tab @ t \<in> set ls \<and>
     float_of t = Inr (round_to 6 v) \<and> \<bar>round_to 6 v - v\<bar> \<le> 1 / (2 * 10 ^ 6)"
proof -
  have v: "dget vals q 0 = v" using assms(2,3) by (simp add: dget_def)
  have "q @ tab @ n @ tab @ fmt_f 6 (dget vals q 0) \<in> set (concat (map (\<lambda>(n, vals). map (\<lambda>q. q @ tab @ n @ tab @ fmt_f 6 (dget vals q 0)) (py_sorted qid_order (keys vals))) per_q))"
    using assms(1,3) by (force simp: sort_simps)
  then show ?thesis
    unfolding per_query_tsv_def v using float_of_fmt_f [of 6 v] round_to_error [of 6 v]
    by (intro exI conjI) (rule refl, auto)
qed

definition shown_phase :: "(json \<Rightarrow> string) \<Rightarrow> string \<Rightarrow> string \<times> phase_summary \<Rightarrow> string" where
  \<comment> \<open>the line a phase should have\<close>
  "shown_phase ps name = (\<lambda>(p, s). ''| '' @ ps (JStr name) @ '' | '' @ p @ '' | '' @ join_with '' | ''
     ([ps (JInt (int (ps_requests s)))] @ map (fmt_f 4) [ps_error_rate s, ps_p50 s, ps_p99 s] @
      [case ps_mrr s of None \<Rightarrow> ps JNull | Some x \<Rightarrow> fmt_f 4 x] @ map (fmt_f 4) [ps_degraded s, ps_partial s, ps_failed s, ps_hedged s]) @ '' |'')"

lemma phase_line_shown: "phase_line ps (JStr name) (p, phase_json s) = Inr (shown_phase ps name (p, s))"
  by (cases "ps_mrr s") (simp_all add: phase_line_def TABLE_COLS_def phase_json_def json_key_def dlookup_def table_cell_def opt_float_def shown_phase_def)

text \<open>C39: the table of chaos experiments shows what the experiment measured.  From a result file whose floats are
  read back, \<open>chaos_table.py\<close> prints one line per phase with the phase's own counts, rates and quality to four
  decimals, and the quality kept under the fault; but when that share is unknown (a phase has no judged query to average over,
  or the quality of the baseline is 0) \<open>chaos.py\<close> has written null, and the table stops with a TypeError.\<close>

theorem chaos_table_shows_phases:
  assumes "chaos_file rp m a picks percentile respond qf qrf = Inr f"
    and "\<And>r. chaos picks percentile respond qf qrf (ca_rate a) (ca_seconds a) = Inr r \<Longrightarrow> json_back rp (chaos_result m a r)"
  shows "\<exists>phases kept. chaos picks percentile respond qf qrf (ca_rate a) (ca_seconds a) = Inr (phases, kept) \<and>
     chaos_lines ps f =
       (case kept of
          None \<Rightarrow> Inl TypeError
        | Some x \<Rightarrow> Inr (map (shown_phase ps (ca_name a)) phases @
            [''| '' @ ps (JStr (ca_name a)) @ '' | **MRR retained under fault** | '' @ fmt_f 3 x @ '' |'' @ concat (replicate 8 '' |'')]))"
proof -
  obtain r where r: "chaos picks percentile respond qf qrf (ca_rate a) (ca_seconds a) = Inr r"
    and f: "f = dumps_indent rp 0 (chaos_result m a r) @ nl" using assms(1) by (auto simp: chaos_file_def)
  have loaded: "loads f = Inr (chaos_result m a r)" unfolding f by (rule loads_dumps_indent) (rule assms(2) [OF r])
  have phases: "res_map (\<lambda>pm. phase_line ps (JStr (ca_name a)) pm) (map (\<lambda>(p, s). (p, phase_json s)) ph) = Inr (map (shown_phase ps (ca_name a)) ph)" for ph
    by (induction ph) (auto simp: phase_line_shown)
  have "length TABLE_COLS - 1 = 8" by (simp add: TABLE_COLS_def)
  then show ?thesis
    using r phases [of "fst r"] loaded
    by (cases r; cases "snd r") (simp_all add: chaos_lines_def chaos_result_def json_key_def dlookup_def json_items_def opt_float_def)
qed

lemma round_to_int: "round_to n (of_int k) = of_int k"
proof -
  have "(of_int k :: real) * 10 ^ n = of_int (k * 10 ^ n)" by simp
  then have "round_half_even ((of_int k :: real) * 10 ^ n) = k * 10 ^ n" by (simp only: round_half_even_of_int)
  then show ?thesis by (simp add: round_to_def)
qed

lemma int_text: "float_text (fmt_f 1) 0" "float_text (fmt_f 1) 1" "float_text (fmt_f 1) 5"
  using float_text_fmt_f [of 1 0] float_text_fmt_f [of 1 1] float_text_fmt_f [of 1 5] round_to_int [of 1 0] round_to_int [of 1 1] round_to_int [of 1 5]
  by simp_all

definition demo_machine :: machine where
  "demo_machine =
     \<lparr>mc_run = (\<lambda>_. None), mc_stdout = (\<lambda>_. None), mc_processor = ''arm'', mc_cores = 4, mc_system = ''Linux'', mc_release = ''6'', mc_mac_ver = [],
      mc_python = ''3'', mc_platform = ''Linux-6'', mc_now = ''2026'', mc_load = (0, 0, 0), mc_darwin = False, mc_arch = ''arm64'',
      mc_cpuinfo = None, mc_versions = []\<rparr>"

definition demo_chaos :: chaos_args where
  "demo_chaos = \<lparr>ca_name = ''kill'', ca_rate = 1, ca_seconds = 1, ca_mode = ''hybrid'', ca_rerank = True, ca_deadline = 300, ca_start = None, ca_stop = None\<rparr>"

definition demo_reply :: "string \<Rightarrow> nat \<Rightarrow> real \<times> reply" where
  "demo_reply p i = (5, Body [7] 0 0 0 0)"

definition demo_phase :: phase_summary where
  "demo_phase = \<lparr>ps_requests = 1, ps_error_rate = 0, ps_p50 = 5, ps_p99 = 5, ps_p999 = 5, ps_degraded = 0, ps_partial = 0, ps_failed = 0,
     ps_hedged = 0, ps_mrr = Some 1\<rparr>"

lemma demo_chaos_files:
  "load_query_pairs (''1'' @ tab @ ''cats'') = Inr [(''1'', ''cats'')]" "load_int_qrels ''1 0 7 1'' = Inr [(''1'', [(7, 1)])]"
  by code_simp+

lemma demo_chaos_run:
  "chaos (\<lambda>_ n. replicate n 0) (\<lambda>_ _. 5) demo_reply (''1'' @ tab @ ''cats'') ''1 0 7 1'' 1 1 = Inr (map (\<lambda>p. (p, demo_phase)) PHASES, Some 1)"
  by (simp add: chaos_def demo_chaos_files PHASES_def run_phase_def one_request_def demo_reply_def summarize_def mrr_at_10_def sample_rr_def
      demo_phase_def mean_def dhas_def dget_def del: append.simps)

theorem chaos_table_shows_phases_witness:
  "\<exists>f ls. chaos_file (fmt_f 1) demo_machine demo_chaos (\<lambda>_ n. replicate n 0) (\<lambda>_ _. 5) demo_reply (''1'' @ tab @ ''cats'') ''1 0 7 1'' = Inr f \<and>
     chaos_lines (\<lambda>_. ''-'') f = Inr ls \<and> length ls = 4"
proof -
  let ?f = "dumps_indent (fmt_f 1) 0 (chaos_result demo_machine demo_chaos (map (\<lambda>p. (p, demo_phase)) PHASES, Some 1)) @ nl"
  have args: "ca_rate demo_chaos = 1" "ca_seconds demo_chaos = 1" "ca_name demo_chaos = ''kill''" by (simp_all add: demo_chaos_def)
  have run: "chaos_file (fmt_f 1) demo_machine demo_chaos (\<lambda>_ n. replicate n 0) (\<lambda>_ _. 5) demo_reply (''1'' @ tab @ ''cats'') ''1 0 7 1'' = Inr ?f"
    unfolding chaos_file_def args demo_chaos_run by simp
  have readable: "json_back (fmt_f 1) (chaos_result demo_machine demo_chaos (map (\<lambda>p. (p, demo_phase)) PHASES, Some 1))"
    using int_text by (simp add: chaos_result_def demo_chaos_def PHASES_def phase_json_def demo_phase_def opt_float_def str_or_null_def)
  have "json_back (fmt_f 1) (chaos_result demo_machine demo_chaos r)"
    if "chaos (\<lambda>_ n. replicate n 0) (\<lambda>_ _. 5) demo_reply (''1'' @ tab @ ''cats'') ''1 0 7 1'' (ca_rate demo_chaos) (ca_seconds demo_chaos) = Inr r" for r
    using that readable unfolding args demo_chaos_run by simp
  from chaos_table_shows_phases [OF run this, of "\<lambda>_. ''-''"] show ?thesis
    using run unfolding args demo_chaos_run by (auto simp: PHASES_def)
qed

end
