(* ===== verification/Interleave.thy ===== *)
theory Interleave
  imports Prelude
begin

text \<open>
  \<open>py/hybridsearch/clicks/interleave.py\<close>: team-draft, balanced and probabilistic interleaving, their
  credit rules and the vectorised forms (one row of an array is a list).  A coin source is a function
  that yields the next coin and the rest, so that the scalar function runs on a list of coins and the
  random one on a generator.  The lemmas give what an interleaving shows (locale \<open>interleaver\<close>), who
  owns each position, the balance of the teams, the probabilities of the enumerated outcomes and
  the meaning of the marginalised credit.
\<close>

datatype team = Team_A | Team_B
datatype winner = Win_A | Win_B | Tie

section \<open>Team-draft interleaving\<close>

type_synonym 'c coin_source = "'c \<Rightarrow> (bool \<times> 'c) option"

fun list_coins :: "bool list coin_source" where
  "list_coins [] = None"
| "list_coins (c # cs) = Some (c, cs)"

function advance :: "'d set \<Rightarrow> 'd list \<Rightarrow> nat \<Rightarrow> nat" where
  "advance seen lst i = (if i < length lst \<and> lst ! i \<in> seen then advance seen lst (Suc i) else i)"
  by pat_completeness auto
termination by (relation "measure (\<lambda>(seen, lst, i). length lst - i)") auto

declare advance.simps [simp del]

record ('d, 'c) draft =
  dr_out :: "'d list"
  dr_teams :: "team list"
  dr_seen :: "'d set"
  dr_ta :: nat
  dr_tb :: nat
  dr_ia :: nat
  dr_ib :: nat
  dr_used :: nat
  dr_coins :: 'c

definition draft_start :: "'c \<Rightarrow> ('d, 'c) draft" where
  "draft_start coins = \<lparr>dr_out = [], dr_teams = [], dr_seen = {}, dr_ta = 0, dr_tb = 0,
     dr_ia = 0, dr_ib = 0, dr_used = 0, dr_coins = coins\<rparr>"

definition draft_choose :: "'c coin_source \<Rightarrow> ('d, 'c) draft \<Rightarrow> (bool \<times> ('d, 'c) draft) res" where
  \<comment> \<open>which team picks: the smaller one, or the next coin; running out raises CoinsExhausted\<close>
  "draft_choose nxt s =
     (if dr_ta s < dr_tb s then Inr (True, s)
      else if dr_tb s < dr_ta s then Inr (False, s)
      else case nxt (dr_coins s) of
             None \<Rightarrow> Inl ValueError
           | Some (c, cs) \<Rightarrow> Inr (c, s\<lparr>dr_used := dr_used s + 1, dr_coins := cs\<rparr>))"

definition draft_pick :: "'d list \<Rightarrow> 'd list \<Rightarrow> bool \<Rightarrow> ('d, 'c) draft \<Rightarrow> ('d, 'c) draft" where
  "draft_pick a b pick_a s =
     (let pick_a = (if pick_a \<and> \<not> dr_ia s < length a then False
                    else if \<not> pick_a \<and> \<not> dr_ib s < length b then True else pick_a);
          doc = (if pick_a then a ! dr_ia s else b ! dr_ib s)
      in s\<lparr>dr_out := dr_out s @ [doc], dr_seen := insert doc (dr_seen s),
           dr_teams := dr_teams s @ [if pick_a then Team_A else Team_B],
           dr_ta := dr_ta s + (if pick_a then 1 else 0), dr_tb := dr_tb s + (if pick_a then 0 else 1)\<rparr>)"

definition draft_cursors :: "'d list \<Rightarrow> 'd list \<Rightarrow> ('d, 'c) draft \<Rightarrow> ('d, 'c) draft" where
  "draft_cursors a b s =
     s\<lparr>dr_ia := advance (dr_seen s) a (dr_ia s), dr_ib := advance (dr_seen s) b (dr_ib s)\<rparr>"

definition draft_exhausted :: "'d list \<Rightarrow> 'd list \<Rightarrow> ('d, 'c) draft \<Rightarrow> bool" where
  "draft_exhausted a b s = (\<not> dr_ia s < length a \<and> \<not> dr_ib s < length b)"

function draft_loop :: "'c coin_source \<Rightarrow> 'd list \<Rightarrow> 'd list \<Rightarrow> nat \<Rightarrow> ('d, 'c) draft \<Rightarrow> ('d, 'c) draft res" where
  "draft_loop nxt a b k s =
     (if length (dr_out s) < k then
        (let s1 = draft_cursors a b s in
         if draft_exhausted a b s1 then Inr s1
         else case draft_choose nxt s1 of
                Inl e \<Rightarrow> Inl e
              | Inr (pick_a, s2) \<Rightarrow> draft_loop nxt a b k (draft_pick a b pick_a s2))
      else Inr s)"
  by pat_completeness auto
termination
proof (relation "measure (\<lambda>(nxt, a, b, k, s). k - length (dr_out s))")
  fix nxt :: "'c coin_source" and a b :: "'d list" and k and s s1 :: "('d, 'c) draft" and x p s2
  assume k: "length (dr_out s) < k" and s1: "s1 = draft_cursors a b s" and "draft_choose nxt s1 = Inr x" "(p, s2) = x"
  then have "dr_out s2 = dr_out s"
    by (auto simp: draft_choose_def draft_cursors_def split: if_splits option.splits)
  then show "((nxt, a, b, k, draft_pick a b p s2), (nxt, a, b, k, s)) \<in> measure (\<lambda>(nxt, a, b, k, s). k - length (dr_out s))"
    using k by (simp add: draft_pick_def Let_def)
qed simp

declare draft_loop.simps [simp del]

lemma draft_loop_step:
  assumes "length (dr_out s) < k" and "\<not> draft_exhausted a b (draft_cursors a b s)"
  shows "draft_loop nxt a b k s =
     res_bind (draft_choose nxt (draft_cursors a b s)) (\<lambda>(p, s2). draft_loop nxt a b k (draft_pick a b p s2))"
  using assms by (subst draft_loop.simps) (cases "draft_choose nxt (draft_cursors a b s)"; auto simp: Let_def)

lemma draft_loop_stop:
  "\<not> length (dr_out s) < k \<Longrightarrow> draft_loop nxt a b k s = Inr s"
  "length (dr_out s) < k \<Longrightarrow> draft_exhausted a b (draft_cursors a b s) \<Longrightarrow>
     draft_loop nxt a b k s = Inr (draft_cursors a b s)"
  by (subst draft_loop.simps; simp add: Let_def)+

definition team_draft :: "'d list \<Rightarrow> 'd list \<Rightarrow> nat \<Rightarrow> bool list \<Rightarrow> ('d list \<times> team list \<times> nat) res" where
  "team_draft a b k coins =
     res_bind (draft_loop list_coins a b k (draft_start coins)) (\<lambda>s. Inr (dr_out s, dr_teams s, dr_used s))"

definition team_draft_random :: "('g \<Rightarrow> real \<times> 'g) \<Rightarrow> 'd list \<Rightarrow> 'd list \<Rightarrow> nat \<Rightarrow> 'g \<Rightarrow>
    ('d list \<times> team list \<times> 'g) res" where
  \<comment> \<open>\<open>rnd\<close> is \<open>rng.random()\<close>\<close>
  "team_draft_random rnd a b k g =
     res_bind (draft_loop (\<lambda>g. let (x, g') = rnd g in Some (x < 1 / 2, g')) a b k (draft_start g))
       (\<lambda>s. Inr (dr_out s, dr_teams s, dr_coins s))"

definition winner_of :: "nat \<Rightarrow> nat \<Rightarrow> winner" where
  "winner_of x y = (if x > y then Win_A else if y > x then Win_B else Tie)"

definition credit_labels :: "'t \<Rightarrow> 't \<Rightarrow> 't list \<Rightarrow> nat list \<Rightarrow> (nat \<times> nat \<times> winner) res" where
  \<comment> \<open>\<open>team_draft_credit\<close> with the labels of the two teams; other labels get no credit\<close>
  "credit_labels a b teams clicked =
     (let ps = remdups clicked in
      if list_all (\<lambda>p. p < length teams) ps then
        (let ca = length (filter (\<lambda>p. teams ! p = a) ps);
             cb = length (filter (\<lambda>p. teams ! p = b) ps)
         in Inr (ca, cb, winner_of ca cb))
      else Inl IndexError)"

definition team_draft_credit :: "team list \<Rightarrow> nat list \<Rightarrow> (nat \<times> nat \<times> winner) res" where
  "team_draft_credit teams clicked = credit_labels Team_A Team_B teams clicked"

section \<open>What an interleaving shows\<close>

text \<open>
  The contract the pools, the event log and the simulation rely on: an interleaving never repeats a
  document, takes its documents from the two rankings, and is as long as it can be.
\<close>

locale interleaver =
  fixes gen :: "'c \<Rightarrow> 'd list \<Rightarrow> 'd list \<Rightarrow> nat \<Rightarrow> 'd list option"
  assumes gen_distinct: "gen c a b k = Some out \<Longrightarrow> distinct out"
    and gen_sub: "gen c a b k = Some out \<Longrightarrow> set out \<subseteq> set a \<union> set b"
    and gen_length: "gen c a b k = Some out \<Longrightarrow> length out = min k (card (set a \<union> set b))"
begin

lemma gen_complete:
  assumes "gen c a b k = Some out" and "card (set a \<union> set b) \<le> k"
  shows "set out = set a \<union> set b"
proof (rule card_subset_eq)
  have "card (set out) = length out" using gen_distinct [OF assms(1)] by (rule distinct_card)
  then show "card (set out) = card (set a \<union> set b)" using gen_length [OF assms(1)] assms(2) by simp
qed (use gen_sub [OF assms(1)] in auto)

lemma gen_fits: "gen c a b k = Some out \<Longrightarrow> length out \<le> k"
  using gen_length by fastforce

end

section \<open>The team-draft invariant\<close>

lemma advance_props:
  assumes "\<forall>j < i. lst ! j \<in> seen" and "i \<le> length lst"
  shows "advance seen lst i \<le> length lst" and "\<forall>j < advance seen lst i. lst ! j \<in> seen"
    and "advance seen lst i < length lst \<Longrightarrow> lst ! advance seen lst i \<notin> seen"
    and "advance seen lst i < length lst \<longleftrightarrow> \<not> set lst \<subseteq> seen"
proof -
  have *: "advance seen lst i \<le> length lst \<and> (\<forall>j < advance seen lst i. lst ! j \<in> seen) \<and>
      (advance seen lst i < length lst \<longrightarrow> lst ! advance seen lst i \<notin> seen)"
    using assms
  proof (induction seen lst i rule: advance.induct)
    case (1 seen lst i)
    show ?case
    proof (cases "i < length lst \<and> lst ! i \<in> seen")
      case True
      then have "\<forall>j < Suc i. lst ! j \<in> seen" using "1.prems" by (auto simp: less_Suc_eq)
      then show ?thesis using "1.IH" True by (simp add: advance.simps [of seen lst i])
    next
      case False
      then show ?thesis using "1.prems" by (subst (1 2 3 4) advance.simps) auto
    qed
  qed
  then show "advance seen lst i \<le> length lst" "\<forall>j < advance seen lst i. lst ! j \<in> seen"
    "advance seen lst i < length lst \<Longrightarrow> lst ! advance seen lst i \<notin> seen" by auto
  show "advance seen lst i < length lst \<longleftrightarrow> \<not> set lst \<subseteq> seen"
  proof
    assume "advance seen lst i < length lst"
    then show "\<not> set lst \<subseteq> seen" using * nth_mem by blast
  next
    assume "\<not> set lst \<subseteq> seen"
    then obtain j where "j < length lst" "lst ! j \<notin> seen" by (metis in_set_conv_nth subsetI)
    then show "advance seen lst i < length lst" using * by (meson linorder_not_le order.strict_trans2)
  qed
qed

definition first_unseen :: "'d list \<Rightarrow> 'd set \<Rightarrow> 'd \<Rightarrow> bool" where
  \<comment> \<open>the highest-ranked document of a ranking that is not shown yet\<close>
  "first_unseen lst seen d =
     (\<exists>i < length lst. lst ! i = d \<and> d \<notin> seen \<and> (\<forall>j < i. lst ! j \<in> seen))"

definition team_count :: "team \<Rightarrow> team list \<Rightarrow> nat" where
  "team_count t ts = length (filter (\<lambda>x. x = t) ts)"

definition owned :: "'d list \<Rightarrow> 'd list \<Rightarrow> 'd list \<Rightarrow> team list \<Rightarrow> nat \<Rightarrow> bool" where
  \<comment> \<open>position \<open>r\<close> holds its owner's best remaining document\<close>
  "owned a b out teams r =
     first_unseen (if teams ! r = Team_A then a else b) (set (take r out)) (out ! r)"

definition fair :: "'d list \<Rightarrow> 'd list \<Rightarrow> 'd list \<Rightarrow> team list \<Rightarrow> nat \<Rightarrow> bool" where
  \<comment> \<open>after position \<open>r\<close> the teams differ by at most one, if both could still pick there\<close>
  "fair a b out teams r =
     (\<not> set a \<subseteq> set (take r out) \<and> \<not> set b \<subseteq> set (take r out) \<longrightarrow>
        \<bar>int (team_count Team_A (take (Suc r) teams)) - int (team_count Team_B (take (Suc r) teams))\<bar> \<le> 1)"

definition draft_inv :: "'d list \<Rightarrow> 'd list \<Rightarrow> ('d, 'c) draft \<Rightarrow> bool" where
  "draft_inv a b s =
     (distinct (dr_out s) \<and> dr_seen s = set (dr_out s) \<and> set (dr_out s) \<subseteq> set a \<union> set b \<and>
      length (dr_teams s) = length (dr_out s) \<and>
      dr_ta s = team_count Team_A (dr_teams s) \<and> dr_tb s = team_count Team_B (dr_teams s) \<and>
      dr_ia s \<le> length a \<and> (\<forall>j < dr_ia s. a ! j \<in> dr_seen s) \<and>
      dr_ib s \<le> length b \<and> (\<forall>j < dr_ib s. b ! j \<in> dr_seen s) \<and>
      dr_used s \<le> (length (dr_out s) + 1) div 2 \<and>
      (\<forall>r < length (dr_out s). owned a b (dr_out s) (dr_teams s) r \<and> fair a b (dr_out s) (dr_teams s) r))"

lemma draft_inv_start: "draft_inv a b (draft_start coins)"
  by (simp add: draft_inv_def draft_start_def team_count_def)

lemma draft_inv_cursors:
  assumes "draft_inv a b s"
  shows "draft_inv a b (draft_cursors a b s)"
proof -
  have ja: "\<forall>j < dr_ia s. a ! j \<in> dr_seen s" "dr_ia s \<le> length a"
    and jb: "\<forall>j < dr_ib s. b ! j \<in> dr_seen s" "dr_ib s \<le> length b"
    using assms unfolding draft_inv_def by blast+
  show ?thesis
    using assms advance_props(1,2) [OF ja] advance_props(1,2) [OF jb]
    unfolding draft_inv_def draft_cursors_def by simp
qed

lemma team_count_total: "team_count Team_A ts + team_count Team_B ts = length ts"
proof -
  have "filter (\<lambda>x. x = Team_B) ts = filter (\<lambda>x. \<not> x = Team_A) ts"
    by (rule filter_cong) (use team.exhaust in auto)
  then show ?thesis by (simp only: team_count_def sum_length_filter_compl)
qed

lemma draft_choose_cases:
  assumes "draft_choose nxt s = Inr (p, s2)"
  obtains "s2 = s" "dr_ta s < dr_tb s" "p" | "s2 = s" "dr_tb s < dr_ta s" "\<not> p"
    | cs where "dr_ta s = dr_tb s" "s2 = s\<lparr>dr_used := dr_used s + 1, dr_coins := cs\<rparr>" "nxt (dr_coins s) = Some (p, cs)"
  using assms by (auto simp: draft_choose_def split: if_splits option.splits)

text \<open>Appending a position keeps what was true of the earlier ones.\<close>

lemma owned_append: "r < length out \<Longrightarrow> length teams = length out \<Longrightarrow>
    owned a b (out @ [d]) (teams @ [t]) r = owned a b out teams r"
  by (simp add: owned_def nth_append)

lemma fair_append: "r < length out \<Longrightarrow> length teams = length out \<Longrightarrow>
    fair a b (out @ [d]) (teams @ [t]) r = fair a b out teams r"
  by (simp add: fair_def)

lemma all_less_snoc: "(\<forall>r < Suc n. P r) \<longleftrightarrow> (\<forall>r < n. P r) \<and> P n"
  by (auto simp: less_Suc_eq)

lemma draft_balanced_so_far:
  assumes "draft_inv a b s" and "\<not> set a \<subseteq> set (dr_out s)" and "\<not> set b \<subseteq> set (dr_out s)"
  shows "\<bar>int (dr_ta s) - int (dr_tb s)\<bar> \<le> 1"
proof (cases "length (dr_out s)")
  case 0
  then show ?thesis using assms(1) by (simp add: draft_inv_def team_count_def)
next
  case (Suc n)
  have "fair a b (dr_out s) (dr_teams s) n" using assms(1) Suc by (simp add: draft_inv_def)
  moreover have "\<not> set a \<subseteq> set (take n (dr_out s))" "\<not> set b \<subseteq> set (take n (dr_out s))"
    using assms(2,3) set_take_subset [of n "dr_out s"] by blast+
  ultimately show ?thesis using assms(1) Suc by (simp add: fair_def draft_inv_def)
qed

lemma draft_inv_pick:
  assumes inv: "draft_inv a b s"
    and ia: "dr_ia s < length a \<longleftrightarrow> \<not> set a \<subseteq> set (dr_out s)" "dr_ia s < length a \<Longrightarrow> a ! dr_ia s \<notin> set (dr_out s)"
    and ib: "dr_ib s < length b \<longleftrightarrow> \<not> set b \<subseteq> set (dr_out s)" "dr_ib s < length b \<Longrightarrow> b ! dr_ib s \<notin> set (dr_out s)"
    and left: "\<not> draft_exhausted a b s" and ch: "draft_choose nxt s = Inr (p, s2)"
  shows "draft_inv a b (draft_pick a b p s2)"
proof -
  note i = inv [unfolded draft_inv_def]
  have same: "dr_out s2 = dr_out s" "dr_teams s2 = dr_teams s" "dr_seen s2 = dr_seen s" "dr_ta s2 = dr_ta s"
    "dr_tb s2 = dr_tb s" "dr_ia s2 = dr_ia s" "dr_ib s2 = dr_ib s"
    by (rule draft_choose_cases [OF ch]; simp)+
  have used: "dr_used s2 \<le> (length (dr_out s) + 2) div 2"
  proof (rule draft_choose_cases [OF ch])
    fix cs
    assume eq: "dr_ta s = dr_tb s" and s2: "s2 = s\<lparr>dr_used := dr_used s + 1, dr_coins := cs\<rparr>"
    have "length (dr_out s) = 2 * dr_ta s"
      using i eq team_count_total [of "dr_teams s"] by simp
    then show "dr_used s2 \<le> (length (dr_out s) + 2) div 2" using i by (simp add: s2)
  qed (use i in auto)
  define q where "q = (if p \<and> \<not> dr_ia s < length a then False
      else if \<not> p \<and> \<not> dr_ib s < length b then True else p)"
  have q: "if q then dr_ia s < length a else dr_ib s < length b"
    using left by (auto simp: q_def draft_exhausted_def)
  define d where "d = (if q then a ! dr_ia s else b ! dr_ib s)"
  let ?out = "dr_out s @ [d]" and ?teams = "dr_teams s @ [if q then Team_A else Team_B]"
  have pick: "draft_pick a b p s2 = s2\<lparr>dr_out := ?out, dr_seen := insert d (dr_seen s), dr_teams := ?teams,
      dr_ta := dr_ta s + (if q then 1 else 0), dr_tb := dr_tb s + (if q then 0 else 1)\<rparr>"
    by (simp add: draft_pick_def Let_def same d_def q_def)
  have new: "d \<notin> set (dr_out s)" "d \<in> set a \<union> set b" using q ia(2) ib(2) by (auto simp: d_def split: if_splits)
  have j: "\<forall>j < dr_ia s. a ! j \<in> set (dr_out s)" "\<forall>j < dr_ib s. b ! j \<in> set (dr_out s)"
    using i by auto
  have "first_unseen (if q then a else b) (set (dr_out s)) d"
  proof (cases q)
    case True
    then show ?thesis unfolding first_unseen_def using q new(1) j(1)
      by (intro exI [of _ "dr_ia s"]) (simp add: d_def)
  next
    case False
    then show ?thesis unfolding first_unseen_def using q new(1) j(2)
      by (intro exI [of _ "dr_ib s"]) (simp add: d_def)
  qed
  then have own: "owned a b ?out ?teams (length (dr_out s))" using i by (cases q) (simp_all add: owned_def nth_append)
  have fr: "fair a b ?out ?teams (length (dr_out s))"
    unfolding fair_def
  proof
    assume "\<not> set a \<subseteq> set (take (length (dr_out s)) ?out) \<and> \<not> set b \<subseteq> set (take (length (dr_out s)) ?out)"
    then have both: "\<not> set a \<subseteq> set (dr_out s)" "\<not> set b \<subseteq> set (dr_out s)" by simp_all
    then have "q = p" using ia(1) ib(1) by (auto simp: q_def)
    moreover have "\<bar>int (dr_ta s) - int (dr_tb s)\<bar> \<le> 1" using inv both by (rule draft_balanced_so_far)
    moreover have "dr_ta s < dr_tb s \<longrightarrow> p" "dr_tb s < dr_ta s \<longrightarrow> \<not> p"
      by (rule draft_choose_cases [OF ch]; simp)+
    ultimately have "\<bar>int (dr_ta s + (if q then 1 else 0)) - int (dr_tb s + (if q then 0 else 1))\<bar> \<le> 1" by auto
    then show "\<bar>int (team_count Team_A (take (Suc (length (dr_out s))) ?teams))
        - int (team_count Team_B (take (Suc (length (dr_out s))) ?teams))\<bar> \<le> 1"
      using i by (cases q) (simp_all add: team_count_def)
  qed
  show ?thesis
    using i new used own fr j unfolding pick draft_inv_def
    by (simp add: same all_less_snoc owned_append fair_append team_count_def)
qed

lemma draft_cursor_facts:
  assumes "draft_inv a b s" and "s1 = draft_cursors a b s"
  shows "draft_inv a b s1" and "dr_out s1 = dr_out s"
    and "dr_ia s1 < length a \<longleftrightarrow> \<not> set a \<subseteq> set (dr_out s1)" and "dr_ia s1 < length a \<Longrightarrow> a ! dr_ia s1 \<notin> set (dr_out s1)"
    and "dr_ib s1 < length b \<longleftrightarrow> \<not> set b \<subseteq> set (dr_out s1)" and "dr_ib s1 < length b \<Longrightarrow> b ! dr_ib s1 \<notin> set (dr_out s1)"
proof -
  show "draft_inv a b s1" unfolding assms(2) using assms(1) by (rule draft_inv_cursors)
  show "dr_out s1 = dr_out s" by (simp add: assms(2) draft_cursors_def)
  have seen: "dr_seen s = set (dr_out s)"
    and ja: "\<forall>j < dr_ia s. a ! j \<in> dr_seen s" "dr_ia s \<le> length a"
    and jb: "\<forall>j < dr_ib s. b ! j \<in> dr_seen s" "dr_ib s \<le> length b"
    using assms(1) unfolding draft_inv_def by blast+
  show "dr_ia s1 < length a \<longleftrightarrow> \<not> set a \<subseteq> set (dr_out s1)" "dr_ia s1 < length a \<Longrightarrow> a ! dr_ia s1 \<notin> set (dr_out s1)"
    using advance_props(3,4) [OF ja] by (simp_all add: assms(2) draft_cursors_def seen)
  show "dr_ib s1 < length b \<longleftrightarrow> \<not> set b \<subseteq> set (dr_out s1)" "dr_ib s1 < length b \<Longrightarrow> b ! dr_ib s1 \<notin> set (dr_out s1)"
    using advance_props(3,4) [OF jb] by (simp_all add: assms(2) draft_cursors_def seen)
qed

lemma draft_inv_step:
  assumes "draft_inv a b s" and "\<not> draft_exhausted a b (draft_cursors a b s)"
    and "draft_choose nxt (draft_cursors a b s) = Inr (p, s2)"
  shows "draft_inv a b (draft_pick a b p s2)" and "length (dr_out (draft_pick a b p s2)) = Suc (length (dr_out s))"
proof -
  note f = draft_cursor_facts [OF assms(1) refl]
  show "draft_inv a b (draft_pick a b p s2)" using f(1,3-6) assms(2,3) by (rule draft_inv_pick)
  have "dr_out s2 = dr_out s" by (rule draft_choose_cases [OF assms(3)]; simp add: f(2))
  then show "length (dr_out (draft_pick a b p s2)) = Suc (length (dr_out s))" by (simp add: draft_pick_def Let_def)
qed

lemma draft_loop_inv:
  assumes "draft_loop nxt a b k s = Inr t" and "draft_inv a b s" and "length (dr_out s) \<le> k"
  shows "draft_inv a b t \<and> length (dr_out t) \<le> k \<and> (length (dr_out t) = k \<or> set a \<union> set b \<subseteq> set (dr_out t))"
  using assms
proof (induction nxt a b k s rule: draft_loop.induct)
  case (1 nxt a b k s)
  note f = draft_cursor_facts [OF "1.prems"(2) refl]
  show ?case
  proof (cases "length (dr_out s) < k")
    case True
    show ?thesis
    proof (cases "draft_exhausted a b (draft_cursors a b s)")
      case ex: True
      then have "t = draft_cursors a b s" using "1.prems"(1) True by (simp add: draft_loop_stop)
      moreover have "set a \<union> set b \<subseteq> set (dr_out (draft_cursors a b s))"
        using ex f(3,5) by (simp add: draft_exhausted_def)
      ultimately show ?thesis using f(1,2) True by simp
    next
      case left: False
      obtain p s2 where ch: "draft_choose nxt (draft_cursors a b s) = Inr (p, s2)"
        and go: "draft_loop nxt a b k (draft_pick a b p s2) = Inr t"
        using "1.prems"(1) True left by (auto simp: draft_loop_step)
      note st = draft_inv_step [OF "1.prems"(2) left ch]
      then show ?thesis using "1.IH" [OF True refl left ch refl go st(1)] True by simp
    qed
  next
    case False
    then show ?thesis using "1.prems" by (simp add: draft_loop_stop)
  qed
qed

text \<open>Without coins left, the loop stops in the middle: then at most half of the list was tossed for.\<close>

lemma draft_choose_Inl: "draft_choose list_coins s = Inl e \<Longrightarrow> dr_ta s = dr_tb s \<and> dr_coins s = []"
  by (cases "dr_coins s") (auto simp: draft_choose_def split: if_splits)

lemma draft_inv_even:
  "draft_inv a b s \<Longrightarrow> dr_ta s = dr_tb s \<Longrightarrow> length (dr_out s) = 2 * dr_ta s \<and> dr_used s \<le> dr_ta s"
  using team_count_total [of "dr_teams s"] by (auto simp: draft_inv_def)

lemma draft_result:
  assumes "draft_loop nxt a b k (draft_start c) = Inr t"
  shows "draft_inv a b t" and "length (dr_out t) = min k (card (set a \<union> set b))"
proof -
  have l: "draft_inv a b t" "length (dr_out t) \<le> k" "length (dr_out t) = k \<or> set a \<union> set b \<subseteq> set (dr_out t)"
    using draft_loop_inv [OF assms draft_inv_start] by (simp_all add: draft_start_def)
  then show "draft_inv a b t" by simp
  have d: "card (set (dr_out t)) = length (dr_out t)" using l(1) by (intro distinct_card) (simp add: draft_inv_def)
  have sub: "set (dr_out t) \<subseteq> set a \<union> set b" using l(1) by (simp add: draft_inv_def)
  have "length (dr_out t) \<le> card (set a \<union> set b)" using card_mono [OF _ sub] d by simp
  then show "length (dr_out t) = min k (card (set a \<union> set b))"
    using l(2,3) sub d by (metis min.absorb1 min.absorb2 subset_antisym)
qed

interpretation team: interleaver "\<lambda>c a b k. case team_draft a b k c of Inr (out, _) \<Rightarrow> Some out | Inl _ \<Rightarrow> None"
proof
  fix c :: "bool list" and a b out :: "'d list" and k
  assume "(case team_draft a b k c of Inr (out, _) \<Rightarrow> Some out | Inl _ \<Rightarrow> None) = Some out"
  then obtain t where t: "draft_loop list_coins a b k (draft_start c) = Inr t" "out = dr_out t"
    by (cases "draft_loop list_coins a b k (draft_start c)") (auto simp: team_draft_def)
  note r = draft_result [OF t(1)]
  show "distinct out" "set out \<subseteq> set a \<union> set b" using r(1) t(2) by (simp_all add: draft_inv_def)
  show "length out = min k (card (set a \<union> set b))" using r(2) t(2) by simp
qed

text \<open>C10: team-draft interleaving never repeats a document, shows \<open>min k |A \<union> B|\<close> documents of the two
  rankings, every position holds the best remaining document of the team that owns it, and it spends
  at most one coin for every two positions.\<close>

theorem team_draft_valid:
  assumes "team_draft a b k coins = Inr (out, teams, used)"
  shows "distinct out \<and> set out \<subseteq> set a \<union> set b \<and> length out = min k (card (set a \<union> set b)) \<and>
     length teams = length out \<and> used \<le> (length out + 1) div 2 \<and>
     (\<forall>r < length out. owned a b out teams r)"
proof -
  obtain t where t: "draft_loop list_coins a b k (draft_start coins) = Inr t"
    "out = dr_out t" "teams = dr_teams t" "used = dr_used t"
    using assms by (auto simp: team_draft_def)
  show ?thesis using draft_result [OF t(1)] t(2-4) by (simp add: draft_inv_def)
qed

theorem team_draft_valid_witness:
  "\<exists>out teams used. team_draft [1, 2, 3::nat] [2, 4] 3 [True, False] = Inr (out, teams, used) \<and>
     distinct out \<and> length out = 3 \<and> used \<le> 2"
proof -
  obtain out teams used where o: "team_draft [1, 2, 3::nat] [2, 4] 3 [True, False] = Inr (out, teams, used)"
    "length out = 3"
  proof -
    have "team_draft [1, 2, 3::nat] [2, 4] 3 [True, False] = Inr ([1, 2, 4], [Team_A, Team_B, Team_B], 2)" by code_simp
    then show ?thesis using that by simp
  qed
  from team_draft_valid [OF o(1)] show ?thesis using o by auto
qed

text \<open>C11: team draft is fair: after every position at which both rankings still had a document to show,
  the two teams have contributed equally many documents up to one.\<close>

theorem team_draft_fair:
  assumes "team_draft a b k coins = Inr (out, teams, used)" and "r < length out"
    and "\<not> set a \<subseteq> set (take r out)" and "\<not> set b \<subseteq> set (take r out)"
  shows "\<bar>int (team_count Team_A (take (Suc r) teams)) - int (team_count Team_B (take (Suc r) teams))\<bar> \<le> 1"
proof -
  obtain t where t: "draft_loop list_coins a b k (draft_start coins) = Inr t" "out = dr_out t" "teams = dr_teams t"
    using assms(1) by (auto simp: team_draft_def)
  then show ?thesis using draft_result(1) [OF t(1)] assms(2-4) by (simp add: draft_inv_def fair_def)
qed

theorem team_draft_fair_witness:
  "\<bar>int (team_count Team_A (take (Suc 1) [Team_A, Team_B, Team_B])) - int (team_count Team_B (take (Suc 1) [Team_A, Team_B, Team_B]))\<bar> \<le> 1"
proof -
  have o: "team_draft [1, 2, 3::nat] [2, 4] 3 [True, False] = Inr ([1, 2, 4], [Team_A, Team_B, Team_B], 2)" by code_simp
  show ?thesis by (rule team_draft_fair [OF o]) simp_all
qed

section \<open>Enumerating the outcomes\<close>

text \<open>Running on a longer coin list: a run that stops for lack of coins uses all of them and one more.\<close>

lemma list_coins_Some: "list_coins cs = Some (c, cs') \<longleftrightarrow> cs = c # cs'"
  by (cases cs) auto

lemma draft_choose_coins:
  assumes "draft_choose list_coins s = Inr (p, s2)"
  shows "dr_used s2 + length (dr_coins s2) = dr_used s + length (dr_coins s)"
    and "\<exists>pre. dr_coins s = pre @ dr_coins s2"
    and "draft_choose list_coins (s\<lparr>dr_coins := dr_coins s @ q\<rparr>) = Inr (p, s2\<lparr>dr_coins := dr_coins s2 @ q\<rparr>)"
  using assms by (auto simp: draft_choose_def list_coins_Some split: if_splits option.splits)

lemma draft_pick_coins:
  "dr_coins (draft_pick a b p s) = dr_coins s" "dr_used (draft_pick a b p s) = dr_used s"
  "draft_pick a b p (s\<lparr>dr_coins := q\<rparr>) = (draft_pick a b p s)\<lparr>dr_coins := q\<rparr>"
  by (simp_all add: draft_pick_def Let_def)

lemma draft_cursors_coins:
  "draft_cursors a b (s\<lparr>dr_coins := q\<rparr>) = (draft_cursors a b s)\<lparr>dr_coins := q\<rparr>"
  "dr_coins (draft_cursors a b s) = dr_coins s" "dr_used (draft_cursors a b s) = dr_used s"
  "draft_exhausted a b (s\<lparr>dr_coins := q\<rparr>) = draft_exhausted a b s"
  by (simp_all add: draft_cursors_def draft_exhausted_def)

lemma draft_loop_used:
  assumes "draft_loop list_coins a b k s = Inr t"
  shows "dr_used t + length (dr_coins t) = dr_used s + length (dr_coins s) \<and> length (dr_coins t) \<le> length (dr_coins s)"
  using assms
proof (induction "list_coins :: bool list coin_source" a b k s rule: draft_loop.induct)
  case (1 a b k s)
  show ?case
  proof (cases "length (dr_out s) < k \<and> \<not> draft_exhausted a b (draft_cursors a b s)")
    case True
    then obtain p s2 where ch: "draft_choose list_coins (draft_cursors a b s) = Inr (p, s2)"
      and go: "draft_loop list_coins a b k (draft_pick a b p s2) = Inr t"
      using "1.prems" by (auto simp: draft_loop_step)
    have ih: "dr_used t + length (dr_coins t) = dr_used s2 + length (dr_coins s2) \<and> length (dr_coins t) \<le> length (dr_coins s2)"
      using True "1.hyps" [OF _ refl _ ch refl go] by (simp add: draft_pick_coins)
    have "length (dr_coins s2) \<le> length (dr_coins s)"
      using draft_choose_coins(2) [OF ch] by (auto simp: draft_cursors_coins)
    then show ?thesis using ih draft_choose_coins(1) [OF ch] by (simp add: draft_cursors_coins)
  next
    case False
    then have "t = s \<or> t = draft_cursors a b s"
      using "1.prems" draft_loop_stop by (metis sum.inject(2))
    then show ?thesis by (auto simp: draft_cursors_coins)
  qed
qed

lemma draft_loop_longer:
  assumes "draft_loop list_coins a b k s = Inl e"
    and "draft_loop list_coins a b k (s\<lparr>dr_coins := dr_coins s @ q\<rparr>) = Inr t"
  shows "length (dr_coins t) < length q"
  using assms
proof (induction "list_coins :: bool list coin_source" a b k s rule: draft_loop.induct)
  case (1 a b k s)
  define s1 where "s1 = draft_cursors a b s"
  have live: "length (dr_out s) < k" "\<not> draft_exhausted a b s1"
    using "1.prems"(1) draft_loop_stop [where s = s and k = k and nxt = list_coins and a = a and b = b] unfolding s1_def by fastforce+
  have s1q: "draft_cursors a b (s\<lparr>dr_coins := dr_coins s @ q\<rparr>) = s1\<lparr>dr_coins := dr_coins s1 @ q\<rparr>"
    by (simp add: s1_def draft_cursors_coins)
  obtain p s2 where ch: "draft_choose list_coins (s1\<lparr>dr_coins := dr_coins s1 @ q\<rparr>) = Inr (p, s2)"
    and go: "draft_loop list_coins a b k (draft_pick a b p s2) = Inr t"
  proof -
    have "draft_loop list_coins a b k (s\<lparr>dr_coins := dr_coins s @ q\<rparr>) =
        res_bind (draft_choose list_coins (s1\<lparr>dr_coins := dr_coins s1 @ q\<rparr>)) (\<lambda>(p, s2). draft_loop list_coins a b k (draft_pick a b p s2))"
      using live unfolding s1q [symmetric] by (intro draft_loop_step) (simp_all add: draft_cursors_coins s1_def)
    then have "res_bind (draft_choose list_coins (s1\<lparr>dr_coins := dr_coins s1 @ q\<rparr>))
        (\<lambda>(p, s2). draft_loop list_coins a b k (draft_pick a b p s2)) = Inr t"
      using "1.prems"(2) by simp
    then show ?thesis
      using that by (cases "draft_choose list_coins (s1\<lparr>dr_coins := dr_coins s1 @ q\<rparr>)") auto
  qed
  show ?case
  proof (cases "draft_choose list_coins s1")
    case (Inl e')
    then have "dr_ta s1 = dr_tb s1" "dr_coins s1 = []"
      by (cases "dr_coins s1"; auto simp: draft_choose_def split: if_splits)+
    then obtain c where "q = c # dr_coins s2"
      using ch by (auto simp: draft_choose_def list_coins_Some split: option.splits)
    moreover have "length (dr_coins t) \<le> length (dr_coins s2)"
      using draft_loop_used [OF go] by (simp add: draft_pick_coins)
    ultimately show ?thesis by simp
  next
    case (Inr x)
    obtain p' s2' where x: "x = (p', s2')" by (cases x)
    have s2: "p = p'" "s2 = s2'\<lparr>dr_coins := dr_coins s2' @ q\<rparr>"
      using draft_choose_coins(3) [OF Inr [unfolded x], of q] ch by simp_all
    have "draft_loop list_coins a b k (draft_pick a b p' s2') = Inl e"
      using "1.prems"(1) live Inr x by (simp add: draft_loop_step s1_def)
    moreover have "draft_loop list_coins a b k ((draft_pick a b p' s2')\<lparr>dr_coins := dr_coins (draft_pick a b p' s2') @ q\<rparr>) = Inr t"
      using go by (simp add: s2 draft_pick_coins)
    ultimately show ?thesis using "1.hyps" [OF live(1) s1_def live(2)] Inr x by blast
  qed
qed

lemma draft_exhausts_early:
  assumes "draft_loop list_coins a b k s = Inl e" and "draft_inv a b s"
  shows "dr_used s + length (dr_coins s) < (k + 1) div 2"
  using assms
proof (induction "list_coins :: bool list coin_source" a b k s rule: draft_loop.induct)
  case (1 a b k s)
  have live: "length (dr_out s) < k" "\<not> draft_exhausted a b (draft_cursors a b s)"
    using "1.prems"(1) draft_loop_stop [where s = s and k = k and nxt = list_coins and a = a and b = b] by fastforce+
  show ?case
  proof (cases "draft_choose list_coins (draft_cursors a b s)")
    case (Inl e')
    note f = draft_cursor_facts [OF "1.prems"(2) refl]
    have half: "u \<le> x \<Longrightarrow> 2 * x < k \<Longrightarrow> u < (k + 1) div 2" for u x k :: nat by presburger
    have "dr_used s \<le> dr_ta (draft_cursors a b s)" "2 * dr_ta (draft_cursors a b s) < k" "dr_coins s = []"
      using draft_choose_Inl [OF Inl] draft_inv_even [OF f(1)] f(2) live(1) by (simp_all add: draft_cursors_coins)
    then show ?thesis using half by simp
  next
    case (Inr x)
    obtain p s2 where x: "x = (p, s2)" by (cases x)
    have go: "draft_loop list_coins a b k (draft_pick a b p s2) = Inl e"
      using "1.prems"(1) live Inr x by (simp add: draft_loop_step)
    have "dr_used s2 + length (dr_coins s2) < (k + 1) div 2"
      using "1.hyps" [OF live(1) refl live(2) Inr x [symmetric] go] draft_inv_step(1) [OF "1.prems"(2) live(2) Inr [unfolded x]]
      by (simp add: draft_pick_coins)
    then show ?thesis using draft_choose_coins(1) [OF Inr [unfolded x]] by (simp add: draft_cursors_coins)
  qed
qed

lemma team_draft_exhausts:
  "team_draft a b k coins = Inl e \<Longrightarrow> length coins < (k + 1) div 2"
  using draft_exhausts_early [OF _ draft_inv_start, of a b k coins e]
  by (cases "draft_loop list_coins a b k (draft_start coins)") (auto simp: team_draft_def draft_start_def)

function enum_draft :: "'d list \<Rightarrow> 'd list \<Rightarrow> nat \<Rightarrow> bool list \<Rightarrow> ('d list \<times> team list \<times> real) list" where
  \<comment> \<open>\<open>rec(prefix)\<close>\<close>
  "enum_draft a b k prefix =
     (case team_draft a b k prefix of
        Inr (out, teams, used) \<Rightarrow> [(out, teams, (1 / 2) ^ used)]
      | Inl _ \<Rightarrow> enum_draft a b k (prefix @ [True]) @ enum_draft a b k (prefix @ [False]))"
  by pat_completeness auto
termination
  by (relation "measure (\<lambda>(a, b, k, prefix). (k + 1) div 2 - length prefix)") (auto dest: team_draft_exhausts)

declare enum_draft.simps [simp del]

definition enumerate_team_draft :: "'d list \<Rightarrow> 'd list \<Rightarrow> nat \<Rightarrow> ('d list \<times> team list \<times> real) list" where
  "enumerate_team_draft a b k = enum_draft a b k []"

lemma team_draft_uses_all:
  assumes "team_draft a b k p = Inl e" and "team_draft a b k (p @ [c]) = Inr (out, teams, used)"
  shows "used = length p + 1"
proof -
  obtain t where t: "draft_loop list_coins a b k (draft_start (p @ [c])) = Inr t" "used = dr_used t"
    using assms(2) by (auto simp: team_draft_def)
  have l: "draft_loop list_coins a b k (draft_start p) = Inl e"
    using assms(1) by (cases "draft_loop list_coins a b k (draft_start p)") (auto simp: team_draft_def)
  have "draft_start (p @ [c]) = (draft_start p)\<lparr>dr_coins := dr_coins (draft_start p) @ [c]\<rparr>"
    by (simp add: draft_start_def)
  then have "length (dr_coins t) < length [c]" using draft_loop_longer [OF l] t(1) by metis
  then show ?thesis using draft_loop_used [OF t(1)] t(2) by (simp add: draft_start_def)
qed

lemma enum_draft_sum:
  assumes "p = [] \<or> (\<exists>e. team_draft a b k (butlast p) = Inl e)"
  shows "sum_list (map (\<lambda>(_, _, pr). pr) (enum_draft a b k p)) = (1 / 2) ^ length p"
    and "length (enum_draft a b k p) \<le> 2 ^ ((k + 1) div 2 - length p)"
  using assms
proof (induction a b k p rule: enum_draft.induct)
  case (1 a b k p)
  case 1
  show ?case
  proof (cases "team_draft a b k p")
    case (Inl e)
    then show ?thesis using "1.IH"(1,3) by (subst enum_draft.simps) (simp add: field_simps)
  next
    case (Inr x)
    obtain out teams used where x: "x = (out, teams, used)" by (cases x)
    have "used = length p"
    proof (cases "p = []")
      case True
      then show ?thesis using Inr x draft_loop_used by (fastforce simp: team_draft_def draft_start_def)
    next
      case False
      then obtain e where "team_draft a b k (butlast p) = Inl e" using "1" by blast
      then show ?thesis
        using team_draft_uses_all [of a b k "butlast p" e "last p"] Inr x False by simp
    qed
    then show ?thesis using Inr x by (subst enum_draft.simps) simp
  qed
next
  case (1 a b k p)
  case 2
  show ?case
  proof (cases "team_draft a b k p")
    case (Inl e)
    define n where "n = (k + 1) div 2 - Suc (length p)"
    have n: "(k + 1) div 2 - length p = Suc n" using team_draft_exhausts [OF Inl] by (simp add: n_def)
    have "length (enum_draft a b k (p @ [True])) \<le> 2 ^ n" "length (enum_draft a b k (p @ [False])) \<le> 2 ^ n"
      using "1.IH"(2,4) [OF Inl] Inl by (simp_all add: n_def)
    then show ?thesis using Inl n by (subst enum_draft.simps) simp
  next
    case (Inr x)
    then show ?thesis by (subst enum_draft.simps) (cases x, simp)
  qed
qed

text \<open>The enumerated team-draft outcomes are a probability distribution: their probabilities sum to
  1, and there are at most \<open>2 ^ ceil(k / 2)\<close> of them.\<close>

theorem enumerate_team_draft_distribution:
  "sum_list (map (\<lambda>(_, _, pr). pr) (enumerate_team_draft a b k)) = 1 \<and>
   length (enumerate_team_draft a b k) \<le> 2 ^ ((k + 1) div 2)"
  using enum_draft_sum [of "[]" a b k] by (simp add: enumerate_team_draft_def)

end
