(* ===== verification/Interleave_Credit.thy ===== *)
theory Interleave_Credit
  imports Interleave
begin

text \<open>
  The rest of \<open>py/hybridsearch/clicks/interleave.py\<close>: balanced and probabilistic interleaving, the
  vectorised outcomes (one row of the array each) and the precomputed pools.  The generator is an
  argument: \<open>rnd\<close> is \<open>rng.random()\<close>, \<open>choice g p\<close> is \<open>rng.choice(len(p), p=p)\<close>.  The lemmas: the prefix
  property of balanced interleaving, batch credit against scalar credit, and that the convolution of
  the marginalised credit computes the expected outcome over all team assignments.
\<close>

section \<open>Balanced interleaving\<close>

record 'd balance =
  ba_out :: "'d list"
  ba_seen :: "'d set"
  ba_ka :: nat
  ba_kb :: nat

definition balanced_take_a :: "'d list \<Rightarrow> 'd list \<Rightarrow> bool \<Rightarrow> 'd balance \<Rightarrow> bool" where
  "balanced_take_a a b a_first s =
     (if ba_ka s < length a \<and> ba_kb s < length b
      then ba_ka s < ba_kb s \<or> (ba_ka s = ba_kb s \<and> a_first)
      else ba_ka s < length a)"

definition balanced_step :: "'d list \<Rightarrow> 'd list \<Rightarrow> bool \<Rightarrow> 'd balance \<Rightarrow> 'd balance" where
  "balanced_step a b a_first s =
     (let t = balanced_take_a a b a_first s;
          d = (if t then a ! ba_ka s else b ! ba_kb s);
          s1 = (if t then s\<lparr>ba_ka := ba_ka s + 1\<rparr> else s\<lparr>ba_kb := ba_kb s + 1\<rparr>)
      in if d \<in> ba_seen s then s1
         else s1\<lparr>ba_out := ba_out s1 @ [d], ba_seen := insert d (ba_seen s1)\<rparr>)"

function balanced_loop :: "'d list \<Rightarrow> 'd list \<Rightarrow> nat \<Rightarrow> bool \<Rightarrow> 'd balance \<Rightarrow> 'd balance" where
  "balanced_loop a b k a_first s =
     (if length (ba_out s) < k \<and> (ba_ka s < length a \<or> ba_kb s < length b)
      then balanced_loop a b k a_first (balanced_step a b a_first s) else s)"
  by pat_completeness auto
termination
  by (relation "measure (\<lambda>(a, b, k, f, s). (length a - ba_ka s) + (length b - ba_kb s))")
     (auto simp: balanced_step_def balanced_take_a_def Let_def)

declare balanced_loop.simps [simp del]

definition balanced_start :: "'d balance" where
  "balanced_start = \<lparr>ba_out = [], ba_seen = {}, ba_ka = 0, ba_kb = 0\<rparr>"

definition balanced :: "'d list \<Rightarrow> 'd list \<Rightarrow> nat \<Rightarrow> bool \<Rightarrow> 'd list" where
  "balanced a b k a_first = ba_out (balanced_loop a b k a_first balanced_start)"

definition rank_dict :: "'d list \<Rightarrow> ('d, nat) dict" where
  \<comment> \<open>\<open>{d: i + 1 for i, d in enumerate(a)}\<close>\<close>
  "rank_dict a = dict_of (zip a [1..<length a + 1])"

definition balanced_credit :: "'d list \<Rightarrow> 'd list \<Rightarrow> 'd list \<Rightarrow> nat list \<Rightarrow> (nat \<times> nat \<times> winner) res" where
  "balanced_credit a b interleaved clicked_positions =
     (let clicked = sort (remdups clicked_positions) in
      if clicked = [] then Inr (0, 0, Tie)
      else if \<not> last clicked < length interleaved then Inl IndexError
      else
        (let ra = rank_dict a; rb = rank_dict b; inf = 10 ^ 9;
             lst = interleaved ! last clicked;
             kk = min (dget ra lst inf) (dget rb lst inf);
             docs = map (\<lambda>p. interleaved ! p) clicked;
             ha = length (filter (\<lambda>d. dget ra d inf \<le> kk) docs);
             hb = length (filter (\<lambda>d. dget rb d inf \<le> kk) docs)
         in Inr (ha, hb, winner_of ha hb)))"

section \<open>Probabilistic interleaving\<close>

definition softmax_rank_weights :: "nat \<Rightarrow> real \<Rightarrow> real list" where
  "softmax_rank_weights n tau = map (\<lambda>i. 1 / (real i powr tau)) [1..<n + 1]"

definition dpop :: "('k, 'v) dict \<Rightarrow> 'k \<Rightarrow> ('k, 'v) dict" where
  \<comment> \<open>\<open>d.pop(k, None)\<close>\<close>
  "dpop d k = filter (\<lambda>(x, _). x \<noteq> k) d"

record ('d, 'g) psample =
  ps_rem_a :: "('d, real) dict"
  ps_rem_b :: "('d, real) dict"
  ps_out :: "'d list"
  ps_teams :: "team list"
  ps_pa :: "real list"
  ps_rng :: 'g

definition psample_step :: "('g \<Rightarrow> real \<times> 'g) \<Rightarrow> ('g \<Rightarrow> real list \<Rightarrow> nat \<times> 'g) \<Rightarrow> ('d, 'g) psample \<Rightarrow> ('d, 'g) psample res" where
  "psample_step rnd choice s =
     (let sa = sum_list (map snd (ps_rem_a s)); sb = sum_list (map snd (ps_rem_b s));
          (x, g1) = rnd (ps_rng s);
          pick_a = x < 1 / 2;
          pick_a = (if pick_a \<and> ps_rem_a s = [] then False else pick_a);
          pick_a = (if \<not> pick_a \<and> ps_rem_b s = [] then True else pick_a);
          src = (if pick_a then ps_rem_a s else ps_rem_b s);
          w = map snd src;
          (i, g2) = choice g1 (map (\<lambda>x. x / sum_list w) w)
      in if \<not> i < length src then Inl IndexError
         else
           (let d = fst (src ! i);
                la = (if sa > 0 then dget (ps_rem_a s) d 0 / sa else 0);
                lb = (if sb > 0 then dget (ps_rem_b s) d 0 / sb else 0)
            in Inr (s\<lparr>ps_pa := ps_pa s @ [la / (la + lb)], ps_out := ps_out s @ [d],
                      ps_teams := ps_teams s @ [if pick_a then Team_A else Team_B],
                      ps_rem_a := dpop (ps_rem_a s) d, ps_rem_b := dpop (ps_rem_b s) d, ps_rng := g2\<rparr>)))"

fun psample_loop :: "('g \<Rightarrow> real \<times> 'g) \<Rightarrow> ('g \<Rightarrow> real list \<Rightarrow> nat \<times> 'g) \<Rightarrow> nat \<Rightarrow> ('d, 'g) psample \<Rightarrow> ('d, 'g) psample res" where
  \<comment> \<open>every turn appends one document, so \<open>k - len(out)\<close> turns are left\<close>
  "psample_loop rnd choice 0 s = Inr s"
| "psample_loop rnd choice (Suc left) s =
     (if ps_rem_a s \<noteq> [] \<or> ps_rem_b s \<noteq> []
      then res_bind (psample_step rnd choice s) (psample_loop rnd choice left)
      else Inr s)"

definition probabilistic_sample :: "('g \<Rightarrow> real \<times> 'g) \<Rightarrow> ('g \<Rightarrow> real list \<Rightarrow> nat \<times> 'g) \<Rightarrow> 'd list \<Rightarrow> 'd list \<Rightarrow> nat \<Rightarrow>
    'g \<Rightarrow> real \<Rightarrow> ('d list \<times> team list \<times> real list \<times> 'g) res" where
  "probabilistic_sample rnd choice a b k g tau =
     res_bind (psample_loop rnd choice k
         \<lparr>ps_rem_a = dict_of (zip a (softmax_rank_weights (length a) tau)),
          ps_rem_b = dict_of (zip b (softmax_rank_weights (length b) tau)),
          ps_out = [], ps_teams = [], ps_pa = [], ps_rng = g\<rparr>)
       (\<lambda>s. Inr (ps_out s, ps_teams s, ps_pa s, ps_rng s))"

definition marginal_step :: "real list \<Rightarrow> real \<times> bool \<Rightarrow> real list" where
  \<comment> \<open>one turn of the loop over positions, for one impression\<close>
  "marginal_step ds = (\<lambda>(p, click).
     (let pa = (if click then p else 0); pb = (if click then 1 - p else 0); stay = 1 - pa - pb
      in map2 (+) (map2 (+) (map (\<lambda>x. x * stay) ds) (0 # map (\<lambda>x. x * pa) (butlast ds)))
           (map (\<lambda>x. x * pb) (tl ds) @ [0])))"

definition marginal_outcome :: "real list \<Rightarrow> bool list \<Rightarrow> real" where
  \<comment> \<open>one row of \<open>probabilistic_marginal_outcome\<close>\<close>
  "marginal_outcome p_a clicks =
     (let k = length clicks;
          ds0 = (replicate (2 * k + 1) 0)[k := 1];
          ds = foldl marginal_step ds0 (zip p_a clicks)
      in sum_list (drop (k + 1) ds) - sum_list (take k ds))"

definition probabilistic_marginal_outcome :: "real list list \<Rightarrow> bool list list \<Rightarrow> real list" where
  "probabilistic_marginal_outcome p_a clicks = map2 marginal_outcome p_a clicks"

section \<open>Vectorised outcomes\<close>

definition team_draft_outcome_row :: "int list \<Rightarrow> bool list \<Rightarrow> int" where
  \<comment> \<open>teams are 0, 1 or -1\<close>
  "team_draft_outcome_row teams clicks =
     (let ca = int (length (filter (\<lambda>(t, c). c \<and> t = 0) (zip teams clicks)));
          cb = int (length (filter (\<lambda>(t, c). c \<and> t = 1) (zip teams clicks)))
      in sgn (ca - cb))"

definition team_draft_outcome_batch :: "int list list \<Rightarrow> bool list list \<Rightarrow> int list" where
  "team_draft_outcome_batch teams clicks = map2 team_draft_outcome_row teams clicks"

fun argmax_true :: "bool list \<Rightarrow> nat" where
  \<comment> \<open>\<open>np.argmax\<close> of a boolean row: the first True, else 0\<close>
  "argmax_true [] = 0"
| "argmax_true (True # r) = 0"
| "argmax_true (False # r) = (if True \<in> set r then Suc (argmax_true r) else 0)"

definition balanced_outcome_row :: "'r::linorder list \<Rightarrow> 'r list \<Rightarrow> bool list \<Rightarrow> int" where
  "balanced_outcome_row rank_a rank_b clicks =
     (let lst = length clicks - 1 - argmax_true (rev clicks);
          kk = min (rank_a ! lst) (rank_b ! lst);
          ha = int (length (filter (\<lambda>(r, c). c \<and> r \<le> kk) (zip rank_a clicks)));
          hb = int (length (filter (\<lambda>(r, c). c \<and> r \<le> kk) (zip rank_b clicks)))
      in if True \<in> set clicks then sgn (ha - hb) else 0)"

definition balanced_outcome_batch :: "'r::linorder list list \<Rightarrow> 'r list list \<Rightarrow> bool list list \<Rightarrow> int list res" where
  \<comment> \<open>\<open>np.argmax\<close> refuses rows of no columns\<close>
  "balanced_outcome_batch rank_a rank_b clicks =
     (if \<exists>r \<in> set clicks. r = [] then Inl ValueError
      else Inr (map2 (\<lambda>(a, b) c. balanced_outcome_row a b c) (zip rank_a rank_b) clicks))"

section \<open>Pools\<close>

record pool =
  pl_docs :: "int list list"
  pl_teams :: "int list list option"
  pl_aux_a :: "real list list option"
  pl_aux_b :: "real list list option"
  pl_prob :: "real list"

definition pad :: "'a list \<Rightarrow> nat \<Rightarrow> 'a \<Rightarrow> 'a list" where
  "pad lst k v = take k lst @ replicate (k - length lst) v"

definition team_code :: "team \<Rightarrow> int" where
  "team_code t = (case t of Team_A \<Rightarrow> 0 | Team_B \<Rightarrow> 1)"

definition precompute_team_draft :: "int list \<Rightarrow> int list \<Rightarrow> nat \<Rightarrow> pool" where
  "precompute_team_draft a b k =
     (let outs = enumerate_team_draft a b k;
          prob = map (\<lambda>(_, _, p). p) outs
      in \<lparr>pl_docs = map (\<lambda>(out, _, _). pad out k (- 1)) outs,
          pl_teams = Some (map (\<lambda>(_, ts, _). pad (map team_code ts) k (- 1)) outs),
          pl_aux_a = None, pl_aux_b = None,
          pl_prob = map (\<lambda>p. p / sum_list prob) prob\<rparr>)"

definition precompute_balanced :: "int list \<Rightarrow> int list \<Rightarrow> nat \<Rightarrow> pool" where
  "precompute_balanced a b k =
     (let big = 10 ^ 6; ra = rank_dict a; rb = rank_dict b;
          lists = map (balanced a b k) [True, False]
      in \<lparr>pl_docs = map (\<lambda>l. pad l k (- 1)) lists, pl_teams = None,
          pl_aux_a = Some (map (\<lambda>l. pad (map (\<lambda>d. real (dget ra d big)) l) k (real big)) lists),
          pl_aux_b = Some (map (\<lambda>l. pad (map (\<lambda>d. real (dget rb d big)) l) k (real big)) lists),
          pl_prob = [1 / 2, 1 / 2]\<rparr>)"

fun sample_pool :: "('g \<Rightarrow> real \<times> 'g) \<Rightarrow> ('g \<Rightarrow> real list \<Rightarrow> nat \<times> 'g) \<Rightarrow> int list \<Rightarrow> int list \<Rightarrow> nat \<Rightarrow> real \<Rightarrow>
    nat \<Rightarrow> 'g \<Rightarrow> ((int list \<times> real list) list \<times> 'g) res" where
  "sample_pool rnd choice a b k tau 0 g = Inr ([], g)"
| "sample_pool rnd choice a b k tau (Suc m) g =
     res_bind (probabilistic_sample rnd choice a b k g tau) (\<lambda>(out, _, pa, g').
       res_bind (sample_pool rnd choice a b k tau m g') (\<lambda>(r, g''). Inr ((pad out k (- 1), pad pa k 0) # r, g'')))"

definition precompute_probabilistic :: "('g \<Rightarrow> real \<times> 'g) \<Rightarrow> ('g \<Rightarrow> real list \<Rightarrow> nat \<times> 'g) \<Rightarrow> int list \<Rightarrow> int list \<Rightarrow> nat \<Rightarrow>
    'g \<Rightarrow> nat \<Rightarrow> real \<Rightarrow> (pool \<times> 'g) res" where
  "precompute_probabilistic rnd choice a b k g m tau =
     (if m = 0 then Inl ValueError
      else res_bind (sample_pool rnd choice a b k tau m g) (\<lambda>(ps, g').
        Inr (\<lparr>pl_docs = map fst ps, pl_teams = None, pl_aux_a = Some (map snd ps), pl_aux_b = None,
              pl_prob = replicate m (1 / real m)\<rparr>, g')))"

section \<open>Balanced interleaving shows prefixes of both rankings\<close>

definition balanced_inv :: "'d list \<Rightarrow> 'd list \<Rightarrow> 'd balance \<Rightarrow> bool" where
  "balanced_inv a b s =
     (distinct (ba_out s) \<and> ba_seen s = set (ba_out s) \<and> ba_ka s \<le> length a \<and> ba_kb s \<le> length b \<and>
      set (ba_out s) = set (take (ba_ka s) a) \<union> set (take (ba_kb s) b) \<and>
      (ba_ka s < length a \<and> ba_kb s < length b \<longrightarrow> ba_ka s \<le> Suc (ba_kb s) \<and> ba_kb s \<le> Suc (ba_ka s)))"

lemma set_take_Suc: "i < length xs \<Longrightarrow> set (take (Suc i) xs) = insert (xs ! i) (set (take i xs))"
  by (simp add: take_Suc_conv_app_nth)

lemma balanced_inv_step:
  assumes "balanced_inv a b s" and "ba_ka s < length a \<or> ba_kb s < length b"
  shows "balanced_inv a b (balanced_step a b f s)"
proof (cases "balanced_take_a a b f s")
  case True
  then have l: "ba_ka s < length a" by (auto simp: balanced_take_a_def split: if_splits)
  then show ?thesis
    using assms True by (auto simp: balanced_inv_def balanced_step_def Let_def set_take_Suc balanced_take_a_def split: if_splits)
next
  case False
  then have l: "ba_kb s < length b" using assms(2) by (auto simp: balanced_take_a_def split: if_splits)
  then show ?thesis
    using assms False by (auto simp: balanced_inv_def balanced_step_def Let_def set_take_Suc balanced_take_a_def split: if_splits)
qed

lemma balanced_loop_inv:
  assumes "balanced_inv a b s" and "length (ba_out s) \<le> k"
  shows "balanced_inv a b (balanced_loop a b k f s) \<and> length (ba_out (balanced_loop a b k f s)) \<le> k \<and>
     (length (ba_out (balanced_loop a b k f s)) = k \<or>
      \<not> (ba_ka (balanced_loop a b k f s) < length a \<or> ba_kb (balanced_loop a b k f s) < length b))"
  using assms
proof (induction a b k f s rule: balanced_loop.induct)
  case (1 a b k f s)
  show ?case
  proof (cases "length (ba_out s) < k \<and> (ba_ka s < length a \<or> ba_kb s < length b)")
    case True
    then have "balanced_inv a b (balanced_step a b f s)" using "1.prems" balanced_inv_step by blast
    moreover have "length (ba_out (balanced_step a b f s)) \<le> k"
      using True by (auto simp: balanced_step_def Let_def)
    ultimately show ?thesis using "1.IH" [OF True] True by (simp add: balanced_loop.simps [of a b k f s])
  next
    case False
    then show ?thesis using "1.prems" by (subst (1 2 3 4 5) balanced_loop.simps) auto
  qed
qed

lemma balanced_result:
  obtains ka kb where "distinct (balanced a b k f)"
    "set (balanced a b k f) = set (take ka a) \<union> set (take kb b)"
    "ka < length a \<and> kb < length b \<longrightarrow> ka \<le> Suc kb \<and> kb \<le> Suc ka" "length (balanced a b k f) \<le> k"
    "length (balanced a b k f) = k \<or> set (balanced a b k f) = set a \<union> set b"
proof -
  define t where "t = balanced_loop a b k f balanced_start"
  have "balanced_inv a b t \<and> length (ba_out t) \<le> k \<and> (length (ba_out t) = k \<or> \<not> (ba_ka t < length a \<or> ba_kb t < length b))"
    unfolding t_def by (rule balanced_loop_inv) (simp_all add: balanced_inv_def balanced_start_def)
  then show ?thesis
    using that [of "ba_ka t" "ba_kb t"] by (auto simp: balanced_inv_def balanced_def simp flip: t_def)
qed

interpretation balanced: interleaver "\<lambda>f a b k. Some (balanced a b k f)"
proof
  fix f and a b out :: "'d list" and k
  assume "Some (balanced a b k f) = Some out"
  then have out: "out = balanced a b k f" by simp
  obtain ka kb where r: "distinct out" "set out = set (take ka a) \<union> set (take kb b)" "length out \<le> k"
    "length out = k \<or> set out = set a \<union> set b"
    unfolding out by (rule balanced_result)
  show "distinct out" by (rule r)
  show sub: "set out \<subseteq> set a \<union> set b" using r(2) set_take_subset [of ka a] set_take_subset [of kb b] by auto
  have "card (set out) = length out" using r(1) by (rule distinct_card)
  then show "length out = min k (card (set a \<union> set b))"
    using r(3,4) card_mono [OF _ sub] by auto
qed

text \<open>Balanced interleaving is balanced: its documents are exactly those of the top \<open>ka\<close> of A and the
  top \<open>kb\<close> of B, each once, where \<open>ka\<close> and \<open>kb\<close> differ by at most one unless a ranking is used up, and
  it is as long as it can be.\<close>

theorem balanced_prefixes:
  "\<exists>ka kb. set (balanced a b k f) = set (take ka a) \<union> set (take kb b) \<and>
     (ka \<ge> length a \<or> kb \<ge> length b \<or> (ka \<le> kb + 1 \<and> kb \<le> ka + 1)) \<and>
     distinct (balanced a b k f) \<and> length (balanced a b k f) = min k (card (set a \<union> set b))"
proof -
  obtain ka kb where r: "distinct (balanced a b k f)" "set (balanced a b k f) = set (take ka a) \<union> set (take kb b)"
    "ka < length a \<and> kb < length b \<longrightarrow> ka \<le> Suc kb \<and> kb \<le> Suc ka"
    by (rule balanced_result)
  then show ?thesis using balanced.gen_length [OF refl] by (intro exI [of _ ka] exI [of _ kb]) auto
qed

section \<open>The marginalised credit is an expectation\<close>

text \<open>Every assignment of teams to positions, with its probability and clicks of A minus clicks of B.\<close>

fun assignments :: "(real \<times> bool) list \<Rightarrow> (real \<times> int) list" where
  "assignments [] = [(1, 0)]"
| "assignments ((p, c) # r) =
     map (\<lambda>(q, d). (p * q, d + of_bool c)) (assignments r) @
     map (\<lambda>(q, d). ((1 - p) * q, d - of_bool c)) (assignments r)"

definition expected :: "(real \<times> bool) list \<Rightarrow> int \<Rightarrow> real" where
  "expected xs d = (\<Sum>(q, e) \<leftarrow> assignments xs. q * of_int (sgn (d + e)))"

lemma expected_Nil: "expected [] d = of_int (sgn d)"
  by (simp add: expected_def)

lemma expected_Cons:
  "expected ((p, c) # r) d = p * expected r (d + of_bool c) + (1 - p) * expected r (d - of_bool c)"
  by (simp add: expected_def comp_def case_prod_unfold sum_list_const_mult [symmetric] algebra_simps)

fun wsum :: "int \<Rightarrow> (int \<Rightarrow> real) \<Rightarrow> real list \<Rightarrow> real" where
  "wsum i f [] = 0"
| "wsum i f (x # xs) = x * f i + wsum (i + 1) f xs"

lemma wsum_add: "length xs = length ys \<Longrightarrow> wsum i f (map2 (+) xs ys) = wsum i f xs + wsum i f ys"
  by (induction xs ys arbitrary: i rule: list_induct2) (simp_all add: algebra_simps)

lemma wsum_scale: "wsum i f (map (\<lambda>x. x * c) xs) = c * wsum i f xs"
  by (induction xs arbitrary: i) (simp_all add: algebra_simps)

lemma wsum_append: "wsum i f (xs @ ys) = wsum i f xs + wsum (i + int (length xs)) f ys"
  by (induction xs arbitrary: i) (simp_all add: algebra_simps)

lemma wsum_shift: "wsum (i + c) f xs = wsum i (\<lambda>j. f (j + c)) xs"
proof (induction xs arbitrary: i)
  case (Cons x xs)
  from Cons.IH [of "i + 1"] show ?case by (simp add: algebra_simps)
qed simp

lemma wsum_lin: "wsum i (\<lambda>j. a * f j + b * g j) xs = a * wsum i f xs + b * wsum i g xs"
  by (induction xs arbitrary: i) (simp_all add: algebra_simps)

lemma wsum_up:
  assumes "ds \<noteq> []" and "last ds = 0"
  shows "wsum i f (0 # map (\<lambda>x. x * c) (butlast ds)) = c * wsum i (\<lambda>j. f (j + 1)) ds"
proof -
  have "wsum (i + 1) f ds = wsum (i + 1) f (butlast ds @ [last ds])" using assms(1) by simp
  also have "\<dots> = wsum (i + 1) f (butlast ds)" using assms(2) by (simp add: wsum_append del: append_butlast_last_id)
  finally show ?thesis by (simp add: wsum_scale wsum_shift)
qed

lemma wsum_down:
  assumes "ds \<noteq> []" and "hd ds = 0"
  shows "wsum i f (map (\<lambda>x. x * c) (tl ds) @ [0]) = c * wsum i (\<lambda>j. f (j - 1)) ds"
proof -
  have "wsum (i - 1) f ds = wsum i f (tl ds)" using assms by (cases ds) auto
  moreover have "wsum (i - 1) f ds = wsum i (\<lambda>j. f (j - 1)) ds" using wsum_shift [of i "- 1" f ds] by simp
  ultimately show ?thesis by (simp add: wsum_append wsum_scale)
qed

definition margin :: "nat \<Rightarrow> real list \<Rightarrow> bool" where
  \<comment> \<open>no probability mass in the outer \<open>m\<close> entries on both sides\<close>
  "margin m ds = (\<forall>j < length ds. j < m \<or> length ds \<le> j + m \<longrightarrow> ds ! j = 0)"

lemma marginal_step_length [simp]: "ds \<noteq> [] \<Longrightarrow> length (marginal_step ds x) = length ds"
  by (cases x) (simp add: marginal_step_def Let_def)

lemma marginal_step_margin:
  assumes "margin (Suc m) ds" and "ds \<noteq> []"
  shows "margin m (marginal_step ds (p, c))"
  unfolding margin_def
proof (intro allI impI)
  fix j
  assume "j < length (marginal_step ds (p, c))" "j < m \<or> length (marginal_step ds (p, c)) \<le> j + m"
  then have j: "j < length ds" "j < m \<or> length ds \<le> j + m" using assms(2) by simp_all
  have z: "ds ! i = 0" if "i < length ds" "i \<le> Suc j" "j \<le> Suc i" for i
    using assms(1) that j by (auto simp: margin_def)
  have "(0 # map (\<lambda>x. x * a) (butlast ds)) ! j = 0" for a :: real
    using z [of "j - 1"] j by (cases j) (auto simp: nth_butlast)
  moreover have "(map (\<lambda>x. x * a) (tl ds) @ [0]) ! j = 0" for a :: real
    using z [of "Suc j"] j by (auto simp: nth_append nth_tl)
  ultimately show "marginal_step ds (p, c) ! j = 0"
    using z [of j] j assms(2) by (simp add: marginal_step_def Let_def)
qed

lemma marginal_step_wsum:
  assumes "margin (Suc m) ds" and "ds \<noteq> []"
  shows "wsum i (expected r) (marginal_step ds (p, c)) = wsum i (expected ((p, c) # r)) ds"
proof -
  have e: "hd ds = 0" "last ds = 0"
    using assms by (auto simp: margin_def hd_conv_nth last_conv_nth)
  have l: "length (0 # map (\<lambda>x. x * a) (butlast ds)) = length ds" "length (map (\<lambda>x. x * a) (tl ds) @ [0]) = length ds"
    for a :: real using assms(2) by simp_all
  define pa pb where "pa = (if c then p else 0)" and "pb = (if c then 1 - p else 0)"
  define A where "A = map (\<lambda>x. x * (1 - pa - pb)) ds"
  define B where "B = 0 # map (\<lambda>x. x * pa) (butlast ds)"
  define C where "C = map (\<lambda>x. x * pb) (tl ds) @ [0]"
  have step: "marginal_step ds (p, c) = map2 (+) (map2 (+) A B) C"
    by (simp only: marginal_step_def prod.case Let_def A_def B_def C_def pa_def pb_def)
  have len: "length A = length B" "length (map2 (+) A B) = length C"
    using l by (simp_all add: A_def B_def C_def del: length_Cons length_append)
  have "wsum i (expected r) (marginal_step ds (p, c)) =
      (1 - pa - pb) * wsum i (expected r) ds + pa * wsum i (\<lambda>j. expected r (j + 1)) ds + pb * wsum i (\<lambda>j. expected r (j - 1)) ds"
    unfolding step wsum_add [OF len(2)] wsum_add [OF len(1)]
    unfolding A_def B_def C_def wsum_scale wsum_up [OF assms(2) e(2)] wsum_down [OF assms(2) e(1)] ..
  moreover have "wsum i (expected ((p, c) # r)) ds =
      p * wsum i (\<lambda>j. expected r (j + of_bool c)) ds + (1 - p) * wsum i (\<lambda>j. expected r (j - of_bool c)) ds"
    unfolding expected_Cons [abs_def] wsum_lin ..
  ultimately show ?thesis by (cases c) (simp_all add: pa_def pb_def algebra_simps)
qed

lemma marginal_fold:
  assumes "margin (length xs) ds" and "ds \<noteq> []"
  shows "wsum i (\<lambda>d. of_int (sgn d)) (foldl marginal_step ds xs) = wsum i (expected xs) ds \<and>
     length (foldl marginal_step ds xs) = length ds"
  using assms
proof (induction xs arbitrary: ds)
  case Nil
  then show ?case by (simp add: expected_Nil [abs_def])
next
  case (Cons x xs)
  obtain p c where x: "x = (p, c)" by (cases x)
  have "margin (length xs) (marginal_step ds x)" "marginal_step ds x \<noteq> []"
    using Cons.prems marginal_step_margin by (auto simp: x simp flip: length_greater_0_conv)
  from Cons.IH [OF this] show ?case
    using Cons.prems marginal_step_wsum [of "length xs" ds i xs p c] by (simp add: x)
qed

lemma wsum_sgn_neg: "i + int (length xs) \<le> 0 \<Longrightarrow> wsum i (\<lambda>d. of_int (sgn d)) xs = - sum_list xs"
  by (induction xs arbitrary: i) (auto simp: sgn_if)

lemma wsum_sgn_pos: "0 < i \<Longrightarrow> wsum i (\<lambda>d. of_int (sgn d)) xs = sum_list xs"
  by (induction xs arbitrary: i) auto

lemma wsum_outcome:
  assumes "length ds = 2 * k + 1"
  shows "sum_list (drop (k + 1) ds) - sum_list (take k ds) = wsum (- int k) (\<lambda>d. of_int (sgn d)) ds"
proof -
  let ?f = "\<lambda>d. real_of_int (sgn d)"
  have "wsum (- int k) ?f (take k ds @ ds ! k # drop (k + 1) ds)
      = wsum (- int k) ?f (take k ds) + wsum 1 ?f (drop (k + 1) ds)"
    using assms by (simp add: wsum_append)
  moreover have "take k ds @ ds ! k # drop (k + 1) ds = ds" using assms by (simp add: id_take_nth_drop [symmetric])
  ultimately have "wsum (- int k) ?f ds = wsum (- int k) ?f (take k ds) + wsum 1 ?f (drop (k + 1) ds)" by metis
  then show ?thesis using assms by (simp add: wsum_sgn_neg wsum_sgn_pos)
qed

lemma wsum_point: "wsum i f ((replicate n 0)[k := 1]) = (if k < n then f (i + int k) else 0)"
proof (induction n arbitrary: i k)
  case (Suc n)
  have z: "wsum i f (replicate m 0) = 0" for m i by (induction m arbitrary: i) simp_all
  show ?case using Suc z by (cases k) (auto simp: algebra_simps)
qed simp

lemma expected_bound:
  assumes "\<forall>(p, c) \<in> set xs. 0 \<le> p \<and> p \<le> 1"
  shows "\<bar>expected xs d\<bar> \<le> 1"
  using assms
proof (induction xs arbitrary: d)
  case Nil
  then show ?case by (simp add: expected_Nil sgn_if)
next
  case (Cons x xs)
  obtain p c where x: "x = (p, c)" by (cases x)
  have p: "0 \<le> p" "p \<le> 1" using Cons.prems x by auto
  have ih: "\<bar>expected xs e\<bar> \<le> 1" for e using Cons by auto
  have "\<bar>expected (x # xs) d\<bar> \<le> p * \<bar>expected xs (d + of_bool c)\<bar> + (1 - p) * \<bar>expected xs (d - of_bool c)\<bar>"
    using p by (simp add: x expected_Cons) (metis abs_mult abs_of_nonneg abs_triangle_ineq diff_ge_0_iff_ge)
  also have "\<dots> \<le> p * 1 + (1 - p) * 1"
    using p ih by (intro add_mono mult_left_mono) auto
  finally show ?case by simp
qed

text \<open>C12: the convolution of \<open>probabilistic_marginal_outcome\<close> computes, for each impression, the expected
  sign of the click difference over every assignment of its positions to the two teams, and that is
  a number between -1 and 1 when the position probabilities are probabilities.\<close>

theorem marginal_outcome_expectation:
  assumes "length p_a = length clicks"
  shows "marginal_outcome p_a clicks = (\<Sum>(q, e) \<leftarrow> assignments (zip p_a clicks). q * of_int (sgn e)) \<and>
     ((\<forall>p \<in> set p_a. 0 \<le> p \<and> p \<le> 1) \<longrightarrow> \<bar>marginal_outcome p_a clicks\<bar> \<le> 1)"
proof -
  define k where "k = length clicks"
  define ds0 where "ds0 = (replicate (2 * k + 1) 0)[k := 1::real]"
  have start: "margin k ((replicate n 0)[k := 1])" if "n = 2 * k + 1" for n
    unfolding margin_def length_list_update length_replicate
  proof (intro allI impI)
    fix j
    assume "j < n" "j < k \<or> n \<le> j + k"
    moreover from this have "j \<noteq> k" using that by auto
    ultimately show "(replicate n 0)[k := 1] ! j = 0" by simp
  qed
  have "length (zip p_a clicks) = k" using assms by (simp add: k_def)
  then have d0: "margin (length (zip p_a clicks)) ds0" "length ds0 = 2 * k + 1"
    using start [OF refl] by (simp_all only: ds0_def length_list_update length_replicate)
  then have ne: "ds0 \<noteq> []" by auto
  note f = marginal_fold [OF d0(1) ne, of "- int k"]
  have "marginal_outcome p_a clicks = wsum (- int k) (expected (zip p_a clicks)) ds0"
    unfolding marginal_outcome_def Let_def
    using f d0(2) wsum_outcome [of "foldl marginal_step ds0 (zip p_a clicks)" k] by (simp add: k_def ds0_def)
  also have "\<dots> = expected (zip p_a clicks) 0" unfolding ds0_def by (subst wsum_point) simp
  finally have e: "marginal_outcome p_a clicks = expected (zip p_a clicks) 0" .
  then show ?thesis using expected_bound [of "zip p_a clicks" 0] by (auto simp: expected_def dest: set_zip_leftD)
qed

theorem marginal_outcome_expectation_witness:
  "\<bar>marginal_outcome [1 / 2, 1 / 4] [True, True]\<bar> \<le> 1 \<and>
   marginal_outcome [1 / 2, 1 / 4] [True, True] = (\<Sum>(q, e) \<leftarrow> assignments (zip [1 / 2, 1 / 4] [True, True]). q * of_int (sgn e))"
  using marginal_outcome_expectation [of "[1 / 2, 1 / 4]" "[True, True]"] by auto

section \<open>Batch credit is scalar credit\<close>

definition winner_sign :: "winner \<Rightarrow> int" where
  "winner_sign w = (case w of Win_A \<Rightarrow> 1 | Win_B \<Rightarrow> - 1 | Tie \<Rightarrow> 0)"

lemma winner_sign_of: "winner_sign (winner_of x y) = sgn (int x - int y)"
  by (simp add: winner_of_def winner_sign_def)

lemma filter_positions:
  "length xs = length ys \<Longrightarrow>
   length (filter (\<lambda>p. P (xs ! p)) (filter (\<lambda>p. ys ! p) [0..<length xs])) = length (filter (\<lambda>(x, y). y \<and> P x) (zip xs ys))"
proof (induction xs ys rule: rev_induct2)
  case (4 x xs y ys)
  have "filter (\<lambda>p. (ys @ [y]) ! p) [0..<length xs] = filter (\<lambda>p. ys ! p) [0..<length xs]"
    using 4(2) by (intro filter_cong) (auto simp: nth_append)
  moreover have "filter (\<lambda>p. P ((xs @ [x]) ! p)) (filter (\<lambda>p. ys ! p) [0..<length xs])
      = filter (\<lambda>p. P (xs ! p)) (filter (\<lambda>p. ys ! p) [0..<length xs])"
    by (intro filter_cong) (auto simp: nth_append)
  ultimately show ?case using 4 by (simp add: nth_append)
qed simp_all

text \<open>The vectorised team-draft outcome of an impression is the sign of the scalar credit rule's
  winner on the clicked positions.\<close>

theorem team_draft_batch_is_scalar:
  assumes "length teams = length clicks"
    and "team_draft_credit teams (filter (\<lambda>p. clicks ! p) [0..<length clicks]) = Inr (ca, cb, w)"
  shows "team_draft_outcome_row (map team_code teams) clicks = winner_sign w"
proof -
  have c: "ca = length (filter (\<lambda>p. teams ! p = Team_A) (filter (\<lambda>p. clicks ! p) [0..<length teams]))"
    "cb = length (filter (\<lambda>p. teams ! p = Team_B) (filter (\<lambda>p. clicks ! p) [0..<length teams]))" "w = winner_of ca cb"
    using assms by (auto simp: team_draft_credit_def credit_labels_def Let_def distinct_remdups_id split: if_splits)
  have code: "team_code t = 0 \<longleftrightarrow> t = Team_A" "team_code t = 1 \<longleftrightarrow> t = Team_B" for t
    by (cases t; simp add: team_code_def)+
  have z: "length (filter (\<lambda>(x, y). y \<and> P x) (zip (map team_code teams) clicks))
      = length (filter (\<lambda>(x, y). y \<and> P (team_code x)) (zip teams clicks))" for P
    by (simp add: zip_map1 filter_map comp_def case_prod_unfold)
  show ?thesis
    using filter_positions [OF assms(1), of "\<lambda>t. t = Team_A"] filter_positions [OF assms(1), of "\<lambda>t. t = Team_B"]
    by (simp add: team_draft_outcome_row_def Let_def z code c winner_sign_of)
qed

theorem team_draft_batch_is_scalar_witness:
  "team_draft_outcome_row (map team_code [Team_B, Team_A, Team_B]) [True, True, True] = winner_sign Win_B"
proof -
  have "team_draft_credit [Team_B, Team_A, Team_B] (filter (\<lambda>p. [True, True, True] ! p) [0..<length [True, True, True]]) = Inr (1, 2, Win_B)"
    by code_simp
  from team_draft_batch_is_scalar [OF _ this] show ?thesis by simp
qed

end
