(* ===== verification/Events.thy ===== *)
theory Events
  imports Click_Models Interleave_Credit
begin

text \<open>
  \<open>py/hybridsearch/clicks/events.py\<close>: experiment assignment, the events of a served page, the pages
  rebuilt from an event log and their click matrix.  xxhash64 is an argument; a timestamp is its
  number of milliseconds, whose ISO text and JSON form are in \<open>Event_Log\<close>.  An event that
  lacks a key has None there.  The round trip shows that the reader recovers exactly the page whose
  events were written.
\<close>

section \<open>Assignment\<close>

definition EVENT_TYPES :: "string list" where
  "EVENT_TYPES = [''impression'', ''click'', ''dwell'', ''query'', ''abandon'']"

definition bucket :: "(nat \<Rightarrow> string \<Rightarrow> nat) \<Rightarrow> string \<Rightarrow> string \<Rightarrow> nat" where
  \<comment> \<open>\<open>xxh seed bytes\<close> is \<open>xxhash.xxh64_intdigest\<close>\<close>
  "bucket xxh salt session_id = xxh 0 (salt @ session_id) mod 10000"

definition ARM_SEED :: nat where
  "ARM_SEED = 0x5EEDA5B100000001"

definition assign :: "(nat \<Rightarrow> string \<Rightarrow> nat) \<Rightarrow> string \<Rightarrow> string \<Rightarrow> real \<Rightarrow> string option" where
  "assign xxh salt session_id allocation =
     (if int (bucket xxh salt session_id) \<ge> round_half_even (allocation * 10000) then None
      else if xxh ARM_SEED (salt @ session_id) mod 2 \<noteq> 0 then Some ''treatment'' else Some ''control'')"

section \<open>Writing a page's events\<close>

record event =
  ev_type :: "string option"
  ev_session :: "string option"
  ev_request :: "string option"
  ev_query :: "string option"
  ev_ts :: int
  ev_experiment :: "string option"
  ev_variant :: "string option"
  ev_simulated :: "string option"
  ev_doc :: "int option"
  ev_rank :: "int option"
  ev_team :: "string option"
  ev_dwell :: "int option"

record page_args =
  pa_session :: string
  pa_request :: string
  pa_query :: string
  pa_docs :: "int list"
  pa_clicks :: "bool list"
  pa_dwell :: "int list"
  pa_experiment :: "string option"
  pa_variant :: "string option"
  pa_teams :: "string list option"
  pa_simulated :: "string option"

definition truthy :: "string option \<Rightarrow> bool" where
  "truthy s = (s \<noteq> None \<and> s \<noteq> Some [])"

definition base_event :: "page_args \<Rightarrow> string \<Rightarrow> int \<Rightarrow> event" where
  "base_event p kind ts =
     \<lparr>ev_type = Some kind, ev_session = Some (pa_session p), ev_request = Some (pa_request p),
      ev_query = Some (pa_query p), ev_ts = ts,
      ev_experiment = pa_experiment p,
      ev_variant = (if pa_experiment p \<noteq> None then pa_variant p else None),
      ev_simulated = (if truthy (pa_simulated p) then pa_simulated p else None),
      ev_doc = None, ev_rank = None, ev_team = None, ev_dwell = None\<rparr>"

definition ranked_event :: "page_args \<Rightarrow> string \<Rightarrow> int \<Rightarrow> nat \<Rightarrow> event" where
  \<comment> \<open>an event of position \<open>r\<close>: docId, rank and the team when the page is interleaved\<close>
  "ranked_event p kind ts r =
     (base_event p kind ts)\<lparr>ev_doc := Some (pa_docs p ! r), ev_rank := Some (int r + 1),
        ev_team := map_option (\<lambda>ts. ts ! r) (pa_teams p)\<rparr>"

fun click_events :: "page_args \<Rightarrow> nat list \<Rightarrow> int \<Rightarrow> event list \<times> int" where
  \<comment> \<open>the second loop over the positions, from time \<open>t\<close>\<close>
  "click_events p [] t = ([], t)"
| "click_events p (r # rs) t =
     (if pa_clicks p ! r then
        (let c = ranked_event p ''click'' t r;
             d = (ranked_event p ''dwell'' t r)\<lparr>ev_dwell := Some (pa_dwell p ! r)\<rparr>;
             (es, t') = click_events p rs (t + pa_dwell p ! r + 1000)
         in (c # d # es, t'))
      else click_events p rs t)"

definition impression_events :: "page_args \<Rightarrow> int \<Rightarrow> event list" where
  "impression_events p t0 =
     (let rs = [0..<length (pa_docs p)];
          t = t0 + 300;
          (cs, t') = click_events p rs (t + 2000)
      in base_event p ''query'' t0 # map (ranked_event p ''impression'' t) rs @ cs @
         (if \<exists>r \<in> set rs. pa_clicks p ! r then [] else [base_event p ''abandon'' t']))"

section \<open>Reading pages back\<close>

record page =
  pg_request :: string
  pg_session :: string
  pg_query :: string
  pg_experiment :: "string option"
  pg_variant :: "string option"
  pg_docs :: "(int, int) dict"
  pg_teams :: "(int, string) dict"
  pg_clicked :: "int set"
  pg_dwell :: "(int, int) dict"
  pg_abandoned :: bool
  pg_simulated :: "string option"

definition interleaved :: "page \<Rightarrow> bool" where
  "interleaved p = (pg_teams p \<noteq> [])"

type_synonym dq = "(string, nat) dict"

definition count_dq :: "string \<Rightarrow> dq \<Rightarrow> dq" where
  "count_dq k d = dset d k (dget d k 0 + 1)"

definition new_page :: "string \<Rightarrow> event \<Rightarrow> page" where
  "new_page rid e =
     \<lparr>pg_request = rid, pg_session = (case ev_session e of Some s \<Rightarrow> s | None \<Rightarrow> []),
      pg_query = (case ev_query e of Some s \<Rightarrow> s | None \<Rightarrow> []), pg_experiment = None, pg_variant = None,
      pg_docs = [], pg_teams = [], pg_clicked = {}, pg_dwell = [], pg_abandoned = False, pg_simulated = None\<rparr>"

definition enrol_page :: "event \<Rightarrow> page \<Rightarrow> page" where
  "enrol_page e pg =
     (let pg1 = (if truthy (ev_experiment e) \<and> pg_experiment pg = None
                 then pg\<lparr>pg_experiment := ev_experiment e, pg_variant := ev_variant e\<rparr> else pg)
      in if truthy (ev_simulated e) then pg1\<lparr>pg_simulated := ev_simulated e\<rparr> else pg1)"

definition ranked_update :: "string \<Rightarrow> int \<Rightarrow> event \<Rightarrow> page \<Rightarrow> page res" where
  \<comment> \<open>the branches of an event that carries a rank\<close>
  "ranked_update t rank e pg =
     (if t = ''impression'' then
        (case ev_doc e of
           None \<Rightarrow> Inl KeyError
         | Some d \<Rightarrow>
             (let pg1 = pg\<lparr>pg_docs := dset (pg_docs pg) rank d\<rparr>
              in Inr (if truthy (ev_team e) then pg1\<lparr>pg_teams := dset (pg_teams pg1) rank (the (ev_team e))\<rparr> else pg1)))
      else if t = ''click'' then
        (let pg1 = pg\<lparr>pg_clicked := insert rank (pg_clicked pg)\<rparr>
         in Inr (if truthy (ev_team e) \<and> \<not> dhas (pg_teams pg1) rank
                 then pg1\<lparr>pg_teams := dset (pg_teams pg1) rank (the (ev_team e))\<rparr> else pg1))
      else Inr (pg\<lparr>pg_dwell := dset (pg_dwell pg) rank (case ev_dwell e of Some d \<Rightarrow> d | None \<Rightarrow> 0)\<rparr>))"

definition read_event :: "(string, page) dict \<times> dq \<Rightarrow> event \<Rightarrow> ((string, page) dict \<times> dq) res" where
  "read_event st e =
     (let (pages, q) = st in
      if ev_type e = None \<or> the (ev_type e) \<notin> set EVENT_TYPES then Inr (pages, count_dq ''unknown_type'' q)
      else if \<not> truthy (ev_request e) then Inr (pages, count_dq ''missing_request_id'' q)
      else
        (let t = the (ev_type e); rid = the (ev_request e);
             pg = enrol_page e (dget pages rid (new_page rid e));
             ranked = t \<in> {''impression'', ''click'', ''dwell''}
         in if ranked \<and> ev_rank e = None then Inr (dset pages rid pg, count_dq (t @ ''_missing_rank'') q)
            else if ranked then res_bind (ranked_update t (the (ev_rank e)) e pg) (\<lambda>pg1. Inr (dset pages rid pg1, q))
            else if t = ''abandon'' then Inr (dset pages rid (pg\<lparr>pg_abandoned := True\<rparr>), q)
            else Inr (dset pages rid pg, q)))"

definition orphan_clicks :: "page \<Rightarrow> bool" where
  "orphan_clicks pg = (\<not> pg_clicked pg \<subseteq> set (keys (pg_docs pg)))"

definition pages_from_events :: "event list \<Rightarrow> (page list \<times> dq) res" where
  "pages_from_events events =
     res_bind (res_fold read_event ([], []) events) (\<lambda>(pages, q).
       Inr (map snd pages, foldl (\<lambda>q pg. if orphan_clicks pg then count_dq ''click_without_impression'' q else q) q (map snd pages)))"

definition click_matrix :: "page list \<Rightarrow> nat \<Rightarrow> bool list list" where
  "click_matrix pages k = map (\<lambda>pg. map (\<lambda>j. int j + 1 \<in> pg_clicked pg) [0..<k]) pages"

section \<open>What the reader recovers\<close>

definition page_ok :: "page_args \<Rightarrow> bool" where
  \<comment> \<open>a page as the callers build it\<close>
  "page_ok p =
     (pa_request p \<noteq> [] \<and> length (pa_clicks p) = length (pa_docs p) \<and>
      (case pa_teams p of None \<Rightarrow> True | Some ts \<Rightarrow> length ts = length (pa_docs p) \<and> list_all (\<lambda>t. t \<noteq> []) ts) \<and>
      pa_experiment p \<noteq> Some [] \<and> (pa_experiment p = None \<longrightarrow> pa_variant p = None) \<and> pa_simulated p \<noteq> Some [])"

definition page_upto :: "page_args \<Rightarrow> nat \<Rightarrow> nat set \<Rightarrow> nat list \<Rightarrow> page" where
  \<comment> \<open>the page after \<open>n\<close> impressions, the clicks of the positions \<open>cl\<close> and the dwells of \<open>dw\<close>\<close>
  "page_upto p n cl dw =
     \<lparr>pg_request = pa_request p, pg_session = pa_session p, pg_query = pa_query p,
      pg_experiment = pa_experiment p, pg_variant = pa_variant p,
      pg_docs = map (\<lambda>r. (int r + 1, pa_docs p ! r)) [0..<n],
      pg_teams = (case pa_teams p of None \<Rightarrow> [] | Some ts \<Rightarrow> map (\<lambda>r. (int r + 1, ts ! r)) [0..<n]),
      pg_clicked = (\<lambda>r. int r + 1) ` cl, pg_dwell = map (\<lambda>r. (int r + 1, pa_dwell p ! r)) dw,
      pg_abandoned = False, pg_simulated = pa_simulated p\<rparr>"

lemma enrol_upto: "page_ok p \<Longrightarrow> ev_experiment e = pa_experiment p \<Longrightarrow> ev_simulated e = pa_simulated p \<Longrightarrow>
    enrol_page e (page_upto p n cl dw) = page_upto p n cl dw"
  by (cases "pa_experiment p"; cases "pa_simulated p")
     (simp_all add: enrol_page_def page_upto_def truthy_def page_ok_def)

lemma base_event_sel [simp]:
  "ev_type (base_event p kind t) = Some kind" "ev_request (base_event p kind t) = Some (pa_request p)"
  "ev_experiment (base_event p kind t) = pa_experiment p"
  "ev_session (base_event p kind t) = Some (pa_session p)" "ev_query (base_event p kind t) = Some (pa_query p)"
  by (simp_all add: base_event_def)

lemma base_event_simulated: "page_ok p \<Longrightarrow> ev_simulated (base_event p kind t) = pa_simulated p"
  by (cases "pa_simulated p") (auto simp: base_event_def page_ok_def truthy_def)

lemma base_event_variant: "page_ok p \<Longrightarrow> ev_variant (base_event p kind t) = pa_variant p"
  by (cases "pa_experiment p") (auto simp: base_event_def page_ok_def)

lemma event_types: "''query'' \<in> set EVENT_TYPES" "''impression'' \<in> set EVENT_TYPES" "''click'' \<in> set EVENT_TYPES"
  "''dwell'' \<in> set EVENT_TYPES" "''abandon'' \<in> set EVENT_TYPES"
  by (simp_all add: EVENT_TYPES_def)

text \<open>The state while the events of one page are read: earlier pages \<open>pre\<close> and the page itself, last.\<close>

lemma truthy_request: "page_ok p \<Longrightarrow> truthy (Some (pa_request p))"
  by (simp add: truthy_def page_ok_def)

lemma read_query:
  assumes "page_ok p" and "pa_request p \<notin> set (keys pre)"
  shows "read_event (pre, q) (base_event p ''query'' t) = Inr (pre @ [(pa_request p, page_upto p 0 {} [])], q)"
proof -
  have "enrol_page (base_event p ''query'' t) (new_page (pa_request p) (base_event p ''query'' t)) = page_upto p 0 {} []"
    using assms(1) base_event_simulated [OF assms(1)] base_event_variant [OF assms(1)]
    by (cases "pa_experiment p"; cases "pa_simulated p"; cases "pa_teams p")
       (auto simp: enrol_page_def new_page_def page_upto_def truthy_def page_ok_def)
  moreover have "dget pre (pa_request p) d = d" for d using assms(2) by (rule dget_absent)
  ultimately show ?thesis
    using assms truthy_request by (simp add: read_event_def Let_def event_types dset_new)
qed

lemma ranked_event_sel [simp]:
  "ev_type (ranked_event p kind t r) = Some kind" "ev_request (ranked_event p kind t r) = Some (pa_request p)"
  "ev_experiment (ranked_event p kind t r) = pa_experiment p"
  "ev_simulated (ranked_event p kind t r) = ev_simulated (base_event p kind t)"
  "ev_rank (ranked_event p kind t r) = Some (int r + 1)" "ev_doc (ranked_event p kind t r) = Some (pa_docs p ! r)"
  "ev_team (ranked_event p kind t r) = map_option (\<lambda>ts. ts ! r) (pa_teams p)"
  by (simp_all add: ranked_event_def)

lemma read_ranked:
  assumes "page_ok p" and "pa_request p \<notin> set (keys pre)" and "kind \<in> {''impression'', ''click'', ''dwell''}"
    and "ev_type e = Some kind" "ev_request e = Some (pa_request p)" "ev_experiment e = pa_experiment p"
      "ev_simulated e = pa_simulated p" "ev_rank e = Some rank"
    and "ranked_update kind rank e (page_upto p n cl dw) = Inr pg"
  shows "read_event (pre @ [(pa_request p, page_upto p n cl dw)], q) e = Inr (pre @ [(pa_request p, pg)], q)"
proof -
  have "kind \<in> set EVENT_TYPES" using assms(3) event_types by auto
  then show ?thesis
    using assms truthy_request [OF assms(1)]
    by (simp add: read_event_def dget_last dset_last enrol_upto)
qed

lemma read_impression:
  assumes "page_ok p" and "pa_request p \<notin> set (keys pre)" and "n < length (pa_docs p)"
  shows "read_event (pre @ [(pa_request p, page_upto p n {} [])], q) (ranked_event p ''impression'' t n) =
     Inr (pre @ [(pa_request p, page_upto p (Suc n) {} [])], q)"
proof (rule read_ranked [OF assms(1,2)])
  have new: "int n + 1 \<notin> set (keys (map (\<lambda>r. (int r + 1, f r)) [0..<n]))" for f :: "nat \<Rightarrow> 'v" by auto
  show "ranked_update ''impression'' (int n + 1) (ranked_event p ''impression'' t n) (page_upto p n {} []) =
      Inr (page_upto p (Suc n) {} [])"
  proof (cases "pa_teams p")
    case None
    then show ?thesis using new by (simp add: ranked_update_def page_upto_def truthy_def dset_new Let_def)
  next
    case (Some ts)
    then have "ts ! n \<noteq> []" using assms(1,3) by (auto simp: page_ok_def list_all_length)
    then show ?thesis using Some new by (simp add: ranked_update_def page_upto_def truthy_def dset_new Let_def)
  qed
qed (use base_event_simulated [OF assms(1)] in simp_all)

lemma read_impressions:
  assumes "page_ok p" and "pa_request p \<notin> set (keys pre)" and "n \<le> length (pa_docs p)"
  shows "res_fold read_event (pre @ [(pa_request p, page_upto p 0 {} [])], q) (map (ranked_event p ''impression'' t) [0..<n]) =
     Inr (pre @ [(pa_request p, page_upto p n {} [])], q)"
  using assms(3) by (induction n) (simp_all add: read_impression [OF assms(1,2)])

lemma read_click:
  assumes "page_ok p" and "pa_request p \<notin> set (keys pre)" and "r < length (pa_docs p)"
  shows "read_event (pre @ [(pa_request p, page_upto p (length (pa_docs p)) cl dw)], q) (ranked_event p ''click'' t r) =
     Inr (pre @ [(pa_request p, page_upto p (length (pa_docs p)) (insert r cl) dw)], q)"
proof (rule read_ranked [OF assms(1,2)])
  have "dhas (map (\<lambda>r. (int r + 1, ts ! r)) [0..<length (pa_docs p)]) (int r + 1)" for ts :: "string list"
    using assms(3) by (force simp: dhas_iff)
  then show "ranked_update ''click'' (int r + 1) (ranked_event p ''click'' t r) (page_upto p (length (pa_docs p)) cl dw) =
      Inr (page_upto p (length (pa_docs p)) (insert r cl) dw)"
    by (cases "pa_teams p") (simp_all add: ranked_update_def page_upto_def truthy_def Let_def)
qed (use base_event_simulated [OF assms(1)] in simp_all)

lemma read_dwell:
  assumes "page_ok p" and "pa_request p \<notin> set (keys pre)" and "r \<notin> set dw"
  shows "read_event (pre @ [(pa_request p, page_upto p n cl dw)], q) ((ranked_event p ''dwell'' t r)\<lparr>ev_dwell := Some (pa_dwell p ! r)\<rparr>) =
     Inr (pre @ [(pa_request p, page_upto p n cl (dw @ [r]))], q)"
proof (rule read_ranked [OF assms(1,2)])
  have "int r + 1 \<notin> set (keys (map (\<lambda>r. (int r + 1, pa_dwell p ! r)) dw))" using assms(3) by auto
  then show "ranked_update ''dwell'' (int r + 1) ((ranked_event p ''dwell'' t r)\<lparr>ev_dwell := Some (pa_dwell p ! r)\<rparr>)
      (page_upto p n cl dw) = Inr (page_upto p n cl (dw @ [r]))"
    by (simp add: ranked_update_def page_upto_def dset_new)
qed (use base_event_simulated [OF assms(1)] in simp_all)

lemma read_clicks:
  assumes "page_ok p" and "pa_request p \<notin> set (keys pre)"
    and "set rs \<subseteq> {..<length (pa_docs p)}" and "distinct rs" and "set rs \<inter> set dw = {}"
  shows "res_fold read_event (pre @ [(pa_request p, page_upto p (length (pa_docs p)) cl dw)], q) (fst (click_events p rs t)) =
     Inr (pre @ [(pa_request p, page_upto p (length (pa_docs p)) (cl \<union> {r \<in> set rs. pa_clicks p ! r})
        (dw @ filter (\<lambda>r. pa_clicks p ! r) rs))], q)"
  using assms(3-)
proof (induction rs arbitrary: cl dw t)
  case (Cons r rs)
  show ?case
  proof (cases "pa_clicks p ! r")
    case True
    have "res_fold read_event (pre @ [(pa_request p, page_upto p (length (pa_docs p)) (insert r cl) (dw @ [r]))], q)
        (fst (click_events p rs (t + pa_dwell p ! r + 1000))) =
      Inr (pre @ [(pa_request p, page_upto p (length (pa_docs p)) (insert r cl \<union> {x \<in> set rs. pa_clicks p ! x})
        ((dw @ [r]) @ filter (\<lambda>r. pa_clicks p ! r) rs))], q)"
      using Cons.prems by (intro Cons.IH) auto
    moreover have "insert r cl \<union> {x \<in> set rs. pa_clicks p ! x} = cl \<union> {x \<in> set (r # rs). pa_clicks p ! x}"
      using True by auto
    ultimately show ?thesis
      using True Cons.prems read_click [OF assms(1,2), of r] read_dwell [OF assms(1,2), of r dw]
      by (simp add: Let_def case_prod_unfold)
  next
    case False
    then have "{x \<in> set (r # rs). pa_clicks p ! x} = {x \<in> set rs. pa_clicks p ! x}" by auto
    then show ?thesis using False Cons by simp
  qed
qed simp

definition served_page :: "page_args \<Rightarrow> page" where
  \<comment> \<open>the page a reader should see\<close>
  "served_page p =
     (let n = length (pa_docs p); cl = filter (\<lambda>r. pa_clicks p ! r) [0..<n]
      in (page_upto p n (set cl) cl)\<lparr>pg_abandoned := (cl = [])\<rparr>)"

lemma read_page:
  assumes "page_ok p" and "pa_request p \<notin> set (keys pre)"
  shows "res_fold read_event (pre, q) (impression_events p t0) = Inr (pre @ [(pa_request p, served_page p)], q)"
proof -
  let ?n = "length (pa_docs p)"
  define cs t' where "cs = fst (click_events p [0..<?n] (t0 + 300 + 2000))" and "t' = snd (click_events p [0..<?n] (t0 + 300 + 2000))"
  let ?cl = "filter (\<lambda>r. pa_clicks p ! r) [0..<?n]"
  have ev: "impression_events p t0 = base_event p ''query'' t0 # map (ranked_event p ''impression'' (t0 + 300)) [0..<?n] @ cs @
      (if ?cl = [] then [base_event p ''abandon'' t'] else [])"
    by (auto simp: impression_events_def Let_def cs_def t'_def case_prod_unfold filter_empty_conv)
  have "res_fold read_event (pre @ [(pa_request p, page_upto p ?n {} [])], q) cs =
      Inr (pre @ [(pa_request p, page_upto p ?n ({} \<union> {r \<in> set [0..<?n]. pa_clicks p ! r}) ([] @ ?cl))], q)"
    unfolding cs_def by (rule read_clicks [OF assms]) auto
  then have clicks: "res_fold read_event (pre @ [(pa_request p, page_upto p ?n {} [])], q) cs =
      Inr (pre @ [(pa_request p, page_upto p ?n (set ?cl) ?cl)], q)" by simp
  have abandon: "read_event (pre @ [(pa_request p, pg)], q) (base_event p ''abandon'' t') =
      Inr (pre @ [(pa_request p, pg\<lparr>pg_abandoned := True\<rparr>)], q)" if "enrol_page (base_event p ''abandon'' t') pg = pg" for pg
    using that assms truthy_request [OF assms(1)] event_types by (simp add: read_event_def dget_last dset_last)
  have en: "enrol_page (base_event p ''abandon'' t') (page_upto p ?n (set ?cl) ?cl) = page_upto p ?n (set ?cl) ?cl"
    using assms(1) base_event_simulated [OF assms(1)] by (intro enrol_upto) simp_all
  have "page_upto p ?n (set ?cl) ?cl = (page_upto p ?n (set ?cl) ?cl)\<lparr>pg_abandoned := False\<rparr>"
    by (simp add: page_upto_def)
  then show ?thesis
    unfolding ev served_page_def Let_def
    using read_query [OF assms] read_impressions [OF assms order_refl] clicks abandon [OF en]
    by (cases "?cl = []") simp_all
qed

lemma read_pages:
  assumes "\<And>p t. (p, t) \<in> set ps \<Longrightarrow> page_ok p"
    and "distinct (map (\<lambda>(p, t). pa_request p) ps)" and "set (map (\<lambda>(p, t). pa_request p) ps) \<inter> set (keys pre) = {}"
  shows "res_fold read_event (pre, q) (concat (map (\<lambda>(p, t). impression_events p t) ps)) =
     Inr (pre @ map (\<lambda>(p, t). (pa_request p, served_page p)) ps, q)"
  using assms
proof (induction ps arbitrary: pre)
  case (Cons x ps)
  obtain p t where x: "x = (p, t)" by (cases x)
  have "page_ok p" "pa_request p \<notin> set (keys pre)" using Cons.prems by (auto simp: x)
  note r = read_page [OF this, of q t]
  have "res_fold read_event (pre @ [(pa_request p, served_page p)], q) (concat (map (\<lambda>(p, t). impression_events p t) ps)) =
      Inr ((pre @ [(pa_request p, served_page p)]) @ map (\<lambda>(p, t). (pa_request p, served_page p)) ps, q)"
    using Cons.prems by (intro Cons.IH) (auto simp: x)
  then show ?case using r by (simp add: x)
qed simp

lemma served_page_no_orphans: "\<not> orphan_clicks (served_page p)"
  by (auto simp: orphan_clicks_def served_page_def page_upto_def Let_def)

text \<open>C15: the event log is faithful: reading the events written for any sequence of served pages with
  different request ids gives back exactly those pages in order, with their documents, teams, clicks,
  dwell times and abandonment, no data-quality complaint, and their click matrix.\<close>

theorem event_log_roundtrip:
  assumes "\<And>p t. (p, t) \<in> set ps \<Longrightarrow> page_ok p" and "distinct (map (\<lambda>(p, t). pa_request p) ps)"
  shows "pages_from_events (concat (map (\<lambda>(p, t). impression_events p t) ps)) = Inr (map (\<lambda>(p, t). served_page p) ps, []) \<and>
     click_matrix (map (\<lambda>(p, t). served_page p) ps) k =
       map (\<lambda>(p, t). map (\<lambda>j. j < length (pa_docs p) \<and> pa_clicks p ! j) [0..<k]) ps"
proof -
  have "res_fold read_event ([], []) (concat (map (\<lambda>(p, t). impression_events p t) ps)) =
      Inr ([] @ map (\<lambda>(p, t). (pa_request p, served_page p)) ps, [])"
    using assms by (intro read_pages) auto
  moreover have "foldl (\<lambda>q pg. if orphan_clicks pg then count_dq s q else q) q0 (map (\<lambda>(p, t). served_page p) ps) = q0" for s q0
    by (induction ps) (auto simp: served_page_no_orphans case_prod_unfold)
  moreover have "map (\<lambda>j. int j + 1 \<in> pg_clicked (served_page p)) [0..<k] =
      map (\<lambda>j. j < length (pa_docs p) \<and> pa_clicks p ! j) [0..<k]" for p
    by (auto simp: served_page_def page_upto_def Let_def)
  ultimately show ?thesis
    by (simp add: pages_from_events_def comp_def case_prod_unfold click_matrix_def)
qed

theorem event_log_roundtrip_witness:
  "\<exists>p. pages_from_events (impression_events p 0) = Inr ([served_page p], []) \<and> pa_docs p = [10, 20] \<and> pa_clicks p = [False, True]"
proof -
  let ?p = "\<lparr>pa_session = ''s'', pa_request = ''r1'', pa_query = ''q'', pa_docs = [10, 20], pa_clicks = [False, True],
    pa_dwell = [0, 900], pa_experiment = Some ''e'', pa_variant = Some ''interleaved'', pa_teams = Some [''A'', ''B''], pa_simulated = None\<rparr>"
  have "page_ok ?p" by (simp add: page_ok_def)
  then have "pages_from_events (concat (map (\<lambda>(p, t). impression_events p t) [(?p, 0)])) = Inr ([served_page ?p], [])"
    using event_log_roundtrip [of "[(?p, 0)]" 10] by simp
  then show ?thesis by (intro exI [of _ ?p]) simp
qed

end
