(* ===== verification/Analyze_Events.thy ===== *)
theory Analyze_Events
  imports Events Rankers
begin

text \<open>
  \<open>py/hybridsearch/clicks/simulate.py\<close> (simulated experiment traffic as an event log) and
  \<open>clicks/analyze_events.py\<close> (the report of an event log).  What the report takes from scipy and numpy is
  the record \<open>stats_env\<close>; the configuration is the dict of its kinds, which \<open>Event_Log\<close> reads from its file.  The lemmas join the two: the
  simulated log is read back page by page, and the report counts every page exactly once.
\<close>

section \<open>Simulated traffic\<close>

record exp_config =
  ex_id :: string
  ex_kind :: string
  ex_allocation :: real
  ex_salt :: string
  ex_control :: string
  ex_treatment :: string

record 'g sim_env =
  sm_rng :: "'g rng_ops"
  sm_xxh :: "nat \<Rightarrow> string \<Rightarrow> nat" \<comment> \<open>\<open>xxhash.xxh64_intdigest\<close> with its seed\<close>
  sm_table :: ranker_table
  sm_queries :: "(qid, string) dict"
  sm_exp :: exp_config
  sm_model :: click_model
  sm_mean_queries :: real

definition hex_digit :: "nat \<Rightarrow> char" where
  "hex_digit d = char_of (if d < 10 then 48 + d else 87 + d)"

definition hex16 :: "nat \<Rightarrow> string" where
  \<comment> \<open>\<open>f"{n:016x}"\<close> of a number below \<open>2 ^ 64\<close>\<close>
  "hex16 n = map (\<lambda>i. hex_digit (n div 16 ^ (15 - i) mod 16)) [0..<16]"

definition pad8 :: "nat \<Rightarrow> string" where
  \<comment> \<open>\<open>f"{n:08d}"\<close>\<close>
  "pad8 n = (let s = str_nat n in replicate (8 - length s) CHR ''0'' @ s)"

definition SIM_EPOCH :: int where
  \<comment> \<open>2026-09-23 UTC in milliseconds\<close>
  "SIM_EPOCH = 1790121600000"

definition team_label :: "team \<Rightarrow> string" where
  "team_label t = (case t of Team_A \<Rightarrow> ''A'' | Team_B \<Rightarrow> ''B'')"

definition sim_request :: "string \<Rightarrow> nat \<Rightarrow> string" where
  "sim_request eid req = ''sim-'' @ eid @ ''-'' @ pad8 req"

definition sim_docid :: "(nat \<Rightarrow> string \<Rightarrow> nat) \<Rightarrow> docid \<Rightarrow> int" where
  "sim_docid xxh d = (if isdigit d then int (nat_of_digits d) else 10 ^ 12 + int (xxh 0 d mod 10 ^ 9))"

definition served_list :: "'g sim_env \<Rightarrow> string option \<Rightarrow> nat \<Rightarrow> 'g \<Rightarrow>
    (docid list \<times> string list option \<times> string option \<times> string option \<times> 'g) res" where
  \<comment> \<open>documents, teams, variant and experiment id of a page of a session assigned to \<open>arm\<close>\<close>
  "served_list E arm qi g =
     (let e = sm_exp E; lists = rt_lists (sm_table E) in
      case arm of
        None \<Rightarrow> res_bind (dlookup lists (ex_control e)) (\<lambda>la. Inr (la ! qi, None, None, None, g))
      | Some a \<Rightarrow>
          if ex_kind e = ''interleave'' then
            res_bind (dlookup lists (ex_control e)) (\<lambda>la. res_bind (dlookup lists (ex_treatment e)) (\<lambda>lb.
              res_bind (team_draft_random (draw_uniform (sm_rng E)) (la ! qi) (lb ! qi) (rt_k (sm_table E)) g) (\<lambda>(docs, teams, g').
                Inr (docs, Some (map team_label teams), Some ''interleaved'', Some (ex_id e), g'))))
          else
            (let ranker = (if a = ''control'' \<or> ex_kind e = ''aa'' then ex_control e else ex_treatment e)
             in res_bind (dlookup lists ranker) (\<lambda>l. Inr (l ! qi, None, Some a, Some (ex_id e), g))))"

definition sim_page :: "'g sim_env \<Rightarrow> string \<Rightarrow> string option \<Rightarrow> nat \<Rightarrow> 'g \<Rightarrow> (page_args \<times> 'g) res" where
  \<comment> \<open>one query of a session: what is shown and what the click model does with it\<close>
  "sim_page E sid arm req g =
     (let R = sm_rng E; t = sm_table E; (qi, g1) = draw_below R (length (rt_qids t)) g; q = rt_qids t ! qi in
      res_bind (served_list E arm qi g1) (\<lambda>(docs, teams, variant, eid, g2).
        res_bind (dlookup (rt_qrels t) q) (\<lambda>judged.
          let row = map (\<lambda>d. dget judged d 0) docs @ replicate (rt_k t - length docs) (- 1);
              (res, g3) = simulate R (sm_model E) [row] (rt_k t) g2;
              (dwell, g4) = sample_dwell_ms R (cr_satisfied res ! 0) g3
          in Inr (\<lparr>pa_session = sid, pa_request = sim_request (ex_id (sm_exp E)) req, pa_query = dget (sm_queries E) q q,
                   pa_docs = map (sim_docid (sm_xxh E)) docs, pa_clicks = take (length docs) (cr_clicks res ! 0),
                   pa_dwell = dwell, pa_experiment = eid, pa_variant = variant, pa_teams = teams,
                   pa_simulated = Some (model_name (sm_model E))\<rparr>, g4))))"

fun sim_session :: "'g sim_env \<Rightarrow> string \<Rightarrow> string option \<Rightarrow> nat \<Rightarrow> nat \<Rightarrow> 'g \<Rightarrow> (page_args list \<times> 'g) res" where
  \<comment> \<open>\<open>nq\<close> queries after \<open>req\<close> requests\<close>
  "sim_session E sid arm 0 req g = Inr ([], g)"
| "sim_session E sid arm (Suc nq) req g =
     res_bind (sim_page E sid arm (req + 1) g) (\<lambda>(p, g').
       res_bind (sim_session E sid arm nq (req + 1) g') (\<lambda>(ps, g''). Inr (p # ps, g'')))"

fun sim_sessions :: "'g sim_env \<Rightarrow> nat \<Rightarrow> nat \<Rightarrow> 'g \<Rightarrow> (page_args list \<times> 'g) res" where
  "sim_sessions E 0 req g = Inr ([], g)"
| "sim_sessions E (Suc n) req g =
     (let R = sm_rng E; (s, g1) = draw_below R (2 ^ 63) g; sid = hex16 s;
          arm = assign (sm_xxh E) (ex_salt (sm_exp E)) sid (ex_allocation (sm_exp E));
          (nq, g2) = rg_geometric R g1 (1 / sm_mean_queries E)
      in res_bind (sim_session E sid arm nq req g2) (\<lambda>(ps, g3).
           res_bind (sim_sessions E n (req + length ps) g3) (\<lambda>(ps', g4). Inr (ps @ ps', g4))))"

definition page_times :: "page_args list \<Rightarrow> (page_args \<times> int) list" where
  \<comment> \<open>a page every 30 seconds from \<open>SIM_EPOCH\<close>\<close>
  "page_times ps = map (\<lambda>(i, p). (p, SIM_EPOCH + 30000 * int i)) (enumerate 0 ps)"

definition simulate_experiment :: "'g sim_env \<Rightarrow> nat \<Rightarrow> 'g \<Rightarrow> (event list \<times> 'g) res" where
  "simulate_experiment E n_sessions g =
     res_bind (sim_sessions E n_sessions 0 g) (\<lambda>(ps, g').
       Inr (concat (map (\<lambda>(p, t). impression_events p t) (page_times ps)), g'))"

section \<open>The report\<close>

record 'g stats_env =
  se_rng :: "'g rng_ops"
  se_sf :: "real \<Rightarrow> real" \<comment> \<open>\<open>norm.sf\<close>\<close>
  se_binom_cdf :: "nat \<Rightarrow> nat \<Rightarrow> real"
  se_binomtest :: "nat \<Rightarrow> nat \<Rightarrow> real" \<comment> \<open>\<open>binomtest(k, n, 0.5).pvalue\<close>\<close>
  se_chisquare :: "real list \<Rightarrow> real list \<Rightarrow> real \<times> real"
  se_quantile :: "real list \<Rightarrow> real \<Rightarrow> real"
  se_n_boot :: nat

definition kind_of :: "string \<Rightarrow> page list \<Rightarrow> (string, string) dict \<Rightarrow> string" where
  "kind_of exp_id pages config =
     (if dget config exp_id [] \<noteq> [] then dget config exp_id []
      else if list_ex interleaved pages then ''interleave'' else ''ab'')"

definition page_outcome :: "page \<Rightarrow> real res" where
  \<comment> \<open>+1 when team A wins the page, -1 when team B does\<close>
  "page_outcome p =
     (let ranks = sort (keys (pg_docs p)); teams = map (\<lambda>r. dget (pg_teams p) r []) ranks;
          clicked = filter (\<lambda>i. ranks ! i \<in> pg_clicked p) [0..<length ranks]
      in res_bind (credit_labels ''A'' ''B'' teams clicked) (\<lambda>(ca, cb, w). Inr (real_of_int (winner_sign w))))"

record interleave_entry =
  ie_report :: interleave_result
  ie_a_share :: "real option"
  ie_rank1_n :: nat
  ie_balance_p :: "real option"

record ab_entry =
  ae_variants :: "(string, nat \<times> nat) dict" \<comment> \<open>pages and sessions of each arm\<close>
  ae_srm :: "srm_result option"
  ae_ab :: "(string \<times> string \<times> ab_result) option" \<comment> \<open>control, treatment and their comparison\<close>

datatype entry_body = Interleave_Entry interleave_entry | AB_Entry ab_entry

record entry =
  en_kind :: string
  en_pages :: nat
  en_body :: entry_body

definition interleave_body :: "'g stats_env \<Rightarrow> page list \<Rightarrow> 'g \<Rightarrow> (interleave_entry \<times> 'g) res" where
  "interleave_body S pgs g =
     res_bind (res_map page_outcome pgs) (\<lambda>outcomes.
       let top = filter (\<lambda>p. dhas (pg_teams p) 1) pgs; n = length top;
           a = length (filter (\<lambda>p. dget (pg_teams p) 1 [] = ''A'') top);
           (r, g') = interleave_report (se_binom_cdf S) (se_quantile S) (se_rng S) (se_n_boot S) outcomes g
       in Inr (\<lparr>ie_report = r, ie_a_share = (if n \<noteq> 0 then Some (real a / real n) else None), ie_rank1_n = n,
                ie_balance_p = (if n \<noteq> 0 then Some (se_binomtest S a n) else None)\<rparr>, g'))"

definition n_sessions :: "page list \<Rightarrow> nat" where
  "n_sessions pgs = card (set (map pg_session pgs))"

definition arm_of :: "page \<Rightarrow> string" where
  \<comment> \<open>\<open>p.variant or "?"\<close>\<close>
  "arm_of p = (if truthy (pg_variant p) then the (pg_variant p) else ''?'')"

definition ab_body :: "'g stats_env \<Rightarrow> nat \<Rightarrow> page list \<Rightarrow> 'g \<Rightarrow> ab_entry \<times> 'g" where
  "ab_body S k pgs g =
     (let arms = group_by arm_of pgs; names = sort (keys arms);
          ctrl = (if dhas arms ''control'' then ''control'' else names ! 0);
          trt = (if dhas arms ''treatment'' then Some ''treatment'' else if 1 < length names then Some (names ! 1) else None);
          variants = map (\<lambda>a. (a, length (dget arms a []), n_sessions (dget arms a []))) names;
          srm = (if 1 < length names
                 then Some (srm_check (se_chisquare S) (map (\<lambda>a. n_sessions (dget arms a [])) names) (replicate (length names) 1) (5 / 10000))
                 else None)
      in case trt of
           None \<Rightarrow> (\<lparr>ae_variants = variants, ae_srm = srm, ae_ab = None\<rparr>, g)
         | Some t \<Rightarrow>
             let (r, g') = ab_report (se_sf S) (se_quantile S) (se_rng S) (se_n_boot S)
                             (click_matrix (dget arms ctrl []) k) (click_matrix (dget arms t []) k) g
             in (\<lparr>ae_variants = variants, ae_srm = srm, ae_ab = Some (ctrl, t, r)\<rparr>, g'))"

definition analyse_experiment :: "'g stats_env \<Rightarrow> (string, string) dict \<Rightarrow> nat \<Rightarrow> string \<Rightarrow> page list \<Rightarrow> 'g \<Rightarrow> (entry \<times> 'g) res" where
  "analyse_experiment S config k exp_id pgs g =
     (let kind = kind_of exp_id pgs config in
      if kind = ''interleave'' then
        res_bind (interleave_body S pgs g) (\<lambda>(b, g').
          Inr (\<lparr>en_kind = kind, en_pages = length pgs, en_body = Interleave_Entry b\<rparr>, g'))
      else (let (b, g') = ab_body S k pgs g
            in Inr (\<lparr>en_kind = kind, en_pages = length pgs, en_body = AB_Entry b\<rparr>, g')))"

fun analyse_experiments :: "'g stats_env \<Rightarrow> (string, string) dict \<Rightarrow> nat \<Rightarrow> (string \<times> page list) list \<Rightarrow> 'g \<Rightarrow>
    ((string, entry) dict \<times> 'g) res" where
  "analyse_experiments S config k [] g = Inr ([], g)"
| "analyse_experiments S config k ((e, pgs) # r) g =
     res_bind (analyse_experiment S config k e pgs g) (\<lambda>(x, g1).
       res_bind (analyse_experiments S config k r g1) (\<lambda>(xs, g2). Inr ((e, x) # xs, g2)))"

record events_report =
  er_events :: nat
  er_pages :: nat
  er_sessions :: nat
  er_dq :: dq
  er_simulated :: "(string, nat) dict"
  er_label :: string
  er_not_enrolled :: "(nat \<times> (string, real) dict) option"
  er_experiments :: "(string, entry) dict"

definition sim_label :: "(string, nat) dict \<Rightarrow> string" where
  "sim_label sims =
     (if sims = [] then ''logged traffic''
      else ''SIMULATED users: '' @ join_with '', '' (map (\<lambda>(m, n). m @ '' ('' @ str_nat n @ '' pages)'') sims) @
           ''; relevance from TREC DL graded qrels'')"

definition analyse :: "'g stats_env \<Rightarrow> (string, string) dict \<Rightarrow> nat \<Rightarrow> event list \<Rightarrow> 'g \<Rightarrow> (events_report \<times> 'g) res" where
  "analyse S config k events g =
     res_bind (pages_from_events events) (\<lambda>(pages, q).
       let sims = map (\<lambda>(m, ps). (the m, length ps)) (group_by pg_simulated (filter (\<lambda>p. truthy (pg_simulated p)) pages));
           by_exp = group_by pg_experiment pages;
           named = concat (map (\<lambda>(e, ps). case e of Some x \<Rightarrow> [(x, ps)] | None \<Rightarrow> []) by_exp);
           none = (if dhas by_exp None
                   then Some (length (dget by_exp None []),
                     map (\<lambda>(m, v). (m, mean v)) (impression_metrics (click_matrix (dget by_exp None []) k)))
                   else None)
       in res_bind (analyse_experiments S config k (py_sorted fst named) g) (\<lambda>(xs, g').
            Inr (\<lparr>er_events = length events, er_pages = length pages, er_sessions = n_sessions pages, er_dq = q,
                  er_simulated = sims, er_label = sim_label sims, er_not_enrolled = none, er_experiments = xs\<rparr>, g')))"

section \<open>Every page is counted once\<close>

lemma analyse_experiments_keep:
  "analyse_experiments S config k xs g = Inr (ys, g') \<Longrightarrow>
     map (\<lambda>(e, x). (e, en_pages x)) ys = map (\<lambda>(e, ps). (e, length ps)) xs"
proof (induction xs arbitrary: ys g)
  case (Cons x xs)
  obtain e ps where x: "x = (e, ps)" by (cases x)
  obtain a g1 zs where a: "analyse_experiment S config k e ps g = Inr (a, g1)"
    and zs: "analyse_experiments S config k xs g1 = Inr (zs, g')" and ys: "ys = (e, a) # zs"
    using Cons.prems by (auto simp: x)
  have "en_pages a = length ps"
    using a by (auto simp: analyse_experiment_def Let_def case_prod_unfold split: if_splits)
  then show ?case using Cons.IH [OF zs] by (simp add: x ys)
qed simp

lemma enrolled_total:
  assumes "dict_ok d"
  shows "sum_list (map (\<lambda>(k, g). length g) d) = length (dget d None []) +
     sum_list (map (length \<circ> snd) (concat (map (\<lambda>(e, ps). case e of Some x \<Rightarrow> [(x, ps)] | None \<Rightarrow> []) d)))"
  using assms
proof (induction d)
  case (Cons x d)
  obtain e ps where x: "x = (e, ps)" by (cases x)
  have "dget d None [] = []" if "e = None" using Cons.prems that by (intro dget_absent) (simp add: x)
  then show ?case using Cons by (cases e) (auto simp: x)
qed simp

lemma enrolled_keys:
  "dict_ok d \<Longrightarrow> distinct (map fst (concat (map (\<lambda>(e, ps). case e of Some x \<Rightarrow> [(x, ps)] | None \<Rightarrow> []) d)))"
proof (induction d)
  case (Cons x d)
  obtain e ps where x: "x = (e, ps)" by (cases x)
  have "Some y \<in> fst ` set d"
    if "(y, qs) \<in> set (concat (map (\<lambda>(e, ps). case e of Some x \<Rightarrow> [(x, ps)] | None \<Rightarrow> []) d))" for y qs
    using that by (force split: option.splits)
  then show ?case using Cons by (cases e) (auto simp: x)
qed simp

text \<open>The event report partitions the traffic: every page is counted either as not enrolled or in
  exactly one experiment, and the experiments are listed once each in the order of their ids.\<close>

theorem analyse_partition:
  assumes "analyse S config k events g = Inr (r, g')"
  shows "er_pages r = (case er_not_enrolled r of None \<Rightarrow> 0 | Some (n, m) \<Rightarrow> n) +
       sum_list (map (\<lambda>(e, x). en_pages x) (er_experiments r)) \<and>
     sorted (keys (er_experiments r)) \<and> distinct (keys (er_experiments r))"
proof -
  obtain pages q where pg: "pages_from_events events = Inr (pages, q)"
    using assms by (auto simp: analyse_def)
  define by_exp named where "by_exp = group_by pg_experiment pages"
    and "named = concat (map (\<lambda>(e, ps). case e of Some x \<Rightarrow> [(x, ps)] | None \<Rightarrow> []) by_exp)"
  obtain xs where xs: "analyse_experiments S config k (py_sorted fst named) g = Inr (xs, g')"
    and r: "er_pages r = length pages" "er_experiments r = xs"
      "er_not_enrolled r = (if dhas by_exp None
                   then Some (length (dget by_exp None []),
                     map (\<lambda>(m, v). (m, mean v)) (impression_metrics (click_matrix (dget by_exp None []) k)))
                   else None)"
    using assms pg by (auto simp: analyse_def by_exp_def named_def Let_def)
  note m = analyse_experiments_keep [OF xs]
  have ok: "dict_ok by_exp" by (simp add: by_exp_def)
  have keys: "keys xs = map fst (py_sorted fst named)"
    using arg_cong [OF m, of "map fst"] by (simp add: comp_def case_prod_unfold)
  have "sum_list (map (\<lambda>(e, x). en_pages x) xs) = sum_list (map (length \<circ> snd) (py_sorted fst named))"
    using arg_cong [OF m, of "sum_list \<circ> map snd"] by (simp add: comp_def case_prod_unfold)
  also have "\<dots> = sum_list (map (length \<circ> snd) named)"
    by (metis mset_map sorted_asc.rank_mset sum_mset_sum_list)
  finally have sum: "sum_list (map (\<lambda>(e, x). en_pages x) xs) = sum_list (map (length \<circ> snd) named)" .
  have "length pages = length (dget by_exp None []) + sum_list (map (length \<circ> snd) named)"
    using enrolled_total [OF ok] group_by_total [of pg_experiment pages] by (simp add: named_def by_exp_def)
  moreover have "dget by_exp None [] = []" if "\<not> dhas by_exp None"
    using that by (simp add: dget_absent dhas_iff)
  moreover have "distinct (keys xs)"
  proof -
    have "mset (map fst (py_sorted fst named)) = mset (map fst named)" by (metis mset_map sorted_asc.rank_mset)
    then show ?thesis using enrolled_keys [OF ok] unfolding keys named_def by (metis mset_eq_imp_distinct_iff)
  qed
  moreover have "sorted (keys xs)" unfolding keys by (rule sorted_asc.rank_sorted)
  ultimately show ?thesis using sum by (simp add: r)
qed

definition demo_stats :: "unit stats_env" where
  "demo_stats =
     \<lparr>se_rng = \<lparr>rg_random = \<lambda>g k. (replicate k 0, g), rg_integers = \<lambda>g n k. (replicate k 0, g), rg_normal = \<lambda>g k. (replicate k 0, g),
        rg_geometric = \<lambda>g x. (1, g), rg_multinomial = \<lambda>g n ps k. (replicate k [], g), rg_choice = \<lambda>g ps. (0, g)\<rparr>,
      se_sf = \<lambda>x. 0, se_binom_cdf = \<lambda>k n. 1, se_binomtest = \<lambda>k n. 1, se_chisquare = \<lambda>xs ys. (0, 1),
      se_quantile = \<lambda>xs q. 0, se_n_boot = 10\<rparr>"

theorem analyse_partition_witness:
  "\<exists>r :: events_report. er_pages r = 1 \<and> keys (er_experiments r) = [''e''] \<and>
     er_pages r = (case er_not_enrolled r of None \<Rightarrow> 0 | Some (n, m) \<Rightarrow> n) + sum_list (map (\<lambda>(e, x). en_pages x) (er_experiments r))"
proof -
  let ?e = "\<lparr>ev_type = Some ''query'', ev_session = Some ''s'', ev_request = Some ''r'', ev_query = Some ''q'', ev_ts = 0,
    ev_experiment = Some ''e'', ev_variant = Some ''control'', ev_simulated = None, ev_doc = None, ev_rank = None, ev_team = None, ev_dwell = None\<rparr>"
  have pages: "pages_from_events [?e] = Inr ([enrol_page ?e (new_page ''r'' ?e)], [])"
    by (simp add: pages_from_events_def read_event_def event_types truthy_def orphan_clicks_def enrol_page_def new_page_def dset_def Let_def)
  let ?p = "enrol_page ?e (new_page ''r'' ?e)"
  have pg: "pg_experiment ?p = Some ''e''" "pg_teams ?p = []" "pg_simulated ?p = None" "pg_variant ?p = Some ''control''"
    by (simp_all add: enrol_page_def new_page_def truthy_def)
  have arms: "group_by arm_of [?p] = [(''control'', [?p])]"
    by (simp add: group_by_def arm_of_def pg truthy_def dset_def)
  have "\<exists>b. ab_body demo_stats 10 [?p] () = (b, ())"
    unfolding ab_body_def arms Let_def by (simp add: dhas_def)
  then obtain b where b: "ab_body demo_stats 10 [?p] () = (b, ())" ..
  have x: "analyse_experiment demo_stats [] 10 ''e'' [?p] () = Inr (\<lparr>en_kind = ''ab'', en_pages = 1, en_body = AB_Entry b\<rparr>, ())"
    by (simp add: analyse_experiment_def kind_of_def interleaved_def pg b)
  have g: "group_by pg_experiment [?p] = [(Some ''e'', [?p])]" "filter (\<lambda>p. truthy (pg_simulated p)) [?p] = []"
    by (simp_all add: group_by_def pg dset_def truthy_def)
  obtain r where r: "analyse demo_stats [] 10 [?e] () = Inr (r, ())" and v: "er_pages r = 1" "keys (er_experiments r) = [''e'']"
    unfolding analyse_def pages res_bind.simps prod.case g Let_def by (simp add: dhas_def py_sorted_def x)
  show ?thesis by (intro exI [of _ r] conjI v analyse_partition [OF r, THEN conjunct1])
qed

section \<open>What a served page tells the report\<close>

lemma served_docs: "keys (pg_docs (served_page p)) = map (\<lambda>r. int r + 1) [0..<length (pa_docs p)]"
  by (simp add: served_page_def page_upto_def Let_def comp_def)

lemma dget_ranked: "r < n \<Longrightarrow> dget (map (\<lambda>r. (int r + 1, f r)) [0..<n]) (int r + 1) z = f r"
proof -
  assume "r < n"
  then have "(int r + 1, f r) \<in> set (map (\<lambda>r. (int r + 1, f r)) [0..<n])" by auto
  moreover have "dict_ok (map (\<lambda>r. (int r + 1, f r)) [0..<n])"
    by (simp add: comp_def distinct_map inj_on_def)
  ultimately show ?thesis by (intro dget_present)
qed

lemma team_label_inject: "team_label t = team_label u \<longleftrightarrow> t = u"
  by (cases t; cases u) (simp_all add: team_label_def)

text \<open>The report credits a served page as team-draft interleaving does: from the logged teams and
  clicks of a page it computes exactly the winner that \<open>team_draft_credit\<close> gives for the draft and the
  positions clicked.\<close>

theorem page_outcome_is_credit:
  assumes "pa_teams p = Some (map team_label ts)" and "length ts = length (pa_docs p)"
  shows "page_outcome (served_page p) =
     res_bind (team_draft_credit ts (filter (\<lambda>r. pa_clicks p ! r) [0..<length (pa_docs p)]))
       (\<lambda>(ca, cb, w). Inr (real_of_int (winner_sign w)))"
proof -
  let ?n = "length (pa_docs p)"
  let ?ranks = "map (\<lambda>r. int r + 1) [0..<?n]"
  have "sorted ?ranks" by (simp add: sorted_iff_nth_mono)
  then have ranks: "sort (keys (pg_docs (served_page p))) = ?ranks"
    unfolding served_docs by (rule sorted_sort_id)
  have teams: "map (\<lambda>r. dget (pg_teams (served_page p)) r []) ?ranks = map team_label ts"
  proof -
    have "pg_teams (served_page p) = map (\<lambda>r. (int r + 1, map team_label ts ! r)) [0..<?n]"
      using assms(1) by (simp add: served_page_def page_upto_def Let_def)
    then have "map (\<lambda>r. dget (pg_teams (served_page p)) r []) ?ranks = map (\<lambda>r. map team_label ts ! r) [0..<?n]"
      by (simp add: comp_def dget_ranked)
    also have "\<dots> = map team_label ts" using assms(2) by (metis length_map map_nth)
    finally show ?thesis .
  qed
  have clicked: "filter (\<lambda>i. ?ranks ! i \<in> pg_clicked (served_page p)) [0..<length ?ranks]
      = filter (\<lambda>r. pa_clicks p ! r) [0..<?n]"
    by (intro filter_cong) (auto simp: served_page_def page_upto_def Let_def)
  have "credit_labels ''A'' ''B'' (map team_label ts) cl = team_draft_credit ts cl" for cl
  proof -
    have "filter (\<lambda>p. map team_label ts ! p = team_label t) (remdups cl) = filter (\<lambda>p. ts ! p = t) (remdups cl)"
      if "list_all (\<lambda>p. p < length ts) (remdups cl)" for t
      using that by (intro filter_cong) (auto simp: list_all_iff team_label_inject)
    from this [of Team_A] this [of Team_B] show ?thesis
      by (simp only: credit_labels_def team_draft_credit_def Let_def length_map team_label_def team.case cong: if_cong)
  qed
  then show ?thesis unfolding page_outcome_def ranks teams Let_def clicked by simp
qed

theorem page_outcome_is_credit_witness:
  "\<exists>p :: page_args. pa_clicks p = [False, True] \<and> page_outcome (served_page p) = Inr (- 1)"
proof -
  let ?p = "\<lparr>pa_session = ''s'', pa_request = ''r1'', pa_query = ''q'', pa_docs = [10, 20], pa_clicks = [False, True],
    pa_dwell = [0, 900], pa_experiment = Some ''e'', pa_variant = Some ''interleaved'',
    pa_teams = Some (map team_label [Team_A, Team_B]), pa_simulated = None\<rparr>"
  have "page_outcome (served_page ?p) = Inr (- 1)"
    using page_outcome_is_credit [of ?p "[Team_A, Team_B]"]
    by (simp add: team_draft_credit_def credit_labels_def winner_of_def winner_sign_def)
  then show ?thesis by (intro exI [of _ ?p]) simp
qed

section \<open>The simulated log is read back\<close>

definition sim_ok :: "'g sim_env \<Rightarrow> bool" where
  \<comment> \<open>a table as \<open>build_table\<close> makes it, a generator as numpy documents it, named model and experiment\<close>
  "sim_ok E =
     (uniform_draws (sm_rng E) \<and> ex_id (sm_exp E) \<noteq> [] \<and> model_name (sm_model E) \<noteq> [] \<and>
      (\<forall>g n. 0 < n \<longrightarrow> fst (draw_below (sm_rng E) n g) < n) \<and> rt_qids (sm_table E) \<noteq> [] \<and>
      (\<forall>(name, ls) \<in> set (rt_lists (sm_table E)). length ls = length (rt_qids (sm_table E)) \<and>
         (\<forall>l \<in> set ls. length l \<le> rt_k (sm_table E))) \<and>
      (case sm_model E of PBM _ _ _ eta \<Rightarrow> length eta = rt_k (sm_table E) | DBN _ _ _ _ \<Rightarrow> True))"

lemma team_draft_random_length:
  assumes "team_draft_random rnd a b k g = Inr (out, teams, g')"
  shows "length teams = length out \<and> length out \<le> k"
proof -
  obtain t where t: "draft_loop (\<lambda>g. let (x, g') = rnd g in Some (x < 1 / 2, g')) a b k (draft_start g) = Inr t"
    and o: "out = dr_out t" "teams = dr_teams t"
    using assms by (auto simp: team_draft_random_def)
  show ?thesis using draft_result [OF t] by (simp add: o draft_inv_def)
qed

lemma dlookup_in: "dlookup d k = Inr v \<Longrightarrow> (k, v) \<in> set d"
  by (auto simp: dlookup_def dest: map_of_SomeD split: option.splits)

lemma table_list:
  assumes "sim_ok E" and "dlookup (rt_lists (sm_table E)) name = Inr ls" and "qi < length (rt_qids (sm_table E))"
  shows "length (ls ! qi) \<le> rt_k (sm_table E)"
  using assms(1,3) dlookup_in [OF assms(2)] by (fastforce simp: sim_ok_def)

definition enrolment_ok :: "exp_config \<Rightarrow> string list option \<Rightarrow> string option \<Rightarrow> string option \<Rightarrow> bool" where
  \<comment> \<open>how teams, variant and experiment id of a page go together\<close>
  "enrolment_ok e teams variant eid =
     (case eid of None \<Rightarrow> teams = None \<and> variant = None
      | Some i \<Rightarrow> i = ex_id e \<and> (teams \<noteq> None \<longleftrightarrow> ex_kind e = ''interleave''))"

lemma served_list_ok:
  assumes "sim_ok E" and "served_list E arm qi g = Inr (docs, teams, variant, eid, g')" and "qi < length (rt_qids (sm_table E))"
  shows "length docs \<le> rt_k (sm_table E) \<and> enrolment_ok (sm_exp E) teams variant eid \<and>
     (case teams of None \<Rightarrow> True | Some ts \<Rightarrow> \<exists>us. ts = map team_label us \<and> length us = length docs)"
  using assms(2) table_list [OF assms(1) _ assms(3)] team_draft_random_length
  by (fastforce simp: served_list_def Let_def enrolment_ok_def split: option.splits if_splits)

lemma simulate_row_length:
  assumes "sim_ok E" and "length row = rt_k (sm_table E)"
  shows "length (cr_clicks (fst (simulate (sm_rng E) (sm_model E) [row] (rt_k (sm_table E)) g)) ! 0) = rt_k (sm_table E)"
proof -
  have u: "length (fst (rg_random (sm_rng E) h n)) = n" for h n
    using assms(1) by (simp add: sim_ok_def uniform_draws_def)
  have eta: "\<And>a b c d. sm_model E = PBM a b c d \<Longrightarrow> length d = rt_k (sm_table E)"
    using assms(1) by (simp add: sim_ok_def)
  show ?thesis
    by (cases "sm_model E")
       (simp_all add: simulate_def Let_def case_prod_unfold pbm_row_def dbn_row_def u assms(2) eta)
qed

lemma sim_page_ok:
  assumes "sim_ok E" and "sim_page E sid arm req g = Inr (p, g')"
  shows "page_ok p \<and> pa_request p = sim_request (ex_id (sm_exp E)) req \<and>
     enrolment_ok (sm_exp E) (pa_teams p) (pa_variant p) (pa_experiment p) \<and> pa_simulated p = Some (model_name (sm_model E))"
proof -
  let ?R = "sm_rng E" and ?t = "sm_table E"
  obtain qi g1 where d: "draw_below ?R (length (rt_qids ?t)) g = (qi, g1)" by fastforce
  have qi: "qi < length (rt_qids ?t)"
    using assms(1) d by (metis sim_ok_def fst_conv length_greater_0_conv)
  obtain docs teams variant eid g2 judged where sv: "served_list E arm qi g1 = Inr (docs, teams, variant, eid, g2)"
    and p: "p = \<lparr>pa_session = sid, pa_request = sim_request (ex_id (sm_exp E)) req,
        pa_query = dget (sm_queries E) (rt_qids ?t ! qi) (rt_qids ?t ! qi), pa_docs = map (sim_docid (sm_xxh E)) docs,
        pa_clicks = take (length docs) (cr_clicks (fst (simulate ?R (sm_model E)
          [map (\<lambda>d. dget judged d 0) docs @ replicate (rt_k ?t - length docs) (- 1)] (rt_k ?t) g2)) ! 0),
        pa_dwell = pa_dwell p, pa_experiment = eid, pa_variant = variant, pa_teams = teams,
        pa_simulated = Some (model_name (sm_model E))\<rparr>"
    using assms(2) by (fastforce simp: sim_page_def d Let_def case_prod_unfold)
  note ok = served_list_ok [OF assms(1) sv qi]
  have "length (pa_clicks p) = length docs"
    by (subst p) (use ok in \<open>simp add: simulate_row_length [OF assms(1)]\<close>)
  moreover have "pa_docs p = map (sim_docid (sm_xxh E)) docs" "pa_request p = sim_request (ex_id (sm_exp E)) req"
    "pa_experiment p = eid" "pa_variant p = variant" "pa_teams p = teams" "pa_simulated p = Some (model_name (sm_model E))"
    by (subst p, simp)+
  moreover have "team_label t \<noteq> []" "[] \<noteq> team_label t" for t by (cases t; simp add: team_label_def)+
  ultimately show ?thesis
    using ok assms(1)
    by (auto simp: page_ok_def enrolment_ok_def sim_ok_def sim_request_def list_all_iff split: option.splits)
qed

lemma sim_session_pages:
  assumes "sim_ok E" and "sim_session E sid arm nq req g = Inr (ps, g')"
  shows "map pa_request ps = map (sim_request (ex_id (sm_exp E))) [req + 1..<req + 1 + length ps] \<and>
     (\<forall>p \<in> set ps. page_ok p \<and> enrolment_ok (sm_exp E) (pa_teams p) (pa_variant p) (pa_experiment p) \<and>
        pa_simulated p = Some (model_name (sm_model E)))"
  using assms(2)
proof (induction nq arbitrary: req g ps)
  case (Suc nq)
  obtain p g1 qs where p: "sim_page E sid arm (req + 1) g = Inr (p, g1)"
    and qs: "sim_session E sid arm nq (req + 1) g1 = Inr (qs, g')" and ps: "ps = p # qs"
    using Suc.prems by auto
  show ?case using Suc.IH [OF qs] sim_page_ok [OF assms(1) p] by (simp add: ps upt_conv_Cons del: upt_Suc)
qed simp

lemma sim_sessions_pages:
  assumes "sim_ok E" and "sim_sessions E n req g = Inr (ps, g')"
  shows "map pa_request ps = map (sim_request (ex_id (sm_exp E))) [req + 1..<req + 1 + length ps] \<and>
     (\<forall>p \<in> set ps. page_ok p \<and> enrolment_ok (sm_exp E) (pa_teams p) (pa_variant p) (pa_experiment p) \<and>
        pa_simulated p = Some (model_name (sm_model E)))"
  using assms(2)
proof (induction n arbitrary: req g ps)
  case (Suc n)
  obtain sid arm nq g2 ps1 g3 ps2 where s: "sim_session E sid arm nq req g2 = Inr (ps1, g3)"
    and r: "sim_sessions E n (req + length ps1) g3 = Inr (ps2, g')" and ps: "ps = ps1 @ ps2"
    using Suc.prems by (auto simp: Let_def case_prod_unfold)
  have "[req + 1..<req + 1 + length ps] = [req + 1..<req + 1 + length ps1] @ [req + length ps1 + 1..<req + length ps1 + 1 + length ps2]"
    using upt_add_eq_append [of "req + 1" "req + 1 + length ps1" "length ps2"] by (simp add: ps add.assoc)
  then show ?case
    using sim_session_pages [OF assms(1) s] Suc.IH [OF r] by (auto simp: ps simp del: upt_Suc)
qed simp

lemma nat_of_digits_padded: "nat_of_digits (replicate z CHR ''0'' @ s) = nat_of_digits s"
proof (induction z)
  case (Suc z)
  then show ?case by (simp add: nat_of_digits_def code_def)
qed simp

lemma sim_request_inject: "sim_request e m = sim_request e n \<longleftrightarrow> m = n"
proof -
  have "nat_of_digits (pad8 n) = n" for n by (simp add: pad8_def Let_def nat_of_digits_padded)
  then show ?thesis unfolding sim_request_def by (metis same_append_eq)
qed

text \<open>The simulator and the log reader agree: the log of a simulated experiment is read back without
  any data-quality complaint as one page per query, in order, with request ids numbered from 1, every
  page either unenrolled or of this experiment, and interleaved only in an interleaving experiment.\<close>

theorem simulated_log_reads_back:
  assumes "sim_ok E" and "simulate_experiment E n g = Inr (evs, g')"
  shows "\<exists>ps. sim_sessions E n 0 g = Inr (ps, g') \<and> pages_from_events evs = Inr (map served_page ps, []) \<and>
     map pa_request ps = map (sim_request (ex_id (sm_exp E))) [1..<length ps + 1] \<and>
     (\<forall>p \<in> set ps. pg_simulated (served_page p) = Some (model_name (sm_model E)) \<and>
        (pg_experiment (served_page p) = None \<or> pg_experiment (served_page p) = Some (ex_id (sm_exp E))) \<and>
        (interleaved (served_page p) \<longrightarrow> ex_kind (sm_exp E) = ''interleave''))"
proof -
  obtain ps where ps: "sim_sessions E n 0 g = Inr (ps, g')"
    and evs: "evs = concat (map (\<lambda>(p, t). impression_events p t) (page_times ps))"
    using assms(2) by (auto simp: simulate_experiment_def)
  note ok = sim_sessions_pages [OF assms(1) ps]
  have fst: "map fst (page_times ps) = ps"
    by (simp add: page_times_def comp_def case_prod_unfold enumerate_map_snd)
  have req: "map (\<lambda>(p, t). pa_request p) (page_times ps) = map pa_request ps"
    by (subst (2) fst [symmetric]) (simp add: comp_def case_prod_unfold)
  have "distinct (map pa_request ps)"
    using ok by (simp add: distinct_map inj_on_def sim_request_inject del: upt_Suc)
  moreover have "page_ok p" if "(p, t) \<in> set (page_times ps)" for p t
    using ok that fst by (metis fst_conv image_eqI list.set_map)
  ultimately have "res_fold read_event ([], []) evs = Inr ([] @ map (\<lambda>(p, t). (pa_request p, served_page p)) (page_times ps), [])"
    unfolding evs by (intro read_pages) (simp_all add: req)
  moreover have "foldl (\<lambda>q pg. if orphan_clicks pg then count_dq s q else q) q0 (map served_page qs) = q0"
    for s q0 and qs
    by (induction qs) (auto simp: served_page_no_orphans)
  moreover have "map (\<lambda>(p, t). served_page p) (page_times ps) = map served_page ps"
    by (subst (2) fst [symmetric]) (simp add: comp_def case_prod_unfold)
  ultimately have "pages_from_events evs = Inr (map served_page ps, [])"
    by (simp add: pages_from_events_def comp_def case_prod_unfold)
  moreover have "pa_experiment p = None \<or> pa_experiment p = Some (ex_id (sm_exp E))" "pa_teams p \<noteq> None \<longrightarrow> ex_kind (sm_exp E) = ''interleave''"
    if "p \<in> set ps" for p
  proof -
    have "enrolment_ok (sm_exp E) (pa_teams p) (pa_variant p) (pa_experiment p)" using ok that by blast
    then show "pa_experiment p = None \<or> pa_experiment p = Some (ex_id (sm_exp E))"
      "pa_teams p \<noteq> None \<longrightarrow> ex_kind (sm_exp E) = ''interleave''"
      by (auto simp: enrolment_ok_def split: option.splits)
  qed
  moreover have "pg_simulated (served_page p) = pa_simulated p" "pg_experiment (served_page p) = pa_experiment p"
    "interleaved (served_page p) \<longrightarrow> pa_teams p \<noteq> None" for p
    by (auto simp: served_page_def page_upto_def Let_def interleaved_def split: option.splits)
  ultimately show ?thesis using ok ps
    by (intro exI [of _ ps]) (metis add.commute plus_nat.add_0)
qed

definition demo_sim :: "unit sim_env" where
  "demo_sim =
     \<lparr>sm_rng = se_rng demo_stats, sm_xxh = (\<lambda>s t. 0),
      sm_table = \<lparr>rt_qids = [''7''], rt_lists = [(''bm25'', [[''1'', ''2'']]), (''dense'', [[''2'', ''3'']])],
        rt_qrels = [(''7'', [(''2'', 1)])], rt_k = 2\<rparr>,
      sm_queries = [(''7'', ''solar'')],
      sm_exp = \<lparr>ex_id = ''e'', ex_kind = ''ab'', ex_allocation = 1, ex_salt = ''x'', ex_control = ''bm25'', ex_treatment = ''dense''\<rparr>,
      sm_model = DBN ''dbn'' [1/2, 1] [0, 1/2] 1, sm_mean_queries = 2\<rparr>"

lemma sim_ok_demo: "sim_ok demo_sim"
  by (simp add: sim_ok_def demo_sim_def demo_stats_def uniform_draws_def model_name_def draw_below_def list_all_iff)

lemma demo_page: "\<exists>p. sim_page demo_sim sid arm req g = Inr (p, ())"
  by (cases arm)
     (simp_all add: sim_page_def draw_below_def served_list_def demo_sim_def demo_stats_def dlookup_def Let_def case_prod_unfold)

theorem simulated_log_reads_back_witness:
  "\<exists>evs (ps :: page_args list). simulate_experiment demo_sim 1 () = Inr (evs, ()) \<and> pages_from_events evs = Inr (map served_page ps, []) \<and>
     map pa_request ps = [sim_request ''e'' 1]"
proof -
  have q: "rg_geometric (sm_rng demo_sim) h x = (1, h)" for h x by (simp add: demo_sim_def demo_stats_def)
  have "sim_sessions demo_sim 1 0 () = Inr (ps, ()) \<Longrightarrow> length ps = 1" for ps
    by (auto simp: q Let_def case_prod_unfold)
  moreover have "\<exists>ps. sim_sessions demo_sim 1 0 () = Inr (ps, ())"
    using demo_page by (fastforce simp: q Let_def case_prod_unfold)
  then obtain evs where evs: "simulate_experiment demo_sim 1 () = Inr (evs, ())" by (auto simp: simulate_experiment_def)
  ultimately obtain ps where "length ps = 1" "pages_from_events evs = Inr (map served_page ps, [])"
    "map pa_request ps = map (sim_request (ex_id (sm_exp demo_sim))) [1..<length ps + 1]"
    using simulated_log_reads_back [OF sim_ok_demo evs] by blast
  then show ?thesis using evs by (intro exI [of _ evs] exI [of _ ps]) (simp add: demo_sim_def)
qed

end
