(* ===== verification/Event_Log.thy ===== *)
theory Event_Log
  imports Analyze_Events Json
begin

text \<open>
  The event log as a file: \<open>write_jsonl\<close> and \<open>read_events\<close> of \<open>py/hybridsearch/clicks/events.py\<close>, the
  configuration read by \<open>clicks/analyze_events.py\<close>, and \<open>scripts/m9_simulate_events.py\<close>, which writes a
  simulated log and analyses its events.  An event becomes a JSON object with the keys in the order
  \<open>impression_events\<close> sets them; \<open>clientTs\<close> is the ISO text of its time.  The schema of
  \<open>docs/ARCHITECTURE.md\<close> is a type of JSON values, one per kind of event.  The file system is a partial
  function from paths to contents; pandas' reading of a parquet file is an argument.  The analyser sees
  an object through \<open>event_view\<close>: a field whose value has not the type of the schema counts as absent, so
  the boolean \<open>simulated\<close> of the broker's own records is outside the model.
\<close>

section \<open>Timestamps\<close>

definition is_leap :: "int \<Rightarrow> bool" where
  "is_leap y \<longleftrightarrow> y mod 4 = 0 \<and> (y mod 100 \<noteq> 0 \<or> y mod 400 = 0)"

definition month_lengths :: "bool \<Rightarrow> nat list" where
  "month_lengths leap = [31, if leap then 29 else 28, 31, 30, 31, 30, 31, 31, 30, 31, 30, 31]"

fun month_scan :: "nat list \<Rightarrow> nat \<Rightarrow> nat \<Rightarrow> nat \<times> nat" where
  \<comment> \<open>month and day of the \<open>d\<close>-th day (from 0) after the months before \<open>m\<close>\<close>
  "month_scan [] m d = (m, d + 1)"
| "month_scan (l # ls) m d = (if d < l then (m, d + 1) else month_scan ls (m + 1) (d - l))"

definition civil :: "int \<Rightarrow> int \<times> nat \<times> nat" where
  \<comment> \<open>\<open>date.fromordinal\<close>: year, month and day of the day \<open>n\<close>, day 1 being 1 January of the year 1\<close>
  "civil n =
     (let n400 = (n - 1) div 146097; r = (n - 1) mod 146097; n100 = r div 36524; r1 = r mod 36524;
          n4 = r1 div 1461; r2 = r1 mod 1461; n1 = r2 div 365; d = r2 mod 365;
          year = 400 * n400 + 100 * n100 + 4 * n4 + n1 + 1
      in if n1 = 4 \<or> n100 = 4 then (year - 1, 12, 31)
         else (let (m, dd) = month_scan (month_lengths (is_leap year)) 1 (nat d) in (year, m, dd)))"

definition zpad :: "nat \<Rightarrow> nat \<Rightarrow> string" where
  \<comment> \<open>\<open>f"{n:0wd}"\<close>\<close>
  "zpad w n = replicate (w - length (str_nat n)) (CHR ''0'') @ str_nat n"

definition iso_ms :: "int \<Rightarrow> string" where
  \<comment> \<open>\<open>ts.isoformat(timespec="milliseconds").replace("+00:00", "Z")\<close> of a UTC time in milliseconds since 1970\<close>
  "iso_ms t =
     (let (y, m, d) = civil (t div 86400000 + 719163); s = t mod 86400000 in
      zpad 4 (nat y) @ ''-'' @ zpad 2 m @ ''-'' @ zpad 2 d @ ''T'' @ zpad 2 (nat (s div 3600000)) @ '':'' @
      zpad 2 (nat (s div 60000 mod 60)) @ '':'' @ zpad 2 (nat (s div 1000 mod 60)) @ ''.'' @ zpad 3 (nat (s mod 1000)) @ ''Z'')"

definition datetime_ok :: "int \<Rightarrow> bool" where
  \<comment> \<open>the years 1 to 9999 of \<open>datetime\<close>\<close>
  "datetime_ok t \<longleftrightarrow> - 62135596800000 \<le> t \<and> t < 253402300800000"

section \<open>Events as JSON\<close>

definition opt_field :: "string \<Rightarrow> ('a \<Rightarrow> json) \<Rightarrow> 'a option \<Rightarrow> (string \<times> json) list" where
  "opt_field key f v = (case v of None \<Rightarrow> [] | Some x \<Rightarrow> [(key, f x)])"

definition opt_json :: "('a \<Rightarrow> json) \<Rightarrow> 'a option \<Rightarrow> json" where
  "opt_json f v = (case v of None \<Rightarrow> JNull | Some x \<Rightarrow> f x)"

definition event_fields :: "event \<Rightarrow> (string \<times> json) list" where
  \<comment> \<open>the items of the dict \<open>base\<close> and \<open>impression_events\<close> build, in the order they are set\<close>
  "event_fields e =
     opt_field ''type'' JStr (ev_type e) @ opt_field ''sessionId'' JStr (ev_session e) @
     opt_field ''requestId'' JStr (ev_request e) @ opt_field ''query'' JStr (ev_query e) @
     [(''clientTs'', JStr (iso_ms (ev_ts e)))] @
     (case ev_experiment e of None \<Rightarrow> [] | Some x \<Rightarrow> [(''experimentId'', JStr x), (''variant'', opt_json JStr (ev_variant e))]) @
     opt_field ''simulated'' JStr (ev_simulated e) @ opt_field ''docId'' JInt (ev_doc e) @
     opt_field ''rank'' JInt (ev_rank e) @ opt_field ''team'' JStr (ev_team e) @ opt_field ''dwellMs'' JInt (ev_dwell e)"

definition event_json :: "event \<Rightarrow> json" where
  "event_json e = JObj (event_fields e)"

type_synonym file_system = "string \<Rightarrow> string option"

definition jsonl_text :: "(real \<Rightarrow> string) \<Rightarrow> json list \<Rightarrow> string" where
  "jsonl_text rp js = unlines (map (dumps '','' '':'' rp) js)"

definition write_jsonl :: "(real \<Rightarrow> string) \<Rightarrow> string \<Rightarrow> json list \<Rightarrow> file_system \<Rightarrow> file_system" where
  \<comment> \<open>\<open>f"{path}.tmp"\<close> is written and then renamed to \<open>path\<close>\<close>
  "write_jsonl rp path js fs =
     (let fs1 = fs(path @ ''.tmp'' \<mapsto> jsonl_text rp js) in (fs1(path := fs1 (path @ ''.tmp'')))(path @ ''.tmp'' := None))"

section \<open>Reading a log\<close>

definition read_log_line :: "string \<Rightarrow> json list res" where
  \<comment> \<open>the events of a line: none on a blank line, those of an envelope, or the line's own\<close>
  "read_log_line line =
     (let l = strip line in
      if l = [] then Inr []
      else res_bind (loads l) (\<lambda>j.
        case json_get j ''events'' of
          Some es \<Rightarrow> if json_get j ''type'' = None then json_iter es else Inr [j]
        | None \<Rightarrow> Inr [j]))"

definition read_log_file :: "file_system \<Rightarrow> (string \<Rightarrow> json list) \<Rightarrow> string \<Rightarrow> json list res" where
  "read_log_file fs parquet p =
     (if ends_with p ''.parquet'' then Inr (parquet p)
      else case fs p of
        None \<Rightarrow> Inl FileNotFoundError
      | Some text \<Rightarrow> res_bind (res_map read_log_line (text_lines text)) (\<lambda>es. Inr (concat es)))"

definition log_paths :: "(string \<Rightarrow> string list option) \<Rightarrow> string \<Rightarrow> string list" where
  \<comment> \<open>the paths of a single argument; \<open>ls p\<close> is the listing of \<open>p\<close> when it is a directory\<close>
  "log_paths ls p =
     (case ls p of
        None \<Rightarrow> [p]
      | Some names \<Rightarrow>
          (let shown = filter (\<lambda>n. n \<noteq> [] \<and> hd n \<noteq> CHR ''.'') names; glob = (\<lambda>suf. filter (\<lambda>n. ends_with n suf) shown)
           in sort (map (\<lambda>n. p @ ''/'' @ n) (glob ''.jsonl'' @ glob ''.parquet''))))"

definition read_events :: "file_system \<Rightarrow> (string \<Rightarrow> json list) \<Rightarrow> string list \<Rightarrow> json list res" where
  "read_events fs parquet paths = res_bind (res_map (read_log_file fs parquet) paths) (\<lambda>ess. Inr (concat ess))"

definition str_field :: "json \<Rightarrow> string \<Rightarrow> string option" where
  "str_field j key = (case json_get j key of Some (JStr s) \<Rightarrow> Some s | _ \<Rightarrow> None)"

definition int_field :: "json \<Rightarrow> string \<Rightarrow> int option" where
  "int_field j key = (case json_get j key of Some (JInt n) \<Rightarrow> Some n | _ \<Rightarrow> None)"

definition event_view :: "json \<Rightarrow> event res" where
  \<comment> \<open>what \<open>pages_from_events\<close> reads of an object with \<open>e.get\<close>; it never reads \<open>clientTs\<close>\<close>
  "event_view j =
     (case j of
        JObj _ \<Rightarrow> Inr \<lparr>ev_type = str_field j ''type'', ev_session = str_field j ''sessionId'', ev_request = str_field j ''requestId'',
          ev_query = str_field j ''query'', ev_ts = 0, ev_experiment = str_field j ''experimentId'',
          ev_variant = str_field j ''variant'', ev_simulated = str_field j ''simulated'', ev_doc = int_field j ''docId'',
          ev_rank = int_field j ''rank'', ev_team = str_field j ''team'', ev_dwell = int_field j ''dwellMs''\<rparr>
      | _ \<Rightarrow> Inl AttributeError)"

definition analyse_log :: "'g stats_env \<Rightarrow> (string, string) dict \<Rightarrow> nat \<Rightarrow> json list \<Rightarrow> 'g \<Rightarrow> (events_report \<times> 'g) res" where
  \<comment> \<open>\<open>analyse\<close> on the objects of a log\<close>
  "analyse_log S config k js g = res_bind (res_map event_view js) (\<lambda>evs. analyse S config k evs g)"

section \<open>The configuration\<close>

definition config_entry :: "json \<Rightarrow> (string \<times> string) res" where
  \<comment> \<open>the id of an experiment and its kind, which is empty when the key is missing; ids and kinds are strings\<close>
  "config_entry e =
     (case e of
        JObj fs \<Rightarrow>
          (case map_of fs ''id'' of
             None \<Rightarrow> Inl KeyError
           | Some (JStr i) \<Rightarrow> Inr (i, case str_field e ''kind'' of Some k \<Rightarrow> k | None \<Rightarrow> [])
           | Some _ \<Rightarrow> Inl TypeError)
      | _ \<Rightarrow> Inl TypeError)"

definition load_exp_config :: "file_system \<Rightarrow> string \<Rightarrow> (string, string) dict res" where
  \<comment> \<open>an unreadable file, a text that is not JSON or an experiment without an id give no configuration\<close>
  "load_exp_config fs path =
     (let r = (case fs path of
         None \<Rightarrow> Inl FileNotFoundError
       | Some text \<Rightarrow>
           res_bind (loads text) (\<lambda>j.
             case j of
               JObj kvs \<Rightarrow>
                 (case map_of kvs ''experiments'' of
                    None \<Rightarrow> Inr []
                  | Some es \<Rightarrow> res_bind (json_iter es) (\<lambda>es. res_bind (res_map config_entry es) (\<lambda>kinds. Inr (dict_of kinds))))
             | _ \<Rightarrow> Inl AttributeError))
      in case r of Inl e \<Rightarrow> if e \<in> {FileNotFoundError, ValueError, KeyError} then Inr [] else Inl e | Inr d \<Rightarrow> Inr d)"

definition nan_or :: "(real \<Rightarrow> string) \<Rightarrow> real option \<Rightarrow> string" where
  "nan_or f x = (case x of None \<Rightarrow> ''nan'' | Some v \<Rightarrow> f v)"

definition plus_f :: "nat \<Rightarrow> real option \<Rightarrow> string" where
  \<comment> \<open>\<open>f"{x:+.nf}"\<close>\<close>
  "plus_f n x = (case x of None \<Rightarrow> ''+nan'' | Some v \<Rightarrow> (if v < 0 then [] else ''+'') @ fmt_f n v)"

definition ci_text :: "ci \<Rightarrow> string" where
  "ci_text c = plus_f 4 (map_option fst c) @ ''..'' @ plus_f 4 (map_option snd c)"

definition dq_text :: "dq \<Rightarrow> string" where
  \<comment> \<open>\<open>rep['data_quality'] or 'none'\<close>\<close>
  "dq_text q =
     (if q = [] then ''none''
      else ''{'' @ join_with '', '' (map (\<lambda>(key, n). [char_of (39 :: nat)] @ key @ [char_of (39 :: nat)] @ '': '' @ str_nat n) q) @ ''}'')"

definition interleave_md :: "interleave_entry \<Rightarrow> string list" where
  "interleave_md b =
     (let r = ie_report b in
      [''wins A '' @ str_nat (ir_wins_a r) @ '', wins B '' @ str_nat (ir_wins_b r) @ '', ties '' @ str_nat (ir_ties r) @
         ''; Delta_AB '' @ plus_f 4 (ir_delta_ab r) @ '' (95% CI '' @ ci_text (ir_ci r) @ ''); sign test p = '' @ fmt_g 3 (ir_p_sign r)] @
      (if ie_rank1_n b \<noteq> 0
       then [''team balance at rank 1: A share '' @ nan_or (fmt_f 3) (ie_a_share b) @ '' (n='' @ str_nat (ie_rank1_n b) @ '', p='' @
               nan_or (fmt_g 3) (ie_balance_p b) @ '')'']
       else []))"

definition metric_md :: "string \<times> metric_report \<Rightarrow> string" where
  "metric_md mv =
     (let (m, v) = mv in
      ''| '' @ m @ '' | '' @ nan_or (fmt_f 4) (mr_a v) @ '' | '' @ nan_or (fmt_f 4) (mr_b v) @ '' | '' @ plus_f 4 (mr_delta v) @ '' | '' @
      ci_text (mr_ci v) @ '' | '' @ nan_or (fmt_g 3) (mr_p v) @ '' |'')"

definition ab_md :: "ab_entry \<Rightarrow> string list" where
  "ab_md b =
     (case ae_srm b of
        None \<Rightarrow> []
      | Some s \<Rightarrow>
          [''SRM check: sessions ['' @ join_with '', '' (map str_nat (srm_counts s)) @ ''], chi2 '' @ fmt_f 2 (srm_chi2 s) @ '', p = '' @
             fmt_g 3 (srm_p s) @ '' -> '' @ (if srm_flag s then ''SAMPLE RATIO MISMATCH, do not trust the metrics'' else ''ok'')]) @
     (case ae_ab b of
        None \<Rightarrow> []
      | Some (c, t, r) \<Rightarrow>
          [[], ''| metric | '' @ c @ '' | '' @ t @ '' | delta | 95% CI | p (Welch) |'', ''|---|---|---|---|---|---|''] @
          map metric_md (abr_metrics r))"

definition to_markdown :: "events_report \<Rightarrow> string" where
  "to_markdown rep =
     join_with nl
       ([''# Event-log report'', [], ''**Source label:** '' @ er_label rep, [],
         ''events '' @ str_nat (er_events rep) @ '', result pages '' @ str_nat (er_pages rep) @ '', sessions '' @ str_nat (er_sessions rep),
         ''data-quality counters: '' @ dq_text (er_dq rep), []] @
        concat (map (\<lambda>(eid, e). (''## '' @ eid @ '' ('' @ en_kind e @ '', '' @ str_nat (en_pages e) @ '' pages)'') #
          (case en_body e of Interleave_Entry b \<Rightarrow> interleave_md b | AB_Entry b \<Rightarrow> ab_md b) @ [[]]) (er_experiments rep)))"

definition analyse_main :: "'g stats_env \<Rightarrow> file_system \<Rightarrow> (string \<Rightarrow> json list) \<Rightarrow> (string \<Rightarrow> string list option) \<Rightarrow>
    string \<Rightarrow> string \<Rightarrow> 'g \<Rightarrow> (events_report \<times> 'g) option res" where
  \<comment> \<open>\<open>main\<close>: None when there is no log at the path\<close>
  "analyse_main S fs parquet ls p config_path g =
     (if fs p = None \<and> ls p = None then Inr None
      else res_bind (read_events fs parquet (log_paths ls p)) (\<lambda>js.
        res_bind (load_exp_config fs config_path) (\<lambda>config.
        res_bind (analyse_log S config 10 js g) (\<lambda>x. Inr (Some x)))))"

section \<open>Timestamps have one shape\<close>

definition day_number :: "int \<times> nat \<times> nat \<Rightarrow> int" where
  \<comment> \<open>\<open>date.toordinal\<close>\<close>
  "day_number ymd =
     (let (y, m, d) = ymd; p = y - 1 in
      365 * p + p div 4 - p div 100 + p div 400 + int (sum_list (take (m - 1) (month_lengths (is_leap y)))) + int d)"

lemma month_scan_sum:
  assumes "d < sum_list ls"
  shows "fst (month_scan ls m d) < m + length ls \<and> m \<le> fst (month_scan ls m d) \<and>
    sum_list (take (fst (month_scan ls m d) - m) ls) + snd (month_scan ls m d) = d + 1 \<and>
    1 \<le> snd (month_scan ls m d) \<and> snd (month_scan ls m d) \<le> ls ! (fst (month_scan ls m d) - m)"
  using assms
proof (induction ls arbitrary: m d)
  case (Cons l ls)
  show ?case
  proof (cases "d < l")
    case False
    then have *: "d - l < sum_list ls" using Cons.prems by simp
    obtain x y where xy: "month_scan ls (m + 1) (d - l) = (x, y)" by fastforce
    from Cons.IH [OF *, of "m + 1"] xy have "m + 1 \<le> x" by simp
    then have "x - m = Suc (x - (m + 1))" by simp
    then show ?thesis using Cons.IH [OF *, of "m + 1"] xy False by simp linarith
  qed simp
qed simp

lemma length_month [simp]: "length (month_lengths leap) = 12"
  by (simp add: month_lengths_def)

lemma month_lengths_sum: "sum_list (month_lengths leap) = (if leap then 366 else 365)"
  by (simp add: month_lengths_def)

lemma year_cycle:
  fixes a b c e :: int
  assumes "0 \<le> b" "b \<le> 3" "0 \<le> c" "c \<le> 24" "0 \<le> e" "e \<le> 3"
  shows "(400 * a + 100 * b + 4 * c + e) div 4 = 100 * a + 25 * b + c"
    and "(400 * a + 100 * b + 4 * c + e) div 100 = 4 * a + b"
    and "(400 * a + 100 * b + 4 * c + e) div 400 = a"
    and "is_leap (400 * a + 100 * b + 4 * c + e + 1) \<longleftrightarrow> e = 3 \<and> (c \<noteq> 24 \<or> b = 3)"
proof -
  let ?y = "400 * a + 100 * b + 4 * c + e"
  show "?y div 4 = 100 * a + 25 * b + c" using assms by (intro int_div_pos_eq [where r = e]) auto
  show "?y div 100 = 4 * a + b" using assms by (intro int_div_pos_eq [where r = "4 * c + e"]) auto
  show "?y div 400 = a" using assms by (intro int_div_pos_eq [where r = "100 * b + 4 * c + e"]) auto
  have four: "(?y + 1) mod 4 = (if e = 3 then 0 else e + 1)"
    using assms by (intro int_mod_pos_eq [where q = "100 * a + 25 * b + c + (if e = 3 then 1 else 0)"]) auto
  have hundred: "(?y + 1) mod 100 = (if c = 24 \<and> e = 3 then 0 else 4 * c + e + 1)"
    using assms by (intro int_mod_pos_eq [where q = "4 * a + b + (if c = 24 \<and> e = 3 then 1 else 0)"]) auto
  have "(?y + 1) mod 400 = (if b = 3 \<and> c = 24 \<and> e = 3 then 0 else 100 * b + 4 * c + e + 1)"
    using assms by (intro int_mod_pos_eq [where q = "a + (if b = 3 \<and> c = 24 \<and> e = 3 then 1 else 0)"]) auto
  with four hundred assms have "(?y + 1) mod 4 = 0 \<longleftrightarrow> e = 3" "(?y + 1) mod 100 = 0 \<longleftrightarrow> c = 24 \<and> e = 3"
    "(?y + 1) mod 400 = 0 \<longleftrightarrow> b = 3 \<and> c = 24 \<and> e = 3" by auto
  then show "is_leap (?y + 1) \<longleftrightarrow> e = 3 \<and> (c \<noteq> 24 \<or> b = 3)" by (auto simp: is_leap_def)
qed

lemma day_number_normal:
  assumes "0 \<le> b" "b \<le> 3" "0 \<le> c" "c \<le> 24" "0 \<le> e" "e \<le> 3" and d: "d < 365 \<or> d = 365 \<and> e = 3 \<and> (c \<noteq> 24 \<or> b = 3)"
    and y: "y = 400 * a + 100 * b + 4 * c + e + 1" and m: "month_scan (month_lengths (is_leap y)) 1 d = (m, dd)"
  shows "day_number (y, m, dd) = 146097 * a + 36524 * b + 1461 * c + 365 * e + int d + 1" "1 \<le> m \<and> m \<le> 12 \<and> 1 \<le> dd \<and> dd \<le> 31"
proof -
  note yc = year_cycle [OF assms(1-6), of a]
  have "d < sum_list (month_lengths (is_leap y))" using d yc(4) by (auto simp: month_lengths_sum y)
  from month_scan_sum [OF this, of 1] m
  have s: "sum_list (take (m - 1) (month_lengths (is_leap y))) + dd = d + 1" "m < 13" "1 \<le> m" "1 \<le> dd" "dd \<le> month_lengths (is_leap y) ! (m - 1)"
    by (simp_all add: length_month)
  have "list_all (\<lambda>l. l \<le> 31) (month_lengths (is_leap y))" by (simp add: month_lengths_def)
  then have "month_lengths (is_leap y) ! (m - 1) \<le> 31" using s(2,3) by (simp add: list_all_length length_month)
  then show "1 \<le> m \<and> m \<le> 12 \<and> 1 \<le> dd \<and> dd \<le> 31" using s by linarith
  have "int (sum_list (take (m - 1) (month_lengths (is_leap y)))) + int dd = int d + 1" using s(1) by linarith
  then show "day_number (y, m, dd) = 146097 * a + 36524 * b + 1461 * c + 365 * e + int d + 1"
    using yc(1-3) by (simp add: day_number_def Let_def y)
qed

lemma last_day: "month_scan (month_lengths True) 1 365 = (12, 31)"
  by (simp add: month_lengths_def)

lemma civil_correct:
  assumes "civil n = (y, m, d)"
  shows "day_number (y, m, d) = n \<and> 1 \<le> m \<and> m \<le> 12 \<and> 1 \<le> d \<and> d \<le> 31"
    and "1 \<le> n \<Longrightarrow> n \<le> 3652059 \<Longrightarrow> 1 \<le> y \<and> y \<le> 9999"
proof -
  define a where "a = (n - 1) div 146097"
  define r where "r = (n - 1) mod 146097"
  define b where "b = r div 36524"
  define r1 where "r1 = r mod 36524"
  define c where "c = r1 div 1461"
  define r2 where "r2 = r1 mod 1461"
  define e where "e = r2 div 365"
  define x where "x = r2 mod 365"
  have n: "n = 146097 * a + r + 1" "0 \<le> r" "r < 146097" by (simp_all add: a_def r_def)
  have r: "r = 36524 * b + r1" "0 \<le> r1" "r1 < 36524" by (simp_all add: b_def r1_def)
  have r1: "r1 = 1461 * c + r2" "0 \<le> r2" "r2 < 1461" by (simp_all add: c_def r2_def)
  have r2: "r2 = 365 * e + x" "0 \<le> x" "x < 365" by (simp_all add: e_def x_def)
  have bounds: "0 \<le> b" "b \<le> 4" "0 \<le> c" "c \<le> 24" "0 \<le> e" "e \<le> 4" using n r r1 r2 by linarith+
  have civ: "civil n = (if e = 4 \<or> b = 4 then (400 * a + 100 * b + 4 * c + e + 1 - 1, 12, 31)
      else (let (m, dd) = month_scan (month_lengths (is_leap (400 * a + 100 * b + 4 * c + e + 1))) 1 (nat x)
            in (400 * a + 100 * b + 4 * c + e + 1, m, dd)))"
    by (simp only: civil_def Let_def a_def r_def b_def r1_def c_def r2_def e_def x_def)
  show "1 \<le> y \<and> y \<le> 9999" if "1 \<le> n" "n \<le> 3652059"
  proof -
    have a: "0 \<le> a" "a \<le> 24" using that n by linarith+
    have z: "b = 4 \<Longrightarrow> c = 0 \<and> e = 0 \<and> a \<le> 23" "b \<noteq> 4 \<Longrightarrow> b \<le> 3" "e \<noteq> 4 \<Longrightarrow> e \<le> 3"
      "e = 4 \<Longrightarrow> c \<le> 23 \<and> b \<le> 3" using that n r r1 r2 bounds by linarith+
    show ?thesis
    proof (cases "e = 4 \<or> b = 4")
      case True
      then have "y = 400 * a + 100 * b + 4 * c + e" using assms civ by simp
      then show ?thesis using True z a that n r r1 r2 bounds by (elim disjE) linarith+
    next
      case False
      then have "y = 400 * a + 100 * b + 4 * c + e + 1" using assms civ by (simp split: prod.splits)
      moreover have "b \<le> 3" "e \<le> 3" using z False by auto
      ultimately show ?thesis using a that n r r1 r2 bounds by linarith
    qed
  qed
  consider "b = 4" | "b \<noteq> 4" "e = 4" | "b \<noteq> 4" "e \<noteq> 4" by blast
  then show "day_number (y, m, d) = n \<and> 1 \<le> m \<and> m \<le> 12 \<and> 1 \<le> d \<and> d \<le> 31"
  proof cases
    case 1
    then have z: "r1 = 0" "c = 0" "r2 = 0" "e = 0" "x = 0" using n r r1 r2 bounds by linarith+
    have y: "y = 400 * a + 100 * 3 + 4 * 24 + 3 + 1" "m = 12" "d = 31" using civ assms z 1 by simp_all
    have "is_leap y" using year_cycle(4) [of 3 24 3 a] by (simp add: y)
    then have "month_scan (month_lengths (is_leap y)) 1 365 = (m, d)" using last_day y by simp
    from day_number_normal [OF _ _ _ _ _ _ _ y(1) this] show ?thesis using n r z 1 y by simp
  next
    case 2
    then have z: "x = 0" "c \<noteq> 24" "b \<le> 3" "c \<le> 24" using n r r1 r2 bounds by linarith+
    have y: "y = 400 * a + 100 * b + 4 * c + 3 + 1" "m = 12" "d = 31" using civ assms 2 by simp_all
    have "is_leap y" using year_cycle(4) [of b c 3 a] z bounds by (simp add: y)
    then have "month_scan (month_lengths (is_leap y)) 1 365 = (m, d)" using last_day y by simp
    from day_number_normal [OF _ _ _ _ _ _ _ y(1) this] show ?thesis using n r r1 r2 z 2 bounds y by simp
  next
    case 3
    obtain m' d' where md: "month_scan (month_lengths (is_leap (400 * a + 100 * b + 4 * c + e + 1))) 1 (nat x) = (m', d')" by fastforce
    then have y: "y = 400 * a + 100 * b + 4 * c + e + 1" "m = m'" "d = d'" using civ assms 3 by auto
    have "month_scan (month_lengths (is_leap y)) 1 (nat x) = (m, d)" using md y by simp
    moreover have "nat x < 365" using r2(2,3) by linarith
    ultimately show ?thesis
      using day_number_normal [of b c e "nat x" y a m d] y(1) n(1) r(1) r1(1) r2 bounds 3 by simp
  qed
qed

definition ISO_SHAPE :: string where
  "ISO_SHAPE = ''9999-99-99T99:99:99.999Z''"

definition is_iso :: "string \<Rightarrow> bool" where
  \<comment> \<open>a digit at every 9 of the shape, its own character elsewhere\<close>
  "is_iso s = list_all2 (\<lambda>p c. if p = CHR ''9'' then is_digit_char c else c = p) ISO_SHAPE s"

lemma zpad_shape:
  assumes "n < 10 ^ w" and "0 < w"
  shows "length (zpad w n) = w" "list_all is_digit_char (zpad w n)"
proof -
  have "length (str_nat n) \<le> w" using assms length_str_nat_le by auto
  then show "length (zpad w n) = w" by (simp add: zpad_def)
  show "list_all is_digit_char (zpad w n)"
    using str_nat_digits [of n] by (simp add: zpad_def zeros_digits)
qed

lemma shape_digits: "list_all is_digit_char s \<Longrightarrow> length s = w \<Longrightarrow>
    list_all2 (\<lambda>p c. if p = CHR ''9'' then is_digit_char c else c = p) (replicate w (CHR ''9'')) s"
  by (simp add: list_all2_conv_all_nth list_all_length)

lemma iso_ms_shape:
  assumes "datetime_ok t"
  shows "is_iso (iso_ms t)"
proof -
  obtain y m d where c: "civil (t div 86400000 + 719163) = (y, m, d)" by (metis prod_cases3)
  have "1 \<le> t div 86400000 + 719163" "t div 86400000 + 719163 \<le> 3652059"
    using assms zdiv_mono1 [of "- 62135596800000" t 86400000] zdiv_mono1 [of t 253402300799999 86400000]
    by (simp_all add: datetime_ok_def)
  from civil_correct [OF c] this have ymd: "1 \<le> y" "y \<le> 9999" "m \<le> 12" "d \<le> 31" by auto
  define s where "s = t mod 86400000"
  have s: "0 \<le> s" "s < 86400000" by (simp_all add: s_def)
  have "s div 60000 mod 60 < 60" "s div 1000 mod 60 < 60" "s mod 1000 < 1000" "s div 3600000 < 24" using s by simp_all
  then have parts: "nat y < 10 ^ 4" "m < 10 ^ 2" "d < 10 ^ 2" "nat (s div 3600000) < 10 ^ 2" "nat (s div 60000 mod 60) < 10 ^ 2"
    "nat (s div 1000 mod 60) < 10 ^ 2" "nat (s mod 1000) < 10 ^ 3"
    using ymd by (simp_all add: nat_less_iff)
  have field: "list_all2 (\<lambda>p c. if p = CHR ''9'' then is_digit_char c else c = p) (replicate w (CHR ''9'')) (zpad w n)"
    if "n < 10 ^ w" "0 < w" for w n
    using zpad_shape [OF that] by (intro shape_digits)
  have shape: "ISO_SHAPE = replicate 4 (CHR ''9'') @ ''-'' @ replicate 2 (CHR ''9'') @ ''-'' @ replicate 2 (CHR ''9'') @ ''T'' @
      replicate 2 (CHR ''9'') @ '':'' @ replicate 2 (CHR ''9'') @ '':'' @ replicate 2 (CHR ''9'') @ ''.'' @ replicate 3 (CHR ''9'') @ ''Z''"
    by (simp add: ISO_SHAPE_def numeral_eq_Suc)
  have full: "iso_ms t = zpad 4 (nat y) @ ''-'' @ zpad 2 m @ ''-'' @ zpad 2 d @ ''T'' @ zpad 2 (nat (s div 3600000)) @ '':'' @
      zpad 2 (nat (s div 60000 mod 60)) @ '':'' @ zpad 2 (nat (s div 1000 mod 60)) @ ''.'' @ zpad 3 (nat (s mod 1000)) @ ''Z''"
    by (simp only: iso_ms_def c Let_def s_def prod.case)
  show ?thesis
    unfolding is_iso_def shape full
    by (intro list_all2_appendI field parts) simp_all
qed

section \<open>The type of an event\<close>

datatype json_ty =
    TInt
  | TBool
  | TStr
  | TTime
  | TEnum "string list"
  | TNullable json_ty
  | TObj "(string \<times> bool \<times> json_ty) list" \<comment> \<open>each key with whether it is required and its type\<close>

inductive has_type :: "json \<Rightarrow> json_ty \<Rightarrow> bool" where
  Int: "has_type (JInt n) TInt"
| Bool: "has_type (JBool b) TBool"
| Str: "has_type (JStr s) TStr"
| Time: "is_iso s \<Longrightarrow> has_type (JStr s) TTime"
| Enum: "s \<in> set ss \<Longrightarrow> has_type (JStr s) (TEnum ss)"
| Null: "has_type JNull (TNullable t)"
| Some_value: "has_type v t \<Longrightarrow> has_type v (TNullable t)"
| Obj: "distinct (map fst fs) \<Longrightarrow> list_all (\<lambda>(key, required, t). required \<longrightarrow> key \<in> set (map fst fs)) ms \<Longrightarrow>
    list_all (\<lambda>(key, v). \<exists>required t. (key, required, t) \<in> set ms \<and> has_type v t) fs \<Longrightarrow> has_type (JObj fs) (TObj ms)"
monos list.pred_mono

inductive_simps has_type_simps [simp]:
  "has_type v TInt" "has_type v TBool" "has_type v TStr" "has_type v TTime" "has_type v (TEnum ss)" "has_type (JStr s) (TNullable t)"
  "has_type JNull (TNullable t)"
  "has_type (JObj fs) (TObj ms)"

inductive_cases has_typeE: "has_type v (TObj ms)"

definition event_members :: "string \<Rightarrow> (string \<times> bool \<times> json_ty) list" where
  \<comment> \<open>the fields of an event of a kind in \<open>docs/ARCHITECTURE.md\<close>: an optional one is absent or has its type\<close>
  "event_members kind =
     [(''type'', True, TEnum [kind]), (''sessionId'', True, TStr), (''requestId'', True, TStr), (''query'', True, TStr),
      (''clientTs'', True, TTime), (''experimentId'', False, TStr), (''variant'', False, TStr),
      (''simulated'', False, TBool), (''clickModel'', False, TStr)] @
     (if kind \<in> {''impression'', ''click'', ''dwell''} then [(''docId'', True, TInt), (''rank'', True, TInt), (''team'', False, TStr)] else []) @
     (if kind = ''dwell'' then [(''dwellMs'', True, TInt)] else [])"

definition event_ty :: "string \<Rightarrow> json_ty" where
  "event_ty kind = TObj (event_members kind)"

section \<open>What an event writes, a reader sees\<close>

definition event_wf :: "event \<Rightarrow> bool" where
  \<comment> \<open>a variant is only set with an experiment\<close>
  "event_wf e \<longleftrightarrow> (ev_experiment e = None \<longrightarrow> ev_variant e = None)"

definition timeless :: "event \<Rightarrow> event" where
  "timeless e = e\<lparr>ev_ts := 0\<rparr>"

lemma map_of_opt_field: "map_of (opt_field key f v) k = (if k = key then map_option f v else None)"
  by (simp add: opt_field_def split: option.split)

lemma fst_opt_field: "fst ` set (opt_field key f v) = (if v = None then {} else {key})" "map fst (opt_field key f v) = (if v = None then [] else [key])"
  by (auto simp: opt_field_def split: option.split)

lemma event_view_json:
  assumes "event_wf e"
  shows "event_view (event_json e) = Inr (timeless e)"
proof -
  have get: "json_get (event_json e) = map_of (event_fields e)" by (simp add: event_json_def json_get_def fun_eq_iff)
  have "map_option f v = (case v of None \<Rightarrow> None | Some x \<Rightarrow> Some (f x))" for f :: "'b \<Rightarrow> json" and v by (cases v) auto
  then show ?thesis
    using assms
    by (cases "ev_experiment e"; cases "ev_variant e")
       (simp_all add: event_view_def event_json_def str_field_def int_field_def json_get_def event_fields_def timeless_def event_wf_def
          map_add_def map_of_opt_field opt_json_def split: option.split)
qed

lemma event_fields_distinct: "distinct (map fst (event_fields e))"
  by (cases "ev_experiment e") (simp_all add: event_fields_def fst_opt_field)

lemma event_json_plain: "json_plain (event_json e)"
proof -
  have "list_all (\<lambda>(_, v). json_plain v) (opt_field key JStr s)" "list_all (\<lambda>(_, v). json_plain v) (opt_field key JInt n)"
    "json_plain (opt_json JStr s)" for key s n by (simp_all add: opt_field_def opt_json_def split: option.split)
  then show ?thesis
    using event_fields_distinct [of e]
    by (cases "ev_experiment e") (simp_all add: event_json_def event_fields_def)
qed

lemma timeless_sel:
  "ev_type (timeless e) = ev_type e" "ev_session (timeless e) = ev_session e" "ev_request (timeless e) = ev_request e"
  "ev_query (timeless e) = ev_query e" "ev_experiment (timeless e) = ev_experiment e" "ev_variant (timeless e) = ev_variant e"
  "ev_simulated (timeless e) = ev_simulated e" "ev_doc (timeless e) = ev_doc e" "ev_rank (timeless e) = ev_rank e"
  "ev_team (timeless e) = ev_team e" "ev_dwell (timeless e) = ev_dwell e"
  by (simp_all add: timeless_def)

lemma read_event_timeless: "read_event st (timeless e) = read_event st e"
  unfolding read_event_def ranked_update_def new_page_def enrol_page_def timeless_sel ..

lemma analyse_timeless: "analyse S config k (map timeless evs) g = analyse S config k evs g"
proof -
  have "res_fold read_event st (map timeless evs) = res_fold read_event st evs" for st
    by (induction evs arbitrary: st) (simp_all add: read_event_timeless)
  then show ?thesis by (simp add: analyse_def pages_from_events_def)
qed

lemma analyse_log_events:
  assumes "list_all event_wf evs"
  shows "analyse_log S config k (map event_json evs) g = analyse S config k evs g"
proof -
  have "res_map event_view (map event_json evs) = Inr (map timeless evs)"
    using assms by (induction evs) (simp_all add: event_view_json)
  then show ?thesis by (simp add: analyse_log_def analyse_timeless)
qed

section \<open>The file\<close>

definition is_envelope :: "json \<Rightarrow> bool" where
  "is_envelope j \<longleftrightarrow> json_get j ''events'' \<noteq> None \<and> json_get j ''type'' = None"

lemma strip_line:
  assumes "t = CHR ''{'' # u @ [CHR ''}'']"
  shows "strip (t @ nl) = t"
proof -
  have "\<not> is_space_char (CHR ''{'')" "\<not> is_space_char (CHR ''}'')" by (simp_all add: is_space_char_def code_def)
  then show ?thesis by (simp add: assms strip_def lstrip_def rstrip_def nl_def)
qed

lemma jsonl_seps [simp]: "json_seps '','' '':''" "printable '',''" "printable '':''"
  by (simp_all add: json_seps_def code_def)

lemma read_log_line_dumps:
  assumes "json_plain (JObj fs)" and "\<not> is_envelope (JObj fs)"
  shows "read_log_line (dumps '','' '':'' rp (JObj fs) @ nl) = Inr [JObj fs]"
proof -
  let ?t = "dumps '','' '':'' rp (JObj fs)"
  have "strip (?t @ nl) = ?t" by (rule strip_line) simp
  moreover have "loads ?t = Inr (JObj fs)" by (rule loads_dumps) (use assms in simp_all)
  moreover have "?t \<noteq> []" by simp
  ultimately show ?thesis
    using assms(2) by (simp only: read_log_line_def Let_def) (auto simp: is_envelope_def split: option.split)
qed

lemma read_jsonl_text:
  assumes "\<And>j. j \<in> set js \<Longrightarrow> json_plain j \<and> \<not> is_envelope j \<and> (\<exists>fs. j = JObj fs)"
  shows "res_map read_log_line (text_lines (jsonl_text rp js)) = Inr (map (\<lambda>j. [j]) js)"
proof -
  have "one_line (dumps '','' '':'' rp j)" if "j \<in> set js" for j
  proof -
    have "printable (dumps '','' '':'' rp j)" using assms [OF that] by (intro printable_dumps) (simp_all add: code_def)
    then show ?thesis by (fastforce simp: printable_def one_line_def list_all_iff)
  qed
  then have "text_lines (jsonl_text rp js) = map (\<lambda>l. l @ nl) (map (dumps '','' '':'' rp) js)"
    unfolding jsonl_text_def by (intro text_lines_unlines) auto
  moreover have "res_map read_log_line (map (\<lambda>l. l @ nl) (map (dumps '','' '':'' rp) js)) = Inr (map (\<lambda>j. [j]) js)"
    using assms by (induction js) (fastforce simp: read_log_line_dumps simp del: dumps.simps)+
  ultimately show ?thesis by simp
qed

lemma read_written_log:
  assumes "\<And>j. j \<in> set js \<Longrightarrow> json_plain j \<and> \<not> is_envelope j \<and> (\<exists>fs. j = JObj fs)" and "\<not> ends_with path ''.parquet''"
  shows "read_events (write_jsonl rp path js fs) parquet [path] = Inr js"
proof -
  have "write_jsonl rp path js fs path = Some (jsonl_text rp js)" by (simp add: write_jsonl_def Let_def)
  moreover have "concat (map (\<lambda>j. [j]) js) = js" by (induction js) simp_all
  ultimately show ?thesis
    using read_jsonl_text [OF assms(1), of js rp] assms(2) by (simp add: read_events_def read_log_file_def)
qed

lemma event_json_no_envelope: "\<not> is_envelope (event_json e)"
  by (cases "ev_experiment e") (simp_all add: is_envelope_def event_json_def json_get_def event_fields_def map_add_def map_of_opt_field split: option.split)

lemma event_json_obj: "\<exists>fs. event_json e = JObj fs"
  by (simp add: event_json_def)

lemma read_written_events:
  "\<not> ends_with path ''.parquet'' \<Longrightarrow> read_events (write_jsonl rp path (map event_json evs) fs) parquet [path] = Inr (map event_json evs)"
  by (rule read_written_log) (auto simp: event_json_plain event_json_no_envelope event_json_obj)

section \<open>The events of a page\<close>

lemma click_events_members:
  "e \<in> set (fst (click_events p rs t)) \<Longrightarrow>
    \<exists>t' r. e = ranked_event p ''click'' t' r \<or> e = (ranked_event p ''dwell'' t' r)\<lparr>ev_dwell := Some (pa_dwell p ! r)\<rparr>"
  by (induction rs arbitrary: t) (auto simp: Let_def case_prod_unfold split: if_splits)

lemma impression_events_members:
  assumes "e \<in> set (impression_events p t0)"
  obtains (query) t where "e = base_event p ''query'' t" | (abandon) t where "e = base_event p ''abandon'' t"
    | (impression) t r where "e = ranked_event p ''impression'' t r" | (click) t r where "e = ranked_event p ''click'' t r"
    | (dwell) t r where "e = (ranked_event p ''dwell'' t r)\<lparr>ev_dwell := Some (pa_dwell p ! r)\<rparr>"
proof -
  from assms have "(\<exists>t. e = base_event p ''query'' t) \<or> (\<exists>t. e = base_event p ''abandon'' t) \<or> (\<exists>t r. e = ranked_event p ''impression'' t r)
      \<or> (\<exists>rs t. e \<in> set (fst (click_events p rs t)))"
    by (auto simp: impression_events_def Let_def case_prod_unfold split: if_splits)
  then show thesis using that click_events_members by blast
qed

lemma impression_events_wf: "e \<in> set (impression_events p t0) \<Longrightarrow> event_wf e"
  by (erule impression_events_members) (auto simp: event_wf_def base_event_def ranked_event_def)

lemma typed_field:
  assumes "x \<noteq> None \<Longrightarrow> (key, required, T) \<in> set ms" and "\<And>y. x = Some y \<Longrightarrow> has_type (f y) T"
  shows "list_all (\<lambda>(key, v). \<exists>required t. (key, required, t) \<in> set ms \<and> has_type v t) (opt_field key f x)"
  using assms by (cases x) (auto simp: opt_field_def)

lemma experiment_keys:
  "map fst (case x of None \<Rightarrow> [] | Some s \<Rightarrow> [(a, f s), (b, v)]) = (if x = None then [] else [a, b])"
  by (cases x) simp_all

lemma event_typed:
  assumes "ev_type e = Some kind" and "ev_session e \<noteq> None" "ev_request e \<noteq> None" "ev_query e \<noteq> None" and "datetime_ok (ev_ts e)"
    and "ev_doc e \<noteq> None \<longleftrightarrow> kind \<in> {''impression'', ''click'', ''dwell''}" "ev_rank e \<noteq> None \<longleftrightarrow> ev_doc e \<noteq> None"
    and "ev_team e \<noteq> None \<Longrightarrow> ev_doc e \<noteq> None" and "ev_dwell e \<noteq> None \<longleftrightarrow> kind = ''dwell''"
    and "ev_simulated e = None" and "ev_experiment e \<noteq> None \<Longrightarrow> ev_variant e \<noteq> None"
  shows "has_type (event_json e) (event_ty kind)"
proof -
  define ms where "ms = event_members kind"
  have in_ms: "(''type'', True, TEnum [kind]) \<in> set ms" "(''sessionId'', True, TStr) \<in> set ms" "(''requestId'', True, TStr) \<in> set ms"
    "(''query'', True, TStr) \<in> set ms" "(''clientTs'', True, TTime) \<in> set ms" "(''experimentId'', False, TStr) \<in> set ms"
    "(''variant'', False, TStr) \<in> set ms" by (simp_all add: ms_def event_members_def)
  have ranked: "ev_doc e \<noteq> None \<Longrightarrow> (''docId'', True, TInt) \<in> set ms \<and> (''rank'', True, TInt) \<in> set ms \<and> (''team'', False, TStr) \<in> set ms"
    using assms(6) by (simp add: ms_def event_members_def)
  have dwell: "ev_dwell e \<noteq> None \<Longrightarrow> (''dwellMs'', True, TInt) \<in> set ms" using assms(9) by (simp add: ms_def event_members_def)
  let ?ok = "list_all (\<lambda>(key, v). \<exists>required t. (key, required, t) \<in> set ms \<and> has_type v t)"
  have "?ok (opt_field ''type'' JStr (ev_type e))" by (rule typed_field [OF in_ms(1)]) (use assms(1) in simp)
  moreover have "?ok (opt_field ''sessionId'' JStr (ev_session e))" by (rule typed_field [OF in_ms(2)]) simp
  moreover have "?ok (opt_field ''requestId'' JStr (ev_request e))" by (rule typed_field [OF in_ms(3)]) simp
  moreover have "?ok (opt_field ''query'' JStr (ev_query e))" by (rule typed_field [OF in_ms(4)]) simp
  moreover have "?ok (opt_field ''simulated'' JStr (ev_simulated e))" using assms(10) by (simp add: opt_field_def)
  moreover have "?ok [(''clientTs'', JStr (iso_ms (ev_ts e)))]"
    using in_ms(5) iso_ms_shape [OF assms(5)] has_type.Time by (simp only: list.pred_inject prod.case) blast
  moreover have "?ok (case ev_experiment e of None \<Rightarrow> [] | Some x \<Rightarrow> [(''experimentId'', JStr x), (''variant'', opt_json JStr (ev_variant e))])"
  proof (cases "ev_experiment e")
    case (Some x)
    then obtain y where "ev_variant e = Some y" using assms(11) by auto
    then have "has_type (opt_json JStr (ev_variant e)) TStr" by (simp add: opt_json_def)
    then show ?thesis
      using Some in_ms(6,7) has_type.Str by (simp only: list.pred_inject prod.case option.case) blast
  qed simp
  moreover have "?ok (opt_field ''docId'' JInt (ev_doc e))" by (rule typed_field [where T = TInt and required = True]) (use ranked in simp_all)
  moreover have "?ok (opt_field ''rank'' JInt (ev_rank e))"
    by (rule typed_field [where T = TInt and required = True]) (use ranked assms(7) in simp_all)
  moreover have "?ok (opt_field ''team'' JStr (ev_team e))"
    by (rule typed_field [where T = TStr and required = False]) (use ranked assms(8) in simp_all)
  moreover have "?ok (opt_field ''dwellMs'' JInt (ev_dwell e))"
    by (rule typed_field [where T = TInt and required = True]) (use dwell in simp_all)
  ultimately have "?ok (event_fields e)" by (simp only: event_fields_def list_all_append)
  moreover have "list_all (\<lambda>(key, required, t). required \<longrightarrow> key \<in> set (map fst (event_fields e))) ms"
  proof -
    define K where "K = set (map fst (event_fields e))"
    have keys: "K = set (
        (if ev_type e = None then [] else [''type'']) @ (if ev_session e = None then [] else [''sessionId'']) @
        (if ev_request e = None then [] else [''requestId'']) @ (if ev_query e = None then [] else [''query'']) @ [''clientTs''] @
        (if ev_experiment e = None then [] else [''experimentId'', ''variant'']) @ (if ev_simulated e = None then [] else [''simulated'']) @
        (if ev_doc e = None then [] else [''docId'']) @ (if ev_rank e = None then [] else [''rank'']) @
        (if ev_team e = None then [] else [''team'']) @ (if ev_dwell e = None then [] else [''dwellMs'']))"
      by (simp only: K_def event_fields_def map_append fst_opt_field(2) experiment_keys list.map fst_conv)
    have mem: "key \<in> set (if c then [] else xs) \<longleftrightarrow> \<not> c \<and> key \<in> set xs" for key :: string and c xs by simp
    have K: "''type'' \<in> K" "''sessionId'' \<in> K" "''requestId'' \<in> K" "''query'' \<in> K" "''clientTs'' \<in> K"
      "ev_doc e \<noteq> None \<Longrightarrow> ''docId'' \<in> K" "ev_rank e \<noteq> None \<Longrightarrow> ''rank'' \<in> K" "ev_dwell e \<noteq> None \<Longrightarrow> ''dwellMs'' \<in> K"
      unfolding keys set_append Un_iff mem using assms(1-4) by simp_all
    have "list_all (\<lambda>(key, required, t). required \<longrightarrow> key \<in> K) ms"
      using K assms(6,7,9) by (simp add: ms_def event_members_def)
    then show ?thesis by (simp only: K_def)
  qed
  ultimately show ?thesis
    unfolding event_json_def event_ty_def ms_def [symmetric] by (intro has_type.Obj event_fields_distinct)
qed

lemma event_typed_only:
  assumes "has_type (event_json e) (event_ty kind)"
  shows "ev_simulated e = None \<and> (ev_experiment e \<noteq> None \<longrightarrow> ev_variant e \<noteq> None)"
proof -
  have typed: "\<exists>required t. (key, required, t) \<in> set (event_members kind) \<and> has_type v t" if "(key, v) \<in> set (event_fields e)" for key v
    using assms that by (fastforce simp: event_json_def event_ty_def list_all_iff)
  have "ev_simulated e = None"
  proof (rule ccontr)
    assume "ev_simulated e \<noteq> None"
    then obtain m where "(''simulated'', JStr m) \<in> set (event_fields e)" by (auto simp: event_fields_def opt_field_def)
    from typed [OF this] show False by (auto simp: event_members_def split: if_splits)
  qed
  moreover have "ev_variant e \<noteq> None" if "ev_experiment e \<noteq> None"
  proof -
    have "(''variant'', opt_json JStr (ev_variant e)) \<in> set (event_fields e)" using that by (auto simp: event_fields_def)
    from typed [OF this] show ?thesis by (cases "ev_variant e") (auto simp: event_members_def opt_json_def split: if_splits)
  qed
  ultimately show ?thesis by blast
qed

definition unmarked :: "event \<Rightarrow> json" where
  \<comment> \<open>the object an event is written as, without the simulator's own key\<close>
  "unmarked e = JObj (filter (\<lambda>(key, _). key \<noteq> ''simulated'') (event_fields e))"

lemma unmarked_json: "unmarked e = event_json (e\<lparr>ev_simulated := None\<rparr>)"
proof -
  have f: "filter (\<lambda>(key, _). key \<noteq> x) (opt_field key' f v) = (if key' = x then [] else opt_field key' f v)" for x key' and f :: "'b \<Rightarrow> json" and v
    by (simp add: opt_field_def split: option.split)
  show ?thesis
    by (cases "ev_experiment e") (simp_all add: unmarked_def event_json_def event_fields_def f, simp_all add: opt_field_def)
qed

lemma event_typed_iff:
  assumes "ev_type e = Some kind" and "ev_session e \<noteq> None" "ev_request e \<noteq> None" "ev_query e \<noteq> None" and "datetime_ok (ev_ts e)"
    and "ev_doc e \<noteq> None \<longleftrightarrow> kind \<in> {''impression'', ''click'', ''dwell''}" "ev_rank e \<noteq> None \<longleftrightarrow> ev_doc e \<noteq> None"
    and "ev_team e \<noteq> None \<Longrightarrow> ev_doc e \<noteq> None" and "ev_dwell e \<noteq> None \<longleftrightarrow> kind = ''dwell''"
  shows "has_type (event_json e) (event_ty kind) \<longleftrightarrow> ev_simulated e = None \<and> (ev_experiment e \<noteq> None \<longrightarrow> ev_variant e \<noteq> None)"
  using event_typed [OF assms] event_typed_only by blast

lemma event_typed_marks:
  assumes "ev_type e = Some kind" and "ev_session e \<noteq> None" "ev_request e \<noteq> None" "ev_query e \<noteq> None" and "datetime_ok (ev_ts e)"
    and "ev_doc e \<noteq> None \<longleftrightarrow> kind \<in> {''impression'', ''click'', ''dwell''}" "ev_rank e \<noteq> None \<longleftrightarrow> ev_doc e \<noteq> None"
    and "ev_team e \<noteq> None \<Longrightarrow> ev_doc e \<noteq> None" and "ev_dwell e \<noteq> None \<longleftrightarrow> kind = ''dwell''" and "kind \<in> set EVENT_TYPES"
    and "ev_simulated e = (if truthy m then m else None)" and "ev_experiment e = x" and "ev_variant e = (if x \<noteq> None then v else None)"
  shows "\<exists>kind \<in> set EVENT_TYPES. ev_type e = Some kind \<and>
    (has_type (event_json e) (event_ty kind) \<longleftrightarrow> \<not> truthy m \<and> (x = None \<or> v \<noteq> None)) \<and>
    (has_type (unmarked e) (event_ty kind) \<longleftrightarrow> x = None \<or> v \<noteq> None)"
proof -
  have "has_type (unmarked e) (event_ty kind) \<longleftrightarrow> x = None \<or> v \<noteq> None"
    unfolding unmarked_json by (subst event_typed_iff) (use assms in auto)
  moreover have "has_type (event_json e) (event_ty kind) \<longleftrightarrow> \<not> truthy m \<and> (x = None \<or> v \<noteq> None)"
    by (subst event_typed_iff) (use assms in \<open>auto simp: truthy_def\<close>)
  ultimately show ?thesis using assms(1,10) by blast
qed

lemma impression_events_typed:
  assumes "e \<in> set (impression_events p t0)" and "datetime_ok (ev_ts e)"
  shows "\<exists>kind \<in> set EVENT_TYPES. ev_type e = Some kind \<and>
    (has_type (event_json e) (event_ty kind) \<longleftrightarrow> \<not> truthy (pa_simulated p) \<and> (pa_experiment p = None \<or> pa_variant p \<noteq> None)) \<and>
    (has_type (unmarked e) (event_ty kind) \<longleftrightarrow> pa_experiment p = None \<or> pa_variant p \<noteq> None)"
  using assms(1)
proof (cases rule: impression_events_members)
  case (query t)
  then show ?thesis
    using assms(2) by (intro event_typed_marks [where kind = "''query''"]) (simp_all add: base_event_def event_types)
next
  case (abandon t)
  then show ?thesis
    using assms(2) by (intro event_typed_marks [where kind = "''abandon''"]) (simp_all add: base_event_def event_types)
next
  case (impression t r)
  then show ?thesis
    using assms(2) by (intro event_typed_marks [where kind = "''impression''"]) (simp_all add: ranked_event_def base_event_def event_types)
next
  case (click t r)
  then show ?thesis
    using assms(2) by (intro event_typed_marks [where kind = "''click''"]) (simp_all add: ranked_event_def base_event_def event_types)
next
  case (dwell t r)
  then show ?thesis
    using assms(2) by (intro event_typed_marks [where kind = "''dwell''"]) (simp_all add: ranked_event_def base_event_def event_types)
qed

section \<open>The traffic script\<close>

definition traffic_runs :: "'g rng_ops \<Rightarrow> 'g \<Rightarrow> qrels \<Rightarrow> (string, run) dict \<Rightarrow> (string option \<times> (string, run) dict) res" where
  \<comment> \<open>the BM25 run found, if any, and two noisy oracles; \<open>g\<close> is the generator seeded with 1000\<close>
  "traffic_runs R g qrels rr =
     (let bm25 = next_or (str_contains ''bm25'') (keys rr); runs = filter (\<lambda>(n, _). Some n = bm25) rr in
      res_bind (synthetic_noisy_oracle R qrels 1 g 200 100) (\<lambda>r1.
      res_bind (synthetic_noisy_oracle R qrels (5 / 4) g 200 100) (\<lambda>r2.
        Inr (bm25, dset (dset runs ''synthetic-oracle-sigma1.0'' r1) ''synthetic-oracle-sigma1.25'' r2))))"

definition traffic_experiments :: "string option \<Rightarrow> exp_config list" where
  "traffic_experiments bm25 =
     (let ctrl = (case bm25 of Some n \<Rightarrow> if n = [] then ''synthetic-oracle-sigma1.25'' else n | None \<Rightarrow> ''synthetic-oracle-sigma1.25'') in
      [\<lparr>ex_id = ''sim-ab'', ex_kind = ''ab'', ex_allocation = 1 / 2, ex_salt = ''sim-ab-1'', ex_control = ctrl,
         ex_treatment = ''synthetic-oracle-sigma1.0''\<rparr>,
       \<lparr>ex_id = ''sim-aa'', ex_kind = ''aa'', ex_allocation = 1 / 2, ex_salt = ''sim-aa-1'', ex_control = ctrl, ex_treatment = ctrl\<rparr>,
       \<lparr>ex_id = ''sim-interleave'', ex_kind = ''interleave'', ex_allocation = 1 / 2, ex_salt = ''sim-il-1'', ex_control = ctrl,
         ex_treatment = ''synthetic-oracle-sigma1.0''\<rparr>])"

fun simulate_experiments :: "'g sim_env \<Rightarrow> exp_config list \<Rightarrow> nat \<Rightarrow> 'g \<Rightarrow> (event list \<times> 'g) res" where
  \<comment> \<open>the experiments one after the other, on one generator\<close>
  "simulate_experiments E [] n g = Inr ([], g)"
| "simulate_experiments E (x # xs) n g =
     res_bind (simulate_experiment (E\<lparr>sm_exp := x\<rparr>) n g) (\<lambda>(evs, g1).
       res_bind (simulate_experiments E xs n g1) (\<lambda>(evs', g2). Inr (evs @ evs', g2)))"

record 'g traffic_args =
  ta_stats :: "'g stats_env"
  ta_xxh :: "nat \<Rightarrow> string \<Rightarrow> nat"
  ta_files :: files
  ta_qrels_paths :: "(string \<times> string list) list"
  ta_query_paths :: "string list list"
  ta_found :: "(string \<times> string) list" \<comment> \<open>the run files\<close>
  ta_rng :: "nat \<Rightarrow> 'g" \<comment> \<open>\<open>np.random.default_rng\<close>\<close>
  ta_repr :: "real \<Rightarrow> string"
  ta_sessions :: nat
  ta_seed :: nat
  ta_model :: string

definition split_model :: "string \<Rightarrow> (string \<times> string) res" where
  \<comment> \<open>\<open>kind, profile = model.split("-")\<close>\<close>
  "split_model m = (case split_at 45 m of [kind, profile] \<Rightarrow> Inr (kind, profile) | _ \<Rightarrow> Inl ValueError)"

definition simulate_traffic :: "'g traffic_args \<Rightarrow> string \<Rightarrow> file_system \<Rightarrow> (event list \<times> file_system \<times> events_report) res" where
  \<comment> \<open>\<open>main\<close> of \<open>m9_simulate_events.py\<close>, with the log's path: the events, the file system with the log and the report\<close>
  "simulate_traffic A path fs =
     (let R = se_rng (ta_stats A) in
      res_bind (load_dl_qrels (ta_files A) (ta_qrels_paths A)) (\<lambda>(qrels, _).
      res_bind (discover_real_runs (ta_found A)) (\<lambda>rr.
      res_bind (traffic_runs R (ta_rng A 1000) qrels rr) (\<lambda>(bm25, runs).
      res_bind (build_table runs qrels 10) (\<lambda>table.
      let exps = traffic_experiments bm25 in
      res_bind (split_model (ta_model A)) (\<lambda>(kind, profile).
      res_bind (make_model kind profile 10 1 (9 / 10)) (\<lambda>model.
      let E = \<lparr>sm_rng = R, sm_xxh = ta_xxh A, sm_table = table, sm_queries = load_dl_queries (ta_files A) (ta_query_paths A),
               sm_exp = hd exps, sm_model = model, sm_mean_queries = 2\<rparr> in
      res_bind (simulate_experiments E exps (ta_sessions A) (ta_rng A (ta_seed A))) (\<lambda>(events, _).
      res_bind (analyse (ta_stats A) (map (\<lambda>x. (ex_id x, ex_kind x)) exps) 10 events (ta_rng A (ta_seed A))) (\<lambda>(rep, _).
        Inr (events, write_jsonl (ta_repr A) path (map event_json events) fs, rep))))))))))"

lemma simulate_experiment_wf: "simulate_experiment E n g = Inr (evs, g') \<Longrightarrow> list_all event_wf evs"
  by (auto simp: simulate_experiment_def list_all_iff impression_events_wf)

lemma simulate_experiments_wf: "simulate_experiments E xs n g = Inr (evs, g') \<Longrightarrow> list_all event_wf evs"
  by (induction xs arbitrary: g evs) (fastforce dest: simulate_experiment_wf)+

lemma log_analysis:
  assumes "list_all event_wf evs" and "\<not> ends_with path ''.parquet''"
  shows "res_bind (read_events (write_jsonl rp path (map event_json evs) fs) parquet [path]) (\<lambda>js. analyse_log S config k js g) =
    analyse S config k evs g"
  using read_written_events [OF assms(2)] analyse_log_events [OF assms(1)] by simp

text \<open>No event of a simulated experiment is of a documented type: the simulator's mark is the name of its click model, where
  the document has a boolean.\<close>
lemma simulated_events_undocumented:
  assumes "sim_ok E" and "simulate_experiment E n g = Inr (evs, g')" and "e \<in> set evs"
  shows "\<not> has_type (event_json e) (event_ty kind)"
proof -
  obtain ps where ps: "sim_sessions E n 0 g = Inr (ps, g')" and evs: "evs = concat (map (\<lambda>(p, t). impression_events p t) (page_times ps))"
    using assms(2) by (auto simp: simulate_experiment_def)
  then obtain p t where p: "(p, t) \<in> set (page_times ps)" "e \<in> set (impression_events p t)" using assms(3) by auto
  have "p \<in> set ps" using p(1) by (auto simp: page_times_def in_set_enumerate_eq)
  then have m: "pa_simulated p = Some (model_name (sm_model E))" "model_name (sm_model E) \<noteq> []"
    using sim_sessions_pages [OF assms(1) ps] assms(1) by (auto simp: sim_ok_def)
  have "ev_simulated e = pa_simulated p"
    using p(2) by (cases rule: impression_events_members) (simp_all add: ranked_event_def base_event_def truthy_def m)
  then show ?thesis using event_typed_only m(1) by fastforce
qed

text \<open>C13: an event that \<open>impression_events\<close> emits, at any time a \<open>datetime\<close> can hold, is written as a JSON object of the type
  that \<open>docs/ARCHITECTURE.md\<close> gives to its kind (exactly the keys of the kind, every required one present, identifiers as
  strings, document, rank and dwell as integers, \<open>clientTs\<close> an ISO timestamp in milliseconds, \<open>simulated\<close> a boolean, and no
  key twice) exactly when the page carries no simulator's mark and no experiment without a variant.  The mark alone
  breaks the type (it is a string), for without that one key the object has the documented type whenever an experiment
  comes with its variant.\<close>
theorem events_have_schema_type:
  assumes "e \<in> set (impression_events p t0)" and "datetime_ok (ev_ts e)"
  shows "\<exists>kind \<in> set EVENT_TYPES. ev_type e = Some kind \<and>
    (has_type (event_json e) (event_ty kind) \<longleftrightarrow> \<not> truthy (pa_simulated p) \<and> (pa_experiment p = None \<or> pa_variant p \<noteq> None)) \<and>
    (has_type (unmarked e) (event_ty kind) \<longleftrightarrow> pa_experiment p = None \<or> pa_variant p \<noteq> None)"
  using assms by (rule impression_events_typed)

text \<open>C14: the log file that the traffic simulator writes carries everything the analyser uses: reading the file back and
  analysing its objects gives the same report, counters and draws as analysing the simulated events in memory, for any
  experiments, statistics, configuration and seed (and so the same error, if the analysis fails).\<close>
theorem simulated_log_file_analysis:
  assumes "simulate_experiments E xs n g = Inr (evs, g')" and "\<not> ends_with path ''.parquet''"
  shows "res_bind (read_events (write_jsonl rp path (map event_json evs) fs) parquet [path]) (\<lambda>js. analyse_log S config k js h) =
    analyse S config k evs h"
  using log_analysis [OF simulate_experiments_wf [OF assms(1)] assms(2)] .

definition demo_clicked :: page_args where
  "demo_clicked =
     \<lparr>pa_session = ''s'', pa_request = ''r'', pa_query = ''how to'', pa_docs = [17], pa_clicks = [True], pa_dwell = [1200],
      pa_experiment = Some ''e'', pa_variant = Some ''interleaved'', pa_teams = Some [''A''], pa_simulated = None\<rparr>"

definition demo_dwell :: event where
  "demo_dwell = (ranked_event demo_clicked ''dwell'' (SIM_EPOCH + 2300) 0)\<lparr>ev_dwell := Some 1200\<rparr>"

definition demo_marked :: event where
  "demo_marked = (ranked_event (demo_clicked\<lparr>pa_simulated := Some ''pbm''\<rparr>) ''dwell'' (SIM_EPOCH + 2300) 0)\<lparr>ev_dwell := Some 1200\<rparr>"

theorem events_have_schema_type_witness:
  "has_type (event_json demo_dwell) (event_ty ''dwell'') \<and>
   \<not> has_type (event_json demo_marked) (event_ty ''dwell'') \<and> has_type (unmarked demo_marked) (event_ty ''dwell'')"
proof -
  have "demo_dwell \<in> set (impression_events demo_clicked SIM_EPOCH)"
    "demo_marked \<in> set (impression_events (demo_clicked\<lparr>pa_simulated := Some ''pbm''\<rparr>) SIM_EPOCH)"
    by (simp_all add: impression_events_def demo_clicked_def demo_dwell_def demo_marked_def Let_def SIM_EPOCH_def)
  moreover have "datetime_ok (ev_ts demo_dwell)" "datetime_ok (ev_ts demo_marked)"
    by (simp_all add: datetime_ok_def demo_dwell_def demo_marked_def ranked_event_def base_event_def SIM_EPOCH_def)
  moreover have "ev_type demo_dwell = Some ''dwell''" "ev_type demo_marked = Some ''dwell''"
    by (simp_all add: demo_dwell_def demo_marked_def ranked_event_def base_event_def)
  ultimately show ?thesis
    using events_have_schema_type [of demo_dwell demo_clicked SIM_EPOCH]
      events_have_schema_type [of demo_marked "demo_clicked\<lparr>pa_simulated := Some ''pbm''\<rparr>" SIM_EPOCH]
    by (auto simp: demo_clicked_def truthy_def)
qed

theorem simulated_log_file_analysis_witness:
  "\<exists>evs. simulate_experiments demo_sim [sm_exp demo_sim] 1 () = Inr (evs, ()) \<and>
     res_bind (read_events (write_jsonl (\<lambda>_. []) ''sim.jsonl'' (map event_json evs) (\<lambda>_. None)) (\<lambda>_. []) [''sim.jsonl''])
       (\<lambda>js. analyse_log demo_stats [] 10 js ()) = analyse demo_stats [] 10 evs ()"
proof -
  have q: "rg_geometric (sm_rng demo_sim) h x = (1, h)" for h x by (simp add: demo_sim_def demo_stats_def)
  have "\<exists>ps. sim_sessions demo_sim 1 0 () = Inr (ps, ())"
    using demo_page by (fastforce simp: q Let_def case_prod_unfold)
  then obtain evs where "simulate_experiment demo_sim 1 () = Inr (evs, ())" by (auto simp: simulate_experiment_def)
  then have evs: "simulate_experiments demo_sim [sm_exp demo_sim] 1 () = Inr (evs, ())" by simp
  show ?thesis
    by (intro exI [of _ evs] conjI evs simulated_log_file_analysis [OF evs]) (simp add: ends_with_def)
qed

end
