(* ===== verification/Golden.thy ===== *)
theory Golden
  imports Interleave Json
begin

text \<open>
  \<open>scripts/m9_make_golden.py\<close>: the golden cases of team-draft interleaving that the Python implementation and
  the C# broker share.  Seven cases carry expectations derived by hand, which the script asserts against the
  implementation before it writes the file; five are generated by it, and two outcome distributions
  are aggregated by the JSON text of an outcome.  The theorem evaluates the script on the model of
  \<open>team_draft\<close>: no assertion fails.
\<close>

section \<open>The cases\<close>

record hand_case =
  hc_name :: string
  hc_a :: "int list"
  hc_b :: "int list"
  hc_k :: nat
  hc_coins :: "bool list"
  hc_out :: "int list"
  hc_teams :: string
  hc_used :: nat
  hc_clicks :: "(int list \<times> nat \<times> nat \<times> winner) list"

definition HAND :: "hand_case list" where
  "HAND =
     [\<lparr>hc_name = ''disjoint_a_first'', hc_a = [1, 2, 3, 4], hc_b = [5, 6, 7, 8], hc_k = 4, hc_coins = [True, True],
       hc_out = [1, 5, 2, 6], hc_teams = ''ABAB'', hc_used = 2,
       hc_clicks = [([1], 1, 0, Win_A), ([5, 6], 0, 2, Win_B), ([1, 5], 1, 1, Tie), ([], 0, 0, Tie)]\<rparr>,
      \<lparr>hc_name = ''disjoint_b_first'', hc_a = [1, 2, 3, 4], hc_b = [5, 6, 7, 8], hc_k = 4, hc_coins = [False, False],
       hc_out = [5, 1, 6, 2], hc_teams = ''BABA'', hc_used = 2,
       hc_clicks = [([1, 2], 2, 0, Win_A), ([5], 0, 1, Win_B)]\<rparr>,
      \<lparr>hc_name = ''identical_rankings'', hc_a = [1, 2, 3, 4], hc_b = [1, 2, 3, 4], hc_k = 4, hc_coins = [True, False],
       hc_out = [1, 2, 3, 4], hc_teams = ''ABBA'', hc_used = 2,
       hc_clicks = [([1], 1, 0, Win_A), ([2, 3], 0, 2, Win_B), ([1, 4], 2, 0, Win_A)]\<rparr>,
      \<lparr>hc_name = ''overlap_with_duplicates'', hc_a = [1, 2, 3, 4, 5], hc_b = [2, 1, 6, 3, 7], hc_k = 5, hc_coins = [False, True, True],
       hc_out = [2, 1, 3, 6, 4], hc_teams = ''BAABA'', hc_used = 3,
       hc_clicks = [([2], 0, 1, Win_B), ([1, 3], 2, 0, Win_A), ([2, 6, 4], 1, 2, Win_B)]\<rparr>,
      \<lparr>hc_name = ''b_exhausted_a_fills'', hc_a = [1, 2, 3, 4, 5, 6], hc_b = [1], hc_k = 5, hc_coins = [True],
       hc_out = [1, 2, 3, 4, 5], hc_teams = ''AAAAA'', hc_used = 1,
       hc_clicks = [([5], 1, 0, Win_A)]\<rparr>,
      \<lparr>hc_name = ''k_exceeds_union'', hc_a = [1, 2], hc_b = [2, 3], hc_k = 10, hc_coins = [True, True],
       hc_out = [1, 2, 3], hc_teams = ''ABB'', hc_used = 2,
       hc_clicks = [([3], 0, 1, Win_B), ([1, 2], 1, 1, Tie)]\<rparr>,
      \<lparr>hc_name = ''odd_k'', hc_a = [10, 20, 30], hc_b = [30, 20, 10], hc_k = 3, hc_coins = [False, True],
       hc_out = [30, 10, 20], hc_teams = ''BAA'', hc_used = 2,
       hc_clicks = [([20], 1, 0, Win_A), ([30], 0, 1, Win_B)]\<rparr>]"

definition GENERATED :: "(string \<times> int list \<times> int list \<times> nat \<times> bool list) list" where
  "GENERATED =
     [(''empty_b'', [7, 8, 9], [], 3, [False]),
      (''empty_both'', [], [], 5, []),
      (''realistic_k10'', [7067032, 7067033, 1017759, 1082489, 109063, 44, 55, 66, 77, 88, 99],
       [1082489, 7067032, 12, 13, 1017759, 14, 15, 44, 16, 17], 10, [True, False, False, True, True]),
      (''k1_b_first'', [1, 2], [3, 4], 1, [False]),
      (''a_prefix_of_b'', [1, 2], [1, 2, 3, 4, 5], 5, [True, True, False])]"

record golden_case =
  gc_name :: string
  gc_a :: "int list"
  gc_b :: "int list"
  gc_k :: nat
  gc_coins :: "bool list"
  gc_out :: "int list"
  gc_teams :: "team list"
  gc_used :: nat
  gc_clicks :: "(int list \<times> nat \<times> nat \<times> winner) list"
  gc_hand :: bool

definition list_index :: "'a list \<Rightarrow> 'a \<Rightarrow> nat res" where
  \<comment> \<open>\<open>xs.index(x)\<close>\<close>
  "list_index xs x = (let n = length (takeWhile (\<lambda>y. y \<noteq> x) xs) in if n < length xs then Inr n else Inl ValueError)"

definition click_test :: "int list \<Rightarrow> team list \<Rightarrow> int list \<Rightarrow> (int list \<times> nat \<times> nat \<times> winner) res" where
  "click_test out teams c =
     res_bind (res_map (list_index out) c) (\<lambda>ps. res_bind (team_draft_credit teams ps) (\<lambda>(x, y, w). Inr (c, x, y, w)))"

definition case_dict :: "string \<Rightarrow> int list \<Rightarrow> int list \<Rightarrow> nat \<Rightarrow> bool list \<Rightarrow> int list list \<Rightarrow> bool \<Rightarrow> golden_case res" where
  "case_dict name a b k coins clicks hand =
     res_bind (team_draft a b k coins) (\<lambda>(out, teams, used).
     res_bind (res_map (click_test out teams) clicks) (\<lambda>ts.
       Inr \<lparr>gc_name = name, gc_a = a, gc_b = b, gc_k = k, gc_coins = coins, gc_out = out, gc_teams = teams, gc_used = used,
            gc_clicks = ts, gc_hand = hand\<rparr>))"

definition team_char :: "team \<Rightarrow> char" where
  "team_char t = (case t of Team_A \<Rightarrow> CHR ''A'' | Team_B \<Rightarrow> CHR ''B'')"

definition hand_dict :: "hand_case \<Rightarrow> golden_case res" where
  \<comment> \<open>a case with its assertions\<close>
  "hand_dict h =
     res_bind (case_dict (hc_name h) (hc_a h) (hc_b h) (hc_k h) (hc_coins h) (map fst (hc_clicks h)) True) (\<lambda>d.
       if gc_out d = hc_out h \<and> map team_char (gc_teams d) = hc_teams h \<and> gc_used d = hc_used h \<and>
          list_all2 (\<lambda>t w. snd t = snd w) (gc_clicks d) (hc_clicks h)
       then Inr d else Inl AssertionError)"

definition generated_dict :: "string \<times> int list \<times> int list \<times> nat \<times> bool list \<Rightarrow> golden_case res" where
  "generated_dict g =
     (let (name, a, b, k, coins) = g in
      res_bind (team_draft a b k coins) (\<lambda>(out, _, _).
        case_dict name a b k coins (if out \<noteq> [] then [take 1 out, drop (length out - 2) out] else [[]]) False))"

section \<open>Distributions\<close>

definition outcome_json :: "int list \<Rightarrow> team list \<Rightarrow> json" where
  "outcome_json out teams =
     JObj [(''interleaved'', JArr (map JInt out)), (''teams'', JArr (map (\<lambda>t. JStr [team_char t]) teams))]"

definition outcome_key :: "int list \<times> team list \<times> real \<Rightarrow> string" where
  \<comment> \<open>the compact JSON text of an outcome, which holds no float\<close>
  "outcome_key x = dumps '','' '':'' (\<lambda>_. []) (outcome_json (fst x) (fst (snd x)))"

definition distribution :: "int list \<Rightarrow> int list \<Rightarrow> nat \<Rightarrow> (json \<times> real) list res" where
  \<comment> \<open>the outcomes in the order of their texts, each read back from its text, with its probability\<close>
  "distribution a b k =
     (let agg = foldl (\<lambda>d (out, teams, p). let key = outcome_key (out, teams, p) in dset d key (dget d key 0 + p)) []
                  (enumerate_team_draft a b k)
      in res_map (\<lambda>(key, p). res_bind (loads key) (\<lambda>j. Inr (j, p))) (py_sorted fst agg))"

definition make_golden :: "(golden_case list \<times> (string \<times> (json \<times> real) list) list) res" where
  "make_golden =
     res_bind (res_map hand_dict HAND) (\<lambda>hs.
     res_bind (res_map generated_dict GENERATED) (\<lambda>gs.
     res_bind (res_map (\<lambda>(name, a, b, k). res_bind (distribution a b k) (\<lambda>d. Inr (name, d)))
         [(''overlap_k4'', [1, 2, 3, 4], [2, 5, 1, 6], 4), (''identical_k3'', [1, 2, 3], [1, 2, 3], 3)]) (\<lambda>ds.
       Inr (hs @ gs, ds))))"

section \<open>No assertion fails\<close>

lemma hand_cases_pass: "list_all (\<lambda>h. case hand_dict h of Inr d \<Rightarrow> True | Inl e \<Rightarrow> False) HAND"
  by code_simp

lemma generated_cases_pass: "list_all (\<lambda>g. case generated_dict g of Inr d \<Rightarrow> True | Inl e \<Rightarrow> False) GENERATED"
  by code_simp

lemma res_map_passes: "list_all (\<lambda>x. case f x of Inr d \<Rightarrow> True | Inl e \<Rightarrow> False) xs \<Longrightarrow> \<exists>ys. res_map f xs = Inr ys"
  by (induction xs) (auto split: sum.splits)

lemma outcome_reads_back: "loads (outcome_key x) = Inr (outcome_json (fst x) (fst (snd x)))"
proof -
  have "json_plain (outcome_json (fst x) (fst (snd x)))" by (simp add: outcome_json_def list_all_iff)
  moreover have "json_seps '','' '':''" by (simp add: json_seps_def)
  ultimately show ?thesis unfolding outcome_key_def by (rule loads_dumps)
qed

lemma sum_dset: "dict_ok d \<Longrightarrow> sum_list (map snd (dset d key (dget d key 0 + p))) = sum_list (map snd d) + (p :: real)"
  by (induction d) (auto simp: dset_def dget_def)

definition aggregated :: "(int list \<times> team list \<times> real) list \<Rightarrow> (string, real) dict" where
  "aggregated os = foldl (\<lambda>d (out, teams, p). let key = outcome_key (out, teams, p) in dset d key (dget d key 0 + p)) [] os"

lemma aggregated_snoc: "aggregated (os @ [x]) = dset (aggregated os) (outcome_key x) (dget (aggregated os) (outcome_key x) 0 + snd (snd x))"
  by (cases x) (simp add: aggregated_def Let_def)

lemma aggregated_sum:
  "dict_ok (aggregated os) \<and> sum_list (map snd (aggregated os)) = sum_list (map (\<lambda>(_, _, p). p) os) \<and>
   set (keys (aggregated os)) = outcome_key ` set os"
proof (induction os rule: rev_induct)
  case (snoc x os)
  then show ?case by (simp add: aggregated_snoc sum_dset keys_dset [simplified] case_prod_unfold)
qed (simp add: aggregated_def)

lemma distribution_sum: "\<exists>d. distribution a b k = Inr d \<and> sum_list (map snd d) = 1"
proof -
  let ?os = "enumerate_team_draft a b k" and ?f = "\<lambda>(key, p :: real). res_bind (loads key) (\<lambda>j. Inr (j, p))"
  let ?kps = "py_sorted fst (aggregated ?os)"
  let ?g = "\<lambda>(key, p :: real). ((case loads key of Inr j \<Rightarrow> j | Inl e \<Rightarrow> JNull), p)"
  have "?f kp = Inr (?g kp)" if "kp \<in> set ?kps" for kp
  proof -
    have "fst kp \<in> outcome_key ` set ?os" using that aggregated_sum [of ?os] by (force simp: sorted_asc.rank_set)
    then show ?thesis using outcome_reads_back by (cases kp) auto
  qed
  then have "res_map ?f ?kps = Inr (map ?g ?kps)" by (rule res_map_all_Inr)
  then have "distribution a b k = Inr (map ?g ?kps)" by (simp add: distribution_def aggregated_def Let_def)
  moreover have "sum_list (map snd (map ?g ?kps)) = sum_list (map snd ?kps)"
    by (simp add: comp_def case_prod_unfold)
  moreover have "sum_list (map snd ?kps) = sum_list (map snd (aggregated ?os))"
    by (metis mset_map sorted_asc.rank_mset sum_mset_sum_list)
  ultimately show ?thesis
    using aggregated_sum [of ?os] enum_draft_sum [of "[]" a b k] by (simp add: enumerate_team_draft_def)
qed

lemma hand_dict_meets:
  "hand_dict h = Inr d \<Longrightarrow> gc_out d = hc_out h \<and> map team_char (gc_teams d) = hc_teams h \<and> gc_used d = hc_used h \<and>
     map snd (gc_clicks d) = map snd (hc_clicks h)"
proof -
  have "list_all2 (\<lambda>t w. snd t = snd w) xs ys \<Longrightarrow> map snd xs = map snd ys" for xs ys :: "(int list \<times> nat \<times> nat \<times> winner) list"
    by (induction rule: list_all2_induct) simp_all
  then show "hand_dict h = Inr d \<Longrightarrow> ?thesis" by (auto simp: hand_dict_def split: if_splits)
qed

lemma hand_dicts_meet:
  "res_map hand_dict hs = Inr ds \<Longrightarrow>
     map (\<lambda>d. (gc_out d, map team_char (gc_teams d), gc_used d, map snd (gc_clicks d))) ds =
     map (\<lambda>h. (hc_out h, hc_teams h, hc_used h, map snd (hc_clicks h))) hs"
  by (induction hs arbitrary: ds) (auto dest!: hand_dict_meets)

text \<open>The golden script writes its file on the implementation as it is: none of the assertions of the seven hand-derived
  cases fails, so \<open>team_draft\<close> shows exactly the documents, teams and number of coins that were derived by hand, and the
  credit of every click test is the expected one; the five generated cases run without an error; and each of the two outcome
  distributions, aggregated and sorted by the JSON text of the outcomes, has total probability 1.\<close>
theorem golden_cases_hold:
  "\<exists>hs gs ds. make_golden = Inr (hs @ gs, ds) \<and>
     map (\<lambda>d. (gc_out d, map team_char (gc_teams d), gc_used d, map snd (gc_clicks d))) hs =
       map (\<lambda>h. (hc_out h, hc_teams h, hc_used h, map snd (hc_clicks h))) HAND \<and>
     length gs = 5 \<and> map (\<lambda>(_, d). sum_list (map snd d)) ds = [1, 1]"
proof -
  obtain hs where hs: "res_map hand_dict HAND = Inr hs" using res_map_passes [OF hand_cases_pass] by blast
  obtain gs where gs: "res_map generated_dict GENERATED = Inr gs" using res_map_passes [OF generated_cases_pass] by blast
  obtain d1 where d1: "distribution [1, 2, 3, 4] [2, 5, 1, 6] 4 = Inr d1" "sum_list (map snd d1) = 1" using distribution_sum by blast
  obtain d2 where d2: "distribution [1, 2, 3] [1, 2, 3] 3 = Inr d2" "sum_list (map snd d2) = 1" using distribution_sum by blast
  have "length gs = 5" using res_map_Inr_length [OF gs] by (simp add: GENERATED_def)
  then show ?thesis
    using hs gs d1 d2 hand_dicts_meet [OF hs]
    by (intro exI [of _ hs] exI [of _ gs] exI [of _ "[(''overlap_k4'', d1), (''identical_k3'', d2)]"])
       (simp add: make_golden_def)
qed

end
