(* ===== verification/Unicode_Tables.thy ===== *)
theory Unicode_Tables
  imports Json
begin

text \<open>
  \<open>py/hybridsearch/lexical/gen_unicode_tables.py\<close>: the tables of the C++ tokenizer, from the files of the Unicode
  Character Database.  The property of a code point is a bit mask; runs of equal masks are written as
  ranges, which the engine searches by code point.  The downloaded files are the argument: a dict from
  their names to their text, in which only newlines end a line.  The lemmas show that a range table says of every code point exactly what the
  files say, and that its ranges are ordered, disjoint and as long as possible.
\<close>

unbundle bit_operations_syntax

section \<open>The files\<close>

definition int16 :: "string \<Rightarrow> nat res" where
  \<comment> \<open>\<open>int(s, 16)\<close> on hexadecimal digits; every other string raises\<close>
  "int16 s =
     (let t = strip s; ds = map hex_value t in
      if t = [] \<or> None \<in> set ds then Inl ValueError else Inr (foldl (\<lambda>a d. 16 * a + the d) 0 ds))"

fun split_dots :: "string \<Rightarrow> string list" where
  \<comment> \<open>\<open>s.split("..")\<close>\<close>
  "split_dots [] = [[]]"
| "split_dots [c] = [[c]]"
| "split_dots (c # d # r) =
     (if c = CHR ''.'' \<and> d = CHR ''.'' then [] # split_dots r
      else (c # hd (split_dots (d # r))) # tl (split_dots (d # r)))"

definition read_range :: "string \<Rightarrow> (nat \<times> nat) res" where
  "read_range rng =
     (if 1 < length (split_dots rng) then
        (case split_dots rng of
           [a, b] \<Rightarrow> res_bind (int16 a) (\<lambda>lo. res_bind (int16 b) (\<lambda>hi. Inr (lo, hi)))
         | _ \<Rightarrow> Inl ValueError)
      else res_bind (int16 rng) (\<lambda>n. Inr (n, n)))"

definition range_line :: "string \<Rightarrow> (nat \<times> nat \<times> string) list res" where
  \<comment> \<open>what a line yields: nothing when only a comment is on it\<close>
  "range_line line =
     (let l = strip (hd (split_at 35 line)) in
      if l = [] then Inr []
      else case map strip (take 2 (split_at 59 l)) of
        [rng, val] \<Rightarrow> res_bind (read_range rng) (\<lambda>(lo, hi). Inr [(lo, hi, val)])
      | _ \<Rightarrow> Inl ValueError)"

definition parse_ranges :: "string \<Rightarrow> (nat \<times> nat \<times> string) list res" where
  "parse_ranges text = res_bind (res_map range_line (text_lines text)) (\<lambda>rs. Inr (concat rs))"

section \<open>Masks\<close>

definition BITS :: "(string, nat) dict" where
  "BITS =
     [(''WB_Format'', 0), (''WB_Extend'', 1), (''WB_ZWJ'', 2), (''WB_Regional_Indicator'', 3), (''WB_ALetter'', 4),
      (''WB_Hebrew_Letter'', 5), (''WB_Numeric'', 6), (''WB_Katakana'', 7), (''WB_MidLetter'', 8), (''WB_MidNumLet'', 9),
      (''WB_Single_Quote'', 10), (''WB_MidNum'', 11), (''WB_ExtendNumLet'', 12), (''WB_Double_Quote'', 13),
      (''SC_Hangul'', 14), (''SC_Han'', 15), (''SC_Hiragana'', 16), (''LB_SA'', 17), (''Emoji'', 18), (''Emoji_Modifier'', 19),
      (''Emoji_Modifier_Base'', 20), (''Extended_Pictographic'', 21), (''KeyCapBase'', 22), (''AccidentalEmoji'', 23),
      (''VS15'', 24), (''VS16'', 25), (''KeyCap'', 26), (''TagSpec'', 27), (''TagTerm'', 28)]"

definition MAXCP :: nat where
  "MAXCP = 0x110000"

definition setbit :: "nat list \<Rightarrow> nat \<times> nat \<times> string \<Rightarrow> nat list res" where
  "setbit bits e =
     (let (lo, hi, name) = e in
      res_bind (dlookup BITS name) (\<lambda>b.
        if lo \<le> hi \<and> length bits \<le> hi then Inl IndexError
        else Inr (map (\<lambda>(cp, m). if lo \<le> cp \<and> cp \<le> hi then m OR 2 ^ b else m) (enumerate 0 bits))))"

definition wb_names :: "string list" where
  "wb_names = map (drop 3) (filter (\<lambda>n. take 3 n = ''WB_'') (keys BITS))"

definition named_ranges :: "(string, string) dict \<Rightarrow> string \<Rightarrow> (string \<Rightarrow> string option) \<Rightarrow> (nat \<times> nat \<times> string) list res" where
  \<comment> \<open>the ranges of a file whose value maps to a bit\<close>
  "named_ranges files name bit_of =
     (case map_of files name of
        None \<Rightarrow> Inl FileNotFoundError
      | Some text \<Rightarrow>
          res_bind (parse_ranges text) (\<lambda>rs.
            Inr (concat (map (\<lambda>(lo, hi, val). case bit_of val of Some b \<Rightarrow> [(lo, hi, b)] | None \<Rightarrow> []) rs))))"

definition fixed_entries :: "(nat \<times> nat \<times> string) list" where
  \<comment> \<open>key caps, accidental emoji, variation selectors and tags\<close>
  "fixed_entries =
     map (\<lambda>c. (code c, code c, ''KeyCapBase'')) ''0123456789#*'' @
     map (\<lambda>c. (c, c, ''AccidentalEmoji'')) [0xA9, 0xAE, 0x2122, 0x3030, 0x303D] @
     [(0xFE0E, 0xFE0E, ''VS15''), (0xFE0F, 0xFE0F, ''VS16''), (0x20E3, 0x20E3, ''KeyCap''), (0xE0020, 0xE007E, ''TagSpec''),
      (0xE007F, 0xE007F, ''TagTerm'')]"

definition table_entries :: "(string, string) dict \<Rightarrow> (nat \<times> nat \<times> string) list res" where
  \<comment> \<open>the calls of \<open>setbit\<close>, in order\<close>
  "table_entries files =
     res_bind (named_ranges files ''WordBreakProperty-12.1.txt'' (\<lambda>v. if v \<in> set wb_names then Some (''WB_'' @ v) else None)) (\<lambda>wb.
     res_bind (named_ranges files ''Scripts-12.1.txt''
         (\<lambda>v. if v \<in> {''Hangul'', ''Han'', ''Hiragana''} then Some (''SC_'' @ v) else None)) (\<lambda>sc.
     res_bind (named_ranges files ''LineBreak-12.1.txt'' (\<lambda>v. if v = ''SA'' then Some ''LB_SA'' else None)) (\<lambda>lb.
     res_bind (named_ranges files ''emoji-data-12.1.txt''
         (\<lambda>v. if v \<in> {''Emoji'', ''Emoji_Modifier'', ''Emoji_Modifier_Base'', ''Extended_Pictographic''} then Some v else None)) (\<lambda>em.
       Inr (wb @ sc @ lb @ em @ fixed_entries)))))"

definition masks :: "nat \<Rightarrow> (nat \<times> nat \<times> string) list \<Rightarrow> nat list res" where
  "masks maxcp entries = res_fold setbit (replicate maxcp 0) entries"

section \<open>Ranges and lowercase pairs\<close>

function prop_ranges :: "nat \<Rightarrow> nat list \<Rightarrow> (nat \<times> nat \<times> nat) list" where
  \<comment> \<open>the outer loop at \<open>cp\<close>; the inner one goes over the masks equal to the first\<close>
  "prop_ranges cp [] = []"
| "prop_ranges cp (m # ms) =
     (let n = length (takeWhile (\<lambda>x. x = m) ms) in
      (if m \<noteq> 0 then [(cp, cp + n, m)] else []) @ prop_ranges (cp + n + 1) (drop n ms))"
  by pat_completeness auto
termination by (relation "measure (\<lambda>(cp, ms). length ms)") auto

definition lower_pair :: "string \<Rightarrow> (nat \<times> nat) list res" where
  "lower_pair line =
     (let f = split_at 59 (rstrip_nl line) in
      if length f \<le> 13 then Inl IndexError
      else if f ! 13 = [] then Inr []
      else res_bind (int16 (f ! 0)) (\<lambda>a. res_bind (int16 (f ! 13)) (\<lambda>b. Inr [(a, b)])))"

definition lower_pairs :: "string \<Rightarrow> (nat \<times> nat) list res" where
  "lower_pairs text = res_bind (res_map lower_pair (text_lines text)) (\<lambda>ps. Inr (py_sorted (\<lambda>p. [fst p, snd p]) (concat ps)))"

definition unicode_tables :: "nat \<Rightarrow> (string, string) dict \<Rightarrow> ((nat \<times> nat \<times> nat) list \<times> (nat \<times> nat) list) res" where
  \<comment> \<open>the two tables of \<open>main\<close> for code points below \<open>maxcp\<close>, which is \<open>MAXCP\<close>\<close>
  "unicode_tables maxcp files =
     res_bind (table_entries files) (\<lambda>entries.
     res_bind (masks maxcp entries) (\<lambda>ms.
       case map_of files ''UnicodeData-15.0.txt'' of
         None \<Rightarrow> Inl FileNotFoundError
       | Some text \<Rightarrow> res_bind (lower_pairs text) (\<lambda>lower. Inr (prop_ranges 0 ms, lower))))"

definition hex_upper :: "nat \<Rightarrow> char" where
  "hex_upper d = ''0123456789ABCDEF'' ! d"

fun hex_text :: "nat \<Rightarrow> string" where
  \<comment> \<open>\<open>f"{n:X}"\<close>\<close>
  "hex_text n = (if n < 16 then [hex_upper n] else hex_text (n div 16) @ [hex_upper (n mod 16)])"

declare hex_text.simps [simp del]

definition unicode_inc :: "nat \<Rightarrow> (string, string) dict \<Rightarrow> string res" where
  \<comment> \<open>the generated file\<close>
  "unicode_inc maxcp files =
     res_bind (unicode_tables maxcp files) (\<lambda>(ranges, lower).
       Inr (unlines
         ([''// GENERATED by py/hybridsearch/lexical/gen_unicode_tables.py. Do not edit.'',
           ''// Word-break grammar properties: UCD 12.1 + emoji-data 12.1 (Lucene 10 JFlex %unicode 12.1).'',
           ''// Lowercase: UnicodeData 15.0 simple lowercase (java.lang.Character.toLowerCase, Java 21).'',
           ''// '' @ str_nat (length ranges) @ '' property ranges, '' @ str_nat (length lower) @ '' lowercase pairs.'',
           ''static constexpr PropRange kPropRanges[] = {''] @
          map (\<lambda>(lo, hi, m). ''  {0x'' @ hex_text lo @ '', 0x'' @ hex_text hi @ '', 0x'' @ hex_text m @ ''u},'') ranges @
          [''};'', ''static constexpr LowerPair kLowerPairs[] = {''] @
          map (\<lambda>(a, b). ''  {0x'' @ hex_text a @ '', 0x'' @ hex_text b @ ''},'') lower @ [''};''])))"

section \<open>What the tables say\<close>

definition prop_mask :: "(nat \<times> nat \<times> nat) list \<Rightarrow> nat \<Rightarrow> nat" where
  \<comment> \<open>what the engine finds in the table: the mask of the range that holds the code point, or 0\<close>
  "prop_mask rs cp = (case filter (\<lambda>(lo, hi, _). lo \<le> cp \<and> cp \<le> hi) rs of [] \<Rightarrow> 0 | (_, _, m) # _ \<Rightarrow> m)"

definition range_table :: "(nat \<times> nat \<times> nat) list \<Rightarrow> bool" where
  \<comment> \<open>ranges in order, apart, none empty, none that could be joined with the next\<close>
  "range_table rs \<longleftrightarrow>
     list_all (\<lambda>(lo, hi, m). lo \<le> hi \<and> m \<noteq> 0) rs \<and>
     sorted_wrt (\<lambda>(_, hi, m) (lo', _, m'). hi < lo' \<and> (hi + 1 = lo' \<longrightarrow> m \<noteq> m')) rs"

lemma setbit_spec:
  assumes "setbit bits (lo, hi, name) = Inr bits'"
  shows "length bits' = length bits" and "\<exists>b. map_of BITS name = Some b \<and>
    (\<forall>cp < length bits. \<forall>i. bit (bits' ! cp) i \<longleftrightarrow> bit (bits ! cp) i \<or> (lo \<le> cp \<and> cp \<le> hi \<and> i = b))"
proof -
  obtain b where b: "map_of BITS name = Some b"
    and bits': "bits' = map (\<lambda>(cp, m). if lo \<le> cp \<and> cp \<le> hi then m OR 2 ^ b else m) (enumerate 0 bits)"
    using assms by (auto simp: setbit_def dlookup_def split: option.splits if_splits)
  then show "length bits' = length bits" by simp
  have "bit (bits' ! cp) i \<longleftrightarrow> bit (bits ! cp) i \<or> (lo \<le> cp \<and> cp \<le> hi \<and> i = b)" if "cp < length bits" for cp i
    using that by (auto simp: bits' nth_enumerate_eq bit_or_iff bit_exp_iff)
  then show "\<exists>b. map_of BITS name = Some b \<and>
    (\<forall>cp < length bits. \<forall>i. bit (bits' ! cp) i \<longleftrightarrow> bit (bits ! cp) i \<or> (lo \<le> cp \<and> cp \<le> hi \<and> i = b))" using b by blast
qed

lemma masks_fold:
  assumes "res_fold setbit bits entries = Inr bits'"
  shows "length bits' = length bits \<and> (\<forall>cp < length bits. \<forall>i. bit (bits' ! cp) i \<longleftrightarrow>
     bit (bits ! cp) i \<or> (\<exists>(lo, hi, name) \<in> set entries. lo \<le> cp \<and> cp \<le> hi \<and> map_of BITS name = Some i))"
  using assms
proof (induction entries arbitrary: bits)
  case (Cons e es)
  obtain lo hi name where e: "e = (lo, hi, name)" by (cases e)
  obtain b1 where b1: "setbit bits (lo, hi, name) = Inr b1" and rest: "res_fold setbit b1 es = Inr bits'"
    using Cons.prems e by auto
  note s = setbit_spec [OF b1]
  show ?case using Cons.IH [OF rest] s by (auto simp: e)
qed simp

lemma masks_spec:
  assumes "masks n entries = Inr ms"
  shows "length ms = n" and "cp < n \<Longrightarrow> bit (ms ! cp) i \<longleftrightarrow> (\<exists>(lo, hi, name) \<in> set entries. lo \<le> cp \<and> cp \<le> hi \<and> map_of BITS name = Some i)"
  using masks_fold [of "replicate n 0" entries ms] assms by (simp_all add: masks_def)

lemma run_length_step:
  assumes "n = length (takeWhile (\<lambda>x. x = m) ms)"
  shows "ms = replicate n m @ drop n ms" and "drop n ms \<noteq> [] \<Longrightarrow> hd (drop n ms) \<noteq> m"
proof -
  have t: "takeWhile (\<lambda>x. x = m) ms = replicate n m"
    unfolding assms by (rule replicate_length_same [symmetric]) (auto dest: set_takeWhileD)
  have d: "drop n ms = dropWhile (\<lambda>x. x = m) ms" by (simp add: assms dropWhile_eq_drop)
  show "ms = replicate n m @ drop n ms" by (simp only: d t [symmetric] takeWhile_dropWhile_id)
  show "drop n ms \<noteq> [] \<Longrightarrow> hd (drop n ms) \<noteq> m" unfolding d by (rule hd_dropWhile)
qed

lemma prop_ranges_from: "(lo, hi, m) \<in> set (prop_ranges cp ms) \<Longrightarrow> cp \<le> lo \<and> lo \<le> hi \<and> hi < cp + length ms \<and> m \<noteq> 0 \<and> (lo = cp \<longrightarrow> m = hd ms)"
proof (induction cp ms rule: prop_ranges.induct)
  case (2 cp m0 ms)
  define n where "n = length (takeWhile (\<lambda>x. x = m0) ms)"
  have n: "n \<le> length ms" by (simp add: n_def length_takeWhile_le)
  from "2.prems" have "(lo, hi, m) = (cp, cp + n, m0) \<and> m0 \<noteq> 0 \<or> (lo, hi, m) \<in> set (prop_ranges (cp + n + 1) (drop n ms))"
    by (auto simp: n_def Let_def split: if_splits)
  then show ?case using "2.IH" [OF n_def] n by auto
qed simp

lemma prop_ranges_table: "range_table (prop_ranges cp ms)"
proof (induction cp ms rule: prop_ranges.induct)
  case (2 cp m ms)
  define n where "n = length (takeWhile (\<lambda>x. x = m) ms)"
  have step: "prop_ranges cp (m # ms) = (if m \<noteq> 0 then [(cp, cp + n, m)] else []) @ prop_ranges (cp + n + 1) (drop n ms)"
    by (simp add: n_def Let_def)
  have apart: "cp + n < lo \<and> (cp + n + 1 = lo \<longrightarrow> m \<noteq> m')" if "(lo, hi, m') \<in> set (prop_ranges (cp + n + 1) (drop n ms))" for lo hi m'
  proof -
    have "drop n ms \<noteq> []" using that by auto
    then show ?thesis using prop_ranges_from [OF that] run_length_step(2) [OF n_def] by auto
  qed
  show ?case
    unfolding step using "2.IH" [OF n_def] apart by (auto simp: range_table_def)
qed (simp add: range_table_def)

lemma prop_mask_ranges: "prop_mask (prop_ranges cp ms) x = (if cp \<le> x \<and> x < cp + length ms then ms ! (x - cp) else 0)"
proof (induction cp ms rule: prop_ranges.induct)
  case (1 cp)
  then show ?case by (simp add: prop_mask_def)
next
  case (2 cp m ms)
  define n where "n = length (takeWhile (\<lambda>x. x = m) ms)"
  have n: "n \<le> length ms" by (simp add: n_def length_takeWhile_le)
  have step: "prop_ranges cp (m # ms) = (if m \<noteq> 0 then [(cp, cp + n, m)] else []) @ prop_ranges (cp + n + 1) (drop n ms)"
    by (simp add: n_def Let_def)
  have ms: "ms ! i = m" if "i < n" for i using run_length_step(1) [OF n_def] that by (metis nth_append length_replicate nth_replicate)
  note IH = "2.IH" [OF n_def]
  show ?case
  proof (cases "cp \<le> x \<and> x \<le> cp + n")
    case True
    have "filter (\<lambda>(lo, hi, _). lo \<le> x \<and> x \<le> hi) (prop_ranges (cp + n + 1) (drop n ms)) = []"
      using True prop_ranges_from [of _ _ _ "cp + n + 1" "drop n ms"] by (fastforce simp: filter_empty_conv)
    then have "prop_mask (prop_ranges cp (m # ms)) x = m" using True by (simp only: step) (simp add: prop_mask_def)
    moreover have "(m # ms) ! (x - cp) = m" using True ms by (cases "x - cp") auto
    ultimately show ?thesis using True n by simp
  next
    case False
    then have "prop_mask (prop_ranges cp (m # ms)) x = prop_mask (prop_ranges (cp + n + 1) (drop n ms)) x"
      by (simp only: step) (simp add: prop_mask_def)
    also have "\<dots> = (if cp \<le> x \<and> x < cp + length (m # ms) then (m # ms) ! (x - cp) else 0)"
      unfolding IH using False n by (auto simp: nth_Cons' Suc_diff_Suc)
    finally show ?thesis .
  qed
qed

lemma lower_pairs_sorted: "lower_pairs text = Inr ps \<Longrightarrow> sorted (map fst ps)"
proof -
  assume "lower_pairs text = Inr ps"
  then obtain qs where "ps = py_sorted (\<lambda>p. [fst p, snd p]) qs" by (auto simp: lower_pairs_def)
  then have "sorted (map (\<lambda>p. [fst p, snd p]) ps)" by (simp add: sorted_asc.rank_sorted)
  then show ?thesis by (auto simp: sorted_map intro: sorted_wrt_mono_rel [rotated])
qed

lemma masks_total:
  assumes "\<And>lo hi name. (lo, hi, name) \<in> set entries \<Longrightarrow> hi < n \<and> name \<in> set (keys BITS)"
  shows "\<exists>ms. masks n entries = Inr ms"
proof -
  have "\<exists>bits'. res_fold setbit bits es = Inr bits'" if "length bits = n" "set es \<subseteq> set entries" for bits es
    using that
  proof (induction es arbitrary: bits)
    case (Cons e es)
    obtain lo hi name where e: "e = (lo, hi, name)" by (cases e)
    have "hi < n" "name \<in> set (keys BITS)" using assms Cons.prems(2) e by auto
    then obtain b1 where b1: "setbit bits (lo, hi, name) = Inr b1"
      using Cons.prems(1) by (cases "map_of BITS name") (auto simp: setbit_def dlookup_def map_of_eq_None_iff)
    then show ?case using Cons.IH [of b1] Cons.prems setbit_spec(1) [OF b1] by (simp add: e)
  qed simp
  then show ?thesis by (simp add: masks_def)
qed

text \<open>C33: the table of properties that the generator writes for the tokenizer says of every code point exactly what the
  files of the Unicode database and the fixed lists say: the mask that the engine finds has a bit if and only if
  some entry of that property covers the code point, and code points beyond the last have none.  The ranges are ordered,
  disjoint, without empty or joinable ones, and the lowercase pairs ascend, as the engine's binary searches need.\<close>
theorem unicode_table_exact:
  assumes "unicode_tables maxcp files = Inr (rs, lower)"
  shows "\<exists>entries. table_entries files = Inr entries \<and> range_table rs \<and> sorted (map fst lower) \<and>
    (\<forall>cp i. bit (prop_mask rs cp) i \<longleftrightarrow>
       cp < maxcp \<and> list_ex (\<lambda>(lo, hi, name). lo \<le> cp \<and> cp \<le> hi \<and> map_of BITS name = Some i) entries)"
proof -
  obtain entries ms src where e: "table_entries files = Inr entries" and ms: "masks maxcp entries = Inr ms"
    and src: "lower_pairs src = Inr lower" and rs: "rs = prop_ranges 0 ms"
    using assms by (auto simp: unicode_tables_def split: option.splits)
  have "bit (prop_mask rs cp) i \<longleftrightarrow> cp < maxcp \<and> list_ex (\<lambda>(lo, hi, name). lo \<le> cp \<and> cp \<le> hi \<and> map_of BITS name = Some i) entries"
    for cp i
    using masks_spec [OF ms] by (auto simp: rs prop_mask_ranges list_ex_iff)
  then show ?thesis
    using e src rs prop_ranges_table lower_pairs_sorted by blast
qed

definition demo_ucd :: "(string, string) dict" where
  "demo_ucd =
     [(''WordBreakProperty-12.1.txt'', ''0041..005A    ; ALetter # L&  [26]'' @ nl @ ''# done'' @ nl), (''Scripts-12.1.txt'', []),
      (''LineBreak-12.1.txt'', ''00AA;SA'' @ nl), (''emoji-data-12.1.txt'', []),
      (''UnicodeData-15.0.txt'', ''0041;LATIN CAPITAL LETTER A;Lu;0;L;;;;;N;;;;0061;'' @ nl)]"

lemma demo_ucd_ranges:
  "parse_ranges (''0041..005A    ; ALetter # L&  [26]'' @ nl @ ''# done'' @ nl) = Inr [(0x41, 0x5A, ''ALetter'')]"
  "parse_ranges (''00AA;SA'' @ nl) = Inr [(0xAA, 0xAA, ''SA'')]" "parse_ranges [] = Inr []" "''ALetter'' \<in> set wb_names"
  by code_simp+

lemma demo_ucd_entries: "table_entries demo_ucd = Inr ([(0x41, 0x5A, ''WB_ALetter''), (0xAA, 0xAA, ''LB_SA'')] @ fixed_entries)"
  using demo_ucd_ranges(4)
  by (simp add: table_entries_def named_ranges_def demo_ucd_def demo_ucd_ranges(1,2) [simplified] demo_ucd_ranges(3))

lemma demo_ucd_lower: "lower_pairs (''0041;LATIN CAPITAL LETTER A;Lu;0;L;;;;;N;;;;0061;'' @ nl) = Inr [(0x41, 0x61)]"
  by code_simp

lemma demo_ucd_bounds:
  "list_all (\<lambda>(lo, hi, name). hi < MAXCP \<and> name \<in> set (keys BITS)) ([(0x41, 0x5A, ''WB_ALetter''), (0xAA, 0xAA, ''LB_SA'')] @ fixed_entries)"
  by (simp add: fixed_entries_def BITS_def MAXCP_def code_def)

theorem unicode_table_exact_witness:
  "\<exists>rs lower. unicode_tables MAXCP demo_ucd = Inr (rs, lower) \<and> bit (prop_mask rs 0x42) 4 \<and> \<not> bit (prop_mask rs 0x5B) 4"
proof -
  let ?es = "[(0x41, 0x5A, ''WB_ALetter''), (0xAA, 0xAA, ''LB_SA'')] @ fixed_entries"
  have "\<exists>ms. masks MAXCP ?es = Inr ms"
  proof (rule masks_total)
    show "hi < MAXCP \<and> name \<in> set (keys BITS)" if "(lo, hi, name) \<in> set ?es" for lo hi name
      using demo_ucd_bounds [unfolded list_all_iff, rule_format, OF that] by (simp only: prod.case)
  qed
  then obtain ms where ms: "masks MAXCP ?es = Inr ms" ..
  have "map_of demo_ucd ''UnicodeData-15.0.txt'' = Some (''0041;LATIN CAPITAL LETTER A;Lu;0;L;;;;;N;;;;0061;'' @ nl)"
    by (simp add: demo_ucd_def)
  then obtain rs lower where t: "unicode_tables MAXCP demo_ucd = Inr (rs, lower)"
    using ms demo_ucd_lower by (simp add: unicode_tables_def demo_ucd_entries)
  obtain es where es: "table_entries demo_ucd = Inr es"
    and bits: "\<forall>cp i. bit (prop_mask rs cp) i \<longleftrightarrow> cp < MAXCP \<and> list_ex (\<lambda>(lo, hi, name). lo \<le> cp \<and> cp \<le> hi \<and> map_of BITS name = Some i) es"
    using unicode_table_exact [OF t] by blast
  have "es = ?es" using es demo_ucd_entries by simp
  then have "bit (prop_mask rs 0x42) 4" "\<not> bit (prop_mask rs 0x5B) 4"
    using bits by (simp_all add: fixed_entries_def BITS_def MAXCP_def code_def)
  then show ?thesis using t by blast
qed

end
