(* ===== verification/Vector_Stream.thy ===== *)
theory Vector_Stream
  imports Data_IO
begin

text \<open>
  \<open>py/hybridsearch/bench/parquet_stream.py\<close>: a tar of parquet shards read once from standard input and
  appended to \<open>passages.fbin\<close> and \<open>docids.u64bin\<close>.  A member of the archive is its name, whether it is a file
  and the columns pyarrow decodes; the conversion of a column to uint64 or to rows of float32 and the norm
  of a row are arguments.  The lemmas show that a finished run has published every row under its id, in
  the order of the archive, provided that the shards agree on the dimension, which the script does not
  check.  A norm is a number, infinite or NaN, and the script's comparisons treat NaN as floats do: the check of the
  unit norms is exact without NaN, and a NaN row in a later shard switches it off for that shard.
\<close>

section \<open>The archive\<close>

record 'c shard =
  sd_name :: string
  sd_file :: bool
  sd_cols :: "(string, 'c) dict"

datatype norm_value = Num real | Infinite | Nan

definition norm_less :: "norm_value \<Rightarrow> norm_value \<Rightarrow> bool" where
  \<comment> \<open>\<open><\<close>, false with a NaN\<close>
  "norm_less a b = (case (a, b) of (Num x, Num y) \<Rightarrow> x < y | (Num x, Infinite) \<Rightarrow> True | _ \<Rightarrow> False)"

definition py_min :: "norm_value \<Rightarrow> norm_value \<Rightarrow> norm_value" where
  "py_min a b = (if norm_less b a then b else a)"

definition py_max :: "norm_value \<Rightarrow> norm_value \<Rightarrow> norm_value" where
  "py_max a b = (if norm_less a b then b else a)"

definition norms_min :: "norm_value list \<Rightarrow> norm_value" where
  \<comment> \<open>\<open>norms.min()\<close> of a vector that is not empty: NaN if it has one\<close>
  "norms_min ns = (if Nan \<in> set ns then Nan else foldl py_min (hd ns) (tl ns))"

definition norms_max :: "norm_value list \<Rightarrow> norm_value" where
  "norms_max ns = (if Nan \<in> set ns then Nan else foldl py_max (hd ns) (tl ns))"

definition off_unit :: "norm_value \<Rightarrow> bool" where
  \<comment> \<open>\<open>abs(x - 1) > 1e-3\<close>\<close>
  "off_unit v = (case v of Num x \<Rightarrow> \<bar>x - 1\<bar> > 1 / 1000 | Infinite \<Rightarrow> True | Nan \<Rightarrow> False)"

record 'c stream_env =
  sv_ids :: "'c \<Rightarrow> 64 word list res" \<comment> \<open>\<open>np.asarray(column.to_pylist(), dtype=np.uint64)\<close>\<close>
  sv_vecs :: "'c \<Rightarrow> 32 word list list res" \<comment> \<open>the same to float32: the rows of a matrix\<close>
  sv_norm :: "32 word list \<Rightarrow> norm_value" \<comment> \<open>\<open>np.linalg.norm\<close> of a row\<close>

record stream =
  sr_ids :: "64 word list"
  sr_rows :: nat
  sr_dim :: "nat option"
  sr_data :: "32 word list" \<comment> \<open>what follows the header of the partial file\<close>
  sr_min :: norm_value
  sr_max :: norm_value

datatype stream_end =
    Unrecognised \<comment> \<open>exit status 2\<close>
  | Not_Unit \<comment> \<open>exit status 3\<close>
  | Streaming stream

definition stream_start :: stream where
  "stream_start = \<lparr>sr_ids = [], sr_rows = 0, sr_dim = None, sr_data = [], sr_min = Infinite, sr_max = Num 0\<rparr>"

definition first_column :: "string list \<Rightarrow> (string, 'c) dict \<Rightarrow> 'c option" where
  "first_column names cols = (case next_or (dhas cols) names of None \<Rightarrow> None | Some n \<Rightarrow> map_of cols n)"

definition add_rows :: "'c stream_env \<Rightarrow> stream \<Rightarrow> 64 word list \<Rightarrow> 32 word list list \<Rightarrow> stream_end res" where
  \<comment> \<open>the body of the loop once both columns are converted; an empty matrix has neither a second axis nor a norm\<close>
  "add_rows E st ids vecs =
     (if vecs = [] then Inl (if sr_dim st = None then IndexError else ValueError)
      else
        (let norms = map (sv_norm E) vecs; lo = py_min (sr_min st) (norms_min norms); hi = py_max (sr_max st) (norms_max norms) in
         if off_unit lo \<or> off_unit hi then Inr Not_Unit
         else Inr (Streaming \<lparr>sr_ids = sr_ids st @ ids, sr_rows = sr_rows st + length ids,
                sr_dim = (if sr_dim st = None then Some (length (hd vecs)) else sr_dim st),
                sr_data = sr_data st @ concat vecs, sr_min = lo, sr_max = hi\<rparr>)))"

definition stream_shard :: "'c stream_env \<Rightarrow> stream \<Rightarrow> 'c shard \<Rightarrow> stream_end res" where
  "stream_shard E st m =
     (if \<not> sd_file m \<or> \<not> ends_with (sd_name m) ''.parquet'' then Inr (Streaming st)
      else case (first_column [''docid'', ''id'', ''_id''] (sd_cols m), first_column [''vector'', ''embedding'', ''emb''] (sd_cols m)) of
        (Some ic, Some vc) \<Rightarrow> res_bind (sv_ids E ic) (\<lambda>ids. res_bind (sv_vecs E vc) (\<lambda>vecs. add_rows E st ids vecs))
      | _ \<Rightarrow> Inr Unrecognised)"

fun stream_shards :: "'c stream_env \<Rightarrow> stream \<Rightarrow> 'c shard list \<Rightarrow> stream_end res" where
  "stream_shards E st [] = Inr (Streaming st)"
| "stream_shards E st (m # ms) =
     res_bind (stream_shard E st m) (\<lambda>r. case r of Streaming st' \<Rightarrow> stream_shards E st' ms | stop \<Rightarrow> Inr stop)"

record published =
  pb_passages :: "byte list"
  pb_docids :: "byte list"

definition publish :: "stream \<Rightarrow> published res" where
  \<comment> \<open>the header is patched, the partial file renamed and the ids are written\<close>
  "publish st =
     (case sr_dim st of
        None \<Rightarrow> Inl TypeError
      | Some d \<Rightarrow>
          if 2 ^ 32 \<le> sr_rows st \<or> 2 ^ 32 \<le> d then Inl OverflowError
          else Inr \<lparr>pb_passages = u4_enc (word_of_nat (sr_rows st)) @ u4_enc (word_of_nat d) @ concat (map u4_enc (sr_data st)),
                    pb_docids = write_u64bin (sr_ids st)\<rparr>)"

definition stream_main :: "'c stream_env \<Rightarrow> 'c shard list \<Rightarrow> (nat + published) res" where
  \<comment> \<open>the exit status of a run that stopped, or the files of one that returned 0\<close>
  "stream_main E ms =
     res_bind (stream_shards E stream_start ms) (\<lambda>r.
       case r of
         Unrecognised \<Rightarrow> Inr (Inl 2)
       | Not_Unit \<Rightarrow> Inr (Inl 3)
       | Streaming st \<Rightarrow> res_bind (publish st) (\<lambda>p. Inr (Inr p)))"

section \<open>What a finished run has published\<close>

definition shard_rows :: "'c stream_env \<Rightarrow> 'c shard \<Rightarrow> (64 word list \<times> 32 word list list) option" where
  \<comment> \<open>the ids and rows of a shard that the script reads\<close>
  "shard_rows E m =
     (if \<not> sd_file m \<or> \<not> ends_with (sd_name m) ''.parquet'' then Some ([], [])
      else case (first_column [''docid'', ''id'', ''_id''] (sd_cols m), first_column [''vector'', ''embedding'', ''emb''] (sd_cols m)) of
        (Some ic, Some vc) \<Rightarrow> (case (sv_ids E ic, sv_vecs E vc) of (Inr ids, Inr vecs) \<Rightarrow> Some (ids, vecs) | _ \<Rightarrow> None)
      | _ \<Rightarrow> None)"

definition archive_ids :: "'c stream_env \<Rightarrow> 'c shard list \<Rightarrow> 64 word list" where
  "archive_ids E ms = concat (map (\<lambda>m. case shard_rows E m of Some (ids, _) \<Rightarrow> ids | None \<Rightarrow> []) ms)"

definition archive_rows :: "'c stream_env \<Rightarrow> 'c shard list \<Rightarrow> 32 word list list" where
  "archive_rows E ms = concat (map (\<lambda>m. case shard_rows E m of Some (_, vecs) \<Rightarrow> vecs | None \<Rightarrow> []) ms)"

definition unit_norm :: "'c stream_env \<Rightarrow> 32 word list \<Rightarrow> bool" where
  "unit_norm E v \<longleftrightarrow> (\<exists>x. sv_norm E v = Num x \<and> \<bar>x - 1\<bar> \<le> 1 / 1000)"

definition archive_tables :: "'c stream_env \<Rightarrow> 'c shard list \<Rightarrow> 32 word list list list" where
  \<comment> \<open>the rows shard by shard\<close>
  "archive_tables E ms = filter (\<lambda>vs. vs \<noteq> []) (map (\<lambda>m. case shard_rows E m of Some (_, vecs) \<Rightarrow> vecs | None \<Rightarrow> []) ms)"

definition norms_checked :: "'c stream_env \<Rightarrow> 32 word list list \<Rightarrow> bool" where
  "norms_checked E vs \<longleftrightarrow> list_all (unit_norm E) vs \<or> (\<exists>v \<in> set vs. sv_norm E v = Nan)"

definition tables_ok :: "'c stream_env \<Rightarrow> nat \<Rightarrow> 'c shard list \<Rightarrow> bool" where
  \<comment> \<open>the columns of a table have equal length (pyarrow), and every row of the archive has \<open>d\<close> entries\<close>
  "tables_ok E d ms \<longleftrightarrow>
     list_all (\<lambda>m. case shard_rows E m of Some (ids, vecs) \<Rightarrow> length ids = length vecs \<and> list_all (\<lambda>v. length v = d) vecs | None \<Rightarrow> True) ms"

section \<open>The range of the norms\<close>

definition in_range :: "norm_value \<Rightarrow> norm_value \<Rightarrow> norm_value \<Rightarrow> bool" where
  \<comment> \<open>of values that are no NaN\<close>
  "in_range lo v hi \<longleftrightarrow> lo \<noteq> Nan \<and> v \<noteq> Nan \<and> hi \<noteq> Nan \<and> \<not> norm_less v lo \<and> \<not> norm_less hi v"

lemma norm_less_simps [simp]:
  "norm_less (Num x) (Num y) \<longleftrightarrow> x < y" "norm_less (Num x) Infinite" "\<not> norm_less Infinite v" "\<not> norm_less Nan v" "\<not> norm_less v Nan"
  by (auto simp: norm_less_def split: norm_value.splits)

lemma py_min_simps [simp]: "py_min a Nan = a" "py_max a Nan = a" "py_min a a = a" "py_max a a = a"
  by (simp_all add: py_min_def py_max_def)

lemma norm_less_extremes:
  assumes "a \<noteq> Nan" and "b \<noteq> Nan"
  shows "py_min a b \<noteq> Nan" and "py_max a b \<noteq> Nan"
    and "norm_less v (py_min a b) \<longleftrightarrow> norm_less v a \<and> norm_less v b" and "norm_less (py_max a b) v \<longleftrightarrow> norm_less a v \<and> norm_less b v"
  using assms by (cases a; cases b; cases v; auto simp: py_min_def py_max_def)+

lemma fold_extremes:
  assumes "a \<noteq> Nan" and "Nan \<notin> set ns"
  shows "foldl py_min a ns \<noteq> Nan \<and> (norm_less v (foldl py_min a ns) \<longleftrightarrow> (\<forall>n \<in> set (a # ns). norm_less v n)) \<and>
    foldl py_max a ns \<noteq> Nan \<and> (norm_less (foldl py_max a ns) v \<longleftrightarrow> (\<forall>n \<in> set (a # ns). norm_less n v))"
proof -
  have lo: "foldl py_min a ns \<noteq> Nan \<and> (norm_less v (foldl py_min a ns) \<longleftrightarrow> (\<forall>n \<in> set (a # ns). norm_less v n))"
    using assms
  proof (induction ns arbitrary: a)
    case (Cons n ns)
    then have n: "n \<noteq> Nan" "Nan \<notin> set ns" by auto
    note m = norm_less_extremes [OF Cons.prems(1) n(1)]
    show ?case using Cons.IH [OF m(1) n(2)] m(3) by simp
  qed simp
  have hi: "foldl py_max a ns \<noteq> Nan \<and> (norm_less (foldl py_max a ns) v \<longleftrightarrow> (\<forall>n \<in> set (a # ns). norm_less n v))"
    using assms
  proof (induction ns arbitrary: a)
    case (Cons n ns)
    then have n: "n \<noteq> Nan" "Nan \<notin> set ns" by auto
    note m = norm_less_extremes [OF Cons.prems(1) n(1)]
    show ?case using Cons.IH [OF m(2) n(2)] m(4) by simp
  qed simp
  show ?thesis using lo hi by simp
qed

lemma np_range:
  assumes "ns \<noteq> []" and "Nan \<notin> set ns" and "v \<in> set ns"
  shows "in_range (norms_min ns) v (norms_max ns)"
proof -
  obtain n ms where ns: "ns = n # ms" using assms(1) by (cases ns) auto
  have irrefl: "\<not> norm_less v v" by (cases v) simp_all
  have nan: "n \<noteq> Nan" "Nan \<notin> set ms" "Nan \<notin> set ns" "v \<noteq> Nan" "v \<in> set (n # ms)" using assms(2,3) by (auto simp: ns)
  show ?thesis
    using fold_extremes [OF nan(1,2), of v] nan(4,5) irrefl nan(3) by (auto simp: in_range_def norms_min_def norms_max_def ns)
qed

lemma between_unit: "a \<le> b \<Longrightarrow> b \<le> c \<Longrightarrow> \<bar>a - 1\<bar> \<le> e \<Longrightarrow> \<bar>c - 1\<bar> \<le> e \<Longrightarrow> \<bar>b - 1\<bar> \<le> e" for a b c e :: real
  by linarith

lemma in_range_unit:
  assumes "in_range lo v hi" and "\<not> off_unit lo" and "\<not> off_unit hi"
  shows "\<exists>x. v = Num x \<and> \<bar>x - 1\<bar> \<le> 1 / 1000"
  using assms by (cases lo; cases v; cases hi) (auto simp: in_range_def off_unit_def not_less intro: between_unit [of _ _ _ "1 / 1000", simplified])

definition range_known :: "stream \<Rightarrow> bool" where
  "range_known st \<longleftrightarrow> sr_min st \<noteq> Nan \<and> sr_max st \<noteq> Nan"

lemma add_rows_spec:
  assumes "add_rows E st ids vecs = Inr (Streaming st')" and "range_known st"
  shows "sr_ids st' = sr_ids st @ ids \<and> sr_rows st' = sr_rows st + length ids \<and> sr_data st' = sr_data st @ concat vecs \<and>
    vecs \<noteq> [] \<and> sr_dim st' = (if sr_dim st = None then Some (length (hd vecs)) else sr_dim st) \<and> norms_checked E vecs \<and>
    (sr_min st = Infinite \<longrightarrow> list_all (unit_norm E) vecs) \<and> range_known st'"
proof -
  let ?ns = "map (sv_norm E) vecs"
  define lo where "lo = py_min (sr_min st) (norms_min ?ns)"
  define hi where "hi = py_max (sr_max st) (norms_max ?ns)"
  have v: "vecs \<noteq> []" "\<not> off_unit lo" "\<not> off_unit hi" "sr_min st' = lo" "sr_max st' = hi"
    using assms(1) by (auto simp: add_rows_def lo_def hi_def Let_def split: if_splits)
  have unit: "list_all (unit_norm E) vecs" if nan: "Nan \<notin> set ?ns"
  proof -
    have "unit_norm E x" if x: "x \<in> set vecs" for x
    proof -
      have w: "in_range (norms_min ?ns) (sv_norm E x) (norms_max ?ns)" using np_range [of ?ns] v(1) nan x by auto
      then have "in_range lo (sv_norm E x) hi"
        using assms(2) norm_less_extremes [of "sr_min st" "norms_min ?ns"] norm_less_extremes [of "sr_max st" "norms_max ?ns"]
        by (auto simp: in_range_def lo_def hi_def range_known_def)
      then show ?thesis using in_range_unit v(2,3) by (auto simp: unit_norm_def)
    qed
    then show ?thesis by (simp add: list_all_iff)
  qed
  have first: "Nan \<notin> set ?ns" if "sr_min st = Infinite"
  proof
    assume "Nan \<in> set ?ns"
    then have "lo = Infinite" using that by (simp add: lo_def norms_min_def)
    then show False using v(2) by (simp add: off_unit_def)
  qed
  have "range_known st'"
  proof (cases "Nan \<in> set ?ns")
    case True
    then show ?thesis using assms(2) v(4,5) by (simp add: range_known_def lo_def hi_def norms_min_def norms_max_def)
  next
    case False
    obtain x where "x \<in> set ?ns" using v(1) by (cases vecs) auto
    then have "norms_min ?ns \<noteq> Nan" "norms_max ?ns \<noteq> Nan" using np_range [of ?ns x] v(1) False by (auto simp: in_range_def)
    then show ?thesis using assms(2) v(4,5) norm_less_extremes(1,2) by (simp add: range_known_def lo_def hi_def)
  qed
  moreover have "norms_checked E vecs" using unit by (force simp: norms_checked_def)
  moreover have "sr_min st = Infinite \<longrightarrow> list_all (unit_norm E) vecs" using unit first by blast
  ultimately show ?thesis using assms(1) v by (auto simp: add_rows_def Let_def split: if_splits)
qed

lemma add_rows_min: "add_rows E st ids vecs = Inr (Streaming st') \<Longrightarrow> sr_min st' \<noteq> Infinite"
  by (auto simp: add_rows_def Let_def off_unit_def split: if_splits)

lemma stream_shard_spec:
  assumes "stream_shard E st m = Inr (Streaming st')" and "range_known st"
  obtains ids vecs where "shard_rows E m = Some (ids, vecs)" "sr_ids st' = sr_ids st @ ids" "sr_rows st' = sr_rows st + length ids"
    "sr_data st' = sr_data st @ concat vecs" "norms_checked E vecs" "sr_min st = Infinite \<longrightarrow> list_all (unit_norm E) vecs"
    "sr_dim st' = (if sr_dim st = None \<and> vecs \<noteq> [] then Some (length (hd vecs)) else sr_dim st)" "range_known st'"
    "vecs = [] \<and> st' = st \<or> vecs \<noteq> [] \<and> sr_dim st' \<noteq> None"
proof (cases "\<not> sd_file m \<or> \<not> ends_with (sd_name m) ''.parquet''")
  case True
  then show ?thesis using assms that [of "[]" "[]"] by (auto simp: stream_shard_def shard_rows_def norms_checked_def)
next
  case False
  then obtain ids vecs where "shard_rows E m = Some (ids, vecs)" "add_rows E st ids vecs = Inr (Streaming st')"
    using assms by (auto simp: stream_shard_def shard_rows_def split: option.splits)
  then show ?thesis using that add_rows_spec [of E st ids vecs st'] assms(2) by auto
qed

lemma archive_Cons:
  assumes "shard_rows E m = Some (ids, vecs)"
  shows "archive_ids E (m # ms) = ids @ archive_ids E ms" and "archive_rows E (m # ms) = vecs @ archive_rows E ms"
    and "archive_tables E (m # ms) = (if vecs = [] then [] else [vecs]) @ archive_tables E ms"
  by (simp_all add: archive_ids_def archive_rows_def archive_tables_def assms)

lemma stream_shards_spec:
  assumes "stream_shards E st ms = Inr (Streaming st')" and "tables_ok E d ms" and "sr_dim st = None \<or> sr_dim st = Some d" and "range_known st"
  shows "sr_ids st' = sr_ids st @ archive_ids E ms \<and> sr_rows st' = sr_rows st + length (archive_rows E ms) \<and>
    sr_data st' = sr_data st @ concat (archive_rows E ms) \<and> list_all (norms_checked E) (archive_tables E ms) \<and>
    (sr_min st = Infinite \<and> archive_tables E ms \<noteq> [] \<longrightarrow> list_all (unit_norm E) (hd (archive_tables E ms))) \<and>
    (sr_dim st' = None \<or> sr_dim st' = Some d) \<and> (sr_dim st' \<noteq> None \<longrightarrow> sr_dim st \<noteq> None \<or> archive_tables E ms \<noteq> []) \<and>
    length (archive_ids E ms) = length (archive_rows E ms)"
  using assms
proof (induction ms arbitrary: st)
  case (Cons m ms)
  obtain st1 where st1: "stream_shard E st m = Inr (Streaming st1)" and rest: "stream_shards E st1 ms = Inr (Streaming st')"
    using Cons.prems(1) by (cases "stream_shard E st m") (auto split: stream_end.split_asm)
  obtain ids vecs where s: "shard_rows E m = Some (ids, vecs)" "sr_ids st1 = sr_ids st @ ids" "sr_rows st1 = sr_rows st + length ids"
    "sr_data st1 = sr_data st @ concat vecs" "norms_checked E vecs" "sr_min st = Infinite \<longrightarrow> list_all (unit_norm E) vecs"
    "sr_dim st1 = (if sr_dim st = None \<and> vecs \<noteq> [] then Some (length (hd vecs)) else sr_dim st)" "range_known st1"
    "vecs = [] \<and> st1 = st \<or> vecs \<noteq> [] \<and> sr_dim st1 \<noteq> None"
    using stream_shard_spec [OF st1 Cons.prems(4)] .
  have ok: "length ids = length vecs" "list_all (\<lambda>v. length v = d) vecs" "tables_ok E d ms"
    using Cons.prems(2) s(1) by (simp_all add: tables_ok_def)
  then have "sr_dim st1 = None \<or> sr_dim st1 = Some d" using s(7) Cons.prems(3) by (cases vecs) auto
  note ih = Cons.IH [OF rest ok(3) this s(8)]
  show ?case using s ok(1) ih by (auto simp: archive_Cons)
qed (simp add: archive_ids_def archive_rows_def archive_tables_def)

lemma archive_concat: "archive_rows E ms = concat (archive_tables E ms)"
  by (induction ms) (simp_all add: archive_rows_def archive_tables_def)

lemma archive_unit:
  assumes "list_all (norms_checked E) (archive_tables E ms)" and "\<forall>v \<in> set (archive_rows E ms). sv_norm E v \<noteq> Nan"
  shows "list_all (unit_norm E) (archive_rows E ms)"
  using assms by (fastforce simp: archive_concat norms_checked_def list_all_iff)

lemma published_passages_read:
  assumes "n < 2 ^ 32" "d < 2 ^ 32" "length xs = n * d"
  shows "read_fbin (u4_enc (word_of_nat n) @ u4_enc (word_of_nat d) @ concat (map u4_enc xs)) mmap = Inr \<lparr>shape = [n, d], flat = xs\<rparr>"
proof -
  let ?h = "u4_enc (word_of_nat n) @ u4_enc (word_of_nat d)" and ?body = "concat (map u4_enc xs)"
  have l: "length ?h = 8" "length ?body = 4 * (n * d)" by (simp_all add: u4.enc_width u4.concat_length assms(3))
  have "frombuffer 4 u4_dec ?h = Inr [word_of_nat n, word_of_nat d]" using u4.frombuffer_enc [of "[word_of_nat n, word_of_nat d]"] by simp
  then have h: "fbin_header (?h @ ?body) = Inr (n, d)"
    using l by (simp add: fbin_header_def u4_of_nat [OF assms(1)] u4_of_nat [OF assms(2)])
  have "take (4 * n * d) (drop 8 (?h @ ?body)) = ?body" "length (?h @ ?body) = 8 + 4 * n * d" using l by simp_all
  then have "read_fbin (?h @ ?body) mmap = Inr \<lparr>shape = [n, d], flat = xs\<rparr>"
    unfolding read_fbin_def h res_bind.simps prod.case
    by (simp only: u4.frombuffer_enc u4.decode_enc res_bind.simps assms(3)) simp
  then show ?thesis by simp
qed

lemma concat_length_rows: "list_all (\<lambda>v. length v = d) vs \<Longrightarrow> length (concat vs) = length vs * d"
  by (induction vs) simp_all

lemma archive_rows_length: "tables_ok E d ms \<Longrightarrow> list_all (\<lambda>v. length v = d) (archive_rows E ms)"
  by (induction ms) (auto simp: tables_ok_def archive_rows_def list_all_iff split: option.splits)

text \<open>C34: when the stream returns 0 and the shards agree on the dimension, the two published files hold the archive: the
  vector file reads back, mapped or loaded, as every row of every parquet member in archive order, the id file as their ids in
  the same order, so that row and id stay together.  The norms are checked shard by shard: every row of the first shard has
  norm 1 up to 1e-3, and so has every row of every other shard that has no row of norm NaN; hence all of them have when
  no norm is NaN.\<close>
theorem streamed_archive_published:
  assumes "stream_main E ms = Inr (Inr p)" and "tables_ok E d ms" and "length (archive_ids E ms) < 2 ^ 64"
  shows "read_fbin (pb_passages p) mmap = Inr \<lparr>shape = [length (archive_rows E ms), d], flat = concat (archive_rows E ms)\<rparr> \<and>
    read_u64bin (pb_docids p) = Inr (archive_ids E ms) \<and> length (archive_ids E ms) = length (archive_rows E ms) \<and>
    (\<exists>first rest. archive_tables E ms = first # rest \<and> list_all (unit_norm E) first \<and> list_all (norms_checked E) rest) \<and>
    ((\<forall>v \<in> set (archive_rows E ms). sv_norm E v \<noteq> Nan) \<longrightarrow> list_all (unit_norm E) (archive_rows E ms))"
proof -
  obtain st where st: "stream_shards E stream_start ms = Inr (Streaming st)" and pub: "publish st = Inr p"
    using assms(1) by (cases "stream_shards E stream_start ms") (auto simp: stream_main_def split: stream_end.split_asm)
  have start: "range_known stream_start" by (simp add: range_known_def stream_start_def)
  have s: "sr_ids st = archive_ids E ms" "sr_rows st = length (archive_rows E ms)" "sr_data st = concat (archive_rows E ms)"
    "sr_dim st = None \<or> sr_dim st = Some d" "length (archive_ids E ms) = length (archive_rows E ms)"
    "list_all (norms_checked E) (archive_tables E ms)" "sr_dim st \<noteq> None \<longrightarrow> archive_tables E ms \<noteq> []"
    "archive_tables E ms \<noteq> [] \<longrightarrow> list_all (unit_norm E) (hd (archive_tables E ms))"
    using stream_shards_spec [OF st assms(2) _ start] by (auto simp: stream_start_def)
  have dim: "sr_dim st = Some d" using pub s(4) by (auto simp: publish_def)
  then obtain first rest where tables: "archive_tables E ms = first # rest" using s(7) by (cases "archive_tables E ms") auto
  have p: "p = \<lparr>pb_passages = u4_enc (word_of_nat (sr_rows st)) @ u4_enc (word_of_nat d) @ concat (map u4_enc (sr_data st)),
      pb_docids = write_u64bin (sr_ids st)\<rparr>" and small: "sr_rows st < 2 ^ 32" "d < 2 ^ 32"
    using pub dim by (auto simp: publish_def split: if_splits)
  have "length (concat (archive_rows E ms)) = length (archive_rows E ms) * d"
    using archive_rows_length [OF assms(2)] by (rule concat_length_rows)
  then have "read_fbin (pb_passages p) mmap = Inr \<lparr>shape = [length (archive_rows E ms), d], flat = concat (archive_rows E ms)\<rparr>"
    using published_passages_read [of "length (archive_rows E ms)" d] small s by (simp add: p)
  moreover have "read_u64bin (write_u64bin (archive_ids E ms)) = Inr (archive_ids E ms)"
    using read_u64bin_cut [OF assms(3), of "length (write_u64bin (archive_ids E ms))" "archive_ids E ms"] by simp
  moreover have "list_all (unit_norm E) first \<and> list_all (norms_checked E) rest" using s(6,8) tables by simp
  ultimately show ?thesis using s(1,5) archive_unit [OF s(6)] tables by (simp add: p)
qed

section \<open>Shards of different dimension\<close>

text \<open>The dimension of the first shard goes into the header and no later shard is compared with it: an archive whose second
  shard has longer rows is published with status 0, and the vector file reads back with rows that straddle the archive's.\<close>

definition demo_stream :: "string stream_env" where
  \<comment> \<open>a column is the text of its numbers; a row is as long as the text and has norm 1\<close>
  "demo_stream =
     \<lparr>sv_ids = \<lambda>c. Inr (map (\<lambda>ch. word_of_nat (code ch - 48)) c), sv_vecs = \<lambda>c. Inr (if c = ''ab'' then [[10, 11]] else [[1, 2, 3, 4]]),
      sv_norm = \<lambda>v. Num 1\<rparr>"

definition demo_shard :: "string \<Rightarrow> string \<Rightarrow> string shard" where
  "demo_shard ids vecs = \<lparr>sd_name = ''a.parquet'', sd_file = True, sd_cols = [(''docid'', ids), (''emb'', vecs)]\<rparr>"

lemma demo_norm: "sv_norm demo_stream v \<noteq> Nan"
  by (simp add: demo_stream_def)

lemma demo_shard_rows:
  "shard_rows demo_stream (demo_shard [c] vecs) = Some ([word_of_nat (code c - 48)], if vecs = ''ab'' then [[10, 11]] else [[1, 2, 3, 4]])"
  by (simp add: shard_rows_def demo_shard_def demo_stream_def ends_with_def first_column_def next_or_def dhas_def)

lemma demo_stream_shard:
  assumes "sr_min st = Infinite \<or> sr_min st = Num 1" and "sr_max st = Num 0 \<or> sr_max st = Num 1"
  shows "stream_shard demo_stream st (demo_shard [c] vecs) =
    Inr (Streaming \<lparr>sr_ids = sr_ids st @ [word_of_nat (code c - 48)], sr_rows = sr_rows st + 1,
      sr_dim = (if sr_dim st = None then Some (if vecs = ''ab'' then 2 else 4) else sr_dim st),
      sr_data = sr_data st @ (if vecs = ''ab'' then [10, 11] else [1, 2, 3, 4]), sr_min = Num 1, sr_max = Num 1\<rparr>)"
  using assms
  by (auto simp: stream_shard_def demo_shard_def demo_stream_def ends_with_def first_column_def next_or_def dhas_def add_rows_def Let_def
      norms_min_def norms_max_def py_min_def py_max_def off_unit_def)

lemma mixed_dimensions_published:
  "\<exists>p. stream_main demo_stream [demo_shard ''1'' ''ab'', demo_shard ''2'' ''abcd''] = Inr (Inr p) \<and>
     read_fbin (pb_passages p) False = Inr \<lparr>shape = [2, 2], flat = [10, 11, 1, 2]\<rparr>"
proof -
  have "stream_main demo_stream [demo_shard ''1'' ''ab'', demo_shard ''2'' ''abcd''] =
     Inr (Inr \<lparr>pb_passages = u4_enc 2 @ u4_enc 2 @ concat (map u4_enc [10, 11, 1, 2, 3, 4]), pb_docids = write_u64bin [1, 2]\<rparr>)"
    by (simp add: stream_main_def stream_start_def demo_stream_shard publish_def code_def)
  moreover have "read_fbin (u4_enc 2 @ u4_enc 2 @ concat (map u4_enc [10, 11, 1, 2, 3, 4])) False = Inr \<lparr>shape = [2, 2], flat = [10, 11, 1, 2]\<rparr>"
    by code_simp
  ultimately show ?thesis by simp
qed

section \<open>A shard with a NaN\<close>

text \<open>Python's \<open>min\<close> and \<open>max\<close> keep the range so far when the shard's is NaN: after a good first shard, one with a NaN row
  is published with status 0, and a row of norm 3 beside it goes unnoticed.\<close>

definition demo_nan_stream :: "string stream_env" where
  "demo_nan_stream =
     demo_stream\<lparr>sv_vecs := \<lambda>c. Inr (if c = ''ab'' then [[10, 11]] else [[99, 99], [30, 33]]),
       sv_norm := \<lambda>v. if v = [10, 11] then Num 1 else if v = [99, 99] then Nan else Num 3\<rparr>"

lemma nan_shard_published:
  "\<exists>p. stream_main demo_nan_stream [demo_shard ''1'' ''ab'', demo_shard ''23'' ''nan''] = Inr (Inr p) \<and>
     read_fbin (pb_passages p) False = Inr \<lparr>shape = [3, 2], flat = [10, 11, 99, 99, 30, 33]\<rparr> \<and>
     \<not> unit_norm demo_nan_stream [30, 33]"
proof -
  have "stream_main demo_nan_stream [demo_shard ''1'' ''ab'', demo_shard ''23'' ''nan''] =
     Inr (Inr \<lparr>pb_passages = u4_enc 3 @ u4_enc 2 @ concat (map u4_enc [10, 11, 99, 99, 30, 33]), pb_docids = write_u64bin [1, 2, 3]\<rparr>)"
    by (simp add: stream_main_def stream_start_def stream_shard_def demo_nan_stream_def demo_shard_def demo_stream_def ends_with_def
        first_column_def next_or_def dhas_def add_rows_def Let_def norms_min_def norms_max_def py_min_def py_max_def off_unit_def publish_def code_def)
  moreover have "read_fbin (u4_enc 3 @ u4_enc 2 @ concat (map u4_enc [10, 11, 99, 99, 30, 33])) False =
      Inr \<lparr>shape = [3, 2], flat = [10, 11, 99, 99, 30, 33]\<rparr>"
    by code_simp
  moreover have "\<not> unit_norm demo_nan_stream [30, 33]" by (simp add: unit_norm_def demo_nan_stream_def)
  ultimately show ?thesis by simp
qed

theorem streamed_archive_published_witness:
  "\<exists>p. stream_main demo_stream [demo_shard ''1'' ''ab'', demo_shard ''2'' ''ab''] = Inr (Inr p) \<and>
     read_fbin (pb_passages p) True = Inr \<lparr>shape = [2, 2], flat = [10, 11, 10, 11]\<rparr> \<and> read_u64bin (pb_docids p) = Inr [1, 2] \<and>
     list_all (unit_norm demo_stream) [[10, 11], [10, 11]]"
proof -
  let ?ms = "[demo_shard ''1'' ''ab'', demo_shard ''2'' ''ab'']"
  have p: "stream_main demo_stream ?ms =
     Inr (Inr \<lparr>pb_passages = u4_enc 2 @ u4_enc 2 @ concat (map u4_enc [10, 11, 10, 11]), pb_docids = write_u64bin [1, 2]\<rparr>)"
    by (simp add: stream_main_def stream_start_def demo_stream_shard publish_def code_def)
  have ok: "tables_ok demo_stream 2 ?ms" by (simp add: tables_ok_def demo_shard_rows)
  have a: "archive_ids demo_stream ?ms = [1, 2]" "archive_rows demo_stream ?ms = [[10, 11], [10, 11]]"
    by (simp_all add: archive_ids_def archive_rows_def demo_shard_rows code_def)
  show ?thesis
    using streamed_archive_published [OF p ok, where mmap = True] p demo_norm by (simp add: a)
qed

end
