(* ===== verification/Ltr.thy ===== *)
theory Ltr
  imports Rankers Encode
begin

text \<open>
  \<open>py/hybridsearch/ltr/model.py\<close> (the listwise ranker: loss, gradient, fit, ranking, nDCG), \<open>ltr/data.py\<close>
  (features from runs, standardisation, synthetic sets) and \<open>ltr/dense_feature.py\<close> (the cache of vectors).
  Numpy's two-dimensional arrays are lists of rows with their number of columns; scipy's optimiser, the
  encoder and the generator's draws are arguments.  The lemma of weight: the gradient handed to the
  optimiser is the gradient of the loss.
\<close>

section \<open>Concatenated lists\<close>

record list_data =
  ld_X :: "vector list"
  ld_F :: nat \<comment> \<open>\<open>X.shape[1]\<close>\<close>
  ld_offsets :: "nat list"

definition n_queries :: "list_data \<Rightarrow> nat" where
  "n_queries d = length (ld_offsets d) - 1"

definition seg_of :: "nat list \<Rightarrow> nat list" where
  \<comment> \<open>\<open>np.repeat(np.arange(Q), np.diff(offsets))\<close>\<close>
  "seg_of off = concat (map (\<lambda>q. replicate (off ! Suc q - off ! q) q) [0..<length off - 1])"

definition slice :: "'a list \<Rightarrow> nat \<Rightarrow> nat \<Rightarrow> 'a list" where
  "slice xs a b = take (b - a) (drop a xs)"

definition reduceat :: "('a list \<Rightarrow> 'a) \<Rightarrow> 'a list \<Rightarrow> nat list \<Rightarrow> 'a list" where
  \<comment> \<open>\<open>ufunc.reduceat\<close> on increasing starts\<close>
  "reduceat f xs starts =
     map (\<lambda>i. f (slice xs (starts ! i) (if Suc i < length starts then starts ! Suc i else length xs))) [0..<length starts]"

definition scores :: "vector list \<Rightarrow> vector \<Rightarrow> vector" where
  \<comment> \<open>\<open>X @ theta\<close>\<close>
  "scores X theta = map (\<lambda>x. inner x theta) X"

definition transpose_times :: "nat \<Rightarrow> vector list \<Rightarrow> vector \<Rightarrow> vector" where
  \<comment> \<open>\<open>X.T @ v\<close>\<close>
  "transpose_times F X v = map (\<lambda>j. inner (map (\<lambda>x. x ! j) X) v) [0..<F]"

definition loss_grad :: "nat \<Rightarrow> vector list \<Rightarrow> vector \<Rightarrow> nat list \<Rightarrow> nat list \<Rightarrow> real \<Rightarrow> vector \<Rightarrow> real \<times> vector" where
  "loss_grad F X w seg starts lam theta =
     (let s = scores X theta;
          smax = reduceat (\<lambda>v. foldr max (tl v) (hd v)) s starts;
          e = map2 (\<lambda>x q. exp (x - smax ! q)) s seg;
          z = reduceat sum_list e starts;
          lse = map2 (\<lambda>a b. ln a + b) z smax;
          wq = reduceat sum_list w starts;
          loss = - inner w s + inner wq lse + 1 / 2 * lam * inner theta theta;
          p = map2 (\<lambda>x q. x / z ! q) e seg;
          grad = map2 (+) (map2 (+) (map uminus (transpose_times F X w)) (transpose_times F X (map2 (\<lambda>a q. a * wq ! q) p seg)))
                   (map (\<lambda>t. lam * t) theta)
      in (loss, grad))"

definition fit :: "((vector \<Rightarrow> real \<times> vector) \<Rightarrow> vector \<Rightarrow> vector) \<Rightarrow> list_data \<Rightarrow> vector \<Rightarrow> real \<Rightarrow> vector option \<Rightarrow> vector res" where
  \<comment> \<open>the first argument is scipy's \<open>minimize\<close> with its options\<close>
  "fit minimize d w lam theta0 =
     (let tot = sum_list w; off = ld_offsets d in
      if tot \<le> 0 then Inr (replicate (ld_F d) 0)
      else if \<not> list_all (\<lambda>q. off ! q < off ! Suc q) [0..<n_queries d] then Inl ValueError
      else Inr (minimize (loss_grad (ld_F d) (ld_X d) (map (\<lambda>x. x / tot) w) (seg_of off) (butlast off) lam)
                  (case theta0 of None \<Rightarrow> replicate (ld_F d) 0 | Some t \<Rightarrow> t)))"

definition rank_lists :: "list_data \<Rightarrow> vector \<Rightarrow> nat list list" where
  "rank_lists d theta =
     (let s = scores (ld_X d) theta; off = ld_offsets d in
      map (\<lambda>q. let v = slice s (off ! q) (off ! Suc q) in py_sorted (\<lambda>i. - (v ! i)) [0..<length v]) [0..<n_queries d])"

definition ltr_ndcg10 :: "nat list \<Rightarrow> int list \<Rightarrow> int list \<Rightarrow> nat \<Rightarrow> real" where
  "ltr_ndcg10 order grades ideal_grades k =
     (let g = map (\<lambda>i. real_of_int (grades ! i)) (take k order);
          ideal = take k (rev (sort (map real_of_int (filter (\<lambda>x. x > 0) ideal_grades))));
          idcg = inner ideal (take (length ideal) (discounts k))
      in if idcg > 0 then inner g (take (length g) (discounts k)) / idcg else 0)"

section \<open>Datasets\<close>

record ltr_set =
  lt_name :: string
  lt_qids :: "string list"
  lt_data :: list_data
  lt_grades :: "int list"
  lt_ideal :: "int list list"
  lt_K :: nat

definition FEATURES :: "string list" where
  "FEATURES = [''bm25_z'', ''dense_z'', ''bm25_rr'', ''dense_rr'', ''log_len'', ''qlen_bm25'', ''qlen_dense'']"

definition grades_log_order :: "ltr_set \<Rightarrow> int list list" where
  "grades_log_order t =
     map (\<lambda>q. let g = slice (lt_grades t) (ld_offsets (lt_data t) ! q) (ld_offsets (lt_data t) ! Suc q)
              in g @ replicate (lt_K t - length g) (- 1)) [0..<n_queries (lt_data t)]"

definition np_std :: "real list \<Rightarrow> real" where
  "np_std s = sqrt (mean (map (\<lambda>x. (x - mean s) ^ 2) s))"

definition run_zscores :: "(docid, real) dict \<Rightarrow> ((docid, real) dict \<times> (docid, nat) dict \<times> real) res" where
  \<comment> \<open>\<open>_zscores\<close>: scores, ranks from 1 and the floor; the minimum of no score raises ValueError\<close>
  "run_zscores run_q =
     res_bind (ranked run_q) (\<lambda>docs.
       let s = map (\<lambda>d. dget run_q d 0) docs; mu = mean s; sd = np_std s + 1 / 10 ^ 9 in
       if s = [] then Inl ValueError
       else Inr (map (\<lambda>d. (d, (dget run_q d 0 - mu) / sd)) docs, map (\<lambda>(i, d). (d, i + 1)) (enumerate 0 docs),
                 (Min (set s) - mu) / sd - 1 / 2))"

definition log1p :: "real \<Rightarrow> real" where "log1p x = ln (1 + x)"

record ltr_inputs =
  li_logging :: run
  li_bm25 :: run
  li_dense :: run
  li_qrels :: qrels
  li_queries :: "(qid, string) dict"
  li_doclen :: "(docid, nat) dict"
  li_labels :: "(int, int) dict"

definition cand_features :: "ltr_inputs \<Rightarrow> real \<Rightarrow> (docid, real) dict \<times> (docid, nat) dict \<times> real \<Rightarrow>
    (docid, real) dict \<times> (docid, nat) dict \<times> real \<Rightarrow> docid \<Rightarrow> vector" where
  "cand_features I ql B D d =
     (case (B, D) of ((zb, rb, fb), (zd, rd, fd)) \<Rightarrow>
      let b = dget zb d fb; e = dget zd d fd in
      [b, e, if dhas rb d then 1 / real (dget rb d 1) else 0, if dhas rd d then 1 / real (dget rd d 1) else 0,
       log1p (real (dget (li_doclen I) d 0)), ql * b, ql * e])"

definition query_block :: "ltr_inputs \<Rightarrow> nat \<Rightarrow> qid \<Rightarrow> (vector list \<times> int list \<times> int list) res" where
  "query_block I K q =
     res_bind (ranked (dget (li_logging I) q [])) (\<lambda>cands0.
     res_bind (run_zscores (dget (li_bm25 I) q [(''_'', 0)])) (\<lambda>B.
     res_bind (run_zscores (dget (li_dense I) q [(''_'', 0)])) (\<lambda>D.
       let cands = take K cands0; judged = dget (li_qrels I) q []; lab = (\<lambda>g. dget (li_labels I) g g);
           ql = log1p (real (length (split_ws (dget (li_queries I) q []))))
       in Inr (map (cand_features I ql B D) cands, map (\<lambda>d. lab (dget judged d 0)) cands, map lab (map snd judged)))))"

definition build_from_runs :: "string \<Rightarrow> qid list \<Rightarrow> ltr_inputs \<Rightarrow> nat \<Rightarrow> ltr_set res" where
  "build_from_runs name qids I K =
     (let kept = filter (\<lambda>q. dhas (li_logging I) q \<and> dhas (li_qrels I) q) qids in
      res_bind (res_map (query_block I K) kept) (\<lambda>bs.
        Inr \<lparr>lt_name = name, lt_qids = kept,
             lt_data = \<lparr>ld_X = concat (map fst bs), ld_F = length FEATURES,
                        ld_offsets = map (\<lambda>i. sum_list (map (length \<circ> fst) (take i bs))) [0..<Suc (length bs)]\<rparr>,
             lt_grades = concat (map (fst \<circ> snd) bs), lt_ideal = map (snd \<circ> snd) bs, lt_K = K\<rparr>))"

definition column_stats :: "list_data \<Rightarrow> (real \<times> real) list" where
  "column_stats d = map (\<lambda>j. let c = map (\<lambda>x. x ! j) (ld_X d) in (mean c, np_std c + 1 / 10 ^ 9)) [0..<ld_F d]"

definition standardise_with :: "(real \<times> real) list \<Rightarrow> ltr_set \<Rightarrow> ltr_set" where
  "standardise_with st t =
     t\<lparr>lt_data := (lt_data t)\<lparr>ld_X := map (\<lambda>x. map2 (\<lambda>v (mu, sd). (v - mu) / sd) x st) (ld_X (lt_data t))\<rparr>\<rparr>"

definition standardise :: "ltr_set \<Rightarrow> ltr_set list \<Rightarrow> ltr_set list" where
  \<comment> \<open>the training set and the others, by the statistics of the training set\<close>
  "standardise train others = map (standardise_with (column_stats (lt_data train))) (train # others)"

definition synthetic_block :: "nat \<Rightarrow> vector list \<Rightarrow> int list \<Rightarrow> nat \<Rightarrow> vector list \<times> int list" where
  \<comment> \<open>one list, ordered by its first feature, with reciprocal ranks written in\<close>
  "synthetic_block K X g q =
     (let Xb = slice X (q * K) (q * K + K); gb = slice g (q * K) (q * K + K);
          o1 = py_sorted (\<lambda>i. - (Xb ! i ! 0)) [0..<length Xb];
          Xq = map ((!) Xb) o1;
          o2 = py_sorted (\<lambda>i. - (Xq ! i ! 1)) [0..<length Xq];
          rd = scatter o2 (map (\<lambda>i. 1 / real (i + 1)) [0..<length Xq]) (replicate (length Xq) 0)
      in (map (\<lambda>(i, x). x[2 := 1 / real (i + 1), 3 := rd ! i]) (enumerate 0 Xq), map ((!) gb) o1))"

definition synthetic :: "string \<Rightarrow> nat \<Rightarrow> nat \<Rightarrow> int list \<Rightarrow> real list \<Rightarrow> real list \<Rightarrow> real list \<Rightarrow> nat list \<Rightarrow> ltr_set" where
  \<comment> \<open>the draws in order: grades, two standard normals, lengths, and query tokens\<close>
  "synthetic name n K g z1 z2 lens toks =
     (let N = n * K;
          bm = map2 (\<lambda>x z. real_of_int x / 2 + z) g z1; de = map2 (\<lambda>x z. 9 / 10 * real_of_int x + z) g z2;
          ln' = map2 (\<lambda>l x. l - real_of_int x / 20) lens g; ql = concat (map (\<lambda>t. replicate K (log1p (real t))) toks);
          X = map (\<lambda>i. [bm ! i, de ! i, 0, 0, ln' ! i, ql ! i * bm ! i, ql ! i * de ! i]) [0..<N];
          bs = map (synthetic_block K X g) [0..<n]
      in \<lparr>lt_name = name, lt_qids = map (\<lambda>q. ''s'' @ str_nat q) [0..<n],
          lt_data = \<lparr>ld_X = concat (map fst bs), ld_F = length FEATURES, ld_offsets = map (\<lambda>i. i * K) [0..<Suc n]\<rparr>,
          lt_grades = concat (map snd bs), lt_ideal = map snd bs, lt_K = K\<rparr>)"

section \<open>The dense feature\<close>

record vec_cache =
  vc_q :: "(qid, vector) dict"
  vc_p :: "(docid, vector) dict"

definition add_vectors :: "(string, vector) dict \<Rightarrow> string list \<Rightarrow> vector list \<Rightarrow> (string, vector) dict" where
  "add_vectors d ids vs = foldl (\<lambda>d (i, v). dset d i v) d (zip ids vs)"

definition encode_needed :: "encoder \<Rightarrow> vec_cache \<Rightarrow> (qid, string) dict \<Rightarrow> (docid, string) dict \<Rightarrow> vec_cache \<times> vec_cache list \<times> nat \<times> nat" where
  \<comment> \<open>the vectors, the caches saved on the way, and how many queries and passages were encoded now\<close>
  "encode_needed E c queries passages =
     (let need_q = filter (\<lambda>q. \<not> dhas (vc_q c) q) (keys queries); need_p = filter (\<lambda>p. \<not> dhas (vc_p c) p) (keys passages);
          qv = add_vectors (vc_q c) need_q (encode_query_texts E (map (\<lambda>q. dget queries q []) need_q));
          step = (\<lambda>pv chunk. add_vectors pv chunk (encode_passage_texts E (map (\<lambda>p. dget passages p []) chunk)));
          cs = slices 500 need_p
      in (\<lparr>vc_q = qv, vc_p = foldl step (vc_p c) cs\<rparr>,
          (if need_q = [] then [] else [\<lparr>vc_q = qv, vc_p = vc_p c\<rparr>]) @
          map (\<lambda>i. \<lparr>vc_q = qv, vc_p = foldl step (vc_p c) (take (Suc i) cs)\<rparr>) [0..<length cs],
          length need_q, length need_p))"

definition passage_texts :: "docid set \<Rightarrow> string \<Rightarrow> (docid, string) dict res" where
  "passage_texts pids f =
     res_fold (\<lambda>out line. case split1 TAB (rstrip_nl line) of None \<Rightarrow> Inl ValueError
        | Some (pid, t) \<Rightarrow> Inr (if pid \<in> pids then dset out pid t else out)) [] (text_lines f)"

definition dense_run_for_candidates :: "(qid, docid list) dict \<Rightarrow> vec_cache \<Rightarrow> run" where
  "dense_run_for_candidates cands c =
     map (\<lambda>(q, ps). (q, dict_of (map (\<lambda>p. (p, inner (dget (vc_p c) p []) (dget (vc_q c) q []))) (filter (dhas (vc_p c)) ps))))
       (filter (\<lambda>(q, ps). dhas (vc_q c) q) cands)"

section \<open>The gradient is the gradient of the loss\<close>

definition offsets_ok :: "nat list \<Rightarrow> nat \<Rightarrow> bool" where
  \<comment> \<open>from 0 to the number of rows, with no empty list\<close>
  "offsets_ok off n \<longleftrightarrow> off \<noteq> [] \<and> off ! 0 = 0 \<and> last off = n \<and> sorted_wrt (<) off"

lemma offsets_mono: "offsets_ok off n \<Longrightarrow> a < b \<Longrightarrow> b < length off \<Longrightarrow> off ! a < off ! b"
  by (simp add: offsets_ok_def sorted_wrt_iff_nth_less)

lemma offsets_weak: "offsets_ok off n \<Longrightarrow> a \<le> b \<Longrightarrow> b < length off \<Longrightarrow> off ! a \<le> off ! b"
  using offsets_mono [of off n a b] by (cases "a = b") auto

lemma offsets_le: "offsets_ok off n \<Longrightarrow> a < length off \<Longrightarrow> off ! a \<le> n"
  using offsets_mono [of off n a "length off - 1"]
  by (cases "a = length off - 1") (force simp: offsets_ok_def last_conv_nth)+

lemma seg_prefix:
  assumes ok: "offsets_ok off n" and "q < length off"
  defines "S \<equiv> \<lambda>q. concat (map (\<lambda>q. replicate (off ! Suc q - off ! q) q) [0..<q])"
  shows "length (S q) = off ! q \<and> (\<forall>i < off ! q. S q ! i < q \<and> off ! (S q ! i) \<le> i \<and> i < off ! Suc (S q ! i))"
  using assms(2)
proof (induction q)
  case 0
  then show ?case using ok by (simp add: S_def offsets_ok_def)
next
  case (Suc q)
  have lt: "off ! q < off ! Suc q" using offsets_mono [OF ok, of q "Suc q"] Suc.prems by simp
  have S: "S (Suc q) = S q @ replicate (off ! Suc q - off ! q) q" by (simp add: S_def)
  have ih: "length (S q) = off ! q" "\<forall>i < off ! q. S q ! i < q \<and> off ! (S q ! i) \<le> i \<and> i < off ! Suc (S q ! i)"
    using Suc by simp_all
  have "S (Suc q) ! i < Suc q \<and> off ! (S (Suc q) ! i) \<le> i \<and> i < off ! Suc (S (Suc q) ! i)" if "i < off ! Suc q" for i
    using that ih lt by (cases "i < off ! q") (auto simp: S nth_append less_Suc_eq)
  then show ?case using ih(1) lt by (simp add: S)
qed

lemma seg_of_props:
  assumes ok: "offsets_ok off n"
  shows "length (seg_of off) = n" and "i < n \<Longrightarrow> seg_of off ! i < length off - 1"
    and "i < n \<Longrightarrow> off ! (seg_of off ! i) \<le> i" and "i < n \<Longrightarrow> i < off ! Suc (seg_of off ! i)"
proof -
  have len: "length off - 1 < length off" "off ! (length off - 1) = n" using ok by (auto simp: offsets_ok_def last_conv_nth)
  note s = seg_prefix [OF ok len(1), folded seg_of_def, unfolded len(2)]
  show "length (seg_of off) = n" "i < n \<Longrightarrow> seg_of off ! i < length off - 1"
    "i < n \<Longrightarrow> off ! (seg_of off ! i) \<le> i" "i < n \<Longrightarrow> i < off ! Suc (seg_of off ! i)" using s by blast+
qed

lemma seg_unique:
  assumes ok: "offsets_ok off n" and q: "Suc q < length off" "off ! q \<le> i" "i < off ! Suc q"
  shows "seg_of off ! i = q"
proof -
  have i: "i < n" using offsets_le [OF ok q(1)] q(3) by simp
  note s = seg_of_props(2-4) [OF ok i]
  let ?p = "seg_of off ! i"
  have "\<not> Suc ?p \<le> q"
  proof
    assume "Suc ?p \<le> q"
    then have "off ! Suc ?p \<le> off ! q" using q(1) by (intro offsets_weak [OF ok]) simp_all
    then show False using s q by simp
  qed
  moreover have "\<not> Suc q \<le> ?p"
  proof
    assume "Suc q \<le> ?p"
    then have "off ! Suc q \<le> off ! ?p" using s(1) by (intro offsets_weak [OF ok]) simp_all
    then show False using s q by simp
  qed
  ultimately show ?thesis by simp
qed

lemma sum_by_lists:
  fixes f :: "nat \<Rightarrow> nat \<Rightarrow> real"
  assumes ok: "offsets_ok off n"
  shows "(\<Sum>i < n. f i (seg_of off ! i)) = (\<Sum>q < length off - 1. \<Sum>i = off ! q ..< off ! Suc q. f i q)"
proof -
  have img: "(\<lambda>i. seg_of off ! i) ` {..<n} \<subseteq> {..< length off - 1}" using seg_of_props(2) [OF ok] by auto
  have fib: "{i \<in> {..<n}. seg_of off ! i = q} = {off ! q ..< off ! Suc q}" if "q < length off - 1" for q
  proof -
    have q: "Suc q < length off" using that by simp
    show ?thesis
    proof (intro equalityI subsetI)
      fix i assume "i \<in> {i \<in> {..<n}. seg_of off ! i = q}"
      then show "i \<in> {off ! q ..< off ! Suc q}" using seg_of_props(3,4) [OF ok, of i] by simp
    next
      fix i assume i: "i \<in> {off ! q ..< off ! Suc q}"
      then have "i < n" using offsets_le [OF ok q] by simp
      then show "i \<in> {i \<in> {..<n}. seg_of off ! i = q}" using i seg_unique [OF ok q] by simp
    qed
  qed
  have "(\<Sum>i < n. f i (seg_of off ! i)) = (\<Sum>q < length off - 1. \<Sum>i \<in> {i \<in> {..<n}. seg_of off ! i = q}. f i (seg_of off ! i))"
    by (rule sum.group [OF finite_lessThan finite_lessThan img, symmetric])
  also have "\<dots> = (\<Sum>q < length off - 1. \<Sum>i = off ! q ..< off ! Suc q. f i q)"
  proof (rule sum.cong [OF refl])
    fix q assume "q \<in> {..< length off - 1}"
    then have q: "{i \<in> {..<n}. seg_of off ! i = q} = {off ! q ..< off ! Suc q}" by (intro fib) simp
    show "(\<Sum>i \<in> {i \<in> {..<n}. seg_of off ! i = q}. f i (seg_of off ! i)) = (\<Sum>i = off ! q ..< off ! Suc q. f i q)"
    proof (rule sum.cong [OF q])
      fix i assume "i \<in> {off ! q ..< off ! Suc q}"
      then have "i \<in> {i \<in> {..<n}. seg_of off ! i = q}" unfolding q .
      then show "f i (seg_of off ! i) = f i q" by simp
    qed
  qed
  finally show ?thesis .
qed

lemma inner_sum: "length x = n \<Longrightarrow> length y = n \<Longrightarrow> inner x y = (\<Sum>i < n. x ! i * y ! i)"
  by (simp add: inner_def sum_list_sum_nth atLeast0LessThan)

lemma slice_sum:
  fixes xs :: "real list"
  assumes "a \<le> b" and "b \<le> length xs"
  shows "sum_list (slice xs a b) = (\<Sum>i = a ..< b. xs ! i)"
proof -
  have "sum_list (slice xs a b) = (\<Sum>i < b - a. xs ! (a + i))"
    using assms by (simp add: slice_def sum_list_sum_nth atLeast0LessThan min_absorb1 diff_le_mono)
  also have "\<dots> = (\<Sum>i = a ..< b. xs ! i)"
    using sum.shift_bounds_nat_ivl [of "\<lambda>i. xs ! i" 0 a "b - a"] assms by (simp add: atLeast0LessThan add.commute)
  finally show ?thesis .
qed

lemma reduceat_lists:
  assumes ok: "offsets_ok off n" and "length xs = n"
  shows "reduceat f xs (butlast off) = map (\<lambda>q. f (slice xs (off ! q) (off ! Suc q))) [0..<length off - 1]"
proof -
  have "off ! Suc i = n" if "i < length off - 1" "\<not> Suc i < length off - 1" for i
  proof -
    have "Suc i = length off - 1" using that by simp
    then show ?thesis using ok by (metis last_conv_nth offsets_ok_def)
  qed
  then show ?thesis using assms by (auto simp: reduceat_def nth_butlast)
qed

definition data_ok :: "nat \<Rightarrow> vector list \<Rightarrow> vector \<Rightarrow> nat list \<Rightarrow> bool" where
  \<comment> \<open>a rectangular array, a weight per row, and no empty list\<close>
  "data_ok F X w off \<longleftrightarrow> (\<forall>x \<in> set X. length x = F) \<and> length w = length X \<and> offsets_ok off (length X)"

definition list_z :: "vector list \<Rightarrow> nat list \<Rightarrow> vector \<Rightarrow> nat \<Rightarrow> real" where
  "list_z X off th q = (\<Sum>i = off ! q ..< off ! Suc q. exp (inner (X ! i) th))"

definition list_w :: "vector \<Rightarrow> nat list \<Rightarrow> nat \<Rightarrow> real" where
  "list_w w off q = (\<Sum>i = off ! q ..< off ! Suc q. w ! i)"

text \<open>The shift by the maximum cancels: loss and gradient in closed form.\<close>

lemma loss_grad_closed:
  fixes lam :: real
  assumes ok: "data_ok F X w off" and th: "length th = F"
  defines "r \<equiv> loss_grad F X w (seg_of off) (butlast off) lam th"
  shows "fst r = - (\<Sum>i < length X. w ! i * inner (X ! i) th) + (\<Sum>q < length off - 1. list_w w off q * ln (list_z X off th q)) +
      1 / 2 * lam * (\<Sum>k < F. th ! k * th ! k)"
    and "j < F \<Longrightarrow> snd r ! j = - (\<Sum>i < length X. X ! i ! j * w ! i) +
      (\<Sum>i < length X. X ! i ! j * (exp (inner (X ! i) th) / list_z X off th (seg_of off ! i) * list_w w off (seg_of off ! i))) + lam * th ! j"
proof -
  let ?n = "length X" and ?Q = "length off - 1" and ?seg = "seg_of off"
  have off: "offsets_ok off ?n" and w: "length w = ?n" using ok by (simp_all add: data_ok_def)
  note seg = seg_of_props [OF off]
  have step: "Suc q < length off" "off ! q < off ! Suc q" "off ! Suc q \<le> ?n" if "q < ?Q" for q
    using that offsets_mono [OF off, of q "Suc q"] offsets_le [OF off, of "Suc q"] by simp_all
  define sc where "sc = scores X th"
  define mx where "mx = reduceat (\<lambda>v. foldr max (tl v) (hd v)) sc (butlast off)"
  define e where "e = map2 (\<lambda>x q. exp (x - mx ! q)) sc ?seg"
  define z where "z = reduceat sum_list e (butlast off)"
  define wq where "wq = reduceat sum_list w (butlast off)"
  have len: "length sc = ?n" "length e = ?n" "length mx = ?Q" by (simp_all add: sc_def scores_def e_def seg mx_def reduceat_def)
  have sc: "sc ! i = inner (X ! i) th" if "i < ?n" for i using that by (simp add: sc_def scores_def)
  have e: "e ! i = exp (inner (X ! i) th) * exp (- mx ! (?seg ! i))" if "i < ?n" for i
    using that len by (simp add: e_def seg sc exp_diff exp_minus divide_inverse)
  have wq: "wq = map (list_w w off) [0..<?Q]"
    using step w by (auto simp: wq_def reduceat_lists [OF off w] list_w_def less_imp_le intro!: slice_sum)
  have z: "z ! q = exp (- mx ! q) * list_z X off th q" "length z = ?Q" if "q < ?Q" for q
  proof -
    have "z ! q = (\<Sum>i = off ! q ..< off ! Suc q. e ! i)"
      using that step [OF that] slice_sum [of "off ! q" "off ! Suc q" e] len by (simp add: z_def reduceat_lists [OF off len(2)])
    also have "\<dots> = (\<Sum>i = off ! q ..< off ! Suc q. exp (- mx ! q) * exp (inner (X ! i) th))"
      using step [OF that] seg_unique [OF off step(1) [OF that]] by (intro sum.cong) (auto simp: e)
    finally show "z ! q = exp (- mx ! q) * list_z X off th q" by (simp add: list_z_def sum_distrib_left)
    show "length z = ?Q" by (simp add: z_def reduceat_def)
  qed
  have zlen: "length z = ?Q" by (simp add: z_def reduceat_def)
  have zpos: "0 < list_z X off th q" if "q < ?Q" for q
    unfolding list_z_def using step [OF that] by (intro sum_pos) auto
  define lse where "lse = map2 (\<lambda>a b. ln a + b) z mx"
  have lse: "lse = map (\<lambda>q. ln (list_z X off th q)) [0..<?Q]"
  proof (rule nth_equalityI)
    fix q assume "q < length lse"
    then have q: "q < ?Q" by (simp add: lse_def zlen len)
    have "ln (z ! q) = - mx ! q + ln (list_z X off th q)"
      using z(1) [OF q] ln_mult [of "exp (- mx ! q)" "list_z X off th q"] zpos [OF q] by simp
    then show "lse ! q = map (\<lambda>q. ln (list_z X off th q)) [0..<?Q] ! q" using q by (simp add: lse_def zlen len)
  qed (simp add: lse_def zlen len)
  define p where "p = map2 (\<lambda>x q. x / z ! q) e ?seg"
  define pw where "pw = map2 (\<lambda>a q. a * wq ! q) p ?seg"
  have plen: "length p = ?n" "length pw = ?n" by (simp_all add: p_def pw_def len seg)
  have pw: "pw ! i = exp (inner (X ! i) th) / list_z X off th (?seg ! i) * list_w w off (?seg ! i)" if "i < ?n" for i
    using that seg(2) [OF that] by (simp add: pw_def p_def len seg z e wq)
  have r: "r = (- inner w sc + inner wq lse + 1 / 2 * lam * inner th th,
      map2 (+) (map2 (+) (map uminus (transpose_times F X w)) (transpose_times F X pw)) (map (\<lambda>t. lam * t) th))"
    by (simp add: r_def loss_grad_def Let_def sc_def mx_def e_def z_def wq_def lse_def p_def pw_def)
  have "inner w sc = (\<Sum>i < ?n. w ! i * inner (X ! i) th)" using w len by (simp add: inner_sum sc)
  moreover have "inner wq lse = (\<Sum>q < ?Q. list_w w off q * ln (list_z X off th q))"
    by (subst inner_sum [where n = ?Q]) (simp_all add: wq lse)
  ultimately show "fst r = - (\<Sum>i < length X. w ! i * inner (X ! i) th) + (\<Sum>q < length off - 1. list_w w off q * ln (list_z X off th q)) +
      1 / 2 * lam * (\<Sum>k < F. th ! k * th ! k)"
    using th by (simp add: r inner_sum)
  assume j: "j < F"
  have tt: "transpose_times F X v ! j = (\<Sum>i < ?n. X ! i ! j * v ! i)" if "length v = ?n" for v
    using j that by (simp add: transpose_times_def inner_sum)
  have tl: "length (transpose_times F X v) = F" for v by (simp add: transpose_times_def)
  have "snd r ! j = - transpose_times F X w ! j + transpose_times F X pw ! j + lam * th ! j"
    using j th by (simp add: r tl)
  also have "transpose_times F X pw ! j = (\<Sum>i < ?n. X ! i ! j * (exp (inner (X ! i) th) / list_z X off th (?seg ! i) * list_w w off (?seg ! i)))"
    by (simp add: tt plen pw)
  finally show "snd r ! j = - (\<Sum>i < length X. X ! i ! j * w ! i) +
      (\<Sum>i < length X. X ! i ! j * (exp (inner (X ! i) th) / list_z X off th (seg_of off ! i) * list_w w off (seg_of off ! i))) + lam * th ! j"
    by (simp only: tt w)
qed

lemma nth_update_deriv: "((\<lambda>t. th[j := t] ! k) has_real_derivative (if k = j \<and> j < length th then 1 else 0)) (at x)"
proof (cases "j < length th")
  case True
  then show ?thesis by (cases "k = j") simp_all
qed (simp add: list_update_beyond)

lemma score_deriv:
  assumes "length x = F" and "length th = F" and "j < F"
  shows "((\<lambda>t. inner x (th[j := t])) has_real_derivative x ! j) (at u)"
proof -
  have "((\<lambda>t. \<Sum>k < F. x ! k * th[j := t] ! k) has_real_derivative (\<Sum>k < F. x ! k * (if k = j \<and> j < length th then 1 else 0))) (at u)"
    by (intro DERIV_sum DERIV_cmult nth_update_deriv)
  moreover have "(\<Sum>k < F. x ! k * (if k = j \<and> j < length th then 1 else 0)) = x ! j"
    using assms by (simp add: if_distrib cong: if_cong)
  moreover have "inner x (th[j := t]) = (\<Sum>k < F. x ! k * th[j := t] ! k)" for t using assms by (simp add: inner_sum)
  ultimately show ?thesis by simp
qed

text \<open>C25: the gradient given to the optimiser is the gradient of the loss: for data without empty lists, every
  partial derivative of the loss that \<open>_loss_grad\<close> returns, with its per-query maximum subtracted, exists
  and is the corresponding entry of the vector it returns.\<close>

theorem loss_grad_is_gradient:
  assumes ok: "data_ok F X w off" and th: "length th = F" and j: "j < F"
  shows "((\<lambda>t. fst (loss_grad F X w (seg_of off) (butlast off) lam (th[j := t]))) has_real_derivative
    snd (loss_grad F X w (seg_of off) (butlast off) lam th) ! j) (at (th ! j))"
proof -
  let ?n = "length X" and ?Q = "length off - 1" and ?s = "\<lambda>i t. inner (X ! i) (th[j := t])"
  have off: "offsets_ok off ?n" using ok by (simp add: data_ok_def)
  have F: "length (X ! i) = F" if "i < ?n" for i using ok that by (simp add: data_ok_def)
  have same: "th[j := th ! j] = th" by simp
  have sd: "(?s i has_real_derivative X ! i ! j) (at (th ! j))" if "i < ?n" for i using F [OF that] th j by (rule score_deriv)
  have part: "i < ?n" if "q < ?Q" "i \<in> {off ! q ..< off ! Suc q}" for i q
  proof -
    have "off ! Suc q \<le> ?n" using that(1) by (intro offsets_le [OF off]) simp
    then show ?thesis using that(2) by simp
  qed
  have zpos: "0 < list_z X off (th[j := t]) q" if "q < ?Q" for q t
    unfolding list_z_def using offsets_mono [OF off, of q "Suc q"] that by (intro sum_pos) auto
  have zd: "((\<lambda>t. list_z X off (th[j := t]) q) has_real_derivative
      (\<Sum>i = off ! q ..< off ! Suc q. exp (inner (X ! i) th) * X ! i ! j)) (at (th ! j))" if "q < ?Q" for q
    unfolding list_z_def using part [OF that] sd
    by (intro DERIV_sum) (auto intro!: derivative_eq_intros simp: same)
  have ld: "((\<lambda>t. list_w w off q * ln (list_z X off (th[j := t]) q)) has_real_derivative
      list_w w off q * ((\<Sum>i = off ! q ..< off ! Suc q. exp (inner (X ! i) th) * X ! i ! j) / list_z X off th q)) (at (th ! j))"
    if "q < ?Q" for q
    using DERIV_cmult [OF DERIV_chain2 [OF DERIV_ln_divide [OF zpos [OF that]] zd [OF that]], of "list_w w off q"]
    by (simp add: same)
  have rd: "((\<lambda>t. 1 / 2 * lam * (\<Sum>k < F. th[j := t] ! k * th[j := t] ! k)) has_real_derivative lam * th ! j) (at (th ! j))"
  proof -
    have "((\<lambda>t. \<Sum>k < F. th[j := t] ! k * th[j := t] ! k) has_real_derivative
        (\<Sum>k < F. (if k = j \<and> j < length th then 1 else 0) * th[j := th ! j] ! k + (if k = j \<and> j < length th then 1 else 0) * th[j := th ! j] ! k)) (at (th ! j))"
      by (intro DERIV_sum DERIV_mult nth_update_deriv)
    moreover have "(\<Sum>k < F. (if k = j \<and> j < length th then 1 else 0) * th[j := th ! j] ! k + (if k = j \<and> j < length th then 1 else 0) * th[j := th ! j] ! k) = 2 * th ! j"
    proof -
      have "(\<Sum>k < F. (if k = j \<and> j < length th then 1 else 0) * th[j := th ! j] ! k + (if k = j \<and> j < length th then 1 else 0) * th[j := th ! j] ! k) =
          (\<Sum>k < F. if k = j then 2 * th ! j else 0)"
        using j th by (intro sum.cong) (simp_all add: same)
      then show ?thesis using j by simp
    qed
    ultimately show ?thesis using DERIV_cmult [of _ "2 * th ! j" _ _ "1 / 2 * lam"] by fastforce
  qed
  have "((\<lambda>t. - (\<Sum>i < ?n. w ! i * ?s i t) + (\<Sum>q < ?Q. list_w w off q * ln (list_z X off (th[j := t]) q)) +
        1 / 2 * lam * (\<Sum>k < F. th[j := t] ! k * th[j := t] ! k)) has_real_derivative
      - (\<Sum>i < ?n. w ! i * X ! i ! j) +
      (\<Sum>q < ?Q. list_w w off q * ((\<Sum>i = off ! q ..< off ! Suc q. exp (inner (X ! i) th) * X ! i ! j) / list_z X off th q)) + lam * th ! j) (at (th ! j))"
    by (intro DERIV_add DERIV_minus DERIV_sum DERIV_cmult sd ld rd) simp_all
  moreover have "(\<Sum>q < ?Q. list_w w off q * ((\<Sum>i = off ! q ..< off ! Suc q. exp (inner (X ! i) th) * X ! i ! j) / list_z X off th q)) =
      (\<Sum>i < ?n. X ! i ! j * (exp (inner (X ! i) th) / list_z X off th (seg_of off ! i) * list_w w off (seg_of off ! i)))"
    unfolding sum_by_lists [OF off, of "\<lambda>i q. X ! i ! j * (exp (inner (X ! i) th) / list_z X off th q * list_w w off q)"]
    by (simp add: sum_divide_distrib sum_distrib_left mult_ac)
  ultimately show ?thesis
    using th loss_grad_closed(1) [OF ok, of "th[j := _]" lam] loss_grad_closed(2) [OF ok th j, of lam] by (simp add: mult.commute)
qed

theorem loss_grad_is_gradient_witness:
  "((\<lambda>t. fst (loss_grad 1 [[1], [0]] [1, 0] (seg_of [0, 2]) (butlast [0, 2]) 0 ([0][0 := t]))) has_real_derivative - 1 / 2) (at 0)"
proof -
  have seg: "seg_of [0, 2] = [0, 0]" by (simp add: seg_of_def numeral_2_eq_2)
  have "data_ok 1 [[1 :: real], [0]] [1, 0] [0, 2]" by (simp add: data_ok_def offsets_ok_def)
  from loss_grad_is_gradient [OF this, of "[0]" 0 0] show ?thesis
    by (simp add: seg loss_grad_def Let_def scores_def inner_def reduceat_def slice_def transpose_times_def)
qed

end
