(* ===== verification/Make_Runs.thy ===== *)
theory Make_Runs
  imports Ltr Rankers
begin

text \<open>
  \<open>scripts/m9_make_runs.py\<close>: two more rankers for the sensitivity study, the top 100 of BM25 reordered by the
  similarity of the encoder and the reciprocal rank fusion of the two.  The encoder and the iteration
  order of a set are arguments; the run files and the collection are texts.  The lemmas show that a
  reordered list holds the candidates of BM25, and that six decimals do not tell all fused scores apart.
\<close>

definition M9_DEPTH :: nat where
  "M9_DEPTH = 100"

definition top_candidates :: "run \<Rightarrow> (qid, docid list) dict res" where
  "top_candidates bm = res_map (\<lambda>(q, r). res_bind (ranked r) (\<lambda>ds. Inr (q, take M9_DEPTH ds))) bm"

definition by_score_int :: "(docid, real) dict \<Rightarrow> ranking res" where
  \<comment> \<open>\<open>sorted(d.items(), key=lambda x: (-x[1], int(x[0])))\<close>\<close>
  "by_score_int d =
     res_bind (res_map (\<lambda>(i, s). res_bind (int_of i) (\<lambda>n. Inr ((- s, n), (i, s)))) d) (\<lambda>ks. Inr (map snd (py_sorted fst ks)))"

definition sort_run :: "run \<Rightarrow> (qid \<times> ranking) list res" where
  \<comment> \<open>each query's documents in order, the queries by number\<close>
  "sort_run r =
     res_bind (res_map (\<lambda>(q, d). res_bind (by_score_int d) (\<lambda>l. Inr (q, l))) r) (\<lambda>rs.
     res_bind (res_map (\<lambda>(q, l). res_bind (int_of q) (\<lambda>n. Inr (n, (q, l)))) rs) (\<lambda>ks. Inr (map snd (py_sorted fst ks))))"

definition restrict_run :: "run \<Rightarrow> (qid, docid list) dict \<Rightarrow> run res" where
  "restrict_run bm cands =
     res_map (\<lambda>(q, c). res_bind (dlookup bm q) (\<lambda>r.
       res_bind (res_map (\<lambda>d. res_bind (dlookup r d) (\<lambda>s. Inr (d, s))) c) (\<lambda>ds. Inr (q, dict_of ds)))) cands"

record split_runs =
  sr_rerank :: string \<comment> \<open>the text of \<open>bm25-bge-rerank100\<close>\<close>
  sr_rrf :: string \<comment> \<open>the text of \<open>rrf-bm25-bge100\<close>\<close>
  sr_encoded :: "nat \<times> nat" \<comment> \<open>queries and passages encoded now\<close>

definition make_split :: "(qid list \<Rightarrow> qid list) \<Rightarrow> encoder \<Rightarrow> (qid, string) dict \<Rightarrow> string \<Rightarrow> string \<Rightarrow> vec_cache \<Rightarrow> (split_runs \<times> vec_cache) res" where
  \<comment> \<open>one split, from the text of BM25's run, with the cached vectors\<close>
  "make_split so E queries collection bm_text c =
     res_bind (read_run bm_text) (\<lambda>bm.
     res_bind (top_candidates bm) (\<lambda>cands.
     res_bind (res_map (\<lambda>(q, _). res_bind (dlookup queries q) (\<lambda>t. Inr (q, t))) cands) (\<lambda>qs.
     res_bind (passage_texts (\<Union> (set (map (\<lambda>(_, ps). set ps) cands))) collection) (\<lambda>texts.
     let (c', _, nq, np) = encode_needed E c qs texts; dense = dense_run_for_candidates cands c' in
     res_bind (sort_run dense) (\<lambda>rer.
     res_bind (restrict_run bm cands) (\<lambda>bm100.
     res_bind (rrf_runs so [bm100, dense] 60 1000) (\<lambda>fused.
     res_bind (sort_run fused) (\<lambda>fr.
       Inr (\<lparr>sr_rerank = write_run rer ''bm25-bge-rerank100'', sr_rrf = write_run fr ''rrf-bm25-bge100'', sr_encoded = (nq, np)\<rparr>, c')))))))))"

definition make_runs :: "(qid list \<Rightarrow> qid list) \<Rightarrow> encoder \<Rightarrow> files \<Rightarrow> string list list \<Rightarrow> string \<Rightarrow> string \<Rightarrow> string \<Rightarrow> vec_cache \<Rightarrow>
    (split_runs \<times> split_runs \<times> vec_cache) res" where
  \<comment> \<open>\<open>main\<close>: both splits, on one cache of vectors\<close>
  "make_runs so E fs query_paths collection bm19 bm20 c =
     (let queries = load_dl_queries fs query_paths in
      res_bind (make_split so E queries collection bm19 c) (\<lambda>(r19, c1).
      res_bind (make_split so E queries collection bm20 c1) (\<lambda>(r20, c2). Inr (r19, r20, c2))))"

section \<open>A reordered list holds the candidates\<close>

lemma by_score_int_mset: "by_score_int d = Inr l \<Longrightarrow> mset l = mset d"
proof -
  assume "by_score_int d = Inr l"
  then obtain ks where ks: "res_map (\<lambda>(i, s). res_bind (int_of i) (\<lambda>n. Inr ((- s, n), (i, s)))) d = Inr ks"
    and l: "l = map snd (py_sorted fst ks)" by (auto simp: by_score_int_def)
  have "map snd ks = d" using ks by (induction d arbitrary: ks) auto
  moreover have "mset l = mset (map snd ks)" unfolding l by (metis mset_map sorted_asc.rank_mset)
  ultimately show ?thesis by simp
qed

lemma by_score_int_sorted: "by_score_int d = Inr l \<Longrightarrow> sorted_wrt (\<lambda>x y. snd y \<le> snd x) l"
proof -
  assume "by_score_int d = Inr l"
  then obtain ks where ks: "res_map (\<lambda>(i, s). res_bind (int_of i) (\<lambda>n. Inr ((- s, n), (i, s)))) d = Inr ks"
    and l: "l = map snd (py_sorted fst ks)" by (auto simp: by_score_int_def)
  have "fst (fst k) = - snd (snd k)" if "k \<in> set ks" for k using res_map_Inr_set [OF ks that] by auto
  moreover have "sorted_wrt (\<lambda>x y. fst x \<le> fst y) (py_sorted fst ks)"
    using sorted_asc.rank_sorted [of fst ks] by (simp only: sorted_map)
  ultimately have "sorted_wrt (\<lambda>x y. snd (snd y) \<le> snd (snd x)) (py_sorted fst ks)"
    by (elim sorted_wrt_mono_rel [rotated]) (auto simp: sorted_asc.rank_set less_eq_prod_def)
  then show ?thesis by (simp only: l sorted_wrt_map)
qed

lemma dense_run_query:
  assumes "(q, ps) \<in> set cands" and "dhas (vc_q c) q" and "list_all (dhas (vc_p c)) ps" and "distinct ps"
  shows "\<exists>d. (q, d) \<in> set (dense_run_for_candidates cands c) \<and> keys d = ps"
proof -
  have f: "filter (dhas (vc_p c)) ps = ps" using assms(3) by (simp add: list_all_iff)
  let ?d = "map (\<lambda>p. (p, inner (dget (vc_p c) p []) (dget (vc_q c) q []))) ps"
  have "dict_of ?d = ?d" using assms(4) by (intro dict_of_distinct) (simp add: comp_def)
  then have "(q, ?d) \<in> set (dense_run_for_candidates cands c)"
    using assms(1,2) f by (force simp: dense_run_for_candidates_def)
  then show ?thesis by (intro exI [of _ ?d]) (simp add: comp_def)
qed

section \<open>Six decimals\<close>

text \<open>\<open>write_run\<close> prints six decimals.  A document at ranks 1 and 28 has a larger fused score than one at ranks 26 and 2, and
  both print as 0.027757: whoever reads the written run back breaks the tie by document id.\<close>

lemma round_half_even_near: "\<bar>x - of_int n\<bar> < 1 / 2 \<Longrightarrow> round_half_even x = n"
  using round_half_even_error [of x] by linarith

lemma fused_scores_collide:
  "(1 :: real) / (60 + 26) + 1 / (60 + 2) < 1 / (60 + 1) + 1 / (60 + 28)"
  "fmt_f 6 (1 / (60 + 26) + 1 / (60 + 2)) = fmt_f 6 (1 / (60 + 1) + 1 / (60 + 28))"
proof -
  show "(1 :: real) / (60 + 26) + 1 / (60 + 2) < 1 / (60 + 1) + 1 / (60 + 28)" by simp
  have "round_half_even ((1 / (60 + 26) + 1 / (60 + 2)) * 10 ^ 6) = 27757"
    "round_half_even ((1 / (60 + 1) + 1 / (60 + 28)) * 10 ^ 6) = 27757"
    by (rule round_half_even_near, simp add: abs_less_iff)+
  then show "fmt_f 6 (1 / (60 + 26) + 1 / (60 + 2)) = fmt_f 6 (1 / (60 + 1) + 1 / (60 + 28))"
    unfolding fmt_f_def Let_def by simp
qed

end
