(* ===== verification/Rerank_Report.thy ===== *)
theory Rerank_Report
  imports Model_Parity
begin

text \<open>
  The files that follow a reranking: the result record of \<open>rerank/rerank_run.py\<close>, the latency benchmark
  (\<open>rerank/bench.py\<close>), the quality and latency table by rerank depth (\<open>rerank/cascade.py\<close>) and the summary of
  all results (\<open>rerank/report.py\<close>).  Files are their texts, read and written as JSON; the score cache is the list of its
  rows; clocks, sessions and the text of a float are arguments.  The lemmas follow a value through the files:
  the latency of the cascade table is the one the benchmark measured, the row of the summary is the one that was
  evaluated, and a cascade over all candidates has the quality of the reranked run.
\<close>

section \<open>Splits and the result of a run\<close>

definition SPLITS :: "(string, string \<times> string) dict" where
  "SPLITS =
     [(''dev'', ''data/raw/msmarco/queries.dev.small.tsv'', ''data/raw/msmarco/qrels.dev.small.tsv''),
      (''dl19'', ''data/raw/trec-dl/dl19.queries.tsv'', ''data/raw/trec-dl/dl19.qrels''),
      (''dl20'', ''data/raw/trec-dl/dl20.queries.tsv'', ''data/raw/trec-dl/dl20.qrels''),
      (''train_tune'', ''data/subset/train_tune/queries.tsv'', ''data/subset/train_tune/qrels.tsv''),
      (''dev1m'', ''data/raw/msmarco/queries.dev.small.tsv'', ''data/subset/1m/qrels.dev.tsv''),
      (''dl19_1m'', ''data/raw/trec-dl/dl19.queries.tsv'', ''data/subset/1m/qrels.dl19.tsv''),
      (''dl20_1m'', ''data/raw/trec-dl/dl20.queries.tsv'', ''data/subset/1m/qrels.dl20.tsv'')]"

record run_info =
  ri_name :: string
  ri_split :: string
  ri_model :: string
  ri_backend :: string
  ri_device :: string
  ri_candidates :: string
  ri_label :: string
  ri_depth :: nat
  ri_max_queries :: "nat option"
  ri_score_s :: real \<comment> \<open>seconds of scoring\<close>
  ri_load_s :: real
  ri_max_length :: nat

definition metrics_json :: "(string, real) dict \<Rightarrow> json" where
  "metrics_json ms = JObj (map (\<lambda>(m, v). (m, JFloat v)) ms)"

definition result_json :: "run_info \<Rightarrow> rerank_result \<Rightarrow> json res" where
  \<comment> \<open>the record of \<open>rerank\<close>; scoring in no time raises\<close>
  "result_json I r =
     (if ri_score_s I = 0 then Inl ZeroDivisionError
      else Inr (JObj
        [(''name'', JStr (ri_name I)), (''split'', JStr (ri_split I)), (''model'', JStr (ri_model I)), (''backend'', JStr (ri_backend I)),
         (''device'', JStr (ri_device I)), (''candidates'', JStr (ri_candidates I)), (''candidate_label'', JStr (ri_label I)),
         (''depth'', JInt (int (ri_depth I))), (''n_queries_qrels'', JInt (int (rr_n_qrels r))),
         (''max_queries'', case ri_max_queries I of None \<Rightarrow> JNull | Some m \<Rightarrow> JInt (int m)),
         (''n_queries_with_candidates'', JInt (int (rr_n_with_candidates r))), (''n_pairs'', JInt (int (rr_n_pairs r))),
         (''metrics'', metrics_json (rr_metrics r)), (''first_stage_metrics_at_depth'', metrics_json (rr_first_stage r)),
         (''score_seconds'', JFloat (round_to 1 (ri_score_s I))), (''pairs_per_s'', JFloat (round_to 1 (real (rr_n_pairs r) / ri_score_s I))),
         (''load_seconds'', JFloat (round_to 1 (ri_load_s I))), (''max_length'', JInt (int (ri_max_length I)))]))"

section \<open>The latency benchmark\<close>

definition bench_items :: "(docid, real) dict \<Rightarrow> docid list" where
  "bench_items hits = map fst (py_sorted_rev (\<lambda>(d, s). (s, d)) hits)"

definition run_line_ok :: "string \<Rightarrow> bool" where
  \<comment> \<open>the line has its fields; an error is then a query that came before, raised after the current group is yielded\<close>
  "run_line_ok l = (case split_ws l of _ # _ # _ # _ # sc # _ \<Rightarrow> (case float_of sc of Inr _ \<Rightarrow> True | Inl _ \<Rightarrow> False) | _ \<Rightarrow> False)"

fun run_groups :: "nat option \<Rightarrow> groups \<Rightarrow> string list \<Rightarrow> (qid \<times> (docid, real) dict) list \<times> py_error option" where
  \<comment> \<open>the groups a consumer of \<open>iter_run_groups\<close> receives, and the error behind them\<close>
  "run_groups mh st [] = (flush st, None)"
| "run_groups mh st (l # ls) = (case group_line mh st l of Inl e \<Rightarrow> (if run_line_ok l then flush st else gr_out st, Some e) | Inr st' \<Rightarrow> run_groups mh st' ls)"

fun take_requests :: "(qid, string) dict \<Rightarrow> nat \<Rightarrow> nat \<Rightarrow> (qid \<times> (docid, real) dict) list \<Rightarrow> py_error option \<Rightarrow>
    (string \<times> docid list) list \<Rightarrow> (string \<times> docid list) list res" where
  \<comment> \<open>the loop over the groups: it stops at \<open>n\<close> requests, before an error it has not reached\<close>
  "take_requests queries depth n [] e acc = (case e of None \<Rightarrow> Inr acc | Some err \<Rightarrow> Inl err)"
| "take_requests queries depth n ((q, hits) # gs) e acc =
     (let acc' = (if dhas queries q \<and> depth \<le> length hits then acc @ [(dget queries q [], bench_items hits)] else acc) in
      if n \<le> length acc' then Inr acc' else take_requests queries depth n gs e acc')"

fun bench_sources :: "nat \<Rightarrow> nat \<Rightarrow> (string option \<times> string option) list \<Rightarrow> (string \<times> docid list) list \<Rightarrow> (string \<times> docid list) list res" where
  \<comment> \<open>query and run file of each source; a source whose run is missing is passed over\<close>
  "bench_sources n depth [] reqs = Inr reqs"
| "bench_sources n depth ((qf, rf) # srcs) reqs =
     (if n \<le> length reqs then bench_sources n depth srcs reqs
      else case rf of
        None \<Rightarrow> bench_sources n depth srcs reqs
      | Some run \<Rightarrow>
          (case qf of
             None \<Rightarrow> Inl FileNotFoundError
           | Some f \<Rightarrow>
               res_bind (read_queries f) (\<lambda>queries.
                 let (gs, e) = run_groups (Some depth) \<lparr>gr_seen = {}, gr_cur = None, gr_hits = [], gr_out = []\<rparr> (text_lines run) in
                 res_bind (take_requests queries depth n gs e reqs) (bench_sources n depth srcs))))"

definition bench_requests :: "nat \<Rightarrow> nat \<Rightarrow> (string option \<times> string option) list \<Rightarrow> string \<Rightarrow> (string \<times> string list) list res" where
  "bench_requests n depth srcs colf =
     res_bind (bench_sources n depth srcs []) (\<lambda>reqs.
     res_bind (load_passages (Some (set (concat (map snd reqs)))) colf) (\<lambda>txts.
       res_map (\<lambda>(q, ps). res_bind (res_map (dlookup txts) ps) (\<lambda>ts. Inr (q, ts))) reqs))"

type_synonym clock = "string \<Rightarrow> nat \<Rightarrow> nat \<Rightarrow> PairBatch list \<Rightarrow> real list \<times> real list"
  \<comment> \<open>model file, threads, batch and inputs: the seconds of \<open>session.run\<close> and of the tokenizer for each input\<close>

definition bench_feeds :: "pair_tokenizer \<Rightarrow> (string \<times> string list) list \<Rightarrow> nat \<Rightarrow> nat \<Rightarrow> PairBatch list res" where
  "bench_feeds tk reqs iters b =
     res_map (\<lambda>(q, ps). encode_pairs tk (replicate b q) (take b ps) EVAL_MAX_LEN None) (take iters reqs)"

definition seq_len :: "PairBatch \<Rightarrow> nat" where
  \<comment> \<open>\<open>shape[1]\<close> of the padded matrix\<close>
  "seq_len e = (case input_ids e of [] \<Rightarrow> 0 | r # _ \<Rightarrow> length r)"

definition latency_row :: "(real list \<Rightarrow> real \<Rightarrow> real) \<Rightarrow> nat \<Rightarrow> PairBatch list \<Rightarrow> real list \<times> real list \<Rightarrow> json res" where
  \<comment> \<open>one row of \<open>time_model\<close>; without a measurement the throughput divides by zero\<close>
  "latency_row percentile b feeds ts =
     (let (lat, tok) = ts; ms = map (\<lambda>x. x * 1000) lat in
      if sum_list lat = 0 then Inl ZeroDivisionError
      else Inr (JObj
        [(''batch'', JInt (int b)), (''requests'', JInt (int (length lat))), (''mean_ms'', JFloat (round_to 3 (mean_list ms))),
         (''p50_ms'', JFloat (round_to 3 (percentile ms 50))), (''p90_ms'', JFloat (round_to 3 (percentile ms 90))),
         (''p99_ms'', JFloat (round_to 3 (percentile ms 99))),
         (''pairs_per_s'', JFloat (round_to 1 (real (b * length lat) / sum_list lat))),
         (''mean_seq_len'', JFloat (round_to 1 (mean_list (map (\<lambda>f. real (seq_len f)) feeds)))),
         (''py_tokenize_mean_ms'', JFloat (round_to 3 (mean_list tok * 1000)))]))"

definition time_model :: "(real list \<Rightarrow> real \<Rightarrow> real) \<Rightarrow> clock \<Rightarrow> pair_tokenizer \<Rightarrow> (string \<times> string list) list \<Rightarrow> string \<Rightarrow> nat list \<Rightarrow>
    nat \<Rightarrow> nat \<Rightarrow> json list res" where
  "time_model percentile clk tk reqs variant batches threads iters =
     res_map (\<lambda>b. res_bind (bench_feeds tk reqs iters b) (\<lambda>feeds. latency_row percentile b feeds (clk variant threads b feeds))) batches"

definition threads_key :: "string \<Rightarrow> nat \<Rightarrow> string" where
  "threads_key variant threads = variant @ ''|threads='' @ str_nat threads"

definition bench_results :: "(real list \<Rightarrow> real \<Rightarrow> real) \<Rightarrow> clock \<Rightarrow> pair_tokenizer \<Rightarrow> (string \<times> string list) list \<Rightarrow> string list \<Rightarrow> nat list \<Rightarrow>
    nat list \<Rightarrow> nat \<Rightarrow> (string \<times> json) list res" where
  \<comment> \<open>over the model files that exist and the thread counts\<close>
  "bench_results percentile clk tk reqs variants batches threads iters =
     res_bind (res_map (\<lambda>(v, th). res_bind (time_model percentile clk tk reqs v batches th iters) (\<lambda>rows. Inr (threads_key v th, JArr rows)))
         (List.product variants threads)) (\<lambda>kvs. Inr (dict_of kvs))"

definition bench_json :: "string \<Rightarrow> string \<Rightarrow> (string \<times> json) list \<Rightarrow> json" where
  "bench_json name model_dir results = JObj [(''name'', JStr name), (''model_dir'', JStr model_dir), (''results'', JObj results)]"

definition bench_main :: "(real \<Rightarrow> string) \<Rightarrow> (real list \<Rightarrow> real \<Rightarrow> real) \<Rightarrow> clock \<Rightarrow> pair_tokenizer \<Rightarrow> string \<Rightarrow> string \<Rightarrow> string list \<Rightarrow>
    nat list \<Rightarrow> nat list \<Rightarrow> nat \<Rightarrow> (string option \<times> string option) list \<Rightarrow> string \<Rightarrow> string res" where
  \<comment> \<open>the text of \<open>bench_<name>.json\<close>; no batch size is a ValueError\<close>
  "bench_main rp percentile clk tk name model_dir variants batches threads iters srcs colf =
     (if batches = [] then Inl ValueError
      else res_bind (bench_requests (iters + 3) (Max (set batches)) srcs colf) (\<lambda>reqs.
        res_bind (bench_results percentile clk tk reqs variants batches threads iters) (\<lambda>rs.
          Inr (dumps_indent rp 0 (bench_json name model_dir rs) @ nl))))"

section \<open>Quality and latency by depth\<close>

definition json_is_nat :: "json \<Rightarrow> nat \<Rightarrow> bool" where
  \<comment> \<open>\<open>v == k\<close>\<close>
  "json_is_nat v k =
     (case v of JInt m \<Rightarrow> m = int k | JFloat x \<Rightarrow> x = real k | JBool b \<Rightarrow> (if b then 1 else 0) = k | _ \<Rightarrow> False)"

fun find_batch :: "nat \<Rightarrow> json list \<Rightarrow> json res" where
  \<comment> \<open>the first row of the batch; null when there is none\<close>
  "find_batch k [] = Inr JNull"
| "find_batch k (r # rs) =
     res_bind (json_key r ''batch'') (\<lambda>b. if json_is_nat b k then json_key r ''p50_ms'' else find_batch k rs)"

definition bench_latency :: "string option \<Rightarrow> string \<Rightarrow> nat \<Rightarrow> nat \<Rightarrow> json res" where
  \<comment> \<open>\<open>latency\<close> on the benchmark file, if it exists\<close>
  "bench_latency bench variant k threads =
     (case bench of
        None \<Rightarrow> Inr JNull
      | Some f \<Rightarrow>
          res_bind (loads f) (\<lambda>j. res_bind (json_key j ''results'') (\<lambda>rs.
          res_bind (json_get_or rs (threads_key variant threads) (JArr [])) (\<lambda>rows.
          res_bind (json_iter rows) (find_batch k)))))"

definition DEPTHS :: "nat list" where
  "DEPTHS = [10, 20, 50, 100, 200]"

record cascade_row =
  cr_split :: string
  cr_variant :: string
  cr_k :: nat
  cr_latency :: json
  cr_metrics :: "(string, real) dict"

type_synonym score_cache = "(qid \<times> docid \<times> real \<times> real) list"

definition cascade_rows :: "string option \<Rightarrow> nat \<Rightarrow> qrels \<Rightarrow> string \<Rightarrow> string \<times> string \<times> score_cache \<Rightarrow> cascade_row list res" where
  \<comment> \<open>the rows of one split and one variant of the model\<close>
  "cascade_rows bench threads qrels split vm =
     (let (var, onnx, cache) = vm in
      res_bind (cascade_quality cache qrels DEPTHS (metrics_for split)) (\<lambda>(q, _).
        res_map (\<lambda>k.
          res_bind (if k = 0 then Inr (JFloat 0) else bench_latency bench onnx k threads) (\<lambda>l.
            Inr \<lparr>cr_split = split, cr_variant = var, cr_k = k, cr_latency = l, cr_metrics = map (\<lambda>(m, v). (m, round_to 4 v)) (dget q k [])\<rparr>))
          (filter (dhas q) (0 # DEPTHS))))"

definition cascade_variants :: "(string \<Rightarrow> score_cache option) \<Rightarrow> string option \<Rightarrow> string option \<Rightarrow> string \<Rightarrow> (string \<times> string \<times> score_cache) list" where
  \<comment> \<open>the variants that are named and have a cache\<close>
  "cascade_variants scores name int8_name split =
     concat (map (\<lambda>(var, nm, onnx).
         case nm of
           None \<Rightarrow> []
         | Some x \<Rightarrow>
             if x = [] then []
             else (case scores (x @ ''.'' @ split @ ''.npz'') of None \<Rightarrow> [] | Some c \<Rightarrow> [(var, onnx, c)]))
       [(''fp32'', name, ''model.onnx''), (''int8'', int8_name, ''model.int8.onnx'')])"

definition cascade_table :: "(string \<Rightarrow> string option) \<Rightarrow> (string \<Rightarrow> score_cache option) \<Rightarrow> string option \<Rightarrow> string option \<Rightarrow> string option \<Rightarrow>
    nat \<Rightarrow> string list \<Rightarrow> cascade_row list res" where
  \<comment> \<open>the loop of \<open>main\<close>, over the file system of the repository and the score caches\<close>
  "cascade_table fs scores bench name int8_name threads splits =
     res_bind (res_map (\<lambda>split.
         res_bind (dlookup SPLITS split) (\<lambda>(_, qrels_path).
         case fs qrels_path of
           None \<Rightarrow> Inl FileNotFoundError
         | Some f \<Rightarrow>
             res_bind (read_qrels f) (\<lambda>qrels.
             res_bind (res_map (cascade_rows bench threads qrels split) (cascade_variants scores name int8_name split)) (\<lambda>rs.
               Inr (concat rs))))) splits) (\<lambda>rs. Inr (concat rs))"

definition cascade_row_json :: "cascade_row \<Rightarrow> json" where
  "cascade_row_json r =
     JObj ([(''split'', JStr (cr_split r)), (''variant'', JStr (cr_variant r)), (''k'', JInt (int (cr_k r))), (''latency_p50_ms'', cr_latency r)] @
           map (\<lambda>(m, v). (m, JFloat v)) (cr_metrics r))"

definition metrics_text :: "(string, real) dict \<Rightarrow> string" where
  \<comment> \<open>\<open>", ".join(f"{k} {v:.4f}" ...)\<close>\<close>
  "metrics_text ms = join_with '', '' (map (\<lambda>(m, v). m @ '' '' @ fmt_f 4 v) ms)"

definition cascade_line :: "cascade_row \<Rightarrow> string res" where
  "cascade_line r =
     res_bind (if cr_latency r = JNull then Inr ''-'' else json_fmt_f 1 (cr_latency r)) (\<lambda>lat.
       Inr (''| '' @ cr_split r @ '' | '' @ cr_variant r @ '' | '' @ (if cr_k r = 0 then ''none (first stage)'' else str_nat (cr_k r)) @ '' | '' @
            lat @ '' | '' @ metrics_text (filter (\<lambda>(m, _). CHR ''@'' \<in> set m) (cr_metrics r)) @ '' |''))"

definition cascade_main :: "(real \<Rightarrow> string) \<Rightarrow> (string \<Rightarrow> string option) \<Rightarrow> (string \<Rightarrow> score_cache option) \<Rightarrow> string option \<Rightarrow> string option \<Rightarrow>
    string option \<Rightarrow> nat \<Rightarrow> string list \<Rightarrow> (string \<times> string) res" where
  \<comment> \<open>the texts of \<open>cascade.json\<close> and \<open>cascade.md\<close>\<close>
  "cascade_main rp fs scores bench name int8_name threads splits =
     res_bind (cascade_table fs scores bench name int8_name threads splits) (\<lambda>table.
     res_bind (res_map cascade_line table) (\<lambda>ls.
       Inr (dumps_indent rp 0 (JArr (map cascade_row_json table)) @ nl,
            join_with nl ([''| split | variant | k | CPU p50 ms added | metrics |'', ''|---|---|---|---|---|''] @ ls) @ nl)))"

section \<open>The summary of all results\<close>

record summary_row =
  sm_file :: string
  sm_name :: json
  sm_split :: json
  sm_candidates :: json
  sm_depth :: json
  sm_queries :: json
  sm_backend :: string
  sm_metrics :: json
  sm_first :: json

definition summary_row_of :: "(json \<Rightarrow> string) \<Rightarrow> string \<times> string \<Rightarrow> summary_row res" where
  \<comment> \<open>a result file; \<open>ps\<close> is \<open>str\<close> of a value\<close>
  "summary_row_of ps f =
     res_bind (loads (snd f)) (\<lambda>d.
     res_bind (json_key d ''name'') (\<lambda>nm. res_bind (json_key d ''split'') (\<lambda>sp.
     res_bind (json_get_or d ''candidate_label'' JNull) (\<lambda>lab.
     res_bind (if json_truth lab then Inr lab else json_key d ''candidates'') (\<lambda>cand.
     res_bind (json_key d ''depth'') (\<lambda>dp. res_bind (json_key d ''n_queries_qrels'') (\<lambda>nq.
     res_bind (json_key d ''backend'') (\<lambda>be. res_bind (json_key d ''device'') (\<lambda>dv.
     res_bind (json_key d ''metrics'') (\<lambda>ms. res_bind (json_key d ''first_stage_metrics_at_depth'') (\<lambda>fst_ms.
       Inr \<lparr>sm_file = ''results/rerank/eval/'' @ fst f, sm_name = nm, sm_split = sp, sm_candidates = cand, sm_depth = dp, sm_queries = nq,
            sm_backend = ps be @ ''/'' @ ps dv, sm_metrics = ms, sm_first = fst_ms\<rparr>)))))))))))"

definition summary_rows :: "(json \<Rightarrow> string) \<Rightarrow> (string \<times> string) list \<Rightarrow> summary_row list res" where
  \<comment> \<open>over the files of the directory that end in \<open>.json\<close>, sidecars left out\<close>
  "summary_rows ps files =
     res_map (summary_row_of ps)
       (filter (\<lambda>(n, _). \<not> ends_with n ''.meta.json'') (py_sorted fst (filter (\<lambda>(n, _). ends_with n ''.json'') files)))"

definition metrics_cell :: "json \<Rightarrow> string res" where
  "metrics_cell v =
     res_bind (json_items v) (\<lambda>ms. res_bind (res_map (\<lambda>(m, x). res_bind (json_fmt_f 4 x) (\<lambda>t. Inr (m @ '' '' @ t))) ms) (\<lambda>ts. Inr (join_with '', '' ts)))"

definition summary_line :: "(json \<Rightarrow> string) \<Rightarrow> summary_row \<Rightarrow> string res" where
  "summary_line ps r =
     res_bind (metrics_cell (sm_metrics r)) (\<lambda>ms. res_bind (metrics_cell (sm_first r)) (\<lambda>fs.
       Inr (''| '' @ ps (sm_name r) @ '' | '' @ ps (sm_split r) @ '' | '' @ ps (sm_queries r) @ '' | '' @ ps (sm_depth r) @ '' | '' @
            sm_backend r @ '' | '' @ ms @ '' | '' @ fs @ '' | '' @ sm_file r @ '' |'')))"

definition json_str_of :: "json \<Rightarrow> string res" where
  \<comment> \<open>a sort key; the writers put strings here, and a value that cannot be compared with one raises\<close>
  "json_str_of v = (case v of JStr s \<Rightarrow> Inr s | _ \<Rightarrow> Inl TypeError)"

definition summary_md :: "(json \<Rightarrow> string) \<Rightarrow> summary_row list \<Rightarrow> string res" where
  "summary_md ps rs =
     res_bind (res_map (\<lambda>r. res_bind (json_str_of (sm_split r)) (\<lambda>s. res_bind (json_str_of (sm_name r)) (\<lambda>n. Inr ((s, n), r)))) rs) (\<lambda>ks.
     res_bind (res_map (summary_line ps) (map snd (py_sorted fst ks))) (\<lambda>ls.
       Inr (join_with nl
         ([''| model.candidates | split | queries | depth | backend | reranked | first stage | file |'', ''|---|---|---|---|---|---|---|---|''] @ ls) @ nl)))"

section \<open>The cascade reads what the benchmark measured\<close>

lemma threads_key_inject: "threads_key v th = threads_key v' th' \<Longrightarrow> v = v' \<and> th = th'"
proof -
  assume eq: "threads_key v th = threads_key v' th'"
  have tail: "rev (takeWhile is_digit_char (rev (threads_key w n))) = str_nat n" for w n
  proof -
    have "rev (threads_key w n) = rev (str_nat n) @ rev (w @ ''|threads='')" by (simp add: threads_key_def)
    moreover have "\<not> is_digit_char (CHR ''='')" by (simp add: is_digit_char_def code_def)
    moreover have "is_digit_char c" if "c \<in> set (rev (str_nat n))" for c using that str_nat_digits [of n] by (simp add: list_all_iff)
    ultimately show ?thesis using takeWhile_append2 [of "rev (str_nat n)" is_digit_char "rev (w @ ''|threads='')"] by simp
  qed
  have "str_nat th = str_nat th'" using tail [of v th] tail [of v' th'] eq by simp
  then show ?thesis using eq by (simp add: threads_key_def)
qed

lemma map_of_dict_of_unique:
  "(k, v) \<in> set kvs \<Longrightarrow> (\<And>w. (k, w) \<in> set kvs \<Longrightarrow> w = v) \<Longrightarrow> map_of (dict_of kvs) k = Some v"
proof -
  assume a: "(k, v) \<in> set kvs" "\<And>w. (k, w) \<in> set kvs \<Longrightarrow> w = v"
  have "k \<in> fst ` set (rev kvs)" using a(1) by force
  then obtain w where w: "map_of (rev kvs) k = Some w" by (metis map_of_eq_None_iff not_None_eq)
  then have "(k, w) \<in> set kvs" using map_of_SomeD by fastforce
  then show ?thesis using a(2) w by (simp add: map_of_dict_of)
qed

lemma find_batch_row:
  assumes "res_map (\<lambda>b. res_bind (g b) (\<lambda>feeds. latency_row percentile b feeds (c b feeds))) bs = Inr rws" and "k \<in> set bs"
  shows "\<exists>feeds. g k = Inr feeds \<and> find_batch k rws = Inr (JFloat (round_to 3 (percentile (map (\<lambda>x. x * 1000) (fst (c k feeds))) 50)))"
  using assms
proof (induction bs arbitrary: rws)
  case (Cons b bs)
  then obtain feeds row rest where f: "g b = Inr feeds" "latency_row percentile b feeds (c b feeds) = Inr row"
    and rest: "res_map (\<lambda>b. res_bind (g b) (\<lambda>feeds. latency_row percentile b feeds (c b feeds))) bs = Inr rest" and rws: "rws = row # rest"
    by auto
  have row: "json_key row ''batch'' = Inr (JInt (int b))"
    "json_key row ''p50_ms'' = Inr (JFloat (round_to 3 (percentile (map (\<lambda>x. x * 1000) (fst (c b feeds))) 50)))"
    using f(2) by (auto simp: latency_row_def Let_def json_key_def dlookup_def case_prod_unfold split: if_splits)
  show ?case
  proof (cases "b = k")
    case True
    then show ?thesis using f(1) row by (simp add: rws json_is_nat_def)
  next
    case False
    then show ?thesis using Cons.IH [OF rest] Cons.prems(2) row by (simp add: rws json_is_nat_def)
  qed
qed simp

text \<open>The latency that the cascade table shows for a model file, a thread count and a depth is the rounded median of the
  times that the benchmark measured for exactly that file, thread count and batch size, through the JSON text of the
  benchmark file.\<close>
lemma cascade_reads_bench:
  assumes run: "bench_main rp percentile clk tk name model_dir variants batches threads iters srcs colf = Inr out"
    and floats: "\<And>reqs rs. bench_results percentile clk tk reqs variants batches threads iters = Inr rs \<Longrightarrow> json_back rp (JObj rs)"
    and v: "v \<in> set variants" "th \<in> set threads" "k \<in> set batches"
  shows "\<exists>reqs feeds. bench_requests (iters + 3) (Max (set batches)) srcs colf = Inr reqs \<and> bench_feeds tk reqs iters k = Inr feeds \<and>
    bench_latency (Some out) v k th = Inr (JFloat (round_to 3 (percentile (map (\<lambda>x. x * 1000) (fst (clk v th k feeds))) 50)))"
proof -
  obtain reqs rs where reqs: "bench_requests (iters + 3) (Max (set batches)) srcs colf = Inr reqs"
    and rs: "bench_results percentile clk tk reqs variants batches threads iters = Inr rs"
    and out: "out = dumps_indent rp 0 (bench_json name model_dir rs) @ nl"
    using run by (auto simp: bench_main_def split: if_splits)
  let ?f = "\<lambda>(v, th). res_bind (time_model percentile clk tk reqs v batches th iters) (\<lambda>rws. Inr (threads_key v th, JArr rws))"
  obtain kvs where kvs: "res_map ?f (List.product variants threads) = Inr kvs" and d: "rs = dict_of kvs"
    using rs by (auto simp: bench_results_def)
  have in_kvs: "\<exists>rws. time_model percentile clk tk reqs v batches th iters = Inr rws \<and> (threads_key v th, JArr rws) \<in> set kvs"
    using kvs v(1,2)
  proof -
    have "(v, th) \<in> set (List.product variants threads)" using v by simp
    then obtain i where i: "i < length (List.product variants threads)" "List.product variants threads ! i = (v, th)" by (metis in_set_conv_nth)
    then have "?f (v, th) = Inr (kvs ! i)" using res_map_Inr_nth [OF kvs i(1)] by simp
    moreover have "kvs ! i \<in> set kvs" using i(1) res_map_Inr_length [OF kvs] by simp
    ultimately show ?thesis by auto
  qed
  then obtain rws where rws: "time_model percentile clk tk reqs v batches th iters = Inr rws" "(threads_key v th, JArr rws) \<in> set kvs" by blast
  have "w = JArr rws" if "(threads_key v th, w) \<in> set kvs" for w
    using res_map_Inr_set [OF kvs that] rws(1) by (auto dest!: threads_key_inject)
  then have found: "map_of rs (threads_key v th) = Some (JArr rws)" unfolding d using rws(2) by (rule map_of_dict_of_unique [rotated])
  obtain feeds where feeds: "bench_feeds tk reqs iters k = Inr feeds"
    "find_batch k rws = Inr (JFloat (round_to 3 (percentile (map (\<lambda>x. x * 1000) (fst (clk v th k feeds))) 50)))"
    using find_batch_row [of "bench_feeds tk reqs iters" percentile "clk v th" batches rws k] rws(1) v(3) by (auto simp: time_model_def)
  have "loads out = Inr (bench_json name model_dir rs)"
    unfolding out by (rule loads_dumps_indent) (use floats [OF rs] in \<open>simp add: bench_json_def\<close>)
  then have "bench_latency (Some out) v k th = find_batch k rws"
    by (simp add: bench_latency_def bench_json_def json_key_def dlookup_def json_get_or_def dget_def found json_iter_def)
  then show ?thesis using reqs feeds by auto
qed

section \<open>A cascade over all candidates has the quality of the reranked run\<close>

lemma evaluate_cong:
  assumes "\<And>q. rank_run (dget r q []) = rank_run (dget r' q [])"
  shows "evaluate r qrels ms = evaluate r' qrels ms"
proof -
  have "evaluate_query r = evaluate_query r'" by (intro ext) (simp add: evaluate_query_def assms)
  then show ?thesis by (simp add: evaluate_def)
qed

lemma head_is_ranking:
  assumes "distinct (map fst v)" and "distinct (map (\<lambda>(p, x, s). x) v)" and "length v \<le> k"
  shows "rank_run (cascade_run k v) = rank_run (map (\<lambda>(p, x, s). (p, x)) v)"
proof -
  let ?h = "py_sorted (\<lambda>(p, x, s). - x) v" and ?d = "map (\<lambda>(p, x, s). (p, x)) v"
  have ok: "dict_ok ?d" using assms(1) by (simp add: comp_def case_prod_unfold)
  have perm: "mset ?h = mset v" by (simp add: sort_simps)
  have dx: "distinct (map (\<lambda>(p, x, s). x) ?h)" using assms(2) perm by (metis mset_eq_imp_distinct_iff mset_map)
  have "sorted (map (\<lambda>(p, x, s). - x) ?h)" by (rule sorted_asc.rank_sorted)
  then have "sorted_wrt (\<lambda>a b. fst (snd b) \<le> fst (snd a)) ?h"
    by (simp only: sorted_map) (elim sorted_wrt_mono_rel [rotated], auto simp: case_prod_unfold)
  moreover have "sorted_wrt (\<lambda>a b. fst (snd b) \<noteq> fst (snd a)) ?h"
    using dx by (auto simp: distinct_conv_nth sorted_wrt_iff_nth_less case_prod_unfold)
  ultimately have "sorted_wrt (\<lambda>a b. fst (snd b) < fst (snd a)) ?h"
    by (auto simp: sorted_wrt_iff_nth_less order_le_neq_trans)
  moreover have "dget ?d (fst a) 0 = fst (snd a)" if "a \<in> set ?h" for a
  proof -
    have "a \<in> set v" using that by (simp add: sort_simps)
    then have "(\<lambda>(p, x, s). (p, x)) a \<in> set ?d" by simp
    then have "(fst a, fst (snd a)) \<in> set ?d" by (simp add: case_prod_unfold)
    then show ?thesis by (rule dget_present [OF ok])
  qed
  ultimately have "sorted_wrt (before ?d) (map fst ?h)"
    unfolding sorted_wrt_map by (elim sorted_wrt_mono_rel [rotated]) (simp add: before_def)
  moreover have "set (map fst ?h) = set (keys ?d)" by (force simp: sort_simps)
  ultimately have "map fst ?h = rank_run ?d" by (intro rank_run_unique [OF ok])
  moreover have "rerank_head k v = ?h" using assms(3) by (simp add: rerank_head_def case_prod_unfold)
  ultimately show ?thesis using cascade_run_rank [OF assms(1), of k] by simp
qed

lemma nested_of:
  "dget (foldl (\<lambda>r ((q, p, s), x). add_nested r q p x) [] zs) q [] = dict_of (map (\<lambda>((q, p, s), x). (p, x)) (filter (\<lambda>z. fst (fst z) = q) zs))"
proof (induction zs rule: rev_induct)
  case (snoc z zs)
  then show ?case by (auto simp: add_nested_def dict_of_def split: prod.splits)
qed (simp add: dict_of_def)

lemma per_query_rows_of: "dget (per_query_rows c) q [] = map snd (filter (\<lambda>x. fst x = q) c)"
proof -
  have "dget (map (\<lambda>(q, rs). (q, map snd rs)) d) q [] = map snd (dget d q [])" for d :: "(qid, (qid \<times> docid \<times> real \<times> real) list) dict"
    by (induction d) auto
  then show ?thesis by (simp add: per_query_rows_def dget_group_by)
qed

lemma per_query_rows_ok: "dict_ok (per_query_rows c)"
  using group_by_ok [of fst c] by (simp add: per_query_rows_def comp_def case_prod_unfold)

lemma cascade_depths_values:
  "cascade_depths pq qrels ms ks = Inr out \<Longrightarrow> (k, agg) \<in> set out \<Longrightarrow>
     \<exists>p. evaluate (map (\<lambda>(q, v). (q, cascade_run k v)) pq) qrels (Some ms) = Inr (agg, p)"
  by (induction ks arbitrary: out) (auto split: if_splits)

lemma cascade_depths_keys:
  "cascade_depths pq qrels ms ks = Inr out \<Longrightarrow> map fst out = filter (\<lambda>k. k \<le> Max (set (map (length \<circ> snd) pq))) ks"
  by (induction ks arbitrary: out) (auto split: if_splits)

lemma foldl_dset_other: "k \<notin> fst ` set out \<Longrightarrow> dget (foldl (\<lambda>d (k, v). dset d k v) d out) k z = dget d k z"
proof (induction out arbitrary: d)
  case (Cons p out)
  then show ?case by (cases p) auto
qed simp

lemma foldl_dset_value:
  assumes "k \<in> fst ` set out" and "\<And>v. (k, v) \<in> set out \<Longrightarrow> v = a"
  shows "dget (foldl (\<lambda>d (k, v). dset d k v) d out) k z = a"
proof -
  obtain v where v: "map_of (rev out) k = Some v" using assms(1) by (metis map_of_eq_None_iff not_None_eq set_rev)
  then have "v = a" using assms(2) map_of_SomeD by fastforce
  then show ?thesis using v by (simp add: dget_def foldl_dset_map_of)
qed

lemma score_length: "score model Q P batch = Inr out \<Longrightarrow> length out = length Q"
proof -
  have "length (foldl (score_slice model Q P) a idxs) = length a" for a idxs
    by (induction idxs arbitrary: a) (simp_all add: score_slice_def)
  then show "score model Q P batch = Inr out \<Longrightarrow> length out = length Q" by (auto simp: score_def split: if_splits)
qed

lemma iter_run_groups_dicts:
  assumes "iter_run_groups f mh = Inr gs"
  shows "list_all (dict_ok \<circ> snd) gs"
proof -
  define ok where "ok st \<longleftrightarrow> list_all (dict_ok \<circ> snd) (gr_out st) \<and> dict_ok (gr_hits st)" for st :: groups
  obtain st where st: "res_fold (group_line mh) \<lparr>gr_seen = {}, gr_cur = None, gr_hits = [], gr_out = []\<rparr> (text_lines f) = Inr st" "gs = flush st"
    using assms by (auto simp: iter_run_groups_def)
  have fl: "ok st \<Longrightarrow> list_all (dict_ok \<circ> snd) (flush st)" for st by (simp add: ok_def flush_def split: option.split)
  have "ok st"
  proof (rule res_fold_invariant [OF st(1)])
    show "ok \<lparr>gr_seen = {}, gr_cur = None, gr_hits = [], gr_out = []\<rparr>" by (simp add: ok_def)
    show "ok s'" if "ok s" "group_line mh s l = Inr s'" for s l s'
      using that fl [OF that(1)] unfolding group_line_def
      by (auto simp: ok_def split: list.split_asm if_split_asm)
  qed
  then show ?thesis unfolding st(2) by (rule fl)
qed

lemma load_candidates_query:
  assumes "load_candidates f qids depth = Inr cands" and "iter_run_groups f None = Inr gs"
  shows "dget cands q [] = [] \<or> (\<exists>hits. (q, hits) \<in> set gs \<and> dget cands q [] = take depth (py_sorted_rev (\<lambda>(d, s). (s, d)) hits))"
proof (cases "map_of cands q")
  case (Some h)
  have "cands = dict_of (map (\<lambda>(q, hits). (q, take depth (py_sorted_rev (\<lambda>(d, s). (s, d)) hits))) (filter (\<lambda>(q, hits). q \<in> qids) gs))"
    using assms by (simp add: load_candidates_def)
  then have "(q, h) \<in> set (map (\<lambda>(q, hits). (q, take depth (py_sorted_rev (\<lambda>(d, s). (s, d)) hits))) (filter (\<lambda>(q, hits). q \<in> qids) gs))"
    using Some by (metis map_of_SomeD map_of_dict_of set_rev)
  then show ?thesis using Some by (auto simp: dget_def)
qed (simp add: dget_def)

lemma load_candidates_ok:
  assumes "load_candidates f qids depth = Inr cands"
  shows "dict_ok cands \<and> distinct (map fst (dget cands q [])) \<and> length (dget cands q []) \<le> depth"
proof -
  obtain gs where gs: "iter_run_groups f None = Inr gs" and c: "dict_ok cands"
    using assms dict_ok_dict_of by (auto simp: load_candidates_def)
  show ?thesis
    using load_candidates_query [OF assms gs, of q] iter_run_groups_dicts [OF gs] c
    by (auto simp: list_all_iff sort_simps take_map [symmetric])
qed

lemma filter_groups:
  "distinct qs \<Longrightarrow> filter (\<lambda>x. fst x = q) (concat (map (\<lambda>q. map (\<lambda>(p, s). (q, p, s)) (g q)) qs)) = (if q \<in> set qs then map (\<lambda>(p, s). (q, p, s)) (g q) else [])"
proof (induction qs)
  case (Cons a qs)
  have "filter (\<lambda>x. fst x = q) (map (\<lambda>(p, s). (a, p, s)) (g a)) = (if a = q then map (\<lambda>(p, s). (a, p, s)) (g a) else [])"
    by (auto simp: filter_map comp_def case_prod_unfold filter_empty_conv)
  then show ?case using Cons by auto
qed simp

lemma pairs_of_query:
  assumes "pairs_of cands = Inr ps" and "dict_ok cands"
  shows "filter (\<lambda>x. fst x = q) ps = map (\<lambda>(p, s). (q, p, s)) (dget cands q [])"
proof -
  obtain qs where qs: "int_sorted (keys cands) = Inr qs" and ps: "ps = concat (map (\<lambda>q. map (\<lambda>(p, s). (q, p, s)) (dget cands q [])) qs)"
    using assms(1) by (auto simp: pairs_of_def)
  have m: "mset qs = mset (keys cands)" using qs by (rule int_sorted_mset)
  then have "distinct qs" using assms(2) by (metis mset_eq_imp_distinct_iff)
  moreover have "dget cands q [] = []" if "q \<notin> set qs" using that m by (intro dget_absent) (metis mset_eq_setD)
  ultimately show ?thesis unfolding ps by (subst filter_groups) auto
qed

definition pair_row :: "(real \<Rightarrow> real) \<Rightarrow> (qid \<times> docid \<times> real) \<times> real \<Rightarrow> qid \<times> docid \<times> real \<times> real" where
  "pair_row nar = (\<lambda>((q, p, s), x). (q, p, x, nar s))"

lemma pair_rows_query:
  fixes nar :: "real \<Rightarrow> real"
  assumes "load_candidates cf qids depth = Inr cands" and "pairs_of cands = Inr ps" and "length scores = length ps"
  defines "v q \<equiv> map snd (filter (\<lambda>x. fst x = q) (map (pair_row nar) (zip ps scores)))"
  shows "map (\<lambda>(p, x, s). (p, s)) (v q) = map (\<lambda>(p, s). (p, nar s)) (dget cands q [])" and "distinct (map fst (v q))" and "length (v q) \<le> depth"
    and "dget (foldl (\<lambda>r ((q, p, s), x). add_nested r q p x) [] (zip ps scores)) q [] = map (\<lambda>(p, x, s). (p, x)) (v q)"
proof -
  note c = load_candidates_ok [OF assms(1), of q]
  let ?z = "filter (\<lambda>z. fst (fst z) = q) (zip ps scores)"
  have v: "v q = map (\<lambda>((q, p, s), x). (p, x, nar s)) ?z"
    by (simp add: v_def filter_map comp_def pair_row_def case_prod_unfold)
  have "map fst ?z = filter (\<lambda>x. fst x = q) (map fst (zip ps scores))" by (simp add: filter_map comp_def)
  then have z: "map fst ?z = map (\<lambda>(p, s). (q, p, s)) (dget cands q [])"
    using pairs_of_query [OF assms(2), of q] c assms(3) by simp
  have "map (\<lambda>(p, x, s). (p, s)) (v q) = map (\<lambda>(q, p, s). (p, nar s)) (map fst ?z)" by (simp add: v comp_def case_prod_unfold)
  also have "\<dots> = map (\<lambda>(p, s). (p, nar s)) (dget cands q [])" unfolding z by (simp add: comp_def case_prod_unfold)
  finally show s: "map (\<lambda>(p, x, s). (p, s)) (v q) = map (\<lambda>(p, s). (p, nar s)) (dget cands q [])" .
  have "map fst (v q) = map fst (map (\<lambda>(p, x, s). (p, s)) (v q))" by (simp add: comp_def case_prod_unfold)
  then show d: "distinct (map fst (v q))" unfolding s using c by (simp add: comp_def case_prod_unfold)
  have "length (v q) = length (map (\<lambda>(p, x, s). (p, s)) (v q))" by simp
  then show "length (v q) \<le> depth" unfolding s using c by simp
  have "distinct (map fst (map (\<lambda>((q, p, s), x). (p, x)) ?z))" using d by (simp add: v comp_def case_prod_unfold)
  then show "dget (foldl (\<lambda>r ((q, p, s), x). add_nested r q p x) [] (zip ps scores)) q [] = map (\<lambda>(p, x, s). (p, x)) (v q)"
    unfolding nested_of by (subst dict_of_distinct) (simp_all add: v comp_def case_prod_unfold)
qed

lemma rerank_parts:
  assumes "rerank nar model clip name split qf qrf cf colf depth batch mq = Inr r"
  obtains qids qrels cands ps scores agg base p1 p2 where
    "\<exists>queries qrels0. read_queries qf = Inr queries \<and> read_qrels qrf = Inr qrels0 \<and> judged_queries queries qrels0 mq = Inr (qids, qrels)"
    "load_candidates cf (set qids) depth = Inr cands" "pairs_of cands = Inr ps" "length scores = length ps"
    "evaluate (foldl (\<lambda>r ((q, p, s), x). add_nested r q p x) [] (zip ps scores)) qrels (Some (metrics_for split)) = Inr (agg, p1)"
    "evaluate (map (\<lambda>(q, h). (q, dict_of h)) cands) qrels (Some (metrics_for split)) = Inr (base, p2)"
    "rr_metrics r = map (\<lambda>(k, v). (k, round_to 4 v)) agg" "rr_first_stage r = map (\<lambda>(k, v). (k, round_to 4 v)) base"
    "rr_cache r = map (pair_row nar) (zip ps scores)"
proof -
  have parts: "\<exists>queries qrels0 qids qrels cands ps scores agg base p1 p2.
      read_queries qf = Inr queries \<and> read_qrels qrf = Inr qrels0 \<and> judged_queries queries qrels0 mq = Inr (qids, qrels) \<and>
      load_candidates cf (set qids) depth = Inr cands \<and> pairs_of cands = Inr ps \<and> length scores = length ps \<and>
      evaluate (foldl (\<lambda>r ((q, p, s), x). add_nested r q p x) [] (zip ps scores)) qrels (Some (metrics_for split)) = Inr (agg, p1) \<and>
      evaluate (map (\<lambda>(q, h). (q, dict_of h)) cands) qrels (Some (metrics_for split)) = Inr (base, p2) \<and>
      rr_metrics r = map (\<lambda>(k, v). (k, round_to 4 v)) agg \<and> rr_first_stage r = map (\<lambda>(k, v). (k, round_to 4 v)) base \<and>
      rr_cache r = map (pair_row nar) (zip ps scores)"
    using assms unfolding rerank_def Let_def
    by (auto simp: pair_row_def case_prod_unfold dest!: score_length split: if_splits) (intro exI conjI; (assumption | rule refl))
  then show ?thesis using that by blast
qed

lemma rank_run_mono:
  assumes "dict_ok d" and "strict_mono_on (snd ` set d) h"
  shows "rank_run (map (\<lambda>(p, s). (p, h s)) d) = rank_run d"
proof -
  let ?d = "map (\<lambda>(p, s). (p, h s)) d"
  have ok: "dict_ok ?d" using assms(1) by (simp add: comp_def case_prod_unfold)
  have at: "(a, dget d a 0) \<in> set d" if "a \<in> set (keys d)" for a using that by (rule dget_in)
  have val: "dget ?d a 0 = h (dget d a 0)" if "a \<in> set (keys d)" for a
    by (rule dget_present [OF ok]) (use at [OF that] in force)
  have "before ?d a b" if "before d a b" "a \<in> set (keys d)" "b \<in> set (keys d)" for a b
  proof -
    have "dget d a 0 \<in> snd ` set d" "dget d b 0 \<in> snd ` set d" using at that(2,3) by force+
    then show ?thesis using that strict_mono_onD [OF assms(2)] by (auto simp: before_def val)
  qed
  then have "sorted_wrt (before ?d) (rank_run d)"
    using rank_run_sorted [OF assms(1)] by (elim sorted_wrt_mono_rel [rotated]) (auto simp: rank_run_keys)
  then have "rank_run d = rank_run ?d"
    by (intro rank_run_unique ok) (auto simp: rank_run_keys comp_def case_prod_unfold image_image)
  then show ?thesis ..
qed

text \<open>Scores that are one 32-bit float are told apart by the document ids alone, against the order of the first stage.\<close>
lemma narrowed_tie:
  assumes "nar (32000001 / 1000000) = 32" and "nar 32 = 32"
  shows "rank_run [(''7'', 32000001 / 1000000), (''8'', 32)] = [''7'', ''8''] \<and>
    rank_run (map (\<lambda>(p, s). (p, nar s)) [(''7'', 32000001 / 1000000), (''8'', 32)]) = [''8'', ''7'']"
  by (simp add: rank_run_def py_sorted_rev_def py_sorted_def assms less_eq_prod_def)

text \<open>C37: the two programs agree: when the model's scores within each query are distinct, the cascade at the depth at which
  the run was reranked has exactly the metrics of the reranked run, and at depth 0 it has those of the first stage as long as
  rounding to 32-bit floats, as the score cache does, keeps each query's first-stage scores apart and in order; both are computed
  from the cache alone.\<close>
theorem cascade_full_depth_is_rerank:
  assumes run: "rerank nar model clip name split qf qrf cf colf depth batch None = Inr r" and qrels: "read_qrels qrf = Inr qrels"
    and groups: "iter_run_groups cf None = Inr gs"
    and cas: "cascade_quality (rr_cache r) qrels depths (metrics_for split) = Inr (qual, avail)"
    and scores: "\<And>q. distinct (map (\<lambda>(q, p, x, s). x) (filter (\<lambda>c. fst c = q) (rr_cache r)))"
    and depth: "depth \<in> set depths" "0 \<notin> set depths" and full: "depth \<le> length (filter (\<lambda>c. fst c = q0) (rr_cache r))"
  shows "map (\<lambda>(m, v). (m, round_to 4 v)) (dget qual depth []) = rr_metrics r \<and>
    ((\<forall>(q, hits) \<in> set gs. strict_mono_on (snd ` set hits) nar) \<longrightarrow>
     map (\<lambda>(m, v). (m, round_to 4 v)) (dget qual 0 []) = rr_first_stage r)"
proof -
  let ?ms = "Some (metrics_for split)"
  obtain qids qrels' cands ps xs agg base p1 p2 where
      q: "\<exists>queries qrels0. read_queries qf = Inr queries \<and> read_qrels qrf = Inr qrels0 \<and> judged_queries queries qrels0 None = Inr (qids, qrels')"
    and c: "load_candidates cf (set qids) depth = Inr cands" and ps: "pairs_of cands = Inr ps" and l: "length xs = length ps"
    and ev: "evaluate (foldl (\<lambda>r ((q, p, s), x). add_nested r q p x) [] (zip ps xs)) qrels' ?ms = Inr (agg, p1)"
      "evaluate (map (\<lambda>(q, h). (q, dict_of h)) cands) qrels' ?ms = Inr (base, p2)"
    and r: "rr_metrics r = map (\<lambda>(k, v). (k, round_to 4 v)) agg" "rr_first_stage r = map (\<lambda>(k, v). (k, round_to 4 v)) base"
      "rr_cache r = map (pair_row nar) (zip ps xs)"
    by (rule rerank_parts [OF run])
  have qr: "qrels' = qrels" using q qrels by (auto simp: judged_queries_def)
  define pq where "pq = per_query_rows (rr_cache r)"
  note rows_q = pair_rows_query [OF c ps l, where nar = nar, folded r(3)]
  have v: "dget pq q [] = map snd (filter (\<lambda>x. fst x = q) (rr_cache r))" for q by (simp add: pq_def per_query_rows_of)
  have x: "distinct (map (\<lambda>(p, x, s). x) (dget pq q []))" for q using scores [of q] by (simp add: v comp_def case_prod_unfold)
  have top_run: "evaluate (map (\<lambda>(q, v). (q, cascade_run depth v)) pq) qrels ?ms = Inr (agg, p1)"
  proof -
    have "dget (map (\<lambda>(q, v). (q, cascade_run depth v)) pq) q [] = cascade_run depth (dget pq q [])" for q
      by (rule dget_map_values) (simp add: cascade_run_def rerank_head_def py_sorted_def dict_of_def)
    moreover have "rank_run (cascade_run depth (dget pq q [])) = rank_run (map (\<lambda>(p, x, s). (p, x)) (dget pq q []))" for q
      by (rule head_is_ranking [OF _ x]) (simp_all only: v rows_q(2,3))
    ultimately have "rank_run (dget (map (\<lambda>(q, v). (q, cascade_run depth v)) pq) q []) =
        rank_run (dget (foldl (\<lambda>r ((q, p, s), x). add_nested r q p x) [] (zip ps xs)) q [])" for q
      by (simp only: v rows_q(4))
    from evaluate_cong [OF this] show ?thesis using ev(1) unfolding qr by simp
  qed
  have base_run: "evaluate (map (\<lambda>(q, v). (q, dict_of (map (\<lambda>(p, _, f). (p, f)) v))) pq) qrels ?ms = Inr (base, p2)"
    if keep: "\<forall>(q, hits) \<in> set gs. strict_mono_on (snd ` set hits) nar"
  proof -
    have "rank_run (dget (map (\<lambda>(q, v). (q, dict_of (map (\<lambda>(p, _, f). (p, f)) v))) pq) q []) =
        rank_run (dget (map (\<lambda>(q, h). (q, dict_of h)) cands) q [])" for q
    proof -
      have "dget (map (\<lambda>(q, v). (q, dict_of (map (\<lambda>(p, _, f). (p, f)) v))) pq) q [] = dict_of (map (\<lambda>(p, _, f). (p, f)) (dget pq q []))"
        by (rule dget_map_values) (simp add: dict_of_def)
      moreover have "dget (map (\<lambda>(q, h). (q, dict_of h)) cands) q [] = dict_of (dget cands q [])"
        by (rule dget_map_values) (simp add: dict_of_def)
      moreover have "strict_mono_on (snd ` set (dget cands q [])) nar"
      proof -
        consider "dget cands q [] = []"
          | hits where "(q, hits) \<in> set gs" "dget cands q [] = take depth (py_sorted_rev (\<lambda>(d, s). (s, d)) hits)"
          using load_candidates_query [OF c groups, of q] by blast
        then show ?thesis
        proof cases
          case 2
          have "set (dget cands q []) \<subseteq> set hits"
            unfolding 2(2) using set_take_subset [of depth "py_sorted_rev (\<lambda>(d, s). (s, d)) hits"] by (simp add: sort_simps)
          moreover have "strict_mono_on (snd ` set hits) nar" using keep 2(1) by blast
          ultimately show ?thesis by (elim monotone_on_subset) (rule image_mono)
        qed simp
      qed
      moreover have "dict_ok (dget cands q [])" using load_candidates_ok [OF c] by blast
      moreover have "dict_of (map (\<lambda>(p, s). (p, nar s)) (dget cands q [])) = map (\<lambda>(p, s). (p, nar s)) (dget cands q [])"
        using load_candidates_ok [OF c, of q] by (intro dict_of_distinct) (simp add: comp_def case_prod_unfold)
      ultimately show ?thesis by (simp only: v rows_q(1) rank_run_mono dict_of_distinct)
    qed
    from evaluate_cong [OF this] show ?thesis using ev(2) unfolding qr by simp
  qed
  obtain out base' p3 where ne: "pq \<noteq> []" and out: "cascade_depths pq qrels (metrics_for split) depths = Inr out"
    and base': "evaluate (map (\<lambda>(q, v). (q, dict_of (map (\<lambda>(p, _, f). (p, f)) v))) pq) qrels ?ms = Inr (base', p3)"
    and qual: "qual = foldl (\<lambda>d (k, v). dset d k v) [(0, base')] out"
    using cas by (auto simp: cascade_quality_def Let_def pq_def case_prod_unfold split: if_splits)
  have "depth \<in> fst ` set out"
  proof -
    have "q0 \<in> set (keys pq) \<or> depth = 0" using full dget_absent [of q0 pq "[]"] v [of q0] by fastforce
    then have "q0 \<in> set (keys pq)" using depth by auto
    then have "(q0, dget pq q0 []) \<in> set pq" by (rule dget_in)
    then have "(length \<circ> snd) (q0, dget pq q0 []) \<in> set (map (length \<circ> snd) pq)" by (simp only: set_map) (rule imageI)
    then have "length (dget pq q0 []) \<le> Max (set (map (length \<circ> snd) pq))" by (intro Max_ge) simp_all
    moreover have "depth \<le> length (dget pq q0 [])" using full by (simp add: v)
    ultimately have "depth \<le> Max (set (map (length \<circ> snd) pq))" by simp
    then have "depth \<in> set (map fst out)" using depth(1) by (simp add: cascade_depths_keys [OF out])
    then show ?thesis by simp
  qed
  moreover have "w = agg" if "(depth, w) \<in> set out" for w using cascade_depths_values [OF out that] top_run by auto
  ultimately have "dget qual depth [] = agg" unfolding qual by (intro foldl_dset_value) auto
  moreover have "0 \<notin> set (map fst out)" using depth(2) by (simp add: cascade_depths_keys [OF out])
  then have "dget qual 0 [] = base'" by (simp add: qual foldl_dset_other)
  ultimately show ?thesis using r base' base_run by auto
qed

definition demo_rerank_files :: "string list" where
  \<comment> \<open>queries, judgments, candidates and collection\<close>
  "demo_rerank_files =
     [''1'' @ tab @ ''a'' @ nl, ''1 0 7 1'' @ nl, ''1 Q0 7 1 9 t'' @ nl @ ''1 Q0 8 2 8 t'' @ nl, ''7'' @ tab @ ''x'' @ nl @ ''8'' @ tab @ ''xyz'' @ nl]"

definition demo_nar :: "real \<Rightarrow> real" where
  \<comment> \<open>rounding to multiples of \<open>2^-18\<close>, the spacing of 32-bit floats between 32 and 64\<close>
  "demo_nar x = of_int (round (x * 262144)) / 262144"

lemma demo_nar_integers [simp]: "demo_nar 8 = 8" "demo_nar 9 = 9"
proof -
  have "round (8 * 262144 :: real) = 8 * 262144" "round (9 * 262144 :: real) = 9 * 262144"
    using round_of_int [of "8 * 262144", where ?'a = real] round_of_int [of "9 * 262144", where ?'a = real] by simp_all
  then show "demo_nar 8 = 8" "demo_nar 9 = 9" by (simp_all add: demo_nar_def)
qed

definition demo_pair_model :: "string list \<Rightarrow> string list \<Rightarrow> real list" where
  "demo_pair_model qs ps = map (\<lambda>p. real (length p)) ps"

lemma evaluate_dev: "\<exists>agg p. evaluate run qrels (Some (metrics_for ''dev'')) = Inr (agg, p)"
proof -
  have "case res_map parse_metric (metrics_for ''dev'') of Inr ms \<Rightarrow> True | Inl e \<Rightarrow> False" by code_simp
  then have "\<exists>ms. res_map parse_metric (metrics_for ''dev'') = Inr ms" by (auto split: sum.splits)
  moreover have "metrics_for ''dev'' \<noteq> []" by (simp add: metrics_for_def)
  ultimately show ?thesis by (auto simp: evaluate_def Let_def)
qed

lemma demo_groups: "iter_run_groups (demo_rerank_files ! 2) None = Inr [(''1'', [(''7'', 9), (''8'', 8)])]"
proof -
  have ls: "text_lines (demo_rerank_files ! 2) = [''1 Q0 7 1 9 t'' @ nl, ''1 Q0 8 2 8 t'' @ nl]"
    "split_ws (''1 Q0 7 1 9 t'' @ nl) = [''1'', ''Q0'', ''7'', ''1'', ''9'', ''t'']"
    "split_ws (''1 Q0 8 2 8 t'' @ nl) = [''1'', ''Q0'', ''8'', ''2'', ''8'', ''t'']"
    by code_simp+
  have fl: "float_of ''9'' = Inr 9" "float_of ''8'' = Inr 8" by code_simp+
  show ?thesis by (simp add: iter_run_groups_def ls [simplified] group_line_def fl flush_def dset_def)
qed

lemma demo_rerank:
  "\<exists>r. rerank demo_nar demo_pair_model (\<lambda>q. q) ''m'' ''dev'' (demo_rerank_files ! 0) (demo_rerank_files ! 1) (demo_rerank_files ! 2)
     (demo_rerank_files ! 3) 2 1 None = Inr r \<and> rr_cache r = [(''1'', ''7'', 1, 9), (''1'', ''8'', 3, 8)]"
proof -
  have reads: "read_queries (demo_rerank_files ! 0) = Inr [(''1'', ''a'')]" "read_qrels (demo_rerank_files ! 1) = Inr [(''1'', [(''7'', 1)])]"
    "load_passages (Some {''7'', ''8''}) (demo_rerank_files ! 3) = Inr [(''7'', ''x''), (''8'', ''xyz'')]"
    by code_simp+
  have judged: "judged_queries [(''1'', ''a'')] [(''1'', [(''7'', 1)])] None = Inr ([''1''], [(''1'', [(''7'', 1)])])"
    by (simp add: judged_queries_def dhas_def)
  have cands: "load_candidates (demo_rerank_files ! 2) {''1''} 2 = Inr [(''1'', [(''7'', 9), (''8'', 8)])]"
    by (simp add: load_candidates_def demo_groups dset_def dict_of_def py_sorted_rev_def)
  have n1: "int_of ''1'' = Inr 1" by code_simp
  have ints: "int_sorted [''1''] = Inr [''1'']" by (simp add: int_sorted_def n1 py_sorted_def)
  have pairs: "pairs_of [(''1'', [(''7'', 9), (''8'', 8)])] = Inr [(''1'', ''7'', 9), (''1'', ''8'', 8)]"
    by (simp add: pairs_of_def ints)
  note One_nat_def [simp del]
  have sc: "score demo_pair_model [''a'', ''a''] [''x'', ''xyz''] 1 = Inr [1, 3]"
    by (subst score_is_pointwise [where f = "\<lambda>q p. real (length p)"]) (simp_all add: demo_pair_model_def map2_map_map list_eq_iff_nth_eq)
  obtain a1 p1 where e1: "evaluate [(''1'', [(''7'', 1), (''8'', 3)])] [(''1'', [(''7'', 1)])] (Some (metrics_for ''dev'')) = Inr (a1, p1)"
    using evaluate_dev by blast
  obtain a2 p2 where e2: "evaluate [(''1'', [(''7'', 9), (''8'', 8)])] [(''1'', [(''7'', 1)])] (Some (metrics_for ''dev'')) = Inr (a2, p2)"
    using evaluate_dev by blast
  show ?thesis
    unfolding rerank_def reads judged res_bind.simps prod.case
    using reads(3)
    by (simp add: cands pairs Let_def sc add_nested_def dset_def ints e1 e2 dict_of_def)
qed

theorem cascade_full_depth_is_rerank_witness:
  "\<exists>r qual avail. rerank demo_nar demo_pair_model (\<lambda>q. q) ''m'' ''dev'' (demo_rerank_files ! 0) (demo_rerank_files ! 1) (demo_rerank_files ! 2)
     (demo_rerank_files ! 3) 2 1 None = Inr r \<and> cascade_quality (rr_cache r) [(''1'', [(''7'', 1)])] [2] (metrics_for ''dev'') = Inr (qual, avail) \<and>
     map (\<lambda>(m, v). (m, round_to 4 v)) (dget qual 2 []) = rr_metrics r \<and>
     map (\<lambda>(m, v). (m, round_to 4 v)) (dget qual 0 []) = rr_first_stage r"
proof -
  obtain r where r: "rerank demo_nar demo_pair_model (\<lambda>q. q) ''m'' ''dev'' (demo_rerank_files ! 0) (demo_rerank_files ! 1) (demo_rerank_files ! 2)
     (demo_rerank_files ! 3) 2 1 None = Inr r" and c: "rr_cache r = [(''1'', ''7'', 1, 9), (''1'', ''8'', 3, 8)]"
    using demo_rerank by blast
  have qr: "read_qrels (demo_rerank_files ! 1) = Inr [(''1'', [(''7'', 1)])]" by code_simp
  have pq: "per_query_rows (rr_cache r) = [(''1'', [(''7'', 1, 9), (''8'', 3, 8)])]"
    by (simp add: c per_query_rows_def group_by_def dset_def)
  obtain a1 p1 where e1: "evaluate (map (\<lambda>(q, v). (q, dict_of (map (\<lambda>(p, _, f). (p, f)) v))) (per_query_rows (rr_cache r))) [(''1'', [(''7'', 1)])]
      (Some (metrics_for ''dev'')) = Inr (a1, p1)" using evaluate_dev by blast
  obtain a2 p2 where e2: "evaluate (map (\<lambda>(q, v). (q, cascade_run 2 v)) (per_query_rows (rr_cache r))) [(''1'', [(''7'', 1)])]
      (Some (metrics_for ''dev'')) = Inr (a2, p2)" using evaluate_dev by blast
  obtain qual avail where cas: "cascade_quality (rr_cache r) [(''1'', [(''7'', 1)])] [2] (metrics_for ''dev'') = Inr (qual, avail)"
    unfolding cascade_quality_def Let_def e1 using e2 by (simp add: pq)
  have "strict_mono_on (snd ` set [(''7'', 9), (''8'', 8)]) demo_nar" by (auto simp: strict_mono_on_def)
  then have "map (\<lambda>(m, v). (m, round_to 4 v)) (dget qual 2 []) = rr_metrics r \<and>
      map (\<lambda>(m, v). (m, round_to 4 v)) (dget qual 0 []) = rr_first_stage r"
    using cascade_full_depth_is_rerank [OF r qr demo_groups cas, of "''1''"] by (auto simp: c)
  then show ?thesis using r cas by blast
qed

end
