(* ===== verification/Mps_Lock.thy ===== *)
theory Mps_Lock
  imports Py_Float
begin

text \<open>
  The mutex \<open>data/locks/mps\<close>: \<open>acquire_lock\<close>, \<open>release_lock\<close> and \<open>_lock_owner_dead\<close> of
  \<open>py/hybridsearch/dense/encode.py\<close> and \<open>MPSLock\<close> of \<open>rerank/train.py\<close>, as one machine: a directory with
  an owner file and any number of processes, each at a line of its program.  An execution is a list of
  steps of the processes in any order.  The lemmas: as long as no process dies the lock excludes; a
  process that dies while it holds the lock makes two holders reachable.
\<close>

section \<open>The owner file\<close>

definition starts_with :: "string \<Rightarrow> string \<Rightarrow> bool" where
  "starts_with pre s \<longleftrightarrow> take (length pre) s = pre"

fun before_pid :: "string \<Rightarrow> string" where
  \<comment> \<open>the text before the next \<open>pid=\<close>\<close>
  "before_pid [] = []"
| "before_pid (c # s) = (if starts_with ''pid='' (c # s) then [] else c # before_pid s)"

definition lock_owner_dead :: "(int \<Rightarrow> bool) \<Rightarrow> string option \<Rightarrow> bool res" where
  \<comment> \<open>the argument tells which processes exist\<close>
  "lock_owner_dead alive owner =
     (case owner of
        None \<Rightarrow> Inr False
      | Some s \<Rightarrow>
          if \<not> starts_with ''dense-encode pid='' s then Inr False
          else case split_ws (before_pid (drop (length ''dense-encode pid='') s)) of
              [] \<Rightarrow> Inl IndexError
            | w # _ \<Rightarrow> res_bind (int_of w) (\<lambda>pid. Inr (\<not> alive pid)))"

section \<open>Processes\<close>

datatype kind = Encoder | Trainer bool \<comment> \<open>a trainer waits or gives up at once\<close>

datatype pc =
    Idle
  | Trying
  | Made_Dir
  | Holding
  | Checking
  | Reporting
  | Unlinking
  | Removing
  | Waiting
  | Leaving
  | Emptied
  | Failed
  | Dead

record lock =
  lk_dir :: bool
  lk_owner :: "string option"
  lk_pc :: "nat \<Rightarrow> pc"

datatype act = Go nat | Give_Up nat | Die nat

type_synonym stamp = "string \<times> string" \<comment> \<open>a trainer's output directory and the time of starting\<close>

definition owner_text :: "(nat \<Rightarrow> kind) \<Rightarrow> stamp \<Rightarrow> nat \<Rightarrow> string" where
  \<comment> \<open>the process id and the time of starting; a trainer names its output directory first\<close>
  "owner_text K stamp p =
     (case stamp of (out, time) \<Rightarrow>
        (if K p = Encoder then ''dense-encode pid='' else ''rerank-train '' @ out @ '' pid='') @ str_nat p @ '' started='' @ time @ nl)"

definition goto :: "nat \<Rightarrow> pc \<Rightarrow> lock \<Rightarrow> lock" where
  "goto p c s = s\<lparr>lk_pc := (lk_pc s)(p := c)\<rparr>"

definition process_exists :: "lock \<Rightarrow> int \<Rightarrow> bool" where
  "process_exists s pid \<longleftrightarrow> 0 \<le> pid \<and> lk_pc s (nat pid) \<noteq> Dead"

definition go :: "(nat \<Rightarrow> kind) \<Rightarrow> stamp \<Rightarrow> nat \<Rightarrow> lock \<Rightarrow> lock" where
  "go K stamp p s =
     (case lk_pc s p of
        Idle \<Rightarrow> goto p Trying s
      | Trying \<Rightarrow> \<comment> \<open>\<open>mkdir\<close>\<close>
          if \<not> lk_dir s then goto p Made_Dir (s\<lparr>lk_dir := True, lk_owner := None\<rparr>)
          else goto p (case K p of Encoder \<Rightarrow> Checking | Trainer wait \<Rightarrow> if wait then Waiting else Failed) s
      | Made_Dir \<Rightarrow> if lk_dir s then goto p Holding (s\<lparr>lk_owner := Some (owner_text K stamp p)\<rparr>) else goto p Failed s
      | Holding \<Rightarrow> goto p Leaving s
      | Checking \<Rightarrow>
          (case lock_owner_dead (process_exists s) (lk_owner s) of
             Inl e \<Rightarrow> goto p Failed s
           | Inr dead \<Rightarrow> goto p (if dead then Reporting else Waiting) s)
      | Reporting \<Rightarrow> goto p (if lk_owner s = None then Failed else Unlinking) s
      | Unlinking \<Rightarrow> goto p Removing (s\<lparr>lk_owner := None\<rparr>)
      | Removing \<Rightarrow> goto p Trying (if lk_dir s \<and> lk_owner s = None then s\<lparr>lk_dir := False\<rparr> else s)
      | Waiting \<Rightarrow> goto p Trying s
      | Leaving \<Rightarrow> goto p Emptied (s\<lparr>lk_owner := None\<rparr>)
      | Emptied \<Rightarrow> \<comment> \<open>\<open>rmdir\<close>: only a missing directory is forgiven, except by \<open>rmtree\<close>\<close>
          if lk_dir s \<and> lk_owner s \<noteq> None then goto p (if K p = Encoder then Failed else Idle) s
          else goto p Idle (s\<lparr>lk_dir := False\<rparr>)
      | Failed \<Rightarrow> s
      | Dead \<Rightarrow> s)"

fun lock_do :: "(nat \<Rightarrow> kind) \<Rightarrow> stamp \<Rightarrow> lock \<Rightarrow> act \<Rightarrow> lock" where
  "lock_do K stamp s (Go p) = go K stamp p s"
| "lock_do K stamp s (Give_Up p) = (if lk_pc s p = Waiting then goto p Failed s else s)"
| "lock_do K stamp s (Die p) = goto p Dead s"

definition lock_start :: lock where
  "lock_start = \<lparr>lk_dir = False, lk_owner = None, lk_pc = (\<lambda>p. Idle)\<rparr>"

definition lock_run :: "(nat \<Rightarrow> kind) \<Rightarrow> stamp \<Rightarrow> act list \<Rightarrow> lock" where
  "lock_run K stamp acts = foldl (lock_do K stamp) lock_start acts"

section \<open>Exclusion\<close>

definition critical :: "pc \<Rightarrow> bool" where
  "critical c \<longleftrightarrow> c = Made_Dir \<or> c = Holding \<or> c = Leaving \<or> c = Emptied"

definition breaking :: "pc \<Rightarrow> bool" where
  "breaking c \<longleftrightarrow> c = Reporting \<or> c = Unlinking \<or> c = Removing \<or> c = Dead"

definition lock_inv :: "(nat \<Rightarrow> kind) \<Rightarrow> stamp \<Rightarrow> lock \<Rightarrow> bool" where
  "lock_inv K stamp s \<longleftrightarrow>
     (\<forall>p. \<not> breaking (lk_pc s p)) \<and>
     (\<forall>p q. critical (lk_pc s p) \<longrightarrow> critical (lk_pc s q) \<longrightarrow> p = q) \<and>
     (\<forall>p. critical (lk_pc s p) \<longrightarrow> lk_dir s \<and>
        lk_owner s = (if lk_pc s p = Holding \<or> lk_pc s p = Leaving then Some (owner_text K stamp p) else None)) \<and>
     (lk_dir s \<longrightarrow> (\<exists>p. critical (lk_pc s p))) \<and> (lk_owner s \<noteq> None \<longrightarrow> lk_dir s)"

lemma before_pid_digits: "list_all is_digit_char s \<Longrightarrow> before_pid (s @ r) = s @ before_pid r"
proof (induction s)
  case (Cons c s)
  moreover have "\<not> is_digit_char (CHR ''p'')" by code_simp
  ultimately show ?case by (auto simp: starts_with_def)
qed simp

lemma owner_check:
  "lock_owner_dead alive (Some (owner_text K stamp p)) = Inr (K p = Encoder \<and> \<not> alive (int p))"
proof (cases "K p = Encoder")
  case True
  have s: "before_pid (str_nat p @ '' started='' @ snd stamp @ nl) = str_nat p @ CHR '' '' # before_pid (''started='' @ snd stamp @ nl)"
    by (simp add: before_pid_digits str_nat_digits starts_with_def)
  have "int_of (str_nat p) = Inr (int p)" using int_of_str_int [of "int p"] by (simp add: str_int_def)
  then show ?thesis using True s split_ws_field [of "str_nat p" "CHR '' ''"]
    by (simp add: lock_owner_dead_def owner_text_def starts_with_def case_prod_unfold)
next
  case False
  then show ?thesis by (simp add: lock_owner_dead_def owner_text_def starts_with_def case_prod_unfold)
qed

lemma goto_simps [simp]:
  "lk_pc (goto p c s) = (lk_pc s)(p := c)" "lk_dir (goto p c s) = lk_dir s" "lk_owner (goto p c s) = lk_owner s"
  by (simp_all add: goto_def)

lemma inv_quiet:
  "lock_inv K stamp s \<Longrightarrow> \<not> critical (lk_pc s p) \<Longrightarrow> \<not> critical c \<Longrightarrow> \<not> breaking c \<Longrightarrow> lock_inv K stamp (goto p c s)"
  unfolding lock_inv_def by (simp, metis)

lemma inv_held:
  assumes "\<And>q. \<not> breaking (lk_pc t q)" and "\<And>q. critical (lk_pc t q) \<longleftrightarrow> q = p" and "lk_dir t"
    and "lk_owner t = (if lk_pc t p = Holding \<or> lk_pc t p = Leaving then Some (owner_text K stamp p) else None)"
  shows "lock_inv K stamp t"
  using assms(1,3) unfolding lock_inv_def by (auto simp: assms(2,4))

lemma inv_free:
  assumes "\<And>q. \<not> breaking (lk_pc t q)" and "\<And>q. \<not> critical (lk_pc t q)" and "\<not> lk_dir t" and "lk_owner t = None"
  shows "lock_inv K stamp t"
  using assms unfolding lock_inv_def by simp

lemma inv_unique:
  assumes "lock_inv K stamp s" and "critical (lk_pc s p)"
  shows "critical (lk_pc s q) \<longleftrightarrow> q = p" and "\<not> breaking (lk_pc s q)" and "lk_dir s"
    and "lk_owner s = (if lk_pc s p = Holding \<or> lk_pc s p = Leaving then Some (owner_text K stamp p) else None)"
  using assms unfolding lock_inv_def by (metis, metis, metis, metis)

lemma inv_critical:
  assumes "lock_inv K stamp s" and "critical (lk_pc s p)" and "critical c"
    and "w = (if c = Holding \<or> c = Leaving then Some (owner_text K stamp p) else None)"
  shows "lock_inv K stamp (goto p c (s\<lparr>lk_owner := w\<rparr>))"
proof (rule inv_held)
  show "\<not> breaking (lk_pc (goto p c (s\<lparr>lk_owner := w\<rparr>)) q)" for q
    using inv_unique [OF assms(1,2)] assms(3) by (auto simp: critical_def breaking_def)
qed (use inv_unique [OF assms(1,2)] assms(3,4) in auto)

lemma inv_enter:
  assumes "lock_inv K stamp s" and "\<not> lk_dir s"
  shows "lock_inv K stamp (goto p Made_Dir (s\<lparr>lk_dir := True, lk_owner := None\<rparr>))"
proof -
  have q: "\<not> critical (lk_pc s q)" "\<not> breaking (lk_pc s q)" for q using assms unfolding lock_inv_def by (metis, metis)
  show ?thesis using q by (intro inv_held [of _ p]) (auto simp: critical_def breaking_def)
qed

lemma inv_leave:
  assumes "lock_inv K stamp s" and "lk_pc s p = Emptied"
  shows "lock_inv K stamp (goto p Idle (s\<lparr>lk_dir := False\<rparr>)) \<and> lk_owner s = None"
proof -
  have c: "critical (lk_pc s p)" using assms(2) by (simp add: critical_def)
  note u = inv_unique [OF assms(1) c]
  have "lk_owner s = None" using u(4) assms(2) by simp
  moreover from this u have "lock_inv K stamp (goto p Idle (s\<lparr>lk_dir := False\<rparr>))"
    by (intro inv_free) (auto simp: critical_def breaking_def)
  ultimately show ?thesis by blast
qed

lemma inv_check:
  assumes "lock_inv K stamp s"
  shows "lock_owner_dead (process_exists s) (lk_owner s) = Inr False"
proof (cases "lk_owner s")
  case None
  then show ?thesis by (simp add: lock_owner_dead_def)
next
  case (Some t)
  then obtain p where p: "critical (lk_pc s p)" using assms unfolding lock_inv_def by (metis option.distinct(1))
  note u = inv_unique [OF assms p]
  have "t = owner_text K stamp p" using u(4) Some by (simp split: if_splits)
  moreover have "lk_pc s p \<noteq> Dead" using u(2) [of p] by (auto simp: breaking_def)
  ultimately show ?thesis by (simp add: Some owner_check process_exists_def)
qed

lemma lock_inv_go: "lock_inv K stamp s \<Longrightarrow> lock_inv K stamp (go K stamp p s)"
proof -
  assume inv: "lock_inv K stamp s"
  note quiet = inv_quiet [OF inv, of p]
  note crit = inv_critical [OF inv, of p]
  have nb: "\<not> breaking (lk_pc s p)" using inv by (simp add: lock_inv_def)
  show ?thesis
  proof (cases "lk_pc s p")
    case Trying
    then show ?thesis using inv_enter [OF inv] quiet
      by (auto simp: go_def critical_def breaking_def split: kind.split)
  next
    case Made_Dir
    then have "critical (lk_pc s p)" by (simp add: critical_def)
    then have "lk_dir s" using inv_unique(3) [OF inv] by blast
    then show ?thesis using crit [of Holding] Made_Dir by (simp add: go_def critical_def)
  next
    case Holding
    then have "critical (lk_pc s p)" by (simp add: critical_def)
    from inv_unique(4) [OF inv this] Holding have "s\<lparr>lk_owner := Some (owner_text K stamp p)\<rparr> = s" by simp
    then show ?thesis using crit [of Leaving] Holding by (simp add: go_def critical_def)
  next
    case Leaving
    then show ?thesis using crit [of Emptied] by (simp add: go_def critical_def)
  next
    case Emptied
    then show ?thesis using inv_leave [OF inv Emptied] by (simp add: go_def)
  qed (use nb quiet crit inv inv_check [OF inv] in \<open>simp_all add: go_def critical_def breaking_def\<close>)
qed

text \<open>C23: while no process dies, at most one process of any number holds the lock, the owner file names it,
  and no other process ever takes the lock for stale, in every interleaving of encoders and trainers.\<close>

theorem lock_excludes:
  assumes "\<And>p. Die p \<notin> set acts" and "s = lock_run K stamp acts"
    and "lk_pc s p = Holding"
  shows "lk_owner s = Some (owner_text K stamp p) \<and> (\<forall>q. critical (lk_pc s q) \<longrightarrow> q = p) \<and>
    (\<forall>q. \<not> breaking (lk_pc s q))"
proof -
  have inv: "lock_inv K stamp (lock_run K stamp acts)" using assms(1)
  proof (induction acts rule: rev_induct)
    case Nil
    show ?case by (simp add: lock_run_def lock_start_def lock_inv_def critical_def breaking_def)
  next
    case (snoc a acts)
    then have inv: "lock_inv K stamp (lock_run K stamp acts)" by simp
    show ?case
    proof (cases a)
      case (Go p)
      then show ?thesis using lock_inv_go [OF inv] by (simp add: lock_run_def)
    next
      case (Give_Up p)
      then show ?thesis using inv inv_quiet [OF inv, of p Failed] by (simp add: lock_run_def critical_def breaking_def)
    next
      case (Die p)
      then show ?thesis using snoc.prems [of p] by simp
    qed
  qed
  have "critical (lk_pc s p)" using assms(3) by (simp add: critical_def)
  from inv_unique [OF inv [folded assms(2)] this] assms(3) show ?thesis by simp
qed

text \<open>A process that dies while it holds the lock breaks exclusion: two encoders find the lock stale, the
  first removes it and takes the lock, and the second removes the lock of the first.\<close>

definition race :: "act list" where
  "race = replicate 3 (Go 0) @ [Die 0] @ replicate 3 (Go 1) @ replicate 3 (Go 2) @ replicate 5 (Go 1) @ replicate 5 (Go 2)"

lemma two_holders: "lk_pc (lock_run (\<lambda>p. Encoder) stamp race) 1 = Holding \<and> lk_pc (lock_run (\<lambda>p. Encoder) stamp race) 2 = Holding"
  by (simp add: lock_run_def race_def lock_start_def go_def goto_def eval_nat_numeral owner_check process_exists_def)

theorem lock_excludes_witness:
  "lk_owner (lock_run (\<lambda>p. if p = 0 then Encoder else Trainer True) (''out'', ''t'') (replicate 3 (Go 0) @ replicate 4 (Go 1))) =
     Some (''dense-encode pid=0 started=t'' @ nl)"
proof -
  let ?K = "\<lambda>p :: nat. if p = 0 then Encoder else Trainer True"
  have "lk_pc (lock_run ?K (''out'', ''t'') (replicate 3 (Go 0) @ replicate 4 (Go 1))) 0 = Holding"
    by (simp add: lock_run_def lock_start_def go_def goto_def eval_nat_numeral)
  then have "lk_owner (lock_run ?K (''out'', ''t'') (replicate 3 (Go 0) @ replicate 4 (Go 1))) = Some (owner_text ?K (''out'', ''t'') 0)"
    using lock_excludes [OF _ refl] by auto
  then show ?thesis by (simp add: owner_text_def) code_simp
qed

end
