(* ===== verification/Train.thy ===== *)
theory Train
  imports Sampler Rerank
begin

text \<open>
  \<open>py/hybridsearch/rerank/train.py\<close>: configuration, the losses, validation and the training loop with its
  checkpoints.  The network, the optimizer and torch's generator are the record \<open>learner\<close>: its state, the
  logits of a batch of pairs, the accumulation of a gradient and the update.  A logit that is not finite
  makes the list of logits None.  Clocks, memory figures and device names are left out.  The lemmas: a
  run resumed from any checkpoint ends in the state of the run that was never interrupted, and what the
  losses compute.
\<close>

section \<open>Configuration\<close>

datatype yaml =
    Y_Null
  | Y_Bool bool
  | Y_Int int
  | Y_Float real
  | Y_Str string
  | Y_Map "(string \<times> yaml) list"

definition TRAIN_DEFAULTS :: "(string, yaml) dict" where
  \<comment> \<open>the fields of \<open>TrainConfig\<close>\<close>
  "TRAIN_DEFAULTS =
    [(''base_model'', Y_Str ''nreimers/MiniLM-L6-H384-uncased''), (''strategy'', Y_Str ''bm25-hard''), (''loss'', Y_Str ''listwise''),
     (''n_neg'', Y_Int 7), (''mix_bm25'', Y_Float (1 / 2)), (''batch_groups'', Y_Int 16), (''grad_accum'', Y_Int 1),
     (''lr'', Y_Float (3 / 10 ^ 5)), (''weight_decay'', Y_Float (1 / 100)), (''warmup_frac'', Y_Float (1 / 10)),
     (''max_steps'', Y_Int 1000), (''max_len'', Y_Int 256), (''seed'', Y_Int 20260923), (''device'', Y_Str ''auto''),
     (''amp'', Y_Str ''none''), (''mps_mem_fraction'', Y_Float (35 / 100)),
     (''mined'', Y_Str ''data/rerank/mined/train50k.jsonl''), (''queries'', Y_Str ''data/subset/train50k/queries.tsv''),
     (''qrels'', Y_Str ''data/subset/train50k/qrels.tsv''), (''n_queries'', Y_Null), (''pool_depth'', Y_Int 50),
     (''val_run'', Y_Str ''data/runs/reference/anserini-bm25-default.train_tune.trec''),
     (''val_queries'', Y_Str ''data/subset/train_tune/queries.tsv''), (''val_qrels'', Y_Str ''data/subset/train_tune/qrels.tsv''),
     (''val_n'', Y_Int 500), (''val_depth'', Y_Int 30), (''eval_every'', Y_Int 250), (''save_every'', Y_Int 250),
     (''log_every'', Y_Int 25), (''out_dir'', Y_Str ''data/rerank/runs/debug''),
     (''collection'', Y_Str ''data/raw/msmarco/collection.tsv''), (''label'', Y_Str ''''), (''extra'', Y_Map [])]"

definition truthy_yaml :: "yaml \<Rightarrow> bool" where
  "truthy_yaml y = (case y of Y_Null \<Rightarrow> False | Y_Bool b \<Rightarrow> b | Y_Int i \<Rightarrow> i \<noteq> 0 | Y_Float x \<Rightarrow> x \<noteq> 0 | Y_Str s \<Rightarrow> s \<noteq> [] | Y_Map m \<Rightarrow> m \<noteq> [])"

definition parent_join :: "string \<Rightarrow> string \<Rightarrow> string" where
  \<comment> \<open>\<open>p.parent / base\<close>\<close>
  "parent_join p base =
     (if take 1 base = ''/'' then base else rev (dropWhile (\<lambda>c. c \<noteq> CHR ''/'') (rev p)) @ base)"

definition merged :: "('k, 'v) dict \<Rightarrow> ('k, 'v) dict \<Rightarrow> ('k, 'v) dict" where
  \<comment> \<open>\<open>{**a, **b}\<close>\<close>
  "merged a b = foldl (\<lambda>d (k, v). dset d k v) a b"

fun read_config :: "(string \<Rightarrow> (string, yaml) dict res) \<Rightarrow> nat \<Rightarrow> string \<Rightarrow> (string, yaml) dict res" where
  \<comment> \<open>the parsed files, and the recursion limit\<close>
  "read_config files 0 p = Inl RecursionError"
| "read_config files (Suc n) p =
     res_bind (files p) (\<lambda>y.
       let base = dget y ''base'' Y_Null; y' = filter (\<lambda>(k, v). k \<noteq> ''base'') y in
       if \<not> truthy_yaml base then Inr y'
       else case base of
           Y_Str b \<Rightarrow> res_bind (read_config files n (parent_join p b)) (\<lambda>d. Inr (merged d y'))
         | _ \<Rightarrow> Inl TypeError)"

definition set_override :: "(string \<Rightarrow> yaml) \<Rightarrow> (string, yaml) dict \<Rightarrow> string \<Rightarrow> (string, yaml) dict res" where
  "set_override yaml_value d ov =
     (case split1 61 ov of
        None \<Rightarrow> Inl ValueError
      | Some (k, v) \<Rightarrow> if dhas TRAIN_DEFAULTS k then Inr (dset d k (yaml_value v)) else Inl KeyError)"

definition load_config :: "(string \<Rightarrow> (string, yaml) dict res) \<Rightarrow> (string \<Rightarrow> yaml) \<Rightarrow> nat \<Rightarrow> string option \<Rightarrow> string list \<Rightarrow> (string, yaml) dict res" where
  \<comment> \<open>\<open>TrainConfig.load\<close>\<close>
  "load_config files yaml_value limit path overrides =
     res_bind (case path of None \<Rightarrow> Inr [] | Some p \<Rightarrow> if p = [] then Inr [] else read_config files limit p) (\<lambda>d0.
     res_bind (res_fold (set_override yaml_value) d0 overrides) (\<lambda>d.
       if \<not> list_all (\<lambda>(k, v). dhas TRAIN_DEFAULTS k) d then Inl TypeError
       else let cfg = merged TRAIN_DEFAULTS d in
            if dget cfg ''strategy'' Y_Null \<notin> Y_Str ` set STRATEGIES then Inl ValueError
            else if dget cfg ''loss'' Y_Null \<notin> {Y_Str ''bce'', Y_Str ''listwise''} then Inl ValueError
            else Inr cfg))"

section \<open>Losses\<close>

definition softplus :: "real \<Rightarrow> real" where
  "softplus x = ln (1 + exp x)"

definition cross_entropy_first :: "real list \<Rightarrow> real" where
  \<comment> \<open>softmax cross-entropy of a row whose target is its first entry\<close>
  "cross_entropy_first row = ln (sum_list (map exp row)) - row ! 0"

definition bce_terms :: "real list \<Rightarrow> real list" where
  \<comment> \<open>label 1 for the first entry and 0 for the others\<close>
  "bce_terms row = map (\<lambda>(i, x). if i = 0 then softplus (- x) else softplus x) (enumerate (0 :: nat) row)"

definition group_loss :: "real list \<Rightarrow> nat \<Rightarrow> string \<Rightarrow> real res" where
  \<comment> \<open>\<open>view(-1, group_size)\<close> fails unless the size divides the number of logits\<close>
  "group_loss logits group_size kind =
     (if group_size = 0 \<or> length logits mod group_size \<noteq> 0 then Inl RuntimeError
      else let lg = slices group_size logits in
           Inr (if kind = ''listwise'' then mean (map cross_entropy_first lg) else mean (concat (map bce_terms lg))))"

text \<open>The listwise loss is the negated log-probability of the positive, so it is never negative; and two groups
  short of negatives are taken for one group whose second positive counts as a negative.\<close>

lemma cross_entropy_nonneg:
  assumes "row \<noteq> []"
  shows "0 \<le> cross_entropy_first row"
proof -
  obtain x r where r: "row = x # r" using assms by (cases row) auto
  have "0 \<le> sum_list (map exp r)" by (intro sum_list_nonneg) auto
  then have "exp x \<le> sum_list (map exp row)" by (simp add: r)
  then have "ln (exp x) \<le> ln (sum_list (map exp row))" by (intro ln_mono) simp_all
  then show ?thesis by (simp add: cross_entropy_first_def r)
qed

lemma listwise_loss_nonneg:
  assumes "group_loss logits n ''listwise'' = Inr l"
  shows "0 \<le> l"
proof -
  have n: "0 < n" "l = mean (map cross_entropy_first (slices n logits))" using assms by (auto simp: group_loss_def split: if_splits)
  have "0 \<le> sum_list (map cross_entropy_first (slices n logits))"
    using slices_bounds [OF n(1)] by (intro sum_list_nonneg) (auto intro: cross_entropy_nonneg)
  then show ?thesis by (simp add: n(2) mean_def)
qed

lemma short_groups_merge:
  "group_loss ([pos1, neg1] @ [pos2, neg2]) 4 ''listwise'' = Inr (cross_entropy_first [pos1, neg1, pos2, neg2])"
  by (simp add: group_loss_def slices_step mean_def)

section \<open>Validation\<close>

record val_set =
  vs_keys :: "(qid \<times> docid) list"
  vs_qrels :: qrels
  vs_q :: "string list"
  vs_p :: "string list"

definition validate :: "(nat list \<Rightarrow> nat list) \<Rightarrow> (string list \<Rightarrow> string list \<Rightarrow> real list) \<Rightarrow> val_set \<Rightarrow> (string, real) dict res" where
  \<comment> \<open>the argument \<open>argsort\<close> is numpy's, which need not be stable\<close>
  "validate argsort model v =
     (let order = argsort (map2 (\<lambda>q p. length q + length p) (vs_q v) (vs_p v));
          scores = foldl (score_slice model (vs_q v) (vs_p v)) (replicate (length (vs_q v)) 0) (slices 128 order);
          run = foldl (\<lambda>r ((q, p), s). add_nested r q p s) [] (zip (vs_keys v) scores)
      in res_bind (evaluate run (vs_qrels v) (Some [''RR@10'', ''nDCG@10''])) (\<lambda>(agg, _). Inr agg))"

definition build_val :: "string \<Rightarrow> string \<Rightarrow> string \<Rightarrow> nat \<Rightarrow> nat \<Rightarrow> ((qid \<times> docid) list \<times> (qid, string) dict \<times> qrels \<times> docid set) res" where
  \<comment> \<open>the query, judgment and run files, \<open>val_n\<close> and \<open>val_depth\<close>\<close>
  "build_val qf qrf rf val_n val_depth =
     res_bind (read_queries qf) (\<lambda>queries. res_bind (read_qrels qrf) (\<lambda>qrels_all.
       let qids = take val_n (py_sorted (\<lambda>q. q) (filter (dhas qrels_all) (keys queries))) in
       res_bind (iter_run_groups rf (Some val_depth)) (\<lambda>gs.
         let ks = concat (map (\<lambda>(q, hits). map (\<lambda>(p, _). (q, p)) hits) (filter (\<lambda>(q, hits). q \<in> set qids) gs)) in
         Inr (ks, queries, map (\<lambda>q. (q, dget qrels_all q [])) qids, set (map snd ks)))))"

section \<open>The training loop\<close>

record train_config =
  tc_loss :: string
  tc_n_neg :: nat
  tc_batch_groups :: nat
  tc_grad_accum :: nat
  tc_max_steps :: nat
  tc_eval_every :: nat
  tc_save_every :: nat
  tc_log_every :: nat

record ('m, 's) learner =
  ln_start :: 'm \<comment> \<open>seeded generators, base model, AdamW and its schedule\<close>
  ln_scaler :: 's \<comment> \<open>a fresh \<open>GradScaler\<close>\<close>
  ln_zero :: "'m \<Rightarrow> 'm"
  ln_logits :: "'m \<Rightarrow> (string \<times> string) list \<Rightarrow> real list option \<times> 'm" \<comment> \<open>dropout advances the state\<close>
  ln_backward :: "'s \<Rightarrow> 'm \<Rightarrow> (string \<times> string) list \<Rightarrow> string \<Rightarrow> nat \<Rightarrow> nat \<Rightarrow> 'm"
  ln_step :: "'s \<Rightarrow> 'm \<Rightarrow> 'm \<times> 's" \<comment> \<open>unscale, clip, step, update the scale and the schedule\<close>
  ln_scores :: "'m \<Rightarrow> string list \<Rightarrow> string list \<Rightarrow> real list" \<comment> \<open>in evaluation mode\<close>
  ln_argsort :: "nat list \<Rightarrow> nat list"

record ('m, 's, 'g) train_env =
  te_cfg :: train_config
  te_learner :: "('m, 's) learner"
  te_perm :: "'g perm_ops"
  te_val :: "val_set option"
  te_sampler :: sampler

type_synonym val_history = "(nat \<times> (string, real) dict) list"

record 'm ckpt = \<comment> \<open>\<open>last/\<close>\<close>
  ck_model :: 'm
  ck_step :: nat
  ck_best :: real
  ck_history :: val_history

datatype log_line = Log_Val nat "(string, real) dict" | Log_Train nat "real option" int

record ('m, 's) tstate =
  ts_model :: 'm
  ts_scaler :: 's
  ts_sampler :: sampler
  ts_step :: nat
  ts_best :: real
  ts_history :: val_history
  ts_last :: "'m ckpt option"
  ts_best_model :: "'m option" \<comment> \<open>\<open>best/\<close>\<close>
  ts_log :: "log_line list"

definition run_eval :: "('m, 's, 'g) train_env \<Rightarrow> ('m, 's) tstate \<Rightarrow> ('m, 's) tstate res" where
  "run_eval E st =
     (case te_val E of
        None \<Rightarrow> Inr st
      | Some v \<Rightarrow>
          res_bind (validate (ln_argsort (te_learner E)) (ln_scores (te_learner E) (ts_model st)) v) (\<lambda>agg.
            let st1 = st\<lparr>ts_history := ts_history st @ [(ts_step st, agg)], ts_log := ts_log st @ [Log_Val (ts_step st) agg]\<rparr>;
                rr = dget agg ''RR@10'' 0 in
            Inr (if rr > ts_best st then st1\<lparr>ts_best := rr, ts_best_model := Some (ts_model st)\<rparr> else st1)))"

definition save_last :: "('m, 's) tstate \<Rightarrow> ('m, 's) tstate" where
  "save_last st = st\<lparr>ts_last :=
     Some \<lparr>ck_model = ts_model st, ck_step = ts_step st, ck_best = ts_best st, ck_history = ts_history st\<rparr>\<rparr>"

definition group_pairs :: "sampler \<Rightarrow> sample list \<Rightarrow> (string \<times> string) list res" where
  "group_pairs s groups =
     res_bind (res_map (\<lambda>(q, pos, negs). res_map (\<lambda>p.
         res_bind (dlookup (gs_queries s) q) (\<lambda>qt. res_bind (dlookup (gs_passages s) p) (\<lambda>pt. Inr (qt, pt)))) (pos # negs)) groups)
       (\<lambda>xs. Inr (concat xs))"

definition add_opt :: "real option \<Rightarrow> real option \<Rightarrow> real option" where
  \<comment> \<open>NaN if either is\<close>
  "add_opt a b = (case (a, b) of (Some x, Some y) \<Rightarrow> Some (x + y) | _ \<Rightarrow> None)"

definition micro_learn :: "('m, 's, 'g) train_env \<Rightarrow> sample list \<Rightarrow> ('m, 's) tstate \<Rightarrow> (('m, 's) tstate \<times> real option) res" where
  \<comment> \<open>forward and backward of one micro-batch, with its share of the loss\<close>
  "micro_learn E groups st =
     (let c = te_cfg E; L = te_learner E in
      res_bind (group_pairs (ts_sampler st) groups) (\<lambda>ps.
        let (logits, m1) = ln_logits L (ts_model st) ps in
        res_bind (case logits of None \<Rightarrow> Inr None
                  | Some lg \<Rightarrow> res_bind (group_loss lg (1 + tc_n_neg c) (tc_loss c)) (\<lambda>l. Inr (Some (l / real (tc_grad_accum c))))) (\<lambda>loss.
          Inr (st\<lparr>ts_model := ln_backward L (ts_scaler st) m1 ps (tc_loss c) (1 + tc_n_neg c) (tc_grad_accum c)\<rparr>, loss))))"

definition micro_step :: "('m, 's, 'g) train_env \<Rightarrow> ('m, 's) tstate \<Rightarrow> nat \<Rightarrow> (('m, 's) tstate \<times> real option) res" where
  "micro_step E st micro =
     (let c = te_cfg E in
      res_bind (batch (te_perm E) (ts_sampler st) (ts_step st * tc_grad_accum c + micro) (tc_batch_groups c))
        (\<lambda>(groups, smp). micro_learn E groups (st\<lparr>ts_sampler := smp\<rparr>)))"

fun micro_steps :: "('m, 's, 'g) train_env \<Rightarrow> nat list \<Rightarrow> ('m, 's) tstate \<Rightarrow> real option \<Rightarrow> (('m, 's) tstate \<times> real option) res" where
  "micro_steps E [] st acc = Inr (st, acc)"
| "micro_steps E (micro # r) st acc = res_bind (micro_step E st micro) (\<lambda>(st', loss). micro_steps E r st' (add_opt acc loss))"

definition after_step :: "('m, 's, 'g) train_env \<Rightarrow> real option \<Rightarrow> ('m, 's) tstate \<Rightarrow> ('m, 's) tstate res" where
  \<comment> \<open>the checks, the log, validation and the checkpoint that follow an update\<close>
  "after_step E loss st =
     (let c = te_cfg E; step = ts_step st in
      if loss = None then Inl FloatingPointError
      else if tc_log_every c = 0 then Inl ZeroDivisionError
      else let st1 = (if step mod tc_log_every c = 0
                      then st\<lparr>ts_log := ts_log st @ [Log_Train step (map_option (round_to 5) loss) (gs_topups (ts_sampler st))]\<rparr> else st)
      in res_bind (if tc_eval_every c \<noteq> 0 \<and> step mod tc_eval_every c = 0 then run_eval E st1 else Inr st1) (\<lambda>st2.
           if tc_save_every c = 0 then Inl ZeroDivisionError
           else Inr (if step mod tc_save_every c = 0 \<or> step = tc_max_steps c then save_last st2 else st2)))"

definition train_step :: "('m, 's, 'g) train_env \<Rightarrow> ('m, 's) tstate \<Rightarrow> ('m, 's) tstate res" where
  "train_step E st =
     (let L = te_learner E in
      res_bind (micro_steps E [0..<tc_grad_accum (te_cfg E)] (st\<lparr>ts_model := ln_zero L (ts_model st)\<rparr>) (Some 0)) (\<lambda>(st1, loss).
        let (m, s) = ln_step L (ts_scaler st1) (ts_model st1) in
        after_step E loss (st1\<lparr>ts_model := m, ts_scaler := s, ts_step := ts_step st1 + 1\<rparr>)))"

fun train_steps :: "('m, 's, 'g) train_env \<Rightarrow> nat \<Rightarrow> ('m, 's) tstate \<Rightarrow> ('m, 's) tstate res" where
  "train_steps E 0 st = Inr st"
| "train_steps E (Suc n) st = res_bind (train_step E st) (train_steps E n)"

definition train_start :: "('m, 's, 'g) train_env \<Rightarrow> 'm ckpt option \<Rightarrow> ('m, 's) tstate res" where
  "train_start E c =
     (let L = te_learner E;
          st = \<lparr>ts_model = ln_start L, ts_scaler = ln_scaler L, ts_sampler = te_sampler E, ts_step = 0, ts_best = - 1,
                ts_history = [], ts_last = c, ts_best_model = None, ts_log = []\<rparr>;
          st' = (case c of None \<Rightarrow> st
                 | Some k \<Rightarrow> st\<lparr>ts_model := ck_model k, ts_step := ck_step k, ts_best := ck_best k, ts_history := ck_history k\<rparr>)
      in if ts_step st' = 0 then run_eval E st' else Inr st')"

definition train_finish :: "('m, 's, 'g) train_env \<Rightarrow> ('m, 's) tstate \<Rightarrow> ('m, 's) tstate res" where
  "train_finish E st =
     (if te_val E \<noteq> None \<and> (ts_history st = [] \<or> fst (last (ts_history st)) \<noteq> ts_step st)
      then res_bind (run_eval E st) (\<lambda>st'. Inr (save_last st')) else Inr st)"

definition train :: "('m, 's, 'g) train_env \<Rightarrow> 'm ckpt option \<Rightarrow> ('m, 's) tstate res" where
  \<comment> \<open>\<open>while step < max_steps\<close>: every step counts one\<close>
  "train E c =
     res_bind (train_start E c) (\<lambda>st.
       res_bind (train_steps E (tc_max_steps (te_cfg E) - ts_step st) st) (train_finish E))"

text \<open>What the loop is given: the mined pools cut to their depth, the queries clipped to the tokenizer's limit,
  the passages the strategy and validation need, and the pairs of the validation set.\<close>

record train_files =
  tf_mined :: "mined_query list"
  tf_queries :: string
  tf_qrels :: string
  tf_collection :: string
  tf_val_queries :: string
  tf_val_qrels :: string
  tf_val_run :: string

record data_config =
  dc_strategy :: string
  dc_n_neg :: nat
  dc_mix_bm25 :: real
  dc_seed :: nat
  dc_n_queries :: "nat option"
  dc_pool_depth :: nat
  dc_val_n :: nat
  dc_val_depth :: nat

definition cut_pools :: "nat \<Rightarrow> mined_query \<Rightarrow> mined_query" where
  "cut_pools n m = m\<lparr>mq_bm25 := take n (mq_bm25 m), mq_dense := take n (mq_dense m), mq_random := take n (mq_random m)\<rparr>"

definition train_data :: "(string \<Rightarrow> string) \<Rightarrow> data_config \<Rightarrow> train_files \<Rightarrow> (sampler \<times> val_set option) res" where
  \<comment> \<open>\<open>clip\<close> is \<open>clip_query\<close> of the tokenizer; the judged ids of a query are the keys of its judgments\<close>
  "train_data clip c f =
     (let mined = map (cut_pools (dc_pool_depth c)) (read_mined (tf_mined f) (dc_n_queries c)) in
      res_bind (read_queries (tf_queries f)) (\<lambda>queries. res_bind (read_qrels (tf_qrels f)) (\<lambda>qrels.
      res_bind (if dc_val_n c = 0 then Inr ([], [], [], {})
                else build_val (tf_val_queries f) (tf_val_qrels f) (tf_val_run f) (dc_val_n c) (dc_val_depth c)) (\<lambda>(ks, vq, vqrels, vneed).
      res_bind (load_passages (Some (needed_pids mined (dc_strategy c) \<union> vneed)) (tf_collection f)) (\<lambda>passages.
      res_bind (make_sampler mined (map (\<lambda>(q, t). (q, clip t)) (filter (\<lambda>(q, t). q \<in> set (map mq_qid mined)) queries)) passages
                  (dc_strategy c) (dc_n_neg c) (dc_seed c) (dc_mix_bm25 c) (map (\<lambda>(q, d). (q, keys d)) qrels)) (\<lambda>smp.
        if dc_val_n c = 0 then Inr (smp, None)
        else res_bind (res_map (\<lambda>(q, p). dlookup vq q) ks) (\<lambda>Q. res_bind (res_map (\<lambda>(q, p). dlookup passages p) ks) (\<lambda>P.
          Inr (smp, Some \<lparr>vs_keys = ks, vs_qrels = vqrels, vs_q = Q, vs_p = P\<rparr>)))))))))"

record train_summary =
  su_steps :: nat
  su_groups_seen :: nat
  su_pairs_seen :: nat
  su_unique_queries :: nat
  su_epochs :: real
  su_best :: real
  su_history :: val_history
  su_topups :: int

definition train_summary_of :: "('m, 's, 'g) train_env \<Rightarrow> ('m, 's) tstate \<Rightarrow> train_summary" where
  "train_summary_of E st =
     (let c = te_cfg E; groups = ts_step st * tc_grad_accum c * tc_batch_groups c; n = length (gs_mined (ts_sampler st)) in
      \<lparr>su_steps = ts_step st, su_groups_seen = groups, su_pairs_seen = groups * (1 + tc_n_neg c), su_unique_queries = n,
       su_epochs = round_to 3 (real groups / real (max n 1)), su_best = ts_best st, su_history = ts_history st,
       su_topups = gs_topups (ts_sampler st)\<rparr>)"

text \<open>The checkpoints that interrupted runs leave: a run stops after any number of steps, between two steps
  or at its end, or while \<open>last\<close> is replaced, which loses it.  A \<open>last\<close> removed only in part is left out: if its
  state file is still there without the weights, resuming from it raises.\<close>

inductive ckpt_reach :: "('m, 's, 'g) train_env \<Rightarrow> 'm ckpt option \<Rightarrow> bool" for E where
  nothing: "ckpt_reach E None"
| stopped: "ckpt_reach E c \<Longrightarrow> train_start E c = Inr st \<Longrightarrow> n \<le> tc_max_steps (te_cfg E) - ts_step st \<Longrightarrow>
    train_steps E n st = Inr st' \<Longrightarrow> ckpt_reach E (ts_last st')"
| finished: "ckpt_reach E c \<Longrightarrow> train E c = Inr st \<Longrightarrow> ckpt_reach E (ts_last st)"

section \<open>Resuming is continuing\<close>

definition scaler_unused :: "('m, 's) learner \<Rightarrow> bool" where
  \<comment> \<open>no loss scaling: the state that a checkpoint does not keep has no effect\<close>
  "scaler_unused L \<longleftrightarrow> (\<forall>s s'. ln_backward L s = ln_backward L s') \<and> (\<forall>s s' m. fst (ln_step L s m) = fst (ln_step L s' m))"

definition same_training :: "('m, 's, 'g) train_env \<Rightarrow> ('m, 's) tstate \<Rightarrow> ('m, 's) tstate \<Rightarrow> bool" where
  "same_training E a b \<longleftrightarrow>
     ts_model a = ts_model b \<and> ts_step a = ts_step b \<and> ts_best a = ts_best b \<and> ts_history a = ts_history b \<and>
     same_sampler (te_sampler E) (ts_sampler a) \<and> cache_ok (te_perm E) (ts_sampler a) \<and>
     same_sampler (te_sampler E) (ts_sampler b) \<and> cache_ok (te_perm E) (ts_sampler b)"

lemma rel_bind:
  "rel_sum (=) R x y \<Longrightarrow> (\<And>a b. R a b \<Longrightarrow> rel_sum (=) S (f a) (g b)) \<Longrightarrow> rel_sum (=) S (res_bind x f) (res_bind y g)"
  by (cases x; cases y) auto

lemma run_eval_same: "same_training E a b \<Longrightarrow> rel_sum (=) (same_training E) (run_eval E a) (run_eval E b)"
  unfolding run_eval_def
  by (cases "te_val E"; cases "validate (ln_argsort (te_learner E)) (ln_scores (te_learner E) (ts_model a)) (the (te_val E))")
    (auto simp: same_training_def Let_def)

lemma eval_if_same:
  "same_training E a b \<Longrightarrow> rel_sum (=) (same_training E) (if c then run_eval E a else Inr a) (if c then run_eval E b else Inr b)"
  by (simp add: run_eval_same)

lemma same_sampler_join: "same_sampler S s \<Longrightarrow> same_sampler S t \<Longrightarrow> same_sampler s t"
  unfolding same_sampler_def by simp

lemma save_last_same: "same_training E a b \<Longrightarrow> same_training E (save_last a) (save_last b)"
  by (simp add: same_training_def save_last_def)

lemma batch_same:
  assumes R: "perm_ok R" and s: "same_sampler S s" "cache_ok R s" and t: "same_sampler S t" "cache_ok R t"
  shows "rel_sum (=) (\<lambda>x y. fst x = fst y \<and> same_sampler S (snd x) \<and> cache_ok R (snd x) \<and> same_sampler S (snd y) \<and> cache_ok R (snd y))
    (batch R s k n) (batch R t k n)"
proof -
  have st: "same_sampler s t" using s(1) t(1) by (simp add: same_sampler_def)
  have eq: "map_sum id fst (batch R s k n) = map_sum id fst (batch R t k n)"
    using same_sampler_loop [OF st s(2) t(2)] by (simp add: batch_def same_sampler_sel(5) [OF st])
  show ?thesis
  proof (cases "batch R s k n")
    case (Inl e)
    then show ?thesis using eq by (cases "batch R t k n") auto
  next
    case (Inr x)
    obtain g s' where x: "x = (g, s')" by (cases x)
    from eq Inr x obtain t' where t': "batch R t k n = Inr (g, t')" by (cases "batch R t k n") auto
    have "same_sampler s s'" "cache_ok R s'" "same_sampler t t'" "cache_ok R t'"
      using batch_loop_ok [OF R _ s(2)] batch_loop_ok [OF R _ t(2)] Inr x t' unfolding batch_def by blast+
    then show ?thesis using Inr x t' s(1) t(1) by (simp add: same_sampler_def)
  qed
qed

lemma group_pairs_same: "same_sampler s t \<Longrightarrow> group_pairs s g = group_pairs t g"
  by (simp add: group_pairs_def same_sampler_sel)

abbreviation same_with_loss :: "('m, 's, 'g) train_env \<Rightarrow> ('m, 's) tstate \<times> real option \<Rightarrow> ('m, 's) tstate \<times> real option \<Rightarrow> bool" where
  "same_with_loss E \<equiv> rel_prod (same_training E) (=)"

lemma rel_bind_eq: "(\<And>x. rel_sum (=) S (f x) (g x)) \<Longrightarrow> rel_sum (=) S (res_bind r f) (res_bind r g)"
  by (cases r) auto

lemma micro_learn_same:
  assumes "scaler_unused (te_learner E)" and "same_training E a b"
  shows "rel_sum (=) (same_with_loss E) (micro_learn E groups a) (micro_learn E groups b)"
proof -
  have bw: "ln_backward (te_learner E) (ts_scaler a) = ln_backward (te_learner E) (ts_scaler b)"
    using assms(1) unfolding scaler_unused_def by blast
  note ab = assms(2) [unfolded same_training_def]
  have "same_sampler (ts_sampler a) (ts_sampler b)" using ab same_sampler_join by blast
  then have gp: "group_pairs (ts_sampler a) groups = group_pairs (ts_sampler b) groups" by (rule group_pairs_same)
  have m: "ts_model a = ts_model b" using ab by blast
  show ?thesis
    unfolding micro_learn_def Let_def gp bw m case_prod_unfold
    by (intro rel_bind_eq) (use ab in \<open>simp add: same_training_def\<close>)
qed

lemma micro_step_same:
  assumes "perm_ok (te_perm E)" and "scaler_unused (te_learner E)" and "same_training E a b"
  shows "rel_sum (=) (same_with_loss E) (micro_step E a i) (micro_step E b i)"
proof -
  note ab = assms(3) [unfolded same_training_def]
  have st: "ts_step b = ts_step a" using ab by simp
  show ?thesis
    unfolding micro_step_def Let_def st case_prod_unfold
  proof (rule rel_bind [OF batch_same [OF assms(1), of "te_sampler E"]])
    fix x y :: "sample list \<times> sampler"
    assume xy: "fst x = fst y \<and> same_sampler (te_sampler E) (snd x) \<and> cache_ok (te_perm E) (snd x) \<and>
      same_sampler (te_sampler E) (snd y) \<and> cache_ok (te_perm E) (snd y)"
    then have "same_training E (a\<lparr>ts_sampler := snd x\<rparr>) (b\<lparr>ts_sampler := snd y\<rparr>)" using ab by (simp add: same_training_def)
    from micro_learn_same [OF assms(2) this] xy
    show "rel_sum (=) (same_with_loss E) (micro_learn E (fst x) (a\<lparr>ts_sampler := snd x\<rparr>)) (micro_learn E (fst y) (b\<lparr>ts_sampler := snd y\<rparr>))"
      by simp
  qed (use ab in simp_all)
qed

lemma micro_steps_same:
  assumes R: "perm_ok (te_perm E)" and L: "scaler_unused (te_learner E)" and "same_training E a b"
  shows "rel_sum (=) (same_with_loss E) (micro_steps E ms a acc) (micro_steps E ms b acc)"
  using assms(3)
proof (induction ms arbitrary: a b acc)
  case (Cons i ms)
  show ?case unfolding micro_steps.simps case_prod_unfold
    by (rule rel_bind [OF micro_step_same [OF R L Cons.prems]]) (use Cons.IH in \<open>auto simp: rel_prod_sel\<close>)
qed simp

lemma after_step_same:
  assumes "same_training E a b"
  shows "rel_sum (=) (same_training E) (after_step E loss a) (after_step E loss b)"
proof -
  have st: "ts_step b = ts_step a" using assms by (simp add: same_training_def)
  let ?c = "te_cfg E"
  let ?a = "if ts_step a mod tc_log_every ?c = 0
      then a\<lparr>ts_log := ts_log a @ [Log_Train (ts_step a) (map_option (round_to 5) loss) (gs_topups (ts_sampler a))]\<rparr> else a"
  let ?b = "if ts_step a mod tc_log_every ?c = 0
      then b\<lparr>ts_log := ts_log b @ [Log_Train (ts_step a) (map_option (round_to 5) loss) (gs_topups (ts_sampler b))]\<rparr> else b"
  have "same_training E ?a ?b" using assms by (simp add: same_training_def)
  then have "rel_sum (=) (same_training E)
      (if tc_eval_every ?c \<noteq> 0 \<and> ts_step a mod tc_eval_every ?c = 0 then run_eval E ?a else Inr ?a)
      (if tc_eval_every ?c \<noteq> 0 \<and> ts_step a mod tc_eval_every ?c = 0 then run_eval E ?b else Inr ?b)"
    by (rule eval_if_same)
  then have "rel_sum (=) (same_training E)
      (res_bind (if tc_eval_every ?c \<noteq> 0 \<and> ts_step a mod tc_eval_every ?c = 0 then run_eval E ?a else Inr ?a) (\<lambda>st2.
         if tc_save_every ?c = 0 then Inl ZeroDivisionError
         else Inr (if ts_step a mod tc_save_every ?c = 0 \<or> ts_step a = tc_max_steps ?c then save_last st2 else st2)))
      (res_bind (if tc_eval_every ?c \<noteq> 0 \<and> ts_step a mod tc_eval_every ?c = 0 then run_eval E ?b else Inr ?b) (\<lambda>st2.
         if tc_save_every ?c = 0 then Inl ZeroDivisionError
         else Inr (if ts_step a mod tc_save_every ?c = 0 \<or> ts_step a = tc_max_steps ?c then save_last st2 else st2)))"
    by (rule rel_bind) (simp add: save_last_same)
  then show ?thesis unfolding after_step_def Let_def st by simp
qed

lemma train_step_same:
  assumes R: "perm_ok (te_perm E)" and L: "scaler_unused (te_learner E)" and "same_training E a b"
  shows "rel_sum (=) (same_training E) (train_step E a) (train_step E b)"
proof -
  have m: "same_training E (a\<lparr>ts_model := ln_zero (te_learner E) (ts_model a)\<rparr>) (b\<lparr>ts_model := ln_zero (te_learner E) (ts_model b)\<rparr>)"
    using assms(3) by (simp add: same_training_def)
  have upd: "same_training E
        (a'\<lparr>ts_model := fst (ln_step (te_learner E) (ts_scaler a') (ts_model a')), ts_scaler := s1, ts_step := Suc (ts_step a')\<rparr>)
        (b'\<lparr>ts_model := fst (ln_step (te_learner E) (ts_scaler b') (ts_model b')), ts_scaler := s2, ts_step := Suc (ts_step b')\<rparr>)"
    if "same_training E a' b'" for a' b' s1 s2
    using that L [unfolded scaler_unused_def] by (simp add: same_training_def)
  show ?thesis unfolding train_step_def Let_def case_prod_unfold
    by (rule rel_bind [OF micro_steps_same [OF R L m]]) (auto simp: rel_prod_sel intro!: after_step_same upd)
qed

lemma train_steps_same:
  assumes R: "perm_ok (te_perm E)" and L: "scaler_unused (te_learner E)" and "same_training E a b"
  shows "rel_sum (=) (same_training E) (train_steps E n a) (train_steps E n b)"
  using assms(3)
proof (induction n arbitrary: a b)
  case (Suc n)
  show ?case using rel_bind [OF train_step_same [OF R L Suc.prems] Suc.IH] by simp
qed simp

lemma train_finish_same:
  assumes "same_training E a b"
  shows "rel_sum (=) (same_training E) (train_finish E a) (train_finish E b)"
proof -
  have h: "ts_history b = ts_history a" "ts_step b = ts_step a" using assms by (simp_all add: same_training_def)
  show ?thesis unfolding train_finish_def h
    using assms by (auto intro!: rel_bind [OF run_eval_same [OF assms]] save_last_same)
qed

definition saved_as :: "('m, 's) tstate \<Rightarrow> 'm ckpt \<Rightarrow> bool" where
  "saved_as st k \<longleftrightarrow> ck_model k = ts_model st \<and> ck_step k = ts_step st \<and> ck_best k = ts_best st \<and> ck_history k = ts_history st"

lemma run_eval_frame:
  "run_eval E st = Inr st' \<Longrightarrow> ts_last st' = ts_last st \<and> ts_step st' = ts_step st \<and> ts_sampler st' = ts_sampler st \<and>
     (te_val E \<noteq> None \<longrightarrow> ts_history st' \<noteq> [] \<and> fst (last (ts_history st')) = ts_step st)"
  by (auto simp: run_eval_def Let_def split: option.splits if_splits)

lemma eval_if_frame:
  "(if c then run_eval E st else Inr st) = Inr st' \<Longrightarrow> ts_last st' = ts_last st \<and> ts_step st' = ts_step st"
  using run_eval_frame [of E st st'] by (cases c) auto

lemma micro_steps_frame:
  "micro_steps E ms st acc = Inr (st', loss) \<Longrightarrow> ts_last st' = ts_last st \<and> ts_step st' = ts_step st"
proof (induction ms arbitrary: st acc)
  case (Cons i ms)
  then obtain st1 l where 1: "micro_step E st i = Inr (st1, l)" "micro_steps E ms st1 (add_opt acc l) = Inr (st', loss)" by auto
  have "ts_last st1 = ts_last st \<and> ts_step st1 = ts_step st"
    using 1(1) by (auto simp: micro_step_def micro_learn_def Let_def case_prod_unfold)
  then show ?case using Cons.IH [OF 1(2)] by simp
qed simp

lemma after_step_frame:
  assumes "after_step E loss st = Inr st'"
  shows "ts_step st' = ts_step st \<and> (ts_last st' = ts_last st \<or> (\<exists>k. ts_last st' = Some k \<and> saved_as st' k))"
proof -
  let ?st1 = "if ts_step st mod tc_log_every (te_cfg E) = 0
      then st\<lparr>ts_log := ts_log st @ [Log_Train (ts_step st) (map_option (round_to 5) loss) (gs_topups (ts_sampler st))]\<rparr> else st"
  obtain st2 where 2: "(if tc_eval_every (te_cfg E) \<noteq> 0 \<and> ts_step st mod tc_eval_every (te_cfg E) = 0 then run_eval E ?st1 else Inr ?st1) = Inr st2"
      "st' = (if ts_step st mod tc_save_every (te_cfg E) = 0 \<or> ts_step st = tc_max_steps (te_cfg E) then save_last st2 else st2)"
    using assms unfolding after_step_def Let_def by (auto split: if_splits)
  have "ts_last st2 = ts_last ?st1 \<and> ts_step st2 = ts_step ?st1"
    by (rule eval_if_frame [OF 2(1)])
  moreover have "ts_last ?st1 = ts_last st \<and> ts_step ?st1 = ts_step st" by simp
  ultimately show ?thesis using 2(2) by (auto simp: save_last_def saved_as_def)
qed

lemma train_step_frame:
  assumes "train_step E st = Inr st'"
  shows "ts_step st' = Suc (ts_step st) \<and> (ts_last st' = ts_last st \<or> (\<exists>k. ts_last st' = Some k \<and> saved_as st' k))"
proof -
  obtain st1 loss where 1: "micro_steps E [0..<tc_grad_accum (te_cfg E)] (st\<lparr>ts_model := ln_zero (te_learner E) (ts_model st)\<rparr>) (Some 0) = Inr (st1, loss)"
      "after_step E loss (st1\<lparr>ts_model := fst (ln_step (te_learner E) (ts_scaler st1) (ts_model st1)),
         ts_scaler := snd (ln_step (te_learner E) (ts_scaler st1) (ts_model st1)), ts_step := ts_step st1 + 1\<rparr>) = Inr st'"
    using assms unfolding train_step_def Let_def case_prod_unfold by auto
  show ?thesis using micro_steps_frame [OF 1(1)] after_step_frame [OF 1(2)] by simp
qed

lemma train_steps_frame:
  "train_steps E n st = Inr st' \<Longrightarrow> ts_step st' = ts_step st + n \<and> (ts_last st' = ts_last st \<or>
     (\<exists>j sj k. 0 < j \<and> j \<le> n \<and> train_steps E j st = Inr sj \<and> ts_last st' = Some k \<and> saved_as sj k))"
proof (induction n arbitrary: st)
  case (Suc n)
  then obtain s1 where 1: "train_step E st = Inr s1" "train_steps E n s1 = Inr st'" by auto
  note f = train_step_frame [OF 1(1)] and ih = Suc.IH [OF 1(2)]
  have one: "train_steps E 1 st = Inr s1" by (simp add: 1(1))
  show ?case
  proof (cases "ts_last st' = ts_last s1")
    case True
    then show ?thesis using f ih one by (metis One_nat_def add_Suc_right add_Suc zero_less_one Suc_le_mono zero_le)
  next
    case False
    then obtain j sj k where j: "0 < j" "j \<le> n" "train_steps E j s1 = Inr sj" "ts_last st' = Some k" "saved_as sj k" using ih by blast
    then have "train_steps E (Suc j) st = Inr sj" by (simp add: 1(1))
    then show ?thesis using f ih j by (metis Suc_le_mono add_Suc_right add_Suc zero_less_Suc)
  qed
qed simp

lemma train_steps_add: "train_steps E (m + n) st = res_bind (train_steps E m st) (train_steps E n)"
proof (induction m arbitrary: st)
  case (Suc m)
  then show ?case by (cases "train_step E st") simp_all
qed simp

lemma train_start_frame:
  "train_start E c = Inr st \<Longrightarrow> ts_last st = c \<and> ts_sampler st = te_sampler E \<and>
     (ts_step st = 0 \<longrightarrow> te_val E \<noteq> None \<longrightarrow> ts_history st \<noteq> [] \<and> fst (last (ts_history st)) = 0)"
  by (auto simp: train_start_def Let_def split: option.splits if_splits dest!: run_eval_frame)

lemma train_start_saved:
  assumes "0 < ck_step k"
  shows "\<exists>st. train_start E (Some k) = Inr st \<and> saved_as st k \<and> ts_sampler st = te_sampler E"
  using assms by (simp add: train_start_def Let_def saved_as_def)

lemma rel_same_trans:
  "rel_sum (=) (same_training E) x y \<Longrightarrow> rel_sum (=) (same_training E) y z \<Longrightarrow> rel_sum (=) (same_training E) x z"
  by (cases x; cases y; cases z) (auto simp: same_training_def)

text \<open>The hypotheses of the run: numpy's generator as documented, no loss scaling, a sampler whose cache
  is right (a new one has an empty cache).\<close>

definition replayable :: "('m, 's, 'g) train_env \<Rightarrow> bool" where
  "replayable E \<longleftrightarrow> perm_ok (te_perm E) \<and> scaler_unused (te_learner E) \<and> cache_ok (te_perm E) (te_sampler E)"

lemma train_refl:
  assumes "replayable E"
  shows "rel_sum (=) (same_training E) (train E c) (train E c)"
proof (cases "train_start E c")
  case (Inr st)
  then have st: "same_training E st st"
    using assms train_start_frame [OF Inr] by (simp add: same_training_def replayable_def)
  show ?thesis
    using rel_bind [OF train_steps_same [OF _ _ st] train_finish_same] assms Inr by (simp add: train_def replayable_def)
qed (simp add: train_def)

lemma resume_mid:
  assumes E: "replayable E" and st: "train_start E c = Inr st" and j: "0 < j" "j \<le> tc_max_steps (te_cfg E) - ts_step st"
    and sj: "train_steps E j st = Inr sj" and k: "saved_as sj k"
  shows "0 < ck_step k \<and> rel_sum (=) (same_training E) (train E (Some k)) (train E c)"
proof -
  let ?n = "tc_max_steps (te_cfg E) - ts_step st"
  have RL: "perm_ok (te_perm E)" "scaler_unused (te_learner E)" using E by (simp_all add: replayable_def)
  have st0: "same_training E st st"
    using E train_start_frame [OF st] by (simp add: same_training_def replayable_def)
  have jj: "ts_step sj = ts_step st + j" using train_steps_frame [OF sj] by simp
  then have pos: "0 < ck_step k" using k j(1) by (simp add: saved_as_def)
  then obtain sk where sk: "train_start E (Some k) = Inr sk" "saved_as sk k" "ts_sampler sk = te_sampler E"
    using train_start_saved by blast
  have "same_training E sj sj" using train_steps_same [OF RL st0, of j] sj by simp
  then have same: "same_training E sk sj" using sk k E by (simp add: same_training_def saved_as_def replayable_def)
  have n: "tc_max_steps (te_cfg E) - ts_step sk = ?n - j" using sk(2) k jj by (simp add: saved_as_def)
  have "train_steps E ?n st = train_steps E (?n - j) sj"
    using train_steps_add [of E j "?n - j" st] sj by (simp only: le_add_diff_inverse [OF j(2)] res_bind.simps)
  then have "train E c = res_bind (train_steps E (?n - j) sj) (train_finish E)" using st by (simp add: train_def)
  moreover have "train E (Some k) = res_bind (train_steps E (?n - j) sk) (train_finish E)" using sk(1) n by (simp add: train_def)
  ultimately show ?thesis using rel_bind [OF train_steps_same [OF RL same] train_finish_same] pos by simp
qed

lemma resume_finished:
  assumes E: "replayable E" and t: "train E c = Inr sf" and k: "ts_last sf = Some k" "saved_as sf k" "0 < ck_step k"
    and hist: "te_val E \<noteq> None \<longrightarrow> ts_history sf \<noteq> [] \<and> fst (last (ts_history sf)) = ts_step sf"
    and step: "tc_max_steps (te_cfg E) \<le> ts_step sf" and good: "same_training E sf sf"
  shows "rel_sum (=) (same_training E) (train E (Some k)) (train E c)"
proof -
  obtain sk where sk: "train_start E (Some k) = Inr sk" "saved_as sk k" "ts_sampler sk = te_sampler E"
    using train_start_saved [OF k(3)] by blast
  have same: "same_training E sk sf" using sk k good E by (simp add: same_training_def saved_as_def replayable_def)
  have "tc_max_steps (te_cfg E) - ts_step sk = 0" using step sk(2) k(2) by (simp add: saved_as_def)
  moreover have "train_finish E sk = Inr sk" using hist same by (auto simp: train_finish_def same_training_def)
  ultimately have "train E (Some k) = Inr sk" using sk(1) by (simp add: train_def)
  then show ?thesis using t same by simp
qed

lemma ckpt_resumes:
  assumes "ckpt_reach E c" and E: "replayable E"
  shows "(\<forall>k. c = Some k \<longrightarrow> 0 < ck_step k) \<and> rel_sum (=) (same_training E) (train E c) (train E None)"
  using assms(1)
proof induction
  case nothing
  show ?case using train_refl [OF E] by simp
next
  case (stopped c st n st')
  have last: "ts_last st = c" using train_start_frame [OF stopped.hyps(2)] by simp
  show ?case
  proof (cases "ts_last st' = ts_last st")
    case True
    then show ?thesis using stopped.IH last by simp
  next
    case False
    then obtain j sj k where j: "0 < j" "j \<le> n" "train_steps E j st = Inr sj" "ts_last st' = Some k" "saved_as sj k"
      using train_steps_frame [OF stopped.hyps(4)] by blast
    have "j \<le> tc_max_steps (te_cfg E) - ts_step st" using j(2) stopped.hyps(3) by simp
    from resume_mid [OF E stopped.hyps(2) j(1) this j(3,5)] show ?thesis
      using stopped.IH j(4) by (auto intro: rel_same_trans)
  qed
next
  case (finished c sf)
  obtain st s1 where st: "train_start E c = Inr st" "train_steps E (tc_max_steps (te_cfg E) - ts_step st) st = Inr s1" "train_finish E s1 = Inr sf"
    using finished.hyps(2) by (auto simp: train_def)
  have last: "ts_last st = c" using train_start_frame [OF st(1)] by simp
  note steps = train_steps_frame [OF st(2)]
  show ?case
  proof (cases "te_val E \<noteq> None \<and> (ts_history s1 = [] \<or> fst (last (ts_history s1)) \<noteq> ts_step s1)")
    case True
    then obtain s2 where s2: "run_eval E s1 = Inr s2" "sf = save_last s2" using st(3) by (auto simp: train_finish_def)
    note f = run_eval_frame [OF s2(1)]
    have "ts_step s1 \<noteq> 0"
    proof
      assume 0: "ts_step s1 = 0"
      then have "tc_max_steps (te_cfg E) - ts_step st = 0" using steps by simp
      then have "s1 = st" using st(2) by (simp only: train_steps.simps sum.inject)
      then show False using True 0 train_start_frame [OF st(1)] by auto
    qed
    define k where "k = \<lparr>ck_model = ts_model s2, ck_step = ts_step s2, ck_best = ts_best s2, ck_history = ts_history s2\<rparr>"
    then have k: "ts_last sf = Some k" "saved_as sf k" "0 < ck_step k"
      using f s2(2) \<open>ts_step s1 \<noteq> 0\<close> by (simp_all add: save_last_def saved_as_def)
    have "same_training E sf sf" using train_refl [OF E, of c] finished.hyps(2) by simp
    moreover have "tc_max_steps (te_cfg E) \<le> ts_step sf" using steps f s2(2) by (simp add: save_last_def)
    moreover have "ts_history sf \<noteq> [] \<and> fst (last (ts_history sf)) = ts_step sf" using f True s2(2) by (simp add: save_last_def)
    ultimately have "rel_sum (=) (same_training E) (train E (Some k)) (train E c)"
      using resume_finished [OF E finished.hyps(2) k] by blast
    then show ?thesis using finished.IH k by (auto intro: rel_same_trans)
  next
    case False
    then have sf: "sf = s1" using st(3) by (auto simp: train_finish_def split: if_splits)
    show ?thesis
    proof (cases "ts_last s1 = ts_last st")
      case True
      then show ?thesis using finished.IH last sf by simp
    next
      case False
      then obtain j sj k where j: "0 < j" "j \<le> tc_max_steps (te_cfg E) - ts_step st" "train_steps E j st = Inr sj" "ts_last s1 = Some k" "saved_as sj k"
        using steps by blast
      from resume_mid [OF E st(1) j(1,2,3,5)] show ?thesis using finished.IH j(4) sf by (auto intro: rel_same_trans)
    qed
  qed
qed

text \<open>C24: training resumed from any checkpoint that any sequence of interrupted runs can leave ends like the
  run that was never interrupted: the same model and optimizer, step, best score and validation history, or
  the same error; provided losses are not scaled, since a checkpoint does not keep the state of the scaler.\<close>

theorem training_resumes:
  assumes "replayable E" and "ckpt_reach E c"
  shows "map_sum id (\<lambda>st. (ts_model st, ts_step st, ts_best st, ts_history st)) (train E c) =
    map_sum id (\<lambda>st. (ts_model st, ts_step st, ts_best st, ts_history st)) (train E None)"
  using ckpt_resumes [OF assms(2,1)] by (cases "train E c"; cases "train E None") (auto simp: same_training_def)

definition demo_learner :: "(nat, unit) learner" where
  \<comment> \<open>a model that counts its updates\<close>
  "demo_learner = \<lparr>ln_start = 0, ln_scaler = (), ln_zero = \<lambda>m. m, ln_logits = \<lambda>m ps. (Some (map (\<lambda>p. 0) ps), m),
     ln_backward = \<lambda>s m ps l n a. m, ln_step = \<lambda>s m. (Suc m, ()), ln_scores = \<lambda>m q p. [], ln_argsort = \<lambda>xs. []\<rparr>"

definition demo_train :: "(nat, unit, unit) train_env" where
  "demo_train = \<lparr>te_cfg = \<lparr>tc_loss = ''listwise'', tc_n_neg = 1, tc_batch_groups = 1, tc_grad_accum = 1, tc_max_steps = 2,
       tc_eval_every = 0, tc_save_every = 1, tc_log_every = 5\<rparr>,
     te_learner = demo_learner, te_perm = demo_perm, te_val = None, te_sampler = demo_sampler\<rparr>"

lemma demo_batches:
  "batch demo_perm demo_sampler 0 1 = Inr ([(''q'', ''1'', [''3''])], demo_sampler\<lparr>gs_orders := [(0, [0])]\<rparr>)"
  "batch demo_perm (demo_sampler\<lparr>gs_orders := [(0, [0])]\<rparr>) 1 1 =
     Inr ([(''q'', ''1'', [''3''])], demo_sampler\<lparr>gs_orders := [(0, [0]), (1, [0])]\<rparr>)"
  by (simp add: batch_def epoch_order_def epoch_perm_def demo_perm_def demo_sampler_def dhas_def dset_def sample_group_def
      strategy_negs_def draw_from_def neg_ok_def Let_def norm_text_def strip_def rstrip_def lstrip_def lower_char_def
      is_space_char_def code_def, code_simp)+

lemma demo_pairs: "group_pairs (demo_sampler\<lparr>gs_orders := os\<rparr>) [(''q'', ''1'', [''3''])] = Inr [(''solar'', ''A b''), (''solar'', ''c'')]"
  by (simp add: group_pairs_def demo_sampler_def dlookup_def)

lemma demo_loss: "\<exists>l. group_loss [0, 0] 2 ''listwise'' = Inr l"
  by (simp add: group_loss_def)

theorem training_resumes_witness:
  "\<exists>st. train demo_train (Some \<lparr>ck_model = 1, ck_step = 1, ck_best = - 1, ck_history = []\<rparr>) = Inr st \<and> ts_model st = 2"
proof -
  let ?st = "\<lambda>m n os c. \<lparr>ts_model = m, ts_scaler = (), ts_sampler = demo_sampler\<lparr>gs_orders := os\<rparr>, ts_step = n, ts_best = - 1, ts_history = [],
      ts_last = c, ts_best_model = None, ts_log = []\<rparr> :: (nat, unit) tstate"
  let ?k = "\<lambda>n. \<lparr>ck_model = n, ck_step = n, ck_best = - 1 :: real, ck_history = [] :: val_history\<rparr>"
  obtain l where l: "group_loss [0, 0] 2 ''listwise'' = Inr l" using demo_loss by blast
  note d = demo_train_def demo_learner_def
  have s0: "train_start demo_train None = Inr (?st 0 0 [] None)"
    by (simp add: train_start_def d run_eval_def demo_sampler_def)
  have s1: "train_step demo_train (?st 0 0 [] None) = Inr (?st 1 1 [(0, [0])] (Some (?k 1)))"
    using demo_batches(1) demo_pairs [of "[(0, [0])]"] l
    by (simp add: train_step_def micro_step_def micro_learn_def after_step_def d add_opt_def save_last_def demo_sampler_def numeral_2_eq_2)
  have s2: "train_step demo_train (?st 1 1 [(0, [0])] (Some (?k 1))) = Inr (?st 2 2 [(0, [0]), (1, [0])] (Some (?k 2)))"
    using demo_batches(2) demo_pairs [of "[(0, [0]), (1, [0])]"] l
    by (simp add: train_step_def micro_step_def micro_learn_def after_step_def d add_opt_def save_last_def demo_sampler_def numeral_2_eq_2)
  have cfg: "tc_max_steps (te_cfg demo_train) = Suc (Suc 0)" "te_val demo_train = None" by (simp_all add: d)
  have full: "train demo_train None = Inr (?st 2 2 [(0, [0]), (1, [0])] (Some (?k 2)))"
    using s1 s2 by (simp add: train_def s0 cfg train_finish_def)
  have "train_steps demo_train 1 (?st 0 0 [] None) = Inr (?st 1 1 [(0, [0])] (Some (?k 1)))"
    by (simp add: s1)
  from ckpt_reach.stopped [OF ckpt_reach.nothing s0 _ this] have "ckpt_reach demo_train (Some (?k 1))"
    by (simp add: cfg)
  moreover have "replayable demo_train"
    by (simp add: replayable_def d perm_ok_demo scaler_unused_def cache_ok_def demo_sampler_def)
  ultimately show ?thesis using training_resumes [of demo_train "Some (?k 1)"] full
    by (cases "train demo_train (Some (?k 1))") auto
qed

end
