(* ===== verification/Sensitivity.thy ===== *)
theory Sensitivity
  imports Analyze_Events
begin

text \<open>
  \<open>py/hybridsearch/clicks/sensitivity.py\<close>: the interleavings of a pair of rankers, the outcome of an
  impression under each method, the tabulated distributions, multinomial trials and their power, the
  impressions needed for a target power, and the direct simulation.  \<open>norm.sf\<close>, \<open>norm.ppf\<close>,
  \<open>binom.cdf\<close> and the isotonic fit are arguments.  The lemmas show that the integer codes carry the
  impression metrics and that a tabulated pool has exactly their mean.
\<close>

section \<open>Pairs of rankers\<close>

record il_entries =
  et_grades :: "int list list"
  et_teams :: "int list list option"
  et_aux_a :: "real list list option"
  et_aux_b :: "real list list option"
  et_prob :: "real list"

record pair =
  pr_a :: string
  pr_b :: string
  pr_grades_a :: "int list list"
  pr_grades_b :: "int list list"
  pr_ndcg_a :: "real list"
  pr_ndcg_b :: "real list"
  pr_entries :: "(string, il_entries) dict"

definition INTERLEAVE_METHODS :: "string list" where
  "INTERLEAVE_METHODS = [''tdi'', ''bi'', ''pi'']"

definition offline_delta :: "pair \<Rightarrow> real" where
  "offline_delta p = mean (pr_ndcg_a p) - mean (pr_ndcg_b p)"

definition grade_at :: "int list \<Rightarrow> int \<Rightarrow> int" where
  \<comment> \<open>index -1 is the last element, the empty slot\<close>
  "grade_at gs j = (if j < 0 then last gs else gs ! nat j)"

definition opt_append :: "'a list option \<Rightarrow> 'a list option \<Rightarrow> 'a list option" where
  "opt_append a b = (case b of None \<Rightarrow> a | Some y \<Rightarrow> Some (case a of None \<Rightarrow> y | Some x \<Rightarrow> x @ y))"

definition no_entries :: il_entries where
  "no_entries = \<lparr>et_grades = [], et_teams = None, et_aux_a = None, et_aux_b = None, et_prob = []\<rparr>"

definition add_pool :: "nat \<Rightarrow> int list \<Rightarrow> il_entries \<Rightarrow> pool \<Rightarrow> il_entries" where
  "add_pool nq gs e pl =
     \<lparr>et_grades = et_grades e @ map (map (grade_at gs)) (pl_docs pl), et_teams = opt_append (et_teams e) (pl_teams pl),
      et_aux_a = opt_append (et_aux_a e) (pl_aux_a pl), et_aux_b = opt_append (et_aux_b e) (pl_aux_b pl),
      et_prob = et_prob e @ map (\<lambda>p. p / real nq) (pl_prob pl)\<rparr>"

definition method_pool :: "'g rng_ops \<Rightarrow> nat \<Rightarrow> nat \<Rightarrow> string \<Rightarrow> int list \<Rightarrow> int list \<Rightarrow> 'g \<Rightarrow> (pool \<times> 'g) res" where
  "method_pool R k pi_samples m ia ib g =
     (if m = ''tdi'' then Inr (precompute_team_draft ia ib k, g)
      else if m = ''bi'' then Inr (precompute_balanced ia ib k, g)
      else precompute_probabilistic (draw_uniform R) (rg_choice R) ia ib k g pi_samples 3)"

definition pair_method :: "'g rng_ops \<Rightarrow> nat \<Rightarrow> nat \<Rightarrow> nat \<Rightarrow> int list \<Rightarrow> int list \<Rightarrow> int list \<Rightarrow>
    (string, il_entries) dict \<times> 'g \<Rightarrow> string \<Rightarrow> ((string, il_entries) dict \<times> 'g) res" where
  "pair_method R k pi_samples nq gs ia ib st m =
     res_bind (method_pool R k pi_samples m ia ib (snd st)) (\<lambda>(pl, g).
       Inr (dset (fst st) m (add_pool nq gs (dget (fst st) m no_entries) pl), g))"

definition pair_query :: "'g rng_ops \<Rightarrow> ranker_table \<Rightarrow> string \<Rightarrow> string \<Rightarrow> nat \<Rightarrow> string list \<Rightarrow>
    (string, il_entries) dict \<times> 'g \<Rightarrow> nat \<times> qid \<Rightarrow> ((string, il_entries) dict \<times> 'g) res" where
  "pair_query R t a b pi_samples methods st iq =
     (let (i, q) = iq in
      res_bind (dlookup (rt_lists t) a) (\<lambda>las. res_bind (dlookup (rt_lists t) b) (\<lambda>lbs.
        res_bind (dlookup (rt_qrels t) q) (\<lambda>judged.
          let la = las ! i; lb = lbs ! i; docs = first_seen (la @ lb); idx = positions_of docs;
              gs = map (\<lambda>d. dget judged d 0) docs @ [- 1];
              ia = map (\<lambda>d. int (dget idx d 0)) la; ib = map (\<lambda>d. int (dget idx d 0)) lb
          in res_fold (pair_method R (rt_k t) pi_samples (length (rt_qids t)) gs ia ib) st methods))))"

definition build_pair :: "'g rng_ops \<Rightarrow> ranker_table \<Rightarrow> string \<Rightarrow> string \<Rightarrow> 'g \<Rightarrow> nat \<Rightarrow> string list \<Rightarrow> (pair \<times> 'g) res" where
  \<comment> \<open>concatenating no pools at all is a ValueError\<close>
  "build_pair R t a b g pi_samples methods =
     res_bind (table_grades t a) (\<lambda>ga. res_bind (table_grades t b) (\<lambda>gb.
       res_bind (table_ndcg t a 10) (\<lambda>na. res_bind (table_ndcg t b 10) (\<lambda>nb.
         res_bind (res_fold (pair_query R t a b pi_samples methods) (map (\<lambda>m. (m, no_entries)) (first_seen methods), g)
                     (enumerate 0 (rt_qids t))) (\<lambda>(es, g').
           if rt_qids t = [] \<and> methods \<noteq> [] then Inl ValueError
           else Inr (\<lparr>pr_a = a, pr_b = b, pr_grades_a = ga, pr_grades_b = gb, pr_ndcg_a = na, pr_ndcg_b = nb,
                      pr_entries = es\<rparr>, g'))))))"

section \<open>Outcomes of impressions\<close>

definition pick :: "nat list \<Rightarrow> 'a list \<Rightarrow> 'a list" where
  \<comment> \<open>\<open>xs[idx]\<close>\<close>
  "pick idx xs = map (\<lambda>i. xs ! i) idx"

definition round_outcome :: "real \<Rightarrow> real \<Rightarrow> real" where
  \<comment> \<open>stochastic rounding to the grid of hundredths\<close>
  "round_outcome x u = (let y = x * 100; lo = of_int \<lfloor>y\<rfloor> in (lo + (if u < y - lo then 1 else 0)) / 100)"

definition interleave_outcomes :: "'g rng_ops \<Rightarrow> string \<Rightarrow> il_entries \<Rightarrow> nat list \<Rightarrow> bool list list \<Rightarrow> 'g \<Rightarrow> (real list \<times> 'g) res" where
  \<comment> \<open>a missing array is indexed as None, a TypeError\<close>
  "interleave_outcomes R method ent idx clicks g =
     (if method = ''tdi'' then
        (case et_teams ent of None \<Rightarrow> Inl TypeError
         | Some ts \<Rightarrow> Inr (map real_of_int (team_draft_outcome_batch (pick idx ts) clicks), g))
      else if method = ''bi'' then
        (case (et_aux_a ent, et_aux_b ent) of
           (Some aa, Some ab) \<Rightarrow> res_bind (balanced_outcome_batch (pick idx aa) (pick idx ab) clicks) (\<lambda>os. Inr (map real_of_int os, g))
         | _ \<Rightarrow> Inl TypeError)
      else if method = ''pi'' then
        (case et_aux_a ent of None \<Rightarrow> Inl TypeError
         | Some aa \<Rightarrow>
             (let os = probabilistic_marginal_outcome (pick idx aa) clicks; (us, g') = rg_random R g (length os)
              in Inr (map2 round_outcome os us, g')))
      else Inl ValueError)"

definition ab_codes :: "bool list list \<Rightarrow> (string, nat list) dict" where
  "ab_codes clicks =
     [(''ctr'', map n_clicks clicks),
      (''clicks_at_1'', map (\<lambda>r. if hd r then 1 else 0) clicks),
      (''abandonment'', map (\<lambda>r. if True \<in> set r then 0 else 1) clicks),
      (''rr_first'', map (\<lambda>r. if True \<in> set r then first_true r + 1 else 0) clicks)]"

definition ab_values :: "nat \<Rightarrow> (string, real list) dict" where
  "ab_values k =
     [(''ctr'', map real [0..<k + 1]), (''clicks_at_1'', [0, 1]), (''abandonment'', [0, 1]),
      (''rr_first'', 0 # map (\<lambda>r. 1 / real r) [1..<k + 1])]"

record dist =
  ds_values :: "real list"
  ds_probs :: "real list"
  ds_m :: nat

definition dot :: "real list \<Rightarrow> real list \<Rightarrow> real" where
  "dot xs ys = sum_list (map2 (*) xs ys)"

definition dist_mean :: "dist \<Rightarrow> real" where
  "dist_mean d = dot (ds_values d) (ds_probs d)"

definition dist_var :: "dist \<Rightarrow> real" where
  "dist_var d = dot (map (\<lambda>x. x ^ 2) (ds_values d)) (ds_probs d) - dist_mean d ^ 2"

section \<open>Pools\<close>

function pass_sizes :: "nat \<Rightarrow> nat \<Rightarrow> nat list option" where
  \<comment> \<open>the sizes of the passes of \<open>while done < m\<close> when \<open>m\<close> is left; None when the loop never ends\<close>
  "pass_sizes m chunk =
     (if m = 0 then Some [] else if chunk = 0 then None
      else map_option ((#) (min chunk m)) (pass_sizes (m - min chunk m) chunk))"
  by pat_completeness auto
termination by (relation "measure fst") auto

declare pass_sizes.simps [simp del]

definition bincount :: "nat \<Rightarrow> nat list \<Rightarrow> nat list" where
  "bincount n codes = map (\<lambda>j. length (filter (\<lambda>c. c = j) codes)) [0..<n]"

definition add_counts :: "nat list \<Rightarrow> nat list \<Rightarrow> nat list" where
  "add_counts xs ys = map2 (+) xs ys"

definition tabulate :: "nat \<Rightarrow> (string, nat list) dict \<Rightarrow> bool list list \<Rightarrow> (string, nat list) dict" where
  "tabulate k counts clicks =
     map (\<lambda>(mt, cs). (mt, add_counts cs (bincount (length cs) (dget (ab_codes clicks) mt [])))) counts"

definition simulate_rows :: "'g rng_ops \<Rightarrow> click_model \<Rightarrow> int list list \<Rightarrow> nat \<Rightarrow> nat \<Rightarrow> 'g \<Rightarrow> bool list list \<times> 'g" where
  \<comment> \<open>\<open>n\<close> impressions of queries drawn uniformly\<close>
  "simulate_rows R model grades k n g =
     (let (q, g1) = rg_integers R g (length grades) n; (r, g2) = simulate R model (pick q grades) k g1
      in (cr_clicks r, g2))"

fun pool_ab_loop :: "'g rng_ops \<Rightarrow> click_model \<Rightarrow> int list list \<Rightarrow> nat \<Rightarrow> nat list \<Rightarrow> (string, nat list) dict \<Rightarrow> 'g \<Rightarrow>
    (string, nat list) dict \<times> 'g" where
  "pool_ab_loop R model grades k [] counts g = (counts, g)"
| "pool_ab_loop R model grades k (n # ns) counts g =
     (let (c, g') = simulate_rows R model grades k n g
      in pool_ab_loop R model grades k ns (tabulate k counts c) g')"

definition pool_ab :: "'g rng_ops \<Rightarrow> int list list \<Rightarrow> nat \<Rightarrow> click_model \<Rightarrow> nat \<Rightarrow> nat \<Rightarrow> 'g \<Rightarrow> ((string, dist) dict \<times> 'g) res option" where
  \<comment> \<open>\<open>grades\<close> is an (n, k) array; drawing from no query is a ValueError\<close>
  "pool_ab R grades k model m chunk g =
     (if m \<noteq> 0 \<and> grades = [] \<and> chunk \<noteq> 0 then Some (Inl ValueError)
      else map_option (\<lambda>ns.
        (let vals = ab_values k;
             (counts, g') = pool_ab_loop R model grades k ns (map (\<lambda>mt. (mt, replicate (length (dget vals mt [])) 0)) METRICS) g
         in Inr (map (\<lambda>(mt, cs). (mt, \<lparr>ds_values = dget vals mt [], ds_probs = map (\<lambda>c. real c / real m) cs, ds_m = m\<rparr>)) counts, g')))
        (pass_sizes m chunk))"

definition cumsum :: "real list \<Rightarrow> real list" where
  "cumsum xs = map (\<lambda>i. sum_list (take (Suc i) xs)) [0..<length xs]"

definition entry_cdf :: "real list \<Rightarrow> real list" where
  "entry_cdf prob = (let c = cumsum prob in map (\<lambda>x. x / last c) c)"

definition draw_entry :: "real list \<Rightarrow> real \<Rightarrow> nat" where
  \<comment> \<open>\<open>np.minimum(np.searchsorted(cdf, u, side="right"), len(cdf) - 1)\<close>\<close>
  "draw_entry cdf u = min (length (filter (\<lambda>c. c \<le> u) cdf)) (length cdf - 1)"

definition draw_impressions :: "'g rng_ops \<Rightarrow> string \<Rightarrow> il_entries \<Rightarrow> click_model \<Rightarrow> nat \<Rightarrow> nat \<Rightarrow> 'g \<Rightarrow> (real list \<times> 'g) res" where
  \<comment> \<open>outcomes of \<open>n\<close> interleaved impressions; \<open>cdf[-1]\<close> of nothing is an IndexError\<close>
  "draw_impressions R method ent model k n g =
     (if et_prob ent = [] then Inl IndexError
      else (let cdf = entry_cdf (et_prob ent); (us, g1) = rg_random R g n; idx = map (draw_entry cdf) us;
                (r, g2) = simulate R model (pick idx (et_grades ent)) k g1
            in interleave_outcomes R method ent idx (cr_clicks r) g2))"

definition add_outcomes :: "(real, nat) dict \<Rightarrow> real list \<Rightarrow> (real, nat) dict" where
  "add_outcomes acc os = foldl (\<lambda>d (v, c). dset d v (dget d v 0 + c)) acc (unique_counts os)"

fun pool_interleave_loop :: "'g rng_ops \<Rightarrow> string \<Rightarrow> il_entries \<Rightarrow> click_model \<Rightarrow> nat \<Rightarrow> nat list \<Rightarrow> (real, nat) dict \<Rightarrow> 'g \<Rightarrow>
    ((real, nat) dict \<times> 'g) res" where
  "pool_interleave_loop R method ent model k [] acc g = Inr (acc, g)"
| "pool_interleave_loop R method ent model k (n # ns) acc g =
     res_bind (draw_impressions R method ent model k n g) (\<lambda>(os, g').
       pool_interleave_loop R method ent model k ns (add_outcomes acc os) g')"

definition pool_interleave :: "'g rng_ops \<Rightarrow> string \<Rightarrow> il_entries \<Rightarrow> click_model \<Rightarrow> nat \<Rightarrow> nat \<Rightarrow> nat \<Rightarrow> 'g \<Rightarrow> (dist \<times> 'g) res option" where
  "pool_interleave R method ent model k m chunk g =
     (if et_prob ent = [] then Some (Inl IndexError)
      else map_option (\<lambda>ns.
        res_bind (pool_interleave_loop R method ent model k ns [] g) (\<lambda>(acc, g').
          let v = sort (keys acc)
          in Inr (\<lparr>ds_values = v, ds_probs = map (\<lambda>x. real (dget acc x 0) / real m) v, ds_m = m\<rparr>, g')))
        (pass_sizes m chunk))"

section \<open>Power\<close>

definition n_grid :: "real \<Rightarrow> real \<Rightarrow> nat \<Rightarrow> nat list" where
  \<comment> \<open>\<open>lo\<close> and \<open>hi\<close> are exponents of 10\<close>
  "n_grid lo hi per_decade =
     (let n = nat \<lfloor>(hi - lo) * real per_decade\<rfloor> + 1;
          xs = map (\<lambda>i. if n = 1 then lo else lo + real i * ((hi - lo) / (real n - 1))) [0..<n]
      in sort (remdups (map (\<lambda>x. nat (round_half_even (10 powr x))) xs)))"

definition sign_of :: "bool \<Rightarrow> real" where
  "sign_of b = (if b then 1 else - 1)"

definition trial_interleave :: "(real \<Rightarrow> real) \<Rightarrow> (nat \<Rightarrow> nat \<Rightarrow> real) \<Rightarrow> string \<Rightarrow> real list \<Rightarrow> nat \<Rightarrow> real \<Rightarrow> nat list \<Rightarrow> real \<times> real" where
  \<comment> \<open>p-value and direction of one trial with counts \<open>cnt\<close>\<close>
  "trial_interleave sf cdf method vals n sgn0 cnt =
     (if method = ''tdi'' \<or> method = ''bi'' then
        (let wins = sum_list (map snd (filter (\<lambda>(v, c). v > 0) (zip vals cnt)));
             losses = sum_list (map snd (filter (\<lambda>(v, c). v < 0) (zip vals cnt)))
         in (sign_test_p cdf wins losses, sgn (real wins - real losses) * sgn0))
      else
        (let xs = map real cnt; m = dot xs vals / real n;
             v = max ((dot xs (map (\<lambda>x. x ^ 2) vals) - real n * m ^ 2) / real (max (n - 1) 1)) 0
         in (one_sample_p sf m v (real n), sgn m * sgn0)))"

definition rates :: "real \<Rightarrow> (real \<times> real) list \<Rightarrow> real \<times> real" where
  \<comment> \<open>the shares of significant trials in the right and in the wrong direction\<close>
  "rates alpha pds =
     (mean (map (\<lambda>(p, d). if p < alpha \<and> d > 0 then 1 else 0) pds),
      mean (map (\<lambda>(p, d). if p < alpha \<and> d < 0 then 1 else 0) pds))"

fun power_interleave :: "(real \<Rightarrow> real) \<Rightarrow> (nat \<Rightarrow> nat \<Rightarrow> real) \<Rightarrow> 'g rng_ops \<Rightarrow> string \<Rightarrow> dist \<Rightarrow> nat \<Rightarrow> bool \<Rightarrow> real \<Rightarrow>
    nat list \<Rightarrow> 'g \<Rightarrow> (real \<times> real) list \<times> 'g" where
  \<comment> \<open>the two arrays over \<open>ns\<close> as a list of pairs\<close>
  "power_interleave sf cdf R method d trials a_is_better alpha [] g = ([], g)"
| "power_interleave sf cdf R method d trials a_is_better alpha (n # ns) g =
     (let (cnts, g1) = rg_multinomial R g n (ds_probs d) trials;
          r = rates alpha (map (trial_interleave sf cdf method (ds_values d) n (sign_of a_is_better)) cnts);
          (rs, g2) = power_interleave sf cdf R method d trials a_is_better alpha ns g1
      in (r # rs, g2))"

definition count_moments :: "real list \<Rightarrow> nat \<Rightarrow> nat list \<Rightarrow> real \<times> real" where
  \<comment> \<open>mean and clipped sample variance of a trial given by its counts\<close>
  "count_moments vals n cnt =
     (let xs = map real cnt; m = dot xs vals / real n
      in (m, max ((dot xs (map (\<lambda>x. x ^ 2) vals) - real n * m ^ 2) / (real n - 1)) 0))"

definition trial_ab :: "(real \<Rightarrow> real) \<Rightarrow> real \<Rightarrow> dist \<Rightarrow> dist \<Rightarrow> nat \<Rightarrow> nat \<Rightarrow> nat list \<Rightarrow> nat list \<Rightarrow> real \<times> real" where
  "trial_ab sf sgn0 da db na nb ca cb =
     (let (ma, va) = count_moments (ds_values da) na ca; (mb, vb) = count_moments (ds_values db) nb cb
      in (welch_p sf mb vb (real nb) ma va (real na), sgn (ma - mb) * sgn0))"

fun power_ab_loop :: "(real \<Rightarrow> real) \<Rightarrow> 'g rng_ops \<Rightarrow> real \<Rightarrow> dist \<Rightarrow> dist \<Rightarrow> nat \<Rightarrow> real \<Rightarrow> nat list \<Rightarrow> 'g \<Rightarrow> (real \<times> real) list \<times> 'g" where
  "power_ab_loop sf R sgn0 da db trials alpha [] g = ([], g)"
| "power_ab_loop sf R sgn0 da db trials alpha (n # ns) g =
     (let na = max (n div 2) 2; nb = max (n - na) 2;
          (ca, g1) = rg_multinomial R g na (ds_probs da) trials; (cb, g2) = rg_multinomial R g1 nb (ds_probs db) trials;
          r = rates alpha (map2 (trial_ab sf sgn0 da db na nb) ca cb);
          (rs, g3) = power_ab_loop sf R sgn0 da db trials alpha ns g2
      in (r # rs, g3))"

definition power_ab :: "(real \<Rightarrow> real) \<Rightarrow> 'g rng_ops \<Rightarrow> string \<Rightarrow> dist \<Rightarrow> dist \<Rightarrow> nat list \<Rightarrow> nat \<Rightarrow> 'g \<Rightarrow> bool \<Rightarrow> real \<Rightarrow>
    ((real \<times> real) list \<times> 'g) res" where
  "power_ab sf R metric da db ns trials g a_is_better alpha =
     res_bind (dlookup HIGHER_IS_BETTER metric) (\<lambda>good.
       Inr (power_ab_loop sf R (sign_of good * sign_of a_is_better) da db trials alpha ns g))"

definition n_at_power :: "(real list \<Rightarrow> real list \<Rightarrow> real list) \<Rightarrow> nat list \<Rightarrow> real list \<Rightarrow> real \<Rightarrow> real option" where
  \<comment> \<open>\<open>isofit x y\<close> is the increasing isotonic fit\<close>
  "n_at_power isofit ns pw target =
     (let x = map (\<lambda>n. log 10 (real n)) ns; fit = isofit x pw in
      case filter (\<lambda>j. fit ! j \<ge> target) [0..<length fit] of
        [] \<Rightarrow> None
      | 0 # _ \<Rightarrow> Some (real (ns ! 0))
      | Suc i # _ \<Rightarrow>
          (let x0 = x ! i; x1 = x ! Suc i; y0 = fit ! i; y1 = fit ! Suc i;
               xt = (if y1 = y0 then x1 else x0 + (target - y0) * (x1 - x0) / (y1 - y0))
           in Some (10 powr xt)))"

definition analytic_n80_ab :: "(real \<Rightarrow> real) \<Rightarrow> dist \<Rightarrow> dist \<Rightarrow> real \<Rightarrow> real \<Rightarrow> real option" where
  "analytic_n80_ab ppf da db alpha pw =
     (let d = dist_mean da - dist_mean db; z = ppf (1 - alpha / 2) + ppf pw
      in if d = 0 then None else Some (2 * z ^ 2 * (dist_var da + dist_var db) / d ^ 2))"

definition analytic_n80_one_sample :: "(real \<Rightarrow> real) \<Rightarrow> dist \<Rightarrow> real \<Rightarrow> real \<Rightarrow> real option" where
  "analytic_n80_one_sample ppf d alpha pw =
     (let z = ppf (1 - alpha / 2) + ppf pw
      in if dist_mean d = 0 then None else Some (z ^ 2 * dist_var d / dist_mean d ^ 2))"

section \<open>Direct simulation\<close>

definition trial_direct :: "(real \<Rightarrow> real) \<Rightarrow> (nat \<Rightarrow> nat \<Rightarrow> real) \<Rightarrow> string \<Rightarrow> nat \<Rightarrow> real list \<Rightarrow> real \<times> real" where
  "trial_direct sf cdf method n os =
     (if method = ''tdi'' \<or> method = ''bi'' then
        (let w = length (filter (\<lambda>x. x > 0) os); l = length (filter (\<lambda>x. x < 0) os)
         in (sign_test_p cdf w l, sgn (real w - real l)))
      else (one_sample_p sf (mean os) (var1 os) (real n), sgn (mean os)))"

fun direct_interleave_loop :: "(real \<Rightarrow> real) \<Rightarrow> (nat \<Rightarrow> nat \<Rightarrow> real) \<Rightarrow> 'g rng_ops \<Rightarrow> string \<Rightarrow> il_entries \<Rightarrow> click_model \<Rightarrow> nat \<Rightarrow> nat \<Rightarrow>
    nat list \<Rightarrow> 'g \<Rightarrow> ((real \<times> real) list \<times> 'g) res" where
  "direct_interleave_loop sf cdf R method ent model k n [] g = Inr ([], g)"
| "direct_interleave_loop sf cdf R method ent model k n (tt # ts) g =
     res_bind (draw_impressions R method ent model k (tt * n) g) (\<lambda>(os, g1).
       res_bind (direct_interleave_loop sf cdf R method ent model k n ts g1) (\<lambda>(rs, g2).
         Inr (map (trial_direct sf cdf method n) (split_rows tt n os) @ rs, g2)))"

definition direct_interleave_pvalues :: "(real \<Rightarrow> real) \<Rightarrow> (nat \<Rightarrow> nat \<Rightarrow> real) \<Rightarrow> 'g rng_ops \<Rightarrow> string \<Rightarrow> il_entries \<Rightarrow> click_model \<Rightarrow>
    nat \<Rightarrow> nat \<Rightarrow> nat \<Rightarrow> 'g \<Rightarrow> nat \<Rightarrow> ((real \<times> real) list \<times> 'g) res" where
  \<comment> \<open>concatenating no trials is a ValueError\<close>
  "direct_interleave_pvalues sf cdf R method ent model k n trials g chunk_rows =
     (if et_prob ent = [] then Inl IndexError else if n = 0 then Inl ZeroDivisionError else if trials = 0 then Inl ValueError
      else direct_interleave_loop sf cdf R method ent model k n (the (pass_sizes trials (max 1 (chunk_rows div n)))) g)"

definition metric_rows :: "nat \<Rightarrow> string \<Rightarrow> bool list list \<Rightarrow> real list" where
  \<comment> \<open>\<open>vals[m][codes[m]]\<close>\<close>
  "metric_rows k mt clicks = pick (dget (ab_codes clicks) mt []) (dget (ab_values k) mt [])"

definition trial_direct_ab :: "(real \<Rightarrow> real) \<Rightarrow> real list \<Rightarrow> real list \<Rightarrow> real \<times> real" where
  "trial_direct_ab sf xa xb =
     (welch_p sf (mean xa) (var1 xa) (real (length xa)) (mean xb) (var1 xb) (real (length xb)), sgn (mean xa - mean xb))"

fun direct_ab_loop :: "(real \<Rightarrow> real) \<Rightarrow> 'g rng_ops \<Rightarrow> click_model \<Rightarrow> int list list \<Rightarrow> int list list \<Rightarrow> nat \<Rightarrow> nat \<Rightarrow> nat \<Rightarrow>
    nat list \<Rightarrow> (string, (real \<times> real) list) dict \<Rightarrow> 'g \<Rightarrow> (string, (real \<times> real) list) dict \<times> 'g" where
  "direct_ab_loop sf R model grades_a grades_b k na nb [] out g = (out, g)"
| "direct_ab_loop sf R model grades_a grades_b k na nb (tt # ts) out g =
     (let (qa, g1) = rg_integers R g (length grades_a) (tt * na); (qb, g2) = rg_integers R g1 (length grades_b) (tt * nb);
          (ra, g3) = simulate R model (pick qa grades_a) k g2; (rb, g4) = simulate R model (pick qb grades_b) k g3
      in direct_ab_loop sf R model grades_a grades_b k na nb ts
           (map (\<lambda>(m, ps). (m, ps @ map2 (trial_direct_ab sf) (split_rows tt na (metric_rows k m (cr_clicks ra)))
              (split_rows tt nb (metric_rows k m (cr_clicks rb))))) out) g4)"

definition direct_ab_pvalues :: "(real \<Rightarrow> real) \<Rightarrow> 'g rng_ops \<Rightarrow> int list list \<Rightarrow> int list list \<Rightarrow> nat \<Rightarrow> click_model \<Rightarrow> nat \<Rightarrow> nat \<Rightarrow>
    'g \<Rightarrow> nat \<Rightarrow> ((string, (real \<times> real) list) dict \<times> 'g) res" where
  "direct_ab_pvalues sf R grades_a grades_b k model n trials g chunk_rows =
     (if n = 0 then Inl ZeroDivisionError else if trials = 0 \<or> grades_a = [] \<or> grades_b = [] then Inl ValueError
      else Inr (direct_ab_loop sf R model grades_a grades_b k (n div 2) (n - n div 2)
        (the (pass_sizes trials (max 1 (chunk_rows div n)))) (map (\<lambda>m. (m, [])) METRICS) g))"

section \<open>The codes carry the metrics\<close>

lemma first_true_less: "True \<in> set r \<Longrightarrow> first_true r < length r"
  by (induction r) auto

lemma n_clicks_le: "n_clicks r \<le> length r"
  by (simp add: n_clicks_def)

definition row_metric :: "string \<Rightarrow> bool list \<Rightarrow> real" where
  \<comment> \<open>one row of \<open>impression_metrics\<close>\<close>
  "row_metric mt r = hd (dget (impression_metrics [r]) mt [0])"

lemma impression_rows: "mt \<in> set METRICS \<Longrightarrow> dget (impression_metrics clicks) mt [] = map (row_metric mt) clicks"
  by (auto simp: METRICS_def impression_metrics_def row_metric_def)

definition row_code :: "string \<Rightarrow> bool list \<Rightarrow> nat" where
  \<comment> \<open>one row of \<open>ab_codes\<close>\<close>
  "row_code mt r = hd (dget (ab_codes [r]) mt [0])"

lemma codes_of_rows: "mt \<in> set METRICS \<Longrightarrow> dget (ab_codes clicks) mt [] = map (row_code mt) clicks"
  by (auto simp: METRICS_def ab_codes_def row_code_def)

lemma row_code_value:
  assumes "mt \<in> set METRICS" and "length r = k"
  shows "row_code mt r < length (dget (ab_values k) mt []) \<and> dget (ab_values k) mt [] ! row_code mt r = row_metric mt r"
proof -
  have n: "n_clicks r < Suc k" using n_clicks_le [of r] assms(2) by simp
  have f: "first_true r < k" if "True \<in> set r" using first_true_less [OF that] assms(2) by simp
  consider "mt = ''ctr''" | "mt = ''clicks_at_1''" | "mt = ''abandonment''" | "mt = ''rr_first''"
    using assms(1) by (auto simp: METRICS_def)
  then show ?thesis
  proof cases
    case 1
    then show ?thesis using n by (simp add: row_code_def ab_codes_def ab_values_def row_metric_def impression_metrics_def del: upt_Suc)
  next
    case 4
    then show ?thesis using f
      by (cases "True \<in> set r") (simp_all add: row_code_def ab_codes_def ab_values_def row_metric_def impression_metrics_def add.commute del: upt_Suc)
  qed (simp_all add: row_code_def ab_codes_def ab_values_def row_metric_def impression_metrics_def)
qed

lemma codes_rows:
  assumes "mt \<in> set METRICS" and "\<And>r. r \<in> set clicks \<Longrightarrow> length r = k"
  shows "map (\<lambda>c. dget (ab_values k) mt [] ! c) (dget (ab_codes clicks) mt []) = map (row_metric mt) clicks"
    and "\<forall>c \<in> set (dget (ab_codes clicks) mt []). c < length (dget (ab_values k) mt [])"
  using row_code_value [OF assms(1) assms(2)] by (auto simp: codes_of_rows [OF assms(1)])

lemma map2_bincount: "map2 f vs (map real (bincount (length vs) cs)) = map (\<lambda>j. f (vs ! j) (real (length (filter (\<lambda>c. c = j) cs)))) [0..<length vs]"
  by (rule nth_equalityI) (simp_all add: bincount_def)

lemma bincount_sum:
  "\<forall>c \<in> set cs. c < length vs \<Longrightarrow>
     sum_list (map2 (*) vs (map real (bincount (length vs) cs))) = sum_list (map (\<lambda>c. vs ! c) cs)"
proof (induction cs)
  case Nil
  show ?case by (simp add: map2_bincount)
next
  case (Cons c cs)
  have "(\<Sum>j = 0..<length vs. vs ! j * real (length (filter (\<lambda>c. c = j) (c # cs))))
      = (\<Sum>j = 0..<length vs. vs ! j * real (length (filter (\<lambda>c. c = j) cs)) + (if j = c then vs ! j else 0))"
    by (intro sum.cong) (auto simp: algebra_simps)
  also have "\<dots> = (\<Sum>j = 0..<length vs. vs ! j * real (length (filter (\<lambda>c. c = j) cs))) + vs ! c"
    using Cons.prems by (simp add: sum.distrib)
  finally show ?case using Cons by (simp add: map2_bincount interv_sum_list_conv_sum_set_nat)
qed

section \<open>A tabulated pool has the mean of its impressions\<close>

fun pool_rows :: "'g rng_ops \<Rightarrow> click_model \<Rightarrow> int list list \<Rightarrow> nat \<Rightarrow> nat list \<Rightarrow> 'g \<Rightarrow> bool list list" where
  \<comment> \<open>all the impressions the passes of a pool simulate\<close>
  "pool_rows R model grades k [] g = []"
| "pool_rows R model grades k (n # ns) g =
     (let (c, g') = simulate_rows R model grades k n g in c @ pool_rows R model grades k ns g')"

definition sim_setup :: "'g rng_ops \<Rightarrow> click_model \<Rightarrow> int list list \<Rightarrow> nat \<Rightarrow> bool" where
  \<comment> \<open>a generator as numpy documents it, grades of shape (n, k) and a model built for \<open>k\<close> positions\<close>
  "sim_setup R model grades k =
     (uniform_draws R \<and> (\<forall>g n c. length (fst (rg_integers R g n c)) = c \<and> (0 < n \<longrightarrow> (\<forall>i \<in> set (fst (rg_integers R g n c)). i < n))) \<and>
      grades \<noteq> [] \<and> (\<forall>row \<in> set grades. length row = k) \<and>
      (case model of PBM _ _ _ eta \<Rightarrow> length eta = k | DBN _ _ _ _ \<Rightarrow> True))"

lemma split_rows_lengths: "length xs = n * k \<Longrightarrow> length (split_rows n k xs) = n \<and> (\<forall>r \<in> set (split_rows n k xs). length r = k)"
  by (induction n k xs rule: split_rows.induct) auto

lemma simulate_lengths:
  assumes "uniform_draws R" and "\<forall>row \<in> set gs. length row = k"
    and "case model of PBM _ _ _ eta \<Rightarrow> length eta = k | DBN _ _ _ _ \<Rightarrow> True"
  shows "length (cr_clicks (fst (simulate R model gs k g))) = length gs \<and>
     (\<forall>r \<in> set (cr_clicks (fst (simulate R model gs k g))). length r = k)"
proof -
  have u: "length (fst (rg_random R h n)) = n" for h n using assms(1) by (simp add: uniform_draws_def)
  note sl = split_rows_lengths [OF u]
  have row: "length (fst (case model of PBM _ alpha sigma eta \<Rightarrow> pbm_row alpha sigma eta gr a b c
      | DBN _ alpha sigma gamma \<Rightarrow> dbn_row alpha sigma gamma gr a b c)) = k"
    if "length gr = k" "length a = k" "length b = k" "length c = k" for gr a b c
    using that assms(3) by (cases model) (simp_all add: pbm_row_def dbn_row_def Let_def)
  show ?thesis
    using sl row assms(2)
    by (auto simp: simulate_def Let_def case_prod_unfold dest!: set_zip_leftD set_zip_rightD elim!: in_set_zipE)
qed

lemma simulate_rows_shape:
  assumes "sim_setup R model grades k"
  shows "length (fst (simulate_rows R model grades k n g)) = n \<and> (\<forall>r \<in> set (fst (simulate_rows R model grades k n g)). length r = k)"
proof -
  let ?q = "fst (rg_integers R g (length grades) n)"
  have q: "length ?q = n" "\<forall>i \<in> set ?q. i < length grades" using assms by (auto simp: sim_setup_def)
  then have rows: "\<forall>row \<in> set (pick ?q grades). length row = k" using assms by (auto simp: pick_def sim_setup_def)
  have "uniform_draws R" "case model of PBM _ _ _ eta \<Rightarrow> length eta = k | DBN _ _ _ _ \<Rightarrow> True"
    using assms by (simp_all add: sim_setup_def)
  note l = simulate_lengths [OF this(1) rows this(2)]
  have "length (pick ?q grades) = n" using q(1) by (simp add: pick_def)
  then show ?thesis using l by (simp add: simulate_rows_def Let_def case_prod_unfold)
qed

lemma pool_rows_shape:
  assumes "sim_setup R model grades k"
  shows "length (pool_rows R model grades k ns g) = sum_list ns \<and> (\<forall>r \<in> set (pool_rows R model grades k ns g). length r = k)"
  using simulate_rows_shape [OF assms] by (induction ns arbitrary: g) (auto simp: Let_def case_prod_unfold)

lemma pass_sizes_sum: "pass_sizes m chunk = Some ns \<Longrightarrow> sum_list ns = m"
proof (induction m chunk arbitrary: ns rule: pass_sizes.induct)
  case (1 m chunk)
  show ?case using "1.prems" "1.IH"
    by (subst (asm) pass_sizes.simps) (auto split: if_splits)
qed

lemma add_bincount: "add_counts (bincount n xs) (bincount n ys) = bincount n (xs @ ys)"
  by (rule nth_equalityI) (simp_all add: add_counts_def bincount_def)

lemma bincount_length [simp]: "length (bincount n xs) = n"
  by (simp add: bincount_def)

lemma bincount_total: "\<forall>c \<in> set cs. c < n \<Longrightarrow> sum_list (bincount n cs) = length cs"
proof (induction cs)
  case (Cons c cs)
  have "(\<Sum>j = 0..<n. length (filter (\<lambda>x. x = j) (c # cs))) = (\<Sum>j = 0..<n. length (filter (\<lambda>x. x = j) cs) + (if j = c then 1 else 0))"
    by (intro sum.cong) auto
  then show ?case using Cons by (simp add: bincount_def interv_sum_list_conv_sum_set_nat sum.distrib)
qed (simp add: bincount_def)

lemma sum_list_divide: "sum_list (map (\<lambda>x. x / c) xs) = sum_list xs / (c :: real)"
  by (induction xs) (simp_all add: add_divide_distrib)

definition tallies :: "nat \<Rightarrow> bool list list \<Rightarrow> (string, nat list) dict" where
  "tallies k rows = map (\<lambda>mt. (mt, bincount (length (dget (ab_values k) mt [])) (dget (ab_codes rows) mt []))) METRICS"

lemma tabulate_tallies: "tabulate k (tallies k rows) c = tallies k (rows @ c)"
  by (simp add: tabulate_def tallies_def add_bincount codes_of_rows cong: map_cong)

lemma pool_ab_loop_tallies:
  "fst (pool_ab_loop R model grades k ns (tallies k rows) g) = tallies k (rows @ pool_rows R model grades k ns g)"
  by (induction ns arbitrary: rows g) (simp_all add: Let_def case_prod_unfold tabulate_tallies)

text \<open>C16: tabulating a pool loses nothing: for every A/B metric the distribution that \<open>pool_ab\<close> returns has
  total probability 1 and exactly the mean of that metric over all the impressions simulated, as
  \<open>impression_metrics\<close> defines it.\<close>

theorem pool_ab_exact:
  assumes "sim_setup R model grades k" and "0 < m" and "pass_sizes m chunk = Some ns" and "mt \<in> set METRICS"
  shows "\<exists>ds g' d. pool_ab R grades k model m chunk g = Some (Inr (ds, g')) \<and> map_of ds mt = Some d \<and>
     sum_list (ds_probs d) = 1 \<and> length (pool_rows R model grades k ns g) = m \<and>
     dist_mean d = mean (dget (impression_metrics (pool_rows R model grades k ns g)) mt [])"
proof -
  define rows where "rows = pool_rows R model grades k ns g"
  define vs cs where "vs = dget (ab_values k) mt []" and "cs = dget (ab_codes rows) mt []"
  define d where "d = \<lparr>ds_values = vs, ds_probs = map (\<lambda>c. real c / real m) (bincount (length vs) cs), ds_m = m\<rparr>"
  have shape: "length rows = m" "\<And>r. r \<in> set rows \<Longrightarrow> length r = k"
    using pool_rows_shape [OF assms(1), of ns g] pass_sizes_sum [OF assms(3)] by (simp_all add: rows_def)
  note codes = codes_rows [OF assms(4), of rows k, OF shape(2), folded vs_def cs_def]
  have start: "map (\<lambda>mt. (mt, replicate (length (dget (ab_values k) mt [])) 0)) METRICS = tallies k []"
    by (simp add: tallies_def codes_of_rows bincount_def map_replicate_const cong: map_cong)
  have ne: "grades \<noteq> []" using assms(1) by (simp add: sim_setup_def)
  have tal: "fst (pool_ab_loop R model grades k ns (tallies k []) g) = tallies k rows"
    using pool_ab_loop_tallies [of R model grades k ns "[]" g] by (simp add: rows_def)
  define ds where "ds = map (\<lambda>(mt, cs). (mt, \<lparr>ds_values = dget (ab_values k) mt [], ds_probs = map (\<lambda>c. real c / real m) cs, ds_m = m\<rparr>)) (tallies k rows)"
  have "pool_ab R grades k model m chunk g = Some (Inr (ds, snd (pool_ab_loop R model grades k ns (tallies k []) g)))"
    by (simp add: pool_ab_def ne assms(3) Let_def case_prod_unfold start tal ds_def)
  moreover have "map_of ds mt = Some d"
    using assms(4) by (auto simp: ds_def tallies_def d_def vs_def cs_def METRICS_def)
  moreover have "sum_list (ds_probs d) = 1"
  proof -
    have "sum_list (ds_probs d) = real (sum_list (bincount (length vs) cs)) / real m"
      using sum_list_divide [of "real m" "map real (bincount (length vs) cs)"]
      by (simp add: d_def sum_list_of_nat comp_def)
    moreover have "length cs = m" by (simp add: cs_def codes_of_rows [OF assms(4)] shape(1))
    ultimately show ?thesis using bincount_total [OF codes(2)] assms(2) by simp
  qed
  moreover have "dist_mean d = mean (dget (impression_metrics rows) mt [])"
  proof -
    have "map2 (*) vs (map (\<lambda>c. real c / real m) (bincount (length vs) cs)) = map (\<lambda>x. x / real m) (map2 (*) vs (map real (bincount (length vs) cs)))"
      by (rule nth_equalityI) simp_all
    then have "dist_mean d = sum_list (map (\<lambda>c. vs ! c) cs) / real m"
      by (simp only: dist_mean_def dot_def d_def dist.simps sum_list_divide bincount_sum [OF codes(2)])
    then show ?thesis by (simp only: codes(1) impression_rows [OF assms(4)] mean_def length_map shape(1))
  qed
  ultimately show ?thesis using shape(1) unfolding rows_def by blast
qed

theorem pool_ab_exact_witness:
  "\<exists>ds d. pool_ab (se_rng demo_stats) [[1, 0]] 2 (DBN ''dbn'' [1/2, 1] [0, 1/2] 1) 3 2 () = Some (Inr (ds, ())) \<and>
     map_of ds ''ctr'' = Some d \<and> sum_list (ds_probs d) = 1"
proof -
  have "sim_setup (se_rng demo_stats) (DBN ''dbn'' [1/2, 1] [0, 1/2] 1) [[1, 0]] 2"
    by (simp add: sim_setup_def demo_stats_def uniform_draws_def list_all_iff)
  moreover have "pass_sizes 3 2 = Some [2, 1]" by (simp add: pass_sizes.simps)
  ultimately show ?thesis
    using pool_ab_exact [of "se_rng demo_stats" "DBN ''dbn'' [1/2, 1] [0, 1/2] 1" "[[1, 0]]" 2 3 2 "[2, 1]" "''ctr''" "()"]
    by (auto simp: METRICS_def)
qed

end
