(* ===== verification/Log_Sim.thy ===== *)
theory Log_Sim
  imports Sensitivity Ltr
begin

text \<open>
  \<open>py/hybridsearch/ltr/logsim.py\<close>: click logs of a production ranker with randomised interventions, the
  estimates of position bias they allow, IPS weights, and intervention harvesting over several rankers.
  The generator is the record \<open>rng_ops\<close>; \<open>np.argsort\<close>, scikit-learn's isotonic regression and
  \<open>np.linalg.lstsq\<close> are arguments.  A value that is not finite is None.  The lemmas: the logs account for
  every session, and on counts that follow the examination hypothesis IPS weights and both propensity
  estimates recover what they estimate.
\<close>

section \<open>Logs\<close>

record logs =
  lg_clicks_at :: "nat list list"
  lg_sessions :: "nat list"
  lg_n :: nat
  lg_rt_clicks :: "nat list"
  lg_rt_sessions :: nat
  lg_rt_n :: nat
  lg_sw_k :: "nat list"
  lg_sw_ns :: "nat list"
  lg_sw_1 :: "nat list"
  lg_sw_nc :: "nat list"

definition inc :: "nat \<Rightarrow> nat list \<Rightarrow> nat list" where
  "inc i xs = xs[i := xs ! i + 1]"

definition inc2 :: "nat list list \<Rightarrow> nat \<times> nat \<Rightarrow> nat list list" where
  \<comment> \<open>one step of \<open>np.add.at(a, (i, j), 1)\<close>\<close>
  "inc2 a ij = (case ij of (i, j) \<Rightarrow> a[i := inc j (a ! i)])"

fun fill_rows :: "bool list \<Rightarrow> 'a list \<Rightarrow> 'a list \<Rightarrow> 'a list" where
  \<comment> \<open>\<open>a[mask] = rows\<close>\<close>
  "fill_rows (True # m) (a # as) (r # rs) = r # fill_rows m as rs"
| "fill_rows (b # m) (a # as) rs = a # fill_rows m as rs"
| "fill_rows m as rs = as"

record log_setup =
  ls_grades :: "int list list" \<comment> \<open>(Q, K), -1 for no candidate\<close>
  ls_K :: nat
  ls_offsets :: "nat list"
  ls_model :: click_model
  ls_intervention :: "string option"
  ls_eps :: real
  ls_rt_n :: nat
  ls_argsort :: "real list \<Rightarrow> nat list"

definition n_real :: "log_setup \<Rightarrow> nat \<Rightarrow> nat" where
  "n_real S q = ls_offsets S ! Suc q - ls_offsets S ! q"

record shown =
  sh_perm :: "nat list" \<comment> \<open>the candidate at each rank\<close>
  sh_rt :: bool
  sh_swap :: "(nat \<times> bool) option" \<comment> \<open>the rank of the intervention, and whether it swaps\<close>

definition plain_shown :: "nat \<Rightarrow> shown" where
  "plain_shown K = \<lparr>sh_perm = [0..<K], sh_rt = False, sh_swap = None\<rparr>"

definition randtop_shown :: "'g rng_ops \<Rightarrow> log_setup \<Rightarrow> nat list \<Rightarrow> 'g \<Rightarrow> shown list \<times> 'g" where
  "randtop_shown R S q g =
     (let K = ls_K S; base = replicate (length q) (plain_shown K);
          (u, g1) = rg_random R g (length q);
          is_rt = map2 (\<lambda>x qi. x < ls_eps S \<and> ls_rt_n S \<le> n_real S qi) u q;
          m = length (filter id is_rt)
      in if m = 0 then (base, g1)
         else let (ks, g2) = rg_random R g1 (m * K);
                  rows = map (\<lambda>r. take (ls_rt_n S) r @ map (\<lambda>i. real i + 10) [ls_rt_n S..<K]) (split_rows m K ks)
              in (fill_rows is_rt base (map (\<lambda>r. \<lparr>sh_perm = ls_argsort S r, sh_rt = True, sh_swap = None\<rparr>) rows), g2))"

definition swap_shown_one :: "nat \<Rightarrow> nat \<times> bool \<Rightarrow> shown" where
  "swap_shown_one K kd =
     (case kd of (k, swapped) \<Rightarrow>
        \<lparr>sh_perm = (if swapped then [0..<K][0 := k, k := 0] else [0..<K]), sh_rt = False, sh_swap = Some (k, swapped)\<rparr>)"

definition swap_shown :: "'g rng_ops \<Rightarrow> log_setup \<Rightarrow> nat list \<Rightarrow> 'g \<Rightarrow> shown list \<times> 'g" where
  "swap_shown R S q g =
     (let K = ls_K S; base = replicate (length q) (plain_shown K);
          (u, g1) = rg_random R g (length q);
          inter = map2 (\<lambda>x qi. x < ls_eps S \<and> 2 \<le> min (n_real S qi) K) u q
      in if \<not> list_ex (\<lambda>x. x < ls_eps S) u then (base, g1)
         else let kmax = map (\<lambda>(b, qi). min (n_real S qi) K) (filter fst (zip inter q));
                  (v, g2) = rg_random R g1 (length kmax); (d, g3) = rg_random R g2 (length kmax);
                  kk = map2 (\<lambda>x k. 1 + nat \<lfloor>x * (real k - 1)\<rfloor>) v kmax
              in (fill_rows inter base (map2 (\<lambda>k x. swap_shown_one K (k, x < 1 / 2)) kk d), g3))"

definition sessions_shown :: "'g rng_ops \<Rightarrow> log_setup \<Rightarrow> nat list \<Rightarrow> 'g \<Rightarrow> shown list \<times> 'g" where
  "sessions_shown R S q g =
     (if ls_intervention S = Some ''randtop'' \<and> ls_eps S > 0 then randtop_shown R S q g
      else if ls_intervention S = Some ''swap'' \<and> ls_eps S > 0 then swap_shown R S q g
      else (replicate (length q) (plain_shown (ls_K S)), g))"

definition log_session :: "log_setup \<Rightarrow> logs \<Rightarrow> nat \<times> shown \<times> bool list \<Rightarrow> logs" where
  \<comment> \<open>the counters of one session: its query, what it showed, and the clicks by rank\<close>
  "log_session S L x =
     (case x of (q, sh, c) \<Rightarrow>
      let cells = map (\<lambda>r. (ls_offsets S ! q + sh_perm sh ! r, r)) (filter (\<lambda>r. c ! r) [0..<length c]);
          hit = (\<lambda>i xs. if c ! i then inc (case sh_swap sh of None \<Rightarrow> 0 | Some (k, _) \<Rightarrow> k) xs else xs)
      in L\<lparr>lg_clicks_at := foldl inc2 (lg_clicks_at L) cells,
           lg_sessions := inc q (lg_sessions L),
           lg_rt_clicks := (if sh_rt sh then map2 (\<lambda>n b. n + (if b then 1 else 0)) (lg_rt_clicks L) c else lg_rt_clicks L),
           lg_rt_sessions := lg_rt_sessions L + (if sh_rt sh then 1 else 0),
           lg_sw_k := (case sh_swap sh of Some (k, True) \<Rightarrow> hit k (lg_sw_k L) | _ \<Rightarrow> lg_sw_k L),
           lg_sw_ns := (case sh_swap sh of Some (k, True) \<Rightarrow> inc k (lg_sw_ns L) | _ \<Rightarrow> lg_sw_ns L),
           lg_sw_1 := (case sh_swap sh of Some (k, False) \<Rightarrow> hit 0 (lg_sw_1 L) | _ \<Rightarrow> lg_sw_1 L),
           lg_sw_nc := (case sh_swap sh of Some (k, False) \<Rightarrow> inc k (lg_sw_nc L) | _ \<Rightarrow> lg_sw_nc L)\<rparr>)"

definition chunk_sessions :: "'g rng_ops \<Rightarrow> log_setup \<Rightarrow> nat \<Rightarrow> 'g \<Rightarrow> (nat \<times> shown \<times> bool list) list \<times> 'g" where
  \<comment> \<open>the sessions of one pass of the loop\<close>
  "chunk_sessions R S n g =
     (let (q, g1) = rg_integers R g (length (ls_grades S)) n;
          (sh, g2) = sessions_shown R S q g1;
          grades = map2 (\<lambda>qi s. map ((!) (ls_grades S ! qi)) (sh_perm s)) q sh;
          (res, g3) = simulate R (ls_model S) grades (ls_K S) g2
      in (zip q (zip sh (cr_clicks res)), g3))"

definition log_chunk :: "'g rng_ops \<Rightarrow> log_setup \<Rightarrow> logs \<times> 'g \<Rightarrow> nat \<Rightarrow> logs \<times> 'g" where
  "log_chunk R S Lg n =
     (case Lg of (L, g) \<Rightarrow> let (ss, g') = chunk_sessions R S n g in (foldl (log_session S) L ss, g'))"

definition empty_logs :: "log_setup \<Rightarrow> nat \<Rightarrow> logs" where
  "empty_logs S n =
     (let z = replicate (ls_K S) 0 in
      \<lparr>lg_clicks_at = replicate (last (ls_offsets S)) z, lg_sessions = replicate (length (ls_grades S)) 0, lg_n = n,
       lg_rt_clicks = z, lg_rt_sessions = 0, lg_rt_n = ls_rt_n S, lg_sw_k = z, lg_sw_ns = z, lg_sw_1 = z, lg_sw_nc = z\<rparr>)"

definition simulate_logs :: "'g rng_ops \<Rightarrow> log_setup \<Rightarrow> nat \<Rightarrow> nat \<Rightarrow> 'g \<Rightarrow> (logs \<times> 'g) option" where
  \<comment> \<open>in chunks of at most the given size; None when the loop never ends\<close>
  "simulate_logs R S n_total chunk g =
     map_option (foldl (log_chunk R S) (empty_logs S n_total, g)) (pass_sizes n_total chunk)"

section \<open>Position bias\<close>

definition ratio :: "nat \<Rightarrow> nat \<Rightarrow> real option" where
  \<comment> \<open>NaN or infinity for a zero denominator\<close>
  "ratio a b = (if b = 0 then None else Some (real a / real b))"

definition opt_div :: "real option \<Rightarrow> real option \<Rightarrow> real option" where
  "opt_div x y = (case (x, y) of (Some a, Some b) \<Rightarrow> if b = 0 then None else Some (a / b) | _ \<Rightarrow> None)"

definition estimate_propensity :: "logs \<Rightarrow> string \<Rightarrow> real option list res" where
  "estimate_propensity L method =
     (let K = length (lg_rt_clicks L); c = lg_rt_clicks L in
      if method = ''randtop'' then
        Inr (map (\<lambda>r. if c ! 0 > 0 \<and> r < lg_rt_n L then Some (real (c ! r) / real (c ! 0)) else None) [0..<K])
      else if method = ''swap'' then
        Inr (map (\<lambda>r. if r = 0 then Some 1
                      else opt_div (ratio (lg_sw_k L ! r) (lg_sw_ns L ! r)) (ratio (lg_sw_1 L ! r) (lg_sw_nc L ! r))) [0..<K])
      else Inl ValueError)"

fun fill_left :: "real \<Rightarrow> real option list \<Rightarrow> real list" where
  "fill_left l [] = []"
| "fill_left l (x # r) = (let v = (case x of None \<Rightarrow> l | Some y \<Rightarrow> if y \<le> 0 then l else y) in v # fill_left v r)"

definition fill_propensity :: "real option list \<Rightarrow> real \<Rightarrow> real list" where
  "fill_propensity est lowest = map (max lowest) (fill_left 1 est)"

definition propensity_support :: "logs \<Rightarrow> string \<Rightarrow> real list" where
  "propensity_support L method =
     (let K = length (lg_rt_clicks L) in
      if method = ''randtop'' then
        map (\<lambda>r. if r < lg_rt_n L then real (min (lg_rt_clicks L ! r) (lg_rt_clicks L ! 0)) else 0) [0..<K]
      else let w = map2 (\<lambda>a b. real (min a b)) (lg_sw_k L) (lg_sw_1 L)
           in w[0 := max (foldr max (tl w) (hd w)) 1])"

definition monotone_propensity :: "((real \<times> real \<times> real) list \<Rightarrow> real \<Rightarrow> real) \<Rightarrow> real option list \<Rightarrow> real list \<Rightarrow> real \<Rightarrow> real option list" where
  \<comment> \<open>\<open>isotonic\<close> maps the fitted points (rank, estimate, weight) to the prediction at a rank; predicting
     left of the fitted ranks is NaN, and NaN is not positive\<close>
  "monotone_propensity isotonic est support lowest =
     (let ok = filter (\<lambda>r. (case est ! r of None \<Rightarrow> False | Some e \<Rightarrow> support ! r > 0 \<and> e > 0)) [0..<length est] in
      if length ok < 2 then map Some (fill_propensity est lowest)
      else let f = isotonic (map (\<lambda>r. (real r, the (est ! r), support ! r)) ok);
               out = map (\<lambda>r. if r < hd ok then None else Some (f (real (min r (last ok))))) [0..<length est];
               out' = (case hd out of None \<Rightarrow> out | Some t \<Rightarrow> if t > 0 then map (map_option (\<lambda>x. x / t)) out else out)
           in map (map_option (max lowest)) out')"

definition ips_weights :: "nat list list \<Rightarrow> real list option \<Rightarrow> real option \<Rightarrow> real list" where
  "ips_weights clicks_at eta clip =
     (case eta of
        None \<Rightarrow> map (\<lambda>row. real (sum_list row)) clicks_at
      | Some e \<Rightarrow>
          let inv = map (\<lambda>x. case clip of None \<Rightarrow> 1 / x | Some c \<Rightarrow> min (1 / x) c) e
          in map (\<lambda>row. inner (map real row) inv) clicks_at)"

section \<open>Harvesting from several rankers\<close>

record multi_setup =
  ms_grades :: "int list list"
  ms_K :: nat
  ms_orders :: "int list list list" \<comment> \<open>(L, Q, K), -1 padded\<close>
  ms_offsets :: "nat list"
  ms_model :: click_model

definition multi_session :: "multi_setup \<Rightarrow> nat list list \<times> nat list list \<Rightarrow> nat \<times> nat \<times> bool list \<Rightarrow> nat list list \<times> nat list list" where
  "multi_session S cs x =
     (case (cs, x) of ((clicks_at, sessions), (q, j, c)) \<Rightarrow>
        (foldl inc2 clicks_at
           (map (\<lambda>r. (nat (int (ms_offsets S ! q) + ms_orders S ! j ! q ! r), r)) (filter (\<lambda>r. c ! r) [0..<length c])),
         inc2 sessions (q, j)))"

definition multi_chunk :: "'g rng_ops \<Rightarrow> multi_setup \<Rightarrow> (nat list list \<times> nat list list) \<times> 'g \<Rightarrow> nat \<Rightarrow> (nat list list \<times> nat list list) \<times> 'g" where
  "multi_chunk R S st n =
     (case st of (cs, g) \<Rightarrow>
      let (q, g1) = rg_integers R g (length (ms_grades S)) n;
          (j, g2) = rg_integers R g1 (length (ms_orders S)) n;
          grades = map2 (\<lambda>qi ji. map (\<lambda>p. if p \<ge> 0 then ms_grades S ! qi ! nat p else - 1) (ms_orders S ! ji ! qi)) q j;
          (res, g3) = simulate R (ms_model S) grades (ms_K S) g2
      in (foldl (multi_session S) cs (zip q (zip j (cr_clicks res))), g3))"

definition simulate_logs_multi :: "'g rng_ops \<Rightarrow> multi_setup \<Rightarrow> nat \<Rightarrow> nat \<Rightarrow> 'g \<Rightarrow> ((nat list list \<times> nat list list) \<times> 'g) option" where
  "simulate_logs_multi R S n_total chunk g =
     map_option (foldl (multi_chunk R S)
         ((replicate (last (ms_offsets S)) (replicate (ms_K S) 0), replicate (length (ms_grades S)) (replicate (length (ms_orders S)) 0)), g))
       (pass_sizes n_total chunk)"

definition rank_of :: "int list \<Rightarrow> nat \<Rightarrow> nat option" where
  \<comment> \<open>\<open>rank[j, o[ok]] = np.nonzero(ok)[0]\<close>: the last rank at which a candidate stands\<close>
  "rank_of ord i = (case filter (\<lambda>r. ord ! r = int i) [0..<length ord] of [] \<Rightarrow> None | rs \<Rightarrow> Some (last rs))"

definition rank_pairs :: "multi_setup \<Rightarrow> nat \<Rightarrow> nat \<Rightarrow> nat \<Rightarrow> (nat \<times> nat \<times> nat) list" where
  \<comment> \<open>candidates that rankers \<open>a\<close> and \<open>b\<close> show at different ranks: (candidate, rank of a, rank of b)\<close>
  "rank_pairs S q a b =
     concat (map (\<lambda>i. case (rank_of (ms_orders S ! a ! q) i, rank_of (ms_orders S ! b ! q) i) of
         (Some ra, Some rb) \<Rightarrow> if ra \<noteq> rb then [(i, ra, rb)] else [] | _ \<Rightarrow> []) [0..<ms_K S])"

definition pair_counts :: "multi_setup \<Rightarrow> nat list list \<Rightarrow> nat list list \<Rightarrow> (nat \<times> nat \<times> nat \<times> nat) list" where
  \<comment> \<open>(rank, other rank, clicks, sessions), one per query, ordered pair of rankers and candidate\<close>
  "pair_counts S clicks_at sessions =
     concat (map (\<lambda>q. concat (map (\<lambda>a. concat (map (\<lambda>b.
         if a = b then [] else map (\<lambda>(i, ra, rb). (ra, rb, clicks_at ! (ms_offsets S ! q + i) ! ra, sessions ! q ! a)) (rank_pairs S q a b))
       [0..<length (ms_orders S)])) [0..<length (ms_orders S)])) [0..<length (ms_offsets S) - 1])"

definition pair_total :: "((nat \<times> nat \<times> nat \<times> nat) \<Rightarrow> nat) \<Rightarrow> (nat \<times> nat \<times> nat \<times> nat) list \<Rightarrow> nat \<Rightarrow> nat \<Rightarrow> nat" where
  "pair_total val ps r r2 = sum_list (map val (filter (\<lambda>(a, b, _). a = r \<and> b = r2) ps))"

definition ratio_rows :: "nat \<Rightarrow> (nat \<times> nat \<times> nat \<times> nat) list \<Rightarrow> ((nat \<times> nat) \<times> real \<times> real) list" where
  \<comment> \<open>the pairs of ranks with clicks on both sides, the log-ratio and its weight\<close>
  "ratio_rows K ps =
     (let C = pair_total (\<lambda>(_, _, c, _). c) ps; N = pair_total (\<lambda>(_, _, _, n). n) ps in
      concat (map (\<lambda>r. concat (map (\<lambda>r2.
        let c1 = real (C r r2); c2 = real (C r2 r); n1 = real (N r r2); n2 = real (N r2 r) in
        if c1 > 0 \<and> c2 > 0 \<and> n1 > 0 \<and> n2 > 0 then [((r, r2), ln (c1 / n1) - ln (c2 / n2), 1 / (1 / c1 + 1 / c2))] else [])
       [Suc r..<K])) [0..<K]))"

definition harvest_propensity :: "(real list list \<Rightarrow> real list \<Rightarrow> real list) \<Rightarrow> multi_setup \<Rightarrow> nat list list \<Rightarrow> nat list list \<Rightarrow> real \<Rightarrow>
    real option list \<times> real list" where
  "harvest_propensity lstsq S clicks_at sessions lowest =
     (let K = ms_K S; rws = ratio_rows K (pair_counts S clicks_at sessions);
          support = map (\<lambda>r. real (length (filter (\<lambda>((a, b), _). a = r \<or> b = r) rws))) [0..<K];
          ident = filter (\<lambda>r. r = 0 \<or> support ! r > 0) [0..<K];
          A2 = map (\<lambda>((a, b), y, w). map (\<lambda>r. (if r = a then 1 else if r = b then - 1 else 0) * sqrt w) (tl ident)) rws;
          sol = lstsq A2 (map (\<lambda>(_, y, w). y * sqrt w) rws);
          est = zip ident (map exp (0 # sol))
      in if rws = [] then (replicate K None, replicate K 0)
         else (map (\<lambda>r. map_option (max lowest) (map_of est r)) [0..<K], support))"

section \<open>The logs account for every session\<close>

type_synonym session = "nat \<times> shown \<times> bool list"

definition cnt :: "('a \<Rightarrow> bool) \<Rightarrow> 'a list \<Rightarrow> nat" where
  "cnt P xs = length (filter P xs)"

definition clicked :: "nat \<Rightarrow> session \<Rightarrow> bool" where
  "clicked r x = (case x of (q, sh, c) \<Rightarrow> r < length c \<and> c ! r)"

definition shows_at :: "log_setup \<Rightarrow> nat \<Rightarrow> nat \<Rightarrow> session \<Rightarrow> bool" where
  \<comment> \<open>the session shows the candidate at the rank\<close>
  "shows_at S i r x = (case x of (q, sh, c) \<Rightarrow> ls_offsets S ! q + sh_perm sh ! r = i)"

definition shuffled :: "session \<Rightarrow> bool" where
  "shuffled x = (case x of (q, sh, c) \<Rightarrow> sh_rt sh)"

definition swapped :: "nat \<Rightarrow> session \<Rightarrow> bool" where
  "swapped k x = (case x of (q, sh, c) \<Rightarrow> sh_swap sh = Some (k, True))"

definition control :: "nat \<Rightarrow> session \<Rightarrow> bool" where
  "control k x = (case x of (q, sh, c) \<Rightarrow> sh_swap sh = Some (k, False))"

definition sessions_of :: "'g rng_ops \<Rightarrow> log_setup \<Rightarrow> nat \<Rightarrow> nat \<Rightarrow> 'g \<Rightarrow> (session list \<times> 'g) option" where
  \<comment> \<open>every session of a simulation\<close>
  "sessions_of R S n_total chunk g =
     map_option (foldl (\<lambda>(ss, g) n. let (s, g') = chunk_sessions R S n g in (ss @ s, g')) ([], g)) (pass_sizes n_total chunk)"

lemma cnt_simps [simp]: "cnt P [] = 0" "cnt P (xs @ ys) = cnt P xs + cnt P ys" "cnt P (x # xs) = (if P x then 1 else 0) + cnt P xs"
  by (simp_all add: cnt_def)

lemma logs_of_sessions:
  "simulate_logs R S n_total chunk g = map_option (\<lambda>(ss, g'). (foldl (log_session S) (empty_logs S n_total) ss, g')) (sessions_of R S n_total chunk g)"
proof -
  have "foldl (log_chunk R S) (foldl (log_session S) L ss, g) ns =
      (case foldl (\<lambda>(ss, g) n. let (s, g') = chunk_sessions R S n g in (ss @ s, g')) (ss, g) ns of (ss, g') \<Rightarrow> (foldl (log_session S) L ss, g'))"
    for L ss g ns
    by (induction ns arbitrary: ss g) (simp_all add: log_chunk_def case_prod_unfold Let_def flip: foldl_append)
  from this [of "empty_logs S n_total" "[]" g] show ?thesis
    by (cases "pass_sizes n_total chunk") (simp_all add: simulate_logs_def sessions_of_def)
qed

definition log_counts :: "log_setup \<Rightarrow> session list \<Rightarrow> logs \<Rightarrow> bool" where
  \<comment> \<open>every counter of the logs is a number of sessions\<close>
  "log_counts S ss L \<longleftrightarrow>
     length (lg_rt_clicks L) = ls_K S \<and> length (lg_sw_k L) = ls_K S \<and> length (lg_sw_ns L) = ls_K S \<and> length (lg_sw_1 L) = ls_K S \<and>
     length (lg_sw_nc L) = ls_K S \<and> length (lg_clicks_at L) = last (ls_offsets S) \<and> lg_rt_sessions L = cnt shuffled ss \<and> lg_rt_n L = ls_rt_n S \<and>
     (\<forall>r < ls_K S. lg_rt_clicks L ! r = cnt (\<lambda>x. shuffled x \<and> clicked r x) ss \<and>
        lg_sw_k L ! r = cnt (\<lambda>x. swapped r x \<and> clicked r x) ss \<and> lg_sw_ns L ! r = cnt (swapped r) ss \<and>
        lg_sw_1 L ! r = cnt (\<lambda>x. control r x \<and> clicked 0 x) ss \<and> lg_sw_nc L ! r = cnt (control r) ss) \<and>
     (\<forall>i < last (ls_offsets S). length (lg_clicks_at L ! i) = ls_K S \<and>
        (\<forall>r < ls_K S. lg_clicks_at L ! i ! r = cnt (\<lambda>x. shows_at S i r x \<and> clicked r x) ss))"

lemma inc_simps: "length (inc i xs) = length xs" "r < length xs \<Longrightarrow> inc i xs ! r = xs ! r + (if i = r then 1 else 0)"
  by (auto simp: inc_def nth_list_update)

lemma inc2_simps:
  "length (inc2 a ij) = length a"
  "i < length a \<Longrightarrow> length (inc2 a ij ! i) = length (a ! i)"
  "i < length a \<Longrightarrow> r < length (a ! i) \<Longrightarrow> inc2 a ij ! i ! r = a ! i ! r + (if ij = (i, r) then 1 else 0)"
proof -
  obtain x y where ij: "ij = (x, y)" by (cases ij)
  show "length (inc2 a ij) = length a" by (simp add: inc2_def ij)
  show "length (inc2 a ij ! i) = length (a ! i)" if "i < length a"
    using that by (cases "x = i") (simp_all add: inc2_def ij inc_simps)
  show "inc2 a ij ! i ! r = a ! i ! r + (if ij = (i, r) then 1 else 0)" if "i < length a" "r < length (a ! i)"
    using that by (cases "x = i") (simp_all add: inc2_def ij inc_simps)
qed

lemma inc2_fold:
  "length (foldl inc2 a cells) = length a \<and>
   (i < length a \<longrightarrow> length (foldl inc2 a cells ! i) = length (a ! i) \<and>
     (\<forall>r < length (a ! i). foldl inc2 a cells ! i ! r = a ! i ! r + cnt ((=) (i, r)) cells))"
  by (induction cells arbitrary: a) (auto simp: inc2_simps)

lemma cnt_cells:
  "cnt ((=) (i, r)) (map (\<lambda>r. (f r, r)) (filter (\<lambda>r. c ! r) [0..<n])) = (if r < n \<and> c ! r \<and> f r = i then 1 else 0)"
  by (induction n) (auto simp: less_Suc_eq)

lemma log_counts_step:
  assumes "log_counts S ss L" and "length c = ls_K S"
  shows "log_counts S (ss @ [(q, sh, c)]) (log_session S L (q, sh, c))"
proof -
  let ?L = "log_session S L (q, sh, c)"
  define cells where "cells = map (\<lambda>r. (ls_offsets S ! q + sh_perm sh ! r, r)) (filter (\<lambda>r. c ! r) [0..<ls_K S])"
  have upd: "lg_clicks_at ?L = foldl inc2 (lg_clicks_at L) cells" using assms(2) by (simp add: log_session_def Let_def cells_def)
  have old: "length (lg_clicks_at L) = last (ls_offsets S)"
    "i < last (ls_offsets S) \<Longrightarrow> length (lg_clicks_at L ! i) = ls_K S"
    "i < last (ls_offsets S) \<Longrightarrow> r < ls_K S \<Longrightarrow> lg_clicks_at L ! i ! r = cnt (\<lambda>x. shows_at S i r x \<and> clicked r x) ss" for i r
    using assms(1) by (simp_all add: log_counts_def)
  have one: "cnt ((=) (i, r)) cells = (if shows_at S i r (q, sh, c) \<and> clicked r (q, sh, c) then 1 else 0)" if "r < ls_K S" for i r
    using that assms(2) by (auto simp: cells_def cnt_cells shows_at_def clicked_def)
  have at: "length (lg_clicks_at ?L) = last (ls_offsets S)" using inc2_fold old(1) by (simp add: upd)
  have at': "length (lg_clicks_at ?L ! i) = ls_K S \<and>
      (\<forall>r < ls_K S. lg_clicks_at ?L ! i ! r = cnt (\<lambda>x. shows_at S i r x \<and> clicked r x) (ss @ [(q, sh, c)]))"
    if i: "i < last (ls_offsets S)" for i
    using inc2_fold [of "lg_clicks_at L" cells i] old(1) old(2,3) [OF i] i one unfolding upd by simp
  have flags: "lg_rt_sessions ?L = cnt shuffled (ss @ [(q, sh, c)])" "lg_rt_n ?L = ls_rt_n S"
    using assms(1) by (simp_all add: log_session_def Let_def log_counts_def shuffled_def)
  have rt: "length (lg_rt_clicks ?L) = ls_K S \<and>
      (\<forall>r < ls_K S. lg_rt_clicks ?L ! r = cnt (\<lambda>x. shuffled x \<and> clicked r x) (ss @ [(q, sh, c)]))"
    using assms by (cases "sh_rt sh") (simp_all add: log_session_def Let_def log_counts_def shuffled_def clicked_def)
  have sw: "length (lg_sw_k ?L) = ls_K S \<and> length (lg_sw_ns ?L) = ls_K S \<and> length (lg_sw_1 ?L) = ls_K S \<and> length (lg_sw_nc ?L) = ls_K S \<and>
      (\<forall>r < ls_K S. lg_sw_k ?L ! r = cnt (\<lambda>x. swapped r x \<and> clicked r x) (ss @ [(q, sh, c)]) \<and>
        lg_sw_ns ?L ! r = cnt (swapped r) (ss @ [(q, sh, c)]) \<and>
        lg_sw_1 ?L ! r = cnt (\<lambda>x. control r x \<and> clicked 0 x) (ss @ [(q, sh, c)]) \<and> lg_sw_nc ?L ! r = cnt (control r) (ss @ [(q, sh, c)]))"
  proof (cases "sh_swap sh")
    case None
    then show ?thesis using assms by (simp add: log_session_def Let_def log_counts_def swapped_def control_def clicked_def)
  next
    case (Some kb)
    obtain k b where kb: "kb = (k, b)" by (cases kb)
    have old: "length (lg_sw_k L) = ls_K S" "length (lg_sw_ns L) = ls_K S" "length (lg_sw_1 L) = ls_K S" "length (lg_sw_nc L) = ls_K S"
      "\<And>r. r < ls_K S \<Longrightarrow> lg_sw_k L ! r = cnt (\<lambda>x. swapped r x \<and> clicked r x) ss \<and> lg_sw_ns L ! r = cnt (swapped r) ss \<and>
        lg_sw_1 L ! r = cnt (\<lambda>x. control r x \<and> clicked 0 x) ss \<and> lg_sw_nc L ! r = cnt (control r) ss"
      using assms(1) by (simp_all add: log_counts_def)
    show ?thesis
    proof (cases b)
      case True
      then show ?thesis using Some kb old assms(2)
        by (simp add: log_session_def Let_def swapped_def control_def clicked_def inc_simps)
    next
      case False
      then show ?thesis using Some kb old assms(2)
        by (cases c) (simp_all add: log_session_def Let_def swapped_def control_def clicked_def inc_simps, simp add: inc_def)
    qed
  qed
  show ?thesis unfolding log_counts_def using at at' flags rt sw by blast
qed

lemma logs_count_sessions:
  assumes "\<forall>(q, sh, c) \<in> set ss. length c = ls_K S"
  shows "log_counts S ss (foldl (log_session S) (empty_logs S n) ss)"
  using assms
proof (induction ss rule: rev_induct)
  case Nil
  show ?case by (simp add: log_counts_def empty_logs_def Let_def)
next
  case (snoc x ss)
  obtain q sh c where x: "x = (q, sh, c)" by (cases x)
  have "log_counts S ss (foldl (log_session S) (empty_logs S n) ss)" using snoc by simp
  moreover have "length c = ls_K S" using snoc.prems by (simp add: x)
  ultimately show ?case by (simp add: x log_counts_step)
qed

lemma fill_rows_shape: "length (fill_rows m as rs) = length as \<and> set (fill_rows m as rs) \<subseteq> set as \<union> set rs"
  by (induction m as rs rule: fill_rows.induct) auto

definition lists_ok :: "nat \<Rightarrow> nat \<Rightarrow> shown list \<Rightarrow> bool" where
  \<comment> \<open>\<open>n\<close> lists of \<open>K\<close> ranks\<close>
  "lists_ok n K shs \<longleftrightarrow> length shs = n \<and> (\<forall>s \<in> set shs. length (sh_perm s) = K)"

lemma lists_ok_plain: "lists_ok n K (replicate n (plain_shown K))"
  by (simp add: lists_ok_def plain_shown_def)

lemma lists_ok_fill:
  "lists_ok n K as \<Longrightarrow> \<forall>s \<in> set rs. length (sh_perm s) = K \<Longrightarrow> lists_ok n K (fill_rows m as rs)"
  unfolding lists_ok_def using fill_rows_shape [of m as rs] by blast

lemma sessions_shown_shape:
  assumes "uniform_draws R" and "\<forall>xs. length (ls_argsort S xs) = length xs"
  shows "lists_ok (length q) (ls_K S) (fst (sessions_shown R S q g))"
proof -
  have u: "length (fst (rg_random R h n)) = n" for h n using assms(1) by (simp add: uniform_draws_def)
  have rt: "\<forall>s \<in> set (map (\<lambda>r. \<lparr>sh_perm = ls_argsort S r, sh_rt = True, sh_swap = None\<rparr>)
      (map (\<lambda>r. take (ls_rt_n S) r @ map (\<lambda>i. real i + 10) [ls_rt_n S..<ls_K S]) (split_rows m (ls_K S) ks))). length (sh_perm s) = ls_K S"
    if "length ks = m * ls_K S" for m ks
    using split_rows_lengths [OF that] assms(2) by auto
  have sw: "\<forall>s \<in> set (map2 (\<lambda>k x. swap_shown_one (ls_K S) (k, x < 1 / 2)) kk d). length (sh_perm s) = ls_K S" for kk and d :: "real list"
    by (auto simp: swap_shown_one_def)
  have "lists_ok (length q) (ls_K S) (fst (randtop_shown R S q g))"
  proof -
    obtain u' g1 where u': "rg_random R g (length q) = (u', g1)" by fastforce
    define is_rt where "is_rt = map2 (\<lambda>x qi. x < ls_eps S \<and> ls_rt_n S \<le> n_real S qi) u' q"
    define m where "m = length (filter id is_rt)"
    obtain ks g2 where ks: "rg_random R g1 (m * ls_K S) = (ks, g2)" by fastforce
    have len: "length ks = m * ls_K S" using u [of g1 "m * ls_K S"] by (simp add: ks)
    have "fst (randtop_shown R S q g) = (if m = 0 then replicate (length q) (plain_shown (ls_K S))
        else fill_rows is_rt (replicate (length q) (plain_shown (ls_K S)))
          (map (\<lambda>r. \<lparr>sh_perm = ls_argsort S r, sh_rt = True, sh_swap = None\<rparr>)
            (map (\<lambda>r. take (ls_rt_n S) r @ map (\<lambda>i. real i + 10) [ls_rt_n S..<ls_K S]) (split_rows m (ls_K S) ks))))"
      unfolding randtop_shown_def Let_def u' prod.case is_rt_def [symmetric] m_def [symmetric] ks by simp
    then show ?thesis using lists_ok_plain lists_ok_fill [OF lists_ok_plain rt [OF len]] by (cases "m = 0") simp_all
  qed
  moreover have "lists_ok (length q) (ls_K S) (fst (swap_shown R S q g))"
  proof -
    obtain u g1 where u: "rg_random R g (length q) = (u, g1)" by fastforce
    define inter where "inter = map2 (\<lambda>x qi. x < ls_eps S \<and> 2 \<le> min (n_real S qi) (ls_K S)) u q"
    define kmax where "kmax = map (\<lambda>(b, qi). min (n_real S qi) (ls_K S)) (filter fst (zip inter q))"
    obtain v g2 where v: "rg_random R g1 (length kmax) = (v, g2)" by fastforce
    obtain d g3 where d: "rg_random R g2 (length kmax) = (d, g3)" by fastforce
    have "fst (swap_shown R S q g) = (if \<not> list_ex (\<lambda>x. x < ls_eps S) u then replicate (length q) (plain_shown (ls_K S))
        else fill_rows inter (replicate (length q) (plain_shown (ls_K S)))
          (map2 (\<lambda>k x. swap_shown_one (ls_K S) (k, x < 1 / 2)) (map2 (\<lambda>x k. 1 + nat \<lfloor>x * (real k - 1)\<rfloor>) v kmax) d))"
      unfolding swap_shown_def Let_def u prod.case inter_def [symmetric] kmax_def [symmetric] v d by simp
    moreover have "lists_ok (length q) (ls_K S) (fill_rows inter (replicate (length q) (plain_shown (ls_K S)))
          (map2 (\<lambda>k x. swap_shown_one (ls_K S) (k, x < 1 / 2)) (map2 (\<lambda>x k. 1 + nat \<lfloor>x * (real k - 1)\<rfloor>) v kmax) d))"
      by (rule lists_ok_fill [OF lists_ok_plain sw])
    ultimately show ?thesis using lists_ok_plain by (metis (no_types, lifting))
  qed
  ultimately show ?thesis by (simp add: sessions_shown_def lists_ok_plain)
qed

lemma chunk_sessions_shape:
  assumes "sim_setup R (ls_model S) (ls_grades S) (ls_K S)" and "\<forall>xs. length (ls_argsort S xs) = length xs"
  shows "length (fst (chunk_sessions R S n g)) = n \<and> (\<forall>(q, sh, c) \<in> set (fst (chunk_sessions R S n g)). length c = ls_K S)"
proof -
  obtain q g1 where q: "rg_integers R g (length (ls_grades S)) n = (q, g1)" by fastforce
  obtain sh g2 where sh: "sessions_shown R S q g1 = (sh, g2)" by fastforce
  have conf: "uniform_draws R" "length q = n" "case ls_model S of PBM _ _ _ eta \<Rightarrow> length eta = ls_K S | DBN _ _ _ _ \<Rightarrow> True"
    using assms(1) q by (auto simp: sim_setup_def) (metis fst_conv)
  have shown: "length sh = n" "\<forall>s \<in> set sh. length (sh_perm s) = ls_K S"
    using sessions_shown_shape [OF conf(1) assms(2), of q g1] by (simp_all add: sh conf(2) lists_ok_def)
  let ?gs = "map2 (\<lambda>qi s. map ((!) (ls_grades S ! qi)) (sh_perm s)) q sh"
  have gs: "\<forall>row \<in> set ?gs. length row = ls_K S" using shown(2) by (auto elim!: in_set_zipE)
  note sim = simulate_lengths [OF conf(1) gs conf(3), of g2]
  show ?thesis
    using sim shown(1) conf(2) by (auto simp: chunk_sessions_def q sh Let_def case_prod_unfold elim!: in_set_zipE)
qed

lemma sessions_of_shape:
  assumes "sim_setup R (ls_model S) (ls_grades S) (ls_K S)" and "\<forall>xs. length (ls_argsort S xs) = length xs"
    and "sessions_of R S n chunk g = Some (ss, g')"
  shows "length ss = n \<and> (\<forall>(q, sh, c) \<in> set ss. length c = ls_K S)"
proof -
  let ?f = "\<lambda>(ss, g) n. let (s, g') = chunk_sessions R S n g in (ss @ s, g')"
  obtain ns where ns: "pass_sizes n chunk = Some ns" and ss: "foldl ?f ([], g) ns = (ss, g')"
    using assms(3) by (auto simp: sessions_of_def)
  have "length (fst (foldl ?f (a, g) ns)) = length a + sum_list ns \<and>
      ((\<forall>(q, sh, c) \<in> set a. length c = ls_K S) \<longrightarrow> (\<forall>(q, sh, c) \<in> set (fst (foldl ?f (a, g) ns)). length c = ls_K S))" for a g
  proof (induction ns arbitrary: a g)
    case (Cons n ns)
    obtain s g1 where s: "chunk_sessions R S n g = (s, g1)" by fastforce
    then have "length s = n" "\<forall>(q, sh, c) \<in> set s. length c = ls_K S" using chunk_sessions_shape [OF assms(1,2), of n g] by simp_all
    then show ?case using Cons.IH [of "a @ s" g1] by (simp add: s) blast
  qed simp
  from this [of "[]" g, unfolded ss] show ?thesis using pass_sizes_sum [OF ns] by simp
qed

section \<open>Estimates under the examination hypothesis\<close>

definition click_rate :: "session list \<Rightarrow> (session \<Rightarrow> bool) \<Rightarrow> nat \<Rightarrow> real \<Rightarrow> bool" where
  \<comment> \<open>of the sessions of a group, exactly the given share has a click at the rank\<close>
  "click_rate ss P r p \<longleftrightarrow> real (cnt (\<lambda>x. P x \<and> clicked r x) ss) = p * real (cnt P ss)"

lemma cnt_pos: "0 < cnt P xs \<longleftrightarrow> (\<exists>x \<in> set xs. P x)" "cnt P xs = 0 \<longleftrightarrow> \<not> (\<exists>x \<in> set xs. P x)"
  by (auto simp: cnt_def filter_empty_conv)

text \<open>C26: on the logs of a simulation whose click rates are those of the examination hypothesis the estimators are exact.
  The simulation logs as many sessions as asked for.  If every candidate is clicked at every rank at its attraction
  times the examination of the rank (\<open>eta\<close> of the click model), IPS weights are the attraction of each candidate times
  the number of times it was shown, wherever it was shown.  If the same holds of the original top result in the swapped and
  in the control sessions of each rank, the swap intervention estimates 1 at the first rank, \<open>eta r / eta 0\<close> at every rank with
  sessions of both kinds, and nothing elsewhere; if it holds in the shuffled sessions, the random-top intervention estimates
  \<open>eta r / eta 0\<close> at every rank of its window, when there is a shuffled session, and nothing elsewhere.\<close>

theorem estimators_exact:
  assumes conf: "sim_setup R (ls_model S) (ls_grades S) (ls_K S)" and sort: "\<forall>xs. length (ls_argsort S xs) = length xs"
    and model: "ls_model S = PBM name alpha sigma eta" and pos: "\<And>r. r < ls_K S \<Longrightarrow> 0 < eta ! r"
    and run: "simulate_logs R S n chunk g = Some (L, g')" and ss: "sessions_of R S n chunk g = Some (ss, g')"
    and seen: "\<And>i r. i < last (ls_offsets S) \<Longrightarrow> r < ls_K S \<Longrightarrow> click_rate ss (shows_at S i r) r (att i * eta ! r)"
    and swap: "\<And>k. 0 < k \<Longrightarrow> k < ls_K S \<Longrightarrow> 0 < lead k \<and>
        click_rate ss (swapped k) k (lead k * eta ! k) \<and> click_rate ss (control k) 0 (lead k * eta ! 0)"
    and rt: "0 < avg" "\<And>r. r < ls_K S \<Longrightarrow> r < ls_rt_n S \<Longrightarrow> click_rate ss shuffled r (avg * eta ! r)"
  shows "length ss = n \<and>
    ips_weights (lg_clicks_at L) (Some eta) None =
      map (\<lambda>i. att i * real (\<Sum>r < ls_K S. cnt (shows_at S i r) ss)) [0..<last (ls_offsets S)] \<and>
    estimate_propensity L ''swap'' =
      Inr (map (\<lambda>r. if r = 0 then Some 1
                    else if (\<exists>x \<in> set ss. swapped r x) \<and> (\<exists>x \<in> set ss. control r x) then Some (eta ! r / eta ! 0) else None) [0..<ls_K S]) \<and>
    estimate_propensity L ''randtop'' =
      Inr (map (\<lambda>r. if (\<exists>x \<in> set ss. shuffled x) \<and> r < ls_rt_n S then Some (eta ! r / eta ! 0) else None) [0..<ls_K S])"
proof (intro conjI)
  let ?K = "ls_K S"
  note shape = sessions_of_shape [OF conf sort ss]
  show "length ss = n" using shape by simp
  have K: "length eta = ?K" using conf by (simp add: sim_setup_def model)
  have L: "log_counts S ss L"
    using run logs_count_sessions shape by (auto simp: logs_of_sessions ss)
  have at: "length (lg_clicks_at L) = last (ls_offsets S)" "i < last (ls_offsets S) \<Longrightarrow> length (lg_clicks_at L ! i) = ?K"
    "i < last (ls_offsets S) \<Longrightarrow> r < ?K \<Longrightarrow> lg_clicks_at L ! i ! r = cnt (\<lambda>x. shows_at S i r x \<and> clicked r x) ss" for i r
    using L by (simp_all add: log_counts_def)
  have counts: "lg_rt_clicks L ! r = cnt (\<lambda>x. shuffled x \<and> clicked r x) ss \<and>
        lg_sw_k L ! r = cnt (\<lambda>x. swapped r x \<and> clicked r x) ss \<and> lg_sw_ns L ! r = cnt (swapped r) ss \<and>
        lg_sw_1 L ! r = cnt (\<lambda>x. control r x \<and> clicked 0 x) ss \<and> lg_sw_nc L ! r = cnt (control r) ss" if "r < ?K" for r
    using L that by (simp add: log_counts_def)
  have len: "length (lg_rt_clicks L) = ?K" "lg_rt_n L = ls_rt_n S" using L by (simp_all add: log_counts_def)
  have "inner (map real (lg_clicks_at L ! i)) (map (\<lambda>x. 1 / x) eta) = att i * real (\<Sum>r < ?K. cnt (shows_at S i r) ss)"
    if i: "i < last (ls_offsets S)" for i
  proof -
    have "inner (map real (lg_clicks_at L ! i)) (map (\<lambda>x. 1 / x) eta) = (\<Sum>r < ?K. real (lg_clicks_at L ! i ! r) * (1 / eta ! r))"
      using at(2) [OF i] K by (subst inner_sum [where n = ?K]) simp_all
    also have "\<dots> = (\<Sum>r < ?K. att i * real (cnt (shows_at S i r) ss))"
    proof (rule sum.cong [OF refl])
      fix r assume "r \<in> {..<?K}"
      then have r: "r < ?K" by simp
      show "real (lg_clicks_at L ! i ! r) * (1 / eta ! r) = att i * real (cnt (shows_at S i r) ss)"
        using seen [OF i r] pos [OF r] by (simp add: at(3) [OF i r] click_rate_def)
    qed
    finally show ?thesis by (simp add: sum_distrib_left)
  qed
  then show "ips_weights (lg_clicks_at L) (Some eta) None =
      map (\<lambda>i. att i * real (\<Sum>r < ?K. cnt (shows_at S i r) ss)) [0..<last (ls_offsets S)]"
    by (intro nth_equalityI) (simp_all add: ips_weights_def Let_def at(1))
  have "opt_div (ratio (lg_sw_k L ! r) (lg_sw_ns L ! r)) (ratio (lg_sw_1 L ! r) (lg_sw_nc L ! r)) =
      (if (\<exists>x \<in> set ss. swapped r x) \<and> (\<exists>x \<in> set ss. control r x) then Some (eta ! r / eta ! 0) else None)"
    if r: "r < ?K" "0 < r" for r
  proof -
    have e: "0 < eta ! 0" "0 < lead r" using pos [of 0] r swap [OF r(2,1)] by auto
    note sw = swap [OF r(2,1), unfolded click_rate_def]
    show ?thesis
    proof (cases "(\<exists>x \<in> set ss. swapped r x) \<and> (\<exists>x \<in> set ss. control r x)")
      case True
      then have c: "0 < cnt (swapped r) ss" "0 < cnt (control r) ss" by (simp_all add: cnt_pos)
      have "real (cnt (\<lambda>x. swapped r x \<and> clicked r x) ss) / real (cnt (swapped r) ss) = lead r * eta ! r"
        "real (cnt (\<lambda>x. control r x \<and> clicked 0 x) ss) / real (cnt (control r) ss) = lead r * eta ! 0"
        using sw c by simp_all
      then show ?thesis using True c e by (simp add: opt_div_def ratio_def counts [OF r(1)])
    next
      case False
      then have "cnt (swapped r) ss = 0 \<or> cnt (control r) ss = 0" by (auto simp: cnt_pos)
      then have "opt_div (ratio (lg_sw_k L ! r) (lg_sw_ns L ! r)) (ratio (lg_sw_1 L ! r) (lg_sw_nc L ! r)) = None"
        by (auto simp: opt_div_def ratio_def counts [OF r(1)] split: option.split)
      then show ?thesis using False by (simp only: if_False)
    qed
  qed
  then show "estimate_propensity L ''swap'' =
      Inr (map (\<lambda>r. if r = 0 then Some 1
                    else if (\<exists>x \<in> set ss. swapped r x) \<and> (\<exists>x \<in> set ss. control r x) then Some (eta ! r / eta ! 0) else None) [0..<?K])"
    by (simp add: estimate_propensity_def Let_def len(1))
  have "(if lg_rt_clicks L ! 0 > 0 \<and> r < lg_rt_n L then Some (real (lg_rt_clicks L ! r) / real (lg_rt_clicks L ! 0)) else None) =
      (if (\<exists>x \<in> set ss. shuffled x) \<and> r < ls_rt_n S then Some (eta ! r / eta ! 0) else None)" if r: "r < ?K" for r
  proof (cases "r < ls_rt_n S")
    case True
    then have z: "0 < ?K" "0 < ls_rt_n S" using r by auto
    have e: "0 < eta ! 0" by (rule pos [OF z(1)])
    have c0: "real (lg_rt_clicks L ! 0) = avg * eta ! 0 * real (cnt shuffled ss)"
      using rt(2) [OF z] counts [OF z(1)] by (simp add: click_rate_def)
    have cr: "real (lg_rt_clicks L ! r) = avg * eta ! r * real (cnt shuffled ss)"
      using rt(2) [OF r True] counts [OF r] by (simp add: click_rate_def)
    show ?thesis
    proof (cases "\<exists>x \<in> set ss. shuffled x")
      case some: True
      then have "0 < cnt shuffled ss" by (simp add: cnt_pos)
      then have "0 < real (lg_rt_clicks L ! 0)" unfolding c0 using e rt(1) by simp
      moreover have "real (lg_rt_clicks L ! r) / real (lg_rt_clicks L ! 0) = eta ! r / eta ! 0"
        unfolding c0 cr using rt(1) e \<open>0 < cnt shuffled ss\<close> by simp
      ultimately show ?thesis using some True len(2) by simp
    next
      case False
      then have "cnt shuffled ss = 0" by (simp add: cnt_pos)
      then have "real (lg_rt_clicks L ! 0) = 0" unfolding c0 by simp
      then show ?thesis using False by simp
    qed
  qed (simp add: len(2))
  then show "estimate_propensity L ''randtop'' =
      Inr (map (\<lambda>r. if (\<exists>x \<in> set ss. shuffled x) \<and> r < ls_rt_n S then Some (eta ! r / eta ! 0) else None) [0..<?K])"
    by (simp add: estimate_propensity_def Let_def len(1))
qed

text \<open>A propensity curve fitted by a non-increasing regression from the first rank on is non-increasing and
  never below its floor.\<close>

lemma monotone_propensity_ok:
  assumes iso: "\<And>ps a b. a \<le> b \<Longrightarrow> isotonic ps b \<le> isotonic ps a"
    and first: "est \<noteq> []" "est ! 0 = Some e" "0 < e" "0 < support ! 0"
    and two: "2 \<le> length (filter (\<lambda>r. (case est ! r of None \<Rightarrow> False | Some e \<Rightarrow> support ! r > 0 \<and> e > 0)) [0..<length est])"
  shows "\<exists>f. monotone_propensity isotonic est support lowest = map (\<lambda>r. Some (f r)) [0..<length est] \<and>
     (\<forall>r. lowest \<le> f r) \<and> (\<forall>a b. a \<le> b \<longrightarrow> f b \<le> f a)"
proof -
  define ok where "ok = filter (\<lambda>r. (case est ! r of None \<Rightarrow> False | Some e \<Rightarrow> support ! r > 0 \<and> e > 0)) [0..<length est]"
  have hd: "hd ok = 0" using first by (auto simp: ok_def upt_conv_Cons)
  define g where "g = isotonic (map (\<lambda>r. (real r, the (est ! r), support ! r)) ok)"
  define out where "out = map (\<lambda>r. if r < hd ok then None else Some (g (real (min r (last ok))))) [0..<length est]"
  have out: "out = map (\<lambda>r. Some (g (real (min r (last ok))))) [0..<length est]" by (simp add: out_def hd)
  define t where "t = g 0"
  have t: "hd out = Some t" using first(1) by (simp add: out t_def upt_conv_Cons)
  have g: "g b \<le> g a" if "a \<le> b" for a b using iso [OF that] by (simp add: g_def)
  define f where "f r = max lowest (if t > 0 then g (real (min r (last ok))) / t else g (real (min r (last ok))))" for r
  have "monotone_propensity isotonic est support lowest =
      map (map_option (max lowest)) (case hd out of None \<Rightarrow> out | Some t \<Rightarrow> if t > 0 then map (map_option (\<lambda>x. x / t)) out else out)"
    using two unfolding monotone_propensity_def Let_def ok_def [symmetric] by (simp only: g_def [symmetric] out_def [symmetric]) simp
  also have "\<dots> = map (\<lambda>r. Some (f r)) [0..<length est]"
    by (simp only: t option.case) (simp add: out f_def)
  finally have "monotone_propensity isotonic est support lowest = map (\<lambda>r. Some (f r)) [0..<length est]" .
  moreover have "f b \<le> f a" if "a \<le> b" for a b
  proof -
    have "g (real (min b (last ok))) \<le> g (real (min a (last ok)))" using that by (intro g) auto
    then show ?thesis by (auto simp: f_def intro!: max.coboundedI2 divide_right_mono)
  qed
  ultimately show ?thesis by (intro exI [of _ f]) (simp add: f_def)
qed

text \<open>Without the first rank the curve starts with a NaN: with harvested estimates whose first rank no
  informative pair supports, the fitted propensities of the ranks before the first supported one are lost.\<close>

lemma monotone_propensity_nan:
  "monotone_propensity (\<lambda>ps x. 1 / 2) [Some 1, Some (1 / 2), Some (1 / 4)] [0, 3, 3] (1 / 1000) = [None, Some (1 / 2), Some (1 / 2)]"
  by (simp add: monotone_propensity_def upt_rec)

section \<open>Two runs\<close>

text \<open>Four sessions of one query with two candidates, of which users want the first, under each intervention; the generator
  reads its uniform numbers from a list.\<close>

definition demo_draws :: "real list \<Rightarrow> nat rng_ops" where
  "demo_draws ds =
     \<lparr>rg_random = \<lambda>g k. (map (\<lambda>i. if i < length ds then ds ! i else 0) [g..<g + k], g + k), rg_integers = \<lambda>g n k. (replicate k 0, g),
      rg_normal = \<lambda>g k. (replicate k 0, g), rg_geometric = \<lambda>g p. (1, g), rg_multinomial = \<lambda>g n p k. (replicate k [], g),
      rg_choice = \<lambda>g p. (0, g)\<rparr>"

definition demo_log_setup :: "string \<Rightarrow> log_setup" where
  "demo_log_setup iv =
     \<lparr>ls_grades = [[1, 0]], ls_K = 2, ls_offsets = [0, 2], ls_model = PBM ''pbm'' [0, 1] [0, 0] [1, 1 / 2], ls_intervention = Some iv,
      ls_eps = 1, ls_rt_n = 2, ls_argsort = \<lambda>xs. py_sorted ((!) xs) [0..<length xs]\<rparr>"

definition swap_draws :: "real list" where
  \<comment> \<open>who is in the intervention, at which rank, swapped or not, and the users' examination\<close>
  "swap_draws = replicate 8 0 @ [0, 0, 1 / 2, 1 / 2] @ [0, 0, 0, 3 / 4]"

definition randtop_draws :: "real list" where
  "randtop_draws = replicate 4 0 @ [0, 1 / 2, 0, 1 / 2, 1 / 2, 0, 1 / 2, 0] @ replicate 7 0 @ [3 / 4]"

definition demo_session :: "nat list \<Rightarrow> bool \<Rightarrow> (nat \<times> bool) option \<Rightarrow> bool list \<Rightarrow> session" where
  "demo_session perm rt sw c = (0, \<lparr>sh_perm = perm, sh_rt = rt, sh_swap = sw\<rparr>, c)"

definition swap_sessions :: "session list" where
  "swap_sessions =
     [demo_session [1, 0] False (Some (1, True)) [False, True], demo_session [1, 0] False (Some (1, True)) [False, False],
      demo_session [0, 1] False (Some (1, False)) [True, False], demo_session [0, 1] False (Some (1, False)) [True, False]]"

definition randtop_sessions :: "session list" where
  "randtop_sessions =
     [demo_session [0, 1] True None [True, False], demo_session [0, 1] True None [True, False],
      demo_session [1, 0] True None [False, True], demo_session [1, 0] True None [False, False]]"

lemma demo_sessions:
  "sessions_of (demo_draws swap_draws) (demo_log_setup ''swap'') 4 4 0 = Some (swap_sessions, 36)"
  "sessions_of (demo_draws randtop_draws) (demo_log_setup ''randtop'') 4 4 0 = Some (randtop_sessions, 36)"
  by code_simp+

lemma session_tests:
  "shows_at (demo_log_setup iv) i r (demo_session perm b sw c) \<longleftrightarrow> perm ! r = i" "clicked r (demo_session perm b sw c) \<longleftrightarrow> r < length c \<and> c ! r"
  "shuffled (demo_session perm b sw c) \<longleftrightarrow> b" "swapped k (demo_session perm b sw c) \<longleftrightarrow> sw = Some (k, True)"
  "control k (demo_session perm b sw c) \<longleftrightarrow> sw = Some (k, False)"
  by (simp_all add: shows_at_def clicked_def shuffled_def swapped_def control_def demo_session_def demo_log_setup_def)

lemma demo_rates:
  fixes ss :: "session list"
  assumes "ss = swap_sessions \<or> ss = randtop_sessions"
  shows "i < last [0, 2] \<Longrightarrow> r < 2 \<Longrightarrow> click_rate ss (shows_at (demo_log_setup iv) i r) r ((if i = 0 then 1 else 0) * [1, 1 / 2] ! r)"
    and "0 < k \<Longrightarrow> k < 2 \<Longrightarrow> (0 :: real) < 1 \<and> click_rate ss (swapped k) k (1 * [1, 1 / 2] ! k) \<and> click_rate ss (control k) 0 (1 * [1, 1 / 2] ! 0)"
    and "r < 2 \<Longrightarrow> r < 2 \<Longrightarrow> click_rate ss shuffled r (1 / 2 * [1, 1 / 2] ! r)"
  using assms by (auto simp: less_2_cases_iff click_rate_def swap_sessions_def randtop_sessions_def session_tests)

lemma demo_log_setup_ok:
  assumes "list_all (\<lambda>u. 0 \<le> u \<and> u < 1) ds"
  shows "sim_setup (demo_draws ds) (ls_model (demo_log_setup iv)) (ls_grades (demo_log_setup iv)) (ls_K (demo_log_setup iv))"
  using assms by (auto simp: sim_setup_def uniform_draws_def demo_draws_def demo_log_setup_def list_all_iff)

lemma demo_argsort: "\<forall>xs. length (ls_argsort (demo_log_setup iv) xs) = length xs"
  by (simp add: demo_log_setup_def sort_simps)

theorem estimators_exact_witness:
  "\<exists>L Lr. simulate_logs (demo_draws swap_draws) (demo_log_setup ''swap'') 4 4 0 = Some (L, 36) \<and>
     ips_weights (lg_clicks_at L) (Some [1, 1 / 2]) None = [4, 0] \<and> estimate_propensity L ''swap'' = Inr [Some 1, Some (1 / 2)] \<and>
     simulate_logs (demo_draws randtop_draws) (demo_log_setup ''randtop'') 4 4 0 = Some (Lr, 36) \<and>
     estimate_propensity Lr ''randtop'' = Inr [Some 1, Some (1 / 2)]"
proof -
  let ?S = "demo_log_setup ''swap''" and ?T = "demo_log_setup ''randtop''"
  have S: "ls_model (demo_log_setup iv) = PBM ''pbm'' [0, 1] [0, 0] [1, 1 / 2]" "ls_K (demo_log_setup iv) = 2"
    "ls_offsets (demo_log_setup iv) = [0, 2]" "ls_rt_n (demo_log_setup iv) = 2" for iv by (simp_all add: demo_log_setup_def)
  obtain L where L: "simulate_logs (demo_draws swap_draws) ?S 4 4 0 = Some (L, 36)" by (simp add: logs_of_sessions demo_sessions)
  obtain Lr where Lr: "simulate_logs (demo_draws randtop_draws) ?T 4 4 0 = Some (Lr, 36)" by (simp add: logs_of_sessions demo_sessions)
  have ds: "list_all (\<lambda>u. 0 \<le> u \<and> u < 1) swap_draws" "list_all (\<lambda>u. 0 \<le> u \<and> u < 1) randtop_draws"
    by (simp_all add: swap_draws_def randtop_draws_def list_all_iff)
  have pos: "0 < [1, 1 / 2 :: real] ! r" if "r < 2" for r using that by (auto simp: less_2_cases_iff)
  have d: "swap_sessions = swap_sessions \<or> swap_sessions = randtop_sessions" "randtop_sessions = swap_sessions \<or> randtop_sessions = randtop_sessions"
    by simp_all
  note exact = estimators_exact [OF demo_log_setup_ok demo_argsort S(1), unfolded S, where att = "\<lambda>i. if i = 0 then 1 else 0" and lead = "\<lambda>k. 1" and avg = "1 / 2"]
  have swap: "ips_weights (lg_clicks_at L) (Some [1, 1 / 2]) None =
        map (\<lambda>i. (if i = 0 then 1 else 0) * real (\<Sum>r < 2. cnt (shows_at ?S i r) swap_sessions)) [0..<last [0, 2]] \<and>
      estimate_propensity L ''swap'' = Inr (map (\<lambda>r. if r = 0 then Some 1
        else if (\<exists>x \<in> set swap_sessions. swapped r x) \<and> (\<exists>x \<in> set swap_sessions. control r x) then Some ([1, 1 / 2] ! r / [1, 1 / 2] ! 0) else None) [0..<2])"
    using exact [OF ds(1) pos L demo_sessions(1) demo_rates(1) [OF d(1)] demo_rates(2) [OF d(1)] _ demo_rates(3) [OF d(1)]] by simp
  have "estimate_propensity Lr ''randtop'' = Inr (map (\<lambda>r. if (\<exists>x \<in> set randtop_sessions. shuffled x) \<and> r < 2
        then Some ([1, 1 / 2] ! r / [1, 1 / 2] ! 0) else None) [0..<2])"
    using exact [OF ds(2) pos Lr demo_sessions(2) demo_rates(1) [OF d(2)] demo_rates(2) [OF d(2)] _ demo_rates(3) [OF d(2)]] by simp
  moreover have "[0..<2] = [0, 1 :: nat]" by (simp add: upt_rec)
  ultimately have "estimate_propensity Lr ''randtop'' = Inr [Some 1, Some (1 / 2)]"
    by (simp add: randtop_sessions_def session_tests)
  moreover have "ips_weights (lg_clicks_at L) (Some [1, 1 / 2]) None = [4, 0] \<and> estimate_propensity L ''swap'' = Inr [Some 1, Some (1 / 2)]"
    using swap by (simp add: upt_rec swap_sessions_def session_tests numeral_2_eq_2 lessThan_Suc)
  ultimately show ?thesis using L Lr by blast
qed

end
