(* ===== verification/Data_Prep.thy ===== *)
theory Data_Prep
  imports Rankers
begin

text \<open>
  \<open>py/hybridsearch/data/subset.py\<close> (the deterministic passage subset and the two training samples) and
  \<open>data/prepare.py\<close> (verification of the downloads, judged topics).  MD5 and numpy's \<open>choice\<close> without
  replacement are arguments; files are their contents; the sizes are a record, so that the module's
  constants are one value of it.  The lemmas: the subset keeps every relevant passage and every judgment
  of one, and the two samples are disjoint.
\<close>

section \<open>The subset\<close>

definition SEED :: nat where "SEED = 20260923"

record sizes =
  sz_subset :: nat
  sz_tune :: nat
  sz_50k :: nat

definition SIZES :: sizes where
  "SIZES = \<lparr>sz_subset = 1000000, sz_tune = 2000, sz_50k = 50000\<rparr>"

record 'g chooser =
  ch_fresh :: "nat \<Rightarrow> 'g"
  ch_choice :: "'g \<Rightarrow> nat \<Rightarrow> nat \<Rightarrow> nat list \<times> 'g" \<comment> \<open>\<open>rng.choice(n, k, replace=False)\<close>\<close>

definition draw_choice :: "'g chooser \<Rightarrow> 'g \<Rightarrow> 'a list \<Rightarrow> int \<Rightarrow> ('a list \<times> 'g) res" where
  \<comment> \<open>more than there are, or a negative number, raises ValueError\<close>
  "draw_choice R g xs k =
     (if k < 0 \<or> k > int (length xs) then Inl ValueError
      else let (js, g') = ch_choice R g (length xs) (nat k) in Inr (map ((!) xs) js, g'))"

definition relevant_pids :: "qrels \<Rightarrow> int list res" where
  "relevant_pids qrels =
     res_map int_of (concat (map (\<lambda>(q, docs). map fst (filter (\<lambda>(d, g). g > 0) docs)) qrels))"

definition line_pid :: "string \<Rightarrow> int res" where
  \<comment> \<open>\<open>int(line.split("\\t", 1)[0])\<close>, which ignores white space around the number\<close>
  "line_pid line = int_of (strip (takeWhile (\<lambda>c. code c \<noteq> TAB) line))"

definition in_subset :: "int list \<Rightarrow> docid \<Rightarrow> bool" where
  "in_subset kept d = (case int_of d of Inl _ \<Rightarrow> False | Inr n \<Rightarrow> n \<in> set kept)"

definition pick_subset :: "'g chooser \<Rightarrow> 'g \<Rightarrow> nat \<Rightarrow> int list \<Rightarrow> int list \<Rightarrow> (int list \<times> 'g) res" where
  \<comment> \<open>the relevant ids, in order, and the ids of the collection\<close>
  "pick_subset R g want rel pids =
     (if \<not> sorted_wrt (<) pids then Inl AssertionError
      else if \<not> set rel \<subseteq> set pids then Inl AssertionError
      else res_bind (draw_choice R g (filter (\<lambda>p. p \<notin> set rel) pids) (int want - int (length rel))) (\<lambda>(sample, g').
        let kept = sort (rel @ sample) in
        if length kept \<noteq> want \<or> \<not> distinct kept then Inl AssertionError else Inr (kept, g')))"

definition collection_subset :: "int list \<Rightarrow> string \<Rightarrow> nat \<Rightarrow> string res" where
  "collection_subset kept f want =
     res_bind (res_map (\<lambda>l. res_bind (line_pid l) (\<lambda>p. Inr (p, l))) (text_lines f)) (\<lambda>ls.
       let keep = filter (\<lambda>(p, l). p \<in> set kept) ls in
       if length keep \<noteq> want then Inl AssertionError else Inr (concat (map snd keep)))"

definition filter_docs :: "int list \<Rightarrow> (docid \<times> int) list \<Rightarrow> (docid \<times> int) list res" where
  \<comment> \<open>\<open>int(d) in in_subset\<close>, which raises on a docid that is no number\<close>
  "filter_docs kept docs =
     res_bind (res_map (\<lambda>(d, g). res_bind (int_of d) (\<lambda>n. Inr ((d, g), n \<in> set kept))) docs) (\<lambda>ds.
       Inr (map fst (filter snd ds)))"

definition filter_qrels :: "int list \<Rightarrow> qrels \<Rightarrow> qrels res" where
  "filter_qrels kept q =
     res_bind (res_map (\<lambda>(qid, docs). res_bind (filter_docs kept docs) (\<lambda>f. Inr (qid, f))) q) (\<lambda>f.
       Inr (filter (\<lambda>(qid, docs). docs \<noteq> []) f))"

record qrels_stats =
  qs_topics :: nat
  qs_topics_in_subset :: nat
  qs_judgments_full :: nat
  qs_judgments_in_subset :: nat
  qs_relevant_full :: nat
  qs_relevant_in_subset :: nat

definition n_relevant :: "qrels \<Rightarrow> nat" where
  "n_relevant q = sum_list (map (\<lambda>(_, docs). length (filter (\<lambda>(d, g). g > 0) docs)) q)"

definition subset_stats :: "int list \<Rightarrow> qrels \<Rightarrow> (qrels \<times> qrels_stats) res" where
  "subset_stats kept q =
     res_bind (filter_qrels kept q) (\<lambda>f.
      let st = \<lparr>qs_topics = length q, qs_topics_in_subset = length f,
                qs_judgments_full = sum_list (map (length \<circ> snd) q), qs_judgments_in_subset = sum_list (map (length \<circ> snd) f),
                qs_relevant_full = n_relevant q, qs_relevant_in_subset = n_relevant f\<rparr>
      in if qs_relevant_full st \<noteq> qs_relevant_in_subset st then Inl AssertionError else Inr (f, st))"

fun covered :: "int list \<Rightarrow> (docid \<times> int) list \<Rightarrow> bool res" where
  \<comment> \<open>\<open>all(...)\<close> over the relevant documents, which stops at the first one outside\<close>
  "covered kept [] = Inr True"
| "covered kept ((d, g) # docs) =
     (if g > 0 then res_bind (int_of d) (\<lambda>n. if n \<in> set kept then covered kept docs else Inr False) else covered kept docs)"

definition eligible :: "int list \<Rightarrow> qrels \<Rightarrow> qid list \<Rightarrow> qid list res" where
  "eligible kept train_qrels judged =
     res_bind (res_map (\<lambda>q. let docs = dget train_qrels q [] in
         res_bind (covered kept docs) (\<lambda>b. Inr (q, b \<and> list_ex (\<lambda>(d, g). g > 0) docs))) judged) (\<lambda>qs.
       Inr (map fst (filter snd qs)))"

record subset_out =
  so_docids :: "int list"
  so_collection :: string
  so_qrels :: "(string \<times> string \<times> qrels_stats) list" \<comment> \<open>name, file and counts\<close>
  so_tune :: "qid list"
  so_50k :: "qid list"

definition build_subset :: "'g chooser \<Rightarrow> sizes \<Rightarrow> (string \<times> string) list \<Rightarrow> string \<Rightarrow> string \<Rightarrow> string \<Rightarrow> subset_out res" where
  \<comment> \<open>the judgment files by name, the collection, and the training queries and judgments\<close>
  "build_subset R sz qrel_files coll train_qf train_qrf =
     res_bind (res_map (\<lambda>(k, f). res_bind (read_qrels f) (\<lambda>q. Inr (k, q))) qrel_files) (\<lambda>qrels.
     res_bind (res_map (\<lambda>(k, q). relevant_pids q) qrels) (\<lambda>rels.
     res_bind (res_map line_pid (file_lines coll)) (\<lambda>pids.
     res_bind (pick_subset R (ch_fresh R SEED) (sz_subset sz) (sort (remdups (concat rels))) pids) (\<lambda>(kept, g).
     res_bind (collection_subset kept coll (sz_subset sz)) (\<lambda>out.
     res_bind (res_map (\<lambda>(k, q). res_bind (subset_stats kept q) (\<lambda>(f, st). Inr (k, write_qrels f, st))) qrels) (\<lambda>qs.
     res_bind (read_queries train_qf) (\<lambda>train_q. res_bind (read_qrels train_qrf) (\<lambda>train_qrels.
     res_bind (int_sorted (filter (dhas train_q) (keys train_qrels))) (\<lambda>judged.
     res_bind (eligible kept train_qrels judged) (\<lambda>cands.
     res_bind (draw_choice R g cands (int (sz_tune sz))) (\<lambda>(tt0, _).
     res_bind (int_sorted tt0) (\<lambda>tt.
     res_bind (draw_choice R (ch_fresh R (SEED + 1)) (filter (\<lambda>q. q \<notin> set tt) judged) (int (sz_50k sz))) (\<lambda>(t0, _).
     res_bind (int_sorted t0) (\<lambda>t50.
       Inr \<lparr>so_docids = kept, so_collection = out, so_qrels = qs, so_tune = tt, so_50k = t50\<rparr>))))))))))))))"

section \<open>Downloads\<close>

record download =
  dl_name :: string
  dl_md5 :: string

fun verify_downloads :: "(string \<Rightarrow> string option) \<Rightarrow> string option \<Rightarrow> download list \<Rightarrow> bool res" where
  \<comment> \<open>the MD5 of each file present, and the marker left by an extracted tarball; the first mismatch ends with False\<close>
  "verify_downloads md5_of marker [] = Inr True"
| "verify_downloads md5_of marker (d # ds) =
     res_bind (case (md5_of (dl_name d), marker) of
         (Some h, _) \<Rightarrow> Inr h
       | (None, Some m) \<Rightarrow> if dl_name d = ''collectionandqueries.tar.gz'' then Inr (strip m) else Inl FileNotFoundError
       | (None, None) \<Rightarrow> Inl FileNotFoundError)
       (\<lambda>got. if got \<noteq> dl_md5 d then Inr False else verify_downloads md5_of marker ds)"

definition count_lines :: "string \<Rightarrow> nat" where
  "count_lines s = length (filter (\<lambda>c. code c = NL) s)"

definition require_free :: "real \<Rightarrow> real \<Rightarrow> real \<Rightarrow> unit res" where
  "require_free free need headroom = (if free - need < headroom then Inl SystemExit else Inr ())"

definition EXPECTED_COUNTS :: "(string, nat) dict" where
  "EXPECTED_COUNTS = [(''collection.tsv'', 8841823), (''queries.dev.small.tsv'', 6980)]"

definition counts_ok :: "(string, string) dict \<Rightarrow> bool" where
  "counts_ok files = list_all (\<lambda>(f, s). dhas EXPECTED_COUNTS f \<longrightarrow> count_lines s = dget EXPECTED_COUNTS f 0) files"

definition judged_topics :: "string \<Rightarrow> string \<Rightarrow> nat \<Rightarrow> (string \<times> string) option res" where
  \<comment> \<open>the files of all topics and of the judged ones; None when their number is not the expected one\<close>
  "judged_topics qrels_f queries_f expect =
     res_bind (read_qrels qrels_f) (\<lambda>qrels.
     res_bind (res_map (\<lambda>l. case split1 TAB (rstrip_nl l) of None \<Rightarrow> Inl ValueError | Some p \<Rightarrow> Inr p)
         (filter (\<lambda>l. strip l \<noteq> []) (text_lines queries_f))) (\<lambda>allq.
       let judged = filter (\<lambda>(q, t). dhas qrels q) allq in
       if length judged \<noteq> expect \<or> length qrels \<noteq> expect then Inr None
       else Inr (Some (write_queries allq, write_queries judged))))"

section \<open>What the subset keeps\<close>

definition choice_ok :: "'g chooser \<Rightarrow> bool" where
  \<comment> \<open>what numpy documents of a choice without replacement\<close>
  "choice_ok R \<longleftrightarrow> (\<forall>g n k. k \<le> n \<longrightarrow> length (fst (ch_choice R g n k)) = k \<and> distinct (fst (ch_choice R g n k)) \<and>
     set (fst (ch_choice R g n k)) \<subseteq> {..<n})"

lemma draw_choice_ok:
  assumes "choice_ok R" and "draw_choice R g xs k = Inr (ys, g')"
  shows "int (length ys) = k" and "set ys \<subseteq> set xs"
proof -
  have k: "0 \<le> k" "nat k \<le> length xs" "ys = map ((!) xs) (fst (ch_choice R g (length xs) (nat k)))"
    using assms(2) by (auto simp: draw_choice_def case_prod_unfold Let_def split: if_splits)
  have c: "length (fst (ch_choice R g (length xs) (nat k))) = nat k" "set (fst (ch_choice R g (length xs) (nat k))) \<subseteq> {..<length xs}"
    using assms(1) k(2) unfolding choice_ok_def by blast+
  show "int (length ys) = k" "set ys \<subseteq> set xs" using k c by (auto simp: subset_iff)
qed

lemma pick_subset_ok:
  assumes "pick_subset R g want rel pids = Inr (kept, g')" and "choice_ok R"
  shows "length kept = want \<and> sorted_wrt (<) kept \<and> set rel \<subseteq> set kept \<and> set kept \<subseteq> set pids"
proof -
  obtain sample where s: "draw_choice R g (filter (\<lambda>p. p \<notin> set rel) pids) (int want - int (length rel)) = Inr (sample, g')"
      "kept = sort (rel @ sample)" "length kept = want" "distinct kept" "set rel \<subseteq> set pids"
    using assms(1) by (auto simp: pick_subset_def Let_def case_prod_unfold split: if_splits)
  have "set sample \<subseteq> set pids" using draw_choice_ok(2) [OF assms(2) s(1)] by auto
  moreover have "sorted kept" using s(2) by simp
  ultimately show ?thesis using s by (auto simp: strict_sorted_iff)
qed

lemma relevant_pids_covered:
  assumes "relevant_pids q = Inr ps" and "(qid, docs) \<in> set q" and "(d, g) \<in> set docs" and "0 < g" and "set ps \<subseteq> set kept"
  shows "in_subset kept d"
proof -
  let ?ds = "concat (map (\<lambda>(q, docs). map fst (filter (\<lambda>(d, g). g > 0) docs)) q)"
  have "d \<in> set ?ds" using assms(2-4) by force
  then obtain i where i: "i < length ?ds" "?ds ! i = d" by (metis in_set_conv_nth)
  have len: "length ps = length ?ds" using assms(1) res_map_Inr_length unfolding relevant_pids_def by blast
  have "int_of d = Inr (ps ! i)" using res_map_Inr_nth [OF assms(1) [unfolded relevant_pids_def] i(1)] i(2) by simp
  then show ?thesis using assms(5) len i(1) by (auto simp: in_subset_def)
qed

text \<open>C27: a subset that is built has the promised size, in strictly ascending order and from the collection;
  it holds every passage judged relevant in any of the judgment files; and the two training samples have
  their sizes and share no query.\<close>

theorem subset_sound:
  assumes R: "choice_ok R" and out: "build_subset R sz files coll train_qf train_qrf = Inr s"
  shows "length (so_docids s) = sz_subset sz \<and> sorted_wrt (<) (so_docids s) \<and>
    (\<forall>p \<in> set (so_docids s). \<exists>l \<in> set (file_lines coll). line_pid l = Inr p) \<and>
    (\<forall>(k, f) \<in> set files. \<exists>q. read_qrels f = Inr q \<and>
       (\<forall>(qid, docs) \<in> set q. \<forall>(d, g) \<in> set docs. 0 < g \<longrightarrow> in_subset (so_docids s) d)) \<and>
    length (so_tune s) = sz_tune sz \<and> length (so_50k s) = sz_50k sz \<and> set (so_tune s) \<inter> set (so_50k s) = {}"
proof -
  obtain qrels rels pids kept g tt0 gt tt t0 gt2 t50 judged cands train_q train_qrels where b:
      "res_map (\<lambda>(k, f). res_bind (read_qrels f) (\<lambda>q. Inr (k, q))) files = Inr qrels"
      "res_map (\<lambda>(k, q). relevant_pids q) qrels = Inr rels" "res_map line_pid (file_lines coll) = Inr pids"
      "pick_subset R (ch_fresh R SEED) (sz_subset sz) (sort (remdups (concat rels))) pids = Inr (kept, g)"
      "draw_choice R g cands (int (sz_tune sz)) = Inr (tt0, gt)" "int_sorted tt0 = Inr tt"
      "draw_choice R (ch_fresh R (SEED + 1)) (filter (\<lambda>q. q \<notin> set tt) judged) (int (sz_50k sz)) = Inr (t0, gt2)" "int_sorted t0 = Inr t50"
      "so_docids s = kept" "so_tune s = tt" "so_50k s = t50"
    using out unfolding build_subset_def by (auto simp: case_prod_unfold)
  have p: "length kept = sz_subset sz" "sorted_wrt (<) kept" "set (concat rels) \<subseteq> set kept" "set kept \<subseteq> set pids"
    using pick_subset_ok [OF b(4) R] by simp_all
  have "\<exists>l \<in> set (file_lines coll). line_pid l = Inr x" if "x \<in> set kept" for x
    using that p(4) res_map_Inr_set [OF b(3)] by blast
  moreover have "\<exists>q. read_qrels f = Inr q \<and> (\<forall>(qid, docs) \<in> set q. \<forall>(d, g) \<in> set docs. 0 < g \<longrightarrow> in_subset kept d)"
    if m: "(k, f) \<in> set files" for k f
  proof -
    obtain i where i: "i < length files" "files ! i = (k, f)" using m by (metis in_set_conv_nth)
    obtain q where q: "read_qrels f = Inr q" "qrels ! i = (k, q)" using res_map_Inr_nth [OF b(1) i(1)] i(2) by auto
    have i': "i < length qrels" using i(1) res_map_Inr_length [OF b(1)] by simp
    have r: "relevant_pids q = Inr (rels ! i)" using res_map_Inr_nth [OF b(2) i'] q(2) by simp
    have "rels ! i \<in> set rels" using i' res_map_Inr_length [OF b(2)] by simp
    then have "set (rels ! i) \<subseteq> set kept" using p(3) unfolding set_concat by blast
    from relevant_pids_covered [OF r _ _ _ this] show ?thesis using q(1) by blast
  qed
  moreover have "length tt = sz_tune sz" "length t50 = sz_50k sz"
    using draw_choice_ok(1) [OF R b(5)] draw_choice_ok(1) [OF R b(7)] int_sorted_mset [OF b(6)] int_sorted_mset [OF b(8)]
    by (metis of_nat_eq_iff size_mset)+
  moreover have "set tt \<inter> set t50 = {}"
    using draw_choice_ok(2) [OF R b(7)] int_sorted_mset [OF b(8)] by (auto dest: mset_eq_setD)
  ultimately show ?thesis using p b(9-11) by auto
qed

definition demo_chooser :: "unit chooser" where
  "demo_chooser = \<lparr>ch_fresh = \<lambda>s. (), ch_choice = \<lambda>g n k. ([0..<k], g)\<rparr>"

definition demo_coll :: string where "demo_coll = unlines [''3'' @ tab @ ''a'', ''4'' @ tab @ ''b'', ''5'' @ tab @ ''c'']"
definition demo_train_queries :: string where "demo_train_queries = unlines [''1'' @ tab @ ''x'', ''2'' @ tab @ ''y'']"
definition demo_train_qrels :: string where "demo_train_qrels = unlines [''1 0 5 1'', ''2 0 9 1'']"
definition demo_kept :: string where "demo_kept = unlines [''3'' @ tab @ ''a'', ''5'' @ tab @ ''c'']"

lemma demo_subset_files:
  "read_qrels ''7 0 5 1'' = Inr [(''7'', [(''5'', 1)])]"
  "relevant_pids [(''7'', [(''5'', 1)])] = Inr [5]"
  "res_map line_pid (file_lines demo_coll) = Inr [3, 4, 5]"
  "collection_subset [3, 5] demo_coll 2 = Inr demo_kept"
  "read_queries demo_train_queries = Inr [(''1'', ''x''), (''2'', ''y'')]"
  "read_qrels demo_train_qrels = Inr [(''1'', [(''5'', 1)]), (''2'', [(''9'', 1)])]"
  "int_of ''1'' = Inr 1" "int_of ''2'' = Inr 2" "int_of ''5'' = Inr 5" "int_of ''9'' = Inr 9"
  by code_simp+

lemma demo_subset:
  "\<exists>qs. build_subset demo_chooser \<lparr>sz_subset = 2, sz_tune = 1, sz_50k = 1\<rparr> [(''dev'', ''7 0 5 1'')]
     demo_coll
     demo_train_queries demo_train_qrels =
   Inr \<lparr>so_docids = [3, 5], so_collection = demo_kept,
     so_qrels = qs, so_tune = [''1''], so_50k = [''2'']\<rparr>"
proof -
  have "pick_subset demo_chooser () 2 [5] [3, 4, 5] = Inr ([3, 5], ())"
    by (simp add: pick_subset_def draw_choice_def demo_chooser_def)
  moreover have "subset_stats [3, 5] [(''7'', [(''5'', 1)])] = Inr ([(''7'', [(''5'', 1)])], \<lparr>qs_topics = 1, qs_topics_in_subset = 1,
      qs_judgments_full = 1, qs_judgments_in_subset = 1, qs_relevant_full = 1, qs_relevant_in_subset = 1\<rparr>)"
    by (simp add: subset_stats_def filter_qrels_def filter_docs_def n_relevant_def demo_subset_files)
  moreover have "eligible [3, 5] [(''1'', [(''5'', 1)]), (''2'', [(''9'', 1)])] [''1'', ''2''] = Inr [''1'']"
    by (simp add: eligible_def dget_def demo_subset_files)
  moreover have "draw_choice demo_chooser () [''1''] 1 = Inr ([''1''], ())" "draw_choice demo_chooser () [''2''] 1 = Inr ([''2''], ())"
    by (simp_all add: draw_choice_def demo_chooser_def)
  moreover have "int_sorted [''1'', ''2''] = Inr [''1'', ''2'']" "int_sorted [''1''] = Inr [''1'']" "int_sorted [''2''] = Inr [''2'']"
    by (simp_all add: int_sorted_def py_sorted_def demo_subset_files)
  moreover have "ch_fresh demo_chooser s = ()" for s by simp
  ultimately show ?thesis by (simp add: build_subset_def demo_subset_files dhas_def)
qed

theorem subset_sound_witness:
  "in_subset [3, 5] ''5'' \<and> set [''1''] \<inter> set [''2''] = {}"
proof -
  have c: "choice_ok demo_chooser" by (auto simp: choice_ok_def demo_chooser_def)
  obtain qs where qs: "build_subset demo_chooser \<lparr>sz_subset = 2, sz_tune = 1, sz_50k = 1\<rparr> [(''dev'', ''7 0 5 1'')]
      demo_coll
      demo_train_queries demo_train_qrels =
    Inr \<lparr>so_docids = [3, 5], so_collection = demo_kept,
      so_qrels = qs, so_tune = [''1''], so_50k = [''2'']\<rparr>" using demo_subset by blast
  from subset_sound [OF c qs] show ?thesis by (simp add: demo_subset_files)
qed

end
