(* ===== verification/Sensitivity_Study.thy ===== *)
theory Sensitivity_Study
  imports Sensitivity Json
begin

text \<open>
  \<open>scripts/m9_sensitivity.py\<close>: the rankers of the study and the pairs compared, the cells (pair, click
  model) with their cache on disk, the A/A check, the direct validation and the summaries.  The cache is a
  partial function from file names to decoded JSON values; a computation over it takes and returns it.
  The two xxhash functions, \<open>np.random.default_rng\<close>, \<open>repr\<close> of a float and what \<open>Sensitivity\<close> takes
  as arguments are fields of \<open>sens_study\<close>.  The lemmas show that the cache is transparent: the study returns
  what it would compute without one, whatever earlier or interrupted studies of the same inputs left.
\<close>

section \<open>Rankers and pairs\<close>

definition str_starts :: "string \<Rightarrow> string \<Rightarrow> bool" where
  "str_starts pre s \<longleftrightarrow> take (length pre) s = pre"

definition SYN_SIGMAS :: "(string \<times> real) list" where
  \<comment> \<open>each with its printed form\<close>
  "SYN_SIGMAS = [(''1.0'', 1), (''1.03'', 103 / 100), (''1.1'', 11 / 10), (''1.25'', 5 / 4), (''1.5'', 3 / 2), (''2.0'', 2)]"

definition syn_name :: "string \<Rightarrow> string" where
  "syn_name s = ''synthetic-oracle-sigma'' @ s"

definition world :: "string \<Rightarrow> string" where
  "world name =
     (if str_starts ''synthetic'' name then ''synthetic''
      else if str_contains ''1m'' name then ''1m'' else ''full'')"

definition real_source :: "string \<Rightarrow> string" where
  "real_source name =
     (if name = ''bm25-bge-rerank100'' \<or> name = ''rrf-bm25-bge100'' then
        ''run built by scripts/m9_make_runs.py (data/runs/m9/); BGE vectors encoded by M9 for BM25 top-100 only''
      else if str_starts ''hs-'' name then ''HybridSearch's own BM25 engine run (data/runs/lexical/)''
      else ''run file '' @ name @ ''.{dl19,dl20}.trec under data/runs/'')"

type_synonym ranker_set = "(string, run) dict \<times> (string, string) dict"

definition filtered_run :: "string list \<Rightarrow> run \<Rightarrow> run" where
  "filtered_run keep r = map (\<lambda>(q, ds). (q, filter (\<lambda>(d, s). d \<in> set keep) ds)) r"

definition matching_bm25 :: "byte list option \<Rightarrow> (string, run) dict \<Rightarrow> string \<Rightarrow> string \<Rightarrow> ranker_set \<Rightarrow> (string \<times> ranker_set) res" where
  \<comment> \<open>BM25 in the world of the dense run; \<open>docids_f\<close> is the subset's id file\<close>
  "matching_bm25 docids_f rr bm25 dense st =
     (if world dense = ''1m'' \<and> next_or (\<lambda>n. str_contains ''bm25'' n \<and> str_contains ''1m'' n) (keys rr) = None then
        (case docids_f of
           None \<Rightarrow> Inl FileNotFoundError
         | Some f \<Rightarrow> res_bind (read_u64bin f) (\<lambda>ids.
             let name = bm25 @ ''-filtered-1m''; keep = map (\<lambda>i. str_nat (unat i)) ids
             in Inr (name, dset (fst st) name (filtered_run keep (dget rr bm25 [])),
                  dset (snd st) name (bm25 @ '' run restricted to the 1M-subset passages (built here)''))))
      else Inr (case next_or (\<lambda>n. str_contains ''bm25'' n \<and> world n = world dense) (keys rr) of
                  Some n \<Rightarrow> n | None \<Rightarrow> bm25, st))"

definition real_rankers :: "(qid list \<Rightarrow> qid list) \<Rightarrow> (string \<times> string) list \<Rightarrow> byte list option \<Rightarrow> ranker_set res" where
  \<comment> \<open>\<open>so\<close> is the iteration order of the set of query ids in \<open>rrf\<close>\<close>
  "real_rankers so found docids_f =
     res_bind (discover_real_runs found) (\<lambda>rr.
       let st = (rr, map (\<lambda>(n, _). (n, real_source n)) rr);
           bm25 = next_or (\<lambda>n. str_contains ''bm25'' n \<and> \<not> str_contains ''1m'' n) (keys rr);
           dense = next_or (\<lambda>n. str_contains ''dense'' n \<and> \<not> str_contains ''rrf'' n) (keys rr)
       in case (bm25, dense) of
            (Some b, Some d) \<Rightarrow>
              res_bind (matching_bm25 docids_f rr b d st) (\<lambda>(b', runs, sources).
              res_bind (rrf_runs so [dget runs b' [], dget rr d []] 60 1000) (\<lambda>r.
                let name = ''rrf('' @ b' @ '','' @ d @ '')''
                in Inr (dset runs name r, dset sources name ''reciprocal rank fusion k=60 of the two runs, built here'')))
          | _ \<Rightarrow> Inr st)"

definition add_synthetic :: "'g rng_ops \<Rightarrow> 'g \<Rightarrow> qrels \<Rightarrow> ranker_set \<Rightarrow> string \<times> real \<Rightarrow> ranker_set res" where
  \<comment> \<open>\<open>g\<close> is the generator seeded with 1000, the same for every sigma\<close>
  "add_synthetic R g qrels st s =
     res_bind (synthetic_noisy_oracle R qrels (snd s) g 200 100) (\<lambda>r.
       Inr (dset (fst st) (syn_name (fst s)) r,
            dset (snd st) (syn_name (fst s)) (''SYNTHETIC: DL grade + '' @ fst s @ ''*N(0,1), shared noise seed 1000'')))"

definition load_rankers :: "'g rng_ops \<Rightarrow> 'g \<Rightarrow> (qid list \<Rightarrow> qid list) \<Rightarrow> files \<Rightarrow> (string \<times> string list) list \<Rightarrow> (string \<times> string) list \<Rightarrow>
    byte list option \<Rightarrow> bool \<Rightarrow> (qrels \<times> (string, provenance) dict \<times> ranker_set) res" where
  "load_rankers R g so fs qrels_paths found docids_f include_real =
     res_bind (load_dl_qrels fs qrels_paths) (\<lambda>(qrels, prov).
     res_bind (if include_real then real_rankers so found docids_f else Inr ([], [])) (\<lambda>st.
     res_bind (res_fold (add_synthetic R g qrels) st SYN_SIGMAS) (\<lambda>st'. Inr (qrels, prov, st'))))"

definition world_pairs :: "(string, real list) dict \<Rightarrow> string list \<Rightarrow> (string \<times> string) list" where
  "world_pairs ndcg rs =
     (let rs' = py_sorted (\<lambda>n. - mean (dget ndcg n [])) rs
      in zip rs' (tl rs') @ (if 2 < length rs' then [(hd rs', last rs')] else []))"

definition choose_pairs :: "string list \<Rightarrow> (string, real list) dict \<Rightarrow> (string \<times> string) list" where
  "choose_pairs names ndcg =
     (let worlds = group_by world (filter (\<lambda>n. \<not> str_starts ''synthetic'' n) names)
      in concat (map (\<lambda>(w, rs). world_pairs ndcg rs) (py_sorted fst worlds)) @
         map (\<lambda>(s, _). (syn_name ''1.0'', syn_name s)) (tl SYN_SIGMAS))"

definition paired_randomization_p :: "'g rng_ops \<Rightarrow> real list \<Rightarrow> real list \<Rightarrow> 'g \<Rightarrow> nat \<Rightarrow> real" where
  \<comment> \<open>\<open>rng.choice([-1.0, 1.0], size=(n, d))\<close> draws indices below 2\<close>
  "paired_randomization_p R x y g n =
     (let d = map2 (-) x y; (js, _) = rg_integers R g 2 (n * length d);
          signs = split_rows n (length d) (map (\<lambda>j. if j = 0 then - 1 else 1) js);
          null = map (\<lambda>row. \<bar>mean (map2 (*) row d)\<bar>) signs
      in (real (length (filter (\<lambda>v. v \<ge> \<bar>mean d\<bar> - 1 / 10 ^ 12) null)) + 1) / (real n + 1))"

section \<open>The study and its cells\<close>

record 'g sens_study =
  su_rng :: "'g rng_ops"
  su_default_rng :: "nat list \<Rightarrow> 'g" \<comment> \<open>\<open>np.random.default_rng\<close>\<close>
  su_xxh32 :: "string \<Rightarrow> nat"
  su_xxh64 :: "string \<Rightarrow> string"
  su_repr :: "real \<Rightarrow> string"
  su_sf :: "real \<Rightarrow> real"
  su_cdf :: "nat \<Rightarrow> nat \<Rightarrow> real"
  su_ppf :: "real \<Rightarrow> real"
  su_isofit :: "real list \<Rightarrow> real list \<Rightarrow> real list"
  su_ks :: "real list \<Rightarrow> real" \<comment> \<open>p-value of \<open>stats.kstest(p, "uniform")\<close>\<close>
  su_pool :: nat
  su_trials :: nat
  su_seed :: nat
  su_aa_n :: nat
  su_aa_trials :: nat
  su_val_trials :: nat

definition sub_rng :: "'g sens_study \<Rightarrow> string list \<Rightarrow> 'g" where
  "sub_rng S ks = su_default_rng S (su_seed S # map (su_xxh32 S) ks)"

definition STUDY_METHODS :: "string list" where
  "STUDY_METHODS = [''tdi'', ''bi'', ''pi''] @ map ((@) ''ab:'') METRICS"

record method_cell =
  mc_n80 :: "real option"
  mc_analytic :: "real option"
  mc_limited :: bool
  mc_effect :: real
  mc_se :: real
  mc_z :: "real option"
  mc_agrees :: bool
  mc_wrong :: real
  mc_power :: "real list"
  mc_power_wrong :: "real list"
  mc_extra :: "(string, real) dict"

record cell =
  ce_a :: string
  ce_b :: string
  ce_model :: string
  ce_label :: string
  ce_ndcg_a :: real
  ce_ndcg_b :: real
  ce_delta :: real
  ce_better :: string
  ce_p :: real
  ce_same :: nat
  ce_methods :: "(string, method_cell) dict"

record rate_stat =
  rs_fpr :: real
  rs_ks :: real

record val_stat =
  vs_n :: int
  vs_power :: real

record validation =
  va_a :: string
  va_b :: string
  va_model :: string
  va_trials :: nat
  va_stats :: "(string, val_stat) dict"

text \<open>What a file of the cache holds.\<close>

type_synonym pools = "(string, real list \<times> real list) dict"

datatype cached_value =
    Pools pools
  | Cell cell
  | Rates "(string, rate_stat) dict"
  | Direct validation

definition finish_method :: "'g sens_study \<Rightarrow> nat list \<Rightarrow> (real \<times> real) list \<Rightarrow> real \<Rightarrow> real \<Rightarrow> bool \<Rightarrow> bool \<Rightarrow> real option \<Rightarrow>
    (string, real) dict \<Rightarrow> method_cell" where
  "finish_method S ns pw eff se prefers a_better analytic extra =
     (let n80 = n_at_power (su_isofit S) ns (map fst pw) (8 / 10); agree = (prefers = a_better)
      in \<lparr>mc_n80 = n80, mc_analytic = (if agree then analytic else None),
          mc_limited = (case n80 of None \<Rightarrow> False | Some n \<Rightarrow> n > real (su_pool S) / 10),
          mc_effect = eff, mc_se = se, mc_z = (if se > 0 then Some (eff / se) else None), mc_agrees = agree,
          mc_wrong = Max (set (map snd pw)), mc_power = map fst pw, mc_power_wrong = map snd pw, mc_extra = extra\<rparr>)"

definition ab_method :: "'g sens_study \<Rightarrow> nat list \<Rightarrow> bool \<Rightarrow> (string, dist) dict \<Rightarrow> (string, dist) dict \<Rightarrow> string \<Rightarrow> 'g \<Rightarrow> (method_cell \<times> 'g) res" where
  "ab_method S ns a_better das dbs mt g =
     res_bind (dlookup das mt) (\<lambda>da. res_bind (dlookup dbs mt) (\<lambda>db.
     res_bind (power_ab (su_sf S) (su_rng S) mt da db ns (su_trials S) g a_better (5 / 100)) (\<lambda>(pw, g').
     res_bind (dlookup HIGHER_IS_BETTER mt) (\<lambda>good.
       let eff = dist_mean da - dist_mean db; m = real (su_pool S); se = sqrt (dist_var da / m + dist_var db / m)
       in Inr (finish_method S ns pw eff se (eff * sign_of good > 0) a_better (analytic_n80_ab (su_ppf S) da db (5 / 100) (8 / 10))
                [(''mean_a'', dist_mean da), (''mean_b'', dist_mean db)], g')))))"

definition mass :: "(real \<Rightarrow> bool) \<Rightarrow> dist \<Rightarrow> real" where
  \<comment> \<open>\<open>d.probs[d.values > 0].sum()\<close> and the like\<close>
  "mass P d = sum_list (map snd (filter (\<lambda>(v, p). P v) (zip (ds_values d) (ds_probs d))))"

definition il_method :: "'g sens_study \<Rightarrow> nat list \<Rightarrow> bool \<Rightarrow> (string, dist) dict \<Rightarrow> string \<Rightarrow> 'g \<Rightarrow> (method_cell \<times> 'g) res" where
  "il_method S ns a_better dists meth g =
     res_bind (dlookup dists meth) (\<lambda>d.
       let (pw, g') = power_interleave (su_sf S) (su_cdf S) (su_rng S) meth d (su_trials S) a_better (5 / 100) ns g;
           eff = dist_mean d; se = sqrt (dist_var d / real (su_pool S))
       in Inr (finish_method S ns pw eff se (eff > 0) a_better (analytic_n80_one_sample (su_ppf S) d (5 / 100) (8 / 10))
                (if meth \<noteq> ''pi'' then [(''p_a_wins'', mass (\<lambda>v. v > 0) d), (''p_b_wins'', mass (\<lambda>v. v < 0) d), (''p_tie'', mass (\<lambda>v. v = 0) d)]
                 else []), g'))"

fun method_cells :: "'g sens_study \<Rightarrow> nat list \<Rightarrow> bool \<Rightarrow> (string, dist) dict \<Rightarrow> (string, dist) dict \<Rightarrow> (string, dist) dict \<Rightarrow> string list \<Rightarrow> 'g \<Rightarrow>
    (string, method_cell) dict res" where
  "method_cells S ns a_better dists da db [] g = Inr []"
| "method_cells S ns a_better dists da db (meth # ms) g =
     res_bind (if str_starts ''ab:'' meth then ab_method S ns a_better da db (drop 3 meth) g
               else il_method S ns a_better dists meth g) (\<lambda>(c, g').
     res_bind (method_cells S ns a_better dists da db ms g') (\<lambda>cs. Inr ((meth, c) # cs)))"

section \<open>The cache\<close>

type_synonym cache = "string \<Rightarrow> cached_value option"

type_synonym 'a cached_run = "cache \<Rightarrow> ('a \<times> cache) diverging"

definition st_bind :: "'a cached_run \<Rightarrow> ('a \<Rightarrow> 'b cached_run) \<Rightarrow> 'b cached_run" where
  "st_bind m f c = div_bind (m c) (\<lambda>(x, c'). f x c')"

definition st_lift :: "'a diverging \<Rightarrow> 'a cached_run" where
  "st_lift x c = div_bind x (\<lambda>v. Some (Inr (v, c)))"

fun st_map :: "('a \<Rightarrow> 'b cached_run) \<Rightarrow> 'a list \<Rightarrow> 'b list cached_run" where
  "st_map f [] = st_lift (Some (Inr []))"
| "st_map f (x # xs) = st_bind (f x) (\<lambda>y. st_bind (st_map f xs) (\<lambda>ys. st_lift (Some (Inr (y # ys)))))"

definition cached_file :: "string \<Rightarrow> cached_value cached_run \<Rightarrow> cached_value cached_run" where
  \<comment> \<open>the file of a key is read when it exists; otherwise the value is computed and written\<close>
  "cached_file path f c =
     (case c path of
        Some v \<Rightarrow> Some (Inr (v, c))
      | None \<Rightarrow> div_bind (f c) (\<lambda>(v, c'). Some (Inr (v, c'(path \<mapsto> v)))))"

datatype job =
    Ab_Job string click_model
  | Cell_Job string string click_model
  | Rates_Job string click_model
  | Direct_Job cell

definition table_sig :: "'g sens_study \<Rightarrow> ranker_table \<Rightarrow> string \<Rightarrow> string" where
  "table_sig S t r = su_xxh64 S (json_list (map (\<lambda>l. json_list (map json_string l)) (dget (rt_lists t) r [])))"

definition bar_join :: "string list \<Rightarrow> string" where
  "bar_join fs = (case fs of [] \<Rightarrow> [] | f # r \<Rightarrow> f @ concat (map ((@) ''|'') r))"

definition tdi_n80 :: "cell \<Rightarrow> real option" where
  "tdi_n80 r = (case map_of (ce_methods r) ''tdi'' of None \<Rightarrow> None | Some m \<Rightarrow> mc_n80 m)"

definition job_key :: "'g sens_study \<Rightarrow> ranker_table \<Rightarrow> job \<Rightarrow> string" where
  "job_key S t j =
     (case j of
        Ab_Job r m \<Rightarrow> bar_join [''ab'', r, model_name m, str_nat (su_pool S), str_nat (su_seed S), table_sig S t r]
      | Cell_Job a b m \<Rightarrow>
          bar_join [''cell'', a, b, model_name m, str_nat (su_pool S), str_nat (su_trials S), str_nat (su_seed S),
            table_sig S t a, table_sig S t b]
      | Rates_Job r m \<Rightarrow>
          bar_join [''aa'', r, model_name m, str_nat (su_aa_n S), str_nat (su_aa_trials S), str_nat (su_seed S), table_sig S t r]
      | Direct_Job c \<Rightarrow>
          bar_join [''val'', ce_a c, ce_b c, ce_model c, str_nat (su_val_trials S), str_nat (su_seed S),
            case tdi_n80 c of None \<Rightarrow> ''None'' | Some n \<Rightarrow> su_repr S n])"

definition job_path :: "'g sens_study \<Rightarrow> ranker_table \<Rightarrow> job \<Rightarrow> string" where
  "job_path S t j = su_xxh64 S (job_key S t j) @ ''.json''"

section \<open>Cells\<close>

definition pools_of :: "'g sens_study \<Rightarrow> ranker_table \<Rightarrow> string \<Rightarrow> click_model \<Rightarrow> pools diverging" where
  \<comment> \<open>the function \<open>run\<close> of \<open>ab_pool\<close>\<close>
  "pools_of S t r m =
     div_bind (Some (table_grades t r)) (\<lambda>gs.
     div_bind (pool_ab (su_rng S) gs (rt_k t) m (su_pool S) 250000 (sub_rng S [''ab'', r, model_name m])) (\<lambda>(d, _).
       Some (Inr (map (\<lambda>(mt, x). (mt, (ds_values x, ds_probs x))) d))))"

definition dists_of :: "'g sens_study \<Rightarrow> cached_value \<Rightarrow> (string, dist) dict diverging" where
  "dists_of S v =
     (case v of
        Pools ps \<Rightarrow> Some (Inr (map (\<lambda>(mt, (vs, qs)). (mt, \<lparr>ds_values = vs, ds_probs = qs, ds_m = su_pool S\<rparr>)) ps))
      | _ \<Rightarrow> Some (Inl TypeError))"

definition the_cell :: "cached_value \<Rightarrow> cell diverging" where
  "the_cell v = (case v of Cell r \<Rightarrow> Some (Inr r) | _ \<Rightarrow> Some (Inl TypeError))"

definition ab_pools :: "'g sens_study \<Rightarrow> ranker_table \<Rightarrow> string \<Rightarrow> click_model \<Rightarrow> (string, dist) dict cached_run" where
  "ab_pools S t r m =
     st_bind (cached_file (job_path S t (Ab_Job r m)) (st_lift (div_bind (pools_of S t r m) (\<lambda>ps. Some (Inr (Pools ps))))))
       (\<lambda>v. st_lift (dists_of S v))"

fun il_pools :: "'g sens_study \<Rightarrow> nat \<Rightarrow> click_model \<Rightarrow> (string, il_entries) dict \<Rightarrow> string list \<Rightarrow> 'g \<Rightarrow> ((string, dist) dict \<times> 'g) diverging" where
  "il_pools S k m es [] g = Some (Inr ([], g))"
| "il_pools S k m es (meth # ms) g =
     div_bind (Some (dlookup es meth)) (\<lambda>e.
     div_bind (pool_interleave (su_rng S) meth e m k (su_pool S) 250000 g) (\<lambda>(d, g').
     div_bind (il_pools S k m es ms g') (\<lambda>(ds, g''). Some (Inr ((meth, d) # ds, g'')))))"

definition cell_pools :: "'g sens_study \<Rightarrow> ranker_table \<Rightarrow> string \<Rightarrow> string \<Rightarrow> click_model \<Rightarrow> ((string, dist) dict \<times> 'g) diverging" where
  \<comment> \<open>the pair has a generator of its own, so building it for every click model gives the same pair\<close>
  "cell_pools S t a b m =
     div_bind (Some (build_pair (su_rng S) t a b (sub_rng S [''pair'', a, b]) 256 INTERLEAVE_METHODS)) (\<lambda>(pr, _).
       il_pools S (rt_k t) m (pr_entries pr) INTERLEAVE_METHODS (sub_rng S [''cell'', a, b, model_name m]))"

definition cell_label :: "click_model \<Rightarrow> string" where
  "cell_label m = ''simulated users (click model '' @ model_name m @ '', relevance from TREC DL 2019+2020 graded qrels)''"

definition cell_record :: "'g sens_study \<Rightarrow> nat list \<Rightarrow> string \<Rightarrow> string \<Rightarrow> click_model \<Rightarrow> real list \<Rightarrow> real list \<Rightarrow> nat \<Rightarrow>
    (string, dist) dict \<times> 'g \<Rightarrow> (string, dist) dict \<Rightarrow> (string, dist) dict \<Rightarrow> cell diverging" where
  "cell_record S ns a b m na nb same dg da db =
     (let delta = mean na - mean nb
      in div_bind (Some (method_cells S ns (delta > 0) (fst dg) da db STUDY_METHODS (snd dg))) (\<lambda>ms.
           Some (Inr \<lparr>ce_a = a, ce_b = b, ce_model = model_name m, ce_label = cell_label m, ce_ndcg_a = mean na, ce_ndcg_b = mean nb,
             ce_delta = delta, ce_better = (if delta > 0 then a else b),
             ce_p = paired_randomization_p (su_rng S) na nb (sub_rng S [''offline'', a, b]) 20000, ce_same = same, ce_methods = ms\<rparr>)))"

definition cell_run :: "'g sens_study \<Rightarrow> ranker_table \<Rightarrow> nat list \<Rightarrow> string \<Rightarrow> string \<Rightarrow> real list \<Rightarrow> real list \<Rightarrow> nat \<Rightarrow> click_model \<Rightarrow> cell cached_run" where
  "cell_run S t ns a b na nb same m =
     st_bind (cached_file (job_path S t (Cell_Job a b m))
       (st_bind (st_lift (cell_pools S t a b m)) (\<lambda>dg.
        st_bind (ab_pools S t a m) (\<lambda>da.
        st_bind (ab_pools S t b m) (\<lambda>db.
        st_bind (st_lift (cell_record S ns a b m na nb same dg da db)) (\<lambda>r. st_lift (Some (Inr (Cell r)))))))))
       (\<lambda>v. st_lift (the_cell v))"

record pair_result =
  pt_a :: string
  pt_b :: string
  pt_skipped :: bool
  pt_cells :: "cell list"

definition same_lists :: "ranker_table \<Rightarrow> string \<Rightarrow> string \<Rightarrow> nat res" where
  "same_lists t a b =
     res_bind (dlookup (rt_lists t) a) (\<lambda>las. res_bind (dlookup (rt_lists t) b) (\<lambda>lbs.
       Inr (length (filter (\<lambda>(x, y). x = y) (zip las lbs)))))"

definition pair_run :: "'g sens_study \<Rightarrow> ranker_table \<Rightarrow> nat list \<Rightarrow> click_model list \<Rightarrow> (string, real list) dict \<Rightarrow> string \<times> string \<Rightarrow>
    pair_result cached_run" where
  \<comment> \<open>a pair with the same lists for every topic has no cells\<close>
  "pair_run S t ns models ndcg ab =
     (let (a, b) = ab in
      st_bind (st_lift (Some (dlookup ndcg a))) (\<lambda>na. st_bind (st_lift (Some (dlookup ndcg b))) (\<lambda>nb.
      st_bind (st_lift (Some (same_lists t a b))) (\<lambda>same.
        if same = length (rt_qids t) then st_lift (Some (Inr \<lparr>pt_a = a, pt_b = b, pt_skipped = True, pt_cells = []\<rparr>))
        else st_bind (st_map (cell_run S t ns a b na nb same) models) (\<lambda>cs.
          st_lift (Some (Inr \<lparr>pt_a = a, pt_b = b, pt_skipped = False, pt_cells = cs\<rparr>)))))))"

section \<open>The A/A check and the direct validation\<close>

definition rate_of :: "'g sens_study \<Rightarrow> (real \<times> real) list \<Rightarrow> rate_stat" where
  "rate_of S pds = \<lparr>rs_fpr = mean (map (\<lambda>(p, d). if p < 5 / 100 then 1 else 0) pds), rs_ks = su_ks S (map fst pds)\<rparr>"

definition rates_of :: "'g sens_study \<Rightarrow> ranker_table \<Rightarrow> il_entries \<Rightarrow> int list list \<Rightarrow> string \<Rightarrow> click_model \<Rightarrow> (string, rate_stat) dict res" where
  \<comment> \<open>\<open>run_aa\<close>: one ranker on both sides\<close>
  "rates_of S t e gs r m =
     res_bind (direct_interleave_pvalues (su_sf S) (su_cdf S) (su_rng S) ''tdi'' e m (rt_k t) (su_aa_n S) (su_aa_trials S)
                 (sub_rng S [''aa'', r, model_name m]) 500000) (\<lambda>(ps, g).
     res_bind (direct_ab_pvalues (su_sf S) (su_rng S) gs gs (rt_k t) m (su_aa_n S) (su_aa_trials S) g 500000) (\<lambda>(abp, _).
       Inr ((''tdi'', rate_of S ps) # map (\<lambda>(mt, pds). (''ab:'' @ mt, rate_of S pds)) abp)))"

definition aa_pair :: "'g sens_study \<Rightarrow> ranker_table \<Rightarrow> string \<Rightarrow> (int list list \<times> il_entries) res" where
  "aa_pair S t r =
     res_bind (table_grades t r) (\<lambda>gs.
     res_bind (build_pair (su_rng S) t r r (sub_rng S [''aa-pair'', r]) 256 [''tdi'']) (\<lambda>(pr, _).
     res_bind (dlookup (pr_entries pr) ''tdi'') (\<lambda>e. Inr (gs, e))))"

definition the_rates :: "cached_value \<Rightarrow> (string, rate_stat) dict diverging" where
  "the_rates v = (case v of Rates r \<Rightarrow> Some (Inr r) | _ \<Rightarrow> Some (Inl TypeError))"

definition aa_ranker :: "string list \<Rightarrow> string" where
  "aa_ranker names =
     (case next_or (\<lambda>n. str_contains ''bm25'' n \<and> \<not> str_starts ''rrf'' n) names of Some n \<Rightarrow> n | None \<Rightarrow> syn_name ''1.0'')"

definition aa_run :: "'g sens_study \<Rightarrow> ranker_table \<Rightarrow> click_model list \<Rightarrow> string list \<Rightarrow> (string \<times> (string, rate_stat) dict) list cached_run" where
  "aa_run S t models names =
     (let r = aa_ranker names in
      st_bind (st_lift (Some (aa_pair S t r))) (\<lambda>(gs, e).
        st_map (\<lambda>m. st_bind (cached_file (job_path S t (Rates_Job r m))
                   (st_lift (div_bind (Some (rates_of S t e gs r m)) (\<lambda>x. Some (Inr (Rates x))))))
                 (\<lambda>v. st_bind (st_lift (the_rates v)) (\<lambda>x. st_lift (Some (Inr (model_name m, x)))))) models))"

definition n80_of :: "real option \<Rightarrow> real option" where
  \<comment> \<open>as a truth value: 0 and None are false\<close>
  "n80_of x = (case x of None \<Rightarrow> None | Some n \<Rightarrow> if n = 0 then None else Some n)"

definition power_of :: "real \<Rightarrow> (real \<times> real) list \<Rightarrow> real" where
  "power_of sgn0 pds = fst (rates (5 / 100) (map (\<lambda>(p, d). (p, d * sgn0)) pds))"

definition ab_candidates :: "cell \<Rightarrow> (string \<times> real) list" where
  "ab_candidates c =
     concat (map (\<lambda>(k, x). case n80_of (mc_n80 x) of Some n \<Rightarrow> if str_starts ''ab:'' k then [(k, n)] else [] | None \<Rightarrow> []) (ce_methods c))"

definition direct_tdi :: "'g sens_study \<Rightarrow> ranker_table \<Rightarrow> cell \<Rightarrow> pair \<Rightarrow> click_model \<Rightarrow> 'g \<Rightarrow> ((string, val_stat) dict \<times> 'g) res" where
  "direct_tdi S t c pr m g =
     (case n80_of (tdi_n80 c) of
        Some n \<Rightarrow>
          (if n * real (su_val_trials S) \<le> 50000000 then
             res_bind (dlookup (pr_entries pr) ''tdi'') (\<lambda>e.
             res_bind (direct_interleave_pvalues (su_sf S) (su_cdf S) (su_rng S) ''tdi'' e m (rt_k t) (nat (round_half_even n)) (su_val_trials S) g 500000) (\<lambda>(pds, g').
               Inr ([(''tdi'', \<lparr>vs_n = round_half_even n, vs_power = power_of (sign_of (ce_delta c > 0)) pds\<rparr>)], g')))
           else Inr ([], g))
      | None \<Rightarrow> Inr ([], g))"

definition direct_ab :: "'g sens_study \<Rightarrow> ranker_table \<Rightarrow> cell \<Rightarrow> pair \<Rightarrow> click_model \<Rightarrow> 'g \<Rightarrow> (string, val_stat) dict res" where
  \<comment> \<open>the A/B metric that needs the fewest impressions, the first of them\<close>
  "direct_ab S t c pr m g =
     (case py_sorted snd (ab_candidates c) of
        [] \<Rightarrow> Inr []
      | (mt, n) # _ \<Rightarrow>
          (if n * real (su_val_trials S) \<le> 50000000 then
             res_bind (direct_ab_pvalues (su_sf S) (su_rng S) (pr_grades_a pr) (pr_grades_b pr) (rt_k t) m (nat (round_half_even n)) (su_val_trials S) g 500000) (\<lambda>(res, _).
             res_bind (dlookup res (drop 3 mt)) (\<lambda>pds. res_bind (dlookup HIGHER_IS_BETTER (drop 3 mt)) (\<lambda>good.
               Inr [(mt, \<lparr>vs_n = round_half_even n, vs_power = power_of (sign_of good * sign_of (ce_delta c > 0)) pds\<rparr>)])))
           else Inr []))"

definition direct_of :: "'g sens_study \<Rightarrow> ranker_table \<Rightarrow> cell \<Rightarrow> validation res" where
  \<comment> \<open>a model name has one dash\<close>
  "direct_of S t c =
     res_bind (build_pair (su_rng S) t (ce_a c) (ce_b c) (sub_rng S [''val'', ce_a c, ce_b c, ce_model c]) 256 [''tdi'']) (\<lambda>(pr, g).
     res_bind (case split_at (code CHR ''-'') (ce_model c) of [k, p] \<Rightarrow> make_model k p 10 1 (9 / 10) | _ \<Rightarrow> Inl TypeError) (\<lambda>m.
     res_bind (direct_tdi S t c pr m g) (\<lambda>(v, g').
     res_bind (direct_ab S t c pr m g') (\<lambda>w.
       Inr \<lparr>va_a = ce_a c, va_b = ce_b c, va_model = ce_model c, va_trials = su_val_trials S, va_stats = v @ w\<rparr>))))"

definition to_validate :: "cell \<Rightarrow> bool" where
  "to_validate c \<longleftrightarrow>
     (ce_model c = ''dbn-navigational'' \<or> ce_model c = ''pbm-informational'') \<and>
     \<not> (str_starts ''synthetic'' (ce_a c) \<and> drop (length (ce_b c) - 4) (ce_b c) \<noteq> ''1.25'') \<and> ce_p c < 5 / 100"

definition the_direct :: "cached_value \<Rightarrow> validation diverging" where
  "the_direct v = (case v of Direct r \<Rightarrow> Some (Inr r) | _ \<Rightarrow> Some (Inl TypeError))"

definition validation_run :: "'g sens_study \<Rightarrow> ranker_table \<Rightarrow> cell \<Rightarrow> validation cached_run" where
  "validation_run S t c =
     st_bind (cached_file (job_path S t (Direct_Job c)) (st_lift (div_bind (Some (direct_of S t c)) (\<lambda>x. Some (Inr (Direct x))))))
       (\<lambda>v. st_lift (the_direct v))"

record study_out =
  so_results :: "cell list"
  so_skipped :: "(string \<times> string) list"
  so_aa :: "(string \<times> (string, rate_stat) dict) list"
  so_validation :: "validation list"

definition study_run :: "'g sens_study \<Rightarrow> ranker_table \<Rightarrow> nat list \<Rightarrow> click_model list \<Rightarrow> (string, real list) dict \<Rightarrow> (string \<times> string) list \<Rightarrow>
    study_out cached_run" where
  "study_run S t ns models ndcg pairs =
     st_bind (st_map (pair_run S t ns models ndcg) pairs) (\<lambda>prs.
     st_bind (aa_run S t models (keys ndcg)) (\<lambda>aa.
     let cells = concat (map pt_cells prs) in
     st_bind (st_map (validation_run S t) (filter to_validate cells)) (\<lambda>vs.
       st_lift (Some (Inr \<lparr>so_results = cells, so_skipped = map (\<lambda>p. (pt_a p, pt_b p)) (filter pt_skipped prs), so_aa = aa, so_validation = vs\<rparr>)))))"

definition study_models :: "click_model list res" where
  "study_models = res_map (\<lambda>(k, p). make_model k p 10 1 (9 / 10)) ALL_MODELS"

definition sensitivity_study :: "'g sens_study \<Rightarrow> (string, run) dict \<Rightarrow> qrels \<Rightarrow> study_out cached_run" where
  \<comment> \<open>the body of \<open>main\<close> after the rankers are loaded\<close>
  "sensitivity_study S runs qrels =
     st_bind (st_lift (Some (build_table runs qrels 10))) (\<lambda>t.
     st_bind (st_lift (Some (res_map (\<lambda>n. res_bind (table_ndcg t n 10) (\<lambda>v. Inr (n, v))) (keys runs)))) (\<lambda>ndcg.
     st_bind (st_lift (Some study_models)) (\<lambda>models.
       study_run S t (n_grid 1 8 20) models ndcg (choose_pairs (keys runs) ndcg))))"

section \<open>Summaries\<close>

definition median :: "real list \<Rightarrow> real" where
  \<comment> \<open>\<open>np.median\<close> of a non-empty list\<close>
  "median xs =
     (let s = sort xs; n = length s in if odd n then s ! (n div 2) else (s ! (n div 2 - 1) + s ! (n div 2)) / 2)"

definition method_n80 :: "cell \<Rightarrow> string \<Rightarrow> real option" where
  "method_n80 r m = (case map_of (ce_methods r) m of None \<Rightarrow> None | Some x \<Rightarrow> n80_of (mc_n80 x))"

definition n80s :: "cell \<Rightarrow> string list \<Rightarrow> real list" where
  "n80s r ms = concat (map (\<lambda>m. case method_n80 r m of None \<Rightarrow> [] | Some n \<Rightarrow> [n]) ms)"

definition best_ab :: "cell \<Rightarrow> real list" where
  \<comment> \<open>the smallest N80 of the A/B metrics, if any\<close>
  "best_ab r = (let ns = n80s r (filter (str_starts ''ab:'') STUDY_METHODS) in if ns = [] then [] else [Min (set ns)])"

definition best_il :: "cell \<Rightarrow> real list" where
  "best_il r = (let ns = n80s r INTERLEAVE_METHODS in if ns = [] then [] else [Min (set ns)])"

definition over_tdi :: "(cell \<Rightarrow> real list) \<Rightarrow> cell \<Rightarrow> real list" where
  \<comment> \<open>the ratio to the N80 of team draft, when both exist\<close>
  "over_tdi f r = (case method_n80 r ''tdi'' of None \<Rightarrow> [] | Some t \<Rightarrow> map (\<lambda>x. x / t) (f r))"

definition agrees :: "cell \<Rightarrow> string \<Rightarrow> bool" where
  "agrees r m = (case map_of (ce_methods r) m of None \<Rightarrow> False | Some x \<Rightarrow> mc_agrees x)"

record pair_summary =
  ps_known :: bool
  ps_tdi :: "real option"
  ps_best_ab :: "real option"
  ps_ratio :: "(real \<times> real \<times> real) option" \<comment> \<open>median, smallest, largest\<close>
  ps_cells :: "nat \<times> nat"
  ps_wrong :: nat
  ps_il :: "real option"

definition opt_median :: "real list \<Rightarrow> real option" where
  "opt_median xs = (if xs = [] then None else Some (median xs))"

definition pair_summary_of :: "cell list \<Rightarrow> pair_summary" where
  "pair_summary_of recs =
     (let ratios = concat (map (over_tdi best_ab) recs)
      in \<lparr>ps_known = (ce_p (hd recs) < 5 / 100), ps_tdi = opt_median (concat (map (\<lambda>r. n80s r [''tdi'']) recs)),
          ps_best_ab = opt_median (concat (map best_ab recs)),
          ps_ratio = (if ratios = [] then None else Some (median ratios, Min (set ratios), Max (set ratios))),
          ps_cells = (length ratios, length recs), ps_wrong = length (filter (\<lambda>r. \<not> agrees r ''tdi'') recs),
          ps_il = opt_median (concat (map (over_tdi best_il) recs))\<rparr>)"

definition pair_summaries :: "cell list \<Rightarrow> ((string \<times> string) \<times> pair_summary) list" where
  "pair_summaries recs = map (\<lambda>(ab, rs). (ab, pair_summary_of rs)) (group_by (\<lambda>r. (ce_a r, ce_b r)) recs)"

definition agreement_row :: "cell list \<Rightarrow> string \<Rightarrow> (nat \<times> nat) \<times> (nat \<times> nat)" where
  \<comment> \<open>agreeing cells and cells with a known ordering, of real and of synthetic pairs\<close>
  "agreement_row recs m =
     (let known = filter (\<lambda>r. ce_p r < 5 / 100) recs;
          part = (\<lambda>b. filter (\<lambda>r. str_starts ''synthetic'' (ce_a r) = b) known);
          row = (\<lambda>rs. (length (filter (\<lambda>r. agrees r m) rs), length rs))
      in (row (part False), row (part True)))"

section \<open>Transparency of the cache\<close>

text \<open>A cached computation refines a plain one when, from every cache that satisfies \<open>V\<close>, it returns, fails
  or diverges as the plain one does, and leaves a cache that satisfies \<open>V\<close>.\<close>

definition refines :: "(cache \<Rightarrow> bool) \<Rightarrow> 'a cached_run \<Rightarrow> 'a diverging \<Rightarrow> bool" where
  "refines V f x \<longleftrightarrow>
     (\<forall>c. V c \<longrightarrow> (case x of
        None \<Rightarrow> f c = None
      | Some (Inl e) \<Rightarrow> f c = Some (Inl e)
      | Some (Inr v) \<Rightarrow> \<exists>c'. f c = Some (Inr (v, c')) \<and> V c'))"

named_theorems refine_intros

lemma refines_lift [refine_intros]: "refines V (st_lift x) x"
  by (auto simp: refines_def st_lift_def split: option.split sum.split)

lemma refines_bind [refine_intros]:
  assumes "refines V f x" and "\<And>v. x = Some (Inr v) \<Longrightarrow> refines V (g v) (h v)"
  shows "refines V (st_bind f g) (div_bind x h)"
  unfolding refines_def
proof (intro allI impI)
  fix c
  assume c: "V c"
  consider "x = None" | e where "x = Some (Inl e)" | v where "x = Some (Inr v)"
    by (metis not_None_eq obj_sumE)
  then show "case div_bind x h of None \<Rightarrow> st_bind f g c = None | Some (Inl e) \<Rightarrow> st_bind f g c = Some (Inl e)
      | Some (Inr v) \<Rightarrow> \<exists>c'. st_bind f g c = Some (Inr (v, c')) \<and> V c'"
  proof cases
    case (3 v)
    then obtain c' where c': "f c = Some (Inr (v, c'))" "V c'" using assms(1) c by (auto simp: refines_def)
    then have g: "st_bind f g c = g v c'" by (simp add: st_bind_def)
    have "case h v of None \<Rightarrow> g v c' = None | Some (Inl e) \<Rightarrow> g v c' = Some (Inl e)
        | Some (Inr w) \<Rightarrow> \<exists>c'a. g v c' = Some (Inr (w, c'a)) \<and> V c'a"
      using assms(2) [OF 3] c'(2) unfolding refines_def by blast
    then show ?thesis unfolding g 3 div_bind.simps .
  qed (use assms(1) c in \<open>auto simp: refines_def st_bind_def\<close>)
qed

lemma refines_bind_lift: "refines V f x \<Longrightarrow> refines V (st_bind f (\<lambda>v. st_lift (h v))) (div_bind x h)"
  by (rule refines_bind) (auto intro: refines_lift)

lemma refines_map:
  assumes "\<And>x. x \<in> set xs \<Longrightarrow> refines V (f x) (h x)"
  shows "refines V (st_map f xs) (div_map h xs)"
  using assms by (induction xs) (auto intro!: refine_intros)

lemma refines_if [refine_intros]:
  "(b \<Longrightarrow> refines V f x) \<Longrightarrow> (\<not> b \<Longrightarrow> refines V g y) \<Longrightarrow> refines V (if b then f else g) (if b then x else y)"
  by simp

text \<open>A cache is sound for a set of jobs when every file at the path of a job holds the value of that job.\<close>

definition cache_sound :: "('j \<Rightarrow> string) \<Rightarrow> ('j \<Rightarrow> cached_value diverging) \<Rightarrow> 'j set \<Rightarrow> cache \<Rightarrow> bool" where
  "cache_sound path val jobs c \<longleftrightarrow> (\<forall>j \<in> jobs. \<forall>v. c (path j) = Some v \<longrightarrow> val j = Some (Inr v))"

lemma refines_cached:
  assumes inj: "inj_on path jobs" and j: "j \<in> jobs" and f: "refines (cache_sound path val jobs) f (val j)"
  shows "refines (cache_sound path val jobs) (cached_file (path j) f) (val j)"
  unfolding refines_def
proof (intro allI impI)
  fix c
  assume c: "cache_sound path val jobs c"
  show "case val j of None \<Rightarrow> cached_file (path j) f c = None | Some (Inl e) \<Rightarrow> cached_file (path j) f c = Some (Inl e)
      | Some (Inr v) \<Rightarrow> \<exists>c'. cached_file (path j) f c = Some (Inr (v, c')) \<and> cache_sound path val jobs c'"
  proof (cases "c (path j)")
    case (Some v)
    then have "val j = Some (Inr v)" using c j by (simp add: cache_sound_def)
    then show ?thesis using c Some by (simp add: cached_file_def)
  next
    case None
    consider "val j = None" | e where "val j = Some (Inl e)" | v where "val j = Some (Inr v)"
      by (metis not_None_eq obj_sumE)
    then show ?thesis
    proof cases
      case (3 v)
      then obtain c' where c': "f c = Some (Inr (v, c'))" "cache_sound path val jobs c'"
        using f c by (auto simp: refines_def)
      have "val j' = Some (Inr w)" if "j' \<in> jobs" "(c'(path j \<mapsto> v)) (path j') = Some w" for j' w
      proof (cases "j' = j")
        case True
        then show ?thesis using that(2) 3 by simp
      next
        case False
        then have "path j' \<noteq> path j" using inj j that(1) by (meson inj_onD)
        then show ?thesis using that c'(2) by (simp add: cache_sound_def)
      qed
      then have "cache_sound path val jobs (c'(path j \<mapsto> v))" unfolding cache_sound_def by blast
      then show ?thesis using 3 c'(1) None by (simp add: cached_file_def)
    qed (use f c None in \<open>auto simp: refines_def cached_file_def\<close>)
  qed
qed

section \<open>The study without a cache\<close>

definition dists_value :: "'g sens_study \<Rightarrow> ranker_table \<Rightarrow> string \<Rightarrow> click_model \<Rightarrow> (string, dist) dict diverging" where
  "dists_value S t r m = div_bind (pools_of S t r m) (\<lambda>ps. dists_of S (Pools ps))"

definition cell_value :: "'g sens_study \<Rightarrow> ranker_table \<Rightarrow> nat list \<Rightarrow> (string, real list) dict \<Rightarrow> string \<Rightarrow> string \<Rightarrow> click_model \<Rightarrow> cell diverging" where
  "cell_value S t ns ndcg a b m =
     div_bind (Some (same_lists t a b)) (\<lambda>same. div_bind (cell_pools S t a b m) (\<lambda>dg.
     div_bind (dists_value S t a m) (\<lambda>da. div_bind (dists_value S t b m) (\<lambda>db.
       cell_record S ns a b m (dget ndcg a []) (dget ndcg b []) same dg da db))))"

definition rates_value :: "'g sens_study \<Rightarrow> ranker_table \<Rightarrow> string \<Rightarrow> click_model \<Rightarrow> (string, rate_stat) dict diverging" where
  "rates_value S t r m = Some (res_bind (aa_pair S t r) (\<lambda>(gs, e). rates_of S t e gs r m))"

definition job_value :: "'g sens_study \<Rightarrow> ranker_table \<Rightarrow> nat list \<Rightarrow> (string, real list) dict \<Rightarrow> job \<Rightarrow> cached_value diverging" where
  "job_value S t ns ndcg j =
     (case j of
        Ab_Job r m \<Rightarrow> div_bind (pools_of S t r m) (\<lambda>ps. Some (Inr (Pools ps)))
      | Cell_Job a b m \<Rightarrow> div_bind (cell_value S t ns ndcg a b m) (\<lambda>r. Some (Inr (Cell r)))
      | Rates_Job r m \<Rightarrow> div_bind (rates_value S t r m) (\<lambda>r. Some (Inr (Rates r)))
      | Direct_Job c \<Rightarrow> div_bind (Some (direct_of S t c)) (\<lambda>v. Some (Inr (Direct v))))"

definition study_names :: "(string, real list) dict \<Rightarrow> string set" where
  "study_names ndcg = insert (aa_ranker (keys ndcg)) (set (keys ndcg))"

definition study_jobs :: "'g sens_study \<Rightarrow> ranker_table \<Rightarrow> nat list \<Rightarrow> click_model list \<Rightarrow> (string, real list) dict \<Rightarrow> job set" where
  "study_jobs S t ns models ndcg =
     {j. case j of
           Ab_Job r m \<Rightarrow> r \<in> study_names ndcg \<and> m \<in> set models
         | Cell_Job a b m \<Rightarrow> a \<in> study_names ndcg \<and> b \<in> study_names ndcg \<and> m \<in> set models
         | Rates_Job r m \<Rightarrow> r \<in> study_names ndcg \<and> m \<in> set models
         | Direct_Job c \<Rightarrow> \<exists>a \<in> study_names ndcg. \<exists>b \<in> study_names ndcg. \<exists>m \<in> set models. cell_value S t ns ndcg a b m = Some (Inr c)}"

definition pair_value :: "'g sens_study \<Rightarrow> ranker_table \<Rightarrow> nat list \<Rightarrow> click_model list \<Rightarrow> (string, real list) dict \<Rightarrow> string \<times> string \<Rightarrow>
    pair_result diverging" where
  "pair_value S t ns models ndcg ab =
     (let (a, b) = ab in
      div_bind (Some (dlookup ndcg a)) (\<lambda>na. div_bind (Some (dlookup ndcg b)) (\<lambda>nb.
      div_bind (Some (same_lists t a b)) (\<lambda>same.
        if same = length (rt_qids t) then Some (Inr \<lparr>pt_a = a, pt_b = b, pt_skipped = True, pt_cells = []\<rparr>)
        else div_bind (div_map (cell_value S t ns ndcg a b) models) (\<lambda>cs.
          Some (Inr \<lparr>pt_a = a, pt_b = b, pt_skipped = False, pt_cells = cs\<rparr>))))))"

definition aa_value :: "'g sens_study \<Rightarrow> ranker_table \<Rightarrow> click_model list \<Rightarrow> string list \<Rightarrow> (string \<times> (string, rate_stat) dict) list diverging" where
  "aa_value S t models names =
     (let r = aa_ranker names in
      div_bind (Some (aa_pair S t r)) (\<lambda>ge.
        div_map (\<lambda>m. div_bind (rates_value S t r m) (\<lambda>x. Some (Inr (model_name m, x)))) models))"

definition study_value :: "'g sens_study \<Rightarrow> ranker_table \<Rightarrow> nat list \<Rightarrow> click_model list \<Rightarrow> (string, real list) dict \<Rightarrow> (string \<times> string) list \<Rightarrow>
    study_out diverging" where
  "study_value S t ns models ndcg pairs =
     div_bind (div_map (pair_value S t ns models ndcg) pairs) (\<lambda>prs.
     div_bind (aa_value S t models (keys ndcg)) (\<lambda>aa.
     let cells = concat (map pt_cells prs) in
     div_bind (div_map (\<lambda>c. Some (direct_of S t c)) (filter to_validate cells)) (\<lambda>vs.
       Some (Inr \<lparr>so_results = cells, so_skipped = map (\<lambda>p. (pt_a p, pt_b p)) (filter pt_skipped prs), so_aa = aa, so_validation = vs\<rparr>))))"

lemma div_bind_assoc: "div_bind (div_bind x f) g = div_bind x (\<lambda>v. div_bind (f v) g)"
  by (cases x; cases "the x") auto

lemma div_bind_unit [simp]: "div_bind x (\<lambda>v. Some (Inr v)) = x"
  by (cases x; cases "the x") auto

lemma div_bind_cong_Inr: "(\<And>v. x = Some (Inr v) \<Longrightarrow> f v = g v) \<Longrightarrow> div_bind x f = div_bind x g"
  by (cases x; cases "the x") auto

text \<open>Every stage, over a cache that is sound for the jobs of the study.\<close>

abbreviation study_sound :: "'g sens_study \<Rightarrow> ranker_table \<Rightarrow> nat list \<Rightarrow> click_model list \<Rightarrow> (string, real list) dict \<Rightarrow> cache \<Rightarrow> bool" where
  "study_sound S t ns models ndcg \<equiv> cache_sound (job_path S t) (job_value S t ns ndcg) (study_jobs S t ns models ndcg)"

lemma ab_pools_refine:
  assumes "inj_on (job_path S t) (study_jobs S t ns models ndcg)" and "r \<in> study_names ndcg" and "m \<in> set models"
  shows "refines (study_sound S t ns models ndcg) (ab_pools S t r m) (dists_value S t r m)"
proof -
  have "refines (study_sound S t ns models ndcg)
      (cached_file (job_path S t (Ab_Job r m)) (st_lift (div_bind (pools_of S t r m) (\<lambda>ps. Some (Inr (Pools ps))))))
      (job_value S t ns ndcg (Ab_Job r m))"
    by (rule refines_cached) (use assms in \<open>auto simp: study_jobs_def job_value_def intro: refine_intros\<close>)
  from refines_bind_lift [OF this, of "dists_of S"]
  show ?thesis by (simp add: ab_pools_def dists_value_def job_value_def div_bind_assoc)
qed

lemma cell_run_refine:
  assumes inj: "inj_on (job_path S t) (study_jobs S t ns models ndcg)" and n: "a \<in> study_names ndcg" "b \<in> study_names ndcg" and m: "m \<in> set models"
    and same: "same_lists t a b = Inr same"
  shows "refines (study_sound S t ns models ndcg) (cell_run S t ns a b (dget ndcg a []) (dget ndcg b []) same m) (cell_value S t ns ndcg a b m)"
proof -
  let ?V = "study_sound S t ns models ndcg" and ?j = "Cell_Job a b m"
  let ?rec = "\<lambda>dg da db. cell_record S ns a b m (dget ndcg a []) (dget ndcg b []) same dg da db"
  have j: "job_value S t ns ndcg ?j =
      div_bind (cell_pools S t a b m) (\<lambda>dg. div_bind (dists_value S t a m) (\<lambda>da. div_bind (dists_value S t b m) (\<lambda>db.
        div_bind (?rec dg da db) (\<lambda>r. Some (Inr (Cell r))))))"
    by (simp add: job_value_def cell_value_def same div_bind_assoc)
  have "refines ?V (cached_file (job_path S t ?j)
       (st_bind (st_lift (cell_pools S t a b m)) (\<lambda>dg. st_bind (ab_pools S t a m) (\<lambda>da. st_bind (ab_pools S t b m) (\<lambda>db.
          st_bind (st_lift (?rec dg da db)) (\<lambda>r. st_lift (Some (Inr (Cell r))))))))) (job_value S t ns ndcg ?j)"
  proof (rule refines_cached [OF inj])
    show "?j \<in> study_jobs S t ns models ndcg" using n m by (simp add: study_jobs_def)
  qed (unfold j, intro refines_bind refines_lift ab_pools_refine [OF inj _ m] n)
  from refines_bind_lift [OF this, of the_cell]
  show ?thesis by (simp add: cell_run_def job_value_def div_bind_assoc the_cell_def)
qed

lemma dlookup_get: "dlookup d k = Inr v \<Longrightarrow> dget d k w = v \<and> k \<in> set (keys d)"
  by (auto simp: dlookup_def dget_def split: option.splits dest: map_of_SomeD intro: rev_image_eqI)

lemma pair_run_refine:
  assumes inj: "inj_on (job_path S t) (study_jobs S t ns models ndcg)"
  shows "refines (study_sound S t ns models ndcg) (pair_run S t ns models ndcg ab) (pair_value S t ns models ndcg ab)"
proof -
  obtain a b where ab: "ab = (a, b)" by (cases ab)
  have cells: "refines (study_sound S t ns models ndcg) (st_map (cell_run S t ns a b na nb same) models) (div_map (cell_value S t ns ndcg a b) models)"
    if na: "dlookup ndcg a = Inr na" and nb: "dlookup ndcg b = Inr nb" and same: "same_lists t a b = Inr same" for na nb same
  proof (rule refines_map)
    fix m
    assume m: "m \<in> set models"
    have n: "a \<in> study_names ndcg" "b \<in> study_names ndcg"
      using dlookup_get [OF na] dlookup_get [OF nb] by (simp_all add: study_names_def)
    show "refines (study_sound S t ns models ndcg) (cell_run S t ns a b na nb same m) (cell_value S t ns ndcg a b m)"
      using cell_run_refine [OF inj n m same] dlookup_get [OF na, of "[]"] dlookup_get [OF nb, of "[]"] by simp
  qed
  show ?thesis
    unfolding pair_run_def pair_value_def ab Let_def prod.case
    by (intro refines_bind refines_lift refines_if cells) auto
qed

lemma aa_run_refine:
  assumes inj: "inj_on (job_path S t) (study_jobs S t ns models ndcg)"
  shows "refines (study_sound S t ns models ndcg) (aa_run S t models (keys ndcg)) (aa_value S t models (keys ndcg))"
proof -
  let ?r = "aa_ranker (keys ndcg)" and ?V = "study_sound S t ns models ndcg"
  have one: "refines ?V
      (st_bind (cached_file (job_path S t (Rates_Job ?r m)) (st_lift (div_bind (Some (rates_of S t e gs ?r m)) (\<lambda>x. Some (Inr (Rates x))))))
         (\<lambda>v. st_bind (st_lift (the_rates v)) (\<lambda>x. st_lift (Some (Inr (model_name m, x))))))
      (div_bind (rates_value S t ?r m) (\<lambda>x. Some (Inr (model_name m, x))))"
    if m: "m \<in> set models" and p: "aa_pair S t ?r = Inr (gs, e)" for m gs e
  proof -
    have j: "job_value S t ns ndcg (Rates_Job ?r m) = div_bind (Some (rates_of S t e gs ?r m)) (\<lambda>x. Some (Inr (Rates x)))"
      by (simp add: job_value_def rates_value_def p)
    have "refines ?V (cached_file (job_path S t (Rates_Job ?r m)) (st_lift (div_bind (Some (rates_of S t e gs ?r m)) (\<lambda>x. Some (Inr (Rates x))))))
        (job_value S t ns ndcg (Rates_Job ?r m))"
      by (rule refines_cached [OF inj]) (use m in \<open>simp_all add: study_jobs_def study_names_def j refines_lift\<close>)
    then have "refines ?V
        (st_bind (cached_file (job_path S t (Rates_Job ?r m)) (st_lift (div_bind (Some (rates_of S t e gs ?r m)) (\<lambda>x. Some (Inr (Rates x))))))
           (\<lambda>v. st_bind (st_lift (the_rates v)) (\<lambda>x. st_lift (Some (Inr (model_name m, x))))))
        (div_bind (job_value S t ns ndcg (Rates_Job ?r m)) (\<lambda>v. div_bind (the_rates v) (\<lambda>x. Some (Inr (model_name m, x)))))"
      by (intro refines_bind refines_lift)
    moreover have "div_bind (job_value S t ns ndcg (Rates_Job ?r m)) (\<lambda>v. div_bind (the_rates v) (\<lambda>x. Some (Inr (model_name m, x)))) =
        div_bind (rates_value S t ?r m) (\<lambda>x. Some (Inr (model_name m, x)))"
      by (simp add: job_value_def div_bind_assoc the_rates_def)
    ultimately show ?thesis by simp
  qed
  show ?thesis
    unfolding aa_run_def aa_value_def Let_def
  proof (intro refines_bind refines_lift)
    fix v
    assume v: "Some (aa_pair S t ?r) = Some (Inr v)"
    obtain gs e where ge: "v = (gs, e)" by (cases v)
    show "refines ?V (case v of (gs, e) \<Rightarrow>
        st_map (\<lambda>m. st_bind (cached_file (job_path S t (Rates_Job ?r m)) (st_lift (div_bind (Some (rates_of S t e gs ?r m)) (\<lambda>x. Some (Inr (Rates x))))))
           (\<lambda>v. st_bind (st_lift (the_rates v)) (\<lambda>x. st_lift (Some (Inr (model_name m, x)))))) models)
        (div_map (\<lambda>m. div_bind (rates_value S t ?r m) (\<lambda>x. Some (Inr (model_name m, x)))) models)"
      unfolding ge prod.case by (rule refines_map, rule one) (use v ge in auto)
  qed
qed

lemma div_map_Inr_set: "div_map f xs = Some (Inr ys) \<Longrightarrow> y \<in> set ys \<Longrightarrow> \<exists>x \<in> set xs. f x = Some (Inr y)"
proof (induction xs arbitrary: ys)
  case (Cons x xs)
  obtain z zs where "f x = Some (Inr z)" "div_map f xs = Some (Inr zs)" "ys = z # zs"
    using Cons.prems(1) by (cases "f x"; cases "the (f x)"; cases "div_map f xs"; cases "the (div_map f xs)") auto
  then show ?case using Cons.IH Cons.prems(2) by auto
qed simp

lemma div_bind_Some_iff: "div_bind x f = Some (Inr v) \<longleftrightarrow> (\<exists>w. x = Some (Inr w) \<and> f w = Some (Inr v))"
  by (cases x; cases "the x") auto

lemma pair_value_cells:
  assumes "pair_value S t ns models ndcg ab = Some (Inr p)" and "c \<in> set (pt_cells p)"
  shows "Direct_Job c \<in> study_jobs S t ns models ndcg"
proof -
  obtain a b where ab: "ab = (a, b)" by (cases ab)
  obtain na nb where nab: "dlookup ndcg a = Inr na" "dlookup ndcg b = Inr nb"
    using assms(1) by (auto simp: pair_value_def ab div_bind_Some_iff)
  have n: "a \<in> study_names ndcg" "b \<in> study_names ndcg"
    using dlookup_get [OF nab(1)] dlookup_get [OF nab(2)] by (simp_all add: study_names_def)
  obtain cs where "div_map (cell_value S t ns ndcg a b) models = Some (Inr cs)" "c \<in> set cs"
    using assms nab by (auto simp: pair_value_def ab Let_def div_bind_Some_iff split: if_splits)
  then obtain m where "m \<in> set models" "cell_value S t ns ndcg a b m = Some (Inr c)"
    using div_map_Inr_set by metis
  then show ?thesis using n by (auto simp: study_jobs_def)
qed

lemma validation_run_refine:
  assumes inj: "inj_on (job_path S t) (study_jobs S t ns models ndcg)" and j: "Direct_Job c \<in> study_jobs S t ns models ndcg"
  shows "refines (study_sound S t ns models ndcg) (validation_run S t c) (Some (direct_of S t c))"
proof -
  have v: "job_value S t ns ndcg (Direct_Job c) = div_bind (Some (direct_of S t c)) (\<lambda>x. Some (Inr (Direct x)))"
    by (simp add: job_value_def)
  have "refines (study_sound S t ns models ndcg)
      (cached_file (job_path S t (Direct_Job c)) (st_lift (div_bind (Some (direct_of S t c)) (\<lambda>x. Some (Inr (Direct x))))))
      (job_value S t ns ndcg (Direct_Job c))"
    by (rule refines_cached [OF inj j]) (simp only: v refines_lift)
  from refines_bind_lift [OF this, of the_direct]
  show ?thesis by (simp add: validation_run_def v div_bind_assoc the_direct_def)
qed

lemma study_run_refine:
  assumes inj: "inj_on (job_path S t) (study_jobs S t ns models ndcg)"
  shows "refines (study_sound S t ns models ndcg) (study_run S t ns models ndcg pairs) (study_value S t ns models ndcg pairs)"
  unfolding study_run_def study_value_def Let_def
proof (intro refines_bind refines_lift aa_run_refine [OF inj] refines_map pair_run_refine [OF inj])
  fix prs aa c
  assume prs: "div_map (pair_value S t ns models ndcg) pairs = Some (Inr prs)"
    and c: "c \<in> set (filter to_validate (concat (map pt_cells prs)))"
  obtain p where p: "p \<in> set prs" "c \<in> set (pt_cells p)" using c by auto
  obtain ab where "pair_value S t ns models ndcg ab = Some (Inr p)" using div_map_Inr_set [OF prs p(1)] by blast
  then have "Direct_Job c \<in> study_jobs S t ns models ndcg" using p(2) by (rule pair_value_cells)
  then show "refines (study_sound S t ns models ndcg) (validation_run S t c) (Some (direct_of S t c))"
    by (rule validation_run_refine [OF inj])
qed

section \<open>Keys\<close>

definition no_bar :: "string \<Rightarrow> bool" where
  "no_bar s \<longleftrightarrow> list_all (\<lambda>ch. code ch \<noteq> 124) s"

lemma split_at_nonempty: "split_at sep s \<noteq> []"
  by (cases s) (simp_all add: split_at_def)

lemma split_at_step: "code ch = sep \<Longrightarrow> split_at sep (ch # s) = [] # split_at sep s"
  by (simp add: split_at_def)

lemma split_at_keep: "code ch \<noteq> sep \<Longrightarrow> split_at sep (ch # s) = (ch # hd (split_at sep s)) # tl (split_at sep s)"
  by (simp add: split_at_def)

lemma split_at_field: "no_bar f \<Longrightarrow> split_at 124 (f @ CHR ''|'' # s) = f # split_at 124 s"
proof (induction f)
  case Nil
  then show ?case by (simp add: split_at_step code_def)
qed (simp add: split_at_keep no_bar_def)

lemma split_at_one: "no_bar f \<Longrightarrow> split_at 124 f = [f]"
proof (induction f)
  case Nil
  then show ?case by (simp add: split_at_def)
qed (simp add: split_at_keep no_bar_def)

lemma split_bar_join: "list_all no_bar fs \<Longrightarrow> fs \<noteq> [] \<Longrightarrow> split_at 124 (bar_join fs) = fs"
proof (induction fs)
  case (Cons f fs)
  show ?case
  proof (cases fs)
    case Nil
    then show ?thesis using Cons.prems by (simp add: bar_join_def split_at_one)
  next
    case (Cons g gs)
    then have "bar_join (f # fs) = f @ CHR ''|'' # bar_join fs" by (simp add: bar_join_def)
    then show ?thesis using Cons.IH Cons.prems \<open>fs = g # gs\<close> by (simp add: split_at_field)
  qed
qed simp

lemma no_bar_str_nat [simp]: "no_bar (str_nat n)"
  unfolding no_bar_def by (rule list.pred_mono_strong [OF str_nat_digits]) (auto simp: is_digit_char_def)

definition job_fields :: "'g sens_study \<Rightarrow> ranker_table \<Rightarrow> job \<Rightarrow> string list" where
  "job_fields S t j =
     (case j of
        Ab_Job r m \<Rightarrow> [''ab'', r, model_name m, str_nat (su_pool S), str_nat (su_seed S), table_sig S t r]
      | Cell_Job a b m \<Rightarrow> [''cell'', a, b, model_name m, str_nat (su_pool S), str_nat (su_trials S), str_nat (su_seed S), table_sig S t a, table_sig S t b]
      | Rates_Job r m \<Rightarrow> [''aa'', r, model_name m, str_nat (su_aa_n S), str_nat (su_aa_trials S), str_nat (su_seed S), table_sig S t r]
      | Direct_Job c \<Rightarrow> [''val'', ce_a c, ce_b c, ce_model c, str_nat (su_val_trials S), str_nat (su_seed S),
          case tdi_n80 c of None \<Rightarrow> ''None'' | Some n \<Rightarrow> su_repr S n])"

lemma job_key_fields: "job_key S t j = bar_join (job_fields S t j)"
  by (cases j) (simp_all add: job_key_def job_fields_def)

lemma cell_value_names:
  "cell_value S t ns ndcg a b m = Some (Inr c) \<Longrightarrow> ce_a c = a \<and> ce_b c = b \<and> ce_model c = model_name m"
  by (auto simp: cell_value_def cell_record_def Let_def div_bind_Some_iff)

definition keys_ok :: "'g sens_study \<Rightarrow> (string, real list) dict \<Rightarrow> click_model list \<Rightarrow> bool" where
  \<comment> \<open>no name, digest or printed number contains the separator of the keys\<close>
  "keys_ok S ndcg models \<longleftrightarrow>
     (\<forall>n \<in> study_names ndcg. no_bar n) \<and> (\<forall>m \<in> set models. no_bar (model_name m)) \<and> distinct (map model_name models) \<and>
     (\<forall>x. no_bar (su_xxh64 S x)) \<and> (\<forall>x. no_bar (su_repr S x))"

lemma job_fields_no_bar:
  assumes "keys_ok S ndcg models" and "j \<in> study_jobs S t ns models ndcg"
  shows "list_all no_bar (job_fields S t j)"
proof -
  have lit: "no_bar ''ab''" "no_bar ''cell''" "no_bar ''aa''" "no_bar ''val''" "no_bar ''None''"
    by (simp_all add: no_bar_def code_def)
  have r: "no_bar (case x of None \<Rightarrow> ''None'' | Some n \<Rightarrow> su_repr S n)" for x
    using assms(1) lit by (simp add: keys_ok_def split: option.split)
  show ?thesis
    using assms lit r by (cases j) (auto simp: job_fields_def study_jobs_def keys_ok_def table_sig_def dest!: cell_value_names)
qed

lemma job_key_inj:
  assumes ok: "keys_ok S ndcg models"
  shows "inj_on (job_key S t) (study_jobs S t ns models ndcg)"
proof (rule inj_onI)
  fix i j
  assume i: "i \<in> study_jobs S t ns models ndcg" and j: "j \<in> study_jobs S t ns models ndcg" and eq: "job_key S t i = job_key S t j"
  have m: "m = m'" if "m \<in> set models" "m' \<in> set models" "model_name m = model_name m'" for m m'
    using ok that by (auto simp: keys_ok_def distinct_map dest: inj_onD)
  have ne: "job_fields S t j' \<noteq> []" for j' by (cases j') (simp_all add: job_fields_def)
  have "job_fields S t i = split_at 124 (job_key S t i)"
    unfolding job_key_fields by (rule split_bar_join [OF job_fields_no_bar [OF ok i] ne, symmetric])
  also have "\<dots> = split_at 124 (job_key S t j)" by (simp only: eq)
  also have "\<dots> = job_fields S t j"
    unfolding job_key_fields by (rule split_bar_join [OF job_fields_no_bar [OF ok j] ne])
  finally have f: "job_fields S t i = job_fields S t j" .
  show "i = j"
  proof (cases i)
    case (Direct_Job c)
    then obtain d where d: "j = Direct_Job d" using f by (cases j) (simp_all add: job_fields_def)
    obtain a b m1 where c: "m1 \<in> set models" "cell_value S t ns ndcg a b m1 = Some (Inr c)"
      using i Direct_Job by (auto simp: study_jobs_def)
    obtain a' b' m2 where d': "m2 \<in> set models" "cell_value S t ns ndcg a' b' m2 = Some (Inr d)"
      using j d by (auto simp: study_jobs_def)
    have "a = a'" "b = b'" "model_name m1 = model_name m2"
      using f cell_value_names [OF c(2)] cell_value_names [OF d'(2)] by (simp_all add: job_fields_def Direct_Job d)
    then show ?thesis using m [OF c(1) d'(1)] c(2) d'(2) Direct_Job d by simp
  qed (use f i j m in \<open>cases j; auto simp: job_fields_def study_jobs_def\<close>)+
qed

lemma job_path_inj:
  assumes "keys_ok S ndcg models" and "inj_on (su_xxh64 S) (job_key S t ` study_jobs S t ns models ndcg)"
  shows "inj_on (job_path S t) (study_jobs S t ns models ndcg)"
proof -
  have "inj_on (su_xxh64 S \<circ> job_key S t) (study_jobs S t ns models ndcg)"
    by (rule comp_inj_on [OF job_key_inj [OF assms(1)] assms(2)])
  then show ?thesis by (auto simp: inj_on_def job_path_def)
qed

text \<open>C31: the cache of the sensitivity study is transparent: started from any cache whose files hold the
  values of their jobs, as earlier studies over the same rankers leave it, whatever pairs they compared, the study returns, fails or
  diverges exactly as the study that computes everything anew, and leaves such a cache again; it needs
  only that the digests of the keys do not collide and that names contain no separator.\<close>

theorem study_cache_transparent:
  assumes "keys_ok S ndcg models" and "inj_on (su_xxh64 S) (job_key S t ` study_jobs S t ns models ndcg)"
    and sound: "cache_sound (job_path S t) (job_value S t ns ndcg) (study_jobs S t ns models ndcg) c"
  shows "map_option (map_sum id fst) (study_run S t ns models ndcg pairs c) = study_value S t ns models ndcg pairs \<and>
     (\<forall>out c'. study_run S t ns models ndcg pairs c = Some (Inr (out, c')) \<longrightarrow>
        cache_sound (job_path S t) (job_value S t ns ndcg) (study_jobs S t ns models ndcg) c')"
proof -
  let ?x = "study_value S t ns models ndcg pairs"
  have r: "refines (study_sound S t ns models ndcg) (study_run S t ns models ndcg pairs) ?x"
    by (rule study_run_refine [OF job_path_inj [OF assms(1,2)]])
  consider "?x = None" | e where "?x = Some (Inl e)" | v where "?x = Some (Inr v)" by (metis not_None_eq obj_sumE)
  then show ?thesis
    by cases (use r sound in \<open>auto simp: refines_def\<close>)
qed

definition demo_digest :: "string \<Rightarrow> string" where
  "demo_digest s = concat (map (\<lambda>ch. map ((!) ''0123456789abcdef'') [code ch div 16, code ch mod 16]) s)"

lemma demo_nibble_inj: "a < 16 \<Longrightarrow> b < 16 \<Longrightarrow> ''0123456789abcdef'' ! a = ''0123456789abcdef'' ! b \<Longrightarrow> a = b"
  by (rule nth_eq_iff_index_eq [THEN iffD1, of "''0123456789abcdef''"]) simp_all

lemma demo_digest_inj: "demo_digest s = demo_digest s' \<Longrightarrow> s = s'"
proof (induction s arbitrary: s')
  case Nil
  then show ?case by (cases s') (simp_all add: demo_digest_def)
next
  case (Cons x s)
  then obtain y r where s': "s' = y # r" by (cases s') (simp_all add: demo_digest_def)
  have eqs: "''0123456789abcdef'' ! (code x div 16) = ''0123456789abcdef'' ! (code y div 16)"
      "''0123456789abcdef'' ! (code x mod 16) = ''0123456789abcdef'' ! (code y mod 16)" "demo_digest s = demo_digest r"
    using Cons.prems unfolding s' by (simp_all only: demo_digest_def list.map concat.simps append.simps list.inject)
  have "code x div 16 = code y div 16" "code x mod 16 = code y mod 16"
    using demo_nibble_inj [OF _ _ eqs(1)] demo_nibble_inj [OF _ _ eqs(2)] code_less [of x] code_less [of y] by simp_all
  then have "code x = code y" by (metis div_mult_mod_eq)
  then have "x = y" by (simp add: code_def)
  then show ?case using Cons.IH [OF eqs(3)] by (simp add: s')
qed

lemma demo_digest_no_bar: "no_bar (demo_digest s)"
proof -
  have "''0123456789abcdef'' ! i \<in> set ''0123456789abcdef''" if "i < 16" for i using that by (intro nth_mem) simp
  moreover have "\<forall>ch \<in> set ''0123456789abcdef''. code ch \<noteq> 124" by (simp add: code_def)
  ultimately have d: "code (''0123456789abcdef'' ! i) \<noteq> 124" if "i < 16" for i using that by blast
  have "code x div 16 < 16" "code x mod 16 < 16" for x using code_less [of x] by simp_all
  then have d': "code (''0123456789abcdef'' ! (code x div 16)) \<noteq> 124" "code (''0123456789abcdef'' ! (code x mod 16)) \<noteq> 124" for x
    using d by blast+
  show ?thesis
    by (induction s) (use d' in \<open>simp_all add: demo_digest_def no_bar_def del: nth_Cons_numeral\<close>)
qed

definition demo_study :: "nat sens_study" where
  "demo_study =
     \<lparr>su_rng = \<lparr>rg_random = \<lambda>g k. (replicate k (1 / 2), g + k), rg_integers = \<lambda>g n k. (replicate k 0, g + k),
        rg_normal = \<lambda>g k. (replicate k 0, g + k), rg_geometric = \<lambda>g p. (1, g + 1),
        rg_multinomial = \<lambda>g n p size. (replicate size (n # replicate (length p - 1) 0), g + 1), rg_choice = \<lambda>g p. (0, g + 1)\<rparr>,
      su_default_rng = sum_list, su_xxh32 = length, su_xxh64 = demo_digest, su_repr = (\<lambda>x. ''1.0''), su_sf = (\<lambda>x. 1 / 2),
      su_cdf = (\<lambda>k n. 1), su_ppf = (\<lambda>p. 0), su_isofit = (\<lambda>x y. y), su_ks = (\<lambda>ps. 1), su_pool = 2, su_trials = 1, su_seed = 7,
      su_aa_n = 4, su_aa_trials = 1, su_val_trials = 1\<rparr>"

definition demo_table :: ranker_table where
  "demo_table =
     \<lparr>rt_qids = [''1''], rt_lists = [(''bm25'', [[''d1'', ''d2'']]), (''dense'', [[''d2'', ''d1'']])],
      rt_qrels = [(''1'', [(''d1'', 3)])], rt_k = 2\<rparr>"

theorem study_cache_transparent_witness:
  "map_option (map_sum id fst)
     (study_run demo_study demo_table [10] [DBN ''cascade-perfect'' [0, 2 / 10, 8 / 10, 1] [0, 0, 0, 0] 1] [(''bm25'', [1]), (''dense'', [6 / 10])]
        [(''bm25'', ''dense'')] Map.empty) =
   study_value demo_study demo_table [10] [DBN ''cascade-perfect'' [0, 2 / 10, 8 / 10, 1] [0, 0, 0, 0] 1] [(''bm25'', [1]), (''dense'', [6 / 10])]
     [(''bm25'', ''dense'')]"
proof -
  let ?ndcg = "[(''bm25'', [1]), (''dense'', [6 / 10])] :: (string, real list) dict" and ?m = "DBN ''cascade-perfect'' [0, 2 / 10, 8 / 10, 1] [0, 0, 0, 0] 1"
  have "study_names ?ndcg \<subseteq> {''bm25'', ''dense'', syn_name ''1.0''}"
    by (auto simp: study_names_def aa_ranker_def next_or_def split: list.splits dest!: filter_eq_ConsD)
  moreover have "no_bar ''bm25''" "no_bar ''dense''" "no_bar (syn_name ''1.0'')" "no_bar ''cascade-perfect''" "no_bar ''1.0''"
    by (simp_all add: no_bar_def syn_name_def code_def)
  ultimately have ok: "keys_ok demo_study ?ndcg [?m]"
    using demo_digest_no_bar by (auto simp: keys_ok_def demo_study_def model_name_def)
  have inj: "inj_on (su_xxh64 demo_study) A" for A
    by (rule inj_onI) (simp add: demo_study_def demo_digest_inj)
  show ?thesis
    by (rule conjunct1 [OF study_cache_transparent [OF ok inj]]) (simp add: cache_sound_def)
qed

end
