(* ===== verification/Ltr_Study.thy ===== *)
theory Ltr_Study
  imports Log_Sim
begin

text \<open>
  \<open>scripts/m9_ltr.py\<close>: the datasets of the counterfactual learning-to-rank study (runs, candidates, passage
  lengths, the dense feature), the evaluation with its reference rankings, the learning curve over simulated
  logs, propensity misestimation and weight clipping.  The generator, \<open>default_rng\<close>, scipy's optimiser, the
  isotonic fit and the encoder are arguments; \<open>fit\<close> on weights that are not numbers is an argument too.
  The lemmas: no linear ranker beats the candidate oracle on the evaluation lists, and the cached passage
  lengths are those of the collection.
\<close>

section \<open>Runs and passage lengths\<close>

definition LTR_K :: nat where "LTR_K = 20"

definition LAM :: real where "LAM = 1 / 1000"

definition glob_match :: "string \<Rightarrow> string \<Rightarrow> string \<Rightarrow> bool" where
  \<comment> \<open>\<open>*pat*.split.trec\<close>\<close>
  "glob_match pat split name =
     (let suf = ''.'' @ split @ ''.trec''; n = length name - length suf
      in length suf \<le> length name \<and> drop n name = suf \<and> str_contains pat (take n name))"

definition find_run :: "(string \<times> string) list \<Rightarrow> string list \<Rightarrow> string \<Rightarrow> string list \<Rightarrow> (string \<times> string) option" where
  \<comment> \<open>over the files of \<open>RUN_DIR\<close>, as (name, contents)\<close>
  "find_run dir patterns split exclude =
     next_or (\<lambda>(n, c). c \<noteq> [] \<and> \<not> list_ex (\<lambda>x. str_contains x n) exclude)
       (concat (map (\<lambda>pat. filter (\<lambda>(n, c). glob_match pat split n) (py_sorted fst dir)) patterns))"

definition length_line :: "docid set \<Rightarrow> (docid, nat) dict \<Rightarrow> string \<Rightarrow> (docid, nat) dict res" where
  "length_line need have l =
     (case split1 TAB l of
        None \<Rightarrow> Inl ValueError
      | Some (pid, t) \<Rightarrow> Inr (if pid \<in> need then dset have pid (length (split_ws t)) else have))"

definition doc_lengths :: "string \<Rightarrow> (docid, nat) dict option \<Rightarrow> docid list \<Rightarrow> ((docid, nat) dict \<times> (docid, nat) dict option) res" where
  \<comment> \<open>the lengths and the cache file afterwards\<close>
  "doc_lengths coll cache pids =
     (let have = (case cache of None \<Rightarrow> [] | Some c \<Rightarrow> c);
          need = filter (\<lambda>p. \<not> dhas have p) pids;
          lens = (\<lambda>h. map (\<lambda>p. (p, dget h p 0)) pids)
      in if need = [] then Inr (lens have, cache)
         else res_bind (res_fold (length_line (set need)) have (text_lines coll)) (\<lambda>h. Inr (lens h, Some h)))"

section \<open>Datasets\<close>

record ltr_files =
  lf_runs :: "(string \<times> string) list"
  lf_subset :: "byte list"
  lf_queries :: string
  lf_qrels :: string
  lf_files :: files
  lf_qrels_paths :: "(string \<times> string list) list"
  lf_query_paths :: "string list list"
  lf_collection :: string
  lf_doclen :: "(docid, nat) dict option"
  lf_vectors :: vec_cache

definition eval_splits :: "string list" where "eval_splits = [''dl19'', ''dl20'']"

definition read_both :: "(string \<times> string) option list \<Rightarrow> run res" where
  \<comment> \<open>\<open>{**read_run(p), **read_run(q)}\<close>\<close>
  "read_both ps = res_fold (\<lambda>m p. res_bind (read_run (case p of None \<Rightarrow> [] | Some (_, t) \<Rightarrow> t)) (\<lambda>r. Inr (foldl (\<lambda>m (q, v). dset m q v) m r))) [] ps"

definition keep_docs :: "string list \<Rightarrow> run \<Rightarrow> run" where
  "keep_docs keep r = map (\<lambda>(q, ds). (q, filter (\<lambda>(d, s). d \<in> set keep) ds)) r"

definition sample_queries :: "(string list \<Rightarrow> nat \<Rightarrow> string list) \<Rightarrow> nat option \<Rightarrow> (qid, string) dict \<Rightarrow> run \<Rightarrow> ((qid, string) dict \<times> run) res" where
  \<comment> \<open>\<open>choice\<close> draws without replacement from the queries in numerical order\<close>
  "sample_queries choice n_train q_tr bm_tr =
     (case n_train of
        Some n \<Rightarrow>
          (if n \<noteq> 0 \<and> n < length q_tr then
             res_bind (int_sorted (keys q_tr)) (\<lambda>qs. let keep = set (choice qs n) in
               Inr (filter (\<lambda>(q, _). q \<in> keep) q_tr, filter (\<lambda>(q, _). q \<in> keep) bm_tr))
           else Inr (q_tr, bm_tr))
      | None \<Rightarrow> Inr (q_tr, bm_tr))"

definition add_candidates :: "(qid, docid list) dict \<Rightarrow> run \<Rightarrow> (qid, docid list) dict res" where
  "add_candidates cands r =
     res_fold (\<lambda>m (q, ds). res_bind (ranked ds) (\<lambda>o'. Inr (dset m q (take LTR_K o')))) cands r"

definition restrict_keys :: "run \<Rightarrow> run \<Rightarrow> run" where
  \<comment> \<open>\<open>{q: cand_run[q] for q in bm if q in cand_run}\<close>\<close>
  "restrict_keys cand_run bm = map (\<lambda>q. (q, dget cand_run q [])) (filter (dhas cand_run) (keys bm))"

definition update_dict :: "('k, 'v) dict \<Rightarrow> ('k, 'v) dict \<Rightarrow> ('k, 'v) dict" where
  "update_dict a b = foldl (\<lambda>m (k, v). dset m k v) a b"

definition dense_candidates :: "encoder \<Rightarrow> ltr_files \<Rightarrow> (qid, docid list) dict \<Rightarrow> docid list \<Rightarrow> (qid, string) dict \<Rightarrow> (qid, string) dict \<Rightarrow> run res" where
  \<comment> \<open>the candidates scored by the encoder\<close>
  "dense_candidates E F cands pids q_tr q_ev =
     res_bind (passage_texts (set pids) (lf_collection F)) (\<lambda>texts.
       let inc = filter (\<lambda>(q, _). dhas cands q);
           (vecs, _) = encode_needed E (lf_vectors F) (update_dict (inc q_tr) (inc q_ev)) texts
       in Inr (dense_run_for_candidates cands vecs))"

definition drop_dense :: "ltr_set \<Rightarrow> ltr_set" where
  \<comment> \<open>\<open>np.delete(X, drop, axis=1)\<close> over the features whose name contains "dense"\<close>
  "drop_dense t =
     (let kept = filter (\<lambda>i. \<not> str_contains ''dense'' (FEATURES ! i)) [0..<length FEATURES]; d = lt_data t
      in t\<lparr>lt_data := d\<lparr>ld_X := map (\<lambda>x. map ((!) x) kept) (ld_X d), ld_F := length kept\<rparr>\<rparr>)"

definition dense_runs :: "ltr_files \<Rightarrow> bool \<Rightarrow> run \<times> run \<Rightarrow> ((run \<times> run) \<times> (run \<times> run) option) res" where
  \<comment> \<open>the BM25 runs, restricted to the subset when the dense runs on disk are used, and the dense runs\<close>
  "dense_runs F subset_world bm =
     (let d_tr = find_run (lf_runs F) [''dense''] ''train_tune'' []; d_ev = map (\<lambda>s. find_run (lf_runs F) [''dense''] s []) eval_splits in
      if d_tr = None \<or> None \<in> set d_ev then Inr (bm, None)
      else res_bind (read_both [d_tr]) (\<lambda>de_tr. res_bind (read_both d_ev) (\<lambda>de_ev.
             if subset_world then
               res_bind (read_u64bin (lf_subset F)) (\<lambda>ids. let keep = map (\<lambda>i. str_nat (unat i)) ids in
                 Inr ((keep_docs keep (fst bm), keep_docs keep (snd bm)), Some (de_tr, de_ev)))
             else Inr (bm, Some (de_tr, de_ev)))))"

definition ltr_inputs_of :: "run \<Rightarrow> run \<Rightarrow> qrels \<Rightarrow> (qid, string) dict \<Rightarrow> (docid, nat) dict \<Rightarrow> (int, int) dict \<Rightarrow> ltr_inputs" where
  "ltr_inputs_of bm de qrels queries dl labels =
     \<lparr>li_logging = bm, li_bm25 = bm, li_dense = de, li_qrels = qrels, li_queries = queries, li_doclen = dl, li_labels = labels\<rparr>"

definition real_sets :: "(string list \<Rightarrow> nat \<Rightarrow> string list) \<Rightarrow> encoder \<Rightarrow> ltr_files \<Rightarrow> bool \<Rightarrow> bool \<Rightarrow> nat option \<Rightarrow> bool \<Rightarrow>
    (ltr_set \<times> ltr_set \<times> string list) option res" where
  \<comment> \<open>None when the BM25 runs are missing; the last component are the feature names\<close>
  "real_sets choice E F subset_world no_dense n_train from_runs =
     (let b_tr = find_run (lf_runs F) [''bm25''] ''train_tune'' [''-1m''];
          b_ev = map (\<lambda>s. find_run (lf_runs F) [''bm25''] s [''-1m'']) eval_splits in
      if b_tr = None \<or> None \<in> set b_ev then Inr None
      else
        res_bind (read_both [b_tr]) (\<lambda>bm_tr0. res_bind (read_both b_ev) (\<lambda>bm_ev0.
        res_bind (if from_runs then dense_runs F subset_world (bm_tr0, bm_ev0) else Inr ((bm_tr0, bm_ev0), None)) (\<lambda>((bm_tr1, bm_ev), de).
        res_bind (read_queries (lf_queries F)) (\<lambda>q_tr0.
        res_bind (sample_queries choice n_train q_tr0 bm_tr1) (\<lambda>(q_tr, bm_tr).
        res_bind (read_qrels (lf_qrels F)) (\<lambda>qrels_tr.
        res_bind (load_dl_qrels (lf_files F) (lf_qrels_paths F)) (\<lambda>(qrels_ev, _).
        let q_ev = load_dl_queries (lf_files F) (lf_query_paths F) in
        res_bind (res_fold add_candidates [] [bm_tr, bm_ev]) (\<lambda>cands.
        let pids = remdups (concat (map snd cands)) in
        res_bind (doc_lengths (lf_collection F) (lf_doclen F) pids) (\<lambda>(dl, _).
        res_bind (case de of
                    Some (dt, dv) \<Rightarrow> Inr (dt, dv)
                  | None \<Rightarrow> if no_dense then Inr ([], [])
                            else res_bind (dense_candidates E F cands pids q_tr q_ev) (\<lambda>c. Inr (restrict_keys c bm_tr, restrict_keys c bm_ev))) (\<lambda>(de_tr, de_ev).
        res_bind (int_sorted (keys q_tr)) (\<lambda>qs_tr. res_bind (int_sorted (keys qrels_ev)) (\<lambda>qs_ev.
        res_bind (build_from_runs ''train_tune'' qs_tr (ltr_inputs_of bm_tr de_tr qrels_tr q_tr dl [(1, 2)]) LTR_K) (\<lambda>tr.
        res_bind (build_from_runs ''dl19+dl20'' qs_ev (ltr_inputs_of bm_ev de_ev qrels_ev q_ev dl []) LTR_K) (\<lambda>ev.
          if de = None \<and> no_dense
          then Inr (Some (drop_dense tr, drop_dense ev, filter (\<lambda>n. \<not> str_contains ''dense'' n) FEATURES))
          else Inr (Some (tr, ev, FEATURES)))))))))))))))))"

section \<open>Evaluation\<close>

definition list_of :: "ltr_set \<Rightarrow> nat \<Rightarrow> int list" where
  \<comment> \<open>the grades of one list\<close>
  "list_of t q = slice (lt_grades t) (ld_offsets (lt_data t) ! q) (ld_offsets (lt_data t) ! Suc q)"

definition ltr_evaluate :: "ltr_set \<Rightarrow> vector \<Rightarrow> real" where
  \<comment> \<open>of a set with a query; numpy's mean of none is NaN, here 0\<close>
  "ltr_evaluate ev theta =
     mean (map (\<lambda>(q, o'). ltr_ndcg10 o' (list_of ev q) (lt_ideal ev ! q) 10) (enumerate 0 (rank_lists (lt_data ev) theta)))"

definition logging_ndcg :: "ltr_set \<Rightarrow> real" where
  "logging_ndcg ev =
     mean (map (\<lambda>q. ltr_ndcg10 [0..<ld_offsets (lt_data ev) ! Suc q - ld_offsets (lt_data ev) ! q] (list_of ev q) (lt_ideal ev ! q) 10)
                [0..<n_queries (lt_data ev)])"

definition oracle_order :: "int list \<Rightarrow> nat list" where
  \<comment> \<open>\<open>np.argsort(-g, kind="stable")\<close>\<close>
  "oracle_order g = py_sorted (\<lambda>i. - (g ! i)) [0..<length g]"

definition candidate_oracle_ndcg :: "ltr_set \<Rightarrow> real" where
  "candidate_oracle_ndcg ev =
     mean (map (\<lambda>q. let g = list_of ev q in ltr_ndcg10 (oracle_order g) g (lt_ideal ev ! q) 10) [0..<n_queries (lt_data ev)])"

section \<open>The experiment\<close>

record 'g ltr_env =
  lx_rng :: "'g rng_ops"
  lx_default_rng :: "nat list \<Rightarrow> 'g"
  lx_argsort :: "real list \<Rightarrow> nat list"
  lx_isotonic :: "(real \<times> real \<times> real) list \<Rightarrow> real \<Rightarrow> real"
  lx_lstsq :: "real list list \<Rightarrow> real list \<Rightarrow> real list"
  lx_minimize :: "(vector \<Rightarrow> real \<times> vector) \<Rightarrow> vector \<Rightarrow> vector"
  lx_nan_fit :: "list_data \<Rightarrow> vector" \<comment> \<open>what \<open>fit\<close> returns for weights that are NaN\<close>
  lx_seed :: nat
  lx_eps :: real
  lx_severity :: real

definition eta_of :: "click_model \<Rightarrow> real list" where
  "eta_of m = (case m of PBM _ _ _ e \<Rightarrow> e | DBN _ _ _ _ \<Rightarrow> [])"

definition alpha_of :: "click_model \<Rightarrow> real list" where
  "alpha_of m = (case m of PBM _ a _ _ \<Rightarrow> a | DBN _ a _ _ \<Rightarrow> a)"

definition study_fit :: "'g ltr_env \<Rightarrow> list_data \<Rightarrow> real list option \<Rightarrow> vector res" where
  "study_fit X d w = (case w of None \<Rightarrow> Inr (lx_nan_fit X d) | Some v \<Rightarrow> fit (lx_minimize X) d v LAM None)"

definition ips_opt :: "nat list list \<Rightarrow> real option list \<Rightarrow> real option \<Rightarrow> real list option" where
  \<comment> \<open>one propensity that is NaN makes every weight NaN\<close>
  "ips_opt clicks eta clip = (if None \<in> set eta then None else Some (ips_weights clicks (Some (map the eta)) clip))"

definition eta_error :: "real option list \<Rightarrow> real list \<Rightarrow> real option" where
  \<comment> \<open>mean absolute error over the first ten ranks; None is NaN\<close>
  "eta_error est eta =
     (let e = take 10 est in
      if None \<in> set e then None else Some (mean (map2 (\<lambda>x y. \<bar>the x - y\<bar>) e (take 10 eta))))"

definition log_setup_of :: "'g ltr_env \<Rightarrow> ltr_set \<Rightarrow> click_model \<Rightarrow> string option \<Rightarrow> log_setup" where
  "log_setup_of X tr m iv =
     \<lparr>ls_grades = grades_log_order tr, ls_K = LTR_K, ls_offsets = ld_offsets (lt_data tr), ls_model = m, ls_intervention = iv,
      ls_eps = (if iv = None then 0 else lx_eps X), ls_rt_n = 10, ls_argsort = lx_argsort X\<rparr>"

definition base_line :: "'g ltr_env \<Rightarrow> click_model \<Rightarrow> ltr_set \<Rightarrow> ltr_set \<Rightarrow> (string \<times> real) list res" where
  \<comment> \<open>the reference values; the labels of the skyline are the click probabilities given examination\<close>
  "base_line X m tr ev =
     res_bind (study_fit X (lt_data tr) (Some (map real_of_int (lt_grades tr)))) (\<lambda>th_or.
     res_bind (res_map (\<lambda>g. if nat g < length (alpha_of m) then Inr (alpha_of m ! nat g) else Inl IndexError) (lt_grades tr)) (\<lambda>labs.
     res_bind (study_fit X (lt_data tr) (Some labs)) (\<lambda>th_sky.
       Inr [(''logging_bm25'', logging_ndcg ev), (''candidate_oracle'', candidate_oracle_ndcg ev),
            (''oracle_true_grades'', ltr_evaluate ev th_or), (''skyline_alpha_labels'', ltr_evaluate ev th_sky)])))"

definition harvest_orders :: "nat \<Rightarrow> ltr_set \<Rightarrow> int list list list" where
  \<comment> \<open>the logging order and the order by the dense feature \<open>dz\<close>, padded with -1\<close>
  "harvest_orders dz tr =
     (let d = lt_data tr; off = ld_offsets d; pad = (\<lambda>o'. map int o' @ replicate (LTR_K - length o') (- 1));
          xs = (\<lambda>q. map (\<lambda>x. x ! dz) (slice (ld_X d) (off ! q) (off ! Suc q))) in
      [map (\<lambda>q. pad [0..<off ! Suc q - off ! q]) [0..<n_queries d],
       map (\<lambda>q. pad (py_sorted (\<lambda>i. - (xs q ! i)) [0..<length (xs q)])) [0..<n_queries d]])"

definition harvest_setup :: "'g ltr_env \<Rightarrow> ltr_set \<Rightarrow> click_model \<Rightarrow> nat \<Rightarrow> multi_setup" where
  "harvest_setup X tr m dz =
     \<lparr>ms_grades = grades_log_order tr, ms_K = LTR_K, ms_orders = harvest_orders dz tr, ms_offsets = ld_offsets (lt_data tr), ms_model = m\<rparr>"

definition swap_estimate :: "'g ltr_env \<Rightarrow> logs \<Rightarrow> string \<Rightarrow> real option list res" where
  "swap_estimate X L method =
     res_bind (estimate_propensity L method) (\<lambda>est. Inr (monotone_propensity (lx_isotonic X) est (propensity_support L method) (1 / 1000)))"

definition harvest_estimate :: "'g ltr_env \<Rightarrow> ltr_set \<Rightarrow> click_model \<Rightarrow> nat \<Rightarrow> nat \<Rightarrow> 'g \<Rightarrow> real option list option" where
  "harvest_estimate X tr m dz n g =
     (let S = harvest_setup X tr m dz in
      map_option (\<lambda>((ca, ses), _). let (raw, sup) = harvest_propensity (lx_lstsq X) S ca ses (1 / 1000)
        in monotone_propensity (lx_isotonic X) raw sup (1 / 1000)) (simulate_logs_multi (lx_rng X) S n 200000 g))"

record curve_point =
  cp_thetas :: "(string, vector) dict"
  cp_ndcg :: "(string, real) dict"
  cp_eta_error :: "(string, real option) dict"
  cp_etas :: "(string, real option list) dict"

definition dense_column :: "string list \<Rightarrow> nat option" where
  \<comment> \<open>\<open>tr.feature_names.index("dense_z")\<close>\<close>
  "dense_column names = next_or (\<lambda>i. names ! i = ''dense_z'') [0..<length names]"

definition curve_weights :: "click_model \<Rightarrow> logs \<Rightarrow> logs \<Rightarrow> real option list \<Rightarrow> real option list \<Rightarrow> real option list option \<Rightarrow> (string \<times> real list option) list" where
  "curve_weights m L Lr est_sw est_rt est_h =
     [(''naive'', Some (ips_weights (lg_clicks_at L) None None)), (''ips_true'', Some (ips_weights (lg_clicks_at L) (Some (eta_of m)) None)),
      (''ips_swap_est'', ips_opt (lg_clicks_at L) est_sw None), (''ips_randtop_est'', ips_opt (lg_clicks_at Lr) est_rt None)] @
     (case est_h of None \<Rightarrow> [] | Some e \<Rightarrow> [(''ips_harvest_est'', ips_opt (lg_clicks_at L) e None)])"

definition lift_loop :: "'a option \<Rightarrow> 'a diverging" where
  "lift_loop x = map_option Inr x"

definition learning_point :: "'g ltr_env \<Rightarrow> click_model \<Rightarrow> ltr_set \<Rightarrow> string list \<Rightarrow> ltr_set \<Rightarrow> nat \<times> nat \<times> nat \<Rightarrow> curve_point diverging" where
  \<comment> \<open>seed \<open>s\<close>, index \<open>j\<close> of the log size \<open>n\<close>\<close>
  "learning_point X m tr names ev sjn =
     (let (s, j, n) = sjn; eta = eta_of m in
      div_bind (lift_loop (simulate_logs (lx_rng X) (log_setup_of X tr m (Some ''swap'')) n 200000 (lx_default_rng X [lx_seed X, s, j]))) (\<lambda>(L, g1).
      div_bind (lift_loop (simulate_logs (lx_rng X) (log_setup_of X tr m (Some ''randtop'')) n 200000 g1)) (\<lambda>(Lr, g2).
      div_bind (Some (swap_estimate X L ''swap'')) (\<lambda>est_sw. div_bind (Some (swap_estimate X Lr ''randtop'')) (\<lambda>est_rt.
      div_bind (case dense_column names of None \<Rightarrow> Some (Inr None)
                | Some dz \<Rightarrow> div_bind (lift_loop (harvest_estimate X tr m dz n g2)) (\<lambda>e. Some (Inr (Some e)))) (\<lambda>est_h.
      div_bind (Some (res_map (\<lambda>(k, w). res_bind (study_fit X (lt_data tr) w) (\<lambda>th. Inr (k, th))) (curve_weights m L Lr est_sw est_rt est_h))) (\<lambda>ths.
      let ests = [(''swap'', est_sw), (''randtop'', est_rt)] @ (case est_h of None \<Rightarrow> [] | Some e \<Rightarrow> [(''harvest'', e)]) in
      Some (Inr \<lparr>cp_thetas = ths, cp_ndcg = map (\<lambda>(k, th). (k, ltr_evaluate ev th)) ths,
        cp_eta_error = map (\<lambda>(k, e). (k, eta_error e eta)) ests, cp_etas = ests\<rparr>))))))))"

definition LOG_SIZES :: "nat list" where
  "LOG_SIZES = [1000, 3000, 10000, 30000, 100000, 300000, 1000000, 3000000]"

definition learning_curve :: "'g ltr_env \<Rightarrow> click_model \<Rightarrow> ltr_set \<Rightarrow> string list \<Rightarrow> ltr_set \<Rightarrow> nat \<Rightarrow> nat list \<Rightarrow> curve_point list list diverging" where
  "learning_curve X m tr names ev seeds ns =
     div_map (\<lambda>s. div_map (\<lambda>(j, n). learning_point X m tr names ev (s, j, n)) (enumerate 0 ns)) [0..<seeds]"

definition SEVERITIES :: "real list" where "SEVERITIES = [0, 1 / 2, 3 / 4, 1, 5 / 4, 3 / 2, 2]"

definition CLIPS :: "real option list" where "CLIPS = [Some (3 / 2), Some 2, Some 5, Some 10, None]"

definition severity_eta :: "'g ltr_env \<Rightarrow> real \<Rightarrow> real list" where
  "severity_eta X p = map (\<lambda>r. (1 / real r) powr (p * lx_severity X)) [1..<LTR_K + 1]"

definition ndcg_of_weights :: "'g ltr_env \<Rightarrow> ltr_set \<Rightarrow> ltr_set \<Rightarrow> real list \<Rightarrow> real res" where
  "ndcg_of_weights X tr ev w = res_bind (study_fit X (lt_data tr) (Some w)) (\<lambda>th. Inr (ltr_evaluate ev th))"

fun clip_rows :: "'g ltr_env \<Rightarrow> click_model \<Rightarrow> ltr_set \<Rightarrow> ltr_set \<Rightarrow> logs \<Rightarrow> nat \<Rightarrow> nat list \<Rightarrow> 'g \<Rightarrow> (nat \<times> real list) list diverging" where
  "clip_rows X m tr ev L n_fix [] g = Some (Inr [])"
| "clip_rows X m tr ev L n_fix (n # ns) g =
     div_bind (if n = n_fix then Some (Inr (L, g)) else lift_loop (simulate_logs (lx_rng X) (log_setup_of X tr m None) n 200000 g)) (\<lambda>(L', g').
     div_bind (Some (res_map (\<lambda>c. ndcg_of_weights X tr ev (ips_weights (lg_clicks_at L') (Some (eta_of m)) c)) CLIPS)) (\<lambda>vs.
     div_bind (clip_rows X m tr ev L n_fix ns g') (\<lambda>rest. Some (Inr ((n, vs) # rest)))))"

definition misestimation_row :: "'g ltr_env \<Rightarrow> click_model \<Rightarrow> ltr_set \<Rightarrow> ltr_set \<Rightarrow> nat \<Rightarrow> nat \<Rightarrow> (real list \<times> (nat \<times> real list) list) diverging" where
  \<comment> \<open>one seed: assumed severities, and clipping at two log sizes\<close>
  "misestimation_row X m tr ev n_fix s =
     div_bind (lift_loop (simulate_logs (lx_rng X) (log_setup_of X tr m None) n_fix 200000 (lx_default_rng X [lx_seed X, s, 99]))) (\<lambda>(L, g).
     div_bind (Some (res_map (\<lambda>p. ndcg_of_weights X tr ev (ips_weights (lg_clicks_at L) (Some (severity_eta X p)) None)) SEVERITIES)) (\<lambda>mis.
     div_bind (clip_rows X m tr ev L n_fix (first_seen [10000, n_fix]) g) (\<lambda>cl. Some (Inr (mis, cl)))))"

record ltr_out =
  lo_base :: "(string \<times> real) list"
  lo_curve :: "curve_point list list"
  lo_misestimation :: "(real list \<times> (nat \<times> real list) list) list"

definition ltr_study :: "'g ltr_env \<Rightarrow> string \<Rightarrow> ltr_set \<Rightarrow> ltr_set \<Rightarrow> string list \<Rightarrow> nat \<Rightarrow> nat list \<Rightarrow> nat \<Rightarrow> ltr_out diverging" where
  \<comment> \<open>the body of \<open>main\<close> on its two sets: features are standardised by the training set\<close>
  "ltr_study X profile tr0 ev0 names seeds ns n_fix =
     (let st = column_stats (lt_data tr0); tr = standardise_with st tr0; ev = standardise_with st ev0 in
      div_bind (Some (make_model ''pbm'' profile LTR_K (lx_severity X) (9 / 10))) (\<lambda>m.
      div_bind (Some (base_line X m tr ev)) (\<lambda>base.
      div_bind (learning_curve X m tr names ev seeds ns) (\<lambda>curve.
      div_bind (div_map (misestimation_row X m tr ev n_fix) [0..<seeds]) (\<lambda>mis.
        Some (Inr \<lparr>lo_base = base, lo_curve = curve, lo_misestimation = mis\<rparr>))))))"

definition known :: "real option list \<Rightarrow> real list" where
  "known xs = map the (filter (\<lambda>x. x \<noteq> None) xs)"

definition ms_summary :: "real option list list \<Rightarrow> (real option \<times> real option) list" where
  \<comment> \<open>over the rows, per column: \<open>nanmean\<close> and \<open>nanstd\<close> with one degree of freedom less; None is NaN, or no value for one row\<close>
  "ms_summary a =
     map (\<lambda>j. let v = known (map (\<lambda>row. row ! j) a); n = length v in
         (if n = 0 then None else Some (mean v),
          if length a \<le> 1 \<or> n \<le> 1 then None else Some (sqrt (sum_list (map (\<lambda>x. (x - mean v) ^ 2) v) / (real n - 1)))))
       [0..<length (hd a)]"

section \<open>Cached lengths\<close>

definition coll_length :: "string list \<Rightarrow> docid \<Rightarrow> nat" where
  \<comment> \<open>the length of a passage in the collection, 0 when it is not there\<close>
  "coll_length ls p =
     foldl (\<lambda>n l. case split1 TAB l of Some (pid, t) \<Rightarrow> if pid = p then length (split_ws t) else n | None \<Rightarrow> n) 0 ls"

definition lengths_sound :: "string \<Rightarrow> (docid, nat) dict \<Rightarrow> bool" where
  "lengths_sound coll have \<longleftrightarrow> (\<forall>p \<in> set (keys have). dget have p 0 = coll_length (text_lines coll) p)"

lemma length_fold:
  assumes "res_fold (length_line need) have ls = Inr h"
  shows "dget h p 0 = (if p \<in> need then foldl (\<lambda>n l. case split1 TAB l of Some (pid, t) \<Rightarrow> if pid = p then length (split_ws t) else n | None \<Rightarrow> n)
      (dget have p 0) ls else dget have p 0) \<and> (p \<in> set (keys h) \<longrightarrow> p \<in> need \<or> p \<in> set (keys have))"
  using assms
proof (induction ls arbitrary: "have")
  case (Cons l ls)
  obtain pid t where l: "split1 TAB l = Some (pid, t)"
    using Cons.prems by (cases "split1 TAB l") (auto simp: length_line_def)
  have keys: "fst ` set (dset h k v) = insert k (fst ` set h)" for h :: "(docid, nat) dict" and k v
  proof (rule set_eqI)
    show "k' \<in> fst ` set (dset h k v) \<longleftrightarrow> k' \<in> insert k (fst ` set h)" for k'
      using dhas_dset [of h k v k'] unfolding dhas_iff set_map by blast
  qed
  have "res_fold (length_line need) (if pid \<in> need then dset have pid (length (split_ws t)) else have) ls = Inr h"
    using Cons.prems by (simp only: res_fold.simps length_line_def [of need "have" l] l option.case prod.case res_bind.simps)
  from Cons.IH [OF this] show ?case by (auto simp: l keys split: if_splits)
qed simp

text \<open>Lengths come from the collection, whatever a sound cache already holds, and the cache stays sound.\<close>

lemma doc_lengths_exact:
  assumes "doc_lengths coll cache pids = Inr (lens, cache')" and sound: "\<And>c. cache = Some c \<Longrightarrow> lengths_sound coll c"
  shows "lens = map (\<lambda>p. (p, coll_length (text_lines coll) p)) pids \<and> (\<forall>c. cache' = Some c \<longrightarrow> lengths_sound coll c)"
proof -
  define hv where "hv = (case cache of None \<Rightarrow> [] | Some c \<Rightarrow> c)"
  define need where "need = filter (\<lambda>p. \<not> dhas hv p) pids"
  have hv: "lengths_sound coll hv" using sound by (cases cache) (simp_all add: hv_def lengths_sound_def)
  show ?thesis
  proof (cases "need = []")
    case True
    then have "\<forall>p \<in> set pids. p \<in> set (keys hv)" by (auto simp: need_def filter_empty_conv dhas_iff)
    moreover have "lens = map (\<lambda>p. (p, dget hv p 0)) pids" "cache' = cache"
      using assms(1) True by (simp_all add: doc_lengths_def Let_def flip: hv_def need_def)
    ultimately show ?thesis using hv sound by (auto simp: lengths_sound_def)
  next
    case False
    then obtain h where h: "res_fold (length_line (set need)) hv (text_lines coll) = Inr h"
      and out: "lens = map (\<lambda>p. (p, dget h p 0)) pids" "cache' = Some h"
      using assms(1) by (auto simp: doc_lengths_def Let_def simp flip: hv_def need_def)
    have get: "dget h p 0 = coll_length (text_lines coll) p" if p: "p \<in> set need \<or> p \<in> set (keys hv)" for p
    proof (cases "p \<in> set need")
      case True
      then have "dget hv p 0 = 0" by (simp add: need_def dhas_iff dget_absent)
      then show ?thesis using length_fold [OF h, of p] True by (simp add: coll_length_def)
    next
      case False
      then show ?thesis using length_fold [OF h, of p] p hv by (auto simp: lengths_sound_def)
    qed
    have "p \<in> set need \<or> p \<in> set (keys hv)" if "p \<in> set pids" for p using that by (auto simp: need_def dhas_iff)
    then show ?thesis using get length_fold [OF h] unfolding out lengths_sound_def by auto
  qed
qed

section \<open>The oracle is an upper bound\<close>

lemma desc_split:
  fixes D :: "real list"
  assumes "sorted (rev D)" and "\<And>x. x \<in> set D \<Longrightarrow> 0 \<le> x"
  shows "D = filter (\<lambda>x. 0 < x) D @ filter (\<lambda>x. \<not> 0 < x) D"
  using assms
proof (induction D)
  case (Cons x D)
  have IH: "D = filter (\<lambda>x. 0 < x) D @ filter (\<lambda>x. \<not> 0 < x) D"
    using Cons.prems by (intro Cons.IH) (auto simp: sorted_append)
  show ?case
  proof (cases "0 < x")
    case False
    then have "\<not> 0 < y" if "y \<in> set D" for y using Cons.prems(1) that by (force simp: sorted_append)
    then have "filter (\<lambda>x. 0 < x) D = []" "filter (\<lambda>x. \<not> 0 < x) D = D" by (auto simp: filter_empty_conv filter_id_conv)
    then show ?thesis using False by simp
  qed (use IH in simp)
qed simp

lemma discounted_take_desc:
  assumes "sorted (rev D)" and "\<And>x. x \<in> set D \<Longrightarrow> (0 :: real) \<le> x"
  shows "discounted 0 (take k D) = discounted 0 (take k (filter (\<lambda>x. 0 < x) D))"
proof -
  let ?P = "filter (\<lambda>x. 0 < x) D" and ?Z = "filter (\<lambda>x. \<not> 0 < x) D"
  have "take k D = take k ?P @ take (k - length ?P) ?Z" by (metis desc_split [OF assms] take_append)
  moreover have "discounted i (take n ?Z) = 0" for i n
  proof (rule discounted_zero)
    fix x
    assume "x \<in> set (take n ?Z)"
    then have "x \<in> set D" "\<not> 0 < x" by (auto dest: in_set_takeD)
    then show "x = 0" using assms(2) by fastforce
  qed
  ultimately show ?thesis by (simp add: discounted_append)
qed

abbreviation gains :: "int list \<Rightarrow> nat list \<Rightarrow> real list" where
  "gains g order \<equiv> map (\<lambda>i. real_of_int (g ! i)) order"

lemma oracle_order_mset: "mset (oracle_order g) = mset [0..<length g]"
  unfolding oracle_order_def by (rule sorted_asc.rank_mset)

lemma gains_oracle: "mset (gains g (oracle_order g)) = mset (map real_of_int g)"
proof -
  have "mset (gains g (oracle_order g)) = mset (gains g [0..<length g])" by (simp only: mset_map oracle_order_mset)
  also have "gains g [0..<length g] = map real_of_int g" by (rule nth_equalityI) simp_all
  finally show ?thesis .
qed

lemma gains_le_oracle:
  assumes nonneg: "\<And>x. x \<in> set g \<Longrightarrow> 0 \<le> x" and order: "distinct order" "set order \<subseteq> {..<length g}"
  shows "discounted 0 (gains g (take k order)) \<le> discounted 0 (gains g (take k (oracle_order g)))"
proof -
  let ?D = "gains g (oracle_order g)" and ?P = "filter (\<lambda>x. 0 < x) (gains g (oracle_order g))"
  have so: "set (oracle_order g) = {..<length g}"
    using mset_eq_setD [OF oracle_order_mset, of g] by (simp add: atLeast0LessThan)
  have "sorted (map (\<lambda>i. - (g ! i)) (oracle_order g))"
    unfolding oracle_order_def by (rule sorted_asc.rank_sorted)
  then have "sorted (map (\<lambda>x. - x) ?D)"
    by (simp add: comp_def) (simp add: sorted_map flip: of_int_minus)
  then have desc: "sorted (rev ?D)"
    by (simp add: sorted_map sorted_wrt_rev sorted_wrt_map)
  have nn: "0 \<le> x" if "x \<in> set (gains g o')" "set o' \<subseteq> {..<length g}" for x o'
    using that nonneg by force
  have "mset order \<subseteq># mset [0..<length g]"
    using order by (metis mset_set_set mset_upt finite_lessThan lessThan_atLeast0 subset_imp_msubset_mset_set)
  then have "mset (take k order) \<subseteq># mset (oracle_order g)"
    unfolding oracle_order_mset by (metis append_take_drop_id mset_append mset_subset_eq_add_left subset_mset.order_trans)
  then have sub: "mset (filter (\<lambda>x. 0 < x) (gains g (take k order))) \<subseteq># mset ?P"
    by (simp only: mset_filter mset_map image_mset_subseteq_mono multiset_filter_mono)
  have t: "set (take k order) \<subseteq> {..<length g}" using order(2) by (meson order.trans set_take_subset)
  have "sorted (rev ?P)" using desc by (simp add: rev_filter sorted_wrt_filter)
  then have "discounted 0 (gains g (take k order)) \<le> discounted 0 (take k ?P)"
    using nn [OF _ t] sub by (intro discounted_rearrange) auto
  also have "\<dots> = discounted 0 (take k ?D)"
    using nn [of _ "oracle_order g"] so by (intro discounted_take_desc [symmetric] desc) auto
  finally show ?thesis by (simp add: take_map)
qed

lemma ltr_ndcg_discounted:
  "ltr_ndcg10 order g ideal k =
     (let idcg = discounted 0 (take k (rev (sort (map real_of_int (filter (\<lambda>x. x > 0) ideal)))))
      in if idcg > 0 then discounted 0 (gains g (take k order)) / idcg else 0)"
proof -
  let ?Y = "take k (rev (sort (map real_of_int (filter (\<lambda>x. x > 0) ideal))))" and ?G = "gains g (take k order)"
  have "sum_list (map2 (*) ?Y (take (length ?Y) (discounts k))) = discounted 0 ?Y"
      "sum_list (map2 (*) ?G (take (length ?G) (discounts k))) = discounted 0 ?G"
    by (rule weighted_discounts, simp)+
  then show ?thesis unfolding ltr_ndcg10_def Let_def inner_def by presburger
qed

lemma ltr_ndcg_mono:
  "discounted 0 (gains g (take k order)) \<le> discounted 0 (gains g (take k order')) \<Longrightarrow> ltr_ndcg10 order g ideal k \<le> ltr_ndcg10 order' g ideal k"
  by (simp add: ltr_ndcg_discounted Let_def divide_right_mono)

lemma ltr_ndcg_le_1:
  assumes "\<And>x. x \<in> set g \<Longrightarrow> 0 \<le> x" and "set order \<subseteq> {..<length g}"
    and sub: "mset (filter (\<lambda>x. 0 < x) (gains g order)) \<subseteq># mset (map real_of_int (filter (\<lambda>x. x > 0) ideal))"
  shows "ltr_ndcg10 order g ideal k \<le> 1"
proof -
  let ?Y = "rev (sort (map real_of_int (filter (\<lambda>x. x > 0) ideal)))"
  have "mset (take k order) \<subseteq># mset order" by (metis append_take_drop_id mset_append mset_subset_eq_add_left)
  then have "mset (filter (\<lambda>x. 0 < x) (gains g (take k order))) \<subseteq># mset (filter (\<lambda>x. 0 < x) (gains g order))"
    by (simp only: mset_filter mset_map image_mset_subseteq_mono multiset_filter_mono)
  then have m: "mset (filter (\<lambda>x. 0 < x) (gains g (take k order))) \<subseteq># mset ?Y"
    using sub by (simp add: subset_mset.order_trans)
  have "0 \<le> x" if "x \<in> set (gains g (take k order))" for x
    using that assms(1,2) by (force dest: in_set_takeD)
  then have "discounted 0 (gains g (take k order)) \<le> discounted 0 (take k ?Y)"
    using m by (intro discounted_rearrange) auto
  then show ?thesis by (simp add: ltr_ndcg_discounted Let_def divide_le_eq_1)
qed

text \<open>The lists of a set built from runs are the blocks of its queries.\<close>

lemma slice_concat:
  assumes "q < length bs"
  shows "slice (concat (map f bs)) (sum_list (map (length \<circ> f) (take q bs))) (sum_list (map (length \<circ> f) (take (Suc q) bs))) = f (bs ! q)"
proof -
  have c: "concat (map f bs) = concat (map f (take q bs)) @ f (bs ! q) @ concat (map f (drop (Suc q) bs))"
    by (subst id_take_nth_drop [OF assms]) simp
  have l: "length (concat (map f (take q bs))) = sum_list (map (length \<circ> f) (take q bs))"
    by (simp add: length_concat comp_def)
  have "sum_list (map (length \<circ> f) (take (Suc q) bs)) - sum_list (map (length \<circ> f) (take q bs)) = length (f (bs ! q))"
    using assms by (simp add: take_Suc_conv_app_nth)
  then show ?thesis by (simp add: slice_def c l)
qed

lemma block_lengths: "query_block I K q = Inr b \<Longrightarrow> length (fst (snd b)) = length (fst b)"
  by (auto simp: query_block_def Let_def)

lemma build_blocks:
  assumes "build_from_runs name qids I K = Inr t"
  obtains bs where "\<And>b. b \<in> set bs \<Longrightarrow> \<exists>q. dhas (li_logging I) q \<and> dhas (li_qrels I) q \<and> query_block I K q = Inr b"
    and "n_queries (lt_data t) = length bs"
    and "\<And>q. q < length bs \<Longrightarrow> list_of t q = fst (snd (bs ! q)) \<and> lt_ideal t ! q = snd (snd (bs ! q)) \<and>
      slice (ld_X (lt_data t)) (ld_offsets (lt_data t) ! q) (ld_offsets (lt_data t) ! Suc q) = fst (bs ! q) \<and>
      ld_offsets (lt_data t) ! Suc q - ld_offsets (lt_data t) ! q = length (fst (bs ! q))"
proof -
  let ?kept = "filter (\<lambda>q. dhas (li_logging I) q \<and> dhas (li_qrels I) q) qids"
  obtain bs where bs: "res_map (query_block I K) ?kept = Inr bs"
    and t: "t = \<lparr>lt_name = name, lt_qids = ?kept,
             lt_data = \<lparr>ld_X = concat (map fst bs), ld_F = length FEATURES,
                        ld_offsets = map (\<lambda>i. sum_list (map (length \<circ> fst) (take i bs))) [0..<Suc (length bs)]\<rparr>,
             lt_grades = concat (map (fst \<circ> snd) bs), lt_ideal = map (snd \<circ> snd) bs, lt_K = K\<rparr>"
    using assms by (auto simp: build_from_runs_def Let_def)
  have same: "length (fst b) = length (fst (snd b))" if m: "b \<in> set bs" for b
    using res_map_Inr_set [OF bs m] block_lengths by metis
  then have eq: "map (length \<circ> fst) (take i bs) = map (length \<circ> (fst \<circ> snd)) (take i bs)" for i
    by (auto dest: in_set_takeD)
  show ?thesis
  proof (rule that)
    show "\<exists>q. dhas (li_logging I) q \<and> dhas (li_qrels I) q \<and> query_block I K q = Inr b" if m: "b \<in> set bs" for b
      using res_map_Inr_set [OF bs m] by auto
    show "n_queries (lt_data t) = length bs" by (simp add: n_queries_def t)
    fix q
    assume q: "q < length bs"
    have off: "ld_offsets (lt_data t) ! q = sum_list (map (length \<circ> fst) (take q bs))"
      "ld_offsets (lt_data t) ! Suc q = sum_list (map (length \<circ> fst) (take (Suc q) bs))"
      using q by (simp_all add: t del: upt_Suc)
    have "list_of t q = fst (snd (bs ! q))"
      using slice_concat [OF q, of "fst \<circ> snd"] unfolding list_of_def off eq by (simp add: t)
    moreover have "slice (ld_X (lt_data t)) (ld_offsets (lt_data t) ! q) (ld_offsets (lt_data t) ! Suc q) = fst (bs ! q)"
      using slice_concat [OF q, of fst] unfolding off by (simp add: t)
    moreover have "ld_offsets (lt_data t) ! Suc q - ld_offsets (lt_data t) ! q = length (fst (bs ! q))"
      unfolding off using q by (simp add: take_Suc_conv_app_nth)
    ultimately show "list_of t q = fst (snd (bs ! q)) \<and> lt_ideal t ! q = snd (snd (bs ! q)) \<and>
      slice (ld_X (lt_data t)) (ld_offsets (lt_data t) ! q) (ld_offsets (lt_data t) ! Suc q) = fst (bs ! q) \<and>
      ld_offsets (lt_data t) ! Suc q - ld_offsets (lt_data t) ! q = length (fst (bs ! q))"
      using q by (simp add: t)
  qed
qed

definition labels_ok :: "ltr_inputs \<Rightarrow> bool" where
  \<comment> \<open>labels are not negative, an unjudged document counts as 0, and no document is listed twice\<close>
  "labels_ok I \<longleftrightarrow>
     dget (li_labels I) 0 0 = 0 \<and>
     (\<forall>(q, judged) \<in> set (li_qrels I). dict_ok judged \<and> (\<forall>(d, g) \<in> set judged. 0 \<le> dget (li_labels I) g g)) \<and>
     (\<forall>(q, r) \<in> set (li_logging I). dict_ok r)"

lemma block_gains:
  assumes ok: "labels_ok I" and b: "query_block I K q = Inr b" and q: "dhas (li_logging I) q" "dhas (li_qrels I) q"
  shows "(\<forall>x \<in> set (fst (snd b)). 0 \<le> x) \<and>
     mset (filter (\<lambda>x. 0 < x) (fst (snd b))) \<subseteq># mset (filter (\<lambda>x. 0 < x) (snd (snd b)))"
proof -
  define judged where "judged = dget (li_qrels I) q []"
  define f where "f = (\<lambda>d. dget (li_labels I) (dget judged d 0) (dget judged d 0))"
  obtain cands0 where c0: "ranked (dget (li_logging I) q []) = Inr cands0"
    and g: "fst (snd b) = map f (take K cands0)"
    and ideal: "snd (snd b) = map (\<lambda>g. dget (li_labels I) g g) (map snd judged)"
    using b by (auto simp: query_block_def Let_def f_def judged_def)
  have "(q, dget (li_logging I) q []) \<in> set (li_logging I)" "(q, judged) \<in> set (li_qrels I)"
    using q unfolding judged_def dhas_iff by (simp_all add: dget_in)
  then have d: "dict_ok (dget (li_logging I) q [])" "dict_ok judged" "\<forall>(d, g) \<in> set judged. 0 \<le> dget (li_labels I) g g"
    using ok by (auto simp: labels_ok_def)
  have absent: "f d = 0" if "d \<notin> set (keys judged)" for d
    using ok that by (simp add: f_def labels_ok_def dget_absent)
  have present: "f d = dget (li_labels I) g g" if "(d, g) \<in> set judged" for d g
    using d(2) that by (simp add: f_def dget_present)
  have nn: "0 \<le> f x" for x
  proof (cases "x \<in> set (keys judged)")
    case True
    then show ?thesis using d(3) present by fastforce
  qed (simp add: absent)
  have ideal': "snd (snd b) = map f (keys judged)"
    unfolding ideal using present by (auto simp: comp_def)
  have "distinct (take K cands0)" using ranked_order [OF c0 d(1)] by (simp add: distinct_take)
  then have sub: "mset (filter (\<lambda>d. d \<in> set (keys judged)) (take K cands0)) \<subseteq># mset (keys judged)"
    using d(2) by (metis (no_types, lifting) distinct_filter finite_set mset_set_set set_filter Collect_conj_eq Int_lower1 mem_Collect_eq
        subset_imp_msubset_mset_set subsetI)
  have pos: "d \<in> set (keys judged)" if "0 < f d" for d using absent [of d] that by (cases "d \<in> set (keys judged)") simp_all
  have "filter (\<lambda>x. 0 < x) (map f (take K cands0)) = filter (\<lambda>x. 0 < x) (map f (filter (\<lambda>d. d \<in> set (keys judged)) (take K cands0)))"
    using pos by (simp add: filter_map comp_def) (rule arg_cong [of _ _ "map f"], rule filter_cong, simp_all, blast)
  then have "mset (filter (\<lambda>x. 0 < x) (fst (snd b))) \<subseteq># mset (filter (\<lambda>x. 0 < x) (snd (snd b)))"
    unfolding g ideal' using sub by (simp only: mset_filter mset_map image_mset_subseteq_mono multiset_filter_mono)
  then show ?thesis using nn by (simp add: g)
qed

lemma mean_mono: "length xs = length ys \<Longrightarrow> (\<And>i. i < length xs \<Longrightarrow> xs ! i \<le> ys ! i) \<Longrightarrow> mean xs \<le> mean ys"
  unfolding mean_def by (simp add: divide_right_mono sum_list_mono2)

lemma mean_le_1: "(\<And>x. x \<in> set xs \<Longrightarrow> x \<le> 1) \<Longrightarrow> mean xs \<le> 1"
  using mean_mono [of xs "replicate (length xs) 1"] by (cases "xs = []") (simp_all add: mean_def sum_list_replicate)

lemma ranked_list:
  assumes "q < n_queries d"
  shows "mset (rank_lists d theta ! q) = mset [0..<length (slice (scores (ld_X d) theta) (ld_offsets d ! q) (ld_offsets d ! Suc q))]"
  using assms by (simp add: rank_lists_def Let_def sorted_asc.rank_mset)

lemma slice_map: "slice (map f xs) a b = map f (slice xs a b)"
  by (simp add: slice_def drop_map take_map)

text \<open>C32: no ranker of the study beats the candidate oracle: on an evaluation set built from runs, for every
  parameter vector and whatever statistics standardise it, the linear ranker's mean nDCG@10 and that of
  the logging ranker are at most the oracle's, and the oracle's is at most 1.\<close>

theorem oracle_is_upper_bound:
  assumes t: "build_from_runs name qids I K = Inr ev" and ok: "labels_ok I"
  shows "ltr_evaluate (standardise_with st ev) theta \<le> candidate_oracle_ndcg ev \<and>
     logging_ndcg ev \<le> candidate_oracle_ndcg ev \<and> candidate_oracle_ndcg ev \<le> 1"
proof -
  obtain bs where src: "\<And>b. b \<in> set bs \<Longrightarrow> \<exists>q. dhas (li_logging I) q \<and> dhas (li_qrels I) q \<and> query_block I K q = Inr b"
    and n: "n_queries (lt_data ev) = length bs"
    and block: "\<And>q. q < length bs \<Longrightarrow> list_of ev q = fst (snd (bs ! q)) \<and> lt_ideal ev ! q = snd (snd (bs ! q)) \<and>
      slice (ld_X (lt_data ev)) (ld_offsets (lt_data ev) ! q) (ld_offsets (lt_data ev) ! Suc q) = fst (bs ! q) \<and>
      ld_offsets (lt_data ev) ! Suc q - ld_offsets (lt_data ev) ! q = length (fst (bs ! q))"
    using build_blocks [OF t] by blast
  let ?d = "lt_data (standardise_with st ev)" and ?off = "ld_offsets (lt_data ev)"
  have std: "ld_offsets ?d = ?off" "n_queries ?d = length bs" "list_of (standardise_with st ev) = list_of ev" "lt_ideal (standardise_with st ev) = lt_ideal ev"
    by (simp_all add: standardise_with_def n_queries_def list_of_def fun_eq_iff flip: n)
  have one: "distinct o' \<Longrightarrow> set o' \<subseteq> {..<length (list_of ev q)} \<Longrightarrow>
      ltr_ndcg10 o' (list_of ev q) (lt_ideal ev ! q) 10 \<le> ltr_ndcg10 (oracle_order (list_of ev q)) (list_of ev q) (lt_ideal ev ! q) 10"
    and le1: "ltr_ndcg10 (oracle_order (list_of ev q)) (list_of ev q) (lt_ideal ev ! q) 10 \<le> 1"
    and len: "length (list_of ev q) = length (fst (bs ! q))" if q: "q < length bs" for q o'
  proof -
    obtain q' where q': "dhas (li_logging I) q'" "dhas (li_qrels I) q'" "query_block I K q' = Inr (bs ! q)"
      using src [OF nth_mem [OF q]] by blast
    note g = block_gains [OF ok q'(3,1,2)]
    have nn: "0 \<le> x" if "x \<in> set (list_of ev q)" for x using g that block [OF q] by simp
    show "length (list_of ev q) = length (fst (bs ! q))"
      using block_lengths [OF q'(3)] block [OF q] by simp
    show "distinct o' \<Longrightarrow> set o' \<subseteq> {..<length (list_of ev q)} \<Longrightarrow>
      ltr_ndcg10 o' (list_of ev q) (lt_ideal ev ! q) 10 \<le> ltr_ndcg10 (oracle_order (list_of ev q)) (list_of ev q) (lt_ideal ev ! q) 10"
      by (rule ltr_ndcg_mono, rule gains_le_oracle [OF nn])
    have "mset (filter (\<lambda>x. 0 < x) (gains (list_of ev q) (oracle_order (list_of ev q)))) = mset (filter (\<lambda>x. 0 < x) (map real_of_int (list_of ev q)))"
      by (simp only: mset_filter gains_oracle)
    also have "\<dots> = mset (map real_of_int (filter (\<lambda>x. 0 < x) (list_of ev q)))" by (simp add: filter_map comp_def)
    also have "\<dots> \<subseteq># mset (map real_of_int (filter (\<lambda>x. 0 < x) (lt_ideal ev ! q)))"
      using g block [OF q] unfolding mset_map by (simp add: image_mset_subseteq_mono)
    finally show "ltr_ndcg10 (oracle_order (list_of ev q)) (list_of ev q) (lt_ideal ev ! q) 10 \<le> 1"
      using nn mset_eq_setD [OF oracle_order_mset, of "list_of ev q"] by (intro ltr_ndcg_le_1) auto
  qed
  have ranked: "mset (rank_lists ?d theta ! q) = mset [0..<length (list_of ev q)]" if "q < length bs" for q
  proof -
    have "length (slice (scores (ld_X ?d) theta) (?off ! q) (?off ! Suc q)) = length (list_of ev q)"
      using block [OF that] len [OF that] by (simp add: scores_def standardise_with_def slice_map)
    then show ?thesis using ranked_list [of q ?d theta] that by (simp add: std)
  qed
  have lens: "length (rank_lists ?d theta) = length bs" by (simp add: rank_lists_def Let_def std)
  have o1: "distinct (rank_lists ?d theta ! q)" "set (rank_lists ?d theta ! q) \<subseteq> {..<length (list_of ev q)}" if "q < length bs" for q
    using mset_eq_imp_distinct_iff [OF ranked [OF that]] mset_eq_setD [OF ranked [OF that]] by auto
  have "ltr_evaluate (standardise_with st ev) theta \<le> candidate_oracle_ndcg ev"
    unfolding ltr_evaluate_def candidate_oracle_ndcg_def Let_def std
    by (rule mean_mono) (use lens one o1 n in \<open>simp_all add: nth_enumerate_eq\<close>)
  moreover have "logging_ndcg ev \<le> candidate_oracle_ndcg ev"
    unfolding logging_ndcg_def candidate_oracle_ndcg_def Let_def
    by (rule mean_mono) (use one n block len in \<open>simp_all add: lessThan_atLeast0\<close>)
  moreover have "candidate_oracle_ndcg ev \<le> 1"
    unfolding candidate_oracle_ndcg_def Let_def by (rule mean_le_1) (use le1 n in auto)
  ultimately show ?thesis by blast
qed

definition demo_inputs :: ltr_inputs where
  "demo_inputs =
     \<lparr>li_logging = [(''1'', [(''10'', 2), (''11'', 1)])], li_bm25 = [(''1'', [(''10'', 2), (''11'', 1)])], li_dense = [(''1'', [(''11'', 1), (''10'', 2)])],
      li_qrels = [(''1'', [(''11'', 3)])], li_queries = [(''1'', ''x y'')], li_doclen = [], li_labels = []\<rparr>"

theorem oracle_is_upper_bound_witness:
  "\<exists>ev. build_from_runs ''eval'' [''1''] demo_inputs LTR_K = Inr ev \<and>
     ltr_evaluate (standardise_with (column_stats (lt_data ev)) ev) [1, 1, 0, 0, 0, 0, 0] \<le> candidate_oracle_ndcg ev"
proof -
  have r: "ranked [(''10'', 2), (''11'', 1)] = Inr [''10'', ''11'']" "ranked [(''11'', 1), (''10'', 2)] = Inr [''10'', ''11'']"
    by code_simp+
  obtain B where B: "run_zscores [(''10'', 2), (''11'', 1)] = Inr B" by (simp add: run_zscores_def r Let_def)
  obtain D where D: "run_zscores [(''11'', 1), (''10'', 2)] = Inr D" by (simp add: run_zscores_def r Let_def)
  obtain b where "query_block demo_inputs LTR_K ''1'' = Inr b" by (simp add: query_block_def demo_inputs_def r B D Let_def)
  moreover have "filter (\<lambda>q. dhas (li_logging demo_inputs) q \<and> dhas (li_qrels demo_inputs) q) [''1''] = [''1'']"
    by (simp add: demo_inputs_def dhas_def)
  ultimately obtain ev where ev: "build_from_runs ''eval'' [''1''] demo_inputs LTR_K = Inr ev"
    by (simp only: build_from_runs_def Let_def res_map.simps res_bind.simps)
  have "labels_ok demo_inputs" by (simp add: labels_ok_def demo_inputs_def)
  from oracle_is_upper_bound [OF ev this] ev show ?thesis by blast
qed

end
