(* ===== verification/Spec2Isabelle.thy ===== *)
theory Spec2Isabelle
  imports Test_Corpus Positives Vector_Tables Result_Files Event_Log Golden Unicode_Tables Vector_Stream Make_Runs Rerank_Report Fusion_Study Mine Mps_Lock Train Log_Sim Data_Prep Parity_Chaos Ground_Truth Beir Sensitivity_Study Ltr_Study
begin

text \<open>
  HybridSearch is a hybrid (lexical and dense) retrieval system.  The engine is C++; this development
  verifies the Python side, \<open>src/py/hybridsearch/\<close> and \<open>src/scripts/\<close>: data preparation, encoding,
  training and reranking, rank fusion, evaluation, online-experiment simulation and benchmarks.  Every
  theorem is about definitions translated from that code; the properties are the theorems whose text
  starts with a claim id.

  \<^bold>\<open>Parts and how they interact.\<close>  Everything is connected by files: judgments, queries and runs in TREC
  format, ids and vectors in binary files.  Runs come from the engine, from dense search and from the
  reranker; fusion reads two runs and writes one; evaluation reads a run and judgments and yields metrics
  per query; the significance tests compare two systems by these values.  The click simulations interleave
  two runs, simulate users and credit the rankers; the event log carries the same experiments through the
  serving layer, and its report must agree with the simulation.  The training side mines hard negatives
  from a run and from exact dense search, samples groups, trains a cross-encoder with checkpoints and reranks.
  The learning-to-rank side simulates click logs, estimates the position bias and fits a listwise ranker.

  \<^bold>\<open>Foundations.\<close>
  \<^item> \<open>Prelude\<close>: exceptions as values (\<open>res\<close>), computations that may not return (\<open>diverging\<close>), dictionaries
    in insertion order as association lists, stable sorts and the interfaces \<open>ranking\<close> and
    \<open>ranking_desc\<close>, which the two sorts interpret.
  \<^item> \<open>Py_Text\<close>, \<open>Py_Float\<close>: \<open>str\<close>, \<open>int\<close>, \<open>split\<close>, lines of a file; decimal rounding, formatting and
    reading of floats.
  \<^item> \<open>Json\<close>: JSON values, \<open>json.dumps\<close> and \<open>json.loads\<close> as a parser over mutually recursive
    functions; reading what was written gives the value back.
  \<^item> \<open>Effects\<close>: computations that change a state and may raise, over the library's state monad, and what
    their successful runs return.

  \<^bold>\<open>Data and evaluation.\<close>
  \<^item> \<open>Data_IO\<close> (\<open>data/io.py\<close>): the binary and text formats; the round trips and the refusal of truncated files.
  \<^item> \<open>Data_Prep\<close> (\<open>data/subset.py\<close>, \<open>data/prepare.py\<close>): the passage subset, its training samples, checks of downloads.
  \<^item> \<open>Beir\<close> (\<open>dense/beir.py\<close>, \<open>scripts/m4_beir_bm25.py\<close>): the BEIR datasets and runs over integer ids.
  \<^item> \<open>Vector_Stream\<close> (\<open>bench/parquet_stream.py\<close>), \<open>Unicode_Tables\<close> (\<open>lexical/gen_unicode_tables.py\<close>): the vector archive
    and the character tables of the engine's tokenizer; \<open>Test_Corpus\<close> (\<open>lexical/gen_test_corpus.py\<close>): its random test
    corpus, whose files the project's readers accept whatever is drawn.
  \<^item> \<open>Eval_Metrics\<close> (\<open>eval/metrics.py\<close>): the ranking order of trec_eval, MRR, nDCG, recall and their bounds.
  \<^item> \<open>Significance\<close> (\<open>stats/significance.py\<close>): randomization test, bootstrap interval, Holm's procedure.
  \<^item> \<open>Parity_Chaos\<close> (\<open>lexical/parity.py\<close>, \<open>lexical/score_agreement.py\<close>, \<open>serving/chaos.py\<close>),
    \<open>Ground_Truth\<close> (\<open>bench/io.py\<close>, \<open>gt_from_pids.py\<close>, \<open>gt_to_trec.py\<close>, \<open>mrr_points.py\<close>,
    \<open>matched_recall.py\<close>, \<open>bench/load/summarize.py\<close>): the comparisons of runs, ground truth and load tests;
    \<open>Ann_Compare\<close> (\<open>bench/ann_compare.py\<close>): the two index libraries on the same vectors, as computations of a state monad;
    \<open>Vector_Tables\<close> (\<open>bench/strip_timing.py\<close>, \<open>bench/plot_vector.py\<close>): tables of rows (interface \<open>json_lines\<close>) and their plots.
  \<^item> \<open>Result_Files\<close> (\<open>eval/__main__.py\<close>, \<open>eval/results.py\<close>, \<open>rerank/meta.py\<close>, \<open>bench/meta.py\<close>, results of \<open>serving/chaos.py\<close>,
    \<open>scripts/chaos_table.py\<close>): reports, sidecars and the table read from them; printed decimals read back.

  \<^bold>\<open>Rank fusion.\<close>
  \<^item> \<open>Fusion_Core\<close> (\<open>fusion/core.py\<close>), \<open>Fusion_Fast\<close> (\<open>fusion/fast.py\<close>), \<open>Fusion_Runs\<close> (\<open>fusion/runs.py\<close>):
    the reference fusion, its vectorised form proved equal to it, and run files that keep the fused order.
  \<^item> \<open>Fusion_Study\<close> (\<open>scripts/m4_fusion.py\<close>, \<open>eval/reference.py\<close>): tuning on the training queries, held-out
    evaluation, families of tests; the tuned parameters and the cross-check rest on the equivalences.

  \<^bold>\<open>Clicks and experiments.\<close>
  \<^item> \<open>Interleave\<close>, \<open>Interleave_Credit\<close> (\<open>clicks/interleave.py\<close>): the interleavings (interface
    \<open>interleaver\<close>, interpreted by team draft and by balanced interleaving), credit, pools.
  \<^item> \<open>Click_Models\<close> (\<open>clicks/models.py\<close>, \<open>clicks/ab.py\<close>), \<open>Rankers\<close> (\<open>clicks/rankers.py\<close>),
    \<open>Sensitivity\<close> (\<open>clicks/sensitivity.py\<close>): users, impressions, tests, tabulated outcome distributions.
  \<^item> \<open>Sensitivity_Study\<close> (\<open>scripts/m9_sensitivity.py\<close>): the study over pairs of rankers and click models with its
    cache on disk; a cached computation refines the plain one, so the cache is transparent.
  \<^item> \<open>Events\<close> (\<open>clicks/events.py\<close>), \<open>Analyze_Events\<close> (\<open>clicks/simulate.py\<close>, \<open>clicks/analyze_events.py\<close>):
    the events of a page, their reader and their report; the report refines the credit of \<open>Interleave\<close>.
  \<^item> \<open>Event_Log\<close> (the file side of both, and \<open>scripts/m9_simulate_events.py\<close>): timestamps, the JSON Lines
    file, the documented type of every event as an inductive relation (which the simulator's mark breaks), the
    report in Markdown.
  \<^item> \<open>Golden\<close> (\<open>scripts/m9_make_golden.py\<close>): the hand-derived interleaving cases, evaluated;
    \<open>Make_Runs\<close> (\<open>scripts/m9_make_runs.py\<close>): two more rankers.

  \<^bold>\<open>Dense retrieval and reranking.\<close>
  \<^item> \<open>Dense_Search\<close> (\<open>exact_topk\<close> in \<open>rerank/mine.py\<close> and \<open>dense/flat.py\<close>): blocked search is exact
    (interface \<open>keeper\<close> of the running top-k).
  \<^item> \<open>Encode\<close> (\<open>dense/encode.py\<close>): batching, and resumable encoding with its chunk log and closing statistics: the
    vectors are published after any crashes, the statistics can be lost to one; \<open>Mps_Lock\<close>: the mutex of the
    GPU as one machine whose executions are lists of steps of any number of processes.
  \<^item> \<open>Model_Parity\<close> (\<open>rerank/model.py\<close>, \<open>rerank/export.py\<close>, \<open>dense/export_query_encoder.py\<close>, \<open>dense/parity.py\<close>):
    the checks around exported networks and stored vectors, and what a passed check implies for ranking.
  \<^item> \<open>Rerank_Report\<close> (result files of \<open>rerank/rerank_run.py\<close>, \<open>rerank/bench.py\<close>, \<open>rerank/cascade.py\<close>,
    \<open>rerank/report.py\<close>): values followed through JSON files; the cascade and the reranked run agree, as far as
    the 32-bit floats of the score cache tell the first-stage scores apart.
  \<^item> \<open>Positives\<close> (\<open>rerank/mine.py\<close>): the encoded positives, a cache on disk that stays correct unless a call is
    interrupted between its two writes, and the exact dense runs.
  \<^item> \<open>Mine\<close> (\<open>rerank/mine.py\<close>), \<open>Sampler\<close> (\<open>rerank/sampler.py\<close>), \<open>Train\<close> (\<open>rerank/train.py\<close>),
    \<open>Rerank\<close> (\<open>rerank/text.py\<close>, \<open>rerank_run.py\<close>, \<open>cascade.py\<close>).

  \<^bold>\<open>Learning to rank.\<close>
  \<^item> \<open>Ltr\<close> (\<open>ltr/model.py\<close>, \<open>ltr/data.py\<close>, \<open>ltr/dense_feature.py\<close>): loss, gradient, datasets, feature cache;
    \<open>Log_Sim\<close> (\<open>ltr/logsim.py\<close>): click logs, which count the sessions of a simulation, propensities, IPS weights,
    intervention harvesting;
    \<open>Ltr_Study\<close> (\<open>scripts/m9_ltr.py\<close>): the study built on them and the oracle that bounds every ranker.

  \<^bold>\<open>Conventions.\<close>  A Python \<open>float\<close> and a numpy array element is a real number, so rounding errors of
  binary arithmetic are not modelled; decimal formatting and \<open>round\<close> are.  A value that is NaN or infinite
  where the code meets it is None, or a constructor of its own where the two differ (the norms of
  \<open>Vector_Stream\<close>); the narrowing of a stored score to a 32-bit float is an argument.  A \<open>str\<close> is a \<^typ>\<open>string\<close> (code points below 256).  A Python int is
  an int or a nat; a JSON document is a \<^typ>\<open>json\<close> value, the text of a float an argument of its printer; an element of a binary file is a word of its width.  A dict is an association list with
  distinct keys.  Exceptions are the left values of \<open>res\<close>.  A loop whose end depends on its input
  (draws that must hit, decimals that must become distinct) is a \<open>partial_function\<close> or returns an option,
  and the properties that need it prove that it returns; no fuel is used except where the code has
  a bound of its own.  Files are their contents, a file system a function from paths; a crash is a prefix
  of the list of durable writes.  Random generators, hash functions, sorting routines without a stable
  order, optimizers, networks, search indexes and the distribution functions of scipy are arguments, with
  their documented behaviour as named hypotheses where a property needs it.

  \<^bold>\<open>Not modelled.\<close>  Calls of a network or index library without logic of their own (loading, exporting and
  quantising networks); drawing and dashboards; JSON escapes above \<open>u00FF\<close>; command lines, printing and progress output; clocks, except where what they read is kept (then it is an argument).
\<close>

end
